(* ===== verification/Prelude.thy ===== *)
theory Prelude imports "HOL-Library.Word" begin

text \<open>Shared vocabulary of the development: the machine types of the target (an STM32F103,
  little endian, 32-bit longs), byte lists and the operations the C code performs on raw memory
  (reading a window of a buffer, overwriting a window, little-endian stores and loads), and the
  collections of rewrite rules the component theories add to.\<close>

unbundle bit_operations_syntax

type_synonym u8 = "8 word"
type_synonym u16 = "16 word"
type_synonym u32 = "32 word"
type_synonym bytes = "8 word list"

named_theorems layout "lengths and offsets of the packed structures"
named_theorems io_simps "characteristic equations of the file operations"

subsection \<open>Windows of a byte buffer\<close>

definition window :: "nat \<Rightarrow> nat \<Rightarrow> 'a list \<Rightarrow> 'a list" where
  "window p n xs = take n (drop p xs)"

definition overwrite :: "nat \<Rightarrow> 'a list \<Rightarrow> 'a list \<Rightarrow> 'a list" where
  "overwrite p ys xs = take p xs @ ys @ drop (p + length ys) xs"

lemma length_window [simp]: "length (window p n xs) = min n (length xs - p)"
  by (simp add: window_def)

lemma window_0 [simp]: "window p 0 xs = []"
  by (simp add: window_def)

lemma window_all [simp]: "window 0 (length xs) xs = xs"
  by (simp add: window_def)

lemma nth_window: "p + i < length xs \<Longrightarrow> i < n \<Longrightarrow> window p n xs ! i = xs ! (p + i)"
  by (simp add: window_def)

lemma nth_window0: "i < length xs \<Longrightarrow> i < n \<Longrightarrow> window 0 n xs ! i = xs ! i"
  by (simp add: window_def)

lemma window_append1: "p + n \<le> length xs \<Longrightarrow> window p n (xs @ ys) = window p n xs"
  by (simp add: window_def)

lemma window_append2: "length xs \<le> p \<Longrightarrow> window p n (xs @ ys) = window (p - length xs) n ys"
  by (simp add: window_def)

lemma window_window: "q + m \<le> n \<Longrightarrow> window q m (window p n xs) = window (p + q) m xs"
  by (simp add: window_def drop_take min_def add.commute)

lemma window_take: "p + n \<le> m \<Longrightarrow> window p n (take m xs) = window p n xs"
  by (simp add: window_def drop_take min_def)

lemma window_drop: "window p n (drop m xs) = window (m + p) n xs"
  by (simp add: window_def add.commute)

lemma take_window_drop: "p \<le> length xs \<Longrightarrow> take p xs @ window p n xs @ drop (p + n) xs = xs"
  by (simp add: window_def add.commute flip: drop_drop)

lemma length_overwrite [simp]:
  "p \<le> length xs \<Longrightarrow> length (overwrite p ys xs) = max (length xs) (p + length ys)"
  by (auto simp add: overwrite_def)

lemma window_overwrite_same [simp]:
  "p \<le> length xs \<Longrightarrow> n = length ys \<Longrightarrow> window p n (overwrite p ys xs) = ys"
  by (simp add: overwrite_def window_def)

lemma window_overwrite_inside:
  "p \<le> length xs \<Longrightarrow> p \<le> q \<Longrightarrow> q + n \<le> p + length ys
   \<Longrightarrow> window q n (overwrite p ys xs) = window (q - p) n ys"
  by (simp add: overwrite_def window_def)

lemma window_overwrite_before:
  "p \<le> length xs \<Longrightarrow> q + n \<le> p \<Longrightarrow> window q n (overwrite p ys xs) = window q n xs"
  by (auto simp add: overwrite_def window_def drop_take min_def)

lemma window_overwrite_after:
  assumes "p \<le> length xs" "p + length ys \<le> q"
  shows "window q n (overwrite p ys xs) = window q n xs"
proof (cases "p + length ys \<le> length xs")
  case True
  then show ?thesis using assms by (simp add: overwrite_def window_def)
next
  case False
  then show ?thesis using assms by (simp add: overwrite_def window_def)
qed

lemma overwrite_overwrite:
  "p \<le> length xs \<Longrightarrow> length ys = length zs
   \<Longrightarrow> overwrite p zs (overwrite p ys xs) = overwrite p zs xs"
  by (simp add: overwrite_def)

lemma overwrite_window_id:
  "p + n \<le> length xs \<Longrightarrow> overwrite p (window p n xs) xs = xs"
  using take_window_drop [of p xs n] by (simp add: overwrite_def window_def min_def)

lemma take_overwrite: "p \<le> length xs \<Longrightarrow> take p (overwrite p ys xs) = take p xs"
  by (simp add: overwrite_def)

lemma overwrite_end: "overwrite (length xs) ys xs = xs @ ys"
  by (simp add: overwrite_def)

lemma window_join: "q = p + n \<Longrightarrow> window p n xs @ window q m xs = window p (n + m) xs"
  by (simp add: window_def take_add, simp add: add.commute)

lemma window_join_append: "q = p + n \<Longrightarrow> window p n xs @ window q m xs @ ys = window p (n + m) xs @ ys"
  by (simp add: window_join flip: append_assoc)

lemma window_ge [simp]: "length xs \<le> n \<Longrightarrow> window 0 n xs = xs"
  by (simp add: window_def)

text \<open>The field of a packed structure that starts \<open>p\<close> bytes into a sequence of fields.\<close>

lemma window_head: "length ys = n \<Longrightarrow> window 0 n (ys @ zs) = ys"
  by (simp add: window_def)

lemma window_Cons: "0 < p \<Longrightarrow> window p n (x # xs) = window (p - 1) n xs"
  by (cases p) (simp_all add: window_def)

lemma window_head_Cons: "window 0 (Suc 0) (x # xs) = [x]"
  by (simp add: window_def)

lemmas fields = window_append2 window_head window_Cons window_head_Cons

subsection \<open>Little-endian stores and loads\<close>

definition le16 :: "u16 \<Rightarrow> bytes" where
  "le16 w = [ucast w, ucast (drop_bit 8 w)]"

definition le32 :: "u32 \<Rightarrow> bytes" where
  "le32 w = [ucast w, ucast (drop_bit 8 w), ucast (drop_bit 16 w), ucast (drop_bit 24 w)]"

definition u16_at :: "nat \<Rightarrow> bytes \<Rightarrow> u16" where
  "u16_at p bs = ucast (bs ! p) OR push_bit 8 (ucast (bs ! (p + 1)))"

definition u32_at :: "nat \<Rightarrow> bytes \<Rightarrow> u32" where
  "u32_at p bs = ucast (bs ! p) OR push_bit 8 (ucast (bs ! (p + 1)))
     OR push_bit 16 (ucast (bs ! (p + 2))) OR push_bit 24 (ucast (bs ! (p + 3)))"

lemma length_le16 [simp, layout]: "length (le16 w) = 2"
  by (simp add: le16_def)

lemma length_le32 [simp, layout]: "length (le32 w) = 4"
  by (simp add: le32_def)

lemma u16_at_le16 [simp]: "u16_at 0 (le16 w) = w"
  by (rule bit_word_eqI) (auto simp add: u16_at_def le16_def bit_simps)

lemma u32_at_le32 [simp]: "u32_at 0 (le32 w) = w"
proof (rule bit_word_eqI)
  fix n assume "n < LENGTH(32)"
  then have "n < 8 \<or> (8 \<le> n \<and> n < 16) \<or> (16 \<le> n \<and> n < 24) \<or> (24 \<le> n \<and> n < 32)"
    by simp linarith
  then show "bit (u32_at 0 (le32 w)) n = bit w n"
    by (elim disjE) (auto simp add: u32_at_def le32_def bit_simps)
qed

lemma le16_u16_at: "length bs = 2 \<Longrightarrow> le16 (u16_at 0 bs) = bs"
proof -
  assume "length bs = 2"
  then obtain a b where bs: "bs = [a, b]"
    by (auto simp: length_Suc_conv numeral_2_eq_2)
  have "ucast (u16_at 0 [a, b]) = a" "ucast (drop_bit 8 (u16_at 0 [a, b])) = b"
    by (rule bit_word_eqI; auto simp add: u16_at_def bit_simps dest: bit_imp_le_length)+
  then show ?thesis by (simp add: bs le16_def)
qed

lemma le32_u32_at: "length bs = 4 \<Longrightarrow> le32 (u32_at 0 bs) = bs"
proof -
  assume "length bs = 4"
  then obtain a b c d where bs: "bs = [a, b, c, d]"
    by (auto simp: length_Suc_conv eval_nat_numeral)
  have "ucast (u32_at 0 [a, b, c, d]) = a" "ucast (drop_bit 8 (u32_at 0 [a, b, c, d])) = b"
    "ucast (drop_bit 16 (u32_at 0 [a, b, c, d])) = c"
    "ucast (drop_bit 24 (u32_at 0 [a, b, c, d])) = d"
    by (rule bit_word_eqI; auto simp add: u32_at_def bit_simps dest: bit_imp_le_length)+
  then show ?thesis by (simp add: bs le32_def)
qed

lemma u16_at_window: "p + 2 \<le> length bs \<Longrightarrow> u16_at p bs = u16_at 0 (window p 2 bs)"
  by (simp add: u16_at_def nth_window)

lemma u32_at_window: "p + 4 \<le> length bs \<Longrightarrow> u32_at p bs = u32_at 0 (window p 4 bs)"
  by (simp add: u32_at_def nth_window numeral_3_eq_3)

lemma nth_window1: "p < length bs \<Longrightarrow> [bs ! p] = window p 1 bs"
  by (simp add: window_def take_Suc_conv_app_nth Cons_nth_drop_Suc [symmetric])

lemma nth_window_app: "p < length bs \<Longrightarrow> bs ! p # xs = window p 1 bs @ xs"
  by (simp add: window_def Cons_nth_drop_Suc [symmetric])

lemma le16_at: "p + 2 \<le> length bs \<Longrightarrow> le16 (u16_at p bs) = window p 2 bs"
  by (subst u16_at_window) (auto intro: le16_u16_at)

lemma le32_at: "p + 4 \<le> length bs \<Longrightarrow> le32 (u32_at p bs) = window p 4 bs"
  by (subst u32_at_window) (auto intro: le32_u32_at)

lemma nth_of_window: "window p 1 bs = [x] \<Longrightarrow> p < length bs \<Longrightarrow> bs ! p = x"
  by (metis list.inject nth_window1)

lemma u16_of_window: "window p 2 bs = le16 x \<Longrightarrow> p + 2 \<le> length bs \<Longrightarrow> u16_at p bs = x"
  by (subst u16_at_window) auto

lemma u32_of_window: "window p 4 bs = le32 x \<Longrightarrow> p + 4 \<le> length bs \<Longrightarrow> u32_at p bs = x"
  by (subst u32_at_window) auto

lemma u16_at_window0: "p + 2 \<le> n \<Longrightarrow> n \<le> length xs \<Longrightarrow> u16_at p (window 0 n xs) = u16_at p xs"
  by (simp add: u16_at_def nth_window0)

lemma u32_at_window0: "p + 4 \<le> n \<Longrightarrow> n \<le> length xs \<Longrightarrow> u32_at p (window 0 n xs) = u32_at p xs"
  by (simp add: u32_at_def nth_window0)

subsection \<open>Bounds of word arithmetic\<close>

lemma unat_u8_bound: "unat (w :: u8) < 256"
  using unsigned_less [of w, where 'a = nat] by simp

lemma unat_u16_bound: "unat (w :: u16) < 65536"
  using unsigned_less [of w, where 'a = nat] by simp

lemma unat_u32_bound: "unat (w :: u32) < 4294967296"
  using unsigned_less [of w, where 'a = nat] by simp

lemma unat_of_nat_u8: "n < 256 \<Longrightarrow> unat (of_nat n :: u8) = n"
  by (simp add: unat_of_nat take_bit_nat_eq_self)

lemma unat_of_nat_u16: "n < 65536 \<Longrightarrow> unat (of_nat n :: u16) = n"
  by (simp add: unat_of_nat take_bit_nat_eq_self)

lemma unat_of_nat_u32: "n < 4294967296 \<Longrightarrow> unat (of_nat n :: u32) = n"
  by (simp add: unat_of_nat take_bit_nat_eq_self)

lemma sint_of_int_u32: "- 2147483648 \<le> k \<Longrightarrow> k < 2147483648 \<Longrightarrow> sint (word_of_int k :: u32) = k"
  by (simp add: sint_sbintrunc' signed_take_bit_int_eq_self)

lemma unat_of_int_u32: "0 \<le> k \<Longrightarrow> k < 4294967296 \<Longrightarrow> unat (word_of_int k :: u32) = nat k"
  by (simp add: unat_eq_nat_uint unsigned_of_int take_bit_int_eq_self)

lemma sint_of_nat_u32: "n < 2147483648 \<Longrightarrow> sint (of_nat n :: u32) = int n"
  using sint_of_int_u32 [of "int n"] by simp

lemma word_unat_Rep_inverse: "of_nat (unat (w :: 'a :: len word)) = w"
  by simp

lemma unat_ucast_u16_u32: "unat (ucast (w :: u16) :: u32) = unat w"
proof -
  have "unat (of_nat (unat w) :: u32) = unat w"
    by (rule unat_of_nat_u32) (use unat_u16_bound [of w] in linarith)
  then show ?thesis by simp
qed

lemma unat_ucast_u8_u32: "unat (ucast (w :: u8) :: u32) = unat w"
proof -
  have "unat (of_nat (unat w) :: u32) = unat w"
    by (rule unat_of_nat_u32) (use unat_u8_bound [of w] in linarith)
  then show ?thesis by simp
qed

subsection \<open>Arrays of 16-bit words\<close>

definition le16s :: "u16 list \<Rightarrow> bytes" where
  "le16s ws = concat (map le16 ws)"

definition u16s_at :: "nat \<Rightarrow> nat \<Rightarrow> bytes \<Rightarrow> u16 list" where
  "u16s_at p n bs = map (\<lambda>i. u16_at (p + 2 * i) bs) [0..<n]"

definition rows_at :: "nat \<Rightarrow> nat \<Rightarrow> nat \<Rightarrow> 'a list \<Rightarrow> 'a list list" where
  "rows_at p w n xs = map (\<lambda>i. window (p + w * i) w xs) [0..<n]"

lemma length_le16s [simp, layout]: "length (le16s ws) = 2 * length ws"
  by (induction ws) (simp_all add: le16s_def)

lemma rows_at_Suc: "rows_at p w (Suc n) xs = window p w xs # rows_at (p + w) w n xs"
  by (simp add: rows_at_def upt_rec [of 0] map_Suc_upt [symmetric] add.assoc del: upt_Suc)

lemma rows_at_0 [simp]: "rows_at p w 0 xs = []"
  by (simp add: rows_at_def)

lemma length_rows_at [simp]: "length (rows_at p w n xs) = n"
  by (simp add: rows_at_def)

lemma concat_rows_at: "concat (rows_at p w n xs) = window p (w * n) xs"
proof (induction n arbitrary: p)
  case (Suc n)
  then show ?case by (simp add: rows_at_Suc window_join)
qed simp

lemma rows_at_concat:
  "\<forall>r \<in> set rs. length r = w \<Longrightarrow> rows_at 0 w (length rs) (concat rs) = rs"
proof (induction rs)
  case (Cons r rs)
  have "rows_at w w (length rs) (r @ concat rs) = rows_at 0 w (length rs) (concat rs)"
    using Cons.prems by (simp add: rows_at_def window_append2)
  then show ?case using Cons by (simp add: rows_at_Suc window_head)
qed simp

lemma length_concat_rows: "\<forall>r \<in> set rs. length r = w \<Longrightarrow> length (concat rs) = w * length rs"
  by (induction rs) auto

lemma u16s_at_rows: "p + 2 * n \<le> length bs \<Longrightarrow> u16s_at p n bs = map (u16_at 0) (rows_at p 2 n bs)"
  by (auto simp: u16s_at_def rows_at_def intro!: u16_at_window)

lemma u16s_at_le16s: "length ws = n \<Longrightarrow> u16s_at 0 n (le16s ws) = ws"
proof -
  assume n: "length ws = n"
  have "rows_at 0 2 n (le16s ws) = map le16 ws"
    using rows_at_concat [of "map le16 ws" 2] n by (simp add: le16s_def)
  then show ?thesis
    using n by (simp add: u16s_at_rows comp_def)
qed

lemma le16s_u16s_at: "p + 2 * n \<le> length bs \<Longrightarrow> le16s (u16s_at p n bs) = window p (2 * n) bs"
proof -
  assume a: "p + 2 * n \<le> length bs"
  have "le16 (u16_at 0 r) = r" if "r \<in> set (rows_at p 2 n bs)" for r
    using that a by (intro le16_u16_at) (auto simp: rows_at_def)
  then have "map (\<lambda>r. le16 (u16_at 0 r)) (rows_at p 2 n bs) = rows_at p 2 n bs"
    by (simp add: map_idI)
  then show ?thesis
    using a by (simp add: le16s_def u16s_at_rows concat_rows_at comp_def)
qed

lemma u16s_of_window:
  "window p (2 * n) bs = le16s ws \<Longrightarrow> p + 2 * n \<le> length bs \<Longrightarrow> length ws = n \<Longrightarrow> u16s_at p n bs = ws"
proof -
  assume a: "window p (2 * n) bs = le16s ws" "p + 2 * n \<le> length bs" "length ws = n"
  have "u16s_at p n bs = u16s_at 0 n (window p (2 * n) bs)"
    using a(2) by (auto simp: u16s_at_def u16_at_def nth_window)
  then show ?thesis using a by (simp add: u16s_at_le16s)
qed

text \<open>An error code of rtdef.h that the bus framework and the device framework share.\<close>

definition RT_EBUSY :: int where "RT_EBUSY = 7"
definition RT_ENOMEM :: int where "RT_ENOMEM = 5"
definition RT_EEMPTY :: int where "RT_EEMPTY = 4"

end
