(* ===== verification/SpiBus.thy ===== *)
theory SpiBus imports Prelude begin

text \<open>The SPI bus of the two card readers: the driver of the bus (spi_bus.c) and the transfers of the
  framework (spi_core.c).  The hardware is the parameter \<open>spi_env\<close>: the chip select line of a device, the
  exchange of one data word and the setting of the control registers act on an unknown state \<open>'c\<close>; waiting
  for the flags of the unit is part of the exchange.  Whether the lock of the bus is obtained is a parameter
  too; the mutex itself is the one of the kernel.\<close>

subsection \<open>The bus\<close>

definition RT_SPI_CPHA :: u8 where "RT_SPI_CPHA = 1"
definition RT_SPI_CPOL :: u8 where "RT_SPI_CPOL = 2"
definition RT_SPI_MSB :: u8 where "RT_SPI_MSB = 4"
definition RT_SPI_MODE_MASK :: u8 where "RT_SPI_MODE_MASK = 7"
definition RT_EIO :: int where "RT_EIO = 8"

record spi_conf =
  conf_mode :: u8
  data_width :: u8
  max_hz :: u32

record spi_init =
  size_16 :: bool
  prescaler :: nat
  cpol_high :: bool
  cpha_2edge :: bool
  msb_first :: bool

record 'c spi_env =
  hw_cs :: "nat \<Rightarrow> bool \<Rightarrow> 'c \<Rightarrow> 'c"
  hw_data :: "u16 \<Rightarrow> 'c \<Rightarrow> u16 \<times> 'c"
  hw_init :: "spi_init \<Rightarrow> 'c \<Rightarrow> 'c"
  core_clock :: u32
  is_spi1 :: bool
  lock_result :: int

record 'c spi =
  spi_owner :: "nat option"
  spi_config :: "nat \<Rightarrow> spi_conf"
  spi_errno :: int
  spi_lock :: nat
  chip :: 'c

text \<open>A message; only its length and whether there is a receive buffer matter on that side.\<close>

record spi_msg =
  send_buf :: "bytes option"
  recv_buf :: bool
  m_length :: nat
  cs_take :: bool
  cs_release :: bool

subsection \<open>The driver\<close>

definition spi_prescaler :: "u32 \<Rightarrow> u32 \<Rightarrow> nat" where
  "spi_prescaler clock hz = (let hz = min hz 36000000 in
     if clock div 2 \<le> hz then 2 else if clock div 4 \<le> hz then 4 else if clock div 8 \<le> hz then 8
     else if clock div 16 \<le> hz then 16 else if clock div 32 \<le> hz then 32 else if clock div 64 \<le> hz then 64
     else if clock div 128 \<le> hz then 128 else 256)"

definition spi_regs :: "'c spi_env \<Rightarrow> spi_conf \<Rightarrow> spi_init" where
  "spi_regs H c = \<lparr>size_16 = (8 < data_width c),
     prescaler = spi_prescaler (if is_spi1 H then core_clock H else core_clock H div 2) (max_hz c),
     cpol_high = (conf_mode c AND RT_SPI_CPOL \<noteq> 0), cpha_2edge = (conf_mode c AND RT_SPI_CPHA \<noteq> 0),
     msb_first = (conf_mode c AND RT_SPI_MSB \<noteq> 0)\<rparr>"

definition spi_configure :: "'c spi_env \<Rightarrow> spi_conf \<Rightarrow> 'c \<Rightarrow> int \<times> 'c" where
  "spi_configure H c x = (if 16 < data_width c then (RT_EIO, x) else (0, hw_init H (spi_regs H c) x))"

fun xfer8 :: "'c spi_env \<Rightarrow> bytes option \<Rightarrow> nat \<Rightarrow> 'c \<Rightarrow> bytes \<times> 'c" where
  "xfer8 H send 0 x = ([], x)"
| "xfer8 H send (Suc n) x = (let d = (case send of None \<Rightarrow> 0xff | Some bs \<Rightarrow> hd bs) in
     case hw_data H (ucast d) x of (r, x1) \<Rightarrow>
     case xfer8 H (map_option tl send) n x1 of (rs, x2) \<Rightarrow> (ucast r # rs, x2))"

fun xfer16 :: "'c spi_env \<Rightarrow> bytes option \<Rightarrow> nat \<Rightarrow> 'c \<Rightarrow> bytes \<times> 'c" where
  "xfer16 H send 0 x = ([], x)"
| "xfer16 H send (Suc n) x = (let d = (case send of None \<Rightarrow> 0xff | Some bs \<Rightarrow> ucast (bs ! 0) OR push_bit 8 (ucast (bs ! 1))) in
     case hw_data H d x of (r, x1) \<Rightarrow>
     case xfer16 H (map_option (drop 2) send) n x1 of (rs, x2) \<Rightarrow> (ucast r # ucast (drop_bit 8 r) # rs, x2))"

text \<open>One message to device \<open>d\<close>: the length, the bytes received and the bus; \<open>None\<close> when the send buffer is
  shorter than the message.\<close>

definition spi_xfer :: "'c spi_env \<Rightarrow> nat \<Rightarrow> spi_conf \<Rightarrow> spi_msg \<Rightarrow> 'c \<Rightarrow> (nat \<times> bytes \<times> 'c) option" where
  "spi_xfer H d c m x = (let w = data_width c; n = m_length m in
     if w \<le> 16 \<and> (\<exists>bs. send_buf m = Some bs \<and> length bs < (if w \<le> 8 then n else 2 * n)) then None
     else (let x1 = (if cs_take m then hw_cs H d False x else x) in
       case (if w \<le> 8 then xfer8 H (send_buf m) n x1 else if w \<le> 16 then xfer16 H (send_buf m) n x1 else ([], x1)) of
         (rs, x2) \<Rightarrow> Some (n, if recv_buf m then rs else [], if cs_release m then hw_cs H d True x2 else x2)))"

subsection \<open>The framework\<close>

definition lock_bus :: "'c spi \<Rightarrow> 'c spi" where
  "lock_bus S = S\<lparr>spi_lock := spi_lock S + 1\<rparr>"

definition unlock_bus :: "'c spi \<Rightarrow> 'c spi" where
  "unlock_bus S = S\<lparr>spi_lock := spi_lock S - 1\<rparr>"

text \<open>Setting up the bus for a device that used it last for another one.\<close>

definition own_bus :: "'c spi_env \<Rightarrow> nat \<Rightarrow> 'c spi \<Rightarrow> bool \<times> 'c spi" where
  "own_bus H d S = (if spi_owner S = Some d then (True, S)
     else (case spi_configure H (spi_config S d) (chip S) of (r, x) \<Rightarrow>
       if r = 0 then (True, S\<lparr>chip := x, spi_owner := Some d\<rparr>) else (False, S\<lparr>chip := x\<rparr>)))"

definition bus_xfer :: "'c spi_env \<Rightarrow> nat \<Rightarrow> spi_msg \<Rightarrow> 'c spi \<Rightarrow> (nat \<times> bytes \<times> 'c spi) option" where
  "bus_xfer H d m S = (case spi_xfer H d (spi_config S d) m (chip S) of None \<Rightarrow> None
     | Some (n, rs, x) \<Rightarrow> Some (n, rs, S\<lparr>chip := x\<rparr>))"

definition rt_spi_configure :: "'c spi_env \<Rightarrow> nat \<Rightarrow> spi_conf \<Rightarrow> 'c spi \<Rightarrow> int \<times> 'c spi" where
  "rt_spi_configure H d c S = (let
       S1 = S\<lparr>spi_config := (spi_config S)(d := c\<lparr>conf_mode := conf_mode c AND RT_SPI_MODE_MASK\<rparr>)\<rparr> in
     (0, if lock_result H = 0 \<and> spi_owner S1 = Some d then S1\<lparr>chip := snd (spi_configure H (spi_config S1 d) (chip S1))\<rparr> else S1))"

text \<open>Attaching a device: whether the bus is found and the device is registered is up to the device manager.\<close>

definition rt_spi_bus_attach_device :: "bool \<Rightarrow> int \<Rightarrow> nat \<Rightarrow> 'c spi \<Rightarrow> int \<times> 'c spi" where
  "rt_spi_bus_attach_device bus_found dev_result d S = (if \<not> bus_found then (- 1, S)
     else if dev_result \<noteq> 0 then (dev_result, S)
     else (0, S\<lparr>spi_config := (spi_config S)(d := \<lparr>conf_mode = 0, data_width = 0, max_hz = 0\<rparr>)\<rparr>))"

text \<open>Two messages with the select line held low in between.\<close>

definition two_messages :: "'c spi_env \<Rightarrow> nat \<Rightarrow> spi_msg \<Rightarrow> spi_msg \<Rightarrow> 'c spi \<Rightarrow> (int \<times> bytes \<times> 'c spi) option" where
  "two_messages H d m1 m2 S = (if lock_result H \<noteq> 0 then Some (- RT_EIO, [], S)
     else (case own_bus H d (lock_bus S) of
         (False, S1) \<Rightarrow> Some (- RT_EIO, [], unlock_bus S1)
       | (True, S1) \<Rightarrow> (case bus_xfer H d m1 S1 of None \<Rightarrow> None
           | Some (n1, r1, S2) \<Rightarrow> if n1 = 0 then Some (- RT_EIO, [], unlock_bus S2)
             else (case bus_xfer H d m2 S2 of None \<Rightarrow> None
               | Some (n2, r2, S3) \<Rightarrow> if n2 = 0 then Some (- RT_EIO, [], unlock_bus S3) else Some (0, r2, unlock_bus S3)))))"

definition rt_spi_send_then_send :: "'c spi_env \<Rightarrow> nat \<Rightarrow> bytes \<Rightarrow> nat \<Rightarrow> bytes \<Rightarrow> nat \<Rightarrow> 'c spi \<Rightarrow> (int \<times> bytes \<times> 'c spi) option" where
  "rt_spi_send_then_send H d b1 n1 b2 n2 S = two_messages H d
     \<lparr>send_buf = Some b1, recv_buf = False, m_length = n1, cs_take = True, cs_release = False\<rparr>
     \<lparr>send_buf = Some b2, recv_buf = False, m_length = n2, cs_take = False, cs_release = True\<rparr> S"

definition rt_spi_send_then_recv :: "'c spi_env \<Rightarrow> nat \<Rightarrow> bytes \<Rightarrow> nat \<Rightarrow> nat \<Rightarrow> 'c spi \<Rightarrow> (int \<times> bytes \<times> 'c spi) option" where
  "rt_spi_send_then_recv H d b1 n1 n2 S = two_messages H d
     \<lparr>send_buf = Some b1, recv_buf = False, m_length = n1, cs_take = True, cs_release = False\<rparr>
     \<lparr>send_buf = None, recv_buf = True, m_length = n2, cs_take = False, cs_release = True\<rparr> S"

definition rt_spi_transfer :: "'c spi_env \<Rightarrow> nat \<Rightarrow> bytes option \<Rightarrow> bool \<Rightarrow> nat \<Rightarrow> 'c spi \<Rightarrow> (nat \<times> bytes \<times> 'c spi) option" where
  "rt_spi_transfer H d send recv n S = (if lock_result H \<noteq> 0 then Some (0, [], S\<lparr>spi_errno := - RT_EIO\<rparr>)
     else (case own_bus H d (lock_bus S) of
         (False, S1) \<Rightarrow> Some (0, [], unlock_bus (S1\<lparr>spi_errno := - RT_EIO\<rparr>))
       | (True, S1) \<Rightarrow> (case bus_xfer H d \<lparr>send_buf = send, recv_buf = recv, m_length = n, cs_take = True, cs_release = True\<rparr> S1 of
           None \<Rightarrow> None
         | Some (k, rs, S2) \<Rightarrow> Some (k, rs, unlock_bus (if k = 0 then S2\<lparr>spi_errno := - RT_EIO\<rparr> else S2)))))"

text \<open>A chain of messages: what is left of it, and what each message received.\<close>

fun spi_messages :: "'c spi_env \<Rightarrow> nat \<Rightarrow> spi_msg list \<Rightarrow> 'c spi \<Rightarrow> (spi_msg list \<times> bytes list \<times> 'c spi) option" where
  "spi_messages H d [] S = Some ([], [], S)"
| "spi_messages H d (m # ms) S = (case bus_xfer H d m S of None \<Rightarrow> None
     | Some (n, rs, S1) \<Rightarrow> if n = 0 then Some (m # ms, [rs], S1\<lparr>spi_errno := - RT_EIO\<rparr>)
       else (case spi_messages H d ms S1 of None \<Rightarrow> None
         | Some (left, rss, S2) \<Rightarrow> Some (left, rs # rss, S2)))"

definition rt_spi_transfer_message :: "'c spi_env \<Rightarrow> nat \<Rightarrow> spi_msg list \<Rightarrow> 'c spi \<Rightarrow> (spi_msg list \<times> bytes list \<times> 'c spi) option" where
  "rt_spi_transfer_message H d ms S = (if ms = [] then Some ([], [], S)
     else if lock_result H \<noteq> 0 then Some (ms, [], S\<lparr>spi_errno := - RT_EBUSY\<rparr>)
     else (case own_bus H d ((lock_bus S)\<lparr>spi_errno := 0\<rparr>) of
         (False, S1) \<Rightarrow> Some (ms, [], unlock_bus (S1\<lparr>spi_errno := - RT_EIO\<rparr>))
       | (True, S1) \<Rightarrow> map_option (\<lambda>(left, rss, S2). (left, rss, unlock_bus S2)) (spi_messages H d ms S1)))"

definition rt_spi_take_bus :: "'c spi_env \<Rightarrow> nat \<Rightarrow> 'c spi \<Rightarrow> int \<times> 'c spi" where
  "rt_spi_take_bus H d S = (if lock_result H \<noteq> 0 then (- RT_EBUSY, S\<lparr>spi_errno := - RT_EBUSY\<rparr>)
     else (case own_bus H d ((lock_bus S)\<lparr>spi_errno := 0\<rparr>) of
         (False, S1) \<Rightarrow> (- RT_EIO, unlock_bus (S1\<lparr>spi_errno := - RT_EIO\<rparr>))
       | (True, S1) \<Rightarrow> (0, S1)))"

text \<open>\<open>None\<close>: the assertion that the device owns the bus.\<close>

definition rt_spi_release_bus :: "nat \<Rightarrow> 'c spi \<Rightarrow> (int \<times> 'c spi) option" where
  "rt_spi_release_bus d S = (if spi_owner S \<noteq> Some d then None else Some (0, unlock_bus S))"

definition rt_spi_take :: "'c spi_env \<Rightarrow> nat \<Rightarrow> 'c spi \<Rightarrow> (nat \<times> bytes \<times> 'c spi) option" where
  "rt_spi_take H d S = bus_xfer H d \<lparr>send_buf = None, recv_buf = False, m_length = 0, cs_take = True, cs_release = False\<rparr> S"

definition rt_spi_release :: "'c spi_env \<Rightarrow> nat \<Rightarrow> 'c spi \<Rightarrow> (nat \<times> bytes \<times> 'c spi) option" where
  "rt_spi_release H d S = bus_xfer H d \<lparr>send_buf = None, recv_buf = False, m_length = 0, cs_take = False, cs_release = True\<rparr> S"

lemmas spi_ops = rt_spi_send_then_send_def rt_spi_send_then_recv_def rt_spi_transfer_def two_messages_def

subsection \<open>The lock is given back\<close>

lemma lock_bus_simps [simp]: "spi_lock (lock_bus S) = Suc (spi_lock S)" "spi_lock (unlock_bus S) = spi_lock S - 1"
  "chip (lock_bus S) = chip S" "chip (unlock_bus S) = chip S" "spi_config (lock_bus S) = spi_config S" "spi_config (unlock_bus S) = spi_config S"
  "spi_owner (lock_bus S) = spi_owner S" "spi_owner (unlock_bus S) = spi_owner S"
  by (simp_all add: lock_bus_def unlock_bus_def)

lemma own_bus_lock [simp]: "spi_lock (snd (own_bus H d S)) = spi_lock S" "spi_config (snd (own_bus H d S)) = spi_config S"
  by (auto simp: own_bus_def split: prod.split)

lemma bus_xfer_lock: "bus_xfer H d m S = Some (n, rs, S') \<Longrightarrow> spi_lock S' = spi_lock S \<and> spi_config S' = spi_config S \<and> spi_owner S' = spi_owner S"
  by (auto simp: bus_xfer_def split: option.splits prod.splits)

lemma messages_lock: "spi_messages H d ms S = Some (l, rss, S') \<Longrightarrow> spi_lock S' = spi_lock S \<and> spi_config S' = spi_config S \<and> spi_owner S' = spi_owner S"
  by (induction ms arbitrary: S l rss S') (auto split: option.splits prod.splits if_splits dest!: bus_xfer_lock)

lemma own_bus_lockD: "own_bus H d S = (b, S') \<Longrightarrow> spi_lock S' = spi_lock S \<and> spi_config S' = spi_config S"
  using own_bus_lock [of H d S] by simp

lemma transfers_release_lock:
  "two_messages H d m1 m2 S = Some (r, rs, S') \<Longrightarrow> spi_lock S' = spi_lock S"
  "rt_spi_transfer H d send recv n S = Some (k, rs, S') \<Longrightarrow> spi_lock S' = spi_lock S"
  "rt_spi_transfer_message H d ms S = Some (l, rss, S') \<Longrightarrow> spi_lock S' = spi_lock S"
  by (auto simp: two_messages_def rt_spi_transfer_def rt_spi_transfer_message_def split: if_splits prod.splits bool.splits option.splits
    dest!: own_bus_lockD bus_xfer_lock messages_lock)

end
