(* ===== verification/Rc522.thy ===== *)
theory Rc522 imports SpiBus "HOL-Library.Monad_Syntax" begin

text \<open>rc522.c: the driver of the two card readers.  Every operation is a sequence of register accesses over the
  SPI bus; the reader chips and the cards are the hardware behind the bus.  The content of the buffers a function
  does not initialise is an argument, \<open>u\<close>.  Delays are left out.\<close>

definition MI_OK :: int where "MI_OK = 0"
definition MI_NOTAGERR :: int where "MI_NOTAGERR = 1"
definition MI_ERR :: int where "MI_ERR = 2"
definition MAXRLEN :: nat where "MAXRLEN = 18"

definition PCD_IDLE :: u8 where "PCD_IDLE = 0"
definition PCD_AUTHENT :: u8 where "PCD_AUTHENT = 0x0E"
definition PCD_TRANSCEIVE :: u8 where "PCD_TRANSCEIVE = 0x0C"
definition PCD_RESETPHASE :: u8 where "PCD_RESETPHASE = 0x0F"
definition PCD_CALCCRC :: u8 where "PCD_CALCCRC = 3"

definition CommandReg :: u8 where "CommandReg = 0x01"
definition ComIEnReg :: u8 where "ComIEnReg = 0x02"
definition ComIrqReg :: u8 where "ComIrqReg = 0x04"
definition DivIrqReg :: u8 where "DivIrqReg = 0x05"
definition ErrorReg :: u8 where "ErrorReg = 0x06"
definition Status2Reg :: u8 where "Status2Reg = 0x08"
definition FIFODataReg :: u8 where "FIFODataReg = 0x09"
definition FIFOLevelReg :: u8 where "FIFOLevelReg = 0x0A"
definition ControlReg :: u8 where "ControlReg = 0x0C"
definition BitFramingReg :: u8 where "BitFramingReg = 0x0D"
definition CollReg :: u8 where "CollReg = 0x0E"
definition ModeReg :: u8 where "ModeReg = 0x11"
definition TxControlReg :: u8 where "TxControlReg = 0x14"
definition TxAutoReg :: u8 where "TxAutoReg = 0x15"
definition RxSelReg :: u8 where "RxSelReg = 0x17"
definition CRCResultRegM :: u8 where "CRCResultRegM = 0x21"
definition CRCResultRegL :: u8 where "CRCResultRegL = 0x22"
definition RFCfgReg :: u8 where "RFCfgReg = 0x26"
definition TModeReg :: u8 where "TModeReg = 0x2A"
definition TPrescalerReg :: u8 where "TPrescalerReg = 0x2B"
definition TReloadRegH :: u8 where "TReloadRegH = 0x2C"
definition TReloadRegL :: u8 where "TReloadRegL = 0x2D"

definition PICC_REQALL :: u8 where "PICC_REQALL = 0x52"
definition PICC_ANTICOLL1 :: u8 where "PICC_ANTICOLL1 = 0x93"
definition PICC_READ :: u8 where "PICC_READ = 0x30"
definition PICC_WRITE :: u8 where "PICC_WRITE = 0xA0"
definition PICC_RESTORE :: u8 where "PICC_RESTORE = 0xC2"
definition PICC_TRANSFER :: u8 where "PICC_TRANSFER = 0xB0"
definition PICC_HALT :: u8 where "PICC_HALT = 0x50"

lemmas mi_codes = MI_OK_def MI_NOTAGERR_def MI_ERR_def

record 'c rc522 =
  bus :: "'c spi"
  rc_writeBuf :: bytes
  rc_readBuf :: bytes
  rc_dev :: nat
  rc_ct :: bytes
  rc_snr :: bytes

subsection \<open>Arrays of a fixed size\<close>

text \<open>Storing bytes into an array and reading the first bytes of one; \<open>None\<close> when the access leaves the array.\<close>

definition put_in :: "nat \<Rightarrow> bytes \<Rightarrow> bytes \<Rightarrow> bytes option" where
  "put_in p ys xs = (if p + length ys \<le> length xs then Some (overwrite p ys xs) else None)"

definition take_in :: "nat \<Rightarrow> bytes \<Rightarrow> bytes option" where
  "take_in n xs = (if n \<le> length xs then Some (take n xs) else None)"

subsection \<open>Registers\<close>

definition rc_transfer :: "'c spi_env \<Rightarrow> nat \<Rightarrow> bool \<Rightarrow> 'c rc522 \<Rightarrow> 'c rc522 option" where
  "rc_transfer H n release R = (case rt_spi_transfer_message H (rc_dev R)
       [\<lparr>send_buf = Some (rc_writeBuf R), recv_buf = True, m_length = n, cs_take = True, cs_release = release\<rparr>] (bus R) of
     None \<Rightarrow> None
   | Some (left, rss, S) \<Rightarrow> (case put_in 0 (concat rss) (rc_readBuf R) of None \<Rightarrow> None
       | Some buf \<Rightarrow> Some (R\<lparr>bus := S, rc_readBuf := buf\<rparr>)))"

definition ReadRawRC :: "'c spi_env \<Rightarrow> u8 \<Rightarrow> 'c rc522 \<Rightarrow> (u8 \<times> 'c rc522) option" where
  "ReadRawRC H reg R = do {
     R1 \<leftarrow> rc_transfer H 1 False (R\<lparr>rc_writeBuf := (rc_writeBuf R)[0 := (push_bit 1 reg AND 0x7E) OR 0x80]\<rparr>);
     R2 \<leftarrow> rc_transfer H 1 True (R1\<lparr>rc_writeBuf := (rc_writeBuf R1)[0 := 0]\<rparr>);
     Some (rc_readBuf R2 ! 0, R2) }"

definition WriteRawRC :: "'c spi_env \<Rightarrow> u8 \<Rightarrow> u8 \<Rightarrow> 'c rc522 \<Rightarrow> 'c rc522 option" where
  "WriteRawRC H reg v R = rc_transfer H 2 True (R\<lparr>rc_writeBuf := (rc_writeBuf R)[0 := push_bit 1 reg AND 0x7E, 1 := v]\<rparr>)"

definition SetBitMask :: "'c spi_env \<Rightarrow> u8 \<Rightarrow> u8 \<Rightarrow> 'c rc522 \<Rightarrow> 'c rc522 option" where
  "SetBitMask H reg m R = do { (v, R) \<leftarrow> ReadRawRC H reg R; WriteRawRC H reg (v OR m) R }"

definition ClearBitMask :: "'c spi_env \<Rightarrow> u8 \<Rightarrow> u8 \<Rightarrow> 'c rc522 \<Rightarrow> 'c rc522 option" where
  "ClearBitMask H reg m R = do { (v, R) \<leftarrow> ReadRawRC H reg R; WriteRawRC H reg (v AND NOT m) R }"

text \<open>Several bytes into and out of the FIFO.\<close>

fun fifo_write :: "'c spi_env \<Rightarrow> bytes \<Rightarrow> 'c rc522 \<Rightarrow> 'c rc522 option" where
  "fifo_write H [] R = Some R"
| "fifo_write H (b # bs) R = do { R \<leftarrow> WriteRawRC H FIFODataReg b R; fifo_write H bs R }"

fun fifo_read :: "'c spi_env \<Rightarrow> nat \<Rightarrow> 'c rc522 \<Rightarrow> (bytes \<times> 'c rc522) option" where
  "fifo_read H 0 R = Some ([], R)"
| "fifo_read H (Suc n) R = do { (b, R) \<leftarrow> ReadRawRC H FIFODataReg R; (bs, R) \<leftarrow> fifo_read H n R; Some (b # bs, R) }"

text \<open>Reading a register until one of the bits of \<open>m\<close> is set, \<open>k\<close> times at most; what was read last and how
  many tries were left.\<close>

fun poll :: "'c spi_env \<Rightarrow> u8 \<Rightarrow> u8 \<Rightarrow> nat \<Rightarrow> 'c rc522 \<Rightarrow> (u8 \<times> nat \<times> 'c rc522) option" where
  "poll H reg m 0 R = Some (0, 0, R)"
| "poll H reg m (Suc k) R = do { (n, R) \<leftarrow> ReadRawRC H reg R;
     if k \<noteq> 0 \<and> n AND m = 0 then poll H reg m k R else Some (n, k, R) }"

subsection \<open>Commands\<close>

text \<open>Sending \<open>cmd\<close> with the first \<open>len\<close> bytes of the buffer; the status, the number of bits received (if it
  is stored), and the buffer.\<close>

definition rx_bits :: "u8 \<Rightarrow> u8 \<Rightarrow> u8" where
  "rx_bits n last_bits = (if last_bits \<noteq> 0 then (n - 1) * 8 + last_bits else n * 8)"

definition rx_bytes :: "u8 \<Rightarrow> nat" where
  "rx_bytes n = (let n = (if n = 0 then 1 else unat n) in if MAXRLEN < n then MAXRLEN else n)"

definition PcdReceive :: "'c spi_env \<Rightarrow> u8 \<Rightarrow> u8 \<Rightarrow> bytes \<Rightarrow> 'c rc522 \<Rightarrow> (int \<times> u8 option \<times> bytes \<times> 'c rc522) option" where
  "PcdReceive H cmd irq buf R = do {
     (e, R) \<leftarrow> ReadRawRC H ErrorReg R;
     if e AND 0x1B \<noteq> 0 then Some (MI_ERR, None, buf, R)
     else let status = (if irq AND 1 \<noteq> 0 then MI_NOTAGERR else MI_OK) in
       if cmd \<noteq> PCD_TRANSCEIVE then Some (status, None, buf, R)
       else do {
         (n, R) \<leftarrow> ReadRawRC H FIFOLevelReg R;
         (l, R) \<leftarrow> ReadRawRC H ControlReg R;
         (bs, R) \<leftarrow> fifo_read H (rx_bytes n) R;
         buf \<leftarrow> put_in 0 bs buf;
         Some (status, Some (rx_bits n (l AND 7)), buf, R) } }"

definition PcdComMF522 :: "'c spi_env \<Rightarrow> u8 \<Rightarrow> bytes \<Rightarrow> nat \<Rightarrow> 'c rc522 \<Rightarrow> (int \<times> u8 option \<times> bytes \<times> 'c rc522) option" where
  "PcdComMF522 H cmd buf len R = (let
       irqEn = (if cmd = PCD_AUTHENT then 0x12 else if cmd = PCD_TRANSCEIVE then 0x77 else 0);
       waitFor = (if cmd = PCD_AUTHENT then 0x10 else if cmd = PCD_TRANSCEIVE then 0x30 else 0) in do {
     R \<leftarrow> WriteRawRC H ComIEnReg (irqEn OR 0x80) R;
     R \<leftarrow> ClearBitMask H ComIrqReg 0x80 R;
     R \<leftarrow> WriteRawRC H CommandReg PCD_IDLE R;
     R \<leftarrow> SetBitMask H FIFOLevelReg 0x80 R;
     out \<leftarrow> take_in len buf;
     R \<leftarrow> fifo_write H out R;
     R \<leftarrow> WriteRawRC H CommandReg cmd R;
     R \<leftarrow> (if cmd = PCD_TRANSCEIVE then SetBitMask H BitFramingReg 0x80 R else Some R);
     (n, i, R) \<leftarrow> poll H ComIrqReg (1 OR waitFor) 256 R;
     R \<leftarrow> ClearBitMask H BitFramingReg 0x80 R;
     (st, bits, buf, R) \<leftarrow> (if i \<noteq> 0 then PcdReceive H cmd (n AND irqEn) buf R else Some (MI_ERR, None, buf, R));
     R \<leftarrow> SetBitMask H ControlReg 0x80 R;
     R \<leftarrow> WriteRawRC H CommandReg PCD_IDLE R;
     Some (st, bits, buf, R) })"

definition CalulateCRC :: "'c spi_env \<Rightarrow> bytes \<Rightarrow> 'c rc522 \<Rightarrow> (bytes \<times> 'c rc522) option" where
  "CalulateCRC H bs R = do {
     R \<leftarrow> ClearBitMask H DivIrqReg 0x04 R;
     R \<leftarrow> WriteRawRC H CommandReg PCD_IDLE R;
     R \<leftarrow> SetBitMask H FIFOLevelReg 0x80 R;
     R \<leftarrow> fifo_write H bs R;
     R \<leftarrow> WriteRawRC H CommandReg PCD_CALCCRC R;
     (n, i, R) \<leftarrow> poll H DivIrqReg 4 255 R;
     (l, R) \<leftarrow> ReadRawRC H CRCResultRegL R;
     (h, R) \<leftarrow> ReadRawRC H CRCResultRegM R;
     Some ([l, h], R) }"

subsection \<open>The reader\<close>

definition PcdAntennaOn :: "'c spi_env \<Rightarrow> 'c rc522 \<Rightarrow> 'c rc522 option" where
  "PcdAntennaOn H R = do { (i, R) \<leftarrow> ReadRawRC H TxControlReg R;
     if i AND 3 = 0 then SetBitMask H TxControlReg 3 R else Some R }"

definition PcdAntennaOff :: "'c spi_env \<Rightarrow> 'c rc522 \<Rightarrow> 'c rc522 option" where
  "PcdAntennaOff H R = ClearBitMask H TxControlReg 3 R"

fun write_regs :: "'c spi_env \<Rightarrow> (u8 \<times> u8) list \<Rightarrow> 'c rc522 \<Rightarrow> 'c rc522 option" where
  "write_regs H [] R = Some R"
| "write_regs H ((r, v) # rs) R = do { R \<leftarrow> WriteRawRC H r v R; write_regs H rs R }"

definition PcdReset :: "'c spi_env \<Rightarrow> 'c rc522 \<Rightarrow> (int \<times> 'c rc522) option" where
  "PcdReset H R = do { R \<leftarrow> write_regs H [(CommandReg, PCD_RESETPHASE), (CommandReg, PCD_RESETPHASE), (ModeReg, 0x3D),
     (TReloadRegL, 30), (TReloadRegH, 0), (TModeReg, 0x8D), (TPrescalerReg, 0x3E), (TxAutoReg, 0x40)] R; Some (MI_OK, R) }"

definition M500PcdConfigISOType :: "'c spi_env \<Rightarrow> u8 \<Rightarrow> 'c rc522 \<Rightarrow> (int \<times> 'c rc522) option" where
  "M500PcdConfigISOType H type R = (if type \<noteq> 0x41 then Some (1, R) else do {
     R \<leftarrow> ClearBitMask H Status2Reg 0x08 R;
     R \<leftarrow> write_regs H [(ModeReg, 0x3D), (RxSelReg, 0x86), (RFCfgReg, 0x7F), (TReloadRegL, 30), (TReloadRegH, 0),
       (TModeReg, 0x8D), (TPrescalerReg, 0x3E)] R;
     R \<leftarrow> PcdAntennaOn H R;
     Some (MI_OK, R) })"

definition Reset_RC522 :: "'c spi_env \<Rightarrow> 'c rc522 \<Rightarrow> 'c rc522 option" where
  "Reset_RC522 H R = do { (r, R) \<leftarrow> PcdReset H R; R \<leftarrow> PcdAntennaOff H R; PcdAntennaOn H R }"

text \<open>The configuration of one reader: the bus, the pulse on its reset line (\<open>rst\<close>) and the registers.\<close>

definition rc_config :: spi_conf where
  "rc_config = \<lparr>conf_mode = RT_SPI_MSB, data_width = 8, max_hz = 10000000\<rparr>"

definition init_reader :: "'c spi_env \<Rightarrow> (nat \<Rightarrow> bool \<Rightarrow> 'c \<Rightarrow> 'c) \<Rightarrow> nat \<Rightarrow> 'c rc522 \<Rightarrow> 'c rc522 option" where
  "init_reader H rst d R = do {
     let S = snd (rt_spi_configure H d rc_config (bus R));
     let S = S\<lparr>chip := rst d True (rst d False (rst d True (chip S)))\<rparr>;
     (r, R) \<leftarrow> PcdReset H (R\<lparr>bus := S, rc_dev := d\<rparr>);
     R \<leftarrow> PcdAntennaOff H R;
     R \<leftarrow> PcdAntennaOn H R;
     (r, R) \<leftarrow> M500PcdConfigISOType H 0x41 R;
     Some R }"

definition rc522_attach_device :: "bool \<Rightarrow> int \<Rightarrow> int \<Rightarrow> 'c rc522 \<Rightarrow> 'c rc522" where
  "rc522_attach_device bus_found r0 r1 R = R\<lparr>bus := snd (rt_spi_bus_attach_device bus_found r1 1
     (snd (rt_spi_bus_attach_device bus_found r0 0 (bus R))))\<rparr>"

text \<open>Reader 0 is inside, reader 1 outside; \<open>found\<close> says which of them the device manager finds.\<close>

definition InitRC522 :: "'c spi_env \<Rightarrow> (nat \<Rightarrow> bool \<Rightarrow> 'c \<Rightarrow> 'c) \<Rightarrow> bool \<Rightarrow> int \<Rightarrow> int \<Rightarrow> (nat \<Rightarrow> bool) \<Rightarrow> 'c rc522 \<Rightarrow> (int \<times> 'c rc522) option" where
  "InitRC522 H rst bus_found r0 r1 found R = (let R = rc522_attach_device bus_found r0 r1 R in
     if \<not> found 0 then Some (- 1, R) else do {
       R \<leftarrow> init_reader H rst 0 R;
       if \<not> found 1 then Some (- 1, R) else do { R \<leftarrow> init_reader H rst 1 R; Some (0, R) } })"

subsection \<open>Cards\<close>

definition PcdRequest :: "'c spi_env \<Rightarrow> bytes \<Rightarrow> u8 \<Rightarrow> 'c rc522 \<Rightarrow> (int \<times> 'c rc522) option" where
  "PcdRequest H u code R = do {
     R \<leftarrow> ClearBitMask H Status2Reg 0x08 R;
     R \<leftarrow> WriteRawRC H BitFramingReg 0x07 R;
     R \<leftarrow> SetBitMask H TxControlReg 0x03 R;
     (st, bits, buf, R) \<leftarrow> PcdComMF522 H PCD_TRANSCEIVE (u[0 := code]) 1 R;
     if st = MI_OK \<and> bits = Some 0x10 then Some (st, R\<lparr>rc_ct := take 2 buf\<rparr>) else Some (MI_ERR, R) }"

text \<open>The serial number is stored before its check byte is looked at.\<close>

definition PcdAnticoll :: "'c spi_env \<Rightarrow> bytes \<Rightarrow> 'c rc522 \<Rightarrow> (int \<times> 'c rc522) option" where
  "PcdAnticoll H u R = do {
     R \<leftarrow> ClearBitMask H Status2Reg 0x08 R;
     R \<leftarrow> WriteRawRC H BitFramingReg 0 R;
     R \<leftarrow> ClearBitMask H CollReg 0x80 R;
     (st, bits, buf, R) \<leftarrow> PcdComMF522 H PCD_TRANSCEIVE (u[0 := PICC_ANTICOLL1, 1 := 0x20]) 2 R;
     let (st, R) = (if st = MI_OK then
         (if foldl (XOR) 0 (take 4 buf) \<noteq> buf ! 4 then MI_ERR else st, R\<lparr>rc_snr := take 4 buf\<rparr>) else (st, R));
     R \<leftarrow> SetBitMask H CollReg 0x80 R;
     Some (st, R) }"

text \<open>Appending the checksum the chip computes over the first \<open>n\<close> bytes.\<close>

definition with_crc :: "'c spi_env \<Rightarrow> nat \<Rightarrow> bytes \<Rightarrow> 'c rc522 \<Rightarrow> (bytes \<times> 'c rc522) option" where
  "with_crc H n buf R = do { out \<leftarrow> take_in n buf; (c, R) \<leftarrow> CalulateCRC H out R; buf \<leftarrow> put_in n c buf; Some (buf, R) }"

definition PcdSelect :: "'c spi_env \<Rightarrow> bytes \<Rightarrow> bytes \<Rightarrow> 'c rc522 \<Rightarrow> (int \<times> 'c rc522) option" where
  "PcdSelect H u snr R = do {
     s \<leftarrow> take_in 4 snr;
     buf \<leftarrow> put_in 0 ([PICC_ANTICOLL1, 0x70] @ s @ [foldl (XOR) 0 s]) u;
     (buf, R) \<leftarrow> with_crc H 7 buf R;
     R \<leftarrow> ClearBitMask H Status2Reg 0x08 R;
     (st, bits, buf, R) \<leftarrow> PcdComMF522 H PCD_TRANSCEIVE buf 9 R;
     Some (if st = MI_OK \<and> bits = Some 0x18 then MI_OK else MI_ERR, R) }"

definition PcdAuthState :: "'c spi_env \<Rightarrow> bytes \<Rightarrow> u8 \<Rightarrow> u8 \<Rightarrow> bytes \<Rightarrow> bytes \<Rightarrow> 'c rc522 \<Rightarrow> (int \<times> 'c rc522) option" where
  "PcdAuthState H u mode addr key snr R = do {
     k \<leftarrow> take_in 6 key;
     s \<leftarrow> take_in 4 snr;
     buf \<leftarrow> put_in 0 ([mode, addr] @ k @ s) u;
     (st, bits, buf, R) \<leftarrow> PcdComMF522 H PCD_AUTHENT buf 12 R;
     if st \<noteq> MI_OK then Some (MI_ERR, R)
     else do { (v, R) \<leftarrow> ReadRawRC H Status2Reg R; Some (if v AND 0x08 = 0 then MI_ERR else st, R) } }"

text \<open>A command of two bytes with its checksum, and the test of the short answer of a card.\<close>

definition send_cmd :: "'c spi_env \<Rightarrow> u8 \<Rightarrow> u8 \<Rightarrow> bytes \<Rightarrow> 'c rc522 \<Rightarrow> (int \<times> u8 option \<times> bytes \<times> 'c rc522) option" where
  "send_cmd H code addr buf R = do { (buf, R) \<leftarrow> with_crc H 2 (buf[0 := code, 1 := addr]) R; PcdComMF522 H PCD_TRANSCEIVE buf 4 R }"

definition ack :: "int \<Rightarrow> u8 option \<Rightarrow> bytes \<Rightarrow> int" where
  "ack st bits buf = (if st \<noteq> MI_OK \<or> bits \<noteq> Some 4 \<or> buf ! 0 AND 0x0F \<noteq> 0x0A then MI_ERR else st)"

definition PcdRead :: "'c spi_env \<Rightarrow> bytes \<Rightarrow> u8 \<Rightarrow> 'c rc522 \<Rightarrow> (int \<times> bytes option \<times> 'c rc522) option" where
  "PcdRead H u addr R = do { (st, bits, buf, R) \<leftarrow> send_cmd H PICC_READ addr u R;
     if st = MI_OK \<and> bits = Some 0x90 then Some (st, Some (take 16 buf), R) else Some (MI_ERR, None, R) }"

text \<open>Sending \<open>data\<close> with its checksum in the same buffer.\<close>

definition send_data :: "'c spi_env \<Rightarrow> bytes \<Rightarrow> bytes \<Rightarrow> 'c rc522 \<Rightarrow> (int \<times> u8 option \<times> bytes \<times> 'c rc522) option" where
  "send_data H data buf R = do { buf \<leftarrow> put_in 0 data buf; (buf, R) \<leftarrow> with_crc H (length data) buf R;
     PcdComMF522 H PCD_TRANSCEIVE buf (length data + 2) R }"

definition PcdWrite :: "'c spi_env \<Rightarrow> bytes \<Rightarrow> u8 \<Rightarrow> bytes \<Rightarrow> 'c rc522 \<Rightarrow> (int \<times> 'c rc522) option" where
  "PcdWrite H u addr p R = do { (st, bits, buf, R) \<leftarrow> send_cmd H PICC_WRITE addr u R;
     if ack st bits buf \<noteq> MI_OK then Some (MI_ERR, R)
     else do { d \<leftarrow> take_in 16 p; (st, bits, buf, R) \<leftarrow> send_data H d buf R; Some (ack st bits buf, R) } }"

definition PcdHalt :: "'c spi_env \<Rightarrow> bytes \<Rightarrow> 'c rc522 \<Rightarrow> (int \<times> 'c rc522) option" where
  "PcdHalt H u R = do { (st, bits, buf, R) \<leftarrow> send_cmd H PICC_HALT 0 u R; Some (MI_OK, R) }"

definition PcdValue :: "'c spi_env \<Rightarrow> bytes \<Rightarrow> u8 \<Rightarrow> u8 \<Rightarrow> bytes \<Rightarrow> 'c rc522 \<Rightarrow> (int \<times> 'c rc522) option" where
  "PcdValue H u mode addr v R = do { (st, bits, buf, R) \<leftarrow> send_cmd H mode addr u R;
     if ack st bits buf \<noteq> MI_OK then Some (MI_ERR, R)
     else do { d \<leftarrow> take_in 4 v; (st, bits, buf, R) \<leftarrow> send_data H d buf R;
       if st = MI_ERR then Some (MI_ERR, R)
       else do { (st, bits, buf, R) \<leftarrow> send_cmd H PICC_TRANSFER addr buf R; Some (ack st bits buf, R) } } }"

definition PcdBakValue :: "'c spi_env \<Rightarrow> bytes \<Rightarrow> u8 \<Rightarrow> u8 \<Rightarrow> 'c rc522 \<Rightarrow> (int \<times> 'c rc522) option" where
  "PcdBakValue H u source goal R = do { (st, bits, buf, R) \<leftarrow> send_cmd H PICC_RESTORE source u R;
     if ack st bits buf \<noteq> MI_OK then Some (MI_ERR, R)
     else do { (st, bits, buf, R) \<leftarrow> send_data H [0, 0, 0, 0] buf R;
       if st = MI_ERR then Some (MI_ERR, R)
       else do { (st, bits, buf, R) \<leftarrow> send_cmd H PICC_TRANSFER goal buf R; Some (ack st bits buf, R) } } }"

text \<open>The card number as text of eight hexadecimal digits.\<close>

definition hex_char :: "u8 \<Rightarrow> u8" where
  "hex_char n = (if 9 < n then n + 0x37 else n + 0x30)"

definition TurnID :: "bytes \<Rightarrow> bytes" where
  "TurnID p = concat (map (\<lambda>b. [hex_char (drop_bit 4 b), hex_char (b AND 0x0F)]) (take 4 p)) @ [0]"

definition card_number :: "bytes \<Rightarrow> u32" where
  "card_number s = ucast (s ! 3) + push_bit 8 (ucast (s ! 2)) + push_bit 16 (ucast (s ! 1)) + push_bit 24 (ucast (s ! 0))"

text \<open>The result and the card number, when it is stored.\<close>

definition ReadID :: "'c spi_env \<Rightarrow> bytes \<Rightarrow> bytes \<Rightarrow> 'c rc522 \<Rightarrow> (int \<times> u32 option \<times> 'c rc522) option" where
  "ReadID H u1 u2 R = do {
     (st, R) \<leftarrow> PcdRequest H u1 PICC_REQALL R;
     (st, R) \<leftarrow> (if st = MI_OK then PcdAnticoll H u2 R else Some (st, R));
     if st = MI_OK then Some (0, Some (card_number (rc_snr R)), R) else Some (- 1, None, R) }"

end
