(* ===== verification/Rc522Ok.thy ===== *)
theory Rc522Ok imports Rc522 begin

text \<open>The driver of the card readers on any hardware: it always comes back and stays inside its buffers.\<close>

subsection \<open>Successful runs\<close>

definition yields :: "'a option \<Rightarrow> ('a \<Rightarrow> bool) \<Rightarrow> bool" where
  "yields r Q = (case r of None \<Rightarrow> False | Some x \<Rightarrow> Q x)"

lemma yields_Some [simp]: "yields (Some x) Q = Q x"
  by (simp add: yields_def)

lemma yieldsD: "yields r Q \<Longrightarrow> \<exists>x. r = Some x \<and> Q x"
  by (auto simp: yields_def split: option.splits)

lemma yields_bind: "yields r P \<Longrightarrow> (\<And>x. P x \<Longrightarrow> yields (f x) Q) \<Longrightarrow> yields (Option.bind r f) Q"
  by (cases r) (auto simp: yields_def)

lemma yields_mono: "yields r P \<Longrightarrow> (\<And>x. P x \<Longrightarrow> Q x) \<Longrightarrow> yields r Q"
  by (cases r) (auto simp: yields_def)

lemma put_in_ok [simp]: "p + length ys \<le> length xs \<Longrightarrow> put_in p ys xs = Some (overwrite p ys xs)"
  by (simp add: put_in_def)

lemma take_in_ok [simp]: "n \<le> length xs \<Longrightarrow> take_in n xs = Some (take n xs)"
  by (simp add: take_in_def)

text \<open>The buffers of the driver and the word size of its transfers; the lock of the bus is back at \<open>k\<close>.\<close>

definition rc_ok :: "nat \<Rightarrow> 'c rc522 \<Rightarrow> bool" where
  "rc_ok k R = (length (rc_writeBuf R) = 2 \<and> length (rc_readBuf R) = 2 \<and> (\<forall>d. data_width (spi_config (bus R) d) \<le> 8)
     \<and> spi_lock (bus R) = k)"

text \<open>The whole state around a register access: the lock, the reader in use and the numbers read so far.\<close>

type_synonym rc_view = "nat \<times> nat \<times> bytes \<times> bytes"

fun rc_inv :: "rc_view \<Rightarrow> 'c rc522 \<Rightarrow> bool" where
  "rc_inv (k, d, ct, snr) R = (rc_ok k R \<and> rc_dev R = d \<and> rc_ct R = ct \<and> rc_snr R = snr)"

lemma xfer8_length: "length (fst (xfer8 H s n x)) = n"
  by (induction n arbitrary: s x) (auto split: prod.split, metis fst_conv)

lemma own_bus_ok: "data_width (spi_config S d) \<le> 8 \<Longrightarrow> \<exists>S'. own_bus H d S = (True, S') \<and> spi_config S' = spi_config S \<and> spi_lock S' = spi_lock S"
  by (auto simp: own_bus_def spi_configure_def word_le_nat_alt word_less_nat_alt)

lemma rc_transfer_ok:
  assumes "rc_inv p R" "0 < n" "n \<le> 2"
  shows "yields (rc_transfer H n rel R) (rc_inv p)"
proof -
  obtain k d ct snr where p: "p = (k, d, ct, snr)" by (cases p)
  let ?m = "\<lparr>send_buf = Some (rc_writeBuf R), recv_buf = True, m_length = n, cs_take = True, cs_release = rel\<rparr>"
  let ?S = "(lock_bus (bus R))\<lparr>spi_errno := 0\<rparr>"
  have w: "data_width (spi_config (bus R) d) \<le> 8" for d using assms(1) by (simp add: rc_ok_def p)
  show ?thesis
  proof (cases "lock_result H = 0")
    case False
    then show ?thesis using assms(1)
      by (simp add: rc_transfer_def rt_spi_transfer_message_def rc_ok_def p put_in_def overwrite_def)
  next
    case True
    obtain S' where o: "own_bus H (rc_dev R) ?S = (True, S')" "spi_config S' = spi_config ?S" "spi_lock S' = spi_lock ?S"
      using own_bus_ok [of ?S "rc_dev R" H] w by auto
    have w': "data_width (spi_config S' (rc_dev R)) \<le> 8" using o(2) w by simp
    obtain rs x where x: "xfer8 H (Some (rc_writeBuf R)) n (hw_cs H (rc_dev R) False (chip S')) = (rs, x)"
      by (cases "xfer8 H (Some (rc_writeBuf R)) n (hw_cs H (rc_dev R) False (chip S'))")
    have l: "length rs = n" using xfer8_length [of H "Some (rc_writeBuf R)" n "hw_cs H (rc_dev R) False (chip S')"] x by simp
    have "bus_xfer H (rc_dev R) ?m S' = Some (n, rs, S'\<lparr>chip := if rel then hw_cs H (rc_dev R) True x else x\<rparr>)"
      using w' x assms(1,3) by (simp add: bus_xfer_def spi_xfer_def rc_ok_def p)
    then show ?thesis using True o w assms l
      by (simp add: rc_transfer_def rt_spi_transfer_message_def rc_ok_def p put_in_def length_overwrite)
  qed
qed

text \<open>Rules for sequences: each access keeps the view, whatever is read.\<close>

named_theorems rc_rules "sequences of register accesses"

lemma transfer_bind:
  assumes "rc_inv p R" "0 < n" "n \<le> 2" "\<And>R'. rc_inv p R' \<Longrightarrow> yields (f R') Q"
  shows "yields (Option.bind (rc_transfer H n rel R) f) Q"
  by (rule yields_bind [OF rc_transfer_ok [OF assms(1-3)] assms(4)])

lemma rc_inv_writeBuf [simp]: "rc_inv p R \<Longrightarrow> length bs = 2 \<Longrightarrow> rc_inv p (R\<lparr>rc_writeBuf := bs\<rparr>)"
  by (cases p) (simp add: rc_ok_def)

lemma rc_inv_length [simp]: "rc_inv p R \<Longrightarrow> length (rc_writeBuf R) = 2"
  by (cases p) (simp add: rc_ok_def)

lemma Read_ok: "rc_inv p R \<Longrightarrow> yields (ReadRawRC H reg R) (\<lambda>(v, R'). rc_inv p R')"
  unfolding ReadRawRC_def by (rule transfer_bind [where p = p], simp_all)+

lemma Write_ok [rc_rules]: "rc_inv p R \<Longrightarrow> yields (WriteRawRC H reg v R) (rc_inv p)"
  unfolding WriteRawRC_def by (rule rc_transfer_ok) simp_all

lemma Read_bind [rc_rules]:
  assumes "rc_inv p R" "\<And>v R'. rc_inv p R' \<Longrightarrow> yields (f (v, R')) Q"
  shows "yields (Option.bind (ReadRawRC H reg R) f) Q"
  by (rule yields_bind [OF Read_ok [OF assms(1)]]) (use assms(2) in auto)

lemma Write_bind [rc_rules]:
  assumes "rc_inv p R" "\<And>R'. rc_inv p R' \<Longrightarrow> yields (f R') Q"
  shows "yields (Option.bind (WriteRawRC H reg v R) f) Q"
  by (rule yields_bind [OF Write_ok [OF assms(1)] assms(2)])

lemma mask_ok [rc_rules]:
  assumes "rc_inv p R"
  shows "yields (SetBitMask H reg m R) (rc_inv p)" "yields (ClearBitMask H reg m R) (rc_inv p)"
  unfolding SetBitMask_def ClearBitMask_def by (rule Read_bind [OF assms]; simp add: Write_ok)+

lemma mask_bind [rc_rules]:
  assumes "rc_inv p R" "\<And>R'. rc_inv p R' \<Longrightarrow> yields (f R') Q"
  shows "yields (Option.bind (SetBitMask H reg m R) f) Q" "yields (Option.bind (ClearBitMask H reg m R) f) Q"
  by (rule yields_bind [OF mask_ok(1) [OF assms(1)] assms(2)], assumption)
    (rule yields_bind [OF mask_ok(2) [OF assms(1)] assms(2)], assumption)

lemma fifo_write_ok: "rc_inv p R \<Longrightarrow> yields (fifo_write H bs R) (rc_inv p)"
  by (induction bs arbitrary: R) (auto intro!: Write_bind [where p = p])

lemma fifo_read_ok: "rc_inv p R \<Longrightarrow> yields (fifo_read H n R) (\<lambda>(bs, R'). length bs = n \<and> rc_inv p R')"
proof (induction n arbitrary: R)
  case (Suc n)
  show ?case by (auto intro!: Read_bind [OF Suc.prems] yields_bind [OF Suc.IH])
qed simp

lemma poll_ok: "rc_inv p R \<Longrightarrow> yields (poll H reg m k R) (\<lambda>(n, i, R'). rc_inv p R')"
proof (induction k arbitrary: R)
  case (Suc k)
  show ?case by (auto intro!: Read_bind [OF Suc.prems] Suc.IH)
qed simp

lemma write_regs_ok: "rc_inv p R \<Longrightarrow> yields (write_regs H rs R) (rc_inv p)"
  by (induction rs arbitrary: R) (auto intro!: Write_bind [where p = p])

lemma seq_binds [rc_rules]:
  assumes "rc_inv p R"
  shows "(\<And>R'. rc_inv p R' \<Longrightarrow> yields (f R') Q) \<Longrightarrow> yields (Option.bind (fifo_write H bs R) f) Q"
    "(\<And>R'. rc_inv p R' \<Longrightarrow> yields (f R') Q) \<Longrightarrow> yields (Option.bind (write_regs H rs R) f) Q"
  by (rule yields_bind [OF fifo_write_ok [OF assms]], assumption) (rule yields_bind [OF write_regs_ok [OF assms]], assumption)

lemma fifo_read_bind [rc_rules]:
  assumes "rc_inv p R" "\<And>bs R'. length bs = n \<Longrightarrow> rc_inv p R' \<Longrightarrow> yields (f (bs, R')) Q"
  shows "yields (Option.bind (fifo_read H n R) f) Q"
  by (rule yields_bind [OF fifo_read_ok [OF assms(1)]]) (use assms(2) in auto)

lemma poll_bind [rc_rules]:
  assumes "rc_inv p R" "\<And>v i R'. rc_inv p R' \<Longrightarrow> yields (f (v, i, R')) Q"
  shows "yields (Option.bind (poll H reg m k R) f) Q"
  by (rule yields_bind [OF poll_ok [OF assms(1)]]) (use assms(2) in auto)

subsection \<open>Commands\<close>

lemma rx_bytes_le: "0 < rx_bytes n" "rx_bytes n \<le> MAXRLEN"
  by (auto simp: rx_bytes_def MAXRLEN_def Let_def unat_gt_0)

lemma PcdReceive_ok:
  assumes "rc_inv p R" "length buf = MAXRLEN"
  shows "yields (PcdReceive H cmd irq buf R) (\<lambda>(st, bits, buf', R'). length buf' = MAXRLEN \<and> rc_inv p R'
    \<and> (cmd = PCD_TRANSCEIVE \<longrightarrow> st \<noteq> MI_ERR \<longrightarrow> bits \<noteq> None))"
  unfolding PcdReceive_def using assms(2) rx_bytes_le
  by (auto simp: Let_def intro!: Read_bind [OF assms(1)] Read_bind [where p = p] fifo_read_bind [where p = p])

lemma Com_ok:
  assumes "rc_inv p R" "length buf = MAXRLEN" "len \<le> MAXRLEN"
  shows "yields (PcdComMF522 H cmd buf len R) (\<lambda>(st, bits, buf', R'). length buf' = MAXRLEN \<and> rc_inv p R'
    \<and> (cmd = PCD_TRANSCEIVE \<longrightarrow> st \<noteq> MI_ERR \<longrightarrow> bits \<noteq> None))"
proof -
  have r: "yields (if i \<noteq> 0 then PcdReceive H cmd irq buf R1 else Some (MI_ERR, None, buf, R1)) (\<lambda>(st, bits, buf', R').
      length buf' = MAXRLEN \<and> rc_inv p R' \<and> (cmd = PCD_TRANSCEIVE \<longrightarrow> st \<noteq> MI_ERR \<longrightarrow> bits \<noteq> None))"
    if "rc_inv p R1" for i :: nat and irq R1
    using PcdReceive_ok [OF that assms(2)] that assms(2) by (cases "i = 0") auto
  have t: "yields (if cmd = PCD_TRANSCEIVE then SetBitMask H BitFramingReg 0x80 R1 else Some R1) (rc_inv p)" if "rc_inv p R1" for R1
    using mask_ok(1) [OF that] that by simp
  have o: "take_in len buf = Some (take len buf)" using assms(2,3) by simp
  show ?thesis
    unfolding PcdComMF522_def Let_def o Option.bind.bind_lunit
    apply (intro Write_bind [OF assms(1)] Write_bind [where p = p] mask_bind [where p = p] seq_binds(1) [where p = p] poll_bind [where p = p]
      yields_bind [OF t])
    apply assumption+
    apply (simp only: prod.case)
    apply (rule mask_bind(2) [where p = p], assumption)
    apply (rule yields_bind [OF r], assumption)
    apply (auto intro!: mask_bind [where p = p] Write_bind [where p = p])
    done
qed

lemma Com_bind [rc_rules]:
  assumes "rc_inv p R" "length buf = MAXRLEN" "len \<le> MAXRLEN"
    "\<And>st bits buf' R'. length buf' = MAXRLEN \<Longrightarrow> rc_inv p R' \<Longrightarrow> yields (f (st, bits, buf', R')) Q"
  shows "yields (Option.bind (PcdComMF522 H cmd buf len R) f) Q"
  by (rule yields_bind [OF Com_ok [OF assms(1-3)]]) (use assms(4) in auto)

lemma CRC_ok: "rc_inv p R \<Longrightarrow> yields (CalulateCRC H bs R) (\<lambda>(c, R'). length c = 2 \<and> rc_inv p R')"
  unfolding CalulateCRC_def
  by (auto intro!: mask_bind [where p = p] Write_bind [where p = p] seq_binds [where p = p] poll_bind [where p = p] Read_bind [where p = p])

lemma crc_bind [rc_rules]:
  assumes "rc_inv p R" "length buf = MAXRLEN" "n \<le> 16"
    "\<And>buf' R'. length buf' = MAXRLEN \<Longrightarrow> rc_inv p R' \<Longrightarrow> yields (f (buf', R')) Q"
  shows "yields (Option.bind (with_crc H n buf R) f) Q"
proof -
  have o: "take_in n buf = Some (take n buf)" using assms(2,3) by (simp add: MAXRLEN_def)
  have "yields (with_crc H n buf R) (\<lambda>(b, R'). length b = MAXRLEN \<and> rc_inv p R')"
    unfolding with_crc_def o Option.bind.bind_lunit
    by (rule yields_bind [OF CRC_ok [OF assms(1)]]) (use assms(2,3) in \<open>auto simp: MAXRLEN_def\<close>)
  then show ?thesis by (rule yields_bind) (use assms(4) in auto)
qed

lemma send_cmd_ok:
  fixes R :: "'c rc522"
  assumes "rc_inv p R" "length buf = MAXRLEN"
  shows "yields (send_cmd H code addr buf R) (\<lambda>(st, bits, buf', R'). length buf' = MAXRLEN \<and> rc_inv p R'
    \<and> (st \<noteq> MI_ERR \<longrightarrow> bits \<noteq> None))"
  unfolding send_cmd_def
proof (rule crc_bind [OF assms(1)])
  fix buf' :: bytes and R' :: "'c rc522" assume a: "length buf' = MAXRLEN" "rc_inv p R'"
  show "yields ((\<lambda>(buf, R). PcdComMF522 H PCD_TRANSCEIVE buf 4 R) (buf', R')) (\<lambda>(st, bits, buf', R'). length buf' = MAXRLEN \<and> rc_inv p R'
    \<and> (st \<noteq> MI_ERR \<longrightarrow> bits \<noteq> None))"
    using Com_ok [OF a(2,1), of 4 H PCD_TRANSCEIVE] by (simp add: MAXRLEN_def)
qed (use assms(2) in simp_all)

lemma send_data_ok:
  fixes R :: "'c rc522"
  assumes "rc_inv p R" "length buf = MAXRLEN" "length data \<le> 16"
  shows "yields (send_data H data buf R) (\<lambda>(st, bits, buf', R'). length buf' = MAXRLEN \<and> rc_inv p R'
    \<and> (st \<noteq> MI_ERR \<longrightarrow> bits \<noteq> None))"
proof -
  have o: "put_in 0 data buf = Some (overwrite 0 data buf)" using assms(2,3) by (simp add: MAXRLEN_def)
  show ?thesis
  unfolding send_data_def o Option.bind.bind_lunit
  proof (rule crc_bind [OF assms(1)])
  fix buf' :: bytes and R' :: "'c rc522" assume a: "length buf' = MAXRLEN" "rc_inv p R'"
  show "yields ((\<lambda>(buf, R). PcdComMF522 H PCD_TRANSCEIVE buf (length data + 2) R) (buf', R')) (\<lambda>(st, bits, buf', R'). length buf' = MAXRLEN
    \<and> rc_inv p R' \<and> (st \<noteq> MI_ERR \<longrightarrow> bits \<noteq> None))"
    using Com_ok [OF a(2,1), of "length data + 2" H PCD_TRANSCEIVE] assms(3) by (simp add: MAXRLEN_def)
  qed (use assms(2,3) in \<open>simp_all add: MAXRLEN_def\<close>)
qed

lemma cmd_bind [rc_rules]:
  assumes "rc_inv p R" "length buf = MAXRLEN"
    "\<And>st bits buf' R'. length buf' = MAXRLEN \<Longrightarrow> rc_inv p R' \<Longrightarrow> yields (f (st, bits, buf', R')) Q"
  shows "yields (Option.bind (send_cmd H code addr buf R) f) Q"
  by (rule yields_bind [OF send_cmd_ok [OF assms(1,2)]]) (use assms(3) in auto)

lemma data_bind [rc_rules]:
  assumes "rc_inv p R" "length buf = MAXRLEN" "length data \<le> 16"
    "\<And>st bits buf' R'. length buf' = MAXRLEN \<Longrightarrow> rc_inv p R' \<Longrightarrow> yields (f (st, bits, buf', R')) Q"
  shows "yields (Option.bind (send_data H data buf R) f) Q"
  by (rule yields_bind [OF send_data_ok [OF assms(1-3)]]) (use assms(4) in auto)

subsection \<open>Cards\<close>

fun rc_done :: "nat \<Rightarrow> nat \<Rightarrow> 'c rc522 \<Rightarrow> bool" where
  "rc_done k d R = (rc_ok k R \<and> rc_dev R = d)"

lemma rc_inv_done: "rc_inv (k, d, ct, snr) R \<Longrightarrow> rc_done k d R"
  by simp

lemma done_inv: "rc_done k d R \<Longrightarrow> rc_inv (k, d, rc_ct R, rc_snr R) R"
  by simp

lemma Request_ok:
  assumes "rc_inv (k, d, ct, snr) R" "length u = MAXRLEN"
  shows "yields (PcdRequest H u code R) (\<lambda>(st, R'). \<exists>ct'. rc_inv (k, d, ct', snr) R')"
  unfolding PcdRequest_def
  by (rule mask_bind(2) [OF assms(1)], rule Write_bind [where p = "(k, d, ct, snr)"], assumption,
      rule mask_bind(1) [where p = "(k, d, ct, snr)"], assumption, rule Com_bind [where p = "(k, d, ct, snr)"], assumption)
    (use assms(2) in \<open>auto simp: rc_ok_def MAXRLEN_def\<close>)

lemma Anticoll_ok:
  fixes R :: "'c rc522"
  assumes "rc_inv (k, d, ct, snr) R" "length u = MAXRLEN"
  shows "yields (PcdAnticoll H u R) (\<lambda>(st, R'). rc_done k d R' \<and> rc_ct R' = ct)"
  unfolding PcdAnticoll_def
proof (rule mask_bind(2) [OF assms(1)], rule Write_bind [where p = "(k, d, ct, snr)"], assumption,
    rule mask_bind(2) [where p = "(k, d, ct, snr)"], assumption, rule Com_bind [where p = "(k, d, ct, snr)"], assumption)
  fix st :: int and bits :: "u8 option" and buf :: bytes and R' :: "'c rc522"
  assume a: "length buf = MAXRLEN" "rc_inv (k, d, ct, snr) R'"
  obtain st' R1 where e: "(if st = MI_OK then (if foldl (XOR) 0 (take 4 buf) \<noteq> buf ! 4 then MI_ERR else st, R'\<lparr>rc_snr := take 4 buf\<rparr>) else (st, R')) = (st', R1)"
    by (metis surj_pair)
  have "\<exists>s. rc_inv (k, d, ct, s) R1" using e a(2) by (auto simp: rc_ok_def split: if_splits)
  then obtain s where s: "rc_inv (k, d, ct, s) R1" ..
  show "yields (case (st, bits, buf, R') of (st, bits, buf, R) \<Rightarrow>
      let (st, R) = (if st = MI_OK then (if foldl (XOR) 0 (take 4 buf) \<noteq> buf ! 4 then MI_ERR else st, R\<lparr>rc_snr := take 4 buf\<rparr>) else (st, R))
      in SetBitMask H CollReg 0x80 R \<bind> (\<lambda>R. Some (st, R))) (\<lambda>(st, R'). rc_done k d R' \<and> rc_ct R' = ct)"
    using e s by (auto simp: Let_def intro!: mask_bind(1) [OF s])
qed (use assms(2) in \<open>simp_all add: MAXRLEN_def\<close>)

lemma ReadID_ok:
  fixes R :: "'c rc522"
  assumes "rc_ok k R" "length u1 = MAXRLEN" "length u2 = MAXRLEN"
  shows "yields (ReadID H u1 u2 R) (\<lambda>(r, v, R'). rc_ok k R' \<and> rc_dev R' = rc_dev R \<and> (r = 0) = (v \<noteq> None) \<and> r \<in> {0, - 1})"
  unfolding ReadID_def
proof (rule yields_bind [OF Request_ok [OF done_inv [of k "rc_dev R" R] assms(2)]])
  show "rc_done k (rc_dev R) R" using assms(1) by simp
  fix x :: "int \<times> 'c rc522" assume x: "case x of (st, R') \<Rightarrow> \<exists>ct'. rc_inv (k, rc_dev R, ct', rc_snr R) R'"
  obtain st R1 where x1: "x = (st, R1)" by (cases x)
  obtain ct where i: "rc_inv (k, rc_dev R, ct, rc_snr R) R1" using x x1 by auto
  show "yields ((\<lambda>(st, R). do { (st, R) \<leftarrow> (if st = MI_OK then PcdAnticoll H u2 R else Some (st, R));
      if st = MI_OK then Some (0 :: int, Some (card_number (rc_snr R)), R) else Some (- 1, None, R) }) x)
     (\<lambda>(r, v, R'). rc_ok k R' \<and> rc_dev R' = rc_dev R \<and> (r = 0) = (v \<noteq> None) \<and> r \<in> {0, - 1})"
  proof (cases "st = MI_OK")
    case True
    then show ?thesis using yields_bind [OF Anticoll_ok [OF i assms(3)]] x1 by (auto intro!: yields_bind [OF Anticoll_ok [OF i assms(3)]])
  qed (use i x1 in auto)
qed

text \<open>The commands for the memory of a card.\<close>

lemma memory_commands_ok:
  fixes R :: "'c rc522"
  assumes "rc_inv p R" "length u = MAXRLEN"
  shows "4 \<le> length snr \<Longrightarrow> yields (PcdSelect H u snr R) (\<lambda>(r, R'). rc_inv p R')"
    "6 \<le> length key \<Longrightarrow> 4 \<le> length snr \<Longrightarrow> yields (PcdAuthState H u mode addr key snr R) (\<lambda>(r, R'). rc_inv p R')"
    "yields (PcdRead H u addr R) (\<lambda>(r, v, R'). rc_inv p R' \<and> (r = MI_OK) = (v \<noteq> None))"
    "16 \<le> length data \<Longrightarrow> yields (PcdWrite H u addr data R) (\<lambda>(r, R'). rc_inv p R')"
    "yields (PcdHalt H u R) (\<lambda>(r, R'). rc_inv p R')"
    "4 \<le> length data \<Longrightarrow> yields (PcdValue H u mode addr data R) (\<lambda>(r, R'). rc_inv p R')"
    "yields (PcdBakValue H u addr goal R) (\<lambda>(r, R'). rc_inv p R')"
  using assms unfolding PcdSelect_def PcdAuthState_def PcdRead_def PcdWrite_def PcdHalt_def PcdValue_def PcdBakValue_def
  by (auto intro!: Read_bind [where p = p] mask_bind [where p = p] Com_bind [where p = p] crc_bind [where p = p] cmd_bind [where p = p] data_bind [where p = p]
    simp: MAXRLEN_def mi_codes)

end
