(* ===== verification/Rc522Chip.thy ===== *)
theory Rc522Chip imports Rc522Ok begin

text \<open>The card readers on chips that keep to the register protocol of the MFRC522: a byte with the address of a
  register and a direction bit, then a byte of data, while the select line is low.\<close>

subsection \<open>The register protocol\<close>

locale reg_bus =
  fixes H :: "'c spi_env" and chip_at :: "nat \<Rightarrow> 'c \<Rightarrow> 'r" and quiet :: "'c \<Rightarrow> bool"
    and rd :: "u8 \<Rightarrow> 'r \<Rightarrow> u8 \<times> 'r" and wr :: "u8 \<Rightarrow> u8 \<Rightarrow> 'r \<Rightarrow> 'r"
  assumes lock_free: "lock_result H = 0"
    and init_chips: "chip_at d (hw_init H i x) = chip_at d x" "quiet (hw_init H i x) = quiet x"
    and read_seq: "quiet x \<Longrightarrow> reg < 64 \<Longrightarrow> hw_data H (ucast (((push_bit 1 reg AND 0x7E) OR 0x80) :: u8)) (hw_cs H d False x) = (a, x1)
      \<Longrightarrow> hw_data H 0 (hw_cs H d False x1) = (v, x2)
      \<Longrightarrow> quiet (hw_cs H d True x2) \<and> rd reg (chip_at d x) = (ucast v, chip_at d (hw_cs H d True x2))"
    and write_seq: "quiet x \<Longrightarrow> reg < 64 \<Longrightarrow> hw_data H (ucast (push_bit 1 reg AND 0x7E :: u8)) (hw_cs H d False x) = (a, x1)
      \<Longrightarrow> hw_data H (ucast w) x1 = (b, x2)
      \<Longrightarrow> quiet (hw_cs H d True x2) \<and> chip_at d (hw_cs H d True x2) = wr reg w (chip_at d x)"
begin

end

text \<open>A reader whose chip is in the state \<open>C\<close>.\<close>

definition rc_at :: "(nat \<Rightarrow> 'c \<Rightarrow> 'r) \<Rightarrow> ('c \<Rightarrow> bool) \<Rightarrow> rc_view \<Rightarrow> 'r \<Rightarrow> 'c rc522 \<Rightarrow> bool" where
  "rc_at chip_at quiet p C R = (rc_inv p R \<and> quiet (chip (bus R)) \<and> chip_at (rc_dev R) (chip (bus R)) = C)"

lemma rc_transfer_steps:
  assumes "rc_inv p R" "lock_result H = 0" "0 < n" "n \<le> 2"
    "start = (if spi_owner (bus R) = Some (rc_dev R) then chip (bus R) else hw_init H (spi_regs H (spi_config (bus R) (rc_dev R))) (chip (bus R)))"
    "xfer8 H (Some (rc_writeBuf R)) n (hw_cs H (rc_dev R) False start) = (rs, x)"
  shows "\<exists>R'. rc_transfer H n rel R = Some R' \<and> rc_inv p R' \<and> spi_owner (bus R') = Some (rc_dev R) \<and> rc_writeBuf R' = rc_writeBuf R
    \<and> rc_readBuf R' = overwrite 0 rs (rc_readBuf R) \<and> chip (bus R') = (if rel then hw_cs H (rc_dev R) True x else x)
    \<and> rc_dev R' = rc_dev R"
proof -
  obtain k d ct snr where p: "p = (k, d, ct, snr)" by (cases p)
  let ?m = "\<lparr>send_buf = Some (rc_writeBuf R), recv_buf = True, m_length = n, cs_take = True, cs_release = rel\<rparr>"
  let ?S = "(lock_bus (bus R))\<lparr>spi_errno := 0\<rparr>"
  let ?x = "if spi_owner (bus R) = Some (rc_dev R) then chip (bus R) else hw_init H (spi_regs H (spi_config (bus R) (rc_dev R))) (chip (bus R))"
  let ?T = "?S\<lparr>chip := ?x, spi_owner := Some (rc_dev R)\<rparr>"
  have w: "data_width (spi_config (bus R) d) \<le> 8" for d using assms(1) by (simp add: rc_ok_def p)
  have w2: "\<not> 16 < data_width (spi_config (bus R) d)" for d using w [of d] by (simp add: word_le_nat_alt word_less_nat_alt)
  have o: "own_bus H (rc_dev R) ?S = (True, ?T)"
    using w2 by (simp add: own_bus_def spi_configure_def lock_bus_def)
  have x: "xfer8 H (Some (rc_writeBuf R)) n (hw_cs H (rc_dev R) False (chip ?T)) = (rs, x)" using assms(6) unfolding assms(5) by simp
  have l: "length rs = n" using xfer8_length [of H "Some (rc_writeBuf R)" n "hw_cs H (rc_dev R) False (chip ?T)"] x by simp
  have b: "bus_xfer H (rc_dev R) ?m ?T = Some (n, rs, ?T\<lparr>chip := if rel then hw_cs H (rc_dev R) True x else x\<rparr>)"
    using w [of "rc_dev R"] x assms(1,4) by (simp add: bus_xfer_def spi_xfer_def rc_ok_def p)
  let ?B = "unlock_bus (?T\<lparr>chip := if rel then hw_cs H (rc_dev R) True x else x\<rparr>)"
  have "rc_transfer H n rel R = Some (R\<lparr>bus := ?B, rc_readBuf := overwrite 0 rs (rc_readBuf R)\<rparr>)"
    unfolding rc_transfer_def rt_spi_transfer_message_def using o b assms(1-4) l by (simp add: put_in_def rc_ok_def p)
  then show ?thesis using assms(1,4) w l by (simp add: rc_ok_def p)
qed

context reg_bus begin

lemma Read_at:
  assumes "rc_at chip_at quiet p C R" "reg < 64"
  shows "yields (ReadRawRC H reg R) (\<lambda>(v, R'). v = fst (rd reg C) \<and> rc_at chip_at quiet p (snd (rd reg C)) R')"
proof -
  define start where "start = (if spi_owner (bus R) = Some (rc_dev R) then chip (bus R) else hw_init H (spi_regs H (spi_config (bus R) (rc_dev R))) (chip (bus R)))"
  let ?a = "(push_bit 1 reg AND 0x7E) OR 0x80 :: u8"
  have A: "rc_inv p R" "quiet start" "chip_at (rc_dev R) start = C" using assms(1) init_chips by (simp_all add: rc_at_def start_def)
  obtain a x1 where 1: "hw_data H (ucast ?a) (hw_cs H (rc_dev R) False start) = (a, x1)" by (metis surj_pair)
  obtain v x2 where 2: "hw_data H 0 (hw_cs H (rc_dev R) False x1) = (v, x2)" by (metis surj_pair)
  note r = read_seq [OF A(2) assms(2) 1 2]
  let ?R = "R\<lparr>rc_writeBuf := (rc_writeBuf R)[0 := ?a]\<rparr>"
  have i: "rc_inv p ?R" using A(1) by simp
  have h: "hd ((rc_writeBuf R)[0 := b]) = b" for b using rc_inv_length [OF A(1)] by (cases "rc_writeBuf R") auto
  have st: "start = (if spi_owner (bus ?R) = Some (rc_dev ?R) then chip (bus ?R)
      else hw_init H (spi_regs H (spi_config (bus ?R) (rc_dev ?R))) (chip (bus ?R)))" by (simp add: start_def)
  have "xfer8 H (Some (rc_writeBuf ?R)) 1 (hw_cs H (rc_dev ?R) False start) = ([ucast a], x1)"
    using 1 h [of ?a] by simp
  from rc_transfer_steps [where start = start, OF i lock_free _ _ st this, of False] obtain R1 where R1: "rc_transfer H 1 False ?R = Some R1" "rc_inv p R1"
    "spi_owner (bus R1) = Some (rc_dev R)" "rc_writeBuf R1 = rc_writeBuf ?R" "chip (bus R1) = x1" "rc_dev R1 = rc_dev R" by auto
  let ?R1 = "R1\<lparr>rc_writeBuf := (rc_writeBuf R1)[0 := 0]\<rparr>"
  have i1: "rc_inv p ?R1" using R1(2) by simp
  have "xfer8 H (Some (rc_writeBuf ?R1)) 1 (hw_cs H (rc_dev ?R1) False x1) = ([ucast v], x2)"
    using 2 h [of 0] R1(3-6) by simp
  from rc_transfer_steps [where start = x1, OF i1 lock_free _ _ _ this, of True] obtain R2 where R2: "rc_transfer H 1 True ?R1 = Some R2" "rc_inv p R2"
    "rc_readBuf R2 = overwrite 0 [ucast v] (rc_readBuf R1)" "chip (bus R2) = hw_cs H (rc_dev R) True x2" "rc_dev R2 = rc_dev R"
    using R1(3,5,6) by auto
  have "ReadRawRC H reg R = Some (ucast v, R2)"
    unfolding ReadRawRC_def using R1(1) R2(1,3) by (simp add: overwrite_def)
  then show ?thesis using r R2 A(3) by (simp add: rc_at_def)
qed

lemma Write_at:
  assumes "rc_at chip_at quiet p C R" "reg < 64"
  shows "yields (WriteRawRC H reg w R) (rc_at chip_at quiet p (wr reg w C))"
proof -
  define start where "start = (if spi_owner (bus R) = Some (rc_dev R) then chip (bus R) else hw_init H (spi_regs H (spi_config (bus R) (rc_dev R))) (chip (bus R)))"
  let ?a = "push_bit 1 reg AND 0x7E :: u8"
  have A: "rc_inv p R" "quiet start" "chip_at (rc_dev R) start = C" using assms(1) init_chips by (simp_all add: rc_at_def start_def)
  obtain a x1 where 1: "hw_data H (ucast ?a) (hw_cs H (rc_dev R) False start) = (a, x1)" by (metis surj_pair)
  obtain b x2 where 2: "hw_data H (ucast w) x1 = (b, x2)" by (metis surj_pair)
  note r = write_seq [OF A(2) assms(2) 1 2]
  let ?R = "R\<lparr>rc_writeBuf := (rc_writeBuf R)[0 := ?a, 1 := w]\<rparr>"
  have i: "rc_inv p ?R" using A(1) by simp
  have st: "start = (if spi_owner (bus ?R) = Some (rc_dev ?R) then chip (bus ?R)
      else hw_init H (spi_regs H (spi_config (bus ?R) (rc_dev ?R))) (chip (bus ?R)))" by (simp add: start_def)
  obtain y z where "rc_writeBuf R = [y, z]" using rc_inv_length [OF A(1)] by (auto simp: numeral_2_eq_2 length_Suc_conv)
  then have "xfer8 H (Some (rc_writeBuf ?R)) 2 (hw_cs H (rc_dev ?R) False start) = ([ucast a, ucast b], x2)"
    using 1 2 by (simp add: numeral_2_eq_2)
  from rc_transfer_steps [where start = start, OF i lock_free _ _ st this, of True] obtain R1 where R1: "rc_transfer H 2 True ?R = Some R1" "rc_inv p R1"
    "chip (bus R1) = hw_cs H (rc_dev R) True x2" "rc_dev R1 = rc_dev R" by auto
  then show ?thesis using r A(3) by (simp add: WriteRawRC_def rc_at_def)
qed

lemma Read_at_bind:
  assumes "rc_at chip_at quiet p C R" "reg < 64"
    "\<And>R'. rc_at chip_at quiet p (snd (rd reg C)) R' \<Longrightarrow> yields (f (fst (rd reg C), R')) Q"
  shows "yields (Option.bind (ReadRawRC H reg R) f) Q"
  by (rule yields_bind [OF Read_at [OF assms(1,2)]]) (use assms(3) in auto)

lemma Write_at_bind:
  assumes "rc_at chip_at quiet p C R" "reg < 64"
    "\<And>R'. rc_at chip_at quiet p (wr reg w C) R' \<Longrightarrow> yields (f R') Q"
  shows "yields (Option.bind (WriteRawRC H reg w R) f) Q"
  by (rule yields_bind [OF Write_at [OF assms(1,2)] assms(3)])

lemma mask_at:
  assumes "rc_at chip_at quiet p C R" "reg < 64"
  shows "yields (SetBitMask H reg m R) (rc_at chip_at quiet p (wr reg (fst (rd reg C) OR m) (snd (rd reg C))))"
    "yields (ClearBitMask H reg m R) (rc_at chip_at quiet p (wr reg (fst (rd reg C) AND NOT m) (snd (rd reg C))))"
  unfolding SetBitMask_def ClearBitMask_def by (rule Read_at_bind [OF assms], simp add: Write_at assms(2))+

lemma mask_at_bind:
  assumes "rc_at chip_at quiet p C R" "reg < 64"
  shows "(\<And>R'. rc_at chip_at quiet p (wr reg (fst (rd reg C) OR m) (snd (rd reg C))) R' \<Longrightarrow> yields (f R') Q)
      \<Longrightarrow> yields (Option.bind (SetBitMask H reg m R) f) Q"
    "(\<And>R'. rc_at chip_at quiet p (wr reg (fst (rd reg C) AND NOT m) (snd (rd reg C))) R' \<Longrightarrow> yields (f R') Q)
      \<Longrightarrow> yields (Option.bind (ClearBitMask H reg m R) f) Q"
  by (rule yields_bind [OF mask_at(1) [OF assms]], assumption) (rule yields_bind [OF mask_at(2) [OF assms]], assumption)

end

subsection \<open>The chip\<close>

text \<open>The part of the MFRC522 the driver uses to talk to cards: the FIFO, the flags of the last transmission and
  registers that hold what was written.  \<open>ch_card\<close> is what the cards in the field answer to a frame, with
  the number of bits of an incomplete last byte; it is arbitrary.\<close>

record rc_chip =
  ch_regs :: "u8 \<Rightarrow> u8"
  ch_fifo :: bytes
  ch_bits :: u8
  ch_card :: "bytes \<Rightarrow> (bytes \<times> u8) option"

definition chip_read :: "u8 \<Rightarrow> rc_chip \<Rightarrow> u8 \<times> rc_chip" where
  "chip_read reg C = (if reg = FIFODataReg then (case ch_fifo C of [] \<Rightarrow> (0, C) | b # bs \<Rightarrow> (b, C\<lparr>ch_fifo := bs\<rparr>))
     else if reg = FIFOLevelReg then (of_nat (length (ch_fifo C)), C)
     else if reg = ControlReg then ((ch_regs C reg AND NOT 7) OR (ch_bits C AND 7), C)
     else (ch_regs C reg, C))"

definition set_reg :: "u8 \<Rightarrow> u8 \<Rightarrow> rc_chip \<Rightarrow> rc_chip" where
  "set_reg reg v C = C\<lparr>ch_regs := (ch_regs C)(reg := v)\<rparr>"

definition chip_transmit :: "rc_chip \<Rightarrow> rc_chip" where
  "chip_transmit C = (case ch_card C (ch_fifo C) of
     None \<Rightarrow> set_reg ComIrqReg (ch_regs C ComIrqReg OR 1) (C\<lparr>ch_fifo := []\<rparr>)
   | Some (r, b) \<Rightarrow> set_reg ErrorReg 0 (set_reg ComIrqReg (ch_regs C ComIrqReg OR 0x30) (C\<lparr>ch_fifo := r, ch_bits := b\<rparr>)))"

definition chip_write :: "u8 \<Rightarrow> u8 \<Rightarrow> rc_chip \<Rightarrow> rc_chip" where
  "chip_write reg v C = (if reg = FIFODataReg then C\<lparr>ch_fifo := ch_fifo C @ [v]\<rparr>
     else if reg = FIFOLevelReg then (if bit v 7 then C\<lparr>ch_fifo := []\<rparr> else C)
     else if reg = ComIrqReg then set_reg reg (if bit v 7 then ch_regs C reg OR (v AND 0x7F) else ch_regs C reg AND NOT v) C
     else if reg = BitFramingReg \<and> bit v 7 \<and> ch_regs C CommandReg = PCD_TRANSCEIVE then chip_transmit (set_reg reg v C)
     else set_reg reg v C)"

text \<open>The bus with one chip for each select line.\<close>

record rc_field =
  chips :: "nat \<Rightarrow> rc_chip"
  selected :: "nat option"
  address :: "u8 option"

definition field_cs :: "nat \<Rightarrow> bool \<Rightarrow> rc_field \<Rightarrow> rc_field" where
  "field_cs d high x = (if high then x\<lparr>selected := None, address := None\<rparr>
     else if selected x = Some d then x else x\<lparr>selected := Some d, address := None\<rparr>)"

definition field_data :: "u16 \<Rightarrow> rc_field \<Rightarrow> u16 \<times> rc_field" where
  "field_data w x = (case selected x of None \<Rightarrow> (0xFF, x)
     | Some d \<Rightarrow> (case address x of None \<Rightarrow> (0, x\<lparr>address := Some (ucast w)\<rparr>)
       | Some a \<Rightarrow> let reg = drop_bit 1 (a AND 0x7E) in
           if bit a 7 then (case chip_read reg (chips x d) of (v, C) \<Rightarrow> (ucast v, x\<lparr>chips := (chips x)(d := C)\<rparr>))
           else (0, x\<lparr>chips := (chips x)(d := chip_write reg (ucast w) (chips x d))\<rparr>)))"

definition field_env :: "rc_field spi_env" where
  "field_env = \<lparr>hw_cs = field_cs, hw_data = field_data, hw_init = (\<lambda>i x. x), core_clock = 72000000, is_spi1 = False, lock_result = 0\<rparr>"

lemma address_code: "\<forall>k \<in> set [0..<64]. drop_bit 1 ((push_bit 1 (of_nat k) AND 0x7E OR 0x80) AND 0x7E) = (of_nat k :: u8)
    \<and> drop_bit 1 ((push_bit 1 (of_nat k) AND 0x7E) AND 0x7E) = (of_nat k :: u8)
    \<and> bit ((push_bit 1 (of_nat k) AND 0x7E) OR (0x80 :: u8)) 7 \<and> \<not> bit (push_bit 1 (of_nat k) AND (0x7E :: u8)) 7"
  by code_simp

lemma address_byte:
  assumes "(reg :: u8) < 64"
  shows "drop_bit 1 ((push_bit 1 reg AND 0x7E OR 0x80) AND 0x7E) = reg" "drop_bit 1 ((push_bit 1 reg AND 0x7E) AND 0x7E) = reg"
    "bit ((push_bit 1 reg AND 0x7E) OR 0x80) 7" "\<not> bit (push_bit 1 reg AND 0x7E) 7"
proof -
  have "unat reg < 64" using assms by (simp add: word_less_nat_alt)
  then have "unat reg \<in> set [0..<64]" by simp
  note k = bspec [OF address_code this, unfolded of_nat_unat ucast_id]
  show "drop_bit 1 ((push_bit 1 reg AND 0x7E OR 0x80) AND 0x7E) = reg" "drop_bit 1 ((push_bit 1 reg AND 0x7E) AND 0x7E) = reg"
    "bit ((push_bit 1 reg AND 0x7E) OR 0x80) 7" "\<not> bit (push_bit 1 reg AND 0x7E) 7"
    using k by blast+
qed

lemma ucast_back [simp]: "ucast (ucast (b :: u8) :: u16) = b"
  by (rule bit_word_eqI) (simp add: bit_ucast_iff)

interpretation rc: reg_bus field_env "\<lambda>d x. chips x d" "\<lambda>x. selected x = None" chip_read chip_write
proof
  fix x y z :: rc_field and reg :: u8 and d and a v :: u16
  assume q: "selected x = None" "reg < 64" and h1: "hw_data field_env (ucast (((push_bit 1 reg AND 0x7E) OR 0x80) :: u8)) (hw_cs field_env d False x) = (a, y)"
    and h2: "hw_data field_env 0 (hw_cs field_env d False y) = (v, z)"
  have y: "y = x\<lparr>selected := Some d, address := Some ((push_bit 1 reg AND 0x7E) OR 0x80)\<rparr>"
    using h1 q(1) by (simp add: field_env_def field_cs_def field_data_def)
  have c: "hw_cs field_env d False y = y" unfolding y by (simp add: field_env_def field_cs_def)
  show "selected (hw_cs field_env d True z) = None \<and> chip_read reg (chips x d) = (ucast v, chips (hw_cs field_env d True z) d)"
    using h2 address_byte [OF q(2)] unfolding c unfolding y
    by (auto simp: field_env_def field_cs_def field_data_def Let_def split: prod.splits)
next
  fix x y z :: rc_field and reg w :: u8 and d and a v :: u16
  assume q: "selected x = None" "reg < 64" and h1: "hw_data field_env (ucast (push_bit 1 reg AND 0x7E :: u8)) (hw_cs field_env d False x) = (a, y)"
    and h2: "hw_data field_env (ucast w) y = (v, z)"
  have y: "y = x\<lparr>selected := Some d, address := Some (push_bit 1 reg AND 0x7E)\<rparr>"
    using h1 q(1) by (simp add: field_env_def field_cs_def field_data_def)
  show "selected (hw_cs field_env d True z) = None \<and> chips (hw_cs field_env d True z) d = chip_write reg w (chips x d)"
    using h2 address_byte [OF q(2)] unfolding y
    by (auto simp: field_env_def field_cs_def field_data_def Let_def)
qed (simp_all add: field_env_def)

end
