(* ===== verification/Rc522Read.thy ===== *)
theory Rc522Read imports Rc522Chip begin

text \<open>Reading the number of a card.\<close>

subsection \<open>What the driver does to the chip\<close>

abbreviation reader_at :: "rc_view \<Rightarrow> rc_chip \<Rightarrow> rc_field rc522 \<Rightarrow> bool" where
  "reader_at \<equiv> rc_at (\<lambda>d x. chips x d) (\<lambda>x. selected x = None)"

definition field_at :: "rc_view \<Rightarrow> (bytes \<Rightarrow> (bytes \<times> u8) option) \<Rightarrow> bytes \<Rightarrow> u8 \<Rightarrow> u8 \<Rightarrow> u8 \<Rightarrow> u8 \<Rightarrow> rc_field rc522 \<Rightarrow> bool" where
  "field_at p c f m i e b R = (\<exists>C. reader_at p C R \<and> ch_card C = c \<and> ch_fifo C = f \<and> ch_regs C CommandReg = m
     \<and> ch_regs C ComIrqReg = i \<and> ch_regs C ErrorReg = e \<and> ch_bits C = b)"

lemmas reg_defs = CommandReg_def ComIEnReg_def ComIrqReg_def DivIrqReg_def ErrorReg_def Status2Reg_def FIFODataReg_def FIFOLevelReg_def
  ControlReg_def BitFramingReg_def CollReg_def TxControlReg_def

definition plain :: "u8 \<Rightarrow> bool" where
  "plain reg = (reg < 64 \<and> reg \<notin> {FIFODataReg, FIFOLevelReg, ComIrqReg, CommandReg, BitFramingReg, ErrorReg})"

lemma plain_regs [simp]: "plain ComIEnReg" "plain ControlReg" "plain Status2Reg" "plain CollReg" "plain TxControlReg"
  by (simp_all add: plain_def reg_defs)

lemma low_regs [simp]: "FIFODataReg < 64" "FIFOLevelReg < 64" "ComIrqReg < 64" "CommandReg < 64" "BitFramingReg < 64" "ErrorReg < 64" "ControlReg < 64"
  by (simp_all add: reg_defs)

lemma field_write:
  assumes "field_at p c f m i e b R"
  shows "plain reg \<Longrightarrow> yields (WriteRawRC field_env reg v R) (field_at p c f m i e b)"
    "\<not> bit v 7 \<Longrightarrow> yields (WriteRawRC field_env BitFramingReg v R) (field_at p c f m i e b)"
    "yields (WriteRawRC field_env CommandReg v R) (field_at p c f v i e b)"
    "yields (WriteRawRC field_env FIFODataReg v R) (field_at p c (f @ [v]) m i e b)"
  using assms unfolding field_at_def
  by (auto intro!: yields_mono [OF rc.Write_at] simp: plain_def chip_write_def set_reg_def reg_defs)

lemma field_read:
  assumes "field_at p c f m i e b R"
  shows "plain reg \<Longrightarrow> yields (ReadRawRC field_env reg R) (\<lambda>(v, R'). field_at p c f m i e b R' \<and> (reg = ControlReg \<longrightarrow> v AND 7 = b AND 7))"
    "yields (ReadRawRC field_env BitFramingReg R) (\<lambda>(v, R'). field_at p c f m i e b R')"
    "yields (ReadRawRC field_env ComIrqReg R) (\<lambda>(v, R'). v = i \<and> field_at p c f m i e b R')"
    "yields (ReadRawRC field_env ErrorReg R) (\<lambda>(v, R'). v = e \<and> field_at p c f m i e b R')"
    "yields (ReadRawRC field_env FIFOLevelReg R) (\<lambda>(v, R'). v = of_nat (length f) \<and> field_at p c f m i e b R')"
    "f = x # xs \<Longrightarrow> yields (ReadRawRC field_env FIFODataReg R) (\<lambda>(v, R'). v = x \<and> field_at p c xs m i e b R')"
proof -
  obtain C where C: "reader_at p C R" "ch_card C = c" "ch_fifo C = f" "ch_regs C CommandReg = m"
    "ch_regs C ComIrqReg = i" "ch_regs C ErrorReg = e" "ch_bits C = b" using assms unfolding field_at_def by blast
  have r: "yields (ReadRawRC field_env reg R) (\<lambda>(v, R'). v = fst (chip_read reg C) \<and> reader_at p (snd (chip_read reg C)) R')" if "reg < 64" for reg
    by (rule rc.Read_at [OF C(1) that])
  have k: "((ch_regs C reg AND NOT 7) OR (b AND 7)) AND 7 = b AND 7" for reg by (rule bit_eqI) (auto simp: bit_simps)
  show "plain reg \<Longrightarrow> yields (ReadRawRC field_env reg R) (\<lambda>(v, R'). field_at p c f m i e b R' \<and> (reg = ControlReg \<longrightarrow> v AND 7 = b AND 7))"
    using C(2-7) k [of ControlReg] by (cases "reg = ControlReg") (auto simp: field_at_def plain_def chip_read_def intro!: yields_mono [OF r] exI [of _ C])
  show "yields (ReadRawRC field_env BitFramingReg R) (\<lambda>(v, R'). field_at p c f m i e b R')"
    "yields (ReadRawRC field_env ComIrqReg R) (\<lambda>(v, R'). v = i \<and> field_at p c f m i e b R')"
    "yields (ReadRawRC field_env ErrorReg R) (\<lambda>(v, R'). v = e \<and> field_at p c f m i e b R')"
    "yields (ReadRawRC field_env FIFOLevelReg R) (\<lambda>(v, R'). v = of_nat (length f) \<and> field_at p c f m i e b R')"
    using C(2-7) by (auto simp: field_at_def chip_read_def reg_defs intro!: yields_mono [OF r] exI [of _ C])
  show "f = x # xs \<Longrightarrow> yields (ReadRawRC field_env FIFODataReg R) (\<lambda>(v, R'). v = x \<and> field_at p c xs m i e b R')"
    using C(2-7) by (auto simp: field_at_def chip_read_def reg_defs intro!: yields_mono [OF r] exI [of _ "C\<lparr>ch_fifo := xs\<rparr>"])
qed

lemma mask_plain:
  assumes "field_at p c f m i e b R" "plain reg"
  shows "yields (SetBitMask field_env reg v R) (field_at p c f m i e b)" "yields (ClearBitMask field_env reg v R) (field_at p c f m i e b)"
  unfolding SetBitMask_def ClearBitMask_def
  by (rule yields_bind [OF field_read(1) [OF assms]], use assms(2) in \<open>auto intro: field_write(1)\<close>)+

lemma clear_framing:
  assumes "field_at p c f m i e b R"
  shows "yields (ClearBitMask field_env BitFramingReg 0x80 R) (field_at p c f m i e b)"
proof -
  have "\<not> bit (v AND NOT (0x80 :: u8)) 7" for v by (simp add: bit_simps)
  then show ?thesis
    unfolding ClearBitMask_def by (intro yields_bind [OF field_read(2) [OF assms]]) (auto intro: field_write(2))
qed

lemma flush_fifo:
  assumes "field_at p c f m i e b R"
  shows "yields (SetBitMask field_env FIFOLevelReg 0x80 R) (field_at p c [] m i e b)"
proof -
  have k: "bit (v OR (0x80 :: u8)) 7" for v by (simp add: bit_simps)
  have "yields (WriteRawRC field_env FIFOLevelReg (v OR 0x80) R') (field_at p c [] m i e b)" if "field_at p c f m i e b R'" for v R'
    using that k unfolding field_at_def by (auto intro!: yields_mono [OF rc.Write_at] simp: chip_write_def reg_defs)
  then show ?thesis unfolding SetBitMask_def by (intro yields_bind [OF field_read(5) [OF assms]]) auto
qed

lemma clear_irq:
  assumes "field_at p c f m i e b R"
  shows "yields (ClearBitMask field_env ComIrqReg 0x80 R) (field_at p c f m (i AND 0x80) e b)"
proof -
  have k: "\<not> bit (i AND NOT (0x80 :: u8)) 7" "i AND NOT (i AND NOT 0x80) = i AND 0x80" by (simp add: bit_simps) (rule bit_eqI, auto simp: bit_simps)
  have "yields (WriteRawRC field_env ComIrqReg (i AND NOT 0x80) R') (field_at p c f m (i AND 0x80) e b)" if "field_at p c f m i e b R'" for R'
    using that k unfolding field_at_def by (auto intro!: yields_mono [OF rc.Write_at] simp: chip_write_def set_reg_def reg_defs)
  then show ?thesis unfolding ClearBitMask_def by (intro yields_bind [OF field_read(3) [OF assms]]) auto
qed

text \<open>Starting the transmission.\<close>

lemma start_send:
  assumes "field_at p c f PCD_TRANSCEIVE i e b R" "c f = Some (r, l)"
  shows "yields (SetBitMask field_env BitFramingReg 0x80 R) (field_at p c r PCD_TRANSCEIVE (i OR 0x30) 0 l)"
proof -
  have k: "bit (v OR (0x80 :: u8)) 7" for v by (simp add: bit_simps)
  have "yields (WriteRawRC field_env BitFramingReg (v OR 0x80) R') (field_at p c r PCD_TRANSCEIVE (i OR 0x30) 0 l)"
    if "field_at p c f PCD_TRANSCEIVE i e b R'" for v R'
    using that k assms(2) unfolding field_at_def
    by (auto intro!: yields_mono [OF rc.Write_at] simp: chip_write_def chip_transmit_def set_reg_def reg_defs)
  then show ?thesis unfolding SetBitMask_def by (intro yields_bind [OF field_read(2) [OF assms(1)]]) auto
qed

lemma fifo_write_at: "field_at p c f m i e b R \<Longrightarrow> yields (fifo_write field_env bs R) (field_at p c (f @ bs) m i e b)"
proof (induction bs arbitrary: f R)
  case (Cons x bs)
  show ?case using yields_bind [OF field_write(4) [OF Cons.prems, of x], of "fifo_write field_env bs" "field_at p c ((f @ [x]) @ bs) m i e b"]
      Cons.IH [of "f @ [x]"] by simp
qed simp

lemma fifo_read_at: "field_at p c (xs @ f) m i e b R \<Longrightarrow> yields (fifo_read field_env (length xs) R) (\<lambda>(bs, R'). bs = xs \<and> field_at p c f m i e b R')"
proof (induction xs arbitrary: R)
  case (Cons x xs)
  have r: "yields (ReadRawRC field_env FIFODataReg R) (\<lambda>(v, R'). v = x \<and> field_at p c (xs @ f) m i e b R')"
    by (rule field_read(6) [OF Cons.prems]) simp
  show ?case by (auto intro!: yields_bind [OF r] yields_bind [OF Cons.IH])
qed simp

subsection \<open>A frame and its answer\<close>

lemma poll_hit:
  assumes "field_at p c f m i e b R" "i AND msk \<noteq> 0"
  shows "yields (poll field_env ComIrqReg msk (Suc k) R) (\<lambda>(n, j, R'). n = i \<and> j = k \<and> field_at p c f m i e b R')"
  using assms(2) by (auto intro!: yields_bind [OF field_read(3) [OF assms(1)]])

lemma receive_at:
  assumes "field_at p c r m i 0 l R" "irq AND 1 = 0" "r \<noteq> []" "length r \<le> MAXRLEN" "length buf = MAXRLEN"
  shows "yields (PcdReceive field_env PCD_TRANSCEIVE irq buf R) (\<lambda>(st, bits, buf', R'). st = MI_OK
    \<and> bits = Some (rx_bits (of_nat (length r)) (l AND 7)) \<and> buf' = overwrite 0 r buf \<and> field_at p c [] m i 0 l R')"
proof -
  have u: "unat (of_nat (length r) :: u8) = length r" using assms(4) by (simp add: unat_of_nat MAXRLEN_def)
  then have "(of_nat (length r) :: u8) \<noteq> 0" using assms(3) by (metis length_0_conv unat_eq_0)
  then have n: "rx_bytes (of_nat (length r)) = length r" using u assms(4) by (simp add: rx_bytes_def Let_def)
  have f: "yields (fifo_read field_env (rx_bytes (of_nat (length r))) R1) (\<lambda>(bs, R'). bs = r \<and> field_at p c [] m i 0 l R')" if "field_at p c r m i 0 l R1" for R1
    using fifo_read_at [of p c r "[]" m i 0 l R1] that n by simp
  show ?thesis
    unfolding PcdReceive_def using assms(2,4,5)
    by (auto simp: Let_def intro!: yields_bind [OF field_read(4) [OF assms(1)]] yields_bind [OF field_read(5)] yields_bind [OF field_read(1) [where reg = ControlReg]]
        yields_bind [OF f])
qed

lemma Com_at:
  assumes "field_at p c f m i e b R" "c (take len buf) = Some (r, l)" "r \<noteq> []" "length r \<le> MAXRLEN" "length buf = MAXRLEN" "len \<le> MAXRLEN"
  shows "yields (PcdComMF522 field_env PCD_TRANSCEIVE buf len R) (\<lambda>(st, bits, buf', R'). st = MI_OK
    \<and> bits = Some (rx_bits (of_nat (length r)) (l AND 7)) \<and> buf' = overwrite 0 r buf
    \<and> (\<exists>f' m' i' e' b'. field_at p c f' m' i' e' b' R'))"
proof -
  define j where "j = (i AND 0x80) OR (0x30 :: u8)"
  have t: "PCD_TRANSCEIVE \<noteq> PCD_AUTHENT" by (simp add: PCD_TRANSCEIVE_def PCD_AUTHENT_def)
  have j: "j AND (1 OR 0x30) \<noteq> 0" "(j AND 0x77) AND 1 = 0"
  proof -
    have "bit (j AND (1 OR 0x30)) 4" by (simp add: j_def bit_simps)
    then show "j AND (1 OR 0x30) \<noteq> 0" by (metis bit_0_eq bot_apply bot_bool_def)
    show "(j AND 0x77) AND 1 = 0" by (rule bit_word_eqI) (auto simp: j_def bit_simps)
  qed
  have p: "yields (poll field_env ComIrqReg (1 OR 0x30) 256 R1) (\<lambda>(n, k, R'). n = j \<and> k = 255 \<and> field_at p c r PCD_TRANSCEIVE j 0 l R')"
    if "field_at p c r PCD_TRANSCEIVE j 0 l R1" for R1
    using poll_hit [OF that j(1), of 255] by (simp add: numeral_eq_Suc)
  have s: "yields (SetBitMask field_env BitFramingReg 0x80 R1) (field_at p c r PCD_TRANSCEIVE j 0 l)"
    if "field_at p c (take len buf) PCD_TRANSCEIVE (i AND 0x80) e b R1" for R1
    unfolding j_def by (rule start_send [OF that assms(2)])
  have w: "yields (fifo_write field_env (take len buf) R1) (field_at p c (take len buf) n k e b)" if "field_at p c [] n k e b R1" for R1 n k
    using fifo_write_at [OF that, of "take len buf"] by simp
  have o: "take_in len buf = Some (take len buf)" using assms(5,6) by simp
  show ?thesis
    unfolding PcdComMF522_def Let_def o Option.bind.bind_lunit
    apply (rule yields_bind [OF field_write(1) [OF assms(1)]], simp)
    apply (rule yields_bind [OF clear_irq], assumption)
    apply (rule yields_bind [OF field_write(3)], assumption)
    apply (rule yields_bind [OF flush_fifo], assumption)
    apply (rule yields_bind [OF w], assumption)
    apply (rule yields_bind [OF field_write(3)], assumption)
    apply (simp only: t if_True if_False refl)
    apply (rule yields_bind [OF s], assumption)
    apply (rule yields_bind [OF p], assumption)
    apply (clarsimp simp only: prod.case)
    apply (rule yields_bind [OF clear_framing], assumption)
    apply (simp only: zero_neq_numeral [symmetric] not_False_eq_True if_True)
    apply (rule yields_bind [OF receive_at [OF _ j(2) assms(3-5)]], assumption)
    apply (clarsimp simp only: prod.case)
    apply (rule yields_bind [OF mask_plain(1)], assumption, simp)
    apply (rule yields_bind [OF field_write(3)], assumption)
    apply (auto; blast)
    done
qed

subsection \<open>Reading the number\<close>

lemma field_extend: "field_at (k, d, ct, snr) c f m i e b R \<Longrightarrow> field_at (k, d, x, snr) c f m i e b (R\<lparr>rc_ct := x\<rparr>)"
    "field_at (k, d, ct, snr) c f m i e b R \<Longrightarrow> field_at (k, d, ct, y) c f m i e b (R\<lparr>rc_snr := y\<rparr>)"
  by (auto simp: field_at_def rc_at_def rc_ok_def)

lemma Request_at:
  assumes "field_at (k, d, ct, snr) c f m i e b R" "length u = MAXRLEN" "c [code] = Some (tag, 0)" "length tag = 2"
  shows "yields (PcdRequest field_env u code R) (\<lambda>(st, R'). st = MI_OK \<and> (\<exists>ct' f' m' i' e' b'. field_at (k, d, ct', snr) c f' m' i' e' b' R'))"
proof -
  have t: "take 1 (u[0 := code]) = [code]" using assms(2) by (cases u) (auto simp: MAXRLEN_def)
  have r: "tag \<noteq> []" "length tag \<le> MAXRLEN" using assms(4) by (auto simp: MAXRLEN_def)
  have lb: "length (u[0 := code]) = MAXRLEN" "1 \<le> MAXRLEN" using assms(2) by (simp_all add: MAXRLEN_def)
  have b: "rx_bits (of_nat (length tag)) (0 AND 7) = 0x10" using assms(4) by (simp add: rx_bits_def)
  have "\<not> bit (7 :: u8) 7" by simp
  then show ?thesis
    unfolding PcdRequest_def
    apply (intro yields_bind [OF mask_plain(2) [OF assms(1)]], simp)
    apply (rule yields_bind [OF field_write(2)], assumption, simp)
    apply (rule yields_bind [OF mask_plain(1)], assumption, simp)
    apply (rule yields_bind [OF Com_at [where c = c and len = 1 and buf = "u[0 := code]" and r = tag and l = 0, unfolded t, OF _ assms(3) r lb]], assumption)
    using b apply (auto intro: field_extend)
    apply (metis field_extend(1))
    done
qed

lemma Anticoll_at:
  assumes "field_at (k, d, ct, snr) c f m i e b R" "length u = MAXRLEN" "c [PICC_ANTICOLL1, 0x20] = Some (s, 0)" "length s = 5"
  shows "yields (PcdAnticoll field_env u R) (\<lambda>(st, R'). st = (if foldl (XOR) 0 (take 4 s) = s ! 4 then MI_OK else MI_ERR) \<and> rc_snr R' = take 4 s)"
proof -
  have t: "take 2 (u[0 := PICC_ANTICOLL1, 1 := 0x20]) = [PICC_ANTICOLL1, 0x20]"
    using assms(2) by (cases u; cases "tl u") (auto simp: MAXRLEN_def numeral_2_eq_2)
  have r: "s \<noteq> []" "length s \<le> MAXRLEN" using assms(4) by (auto simp: MAXRLEN_def)
  have lb: "length (u[0 := PICC_ANTICOLL1, 1 := 0x20]) = MAXRLEN" "2 \<le> MAXRLEN" using assms(2) by (simp_all add: MAXRLEN_def)
  have o: "take 4 (overwrite 0 s v) = take 4 s" "overwrite 0 s v ! 4 = s ! 4" for v
    using assms(4) by (simp_all add: overwrite_def nth_append)
  have e: "yields (SetBitMask field_env CollReg 0x80 R') (\<lambda>R''. rc_snr R'' = take 4 s)" if "field_at (k, d, ct, take 4 s) c f m i e b R'" for f m i e b R'
    by (rule yields_mono [OF mask_plain(1) [OF that]]) (auto simp: field_at_def rc_at_def)
  show ?thesis
    unfolding PcdAnticoll_def
    apply (intro yields_bind [OF mask_plain(2) [OF assms(1)]], simp)
    apply (rule yields_bind [OF field_write(2)], assumption, simp)
    apply (rule yields_bind [OF mask_plain(2)], assumption, simp)
    apply (rule yields_bind [OF Com_at [where c = c and len = 2 and buf = "u[0 := PICC_ANTICOLL1, 1 := 0x20]" and r = s and l = 0, unfolded t, OF _ assms(3) r lb]], assumption)
    apply (auto simp: o Let_def intro!: yields_bind [OF e] dest: field_extend(2))
    done
qed

end
