(* ===== verification/Platform.thy ===== *)
theory Platform imports Prelude begin

text \<open>The platform the application is linked against: the POSIX-like file calls of the device
  file system (dfs_posix.h) and the CRC unit of the STM32.  Both are arguments of the application
  model, collected in the record \<open>plat\<close>.  The file calls are instantiated with the model of the
  repository's own file system (theories Dfs and RamFs); the CRC unit is hardware and stays a
  parameter.  The locale \<open>posix_files\<close> is the contract of the file calls for the way the
  application uses them: one file open at a time, absolute one-component paths, transfers within
  the capacity \<open>cap\<close> of the device.\<close>

definition O_RDWR :: u32 where "O_RDWR = 0x2"
definition O_WRONLY :: u32 where "O_WRONLY = 0x1"
definition O_CREAT :: u32 where "O_CREAT = 0x100"
definition O_TRUNC :: u32 where "O_TRUNC = 0x1000"
definition O_APPEND :: u32 where "O_APPEND = 0x2000"
definition O_DIRECTORY :: u32 where "O_DIRECTORY = 0x200000"

definition SEEK_SET :: int where "SEEK_SET = 0"
definition SEEK_CUR :: int where "SEEK_CUR = 1"
definition SEEK_END :: int where "SEEK_END = 2"

lemmas open_flags = O_RDWR_def O_WRONLY_def O_CREAT_def O_TRUNC_def O_APPEND_def O_DIRECTORY_def

text \<open>\<open>p_stat\<close> returns the result code and the \<open>st_size\<close> field; \<open>p_read\<close> the result code and
  the bytes stored in the caller's buffer (as many as the code says).\<close>

record 's plat =
  p_open :: "string \<Rightarrow> u32 \<Rightarrow> 's \<Rightarrow> int \<times> 's"
  p_close :: "int \<Rightarrow> 's \<Rightarrow> int \<times> 's"
  p_read :: "int \<Rightarrow> u32 \<Rightarrow> 's \<Rightarrow> int \<times> bytes \<times> 's"
  p_write :: "int \<Rightarrow> bytes \<Rightarrow> 's \<Rightarrow> int \<times> 's"
  p_lseek :: "int \<Rightarrow> int \<Rightarrow> int \<Rightarrow> 's \<Rightarrow> int \<times> 's"
  p_stat :: "string \<Rightarrow> 's \<Rightarrow> int \<times> u32 \<times> 's"
  p_unlink :: "string \<Rightarrow> 's \<Rightarrow> int \<times> 's"
  crc_reset :: u32
  crc_feed :: "u32 \<Rightarrow> u32 \<Rightarrow> u32"

text \<open>stm32_crc.c: the data register is reset, every byte is written to it as a word of its own,
  and the register is read back.\<close>

definition block_crc_calc :: "'s plat \<Rightarrow> bytes \<Rightarrow> u32" where
  "block_crc_calc P bs = foldl (\<lambda>dr b. crc_feed P dr (ucast b)) (crc_reset P) bs"

lemma block_crc_calc_Nil [simp]: "block_crc_calc P [] = crc_reset P"
  by (simp add: block_crc_calc_def)

lemma block_crc_calc_append:
  "block_crc_calc P (xs @ ys)
   = foldl (\<lambda>dr b. crc_feed P dr (ucast b)) (block_crc_calc P xs) ys"
  by (simp add: block_crc_calc_def)

text \<open>The paths the application uses: a slash and a name of fewer than 32 characters without
  slashes or dots at its front.\<close>

definition fpath :: "string \<Rightarrow> bool" where
  "fpath p = (case p of [] \<Rightarrow> False | c # n \<Rightarrow> c = CHR ''/'' \<and> n \<noteq> [] \<and> length n < 32
     \<and> CHR ''/'' \<notin> set n \<and> hd n \<noteq> CHR ''.'' \<and> CHR 0x00 \<notin> set n)"

definition plain_flags :: "u32 \<Rightarrow> bool" where
  "plain_flags fl = (fl AND O_WRONLY = 0 \<and> fl AND O_APPEND = 0 \<and> fl AND O_DIRECTORY = 0)"

definition after_open :: "u32 \<Rightarrow> bytes option \<Rightarrow> bytes" where
  "after_open fl c = (if fl AND O_TRUNC \<noteq> 0 then [] else case c of None \<Rightarrow> [] | Some bs \<Rightarrow> bs)"

locale posix_files =
  fixes P :: "'s plat"
    and content :: "'s \<Rightarrow> string \<Rightarrow> bytes option"
    and sess :: "'s \<Rightarrow> (int \<times> string \<times> nat) option"
    and ready :: "'s \<Rightarrow> bool"
    and cap :: nat
  assumes cap_bound: "cap < 2147483648"
    and content_cap: "ready s \<Longrightarrow> content s p = Some c \<Longrightarrow> length c \<le> cap"
    and open_ok: "ready s \<Longrightarrow> sess s = None \<Longrightarrow> fpath p \<Longrightarrow> plain_flags fl
      \<Longrightarrow> content s p \<noteq> None \<or> fl AND O_CREAT \<noteq> 0
      \<Longrightarrow> p_open P p fl s = (fd, s')
      \<Longrightarrow> 0 \<le> fd \<and> ready s' \<and> sess s' = Some (fd, p, 0)
          \<and> content s' = (content s)(p \<mapsto> after_open fl (content s p))"
    and open_fail: "ready s \<Longrightarrow> sess s = None \<Longrightarrow> fpath p \<Longrightarrow> plain_flags fl
      \<Longrightarrow> content s p = None \<Longrightarrow> fl AND O_CREAT = 0
      \<Longrightarrow> p_open P p fl s = (fd, s')
      \<Longrightarrow> fd < 0 \<and> ready s' \<and> sess s' = None \<and> content s' = content s"
    and lseek_ok: "ready s \<Longrightarrow> sess s = Some (fd, p, pos) \<Longrightarrow> content s p = Some c
      \<Longrightarrow> 0 \<le> ofs \<Longrightarrow> ofs \<le> int (length c)
      \<Longrightarrow> p_lseek P fd ofs SEEK_SET s = (r, s')
      \<Longrightarrow> r = ofs \<and> ready s' \<and> sess s' = Some (fd, p, nat ofs) \<and> content s' = content s"
    and lseek_neg: "ready s \<Longrightarrow> sess s = Some (fd, p, pos) \<Longrightarrow> ofs < 0 \<Longrightarrow> - 2147483648 \<le> ofs
      \<Longrightarrow> p_lseek P fd ofs SEEK_SET s = (r, s')
      \<Longrightarrow> r = -1 \<and> ready s' \<and> sess s' = Some (fd, p, pos) \<and> content s' = content s"
    and read_ok: "ready s \<Longrightarrow> sess s = Some (fd, p, pos) \<Longrightarrow> content s p = Some c
      \<Longrightarrow> p_read P fd n s = (r, bs, s')
      \<Longrightarrow> bs = window pos (unat n) c \<and> r = int (length bs) \<and> ready s'
          \<and> sess s' = Some (fd, p, pos + length bs) \<and> content s' = content s"
    and write_ok: "ready s \<Longrightarrow> sess s = Some (fd, p, pos) \<Longrightarrow> content s p = Some c
      \<Longrightarrow> pos \<le> length c \<Longrightarrow> pos + length ys \<le> cap
      \<Longrightarrow> p_write P fd ys s = (r, s')
      \<Longrightarrow> r = int (length ys) \<and> ready s' \<and> sess s' = Some (fd, p, pos + length ys)
          \<and> content s' = (content s)(p \<mapsto> overwrite pos ys c)"
    and close_ok: "ready s \<Longrightarrow> sess s = Some (fd, p, pos) \<Longrightarrow> p_close P fd s = (r, s')
      \<Longrightarrow> r = 0 \<and> ready s' \<and> sess s' = None \<and> content s' = content s"
    and close_bad: "ready s \<Longrightarrow> sess s = None \<Longrightarrow> fd < 0 \<Longrightarrow> p_close P fd s = (r, s')
      \<Longrightarrow> r = -1 \<and> ready s' \<and> sess s' = None \<and> content s' = content s"
    and stat_ok: "ready s \<Longrightarrow> sess s = None \<Longrightarrow> fpath p \<Longrightarrow> content s p = Some c
      \<Longrightarrow> p_stat P p s = (r, sz, s')
      \<Longrightarrow> r = 0 \<and> sz = of_nat (length c) \<and> ready s' \<and> sess s' = None \<and> content s' = content s"
    and stat_fail: "ready s \<Longrightarrow> sess s = None \<Longrightarrow> fpath p \<Longrightarrow> content s p = None
      \<Longrightarrow> p_stat P p s = (r, sz, s')
      \<Longrightarrow> r = -1 \<and> ready s' \<and> sess s' = None \<and> content s' = content s"
    and unlink_ok: "ready s \<Longrightarrow> sess s = None \<Longrightarrow> fpath p \<Longrightarrow> content s p \<noteq> None
      \<Longrightarrow> p_unlink P p s = (r, s')
      \<Longrightarrow> r = 0 \<and> ready s' \<and> sess s' = None \<and> content s' = (content s)(p := None)"
    and unlink_fail: "ready s \<Longrightarrow> sess s = None \<Longrightarrow> fpath p \<Longrightarrow> content s p = None
      \<Longrightarrow> p_unlink P p s = (r, s')
      \<Longrightarrow> r = -1 \<and> ready s' \<and> sess s' = None \<and> content s' = content s"
begin

text \<open>The states in which the application starts an operation: no file open.\<close>

definition idle :: "'s \<Rightarrow> bool" where
  "idle s = (ready s \<and> sess s = None)"

definition opened :: "'s \<Rightarrow> int \<Rightarrow> string \<Rightarrow> nat \<Rightarrow> bytes \<Rightarrow> bool" where
  "opened s fd p pos c = (0 \<le> fd \<and> ready s \<and> sess s = Some (fd, p, pos) \<and> content s p = Some c
     \<and> pos \<le> length c)"

lemma openedD: "opened s fd p pos c \<Longrightarrow> content s p = Some c \<and> length c \<le> cap \<and> pos \<le> length c"
  by (auto simp: opened_def content_cap)

text \<open>Each call as an elimination rule: the result of the call is named and described.\<close>

lemma openE:
  assumes "idle s" "fpath p" "plain_flags fl" "content s p \<noteq> None \<or> fl AND O_CREAT \<noteq> 0"
  obtains fd s' where "p_open P p fl s = (fd, s')" "\<not> fd < 0"
    "opened s' fd p 0 (after_open fl (content s p))"
    "content s' = (content s)(p \<mapsto> after_open fl (content s p))"
proof -
  obtain fd s' where o: "p_open P p fl s = (fd, s')" by (cases "p_open P p fl s") auto
  with open_ok [OF _ _ assms(2-4) o] assms(1) show ?thesis
    by (intro that [OF o]) (simp_all add: idle_def opened_def)
qed

lemma open_failE:
  assumes "idle s" "fpath p" "plain_flags fl" "content s p = None" "fl AND O_CREAT = 0"
  obtains fd s' where "p_open P p fl s = (fd, s')" "fd < 0" "idle s'" "content s' = content s"
proof -
  obtain fd s' where o: "p_open P p fl s = (fd, s')" by (cases "p_open P p fl s") auto
  with open_fail [OF _ _ assms(2-5) o] assms(1) show ?thesis
    by (intro that [OF o]) (simp_all add: idle_def)
qed

lemma lseekE:
  assumes "opened s fd p pos c" "0 \<le> ofs" "ofs \<le> int (length c)"
  obtains s' where "p_lseek P fd ofs SEEK_SET s = (ofs, s')" "opened s' fd p (nat ofs) c"
    "content s' = content s"
proof -
  obtain r s' where o: "p_lseek P fd ofs SEEK_SET s = (r, s')"
    by (cases "p_lseek P fd ofs SEEK_SET s") auto
  have "r = ofs \<and> ready s' \<and> sess s' = Some (fd, p, nat ofs) \<and> content s' = content s"
    using lseek_ok [OF _ _ _ assms(2,3) o] assms(1) by (simp add: opened_def)
  with that [of s'] o assms show ?thesis by (simp add: opened_def nat_le_iff)
qed

lemma lseek_negE:
  assumes "opened s fd p pos c" "ofs < 0" "- 2147483648 \<le> ofs"
  obtains s' where "p_lseek P fd ofs SEEK_SET s = (-1, s')" "opened s' fd p pos c"
    "content s' = content s"
proof -
  obtain r s' where o: "p_lseek P fd ofs SEEK_SET s = (r, s')"
    by (cases "p_lseek P fd ofs SEEK_SET s") auto
  have "r = -1 \<and> ready s' \<and> sess s' = Some (fd, p, pos) \<and> content s' = content s"
    using lseek_neg [OF _ _ assms(2,3) o] assms(1) by (simp add: opened_def)
  with that [of s'] o assms(1) show ?thesis by (simp add: opened_def)
qed

lemma readE:
  assumes "opened s fd p pos c"
  obtains s' where "p_read P fd n s = (int (length (window pos (unat n) c)), window pos (unat n) c, s')"
    "opened s' fd p (pos + length (window pos (unat n) c)) c" "content s' = content s"
proof -
  obtain r bs s' where o: "p_read P fd n s = (r, bs, s')" by (cases "p_read P fd n s") auto
  have "bs = window pos (unat n) c \<and> r = int (length bs) \<and> ready s'
      \<and> sess s' = Some (fd, p, pos + length bs) \<and> content s' = content s"
    using read_ok [OF _ _ _ o] assms by (simp add: opened_def)
  with that [of s'] o assms show ?thesis by (auto simp add: opened_def)
qed

lemma writeE:
  assumes "opened s fd p pos c" "pos + length ys \<le> cap"
  obtains s' where "p_write P fd ys s = (int (length ys), s')"
    "opened s' fd p (pos + length ys) (overwrite pos ys c)"
    "content s' = (content s)(p \<mapsto> overwrite pos ys c)"
proof -
  obtain r s' where o: "p_write P fd ys s = (r, s')" by (cases "p_write P fd ys s") auto
  have "r = int (length ys) \<and> ready s' \<and> sess s' = Some (fd, p, pos + length ys)
      \<and> content s' = (content s)(p \<mapsto> overwrite pos ys c)"
    using write_ok [OF _ _ _ _ assms(2) o] assms(1) by (simp add: opened_def)
  with that [of s'] o assms(1) show ?thesis by (simp add: opened_def)
qed

lemma closeE:
  assumes "opened s fd p pos c"
  obtains s' where "p_close P fd s = (0, s')" "idle s'" "content s' = content s"
proof -
  obtain r s' where o: "p_close P fd s = (r, s')" by (cases "p_close P fd s") auto
  have "r = 0 \<and> ready s' \<and> sess s' = None \<and> content s' = content s"
    using close_ok [OF _ _ o] assms by (simp add: opened_def)
  with that [of s'] o show ?thesis by (simp add: idle_def)
qed

lemma close_badE:
  assumes "idle s" "fd < 0"
  obtains s' where "p_close P fd s = (-1, s')" "idle s'" "content s' = content s"
proof -
  obtain r s' where o: "p_close P fd s = (r, s')" by (cases "p_close P fd s") auto
  have "r = -1 \<and> ready s' \<and> sess s' = None \<and> content s' = content s"
    using close_bad [OF _ _ assms(2) o] assms(1) by (simp add: idle_def)
  with that [of s'] o show ?thesis by (simp add: idle_def)
qed

lemma statE:
  assumes "idle s" "fpath p" "content s p = Some c"
  obtains s' where "p_stat P p s = (0, of_nat (length c), s')" "idle s'" "content s' = content s"
proof -
  obtain r z s' where o: "p_stat P p s = (r, z, s')" by (cases "p_stat P p s") auto
  have "r = 0 \<and> z = of_nat (length c) \<and> ready s' \<and> sess s' = None \<and> content s' = content s"
    using stat_ok [OF _ _ assms(2,3) o] assms(1) by (simp add: idle_def)
  with that [of s'] o show ?thesis by (simp add: idle_def)
qed

lemma stat_failE:
  assumes "idle s" "fpath p" "content s p = None"
  obtains z s' where "p_stat P p s = (-1, z, s')" "idle s'" "content s' = content s"
proof -
  obtain r z s' where o: "p_stat P p s = (r, z, s')" by (cases "p_stat P p s") auto
  have "r = -1 \<and> ready s' \<and> sess s' = None \<and> content s' = content s"
    using stat_fail [OF _ _ assms(2,3) o] assms(1) by (simp add: idle_def)
  with that [of z s'] o show ?thesis by (simp add: idle_def)
qed

lemma unlinkE:
  assumes "idle s" "fpath p"
  obtains r s' where "p_unlink P p s = (r, s')" "r = (if content s p = None then -1 else 0)" "idle s'"
    "content s' = (content s)(p := None)"
proof -
  obtain r s' where o: "p_unlink P p s = (r, s')" by (cases "p_unlink P p s") auto
  have "r = (if content s p = None then -1 else 0) \<and> ready s' \<and> sess s' = None
      \<and> content s' = (content s)(p := None)"
    using unlink_ok [OF _ _ assms(2) _ o] unlink_fail [OF _ _ assms(2) _ o] assms(1)
    by (cases "content s p") (simp_all add: idle_def fun_upd_idem)
  with that [OF o] show ?thesis by (simp add: idle_def)
qed

end

text \<open>The hypothesis of the application's theorems: the calls of the platform meet the contract and
  no file is open in the state \<open>s\<close>.\<close>

definition files_ok :: "'s plat \<Rightarrow> ('s \<Rightarrow> string \<Rightarrow> bytes option) \<Rightarrow> ('s \<Rightarrow> (int \<times> string \<times> nat) option)
    \<Rightarrow> ('s \<Rightarrow> bool) \<Rightarrow> nat \<Rightarrow> 's \<Rightarrow> bool" where
  "files_ok P content sess ready cap s
     = (posix_files P content sess ready cap \<and> ready s \<and> sess s = None)"

lemma files_okD:
  assumes "files_ok P content sess ready cap s"
  shows "posix_files P content sess ready cap" "posix_files.idle sess ready s"
  using assms by (auto simp: files_ok_def posix_files.idle_def)

lemma files_okI:
  "posix_files P content sess ready cap \<Longrightarrow> posix_files.idle sess ready s
   \<Longrightarrow> files_ok P content sess ready cap s"
  by (simp add: files_ok_def posix_files.idle_def)

end
