(* ===== verification/UserInfo.thy ===== *)
theory UserInfo imports Prelude begin

text \<open>The packed structures of p_database.h: the user record of 1058 bytes and the link between a
  card and a user, with their images in memory and in the file /member.bin.\<close>

definition MAX_USER_NUM :: nat where "MAX_USER_NUM = 200"
definition HEADER_SIZE :: nat where "HEADER_SIZE = 8"
definition USER_SIZE :: nat where "USER_SIZE = 1058"
definition CRC_OFFSET :: nat where "CRC_OFFSET = 1038"
definition STATE_OFFSET :: nat where "STATE_OFFSET = 1042"

lemmas user_sizes = HEADER_SIZE_def USER_SIZE_def CRC_OFFSET_def STATE_OFFSET_def

record user_info =
  user_id :: u16
  card_id :: u32
  effective :: u8
  student_id :: bytes
  uname :: bytes
  authority :: bytes
  is_time_limit :: u8
  year :: u16
  month :: u8
  day :: u8
  hour :: u8
  minutes :: u8
  second :: u8
  finger_index :: "u16 list"
  finger :: "bytes list"
  ucrc :: u32
  ustate :: bytes

record card_link =
  link_user :: u16
  link_card :: u32

definition user_wf :: "user_info \<Rightarrow> bool" where
  "user_wf u = (length (student_id u) = 16 \<and> length (uname u) = 16 \<and> length (authority u) = 16
     \<and> length (finger_index u) = 5 \<and> length (finger u) = 5 \<and> (\<forall>r \<in> set (finger u). length r = 193)
     \<and> length (ustate u) = 16)"

definition user_info_bytes :: "user_info \<Rightarrow> bytes" where
  "user_info_bytes u = le16 (user_id u) @ le32 (card_id u) @ [effective u] @ student_id u @ uname u
     @ authority u @ [is_time_limit u] @ le16 (year u) @ [month u] @ [day u] @ [hour u] @ [minutes u]
     @ [second u] @ le16s (finger_index u) @ concat (finger u) @ le32 (ucrc u) @ ustate u"

definition user_info_of :: "bytes \<Rightarrow> user_info" where
  "user_info_of bs = \<lparr>user_id = u16_at 0 bs, card_id = u32_at 2 bs, effective = bs ! 6,
     student_id = window 7 16 bs, uname = window 23 16 bs, authority = window 39 16 bs,
     is_time_limit = bs ! 55, year = u16_at 56 bs, month = bs ! 58, day = bs ! 59, hour = bs ! 60,
     minutes = bs ! 61, second = bs ! 62, finger_index = u16s_at 63 5 bs,
     finger = rows_at 73 193 5 bs, ucrc = u32_at 1038 bs, ustate = window 1042 16 bs\<rparr>"

definition card_link_bytes :: "card_link \<Rightarrow> bytes" where
  "card_link_bytes l = le16 (link_user l) @ le32 (link_card l)"

definition card_link_of :: "bytes \<Rightarrow> card_link" where
  "card_link_of bs = \<lparr>link_user = u16_at 0 bs, link_card = u32_at 2 bs\<rparr>"

lemma length_user_info_bytes [simp, layout]: "user_wf u \<Longrightarrow> length (user_info_bytes u) = 1058"
  using length_concat_rows [of "finger u" 193] by (simp add: user_info_bytes_def user_wf_def)

lemma length_card_link_bytes [simp, layout]: "length (card_link_bytes l) = 6"
  by (simp add: card_link_bytes_def)

lemma user_info_roundtrip:
  assumes "user_wf u"
  shows "user_info_of (user_info_bytes u) = u"
proof -
  have w: "length (student_id u) = 16" "length (uname u) = 16" "length (authority u) = 16"
    "length (finger_index u) = 5" "length (finger u) = 5" "length (concat (finger u)) = 965"
    "length (ustate u) = 16"
    using assms length_concat_rows [of "finger u" 193] by (simp_all add: user_wf_def)
  let ?b = "user_info_bytes u"
  have l: "length ?b = 1058" using assms by simp
  have win: "window 0 2 ?b = le16 (user_id u)" "window 2 4 ?b = le32 (card_id u)"
    "window 6 1 ?b = [effective u]" "window 7 16 ?b = student_id u" "window 23 16 ?b = uname u"
    "window 39 16 ?b = authority u" "window 55 1 ?b = [is_time_limit u]"
    "window 56 2 ?b = le16 (year u)" "window 58 1 ?b = [month u]" "window 59 1 ?b = [day u]"
    "window 60 1 ?b = [hour u]" "window 61 1 ?b = [minutes u]" "window 62 1 ?b = [second u]"
    "window 63 10 ?b = le16s (finger_index u)" "window 73 965 ?b = concat (finger u)"
    "window 1038 4 ?b = le32 (ucrc u)" "window 1042 16 ?b = ustate u"
    by (simp_all add: user_info_bytes_def fields w)
  have "rows_at 73 193 5 ?b = rows_at 0 193 5 (window 73 965 ?b)"
    by (auto simp: rows_at_def window_window)
  also have "\<dots> = finger u"
    using rows_at_concat [of "finger u" 193] assms by (simp add: win(15) user_wf_def)
  finally have f: "rows_at 73 193 5 ?b = finger u" .
  show ?thesis
    using u16_of_window [OF win(1)] u32_of_window [OF win(2)] nth_of_window [OF win(3)]
      nth_of_window [OF win(7)] u16_of_window [OF win(8)] nth_of_window [OF win(9)]
      nth_of_window [OF win(10)] nth_of_window [OF win(11)] nth_of_window [OF win(12)]
      nth_of_window [OF win(13)] u16s_of_window [of 63 5 ?b "finger_index u"]
      u32_of_window [OF win(16)] win w l
    by (simp add: user_info_of_def f)
qed

lemma user_info_bytes_of:
  assumes "length bs = 1058"
  shows "user_info_bytes (user_info_of bs) = bs"
  using assms
  by (simp add: user_info_bytes_def user_info_of_def le16_at le32_at le16s_u16s_at concat_rows_at
      nth_window_app nth_window1 window_join window_join_append)

lemma user_wf_of: "length bs = 1058 \<Longrightarrow> user_wf (user_info_of bs)"
  by (auto simp: user_wf_def user_info_of_def u16s_at_def rows_at_def)

text \<open>Only the first 1058 bytes matter.\<close>

lemma user_info_of_append: "length xs = 1058 \<Longrightarrow> user_info_of (xs @ ys) = user_info_of xs"
  by (simp add: user_info_of_def u16_at_def u32_at_def nth_append window_append1 u16s_at_def rows_at_def
      upt_rec)

text \<open>Overwriting the last 16 bytes replaces the state field.\<close>

lemma user_state_overwrite:
  assumes "length bs = 1058" "length st = 16"
  shows "user_info_of (overwrite 1042 st bs) = (user_info_of bs)\<lparr>ustate := st\<rparr>"
proof -
  let ?b = "overwrite 1042 st bs"
  have l: "length ?b = 1058" using assms by simp
  have n: "?b ! i = bs ! i" if "i < 1042" for i
    using that assms by (simp add: overwrite_def nth_append)
  have w: "window p n ?b = window p n bs" if "p + n \<le> 1042" for p n
    using that assms by (simp add: window_overwrite_before)
  show ?thesis
    using assms by (simp add: user_info_of_def u16_at_def u32_at_def n w u16s_at_def rows_at_def upt_rec)
qed

lemma card_link_roundtrip: "card_link_of (card_link_bytes l) = l"
proof -
  have "u16_at 0 (card_link_bytes l) = link_user l"
    by (rule u16_of_window) (simp_all add: card_link_bytes_def fields)
  moreover have "u32_at 2 (card_link_bytes l) = link_card l"
    by (rule u32_of_window) (simp_all add: card_link_bytes_def fields)
  ultimately show ?thesis by (simp add: card_link_of_def)
qed

lemma card_link_bytes_of: "length bs = 6 \<Longrightarrow> card_link_bytes (card_link_of bs) = bs"
  by (simp add: card_link_of_def card_link_bytes_def le16_at le32_at window_join)

text \<open>The link of a user is the head of its record.\<close>

lemma card_link_of_user:
  assumes "length bs = 1058"
  shows "card_link_of (window 0 6 bs) = \<lparr>link_user = user_id (user_info_of bs), link_card = card_id (user_info_of bs)\<rparr>"
  using assms by (simp add: card_link_of_def user_info_of_def u16_at_def u32_at_def nth_window numeral_2_eq_2)

end
