(* ===== verification/PDatabase.thy ===== *)
theory PDatabase imports Platform UserInfo begin

text \<open>p_database.c: the user database /member.bin, a header of 8 bytes followed by slots of 1058
  bytes; user \<open>i\<close> lives in slot \<open>i - 1\<close> and a slot whose user number is 0 is free.  Every operation
  opens the file, seeks, transfers and closes it.  Offsets are computed in unsigned 32-bit
  arithmetic and passed as a signed long.  Results are the return code, the updated out
  parameters, and the platform state.\<close>

definition user_info_database_path :: string where "user_info_database_path = ''/member.bin''"

definition db_flags :: u32 where "db_flags = O_RDWR OR O_CREAT"

subsection \<open>Operations\<close>

definition card_compar :: "card_link \<Rightarrow> card_link \<Rightarrow> int" where
  "card_compar a b = (if link_card a > link_card b then -1
     else if link_card a < link_card b then 1 else 0)"

definition slot_addr :: "nat \<Rightarrow> u32" where
  "slot_addr i = of_nat USER_SIZE * of_nat i + of_nat HEADER_SIZE"

definition user_addr :: "u16 \<Rightarrow> u32" where
  "user_addr uid = of_nat USER_SIZE * (ucast uid - 1) + of_nat HEADER_SIZE"

fun user_num_loop :: "'s plat \<Rightarrow> int \<Rightarrow> nat \<Rightarrow> nat \<Rightarrow> u16 \<Rightarrow> u16 \<Rightarrow> 's \<Rightarrow> (u16 \<times> u16) option \<times> 's"
  where
  "user_num_loop P fd 0 i num mx s = (Some (num, mx), s)"
| "user_num_loop P fd (Suc k) i num mx s =
     (case p_lseek P fd (sint (slot_addr i)) SEEK_SET s of (r, s1) \<Rightarrow>
       if r = -1 then (None, s1)
       else (case p_read P fd 2 s1 of (n, bs, s2) \<Rightarrow>
         if n \<noteq> 2 then (None, s2)
         else let uid = u16_at 0 bs in
           if uid \<noteq> 0 then user_num_loop P fd k (Suc i) (num + 1) (if uid > mx then uid else mx) s2
           else user_num_loop P fd k (Suc i) num mx s2))"

text \<open>The pair is the number of users and the largest user number; \<open>None\<close> is the return value -1.\<close>

definition user_num_get :: "'s plat \<Rightarrow> 's \<Rightarrow> (u16 \<times> u16) option \<times> 's" where
  "user_num_get P s = (case p_stat P user_info_database_path s of (r, st_size, s1) \<Rightarrow>
     if r < 0 then (None, s1)
     else (case p_open P user_info_database_path db_flags s1 of (fd, s2) \<Rightarrow>
       if fd < 0 then (None, snd (p_close P fd s2))
       else (case user_num_loop P fd (unat ((st_size - of_nat HEADER_SIZE) div of_nat USER_SIZE)) 0 0 0 s2
             of (res, s3) \<Rightarrow> (res, snd (p_close P fd s3)))))"

definition zero_user :: user_info where
  "zero_user = user_info_of (replicate USER_SIZE 0)"

definition add_del_get_one_user :: "'s plat \<Rightarrow> user_info \<Rightarrow> u8 \<Rightarrow> 's \<Rightarrow> int \<times> user_info \<times> 's" where
  "add_del_get_one_user P u cmd s = (case p_open P user_info_database_path db_flags s of (fd, s1) \<Rightarrow>
     if fd < 0 then (-1, u, snd (p_close P fd s1))
     else (case p_lseek P fd (sint (user_addr (user_id u))) SEEK_SET s1 of (r, s2) \<Rightarrow>
       if r = -1 then (-1, u, snd (p_close P fd s2))
       else if cmd = 0 then
         (case p_write P fd (user_info_bytes u) s2 of (n, s3) \<Rightarrow>
           (if n \<noteq> int USER_SIZE then -1 else 0, u, snd (p_close P fd s3)))
       else if cmd = 1 then
         (case p_write P fd (user_info_bytes zero_user) s2 of (n, s3) \<Rightarrow>
           (if n \<noteq> int USER_SIZE then -1 else 0, zero_user, snd (p_close P fd s3)))
       else if cmd = 2 then
         (case p_read P fd (of_nat USER_SIZE) s2 of (n, bs, s3) \<Rightarrow>
           (if n \<noteq> int USER_SIZE then -1 else 0,
            user_info_of (bs @ drop (length bs) (user_info_bytes u)), snd (p_close P fd s3)))
       else (-1, u, snd (p_close P fd s2))))"

text \<open>The loop of \<open>user_crc_get\<close> over the user numbers \<open>i\<close> to \<open>i + k - 1\<close>; the list is what has been
  stored in the caller's array.\<close>

fun user_crc_loop :: "'s plat \<Rightarrow> int \<Rightarrow> nat \<Rightarrow> nat \<Rightarrow> u32 list \<Rightarrow> 's \<Rightarrow> bool \<times> u32 list \<times> 's" where
  "user_crc_loop P fd 0 i crc s = (True, crc, s)"
| "user_crc_loop P fd (Suc k) i crc s =
     (case p_lseek P fd (sint (of_nat USER_SIZE * (of_nat i - 1) + of_nat CRC_OFFSET
             + of_nat HEADER_SIZE :: u32)) SEEK_SET s of (r, s1) \<Rightarrow>
       if r = -1 then (False, crc, s1)
       else (case p_read P fd 4 s1 of (n, bs, s2) \<Rightarrow>
         if n \<noteq> 4 then (False, crc, s2)
         else user_crc_loop P fd k (Suc i) (crc @ [u32_at 0 bs]) s2))"

definition user_crc_get :: "'s plat \<Rightarrow> u16 \<Rightarrow> u16 \<Rightarrow> 's \<Rightarrow> int \<times> u32 list \<times> 's" where
  "user_crc_get P start num s = (case user_num_get P s of
     (None, s1) \<Rightarrow> (-1, [], s1)
   | (Some (user_num, user_id_max), s1) \<Rightarrow>
       if start > user_id_max then (0, [], s1)
       else if start = 0 then (-1, [], s1)
       else
         let num' = (if unat start + unat num > unat user_id_max then user_id_max - start + 1 else num) in
         (case p_open P user_info_database_path db_flags s1 of (fd, s2) \<Rightarrow>
           if fd < 0 then (-1, [], s2)
           else (case user_crc_loop P fd (unat num') (unat start) [] s2 of (ok, crc, s3) \<Rightarrow>
             (if ok then 0 else -1, crc, snd (p_close P fd s3)))))"

definition get_set_state :: "'s plat \<Rightarrow> bytes \<Rightarrow> u16 \<Rightarrow> u8 \<Rightarrow> 's \<Rightarrow> int \<times> bytes \<times> 's" where
  "get_set_state P st uid cmd s = (case p_open P user_info_database_path db_flags s of (fd, s1) \<Rightarrow>
     if fd < 0 then (-1, st, snd (p_close P fd s1))
     else (case p_lseek P fd (sint (of_nat USER_SIZE * (ucast uid - 1) + of_nat STATE_OFFSET
             + of_nat HEADER_SIZE :: u32)) SEEK_SET s1 of (r, s2) \<Rightarrow>
       if r = -1 then (-1, st, snd (p_close P fd s2))
       else if cmd = 0 then
         (case p_read P fd 16 s2 of (n, bs, s3) \<Rightarrow>
           (if n \<noteq> 16 then -1 else 0, bs @ drop (length bs) st, snd (p_close P fd s3)))
       else if cmd = 1 then
         (case p_write P fd (take 16 st) s2 of (n, s3) \<Rightarrow>
           (if n \<noteq> 16 then -1 else 0, st, snd (p_close P fd s3)))
       else (-1, st, snd (p_close P fd s2))))"

subsection \<open>qsort and bsearch of the C library, on the comparison function they are given\<close>

fun c_insert :: "('a \<Rightarrow> 'a \<Rightarrow> int) \<Rightarrow> 'a \<Rightarrow> 'a list \<Rightarrow> 'a list" where
  "c_insert cmp x [] = [x]"
| "c_insert cmp x (y # ys) = (if cmp x y \<le> 0 then x # y # ys else y # c_insert cmp x ys)"

fun c_qsort :: "('a \<Rightarrow> 'a \<Rightarrow> int) \<Rightarrow> 'a list \<Rightarrow> 'a list" where
  "c_qsort cmp [] = []"
| "c_qsort cmp (x # xs) = c_insert cmp x (c_qsort cmp xs)"

function c_bsearch :: "('a \<Rightarrow> 'a \<Rightarrow> int) \<Rightarrow> 'a \<Rightarrow> 'a list \<Rightarrow> nat \<Rightarrow> nat \<Rightarrow> nat option" where
  "c_bsearch cmp key base l u =
     (if l < u then
        let idx = (l + u) div 2; c = cmp key (base ! idx) in
        if c < 0 then c_bsearch cmp key base l idx
        else if c > 0 then c_bsearch cmp key base (idx + 1) u
        else Some idx
      else None)"
  by pat_completeness auto

termination c_bsearch
  by (relation "measure (\<lambda>(cmp, key, base, l, u). u - l)") auto

declare c_bsearch.simps [simp del]

subsection \<open>The card table\<close>

text \<open>\<open>card_array_init\<close> reads the links of the slots \<open>i\<close> to \<open>i + k - 1\<close>.  The outer option is
  \<open>None\<close> when the code stores a link behind the end of the caller's array.\<close>

fun card_loop :: "'s plat \<Rightarrow> int \<Rightarrow> nat \<Rightarrow> nat \<Rightarrow> nat \<Rightarrow> card_link list \<Rightarrow> 's
    \<Rightarrow> (bool \<times> nat \<times> card_link list \<times> 's) option" where
  "card_loop P fd 0 i eff arr s = Some (True, eff, arr, s)"
| "card_loop P fd (Suc k) i eff arr s =
     (case p_lseek P fd (sint (of_nat USER_SIZE * (of_nat i - 1) + of_nat HEADER_SIZE :: u32)) SEEK_SET s
      of (r, s1) \<Rightarrow>
       if r = -1 then Some (False, eff, arr, s1)
       else (case p_read P fd 6 s1 of (n, bs, s2) \<Rightarrow>
         if bs \<noteq> [] \<and> length arr \<le> eff then None
         else
           let arr' = arr[eff := card_link_of (bs @ drop (length bs) (card_link_bytes (arr ! eff)))] in
           if n \<noteq> 6 then Some (False, eff, arr', s2)
           else card_loop P fd k (Suc i) (if link_user (arr' ! eff) \<noteq> 0 then Suc eff else eff) arr' s2))"

definition card_array_init :: "'s plat \<Rightarrow> card_link list \<Rightarrow> 's \<Rightarrow> (int \<times> card_link list \<times> 's) option"
  where
  "card_array_init P arr s = (case user_num_get P s of
     (None, s1) \<Rightarrow> Some (-1, arr, s1)
   | (Some (user_num, max_user_id), s1) \<Rightarrow>
     (case p_open P user_info_database_path db_flags s1 of (fd, s2) \<Rightarrow>
       if fd < 0 then Some (-1, arr, snd (p_close P fd s2))
       else (case card_loop P fd (unat max_user_id) 1 0 arr s2 of
           None \<Rightarrow> None
         | Some (ok, eff, arr', s3) \<Rightarrow>
             let s4 = snd (p_close P fd s3) in
             if ok \<and> eff = unat user_num then Some (0, c_qsort card_compar arr', s4)
             else Some (-1, arr', s4))))"

end
