(* ===== verification/PDatabaseOk.thy ===== *)
theory PDatabaseOk imports PDatabase "HOL-Library.Multiset" begin

text \<open>What the operations of the user database do to the file /member.bin, under the contract of
  the file calls: every operation is a function of the file's bytes, seen as a table of slots.\<close>

abbreviation "member_bin \<equiv> user_info_database_path"

definition user_ofs :: "nat \<Rightarrow> nat" where "user_ofs i = HEADER_SIZE + USER_SIZE * (i - 1)"

definition slots :: "bytes \<Rightarrow> nat" where "slots c = (length c - HEADER_SIZE) div USER_SIZE"

definition slot :: "bytes \<Rightarrow> nat \<Rightarrow> bytes" where "slot c i = window (user_ofs i) USER_SIZE c"

definition slot_user :: "bytes \<Rightarrow> nat \<Rightarrow> user_info" where "slot_user c i = user_info_of (slot c i)"

definition slot_id :: "bytes \<Rightarrow> nat \<Rightarrow> u16" where "slot_id c i = u16_at 0 (window (user_ofs i) 2 c)"

text \<open>The number of used slots among the slots \<open>1..n\<close> and the largest number stored in them.\<close>

definition used_slots :: "bytes \<Rightarrow> nat \<Rightarrow> nat" where
  "used_slots c n = card {j \<in> {1..n}. slot_id c j \<noteq> 0}"

definition max_id :: "bytes \<Rightarrow> nat \<Rightarrow> u16" where
  "max_id c n = fold max (map (slot_id c) [1..<Suc n]) 0"

lemma used_slots_0 [simp]: "used_slots c 0 = 0"
  by (simp add: used_slots_def)

lemma used_slots_Suc: "used_slots c (Suc n) = used_slots c n + (if slot_id c (Suc n) \<noteq> 0 then 1 else 0)"
proof -
  have "{j \<in> {1..Suc n}. slot_id c j \<noteq> 0}
      = {j \<in> {1..n}. slot_id c j \<noteq> 0} \<union> (if slot_id c (Suc n) \<noteq> 0 then {Suc n} else {})"
    by (auto simp: le_Suc_eq)
  then show ?thesis by (auto simp: used_slots_def card_Un_disjoint)
qed

lemma used_slots_le: "used_slots c n \<le> n"
  by (induction n) (auto simp: used_slots_Suc)

lemma used_slots_mono: "m \<le> n \<Longrightarrow> used_slots c m \<le> used_slots c n"
  by (auto simp: used_slots_def intro!: card_mono)

lemma max_id_0 [simp]: "max_id c 0 = 0"
  by (simp add: max_id_def)

lemma max_id_Suc: "max_id c (Suc n) = max (slot_id c (Suc n)) (max_id c n)"
  by (simp add: max_id_def)

lemma max_id_ge: "1 \<le> i \<Longrightarrow> i \<le> n \<Longrightarrow> slot_id c i \<le> max_id c n"
  by (induction n) (auto simp: max_id_Suc le_Suc_eq le_max_iff_disj)

lemma max_id_in: "max_id c n = 0 \<or> (\<exists>i \<in> {1..n}. max_id c n = slot_id c i)"
proof (induction n)
  case (Suc n)
  show ?case
  proof (cases "slot_id c (Suc n) \<le> max_id c n")
    case True
    then have "max_id c (Suc n) = max_id c n" by (simp add: max_id_Suc max_def)
    with Suc show ?thesis by auto
  next
    case False
    then have "max_id c (Suc n) = slot_id c (Suc n)" by (simp add: max_id_Suc max_def)
    then show ?thesis by auto
  qed
qed simp

text \<open>The link a slot holds, and the links of the used slots among \<open>1..n\<close>.\<close>

definition slot_link :: "bytes \<Rightarrow> nat \<Rightarrow> card_link" where
  "slot_link c i = card_link_of (window (user_ofs i) 6 c)"

definition used_links :: "bytes \<Rightarrow> nat \<Rightarrow> card_link list" where
  "used_links c n = map (slot_link c) (filter (\<lambda>j. slot_id c j \<noteq> 0) [1..<Suc n])"

lemma used_links_0 [simp]: "used_links c 0 = []"
  by (simp add: used_links_def)

lemma used_links_Suc:
  "used_links c (Suc n) = used_links c n @ (if slot_id c (Suc n) \<noteq> 0 then [slot_link c (Suc n)] else [])"
  by (simp add: used_links_def)

lemma set_used_links:
  "set (used_links c n) = slot_link c ` {j. 1 \<le> j \<and> j \<le> n \<and> slot_id c j \<noteq> 0}"
  by (auto simp: used_links_def simp del: upt_Suc)

lemma length_used_links: "length (used_links c n) = used_slots c n"
  by (induction n) (auto simp: used_links_Suc used_slots_Suc)

lemma link_user_slot: "link_user (slot_link c i) = slot_id c i"
  if "user_ofs i + 6 \<le> length c"
  using that by (simp add: slot_link_def slot_id_def card_link_of_def u16_at_def nth_window)

definition slot_crc :: "bytes \<Rightarrow> nat \<Rightarrow> u32" where
  "slot_crc c i = u32_at 0 (window (user_ofs i + CRC_OFFSET) 4 c)"

text \<open>A well-formed database: slot \<open>i\<close> is free or holds user \<open>i\<close>.\<close>

definition db_ok :: "bytes \<Rightarrow> bool" where
  "db_ok c = (HEADER_SIZE \<le> length c \<and> slots c < 65536
     \<and> list_all (\<lambda>i. slot_id c i = 0 \<or> unat (slot_id c i) = i) [1..<Suc (slots c)])"

lemma db_okD: "db_ok c \<Longrightarrow> 1 \<le> i \<Longrightarrow> i \<le> slots c \<Longrightarrow> slot_id c i = 0 \<or> unat (slot_id c i) = i"
  by (cases "i = slots c") (auto simp: db_ok_def list_all_iff)

lemma max_id_le_slots: "db_ok c \<Longrightarrow> unat (max_id c (slots c)) \<le> slots c"
proof -
  assume a: "db_ok c"
  from max_id_in [of c "slots c"] show ?thesis
  proof
    assume "\<exists>i\<in>{1..slots c}. max_id c (slots c) = slot_id c i"
    then obtain i where i: "1 \<le> i" "i \<le> slots c" "max_id c (slots c) = slot_id c i" by auto
    from db_okD [OF a i(1,2)] i show ?thesis by auto
  qed simp
qed

text \<open>Beyond the largest user number there is no user.\<close>

lemma used_slots_max:
  assumes "db_ok c"
  shows "used_slots c (unat (max_id c (slots c))) = used_slots c (slots c)"
proof -
  have "j \<le> unat (max_id c (slots c))" if "j \<in> {1..slots c}" "slot_id c j \<noteq> 0" for j
    using that db_okD [OF assms, of j] max_id_ge [of j "slots c" c] by (auto simp: word_le_nat_alt)
  then have "{j \<in> {1..unat (max_id c (slots c))}. slot_id c j \<noteq> 0} = {j \<in> {1..slots c}. slot_id c j \<noteq> 0}"
    using max_id_le_slots [OF assms] by auto
  then show ?thesis by (simp add: used_slots_def)
qed

text \<open>The bytes of the file as the operations see them: an absent file is created empty.\<close>

definition file_bytes :: "bytes option \<Rightarrow> bytes" where
  "file_bytes c = (case c of None \<Rightarrow> [] | Some bs \<Rightarrow> bs)"

lemma fpath_member: "fpath user_info_database_path"
  by (simp add: fpath_def user_info_database_path_def)

lemma db_flags: "plain_flags db_flags" "db_flags AND O_CREAT \<noteq> 0" "db_flags AND O_TRUNC = 0"
  "after_open db_flags c = file_bytes c"
  by (simp_all add: plain_flags_def db_flags_def open_flags after_open_def file_bytes_def)

subsection \<open>Offsets\<close>

lemma unat_uid_minus: "uid \<noteq> 0 \<Longrightarrow> (ucast (uid :: u16) - 1 :: u32) = of_nat (unat uid - 1)"
proof -
  assume "uid \<noteq> 0"
  then have "1 \<le> unat uid" by (simp add: Suc_le_eq unat_gt_0)
  then show ?thesis by (simp add: of_nat_diff)
qed

lemma sint_user_word:
  assumes "k < 65536" "m \<le> 1100"
  shows "sint (of_nat USER_SIZE * of_nat k + of_nat m :: u32) = int (USER_SIZE * k + m)"
proof -
  have "USER_SIZE * k + m < 2147483648" using assms by (simp add: USER_SIZE_def)
  then show ?thesis
    using sint_of_nat_u32 [of "USER_SIZE * k + m"] by simp
qed

lemma uid_pred_bound: "unat (uid :: u16) - 1 < 65536"
  using unat_u16_bound [of uid] by linarith

lemma sint_user_addr: "uid \<noteq> 0 \<Longrightarrow> sint (user_addr uid) = int (user_ofs (unat uid))"
  using sint_user_word [OF uid_pred_bound [of uid], of HEADER_SIZE]
  by (simp add: user_addr_def unat_uid_minus user_ofs_def add.commute HEADER_SIZE_def)

lemma sint_user_addr_0: "sint (user_addr 0) = -1050"
  by (simp add: user_addr_def user_sizes)

lemma sint_state_addr: "uid \<noteq> 0 \<Longrightarrow> sint (of_nat USER_SIZE * (ucast (uid :: u16) - 1) + of_nat STATE_OFFSET
    + of_nat HEADER_SIZE :: u32) = int (user_ofs (unat uid) + STATE_OFFSET)"
  using sint_user_word [OF uid_pred_bound [of uid], of "STATE_OFFSET + HEADER_SIZE"]
  by (simp add: unat_uid_minus user_ofs_def STATE_OFFSET_def HEADER_SIZE_def add.assoc add.commute)

lemma sint_slot_addr: "i < 65536 \<Longrightarrow> sint (slot_addr i) = int (user_ofs (Suc i))"
  using sint_user_word [of i HEADER_SIZE]
  by (simp add: slot_addr_def user_ofs_def add.commute HEADER_SIZE_def)

lemma sint_card_addr: "0 < i \<Longrightarrow> i \<le> 65536 \<Longrightarrow>
    sint (of_nat USER_SIZE * (of_nat i - 1) + of_nat HEADER_SIZE :: u32) = int (user_ofs i)"
  using sint_user_word [of "i - 1" HEADER_SIZE]
  by (simp add: user_ofs_def add.commute HEADER_SIZE_def of_nat_diff)

lemma sint_crc_addr: "0 < i \<Longrightarrow> i \<le> 65536 \<Longrightarrow>
    sint (of_nat USER_SIZE * (of_nat i - 1) + of_nat CRC_OFFSET + of_nat HEADER_SIZE :: u32)
      = int (user_ofs i + CRC_OFFSET)"
  using sint_user_word [of "i - 1" "CRC_OFFSET + HEADER_SIZE"]
  by (simp add: user_ofs_def add.assoc add.commute HEADER_SIZE_def CRC_OFFSET_def of_nat_diff)

subsection \<open>Slots of an updated file\<close>

lemma user_ofs_Suc: "user_ofs (Suc i) = HEADER_SIZE + USER_SIZE * i"
  by (simp add: user_ofs_def)

lemma ofs_order: "0 < i \<Longrightarrow> i < j \<Longrightarrow> user_ofs i + USER_SIZE \<le> user_ofs j"
  by (cases i; cases j) (auto simp: user_ofs_Suc USER_SIZE_def)

lemma ofs_slots:
  assumes "0 < i" "i \<le> slots c"
  shows "user_ofs i + USER_SIZE \<le> length c"
proof -
  have "USER_SIZE * i \<le> length c - HEADER_SIZE"
    using assms(2) by (simp add: slots_def less_eq_div_iff_mult_less_eq USER_SIZE_def mult.commute)
  moreover have "0 < USER_SIZE * i" using assms(1) by (simp add: USER_SIZE_def)
  ultimately show ?thesis using assms(1) by (cases i) (auto simp: user_ofs_Suc)
qed

text \<open>The links of the slots that are not in use.\<close>

definition dead_links :: "bytes \<Rightarrow> card_link set" where
  "dead_links c = slot_link c ` {j. 1 \<le> j \<and> j \<le> slots c \<and> slot_id c j = 0}"

lemma dead_links_user: "l \<in> dead_links c \<Longrightarrow> link_user l = 0"
proof -
  assume "l \<in> dead_links c"
  then obtain j where j: "1 \<le> j" "j \<le> slots c" "slot_id c j = 0" "l = slot_link c j"
    by (auto simp: dead_links_def)
  then have "user_ofs j + USER_SIZE \<le> length c" by (intro ofs_slots) auto
  then show ?thesis using j link_user_slot [of j c] by (simp add: USER_SIZE_def)
qed

lemma slots_ofs: "0 < i \<Longrightarrow> user_ofs i + USER_SIZE \<le> length c \<Longrightarrow> i \<le> slots c"
  by (cases i) (auto simp: slots_def user_ofs_Suc USER_SIZE_def HEADER_SIZE_def
      less_eq_div_iff_mult_less_eq)

lemma slot_overwrite:
  assumes "0 < i" "0 < j" "user_ofs i \<le> length c" "length ys = USER_SIZE"
  shows "slot (overwrite (user_ofs i) ys c) j = (if i = j then ys else slot c j)"
proof -
  consider "i = j" | "i < j" | "j < i" by linarith
  then show ?thesis
  proof cases
    case 1 then show ?thesis using assms by (simp add: slot_def)
  next
    case 2 then show ?thesis
      using assms ofs_order [of i j] by (simp add: slot_def window_overwrite_after)
  next
    case 3 then show ?thesis
      using assms ofs_order [of j i] by (simp add: slot_def window_overwrite_before)
  qed
qed

text \<open>Writing the state field of one slot.\<close>

lemma slot_state:
  assumes "0 < i" "user_ofs i + USER_SIZE \<le> length c" "length st = 16"
  shows "0 < j \<Longrightarrow> j \<noteq> i \<Longrightarrow> slot (overwrite (user_ofs i + STATE_OFFSET) st c) j = slot c j"
    "slot_user (overwrite (user_ofs i + STATE_OFFSET) st c) i = (slot_user c i)\<lparr>ustate := st\<rparr>"
proof -
  let ?c = "overwrite (user_ofs i + STATE_OFFSET) st c"
  have so: "user_ofs i + STATE_OFFSET \<le> length c" "user_ofs i + STATE_OFFSET + 16 \<le> length c"
    using assms(2) by (simp_all add: USER_SIZE_def STATE_OFFSET_def)
  show "slot ?c j = slot c j" if "0 < j" "j \<noteq> i" for j
  proof (cases "j < i")
    case True
    then show ?thesis using ofs_order [OF that(1) True] so(1)
      by (simp add: slot_def window_overwrite_before)
  next
    case False
    then have "i < j" using that by simp
    from ofs_order [OF assms(1) this] show ?thesis using so(1) assms(3)
      by (simp add: slot_def window_overwrite_after USER_SIZE_def STATE_OFFSET_def)
  qed
  have "slot ?c i = overwrite STATE_OFFSET st (slot c i)"
  proof -
    have "slot ?c i = window (user_ofs i) STATE_OFFSET ?c @ window (user_ofs i + STATE_OFFSET) 16 ?c"
      by (simp add: slot_def window_join USER_SIZE_def STATE_OFFSET_def)
    also have "\<dots> = window (user_ofs i) STATE_OFFSET c @ st"
      using so assms(3) by (simp add: window_overwrite_before)
    also have "\<dots> = overwrite STATE_OFFSET st (slot c i)"
      using assms(2,3) by (simp add: overwrite_def slot_def window_def USER_SIZE_def STATE_OFFSET_def min_def)
    finally show ?thesis .
  qed
  then show "slot_user ?c i = (slot_user c i)\<lparr>ustate := st\<rparr>"
    using user_state_overwrite [of "slot c i" st] assms(2,3)
    by (simp add: slot_user_def slot_def USER_SIZE_def STATE_OFFSET_def)
qed

text \<open>Writing one slot of a well-formed database.\<close>

lemma slots_overwrite:
  assumes "0 < i" "user_ofs i \<le> length c" "length ys = USER_SIZE" "HEADER_SIZE \<le> length c"
  shows "slots (overwrite (user_ofs i) ys c) = max (slots c) i"
proof -
  have "(max (length c) (HEADER_SIZE + USER_SIZE * i) - HEADER_SIZE) div USER_SIZE
      = max ((length c - HEADER_SIZE) div USER_SIZE) i"
    using assms(4) by (auto simp: max_def USER_SIZE_def HEADER_SIZE_def)
  moreover have "user_ofs i + USER_SIZE = HEADER_SIZE + USER_SIZE * i"
    using assms(1) by (cases i) (simp_all add: user_ofs_Suc)
  ultimately show ?thesis
    using assms by (simp add: slots_def)
qed

lemma slot_id_slot: "slot_id c i = u16_at 0 (window 0 2 (slot c i))"
  by (simp add: slot_id_def slot_def window_window user_sizes)

lemma slot_id_user: "user_ofs i + USER_SIZE \<le> length c \<Longrightarrow> slot_id c i = user_id (slot_user c i)"
  by (simp add: slot_id_slot slot_user_def user_info_of_def u16_at_def nth_window slot_def USER_SIZE_def)

lemma slot_id_overwrite:
  assumes "0 < i" "0 < j" "user_ofs i \<le> length c" "length ys = USER_SIZE"
  shows "slot_id (overwrite (user_ofs i) ys c) j = (if i = j then u16_at 0 (window 0 2 ys) else slot_id c j)"
  using slot_overwrite [OF assms] by (simp add: slot_id_slot)

lemma id_of_bytes: "length ys = USER_SIZE \<Longrightarrow> u16_at 0 (window 0 2 ys) = user_id (user_info_of ys)"
  by (simp add: user_info_of_def u16_at_window0 USER_SIZE_def)

lemma db_ok_put:
  assumes "db_ok c" "0 < i" "i < 65536" "user_ofs i \<le> length c" "length ys = USER_SIZE"
    "user_id (user_info_of ys) = 0 \<or> unat (user_id (user_info_of ys)) = i"
  shows "db_ok (overwrite (user_ofs i) ys c)"
proof -
  have h: "HEADER_SIZE \<le> length c" using assms(1) by (simp add: db_ok_def)
  have i: "i \<le> Suc (slots c)"
  proof (cases "i = 1")
    case False
    then have "user_ofs (i - 1) + USER_SIZE \<le> length c"
      using assms(2,4) ofs_order [of "i - 1" i] by simp
    then show ?thesis using slots_ofs [of "i - 1" c] assms(2) False by simp
  qed simp
  have s: "slots (overwrite (user_ofs i) ys c) = max (slots c) i"
    by (rule slots_overwrite) (use assms h in auto)
  have "slot_id (overwrite (user_ofs i) ys c) j = 0 \<or> unat (slot_id (overwrite (user_ofs i) ys c) j) = j"
    if "1 \<le> j" "j \<le> max (slots c) i" for j
  proof (cases "i = j")
    case True
    then show ?thesis using assms(2-6) that by (simp add: slot_id_overwrite id_of_bytes)
  next
    case False
    then have "j \<le> slots c" using that i by (auto simp: max_def split: if_splits)
    then show ?thesis using False that db_okD [OF assms(1), of j] assms(2,4,5)
      by (simp add: slot_id_overwrite)
  qed
  then show ?thesis
    using assms(1,3,4,5) h by (auto simp: db_ok_def s list_all_iff less_Suc_eq_le simp del: upt_Suc)
qed

text \<open>The number of users after a slot has been written.\<close>

lemma used_slots_put:
  assumes "0 < i" "i \<le> n" "user_ofs i \<le> length c" "length ys = USER_SIZE"
  shows "used_slots (overwrite (user_ofs i) ys c) n + (if slot_id c i \<noteq> 0 then 1 else 0)
    = used_slots c n + (if user_id (user_info_of ys) \<noteq> 0 then 1 else 0)"
proof -
  let ?A = "{j \<in> {1..n} - {i}. slot_id c j \<noteq> 0}"
  have split: "card {j \<in> {1..n}. Q j} = card {j \<in> {1..n} - {i}. Q j} + (if Q i then 1 else 0)" for Q
  proof -
    have "{j \<in> {1..n}. Q j} = {j \<in> {1..n} - {i}. Q j} \<union> (if Q i then {i} else {})"
      using assms(1,2) by auto
    then show ?thesis by (auto simp: card_Un_disjoint)
  qed
  have "{j \<in> {1..n} - {i}. slot_id (overwrite (user_ofs i) ys c) j \<noteq> 0} = ?A"
    using assms by (auto simp: slot_id_overwrite)
  then show ?thesis
    using assms unfolding used_slots_def
    by (subst (1 2) split) (simp add: slot_id_overwrite id_of_bytes)
qed

subsection \<open>qsort and bsearch\<close>

lemma mset_c_qsort: "mset (c_qsort cmp xs) = mset xs"
proof (induction xs)
  case (Cons x xs)
  have "mset (c_insert cmp x ys) = add_mset x (mset ys)" for ys
    by (induction ys) auto
  with Cons show ?case by simp
qed simp

lemma length_c_qsort [simp]: "length (c_qsort cmp xs) = length xs"
  using mset_c_qsort [of cmp xs] by (metis size_mset)

lemma card_compar_le: "card_compar a b \<le> 0 \<longleftrightarrow> link_card b \<le> link_card a"
  by (auto simp: card_compar_def)

lemma card_compar_eq: "card_compar a b = 0 \<longleftrightarrow> link_card b = link_card a"
  by (auto simp: card_compar_def)

lemma sorted_c_qsort: "sorted_wrt (\<lambda>a b. link_card b \<le> link_card a) (c_qsort card_compar xs)"
proof (induction xs)
  case (Cons x xs)
  have "sorted_wrt (\<lambda>a b. link_card b \<le> link_card a) ys \<Longrightarrow>
      sorted_wrt (\<lambda>a b. link_card b \<le> link_card a) (c_insert card_compar x ys)" for ys
  proof (induction ys)
    case (Cons y ys)
    have m: "set (c_insert card_compar x ys) = insert x (set ys)"
      by (induction ys) auto
    show ?case
      using Cons m by (auto simp: card_compar_le split: if_splits dest: order_trans)
  qed simp
  with Cons show ?case by simp
qed simp

lemma c_bsearch_sound:
  "c_bsearch cmp key base l u = Some i \<Longrightarrow> l \<le> i \<and> i < u \<and> cmp key (base ! i) = 0"
proof (induction cmp key base l u rule: c_bsearch.induct)
  case (1 cmp key base l u)
  show ?case
  proof (cases "l < u")
    case False then show ?thesis using "1.prems" by (simp add: c_bsearch.simps)
  next
    case True
    then have m: "l \<le> (l + u) div 2" "(l + u) div 2 < u" by auto
    show ?thesis
      using "1.IH"(1) [OF True refl refl] "1.IH"(2) [OF True refl refl] "1.prems" True m
      by (auto simp: c_bsearch.simps [of cmp key base l u] Let_def split: if_splits)
  qed
qed

lemma c_bsearch_complete:
  assumes "\<And>i j. i < j \<Longrightarrow> j < n \<Longrightarrow> cmp key (base ! i) < 0 \<Longrightarrow> cmp key (base ! j) < 0"
    and "\<And>i j. i < j \<Longrightarrow> j < n \<Longrightarrow> cmp key (base ! j) > 0 \<Longrightarrow> cmp key (base ! i) > (0::int)"
  shows "c_bsearch cmp key base l u = None \<Longrightarrow> u \<le> n \<Longrightarrow> l \<le> i \<Longrightarrow> i < u \<Longrightarrow> cmp key (base ! i) \<noteq> 0"
  using assms
proof (induction cmp key base l u rule: c_bsearch.induct)
  case (1 cmp key base l u)
  define m where "m = (l + u) div 2"
  have m: "l \<le> m" "m < u" using "1.prems" by (auto simp: m_def)
  have lu: "l < u" using m by simp
  have step: "c_bsearch cmp key base l u = (if cmp key (base ! m) < 0 then c_bsearch cmp key base l m
      else if cmp key (base ! m) > 0 then c_bsearch cmp key base (m + 1) u else Some m)"
    using lu by (simp add: c_bsearch.simps [of cmp key base l u] m_def Let_def)
  consider "i < m" | "i = m" | "m < i" by linarith
  then show ?case
  proof cases
    case 1
    have "cmp key (base ! i) > 0" if "cmp key (base ! m) > 0"
      using "1.prems"(6) [OF 1 _ that] m "1.prems"(2) by simp
    moreover have "cmp key (base ! i) \<noteq> 0" if "cmp key (base ! m) < 0"
      using "1.IH"(1) [OF lu m_def refl that] that 1 m "1.prems" step by simp
    ultimately show ?thesis using step "1.prems"(1) by fastforce
  next
    case 2 then show ?thesis using step "1.prems"(1) by auto
  next
    case 3
    have "cmp key (base ! i) < 0" if "cmp key (base ! m) < 0"
      using "1.prems"(5) [OF 3 _ that] "1.prems"(2,4) by simp
    moreover have "cmp key (base ! i) \<noteq> 0" if "cmp key (base ! m) > 0"
      using "1.IH"(2) [OF lu m_def refl _ that] that 3 m "1.prems" step by simp
    ultimately show ?thesis using step "1.prems"(1) by fastforce
  qed
qed

text \<open>Searching the sorted card table finds a link of the card if there is one.\<close>

lemma search_card:
  assumes "sorted_wrt (\<lambda>a b. link_card b \<le> link_card a) base"
  shows "case c_bsearch card_compar key base 0 (length base) of
      None \<Rightarrow> \<forall>l \<in> set base. link_card l \<noteq> link_card key
    | Some i \<Rightarrow> i < length base \<and> link_card (base ! i) = link_card key"
proof (cases "c_bsearch card_compar key base 0 (length base)")
  case None
  have le: "i < j \<Longrightarrow> j < length base \<Longrightarrow> link_card (base ! j) \<le> link_card (base ! i)" for i j
    using assms by (simp add: sorted_wrt_iff_nth_less)
  have "card_compar key (base ! i) \<noteq> 0" if "i < length base" for i
    by (rule c_bsearch_complete [OF _ _ None order_refl _ that])
      (use le in \<open>force simp: card_compar_def split: if_splits dest: order_trans\<close>)+
  then show ?thesis
    by (fastforce simp: None in_set_conv_nth card_compar_eq)
next
  case (Some i)
  then show ?thesis
    using c_bsearch_sound [OF Some] by (simp add: card_compar_eq)
qed

subsection \<open>The operations on the file\<close>

context posix_files begin

lemma open_dbE:
  assumes "idle s"
  obtains fd s' where "p_open P member_bin db_flags s = (fd, s')" "\<not> fd < 0"
    "opened s' fd member_bin 0 (file_bytes (content s member_bin))"
    "content s' = (content s)(member_bin \<mapsto> file_bytes (content s member_bin))"
  using openE [OF assms fpath_member db_flags(1)] db_flags(2,4) by metis

lemma lseek_intE:
  assumes "opened s fd p pos c" "n \<le> length c" "z = int n"
  obtains s' where "p_lseek P fd z SEEK_SET s = (int n, s')" "opened s' fd p n c"
    "content s' = content s"
  using lseekE [OF assms(1), of "int n"] assms(2,3) by auto

lemma read_exactE:
  assumes "opened s fd p pos c" "pos + n \<le> length c" "unat k = n"
  obtains s' where "p_read P fd k s = (int n, window pos n c, s')" "opened s' fd p (pos + n) c"
    "content s' = content s"
proof -
  have "length (window pos n c) = n" using assms(2) by simp
  then show ?thesis using readE [OF assms(1), of k] that unfolding assms(3) by metis
qed

text \<open>Writing a slot: adding a user and deleting one.\<close>

lemma put_user:
  assumes "idle s" "file_bytes (content s member_bin) = c" "user_wf u" "user_id u \<noteq> 0"
    "user_ofs (unat (user_id u)) \<le> length c" "user_ofs (unat (user_id u)) + USER_SIZE \<le> cap"
    "cmd = 0 \<or> cmd = 1" "w = (if cmd = 0 then u else zero_user)"
  obtains s' where "add_del_get_one_user P u cmd s = (0, w, s')" "idle s'"
    "content s' = (content s)(member_bin
       \<mapsto> overwrite (user_ofs (unat (user_id u))) (user_info_bytes w) c)"
proof -
  obtain fd s1 where o: "p_open P member_bin db_flags s = (fd, s1)" "\<not> fd < 0"
    "opened s1 fd member_bin 0 c" "content s1 = (content s)(member_bin \<mapsto> c)"
    using open_dbE [OF assms(1)] assms(2) by metis
  obtain s2 where l: "p_lseek P fd (sint (user_addr (user_id u))) SEEK_SET s1
      = (int (user_ofs (unat (user_id u))), s2)" "opened s2 fd member_bin (user_ofs (unat (user_id u))) c"
    "content s2 = content s1"
    using lseek_intE [OF o(3) assms(5) sint_user_addr [OF assms(4)]] by metis
  have wf: "user_wf w"
    using assms(3,8) by (auto simp: zero_user_def user_wf_of USER_SIZE_def)
  then have len: "length (user_info_bytes w) = USER_SIZE" by (simp add: USER_SIZE_def)
  then obtain s3 where w: "p_write P fd (user_info_bytes w) s2 = (int USER_SIZE, s3)"
    "opened s3 fd member_bin (user_ofs (unat (user_id u)) + USER_SIZE)
       (overwrite (user_ofs (unat (user_id u))) (user_info_bytes w) c)"
    "content s3 = (content s2)(member_bin
       \<mapsto> overwrite (user_ofs (unat (user_id u))) (user_info_bytes w) c)"
    using writeE [OF l(2), of "user_info_bytes w"] assms(6) by metis
  obtain s4 where cl: "p_close P fd s3 = (0, s4)" "idle s4" "content s4 = content s3"
    using closeE [OF w(2)] .
  show ?thesis
  proof (rule that [of s4])
    show "add_del_get_one_user P u cmd s = (0, w, s4)"
      using assms(7) o(1,2) l(1) w(1) cl(1) assms(8)
      by (auto simp: add_del_get_one_user_def)
  qed (use cl(2,3) w(3) l(3) o(4) in simp_all)
qed

text \<open>Reading a slot: the whole record, or the bytes up to the end of the file in front of the
  caller's old record and the return code -1.\<close>

lemma get_user:
  assumes "idle s" "file_bytes (content s member_bin) = c" "user_id u \<noteq> 0"
    "user_ofs (unat (user_id u)) \<le> length c"
  obtains s' where "add_del_get_one_user P u 2 s
      = (if user_ofs (unat (user_id u)) + USER_SIZE \<le> length c then 0 else -1,
         user_info_of (slot c (unat (user_id u))
           @ drop (length (slot c (unat (user_id u)))) (user_info_bytes u)), s')" "idle s'"
    "content s' = (content s)(member_bin \<mapsto> c)"
proof -
  let ?i = "unat (user_id u)"
  obtain fd s1 where o: "p_open P member_bin db_flags s = (fd, s1)" "\<not> fd < 0"
    "opened s1 fd member_bin 0 c" "content s1 = (content s)(member_bin \<mapsto> c)"
    using open_dbE [OF assms(1)] assms(2) by metis
  obtain s2 where l: "p_lseek P fd (sint (user_addr (user_id u))) SEEK_SET s1 = (int (user_ofs ?i), s2)"
    "opened s2 fd member_bin (user_ofs ?i) c" "content s2 = content s1"
    using lseek_intE [OF o(3) assms(4) sint_user_addr [OF assms(3)]] by metis
  have us: "unat (of_nat USER_SIZE :: u32) = USER_SIZE" by (simp add: USER_SIZE_def)
  obtain s3 where r: "p_read P fd (of_nat USER_SIZE) s2 = (int (length (slot c ?i)), slot c ?i, s3)"
    "opened s3 fd member_bin (user_ofs ?i + length (slot c ?i)) c" "content s3 = content s2"
    using readE [OF l(2), of "of_nat USER_SIZE"] unfolding us slot_def [symmetric] .
  obtain s4 where cl: "p_close P fd s3 = (0, s4)" "idle s4" "content s4 = content s3"
    using closeE [OF r(2)] .
  have "length (slot c ?i) = USER_SIZE \<longleftrightarrow> user_ofs ?i + USER_SIZE \<le> length c"
    using assms(4) by (auto simp: slot_def)
  then show ?thesis
    using o(1,2) l(1) r(1) cl(1) 
    by (intro that [of s4, OF _ cl(2)])
      (simp_all add: add_del_get_one_user_def cl(3) r(3) l(3) o(4))
qed

lemma get_user_full:
  assumes "idle s" "file_bytes (content s member_bin) = c" "user_id v \<noteq> 0"
    "user_ofs (unat (user_id v)) + USER_SIZE \<le> length c"
  obtains s' where "add_del_get_one_user P v 2 s = (0, slot_user c (unat (user_id v)), s')" "idle s'"
    "content s' = (content s)(member_bin \<mapsto> c)"
proof -
  let ?i = "unat (user_id v)"
  have le: "user_ofs ?i \<le> length c" using assms(4) by linarith
  have "length (slot c ?i) = 1058" using assms(4) by (simp add: slot_def USER_SIZE_def)
  then have e: "user_info_of (slot c ?i @ drop (length (slot c ?i)) (user_info_bytes v)) = slot_user c ?i"
    by (simp only: user_info_of_append slot_user_def)
  obtain s' where "add_del_get_one_user P v 2 s = (if user_ofs ?i + USER_SIZE \<le> length c then 0 else -1,
      slot_user c ?i, s')" "idle s'" "content s' = (content s)(member_bin \<mapsto> c)"
    using get_user [OF assms(1-3) le] unfolding e .
  then show ?thesis using that [of s'] by (simp only: assms(4) if_True)
qed

text \<open>User number 0 is refused: the offset is negative.\<close>

lemma user_zero_refused:
  assumes "idle s" "file_bytes (content s member_bin) = c" "user_id u = 0"
  obtains s' where "add_del_get_one_user P u cmd s = (-1, u, s')" "idle s'"
    "content s' = (content s)(member_bin \<mapsto> c)"
proof -
  obtain fd s1 where o: "p_open P member_bin db_flags s = (fd, s1)" "\<not> fd < 0"
    "opened s1 fd member_bin 0 c" "content s1 = (content s)(member_bin \<mapsto> c)"
    using open_dbE [OF assms(1)] assms(2) by metis
  obtain s2 where l: "p_lseek P fd (sint (user_addr 0)) SEEK_SET s1 = (-1, s2)"
    "opened s2 fd member_bin 0 c" "content s2 = content s1"
    using lseek_negE [OF o(3), of "sint (user_addr 0)"] by (auto simp: sint_user_addr_0)
  obtain s3 where cl: "p_close P fd s2 = (0, s3)" "idle s3" "content s3 = content s2"
    using closeE [OF l(2)] .
  show ?thesis
    using o(1,2) l(1) cl(1) assms(3)
    by (intro that [of s3, OF _ cl(2)]) (simp_all add: add_del_get_one_user_def cl(3) l(3) o(4))
qed

text \<open>The state field of a user: 16 bytes inside the slot.\<close>

lemma set_state:
  assumes "idle s" "file_bytes (content s member_bin) = c" "uid \<noteq> 0" "length st = 16"
    "user_ofs (unat uid) + USER_SIZE \<le> length c" "length c \<le> cap"
  obtains s' where "get_set_state P st uid 1 s = (0, st, s')" "idle s'"
    "content s' = (content s)(member_bin \<mapsto> overwrite (user_ofs (unat uid) + STATE_OFFSET) st c)"
proof -
  obtain fd s1 where o: "p_open P member_bin db_flags s = (fd, s1)" "\<not> fd < 0"
    "opened s1 fd member_bin 0 c" "content s1 = (content s)(member_bin \<mapsto> c)"
    using open_dbE [OF assms(1)] assms(2) by metis
  have b: "user_ofs (unat uid) + STATE_OFFSET \<le> length c"
    "user_ofs (unat uid) + STATE_OFFSET + length st \<le> cap"
    using assms(4,5,6) by (simp_all add: USER_SIZE_def STATE_OFFSET_def)
  obtain s2 where l: "p_lseek P fd (sint (of_nat USER_SIZE * (ucast uid - 1) + of_nat STATE_OFFSET
      + of_nat HEADER_SIZE :: u32)) SEEK_SET s1 = (int (user_ofs (unat uid) + STATE_OFFSET), s2)"
    "opened s2 fd member_bin (user_ofs (unat uid) + STATE_OFFSET) c" "content s2 = content s1"
    using lseek_intE [OF o(3) b(1) sint_state_addr [OF assms(3)]] by metis
  obtain s3 where w: "p_write P fd st s2 = (int (length st), s3)"
    "opened s3 fd member_bin (user_ofs (unat uid) + STATE_OFFSET + length st)
       (overwrite (user_ofs (unat uid) + STATE_OFFSET) st c)"
    "content s3 = (content s2)(member_bin \<mapsto> overwrite (user_ofs (unat uid) + STATE_OFFSET) st c)"
    using writeE [OF l(2) b(2)] .
  obtain s4 where cl: "p_close P fd s3 = (0, s4)" "idle s4" "content s4 = content s3"
    using closeE [OF w(2)] .
  show ?thesis
    using o(1,2) l(1) w(1) cl(1) assms(4)
    by (intro that [of s4, OF _ cl(2)]) (simp_all add: get_set_state_def cl(3) w(3) l(3) o(4))
qed

lemma get_state:
  assumes "idle s" "file_bytes (content s member_bin) = c" "uid \<noteq> 0" "length st = 16"
    "user_ofs (unat uid) + USER_SIZE \<le> length c"
  obtains s' where "get_set_state P st uid 0 s = (0, ustate (slot_user c (unat uid)), s')" "idle s'"
    "content s' = (content s)(member_bin \<mapsto> c)"
proof -
  obtain fd s1 where o: "p_open P member_bin db_flags s = (fd, s1)" "\<not> fd < 0"
    "opened s1 fd member_bin 0 c" "content s1 = (content s)(member_bin \<mapsto> c)"
    using open_dbE [OF assms(1)] assms(2) by metis
  let ?p = "user_ofs (unat uid) + STATE_OFFSET"
  have b: "?p \<le> length c" "?p + 16 \<le> length c"
    using assms(5) by (simp_all add: USER_SIZE_def STATE_OFFSET_def)
  obtain s2 where l: "p_lseek P fd (sint (of_nat USER_SIZE * (ucast uid - 1) + of_nat STATE_OFFSET
      + of_nat HEADER_SIZE :: u32)) SEEK_SET s1 = (int ?p, s2)"
    "opened s2 fd member_bin ?p c" "content s2 = content s1"
    using lseek_intE [OF o(3) b(1) sint_state_addr [OF assms(3)]] by metis
  have len: "length (window ?p 16 c) = 16" using b by simp
  obtain s3 where r: "p_read P fd 16 s2 = (16, window ?p 16 c, s3)"
    "opened s3 fd member_bin (?p + 16) c" "content s3 = content s2"
    using read_exactE [OF l(2) b(2), of 16] by auto
  obtain s4 where cl: "p_close P fd s3 = (0, s4)" "idle s4" "content s4 = content s3"
    using closeE [OF r(2)] .
  have "window ?p 16 c = ustate (slot_user c (unat uid))"
    by (simp add: slot_user_def slot_def user_info_of_def window_window user_sizes)
  then show ?thesis
    using o(1,2) l(1) r(1) cl(1) assms(4) len
    by (intro that [of s4, OF _ cl(2)]) (simp_all add: get_set_state_def cl(3) r(3) l(3) o(4))
qed

text \<open>Counting the users.\<close>

lemma user_num_loop_ok:
  assumes "opened s fd p pos c" "i + k \<le> slots c" "slots c < 65536"
    "num = of_nat (used_slots c i)" "mx = max_id c i"
  shows "\<exists>s' pos'. user_num_loop P fd k i num mx s
      = (Some (of_nat (used_slots c (i + k)), max_id c (i + k)), s')
    \<and> opened s' fd p pos' c \<and> content s' = content s"
  using assms
proof (induction k arbitrary: i num mx s pos)
  case 0
  then show ?case by auto
next
  case (Suc k)
  have len: "user_ofs (Suc i) + USER_SIZE \<le> length c"
    using Suc.prems(2) by (intro ofs_slots) auto
  have si: "sint (slot_addr i) = int (user_ofs (Suc i))"
    using Suc.prems(2,3) by (intro sint_slot_addr) linarith
  obtain s1 where l: "p_lseek P fd (sint (slot_addr i)) SEEK_SET s = (int (user_ofs (Suc i)), s1)"
    "opened s1 fd p (user_ofs (Suc i)) c" "content s1 = content s"
    using lseek_intE [OF Suc.prems(1) _ si] len by auto
  obtain s2 where r: "p_read P fd 2 s1 = (2, window (user_ofs (Suc i)) 2 c, s2)"
    "opened s2 fd p (user_ofs (Suc i) + 2) c" "content s2 = content s1"
    using read_exactE [OF l(2), of 2 2] len by (auto simp: USER_SIZE_def)
  have id: "u16_at 0 (window (user_ofs (Suc i)) 2 c) = slot_id c (Suc i)"
    by (simp add: slot_id_def)
  define num' where "num' = (if slot_id c (Suc i) \<noteq> 0 then num + 1 else num)"
  define mx' where "mx' = (if slot_id c (Suc i) > mx then slot_id c (Suc i) else mx)"
  have "num' = of_nat (used_slots c (Suc i))" "mx' = max_id c (Suc i)"
    using Suc.prems(4,5)
    by (auto simp: num'_def mx'_def used_slots_Suc max_id_Suc max_def)
  then obtain s' pos' where IH: "user_num_loop P fd k (Suc i) num' mx' s2
      = (Some (of_nat (used_slots c (Suc i + k)), max_id c (Suc i + k)), s')"
    "opened s' fd p pos' c" "content s' = content s2"
    using Suc.IH [OF r(2) _ Suc.prems(3), of "Suc i" num' mx'] Suc.prems(2) by auto
  have "user_num_loop P fd (Suc k) i num mx s = user_num_loop P fd k (Suc i) num' mx' s2"
    using l(1) r(1) by (simp add: Let_def id num'_def mx'_def)
  then show ?case
    using IH l(3) r(3) by auto
qed

lemma user_num_get_ok:
  assumes "idle s" "content s member_bin = Some c" "HEADER_SIZE \<le> length c" "slots c < 65536"
  obtains s' where "user_num_get P s = (Some (of_nat (used_slots c (slots c)), max_id c (slots c)), s')"
    "idle s'" "content s' = content s"
proof -
  obtain s1 where st: "p_stat P member_bin s = (0, of_nat (length c), s1)" "idle s1"
    "content s1 = content s"
    using statE [OF assms(1) fpath_member assms(2)] .
  obtain fd s2 where o: "p_open P member_bin db_flags s1 = (fd, s2)" "\<not> fd < 0"
    "opened s2 fd member_bin 0 c" "content s2 = content s"
    using open_dbE [OF st(2)] assms(2) st(3) by (auto simp: file_bytes_def fun_upd_idem)
  have b: "length c < 4294967296"
    using openedD [OF o(3)] cap_bound by linarith
  then have n: "unat ((of_nat (length c) - of_nat HEADER_SIZE :: u32) div of_nat USER_SIZE) = slots c"
    using assms(3) b
    by (simp add: slots_def unat_div unat_sub word_le_nat_alt unat_of_nat_u32 user_sizes)
  obtain s3 pos where L: "user_num_loop P fd (slots c) 0 0 0 s2
      = (Some (of_nat (used_slots c (slots c)), max_id c (slots c)), s3)"
    "opened s3 fd member_bin pos c" "content s3 = content s2"
    using user_num_loop_ok [OF o(3), of 0 "slots c" 0 0] assms(4) by auto
  obtain s4 where cl: "p_close P fd s3 = (0, s4)" "idle s4" "content s4 = content s3"
    using closeE [OF L(2)] .
  show ?thesis
    using st(1) o(1,2) L(1) cl(1) n
    by (intro that [of s4, OF _ cl(2)]) (simp_all add: user_num_get_def cl(3) L(3) o(4))
qed

lemma user_num_get_missing:
  assumes "idle s" "content s member_bin = None"
  obtains s' where "user_num_get P s = (None, s')" "idle s'" "content s' = content s"
proof -
  obtain z s1 where "p_stat P member_bin s = (-1, z, s1)" "idle s1" "content s1 = content s"
    using stat_failE [OF assms(1) fpath_member assms(2)] .
  then show ?thesis by (intro that [of s1]) (simp_all add: user_num_get_def)
qed

text \<open>Building the card table.\<close>

lemma card_loop_ok:
  assumes "opened s fd p pos c" "i + k \<le> slots c" "slots c < 65536" "i + k \<le> length arr"
    "take (used_slots c i) arr = used_links c i"
    "set (drop (used_slots c i) arr) \<subseteq> S \<union> dead_links c"
  shows "\<exists>arr' s' pos'. card_loop P fd k (Suc i) (used_slots c i) arr s
      = Some (True, used_slots c (i + k), arr', s')
    \<and> opened s' fd p pos' c \<and> content s' = content s \<and> length arr' = length arr
    \<and> take (used_slots c (i + k)) arr' = used_links c (i + k)
    \<and> set (drop (used_slots c (i + k)) arr') \<subseteq> S \<union> dead_links c
    \<and> drop (Suc (used_slots c (i + k))) arr' = drop (Suc (used_slots c (i + k))) arr"
  using assms
proof (induction k arbitrary: i arr s pos)
  case 0
  then show ?case by auto
next
  case (Suc k)
  let ?e = "used_slots c i" and ?o = "user_ofs (Suc i)"
  have len: "?o + USER_SIZE \<le> length c"
    using Suc.prems(2) by (intro ofs_slots) auto
  have ad: "sint (of_nat USER_SIZE * (of_nat (Suc i) - 1) + of_nat HEADER_SIZE :: u32) = int ?o"
    using Suc.prems(2,3) by (intro sint_card_addr) linarith+
  obtain s1 where l: "p_lseek P fd (sint (of_nat USER_SIZE * (of_nat (Suc i) - 1)
      + of_nat HEADER_SIZE :: u32)) SEEK_SET s = (int ?o, s1)"
    "opened s1 fd p ?o c" "content s1 = content s"
    using lseek_intE [OF Suc.prems(1) _ ad] len by auto
  obtain s2 where r: "p_read P fd 6 s1 = (6, window ?o 6 c, s2)"
    "opened s2 fd p (?o + 6) c" "content s2 = content s1"
    using read_exactE [OF l(2), of 6 6] len by (auto simp: USER_SIZE_def)
  have e: "?e < length arr"
    using used_slots_le [of c i] Suc.prems(4) by linarith
  have ne: "window ?o 6 c \<noteq> []" "length (window ?o 6 c) = 6"
    using len by (auto simp: USER_SIZE_def simp flip: length_0_conv)
  define arr' where "arr' = arr[?e := slot_link c (Suc i)]"
  have at: "link_user (arr' ! ?e) = slot_id c (Suc i)"
    using e link_user_slot [of "Suc i" c] len by (simp add: arr'_def USER_SIZE_def)
  have step: "card_loop P fd (Suc k) (Suc i) ?e arr s
      = card_loop P fd k (Suc (Suc i)) (used_slots c (Suc i)) arr' s2"
    using l(1) r(1) e ne at
    by (simp add: Let_def used_slots_Suc arr'_def slot_link_def del: of_nat_Suc)
  have T: "take (used_slots c (Suc i)) arr' = used_links c (Suc i)"
    using Suc.prems(5) e
    by (simp add: used_slots_Suc used_links_Suc arr'_def take_Suc_conv_app_nth)
  have sub: "set (drop (Suc ?e) arr) \<subseteq> set (drop ?e arr)"
    by (rule set_drop_subset_set_drop) simp
  have D: "set (drop (used_slots c (Suc i)) arr') \<subseteq> S \<union> dead_links c"
  proof (cases "slot_id c (Suc i) = 0")
    case True
    have "drop ?e arr' = slot_link c (Suc i) # drop (Suc ?e) arr"
      using e by (simp add: arr'_def Cons_nth_drop_Suc [symmetric])
    then show ?thesis
      using True Suc.prems(2,6) e sub by (auto simp: used_slots_Suc arr'_def dead_links_def)
  next
    case False
    then show ?thesis
      using Suc.prems(6) sub by (auto simp: used_slots_Suc arr'_def)
  qed
  have "?e < Suc (used_slots c (Suc i + k))"
    using used_slots_mono [of i "Suc i + k" c] by simp
  then have dr: "drop (Suc (used_slots c (Suc i + k))) arr' = drop (Suc (used_slots c (Suc i + k))) arr"
    by (simp add: arr'_def)
  show ?case
    using Suc.IH [OF r(2) _ Suc.prems(3) _ T D] Suc.prems(2,4) step l(3) r(3) dr
    by (auto simp: arr'_def)
qed

lemma card_array_init_ok:
  assumes "idle s" "content s member_bin = Some c" "db_ok c"
    "unat (max_id c (slots c)) \<le> length arr"
  obtains arr' s' R where "card_array_init P arr s = Some (0, arr', s')" "idle s'"
    "content s' = content s" "length arr' = length arr"
    "sorted_wrt (\<lambda>a b. link_card b \<le> link_card a) arr'"
    "mset arr' = mset (used_links c (slots c)) + R" "set_mset R \<subseteq> set arr \<union> dead_links c"
    "set (drop (Suc (used_slots c (slots c))) arr) \<subseteq> set arr'"
proof -
  let ?m = "unat (max_id c (slots c))"
  have db: "HEADER_SIZE \<le> length c" "slots c < 65536" "?m \<le> slots c"
    using assms(3) max_id_le_slots by (simp_all add: db_ok_def)
  obtain s1 where u: "user_num_get P s = (Some (of_nat (used_slots c (slots c)), max_id c (slots c)), s1)"
    "idle s1" "content s1 = content s"
    using user_num_get_ok [OF assms(1,2) db(1,2)] .
  obtain fd s2 where o: "p_open P member_bin db_flags s1 = (fd, s2)" "\<not> fd < 0"
    "opened s2 fd member_bin 0 c" "content s2 = content s"
    using open_dbE [OF u(2)] assms(2) u(3) by (auto simp: file_bytes_def fun_upd_idem)
  obtain arr1 s3 pos where L: "card_loop P fd ?m 1 0 arr s2 = Some (True, used_slots c ?m, arr1, s3)"
    "opened s3 fd member_bin pos c" "content s3 = content s2" "length arr1 = length arr"
    "take (used_slots c ?m) arr1 = used_links c ?m"
    "set (drop (used_slots c ?m) arr1) \<subseteq> set arr \<union> dead_links c"
    "drop (Suc (used_slots c ?m)) arr1 = drop (Suc (used_slots c ?m)) arr"
    using card_loop_ok [OF o(3), of 0 ?m arr "set arr"] db assms(4) by auto
  obtain s4 where cl: "p_close P fd s3 = (0, s4)" "idle s4" "content s4 = content s3"
    using closeE [OF L(2)] .
  have num: "unat (of_nat (used_slots c (slots c)) :: u16) = used_slots c ?m"
    using used_slots_le [of c "slots c"] db(2) used_slots_max [OF assms(3)]
    by (simp add: unat_of_nat_u16)
  have same: "used_links c ?m = used_links c (slots c)"
  proof -
    have z: "slot_id c j = 0" if "j \<in> set [Suc ?m..<Suc (slots c)]" for j
      using that db_okD [OF assms(3), of j] max_id_ge [of j "slots c" c] by (auto simp: word_le_nat_alt)
    have "[1..<Suc (slots c)] = [1..<Suc ?m] @ [Suc ?m..<Suc (slots c)]"
      using db(3) upt_add_eq_append [of 1 "Suc ?m" "slots c - ?m"] by simp
    moreover have "filter (\<lambda>j. slot_id c j \<noteq> 0) [Suc ?m..<Suc (slots c)] = []"
      using z by (simp add: filter_empty_conv)
    ultimately show ?thesis by (simp add: used_links_def del: upt_Suc)
  qed
  have ms: "mset arr1 = mset (used_links c (slots c)) + mset (drop (used_slots c ?m) arr1)"
    using L(5) same by (metis append_take_drop_id mset_append)
  have st: "set (drop (Suc (used_slots c (slots c))) arr) \<subseteq> set arr1"
    using L(7) used_slots_max [OF assms(3)] by (metis set_drop_subset)
  have S: "set (c_qsort card_compar arr1) = set arr1"
    by (metis mset_c_qsort set_mset_mset)
  show ?thesis
  proof (rule that [of "c_qsort card_compar arr1" s4 "mset (drop (used_slots c ?m) arr1)"])
    show "card_array_init P arr s = Some (0, c_qsort card_compar arr1, s4)"
      using u(1) o(1,2) L(1) cl(1) num by (simp add: card_array_init_def)
  qed (use cl L(3,4,6) o(4) ms S sorted_c_qsort st in \<open>auto simp: mset_c_qsort\<close>)
qed

text \<open>Reading the checksums of consecutive users.\<close>

lemma user_crc_loop_ok:
  assumes "opened s fd p pos c" "0 < i" "i + k \<le> Suc (slots c)" "slots c < 65536"
  shows "\<exists>s' pos'. user_crc_loop P fd k i acc s = (True, acc @ map (slot_crc c) [i..<i + k], s')
    \<and> opened s' fd p pos' c \<and> content s' = content s"
  using assms
proof (induction k arbitrary: i acc s pos)
  case 0
  then show ?case by auto
next
  case (Suc k)
  have len: "user_ofs i + USER_SIZE \<le> length c"
    using Suc.prems(2,3) by (intro ofs_slots) auto
  have ad: "sint (of_nat USER_SIZE * (of_nat i - 1) + of_nat CRC_OFFSET + of_nat HEADER_SIZE :: u32)
      = int (user_ofs i + CRC_OFFSET)"
    using Suc.prems by (intro sint_crc_addr) linarith+
  obtain s1 where l: "p_lseek P fd (sint (of_nat USER_SIZE * (of_nat i - 1) + of_nat CRC_OFFSET
      + of_nat HEADER_SIZE :: u32)) SEEK_SET s = (int (user_ofs i + CRC_OFFSET), s1)"
    "opened s1 fd p (user_ofs i + CRC_OFFSET) c" "content s1 = content s"
    using lseek_intE [OF Suc.prems(1) _ ad] len by (auto simp: USER_SIZE_def CRC_OFFSET_def)
  obtain s2 where r: "p_read P fd 4 s1 = (4, window (user_ofs i + CRC_OFFSET) 4 c, s2)"
    "opened s2 fd p (user_ofs i + CRC_OFFSET + 4) c" "content s2 = content s1"
    using read_exactE [OF l(2), of 4 4] len by (auto simp: USER_SIZE_def CRC_OFFSET_def)
  have step: "user_crc_loop P fd (Suc k) i acc s
      = user_crc_loop P fd k (Suc i) (acc @ [slot_crc c i]) s2"
    using l(1) r(1) by (simp add: slot_crc_def)
  have "[i..<i + Suc k] = i # [Suc i..<Suc i + k]"
    by (simp add: upt_rec)
  then show ?case
    using Suc.IH [OF r(2), of "Suc i" "acc @ [slot_crc c i]"] Suc.prems step l(3) r(3)
    by auto
qed

text \<open>The number of checksums \<open>user_crc_get\<close> returns: the users from \<open>start\<close> up to the largest
  number, at most \<open>num\<close>.\<close>

lemma user_crc_get_ok:
  assumes "idle s" "content s member_bin = Some c" "db_ok c" "start \<noteq> 0" "start \<le> max_id c (slots c)"
  obtains s' where "user_crc_get P start num s
      = (0, map (slot_crc c) [unat start..<unat start
              + min (unat num) (unat (max_id c (slots c)) + 1 - unat start)], s')"
    "idle s'" "content s' = content s"
proof -
  let ?m = "max_id c (slots c)"
  have db: "HEADER_SIZE \<le> length c" "slots c < 65536" "unat ?m \<le> slots c"
    using assms(3) max_id_le_slots by (simp_all add: db_ok_def)
  obtain s1 where u: "user_num_get P s = (Some (of_nat (used_slots c (slots c)), ?m), s1)"
    "idle s1" "content s1 = content s"
    using user_num_get_ok [OF assms(1,2) db(1,2)] .
  obtain fd s2 where o: "p_open P member_bin db_flags s1 = (fd, s2)" "\<not> fd < 0"
    "opened s2 fd member_bin 0 c" "content s2 = content s"
    using open_dbE [OF u(2)] assms(2) u(3) by (auto simp: file_bytes_def fun_upd_idem)
  define num' where "num' = (if unat start + unat num > unat ?m then ?m - start + 1 else num)"
  have st: "1 \<le> unat start" "unat start \<le> unat ?m"
    using assms(4,5) by (simp_all add: word_le_nat_alt Suc_le_eq unat_gt_0)
  have mb: "unat ?m < 65536" by (rule unat_u16_bound)
  have sub: "unat (?m - start) = unat ?m - unat start"
    using assms(5) by (simp add: unat_sub word_le_nat_alt)
  have "unat (?m - start + 1) = unat (?m - start) + 1"
    using sub st mb by (subst unat_add_lem [THEN iffD1]) auto
  then have n: "unat num' = min (unat num) (unat ?m + 1 - unat start)"
    using st sub by (auto simp add: num'_def min_def)
  have "unat start + unat num' \<le> Suc (slots c)" "0 < unat start"
    using st db(3) unfolding n min_def by auto
  then obtain s3 pos where L: "user_crc_loop P fd (unat num') (unat start) [] s2
      = (True, map (slot_crc c) [unat start..<unat start + unat num'], s3)"
    "opened s3 fd member_bin pos c" "content s3 = content s2"
    using user_crc_loop_ok [OF o(3), of "unat start" "unat num'" "[]"] db(2) by auto
  obtain s4 where cl: "p_close P fd s3 = (0, s4)" "idle s4" "content s4 = content s3"
    using closeE [OF L(2)] .
  show ?thesis
  proof (rule that [of s4, OF _ cl(2)])
    show "user_crc_get P start num s = (0, map (slot_crc c) [unat start..<unat start
              + min (unat num) (unat ?m + 1 - unat start)], s4)"
      using u(1) o(1,2) L(1) cl(1) assms(4) leD [OF assms(5)] n
      by (simp add: user_crc_get_def Let_def flip: num'_def)
  qed (simp add: cl(3) L(3) o(4))
qed

end

end
