(* ===== verification/AttDatabase.thy ===== *)
theory AttDatabase imports PDatabaseOk begin

text \<open>att_database.c: the attendance log /save_io.bin, a header of 8 bytes (number of records and
  its checksum) followed by packed records of 53 bytes.  A log of the file is the list of its
  records, oldest first; the lemmas give each operation as a function on that list.\<close>

definition gp_attendance_database_path :: string where
  "gp_attendance_database_path = ''/save_io.bin''"

definition ATT_SIZE :: nat where "ATT_SIZE = 53"
definition ATT_HEADER :: nat where "ATT_HEADER = 8"

lemmas att_sizes = ATT_SIZE_def ATT_HEADER_def

subsection \<open>Data\<close>

record att_info =
  att_user :: u16
  att_student :: bytes
  att_name :: bytes
  att_device :: u8
  att_mac :: bytes
  att_state :: u8
  att_year :: u16
  att_month :: u8
  att_day :: u8
  att_hour :: u8
  att_minutes :: u8
  att_second :: u8
  att_crc :: u32

record att_header =
  total :: u32
  hcrc :: u32

definition att_wf :: "att_info \<Rightarrow> bool" where
  "att_wf a = (length (att_student a) = 16 \<and> length (att_name a) = 16 \<and> length (att_mac a) = 6)"

definition att_info_bytes :: "att_info \<Rightarrow> bytes" where
  "att_info_bytes a = le16 (att_user a) @ att_student a @ att_name a @ [att_device a] @ att_mac a
     @ [att_state a] @ le16 (att_year a) @ [att_month a] @ [att_day a] @ [att_hour a]
     @ [att_minutes a] @ [att_second a] @ le32 (att_crc a)"

definition att_info_of :: "bytes \<Rightarrow> att_info" where
  "att_info_of bs = \<lparr>att_user = u16_at 0 bs, att_student = window 2 16 bs, att_name = window 18 16 bs,
     att_device = bs ! 34, att_mac = window 35 6 bs, att_state = bs ! 41, att_year = u16_at 42 bs,
     att_month = bs ! 44, att_day = bs ! 45, att_hour = bs ! 46, att_minutes = bs ! 47,
     att_second = bs ! 48, att_crc = u32_at 49 bs\<rparr>"

definition att_header_bytes :: "att_header \<Rightarrow> bytes" where
  "att_header_bytes h = le32 (total h) @ le32 (hcrc h)"

definition att_header_of :: "bytes \<Rightarrow> att_header" where
  "att_header_of bs = \<lparr>total = u32_at 0 bs, hcrc = u32_at 4 bs\<rparr>"

text \<open>The checksum of a header covers the count, that of a record all fields before it.\<close>

definition header_crc :: "'s plat \<Rightarrow> att_header \<Rightarrow> u32" where
  "header_crc P h = block_crc_calc P (take (ATT_HEADER - 4) (att_header_bytes h))"

definition att_seal :: "'s plat \<Rightarrow> att_info \<Rightarrow> att_info" where
  "att_seal P a = a\<lparr>att_crc := block_crc_calc P (take (ATT_SIZE - 4) (att_info_bytes a))\<rparr>"

subsection \<open>Operations\<close>

text \<open>\<open>att_database_init\<close>: the result of the first read is not checked, so a short file leaves a
  part of the caller's header in place.\<close>

definition att_database_init :: "'s plat \<Rightarrow> att_header \<Rightarrow> 's \<Rightarrow> int \<times> att_header \<times> 's" where
  "att_database_init P h s = (case p_open P gp_attendance_database_path db_flags s of (fd, s1) \<Rightarrow>
     if fd < 0 then (-1, h, snd (p_close P fd s1))
     else (case p_lseek P fd 0 SEEK_SET s1 of (r, s2) \<Rightarrow>
       if r = -1 then (-1, h, snd (p_close P fd s2))
       else (case p_read P fd (of_nat ATT_HEADER) s2 of (n, bs, s3) \<Rightarrow>
         let h1 = att_header_of (bs @ drop (length bs) (att_header_bytes h)) in
         if header_crc P h1 \<noteq> hcrc h1 then
           (let h2 = h1\<lparr>total := 0\<rparr>; h3 = h2\<lparr>hcrc := header_crc P h2\<rparr> in
            case p_lseek P fd 0 SEEK_SET s3 of (r, s4) \<Rightarrow>
              if r = -1 then (-1, h3, snd (p_close P fd s4))
              else (case p_write P fd (att_header_bytes h3) s4 of (n, s5) \<Rightarrow>
                (if n \<noteq> int ATT_HEADER then -1 else 0, h3, snd (p_close P fd s5))))
         else (0, h1, snd (p_close P fd s3)))))"

definition fd_record_header_get :: "'s plat \<Rightarrow> int \<Rightarrow> att_header \<Rightarrow> 's \<Rightarrow> int \<times> att_header \<times> 's" where
  "fd_record_header_get P fd h s = (case p_lseek P fd 0 SEEK_SET s of (r, s1) \<Rightarrow>
     if r = -1 then (-1, h, s1)
     else (case p_read P fd (of_nat ATT_HEADER) s1 of (n, bs, s2) \<Rightarrow>
       let h1 = att_header_of (bs @ drop (length bs) (att_header_bytes h)) in
       if n \<noteq> int ATT_HEADER then (-1, h1, s2)
       else (if hcrc h1 = header_crc P h1 then 0 else -1, h1, s2)))"

definition fd_record_header_set :: "'s plat \<Rightarrow> int \<Rightarrow> att_header \<Rightarrow> 's \<Rightarrow> int \<times> att_header \<times> 's" where
  "fd_record_header_set P fd h s = (case p_lseek P fd 0 SEEK_SET s of (r, s1) \<Rightarrow>
     if r = -1 then (-1, h, s1)
     else let h1 = h\<lparr>hcrc := header_crc P h\<rparr> in
       (case p_write P fd (att_header_bytes h1) s1 of (n, s2) \<Rightarrow>
         (if n \<noteq> int ATT_HEADER then -1 else 0, h1, s2)))"

definition record_header_get_set :: "'s plat \<Rightarrow> att_header \<Rightarrow> u8 \<Rightarrow> 's \<Rightarrow> int \<times> att_header \<times> 's" where
  "record_header_get_set P h cmd s = (case p_open P gp_attendance_database_path db_flags s of (fd, s1) \<Rightarrow>
     if fd < 0 then (-1, h, snd (p_close P fd s1))
     else (case p_lseek P fd 0 SEEK_SET s1 of (r, s2) \<Rightarrow>
       if r = -1 then (-1, h, snd (p_close P fd s2))
       else if cmd = 0 then
         (case p_read P fd (of_nat ATT_HEADER) s2 of (n, bs, s3) \<Rightarrow>
           let h1 = att_header_of (bs @ drop (length bs) (att_header_bytes h)) in
           (if n = int ATT_HEADER \<and> hcrc h1 = header_crc P h1 then 0 else -1, h1, snd (p_close P fd s3)))
       else if cmd = 1 then
         (let h1 = h\<lparr>hcrc := header_crc P h\<rparr> in
          case p_write P fd (att_header_bytes h1) s2 of (n, s3) \<Rightarrow>
            (if n \<noteq> int ATT_HEADER then -1 else 0, h1, snd (p_close P fd s3)))
       else (-1, h, snd (p_close P fd s2))))"

definition att_addr :: "u32 \<Rightarrow> u32" where
  "att_addr i = of_nat ATT_SIZE * i + of_nat ATT_HEADER"

text \<open>\<open>att_record_add\<close> returns the record with its checksum filled in; \<open>h0\<close> is what the stack holds
  where the local header is.\<close>

definition att_record_add :: "'s plat \<Rightarrow> att_header \<Rightarrow> att_info \<Rightarrow> 's \<Rightarrow> int \<times> att_info \<times> 's" where
  "att_record_add P h0 a s = (case p_open P gp_attendance_database_path db_flags s of (fd, s1) \<Rightarrow>
     if fd < 0 then (-1, a, s1)
     else (case fd_record_header_get P fd h0 s1 of (r, h, s2) \<Rightarrow>
       if r \<noteq> 0 then (-1, a, snd (p_close P fd s2))
       else (case p_lseek P fd (sint (att_addr (total h))) SEEK_SET s2 of (r, s3) \<Rightarrow>
         if r = -1 then (-1, a, snd (p_close P fd s3))
         else let a1 = att_seal P a in
           (case p_write P fd (att_info_bytes a1) s3 of (n, s4) \<Rightarrow>
             if n \<noteq> int ATT_SIZE then (-1, a1, snd (p_close P fd s4))
             else (case fd_record_header_set P fd (h\<lparr>total := total h + 1\<rparr>) s4 of (r, h', s5) \<Rightarrow>
               (if r \<noteq> 0 then -1 else 0, a1, snd (p_close P fd s5)))))))"

definition att_record_del :: "'s plat \<Rightarrow> att_header \<Rightarrow> u16 \<Rightarrow> 's \<Rightarrow> int \<times> 's" where
  "att_record_del P h0 num s = (case p_open P gp_attendance_database_path db_flags s of (fd, s1) \<Rightarrow>
     if fd < 0 then (-1, s1)
     else (case fd_record_header_get P fd h0 s1 of (r, h, s2) \<Rightarrow>
       if r \<noteq> 0 then (-1, snd (p_close P fd s2))
       else
         let h1 = h\<lparr>total := (if total h > ucast num then total h - ucast num else 0)\<rparr> in
         (case fd_record_header_set P fd h1 s2 of (r, h', s3) \<Rightarrow>
           (if r \<noteq> 0 then -1 else 0, snd (p_close P fd s3)))))"

text \<open>The loop of \<open>att_record_get\<close>, \<open>i\<close> counting down; \<open>None\<close> when a record is stored behind the
  end of the caller's array.\<close>

fun att_get_loop :: "'s plat \<Rightarrow> int \<Rightarrow> nat \<Rightarrow> nat \<Rightarrow> att_info list \<Rightarrow> 's
    \<Rightarrow> (nat \<times> att_info list \<times> 's) option" where
  "att_get_loop P fd 0 cnt arr s = Some (cnt, arr, s)"
| "att_get_loop P fd (Suc i) cnt arr s =
     (let addr = att_addr (of_nat (Suc i) - 1) in
      if addr < of_nat ATT_HEADER then Some (cnt, arr, s)
      else (case p_lseek P fd (sint addr) SEEK_SET s of (r, s1) \<Rightarrow>
        if r = -1 then Some (cnt, arr, s1)
        else (case p_read P fd (of_nat ATT_SIZE) s1 of (n, bs, s2) \<Rightarrow>
          if bs \<noteq> [] \<and> length arr \<le> cnt then None
          else let arr' = arr[cnt := att_info_of (bs @ drop (length bs) (att_info_bytes (arr ! cnt)))] in
            if n \<noteq> int ATT_SIZE then Some (cnt, arr', s2)
            else att_get_loop P fd i (Suc cnt) arr' s2)))"

definition att_record_get :: "'s plat \<Rightarrow> att_header \<Rightarrow> att_info list \<Rightarrow> u8 \<Rightarrow> 's
    \<Rightarrow> (int \<times> att_info list \<times> u16 option \<times> 's) option" where
  "att_record_get P h0 arr lenth s = (case p_stat P gp_attendance_database_path s of (r, sz, s1) \<Rightarrow>
     if r < 0 then Some (-1, arr, None, s1)
     else (case p_open P gp_attendance_database_path db_flags s1 of (fd, s2) \<Rightarrow>
       if fd < 0 then Some (-1, arr, None, s2)
       else (case fd_record_header_get P fd h0 s2 of (r, h, s3) \<Rightarrow>
         if r \<noteq> 0 then Some (-1, arr, None, snd (p_close P fd s3))
         else
           let n = (if ucast lenth \<ge> total h then ucast (total h) else lenth :: u8) in
           (case att_get_loop P fd (unat n) 0 arr s3 of
              None \<Rightarrow> None
            | Some (cnt, arr', s4) \<Rightarrow>
                Some (0, arr', Some (of_nat cnt), snd (p_close P fd s4))))))"

definition att_database_wipe :: "'s plat \<Rightarrow> 's \<Rightarrow> int \<times> att_header \<times> 's" where
  "att_database_wipe P s = (let h = \<lparr>total = 0, hcrc = 0\<rparr> in
     case p_unlink P gp_attendance_database_path s of (r, s1) \<Rightarrow>
       if r = 0 then
         (case record_header_get_set P h 1 s1 of (_, h1, s2) \<Rightarrow>
           (case att_database_init P h1 s2 of (_, h2, s3) \<Rightarrow> (0, h2, s3)))
       else (-1, h, s1))"

end
