(* ===== verification/AttDatabaseOk.thy ===== *)
theory AttDatabaseOk imports AttDatabase begin

text \<open>The attendance database refines a list of records: \<open>att_log P c L\<close> says that the file \<open>c\<close>
  holds the log \<open>L\<close>, and every operation is shown to be the corresponding list operation.\<close>

abbreviation "save_io_bin \<equiv> gp_attendance_database_path"

definition log_header :: "'s plat \<Rightarrow> nat \<Rightarrow> att_header" where
  "log_header P n = (let h = \<lparr>total = of_nat n, hcrc = 0\<rparr> in h\<lparr>hcrc := header_crc P h\<rparr>)"

definition att_log :: "'s plat \<Rightarrow> bytes \<Rightarrow> att_info list \<Rightarrow> bool" where
  "att_log P c L = (ATT_HEADER + ATT_SIZE * length L \<le> length c
     \<and> window 0 ATT_HEADER c = att_header_bytes (log_header P (length L))
     \<and> window ATT_HEADER (ATT_SIZE * length L) c = concat (map att_info_bytes L)
     \<and> list_all (\<lambda>a. att_wf a \<and> att_seal P a = a) L)"

lemma fpath_save_io: "fpath gp_attendance_database_path"
  by (simp add: fpath_def gp_attendance_database_path_def)

subsection \<open>Encodings\<close>

lemma length_att_header_bytes [simp]: "length (att_header_bytes h) = ATT_HEADER"
  by (simp add: att_header_bytes_def ATT_HEADER_def)

lemma length_att_info_bytes [simp]: "att_wf a \<Longrightarrow> length (att_info_bytes a) = ATT_SIZE"
  by (simp add: att_info_bytes_def att_wf_def ATT_SIZE_def)

lemma att_header_roundtrip: "att_header_of (att_header_bytes h) = h"
proof -
  have "u32_at 0 (att_header_bytes h) = total h"
    by (rule u32_of_window) (simp_all add: att_header_bytes_def fields)
  moreover have "u32_at 4 (att_header_bytes h) = hcrc h"
    by (rule u32_of_window) (simp_all add: att_header_bytes_def fields)
  ultimately show ?thesis by (simp add: att_header_of_def)
qed

lemma att_info_roundtrip:
  assumes "att_wf a"
  shows "att_info_of (att_info_bytes a) = a"
proof -
  have w: "length (att_student a) = 16" "length (att_name a) = 16" "length (att_mac a) = 6"
    using assms by (simp_all add: att_wf_def)
  let ?b = "att_info_bytes a"
  have l: "length ?b = 53" using assms by (simp add: ATT_SIZE_def)
  have win: "window 0 2 ?b = le16 (att_user a)" "window 2 16 ?b = att_student a"
    "window 18 16 ?b = att_name a" "window 34 1 ?b = [att_device a]" "window 35 6 ?b = att_mac a"
    "window 41 1 ?b = [att_state a]" "window 42 2 ?b = le16 (att_year a)"
    "window 44 1 ?b = [att_month a]" "window 45 1 ?b = [att_day a]" "window 46 1 ?b = [att_hour a]"
    "window 47 1 ?b = [att_minutes a]" "window 48 1 ?b = [att_second a]"
    "window 49 4 ?b = le32 (att_crc a)"
    by (simp_all add: att_info_bytes_def fields w)
  show ?thesis
    using u16_of_window [OF win(1)] nth_of_window [OF win(4)] nth_of_window [OF win(6)]
      u16_of_window [OF win(7)] nth_of_window [OF win(8)] nth_of_window [OF win(9)]
      nth_of_window [OF win(10)] nth_of_window [OF win(11)] nth_of_window [OF win(12)]
      u32_of_window [OF win(13)] win l
    by (simp add: att_info_of_def)
qed

lemma att_info_bytes_of: "length bs = 53 \<Longrightarrow> att_info_bytes (att_info_of bs) = bs"
  by (simp add: att_info_bytes_def att_info_of_def le16_at le32_at nth_window_app nth_window1
      window_join window_join_append)

lemma header_crc_total: "header_crc P h = block_crc_calc P (le32 (total h))"
  by (simp add: header_crc_def att_header_bytes_def ATT_HEADER_def)

lemma header_crc_update [simp]: "header_crc P (h\<lparr>hcrc := x\<rparr>) = header_crc P h"
  by (simp add: header_crc_total)

lemma header_crc_same: "total h = total h' \<Longrightarrow> header_crc P h = header_crc P h'"
  by (simp add: header_crc_total)

lemma log_header_simps: "total (log_header P n) = of_nat n"
  "hcrc (log_header P n) = header_crc P (log_header P n)"
  by (simp_all add: log_header_def header_crc_total)

lemma seal_wf: "att_wf a \<Longrightarrow> att_wf (att_seal P a)"
  by (simp add: att_wf_def att_seal_def)

lemma take_info_bytes: "att_wf a \<Longrightarrow> take 49 (att_info_bytes (a\<lparr>att_crc := x\<rparr>)) = take 49 (att_info_bytes a)"
  by (simp add: att_info_bytes_def att_wf_def)

lemma seal_seal: "att_wf a \<Longrightarrow> att_seal P (att_seal P a) = att_seal P a"
  using take_info_bytes [of a] by (simp add: att_seal_def ATT_SIZE_def)

lemma set_header:
  "h\<lparr>hcrc := header_crc P h\<rparr> = log_header P n" if "total h = of_nat n"
  using that by (cases h) (simp add: log_header_def header_crc_total)

subsection \<open>Logs and files\<close>

lemma length_concat_infos: "list_all (\<lambda>a. att_wf a \<and> Q a) L
    \<Longrightarrow> length (concat (map att_info_bytes L)) = ATT_SIZE * length L"
  by (induction L) auto

lemma window_overwrite_head:
  "length hs \<le> p \<Longrightarrow> length hs \<le> length c \<Longrightarrow> window p n (overwrite 0 hs c) = window p n c"
  by (simp add: window_overwrite_after)

text \<open>A shorter log has a shorter header only.\<close>

lemma log_take:
  assumes "att_log P c L" "n \<le> length L"
  shows "att_log P (overwrite 0 (att_header_bytes (log_header P n)) c) (take n L)"
proof -
  have len: "ATT_HEADER + ATT_SIZE * length L \<le> length c" using assms(1) by (simp add: att_log_def)
  have LL: "list_all (\<lambda>a. att_wf a \<and> att_seal P a = a) L" using assms(1) by (simp add: att_log_def)
  have tk: "list_all (\<lambda>a. att_wf a \<and> att_seal P a = a) (take n L)"
    using LL by (auto simp: list_all_iff dest: in_set_takeD)
  have "window ATT_HEADER (ATT_SIZE * n) c
      = window 0 (ATT_SIZE * n) (window ATT_HEADER (ATT_SIZE * length L) c)"
    using assms(2) by (simp add: window_window ATT_SIZE_def)
  also have "\<dots> = window 0 (ATT_SIZE * n) (concat (map att_info_bytes (take n L))
      @ concat (map att_info_bytes (drop n L)))"
    using assms(1) by (simp add: att_log_def flip: concat_append map_append)
  also have "\<dots> = concat (map att_info_bytes (take n L))"
    using length_concat_infos [OF tk] assms(2) by (simp add: window_head min_def)
  finally have "window ATT_HEADER (ATT_SIZE * n) c = concat (map att_info_bytes (take n L))" .
  moreover have "ATT_HEADER + ATT_SIZE * n \<le> length c"
    using len mult_le_mono2 [OF assms(2), of ATT_SIZE] by linarith
  ultimately show ?thesis
    using len tk assms(2)
    by (simp add: att_log_def window_overwrite_head min_def)
qed

lemma log_append:
  assumes "att_log P c L" "att_wf a" "att_seal P a = a"
    "c1 = overwrite (ATT_HEADER + ATT_SIZE * length L) (att_info_bytes a) c"
  shows "att_log P (overwrite 0 (att_header_bytes (log_header P (Suc (length L)))) c1) (L @ [a])"
proof -
  have len: "ATT_HEADER + ATT_SIZE * length L \<le> length c" using assms(1) by (simp add: att_log_def)
  then have l1: "ATT_HEADER + ATT_SIZE * Suc (length L) \<le> length c1"
    using assms(2) by (simp add: assms(4))
  have w1: "window ATT_HEADER (ATT_SIZE * length L) c1 = concat (map att_info_bytes L)"
    using len assms(1) by (simp add: assms(4) window_overwrite_before att_log_def)
  have w2: "window (ATT_HEADER + ATT_SIZE * length L) ATT_SIZE c1 = att_info_bytes a"
    using len assms(2) by (simp add: assms(4))
  have w: "window ATT_HEADER (ATT_SIZE * length L + ATT_SIZE) c1 = concat (map att_info_bytes (L @ [a]))"
    using w1 w2 window_join [of "ATT_HEADER + ATT_SIZE * length L" ATT_HEADER "ATT_SIZE * length L" c1 ATT_SIZE]
    by simp
  then show ?thesis
    using l1 assms(1-3) by (simp add: att_log_def window_overwrite_head add.commute)
qed

text \<open>The record at position \<open>i\<close> of the log.\<close>

lemma log_record:
  assumes "att_log P c L" "i < length L"
  shows "window (ATT_HEADER + ATT_SIZE * i) ATT_SIZE c = att_info_bytes (L ! i)"
proof -
  have LL: "list_all (\<lambda>a. att_wf a \<and> att_seal P a = a) L" using assms(1) by (simp add: att_log_def)
  have r: "\<forall>r \<in> set (map att_info_bytes L). length r = ATT_SIZE"
    using LL by (auto simp: list_all_iff)
  have "rows_at 0 ATT_SIZE (length L) (concat (map att_info_bytes L)) = map att_info_bytes L"
    using rows_at_concat [OF r] by simp
  then have "window (ATT_SIZE * i) ATT_SIZE (concat (map att_info_bytes L)) = att_info_bytes (L ! i)"
    using assms(2) by (metis (no_types, lifting) rows_at_def add_0 length_map nth_map nth_upt diff_zero
        length_upt)
  moreover have "window (ATT_SIZE * i) ATT_SIZE (window ATT_HEADER (ATT_SIZE * length L) c)
      = window (ATT_HEADER + ATT_SIZE * i) ATT_SIZE c"
  proof -
    have "ATT_SIZE * i + ATT_SIZE \<le> ATT_SIZE * length L"
      using assms(2) by (metis Suc_leI mult_Suc_right mult_le_mono2 add.commute)
    then show ?thesis by (simp add: window_window)
  qed
  ultimately show ?thesis using assms(1) by (simp add: att_log_def)
qed

lemma log_wf: "att_log P c L \<Longrightarrow> a \<in> set L \<Longrightarrow> att_wf a"
  by (auto simp: att_log_def list_all_iff)

text \<open>Two logs of the same file are equal.\<close>

lemma log_nth: "att_log P c L \<Longrightarrow> i < length L \<Longrightarrow>
    att_info_of (window (ATT_HEADER + ATT_SIZE * i) ATT_SIZE c) = L ! i"
  using log_record [of P c L i] log_wf [of P c L "L ! i"] by (simp add: att_info_roundtrip)

lemma log_bound: "att_log P c L \<Longrightarrow> length c < 2147483648 \<Longrightarrow> length L < 40518560"
  by (simp add: att_log_def att_sizes)

lemma sint_att_addr:
  "n < 40518560 \<Longrightarrow> sint (att_addr (of_nat n)) = int (ATT_HEADER + ATT_SIZE * n)"
  using sint_of_nat_u32 [of "ATT_HEADER + ATT_SIZE * n"]
  by (simp add: att_addr_def att_sizes add.commute)

subsection \<open>The operations on the log\<close>

lemma unat_att_sizes: "unat (of_nat ATT_HEADER :: u32) = ATT_HEADER" "unat (of_nat ATT_SIZE :: u32) = ATT_SIZE"
  by (simp_all add: att_sizes)

context posix_files begin

lemma open_logE:
  assumes "idle s" "content s save_io_bin = Some c"
  obtains fd s' where "p_open P save_io_bin db_flags s = (fd, s')" "\<not> fd < 0"
    "opened s' fd save_io_bin 0 c" "content s' = content s"
  using openE [OF assms(1) fpath_save_io db_flags(1)] db_flags(2,4) assms(2)
  by (metis file_bytes_def fun_upd_idem option.simps(5))

lemma header_get_log:
  assumes "opened s fd p pos c" "att_log P c L"
  obtains s' where "fd_record_header_get P fd h0 s = (0, log_header P (length L), s')"
    "opened s' fd p ATT_HEADER c" "content s' = content s"
proof -
  have len: "ATT_HEADER \<le> length c" using assms(2) by (simp add: att_log_def)
  obtain s1 where l: "p_lseek P fd 0 SEEK_SET s = (0, s1)" "opened s1 fd p 0 c" "content s1 = content s"
    using lseek_intE [OF assms(1), of 0 0] by auto
  have w: "window 0 ATT_HEADER c = att_header_bytes (log_header P (length L))"
    using assms(2) by (simp add: att_log_def)
  obtain s2 where r: "p_read P fd (of_nat ATT_HEADER) s1
      = (int ATT_HEADER, att_header_bytes (log_header P (length L)), s2)"
    "opened s2 fd p ATT_HEADER c" "content s2 = content s1"
    using read_exactE [OF l(2) _ unat_att_sizes(1)] len w by auto
  then show ?thesis
    using l by (intro that [of s2])
      (simp_all add: fd_record_header_get_def Let_def att_header_roundtrip log_header_simps)
qed

lemma header_set:
  assumes "opened s fd p pos c" "ATT_HEADER \<le> length c" "total h = of_nat n"
  obtains s' where "fd_record_header_set P fd h s = (0, log_header P n, s')"
    "opened s' fd p ATT_HEADER (overwrite 0 (att_header_bytes (log_header P n)) c)"
    "content s' = (content s)(p \<mapsto> overwrite 0 (att_header_bytes (log_header P n)) c)"
proof -
  obtain s1 where l: "p_lseek P fd 0 SEEK_SET s = (0, s1)" "opened s1 fd p 0 c" "content s1 = content s"
    using lseek_intE [OF assms(1), of 0 0] by auto
  have "0 + length (att_header_bytes (log_header P n)) \<le> cap"
    using openedD [OF assms(1)] assms(2) by simp
  then obtain s2 where w: "p_write P fd (att_header_bytes (log_header P n)) s1 = (int ATT_HEADER, s2)"
    "opened s2 fd p ATT_HEADER (overwrite 0 (att_header_bytes (log_header P n)) c)"
    "content s2 = (content s1)(p \<mapsto> overwrite 0 (att_header_bytes (log_header P n)) c)"
    using writeE [OF l(2), of "att_header_bytes (log_header P n)"] by auto
  then show ?thesis
    using l by (intro that [of s2]) (simp_all add: fd_record_header_set_def Let_def set_header [OF assms(3)])
qed

lemma att_record_add_log:
  assumes "idle s" "content s save_io_bin = Some c" "att_log P c L" "att_wf a"
    "ATT_HEADER + ATT_SIZE * Suc (length L) \<le> cap"
  obtains s' c' where "att_record_add P h0 a s = (0, att_seal P a, s')" "idle s'"
    "content s' = (content s)(save_io_bin \<mapsto> c')" "att_log P c' (L @ [att_seal P a])"
proof -
  obtain fd s1 where o: "p_open P save_io_bin db_flags s = (fd, s1)" "\<not> fd < 0"
    "opened s1 fd save_io_bin 0 c" "content s1 = content s"
    using open_logE [OF assms(1,2)] .
  obtain s2 where g: "fd_record_header_get P fd h0 s1 = (0, log_header P (length L), s2)"
    "opened s2 fd save_io_bin ATT_HEADER c" "content s2 = content s1"
    using header_get_log [OF o(3) assms(3)] .
  let ?p = "ATT_HEADER + ATT_SIZE * length L"
  have len: "?p \<le> length c" using assms(3) by (simp add: att_log_def)
  have neq: "int ATT_HEADER + int ATT_SIZE * int (length L) \<noteq> -1" by (simp add: att_sizes)
  have n: "length L < 40518560"
    using log_bound [OF assms(3)] openedD [OF o(3)] cap_bound by linarith
  obtain s3 where l: "p_lseek P fd (sint (att_addr (of_nat (length L)))) SEEK_SET s2 = (int ?p, s3)"
    "opened s3 fd save_io_bin ?p c" "content s3 = content s2"
    using lseek_intE [OF g(2) len sint_att_addr [OF n]] .
  define a' where "a' = att_seal P a"
  have wf: "att_wf a'" "att_seal P a' = a'"
    using assms(4) by (simp_all add: a'_def seal_wf seal_seal)
  define c1 where "c1 = overwrite ?p (att_info_bytes a') c"
  have "?p + length (att_info_bytes a') \<le> cap"
    using assms(5) wf by simp
  then obtain s4 where w: "p_write P fd (att_info_bytes a') s3 = (int ATT_SIZE, s4)"
    "opened s4 fd save_io_bin (?p + ATT_SIZE) c1" "content s4 = (content s3)(save_io_bin \<mapsto> c1)"
    using writeE [OF l(2), of "att_info_bytes a'"] wf(1) by (auto simp: c1_def)
  have h: "ATT_HEADER \<le> length c1" using len by (simp add: c1_def)
  have t: "total ((log_header P (length L))\<lparr>total := total (log_header P (length L)) + 1\<rparr>)
      = of_nat (Suc (length L))"
    by (simp add: log_header_simps)
  obtain s5 where e: "fd_record_header_set P fd ((log_header P (length L))\<lparr>total :=
        total (log_header P (length L)) + 1\<rparr>) s4 = (0, log_header P (Suc (length L)), s5)"
    "opened s5 fd save_io_bin ATT_HEADER (overwrite 0 (att_header_bytes (log_header P (Suc (length L)))) c1)"
    "content s5 = (content s4)(save_io_bin
       \<mapsto> overwrite 0 (att_header_bytes (log_header P (Suc (length L)))) c1)"
    using header_set [OF w(2) h t] .
  obtain s6 where cl: "p_close P fd s5 = (0, s6)" "idle s6" "content s6 = content s5"
    using closeE [OF e(2)] .
  show ?thesis
  proof (rule that [OF _ cl(2) _ log_append [OF assms(3) wf c1_def, unfolded a'_def]])
    show "att_record_add P h0 a s = (0, att_seal P a, s6)"
      using o(1,2) g(1) l(1) w(1) e(1) cl(1) neq
      by (simp add: att_record_add_def Let_def log_header_simps(1) flip: a'_def)
  qed (simp add: cl(3) e(3) w(3) l(3) g(3) o(4))
qed

lemma att_record_del_log:
  assumes "idle s" "content s save_io_bin = Some c" "att_log P c L"
  obtains s' c' where "att_record_del P h0 num s = (0, s')" "idle s'"
    "content s' = (content s)(save_io_bin \<mapsto> c')" "att_log P c' (take (length L - unat num) L)"
proof -
  obtain fd s1 where o: "p_open P save_io_bin db_flags s = (fd, s1)" "\<not> fd < 0"
    "opened s1 fd save_io_bin 0 c" "content s1 = content s"
    using open_logE [OF assms(1,2)] .
  obtain s2 where g: "fd_record_header_get P fd h0 s1 = (0, log_header P (length L), s2)"
    "opened s2 fd save_io_bin ATT_HEADER c" "content s2 = content s1"
    using header_get_log [OF o(3) assms(3)] .
  have n: "length L < 4294967296"
    using log_bound [OF assms(3)] openedD [OF o(3)] cap_bound by linarith
  define h where "h = (log_header P (length L))\<lparr>total := (if total (log_header P (length L)) > ucast num
      then total (log_header P (length L)) - ucast num else 0)\<rparr>"
  have un: "unat (ucast num :: u32) = unat num"
    by (rule unat_ucast_u16_u32)
  have "unat (total h) = length L - unat num"
    using n un by (simp add: h_def log_header_simps unat_of_nat_u32 word_less_nat_alt unat_sub
        word_le_nat_alt)
  then have t: "total h = of_nat (length L - unat num)"
    using word_unat_Rep_inverse [of "total h"] by simp
  have h: "ATT_HEADER \<le> length c" using assms(3) by (simp add: att_log_def)
  obtain s3 where e: "fd_record_header_set P fd h s2 = (0, log_header P (length L - unat num), s3)"
    "opened s3 fd save_io_bin ATT_HEADER
       (overwrite 0 (att_header_bytes (log_header P (length L - unat num))) c)"
    "content s3 = (content s2)(save_io_bin
       \<mapsto> overwrite 0 (att_header_bytes (log_header P (length L - unat num))) c)"
    using header_set [OF g(2) h t] .
  obtain s4 where cl: "p_close P fd s3 = (0, s4)" "idle s4" "content s4 = content s3"
    using closeE [OF e(2)] .
  show ?thesis
  proof (rule that [OF _ cl(2) _ log_take [OF assms(3)]])
    show "att_record_del P h0 num s = (0, s4)"
      using o(1,2) g(1) e(1) cl(1) by (simp add: att_record_del_def Let_def flip: h_def)
  qed (simp_all add: cl(3) e(3) g(3) o(4))
qed

text \<open>One round of the loop: the record below the index is stored, if there is room for it.\<close>

lemma att_get_step:
  assumes "opened s fd p pos c" "att_log P c L" "Suc i \<le> length L"
  obtains s2 where "att_get_loop P fd (Suc i) k arr s
      = (if k < length arr then att_get_loop P fd i (Suc k) (arr[k := L ! i]) s2 else None)"
    "opened s2 fd p (ATT_HEADER + ATT_SIZE * i + ATT_SIZE) c" "content s2 = content s"
proof -
  let ?p = "ATT_HEADER + ATT_SIZE * i"
  have n: "i < 40518560"
    using log_bound [OF assms(2)] openedD [OF assms(1)] cap_bound assms(3) by linarith
  have "Suc i * ATT_SIZE \<le> length L * ATT_SIZE" using assms(3) by (rule mult_le_mono1)
  then have len: "?p + ATT_SIZE \<le> length c"
    using assms(2) by (simp add: att_log_def mult.commute)
  have "unat (att_addr (of_nat i)) = ?p"
    using n unat_of_nat_u32 [of ?p] by (simp add: att_addr_def att_sizes add.commute)
  then have big: "\<not> att_addr (of_nat i) < of_nat ATT_HEADER"
    by (simp add: word_less_nat_alt att_sizes)
  have neq: "int ATT_HEADER + int ATT_SIZE * int i \<noteq> -1" by (simp add: att_sizes)
  obtain s1 where l: "p_lseek P fd (sint (att_addr (of_nat i))) SEEK_SET s = (int ?p, s1)"
    "opened s1 fd p ?p c" "content s1 = content s"
    using lseek_intE [OF assms(1) _ sint_att_addr [OF n]] len by auto
  have w: "window ?p ATT_SIZE c = att_info_bytes (L ! i)" "att_wf (L ! i)"
    using log_record [OF assms(2)] log_wf [OF assms(2)] assms(3) by simp_all
  obtain s2 where r: "p_read P fd (of_nat ATT_SIZE) s1 = (int ATT_SIZE, att_info_bytes (L ! i), s2)"
    "opened s2 fd p (?p + ATT_SIZE) c" "content s2 = content s1"
    using read_exactE [OF l(2) len unat_att_sizes(2)] w by auto
  have ne: "att_info_bytes (L ! i) \<noteq> []" using length_att_info_bytes [OF w(2)] by (auto simp: ATT_SIZE_def simp del: length_att_info_bytes)
  have e: "att_info_of (att_info_bytes (L ! i) @ drop (length (att_info_bytes (L ! i))) x) = L ! i" for x
    using att_info_roundtrip [OF w(2)] w(2)
    by (simp add: att_info_of_def u16_at_def u32_at_def nth_append window_append1 ATT_SIZE_def)
  show ?thesis
    by (rule that [of s2]) (use l r big neq ne in \<open>simp_all add: Let_def e\<close>)
qed

lemma att_get_loop_log:
  assumes "opened s fd p pos c" "att_log P c L" "i \<le> length L" "k + i \<le> length arr"
  shows "\<exists>s' pos'. att_get_loop P fd i k arr s = Some (k + i, overwrite k (rev (take i L)) arr, s')
    \<and> opened s' fd p pos' c \<and> content s' = content s"
  using assms
proof (induction i arbitrary: k arr s pos)
  case 0
  then show ?case by (auto simp: overwrite_def)
next
  case (Suc i)
  obtain s2 where step: "att_get_loop P fd (Suc i) k arr s
      = (if k < length arr then att_get_loop P fd i (Suc k) (arr[k := L ! i]) s2 else None)"
    "opened s2 fd p (ATT_HEADER + ATT_SIZE * i + ATT_SIZE) c" "content s2 = content s"
    using att_get_step [OF Suc.prems(1-3)] .
  have k: "k < length arr" using Suc.prems(4) by simp
  obtain s' pos' where IH: "att_get_loop P fd i (Suc k) (arr[k := L ! i]) s2
      = Some (Suc k + i, overwrite (Suc k) (rev (take i L)) (arr[k := L ! i]), s')"
    "opened s' fd p pos' c" "content s' = content s2"
    using Suc.IH [OF step(2) Suc.prems(2), of "Suc k" "arr[k := L ! i]"] Suc.prems(3,4) by auto
  have "overwrite (Suc k) (rev (take i L)) (arr[k := L ! i]) = overwrite k (rev (take (Suc i) L)) arr"
    using Suc.prems(3,4) k
    by (simp add: overwrite_def take_Suc_conv_app_nth min_def)
  then show ?case using step IH k by auto
qed

lemma att_get_loop_overflow:
  assumes "opened s fd p pos c" "att_log P c L" "i \<le> length L" "k \<le> length arr" "length arr < k + i"
  shows "att_get_loop P fd i k arr s = None"
  using assms
proof (induction i arbitrary: k arr s pos)
  case 0
  then show ?case by simp
next
  case (Suc i)
  obtain s2 where step: "att_get_loop P fd (Suc i) k arr s
      = (if k < length arr then att_get_loop P fd i (Suc k) (arr[k := L ! i]) s2 else None)"
    "opened s2 fd p (ATT_HEADER + ATT_SIZE * i + ATT_SIZE) c"
    using att_get_step [OF Suc.prems(1-3)] by metis
  show ?case
    using step(1) Suc.IH [OF step(2) Suc.prems(2), of "Suc k" "arr[k := L ! i]"] Suc.prems(3-5) by simp
qed

text \<open>\<open>att_record_get\<close> up to its loop.\<close>

lemma att_record_get_to_loop:
  assumes "idle s" "content s save_io_bin = Some c" "att_log P c L"
  obtains fd s3 where "att_record_get P h0 arr lenth s
      = (case att_get_loop P fd (min (unat lenth) (length L)) 0 arr s3 of
           None \<Rightarrow> None | Some (cnt, arr', s4) \<Rightarrow> Some (0, arr', Some (of_nat cnt), snd (p_close P fd s4)))"
    "opened s3 fd save_io_bin ATT_HEADER c" "content s3 = content s"
proof -
  obtain s1 where st: "p_stat P save_io_bin s = (0, of_nat (length c), s1)" "idle s1" "content s1 = content s"
    using statE [OF assms(1) fpath_save_io assms(2)] .
  obtain fd s2 where o: "p_open P save_io_bin db_flags s1 = (fd, s2)" "\<not> fd < 0"
    "opened s2 fd save_io_bin 0 c" "content s2 = content s1"
    using open_logE [OF st(2)] assms(2) st(3) by auto
  obtain s3 where g: "fd_record_header_get P fd h0 s2 = (0, log_header P (length L), s3)"
    "opened s3 fd save_io_bin ATT_HEADER c" "content s3 = content s2"
    using header_get_log [OF o(3) assms(3)] .
  have n: "length L < 4294967296"
    using log_bound [OF assms(3)] openedD [OF o(3)] cap_bound by linarith
  define m where "m = (if ucast lenth \<ge> total (log_header P (length L))
      then ucast (total (log_header P (length L))) else lenth)"
  have m: "unat m = min (unat lenth) (length L)"
  proof (cases "length L \<le> unat lenth")
    case True
    then have "unat (of_nat (length L) :: u8) = length L"
      using unat_u8_bound [of lenth] by (intro unat_of_nat_u8) linarith
    moreover have ucast: "(ucast (of_nat (length L) :: u32) :: u8) = of_nat (length L)"
      using n by (simp add: unsigned_of_nat take_bit_nat_eq_self)
    ultimately show ?thesis
      using True n by (simp add: m_def log_header_simps word_le_nat_alt unat_of_nat_u32 unat_ucast_u8_u32
          ucast)
  next
    case False
    then show ?thesis
      using n by (simp add: m_def log_header_simps word_le_nat_alt unat_of_nat_u32 unat_ucast_u8_u32)
  qed
  show ?thesis
  proof (rule that [OF _ g(2)])
    show "att_record_get P h0 arr lenth s = (case att_get_loop P fd (min (unat lenth) (length L)) 0 arr s3 of
           None \<Rightarrow> None | Some (cnt, arr', s4) \<Rightarrow> Some (0, arr', Some (of_nat cnt), snd (p_close P fd s4)))"
      using st(1) o(1,2) g(1) m by (simp add: att_record_get_def Let_def flip: m_def)
  qed (simp add: g(3) o(4) st(3))
qed

lemma att_record_get_log:
  assumes "idle s" "content s save_io_bin = Some c" "att_log P c L"
    "min (unat lenth) (length L) \<le> length arr"
  obtains s' where "att_record_get P h0 arr lenth s
      = Some (0, overwrite 0 (rev (take (unat lenth) L)) arr, Some (of_nat (min (unat lenth) (length L))), s')"
    "idle s'" "content s' = content s"
proof -
  let ?m = "min (unat lenth) (length L)"
  obtain fd s3 where g: "att_record_get P h0 arr lenth s = (case att_get_loop P fd ?m 0 arr s3 of
           None \<Rightarrow> None | Some (cnt, arr', s4) \<Rightarrow> Some (0, arr', Some (of_nat cnt), snd (p_close P fd s4)))"
    "opened s3 fd save_io_bin ATT_HEADER c" "content s3 = content s"
    using att_record_get_to_loop [OF assms(1-3)] .
  obtain s4 pos where L: "att_get_loop P fd ?m 0 arr s3 = Some (?m, overwrite 0 (rev (take ?m L)) arr, s4)"
    "opened s4 fd save_io_bin pos c" "content s4 = content s3"
    using att_get_loop_log [OF g(2) assms(3) min.cobounded2, where k = 0 and arr = arr] assms(4)
    unfolding add_0 by blast
  obtain s5 where cl: "p_close P fd s4 = (0, s5)" "idle s5" "content s5 = content s4"
    using closeE [OF L(2)] .
  have tk: "take ?m L = take (unat lenth) L" by (simp add: min_def)
  have e: "att_record_get P h0 arr lenth s = Some (0, overwrite 0 (rev (take (unat lenth) L)) arr, Some (of_nat ?m), s5)"
    unfolding g(1) L(1) tk by (simp add: cl(1))
  have co: "content s5 = content s" using cl(3) L(3) g(3) by simp
  show ?thesis by (rule that [OF e cl(2) co])
qed

lemma att_record_get_overflow:
  assumes "idle s" "content s save_io_bin = Some c" "att_log P c L"
    "length arr < min (unat lenth) (length L)"
  shows "att_record_get P h0 arr lenth s = None"
proof -
  obtain fd s3 where g: "att_record_get P h0 arr lenth s
      = (case att_get_loop P fd (min (unat lenth) (length L)) 0 arr s3 of
           None \<Rightarrow> None | Some (cnt, arr', s4) \<Rightarrow> Some (0, arr', Some (of_nat cnt), snd (p_close P fd s4)))"
    "opened s3 fd save_io_bin ATT_HEADER c" "content s3 = content s"
    using att_record_get_to_loop [OF assms(1-3)] .
  have "att_get_loop P fd (min (unat lenth) (length L)) 0 arr s3 = None"
    by (rule att_get_loop_overflow [OF g(2) assms(3)]) (use assms(4) in simp_all)
  then show ?thesis unfolding g(1) by simp
qed

text \<open>Reading the header through \<open>record_header_get_set\<close>.\<close>

lemma record_header_get_log:
  assumes "idle s" "content s save_io_bin = Some c" "att_log P c L"
  obtains s' where "record_header_get_set P h 0 s = (0, log_header P (length L), s')" "idle s'" "content s' = content s"
proof -
  have len: "0 + ATT_HEADER \<le> length c" using assms(3) by (simp add: att_log_def)
  obtain fd s1 where o: "p_open P save_io_bin db_flags s = (fd, s1)" "\<not> fd < 0"
    "opened s1 fd save_io_bin 0 c" "content s1 = content s"
    using open_logE [OF assms(1,2)] .
  obtain s2 where l: "p_lseek P fd 0 SEEK_SET s1 = (0, s2)" "opened s2 fd save_io_bin 0 c" "content s2 = content s1"
    using lseek_intE [OF o(3), of 0 0] by auto
  obtain s3 where r: "p_read P fd (of_nat ATT_HEADER) s2 = (int ATT_HEADER, window 0 ATT_HEADER c, s3)"
    "opened s3 fd save_io_bin (0 + ATT_HEADER) c" "content s3 = content s2"
    using read_exactE [OF l(2) len unat_att_sizes(1)] .
  obtain s4 where cl: "p_close P fd s3 = (0, s4)" "idle s4" "content s4 = content s3"
    using closeE [OF r(2)] .
  have w: "window 0 ATT_HEADER c = att_header_bytes (log_header P (length L))"
    using assms(3) by (simp add: att_log_def)
  have a: "att_header_of (att_header_bytes k @ drop (length (att_header_bytes k)) x) = k"
    if "length x = ATT_HEADER" for k x
    using that att_header_roundtrip [of k] by simp
  show ?thesis
  proof (rule that [OF _ cl(2)])
    show "record_header_get_set P h 0 s = (0, log_header P (length L), s4)"
      using o(1,2) l(1) r(1) cl(1) log_header_simps(2) [of P "length L"]
      by (simp add: record_header_get_set_def Let_def w a att_header_roundtrip)
  qed (simp add: cl(3) r(3) l(3) o(4))
qed

definition header_valid :: "bytes \<Rightarrow> bool" where
  "header_valid c = (ATT_HEADER \<le> length c \<and> hcrc (att_header_of c) = header_crc P (att_header_of c))"

lemma att_header_of_window: "ATT_HEADER \<le> length c \<Longrightarrow> att_header_of (window 0 ATT_HEADER c) = att_header_of c"
  by (simp add: att_header_of_def u32_at_window0 ATT_HEADER_def)

lemma log_header_valid: "att_log P c L \<Longrightarrow> header_valid c \<and> att_header_of c = log_header P (length L)"
  using att_header_of_window [of c] att_header_roundtrip
  by (simp add: header_valid_def att_log_def log_header_simps) (metis log_header_simps(2))

lemma att_database_init_ok:
  assumes "idle s" "content s save_io_bin = Some c" "ATT_HEADER \<le> length c"
  obtains s' c' h' where "att_database_init P h s = (0, h', s')" "idle s'"
    "content s' = (content s)(save_io_bin \<mapsto> c')"
    "header_valid c \<Longrightarrow> c' = c \<and> h' = att_header_of c"
    "\<not> header_valid c \<Longrightarrow> att_log P c' [] \<and> h' = log_header P 0"
proof -
  obtain fd s1 where o: "p_open P save_io_bin db_flags s = (fd, s1)" "\<not> fd < 0"
    "opened s1 fd save_io_bin 0 c" "content s1 = content s"
    using open_logE [OF assms(1,2)] .
  obtain s2 where l: "p_lseek P fd 0 SEEK_SET s1 = (0, s2)" "opened s2 fd save_io_bin 0 c"
    "content s2 = content s1"
    using lseek_intE [OF o(3), of 0 0] by auto
  obtain s3 where r: "p_read P fd (of_nat ATT_HEADER) s2 = (int ATT_HEADER, window 0 ATT_HEADER c, s3)"
    "opened s3 fd save_io_bin ATT_HEADER c" "content s3 = content s2"
    using read_exactE [OF l(2) _ unat_att_sizes(1)] assms(3) by auto
  let ?h = "att_header_of c"
  have h1: "att_header_of (window 0 ATT_HEADER c @ drop (length (window 0 ATT_HEADER c)) x) = ?h" if "length x = ATT_HEADER" for x
    using that assms(3) att_header_of_window by simp
  show ?thesis
  proof (cases "header_valid c")
    case True
    obtain s4 where cl: "p_close P fd s3 = (0, s4)" "idle s4" "content s4 = content s3"
      using closeE [OF r(2)] .
    have "att_database_init P h s = (0, ?h, s4)"
      using o(1,2) l(1) r(1) cl(1) True h1 [OF length_att_header_bytes]
      by (simp add: att_database_init_def Let_def header_valid_def)
    then show ?thesis
      using True assms(2) by (intro that [of ?h s4 c, OF _ cl(2)])
        (simp_all add: cl(3) r(3) l(3) o(4) fun_upd_idem)
  next
    case False
    obtain s4 where l2: "p_lseek P fd 0 SEEK_SET s3 = (0, s4)" "opened s4 fd save_io_bin 0 c"
      "content s4 = content s3"
      using lseek_intE [OF r(2), of 0 0] by auto
    have h3: "?h\<lparr>total := 0, hcrc := header_crc P (?h\<lparr>total := 0\<rparr>)\<rparr> = log_header P 0"
      using set_header [of "?h\<lparr>total := 0\<rparr>" 0] by simp
    let ?b = "att_header_bytes (log_header P 0)"
    have "0 + length ?b \<le> cap" using openedD [OF o(3)] assms(3) by simp
    then obtain s5 where w: "p_write P fd ?b s4 = (int ATT_HEADER, s5)"
      "opened s5 fd save_io_bin ATT_HEADER (overwrite 0 ?b c)"
      "content s5 = (content s4)(save_io_bin \<mapsto> overwrite 0 ?b c)"
      using writeE [OF l2(2), of ?b] by auto
    obtain s6 where cl: "p_close P fd s5 = (0, s6)" "idle s6" "content s6 = content s5"
      using closeE [OF w(2)] .
    have "att_database_init P h s = (0, log_header P 0, s6)"
      using o(1,2) l(1) r(1) l2(1) w(1) cl(1) False h1 [OF length_att_header_bytes] assms(3)
      by (simp add: att_database_init_def Let_def header_valid_def h3)
    moreover have "att_log P (overwrite 0 ?b c) []"
      using assms(3) by (simp add: att_log_def)
    ultimately show ?thesis
      using False by (intro that [of "log_header P 0" s6 "overwrite 0 ?b c", OF _ cl(2)])
        (simp_all add: cl(3) w(3) l2(3) r(3) l(3) o(4))
  qed
qed

end

end
