(* ===== verification/Dfs.thy ===== *)
theory Dfs imports Platform begin

text \<open>The virtual file system layer of RT-Thread (components/dfs): the descriptor table and the
  path normaliser of dfs.c, the mount lookup of dfs_fs.c, the file operations of dfs_file.c and the
  POSIX-like calls of dfs_posix.c, over a mounted driver given by its operation table.  The
  configuration is the one of the application (rtconfig.h): no standard streams, no working
  directory, four descriptors, two mount points.  Calls run to completion (the dfs lock makes the
  table updates atomic), so a call is a function on the state.  \<open>dfs_crash\<close> is set where the
  C code dereferences a null pointer or reads outside a buffer; \<open>heap_ok\<close> says which of the
  successive calls of the kernel allocator succeed.\<close>

definition DFS_FD_MAX :: nat where "DFS_FD_MAX = 4"
definition DFS_FD_MAGIC :: u16 where "DFS_FD_MAGIC = 0xfdfd"
definition DFS_F_OPEN :: u32 where "DFS_F_OPEN = 0x01000000"
definition DFS_F_DIRECTORY :: u32 where "DFS_F_DIRECTORY = 0x02000000"
definition DFS_F_EOF :: u32 where "DFS_F_EOF = 0x04000000"
definition FT_REGULAR :: u16 where "FT_REGULAR = 0"
definition FT_DIRECTORY :: u16 where "FT_DIRECTORY = 2"
definition ENOENT :: int where "ENOENT = 2"
definition EIO :: int where "EIO = 5"
definition EBADF :: int where "EBADF = 9"
definition ENOMEM :: int where "ENOMEM = 12"
definition EBUSY :: int where "EBUSY = 16"
definition EEXIST :: int where "EEXIST = 17"
definition EXDEV :: int where "EXDEV = 18"
definition EINVAL :: int where "EINVAL = 22"
definition ENOSPC :: int where "ENOSPC = 28"
definition ENOSYS :: int where "ENOSYS = 38"

lemmas errnos = ENOENT_def EIO_def EBADF_def ENOMEM_def EBUSY_def EEXIST_def EXDEV_def EINVAL_def
  ENOSPC_def ENOSYS_def

subsection \<open>Data\<close>

record 'h dfs_fd =
  fd_magic :: u16
  fd_type :: u16
  fd_path :: "string option"
  ref_count :: int
  fd_fs :: "nat option"
  fd_flags :: u32
  fd_size :: u32
  fd_pos :: u32
  fd_data :: "'h option"

record ('v, 'h) fs_ops =
  ops_fullpath :: bool
  ops_open :: "('h dfs_fd \<Rightarrow> 'v \<Rightarrow> int \<times> 'h dfs_fd \<times> 'v) option"
  ops_close :: "('h dfs_fd \<Rightarrow> 'v \<Rightarrow> int \<times> 'h dfs_fd \<times> 'v) option"
  ops_read :: "('h dfs_fd \<Rightarrow> u32 \<Rightarrow> 'v \<Rightarrow> int \<times> bytes \<times> 'h dfs_fd \<times> 'v) option"
  ops_write :: "('h dfs_fd \<Rightarrow> bytes \<Rightarrow> 'v \<Rightarrow> int \<times> 'h dfs_fd \<times> 'v) option"
  ops_flush :: "('h dfs_fd \<Rightarrow> 'v \<Rightarrow> int \<times> 'h dfs_fd \<times> 'v) option"
  ops_lseek :: "('h dfs_fd \<Rightarrow> int \<Rightarrow> 'v \<Rightarrow> int \<times> 'h dfs_fd \<times> 'v) option"
  ops_unlink :: "(string \<Rightarrow> 'v \<Rightarrow> int \<times> 'v) option"
  ops_stat :: "(string \<Rightarrow> 'v \<Rightarrow> int \<times> u32 \<times> 'v) option"
  ops_rename :: "(string \<Rightarrow> string \<Rightarrow> 'v \<Rightarrow> int \<times> 'v) option"

record ('v, 'h) dfs_filesystem =
  fs_path :: "string option"
  fs_ops :: "('v, 'h) fs_ops option"
  fs_data :: 'v

record ('v, 'h) dfs =
  filesystem_table :: "('v, 'h) dfs_filesystem list"
  fd_table :: "'h dfs_fd list"
  dfs_errno :: int
  heap_ok :: "nat \<Rightarrow> bool"
  heap_calls :: nat
  dfs_crash :: bool

definition fd_zero :: "'h dfs_fd" where
  "fd_zero = \<lparr>fd_magic = 0, fd_type = 0, fd_path = None, ref_count = 0, fd_fs = None, fd_flags = 0,
     fd_size = 0, fd_pos = 0, fd_data = None\<rparr>"

definition fd_upd :: "nat \<Rightarrow> ('h dfs_fd \<Rightarrow> 'h dfs_fd) \<Rightarrow> ('v, 'h) dfs \<Rightarrow> ('v, 'h) dfs" where
  "fd_upd d f s = s\<lparr>fd_table := (fd_table s)[d := f (fd_table s ! d)]\<rparr>"

definition vol_upd :: "nat \<Rightarrow> 'v \<Rightarrow> ('v, 'h) dfs \<Rightarrow> ('v, 'h) dfs" where
  "vol_upd m v s = s\<lparr>filesystem_table
     := (filesystem_table s)[m := (filesystem_table s ! m)\<lparr>fs_data := v\<rparr>]\<rparr>"

definition set_errno :: "int \<Rightarrow> ('v, 'h) dfs \<Rightarrow> ('v, 'h) dfs" where
  "set_errno e s = s\<lparr>dfs_errno := e\<rparr>"

definition crash :: "('v, 'h) dfs \<Rightarrow> ('v, 'h) dfs" where
  "crash s = s\<lparr>dfs_crash := True\<rparr>"

definition rt_malloc :: "('v, 'h) dfs \<Rightarrow> bool \<times> ('v, 'h) dfs" where
  "rt_malloc s = (heap_ok s (heap_calls s), s\<lparr>heap_calls := Suc (heap_calls s)\<rparr>)"

definition rt_strdup :: "string \<Rightarrow> ('v, 'h) dfs \<Rightarrow> string option \<times> ('v, 'h) dfs" where
  "rt_strdup p s = (case rt_malloc s of (ok, s') \<Rightarrow> (if ok then Some p else None, s'))"

subsection \<open>dfs.c: descriptors\<close>

definition fd_new :: "('v, 'h) dfs \<Rightarrow> int \<times> ('v, 'h) dfs" where
  "fd_new s = (let idx = length (takeWhile (\<lambda>d. ref_count d > 0) (take DFS_FD_MAX (fd_table s))) in
     if idx = DFS_FD_MAX then (-1, s)
     else (int idx, fd_upd idx (\<lambda>d. d\<lparr>ref_count := 1, fd_magic := DFS_FD_MAGIC\<rparr>) s))"

definition fd_get :: "int \<Rightarrow> ('v, 'h) dfs \<Rightarrow> nat option \<times> ('v, 'h) dfs" where
  "fd_get fd s =
     (if fd < 0 \<or> fd \<ge> int DFS_FD_MAX then (None, s)
      else if fd_magic (fd_table s ! nat fd) \<noteq> DFS_FD_MAGIC then (None, s)
      else (Some (nat fd), fd_upd (nat fd) (\<lambda>d. d\<lparr>ref_count := ref_count d + 1\<rparr>) s))"

definition fd_put :: "nat \<Rightarrow> ('v, 'h) dfs \<Rightarrow> ('v, 'h) dfs" where
  "fd_put d s = fd_upd d (\<lambda>f. let f' = f\<lparr>ref_count := ref_count f - 1\<rparr> in
     if ref_count f' = 0 then fd_zero else f') s"

subsection \<open>dfs.c: paths\<close>

definition dfs_subdir :: "string \<Rightarrow> string \<Rightarrow> string option" where
  "dfs_subdir directory filename =
     (if length directory = length filename then None
      else let n = length directory; dir = drop n filename in
        if (dir = [] \<or> hd dir \<noteq> CHR ''/'') \<and> n \<noteq> 0 then Some (drop (n - 1) filename)
        else Some dir)"

datatype npath = NPath string | NNull | NUnderflow

definition skip_slashes :: "string \<Rightarrow> string" where
  "skip_slashes src = dropWhile (\<lambda>c. c = CHR ''/'') src"

definition up_one :: "string \<Rightarrow> string option" where
  "up_one rdst = (case rdst of [] \<Rightarrow> None
     | _ # r \<Rightarrow> Some (dropWhile (\<lambda>c. c \<noteq> CHR ''/'') r))"

text \<open>The loop of \<open>dfs_normalize_path\<close>: \<open>src\<close> is what is left of the C string, \<open>rdst\<close> what
  has been written, last character first.\<close>

function norm_loop :: "string \<Rightarrow> string \<Rightarrow> string option" where
  "norm_loop src rdst =
     (if src = ''.'' then Some rdst
      else if take 2 src = ''./'' then norm_loop (skip_slashes (drop 2 src)) rdst
      else if src = ''..'' then
        (case up_one rdst of None \<Rightarrow> None | Some r \<Rightarrow> norm_loop [] r)
      else if take 3 src = ''../'' then
        (case up_one rdst of None \<Rightarrow> None | Some r \<Rightarrow> norm_loop (skip_slashes (drop 3 src)) r)
      else let name = takeWhile (\<lambda>c. c \<noteq> CHR ''/'') src;
               rest = dropWhile (\<lambda>c. c \<noteq> CHR ''/'') src;
               rdst' = rev name @ rdst in
        if rest = [] then Some rdst'
        else norm_loop (skip_slashes rest) (CHR ''/'' # rdst'))"
  by pat_completeness auto

lemma skip_slashes_length: "length (skip_slashes xs) \<le> length xs"
  by (simp add: skip_slashes_def length_dropWhile_le)

lemma skip_slashes_rest:
  assumes "dropWhile (\<lambda>c. c \<noteq> CHR ''/'') src \<noteq> []"
  shows "length (skip_slashes (dropWhile (\<lambda>c. c \<noteq> CHR ''/'') src)) < length src"
proof -
  obtain c r where r: "dropWhile (\<lambda>c. c \<noteq> CHR ''/'') src = c # r"
    using assms by (cases "dropWhile (\<lambda>c. c \<noteq> CHR ''/'') src") auto
  then have "c = CHR ''/''"
    using hd_dropWhile [OF assms] by simp
  then have "length (skip_slashes (c # r)) \<le> length r"
    by (simp add: skip_slashes_def length_dropWhile_le)
  moreover have "length (c # r) \<le> length src"
    using length_dropWhile_le [of "\<lambda>c. c \<noteq> CHR ''/''" src] by (simp add: r)
  ultimately show ?thesis by (simp add: r)
qed

termination norm_loop
proof (relation "measure (\<lambda>(src, rdst). length src)", goal_cases)
  case (2 src rdst)
  then have "src \<noteq> []" by auto
  then show ?case
    using skip_slashes_length [of "drop 2 src"] by (simp add: le_less_trans)
next
  case (4 src rdst r)
  then have "src \<noteq> []" by auto
  then show ?case
    using skip_slashes_length [of "drop 3 src"] by (simp add: le_less_trans)
next
  case (5 src rdst name rest rdst')
  then show ?case using skip_slashes_rest [of src] by simp
qed auto

declare norm_loop.simps [simp del]

definition norm_finish :: "string \<Rightarrow> npath" where
  "norm_finish rdst = (case rdst of [] \<Rightarrow> NUnderflow
     | c # r \<Rightarrow> if r \<noteq> [] \<and> c = CHR ''/'' then NPath (rev r) else NPath (rev rdst))"

definition dfs_normalize_path :: "string option \<Rightarrow> string \<Rightarrow> ('v, 'h) dfs \<Rightarrow> npath \<times> ('v, 'h) dfs"
  where
  "dfs_normalize_path directory filename s =
     (let absolute = (filename \<noteq> [] \<and> hd filename = CHR ''/'') in
      if directory = None \<and> \<not> absolute then (NNull, s)
      else let full = (if absolute then filename else the directory @ ''/'' @ filename) in
        case rt_malloc s of (ok, s1) \<Rightarrow>
          if \<not> ok then (NNull, s1)
          else (case norm_loop full [] of None \<Rightarrow> (NNull, s1)
                | Some rdst \<Rightarrow> (case norm_finish rdst of
                      NUnderflow \<Rightarrow> (NUnderflow, crash s1) | r \<Rightarrow> (r, s1))))"

subsection \<open>dfs_fs.c: the mount lookup\<close>

definition DFS_FILESYSTEMS_MAX :: nat where "DFS_FILESYSTEMS_MAX = 2"

definition lookup_step :: "string \<Rightarrow> ('v, 'h) dfs \<Rightarrow> nat option \<times> nat \<Rightarrow> nat \<Rightarrow> nat option \<times> nat" where
  "lookup_step path s acc i = (case acc of (fs, prefixlen) \<Rightarrow>
     let it = filesystem_table s ! i in
     case fs_path it of None \<Rightarrow> (fs, prefixlen)
     | Some mp \<Rightarrow>
       if fs_ops it = None then (fs, prefixlen)
       else let n = length mp in
         if n < prefixlen \<or> take n path \<noteq> mp then (fs, prefixlen)
         else if n > 1 \<and> length path > n \<and> path ! n \<noteq> CHR ''/'' then (fs, prefixlen)
         else (Some i, n))"

definition dfs_filesystem_lookup :: "string \<Rightarrow> ('v, 'h) dfs \<Rightarrow> nat option" where
  "dfs_filesystem_lookup path s = fst (foldl (lookup_step path s) (None, 0) [0..<DFS_FILESYSTEMS_MAX])"

definition mount_of :: "nat \<Rightarrow> ('v, 'h) dfs \<Rightarrow> string" where
  "mount_of m s = (case fs_path (filesystem_table s ! m) of None \<Rightarrow> [] | Some p \<Rightarrow> p)"

definition ops_of :: "nat \<Rightarrow> ('v, 'h) dfs \<Rightarrow> ('v, 'h) fs_ops" where
  "ops_of m s = the (fs_ops (filesystem_table s ! m))"

definition vol_of :: "nat \<Rightarrow> ('v, 'h) dfs \<Rightarrow> 'v" where
  "vol_of m s = fs_data (filesystem_table s ! m)"

subsection \<open>dfs.c: is a file open\<close>

definition fd_is_open :: "string \<Rightarrow> ('v, 'h) dfs \<Rightarrow> int \<times> ('v, 'h) dfs" where
  "fd_is_open pathname s = (case dfs_normalize_path None pathname s of
     (NPath full, s1) \<Rightarrow>
       (case dfs_filesystem_lookup full s1 of None \<Rightarrow> (-1, s1)
        | Some m \<Rightarrow>
          let mp = mount_of m s1; rel = (if mp = ''/'' then full else drop (length mp) full) in
          if list_ex (\<lambda>d. fd_fs d = Some m \<and> fd_path d = Some rel) (take DFS_FD_MAX (fd_table s1))
          then (0, s1) else (-1, s1))
   | (_, s1) \<Rightarrow> (-1, s1))"

subsection \<open>dfs_file.c\<close>

text \<open>The path handed to the driver: the whole path when the driver asks for it, else what
  \<open>dfs_subdir\<close> leaves below the mount point.\<close>

definition driver_path :: "nat \<Rightarrow> string \<Rightarrow> ('v, 'h) dfs \<Rightarrow> string option" where
  "driver_path m full s = (if ops_fullpath (ops_of m s) then Some full
     else dfs_subdir (mount_of m s) full)"

text \<open>Second half of \<open>dfs_file_open\<close>: the driver's open routine and the flags.\<close>

definition dfs_file_open_drv :: "nat \<Rightarrow> nat \<Rightarrow> u32 \<Rightarrow> ('v, 'h) dfs \<Rightarrow> int \<times> ('v, 'h) dfs" where
  "dfs_file_open_drv d m flags s =
     (case ops_open (ops_of m s) of
        None \<Rightarrow> (- ENOSYS, fd_upd d (\<lambda>f. f\<lparr>fd_path := None\<rparr>) s)
      | Some op \<Rightarrow> (case op (fd_table s ! d) (vol_of m s) of (r, f', v') \<Rightarrow>
          let s2 = vol_upd m v' (fd_upd d (\<lambda>_. f') s) in
          if r < 0 then (r, fd_upd d (\<lambda>f. f\<lparr>fd_path := None\<rparr>) s2)
          else (0, fd_upd d (\<lambda>f. let f1 = f\<lparr>fd_flags := fd_flags f OR DFS_F_OPEN\<rparr> in
                  if flags AND O_DIRECTORY \<noteq> 0
                  then f1\<lparr>fd_type := FT_DIRECTORY, fd_flags := fd_flags f1 OR DFS_F_DIRECTORY\<rparr>
                  else f1) s2)))"

definition dfs_file_open :: "nat \<Rightarrow> string \<Rightarrow> u32 \<Rightarrow> ('v, 'h) dfs \<Rightarrow> int \<times> ('v, 'h) dfs" where
  "dfs_file_open d path flags s = (case dfs_normalize_path None path s of
     (NPath full, s1) \<Rightarrow>
       (case dfs_filesystem_lookup full s1 of None \<Rightarrow> (- ENOENT, s1)
        | Some m \<Rightarrow>
          let s2 = fd_upd d (\<lambda>f. f\<lparr>fd_fs := Some m, fd_type := FT_REGULAR, fd_flags := flags,
                fd_size := 0, fd_pos := 0\<rparr>) s1 in
          (if ops_fullpath (ops_of m s2)
           then dfs_file_open_drv d m flags (fd_upd d (\<lambda>f. f\<lparr>fd_path := Some full\<rparr>) s2)
           else (case rt_strdup (case dfs_subdir (mount_of m s2) full of None \<Rightarrow> ''/'' | Some q \<Rightarrow> q) s2
                 of (pp, s3) \<Rightarrow>
                   dfs_file_open_drv d m flags (fd_upd d (\<lambda>f. f\<lparr>fd_path := pp\<rparr>) s3))))
   | (_, s1) \<Rightarrow> (-1, s1))"

text \<open>Operations that hand the descriptor to the driver; \<open>None\<close> for the operation is the null
  entry of the table.  A descriptor without file system is dereferenced by the C code.\<close>

definition dfs_file_close :: "nat \<Rightarrow> ('v, 'h) dfs \<Rightarrow> int \<times> ('v, 'h) dfs" where
  "dfs_file_close d s = (case fd_fs (fd_table s ! d) of
      None \<Rightarrow> (0, crash s)
    | Some m \<Rightarrow>
      let (r, s1) = (case ops_close (ops_of m s) of None \<Rightarrow> (0, s)
          | Some op \<Rightarrow> (case op (fd_table s ! d) (vol_of m s) of (r, f', v') \<Rightarrow>
              (r, vol_upd m v' (fd_upd d (\<lambda>_. f') s)))) in
      if r < 0 then (r, s1) else (r, fd_upd d (\<lambda>f. f\<lparr>fd_path := None\<rparr>) s1))"

definition dfs_file_read :: "nat \<Rightarrow> u32 \<Rightarrow> ('v, 'h) dfs \<Rightarrow> int \<times> bytes \<times> ('v, 'h) dfs" where
  "dfs_file_read d n s = (case fd_fs (fd_table s ! d) of
      None \<Rightarrow> (0, [], crash s)
    | Some m \<Rightarrow> (case ops_read (ops_of m s) of
        None \<Rightarrow> (- ENOSYS, [], s)
      | Some op \<Rightarrow> (case op (fd_table s ! d) n (vol_of m s) of (r, bs, f', v') \<Rightarrow>
          let s1 = vol_upd m v' (fd_upd d (\<lambda>_. f') s) in
          (r, bs, if r < 0 then fd_upd d (\<lambda>f. f\<lparr>fd_flags := fd_flags f OR DFS_F_EOF\<rparr>) s1 else s1))))"

definition dfs_file_write :: "nat \<Rightarrow> bytes \<Rightarrow> ('v, 'h) dfs \<Rightarrow> int \<times> ('v, 'h) dfs" where
  "dfs_file_write d bs s = (case fd_fs (fd_table s ! d) of
      None \<Rightarrow> (0, crash s)
    | Some m \<Rightarrow> (case ops_write (ops_of m s) of
        None \<Rightarrow> (- ENOSYS, s)
      | Some op \<Rightarrow> (case op (fd_table s ! d) bs (vol_of m s) of (r, f', v') \<Rightarrow>
          (r, vol_upd m v' (fd_upd d (\<lambda>_. f') s)))))"

definition dfs_file_flush :: "nat \<Rightarrow> ('v, 'h) dfs \<Rightarrow> int \<times> ('v, 'h) dfs" where
  "dfs_file_flush d s = (case fd_fs (fd_table s ! d) of
      None \<Rightarrow> (0, crash s)
    | Some m \<Rightarrow> (case ops_flush (ops_of m s) of
        None \<Rightarrow> (- ENOSYS, s)
      | Some op \<Rightarrow> (case op (fd_table s ! d) (vol_of m s) of (r, f', v') \<Rightarrow>
          (r, vol_upd m v' (fd_upd d (\<lambda>_. f') s)))))"

definition dfs_file_lseek :: "nat \<Rightarrow> int \<Rightarrow> ('v, 'h) dfs \<Rightarrow> int \<times> ('v, 'h) dfs" where
  "dfs_file_lseek d ofs s = (case fd_fs (fd_table s ! d) of
      None \<Rightarrow> (- EINVAL, s)
    | Some m \<Rightarrow> (case ops_lseek (ops_of m s) of
        None \<Rightarrow> (- ENOSYS, s)
      | Some op \<Rightarrow> (case op (fd_table s ! d) ofs (vol_of m s) of (r, f', v') \<Rightarrow>
          let s1 = vol_upd m v' (fd_upd d (\<lambda>_. f') s) in
          (r, if 0 \<le> r then fd_upd d (\<lambda>f. f\<lparr>fd_pos := word_of_int r\<rparr>) s1 else s1))))"

definition dfs_file_unlink :: "string \<Rightarrow> ('v, 'h) dfs \<Rightarrow> int \<times> ('v, 'h) dfs" where
  "dfs_file_unlink path s = (case dfs_normalize_path None path s of
     (NPath full, s1) \<Rightarrow>
       (case dfs_filesystem_lookup full s1 of None \<Rightarrow> (- ENOENT, s1)
        | Some m \<Rightarrow> (case fd_is_open full s1 of (busy, s2) \<Rightarrow>
            if busy = 0 then (- EBUSY, s2)
            else (case ops_unlink (ops_of m s2) of None \<Rightarrow> (- ENOSYS, s2)
              | Some op \<Rightarrow>
                (case op (case driver_path m full s2 of None \<Rightarrow> ''/'' | Some q \<Rightarrow> q) (vol_of m s2)
                 of (r, v') \<Rightarrow> (r, vol_upd m v' s2)))))
   | (_, s1) \<Rightarrow> (- EINVAL, s1))"

text \<open>\<open>dfs_file_stat\<close> returns the result and \<open>st_size\<close>; the root directory has size 0.\<close>

definition dfs_file_stat :: "string \<Rightarrow> ('v, 'h) dfs \<Rightarrow> int \<times> u32 \<times> ('v, 'h) dfs" where
  "dfs_file_stat path s = (case dfs_normalize_path None path s of
     (NPath full, s1) \<Rightarrow>
       (case dfs_filesystem_lookup full s1 of None \<Rightarrow> (- ENOENT, 0, s1)
        | Some m \<Rightarrow>
          if full = ''/'' \<or> dfs_subdir (mount_of m s1) full = None then (0, 0, s1)
          else (case ops_stat (ops_of m s1) of None \<Rightarrow> (- ENOSYS, 0, s1)
            | Some op \<Rightarrow> (case op (the (driver_path m full s1)) (vol_of m s1) of (r, sz, v') \<Rightarrow>
                (r, sz, vol_upd m v' s1))))
   | (_, s1) \<Rightarrow> (-1, 0, s1))"

definition dfs_file_rename :: "string \<Rightarrow> string \<Rightarrow> ('v, 'h) dfs \<Rightarrow> int \<times> ('v, 'h) dfs" where
  "dfs_file_rename old new s = (case dfs_normalize_path None old s of
     (NPath ofull, s1) \<Rightarrow> (case dfs_normalize_path None new s1 of
        (NPath nfull, s2) \<Rightarrow>
          (case (dfs_filesystem_lookup ofull s2, dfs_filesystem_lookup nfull s2) of
             (None, None) \<Rightarrow> (0, crash s2)
           | (Some m, Some m') \<Rightarrow>
               if m \<noteq> m' then (- EXDEV, s2)
               else (case ops_rename (ops_of m s2) of None \<Rightarrow> (- ENOSYS, s2)
                 | Some op \<Rightarrow> (case (driver_path m ofull s2, driver_path m nfull s2) of
                     (Some q, Some q') \<Rightarrow> (case op q q' (vol_of m s2) of (r, v') \<Rightarrow>
                        (r, vol_upd m v' s2))
                   | _ \<Rightarrow> (0, crash s2)))
           | _ \<Rightarrow> (- EXDEV, s2))
      | (_, s2) \<Rightarrow> (- ENOENT, s2))
   | (_, s1) \<Rightarrow> (- ENOENT, s1))"

subsection \<open>dfs_posix.c\<close>

definition dfs_open :: "string \<Rightarrow> u32 \<Rightarrow> ('v, 'h) dfs \<Rightarrow> int \<times> ('v, 'h) dfs" where
  "dfs_open path flags s = (case fd_new s of (fd, s1) \<Rightarrow>
     if fd < 0 then (-1, set_errno (- ENOMEM) s1)
     else (case fd_get fd s1 of
         (None, s2) \<Rightarrow> (-1, set_errno (- EINVAL) s2)
       | (Some d, s2) \<Rightarrow> (case dfs_file_open d path flags s2 of (r, s3) \<Rightarrow>
           if r < 0 then (-1, set_errno r (fd_put d (fd_put d s3)))
           else (fd, fd_put d s3))))"

definition dfs_close :: "int \<Rightarrow> ('v, 'h) dfs \<Rightarrow> int \<times> ('v, 'h) dfs" where
  "dfs_close fd s = (case fd_get fd s of
     (None, s1) \<Rightarrow> (-1, set_errno (- EBADF) s1)
   | (Some d, s1) \<Rightarrow> (case dfs_file_close d s1 of (r, s2) \<Rightarrow>
       let s3 = fd_put d s2 in
       if r < 0 then (-1, set_errno r s3) else (0, fd_put d s3)))"

definition dfs_read :: "int \<Rightarrow> u32 \<Rightarrow> ('v, 'h) dfs \<Rightarrow> int \<times> bytes \<times> ('v, 'h) dfs" where
  "dfs_read fd n s = (case fd_get fd s of
     (None, s1) \<Rightarrow> (-1, [], set_errno (- EBADF) s1)
   | (Some d, s1) \<Rightarrow> (case dfs_file_read d n s1 of (r, bs, s2) \<Rightarrow>
       let s3 = fd_put d s2 in
       if r < 0 then (-1, bs, set_errno r s3) else (r, bs, s3)))"

definition dfs_write :: "int \<Rightarrow> bytes \<Rightarrow> ('v, 'h) dfs \<Rightarrow> int \<times> ('v, 'h) dfs" where
  "dfs_write fd bs s = (case fd_get fd s of
     (None, s1) \<Rightarrow> (-1, set_errno (- EBADF) s1)
   | (Some d, s1) \<Rightarrow> (case dfs_file_write d bs s1 of (r, s2) \<Rightarrow>
       let s3 = fd_put d s2 in
       if r < 0 then (-1, set_errno r s3) else (r, s3)))"

definition dfs_lseek :: "int \<Rightarrow> int \<Rightarrow> int \<Rightarrow> ('v, 'h) dfs \<Rightarrow> int \<times> ('v, 'h) dfs" where
  "dfs_lseek fd offset whence s = (case fd_get fd s of
     (None, s1) \<Rightarrow> (-1, set_errno (- EBADF) s1)
   | (Some d, s1) \<Rightarrow>
       let base = (if whence = SEEK_SET then Some 0
                   else if whence = SEEK_CUR then Some (fd_pos (fd_table s1 ! d))
                   else if whence = SEEK_END then Some (fd_size (fd_table s1 ! d)) else None) in
       (case base of None \<Rightarrow> (-1, set_errno (- EINVAL) (fd_put d s1))
        | Some b \<Rightarrow>
          let ofs = sint (word_of_int offset + b :: u32) in
          if ofs < 0 then (-1, set_errno (- EINVAL) (fd_put d s1))
          else (case dfs_file_lseek d ofs s1 of (r, s2) \<Rightarrow>
            let s3 = fd_put d s2 in
            if r < 0 then (-1, set_errno r s3) else (ofs, s3))))"

definition dfs_rename :: "string \<Rightarrow> string \<Rightarrow> ('v, 'h) dfs \<Rightarrow> int \<times> ('v, 'h) dfs" where
  "dfs_rename old new s = (case dfs_file_rename old new s of (r, s1) \<Rightarrow>
     if r < 0 then (-1, set_errno r s1) else (0, s1))"

definition dfs_unlink :: "string \<Rightarrow> ('v, 'h) dfs \<Rightarrow> int \<times> ('v, 'h) dfs" where
  "dfs_unlink path s = (case dfs_file_unlink path s of (r, s1) \<Rightarrow>
     if r < 0 then (-1, set_errno r s1) else (0, s1))"

definition dfs_stat :: "string \<Rightarrow> ('v, 'h) dfs \<Rightarrow> int \<times> u32 \<times> ('v, 'h) dfs" where
  "dfs_stat path s = (case dfs_file_stat path s of (r, sz, s1) \<Rightarrow>
     if r < 0 then (-1, sz, set_errno r s1) else (r, sz, s1))"

definition dfs_fstat :: "int \<Rightarrow> ('v, 'h) dfs \<Rightarrow> int \<times> u32 \<times> ('v, 'h) dfs" where
  "dfs_fstat fd s = (case fd_get fd s of
     (None, s1) \<Rightarrow> (-1, 0, set_errno (- EBADF) s1)
   | (Some d, s1) \<Rightarrow> (0, fd_size (fd_table s1 ! d), fd_put d s1))"

definition dfs_fsync :: "int \<Rightarrow> ('v, 'h) dfs \<Rightarrow> int \<times> ('v, 'h) dfs" where
  "dfs_fsync fd s = (case fd_get fd s of
     (None, s1) \<Rightarrow> (-1, set_errno (- EBADF) s1)
   | (Some d, s1) \<Rightarrow> (case dfs_file_flush d s1 of (r, s2) \<Rightarrow> (r, fd_put d s2)))"

definition dfs_plat :: "u32 \<Rightarrow> (u32 \<Rightarrow> u32 \<Rightarrow> u32) \<Rightarrow> (('v, 'h) dfs) plat" where
  "dfs_plat rst feed = \<lparr>p_open = dfs_open, p_close = dfs_close, p_read = dfs_read,
     p_write = dfs_write, p_lseek = dfs_lseek, p_stat = dfs_stat, p_unlink = dfs_unlink,
     crc_reset = rst, crc_feed = feed\<rparr>"

end
