(* ===== verification/DfsFiles.thy ===== *)
theory DfsFiles imports Dfs begin

text \<open>The contract of a mounted driver as the virtual file system uses it (locale
  \<open>byte_driver\<close>), and the proof that the calls of dfs_posix.c over such a driver meet the contract
  the application relies on (\<open>sublocale\<close> of \<open>posix_files\<close>).\<close>

subsection \<open>One driver mounted at the root\<close>

text \<open>The state of the layer with the driver \<open>D\<close> mounted at the root, the second mount entry
  free, the first descriptor \<open>f\<close> and the other descriptors unused.\<close>

definition mstate :: "('v, 'h) fs_ops \<Rightarrow> ('v, 'h) dfs_filesystem \<Rightarrow> 'h dfs_fd \<Rightarrow> 'v \<Rightarrow> int \<Rightarrow> nat
    \<Rightarrow> ('v, 'h) dfs" where
  "mstate D emp f v e h = \<lparr>
     filesystem_table = [\<lparr>fs_path = Some ''/'', fs_ops = Some D, fs_data = v\<rparr>, emp\<lparr>fs_path := None\<rparr>],
     fd_table = [f, fd_zero, fd_zero, fd_zero], dfs_errno = e, heap_ok = (\<lambda>_. True),
     heap_calls = h, dfs_crash = False\<rparr>"

lemma fd_zero_simps [simp]:
  "fd_magic fd_zero = 0" "ref_count fd_zero = 0" "fd_fs fd_zero = None" "fd_path fd_zero = None"
  "fd_data fd_zero = None" "fd_size fd_zero = 0" "fd_pos fd_zero = 0"
  by (simp_all add: fd_zero_def)

lemma mstate_fd_upd [io_simps]: "fd_upd 0 g (mstate D emp f v e h) = mstate D emp (g f) v e h"
  by (simp add: mstate_def fd_upd_def)

lemma mstate_vol_upd [io_simps]: "vol_upd 0 v' (mstate D emp f v e h) = mstate D emp f v' e h"
  by (simp add: mstate_def vol_upd_def)

lemma mstate_errno [io_simps]: "set_errno e' (mstate D emp f v e h) = mstate D emp f v e' h"
  by (simp add: mstate_def set_errno_def)

lemma mstate_fd [io_simps]: "fd_table (mstate D emp f v e h) ! 0 = f"
  by (simp add: mstate_def)

lemma mstate_mount [io_simps]:
  "ops_of 0 (mstate D emp f v e h) = D" "vol_of 0 (mstate D emp f v e h) = v"
  "mount_of 0 (mstate D emp f v e h) = ''/''"
  by (simp_all add: mstate_def ops_of_def vol_of_def mount_of_def)

lemma mstate_malloc [io_simps]:
  "rt_malloc (mstate D emp f v e h) = (True, mstate D emp f v e (Suc h))"
  by (simp add: mstate_def rt_malloc_def)

lemma mstate_strdup [io_simps]:
  "rt_strdup q (mstate D emp f v e h) = (Some q, mstate D emp f v e (Suc h))"
  by (simp add: rt_strdup_def mstate_malloc)

lemma mstate_fd_put [io_simps]:
  "fd_put 0 (mstate D emp f v e h)
   = mstate D emp (if ref_count f = 1 then fd_zero else f\<lparr>ref_count := ref_count f - 1\<rparr>) v e h"
  by (simp add: fd_put_def mstate_fd_upd Let_def)

lemma mstate_fd_get [io_simps]:
  "fd_magic f = DFS_FD_MAGIC \<Longrightarrow> fd_get 0 (mstate D emp f v e h)
     = (Some 0, mstate D emp (f\<lparr>ref_count := ref_count f + 1\<rparr>) v e h)"
  by (simp add: fd_get_def mstate_fd mstate_fd_upd DFS_FD_MAX_def)

lemma mstate_fd_new [io_simps]:
  "fd_new (mstate D emp fd_zero v e h)
     = (0, mstate D emp (fd_zero\<lparr>ref_count := 1, fd_magic := DFS_FD_MAGIC\<rparr>) v e h)"
  by (simp add: fd_new_def mstate_def fd_upd_def DFS_FD_MAX_def Let_def)

lemma fd_get_negative [io_simps]: "fd < 0 \<Longrightarrow> fd_get fd s = (None, s)"
  by (simp add: fd_get_def)

subsection \<open>Paths of the application\<close>

lemma fpathE:
  assumes "fpath p"
  obtains a m where "p = CHR ''/'' # a # m" "a \<noteq> CHR ''/''" "CHR ''/'' \<notin> set m" "a \<noteq> CHR ''.''"
    "length m < 31"
  using assms by (auto simp: fpath_def neq_Nil_conv split: list.splits)

lemma takeWhile_no_slash: "CHR ''/'' \<notin> set m \<Longrightarrow> takeWhile (\<lambda>c. c \<noteq> CHR ''/'') m = m"
  by (induction m) auto

lemma dropWhile_no_slash: "CHR ''/'' \<notin> set m \<Longrightarrow> dropWhile (\<lambda>c. c \<noteq> CHR ''/'') m = []"
  by (induction m) auto

lemma norm_loop_name:
  "a \<noteq> CHR ''/'' \<Longrightarrow> CHR ''/'' \<notin> set m \<Longrightarrow> a \<noteq> CHR ''.'' \<Longrightarrow> norm_loop (a # m) r = Some (rev (a # m) @ r)"
  by (subst norm_loop.simps) (auto simp: takeWhile_no_slash dropWhile_no_slash)

lemma norm_loop_fpath: "fpath p \<Longrightarrow> norm_loop p [] = Some (rev p)"
proof (erule fpathE)
  fix a m assume p: "p = CHR ''/'' # a # m" and a: "a \<noteq> CHR ''/''" "CHR ''/'' \<notin> set m" "a \<noteq> CHR ''.''"
  have "norm_loop p [] = norm_loop (a # m) ''/''"
    by (subst norm_loop.simps) (use a in \<open>simp add: p skip_slashes_def\<close>)
  then show ?thesis
    using a by (simp add: p norm_loop_name)
qed

lemma normalize_fpath [io_simps]:
  assumes "fpath p"
  shows "dfs_normalize_path None p (mstate D emp f v e h) = (NPath p, mstate D emp f v e (Suc h))"
proof -
  from assms obtain a m where p: "p = CHR ''/'' # a # m" "CHR ''/'' \<notin> set m" "a \<noteq> CHR ''/''"
    by (auto elim: fpathE)
  have "last (a # m) \<noteq> CHR ''/''"
    using p by (metis last_in_set list.distinct(1) set_ConsD)
  moreover obtain q z where qz: "a # m = q @ [z]"
    by (metis list.distinct(1) rev_exhaust)
  ultimately have "norm_finish (rev p) = NPath p"
    by (simp add: norm_finish_def p)
  then show ?thesis
    using assms by (simp add: dfs_normalize_path_def norm_loop_fpath mstate_malloc p(1))
qed

lemma lookup_root [io_simps]:
  "fpath p \<Longrightarrow> dfs_filesystem_lookup p (mstate D emp f v e h) = Some 0"
  by (erule fpathE)
    (simp add: dfs_filesystem_lookup_def DFS_FILESYSTEMS_MAX_def lookup_step_def mstate_def
      upt_rec numeral_2_eq_2)

lemma subdir_root [io_simps]: "fpath p \<Longrightarrow> dfs_subdir ''/'' p = Some p"
  by (erule fpathE) (simp add: dfs_subdir_def)

lemma driver_path_root [io_simps]:
  "fpath p \<Longrightarrow> driver_path 0 p (mstate D emp f v e h) = Some p"
  by (simp add: driver_path_def io_simps)

lemma not_open_root [io_simps]:
  "fpath p \<Longrightarrow> fd_is_open p (mstate D emp fd_zero v e h) = (-1, mstate D emp fd_zero v e (Suc h))"
  by (simp add: fd_is_open_def normalize_fpath lookup_root Let_def DFS_FD_MAX_def)
    (simp add: mstate_def)

subsection \<open>The driver contract\<close>

text \<open>A driver call may change the size, position and data fields of the descriptor only.\<close>

definition same_fd :: "'h dfs_fd \<Rightarrow> 'h dfs_fd \<Rightarrow> bool" where
  "same_fd f f' = (f' = f\<lparr>fd_size := fd_size f', fd_pos := fd_pos f', fd_data := fd_data f'\<rparr>)"

lemma same_fdD:
  assumes "same_fd f f'"
  shows "fd_magic f' = fd_magic f" "ref_count f' = ref_count f" "fd_path f' = fd_path f"
    "fd_fs f' = fd_fs f" "fd_type f' = fd_type f" "fd_flags f' = fd_flags f"
  by (subst assms [unfolded same_fd_def], simp)+

definition live :: "('v \<Rightarrow> 'h option \<Rightarrow> u32 \<Rightarrow> u32 \<Rightarrow> string \<Rightarrow> bool) \<Rightarrow> 'v \<Rightarrow> 'h dfs_fd \<Rightarrow> bool" where
  "live fdrel v f = (fd_magic f = DFS_FD_MAGIC \<and> ref_count f = 1 \<and> fd_fs f = Some 0
     \<and> (case fd_path f of None \<Rightarrow> False
        | Some p \<Rightarrow> fpath p \<and> fdrel v (fd_data f) (fd_size f) (fd_pos f) p))"

definition dfs_ready :: "('v, 'h) fs_ops \<Rightarrow> ('v \<Rightarrow> 'h option \<Rightarrow> u32 \<Rightarrow> u32 \<Rightarrow> string \<Rightarrow> bool)
    \<Rightarrow> ('v \<Rightarrow> bool) \<Rightarrow> ('v, 'h) dfs \<Rightarrow> bool" where
  "dfs_ready D fdrel drv_ok s = (\<exists>emp f v e h. s = mstate D emp f v e h \<and> drv_ok v
     \<and> (f = fd_zero \<or> live fdrel v f))"

definition dfs_sess :: "('v, 'h) dfs \<Rightarrow> (int \<times> string \<times> nat) option" where
  "dfs_sess s = (let f = fd_table s ! 0 in
     if ref_count f = 0 then None
     else Some (0, (case fd_path f of None \<Rightarrow> [] | Some p \<Rightarrow> p), unat (fd_pos f)))"

definition dfs_content :: "('v \<Rightarrow> string \<Rightarrow> bytes option) \<Rightarrow> ('v, 'h) dfs \<Rightarrow> string \<Rightarrow> bytes option" where
  "dfs_content bc s = bc (vol_of 0 s)"

locale byte_driver =
  fixes D :: "('v, 'h) fs_ops"
    and bcontent :: "'v \<Rightarrow> string \<Rightarrow> bytes option"
    and fdrel :: "'v \<Rightarrow> 'h option \<Rightarrow> u32 \<Rightarrow> u32 \<Rightarrow> string \<Rightarrow> bool"
    and drv_ok :: "'v \<Rightarrow> bool"
    and bcap :: nat
    and dopen dclose dread dwrite dlseek dunlink dstat
  assumes ops: "ops_open D = Some dopen" "ops_close D = Some dclose" "ops_read D = Some dread"
      "ops_write D = Some dwrite" "ops_lseek D = Some dlseek" "ops_unlink D = Some dunlink"
      "ops_stat D = Some dstat"
    and bcap_bound: "bcap < 2147483648"
    and bcontent_cap: "drv_ok v \<Longrightarrow> bcontent v p = Some c \<Longrightarrow> length c \<le> bcap"
    and dopen_ok: "drv_ok v \<Longrightarrow> fpath p \<Longrightarrow> fd_path f = Some p \<Longrightarrow> plain_flags (fd_flags f)
      \<Longrightarrow> fd_size f = 0 \<Longrightarrow> fd_pos f = 0
      \<Longrightarrow> bcontent v p \<noteq> None \<or> fd_flags f AND O_CREAT \<noteq> 0 \<Longrightarrow> dopen f v = (r, f', v')
      \<Longrightarrow> 0 \<le> r \<and> drv_ok v' \<and> same_fd f f' \<and> fd_pos f' = 0
          \<and> fdrel v' (fd_data f') (fd_size f') 0 p
          \<and> bcontent v' = (bcontent v)(p \<mapsto> after_open (fd_flags f) (bcontent v p))"
    and dopen_fail: "drv_ok v \<Longrightarrow> fpath p \<Longrightarrow> fd_path f = Some p \<Longrightarrow> plain_flags (fd_flags f)
      \<Longrightarrow> bcontent v p = None \<Longrightarrow> fd_flags f AND O_CREAT = 0 \<Longrightarrow> dopen f v = (r, f', v')
      \<Longrightarrow> r < 0 \<and> drv_ok v' \<and> same_fd f f' \<and> bcontent v' = bcontent v"
    and dclose_ok: "drv_ok v \<Longrightarrow> fpath p \<Longrightarrow> fdrel v (fd_data f) (fd_size f) (fd_pos f) p
      \<Longrightarrow> dclose f v = (r, f', v')
      \<Longrightarrow> 0 \<le> r \<and> drv_ok v' \<and> same_fd f f' \<and> bcontent v' = bcontent v"
    and fdrel_pos: "drv_ok v \<Longrightarrow> fpath p \<Longrightarrow> fdrel v d sz pos p \<Longrightarrow> \<exists>c. bcontent v p = Some c \<and> unat pos \<le> length c"
    and dread_ok: "drv_ok v \<Longrightarrow> fpath p \<Longrightarrow> fdrel v (fd_data f) (fd_size f) (fd_pos f) p
      \<Longrightarrow> bcontent v p = Some c \<Longrightarrow> dread f n v = (r, bs, f', v')
      \<Longrightarrow> bs = window (unat (fd_pos f)) (unat n) c \<and> r = int (length bs) \<and> drv_ok v' \<and> same_fd f f'
          \<and> fdrel v' (fd_data f') (fd_size f') (fd_pos f') p
          \<and> unat (fd_pos f') = unat (fd_pos f) + length bs \<and> bcontent v' = bcontent v"
    and dwrite_ok: "drv_ok v \<Longrightarrow> fpath p \<Longrightarrow> fdrel v (fd_data f) (fd_size f) (fd_pos f) p
      \<Longrightarrow> bcontent v p = Some c \<Longrightarrow> unat (fd_pos f) + length ys \<le> bcap
      \<Longrightarrow> dwrite f ys v = (r, f', v')
      \<Longrightarrow> r = int (length ys) \<and> drv_ok v' \<and> same_fd f f'
          \<and> fdrel v' (fd_data f') (fd_size f') (fd_pos f') p
          \<and> unat (fd_pos f') = unat (fd_pos f) + length ys
          \<and> bcontent v' = (bcontent v)(p \<mapsto> overwrite (unat (fd_pos f)) ys c)"
    and dlseek_ok: "drv_ok v \<Longrightarrow> fpath p \<Longrightarrow> fdrel v (fd_data f) (fd_size f) (fd_pos f) p
      \<Longrightarrow> bcontent v p = Some c \<Longrightarrow> 0 \<le> ofs \<Longrightarrow> ofs \<le> int (length c)
      \<Longrightarrow> dlseek f ofs v = (r, f', v')
      \<Longrightarrow> r = ofs \<and> drv_ok v' \<and> same_fd f f' \<and> bcontent v' = bcontent v
          \<and> fdrel v' (fd_data f') (fd_size f') (word_of_int ofs) p"
    and dunlink_ok: "drv_ok v \<Longrightarrow> fpath p \<Longrightarrow> bcontent v p \<noteq> None \<Longrightarrow> dunlink p v = (r, v')
      \<Longrightarrow> 0 \<le> r \<and> drv_ok v' \<and> bcontent v' = (bcontent v)(p := None)"
    and dunlink_fail: "drv_ok v \<Longrightarrow> fpath p \<Longrightarrow> bcontent v p = None \<Longrightarrow> dunlink p v = (r, v')
      \<Longrightarrow> r < 0 \<and> drv_ok v' \<and> bcontent v' = bcontent v"
    and dstat_ok: "drv_ok v \<Longrightarrow> fpath p \<Longrightarrow> bcontent v p = Some c \<Longrightarrow> dstat p v = (r, sz, v')
      \<Longrightarrow> r = 0 \<and> sz = of_nat (length c) \<and> drv_ok v' \<and> bcontent v' = bcontent v"
    and dstat_fail: "drv_ok v \<Longrightarrow> fpath p \<Longrightarrow> bcontent v p = None \<Longrightarrow> dstat p v = (r, sz, v')
      \<Longrightarrow> r < 0 \<and> drv_ok v' \<and> bcontent v' = bcontent v"
begin

lemma ready_idleE:
  assumes "dfs_ready D fdrel drv_ok s" "dfs_sess s = None"
  obtains emp v e h where "s = mstate D emp fd_zero v e h" "drv_ok v"
  using assms unfolding dfs_ready_def by (auto simp: dfs_sess_def live_def mstate_fd)

lemma ready_openE:
  assumes "dfs_ready D fdrel drv_ok s" "dfs_sess s = Some (fd, p, pos)"
  obtains emp v e h f where "s = mstate D emp f v e h" "drv_ok v" "fd = 0" "fd_path f = Some p"
    "fpath p" "fdrel v (fd_data f) (fd_size f) (fd_pos f) p" "pos = unat (fd_pos f)"
    "fd_magic f = DFS_FD_MAGIC" "ref_count f = 1" "fd_fs f = Some 0"
  using assms unfolding dfs_ready_def
  by (auto simp: dfs_sess_def live_def mstate_fd split: option.splits)

lemma readyI_idle: "drv_ok v \<Longrightarrow> dfs_ready D fdrel drv_ok (mstate D emp fd_zero v e h)"
  unfolding dfs_ready_def by blast

lemma readyI_open:
  "drv_ok v \<Longrightarrow> fd_magic f = DFS_FD_MAGIC \<Longrightarrow> ref_count f = 1 \<Longrightarrow> fd_fs f = Some 0
   \<Longrightarrow> fd_path f = Some p \<Longrightarrow> fpath p \<Longrightarrow> fdrel v (fd_data f) (fd_size f) (fd_pos f) p
   \<Longrightarrow> dfs_ready D fdrel drv_ok (mstate D emp f v e h)"
  unfolding dfs_ready_def live_def by fastforce

lemma sess_mstate: "dfs_sess (mstate D emp f v e h) = (if ref_count f = 0 then None
    else Some (0, (case fd_path f of None \<Rightarrow> [] | Some p \<Rightarrow> p), unat (fd_pos f)))"
  by (simp add: dfs_sess_def mstate_fd)

lemma content_mstate: "dfs_content bcontent (mstate D emp f v e h) = bcontent v"
  by (simp add: dfs_content_def mstate_mount)

lemmas layer = io_simps ops sess_mstate content_mstate readyI_idle

lemma call_open_ok:
  assumes "dfs_ready D fdrel drv_ok s" "dfs_sess s = None" "fpath p" "plain_flags fl"
    "dfs_content bcontent s p \<noteq> None \<or> fl AND O_CREAT \<noteq> 0" "dfs_open p fl s = (fd, s')"
  shows "0 \<le> fd \<and> dfs_ready D fdrel drv_ok s' \<and> dfs_sess s' = Some (fd, p, 0)
    \<and> dfs_content bcontent s' = (dfs_content bcontent s)(p \<mapsto> after_open fl (dfs_content bcontent s p))"
proof -
  obtain emp v e h where s: "s = mstate D emp fd_zero v e h" "drv_ok v"
    using ready_idleE assms(1,2) by blast
  define f :: "'h dfs_fd" where "f = fd_zero\<lparr>fd_magic := DFS_FD_MAGIC, ref_count := 2, fd_fs := Some 0,
    fd_type := FT_REGULAR, fd_flags := fl, fd_size := 0, fd_pos := 0, fd_path := Some p\<rparr>"
  obtain r f' v' where o: "dopen f v = (r, f', v')" by (cases "dopen f v") auto
  have P: "0 \<le> r" "drv_ok v'" "same_fd f f'" "fd_pos f' = 0" "fdrel v' (fd_data f') (fd_size f') 0 p"
    "bcontent v' = (bcontent v)(p \<mapsto> after_open fl (bcontent v p))"
    using dopen_ok [OF s(2) assms(3) _ _ _ _ _ o] assms(4,5)
    by (simp_all add: f_def s layer)
  have nd: "fl AND O_DIRECTORY = 0"
    using assms(4) by (simp add: plain_flags_def)
  have "(fd, s') = (0, mstate D emp (f'\<lparr>fd_flags := fd_flags f' OR DFS_F_OPEN, ref_count := 1\<rparr>) v' e
      (if ops_fullpath D then Suc h else Suc (Suc h)))"
    using assms(6) P(1) nd same_fdD(2) [OF P(3)] assms(3) o
    by (simp add: dfs_open_def dfs_file_open_def dfs_file_open_drv_def layer s f_def Let_def
        split: if_splits)
  then show ?thesis
    using P assms(3) same_fdD [OF P(3)]
    by (auto intro!: readyI_open simp: layer s f_def)
qed

lemma call_open_fail:
  assumes "dfs_ready D fdrel drv_ok s" "dfs_sess s = None" "fpath p" "plain_flags fl"
    "dfs_content bcontent s p = None" "fl AND O_CREAT = 0" "dfs_open p fl s = (fd, s')"
  shows "fd < 0 \<and> dfs_ready D fdrel drv_ok s' \<and> dfs_sess s' = None
    \<and> dfs_content bcontent s' = dfs_content bcontent s"
proof -
  obtain emp v e h where s: "s = mstate D emp fd_zero v e h" "drv_ok v"
    using ready_idleE assms(1,2) by blast
  define f :: "'h dfs_fd" where "f = fd_zero\<lparr>fd_magic := DFS_FD_MAGIC, ref_count := 2, fd_fs := Some 0,
    fd_type := FT_REGULAR, fd_flags := fl, fd_size := 0, fd_pos := 0, fd_path := Some p\<rparr>"
  obtain r f' v' where o: "dopen f v = (r, f', v')" by (cases "dopen f v") auto
  have P: "r < 0" "drv_ok v'" "same_fd f f'" "bcontent v' = bcontent v"
    using dopen_fail [OF s(2) assms(3) _ _ _ _ o] assms(4-6)
    by (simp_all add: f_def s layer)
  have "(fd, s') = (-1, mstate D emp fd_zero v' r
      (if ops_fullpath D then Suc h else Suc (Suc h)))"
    using assms(7) P(1) same_fdD(2) [OF P(3)] assms(3) o
    by (simp add: dfs_open_def dfs_file_open_def dfs_file_open_drv_def layer s f_def Let_def
        split: if_splits)
  then show ?thesis
    using P by (auto simp: layer s)
qed

lemma call_read_ok:
  assumes "dfs_ready D fdrel drv_ok s" "dfs_sess s = Some (fd, p, pos)"
    "dfs_content bcontent s p = Some c" "dfs_read fd n s = (r, bs, s')"
  shows "bs = window pos (unat n) c \<and> r = int (length bs) \<and> dfs_ready D fdrel drv_ok s'
    \<and> dfs_sess s' = Some (fd, p, pos + length bs) \<and> dfs_content bcontent s' = dfs_content bcontent s"
proof -
  obtain emp v e h f where s: "s = mstate D emp f v e h" "drv_ok v" "fd = 0" "fd_path f = Some p"
    "fpath p" "fdrel v (fd_data f) (fd_size f) (fd_pos f) p" "pos = unat (fd_pos f)"
    "fd_magic f = DFS_FD_MAGIC" "ref_count f = 1" "fd_fs f = Some 0"
    using ready_openE assms(1,2) by metis
  define g where "g = f\<lparr>ref_count := 2\<rparr>"
  obtain r0 b0 f' v' where o: "dread g n v = (r0, b0, f', v')" by (cases "dread g n v") auto
  have P: "b0 = window pos (unat n) c" "r0 = int (length b0)" "drv_ok v'" "same_fd g f'"
    "fdrel v' (fd_data f') (fd_size f') (fd_pos f') p" "unat (fd_pos f') = pos + length b0"
    "bcontent v' = bcontent v"
    using dread_ok [OF s(2,5) _ _ o, of c] s assms(3) by (simp_all add: g_def layer)
  have "(r, bs, s') = (r0, b0, mstate D emp (f'\<lparr>ref_count := 1\<rparr>) v' e h)"
    using assms(4) P(2) o same_fdD(2) [OF P(4)]
    by (auto simp add: dfs_read_def dfs_file_read_def layer s(1,3,8,9,10) g_def Let_def)
  then show ?thesis
    using P s same_fdD [OF P(4)] by (auto intro!: readyI_open simp: layer g_def)
qed

lemma call_write_ok:
  assumes "dfs_ready D fdrel drv_ok s" "dfs_sess s = Some (fd, p, pos)"
    "dfs_content bcontent s p = Some c" "pos + length ys \<le> bcap" "dfs_write fd ys s = (r, s')"
  shows "r = int (length ys) \<and> dfs_ready D fdrel drv_ok s' \<and> dfs_sess s' = Some (fd, p, pos + length ys)
    \<and> dfs_content bcontent s' = (dfs_content bcontent s)(p \<mapsto> overwrite pos ys c)"
proof -
  obtain emp v e h f where s: "s = mstate D emp f v e h" "drv_ok v" "fd = 0" "fd_path f = Some p"
    "fpath p" "fdrel v (fd_data f) (fd_size f) (fd_pos f) p" "pos = unat (fd_pos f)"
    "fd_magic f = DFS_FD_MAGIC" "ref_count f = 1" "fd_fs f = Some 0"
    using ready_openE assms(1,2) by metis
  define g where "g = f\<lparr>ref_count := 2\<rparr>"
  obtain r0 f' v' where o: "dwrite g ys v = (r0, f', v')" by (cases "dwrite g ys v") auto
  have P: "r0 = int (length ys)" "drv_ok v'" "same_fd g f'"
    "fdrel v' (fd_data f') (fd_size f') (fd_pos f') p" "unat (fd_pos f') = pos + length ys"
    "bcontent v' = (bcontent v)(p \<mapsto> overwrite pos ys c)"
    using dwrite_ok [OF s(2,5) _ _ _ o, of c] s assms(3,4) by (simp_all add: g_def layer)
  have "(r, s') = (r0, mstate D emp (f'\<lparr>ref_count := 1\<rparr>) v' e h)"
    using assms(5) P(1) o same_fdD(2) [OF P(3)]
    by (simp add: dfs_write_def dfs_file_write_def layer s(1,3,8,9,10) g_def Let_def)
  then show ?thesis
    using P s same_fdD [OF P(3)] by (auto intro!: readyI_open simp: layer g_def)
qed

lemma call_lseek_ok:
  assumes "dfs_ready D fdrel drv_ok s" "dfs_sess s = Some (fd, p, pos)"
    "dfs_content bcontent s p = Some c" "0 \<le> ofs" "ofs \<le> int (length c)"
    "dfs_lseek fd ofs SEEK_SET s = (r, s')"
  shows "r = ofs \<and> dfs_ready D fdrel drv_ok s' \<and> dfs_sess s' = Some (fd, p, nat ofs)
    \<and> dfs_content bcontent s' = dfs_content bcontent s"
proof -
  obtain emp v e h f where s: "s = mstate D emp f v e h" "drv_ok v" "fd = 0" "fd_path f = Some p"
    "fpath p" "fdrel v (fd_data f) (fd_size f) (fd_pos f) p" "pos = unat (fd_pos f)"
    "fd_magic f = DFS_FD_MAGIC" "ref_count f = 1" "fd_fs f = Some 0"
    using ready_openE assms(1,2) by metis
  define g where "g = f\<lparr>ref_count := 2\<rparr>"
  obtain r0 f' v' where o: "dlseek g ofs v = (r0, f', v')" by (cases "dlseek g ofs v") auto
  have P: "r0 = ofs" "drv_ok v'" "same_fd g f'" "bcontent v' = bcontent v"
    "fdrel v' (fd_data f') (fd_size f') (word_of_int ofs) p"
    using dlseek_ok [OF s(2,5) _ _ assms(4,5) o] s assms(3) by (simp_all add: g_def layer)
  have "length c < 2147483648"
    using bcontent_cap [OF s(2), of p c] bcap_bound assms(3) s by (simp add: layer)
  then have ofs: "ofs < 2147483648" using assms(5) by linarith
  then have si: "sint (word_of_int ofs :: u32) = ofs"
    using assms(4) by (simp add: sint_of_int_u32)
  have un: "unat (word_of_int ofs :: u32) = nat ofs"
    using assms(4) ofs by (simp add: unat_of_int_u32)
  have "(r, s') = (ofs, mstate D emp (f'\<lparr>fd_pos := word_of_int ofs, ref_count := 1\<rparr>) v' e h)"
    using assms(4,6) P(1) o same_fdD(2) [OF P(3)] si
    by (auto simp add: dfs_lseek_def dfs_file_lseek_def layer s(1,3,8,9,10) g_def Let_def)
  then show ?thesis
    using P s same_fdD [OF P(3)] un by (auto intro!: readyI_open simp: layer g_def)
qed

lemma call_lseek_neg:
  assumes "dfs_ready D fdrel drv_ok s" "dfs_sess s = Some (fd, p, pos)"
    "ofs < 0" "- 2147483648 \<le> ofs" "dfs_lseek fd ofs SEEK_SET s = (r, s')"
  shows "r = -1 \<and> dfs_ready D fdrel drv_ok s' \<and> dfs_sess s' = Some (fd, p, pos)
    \<and> dfs_content bcontent s' = dfs_content bcontent s"
proof -
  obtain emp v e h f where s: "s = mstate D emp f v e h" "drv_ok v" "fd = 0" "fd_path f = Some p"
    "fpath p" "fdrel v (fd_data f) (fd_size f) (fd_pos f) p" "pos = unat (fd_pos f)"
    "fd_magic f = DFS_FD_MAGIC" "ref_count f = 1" "fd_fs f = Some 0"
    using ready_openE assms(1,2) by metis
  have "sint (word_of_int ofs :: u32) = ofs"
    using assms(3,4) by (simp add: sint_of_int_u32)
  then have "(r, s') = (-1, mstate D emp (f\<lparr>ref_count := 1\<rparr>) v (- EINVAL) h)"
    using assms(3,5) by (simp add: dfs_lseek_def layer s(1,3,8,9,10) Let_def)
  then show ?thesis
    using s by (auto intro!: readyI_open simp: layer)
qed

lemma call_close_ok:
  assumes "dfs_ready D fdrel drv_ok s" "dfs_sess s = Some (fd, p, pos)" "dfs_close fd s = (r, s')"
  shows "r = 0 \<and> dfs_ready D fdrel drv_ok s' \<and> dfs_sess s' = None
    \<and> dfs_content bcontent s' = dfs_content bcontent s"
proof -
  obtain emp v e h f where s: "s = mstate D emp f v e h" "drv_ok v" "fd = 0" "fd_path f = Some p"
    "fpath p" "fdrel v (fd_data f) (fd_size f) (fd_pos f) p" "pos = unat (fd_pos f)"
    "fd_magic f = DFS_FD_MAGIC" "ref_count f = 1" "fd_fs f = Some 0"
    using ready_openE assms(1,2) by metis
  define g where "g = f\<lparr>ref_count := 2\<rparr>"
  obtain r0 f' v' where o: "dclose g v = (r0, f', v')" by (cases "dclose g v") auto
  have P: "0 \<le> r0" "drv_ok v'" "same_fd g f'" "bcontent v' = bcontent v"
    using dclose_ok [OF s(2,5) _ o] s by (simp_all add: g_def layer)
  have "(r, s') = (0, mstate D emp fd_zero v' e h)"
    using assms(3) P(1) o same_fdD(2) [OF P(3)]
    by (simp add: dfs_close_def dfs_file_close_def layer s(1,3,8,9,10) g_def Let_def)
  then show ?thesis
    using P s by (auto simp: layer)
qed

lemma call_close_bad:
  assumes "dfs_ready D fdrel drv_ok s" "dfs_sess s = None" "fd < 0" "dfs_close fd s = (r, s')"
  shows "r = -1 \<and> dfs_ready D fdrel drv_ok s' \<and> dfs_sess s' = None
    \<and> dfs_content bcontent s' = dfs_content bcontent s"
proof -
  obtain emp v e h where s: "s = mstate D emp fd_zero v e h" "drv_ok v"
    using ready_idleE assms(1,2) by blast
  then have "(r, s') = (-1, mstate D emp fd_zero v (- EBADF) h)"
    using assms(3,4) by (simp add: dfs_close_def layer)
  then show ?thesis using s by (simp add: layer)
qed

lemma call_unlink:
  assumes "dfs_ready D fdrel drv_ok s" "dfs_sess s = None" "fpath p" "dfs_unlink p s = (r, s')"
  shows "dfs_ready D fdrel drv_ok s' \<and> dfs_sess s' = None
    \<and> r = (if dfs_content bcontent s p = None then -1 else 0)
    \<and> dfs_content bcontent s' = (dfs_content bcontent s)(p := None)"
proof -
  obtain emp v e h where s: "s = mstate D emp fd_zero v e h" "drv_ok v"
    using ready_idleE assms(1,2) by blast
  obtain r0 v' where o: "dunlink p v = (r0, v')" by (cases "dunlink p v") auto
  have P: "drv_ok v'" "r0 < 0 \<longleftrightarrow> bcontent v p = None" "bcontent v' = (bcontent v)(p := None)"
    using dunlink_ok [OF s(2) assms(3) _ o] dunlink_fail [OF s(2) assms(3) _ o]
    by (cases "bcontent v p"; auto simp: fun_upd_idem)+
  have "(r, s') = (if r0 < 0 then -1 else 0, mstate D emp fd_zero v' (if r0 < 0 then r0 else e)
      (Suc (Suc h)))"
    using assms(3,4) o by (auto simp: dfs_unlink_def dfs_file_unlink_def layer s(1) split: if_splits)
  then show ?thesis
    using P s by (auto simp: layer)
qed

lemma call_stat:
  assumes "dfs_ready D fdrel drv_ok s" "dfs_sess s = None" "fpath p" "dfs_stat p s = (r, sz, s')"
  shows "dfs_ready D fdrel drv_ok s' \<and> dfs_sess s' = None
    \<and> dfs_content bcontent s' = dfs_content bcontent s
    \<and> (case dfs_content bcontent s p of None \<Rightarrow> r = -1 | Some c \<Rightarrow> r = 0 \<and> sz = of_nat (length c))"
proof -
  obtain emp v e h where s: "s = mstate D emp fd_zero v e h" "drv_ok v"
    using ready_idleE assms(1,2) by blast
  obtain r0 z v' where o: "dstat p v = (r0, z, v')" by (cases "dstat p v") auto
  have P: "drv_ok v'" "bcontent v' = bcontent v"
    "case bcontent v p of None \<Rightarrow> r0 < 0 | Some c \<Rightarrow> r0 = 0 \<and> z = of_nat (length c)"
    using dstat_ok [OF s(2) assms(3) _ o] dstat_fail [OF s(2) assms(3) _ o]
    by (cases "bcontent v p"; auto)+
  have "p \<noteq> ''/''" using assms(3) by (auto elim: fpathE)
  then have "(r, sz, s') = (if r0 < 0 then -1 else r0, z,
      mstate D emp fd_zero v' (if r0 < 0 then r0 else e) (Suc h))"
    using assms(3,4) o by (auto simp: dfs_stat_def dfs_file_stat_def layer s(1) split: if_splits)
  then show ?thesis
    using P s by (auto simp: layer split: option.splits if_splits)
qed

lemma dfs_content_cap: "dfs_ready D fdrel drv_ok s \<Longrightarrow> dfs_content bcontent s p = Some c \<Longrightarrow> length c \<le> bcap"
  unfolding dfs_ready_def by (auto simp: layer bcontent_cap)

end

text \<open>The calls of dfs_posix.c over any driver that meets its contract meet the contract of the
  application, whatever the CRC unit computes.\<close>

sublocale byte_driver \<subseteq> files: posix_files "dfs_plat rst feed" "dfs_content bcontent" dfs_sess
  "dfs_ready D fdrel drv_ok" bcap for rst feed
proof (unfold_locales, goal_cases)
  case 1 then show ?case by (rule bcap_bound)
next
  case 2 then show ?case by (rule dfs_content_cap)
next
  case 3 then show ?case by (intro call_open_ok) (simp_all add: dfs_plat_def)
next
  case 4 then show ?case by (intro call_open_fail) (simp_all add: dfs_plat_def)
next
  case 5 then show ?case by (intro call_lseek_ok) (simp_all add: dfs_plat_def)
next
  case 6 then show ?case by (intro call_lseek_neg) (simp_all add: dfs_plat_def)
next
  case 7 then show ?case by (intro call_read_ok) (simp_all add: dfs_plat_def)
next
  case 8 then show ?case by (intro call_write_ok) (simp_all add: dfs_plat_def)
next
  case 9 then show ?case by (intro call_close_ok) (simp_all add: dfs_plat_def)
next
  case 10 then show ?case by (intro call_close_bad) (simp_all add: dfs_plat_def)
next
  case (11 s p c r sz s')
  then show ?case using call_stat [of s p r sz s'] by (simp add: dfs_plat_def)
next
  case (12 s p r sz s')
  then show ?case using call_stat [of s p r sz s'] by (simp add: dfs_plat_def)
next
  case (13 s p r s')
  then show ?case using call_unlink [of s p r s'] by (simp add: dfs_plat_def)
next
  case (14 s p r s')
  then show ?case using call_unlink [of s p r s'] by (simp add: dfs_plat_def fun_upd_idem)
qed

end
