(* ===== verification/RamFs.thy ===== *)
theory RamFs imports DfsFiles begin

text \<open>The RAM file system driver (components/dfs/filesystems/ramfs/dfs_ramfs.c): a flat list of
  directory entries, each with a heap block for its data.  Entries are identified by the address
  the driver stores in the descriptor, here a number handed out by \<open>rf_next\<close>.  \<open>rf_heap\<close> says
  which of the successive requests to the driver's own heap succeed; \<open>rf_junk\<close> is what a fresh
  block holds.  \<open>rf_fault\<close> is set where the C code reads or writes outside a block, dereferences a
  null or dangling pointer, or stores a name that does not fit its array.\<close>

definition RAMFS_NAME_MAX :: nat where "RAMFS_NAME_MAX = 32"

record ramfs_dirent =
  rd_name :: string
  rd_data :: "bytes option"
  rd_size :: u32

datatype rf_ptr = RfRoot | RfDirent nat

record ramfs =
  rf_root :: ramfs_dirent
  rf_list :: "(nat \<times> ramfs_dirent) list"
  rf_next :: nat
  rf_heap :: "nat \<Rightarrow> nat \<Rightarrow> bool"
  rf_calls :: nat
  rf_junk :: "nat \<Rightarrow> u8"
  rf_errno :: int
  rf_fault :: bool

definition rf_get :: "rf_ptr \<Rightarrow> ramfs \<Rightarrow> ramfs_dirent option" where
  "rf_get p v = (case p of RfRoot \<Rightarrow> Some (rf_root v) | RfDirent i \<Rightarrow> map_of (rf_list v) i)"

definition rf_put :: "rf_ptr \<Rightarrow> ramfs_dirent \<Rightarrow> ramfs \<Rightarrow> ramfs" where
  "rf_put p d v = (case p of RfRoot \<Rightarrow> v\<lparr>rf_root := d\<rparr>
     | RfDirent i \<Rightarrow> v\<lparr>rf_list := map (\<lambda>(j, e). (j, if j = i then d else e)) (rf_list v)\<rparr>)"

definition rf_alloc :: "nat \<Rightarrow> ramfs \<Rightarrow> bool \<times> ramfs" where
  "rf_alloc n v = (rf_heap v (rf_calls v) n, v\<lparr>rf_calls := Suc (rf_calls v)\<rparr>)"

definition rf_bad :: "ramfs \<Rightarrow> ramfs" where
  "rf_bad v = v\<lparr>rf_fault := True\<rparr>"

definition dirent_bytes :: "ramfs_dirent \<Rightarrow> bytes" where
  "dirent_bytes d = (case rd_data d of None \<Rightarrow> [] | Some b \<Rightarrow> b)"

definition dfs_ramfs_lookup :: "ramfs \<Rightarrow> string \<Rightarrow> rf_ptr option" where
  "dfs_ramfs_lookup v path = (let subpath = skip_slashes path in
     if subpath = [] then Some RfRoot
     else map_option (\<lambda>(i, d). RfDirent i) (find (\<lambda>(i, d). rd_name d = subpath) (rf_list v)))"

text \<open>Both reads and writes copy between the caller and the entry's block; a copy outside the
  block is a fault, and the bytes read there are the junk of the memory.\<close>

definition dfs_ramfs_read :: "rf_ptr dfs_fd \<Rightarrow> u32 \<Rightarrow> ramfs \<Rightarrow> int \<times> bytes \<times> rf_ptr dfs_fd \<times> ramfs"
  where
  "dfs_ramfs_read f count v = (case Option.bind (fd_data f) (\<lambda>p. rf_get p v) of
      None \<Rightarrow> (0, [], f, rf_bad v)
    | Some d \<Rightarrow>
      let left = fd_size f - fd_pos f; len = (if count < left then count else left);
          pos = unat (fd_pos f); block = dirent_bytes d;
          inside = (pos + unat len \<le> length block);
          bs = (if inside then window pos (unat len) block else map (rf_junk v) [pos..<pos + unat len])
      in (sint len, bs, f\<lparr>fd_pos := fd_pos f + len\<rparr>,
          if len > 0 \<and> \<not> inside then rf_bad v else v))"

definition rf_resize :: "ramfs \<Rightarrow> nat \<Rightarrow> bytes \<Rightarrow> bytes" where
  "rf_resize v n b = take n b @ map (rf_junk v) [length b..<n]"

definition dfs_ramfs_write :: "rf_ptr dfs_fd \<Rightarrow> bytes \<Rightarrow> ramfs \<Rightarrow> int \<times> rf_ptr dfs_fd \<times> ramfs" where
  "dfs_ramfs_write f buf v = (case fd_data f of
      None \<Rightarrow> (0, f, rf_bad v)
    | Some p \<Rightarrow> (case rf_get p v of
        None \<Rightarrow> (0, f, rf_bad v)
      | Some d \<Rightarrow>
        let count = of_nat (length buf) :: u32; pos = unat (fd_pos f);
            grow = (count + fd_pos f > fd_size f); n = fd_pos f + count;
            (ok, v1) = (if grow then rf_alloc (unat n) v else (True, v)) in
        if \<not> ok then (0, f, v1\<lparr>rf_errno := - ENOMEM\<rparr>)
        else
          let d1 = (if grow then d\<lparr>rd_data := Some (rf_resize v (unat n) (dirent_bytes d)), rd_size := n\<rparr>
                    else d);
              f1 = (if grow then f\<lparr>fd_size := n\<rparr> else f);
              block = dirent_bytes d1;
              inside = (pos + length buf \<le> length block);
              d2 = (if 0 < length buf \<and> inside then d1\<lparr>rd_data := Some (overwrite pos buf block)\<rparr> else d1);
              v2 = (if 0 < length buf \<and> \<not> inside then rf_bad v1 else v1) in
          (sint count, f1\<lparr>fd_pos := fd_pos f + count\<rparr>, rf_put p d2 v2)))"

definition dfs_ramfs_lseek :: "rf_ptr dfs_fd \<Rightarrow> int \<Rightarrow> ramfs \<Rightarrow> int \<times> rf_ptr dfs_fd \<times> ramfs" where
  "dfs_ramfs_lseek f ofs v =
     (if ofs \<le> sint (fd_size f)
      then (sint (word_of_int ofs :: u32), f\<lparr>fd_pos := word_of_int ofs\<rparr>, v)
      else (- EIO, f, v))"

definition dfs_ramfs_close :: "rf_ptr dfs_fd \<Rightarrow> ramfs \<Rightarrow> int \<times> rf_ptr dfs_fd \<times> ramfs" where
  "dfs_ramfs_close f v = (0, f\<lparr>fd_data := None\<rparr>, v)"

text \<open>\<open>dfs_ramfs_open\<close>, in three pieces: a new entry at the front of the list, the truncation,
  and the initialisation of the descriptor.\<close>

definition rf_create :: "string \<Rightarrow> ramfs \<Rightarrow> rf_ptr \<times> ramfs" where
  "rf_create path v = (let name = skip_slashes path in
     (RfDirent (rf_next v),
      v\<lparr>rf_list := (rf_next v, \<lparr>rd_name = take RAMFS_NAME_MAX name, rd_data = None, rd_size = 0\<rparr>)
            # rf_list v,
         rf_next := Suc (rf_next v),
         rf_fault := (rf_fault v \<or> RAMFS_NAME_MAX \<le> length name)\<rparr>))"

definition rf_open_fd :: "rf_ptr \<Rightarrow> rf_ptr dfs_fd \<Rightarrow> ramfs \<Rightarrow> int \<times> rf_ptr dfs_fd \<times> ramfs" where
  "rf_open_fd p f v = (case rf_get p v of
      None \<Rightarrow> (0, f, rf_bad v)
    | Some d \<Rightarrow>
      let trunc = (fd_flags f AND O_DIRECTORY = 0 \<and> fd_flags f AND O_TRUNC \<noteq> 0);
          d1 = (if trunc then d\<lparr>rd_size := 0, rd_data := None\<rparr> else d);
          v1 = (if trunc then rf_put p d1 v else v) in
      (0, f\<lparr>fd_data := Some p, fd_size := rd_size d1,
            fd_pos := (if fd_flags f AND O_APPEND \<noteq> 0 then rd_size d1 else 0)\<rparr>, v1))"

definition dfs_ramfs_open :: "rf_ptr dfs_fd \<Rightarrow> ramfs \<Rightarrow> int \<times> rf_ptr dfs_fd \<times> ramfs" where
  "dfs_ramfs_open f v = (case fd_path f of
      None \<Rightarrow> (0, f, rf_bad v)
    | Some path \<Rightarrow>
      if fd_flags f AND O_DIRECTORY \<noteq> 0 then
        (if fd_flags f AND O_CREAT \<noteq> 0 then (- ENOSPC, f, v)
         else (case dfs_ramfs_lookup v path of None \<Rightarrow> (- ENOENT, f, v)
               | Some p \<Rightarrow> rf_open_fd p f v))
      else (case dfs_ramfs_lookup v path of
          Some RfRoot \<Rightarrow> (- ENOENT, f, v)
        | Some p \<Rightarrow> rf_open_fd p f v
        | None \<Rightarrow>
          if fd_flags f AND O_CREAT \<noteq> 0 \<or> fd_flags f AND O_WRONLY \<noteq> 0 then
            (case rf_alloc 48 v of (ok, v1) \<Rightarrow>
               if \<not> ok then (- ENOMEM, f, v1)
               else (case rf_create path v1 of (p, v2) \<Rightarrow> rf_open_fd p f v2))
          else (- ENOENT, f, v)))"

definition dfs_ramfs_stat :: "string \<Rightarrow> ramfs \<Rightarrow> int \<times> u32 \<times> ramfs" where
  "dfs_ramfs_stat path v = (case Option.bind (dfs_ramfs_lookup v path) (\<lambda>p. rf_get p v) of
      None \<Rightarrow> (- ENOENT, 0, v) | Some d \<Rightarrow> (0, rd_size d, v))"

text \<open>Removing the root entry unlinks and frees a part of the file system object itself.\<close>

definition dfs_ramfs_unlink :: "string \<Rightarrow> ramfs \<Rightarrow> int \<times> ramfs" where
  "dfs_ramfs_unlink path v = (case dfs_ramfs_lookup v path of
      None \<Rightarrow> (- ENOENT, v)
    | Some RfRoot \<Rightarrow> (0, rf_bad v)
    | Some (RfDirent i) \<Rightarrow> (0, v\<lparr>rf_list := filter (\<lambda>(j, d). j \<noteq> i) (rf_list v)\<rparr>))"

definition dfs_ramfs_rename :: "string \<Rightarrow> string \<Rightarrow> ramfs \<Rightarrow> int \<times> ramfs" where
  "dfs_ramfs_rename old new v =
     (if dfs_ramfs_lookup v new \<noteq> None then (- EEXIST, v)
      else (case dfs_ramfs_lookup v old of
          None \<Rightarrow> (- ENOENT, v)
        | Some p \<Rightarrow> (case rf_get p v of None \<Rightarrow> (0, rf_bad v)
            | Some d \<Rightarrow> (0, let v1 = rf_put p (d\<lparr>rd_name := take RAMFS_NAME_MAX new\<rparr>) v in
                v1\<lparr>rf_fault := (rf_fault v1 \<or> RAMFS_NAME_MAX \<le> length new)\<rparr>))))"

definition ramfs_ops :: "(ramfs, rf_ptr) fs_ops" where
  "ramfs_ops = \<lparr>ops_fullpath = False, ops_open = Some dfs_ramfs_open, ops_close = Some dfs_ramfs_close,
     ops_read = Some dfs_ramfs_read, ops_write = Some dfs_ramfs_write, ops_flush = None,
     ops_lseek = Some dfs_ramfs_lseek, ops_unlink = Some dfs_ramfs_unlink,
     ops_stat = Some dfs_ramfs_stat, ops_rename = Some dfs_ramfs_rename\<rparr>"

end
