(* ===== verification/RamFsOk.thy ===== *)
theory RamFsOk imports RamFs begin

text \<open>The RAM file system meets the driver contract: on a well-formed volume the entries are a
  finite map from names to byte strings, and every driver call is the corresponding update of the
  map.  The interpretation at the end gives the application's file contract for the
  repository's own file system.\<close>

definition rf_wf :: "nat \<Rightarrow> ramfs \<Rightarrow> bool" where
  "rf_wf cap v = (\<not> rf_fault v \<and> cap < 2147483648
     \<and> distinct (map fst (rf_list v)) \<and> distinct (map (rd_name \<circ> snd) (rf_list v))
     \<and> list_all (\<lambda>(i, d). i < rf_next v \<and> length (dirent_bytes d) = unat (rd_size d)
         \<and> unat (rd_size d) \<le> cap) (rf_list v)
     \<and> (\<forall>k n. n \<le> cap \<or> n = 48 \<longrightarrow> rf_heap v k n))"

definition rf_names :: "(nat \<times> ramfs_dirent) list \<Rightarrow> string \<Rightarrow> ramfs_dirent option" where
  "rf_names l = map_of (map (\<lambda>(i, d). (rd_name d, d)) l)"

definition rf_content :: "ramfs \<Rightarrow> string \<Rightarrow> bytes option" where
  "rf_content v p = (if fpath p then map_option dirent_bytes (rf_names (rf_list v) (tl p)) else None)"

definition rf_fdrel :: "ramfs \<Rightarrow> rf_ptr option \<Rightarrow> u32 \<Rightarrow> u32 \<Rightarrow> string \<Rightarrow> bool" where
  "rf_fdrel v h sz pos p = (case h of Some (RfDirent i) \<Rightarrow>
       (case map_of (rf_list v) i of None \<Rightarrow> False
        | Some d \<Rightarrow> rd_name d = tl p \<and> sz = rd_size d \<and> pos \<le> sz)
     | _ \<Rightarrow> False)"

subsection \<open>Entries by name and by address\<close>

lemma find_name:
  "find (\<lambda>(i, d). rd_name d = n) l = None \<longleftrightarrow> rf_names l n = None"
  "find (\<lambda>(i, d). rd_name d = n) l = Some (i, d) \<Longrightarrow> rf_names l n = Some d \<and> (i, d) \<in> set l \<and> rd_name d = n"
  by (induction l) (auto simp: rf_names_def split: if_splits)

lemma names_of_mem:
  "distinct (map (rd_name \<circ> snd) l) \<Longrightarrow> (i, d) \<in> set l \<Longrightarrow> rf_names l (rd_name d) = Some d"
  by (induction l) (force simp: rf_names_def)+

lemma names_put:
  assumes "distinct (map fst l)" "distinct (map (rd_name \<circ> snd) l)" "(i, d) \<in> set l" "rd_name d' = rd_name d"
  shows "rf_names (map (\<lambda>(j, e). (j, if j = i then d' else e)) l) = (rf_names l)(rd_name d \<mapsto> d')"
  using assms
proof (induction l)
  case (Cons a l)
  obtain j e where a: "a = (j, e)" by force
  show ?case
  proof (cases "j = i")
    case True
    then have "e = d" "i \<notin> fst ` set l" using Cons.prems by (force simp: a)+
    then have "map (\<lambda>(j, e). (j, if j = i then d' else e)) l = l"
      by (intro map_idI) (auto simp: rev_image_eqI)
    then show ?thesis using True \<open>e = d\<close> Cons.prems(4) by (auto simp: a rf_names_def)
  next
    case False
    then have d: "(i, d) \<in> set l" using Cons.prems by (simp add: a)
    then have ne: "rd_name e \<noteq> rd_name d" using Cons.prems(2) by (force simp: a)
    have "rf_names (map (\<lambda>(j, e). (j, if j = i then d' else e)) l) = (rf_names l)(rd_name d \<mapsto> d')"
      by (rule Cons.IH) (use Cons.prems d in auto)
    then show ?thesis using False ne by (auto simp: a rf_names_def)
  qed
qed simp

lemma put_keys: "map fst (map (\<lambda>(j, e). (j, if j = i then d' else e)) l) = map fst l"
  by (induction l) auto

lemma put_names:
  assumes "\<forall>d. (i, d) \<in> set l \<longrightarrow> rd_name d = rd_name d'"
  shows "map (rd_name \<circ> snd) (map (\<lambda>(j, e). (j, if j = i then d' else e)) l) = map (rd_name \<circ> snd) l"
proof -
  have "x \<in> set l \<Longrightarrow> rd_name (snd (case x of (j, e) \<Rightarrow> (j, if j = i then d' else e))) = rd_name (snd x)" for x
    using assms by (cases x) auto
  then show ?thesis by simp
qed

lemma put_map_of: "map_of (map (\<lambda>(j, e). (j, if j = i then d' else e)) l) k
    = (if k = i then map_option (\<lambda>_. d') (map_of l i) else map_of l k)"
  by (induction l) auto

lemma names_filter:
  assumes "distinct (map fst l)" "distinct (map (rd_name \<circ> snd) l)" "(i, d) \<in> set l"
  shows "rf_names (filter (\<lambda>(j, e). j \<noteq> i) l) = (rf_names l)(rd_name d := None)"
  using assms
proof (induction l)
  case (Cons a l)
  obtain j e where a: "a = (j, e)" by force
  show ?case
  proof (cases "j = i")
    case True
    then have "e = d" and i: "i \<notin> fst ` set l" using Cons.prems by (force simp: a)+
    have "filter (\<lambda>(j, e). j \<noteq> i) l = l"
      using i by (auto simp: filter_id_conv rev_image_eqI)
    moreover have "rf_names l (rd_name d) = None"
      using Cons.prems(2) \<open>e = d\<close> by (auto simp: a rf_names_def map_of_eq_None_iff image_image split_beta)
    ultimately show ?thesis using True \<open>e = d\<close> by (auto simp: a rf_names_def)
  next
    case False
    then have d: "(i, d) \<in> set l" using Cons.prems by (simp add: a)
    then have "rd_name e \<noteq> rd_name d" using Cons.prems(2) by (force simp: a)
    then show ?thesis using Cons d False by (auto simp: a rf_names_def)
  qed
qed simp

lemma skip_fpath: "fpath p \<Longrightarrow> skip_slashes p = tl p \<and> tl p \<noteq> [] \<and> length (tl p) < 32"
  by (erule fpathE) (auto simp: skip_slashes_def)

lemma fpath_tl: "fpath p \<Longrightarrow> fpath q \<Longrightarrow> tl p = tl q \<Longrightarrow> p = q"
  by (auto elim!: fpathE)

lemma ramfs_lookup_fpath:
  assumes "fpath p"
  shows "dfs_ramfs_lookup v p
    = map_option (\<lambda>(i, d). RfDirent i) (find (\<lambda>(i, d). rd_name d = tl p) (rf_list v))"
  using skip_fpath [OF assms] by (simp add: dfs_ramfs_lookup_def Let_def)

lemma ramfs_lookup_cases:
  assumes "rf_wf cap v" "fpath p"
  obtains (missing) "rf_content v p = None" "dfs_ramfs_lookup v p = None"
      "rf_names (rf_list v) (tl p) = None"
  | (found) i d where "dfs_ramfs_lookup v p = Some (RfDirent i)" "map_of (rf_list v) i = Some d"
      "rd_name d = tl p" "(i, d) \<in> set (rf_list v)" "rf_content v p = Some (dirent_bytes d)"
      "rf_names (rf_list v) (tl p) = Some d"
proof (cases "find (\<lambda>(i, d). rd_name d = tl p) (rf_list v)")
  case None
  then show ?thesis
    using missing assms find_name(1) [of "tl p" "rf_list v"]
    by (simp add: ramfs_lookup_fpath rf_content_def)
next
  case (Some a)
  then obtain i d where a: "find (\<lambda>(i, d). rd_name d = tl p) (rf_list v) = Some (i, d)" by (cases a) auto
  note F = find_name(2) [OF a]
  have "map_of (rf_list v) i = Some d"
    using F assms(1) by (simp add: rf_wf_def)
  then show ?thesis
    using found F a assms by (simp add: ramfs_lookup_fpath rf_content_def)
qed

lemma fdrelE:
  assumes "rf_wf cap v" "fpath p" "rf_fdrel v h sz pos p"
  obtains i d where "h = Some (RfDirent i)" "map_of (rf_list v) i = Some d" "(i, d) \<in> set (rf_list v)"
    "rd_name d = tl p" "sz = rd_size d" "pos \<le> sz" "rf_content v p = Some (dirent_bytes d)"
    "length (dirent_bytes d) = unat sz" "unat sz \<le> cap" "rf_names (rf_list v) (tl p) = Some d"
proof -
  obtain i d where h: "h = Some (RfDirent i)" "map_of (rf_list v) i = Some d" "rd_name d = tl p"
    "sz = rd_size d" "pos \<le> sz"
    using assms(3) by (auto simp: rf_fdrel_def split: option.splits rf_ptr.splits)
  have m: "(i, d) \<in> set (rf_list v)" using h(2) by (rule map_of_SomeD)
  have n: "rf_names (rf_list v) (tl p) = Some d"
    using names_of_mem [OF _ m] assms(1) h(3) by (simp add: rf_wf_def)
  show ?thesis
    using assms(1,2) h m n by (intro that) (auto simp: rf_content_def rf_wf_def list_all_iff)
qed

subsection \<open>Updates of a well-formed volume\<close>

lemma wf_put:
  assumes "rf_wf cap v" "map_of (rf_list v) i = Some d" "rd_name d' = rd_name d"
    "length (dirent_bytes d') = unat (rd_size d')" "unat (rd_size d') \<le> cap"
  shows "rf_wf cap (rf_put (RfDirent i) d' v)"
proof -
  have m: "(i, d) \<in> set (rf_list v)" using assms(2) by (rule map_of_SomeD)
  have u: "(i, e) \<in> set (rf_list v) \<Longrightarrow> e = d" for e
    using assms(1,2) by (metis map_of_is_SomeI option.inject rf_wf_def)
  let ?l = "map (\<lambda>(j, e). (j, if j = i then d' else e)) (rf_list v)"
  have names: "map (rd_name \<circ> snd) ?l = map (rd_name \<circ> snd) (rf_list v)"
    by (rule put_names) (use u assms(3) in simp)
  have W: "\<not> rf_fault v" "cap < 2147483648" "distinct (map fst (rf_list v))"
    "distinct (map (rd_name \<circ> snd) (rf_list v))" "\<forall>k n. n \<le> cap \<or> n = 48 \<longrightarrow> rf_heap v k n"
    and A: "list_all (\<lambda>(i, d). i < rf_next v \<and> length (dirent_bytes d) = unat (rd_size d)
         \<and> unat (rd_size d) \<le> cap) (rf_list v)"
    using assms(1) by (auto simp: rf_wf_def)
  have "list_all (\<lambda>(i, d). i < rf_next v \<and> length (dirent_bytes d) = unat (rd_size d)
         \<and> unat (rd_size d) \<le> cap) ?l"
    using A m assms(4,5) by (fastforce simp: list_all_iff)
  then show ?thesis
    unfolding rf_wf_def rf_put_def using W names put_keys [of i d' "rf_list v"]
    by (simp del: map_map map_eq_conv)
qed

lemma content_put:
  assumes "rf_wf cap v" "map_of (rf_list v) i = Some d" "rd_name d' = rd_name d" "rd_name d = tl p"
    "fpath p"
  shows "rf_content (rf_put (RfDirent i) d' v) = (rf_content v)(p \<mapsto> dirent_bytes d')"
proof -
  have m: "(i, d) \<in> set (rf_list v)" using assms(2) by (rule map_of_SomeD)
  show ?thesis
    using names_put [OF _ _ m assms(3)] assms fpath_tl
    by (auto simp: rf_content_def rf_wf_def rf_put_def fun_eq_iff)
qed

lemma put_same: "rf_wf cap v \<Longrightarrow> map_of (rf_list v) i = Some d \<Longrightarrow> rf_put (RfDirent i) d v = v"
proof -
  assume a: "rf_wf cap v" "map_of (rf_list v) i = Some d"
  have "(i, e) \<in> set (rf_list v) \<Longrightarrow> e = d" for e
    using a by (metis map_of_is_SomeI option.inject rf_wf_def)
  then have "map (\<lambda>(j, e). (j, if j = i then d else e)) (rf_list v) = rf_list v"
    by (intro map_idI) auto
  then show ?thesis by (simp add: rf_put_def)
qed

lemma wf_alloc: "rf_wf cap v \<Longrightarrow> n \<le> cap \<or> n = 48 \<Longrightarrow> rf_alloc n v = (True, v\<lparr>rf_calls := Suc (rf_calls v)\<rparr>)"
  by (auto simp: rf_wf_def rf_alloc_def)

lemma wf_calls [simp]: "rf_wf cap (v\<lparr>rf_calls := k\<rparr>) = rf_wf cap v"
  by (simp add: rf_wf_def)

lemma content_calls [simp]: "rf_content (v\<lparr>rf_calls := k\<rparr>) = rf_content v"
  by (rule ext) (simp add: rf_content_def)

lemma wf_create:
  assumes "rf_wf cap v" "fpath p" "rf_content v p = None" "rf_create p v = (q, v')"
  shows "rf_wf cap v' \<and> rf_content v' = (rf_content v)(p \<mapsto> [])
    \<and> (\<exists>i d. q = RfDirent i \<and> map_of (rf_list v') i = Some d \<and> rd_name d = tl p \<and> rd_size d = 0
        \<and> rd_data d = None)"
proof -
  let ?i = "rf_next v" let ?d = "\<lparr>rd_name = tl p, rd_data = None, rd_size = 0\<rparr> :: ramfs_dirent"
  have v': "q = RfDirent ?i" "v' = v\<lparr>rf_list := (?i, ?d) # rf_list v, rf_next := Suc ?i\<rparr>"
    using assms(1,4) skip_fpath [OF assms(2)]
    by (auto simp: rf_create_def RAMFS_NAME_MAX_def Let_def rf_wf_def)
  have fresh: "?i \<notin> fst ` set (rf_list v)"
    using assms(1) by (auto simp: rf_wf_def list_all_iff)
  have name: "tl p \<notin> (rd_name \<circ> snd) ` set (rf_list v)"
    using assms(2,3) by (auto simp: rf_content_def rf_names_def map_of_eq_None_iff image_image split_beta)
  have "rf_wf cap v'"
    using assms(1) fresh name unfolding rf_wf_def v'(2)
    by (simp add: dirent_bytes_def) (auto simp: list_all_iff)
  moreover have "rf_content v' = (rf_content v)(p \<mapsto> [])"
    using assms(2) fpath_tl by (auto simp: rf_content_def rf_names_def v'(2) dirent_bytes_def fun_eq_iff)
  ultimately show ?thesis by (simp add: v')
qed

lemma ramfs_open_fd:
  assumes "rf_wf cap v" "fpath p" "map_of (rf_list v) i = Some d" "rd_name d = tl p"
    "plain_flags (fd_flags f)" "rf_open_fd (RfDirent i) f v = (r, f', v')"
  shows "r = 0 \<and> rf_wf cap v' \<and> same_fd f f' \<and> fd_pos f' = 0
    \<and> rf_fdrel v' (fd_data f') (fd_size f') 0 p
    \<and> rf_content v' = (rf_content v)(p \<mapsto> after_open (fd_flags f) (Some (dirent_bytes d)))"
proof -
  have fl: "fd_flags f AND O_DIRECTORY = 0" "fd_flags f AND O_APPEND = 0"
    using assms(5) by (simp_all add: plain_flags_def)
  define d1 where "d1 = (if fd_flags f AND O_TRUNC \<noteq> 0 then d\<lparr>rd_size := 0, rd_data := None\<rparr> else d)"
  have L: "length (dirent_bytes d) = unat (rd_size d)" "unat (rd_size d) \<le> cap"
    using assms(1) map_of_SomeD [OF assms(3)] by (auto simp: rf_wf_def list_all_iff)
  have d1: "rd_name d1 = rd_name d" "length (dirent_bytes d1) = unat (rd_size d1)" "unat (rd_size d1) \<le> cap"
    "dirent_bytes d1 = after_open (fd_flags f) (Some (dirent_bytes d))"
    using L by (simp_all add: d1_def dirent_bytes_def after_open_def)
  have v': "v' = rf_put (RfDirent i) d1 v"
    using assms(6) fl put_same [OF assms(1,3)] assms(3)
    by (auto simp: rf_open_fd_def rf_get_def d1_def Let_def split: if_splits)
  have f': "r = 0" "f' = f\<lparr>fd_data := Some (RfDirent i), fd_size := rd_size d1, fd_pos := 0\<rparr>"
    using assms(6) fl assms(3)
    by (auto simp: rf_open_fd_def rf_get_def d1_def Let_def split: if_splits)
  have "rf_fdrel v' (fd_data f') (fd_size f') 0 p"
    using assms(3,4) d1(1) by (simp add: rf_fdrel_def v' f' rf_put_def put_map_of)
  then show ?thesis
    using wf_put [OF assms(1,3) d1(1-3)] content_put [OF assms(1,3) d1(1) assms(4,2)]
    by (simp add: v' f' d1(4) same_fd_def)
qed

lemma ramfs_open_ok:
  assumes "rf_wf cap v" "fpath p" "fd_path f = Some p" "plain_flags (fd_flags f)"
    "rf_content v p \<noteq> None \<or> fd_flags f AND O_CREAT \<noteq> 0" "dfs_ramfs_open f v = (r, f', v')"
  shows "0 \<le> r \<and> rf_wf cap v' \<and> same_fd f f' \<and> fd_pos f' = 0
    \<and> rf_fdrel v' (fd_data f') (fd_size f') 0 p
    \<and> rf_content v' = (rf_content v)(p \<mapsto> after_open (fd_flags f) (rf_content v p))"
  using assms(1,2)
proof (cases rule: ramfs_lookup_cases)
  case missing
  define v1 where "v1 = v\<lparr>rf_calls := Suc (rf_calls v)\<rparr>"
  obtain q v2 where c: "rf_create p v1 = (q, v2)" by (cases "rf_create p v1") auto
  have w1: "rf_wf cap v1" "rf_content v1 = rf_content v" using assms(1) by (simp_all add: v1_def)
  obtain i d where C: "rf_wf cap v2" "rf_content v2 = (rf_content v)(p \<mapsto> [])" "q = RfDirent i"
    "map_of (rf_list v2) i = Some d" "rd_name d = tl p" "rd_data d = None"
    using wf_create [OF w1(1) assms(2) _ c] w1(2) missing(1) by auto
  have "rf_open_fd (RfDirent i) f v2 = (r, f', v')"
    using assms missing c C(3) wf_alloc [OF assms(1), of 48]
    by (simp add: dfs_ramfs_open_def plain_flags_def v1_def)
  from ramfs_open_fd [OF C(1) assms(2) C(4,5) assms(4) this] show ?thesis
    using C(2,6) missing(1) by (simp add: after_open_def dirent_bytes_def)
next
  case (found i d)
  then have "rf_open_fd (RfDirent i) f v = (r, f', v')"
    using assms by (simp add: dfs_ramfs_open_def plain_flags_def)
  from ramfs_open_fd [OF assms(1,2) found(2,3) assms(4) this] show ?thesis
    using found(5) by simp
qed

lemma ramfs_open_fail:
  assumes "rf_wf cap v" "fpath p" "fd_path f = Some p" "plain_flags (fd_flags f)"
    "rf_content v p = None" "fd_flags f AND O_CREAT = 0" "dfs_ramfs_open f v = (r, f', v')"
  shows "r < 0 \<and> rf_wf cap v' \<and> same_fd f f' \<and> rf_content v' = rf_content v"
  using assms(1,2)
  by (cases rule: ramfs_lookup_cases)
    (use assms in \<open>auto simp: dfs_ramfs_open_def plain_flags_def ENOENT_def same_fd_def\<close>)

lemma ramfs_read_ok:
  assumes "rf_wf cap v" "fpath p" "rf_fdrel v (fd_data f) (fd_size f) (fd_pos f) p"
    "rf_content v p = Some c" "dfs_ramfs_read f n v = (r, bs, f', v')"
  shows "bs = window (unat (fd_pos f)) (unat n) c \<and> r = int (length bs) \<and> rf_wf cap v' \<and> same_fd f f'
    \<and> rf_fdrel v' (fd_data f') (fd_size f') (fd_pos f') p
    \<and> unat (fd_pos f') = unat (fd_pos f) + length bs \<and> rf_content v' = rf_content v"
  using assms(1,2,3)
proof (rule fdrelE)
  fix i d
  assume h: "fd_data f = Some (RfDirent i)" "map_of (rf_list v) i = Some d" "rd_name d = tl p"
    "fd_size f = rd_size d" "fd_pos f \<le> fd_size f" "rf_content v p = Some (dirent_bytes d)"
    "length (dirent_bytes d) = unat (fd_size f)" "unat (fd_size f) \<le> cap"
  define left where "left = fd_size f - fd_pos f"
  define len where "len = (if n < left then n else left)"
  have left: "unat left = unat (fd_size f) - unat (fd_pos f)"
    using h(5) by (simp add: left_def unat_sub)
  have len: "unat len = min (unat n) (unat left)"
    by (simp add: len_def word_less_nat_alt)
  have le: "unat (fd_pos f) \<le> unat (fd_size f)" using h(5) by (simp add: word_le_nat_alt)
  have c: "c = dirent_bytes d" using h(6) assms(4) by simp
  have inside: "unat (fd_pos f) + unat len \<le> length c"
    using le left len h(7) c by simp
  have win: "window (unat (fd_pos f)) (unat len) c = window (unat (fd_pos f)) (unat n) c"
    using left len h(7) c by (simp add: window_def min_def) 
  have b: "unat len < 2147483648"
    using inside h(7,8) assms(1) c by (simp add: rf_wf_def)
  have pos: "unat (fd_pos f + len) = unat (fd_pos f) + unat len"
    using inside h(7,8) assms(1) c by (intro unat_add_lem [THEN iffD1]) (simp add: rf_wf_def)
  have "dfs_ramfs_read f n v = (sint len, window (unat (fd_pos f)) (unat len) c,
      f\<lparr>fd_pos := fd_pos f + len\<rparr>, v)"
    using inside by (simp add: dfs_ramfs_read_def rf_get_def h(1,2) Let_def c
        flip: left_def len_def)
  then have res: "r = sint len" "bs = window (unat (fd_pos f)) (unat len) c"
    "f' = f\<lparr>fd_pos := fd_pos f + len\<rparr>" "v' = v"
    using assms(5) by simp_all
  have lb: "length bs = unat len" using inside by (simp add: res(2))
  have "sint len = int (unat len)"
    using b sint_of_nat_u32 [of "unat len"] by simp
  moreover have "fd_pos f + len \<le> fd_size f"
    using pos inside h(7) c by (simp add: word_le_nat_alt)
  ultimately show ?thesis
    using assms(1,3) h lb pos res(1,3,4) win
    by (simp add: res(2) same_fd_def rf_fdrel_def)
qed

lemma overwrite_resize:
  assumes "p \<le> length b" "length b \<le> p + length ys"
  shows "overwrite p ys (rf_resize v (p + length ys) b) = overwrite p ys b"
  using assms by (simp add: overwrite_def rf_resize_def)

lemma ramfs_write_ok:
  assumes "rf_wf cap v" "fpath p" "rf_fdrel v (fd_data f) (fd_size f) (fd_pos f) p"
    "rf_content v p = Some c" "unat (fd_pos f) + length ys \<le> cap" "dfs_ramfs_write f ys v = (r, f', v')"
  shows "r = int (length ys) \<and> rf_wf cap v' \<and> same_fd f f'
    \<and> rf_fdrel v' (fd_data f') (fd_size f') (fd_pos f') p
    \<and> unat (fd_pos f') = unat (fd_pos f) + length ys
    \<and> rf_content v' = (rf_content v)(p \<mapsto> overwrite (unat (fd_pos f)) ys c)"
  using assms(1,2,3)
proof (rule fdrelE)
  fix i d
  assume h: "fd_data f = Some (RfDirent i)" "map_of (rf_list v) i = Some d" "rd_name d = tl p"
    "fd_size f = rd_size d" "fd_pos f \<le> fd_size f" "rf_content v p = Some (dirent_bytes d)"
    "length (dirent_bytes d) = unat (fd_size f)" "unat (fd_size f) \<le> cap"
  have cap: "cap < 2147483648" using assms(1) by (simp add: rf_wf_def)
  have c: "c = dirent_bytes d" using h(6) assms(4) by simp
  have le: "unat (fd_pos f) \<le> length c" using h(5,7) c by (simp add: word_le_nat_alt)
  define count where "count = (of_nat (length ys) :: u32)"
  have count: "unat count = length ys"
    using assms(5) cap by (simp add: count_def unat_of_nat_u32)
  have pos: "unat (fd_pos f + count) = unat (fd_pos f) + length ys"
    using assms(5) cap count by (subst unat_add_lem [THEN iffD1]) simp_all
  have grow: "count + fd_pos f > fd_size f \<longleftrightarrow> length c < unat (fd_pos f) + length ys"
    using pos h(7) c by (simp add: word_less_nat_alt add.commute)
  have si: "sint count = int (length ys)"
    using assms(5) cap by (simp add: count_def sint_of_nat_u32)
  have ex: "\<exists>d2 sz k. d2 = d\<lparr>rd_data := rd_data d2, rd_size := sz\<rparr> \<and> rd_name d2 = rd_name d
      \<and> dirent_bytes d2 = overwrite (unat (fd_pos f)) ys c \<and> unat sz = length (dirent_bytes d2)
      \<and> dfs_ramfs_write f ys v = (sint count, f\<lparr>fd_size := sz, fd_pos := fd_pos f + count\<rparr>,
          rf_put (RfDirent i) d2 (v\<lparr>rf_calls := k\<rparr>))"
  proof (cases "length c < unat (fd_pos f) + length ys")
    case True
    define d1 where "d1 = d\<lparr>rd_data := Some (rf_resize v (unat (fd_pos f + count)) (dirent_bytes d)),
      rd_size := fd_pos f + count\<rparr>"
    have b1: "dirent_bytes d1 = rf_resize v (unat (fd_pos f) + length ys) c"
      by (simp add: d1_def dirent_bytes_def pos c)
    have l1: "length (dirent_bytes d1) = unat (fd_pos f) + length ys"
      using True le by (simp add: b1 rf_resize_def)
    have ne: "ys \<noteq> []" using True le by auto
    have "dfs_ramfs_write f ys v = (sint count, f\<lparr>fd_size := fd_pos f + count, fd_pos := fd_pos f + count\<rparr>,
          rf_put (RfDirent i) (d1\<lparr>rd_data := Some (overwrite (unat (fd_pos f)) ys (dirent_bytes d1))\<rparr>)
            (v\<lparr>rf_calls := Suc (rf_calls v)\<rparr>))"
      using True ne l1 assms(5) wf_alloc [OF assms(1), of "unat (fd_pos f + count)"]
      by (simp add: dfs_ramfs_write_def h(1,2) rf_get_def Let_def grow pos d1_def flip: count_def)
    moreover have "overwrite (unat (fd_pos f)) ys (dirent_bytes d1) = overwrite (unat (fd_pos f)) ys c"
      using True le by (simp add: b1 overwrite_resize)
    ultimately show ?thesis
      using True le
      by (intro exI [of _ "d1\<lparr>rd_data := Some (overwrite (unat (fd_pos f)) ys (dirent_bytes d1))\<rparr>"]
          exI [of _ "fd_pos f + count"] exI [of _ "Suc (rf_calls v)"])
        (simp add: d1_def dirent_bytes_def pos)
  next
    case False
    define d2 where "d2 = (if ys = [] then d
      else d\<lparr>rd_data := Some (overwrite (unat (fd_pos f)) ys (dirent_bytes d))\<rparr>)"
    have "dfs_ramfs_write f ys v = (sint count, f\<lparr>fd_pos := fd_pos f + count\<rparr>, rf_put (RfDirent i) d2 v)"
      using False by (simp add: dfs_ramfs_write_def h(1,2) rf_get_def Let_def grow d2_def c
          flip: count_def)
    moreover have "dirent_bytes d2 = overwrite (unat (fd_pos f)) ys c"
      by (simp add: d2_def c dirent_bytes_def overwrite_def)
    moreover have "d2 = d\<lparr>rd_data := rd_data d2, rd_size := fd_size f\<rparr>"
      by (simp add: d2_def h(4))
    ultimately show ?thesis
      using False le h(7) c by (intro exI [of _ d2] exI [of _ "fd_size f"] exI [of _ "rf_calls v"])
        (simp add: d2_def)
  qed
  then obtain d2 sz k where d2: "d2 = d\<lparr>rd_data := rd_data d2, rd_size := sz\<rparr>" "rd_name d2 = rd_name d"
      "dirent_bytes d2 = overwrite (unat (fd_pos f)) ys c" "unat sz = length (dirent_bytes d2)"
      "r = int (length ys)" "f' = f\<lparr>fd_size := sz, fd_pos := fd_pos f + count\<rparr>"
      "v' = rf_put (RfDirent i) d2 (v\<lparr>rf_calls := k\<rparr>)"
    using assms(6) si by auto
  have sz: "rd_size d2 = sz" by (subst d2(1)) simp
  have len: "length (dirent_bytes d2) = max (length c) (unat (fd_pos f) + length ys)"
    using le by (simp add: d2(3))
  have w: "rf_wf cap (v\<lparr>rf_calls := k\<rparr>)" "map_of (rf_list (v\<lparr>rf_calls := k\<rparr>)) i = Some d"
    using assms(1) h(2) by simp_all
  have "rf_wf cap v'"
    unfolding d2(7) by (rule wf_put [OF w d2(2)]) (use len h(7,8) c assms(5) in \<open>simp_all add: sz d2(4)\<close>)
  moreover have "rf_content v' = (rf_content v)(p \<mapsto> overwrite (unat (fd_pos f)) ys c)"
    using content_put [OF w d2(2) h(3) assms(2)] by (simp add: d2(7) d2(3))
  moreover have "rf_fdrel v' (fd_data f') (fd_size f') (fd_pos f') p"
    using h(1,2,3) d2(2) pos len
    by (simp add: d2(6,7) rf_fdrel_def rf_put_def put_map_of sz word_le_nat_alt d2(4))
  ultimately show ?thesis
    by (simp add: d2(5) d2(6) same_fd_def pos)
qed

lemma ramfs_lseek_ok:
  assumes "rf_wf cap v" "fpath p" "rf_fdrel v (fd_data f) (fd_size f) (fd_pos f) p"
    "rf_content v p = Some c" "0 \<le> ofs" "ofs \<le> int (length c)" "dfs_ramfs_lseek f ofs v = (r, f', v')"
  shows "r = ofs \<and> rf_wf cap v' \<and> same_fd f f' \<and> rf_content v' = rf_content v
    \<and> rf_fdrel v' (fd_data f') (fd_size f') (word_of_int ofs) p"
  using assms(1,2,3)
proof (rule fdrelE)
  fix i d
  assume h: "fd_data f = Some (RfDirent i)" "map_of (rf_list v) i = Some d" "rd_name d = tl p"
    "fd_size f = rd_size d" "rf_content v p = Some (dirent_bytes d)"
    "length (dirent_bytes d) = unat (fd_size f)" "unat (fd_size f) \<le> cap"
  have sz: "length c = unat (fd_size f)" using h(5,6) assms(4) by simp
  have cap: "unat (fd_size f) < 2147483648" using h(7) assms(1) by (simp add: rf_wf_def)
  have "sint (fd_size f) = int (length c)"
    using sint_of_nat_u32 [OF cap] by (simp add: sz)
  moreover have "sint (word_of_int ofs :: u32) = ofs"
    using assms(5,6) cap sz by (intro sint_of_int_u32) linarith+
  moreover have "(word_of_int ofs :: u32) \<le> fd_size f"
  proof -
    have "unat (word_of_int ofs :: u32) = nat ofs"
      by (rule unat_of_int_u32) (use assms(5,6) cap sz in linarith)+
    moreover have "nat ofs \<le> unat (fd_size f)" using assms(5,6) sz by linarith
    ultimately show ?thesis by (simp only: word_le_nat_alt)
  qed
  ultimately show ?thesis
    using assms h by (auto simp: dfs_ramfs_lseek_def same_fd_def rf_fdrel_def)
qed

lemma ramfs_close_ok:
  "rf_wf cap v \<Longrightarrow> dfs_ramfs_close f v = (r, f', v')
   \<Longrightarrow> 0 \<le> r \<and> rf_wf cap v' \<and> same_fd f f' \<and> rf_content v' = rf_content v"
  by (auto simp: dfs_ramfs_close_def same_fd_def)

lemma ramfs_unlink_ok:
  assumes "rf_wf cap v" "fpath p" "rf_content v p \<noteq> None" "dfs_ramfs_unlink p v = (r, v')"
  shows "0 \<le> r \<and> rf_wf cap v' \<and> rf_content v' = (rf_content v)(p := None)"
  using assms(1,2)
proof (cases rule: ramfs_lookup_cases)
  case missing then show ?thesis using assms(3) by simp
next
  case (found i d)
  then have v': "r = 0" "v' = v\<lparr>rf_list := filter (\<lambda>(j, e). j \<noteq> i) (rf_list v)\<rparr>"
    using assms(4) by (simp_all add: dfs_ramfs_unlink_def)
  have "rf_names (rf_list v') = (rf_names (rf_list v))(tl p := None)"
    using names_filter [OF _ _ found(4)] assms(1) found(3) by (simp add: v' rf_wf_def)
  then have "rf_content v' = (rf_content v)(p := None)"
    using assms(2) fpath_tl by (auto simp: rf_content_def fun_eq_iff)
  moreover have "rf_wf cap v'"
    using assms(1) unfolding rf_wf_def v'
    by (simp add: distinct_map_filter) (auto simp: list_all_iff)
  ultimately show ?thesis by (simp add: v')
qed

lemma ramfs_unlink_fail:
  assumes "rf_wf cap v" "fpath p" "rf_content v p = None" "dfs_ramfs_unlink p v = (r, v')"
  shows "r < 0 \<and> rf_wf cap v' \<and> rf_content v' = rf_content v"
  using assms(1,2)
  by (cases rule: ramfs_lookup_cases) (use assms in \<open>auto simp: dfs_ramfs_unlink_def ENOENT_def\<close>)

lemma ramfs_stat_ok:
  assumes "rf_wf cap v" "fpath p" "rf_content v p = Some c" "dfs_ramfs_stat p v = (r, sz, v')"
  shows "r = 0 \<and> sz = of_nat (length c) \<and> rf_wf cap v' \<and> rf_content v' = rf_content v"
  using assms(1,2)
proof (cases rule: ramfs_lookup_cases)
  case missing then show ?thesis using assms(3) by simp
next
  case (found i d)
  then have "length (dirent_bytes d) = unat (rd_size d)"
    using assms(1) by (auto simp: rf_wf_def list_all_iff)
  then show ?thesis
    using found assms by (auto simp: dfs_ramfs_stat_def rf_get_def)
qed

lemma ramfs_stat_fail:
  assumes "rf_wf cap v" "fpath p" "rf_content v p = None" "dfs_ramfs_stat p v = (r, sz, v')"
  shows "r < 0 \<and> rf_wf cap v' \<and> rf_content v' = rf_content v"
  using assms(1,2)
  by (cases rule: ramfs_lookup_cases) (use assms in \<open>auto simp: dfs_ramfs_stat_def ENOENT_def\<close>)

text \<open>The capacity of the application's files: the member file of 200 users and the attendance
  records stay far below it.\<close>

definition disk_cap :: nat where "disk_cap = 16777216"

interpretation ram: byte_driver ramfs_ops rf_content rf_fdrel "rf_wf disk_cap" disk_cap
  dfs_ramfs_open dfs_ramfs_close dfs_ramfs_read dfs_ramfs_write dfs_ramfs_lseek dfs_ramfs_unlink
  dfs_ramfs_stat
proof (unfold_locales, goal_cases)
  case (9 v p c)
  then have "fpath p" by (auto simp: rf_content_def split: if_splits)
  with 9(1) show ?case
    by (cases rule: ramfs_lookup_cases) (use 9 in \<open>auto simp: rf_wf_def list_all_iff\<close>)
next
  case (10 v p f r f' v') then show ?case by (intro ramfs_open_ok)
next
  case (11 v p f r f' v') then show ?case by (intro ramfs_open_fail)
next
  case (12 v p f r f' v') then show ?case by (intro ramfs_close_ok)
next
  case (13 v p h sz pos)
  from 13(1,2,3) show ?case by (rule fdrelE) (auto simp: word_le_nat_alt)
next
  case 14 then show ?case by (intro ramfs_read_ok)
next
  case 15 then show ?case by (intro ramfs_write_ok)
next
  case 16 then show ?case by (intro ramfs_lseek_ok)
next
  case 17 then show ?case by (intro ramfs_unlink_ok)
next
  case 18 then show ?case by (intro ramfs_unlink_fail)
next
  case 19 then show ?case by (intro ramfs_stat_ok)
next
  case 20 then show ?case by (intro ramfs_stat_fail)
qed (simp_all add: ramfs_ops_def disk_cap_def)

end
