(* ===== verification/Board.thy ===== *)
theory Board imports RamFsOk begin

text \<open>The platform made concrete: the RAM file system mounted at the root, holding given files, and
  a toy CRC unit.  The theorems about the application are applied to it in their witnesses.\<close>

type_synonym board = "(ramfs, rf_ptr) dfs"

definition board_feed :: "u32 \<Rightarrow> u32 \<Rightarrow> u32" where
  "board_feed dr w = push_bit 1 dr XOR w XOR drop_bit 31 dr"

definition board_plat :: "board plat" where
  "board_plat = dfs_plat 0xFFFFFFFF board_feed"

definition board_dirents :: "(string \<times> bytes) list \<Rightarrow> (nat \<times> ramfs_dirent) list" where
  "board_dirents fs = zip [0..<length fs]
     (map (\<lambda>(n, b). \<lparr>rd_name = n, rd_data = Some b, rd_size = of_nat (length b)\<rparr>) fs)"

definition board_vol :: "(string \<times> bytes) list \<Rightarrow> ramfs" where
  "board_vol fs = \<lparr>rf_root = \<lparr>rd_name = ''.'', rd_data = None, rd_size = 0\<rparr>, rf_list = board_dirents fs,
     rf_next = length fs, rf_heap = (\<lambda>_ _. True), rf_calls = 0, rf_junk = (\<lambda>_. 0), rf_errno = 0,
     rf_fault = False\<rparr>"

definition board_init :: "(string \<times> bytes) list \<Rightarrow> board" where
  "board_init fs = mstate ramfs_ops \<lparr>fs_path = None, fs_ops = None, fs_data = board_vol []\<rparr> fd_zero
     (board_vol fs) 0 0"

definition board_file :: "board \<Rightarrow> string \<Rightarrow> bytes option" where
  "board_file = dfs_content rf_content"

definition board_ready :: "board \<Rightarrow> bool" where
  "board_ready = dfs_ready ramfs_ops rf_fdrel (rf_wf disk_cap)"

lemma board_names:
  "map (\<lambda>(i, d). (rd_name d, d)) (zip ks (map (\<lambda>(n, b). \<lparr>rd_name = n, rd_data = Some b, rd_size = sz b\<rparr>) fs))
   = map (\<lambda>(n, b). (n, \<lparr>rd_name = n, rd_data = Some b, rd_size = sz b\<rparr>)) fs"
  if "length ks = length fs"
  using that by (induction ks fs rule: list_induct2) auto

lemma map_of_map_value: "map_of (map (\<lambda>(n, b). (n, f n b)) fs) k = map_option (f k) (map_of fs k)"
  by (induction fs) auto

text \<open>The files of the board.\<close>

lemma board_file_init: "fpath p \<Longrightarrow> board_file (board_init fs) p = map_of fs (tl p)"
  by (simp add: board_file_def board_init_def dfs_content_def mstate_mount board_vol_def rf_content_def
      rf_names_def board_dirents_def board_names map_of_map_value dirent_bytes_def
      option.map_comp comp_def map_option_case split: option.splits)

lemma board_vol_wf:
  assumes "distinct (map fst fs)" "\<forall>(n, b) \<in> set fs. length b \<le> disk_cap"
  shows "rf_wf disk_cap (board_vol fs)"
proof -
  have "map (rd_name \<circ> snd) (board_dirents fs) = map fst fs"
    by (rule nth_equalityI) (auto simp: board_dirents_def split: prod.splits)
  moreover have "map fst (board_dirents fs) = [0..<length fs]"
    by (simp add: board_dirents_def)
  moreover have "i < length fs \<and> length (dirent_bytes d) = unat (rd_size d) \<and> unat (rd_size d) \<le> disk_cap"
    if mem: "(i, d) \<in> set (board_dirents fs)" for i d
  proof -
    obtain n b where fs: "i < length fs" "fs ! i = (n, b)"
      and d: "d = \<lparr>rd_name = n, rd_data = Some b, rd_size = of_nat (length b)\<rparr>"
      using mem by (cases "fs ! i") (auto simp: board_dirents_def in_set_zip)
    then have "(n, b) \<in> set fs" by (metis nth_mem)
    with fs d have "(n, b) \<in> set fs" "i < length fs"
      "d = \<lparr>rd_name = n, rd_data = Some b, rd_size = of_nat (length b)\<rparr>" by simp_all
    then show ?thesis
      using assms(2) by (force simp: dirent_bytes_def unat_of_nat_u32 disk_cap_def)
  qed
  ultimately show ?thesis
    using assms(1) by (auto simp: rf_wf_def board_vol_def list_all_iff disk_cap_def)
qed

lemma board_ok:
  assumes "distinct (map fst fs)" "\<forall>(n, b) \<in> set fs. length b \<le> disk_cap"
  shows "files_ok board_plat board_file dfs_sess board_ready disk_cap (board_init fs)"
proof (rule files_okI)
  show "posix_files board_plat board_file dfs_sess board_ready disk_cap"
    unfolding board_plat_def board_file_def board_ready_def by (rule ram.files.posix_files_axioms)
  then show "posix_files.idle dfs_sess board_ready (board_init fs)"
    using ram.readyI_idle [OF board_vol_wf [OF assms]]
    by (simp add: posix_files.idle_def board_ready_def board_init_def dfs_sess_def mstate_fd)
qed

end
