(* ===== verification/EspSpi.thy ===== *)
theory EspSpi imports Prelude begin

text \<open>esp8266.c: the framed SPI link to the WiFi module.  A packet is cut into frames of 32 bytes, a
  command byte (first and last markers and the number of payload bytes) and up to 31 bytes of
  payload; the receiver puts the frames together again in \<open>recv_pack\<close>.  The bus transfer itself is
  hardware: sent frames are the output of the model, received frames its input.  How long the
  interrupt that signals the module's readiness takes is the argument \<open>delay\<close>: the number of polls
  before the flag is seen set, for each frame.\<close>

definition start_bit :: u8 where "start_bit = 0x80"
definition end_bit :: u8 where "end_bit = 0x40"
definition SPI_TIMEOUT :: nat where "SPI_TIMEOUT = 50000"
definition RECV_SIZE :: nat where "RECV_SIZE = 5120"

lemmas frame_bits = start_bit_def end_bit_def

subsection \<open>Transfers\<close>

text \<open>\<open>esp8266_spi_transmit\<close>: the 34 bytes put on the bus, if any, and the caller's buffer
  afterwards; \<open>xfer\<close> is the bus.\<close>

definition esp8266_spi_transmit :: "(bytes \<Rightarrow> bytes) \<Rightarrow> u8 \<Rightarrow> u8 \<Rightarrow> bytes \<Rightarrow> bytes option \<times> bytes" where
  "esp8266_spi_transmit xfer cmd addr buf =
     (if cmd \<noteq> 2 \<and> cmd \<noteq> 3 then (None, buf)
      else let w = [cmd, addr] @ (if cmd = 2 then take 32 buf else replicate 32 0); r = xfer w in
        (Some w, if cmd = 3 then window 2 32 r else buf))"

subsection \<open>Sending\<close>

definition spi_num :: "nat \<Rightarrow> nat" where
  "spi_num lenth = (if lenth mod 31 = 0 then lenth div 31 else lenth div 31 + 1)"

definition spi_last :: "nat \<Rightarrow> nat" where
  "spi_last lenth = (if lenth mod 31 = 0 then 31 else lenth mod 31)"

definition spi_command :: "nat \<Rightarrow> nat \<Rightarrow> nat \<Rightarrow> u8" where
  "spi_command num lb i = (if i \<noteq> num - 1 then 31 else end_bit OR of_nat lb)
     OR (if i = 0 then start_bit else 0)"

text \<open>The loop over the frames \<open>i\<close> to \<open>i + k - 1\<close>; \<open>t\<close> is what is left of the timeout of the whole
  packet, \<open>buf\<close> the frame buffer, which is not cleared between frames.\<close>

fun spi_write_loop :: "(nat \<Rightarrow> nat) \<Rightarrow> bytes \<Rightarrow> nat \<Rightarrow> nat \<Rightarrow> nat \<Rightarrow> nat \<Rightarrow> nat \<Rightarrow> bytes \<Rightarrow> int \<times> bytes list"
  where
  "spi_write_loop delay pack num lb 0 i t buf = (0, [])"
| "spi_write_loop delay pack num lb (Suc k) i t buf =
     (let n = (if i = num - 1 then lb else 31);
          buf1 = overwrite 1 (window (i * 31) n pack) (buf[0 := spi_command num lb i]);
          t1 = t - min (delay i) t in
      if t1 = 0 then (-1, [])
      else (case spi_write_loop delay pack num lb k (Suc i) t1 buf1 of (r, out) \<Rightarrow> (r, buf1 # out)))"

definition esp8266_spi_write :: "(nat \<Rightarrow> nat) \<Rightarrow> bytes \<Rightarrow> bytes \<Rightarrow> int \<times> bytes list" where
  "esp8266_spi_write delay buf pack = spi_write_loop delay pack (spi_num (length pack))
     (spi_last (length pack)) (spi_num (length pack)) 0 SPI_TIMEOUT buf"

subsection \<open>Receiving\<close>

record spi_rx =
  rx_receiving :: bool
  pack_counter :: nat
  recv_pack :: bytes
  recv_lenth :: u32
  is_recv_pack :: bool

text \<open>\<open>esp8266_spi_read\<close> on the frame just read from the bus.  \<open>None\<close> when the length field exceeds the
  31 payload bytes of a frame or the packet does not fit the buffer: the code then reads or writes
  outside its arrays.\<close>

definition esp8266_spi_read :: "bytes \<Rightarrow> spi_rx \<Rightarrow> (int \<times> spi_rx) option" where
  "esp8266_spi_read buf st =
     (if is_recv_pack st then Some (-1, st)
      else
        let cmd = buf ! 0;
            st1 = (if cmd AND start_bit = start_bit
                   then st\<lparr>rx_receiving := True, pack_counter := 0, recv_lenth := 0\<rparr> else st) in
        if \<not> rx_receiving st1 then Some (-1, st1)
        else
          let fin = (cmd AND end_bit = end_bit);
              n = (if fin then unat (cmd AND 0x3f) else 31);
              st2 = st1\<lparr>recv_lenth := recv_lenth st1 + ucast (cmd AND 0x3f)\<rparr>;
              ofs = pack_counter st1 * 31 in
          if n > 31 \<or> ofs + n > length (recv_pack st1) then None
          else
            let st3 = st2\<lparr>recv_pack := overwrite ofs (window 1 n buf) (recv_pack st1)\<rparr> in
            if fin then Some (0, st3\<lparr>rx_receiving := False, is_recv_pack := True\<rparr>)
            else Some (-1, st3\<lparr>pack_counter := Suc (pack_counter st1)\<rparr>))"

fun spi_read_all :: "bytes list \<Rightarrow> spi_rx \<Rightarrow> (int list \<times> spi_rx) option" where
  "spi_read_all [] st = Some ([], st)"
| "spi_read_all (f # fs) st = (case esp8266_spi_read f st of None \<Rightarrow> None
     | Some (r, st1) \<Rightarrow> (case spi_read_all fs st1 of None \<Rightarrow> None
         | Some (rs, st2) \<Rightarrow> Some (r # rs, st2)))"

subsection \<open>Frames\<close>

lemma spi_num_bounds:
  assumes "0 < n"
  shows "0 < spi_num n" "spi_last n \<le> 31" "0 < spi_last n" "n = 31 * (spi_num n - 1) + spi_last n"
proof -
  have e: "n = 31 * (n div 31) + n mod 31" by simp
  have "n div 31 \<noteq> 0" if "n mod 31 = 0" using that assms e by auto
  then show "0 < spi_num n" "0 < spi_last n" by (auto simp: spi_num_def spi_last_def)
  show "spi_last n \<le> 31" by (auto simp: spi_last_def intro: less_imp_le)
  show "n = 31 * (spi_num n - 1) + spi_last n"
  proof (cases "n mod 31 = 0")
    case True
    then obtain q where q: "n = 31 * q" by (metis dvd_def mod_eq_0_iff_dvd)
    then show ?thesis using assms by (cases q) (auto simp: spi_num_def spi_last_def)
  next
    case False
    then show ?thesis using e by (simp add: spi_num_def spi_last_def)
  qed
qed

text \<open>The command byte read back by the receiver.\<close>

definition command_ok :: "nat \<Rightarrow> bool" where
  "command_ok n = (\<forall>st \<in> {0, start_bit}.
     ((end_bit OR of_nat n) OR st) AND end_bit = end_bit
     \<and> unat (((end_bit OR of_nat n) OR st) AND (0x3f :: u8)) = n
     \<and> (((end_bit OR of_nat n) OR st) AND start_bit = start_bit) = (st \<noteq> 0)
     \<and> ((31 OR st) AND end_bit \<noteq> end_bit) \<and> unat ((31 OR st) AND (0x3f :: u8)) = 31
     \<and> ((31 OR st) AND start_bit = start_bit) = (st \<noteq> 0))"

lemma command_ok_all: "list_all command_ok [0..<32]"
  by code_simp

lemma command_ok: "n < 32 \<Longrightarrow> command_ok n"
  using command_ok_all by (simp add: list_all_iff)

subsection \<open>What the sender puts on the bus\<close>

definition frame_len :: "bytes \<Rightarrow> nat \<Rightarrow> nat" where
  "frame_len pack i = (if i = spi_num (length pack) - 1 then spi_last (length pack) else 31)"

definition frame_of :: "bytes \<Rightarrow> nat \<Rightarrow> bytes \<Rightarrow> bool" where
  "frame_of pack i f = (length f = 32
     \<and> f ! 0 = spi_command (spi_num (length pack)) (spi_last (length pack)) i
     \<and> window 1 (frame_len pack i) f = window (31 * i) (frame_len pack i) pack)"

lemma frame_len_bounds:
  assumes "pack \<noteq> []" "i < spi_num (length pack)"
  shows "0 < frame_len pack i" "frame_len pack i \<le> 31" "31 * i + frame_len pack i \<le> length pack"
proof -
  have n: "0 < length pack" using assms(1) by simp
  note B = spi_num_bounds [OF n]
  show "0 < frame_len pack i" "frame_len pack i \<le> 31" using B by (auto simp: frame_len_def)
  show "31 * i + frame_len pack i \<le> length pack"
  proof (cases "i = spi_num (length pack) - 1")
    case True
    then show ?thesis using B(4) by (simp add: frame_len_def)
  next
    case False
    then have "i + 1 \<le> spi_num (length pack) - 1" using assms(2) by linarith
    then have "31 * i + 31 \<le> 31 * (spi_num (length pack) - 1)" by linarith
    then show ?thesis using False B(4) by (simp add: frame_len_def)
  qed
qed

lemma spi_write_loop_frames:
  assumes "pack \<noteq> []" "i + k = spi_num (length pack)" "length buf = 32" "(\<Sum>j\<leftarrow>[i..<i + k]. delay j) < t"
  shows "\<exists>out. spi_write_loop delay pack (spi_num (length pack)) (spi_last (length pack)) k i t buf = (0, out)
    \<and> length out = k \<and> (\<forall>j < k. frame_of pack (i + j) (out ! j))"
  using assms(2-4)
proof (induction k arbitrary: i t buf)
  case 0
  then show ?case by simp
next
  case (Suc k)
  have i: "i < spi_num (length pack)" using Suc.prems(1) by simp
  note B = frame_len_bounds [OF assms(1) i]
  define f where "f = overwrite 1 (window (i * 31) (frame_len pack i) pack)
    (buf[0 := spi_command (spi_num (length pack)) (spi_last (length pack)) i])"
  have wl: "length (window (i * 31) (frame_len pack i) pack) = frame_len pack i"
    using B(3) by (simp add: mult.commute)
  have fl: "length f = 32" using Suc.prems(2) B(2) wl by (simp add: f_def)
  have f0: "f ! 0 = spi_command (spi_num (length pack)) (spi_last (length pack)) i"
    using Suc.prems(2) by (cases buf) (simp_all add: f_def overwrite_def)
  have fw: "window 1 (frame_len pack i) f = window (31 * i) (frame_len pack i) pack"
    using Suc.prems(2) wl by (simp add: f_def mult.commute)
  have fr: "frame_of pack i f" using fl f0 fw by (simp add: frame_of_def)
  have sum: "(\<Sum>j\<leftarrow>[i..<i + Suc k]. delay j) = delay i + (\<Sum>j\<leftarrow>[Suc i..<Suc i + k]. delay j)"
    by (simp add: upt_rec)
  have d: "delay i < t" "t - delay i \<noteq> 0" "min (delay i) t = delay i"
    using Suc.prems(3) unfolding sum by simp_all
  have "(\<Sum>j\<leftarrow>[Suc i..<Suc i + k]. delay j) < t - delay i"
    using Suc.prems(3) unfolding sum by linarith
  then obtain out where out: "spi_write_loop delay pack (spi_num (length pack)) (spi_last (length pack)) k (Suc i)
      (t - delay i) f = (0, out)" "length out = k" "\<forall>j < k. frame_of pack (Suc i + j) (out ! j)"
    using Suc.IH [OF _ fl, of "Suc i"] Suc.prems(1) by auto
  have "spi_write_loop delay pack (spi_num (length pack)) (spi_last (length pack)) (Suc k) i t buf = (0, f # out)"
    using out(1) d unfolding spi_write_loop.simps Let_def frame_len_def [symmetric] f_def [symmetric] by simp
  moreover have "frame_of pack (i + j) ((f # out) ! j)" if "j < Suc k" for j
    using that fr out(3) by (cases j) auto
  ultimately show ?case using out(2) by (intro exI [of _ "f # out"]) simp
qed

subsection \<open>What the receiver makes of it\<close>

definition rx_at :: "bytes \<Rightarrow> nat \<Rightarrow> spi_rx \<Rightarrow> bool" where
  "rx_at pack i st = (length (recv_pack st) = RECV_SIZE \<and> \<not> is_recv_pack st
     \<and> (0 < i \<longrightarrow> rx_receiving st \<and> pack_counter st = i \<and> recv_lenth st = of_nat (31 * i)
          \<and> window 0 (31 * i) (recv_pack st) = window 0 (31 * i) pack))"

lemma read_frame:
  assumes "pack \<noteq> []" "length pack \<le> RECV_SIZE" "i < spi_num (length pack)" "frame_of pack i f" "rx_at pack i st"
  shows "if i = spi_num (length pack) - 1
    then \<exists>st'. esp8266_spi_read f st = Some (0, st') \<and> is_recv_pack st' \<and> \<not> rx_receiving st'
      \<and> recv_lenth st' = of_nat (length pack) \<and> length (recv_pack st') = RECV_SIZE
      \<and> window 0 (length pack) (recv_pack st') = pack
    else \<exists>st'. esp8266_spi_read f st = Some (-1, st') \<and> rx_at pack (Suc i) st'"
proof -
  let ?n = "frame_len pack i" and ?num = "spi_num (length pack)" and ?lb = "spi_last (length pack)"
  have n0: "0 < length pack" using assms(1) by simp
  note B = frame_len_bounds [OF assms(1,3)] and N = spi_num_bounds [OF n0]
  define st0 where "st0 = (if i = 0 then st\<lparr>rx_receiving := True, pack_counter := 0, recv_lenth := 0\<rparr> else st)"
  have f0: "f ! 0 = spi_command ?num ?lb i" using assms(4) by (simp add: frame_of_def)
  define sb where "sb = (if i = 0 then start_bit else 0)"
  have sb: "sb \<in> {0, start_bit}" "(sb \<noteq> 0) = (i = 0)" by (auto simp: sb_def start_bit_def)
  have lb: "?lb < 32" using N(2) by linarith
  note C = command_ok [OF lb, unfolded command_ok_def, THEN bspec, OF sb(1)]
  have f0': "f ! 0 = (if i = ?num - 1 then end_bit OR of_nat ?lb else 31) OR sb"
    by (simp add: f0 spi_command_def sb_def)
  have fin: "(f ! 0 AND end_bit = end_bit) = (i = ?num - 1)"
    using C by (cases "i = ?num - 1") (simp_all add: f0')
  have len: "unat (f ! 0 AND 0x3f) = ?n"
    using C by (cases "i = ?num - 1") (simp_all add: f0' frame_len_def)
  have start: "(f ! 0 AND start_bit = start_bit) = (i = 0)"
    using C sb(2) by (cases "i = ?num - 1") (simp_all add: f0')
  have st1: "(if f ! 0 AND start_bit = start_bit
      then st\<lparr>rx_receiving := True, pack_counter := 0, recv_lenth := 0\<rparr> else st) = st0"
    by (simp add: st0_def start)
  have I: "rx_receiving st0" "pack_counter st0 = i" "recv_lenth st0 = of_nat (31 * i)"
    "length (recv_pack st0) = RECV_SIZE" "\<not> is_recv_pack st0"
    "window 0 (31 * i) (recv_pack st0) = window 0 (31 * i) pack"
    using assms(5) by (auto simp: st0_def rx_at_def)
  define fb where "fb = (i = ?num - 1)"
  have fin': "(f ! 0 AND end_bit = end_bit) = fb" by (simp add: fin fb_def)
  have m: "(if fb then unat (f ! 0 AND 0x3f) else 31) = ?n"
    by (simp add: len frame_len_def fb_def)
  have uc: "ucast (f ! 0 AND 0x3f) = (of_nat ?n :: u32)"
  proof -
    have "ucast (f ! 0 AND 0x3f) = (of_nat (unat (f ! 0 AND 0x3f)) :: u32)" by simp
    then show ?thesis by (simp only: len)
  qed
  let ?rp = "overwrite (31 * i) (window (31 * i) ?n pack) (recv_pack st0)"
  have fit: "31 * i + ?n \<le> RECV_SIZE" using B(3) assms(2) by linarith
  have w: "window 1 ?n f = window (31 * i) ?n pack" using assms(4) by (simp add: frame_of_def)
  have lw: "length (window (31 * i) ?n pack) = ?n" using B(3) by simp
  have "esp8266_spi_read f st = (if fb
      then Some (0, st0\<lparr>recv_lenth := of_nat (31 * i) + of_nat ?n, recv_pack := ?rp,
             rx_receiving := False, is_recv_pack := True\<rparr>)
      else Some (-1, st0\<lparr>recv_lenth := of_nat (31 * i) + of_nat ?n, recv_pack := ?rp, pack_counter := Suc i\<rparr>))"
    using assms(5) I fit B(2)
    by (simp only: esp8266_spi_read_def rx_at_def Let_def st1 fin' m uc w mult.commute [of _ 31])
      (simp cong: if_cong)
  note res = this [unfolded fb_def]
  have lrp: "length ?rp = RECV_SIZE" using fit lw I(4) by simp
  have pre: "window 0 (31 * i + ?n) ?rp = window 0 (31 * i + ?n) pack"
  proof -
    have "window 0 (31 * i + ?n) ?rp = window 0 (31 * i) ?rp @ window (31 * i) ?n ?rp"
      by (simp add: window_join)
    also have "\<dots> = window 0 (31 * i) (recv_pack st0) @ window (31 * i) ?n pack"
      using fit I(4) lw by (simp add: window_overwrite_before)
    finally show ?thesis by (simp add: I(6) window_join)
  qed
  show ?thesis
  proof (cases "i = ?num - 1")
    case True
    have e: "31 * i + ?n = length pack" using N(4) True by (simp add: frame_len_def)
    then have l: "of_nat (31 * i) + of_nat ?n = (of_nat (length pack) :: u32)"
      by (simp only: of_nat_add [symmetric])
    have p: "window 0 (length pack) ?rp = pack" using pre unfolding e by simp
    show ?thesis using res lrp p unfolding l by (simp only: True [symmetric] if_True simp_thms)
        (simp add: l)
  next
    case False
    then have "?n = 31" by (simp add: frame_len_def)
    then show ?thesis using False res lrp pre I by (simp add: rx_at_def add.commute)
  qed
qed

lemma read_frames:
  assumes "pack \<noteq> []" "length pack \<le> RECV_SIZE" "i + k = spi_num (length pack)" "0 < k" "length fs = k"
    "\<forall>j < k. frame_of pack (i + j) (fs ! j)" "rx_at pack i st"
  shows "\<exists>st'. spi_read_all fs st = Some (replicate (k - 1) (-1) @ [0], st') \<and> is_recv_pack st'
    \<and> \<not> rx_receiving st' \<and> recv_lenth st' = of_nat (length pack) \<and> length (recv_pack st') = RECV_SIZE
    \<and> window 0 (length pack) (recv_pack st') = pack"
  using assms(3-7)
proof (induction k arbitrary: i fs st)
  case 0 then show ?case by simp
next
  case (Suc k)
  obtain f gs where fs: "fs = f # gs" using Suc.prems(3) by (cases fs) auto
  have i: "i < spi_num (length pack)" using Suc.prems(1) by simp
  have f: "frame_of pack i f" using Suc.prems(4) fs by force
  note R = read_frame [OF assms(1,2) i f Suc.prems(5)]
  show ?case
  proof (cases "k = 0")
    case True
    then have "i = spi_num (length pack) - 1" "gs = []" using Suc.prems(1,3) fs by auto
    then show ?thesis using R True fs by auto
  next
    case False
    then have "i \<noteq> spi_num (length pack) - 1" using Suc.prems(1) by linarith
    then obtain st1 where st1: "esp8266_spi_read f st = Some (-1, st1)" "rx_at pack (Suc i) st1"
      using R by auto
    have gs: "\<forall>j < k. frame_of pack (Suc i + j) (gs ! j)"
      using Suc.prems(4) fs by force
    obtain st' where "spi_read_all gs st1 = Some (replicate (k - 1) (-1) @ [0], st')" "is_recv_pack st'"
      "\<not> rx_receiving st'" "recv_lenth st' = of_nat (length pack)" "length (recv_pack st') = RECV_SIZE"
      "window 0 (length pack) (recv_pack st') = pack"
      using Suc.IH [OF _ _ _ gs st1(2)] Suc.prems(1,3) False fs by auto
    then show ?thesis
      using st1(1) False fs by (cases k) auto
  qed
qed

lemma spi_write_then_read:
  assumes "pack \<noteq> []" "length pack \<le> RECV_SIZE" "length buf = 32"
    "(\<Sum>j\<leftarrow>[0..<spi_num (length pack)]. delay j) < SPI_TIMEOUT"
    "length (recv_pack st) = RECV_SIZE" "\<not> is_recv_pack st"
  shows "\<exists>fs st'. esp8266_spi_write delay buf pack = (0, fs) \<and> length fs = spi_num (length pack)
    \<and> spi_read_all fs st = Some (replicate (length fs - 1) (-1) @ [0], st')
    \<and> is_recv_pack st' \<and> recv_lenth st' = of_nat (length pack) \<and> length (recv_pack st') = RECV_SIZE
    \<and> window 0 (length pack) (recv_pack st') = pack"
proof -
  have n: "0 < spi_num (length pack)" using spi_num_bounds(1) [of "length pack"] assms(1) by simp
  obtain fs where fs: "esp8266_spi_write delay buf pack = (0, fs)" "length fs = spi_num (length pack)"
    "\<forall>j < spi_num (length pack). frame_of pack (0 + j) (fs ! j)"
    using spi_write_loop_frames [OF assms(1) _ assms(3), of 0 "spi_num (length pack)" delay SPI_TIMEOUT] assms(4)
    by (auto simp: esp8266_spi_write_def)
  have "rx_at pack 0 st" using assms(5,6) by (simp add: rx_at_def)
  from read_frames [OF assms(1,2) _ n fs(2,3) this] show ?thesis
    using fs(1,2) by auto
qed

text \<open>A packet of 1 to 5120 bytes sent over the framed link is put together again by the receiver,
  whatever the receiver held before, as long as the module is ready in time for every frame: all
  frames but the last report an unfinished packet, the last one a finished packet with the sent bytes
  and length.\<close>

theorem spi_link_roundtrip:
  assumes "pack \<noteq> []" "length pack \<le> RECV_SIZE" "length buf = 32"
    "(\<Sum>j\<leftarrow>[0..<spi_num (length pack)]. delay j) < SPI_TIMEOUT"
    "length (recv_pack st) = RECV_SIZE" "\<not> is_recv_pack st"
  shows "\<exists>fs st'. esp8266_spi_write delay buf pack = (0, fs) \<and> length fs = spi_num (length pack)
    \<and> spi_read_all fs st = Some (replicate (length fs - 1) (-1) @ [0], st')
    \<and> is_recv_pack st' \<and> recv_lenth st' = of_nat (length pack) \<and> length (recv_pack st') = RECV_SIZE
    \<and> window 0 (length pack) (recv_pack st') = pack"
  using assms by (rule spi_write_then_read)

theorem spi_link_roundtrip_witness:
  "\<exists>fs st'. esp8266_spi_write (\<lambda>_. 5) (replicate 32 0) (map of_nat [0..<70]) = (0, fs)
    \<and> spi_read_all fs \<lparr>rx_receiving = True, pack_counter = 9, recv_pack = replicate RECV_SIZE 0, recv_lenth = 3,
         is_recv_pack = False\<rparr> = Some (replicate (length fs - 1) (-1) @ [0], st')
    \<and> window 0 70 (recv_pack st') = map of_nat [0..<70]"
  using spi_link_roundtrip [of "map of_nat [0..<70]" "replicate 32 0" "\<lambda>_. 5"
      "\<lparr>rx_receiving = True, pack_counter = 9, recv_pack = replicate RECV_SIZE 0, recv_lenth = 3, is_recv_pack = False\<rparr>"]
  by (simp add: RECV_SIZE_def SPI_TIMEOUT_def spi_num_def sum_list_triv del: upt_Suc map_map) blast

end
