(* ===== verification/WifiPack.thy ===== *)
theory WifiPack imports Board EspSpi begin

text \<open>wifi_thread.c, packets: a packet is a header of 7 bytes (checksum, command, length) and data; the
  checksum covers everything after itself.  \<open>wifi_send\<close> builds a packet and hands it to the SPI link;
  \<open>wifi_verify\<close> is what the receiving thread does with a finished packet before it looks at the
  command.  The packet data stay in the receive buffer of the link, the received header holds a
  pointer into it.  Whether memory can be had, how fast the module is and what the stack holds are
  arguments, one answer for each call of \<open>wifi_send\<close>.\<close>

definition CMD_RETURN_RECV :: u8 where "CMD_RETURN_RECV = 0"
definition CMD_SEND_MESH_DATA :: u8 where "CMD_SEND_MESH_DATA = 6"
definition CMD_SEND_DATA_TO_MCU :: u8 where "CMD_SEND_DATA_TO_MCU = 254"
definition PAR_LENTH :: nat where "PAR_LENTH = 7"

record wifi_pack =
  wp_crc :: u32
  wp_cmd :: u8
  wp_lenth :: u16
  wp_data :: "nat option"

record wifi_rx =
  link :: spi_rx
  wifi_pack_recv :: wifi_pack
  is_recv_wifi_pack :: bool

record wifi_env =
  we_malloc :: "nat \<Rightarrow> nat \<Rightarrow> bool"
  we_delay :: "nat \<Rightarrow> nat \<Rightarrow> nat"
  we_stack :: "nat \<Rightarrow> bytes"

record wifi_tx =
  tx_calls :: nat
  tx_frames :: "bytes list"

subsection \<open>Sending\<close>

definition wifi_body :: "u8 \<Rightarrow> u16 \<Rightarrow> bytes \<Rightarrow> bytes" where
  "wifi_body cmd lenth data = [cmd] @ le16 lenth @ take (unat lenth) data"

definition wifi_packet :: "'s plat \<Rightarrow> u8 \<Rightarrow> u16 \<Rightarrow> bytes \<Rightarrow> bytes" where
  "wifi_packet P cmd lenth data
     = le32 (block_crc_calc P (wifi_body cmd lenth data)) @ wifi_body cmd lenth data"

definition wifi_send :: "'s plat \<Rightarrow> wifi_env \<Rightarrow> u8 \<Rightarrow> u16 \<Rightarrow> bytes \<Rightarrow> wifi_tx \<Rightarrow> int \<times> wifi_tx" where
  "wifi_send P E cmd lenth data t =
     (let k = tx_calls t; t1 = t\<lparr>tx_calls := Suc k\<rparr> in
      if \<not> we_malloc E k (unat lenth + PAR_LENTH) then (- RT_ENOMEM, t1)
      else (case esp8266_spi_write (we_delay E k) (we_stack E k) (wifi_packet P cmd lenth data) of (r, out) \<Rightarrow>
        (if r \<noteq> 0 then -1 else 0, t1\<lparr>tx_frames := tx_frames t @ out\<rparr>)))"

text \<open>The two shell commands that exercise it; \<open>None\<close> when the test pattern overruns its buffer.\<close>

definition sendTest :: "'s plat \<Rightarrow> wifi_env \<Rightarrow> u8 \<Rightarrow> u32 \<Rightarrow> wifi_tx \<Rightarrow> (int \<times> wifi_tx) option" where
  "sendTest P E cmd lenth t = (if unat lenth > 1024 * 5 then None
     else Some (wifi_send P E cmd (ucast lenth) (map of_nat [0..<unat lenth]) t))"

definition sendServer :: "'s plat \<Rightarrow> wifi_env \<Rightarrow> wifi_tx \<Rightarrow> int \<times> wifi_tx" where
  "sendServer P E t = (let data = replicate 6 0 @ map (\<lambda>c. of_nat (of_char c)) ''Hello World'' @ [0] in
     wifi_send P E CMD_SEND_MESH_DATA (of_nat (length data)) data t)"

subsection \<open>Receiving\<close>

text \<open>The checks of \<open>wifi_thread_entry\<close> on a finished packet.  The header is copied before it is
  checked.  \<open>None\<close> when the checksum is computed over bytes behind the end of the buffer.\<close>

definition wifi_verify :: "'s plat \<Rightarrow> wifi_rx \<Rightarrow> (bool \<times> wifi_rx) option" where
  "wifi_verify P w =
     (let rp = recv_pack (link w); len = u16_at 5 rp;
          w1 = w\<lparr>wifi_pack_recv := (wifi_pack_recv w)\<lparr>wp_crc := u32_at 0 rp, wp_cmd := rp ! 4, wp_lenth := len\<rparr>\<rparr>;
          again = w1\<lparr>link := (link w)\<lparr>is_recv_pack := False\<rparr>\<rparr> in
      if ucast len + of_nat PAR_LENTH \<noteq> recv_lenth (link w) then Some (False, again)
      else if PAR_LENTH + unat len > length rp then None
      else if u32_at 0 rp \<noteq> block_crc_calc P (window 4 (PAR_LENTH - 4 + unat len) rp) then Some (False, again)
      else Some (True, w1\<lparr>wifi_pack_recv := (wifi_pack_recv w1)\<lparr>wp_data := Some PAR_LENTH\<rparr>,
             is_recv_wifi_pack := True\<rparr>))"

text \<open>The data of the received packet, read through its pointer.\<close>

definition wifi_data :: "wifi_rx \<Rightarrow> bytes" where
  "wifi_data w = (case wp_data (wifi_pack_recv w) of None \<Rightarrow> []
     | Some p \<Rightarrow> drop p (recv_pack (link w)))"

subsection \<open>Properties\<close>

lemma length_wifi_body: "unat lenth \<le> length data \<Longrightarrow> length (wifi_body cmd lenth data) = 3 + unat lenth"
  by (simp add: wifi_body_def)

lemma length_wifi_packet: "unat lenth \<le> length data \<Longrightarrow> length (wifi_packet P cmd lenth data) = PAR_LENTH + unat lenth"
  by (simp add: wifi_packet_def length_wifi_body PAR_LENTH_def)

lemma wifi_send_ok:
  assumes "we_malloc E (tx_calls t) (unat lenth + PAR_LENTH)"
    "esp8266_spi_write (we_delay E (tx_calls t)) (we_stack E (tx_calls t)) (wifi_packet P cmd lenth data) = (0, fs)"
  shows "wifi_send P E cmd lenth data t = (0, t\<lparr>tx_calls := Suc (tx_calls t), tx_frames := tx_frames t @ fs\<rparr>)"
  using assms by (simp add: wifi_send_def Let_def)

text \<open>A buffer that starts with a packet passes the checks.\<close>

lemma wifi_verify_packet:
  assumes "window 0 (PAR_LENTH + unat lenth) (recv_pack (link w)) = wifi_packet P cmd lenth data"
    "recv_lenth (link w) = of_nat (PAR_LENTH + unat lenth)" "unat lenth \<le> length data"
    "PAR_LENTH + unat lenth \<le> length (recv_pack (link w))"
  shows "\<exists>w'. wifi_verify P w = Some (True, w') \<and> link w' = link w \<and> is_recv_wifi_pack w'
    \<and> wp_cmd (wifi_pack_recv w') = cmd \<and> wp_lenth (wifi_pack_recv w') = lenth
    \<and> take (unat lenth) (wifi_data w') = take (unat lenth) data"
proof -
  let ?rp = "recv_pack (link w)" and ?n = "PAR_LENTH + unat lenth" and ?b = "wifi_body cmd lenth data"
  have W: "window p m ?rp = window p m (wifi_packet P cmd lenth data)" if "p + m \<le> ?n" for p m
    using that assms(1) by (metis add_0 window_window)
  have b: "window 4 (PAR_LENTH - 4 + unat lenth) ?rp = ?b"
    using length_wifi_body [OF assms(3), of cmd]
    by (subst W) (simp_all add: PAR_LENTH_def wifi_packet_def window_append2)
  have c: "u32_at 0 ?rp = block_crc_calc P ?b"
    by (rule u32_of_window) (use assms(4) in \<open>auto simp: W PAR_LENTH_def wifi_packet_def window_head\<close>)
  have k: "?rp ! 4 = cmd"
    by (rule nth_of_window) (use assms(4) in \<open>auto simp: W PAR_LENTH_def wifi_packet_def wifi_body_def fields\<close>)
  have l: "u16_at 5 ?rp = lenth"
    by (rule u16_of_window) (use assms(4) in \<open>auto simp: W PAR_LENTH_def wifi_packet_def wifi_body_def fields\<close>)
  have d: "window PAR_LENTH (unat lenth) ?rp = take (unat lenth) data"
    by (subst W) (auto simp: PAR_LENTH_def wifi_packet_def wifi_body_def fields window_def)
  have u: "ucast lenth + of_nat PAR_LENTH = recv_lenth (link w)"
    by (simp add: assms(2) add.commute)
  have d': "take (unat lenth) (drop PAR_LENTH ?rp) = take (unat lenth) data" using d by (simp add: window_def)
  show ?thesis
    using assms(4) d' by (simp add: wifi_verify_def Let_def l u b c k wifi_data_def)
qed

lemma wifi_send_then_verify:
  assumes "unat lenth \<le> length data" "unat lenth \<le> 5113" "length (we_stack E (tx_calls t)) = 32"
    "we_malloc E (tx_calls t) (unat lenth + PAR_LENTH)"
    "(\<Sum>j\<leftarrow>[0..<spi_num (PAR_LENTH + unat lenth)]. we_delay E (tx_calls t) j) < SPI_TIMEOUT"
    "length (recv_pack (link w)) = RECV_SIZE" "\<not> is_recv_pack (link w)"
  shows "\<exists>fs t' n st w'. wifi_send P E cmd lenth data t = (0, t') \<and> tx_frames t' = tx_frames t @ fs
    \<and> spi_read_all fs (link w) = Some (replicate n (-1) @ [0], st)
    \<and> wifi_verify P (w\<lparr>link := st\<rparr>) = Some (True, w') \<and> is_recv_wifi_pack w'
    \<and> wp_cmd (wifi_pack_recv w') = cmd \<and> wp_lenth (wifi_pack_recv w') = lenth
    \<and> take (unat lenth) (wifi_data w') = take (unat lenth) data \<and> link w' = st
    \<and> length (recv_pack st) = RECV_SIZE"
proof -
  let ?p = "wifi_packet P cmd lenth data"
  note len = length_wifi_packet [OF assms(1), of P cmd]
  have ne: "?p \<noteq> []" using len by (auto simp: PAR_LENTH_def)
  have fit: "length ?p \<le> RECV_SIZE" using len assms(2) by (simp add: PAR_LENTH_def RECV_SIZE_def)
  obtain fs st where S: "esp8266_spi_write (we_delay E (tx_calls t)) (we_stack E (tx_calls t)) ?p = (0, fs)"
    "spi_read_all fs (link w) = Some (replicate (length fs - 1) (-1) @ [0], st)"
    "recv_lenth st = of_nat (length ?p)" "length (recv_pack st) = RECV_SIZE"
    "window 0 (length ?p) (recv_pack st) = ?p"
    using spi_write_then_read [OF ne fit assms(3) _ assms(6,7), of "we_delay E (tx_calls t)"] assms(5)
    unfolding len by blast
  have V: "\<exists>w'. wifi_verify P (w\<lparr>link := st\<rparr>) = Some (True, w') \<and> link w' = link (w\<lparr>link := st\<rparr>) \<and> is_recv_wifi_pack w'
    \<and> wp_cmd (wifi_pack_recv w') = cmd \<and> wp_lenth (wifi_pack_recv w') = lenth
    \<and> take (unat lenth) (wifi_data w') = take (unat lenth) data"
    by (rule wifi_verify_packet) (use S fit len assms(1) in \<open>simp_all add: PAR_LENTH_def\<close>)
  then show ?thesis using wifi_send_ok [OF assms(4) S(1)] S(2,4) by fastforce
qed

text \<open>A packet of up to 5113 data bytes that \<open>wifi_send\<close> reports as sent is, when its frames reach
  the receiver of the other side, put together and accepted: the receiver sees the command, the
  length and the data that were sent.\<close>

theorem wifi_packet_roundtrip:
  assumes "unat lenth \<le> length data" "unat lenth \<le> 5113" "length (we_stack E (tx_calls t)) = 32"
    "we_malloc E (tx_calls t) (unat lenth + PAR_LENTH)"
    "(\<Sum>j\<leftarrow>[0..<spi_num (PAR_LENTH + unat lenth)]. we_delay E (tx_calls t) j) < SPI_TIMEOUT"
    "length (recv_pack (link w)) = RECV_SIZE" "\<not> is_recv_pack (link w)"
  shows "\<exists>fs t' rs st w'. wifi_send P E cmd lenth data t = (0, t') \<and> tx_frames t' = tx_frames t @ fs
    \<and> spi_read_all fs (link w) = Some (rs @ [0], st)
    \<and> wifi_verify P (w\<lparr>link := st\<rparr>) = Some (True, w') \<and> is_recv_wifi_pack w'
    \<and> wp_cmd (wifi_pack_recv w') = cmd \<and> wp_lenth (wifi_pack_recv w') = lenth
    \<and> take (unat lenth) (wifi_data w') = take (unat lenth) data"
  using wifi_send_then_verify [OF assms, of P cmd] by blast

definition demo_env :: wifi_env where
  "demo_env = \<lparr>we_malloc = (\<lambda>k n. n < 2048), we_delay = (\<lambda>k i. 5), we_stack = (\<lambda>k. replicate 32 0)\<rparr>"

definition demo_rx :: wifi_rx where
  "demo_rx = \<lparr>link = \<lparr>rx_receiving = False, pack_counter = 0, recv_pack = replicate RECV_SIZE 0, recv_lenth = 0,
       is_recv_pack = False\<rparr>,
     wifi_pack_recv = \<lparr>wp_crc = 0, wp_cmd = 0, wp_lenth = 0, wp_data = None\<rparr>, is_recv_wifi_pack = False\<rparr>"

theorem wifi_packet_roundtrip_witness:
  "\<exists>fs t' rs st w'. wifi_send board_plat demo_env 6 100 (replicate 120 7) \<lparr>tx_calls = 0, tx_frames = []\<rparr> = (0, t')
    \<and> tx_frames t' = [] @ fs
    \<and> spi_read_all fs (link demo_rx) = Some (rs @ [0], st)
    \<and> wifi_verify board_plat (demo_rx\<lparr>link := st\<rparr>) = Some (True, w')
    \<and> wp_cmd (wifi_pack_recv w') = 6 \<and> take 100 (wifi_data w') = take 100 (replicate 120 7)"
proof -
  let ?t = "\<lparr>tx_calls = 0, tx_frames = []\<rparr> :: wifi_tx"
  have h: "unat (100 :: u16) \<le> length (replicate 120 (7 :: u8))" "unat (100 :: u16) \<le> 5113"
    "length (we_stack demo_env (tx_calls ?t)) = 32"
    "we_malloc demo_env (tx_calls ?t) (unat (100 :: u16) + PAR_LENTH)"
    "(\<Sum>j\<leftarrow>[0..<spi_num (PAR_LENTH + unat (100 :: u16))]. we_delay demo_env (tx_calls ?t) j) < SPI_TIMEOUT"
    "length (recv_pack (link demo_rx)) = RECV_SIZE" "\<not> is_recv_pack (link demo_rx)"
    by (simp_all add: demo_env_def demo_rx_def PAR_LENTH_def SPI_TIMEOUT_def spi_num_def sum_list_triv)
  have n: "unat (100 :: u16) = 100" by simp
  have f: "tx_frames ?t = []" by simp
  show ?thesis
    using wifi_packet_roundtrip [OF h, of board_plat 6] unfolding n f by blast
qed

end
