(* ===== verification/SoftIic.thy ===== *)
theory SoftIic imports Prelude begin

text \<open>soft_iic.c: the I2C master in software, with the delays between the edges compiled in.  The model
  records every change of the two lines, of the direction of the data pin and every sample taken of
  it; what a slave puts on the data line is the input, one level for each sample.  The bus decoder
  \<open>bus_run\<close> is the specification: it knows only the I2C rules (a start or stop condition is a change
  of the data line while the clock is high, every other clock pulse carries a bit) and tells what the
  recorded lines mean.\<close>

datatype pin = Scl bool | Sda bool | Dir bool | Sample bool

record iic =
  lines :: "pin list"
  iic_in :: "nat \<Rightarrow> bool"
  iic_cnt :: nat

definition pin_do :: "pin list \<Rightarrow> iic \<Rightarrow> iic" where
  "pin_do ps st = st\<lparr>lines := lines st @ ps\<rparr>"

definition in_sda :: "iic \<Rightarrow> bool \<times> iic" where
  "in_sda st = (let b = iic_in st (iic_cnt st) in
     (b, st\<lparr>lines := lines st @ [Sample b], iic_cnt := Suc (iic_cnt st)\<rparr>))"

subsection \<open>Operations\<close>

definition IIC_Start :: "iic \<Rightarrow> iic" where
  "IIC_Start st = pin_do [Dir True, Sda True, Scl True, Sda False, Scl False] st"

definition IIC_Stop :: "iic \<Rightarrow> iic" where
  "IIC_Stop st = pin_do [Dir True, Sda False, Scl True, Sda True] st"

definition IIC_Ack :: "u8 \<Rightarrow> iic \<Rightarrow> iic" where
  "IIC_Ack a st = pin_do [Dir True, Sda (a \<noteq> 0), Scl True, Scl False] st"

fun write_bits :: "nat \<Rightarrow> u8 \<Rightarrow> iic \<Rightarrow> iic" where
  "write_bits 0 dat st = st"
| "write_bits (Suc k) dat st =
     write_bits k (push_bit 1 dat) (pin_do [Sda (dat AND 0x80 \<noteq> 0), Scl True, Scl False] st)"

definition IIC_Write_Byte :: "u8 \<Rightarrow> iic \<Rightarrow> u8 \<times> iic" where
  "IIC_Write_Byte dat st =
     (case in_sda (pin_do [Sda True, Dir False, Scl True] (write_bits 8 dat (pin_do [Dir True] st)))
      of (b, st1) \<Rightarrow> (0 OR of_bool b, pin_do [Scl False] st1))"

fun read_bits :: "nat \<Rightarrow> u8 \<Rightarrow> iic \<Rightarrow> u8 \<times> iic" where
  "read_bits 0 x st = (x, st)"
| "read_bits (Suc k) x st = (case in_sda (pin_do [Scl True] st) of (b, st1) \<Rightarrow>
     let x1 = push_bit 1 x in read_bits k (if b then x1 OR 1 else x1) (pin_do [Scl False] st1))"

definition IIC_Read_Byte :: "iic \<Rightarrow> u8 \<times> iic" where
  "IIC_Read_Byte st = (case read_bits 8 0 (pin_do [Sda True, Dir False] st) of (x, st1) \<Rightarrow>
     (x, pin_do [Scl False] st1))"

subsection \<open>What the lines mean\<close>

datatype bev = START | STOP | MBIT bool | SBIT bool

text \<open>The lines as a receiver sees them: the clock, what the master puts on the data line and whether
  it drives it, the last sample, and whether a start or stop condition has been seen in this clock
  pulse.\<close>

record bus =
  b_scl :: bool
  b_sda :: bool
  b_out :: bool
  b_smp :: bool
  b_cond :: bool

fun bus_step :: "pin \<Rightarrow> bus \<Rightarrow> bus \<times> bev list" where
  "bus_step (Scl v) b =
     (if v = b_scl b then (b, [])
      else if v then (b\<lparr>b_scl := True, b_cond := False\<rparr>, [])
      else (b\<lparr>b_scl := False\<rparr>, if b_cond b then [] else if b_out b then [MBIT (b_sda b)] else [SBIT (b_smp b)]))"
| "bus_step (Sda v) b =
     (if b_out b \<and> b_scl b \<and> v \<noteq> b_sda b
      then (b\<lparr>b_sda := v, b_cond := True\<rparr>, [if v then STOP else START])
      else (b\<lparr>b_sda := v\<rparr>, []))"
| "bus_step (Dir v) b = (b\<lparr>b_out := v\<rparr>, [])"
| "bus_step (Sample v) b = (b\<lparr>b_smp := v\<rparr>, [])"

fun bus_run :: "pin list \<Rightarrow> bus \<Rightarrow> bus \<times> bev list" where
  "bus_run [] b = (b, [])"
| "bus_run (p # ps) b = (case bus_step p b of (b1, es) \<Rightarrow> (case bus_run ps b1 of (b2, fs) \<Rightarrow> (b2, es @ fs)))"

lemma bus_run_append:
  "bus_run (ps @ qs) b = (case bus_run ps b of (b1, es) \<Rightarrow> (case bus_run qs b1 of (b2, fs) \<Rightarrow> (b2, es @ fs)))"
  by (induction ps arbitrary: b) (auto split: prod.splits)

text \<open>A byte on the wire, most significant bit first.\<close>

definition byte_bits :: "u8 \<Rightarrow> bool list" where
  "byte_bits w = map (bit w) [7, 6, 5, 4, 3, 2, 1, 0]"

definition byte_out :: "u8 \<Rightarrow> bool \<Rightarrow> bev list" where
  "byte_out w a = map MBIT (byte_bits w) @ [SBIT a]"

definition byte_in :: "u8 \<Rightarrow> bool \<Rightarrow> bev list" where
  "byte_in w a = map SBIT (byte_bits w) @ [MBIT a]"

text \<open>The state of a computation on the bus: the events so far and whether the clock is low.\<close>

definition idle_bus :: bus where
  "idle_bus = \<lparr>b_scl = True, b_sda = True, b_out = True, b_smp = True, b_cond = True\<rparr>"

definition events :: "iic \<Rightarrow> bev list" where
  "events st = snd (bus_run (lines st) idle_bus)"

definition bus_of :: "iic \<Rightarrow> bus" where
  "bus_of st = fst (bus_run (lines st) idle_bus)"

text \<open>The bus is free, or a transfer is under way with the clock low.\<close>

definition bus_free :: "iic \<Rightarrow> bool" where
  "bus_free st = (b_scl (bus_of st) \<and> b_sda (bus_of st) \<and> b_out (bus_of st) \<and> b_cond (bus_of st))"

definition bus_busy :: "iic \<Rightarrow> bool" where
  "bus_busy st = (\<not> b_scl (bus_of st))"

lemma run_more:
  "lines st' = lines st @ ps \<Longrightarrow> bus_run ps (bus_of st) = (b, es) \<Longrightarrow> events st' = events st @ es \<and> bus_of st' = b"
  by (auto simp add: events_def bus_of_def bus_run_append split: prod.splits)

lemma lines_pin_do [simp]: "lines (pin_do ps st) = lines st @ ps"
  "iic_in (pin_do ps st) = iic_in st" "iic_cnt (pin_do ps st) = iic_cnt st"
  by (simp_all add: pin_do_def)

lemma pin_do_events: "bus_run ps (bus_of st) = (b, es) \<Longrightarrow> events (pin_do ps st) = events st @ es \<and> bus_of (pin_do ps st) = b"
  by (rule run_more) simp_all

subsection \<open>Each operation on the bus\<close>

lemma start_free:
  assumes "bus_free st"
  shows "events (IIC_Start st) = events st @ [START]" "bus_busy (IIC_Start st)"
    "iic_in (IIC_Start st) = iic_in st" "iic_cnt (IIC_Start st) = iic_cnt st"
proof -
  have "bus_run [Dir True, Sda True, Scl True, Sda False, Scl False] (bus_of st)
      = ((bus_of st)\<lparr>b_out := True, b_sda := False, b_cond := True, b_scl := False\<rparr>, [START])"
    using assms by (simp add: bus_free_def)
  from pin_do_events [OF this] show "events (IIC_Start st) = events st @ [START]" "bus_busy (IIC_Start st)"
    by (simp_all add: IIC_Start_def bus_busy_def)
qed (simp_all add: IIC_Start_def)

lemma start_busy:
  assumes "bus_busy st"
  shows "events (IIC_Start st) = events st @ [START]" "bus_busy (IIC_Start st)"
proof -
  have "bus_run [Dir True, Sda True, Scl True, Sda False, Scl False] (bus_of st)
      = ((bus_of st)\<lparr>b_out := True, b_sda := False, b_cond := True, b_scl := False\<rparr>, [START])"
    using assms by (simp add: bus_busy_def)
  from pin_do_events [OF this] show "events (IIC_Start st) = events st @ [START]" "bus_busy (IIC_Start st)"
    by (simp_all add: IIC_Start_def bus_busy_def)
qed

lemma start_in [simp]: "iic_in (IIC_Start st) = iic_in st" "iic_cnt (IIC_Start st) = iic_cnt st"
  by (simp_all add: IIC_Start_def)

lemma stop_busy:
  assumes "bus_busy st"
  shows "events (IIC_Stop st) = events st @ [STOP]" "bus_free (IIC_Stop st)"
proof -
  have "bus_run [Dir True, Sda False, Scl True, Sda True] (bus_of st)
      = ((bus_of st)\<lparr>b_out := True, b_scl := True, b_sda := True, b_cond := True\<rparr>, [STOP])"
    using assms by (simp add: bus_busy_def)
  from pin_do_events [OF this] show "events (IIC_Stop st) = events st @ [STOP]" "bus_free (IIC_Stop st)"
    by (simp_all add: IIC_Stop_def bus_free_def)
qed

lemma stop_in [simp]: "iic_in (IIC_Stop st) = iic_in st" "iic_cnt (IIC_Stop st) = iic_cnt st"
  by (simp_all add: IIC_Stop_def)

lemma ack_busy:
  assumes "bus_busy st"
  shows "events (IIC_Ack a st) = events st @ [MBIT (a \<noteq> 0)]" "bus_busy (IIC_Ack a st)"
proof -
  have "bus_run [Dir True, Sda (a \<noteq> 0), Scl True, Scl False] (bus_of st)
      = ((bus_of st)\<lparr>b_out := True, b_sda := (a \<noteq> 0), b_cond := False, b_scl := False\<rparr>, [MBIT (a \<noteq> 0)])"
    using assms by (simp add: bus_busy_def)
  from pin_do_events [OF this] show "events (IIC_Ack a st) = events st @ [MBIT (a \<noteq> 0)]" "bus_busy (IIC_Ack a st)"
    by (simp_all add: IIC_Ack_def bus_busy_def)
qed

lemma ack_in [simp]: "iic_in (IIC_Ack a st) = iic_in st" "iic_cnt (IIC_Ack a st) = iic_cnt st"
  by (simp_all add: IIC_Ack_def)

lemma bit_7: "(w AND 0x80 \<noteq> 0) = bit (w :: u8) 7"
proof -
  have "(0x80 :: u8) = push_bit 7 1" by simp
  then show ?thesis by (simp only: and_exp_eq_0_iff_not_bit push_bit_of_1) simp
qed

lemma bit_shift_up: "0 < n \<Longrightarrow> n < 8 \<Longrightarrow> bit (push_bit (Suc 0) (w :: u8)) n = bit w (n - 1)"
  unfolding bit_push_bit_iff by auto

lemma bit_shift_0: "\<not> bit (push_bit (Suc 0) (w :: u8)) 0"
  unfolding bit_push_bit_iff by auto

lemma write_bits_in [simp]: "iic_in (write_bits k w st) = iic_in st" "iic_cnt (write_bits k w st) = iic_cnt st"
  by (induction k arbitrary: w st) simp_all

lemma write_bits_busy:
  assumes "bus_busy st" "b_out (bus_of st)" "k \<le> 8"
  shows "events (write_bits k w st) = events st @ map (\<lambda>i. MBIT (bit w (7 - i))) [0..<k]
    \<and> bus_busy (write_bits k w st) \<and> b_out (bus_of (write_bits k w st))"
  using assms
proof (induction k arbitrary: w st)
  case 0
  then show ?case by simp
next
  case (Suc k)
  let ?st1 = "pin_do [Sda (w AND 0x80 \<noteq> 0), Scl True, Scl False] st"
  have r: "bus_run [Sda (w AND 0x80 \<noteq> 0), Scl True, Scl False] (bus_of st)
      = ((bus_of st)\<lparr>b_sda := (w AND 0x80 \<noteq> 0), b_cond := False, b_scl := False\<rparr>, [MBIT (w AND 0x80 \<noteq> 0)])"
    using Suc.prems by (simp add: bus_busy_def)
  note e = pin_do_events [OF r]
  have "bus_busy ?st1" "b_out (bus_of ?st1)" using e Suc.prems(2) by (simp_all add: bus_busy_def)
  from Suc.IH [OF this, of "push_bit 1 w"] Suc.prems(3)
  have 1: "events (write_bits (Suc k) w st) = events ?st1 @ map (\<lambda>i. MBIT (bit (push_bit 1 w) (7 - i))) [0..<k]"
    "bus_busy (write_bits (Suc k) w st)" "b_out (bus_of (write_bits (Suc k) w st))" by simp_all
  have "map (\<lambda>i. MBIT (bit (push_bit 1 w) (7 - i))) [0..<k] = map (\<lambda>i. MBIT (bit w (7 - Suc i))) [0..<k]"
    using Suc.prems(3) by (intro map_cong refl) (simp add: bit_shift_up del: push_bit_Suc push_bit_of_1)
  moreover have "map (\<lambda>i. MBIT (bit w (7 - i))) [0..<Suc k]
      = MBIT (bit w 7) # map (\<lambda>i. MBIT (bit w (7 - Suc i))) [0..<k]"
    by (simp only: upt_conv_Cons map_upt_Suc [symmetric] zero_less_Suc) (simp add: map_Suc_upt [symmetric] del: upt_Suc)
  ultimately show ?case using 1 e by (simp add: bit_7)
qed

lemma upt_8: "[0..<8] = [0, 1, 2, 3, 4, 5, 6, 7 :: nat]" by (simp add: upt_rec)

text \<open>Sending a byte puts its bits on the wire and returns the slave's acknowledge bit.\<close>

lemma write_byte:
  assumes "bus_busy st"
  shows "\<exists>st'. IIC_Write_Byte w st = (of_bool (iic_in st (iic_cnt st)), st')
    \<and> events st' = events st @ byte_out w (iic_in st (iic_cnt st)) \<and> bus_busy st'
    \<and> iic_in st' = iic_in st \<and> iic_cnt st' = Suc (iic_cnt st)"
proof -
  let ?st1 = "pin_do [Dir True] st" and ?a = "iic_in st (iic_cnt st)"
  have e1: "events ?st1 = events st @ [] \<and> bus_of ?st1 = (bus_of st)\<lparr>b_out := True\<rparr>"
    by (rule pin_do_events) simp
  have "bus_busy ?st1" "b_out (bus_of ?st1)" using e1 assms by (simp_all add: bus_busy_def)
  from write_bits_busy [OF this, of 8 w]
  have e2: "events (write_bits 8 w ?st1) = events st @ map MBIT (byte_bits w)" "bus_busy (write_bits 8 w ?st1)"
    using e1 by (simp_all add: upt_8 byte_bits_def)
  let ?st2 = "write_bits 8 w ?st1"
  define st' where "st' = snd (IIC_Write_Byte w st)"
  have v: "IIC_Write_Byte w st = (of_bool ?a, st')"
    by (simp add: st'_def IIC_Write_Byte_def in_sda_def Let_def)
  have l: "lines st' = lines ?st2 @ [Sda True, Dir False, Scl True, Sample ?a, Scl False]"
    "iic_in st' = iic_in st" "iic_cnt st' = Suc (iic_cnt st)"
    by (simp_all add: st'_def IIC_Write_Byte_def in_sda_def Let_def)
  have r: "bus_run [Sda True, Dir False, Scl True, Sample ?a, Scl False] (bus_of ?st2)
      = ((bus_of ?st2)\<lparr>b_sda := True, b_out := False, b_cond := False, b_smp := ?a, b_scl := False\<rparr>, [SBIT ?a])"
    using e2(2) by (simp add: bus_busy_def)
  from run_more [OF l(1) r] e2 v l show ?thesis
    by (intro exI [of _ st']) (simp add: byte_out_def bus_busy_def)
qed

lemma read_bits_lines: "snd (read_bits k x st) = snd (read_bits k y st)"
  by (induction k arbitrary: x y st) (auto simp: in_sda_def Let_def)

lemma read_bits_busy:
  assumes "bus_busy st" "\<not> b_out (bus_of st)"
  shows "\<exists>st'. read_bits k x st = (foldl (\<lambda>x i. if iic_in st (iic_cnt st + i) then push_bit 1 x OR 1 else push_bit 1 x) x [0..<k], st')
    \<and> events st' = events st @ map (\<lambda>i. SBIT (iic_in st (iic_cnt st + i))) [0..<k] \<and> bus_busy st'
    \<and> iic_in st' = iic_in st \<and> iic_cnt st' = iic_cnt st + k"
  using assms
proof (induction k arbitrary: x st)
  case 0
  then show ?case by simp
next
  case (Suc k)
  let ?a = "iic_in st (iic_cnt st)" and ?x = "if iic_in st (iic_cnt st) then push_bit 1 x OR 1 else push_bit 1 x"
  define st1 where "st1 = pin_do [Scl False] (snd (in_sda (pin_do [Scl True] st)))"
  have s: "read_bits (Suc k) x st = read_bits k ?x st1"
    by (simp add: st1_def in_sda_def Let_def)
  have l: "lines st1 = lines st @ [Scl True, Sample ?a, Scl False]" "iic_in st1 = iic_in st"
    "iic_cnt st1 = Suc (iic_cnt st)"
    by (simp_all add: st1_def in_sda_def Let_def)
  have r: "bus_run [Scl True, Sample ?a, Scl False] (bus_of st)
      = ((bus_of st)\<lparr>b_cond := False, b_smp := ?a, b_scl := False\<rparr>, [SBIT ?a])"
    using Suc.prems by (simp add: bus_busy_def)
  note e = run_more [OF l(1) r]
  have "bus_busy st1" "\<not> b_out (bus_of st1)" using e Suc.prems(2) by (simp_all add: bus_busy_def)
  from Suc.IH [OF this, of ?x] show ?case
    unfolding s using e l by (simp add: upt_conv_Cons map_Suc_upt [symmetric] foldl_map comp_def del: upt_Suc)
qed

definition shift_in :: "u8 \<Rightarrow> bool \<Rightarrow> u8" where
  "shift_in x b = (if b then push_bit 1 x OR 1 else push_bit 1 x)"

lemma bit_shift_in: "n < 8 \<Longrightarrow> bit (shift_in x b) n = (if n = 0 then b else bit x (n - 1))"
  unfolding shift_in_def using bit_shift_up [of n x] bit_shift_0 [of x]
  by (cases "n = 0") (simp_all add: bit_or_iff bit_1_iff)

lemma shift_in_byte: "foldl shift_in x (byte_bits w) = w"
proof (rule bit_word_eqI)
  fix n assume "n < LENGTH(8)"
  then have n: "n < 8" by simp
  then have "n = 0 \<or> n = 1 \<or> n = 2 \<or> n = 3 \<or> n = 4 \<or> n = 5 \<or> n = 6 \<or> n = 7" by linarith
  then show "bit (foldl shift_in x (byte_bits w)) n = bit w n"
    by (elim disjE) (simp_all add: byte_bits_def bit_shift_in)
qed

text \<open>The slave puts the bits of \<open>w\<close> on the line for the samples from \<open>n\<close> on.\<close>

definition sends :: "iic \<Rightarrow> nat \<Rightarrow> u8 \<Rightarrow> bool" where
  "sends st n w = (map (\<lambda>i. iic_in st (n + i)) [0..<8] = byte_bits w)"

lemma read_byte:
  assumes "bus_busy st" "sends st (iic_cnt st) w"
  shows "\<exists>st'. IIC_Read_Byte st = (w, st') \<and> events st' = events st @ map SBIT (byte_bits w) \<and> bus_busy st'
    \<and> iic_in st' = iic_in st \<and> iic_cnt st' = iic_cnt st + 8"
proof -
  let ?st1 = "pin_do [Sda True, Dir False] st"
  have e1: "events ?st1 = events st @ [] \<and> bus_of ?st1 = (bus_of st)\<lparr>b_sda := True, b_out := False\<rparr>"
    by (rule pin_do_events) (use assms(1) in \<open>simp add: bus_busy_def\<close>)
  have "bus_busy ?st1" "\<not> b_out (bus_of ?st1)" using e1 assms by (simp_all add: bus_busy_def)
  from read_bits_busy [OF this, of 8 0] obtain st2 where
    2: "read_bits 8 0 ?st1 = (foldl (\<lambda>x i. shift_in x (iic_in st (iic_cnt st + i))) 0 [0..<8], st2)"
    "events st2 = events ?st1 @ map (\<lambda>i. SBIT (iic_in st (iic_cnt st + i))) [0..<8]" "bus_busy st2"
    "iic_in st2 = iic_in st" "iic_cnt st2 = iic_cnt st + 8"
    unfolding shift_in_def by auto
  have v: "foldl (\<lambda>x i. shift_in x (iic_in st (iic_cnt st + i))) 0 [0..<8] = w"
    using assms(2) shift_in_byte [of 0 w] unfolding sends_def by (metis foldl_map)
  have b: "map (\<lambda>i. SBIT (iic_in st (iic_cnt st + i))) [0..<8] = map SBIT (byte_bits w)"
    using assms(2) unfolding sends_def by (metis (no_types, lifting) map_eq_conv map_map comp_apply)
  have e3: "events (pin_do [Scl False] st2) = events st2 @ [] \<and> bus_of (pin_do [Scl False] st2) = bus_of st2"
    by (rule pin_do_events) (use 2(3) in \<open>simp add: bus_busy_def\<close>)
  show ?thesis
    by (intro exI [of _ "pin_do [Scl False] st2"])
      (use 2 v b e1 e3 in \<open>simp add: IIC_Read_Byte_def bus_busy_def\<close>)
qed

end
