(* ===== verification/Ds1307.thy ===== *)
theory Ds1307 imports SoftIic begin

text \<open>ds1307.c: the driver of the real-time clock chip on the software I2C bus.  The calendar is kept by
  the chip as seven registers in packed decimal; register 7 controls the square wave output, the last
  byte of the chip's RAM marks a chip that has been set.  Only the acknowledge bit of the first
  address byte is looked at, as in the code.\<close>

definition DS1307_Write :: u8 where "DS1307_Write = 0xd0"
definition DS1307_Read :: u8 where "DS1307_Read = 0xd1"
definition test_data :: u8 where "test_data = 0x55"
definition RAM_Address55 :: u8 where "RAM_Address55 = 0x3f"

record time_value =
  t_second :: u8
  t_minute :: u8
  t_hour :: u8
  t_week :: u8
  t_date :: u8
  t_month :: u8
  t_year :: u8
  t_sqwe :: u8

subsection \<open>Registers\<close>

definition DS1307_Write_Byte :: "u8 \<Rightarrow> u8 \<Rightarrow> iic \<Rightarrow> iic" where
  "DS1307_Write_Byte reg dat st = (case IIC_Write_Byte DS1307_Write (IIC_Start st) of (a, st1) \<Rightarrow>
     if a = 0 then IIC_Stop (snd (IIC_Write_Byte dat (snd (IIC_Write_Byte reg st1))))
     else IIC_Stop st1)"

text \<open>\<open>rcv\<close> is what the uninitialised variable of the code holds; it is returned when the chip does not
  answer.\<close>

definition DS1307_Read_Byte :: "u8 \<Rightarrow> u8 \<Rightarrow> iic \<Rightarrow> u8 \<times> iic" where
  "DS1307_Read_Byte rcv reg st = (case IIC_Write_Byte DS1307_Write (IIC_Start st) of (a, st1) \<Rightarrow>
     if a = 0 then
       (case IIC_Read_Byte (snd (IIC_Write_Byte DS1307_Read (IIC_Start (snd (IIC_Write_Byte reg st1)))))
        of (v, st2) \<Rightarrow> (v, IIC_Stop (IIC_Ack 1 st2)))
     else (rcv, IIC_Stop st1))"

fun write_bytes :: "bytes \<Rightarrow> iic \<Rightarrow> iic" where
  "write_bytes [] st = st"
| "write_bytes (b # bs) st = write_bytes bs (snd (IIC_Write_Byte b st))"

text \<open>Reading \<open>k\<close> bytes; the last one is not acknowledged.\<close>

fun read_bytes :: "nat \<Rightarrow> iic \<Rightarrow> bytes \<times> iic" where
  "read_bytes 0 st = ([], st)"
| "read_bytes (Suc k) st = (case IIC_Read_Byte st of (v, st1) \<Rightarrow>
     (case read_bytes k (IIC_Ack (if k = 0 then 1 else 0) st1) of (vs, st2) \<Rightarrow> (v # vs, st2)))"

definition DS1307_Operate_Register :: "u8 \<Rightarrow> bytes \<Rightarrow> nat \<Rightarrow> u8 \<Rightarrow> iic \<Rightarrow> bytes \<times> iic" where
  "DS1307_Operate_Register reg buf num mode st = (case IIC_Write_Byte DS1307_Write (IIC_Start st) of (a, st1) \<Rightarrow>
     if a \<noteq> 0 then (buf, IIC_Stop st1)
     else let st2 = snd (IIC_Write_Byte reg st1) in
       if mode \<noteq> 0 then
         (case read_bytes num (snd (IIC_Write_Byte DS1307_Read (IIC_Start st2))) of (bs, st3) \<Rightarrow>
           (overwrite 0 bs buf, IIC_Stop st3))
       else (buf, IIC_Stop (write_bytes (take num buf) st2)))"

definition DS1307_Check :: "u8 \<Rightarrow> iic \<Rightarrow> u8 \<times> iic" where
  "DS1307_Check rcv st = (case DS1307_Read_Byte rcv RAM_Address55 st of (v, st1) \<Rightarrow>
     (if v = test_data then 0 else 1, st1))"

subsection \<open>The calendar\<close>

text \<open>The time read from the registers; the square wave field is left as it is.\<close>

definition time_of_regs :: "bytes \<Rightarrow> time_value \<Rightarrow> time_value" where
  "time_of_regs r t = t\<lparr>
     t_second := (r ! 0 AND 0x0f) + drop_bit 4 (r ! 0 AND 0x70) * 10,
     t_minute := (r ! 1 AND 0x0f) + drop_bit 4 (r ! 1 AND 0x70) * 10,
     t_hour := (r ! 2 AND 0x0f) + drop_bit 4 (r ! 2 AND 0x30) * 10,
     t_week := r ! 3 AND 0x07,
     t_date := (r ! 4 AND 0x0f) + drop_bit 4 (r ! 4 AND 0x30) * 10,
     t_month := (r ! 5 AND 0x0f) + drop_bit 4 (r ! 5 AND 0x10) * 10,
     t_year := (r ! 6 AND 0x0f) + drop_bit 4 (r ! 6 AND 0xf0) * 10\<rparr>"

definition time_raw :: "time_value \<Rightarrow> bytes" where
  "time_raw t = [t_second t OR 0, t_minute t, t_hour t OR 0, t_week t, t_date t, t_month t, t_year t]"

text \<open>\<open>stack\<close> is what the local buffer of 8 bytes holds.\<close>

definition DS1307_ReadWrite_Time :: "bytes \<Rightarrow> u8 \<Rightarrow> time_value \<Rightarrow> iic \<Rightarrow> time_value \<times> iic" where
  "DS1307_ReadWrite_Time stack mode t st =
     (if mode \<noteq> 0 then (case DS1307_Operate_Register 0 stack 7 1 st of (r, st1) \<Rightarrow> (time_of_regs r t, st1))
      else (t, snd (DS1307_Operate_Register 0 (overwrite 0 (time_raw t) stack) 7 0 st)))"

definition bcd :: "u8 \<Rightarrow> u8 \<Rightarrow> u8" where
  "bcd hi v = ((v mod 10) AND 0x0f) OR push_bit 4 ((v div 10) AND hi)"

definition time_regs :: "time_value \<Rightarrow> bytes" where
  "time_regs t = [bcd 0x0f (t_second t) AND NOT (push_bit 7 1), bcd 0x0f (t_minute t), bcd 0x03 (t_hour t),
     t_week t AND 0x07, bcd 0x03 (t_date t), bcd 0x01 (t_month t), bcd 0x0f (t_year t), t_sqwe t]"

text \<open>The second result is the global buffer \<open>Time_Buffer\<close>.\<close>

definition DS1307_Time_Init :: "time_value \<Rightarrow> iic \<Rightarrow> bytes \<times> iic" where
  "DS1307_Time_Init t st = (case DS1307_Operate_Register 0 (time_regs t) 8 0 st of (buf, st1) \<Rightarrow>
     (buf, DS1307_Write_Byte RAM_Address55 test_data st1))"

subsection \<open>The RAM of the chip\<close>

definition ram_write_num :: "u8 \<Rightarrow> u8 \<Rightarrow> u8" where
  "ram_write_num addr num = (if unat addr + unat num \<ge> unat RAM_Address55 - 1 then RAM_Address55 - 1 - addr else num)"

definition ram_read_num :: "u8 \<Rightarrow> u8 \<Rightarrow> u8" where
  "ram_read_num addr num = (if unat addr + unat num \<ge> unat RAM_Address55 then RAM_Address55 - 1 - addr else num)"

definition DS1307_RAM_Write_Data :: "bytes \<Rightarrow> u8 \<Rightarrow> u8 \<Rightarrow> iic \<Rightarrow> iic" where
  "DS1307_RAM_Write_Data buf addr num st =
     (if addr \<ge> RAM_Address55 then st
      else (case IIC_Write_Byte DS1307_Write (IIC_Start st) of (a, st1) \<Rightarrow>
        if a = 0 then
          IIC_Stop (write_bytes (take (unat (ram_write_num addr num)) buf) (snd (IIC_Write_Byte addr st1)))
        else IIC_Stop st1))"

definition DS1307_RAM_Read_Data :: "bytes \<Rightarrow> u8 \<Rightarrow> u8 \<Rightarrow> iic \<Rightarrow> bytes \<times> iic" where
  "DS1307_RAM_Read_Data buf addr num st =
     (if addr \<ge> RAM_Address55 then (buf, st)
      else (case IIC_Write_Byte DS1307_Write (IIC_Start st) of (a, st1) \<Rightarrow>
        if a = 0 then
          (case IIC_Write_Byte DS1307_Read (IIC_Start (snd (IIC_Write_Byte addr st1))) of (a2, st2) \<Rightarrow>
            if a2 = 0 then
              (case read_bytes (unat (ram_read_num addr num)) st2 of (bs, st3) \<Rightarrow>
                (overwrite 0 bs buf, IIC_Stop st3))
            else (buf, IIC_Stop st2))
        else (buf, IIC_Stop st1)))"

subsection \<open>Transfers on the wire\<close>

definition wire_bytes :: "bytes \<Rightarrow> bool list \<Rightarrow> bev list" where
  "wire_bytes bs acks = concat (map2 byte_out bs acks)"

definition wire_write :: "bytes \<Rightarrow> bool list \<Rightarrow> bev list" where
  "wire_write bs acks = START # wire_bytes bs acks @ [STOP]"

definition acks_of :: "iic \<Rightarrow> nat \<Rightarrow> nat \<Rightarrow> bool list" where
  "acks_of st n k = map (\<lambda>i. iic_in st (n + i)) [0..<k]"

lemma acks_of_Suc: "acks_of st n (Suc k) = iic_in st n # acks_of st (Suc n) k"
  by (simp add: acks_of_def upt_conv_Cons map_Suc_upt [symmetric] del: upt_Suc)

lemma length_acks_of [simp]: "length (acks_of st n k) = k"
  by (simp add: acks_of_def)

lemma acks_of_cong: "iic_in st = iic_in st' \<Longrightarrow> acks_of st n k = acks_of st' n k"
  by (simp add: acks_of_def)

lemma write_bytes_busy:
  assumes "bus_busy st"
  shows "events (write_bytes bs st) = events st @ wire_bytes bs (acks_of st (iic_cnt st) (length bs))
    \<and> bus_busy (write_bytes bs st) \<and> iic_in (write_bytes bs st) = iic_in st
    \<and> iic_cnt (write_bytes bs st) = iic_cnt st + length bs"
  using assms
proof (induction bs arbitrary: st)
  case Nil
  then show ?case by (simp add: wire_bytes_def)
next
  case (Cons b bs)
  from write_byte [OF Cons.prems, of b] obtain st' where w: "snd (IIC_Write_Byte b st) = st'"
    "events st' = events st @ byte_out b (iic_in st (iic_cnt st))" "bus_busy st'"
    "iic_in st' = iic_in st" "iic_cnt st' = Suc (iic_cnt st)" by auto
  from Cons.IH [OF w(3)] w acks_of_cong [OF w(4)] show ?case
    by (simp add: acks_of_Suc wire_bytes_def)
qed

lemma start_write:
  assumes "bus_free st" "\<not> iic_in st (iic_cnt st)"
  shows "\<exists>st1. IIC_Write_Byte w (IIC_Start st) = (0, st1)
    \<and> events st1 = events st @ START # byte_out w False \<and> bus_busy st1
    \<and> iic_in st1 = iic_in st \<and> iic_cnt st1 = Suc (iic_cnt st)"
  using write_byte [OF start_free(2) [OF assms(1)], of w] start_free(1) [OF assms(1)] assms(2) by auto

lemma start_nack:
  assumes "bus_free st" "iic_in st (iic_cnt st)"
  shows "\<exists>st1. IIC_Write_Byte w (IIC_Start st) = (1, st1)
    \<and> events st1 = events st @ START # byte_out w True \<and> bus_busy st1"
  using write_byte [OF start_free(2) [OF assms(1)], of w] start_free(1) [OF assms(1)] assms(2) by auto

lemma write_byte_snd:
  assumes "bus_busy st"
  shows "events (snd (IIC_Write_Byte w st)) = events st @ byte_out w (iic_in st (iic_cnt st))"
    "bus_busy (snd (IIC_Write_Byte w st))" "iic_in (snd (IIC_Write_Byte w st)) = iic_in st"
    "iic_cnt (snd (IIC_Write_Byte w st)) = Suc (iic_cnt st)"
  using write_byte [OF assms, of w] by auto

lemma operate_write:
  assumes "bus_free st" "\<not> iic_in st (iic_cnt st)"
  shows "\<exists>st'. DS1307_Operate_Register reg buf num 0 st = (buf, st')
    \<and> events st' = events st @ wire_write (DS1307_Write # reg # take num buf)
        (acks_of st (iic_cnt st) (2 + length (take num buf)))
    \<and> bus_free st' \<and> iic_in st' = iic_in st \<and> iic_cnt st' = iic_cnt st + 2 + length (take num buf)"
proof -
  from start_write [OF assms, of DS1307_Write] obtain st1 where 1: "IIC_Write_Byte DS1307_Write (IIC_Start st) = (0, st1)"
    "events st1 = events st @ START # byte_out DS1307_Write False" "bus_busy st1"
    "iic_in st1 = iic_in st" "iic_cnt st1 = Suc (iic_cnt st)" by blast
  define st2 where "st2 = snd (IIC_Write_Byte reg st1)"
  note 2 = write_byte_snd [OF 1(3), of reg, folded st2_def]
  note 3 = write_bytes_busy [OF 2(2), of "take num buf"]
  define st3 where "st3 = write_bytes (take num buf) st2"
  have b3: "bus_busy st3" using 3 by (simp add: st3_def)
  have a: "acks_of st2 (Suc (Suc (iic_cnt st))) k = acks_of st (Suc (Suc (iic_cnt st))) k" for k
    by (rule acks_of_cong) (simp add: 1 2)
  have ev: "events (IIC_Stop st3) = events st @ wire_write (DS1307_Write # reg # take num buf)
      (acks_of st (iic_cnt st) (2 + length (take num buf)))"
    using stop_busy(1) [OF b3] 1 2 3 assms(2)
    by (simp add: st3_def a wire_write_def wire_bytes_def acks_of_Suc eval_nat_numeral)
  show ?thesis
    using ev stop_busy(2) [OF b3] 1 2 3
    by (intro exI [of _ "IIC_Stop st3"])
      (simp add: DS1307_Operate_Register_def Let_def st3_def [symmetric] st2_def [symmetric])
qed

lemma write_reg:
  assumes "bus_free st" "\<not> iic_in st (iic_cnt st)"
  shows "events (DS1307_Write_Byte reg dat st) = events st @ wire_write [DS1307_Write, reg, dat] (acks_of st (iic_cnt st) 3)
    \<and> bus_free (DS1307_Write_Byte reg dat st)"
proof -
  have "DS1307_Write_Byte reg dat st = snd (DS1307_Operate_Register reg [dat] 1 0 st)"
    by (simp add: DS1307_Write_Byte_def DS1307_Operate_Register_def Let_def split: prod.splits)
  then show ?thesis using operate_write [OF assms, of reg "[dat]" 1] by (auto simp: eval_nat_numeral)
qed

text \<open>The bytes a chip sends from sample \<open>n\<close> on.\<close>

fun sends_all :: "iic \<Rightarrow> nat \<Rightarrow> bytes \<Rightarrow> bool" where
  "sends_all st n [] = True"
| "sends_all st n (w # ws) = (sends st n w \<and> sends_all st (n + 8) ws)"

lemma sends_all_cong: "iic_in st = iic_in st' \<Longrightarrow> sends_all st n ws = sends_all st' n ws"
  by (induction ws arbitrary: n) (simp_all add: sends_def)

text \<open>A read on the wire: the register is asked for in a write, then a repeated start and the bytes of the chip, each
  acknowledged but the last.\<close>

fun wire_answer :: "bytes \<Rightarrow> bev list" where
  "wire_answer [] = []"
| "wire_answer (w # ws) = byte_in w (ws = []) @ wire_answer ws"

definition wire_read :: "u8 \<Rightarrow> bytes \<Rightarrow> bool list \<Rightarrow> bev list" where
  "wire_read reg ws acks = START # wire_bytes [DS1307_Write, reg] (take 2 acks) @ START # wire_bytes [DS1307_Read] (drop 2 acks)
     @ wire_answer ws @ [STOP]"

lemma read_bytes_busy:
  assumes "bus_busy st" "sends_all st (iic_cnt st) ws"
  shows "\<exists>st'. read_bytes (length ws) st = (ws, st') \<and> bus_busy st' \<and> events st' = events st @ wire_answer ws"
  using assms
proof (induction ws arbitrary: st)
  case Nil
  then show ?case by simp
next
  case (Cons w ws)
  from read_byte [OF Cons.prems(1), of w] Cons.prems(2) obtain st1 where
    1: "IIC_Read_Byte st = (w, st1)" "bus_busy st1" "iic_in st1 = iic_in st" "iic_cnt st1 = iic_cnt st + 8"
      "events st1 = events st @ map SBIT (byte_bits w)" by auto
  let ?st2 = "IIC_Ack (if length ws = 0 then 1 else 0) st1"
  have e: "events ?st2 = events st @ byte_in w (ws = [])" "bus_busy ?st2"
    using ack_busy [OF 1(2)] 1(5) by (simp_all add: byte_in_def)
  have "sends_all ?st2 (iic_cnt ?st2) ws"
    using Cons.prems(2) 1 sends_all_cong [of ?st2 st] by simp
  then obtain st' where "read_bytes (length ws) ?st2 = (ws, st')" "bus_busy st'" "events st' = events ?st2 @ wire_answer ws"
    using Cons.IH [OF e(2)] by blast
  then show ?case using 1(1) e(1) by auto
qed

lemma operate_read:
  assumes "bus_free st" "\<not> iic_in st (iic_cnt st)" "sends_all st (iic_cnt st + 3) ws" "mode \<noteq> 0"
  shows "\<exists>st'. DS1307_Operate_Register reg buf (length ws) mode st = (overwrite 0 ws buf, st') \<and> bus_free st'
    \<and> events st' = events st @ wire_read reg ws (acks_of st (iic_cnt st) 3)"
proof -
  from start_write [OF assms(1,2), of DS1307_Write] obtain st1 where 1: "IIC_Write_Byte DS1307_Write (IIC_Start st) = (0, st1)"
    "events st1 = events st @ START # byte_out DS1307_Write False" "bus_busy st1" "iic_in st1 = iic_in st" "iic_cnt st1 = Suc (iic_cnt st)" by blast
  define st2 where "st2 = snd (IIC_Write_Byte reg st1)"
  note 2 = write_byte_snd [OF 1(3), of reg, folded st2_def]
  define st3 where "st3 = snd (IIC_Write_Byte DS1307_Read (IIC_Start st2))"
  note 3 = write_byte_snd [OF start_busy(2) [OF 2(2)], of DS1307_Read, folded st3_def]
  have "sends_all st3 (iic_cnt st3) ws"
    using assms(3) 1 2 3 sends_all_cong [of st3 st] by (simp add: eval_nat_numeral)
  from read_bytes_busy [OF 3(2) this] obtain st4 where 4: "read_bytes (length ws) st3 = (ws, st4)" "bus_busy st4"
    "events st4 = events st3 @ wire_answer ws" by blast
  have "events (IIC_Stop st4) = events st @ wire_read reg ws (acks_of st (iic_cnt st) 3)"
    using 1 2 3 4 stop_busy(1) [OF 4(2)] start_busy(1) [OF 2(2)] assms(2)
    by (simp add: wire_read_def wire_bytes_def acks_of_Suc eval_nat_numeral)
  then show ?thesis
    using 1(1) 4(1) stop_busy(2) [OF 4(2)] assms(4)
    by (intro exI [of _ "IIC_Stop st4"])
      (simp add: DS1307_Operate_Register_def Let_def st2_def [symmetric] st3_def [symmetric])
qed

text \<open>Whatever is sampled is some byte.\<close>

lemma sends_some: "\<exists>w. sends st n w"
proof -
  have "byte_bits (foldl shift_in 0 (map (\<lambda>i. iic_in st (n + i)) [0..<8])) = map (\<lambda>i. iic_in st (n + i)) [0..<8]"
    by (simp add: upt_8 byte_bits_def bit_shift_in)
  then show ?thesis unfolding sends_def by metis
qed

lemma sends_all_some: "\<exists>ws. length ws = k \<and> sends_all st n ws"
proof (induction k arbitrary: n)
  case (Suc k)
  obtain w where "sends st n w" using sends_some by blast
  moreover obtain ws where "length ws = k" "sends_all st (n + 8) ws" using Suc.IH by blast
  ultimately show ?case by (intro exI [of _ "w # ws"]) simp
qed simp

lemma sends_all_fun: "sends_all st n ws \<Longrightarrow> sends_all st n vs \<Longrightarrow> length ws = length vs \<Longrightarrow> ws = vs"
proof (induction ws vs arbitrary: n rule: list_induct2')
  case (4 w ws v vs)
  then have "byte_bits w = byte_bits v" by (simp add: sends_def)
  then have "w = v" by (metis shift_in_byte)
  then show ?case using 4 by auto
qed auto

subsection \<open>The chip\<close>

text \<open>What the chip makes of the wire, as its data sheet says: the byte after its write address sets the register pointer,
  each further byte is stored and moves the pointer; a read begins at the pointer.\<close>

record ds1307 =
  ds_ptr :: u8
  ds_regs :: "u8 \<Rightarrow> u8"
  ds_bytes :: bytes
  ds_bits :: "bool list"

definition ds_byte :: "u8 \<Rightarrow> ds1307 \<Rightarrow> ds1307" where
  "ds_byte w c = (case ds_bytes c of [] \<Rightarrow> c
     | a # r \<Rightarrow> if a \<noteq> 0xd0 then c else if r = [] then c\<lparr>ds_ptr := w\<rparr>
         else c\<lparr>ds_regs := (ds_regs c)(ds_ptr c := w), ds_ptr := ds_ptr c + 1\<rparr>)\<lparr>ds_bytes := ds_bytes c @ [w], ds_bits := []\<rparr>"

fun ds_step :: "ds1307 \<Rightarrow> bev \<Rightarrow> ds1307" where
  "ds_step c START = c\<lparr>ds_bytes := [], ds_bits := []\<rparr>"
| "ds_step c STOP = c\<lparr>ds_bytes := [], ds_bits := []\<rparr>"
| "ds_step c (MBIT b) = c\<lparr>ds_bits := ds_bits c @ [b]\<rparr>"
| "ds_step c (SBIT _) = (if length (ds_bits c) = 8 then ds_byte (foldl shift_in 0 (ds_bits c)) c else c\<lparr>ds_bits := []\<rparr>)"

abbreviation ds_hears :: "bev list \<Rightarrow> ds1307 \<Rightarrow> ds1307" where
  "ds_hears es c \<equiv> foldl ds_step c es"

subsection \<open>Packed decimal\<close>

definition unbcd :: "u8 \<Rightarrow> u8 \<Rightarrow> u8" where
  "unbcd m r = (r AND 0x0f) + drop_bit 4 (r AND m) * 10"

lemma bcd_table:
  "list_all (\<lambda>n. unbcd 0x70 (bcd 0x0f (of_nat n)) = of_nat n
     \<and> unbcd 0x70 (bcd 0x0f (of_nat n) AND NOT (push_bit 7 1)) = of_nat n) [0..<60]"
  "list_all (\<lambda>n. unbcd 0x30 (bcd 0x03 (of_nat n)) = of_nat n) [0..<32]"
  "list_all (\<lambda>n. unbcd 0x10 (bcd 0x01 (of_nat n)) = of_nat n) [0..<13]"
  "list_all (\<lambda>n. unbcd 0xf0 (bcd 0x0f (of_nat n)) = of_nat n) [0..<100]"
  "list_all (\<lambda>n. (of_nat n :: u8) AND 7 AND 7 = of_nat n) [0..<8]"
  by code_simp+

lemma table_word:
  assumes "list_all (\<lambda>n. Q (of_nat n)) [0..<k]" "unat (v :: u8) < k"
  shows "Q v"
proof -
  have "unat v \<in> set [0..<k]" using assms(2) by simp
  then have "Q (of_nat (unat v))" using assms(1) unfolding list_all_iff by (rule bspec [rotated])
  then show ?thesis by simp
qed

definition time_ok :: "time_value \<Rightarrow> bool" where
  "time_ok t = (unat (t_second t) < 60 \<and> unat (t_minute t) < 60 \<and> unat (t_hour t) < 24 \<and> unat (t_week t) < 8
     \<and> unat (t_date t) < 32 \<and> unat (t_month t) < 13 \<and> unat (t_year t) < 100)"

lemma time_of_regs_unbcd: "time_of_regs r t = t\<lparr>t_second := unbcd 0x70 (r ! 0), t_minute := unbcd 0x70 (r ! 1),
    t_hour := unbcd 0x30 (r ! 2), t_week := r ! 3 AND 0x07, t_date := unbcd 0x30 (r ! 4),
    t_month := unbcd 0x10 (r ! 5), t_year := unbcd 0xf0 (r ! 6)\<rparr>"
  by (simp only: time_of_regs_def unbcd_def)

lemma take_time_regs: "take 7 (time_regs t) = [bcd 0x0f (t_second t) AND NOT (push_bit 7 1), bcd 0x0f (t_minute t),
    bcd 0x03 (t_hour t), t_week t AND 0x07, bcd 0x03 (t_date t), bcd 0x01 (t_month t), bcd 0x0f (t_year t)]"
  by (simp add: time_regs_def)

lemma time_regs_roundtrip:
  assumes "time_ok t"
  shows "time_of_regs (take 7 (time_regs t) @ xs) u = t\<lparr>t_sqwe := t_sqwe u\<rparr>"
proof -
  note ok = assms [unfolded time_ok_def]
  have "unbcd 0x70 (bcd 0x0f (t_second t) AND NOT (push_bit 7 1)) = t_second t"
    using table_word [OF bcd_table(1), of "t_second t"] ok by simp
  moreover have "unbcd 0x70 (bcd 0x0f (t_minute t)) = t_minute t"
    using table_word [OF bcd_table(1), of "t_minute t"] ok by simp
  moreover have "unbcd 0x30 (bcd 0x03 (t_hour t)) = t_hour t" "unbcd 0x30 (bcd 0x03 (t_date t)) = t_date t"
    using table_word [OF bcd_table(2), of "t_hour t"] table_word [OF bcd_table(2), of "t_date t"] ok by simp_all
  moreover have "unbcd 0x10 (bcd 0x01 (t_month t)) = t_month t"
    using table_word [OF bcd_table(3), of "t_month t"] ok by simp
  moreover have "unbcd 0xf0 (bcd 0x0f (t_year t)) = t_year t"
    using table_word [OF bcd_table(4), of "t_year t"] ok by simp
  moreover have "t_week t AND 7 AND 7 = t_week t"
    using table_word [OF bcd_table(5), of "t_week t"] ok by simp
  ultimately show ?thesis
    unfolding time_of_regs_unbcd take_time_regs by (intro time_value.equality) simp_all
qed

subsection \<open>Properties\<close>

lemma time_init_wire:
  assumes "bus_free st" "\<not> iic_in st (iic_cnt st)" "\<not> iic_in st (iic_cnt st + 10)"
  shows "\<exists>st' a1 a2. DS1307_Time_Init t st = (time_regs t, st') \<and> bus_free st'
    \<and> events st' = events st @ wire_write (DS1307_Write # 0 # time_regs t) a1
        @ wire_write [DS1307_Write, RAM_Address55, test_data] a2
    \<and> length a1 = 10 \<and> length a2 = 3"
proof -
  have l8: "length (time_regs t) = 8" by (simp add: time_regs_def)
  then have tk: "take 8 (time_regs t) = time_regs t" by simp
  from operate_write [OF assms(1,2), of 0 "time_regs t" 8] obtain st1 where
    1: "DS1307_Operate_Register 0 (time_regs t) 8 0 st = (time_regs t, st1)"
    "events st1 = events st @ wire_write (DS1307_Write # 0 # time_regs t) (acks_of st (iic_cnt st) 10)"
    "bus_free st1" "iic_in st1 = iic_in st" "iic_cnt st1 = iic_cnt st + 10"
    unfolding tk by (auto simp: l8)
  have n1: "\<not> iic_in st1 (iic_cnt st1)" using 1 assms(3) by simp
  note 2 = write_reg [OF 1(3) n1, of RAM_Address55 test_data]
  have "DS1307_Time_Init t st = (time_regs t, DS1307_Write_Byte RAM_Address55 test_data st1)"
    using 1(1) by (simp add: DS1307_Time_Init_def)
  then show ?thesis using 1(2) 2
    by (intro exI [of _ "DS1307_Write_Byte RAM_Address55 test_data st1"]
        exI [of _ "acks_of st (iic_cnt st) 10"] exI [of _ "acks_of st1 (iic_cnt st1) 3"]) simp
qed

lemma ds_mbits: "ds_hears (map MBIT bs) c = c\<lparr>ds_bits := ds_bits c @ bs\<rparr>"
  by (induction bs arbitrary: c) simp_all

lemma ds_byte_out: "ds_bits c = [] \<Longrightarrow> ds_hears (byte_out w a) c = ds_byte w c"
  by (simp add: byte_out_def ds_mbits shift_in_byte) (simp add: byte_bits_def ds_byte_def split: list.splits)

lemma ds_byte_bits [simp]: "ds_bits (ds_byte w c) = []"
  by (simp add: ds_byte_def split: list.splits)

lemma ds_wire_bytes: "ds_bits c = [] \<Longrightarrow> length acks = length bs \<Longrightarrow> ds_hears (wire_bytes bs acks) c = foldl (\<lambda>c w. ds_byte w c) c bs"
proof (induction bs arbitrary: c acks)
  case (Cons b bs)
  then obtain a as where "acks = a # as" "length as = length bs" by (cases acks) auto
  then show ?case using Cons.IH [of "ds_byte b c" as] ds_byte_out [of c b a] Cons.prems(1) by (simp add: wire_bytes_def)
qed (simp add: wire_bytes_def)

lemma ds_write:
  "length acks = length bs \<Longrightarrow> ds_hears (wire_write bs acks) c
     = (foldl (\<lambda>c w. ds_byte w c) (c\<lparr>ds_bytes := [], ds_bits := []\<rparr>) bs)\<lparr>ds_bytes := [], ds_bits := []\<rparr>"
  by (simp add: wire_write_def ds_wire_bytes)

text \<open>The answering bytes do not move the registers.\<close>

lemma ds_sbits: "ds_bits c = [] \<Longrightarrow> ds_hears (map SBIT bs) c = c"
proof (induction bs)
  case (Cons b bs)
  then have "c\<lparr>ds_bits := []\<rparr> = c" by (cases c) simp
  then show ?case using Cons by (simp only: list.map foldl.simps ds_step.simps) simp
qed simp

definition ds_quiet :: "ds1307 \<Rightarrow> bool" where
  "ds_quiet c = (length (ds_bits c) < 2)"

lemma ds_answer_1:
  assumes "ds_quiet c"
  shows "ds_quiet (ds_hears (byte_in w a) c) \<and> ds_ptr (ds_hears (byte_in w a) c) = ds_ptr c \<and> ds_regs (ds_hears (byte_in w a) c) = ds_regs c"
proof -
  have "ds_hears (map SBIT (byte_bits w)) c = ds_hears (map SBIT (map (bit w) [6, 5, 4, 3, 2, 1, 0])) (c\<lparr>ds_bits := []\<rparr>)"
    using assms unfolding byte_bits_def ds_quiet_def by (simp del: foldl_map)
  also have "\<dots> = c\<lparr>ds_bits := []\<rparr>" by (rule ds_sbits) simp
  finally have e: "ds_hears (map SBIT (byte_bits w)) c = c\<lparr>ds_bits := []\<rparr>" .
  show ?thesis unfolding byte_in_def foldl_append e by (simp add: ds_quiet_def)
qed

lemma ds_answer:
  "ds_quiet c \<Longrightarrow> ds_ptr (ds_hears (wire_answer ws) c) = ds_ptr c \<and> ds_regs (ds_hears (wire_answer ws) c) = ds_regs c"
proof (induction ws arbitrary: c)
  case (Cons w ws)
  note 1 = ds_answer_1 [OF Cons.prems, of w "ws = []"]
  show ?case using Cons.IH [of "ds_hears (byte_in w (ws = [])) c"] 1 by simp
qed simp

lemma ds_read:
  assumes "length acks = 3"
  shows "ds_ptr (ds_hears (wire_read reg ws acks) c) = reg \<and> ds_regs (ds_hears (wire_read reg ws acks) c) = ds_regs c"
proof -
  have l: "length (take 2 acks) = 2" "length (drop 2 acks) = 1" using assms by simp_all
  obtain p R x y where c: "c = \<lparr>ds_ptr = p, ds_regs = R, ds_bytes = x, ds_bits = y\<rparr>" by (cases c)
  have 1: "ds_hears (wire_bytes [DS1307_Write, reg] (take 2 acks)) (ds_step c START) = \<lparr>ds_ptr = reg, ds_regs = R, ds_bytes = [DS1307_Write, reg], ds_bits = []\<rparr>"
    using l by (simp add: ds_wire_bytes ds_byte_def DS1307_Write_def c)
  have 2: "ds_hears (wire_bytes [DS1307_Read] (drop 2 acks)) \<lparr>ds_ptr = reg, ds_regs = R, ds_bytes = [], ds_bits = []\<rparr>
      = \<lparr>ds_ptr = reg, ds_regs = R, ds_bytes = [DS1307_Read], ds_bits = []\<rparr>" (is "_ = ?c2")
    using l by (simp add: ds_wire_bytes ds_byte_def)
  have "ds_hears (wire_read reg ws acks) c = ds_step (ds_hears (wire_answer ws) ?c2) STOP"
    unfolding wire_read_def foldl.simps(2) foldl_append 1 by (simp add: 2)
  moreover have "ds_quiet ?c2" by (simp add: ds_quiet_def)
  ultimately show ?thesis using ds_answer [of ?c2 ws] by (simp add: c)
qed

text \<open>The chip's side of a read of \<open>k\<close> bytes: after hearing what the driver put on the wire since \<open>st\<close> it has sent its
  registers from the pointer on, \<open>n\<close> samples after the start.\<close>

definition ds_answers :: "ds1307 \<Rightarrow> iic \<Rightarrow> iic \<Rightarrow> nat \<Rightarrow> nat \<Rightarrow> bool" where
  "ds_answers c st st' n k = (let c' = ds_hears (drop (length (events st)) (events st')) c in
     sends_all st (iic_cnt st + n) (map (\<lambda>i. ds_regs c' (ds_ptr c' + of_nat i)) [0..<k]))"

lemma ds_after_init:
  assumes "length a1 = 10" "length a2 = 3"
  shows "map (\<lambda>i. ds_regs (ds_hears (wire_write (DS1307_Write # 0 # time_regs t) a1
      @ wire_write [DS1307_Write, RAM_Address55, test_data] a2) c) (of_nat i)) [0..<7] = take 7 (time_regs t)
    \<and> ds_regs (ds_hears (wire_write (DS1307_Write # 0 # time_regs t) a1
      @ wire_write [DS1307_Write, RAM_Address55, test_data] a2) c) RAM_Address55 = test_data"
proof -
  have l: "length a1 = length (DS1307_Write # 0 # time_regs t)" "length a2 = length [DS1307_Write, RAM_Address55, test_data]"
    using assms by (simp_all add: time_regs_def)
  obtain r0 r1 r2 r3 r4 r5 r6 r7 where r: "time_regs t = [r0, r1, r2, r3, r4, r5, r6, r7]" by (simp add: time_regs_def)
  have u: "[0..<7] = [0, 1, 2, 3, 4, 5, 6 :: nat]" by (simp add: upt_rec)
  show ?thesis unfolding foldl_append ds_write [OF l(1)] ds_write [OF l(2)] unfolding r u
    by (simp add: ds_byte_def DS1307_Write_def RAM_Address55_def)
qed

text \<open>C40: Setting the clock sends the chip its eight registers in packed decimal and then the mark in the last RAM byte, as
  well-formed I2C transfers.  A later read of the time is a well-formed transfer too, and when it is answered by a chip that
  heard both, the stored bytes and the register asked for included, the time read is the time that was set (the square wave
  field, which is not read, apart).  The chip acknowledges its address in each transfer.\<close>

theorem rtc_time_roundtrip:
  assumes "time_ok t" "bus_free st" "\<not> iic_in st (iic_cnt st)" "\<not> iic_in st (iic_cnt st + 10)"
    "DS1307_Time_Init t st = (buf, st')" "c1 = ds_hears (drop (length (events st)) (events st')) c"
    "bus_free st2" "\<not> iic_in st2 (iic_cnt st2)" "DS1307_ReadWrite_Time stack 1 u st2 = (t', st3)"
    "ds_answers c1 st2 st3 3 7" "length stack = 8"
  shows "(\<exists>a1 a2. events st' = events st @ wire_write (DS1307_Write # 0 # time_regs t) a1
        @ wire_write [DS1307_Write, RAM_Address55, test_data] a2 \<and> length a1 = 10 \<and> length a2 = 3) \<and> bus_free st'
    \<and> ds_regs c1 RAM_Address55 = test_data
    \<and> (\<exists>a3. events st3 = events st2 @ wire_read 0 (take 7 (time_regs t)) a3 \<and> length a3 = 3) \<and> bus_free st3
    \<and> t' = t\<lparr>t_sqwe := t_sqwe u\<rparr>"
proof -
  obtain a1 a2 where w: "events st' = events st @ wire_write (DS1307_Write # 0 # time_regs t) a1
      @ wire_write [DS1307_Write, RAM_Address55, test_data] a2" "length a1 = 10" "length a2 = 3" "bus_free st'"
    using time_init_wire [OF assms(2-4), of t] assms(5) by auto
  have c1: "c1 = ds_hears (wire_write (DS1307_Write # 0 # time_regs t) a1 @ wire_write [DS1307_Write, RAM_Address55, test_data] a2) c"
    using assms(6) unfolding w(1) by simp
  note i = ds_after_init [OF w(2,3), where t = t and c = c, folded c1]
  obtain ws where ws: "length ws = 7" "sends_all st2 (iic_cnt st2 + 3) ws" using sends_all_some by blast
  obtain st4 where 4: "DS1307_Operate_Register 0 stack 7 1 st2 = (overwrite 0 ws stack, st4)" "bus_free st4"
      "events st4 = events st2 @ wire_read 0 ws (acks_of st2 (iic_cnt st2) 3)"
    using operate_read [OF assms(7,8) ws(2), of 1 0 stack] unfolding ws(1) by auto
  have 3: "st3 = st4" "t' = time_of_regs (overwrite 0 ws stack) u" using assms(9) 4(1) by (simp_all add: DS1307_ReadWrite_Time_def)
  have "ds_ptr (ds_hears (drop (length (events st2)) (events st3)) c1) = 0" "ds_regs (ds_hears (drop (length (events st2)) (events st3)) c1) = ds_regs c1"
    using ds_read [where acks = "acks_of st2 (iic_cnt st2) 3" and reg = 0 and ws = ws and c = c1] by (simp_all add: 3(1) 4(3))
  then have "sends_all st2 (iic_cnt st2 + 3) (take 7 (time_regs t))" using assms(10) i by (simp add: ds_answers_def Let_def)
  then have e: "ws = take 7 (time_regs t)" by (rule sends_all_fun [OF ws(2)]) (simp add: ws(1) time_regs_def)
  have "t' = t\<lparr>t_sqwe := t_sqwe u\<rparr>" using time_regs_roundtrip [OF assms(1)] by (simp add: 3(2) e overwrite_def)
  moreover have "events st3 = events st2 @ wire_read 0 (take 7 (time_regs t)) (acks_of st2 (iic_cnt st2) 3)" by (simp add: 3(1) 4(3) e)
  ultimately show ?thesis using w i 4(2) 3(1) by (intro conjI exI) (rule refl | assumption | simp)+
qed

definition demo_time :: time_value where
  "demo_time = \<lparr>t_second = 56, t_minute = 34, t_hour = 12, t_week = 3, t_date = 26, t_month = 4, t_year = 17, t_sqwe = 0\<rparr>"

definition demo_chip :: "bytes \<Rightarrow> iic" where
  "demo_chip ws = \<lparr>lines = [], iic_in = (\<lambda>n. 3 \<le> n \<and> n < 3 + 8 * length ws \<and> byte_bits (ws ! ((n - 3) div 8)) ! ((n - 3) mod 8)),
     iic_cnt = 0\<rparr>"

definition demo_regs :: ds1307 where
  "demo_regs = \<lparr>ds_ptr = 5, ds_regs = (\<lambda>_. 0), ds_bytes = [], ds_bits = []\<rparr>"

lemma demo_chip_sends:
  "sends_all (demo_chip (take 7 (time_regs demo_time))) (0 + 3) (take 7 (time_regs demo_time))"
  by code_simp

theorem rtc_time_roundtrip_witness:
  "fst (DS1307_ReadWrite_Time (replicate 8 0) 1 demo_time (demo_chip (take 7 (time_regs demo_time)))) = demo_time"
proof -
  let ?s = "demo_chip []" and ?r = "demo_chip (take 7 (time_regs demo_time))"
  have f: "bus_free (demo_chip ws)" for ws
    by (simp add: bus_free_def bus_of_def demo_chip_def idle_bus_def)
  have k: "time_ok demo_time" by (simp add: time_ok_def demo_time_def)
  have n: "\<not> iic_in (demo_chip ws) (iic_cnt (demo_chip ws))" for ws by (simp add: demo_chip_def)
  have m: "\<not> iic_in ?s (iic_cnt ?s + 10)" by (simp add: demo_chip_def)
  obtain buf st' where i: "DS1307_Time_Init demo_time ?s = (buf, st')" by fastforce
  obtain t' st3 where r: "DS1307_ReadWrite_Time (replicate 8 0) 1 demo_time ?r = (t', st3)" by fastforce
  define c1 where "c1 = ds_hears (drop (length (events ?s)) (events st')) demo_regs"
  obtain a1 a2 where w: "events st' = events ?s @ wire_write (DS1307_Write # 0 # time_regs demo_time) a1
      @ wire_write [DS1307_Write, RAM_Address55, test_data] a2" "length a1 = 10" "length a2 = 3"
    using time_init_wire [OF f n m, of demo_time] i by auto
  have c: "map (\<lambda>i. ds_regs c1 (of_nat i)) [0..<7] = take 7 (time_regs demo_time)"
    using ds_after_init [OF w(2,3), where t = demo_time and c = demo_regs] unfolding c1_def w(1) by simp
  have s: "sends_all ?r (iic_cnt ?r + 3) (take 7 (time_regs demo_time))" using demo_chip_sends by (simp add: demo_chip_def)
  have l: "length (take 7 (time_regs demo_time)) = 7" by (simp add: time_regs_def)
  have "events st3 = events ?r @ wire_read 0 (take 7 (time_regs demo_time)) (acks_of ?r (iic_cnt ?r) 3)"
    using operate_read [OF f n s, of 1 0 "replicate 8 0"] r unfolding l DS1307_ReadWrite_Time_def by auto
  then have a: "ds_answers c1 ?r st3 3 7"
    using ds_read [where acks = "acks_of ?r (iic_cnt ?r) 3" and reg = 0 and ws = "take 7 (time_regs demo_time)" and c = c1] c s by (simp add: ds_answers_def Let_def)
  have "t' = demo_time\<lparr>t_sqwe := t_sqwe demo_time\<rparr>"
    using rtc_time_roundtrip [OF k f n m i c1_def f n r a] by simp
  then show ?thesis using r by simp
qed

text \<open>Writing the time with \<open>DS1307_ReadWrite_Time(0)\<close> puts the binary numbers into registers that are
  read as packed decimal: every minute from 16 on comes back as another minute.\<close>

theorem raw_time_misread:
  assumes "bus_free st" "\<not> iic_in st (iic_cnt st)" "length stack = 8" "16 \<le> unat (t_minute t)" "unat (t_minute t) < 60"
  shows "\<exists>st' a. DS1307_ReadWrite_Time stack 0 t st = (t, st')
    \<and> events st' = events st @ wire_write (DS1307_Write # 0 # time_raw t) a \<and> length a = 9
    \<and> t_minute (time_of_regs (time_raw t) u) \<noteq> t_minute t"
proof -
  have tk: "take 7 (overwrite 0 (time_raw t) stack) = time_raw t" "length (time_raw t) = 7"
    using assms(3) by (simp_all add: overwrite_def time_raw_def)
  from operate_write [OF assms(1,2), of 0 "overwrite 0 (time_raw t) stack" 7] obtain st' where
    "DS1307_Operate_Register 0 (overwrite 0 (time_raw t) stack) 7 0 st = (overwrite 0 (time_raw t) stack, st')"
    "events st' = events st @ wire_write (DS1307_Write # 0 # time_raw t) (acks_of st (iic_cnt st) 9)"
    unfolding tk by auto
  moreover have "list_all (\<lambda>n. 16 \<le> unat (of_nat n :: u8) \<longrightarrow> unbcd 0x70 (of_nat n) \<noteq> of_nat n) [0..<60]"
    by code_simp
  from table_word [OF this assms(5)] have "t_minute (time_of_regs (time_raw t) u) \<noteq> t_minute t"
    using assms(4) by (simp add: time_of_regs_unbcd time_raw_def)
  ultimately show ?thesis
    by (intro exI [of _ st'] exI [of _ "acks_of st (iic_cnt st) 9"]) (simp add: DS1307_ReadWrite_Time_def)
qed

theorem raw_time_misread_witness:
  "t_minute (time_of_regs (time_raw demo_time) demo_time) \<noteq> 34"
proof -
  have f: "bus_free (demo_chip [])"
    by (simp add: bus_free_def bus_of_def demo_chip_def idle_bus_def)
  have "\<not> iic_in (demo_chip []) (iic_cnt (demo_chip []))" "length (replicate 8 (0 :: u8)) = 8"
    "16 \<le> unat (t_minute demo_time)" "unat (t_minute demo_time) < 60"
    by (simp_all add: demo_chip_def demo_time_def)
  from raw_time_misread [OF f this, of demo_time]
  have "t_minute (time_of_regs (time_raw demo_time) demo_time) \<noteq> t_minute demo_time" by blast
  moreover have "t_minute demo_time = 34" by (simp add: demo_time_def)
  ultimately show ?thesis by simp
qed

text \<open>The RAM calls keep away from the mark in the last byte: a write ends at address 0x3d at the
  latest, whatever start and length are asked for, and puts nothing on the bus from 0x3f on.  The
  limit is one byte tighter than the byte before the mark, which can neither be written nor read.\<close>

theorem ram_write_stops_early:
  assumes "bus_free st" "\<not> iic_in st (iic_cnt st)" "unat num \<le> length buf"
  shows "(if addr \<ge> RAM_Address55 then DS1307_RAM_Write_Data buf addr num st = st
    else \<exists>n a. events (DS1307_RAM_Write_Data buf addr num st)
        = events st @ wire_write (DS1307_Write # addr # take n buf) a
      \<and> length a = 2 + n \<and> n = min (unat num) (0x3e - unat addr) \<and> unat addr + n \<le> 0x3e)"
proof (cases "addr \<ge> RAM_Address55")
  case True
  then show ?thesis by (simp add: DS1307_RAM_Write_Data_def)
next
  case False
  let ?n = "unat (ram_write_num addr num)"
  have a: "unat addr < 63" using False by (simp add: RAM_Address55_def word_le_nat_alt)
  then have "addr \<le> RAM_Address55 - 1" by (simp add: RAM_Address55_def word_le_nat_alt)
  then have "unat (RAM_Address55 - 1 - addr) = 62 - unat addr"
    by (subst unat_sub) (simp_all add: RAM_Address55_def)
  then have n: "?n = min (unat num) (62 - unat addr)"
    by (auto simp: ram_write_num_def RAM_Address55_def)
  then have l: "length (take ?n buf) = ?n" using assms(3) by simp
  have "DS1307_RAM_Write_Data buf addr num st = snd (DS1307_Operate_Register addr buf ?n 0 st)"
    using False by (simp add: DS1307_RAM_Write_Data_def DS1307_Operate_Register_def Let_def split: prod.splits)
  with operate_write [OF assms(1,2), of addr buf ?n] have
    "events (DS1307_RAM_Write_Data buf addr num st) = events st @ wire_write (DS1307_Write # addr # take ?n buf)
        (acks_of st (iic_cnt st) (2 + ?n))" unfolding l by auto
  then show ?thesis using False n a
    by (simp only: if_False) (intro exI [of _ ?n] exI [of _ "acks_of st (iic_cnt st) (2 + ?n)"], simp)
qed

theorem ram_write_stops_early_witness:
  "\<exists>n. events (DS1307_RAM_Write_Data (replicate 9 1) 0x3b 4 (demo_chip []))
      = events (demo_chip []) @ wire_write (DS1307_Write # 0x3b # take 3 (replicate 9 1)) n"
proof -
  have f: "bus_free (demo_chip [])"
    by (simp add: bus_free_def bus_of_def demo_chip_def idle_bus_def)
  have "\<not> iic_in (demo_chip []) (iic_cnt (demo_chip []))" "unat (4 :: u8) \<le> length (replicate 9 (1 :: u8))"
    by (simp_all add: demo_chip_def)
  from ram_write_stops_early [OF f this, of "0x3b"] show ?thesis
    by (auto simp: RAM_Address55_def min_def)
qed

end
