(* ===== verification/ServerProcess.thy ===== *)
theory ServerProcess imports AttDatabaseOk WifiPack Ds1307 begin

text \<open>server_process.c: the commands of the server.  \<open>data_process\<close> gets the rest of the receive buffer
  from the user data of a mesh packet on; each command is checked against the checksum behind its
  fixed part, carried out, and answered through \<open>wifi_send\<close> from a static buffer of 1024 bytes.  The
  handlers are one definition each, in the order of the source.  Results are \<open>None\<close> when the code
  writes behind the end of one of its arrays.\<close>

definition CMD_SERVER_USER_ADD :: u8 where "CMD_SERVER_USER_ADD = 0x01"
definition CMD_SERVER_USER_DEL :: u8 where "CMD_SERVER_USER_DEL = 0x02"
definition CMD_SERVER_CONNECT :: u8 where "CMD_SERVER_CONNECT = 0x03"
definition CMD_SERVER_TIMESYNC :: u8 where "CMD_SERVER_TIMESYNC = 0x04"
definition CMD_SERVER_ATT_GET :: u8 where "CMD_SERVER_ATT_GET = 0x05"
definition CMD_SERVER_LIST_RELOAD :: u8 where "CMD_SERVER_LIST_RELOAD = 0x08"
definition CMD_SERVER_ATT_DEL :: u8 where "CMD_SERVER_ATT_DEL = 0x09"
definition CMD_SERVER_USER_CRC_GET :: u8 where "CMD_SERVER_USER_CRC_GET = 0x0A"
definition CMD_SERVER_ACK :: u8 where "CMD_SERVER_ACK = 0x55"
definition CMD_SERVER_NACK :: u8 where "CMD_SERVER_NACK = 0xAA"

lemmas server_cmds = CMD_SERVER_USER_ADD_def CMD_SERVER_USER_DEL_def CMD_SERVER_CONNECT_def
  CMD_SERVER_TIMESYNC_def CMD_SERVER_ATT_GET_def CMD_SERVER_LIST_RELOAD_def CMD_SERVER_ATT_DEL_def
  CMD_SERVER_USER_CRC_GET_def

subsection \<open>State\<close>

text \<open>The static variables of \<open>data_process\<close>, the globals it uses, the sent frames, the lines of the
  clock chip and the state of the files.  \<open>se_header\<close> is what the stack holds where the database
  routines keep a local header.\<close>

record 's srv =
  sp_buf :: bytes
  sp_user :: user_info
  sp_header :: att_header
  sp_atts :: "att_info list"
  sp_crcs :: "u32 list"
  sp_station :: bytes
  sp_time :: time_value
  sp_tbuf :: bytes
  sp_cards :: "card_link list"
  sp_tx :: wifi_tx
  sp_iic :: iic
  sp_fs :: 's

record srv_env =
  se_wifi :: wifi_env
  se_header :: att_header

definition sp_crc_ok :: "'s plat \<Rightarrow> nat \<Rightarrow> bytes \<Rightarrow> bool" where
  "sp_crc_ok P n d = (u32_at n d = block_crc_calc P (take n d))"

definition sp_head :: "u8 \<Rightarrow> 's srv \<Rightarrow> 's srv" where
  "sp_head cmd st = st\<lparr>sp_buf := overwrite 0 (replicate 6 0 @ take 6 (sp_station st) @ [cmd]) (sp_buf st)\<rparr>"

definition sp_send :: "'s plat \<Rightarrow> srv_env \<Rightarrow> nat \<Rightarrow> 's srv \<Rightarrow> 's srv" where
  "sp_send P E n st = st\<lparr>sp_tx := snd (wifi_send P (se_wifi E) CMD_SEND_MESH_DATA (of_nat n) (sp_buf st) (sp_tx st))\<rparr>"

definition sp_reply :: "'s plat \<Rightarrow> srv_env \<Rightarrow> u8 \<Rightarrow> u8 \<Rightarrow> 's srv \<Rightarrow> 's srv" where
  "sp_reply P E code ack st = sp_send P E (6 + 9) (st\<lparr>sp_buf := (sp_buf st)[13 := code, 14 := ack]\<rparr>)"

definition sp_nack :: "'s plat \<Rightarrow> srv_env \<Rightarrow> 's srv \<Rightarrow> 's srv" where
  "sp_nack P E st = sp_send P E (6 + 16) (st\<lparr>sp_buf := (sp_buf st)[13 := CMD_SERVER_NACK]\<rparr>)"

definition sp_num :: "nat \<Rightarrow> bytes \<Rightarrow> u16" where
  "sp_num i d = ucast (d ! i) OR push_bit 8 (ucast (d ! (i + 1)))"

subsection \<open>Commands\<close>

definition sp_user_add :: "'s plat \<Rightarrow> srv_env \<Rightarrow> bytes \<Rightarrow> 's srv \<Rightarrow> 's srv" where
  "sp_user_add P E d st = (let st = sp_head (d ! 0) st in
     if \<not> sp_crc_ok P (1 + USER_SIZE) d then sp_reply P E 0 CMD_SERVER_NACK st
     else (case add_del_get_one_user P (user_info_of (window 1 USER_SIZE d)) 0 (sp_fs st) of (r, u, s) \<Rightarrow>
       let st = st\<lparr>sp_fs := s\<rparr> in
       if r \<noteq> 0 then sp_reply P E 1 CMD_SERVER_NACK st else sp_reply P E 0 CMD_SERVER_ACK st))"

definition sp_user_del :: "'s plat \<Rightarrow> srv_env \<Rightarrow> bytes \<Rightarrow> 's srv \<Rightarrow> 's srv" where
  "sp_user_del P E d st = (let st = sp_head (d ! 0) st in
     if \<not> sp_crc_ok P 3 d then sp_reply P E 0 CMD_SERVER_NACK st
     else (case add_del_get_one_user P ((sp_user st)\<lparr>user_id := sp_num 1 d\<rparr>) 1 (sp_fs st) of (r, u, s) \<Rightarrow>
       let st = st\<lparr>sp_fs := s, sp_user := u\<rparr> in
       if r \<noteq> 0 then sp_reply P E 1 CMD_SERVER_NACK st else sp_reply P E 0 CMD_SERVER_ACK st))"

definition sp_connect :: "'s plat \<Rightarrow> srv_env \<Rightarrow> bytes \<Rightarrow> 's srv \<Rightarrow> 's srv" where
  "sp_connect P E d st = (let st = sp_head (d ! 0) st in
     if \<not> sp_crc_ok P 1 d then sp_reply P E 0 CMD_SERVER_NACK st else sp_reply P E 0 CMD_SERVER_ACK st)"

definition sp_time_of :: "bytes \<Rightarrow> time_value \<Rightarrow> time_value" where
  "sp_time_of d t = t\<lparr>t_year := ucast (sp_num 1 d - 2000), t_month := d ! 3, t_date := d ! 4, t_hour := d ! 5,
     t_minute := d ! 6, t_second := d ! 7, t_week := d ! 8\<rparr>"

definition sp_timesync :: "'s plat \<Rightarrow> srv_env \<Rightarrow> bytes \<Rightarrow> 's srv \<Rightarrow> 's srv" where
  "sp_timesync P E d st = (let st = sp_head (d ! 0) st in
     if \<not> sp_crc_ok P 9 d then sp_reply P E 0 CMD_SERVER_NACK st
     else let t = sp_time_of d (sp_time st) in
       (case DS1307_Time_Init t (sp_iic st) of (tb, w) \<Rightarrow>
         sp_reply P E 0 CMD_SERVER_ACK (st\<lparr>sp_time := t, sp_tbuf := tb, sp_iic := w\<rparr>)))"

definition sp_att_get :: "'s plat \<Rightarrow> srv_env \<Rightarrow> bytes \<Rightarrow> 's srv \<Rightarrow> 's srv option" where
  "sp_att_get P E d st = (let st = sp_head (d ! 0) st in
     if \<not> sp_crc_ok P 3 d then Some (sp_nack P E st)
     else (case record_header_get_set P (sp_header st) 0 (sp_fs st) of (r, h, s) \<Rightarrow>
       let st = st\<lparr>sp_header := h, sp_fs := s\<rparr> in
       if r \<noteq> 0 then Some (sp_nack P E st)
       else (case att_record_get P (se_header E) (sp_atts st) (ucast (sp_num 1 d)) (sp_fs st) of
           None \<Rightarrow> None
         | Some (r, arr, num, s) \<Rightarrow>
             let st = st\<lparr>sp_atts := arr, sp_fs := s\<rparr> in
             (case num of None \<Rightarrow> Some (sp_nack P E st)
              | Some n \<Rightarrow>
                if r \<noteq> 0 then Some (sp_nack P E st)
                else
                  let k = unat n * ATT_SIZE;
                      recs = concat (map att_info_bytes (take (unat n) arr));
                      buf1 = overwrite 14 (le32 (total h) @ le16 n @ recs) ((sp_buf st)[13 := CMD_SERVER_ACK]) in
                  if 20 + k + 4 > length (sp_buf st) then None
                  else
                    let buf2 = overwrite (20 + k) (le32 (block_crc_calc P (window 6 (14 + k) buf1))) buf1 in
                    Some (sp_send P E (6 + 14 + k + 4) (st\<lparr>sp_buf := buf2\<rparr>))))))"

definition sp_list_reload :: "'s plat \<Rightarrow> srv_env \<Rightarrow> bytes \<Rightarrow> 's srv \<Rightarrow> 's srv option" where
  "sp_list_reload P E d st = (let st = sp_head (d ! 0) st in
     if \<not> sp_crc_ok P 1 d then Some (sp_reply P E 0 CMD_SERVER_NACK st)
     else (case card_array_init P (sp_cards st) (sp_fs st) of None \<Rightarrow> None
       | Some (r, cards, s) \<Rightarrow>
           let st = st\<lparr>sp_cards := cards, sp_fs := s\<rparr> in
           Some (if r = -1 then sp_reply P E 1 CMD_SERVER_NACK st else sp_reply P E 0 CMD_SERVER_ACK st)))"

definition sp_att_del :: "'s plat \<Rightarrow> srv_env \<Rightarrow> bytes \<Rightarrow> 's srv \<Rightarrow> 's srv" where
  "sp_att_del P E d st = (let st = sp_head (d ! 0) st in
     if \<not> sp_crc_ok P 3 d then sp_reply P E 0 CMD_SERVER_NACK st
     else (case att_record_del P (se_header E) (sp_num 1 d) (sp_fs st) of (r, s) \<Rightarrow>
       let st = st\<lparr>sp_fs := s\<rparr> in
       if r \<noteq> 0 then sp_reply P E 1 CMD_SERVER_NACK st else sp_reply P E 0 CMD_SERVER_ACK st))"

definition sp_user_crc_get :: "'s plat \<Rightarrow> srv_env \<Rightarrow> bytes \<Rightarrow> 's srv \<Rightarrow> 's srv option" where
  "sp_user_crc_get P E d st = (let st = sp_head (d ! 0) st in
     if \<not> sp_crc_ok P 5 d then Some (sp_nack P E st)
     else (case user_num_get P (sp_fs st) of
         (None, s) \<Rightarrow> Some (sp_nack P E (st\<lparr>sp_fs := s\<rparr>))
       | (Some (user_num, user_id_max), s) \<Rightarrow>
         (case user_crc_get P (sp_num 1 d) (sp_num 3 d) s of (r, crc, s) \<Rightarrow>
           if length crc > length (sp_crcs st) then None
           else
             let st = st\<lparr>sp_crcs := overwrite 0 crc (sp_crcs st), sp_fs := s\<rparr>; n = length crc in
             if r \<noteq> 0 then Some (sp_nack P E st)
             else
               let buf1 = overwrite 14 (le16 user_id_max @ le16 (of_nat n) @ concat (map le32 crc))
                     ((sp_buf st)[13 := CMD_SERVER_ACK]) in
               if 18 + n * 4 + 4 > length (sp_buf st) then None
               else
                 let buf2 = overwrite (18 + n * 4) (le32 (block_crc_calc P (window 6 (12 + n * 4) buf1))) buf1 in
                 Some (sp_send P E (6 + 12 + n * 4 + 4) (st\<lparr>sp_buf := buf2\<rparr>)))))"

text \<open>The switch; the length the caller passes is not used.\<close>

definition data_process :: "'s plat \<Rightarrow> srv_env \<Rightarrow> bytes \<Rightarrow> u16 \<Rightarrow> 's srv \<Rightarrow> 's srv option" where
  "data_process P E d lenth st = (let cmd = d ! 0 in
     if cmd = CMD_SERVER_USER_ADD then Some (sp_user_add P E d st)
     else if cmd = CMD_SERVER_USER_DEL then Some (sp_user_del P E d st)
     else if cmd = CMD_SERVER_CONNECT then Some (sp_connect P E d st)
     else if cmd = CMD_SERVER_TIMESYNC then Some (sp_timesync P E d st)
     else if cmd = CMD_SERVER_ATT_GET then sp_att_get P E d st
     else if cmd = CMD_SERVER_LIST_RELOAD then sp_list_reload P E d st
     else if cmd = CMD_SERVER_ATT_DEL then Some (sp_att_del P E d st)
     else if cmd = CMD_SERVER_USER_CRC_GET then sp_user_crc_get P E d st
     else Some st)"

end
