(* ===== verification/DeviceConfig.thy ===== *)
theory DeviceConfig imports AttDatabaseOk Board begin

text \<open>device_config.c: the configuration of the terminal, one packed structure of 668 bytes in
  /config.bin whose last four bytes are the checksum of the others.\<close>

definition gp_device_config_path :: string where "gp_device_config_path = ''/config.bin''"

definition CFG_SIZE :: nat where "CFG_SIZE = 668"

record device_config =
  device_addr :: u8
  this_device_name :: bytes
  server_ip :: bytes
  server_port :: u16
  router_ssid :: bytes
  router_passwd :: bytes
  router_auth :: u8
  router_bssid :: bytes
  mesh_ssid :: bytes
  mesh_passwd :: bytes
  mesh_group_id :: bytes
  cfg_crc :: u32

definition config_wf :: "device_config \<Rightarrow> bool" where
  "config_wf d = (length (this_device_name d) = 64 \<and> length (server_ip d) = 4
     \<and> length (router_ssid d) = 33 \<and> length (router_passwd d) = 257 \<and> length (router_bssid d) = 6
     \<and> length (mesh_ssid d) = 33 \<and> length (mesh_passwd d) = 257 \<and> length (mesh_group_id d) = 6)"

definition config_bytes :: "device_config \<Rightarrow> bytes" where
  "config_bytes d = [device_addr d] @ this_device_name d @ server_ip d @ le16 (server_port d)
     @ router_ssid d @ router_passwd d @ [router_auth d] @ router_bssid d @ mesh_ssid d
     @ mesh_passwd d @ mesh_group_id d @ le32 (cfg_crc d)"

definition config_of :: "bytes \<Rightarrow> device_config" where
  "config_of bs = \<lparr>device_addr = bs ! 0, this_device_name = window 1 64 bs, server_ip = window 65 4 bs,
     server_port = u16_at 69 bs, router_ssid = window 71 33 bs, router_passwd = window 104 257 bs,
     router_auth = bs ! 361, router_bssid = window 362 6 bs, mesh_ssid = window 368 33 bs,
     mesh_passwd = window 401 257 bs, mesh_group_id = window 658 6 bs, cfg_crc = u32_at 664 bs\<rparr>"

definition config_crc :: "'s plat \<Rightarrow> device_config \<Rightarrow> u32" where
  "config_crc P d = block_crc_calc P (take (CFG_SIZE - 4) (config_bytes d))"

definition zero_config :: device_config where
  "zero_config = config_of (replicate CFG_SIZE 0)"

definition device_config_init :: "'s plat \<Rightarrow> device_config \<Rightarrow> 's \<Rightarrow> int \<times> device_config \<times> 's" where
  "device_config_init P d s = (case p_open P gp_device_config_path db_flags s of (fd, s1) \<Rightarrow>
     if fd < 0 then (-1, d, snd (p_close P fd s1))
     else (case p_lseek P fd 0 SEEK_SET s1 of (r, s2) \<Rightarrow>
       if r = -1 then (-1, d, snd (p_close P fd s2))
       else (case p_read P fd (of_nat CFG_SIZE) s2 of (n, bs, s3) \<Rightarrow>
         let d1 = config_of (bs @ drop (length bs) (config_bytes d)) in
         if config_crc P d1 \<noteq> cfg_crc d1 then
           (let d2 = zero_config\<lparr>cfg_crc := config_crc P zero_config\<rparr> in
            case p_lseek P fd 0 SEEK_SET s3 of (r, s4) \<Rightarrow>
              if r = -1 then (-1, d2, snd (p_close P fd s4))
              else (case p_write P fd (config_bytes d2) s4 of (n, s5) \<Rightarrow>
                (if n \<noteq> int CFG_SIZE then -1 else 0, d2, snd (p_close P fd s5))))
         else (0, d1, snd (p_close P fd s3)))))"

definition device_config_get_set :: "'s plat \<Rightarrow> device_config \<Rightarrow> u8 \<Rightarrow> 's \<Rightarrow> int \<times> device_config \<times> 's" where
  "device_config_get_set P d cmd s = (case p_open P gp_device_config_path db_flags s of (fd, s1) \<Rightarrow>
     if fd < 0 then (-1, d, snd (p_close P fd s1))
     else (case p_lseek P fd 0 SEEK_SET s1 of (r, s2) \<Rightarrow>
       if r = -1 then (-1, d, snd (p_close P fd s2))
       else if cmd = 0 then
         (case p_read P fd (of_nat CFG_SIZE) s2 of (n, bs, s3) \<Rightarrow>
           let d1 = config_of (bs @ drop (length bs) (config_bytes d)) in
           (if n = int CFG_SIZE \<and> cfg_crc d1 = config_crc P d1 then 0 else -1, d1, snd (p_close P fd s3)))
       else if cmd = 1 then
         (let d1 = d\<lparr>cfg_crc := config_crc P d\<rparr> in
          case p_write P fd (config_bytes d1) s2 of (n, s3) \<Rightarrow>
            (if n \<noteq> int CFG_SIZE then -1 else 0, d1, snd (p_close P fd s3)))
       else (-1, d, snd (p_close P fd s2))))"

subsection \<open>The image of the structure\<close>

abbreviation "config_bin \<equiv> gp_device_config_path"

lemma fpath_config: "fpath gp_device_config_path"
  by (simp add: fpath_def gp_device_config_path_def)

lemma length_config_bytes [simp]: "config_wf d \<Longrightarrow> length (config_bytes d) = 668"
  by (simp add: config_bytes_def config_wf_def)

lemma config_wf_of: "length bs = 668 \<Longrightarrow> config_wf (config_of bs)"
  by (simp add: config_wf_def config_of_def)

lemma config_bytes_of: "length bs = 668 \<Longrightarrow> config_bytes (config_of bs) = bs"
  by (cases bs) (simp_all add: config_bytes_def config_of_def le16_at le32_at nth_window_app nth_window1
      window_join window_join_append window_Cons)

lemma config_roundtrip:
  assumes "config_wf d"
  shows "config_of (config_bytes d) = d"
proof -
  have w: "length (this_device_name d) = 64" "length (server_ip d) = 4"
     "length (router_ssid d) = 33" "length (router_passwd d) = 257" "length (router_bssid d) = 6"
     "length (mesh_ssid d) = 33" "length (mesh_passwd d) = 257" "length (mesh_group_id d) = 6"
    using assms by (simp_all add: config_wf_def)
  let ?b = "config_bytes d"
  have l: "length ?b = 668" using assms by simp
  have win: "window 0 1 ?b = [device_addr d]" "window 1 64 ?b = this_device_name d"
    "window 65 4 ?b = server_ip d" "window 69 2 ?b = le16 (server_port d)"
    "window 71 33 ?b = router_ssid d" "window 104 257 ?b = router_passwd d"
    "window 361 1 ?b = [router_auth d]" "window 362 6 ?b = router_bssid d"
    "window 368 33 ?b = mesh_ssid d" "window 401 257 ?b = mesh_passwd d"
    "window 658 6 ?b = mesh_group_id d" "window 664 4 ?b = le32 (cfg_crc d)"
    by (simp_all add: config_bytes_def fields w)
  have "?b ! 0 = device_addr d" using nth_of_window [OF win(1)] l by simp
  then show ?thesis
    using win l u16_of_window [OF win(4)] nth_of_window [OF win(7)] u32_of_window [OF win(12)]
    by (simp add: config_of_def)
qed

lemma config_bytes_crc: "take 664 (config_bytes (d\<lparr>cfg_crc := x\<rparr>)) = take 664 (config_bytes d)"
  if "config_wf d"
  using that by (simp add: config_bytes_def config_wf_def)

lemma config_crc_update: "config_wf d \<Longrightarrow> config_crc P (d\<lparr>cfg_crc := x\<rparr>) = config_crc P d"
  by (simp add: config_crc_def CFG_SIZE_def config_bytes_crc)

lemma config_wf_crc [simp]: "config_wf (d\<lparr>cfg_crc := x\<rparr>) = config_wf d"
  by (simp add: config_wf_def)

lemma zero_config_wf: "config_wf zero_config"
  by (simp add: zero_config_def config_wf_of CFG_SIZE_def)

lemma config_of_append: "length xs = 668 \<Longrightarrow> config_of (xs @ ys) = config_of xs"
  by (cases xs) (simp_all add: config_of_def u16_at_def u32_at_def nth_append nth_Cons' window_append1 window_Cons)

lemma unat_cfg_size: "unat (of_nat CFG_SIZE :: u32) = CFG_SIZE"
  by (simp add: CFG_SIZE_def)

subsection \<open>The operations on the file\<close>

definition config_valid :: "'s plat \<Rightarrow> bytes \<Rightarrow> bool" where
  "config_valid P c = (cfg_crc (config_of c) = config_crc P (config_of c))"

context posix_files begin

lemma open_configE:
  assumes "idle s"
  obtains fd s' where "p_open P config_bin db_flags s = (fd, s')" "\<not> fd < 0"
    "opened s' fd config_bin 0 (file_bytes (content s config_bin))"
    "content s' = (content s)(config_bin \<mapsto> file_bytes (content s config_bin))"
  using openE [OF assms fpath_config db_flags(1)] db_flags(2,4) by metis

lemma config_set:
  assumes "idle s" "file_bytes (content s config_bin) = c" "config_wf d" "CFG_SIZE \<le> cap"
  obtains s' where "device_config_get_set P d 1 s = (0, d\<lparr>cfg_crc := config_crc P d\<rparr>, s')" "idle s'"
    "content s' = (content s)(config_bin \<mapsto> overwrite 0 (config_bytes (d\<lparr>cfg_crc := config_crc P d\<rparr>)) c)"
proof -
  obtain fd s1 where o: "p_open P config_bin db_flags s = (fd, s1)" "\<not> fd < 0"
    "opened s1 fd config_bin 0 c" "content s1 = (content s)(config_bin \<mapsto> c)"
    using open_configE [OF assms(1)] assms(2) by metis
  obtain s2 where l: "p_lseek P fd 0 SEEK_SET s1 = (0, s2)" "opened s2 fd config_bin 0 c"
    "content s2 = content s1"
    using lseek_intE [OF o(3), of 0 0] by auto
  define d1 where "d1 = d\<lparr>cfg_crc := config_crc P d\<rparr>"
  have len: "length (config_bytes d1) = CFG_SIZE" using assms(3) by (simp add: d1_def CFG_SIZE_def)
  then have "0 + length (config_bytes d1) \<le> cap" using assms(4) by simp
  then obtain s3 where w: "p_write P fd (config_bytes d1) s2 = (int (length (config_bytes d1)), s3)"
    "opened s3 fd config_bin (0 + length (config_bytes d1)) (overwrite 0 (config_bytes d1) c)"
    "content s3 = (content s2)(config_bin \<mapsto> overwrite 0 (config_bytes d1) c)"
    using writeE [OF l(2)] by blast
  obtain s4 where cl: "p_close P fd s3 = (0, s4)" "idle s4" "content s4 = content s3"
    using closeE [OF w(2)] .
  show ?thesis
  proof (rule that [OF _ cl(2)])
    show "device_config_get_set P d 1 s = (0, d\<lparr>cfg_crc := config_crc P d\<rparr>, s4)"
      using o(1,2) l(1) w(1) cl(1) len by (simp add: device_config_get_set_def Let_def flip: d1_def)
  qed (simp add: cl(3) w(3) l(3) o(4) flip: d1_def)
qed

lemma config_get:
  assumes "idle s" "file_bytes (content s config_bin) = c" "CFG_SIZE \<le> length c"
  obtains s' where "device_config_get_set P d 0 s = (if config_valid P c then 0 else -1, config_of c, s')"
    "idle s'" "content s' = (content s)(config_bin \<mapsto> c)"
proof -
  obtain fd s1 where o: "p_open P config_bin db_flags s = (fd, s1)" "\<not> fd < 0"
    "opened s1 fd config_bin 0 c" "content s1 = (content s)(config_bin \<mapsto> c)"
    using open_configE [OF assms(1)] assms(2) by metis
  obtain s2 where l: "p_lseek P fd 0 SEEK_SET s1 = (0, s2)" "opened s2 fd config_bin 0 c"
    "content s2 = content s1"
    using lseek_intE [OF o(3), of 0 0] by auto
  have e: "0 + CFG_SIZE \<le> length c" using assms(3) by simp
  obtain s3 where r: "p_read P fd (of_nat CFG_SIZE) s2 = (int CFG_SIZE, window 0 CFG_SIZE c, s3)"
    "opened s3 fd config_bin (0 + CFG_SIZE) c" "content s3 = content s2"
    using read_exactE [OF l(2) e unat_cfg_size] .
  have wl: "length (window 0 CFG_SIZE c) = 668" using assms(3) by (simp add: CFG_SIZE_def)
  have c: "config_of (window 0 CFG_SIZE c @ ys) = config_of c" for ys
    using config_of_append [OF wl] config_of_append [OF wl, of "drop CFG_SIZE c"]
    by (simp add: window_def)
  obtain s4 where cl: "p_close P fd s3 = (0, s4)" "idle s4" "content s4 = content s3"
    using closeE [OF r(2)] .
  show ?thesis
    using o(1,2) l(1) r(1) cl(1) c
    by (intro that [of s4, OF _ cl(2)])
      (simp_all add: device_config_get_set_def Let_def config_valid_def cl(3) r(3) l(3) o(4))
qed

lemma config_init:
  assumes "idle s" "file_bytes (content s config_bin) = c" "CFG_SIZE \<le> length c"
    "d' = (if config_valid P c then config_of c else zero_config\<lparr>cfg_crc := config_crc P zero_config\<rparr>)"
  obtains s' where "device_config_init P d s = (0, d', s')" "idle s'"
    "content s' = (content s)(config_bin \<mapsto> overwrite 0 (config_bytes d') c)"
proof -
  obtain fd s1 where o: "p_open P config_bin db_flags s = (fd, s1)" "\<not> fd < 0"
    "opened s1 fd config_bin 0 c" "content s1 = (content s)(config_bin \<mapsto> c)"
    using open_configE [OF assms(1)] assms(2) by metis
  obtain s2 where l: "p_lseek P fd 0 SEEK_SET s1 = (0, s2)" "opened s2 fd config_bin 0 c"
    "content s2 = content s1"
    using lseek_intE [OF o(3), of 0 0] by auto
  have e: "0 + CFG_SIZE \<le> length c" using assms(3) by simp
  obtain s3 where r: "p_read P fd (of_nat CFG_SIZE) s2 = (int CFG_SIZE, window 0 CFG_SIZE c, s3)"
    "opened s3 fd config_bin (0 + CFG_SIZE) c" "content s3 = content s2"
    using read_exactE [OF l(2) e unat_cfg_size] .
  have wl: "length (window 0 CFG_SIZE c) = 668" using assms(3) by (simp add: CFG_SIZE_def)
  have c: "config_of (window 0 CFG_SIZE c @ ys) = config_of c" for ys
    using config_of_append [OF wl] config_of_append [OF wl, of "drop CFG_SIZE c"]
    by (simp add: window_def)
  show ?thesis
  proof (cases "config_valid P c")
    case True
    obtain s4 where cl: "p_close P fd s3 = (0, s4)" "idle s4" "content s4 = content s3"
      using closeE [OF r(2)] .
    have "config_bytes d' = window 0 CFG_SIZE c"
      using config_bytes_of [OF wl] c [of "[]"] True assms(4) by simp
    then have "overwrite 0 (config_bytes d') c = c"
      using overwrite_window_id [OF e] by simp
    then show ?thesis
      using o(1,2) l(1) r(1) cl(1) c True assms(4)
      by (intro that [of s4, OF _ cl(2)])
        (simp_all add: device_config_init_def Let_def config_valid_def cl(3) r(3) l(3) o(4))
  next
    case False
    obtain s4 where l2: "p_lseek P fd 0 SEEK_SET s3 = (0, s4)" "opened s4 fd config_bin 0 c"
      "content s4 = content s3"
      using lseek_intE [OF r(2), of 0 0] by auto
    have d': "d' = zero_config\<lparr>cfg_crc := config_crc P zero_config\<rparr>" using False assms(4) by simp
    then have len: "length (config_bytes d') = CFG_SIZE" by (simp add: zero_config_wf CFG_SIZE_def)
    then have "0 + length (config_bytes d') \<le> cap" using openedD [OF o(3)] assms(3) by simp
    then obtain s5 where w: "p_write P fd (config_bytes d') s4 = (int (length (config_bytes d')), s5)"
      "opened s5 fd config_bin (0 + length (config_bytes d')) (overwrite 0 (config_bytes d') c)"
      "content s5 = (content s4)(config_bin \<mapsto> overwrite 0 (config_bytes d') c)"
      using writeE [OF l2(2)] by blast
    obtain s6 where cl: "p_close P fd s5 = (0, s6)" "idle s6" "content s6 = content s5"
      using closeE [OF w(2)] .
    show ?thesis
      using o(1,2) l(1) r(1) l2(1) w(1) cl(1) c False len
      by (intro that [of s6, OF _ cl(2)])
        (simp_all add: device_config_init_def Let_def config_valid_def cl(3) w(3) l2(3) r(3) l(3) o(4)
          flip: d')
  qed
qed

end

text \<open>The configuration stored by the set command is returned by the get command with result 0,
  with its checksum filled in.\<close>

theorem config_set_get:
  assumes "files_ok P content sess ready cap s" "config_wf d" "CFG_SIZE \<le> cap"
  shows "\<exists>s1 s2. device_config_get_set P d 1 s = (0, d\<lparr>cfg_crc := config_crc P d\<rparr>, s1)
    \<and> device_config_get_set P d0 0 s1 = (0, d\<lparr>cfg_crc := config_crc P d\<rparr>, s2)
    \<and> (\<forall>p. p \<noteq> config_bin \<longrightarrow> content s2 p = content s p)"
proof -
  note L = files_okD(1) [OF assms(1)] and I = files_okD(2) [OF assms(1)]
  define c where "c = file_bytes (content s config_bin)"
  define d1 where "d1 = d\<lparr>cfg_crc := config_crc P d\<rparr>"
  obtain s1 where 1: "device_config_get_set P d 1 s = (0, d1, s1)" "posix_files.idle sess ready s1"
    "content s1 = (content s)(config_bin \<mapsto> overwrite 0 (config_bytes d1) c)"
    using posix_files.config_set [OF L I c_def [symmetric] assms(2,3)] unfolding d1_def .
  have wf: "config_wf d1" using assms(2) by (simp add: d1_def)
  let ?c = "overwrite 0 (config_bytes d1) c"
  have fb: "file_bytes (content s1 config_bin) = ?c" by (simp add: 1(3) file_bytes_def)
  have len: "CFG_SIZE \<le> length ?c" using wf by (simp add: CFG_SIZE_def)
  obtain s2 where 2: "device_config_get_set P d0 0 s1 = (if config_valid P ?c then 0 else -1, config_of ?c, s2)"
    "content s2 = (content s1)(config_bin \<mapsto> ?c)"
    using posix_files.config_get [OF L 1(2) fb len] .
  have "?c = config_bytes d1 @ drop 668 c" using wf by (simp add: overwrite_def)
  then have e: "config_of ?c = d1"
    using config_of_append [of "config_bytes d1"] config_roundtrip [OF wf] wf by simp
  then have "config_valid P ?c"
    using assms(2) by (simp add: config_valid_def d1_def config_crc_update)
  then show ?thesis using 1(1,3) 2 e unfolding d1_def [symmetric] by simp
qed

theorem config_set_get_witness:
  "\<exists>s1 s2. device_config_get_set board_plat zero_config 1 (board_init [])
      = (0, zero_config\<lparr>cfg_crc := config_crc board_plat zero_config\<rparr>, s1)
    \<and> device_config_get_set board_plat zero_config 0 s1
      = (0, zero_config\<lparr>cfg_crc := config_crc board_plat zero_config\<rparr>, s2)"
proof -
  have ok: "files_ok board_plat board_file dfs_sess board_ready disk_cap (board_init [])"
    by (rule board_ok) simp_all
  have "CFG_SIZE \<le> disk_cap" by (simp add: CFG_SIZE_def disk_cap_def)
  from config_set_get [OF ok zero_config_wf this, of zero_config] show ?thesis by blast
qed

text \<open>Start-up leaves a configuration with a right checksum untouched and replaces any other by the
  zero configuration with its checksum; either way the configuration returned is the one in the file
  and a second start-up changes nothing.\<close>

theorem config_init_repairs:
  assumes "files_ok P content sess ready cap s" "content s config_bin = Some c" "CFG_SIZE \<le> length c"
  shows "\<exists>d' s1 s2 c'. device_config_init P d s = (0, d', s1) \<and> content s1 config_bin = Some c'
    \<and> config_valid P c' \<and> config_of c' = d' \<and> (config_valid P c \<longrightarrow> c' = c)
    \<and> (\<not> config_valid P c \<longrightarrow> d' = zero_config\<lparr>cfg_crc := config_crc P zero_config\<rparr>)
    \<and> device_config_init P d0 s1 = (0, d', s2) \<and> content s2 = content s1"
proof -
  note L = files_okD(1) [OF assms(1)] and I = files_okD(2) [OF assms(1)]
  define d' where "d' = (if config_valid P c then config_of c
    else zero_config\<lparr>cfg_crc := config_crc P zero_config\<rparr>)"
  let ?c = "overwrite 0 (config_bytes d') c"
  have fb: "file_bytes (content s config_bin) = c" by (simp add: assms(2) file_bytes_def)
  obtain s1 where 1: "device_config_init P d s = (0, d', s1)" "posix_files.idle sess ready s1"
    "content s1 = (content s)(config_bin \<mapsto> ?c)"
    using posix_files.config_init [OF L I fb assms(3) d'_def] .
  have tk: "length (take 668 c) = 668" using assms(3) by (simp add: CFG_SIZE_def)
  have ct: "config_of c = config_of (take 668 c)"
    using config_of_append [OF tk, of "drop 668 c"] by simp
  have wf: "config_wf d'"
    using zero_config_wf config_wf_of [OF tk] by (simp add: d'_def ct)
  have cc: "?c = config_bytes d' @ drop 668 c" using wf by (simp add: overwrite_def)
  have e: "config_of ?c = d'"
    using config_of_append [of "config_bytes d'"] config_roundtrip [OF wf] wf cc by simp
  have v: "config_valid P ?c"
    unfolding config_valid_def e
    by (simp add: d'_def config_crc_update zero_config_wf) (simp add: config_valid_def)
  have same: "?c = c" if "config_valid P c"
    using config_bytes_of [OF tk] that cc ct by (simp add: d'_def)
  have fb1: "file_bytes (content s1 config_bin) = ?c" by (simp add: 1(3) file_bytes_def)
  have len: "CFG_SIZE \<le> length ?c" using wf by (simp add: CFG_SIZE_def)
  have d2: "d' = (if config_valid P ?c then config_of ?c
    else zero_config\<lparr>cfg_crc := config_crc P zero_config\<rparr>)" using v e by simp
  obtain s2 where 2: "device_config_init P d0 s1 = (0, d', s2)"
    "content s2 = (content s1)(config_bin \<mapsto> overwrite 0 (config_bytes d') ?c)"
    using posix_files.config_init [OF L 1(2) fb1 len d2] .
  have "overwrite 0 (config_bytes d') ?c = ?c" by (simp add: overwrite_overwrite)
  then have c2: "content s2 = content s1" by (simp add: 1(3) 2(2))
  have c1: "content s1 config_bin = Some ?c" by (simp add: 1(3))
  have z: "d' = zero_config\<lparr>cfg_crc := config_crc P zero_config\<rparr>" if "\<not> config_valid P c"
    using that by (simp add: d'_def)
  show ?thesis using 1(1) c1 v e same z 2(1) c2 by blast
qed

theorem config_init_repairs_witness:
  "\<exists>d' s1 c'. device_config_init board_plat zero_config (board_init [(''config.bin'', replicate 668 0)]) = (0, d', s1)
    \<and> board_file s1 config_bin = Some c' \<and> config_valid board_plat c'"
proof -
  have ok: "files_ok board_plat board_file dfs_sess board_ready disk_cap (board_init [(''config.bin'', replicate 668 0)])"
    by (rule board_ok) (simp_all add: disk_cap_def)
  have f: "board_file (board_init [(''config.bin'', replicate 668 0)]) config_bin = Some (replicate 668 0)"
    using board_file_init [OF fpath_config] by (simp add: gp_device_config_path_def)
  have "CFG_SIZE \<le> length (replicate 668 (0 :: u8))" by (simp add: CFG_SIZE_def)
  from config_init_repairs [OF ok, OF f this] show ?thesis by blast
qed

end
