(* ===== verification/UserCheck.thy ===== *)
theory UserCheck imports ServerProcess DeviceConfig begin

text \<open>user_check_thread.c: what happens when a card is held to one of the readers.  The thread looks the
  card up in the card table, fetches the user, checks the record, the rights, the time limit and
  whether the user is inside or outside, opens the door and logs the passage.  One round of the
  thread's loop is one step on the state of the terminal, the state of the server commands extended by
  the globals of the readers, the configuration and the lines of the door.\<close>

definition USER_CHECK_CARD_IN :: u32 where "USER_CHECK_CARD_IN = 1"
definition USER_CHECK_CARD_OUT :: u32 where "USER_CHECK_CARD_OUT = 2"
definition USER_CHECK_FINGER_IN :: u32 where "USER_CHECK_FINGER_IN = 4"
definition USER_CHECK_FINGER_OUT :: u32 where "USER_CHECK_FINGER_OUT = 8"

lemmas check_events = USER_CHECK_CARD_IN_def USER_CHECK_CARD_OUT_def USER_CHECK_FINGER_IN_def
  USER_CHECK_FINGER_OUT_def

datatype door_line = Beep bool | Door bool | Wait_ms nat

record 's terminal = "'s srv" +
  g_read_card_id :: u32
  g_device_config :: device_config
  door_lines :: "door_line list"

subsection \<open>The door\<close>

text \<open>The lock is released by driving its line low for 100 ms.\<close>

definition door_pulse :: "door_line list" where
  "door_pulse = [Beep True, Door False, Wait_ms 100, Beep False, Door True]"

definition open_door :: "'s terminal \<Rightarrow> 's terminal" where
  "open_door st = st\<lparr>door_lines := door_lines st @ door_pulse\<rparr>"

subsection \<open>Times as text\<close>

text \<open>\<open>sprintf\<close> of a number with \<open>%0<w>d\<close>, and \<open>strcmp\<close>.\<close>

fun dec_digits :: "nat \<Rightarrow> string" where
  "dec_digits n = (if n < 10 then [char_of (48 + n)] else dec_digits (n div 10) @ [char_of (48 + n mod 10)])"

declare dec_digits.simps [simp del]

definition fmt_d :: "nat \<Rightarrow> nat \<Rightarrow> string" where
  "fmt_d w n = replicate (w - length (dec_digits n)) (CHR ''0'') @ dec_digits n"

definition fmt_time :: "nat \<Rightarrow> nat \<Rightarrow> nat \<Rightarrow> nat \<Rightarrow> nat \<Rightarrow> nat \<Rightarrow> string" where
  "fmt_time y mo d h mi s = fmt_d 4 y @ ''-'' @ fmt_d 2 mo @ ''-'' @ fmt_d 2 d @ '' '' @ fmt_d 2 h @ '':''
     @ fmt_d 2 mi @ '':'' @ fmt_d 2 s"

fun c_strcmp :: "string \<Rightarrow> string \<Rightarrow> int" where
  "c_strcmp [] [] = 0"
| "c_strcmp [] (y # ys) = - int (of_char y)"
| "c_strcmp (x # xs) [] = int (of_char x)"
| "c_strcmp (x # xs) (y # ys) = (if x = y then c_strcmp xs ys else int (of_char x) - int (of_char y))"

definition now_time :: "time_value \<Rightarrow> string" where
  "now_time t = fmt_time (unat (t_year t) + 2000) (unat (t_month t)) (unat (t_date t)) (unat (t_hour t))
     (unat (t_minute t)) (unat (t_second t))"

definition limit_time :: "user_info \<Rightarrow> string" where
  "limit_time u = fmt_time (unat (year u)) (unat (month u)) (unat (day u)) (unat (hour u))
     (unat (minutes u)) (unat (second u))"

text \<open>The test of the time limit; \<open>None\<close> when a text does not fit its buffer of 20 characters.\<close>

definition user_expired :: "time_value \<Rightarrow> user_info \<Rightarrow> bool option" where
  "user_expired t u = (if length (now_time t) \<ge> 20 \<or> length (limit_time u) \<ge> 20 then None
     else Some (c_strcmp (now_time t) (limit_time u) \<ge> 0))"

subsection \<open>The log entry\<close>

definition att_of :: "'s terminal \<Rightarrow> user_info \<Rightarrow> u32 \<Rightarrow> att_info" where
  "att_of st u ev = \<lparr>att_user = user_id u, att_student = student_id u, att_name = uname u,
     att_device = device_addr (g_device_config st), att_mac = take 6 (sp_station st),
     att_state = (if ev AND USER_CHECK_CARD_IN \<noteq> 0 \<or> ev AND USER_CHECK_FINGER_IN \<noteq> 0 then 0 else 1),
     att_year = ucast (t_year (sp_time st)) + 2000, att_month = t_month (sp_time st), att_day = t_date (sp_time st),
     att_hour = t_hour (sp_time st), att_minutes = t_minute (sp_time st), att_second = t_second (sp_time st),
     att_crc = 0\<rparr>"

definition add_one_att_record :: "'s plat \<Rightarrow> srv_env \<Rightarrow> user_info \<Rightarrow> u32 \<Rightarrow> 's terminal \<Rightarrow> 's terminal" where
  "add_one_att_record P E u ev st = (case att_record_add P (se_header E) (att_of st u ev) (sp_fs st) of (r, a, s) \<Rightarrow>
     st\<lparr>sp_fs := s\<rparr>)"

subsection \<open>One round of the thread\<close>

text \<open>The user a card event is about: \<open>None\<close> when the round ends here (unknown card, wrong checksum, card
  number of the record not that of the table).  A failure to read the record is only printed.\<close>

definition user_crc :: "'s plat \<Rightarrow> user_info \<Rightarrow> u32" where
  "user_crc P u = block_crc_calc P (take (USER_SIZE - 4 - 16) (user_info_bytes u))"

definition check_card :: "'s plat \<Rightarrow> 's terminal \<Rightarrow> user_info option \<times> 's terminal" where
  "check_card P st = (case c_bsearch card_compar \<lparr>link_user = 0, link_card = g_read_card_id st\<rparr> (sp_cards st) 0 MAX_USER_NUM of
     None \<Rightarrow> (None, st)
   | Some i \<Rightarrow> (case add_del_get_one_user P (zero_user\<lparr>user_id := link_user (sp_cards st ! i)\<rparr>) 2 (sp_fs st) of (r, u, s) \<Rightarrow>
       let st = st\<lparr>sp_fs := s\<rparr> in
       if user_crc P u \<noteq> ucrc u then (None, st)
       else if card_id u \<noteq> link_card (sp_cards st ! i) then (None, st)
       else (Some u, st)))"

text \<open>The bit of this terminal in one of the two bit fields of a user.\<close>

definition dev_bit :: "u8 \<Rightarrow> bytes \<Rightarrow> bool" where
  "dev_bit a f = bit (f ! (unat a div 8)) (unat a mod 8)"

definition set_dev_bit :: "u8 \<Rightarrow> bool \<Rightarrow> bytes \<Rightarrow> bytes" where
  "set_dev_bit a v f = f[unat a div 8 := (if v then f ! (unat a div 8) OR push_bit (unat a mod 8) 1
     else f ! (unat a div 8) AND NOT (push_bit (unat a mod 8) 1))]"

text \<open>Passing the door: the state of the user must be the other side; the boolean says whether the round
  goes on to the log.\<close>

definition pass_door :: "'s plat \<Rightarrow> u32 \<Rightarrow> user_info \<Rightarrow> 's terminal \<Rightarrow> bool \<times> user_info \<times> 's terminal" where
  "pass_door P ev u st = (let a = device_addr (g_device_config st) in
     if ev = USER_CHECK_CARD_IN then
       if \<not> dev_bit a (ustate u) then (False, u, st)
       else (let u1 = u\<lparr>ustate := set_dev_bit a False (ustate u)\<rparr> in
         case get_set_state P (ustate u1) (user_id u1) 1 (sp_fs st) of (r, x, s) \<Rightarrow>
           (True, u1, open_door (st\<lparr>sp_fs := s\<rparr>)))
     else if ev = USER_CHECK_CARD_OUT then
       if dev_bit a (ustate u) then (False, u, st)
       else (let u1 = u\<lparr>ustate := set_dev_bit a True (ustate u)\<rparr> in
         case get_set_state P (ustate u1) (user_id u1) 1 (sp_fs st) of (r, x, s) \<Rightarrow>
           (True, u1, open_door (st\<lparr>sp_fs := s\<rparr>)))
     else (True, u, st))"

text \<open>From the rights of the user on.  \<open>None\<close> when the number of the terminal is outside the bit fields or
  a time does not fit its buffer.\<close>

definition check_rights :: "'s plat \<Rightarrow> srv_env \<Rightarrow> u32 \<Rightarrow> user_info \<Rightarrow> 's terminal \<Rightarrow> 's terminal option" where
  "check_rights P E ev u st = (let a = device_addr (g_device_config st) in
     if bit (authority u ! 15) 7 then Some (add_one_att_record P E u ev (open_door st))
     else if effective u \<noteq> 1 then Some st
     else (case (if is_time_limit u = 1 then user_expired (sp_time st) u else Some False) of
         None \<Rightarrow> None
       | Some True \<Rightarrow> Some st
       | Some False \<Rightarrow>
           if \<not> bit (authority u ! 15) 6 \<and> 16 \<le> unat a div 8 then None
           else if \<not> bit (authority u ! 15) 6 \<and> \<not> dev_bit a (authority u) then Some st
           else if (ev = USER_CHECK_CARD_IN \<or> ev = USER_CHECK_CARD_OUT) \<and> 16 \<le> unat a div 8 then None
           else (case pass_door P ev u st of (go, u1, st1) \<Rightarrow>
             Some (if go then add_one_att_record P E u1 ev st1 else st1))))"

text \<open>One round with the result of \<open>rt_event_recv\<close>.\<close>

definition user_check_round :: "'s plat \<Rightarrow> srv_env \<Rightarrow> int \<Rightarrow> u32 \<Rightarrow> 's terminal \<Rightarrow> 's terminal option" where
  "user_check_round P E status ev st =
     (if status \<noteq> 0 then Some st
      else if ev AND USER_CHECK_CARD_IN \<noteq> 0 \<or> ev AND USER_CHECK_CARD_OUT \<noteq> 0 then
        (case check_card P st of
           (None, st1) \<Rightarrow> Some st1
         | (Some u, st1) \<Rightarrow> check_rights P E ev u st1)
      else if ev AND USER_CHECK_FINGER_IN \<noteq> 0 \<or> ev AND USER_CHECK_FINGER_OUT \<noteq> 0 then
        check_rights P E ev zero_user st
      else Some st)"

end
