(* ===== verification/TimeText.thy ===== *)
theory TimeText imports UserCheck begin

text \<open>Comparing dates as text: the two strings \<open>user_check_thread.c\<close> prints and compares are ordered as
  the times they stand for, as long as every field fits its place.\<close>

fun digs :: "nat \<Rightarrow> nat \<Rightarrow> string" where
  "digs 0 n = []"
| "digs (Suc w) n = digs w (n div 10) @ [char_of (48 + n mod 10)]"

lemma length_digs [simp]: "length (digs w n) = w"
  by (induction w arbitrary: n) simp_all

lemma char_48: "char_of (48 :: nat) = CHR ''0''"
  by code_simp

lemma digs_0: "digs w 0 = replicate w (CHR ''0'')"
  by (induction w) (simp_all add: char_48 replicate_append_same)

lemma length_dec_digits: "n < 10 ^ Suc w \<Longrightarrow> 0 < length (dec_digits n) \<and> length (dec_digits n) \<le> Suc w"
proof (induction w arbitrary: n)
  case 0
  then show ?case by (simp add: dec_digits.simps)
next
  case (Suc w)
  show ?case
  proof (cases "n < 10")
    case False
    have "n div 10 < 10 ^ Suc w" using Suc.prems by (simp add: less_mult_imp_div_less)
    then show ?thesis using Suc.IH [of "n div 10"] False by (subst (1 2) dec_digits.simps) simp
  qed (simp add: dec_digits.simps)
qed

lemma fmt_d_digs: "n < 10 ^ Suc w \<Longrightarrow> fmt_d (Suc w) n = digs (Suc w) n"
proof (induction w arbitrary: n)
  case 0
  then show ?case by (simp add: fmt_d_def dec_digits.simps)
next
  case (Suc w)
  show ?case
  proof (cases "n < 10")
    case True
    then have "n div 10 = 0" by simp
    then show ?thesis using True by (simp add: fmt_d_def dec_digits.simps digs_0 del: digs.simps) (simp add: digs_0)
  next
    case False
    have lt: "n div 10 < 10 ^ Suc w" using Suc.prems by (simp add: less_mult_imp_div_less)
    have "dec_digits n = dec_digits (n div 10) @ [char_of (48 + n mod 10)]"
      using False by (subst dec_digits.simps) simp
    then have "fmt_d (Suc (Suc w)) n = fmt_d (Suc w) (n div 10) @ [char_of (48 + n mod 10)]"
      by (simp add: fmt_d_def)
    then show ?thesis using Suc.IH [OF lt] by simp
  qed
qed

lemma strcmp_same [simp]: "c_strcmp xs xs = 0"
  by (induction xs) simp_all

lemma strcmp_append:
  "length xs = length ys \<Longrightarrow> c_strcmp (xs @ us) (ys @ vs) = (if xs = ys then c_strcmp us vs else c_strcmp xs ys)"
  by (induction xs ys rule: list_induct2) auto

lemma of_char_digit: "k < 10 \<Longrightarrow> int (of_char (char_of (48 + k :: nat) :: char)) = 48 + int k"
  by (simp add: of_char_of)

lemma strcmp_digit: "j < 10 \<Longrightarrow> k < 10 \<Longrightarrow> c_strcmp [char_of (48 + j :: nat)] [char_of (48 + k :: nat)] = int j - int k
    \<and> ((char_of (48 + j :: nat) = (char_of (48 + k :: nat) :: char)) = (j = k))"
proof -
  assume jk: "j < 10" "k < 10"
  have "(char_of (48 + j :: nat) = (char_of (48 + k :: nat) :: char)) = (j = k)"
    using of_char_digit [OF jk(1)] of_char_digit [OF jk(2)] by (metis add_left_cancel of_nat_eq_iff)
  then show ?thesis using of_char_digit [OF jk(1)] of_char_digit [OF jk(2)] by simp
qed

lemma digs_order:
  "a < 10 ^ w \<Longrightarrow> b < 10 ^ w \<Longrightarrow> (digs w a = digs w b) = (a = b) \<and> (c_strcmp (digs w a) (digs w b) < 0) = (a < b)"
proof (induction w arbitrary: a b)
  case (Suc w)
  have IH: "(digs w (a div 10) = digs w (b div 10)) = (a div 10 = b div 10)"
    "(c_strcmp (digs w (a div 10)) (digs w (b div 10)) < 0) = (a div 10 < b div 10)"
    using Suc.IH [of "a div 10" "b div 10"] Suc.prems by (simp_all add: less_mult_imp_div_less)
  have D: "c_strcmp [char_of (48 + a mod 10)] [char_of (48 + b mod 10)] = int (a mod 10) - int (b mod 10)"
    "(char_of (48 + a mod 10) = (char_of (48 + b mod 10) :: char)) = (a mod 10 = b mod 10)"
    using strcmp_digit [of "a mod 10" "b mod 10"] by simp_all
  have ab: "a = 10 * (a div 10) + a mod 10" "b = 10 * (b div 10) + b mod 10" by simp_all
  have m: "a mod 10 < 10" "b mod 10 < 10" by simp_all
  have E: "(a = b) = (a div 10 = b div 10 \<and> a mod 10 = b mod 10)"
    using ab by metis
  have F: "(a < b) = (if a div 10 = b div 10 then a mod 10 < b mod 10 else a div 10 < b div 10)"
  proof (cases "a div 10 = b div 10")
    case True
    then have "(a < b) = (a mod 10 < b mod 10)" using ab by linarith
    then show ?thesis using True by simp
  next
    case False
    then have "(a < b) = (a div 10 < b div 10)" using ab m by linarith
    then show ?thesis using False by simp
  qed
  show ?case
    unfolding digs.simps E F
    by (subst strcmp_append) (auto simp: IH D simp del: c_strcmp.simps)
qed simp

text \<open>The number a time stands for.\<close>

definition stamp :: "nat \<Rightarrow> nat \<Rightarrow> nat \<Rightarrow> nat \<Rightarrow> nat \<Rightarrow> nat \<Rightarrow> nat" where
  "stamp y mo d h mi s = ((((y * 100 + mo) * 100 + d) * 100 + h) * 100 + mi) * 100 + s"

text \<open>A field followed by the same separator: the rest decides when the fields agree.\<close>

lemma fmt_d_place: "0 < w \<Longrightarrow> n < 10 ^ w \<Longrightarrow> fmt_d w n = digs w n"
  by (cases w) (simp_all only: fmt_d_digs less_irrefl)

lemma strcmp_field:
  assumes "0 < w" "a < 10 ^ w" "b < 10 ^ w"
  shows "(c_strcmp (fmt_d w a @ us) (fmt_d w b @ vs) < 0) = (a < b \<or> a = b \<and> c_strcmp us vs < 0)"
  unfolding fmt_d_place [OF assms(1,2)] fmt_d_place [OF assms(1,3)]
  using digs_order [OF assms(2,3)] by (subst strcmp_append) auto

lemma stamp_less:
  assumes "mo < 100" "d < 100" "h < 100" "mi < 100" "s < 100" "mo' < 100" "d' < 100" "h' < 100" "mi' < 100" "s' < 100"
  shows "(stamp y mo d h mi s < stamp y' mo' d' h' mi' s') = (y < y' \<or> y = y' \<and> (mo < mo' \<or> mo = mo' \<and>
    (d < d' \<or> d = d' \<and> (h < h' \<or> h = h' \<and> (mi < mi' \<or> mi = mi' \<and> s < s')))))"
proof -
  have step: "(x * 100 + p < x' * 100 + q) = (x < x' \<or> x = x' \<and> p < q)" if "p < 100" "q < 100" for x x' p q :: nat
    using that by auto
  have stepe: "(x * 100 + p = x' * 100 + q) = (x = x' \<and> p = q)" if "p < 100" "q < 100" for x x' p q :: nat
  proof
    assume e: "x * 100 + p = x' * 100 + q"
    then have "x = x'" using that by linarith
    then show "x = x' \<and> p = q" using e by simp
  qed simp
  show ?thesis unfolding stamp_def by (simp only: step stepe assms) blast
qed

lemma fmt_time_less:
  assumes "y < 10000" "y' < 10000" "mo < 100" "d < 100" "h < 100" "mi < 100" "s < 100"
    "mo' < 100" "d' < 100" "h' < 100" "mi' < 100" "s' < 100"
  shows "(c_strcmp (fmt_time y mo d h mi s) (fmt_time y' mo' d' h' mi' s') < 0)
    = (stamp y mo d h mi s < stamp y' mo' d' h' mi' s')"
proof -
  have f4: "(c_strcmp (fmt_d 4 a @ us) (fmt_d 4 b @ vs) < 0) = (a < b \<or> a = b \<and> c_strcmp us vs < 0)"
    if "a < 10000" "b < 10000" for a b us vs
    using strcmp_field [of 4 a b us vs] that by simp
  have f2: "(c_strcmp (fmt_d 2 a @ us) (fmt_d 2 b @ vs) < 0) = (a < b \<or> a = b \<and> c_strcmp us vs < 0)"
    if "a < 100" "b < 100" for a b us vs
    using strcmp_field [of 2 a b us vs] that by simp
  have f2e: "(c_strcmp (fmt_d 2 a) (fmt_d 2 b) < 0) = (a < b)" if "a < 100" "b < 100" for a b
    using f2 [OF that, of "[]" "[]"] by simp
  show ?thesis
    using assms by (simp add: fmt_time_def f4 f2 f2e stamp_less)
qed

lemma length_fmt_time:
  assumes "y < 10000" "mo < 100" "d < 100" "h < 100" "mi < 100" "s < 100"
  shows "length (fmt_time y mo d h mi s) = 19"
proof -
  have "length (fmt_d 4 y) = 4" using fmt_d_place [of 4 y] assms(1) by (simp del: digs.simps)
  moreover have "length (fmt_d 2 n) = 2" if "n < 100" for n
    using fmt_d_place [of 2 n] that by (simp del: digs.simps)
  ultimately show ?thesis using assms by (simp add: fmt_time_def)
qed

definition time_fields_ok :: "user_info \<Rightarrow> bool" where
  "time_fields_ok u = (unat (year u) < 10000 \<and> unat (month u) < 100 \<and> unat (day u) < 100 \<and> unat (hour u) < 100
     \<and> unat (minutes u) < 100 \<and> unat (second u) < 100)"

lemma expired_stamp:
  assumes "time_ok t" "time_fields_ok u"
  shows "user_expired t u = Some (stamp (unat (year u)) (unat (month u)) (unat (day u)) (unat (hour u)) (unat (minutes u)) (unat (second u))
    \<le> stamp (unat (t_year t) + 2000) (unat (t_month t)) (unat (t_date t)) (unat (t_hour t)) (unat (t_minute t)) (unat (t_second t)))"
proof -
  note a = assms [unfolded time_ok_def time_fields_ok_def]
  have l: "length (now_time t) = 19" "length (limit_time u) = 19"
    unfolding now_time_def limit_time_def by (rule length_fmt_time; use a in simp)+
  have "(c_strcmp (now_time t) (limit_time u) < 0)
    = (stamp (unat (t_year t) + 2000) (unat (t_month t)) (unat (t_date t)) (unat (t_hour t)) (unat (t_minute t)) (unat (t_second t))
       < stamp (unat (year u)) (unat (month u)) (unat (day u)) (unat (hour u)) (unat (minutes u)) (unat (second u)))"
    unfolding now_time_def limit_time_def by (rule fmt_time_less) (use a in simp_all)
  then show ?thesis using l by (simp add: user_expired_def not_less [symmetric])
qed

end
