(* ===== verification/WifiThread.thy ===== *)
theory WifiThread imports ServerProcess begin

text \<open>wifi_thread.c: the receiving thread.  One step is one round of its loop: the event it was woken
  by, the frame read from the bus, and, when a packet is complete and passes the checks, the switch on
  its command.  The only command is a mesh packet for the terminal, whose user data are handed to
  \<open>data_process\<close>.  After every complete packet, accepted or not, the link is ready for the next.\<close>

definition HSPI_RX :: u32 where "HSPI_RX = 1"
definition ESP_MESH_HEAD_SIZE :: nat where "ESP_MESH_HEAD_SIZE = 16"

text \<open>The fields of \<open>mesh_header_format\<close> the thread looks at.\<close>

definition mesh_oe :: "bytes \<Rightarrow> bool" where "mesh_oe h = bit (h ! 0) 2"
definition mesh_len :: "bytes \<Rightarrow> u16" where "mesh_len h = u16_at 2 h"
definition mesh_user_data :: "bytes \<Rightarrow> bytes" where "mesh_user_data h = drop ESP_MESH_HEAD_SIZE h"

definition wifi_ready :: "wifi_rx \<Rightarrow> wifi_rx" where
  "wifi_ready w = w\<lparr>link := (link w)\<lparr>is_recv_pack := False\<rparr>\<rparr>"

definition wifi_packet_in :: "'s plat \<Rightarrow> srv_env \<Rightarrow> wifi_rx \<Rightarrow> 's srv \<Rightarrow> (wifi_rx \<times> 's srv) option" where
  "wifi_packet_in P E w st = (case wifi_verify P w of
     None \<Rightarrow> None
   | Some (False, w1) \<Rightarrow> Some (w1, st)
   | Some (True, w1) \<Rightarrow>
       if wp_cmd (wifi_pack_recv w1) = CMD_SEND_DATA_TO_MCU then
         let h = wifi_data w1 in
         if \<not> mesh_oe h then
           (case data_process P E (mesh_user_data h) (mesh_len h - of_nat ESP_MESH_HEAD_SIZE) st of
              None \<Rightarrow> None
            | Some st1 \<Rightarrow> Some (wifi_ready w1, st1))
         else Some (wifi_ready w1, st)
       else Some (wifi_ready w1, st))"

definition wifi_thread_entry :: "'s srv \<Rightarrow> 's srv" where
  "wifi_thread_entry st = st\<lparr>sp_station := replicate 6 0\<rparr>"

definition wifi_thread_step :: "'s plat \<Rightarrow> srv_env \<Rightarrow> int \<Rightarrow> u32 \<Rightarrow> bytes \<Rightarrow> wifi_rx \<times> 's srv
    \<Rightarrow> (wifi_rx \<times> 's srv) option" where
  "wifi_thread_step P E status recved_event frame S = (case S of (w, st) \<Rightarrow>
     if status = 0 \<and> recved_event AND HSPI_RX \<noteq> 0 then
       (case esp8266_spi_read frame (link w) of
          None \<Rightarrow> None
        | Some (r, l) \<Rightarrow>
            if r = 0 then wifi_packet_in P E (w\<lparr>link := l\<rparr>) st else Some (w\<lparr>link := l\<rparr>, st))
     else Some (w, st))"

text \<open>The thread on a sequence of frames, each announced by the event of the link.\<close>

fun wifi_thread_run :: "'s plat \<Rightarrow> srv_env \<Rightarrow> bytes list \<Rightarrow> wifi_rx \<times> 's srv \<Rightarrow> (wifi_rx \<times> 's srv) option" where
  "wifi_thread_run P E [] S = Some S"
| "wifi_thread_run P E (f # fs) S = (case wifi_thread_step P E 0 HSPI_RX f S of
     None \<Rightarrow> None | Some S1 \<Rightarrow> wifi_thread_run P E fs S1)"

subsection \<open>Runs over one packet\<close>

lemma run_unfinished:
  assumes "spi_read_all fs (link w) = Some (rs, l)" "0 \<notin> set rs"
  shows "wifi_thread_run P E fs (w, st) = Some (w\<lparr>link := l\<rparr>, st)"
  using assms
proof (induction fs arbitrary: w rs)
  case Nil
  then show ?case by simp
next
  case (Cons f fs)
  from Cons.prems(1) obtain r l1 rs' where r: "esp8266_spi_read f (link w) = Some (r, l1)"
    "spi_read_all fs l1 = Some (rs', l)" "rs = r # rs'"
    by (auto split: option.splits prod.splits)
  have "wifi_thread_step P E 0 HSPI_RX f (w, st) = Some (w\<lparr>link := l1\<rparr>, st)"
    using r Cons.prems(2) by (auto simp: wifi_thread_step_def HSPI_RX_def)
  then show ?case using Cons.IH [of "w\<lparr>link := l1\<rparr>" rs'] r Cons.prems(2) by simp
qed

lemma spi_read_all_append:
  "spi_read_all (fs @ gs) l = (case spi_read_all fs l of None \<Rightarrow> None
     | Some (rs, l1) \<Rightarrow> (case spi_read_all gs l1 of None \<Rightarrow> None | Some (qs, l2) \<Rightarrow> Some (rs @ qs, l2)))"
  by (induction fs arbitrary: l) (auto split: option.splits prod.splits)

lemma run_append:
  "wifi_thread_run P E (fs @ gs) S = (case wifi_thread_run P E fs S of None \<Rightarrow> None
     | Some S1 \<Rightarrow> wifi_thread_run P E gs S1)"
  by (induction fs arbitrary: S) (auto split: option.splits)

lemma length_spi_read_all: "spi_read_all fs l = Some (rs, l') \<Longrightarrow> length rs = length fs"
  by (induction fs arbitrary: l rs) (auto split: option.splits prod.splits)

lemma run_packet:
  assumes "spi_read_all fs (link w) = Some (replicate n (-1) @ [0], l)"
  shows "wifi_thread_run P E fs (w, st) = wifi_packet_in P E (w\<lparr>link := l\<rparr>) st"
proof -
  have "fs \<noteq> []" using assms by auto
  then obtain gs g where fs: "fs = gs @ [g]" by (metis rev_exhaust)
  obtain rs l1 r where r: "spi_read_all gs (link w) = Some (rs, l1)" "esp8266_spi_read g l1 = Some (r, l)"
    "replicate n (-1) @ [0] = rs @ [r]"
    using assms unfolding fs spi_read_all_append by (auto split: option.splits prod.splits)
  then have e: "rs = replicate n (-1)" "r = 0" by auto
  then have "0 \<notin> set rs" by auto
  note u = run_unfinished [OF r(1) this, of P E st]
  show ?thesis
    using r(2) e by (simp add: fs run_append u wifi_thread_step_def HSPI_RX_def split: option.split)
qed

end
