(* ===== verification/DatabaseProps.thy ===== *)
theory DatabaseProps imports PDatabaseOk Board begin

text \<open>The properties of the user database, stated for every platform that meets the file contract,
  and applied to the board.\<close>

definition demo_db :: "bytes" where "demo_db = replicate 8 0"

definition demo_user :: user_info where
  "demo_user = zero_user\<lparr>user_id := 1, card_id := 0x1234, effective := 1\<rparr>"

abbreviation "demo_fs \<equiv> [(''member.bin'', demo_db)]"
abbreviation "demo_fs1 \<equiv> [(''member.bin'', demo_db @ user_info_bytes demo_user)]"

lemma zero_user_wf: "user_wf zero_user"
  by (simp add: zero_user_def user_wf_of USER_SIZE_def)

lemma demo_user_wf: "user_wf demo_user"
  using zero_user_wf by (simp add: demo_user_def user_wf_def)

lemma demo_ok: "files_ok board_plat board_file dfs_sess board_ready disk_cap (board_init demo_fs)"
  by (rule board_ok) (simp_all add: demo_db_def disk_cap_def)

lemma demo_ok1: "files_ok board_plat board_file dfs_sess board_ready disk_cap (board_init demo_fs1)"
  by (rule board_ok) (simp_all add: demo_db_def disk_cap_def demo_user_wf)

lemma demo_file: "board_file (board_init demo_fs) member_bin = Some demo_db"
  using board_file_init [OF fpath_member] by (simp add: user_info_database_path_def)

lemma demo_file1: "board_file (board_init demo_fs1) member_bin = Some (demo_db @ user_info_bytes demo_user)"
  using board_file_init [OF fpath_member] by (simp add: user_info_database_path_def)

lemma demo_user_id: "user_id demo_user = 1" "card_id demo_user = 0x1234" "user_id zero_user = 0"
  by (simp_all add: demo_user_def zero_user_def user_info_of_def u16_at_def USER_SIZE_def)

lemma demo_slots: "slots demo_db = 0" "slots (demo_db @ user_info_bytes demo_user) = 1"
  by (simp_all add: demo_db_def slots_def user_sizes demo_user_wf)

lemma demo_slot: "slot (demo_db @ user_info_bytes demo_user) 1 = user_info_bytes demo_user"
  by (simp add: slot_def user_ofs_def demo_db_def user_sizes window_def demo_user_wf)

lemma demo_slot_user: "slot_user (demo_db @ user_info_bytes demo_user) 1 = demo_user"
  by (simp add: slot_user_def demo_slot [unfolded One_nat_def] user_info_roundtrip demo_user_wf)

lemma demo_slot_id: "slot_id (demo_db @ user_info_bytes demo_user) 1 = 1"
  using demo_slot_user demo_user_id(1)
  by (subst slot_id_user) (simp_all add: user_ofs_def demo_db_def user_sizes demo_user_wf)

lemma demo_db_ok: "db_ok demo_db" "db_ok (demo_db @ user_info_bytes demo_user)"
  using demo_slot_id
  by (simp_all add: db_ok_def demo_slots demo_db_def HEADER_SIZE_def user_sizes)
    (simp_all add: demo_db_def demo_slots [unfolded demo_db_def])

lemma demo_max_id: "max_id (demo_db @ user_info_bytes demo_user) 1 = 1"
  using demo_slot_id by (simp add: max_id_def)

lemma demo_request_id: "user_id (zero_user\<lparr>user_id := 1\<rparr>) = user_id demo_user"
  by (simp add: demo_user_id)

lemma demo_bounds:
  "user_ofs (unat (user_id demo_user)) \<le> length demo_db"
  "user_ofs (unat (user_id demo_user)) + USER_SIZE \<le> disk_cap"
  "user_ofs (unat (user_id demo_user)) + USER_SIZE \<le> length (demo_db @ user_info_bytes demo_user)"
  "user_id demo_user \<noteq> 0"
  by (simp_all add: demo_user_id user_ofs_def demo_db_def user_sizes disk_cap_def demo_user_wf)

lemma demo_bytes: "file_bytes (board_file (board_init demo_fs) member_bin) = demo_db"
  "file_bytes (board_file (board_init demo_fs1) member_bin) = demo_db @ user_info_bytes demo_user"
  by (simp_all only: demo_file demo_file1 file_bytes_def option.case)

text \<open>C6: A user added to the database is read back exactly as it was stored, by any later request
  for the same user number, and no other file is touched.\<close>

theorem add_then_get:
  assumes "files_ok P content sess ready cap s" "file_bytes (content s member_bin) = c"
    "user_wf u" "user_id u \<noteq> 0" "user_ofs (unat (user_id u)) \<le> length c"
    "user_ofs (unat (user_id u)) + USER_SIZE \<le> cap" "user_id v = user_id u"
  shows "\<exists>s1 s2. add_del_get_one_user P u 0 s = (0, u, s1)
    \<and> add_del_get_one_user P v 2 s1 = (0, u, s2)
    \<and> files_ok P content sess ready cap s2
    \<and> content s2 = content s1 \<and> content s1 = (content s)(member_bin \<mapsto>
        overwrite (user_ofs (unat (user_id u))) (user_info_bytes u) c)"
proof -
  note L = files_okD(1) [OF assms(1)] and I = files_okD(2) [OF assms(1)]
  let ?c = "overwrite (user_ofs (unat (user_id u))) (user_info_bytes u) c"
  have cmd0: "(0 :: u8) = 0 \<or> (0 :: u8) = 1" and w0: "u = (if (0 :: u8) = 0 then u else zero_user)"
    by simp_all
  obtain s1 where 1: "add_del_get_one_user P u 0 s = (0, u, s1)" "posix_files.idle sess ready s1"
    "content s1 = (content s)(member_bin \<mapsto> ?c)"
    using posix_files.put_user [OF L I assms(2-6) cmd0 w0] .
  have len: "length (user_info_bytes u) = USER_SIZE" using assms(3) by (simp add: USER_SIZE_def)
  have o: "user_ofs (unat (user_id v)) + USER_SIZE \<le> length ?c"
    using assms(5,7) len by simp
  have fb: "file_bytes (content s1 member_bin) = ?c" by (simp add: 1(3) file_bytes_def)
  have nz: "user_id v \<noteq> 0" using assms(4,7) by simp
  obtain s2 where 2: "add_del_get_one_user P v 2 s1 = (0, slot_user ?c (unat (user_id v)), s2)"
    "posix_files.idle sess ready s2" "content s2 = (content s1)(member_bin \<mapsto> ?c)"
    using posix_files.get_user_full [OF L 1(2) fb nz o] .
  have "slot_user ?c (unat (user_id v)) = u"
    using assms(5,7) len user_info_roundtrip [OF assms(3)] by (simp add: slot_user_def slot_def)
  note 2 = 2 [unfolded this]
  have "content s2 = content s1" by (simp add: 1(3) 2(3))
  then show ?thesis using 1 2(1) files_okI [OF L 2(2)] by blast
qed

theorem add_then_get_witness:
  "\<exists>s1 s2. add_del_get_one_user board_plat demo_user 0 (board_init demo_fs) = (0, demo_user, s1)
    \<and> add_del_get_one_user board_plat (zero_user\<lparr>user_id := 1\<rparr>) 2 s1 = (0, demo_user, s2)"
  using add_then_get [OF demo_ok, OF demo_bytes(1) demo_user_wf demo_bounds(4,1,2) demo_request_id]
  by blast

text \<open>Adding or deleting a user leaves every other slot of the database alone and keeps the
  database well formed: slot i is free or holds user i.\<close>

theorem put_user_frame:
  assumes "files_ok P content sess ready cap s" "content s member_bin = Some c" "db_ok c"
    "user_wf u" "user_id u \<noteq> 0" "user_ofs (unat (user_id u)) \<le> length c"
    "user_ofs (unat (user_id u)) + USER_SIZE \<le> cap" "cmd = 0 \<or> cmd = 1"
  shows "\<exists>w s' c'. add_del_get_one_user P u cmd s = (0, w, s') \<and> content s' member_bin = Some c'
    \<and> db_ok c' \<and> slots c' = max (slots c) (unat (user_id u))
    \<and> slot_user c' (unat (user_id u)) = (if cmd = 0 then u else zero_user)
    \<and> (\<forall>j. 0 < j \<longrightarrow> j \<noteq> unat (user_id u) \<longrightarrow> slot c' j = slot c j)"
proof -
  note L = files_okD(1) [OF assms(1)] and I = files_okD(2) [OF assms(1)]
  let ?i = "unat (user_id u)" and ?w = "if cmd = 0 then u else zero_user"
  let ?c = "overwrite (user_ofs ?i) (user_info_bytes ?w) c"
  have fb: "file_bytes (content s member_bin) = c" by (simp add: assms(2) file_bytes_def)
  obtain s' where 1: "add_del_get_one_user P u cmd s = (0, ?w, s')"
    "content s' = (content s)(member_bin \<mapsto> ?c)"
    using posix_files.put_user [OF L I fb assms(4-8) refl] by metis
  have w: "user_wf ?w" using assms(4) zero_user_wf by simp
  have len: "length (user_info_bytes ?w) = USER_SIZE" using w by (simp only: USER_SIZE_def length_user_info_bytes)
  have i: "0 < ?i" "?i < 65536" using assms(5) unat_u16_bound by (auto simp: unat_gt_0)
  have h: "HEADER_SIZE \<le> length c" using assms(3) by (simp add: db_ok_def)
  have u: "user_info_of (user_info_bytes ?w) = ?w" using w by (rule user_info_roundtrip)
  have "db_ok ?c"
    by (rule db_ok_put [OF assms(3) i assms(6) len]) (simp add: u demo_user_id(3))
  moreover have "slots ?c = max (slots c) ?i"
    by (rule slots_overwrite [OF i(1) assms(6) len h])
  moreover have "slot_user ?c ?i = ?w"
    using slot_overwrite [OF i(1) i(1) assms(6) len] u by (simp add: slot_user_def)
  moreover have "\<forall>j. 0 < j \<longrightarrow> j \<noteq> ?i \<longrightarrow> slot ?c j = slot c j"
    using slot_overwrite [OF i(1) _ assms(6) len] by simp
  ultimately show ?thesis using 1 by (metis fun_upd_same)
qed

theorem put_user_frame_witness:
  "\<exists>w s' c'. add_del_get_one_user board_plat demo_user 1 (board_init demo_fs1) = (0, w, s')
    \<and> board_file s' member_bin = Some c' \<and> db_ok c' \<and> slot_user c' 1 = zero_user"
proof -
  have o: "user_ofs (unat (user_id demo_user)) \<le> length (demo_db @ user_info_bytes demo_user)"
    using demo_bounds(3) by linarith
  have cmd: "(1 :: u8) = 0 \<or> (1 :: u8) = 1" by simp
  obtain w s' c' where W: "add_del_get_one_user board_plat demo_user 1 (board_init demo_fs1) = (0, w, s')"
    "board_file s' member_bin = Some c'" "db_ok c'"
    "slot_user c' (unat (user_id demo_user)) = (if (1 :: u8) = 0 then demo_user else zero_user)"
    using put_user_frame [OF demo_ok1, OF demo_file1 demo_db_ok(2) demo_user_wf demo_bounds(4) o demo_bounds(2) cmd]
    by blast
  from W(4) have "slot_user c' 1 = zero_user" by (simp add: demo_user_id)
  with W(1-3) show ?thesis by blast
qed

text \<open>Deleting a stored user clears its slot, so that a later request returns the empty record,
  and lowers the number of used slots by exactly one.\<close>

theorem delete_user:
  assumes "files_ok P content sess ready cap s" "content s member_bin = Some c" "db_ok c"
    "user_wf u" "user_id u \<noteq> 0" "unat (user_id u) \<le> slots c" "slot_id c (unat (user_id u)) \<noteq> 0"
    "length c \<le> cap"
  shows "\<exists>s1 s2 c'. add_del_get_one_user P u 1 s = (0, zero_user, s1)
    \<and> add_del_get_one_user P u 2 s1 = (0, zero_user, s2)
    \<and> content s2 member_bin = Some c' \<and> slots c' = slots c
    \<and> Suc (used_slots c' (slots c')) = used_slots c (slots c)"
proof -
  note L = files_okD(1) [OF assms(1)] and I = files_okD(2) [OF assms(1)]
  let ?i = "unat (user_id u)"
  let ?c = "overwrite (user_ofs ?i) (user_info_bytes zero_user) c"
  have i: "0 < ?i" using assms(5) by (simp add: unat_gt_0)
  have o: "user_ofs ?i + USER_SIZE \<le> length c" by (rule ofs_slots [OF i assms(6)])
  then have o': "user_ofs ?i \<le> length c" "user_ofs ?i + USER_SIZE \<le> cap" using assms(8) by linarith+
  have fb: "file_bytes (content s member_bin) = c" by (simp add: assms(2) file_bytes_def)
  have cmd: "(1 :: u8) = 0 \<or> (1 :: u8) = 1" and w: "zero_user = (if (1 :: u8) = 0 then u else zero_user)"
    by simp_all
  obtain s1 where 1: "add_del_get_one_user P u 1 s = (0, zero_user, s1)" "posix_files.idle sess ready s1"
    "content s1 = (content s)(member_bin \<mapsto> ?c)"
    using posix_files.put_user [OF L I fb assms(4,5) o' cmd w] .
  have len: "length (user_info_bytes zero_user) = USER_SIZE"
    using zero_user_wf by (simp only: USER_SIZE_def length_user_info_bytes)
  have lc: "length ?c = length c" using o len by simp
  have o2: "user_ofs ?i + USER_SIZE \<le> length ?c" using o lc by simp
  have fb1: "file_bytes (content s1 member_bin) = ?c" by (simp add: 1(3) file_bytes_def)
  obtain s2 where 2: "add_del_get_one_user P u 2 s1 = (0, slot_user ?c ?i, s2)"
    "content s2 = (content s1)(member_bin \<mapsto> ?c)"
    using posix_files.get_user_full [OF L 1(2) fb1 assms(5) o2] .
  have z: "user_info_of (user_info_bytes zero_user) = zero_user" by (rule user_info_roundtrip [OF zero_user_wf])
  have "slot_user ?c ?i = zero_user"
    using slot_overwrite [OF i i o'(1) len] z by (simp add: slot_user_def)
  moreover have "slots ?c = slots c" by (simp add: slots_def lc)
  moreover have "Suc (used_slots ?c (slots c)) = used_slots c (slots c)"
    using used_slots_put [OF i assms(6) o'(1) len] assms(7) by (simp add: z demo_user_id(3))
  ultimately show ?thesis using 1(1) 2 by (metis fun_upd_same)
qed

theorem delete_user_witness:
  "\<exists>s1 s2. add_del_get_one_user board_plat demo_user 1 (board_init demo_fs1) = (0, zero_user, s1)
    \<and> add_del_get_one_user board_plat demo_user 2 s1 = (0, zero_user, s2)"
proof -
  have "unat (user_id demo_user) \<le> slots (demo_db @ user_info_bytes demo_user)"
    by (simp add: demo_slots demo_user_id)
  moreover have "slot_id (demo_db @ user_info_bytes demo_user) (unat (user_id demo_user)) \<noteq> 0"
    using demo_slot_id by (simp add: demo_user_id)
  moreover have "length (demo_db @ user_info_bytes demo_user) \<le> disk_cap"
    by (simp add: demo_db_def demo_user_wf disk_cap_def)
  ultimately show ?thesis
    using delete_user [OF demo_ok1, OF demo_file1 demo_db_ok(2) demo_user_wf demo_bounds(4)] by blast
qed

text \<open>On a well-formed database of at least one header the user count returned is the number of
  slots in use and the maximum is the largest user number stored; nothing is changed.\<close>

theorem user_num_get_counts:
  assumes "files_ok P content sess ready cap s" "content s member_bin = Some c"
    "HEADER_SIZE \<le> length c" "slots c < 65536"
  shows "\<exists>num mx s'. user_num_get P s = (Some (num, mx), s') \<and> content s' = content s
    \<and> unat num = card {j \<in> {1..slots c}. slot_id c j \<noteq> 0}
    \<and> (\<forall>j \<in> {1..slots c}. slot_id c j \<le> mx)
    \<and> (mx = 0 \<or> (\<exists>j \<in> {1..slots c}. slot_id c j = mx))"
proof -
  note L = files_okD(1) [OF assms(1)] and I = files_okD(2) [OF assms(1)]
  obtain s' where 1: "user_num_get P s = (Some (of_nat (used_slots c (slots c)), max_id c (slots c)), s')"
    "content s' = content s"
    using posix_files.user_num_get_ok [OF L I assms(2-4)] .
  have "unat (of_nat (used_slots c (slots c)) :: u16) = used_slots c (slots c)"
    using used_slots_le [of c "slots c"] assms(4) by (intro unat_of_nat_u16) linarith
  moreover have "\<forall>j \<in> {1..slots c}. slot_id c j \<le> max_id c (slots c)"
    using max_id_ge by simp
  moreover have "max_id c (slots c) = 0 \<or> (\<exists>j \<in> {1..slots c}. slot_id c j = max_id c (slots c))"
    using max_id_in [of c "slots c"] by metis
  ultimately show ?thesis using 1 unfolding used_slots_def [symmetric] by blast
qed

theorem user_num_get_counts_witness:
  "\<exists>num mx s'. user_num_get board_plat (board_init demo_fs1) = (Some (num, mx), s')
    \<and> slot_id (demo_db @ user_info_bytes demo_user) 1 \<le> mx"
proof -
  have "HEADER_SIZE \<le> length (demo_db @ user_info_bytes demo_user)"
    "slots (demo_db @ user_info_bytes demo_user) < 65536" "1 \<in> {1..slots (demo_db @ user_info_bytes demo_user)}"
    by (simp_all add: demo_slots) (simp add: demo_db_def HEADER_SIZE_def)
  then show ?thesis
    using user_num_get_counts [OF demo_ok1, OF demo_file1] by blast
qed

text \<open>A database whose free slots hold no card: what deleting leaves behind, and what adding and deleting keep.\<close>

definition db_clean :: "bytes \<Rightarrow> bool" where
  "db_clean c \<longleftrightarrow> list_all (\<lambda>j. slot_id c j = 0 \<longrightarrow> link_card (slot_link c j) = 0) [1..<Suc (slots c)]"

lemma slot_link_slot: "slot_link c j = card_link_of (window 0 6 (slot c j))"
  by (simp add: slot_link_def slot_def window_window USER_SIZE_def)

lemma zero_user_link: "link_card (card_link_of (window 0 6 (user_info_bytes zero_user))) = 0"
  by (simp add: zero_user_def user_info_bytes_of USER_SIZE_def card_link_of_def window_def u32_at_def)

lemma db_clean_put:
  fixes cmd :: u8
  assumes "db_ok c" "db_clean c" "user_wf u" "user_id u \<noteq> 0" "user_ofs (unat (user_id u)) \<le> length c"
  shows "db_clean (overwrite (user_ofs (unat (user_id u))) (user_info_bytes (if cmd = 0 then u else zero_user)) c)"
proof -
  let ?i = "unat (user_id u)" and ?w = "if cmd = 0 then u else zero_user"
  let ?c = "overwrite (user_ofs ?i) (user_info_bytes ?w) c"
  have w: "user_wf ?w" using assms(3) zero_user_wf by simp
  have len: "length (user_info_bytes ?w) = USER_SIZE" using w by (simp only: USER_SIZE_def length_user_info_bytes)
  have i: "0 < ?i" using assms(4) by (auto simp: unat_gt_0)
  have h: "HEADER_SIZE \<le> length c" using assms(1) by (simp add: db_ok_def)
  have s: "slots ?c = max (slots c) ?i" by (rule slots_overwrite [OF i assms(5) len h])
  have le: "?i \<le> Suc (slots c)"
  proof (cases "?i = 1")
    case False
    then have "user_ofs (?i - 1) + USER_SIZE \<le> length c" using i assms(5) ofs_order [of "?i - 1" ?i] by simp
    then show ?thesis using slots_ofs [of "?i - 1" c] i False by simp
  qed simp
  have sl: "slot ?c j = (if ?i = j then user_info_bytes ?w else slot c j)" if "0 < j" for j
    by (rule slot_overwrite [OF i that assms(5) len])
  have "link_card (slot_link ?c j) = 0" if j: "1 \<le> j" "j \<le> max (slots c) ?i" "slot_id ?c j = 0" for j
  proof (cases "?i = j")
    case True
    have "user_id ?w = 0"
      using True j sl [of j] len user_info_roundtrip [OF w] by (simp add: slot_id_slot id_of_bytes)
    then have "?w = zero_user" using assms(4) by (auto split: if_splits)
    then show ?thesis using True j sl [of j] zero_user_link by (simp add: slot_link_slot)
  next
    case False
    then have "j \<le> slots c" using j le by (auto simp: max_def split: if_splits)
    then show ?thesis using False j sl [of j] assms(2)
      by (simp add: slot_link_slot slot_id_slot db_clean_def list_all_iff less_Suc_eq_le del: upt_Suc)
  qed
  then show ?thesis by (auto simp: db_clean_def s list_all_iff less_Suc_eq_le simp del: upt_Suc)
qed

text \<open>C17: Building the card table on a cleared array puts the link of every used slot of the database into it
  exactly once and no other link of a user; searching it for a card then answers what the database says: when
  nothing is found no used slot has the card, and what is found is the link of a used slot with this card, so the
  user it names is a user who holds it.\<close>

theorem card_lookup:
  assumes "files_ok P content sess ready cap s" "content s member_bin = Some c" "db_ok c" "db_clean c"
    "unat (max_id c (slots c)) \<le> MAX_USER_NUM"
    "arr = replicate MAX_USER_NUM \<lparr>link_user = 0, link_card = 0\<rparr>" "k \<noteq> 0"
  shows "\<exists>arr' s'. card_array_init P arr s = Some (0, arr', s') \<and> content s' = content s \<and> length arr' = MAX_USER_NUM
    \<and> filter_mset (\<lambda>l. link_user l \<noteq> 0) (mset arr') = image_mset (slot_link c) (mset_set {j \<in> {1..slots c}. slot_id c j \<noteq> 0})
    \<and> (case c_bsearch card_compar \<lparr>link_user = 0, link_card = k\<rparr> arr' 0 MAX_USER_NUM of
         None \<Rightarrow> \<forall>j \<in> {1..slots c}. slot_id c j \<noteq> 0 \<longrightarrow> link_card (slot_link c j) \<noteq> k
       | Some i \<Rightarrow> \<exists>j \<in> {1..slots c}. slot_id c j \<noteq> 0 \<and> link_card (slot_link c j) = k
           \<and> arr' ! i = slot_link c j \<and> unat (link_user (arr' ! i)) = j)"
proof -
  note L = files_okD(1) [OF assms(1)] and I = files_okD(2) [OF assms(1)]
  have len: "unat (max_id c (slots c)) \<le> length arr" using assms(5,6) by simp
  let ?L = "used_links c (slots c)" and ?U = "{j \<in> {1..slots c}. slot_id c j \<noteq> 0}"
  obtain arr' s' R where 1: "card_array_init P arr s = Some (0, arr', s')" "posix_files.idle sess ready s'"
    "content s' = content s" "length arr' = length arr"
    "sorted_wrt (\<lambda>a b. link_card b \<le> link_card a) arr'"
    "mset arr' = mset ?L + R" "set_mset R \<subseteq> set arr \<union> dead_links c"
    by (rule posix_files.card_array_init_ok [OF L I assms(2,3) len])
  have n: "length arr' = MAX_USER_NUM" using 1(4) assms(6) by simp
  have dead: "link_user l = 0 \<and> link_card l = 0" if "l \<in># R" for l
    using that 1(7) assms(4,6) dead_links_user [of l c]
    by (auto simp: dead_links_def db_clean_def list_all_iff less_Suc_eq_le simp del: upt_Suc)
  have used: "link_user (slot_link c j) = slot_id c j" if "j \<in> {1..slots c}" for j
    using that ofs_slots [of j c] link_user_slot [of j c] by (simp add: USER_SIZE_def)
  have L0: "link_user l \<noteq> 0" if "l \<in> set ?L" for l
    using that used by (auto simp: set_used_links)
  have LU: "mset ?L = image_mset (slot_link c) (mset_set ?U)"
  proof -
    have e: "set (filter (\<lambda>j. slot_id c j \<noteq> 0) [1..<Suc (slots c)]) = ?U" by auto
    have "mset (filter (\<lambda>j. slot_id c j \<noteq> 0) [1..<Suc (slots c)]) = mset_set ?U"
      unfolding e [symmetric] by (rule mset_set_set [symmetric]) simp
    then show ?thesis by (simp add: used_links_def del: upt_Suc)
  qed
  have mult: "filter_mset (\<lambda>l. link_user l \<noteq> 0) (mset arr') = image_mset (slot_link c) (mset_set ?U)"
  proof -
    have "filter_mset (\<lambda>l. link_user l \<noteq> 0) (mset ?L) = mset ?L" using L0 by (simp add: filter_mset_eq_conv)
    moreover have "filter_mset (\<lambda>l. link_user l \<noteq> 0) R = {#}" using dead by simp
    ultimately show ?thesis using 1(6) LU by simp
  qed
  have mem: "set arr' = set ?L \<union> set_mset R" using 1(6) by (metis set_mset_mset set_mset_union)
  let ?r = "c_bsearch card_compar \<lparr>link_user = 0, link_card = k\<rparr> arr' 0 MAX_USER_NUM"
  note S = search_card [OF 1(5), of "\<lparr>link_user = 0, link_card = k\<rparr>", unfolded n, simplified]
  have "case ?r of
         None \<Rightarrow> \<forall>j \<in> {1..slots c}. slot_id c j \<noteq> 0 \<longrightarrow> link_card (slot_link c j) \<noteq> k
       | Some i \<Rightarrow> \<exists>j \<in> {1..slots c}. slot_id c j \<noteq> 0 \<and> link_card (slot_link c j) = k
           \<and> arr' ! i = slot_link c j \<and> unat (link_user (arr' ! i)) = j"
  proof (cases ?r)
    case None
    then have "\<forall>l \<in> set arr'. link_card l \<noteq> k" using S by simp
    then show ?thesis using None mem by (force simp: set_used_links)
  next
    case (Some i)
    then have i: "i < MAX_USER_NUM" "link_card (arr' ! i) = k" using S by simp_all
    then have "arr' ! i \<in> set ?L" using n mem dead assms(7) by (metis UnE nth_mem)
    then obtain j where j: "j \<in> {1..slots c}" "slot_id c j \<noteq> 0" "arr' ! i = slot_link c j"
      by (auto simp: set_used_links)
    then have "unat (link_user (arr' ! i)) = j" using used db_okD [OF assms(3), of j] by simp
    then show ?thesis using i(2) j Some by auto
  qed
  then show ?thesis using 1(1,3) n mult by blast
qed

theorem card_lookup_witness:
  "\<exists>arr' s'. card_array_init board_plat (replicate MAX_USER_NUM \<lparr>link_user = 0, link_card = 0\<rparr>)
     (board_init demo_fs1) = Some (0, arr', s') \<and> length arr' = MAX_USER_NUM"
proof -
  have m: "unat (max_id (demo_db @ user_info_bytes demo_user) (slots (demo_db @ user_info_bytes demo_user)))
      \<le> MAX_USER_NUM"
    using demo_max_id by (simp add: demo_slots MAX_USER_NUM_def)
  have "slot_id (demo_db @ user_info_bytes demo_user) 1 \<noteq> 0" using demo_slot_id by simp
  then have "db_clean (demo_db @ user_info_bytes demo_user)" by (simp add: db_clean_def demo_slots)
  from card_lookup [OF demo_ok1, OF demo_file1 demo_db_ok(2) this m refl, of 5]
  obtain arr' s' where "card_array_init board_plat (replicate MAX_USER_NUM \<lparr>link_user = 0, link_card = 0\<rparr>)
     (board_init demo_fs1) = Some (0, arr', s')" "length arr' = MAX_USER_NUM" by auto
  then show ?thesis by blast
qed

text \<open>Rebuilding the card table does not clear it: every link of the old table beyond the number
  of users plus one is still found in the new table.\<close>

theorem card_table_keeps_stale_links:
  assumes "files_ok P content sess ready cap s" "content s member_bin = Some c" "db_ok c"
    "unat (max_id c (slots c)) \<le> length arr" "used_slots c (slots c) + 1 \<le> n" "n < length arr"
  shows "\<exists>arr' s'. card_array_init P arr s = Some (0, arr', s') \<and> arr ! n \<in> set arr'"
proof -
  note L = files_okD(1) [OF assms(1)] and I = files_okD(2) [OF assms(1)]
  let ?u = "Suc (used_slots c (slots c))"
  obtain arr' s' where 1: "card_array_init P arr s = Some (0, arr', s')"
    "set (drop ?u arr) \<subseteq> set arr'"
    using posix_files.card_array_init_ok [OF L I assms(2-4)] by metis
  have "drop ?u arr ! (n - ?u) = arr ! n" "n - ?u < length (drop ?u arr)"
    using assms(5,6) by simp_all
  then have "arr ! n \<in> set (drop ?u arr)" by (metis nth_mem)
  then show ?thesis using 1 by blast
qed

theorem card_table_keeps_stale_links_witness:
  "\<exists>arr' s'. card_array_init board_plat (replicate 5 \<lparr>link_user = 7, link_card = 9\<rparr>)
     (board_init demo_fs1) = Some (0, arr', s') \<and> \<lparr>link_user = 7, link_card = 9\<rparr> \<in> set arr'"
proof -
  let ?a = "replicate 5 \<lparr>link_user = 7 :: u16, link_card = 9 :: u32\<rparr>"
  have "unat (max_id (demo_db @ user_info_bytes demo_user) (slots (demo_db @ user_info_bytes demo_user)))
      \<le> length ?a"
    using demo_max_id by (simp add: demo_slots)
  moreover have "used_slots (demo_db @ user_info_bytes demo_user)
      (slots (demo_db @ user_info_bytes demo_user)) + 1 \<le> 4"
    using used_slots_le [of "demo_db @ user_info_bytes demo_user" 1] by (simp add: demo_slots)
  moreover have "4 < length ?a" "?a ! 4 = \<lparr>link_user = 7, link_card = 9\<rparr>" by simp_all
  ultimately show ?thesis
    using card_table_keeps_stale_links [OF demo_ok1, OF demo_file1 demo_db_ok(2), of ?a 4] by metis
qed

text \<open>The in/out state written for a user is the state read back, and neither the other fields
  of the user's record nor any other slot change.\<close>

theorem state_roundtrip:
  assumes "files_ok P content sess ready cap s" "content s member_bin = Some c"
    "uid \<noteq> 0" "length st = 16" "length old = 16" "user_ofs (unat uid) + USER_SIZE \<le> length c"
  shows "\<exists>s1 s2 c'. get_set_state P st uid 1 s = (0, st, s1)
    \<and> get_set_state P old uid 0 s1 = (0, st, s2)
    \<and> content s2 = (content s)(member_bin \<mapsto> c')
    \<and> slot_user c' (unat uid) = (slot_user c (unat uid))\<lparr>ustate := st\<rparr>
    \<and> (\<forall>j. 0 < j \<longrightarrow> j \<noteq> unat uid \<longrightarrow> slot c' j = slot c j)"
proof -
  note L = files_okD(1) [OF assms(1)] and I = files_okD(2) [OF assms(1)]
  let ?i = "unat uid"
  let ?c = "overwrite (user_ofs ?i + STATE_OFFSET) st c"
  have fb: "file_bytes (content s member_bin) = c" by (simp add: assms(2) file_bytes_def)
  have cap: "length c \<le> cap"
    using posix_files.content_cap [OF L _ assms(2)] assms(1) by (simp add: files_ok_def)
  obtain s1 where 1: "get_set_state P st uid 1 s = (0, st, s1)" "posix_files.idle sess ready s1"
    "content s1 = (content s)(member_bin \<mapsto> ?c)"
    using posix_files.set_state [OF L I fb assms(3,4,6) cap] .
  have so: "user_ofs ?i + STATE_OFFSET \<le> length c" "user_ofs ?i + STATE_OFFSET + 16 \<le> length c"
    using assms(6) by (simp_all add: USER_SIZE_def STATE_OFFSET_def)
  have o: "user_ofs ?i + USER_SIZE \<le> length ?c" using assms(6) so(1) by simp
  have fb1: "file_bytes (content s1 member_bin) = ?c" by (simp add: 1(3) file_bytes_def)
  obtain s2 where 2: "get_set_state P old uid 0 s1 = (0, ustate (slot_user ?c ?i), s2)"
    "content s2 = (content s1)(member_bin \<mapsto> ?c)"
    using posix_files.get_state [OF L 1(2) fb1 assms(3,5) o] .
  have i: "0 < ?i" using assms(3) by (simp add: unat_gt_0)
  note fr = slot_state(1) [OF i assms(6,4)] and u = slot_state(2) [OF i assms(6,4)]
  have "content s2 = (content s)(member_bin \<mapsto> ?c)" by (simp add: 1(3) 2(2))
  moreover have "get_set_state P old uid 0 s1 = (0, st, s2)" using 2(1) by (simp add: u)
  ultimately show ?thesis using 1(1) u fr by blast
qed

theorem state_roundtrip_witness:
  "\<exists>s1 s2. get_set_state board_plat (replicate 16 7) 1 1 (board_init demo_fs1) = (0, replicate 16 7, s1)
    \<and> get_set_state board_plat (replicate 16 0) 1 0 s1 = (0, replicate 16 7, s2)"
proof -
  have "(1 :: u16) \<noteq> 0" "length (replicate 16 (7 :: u8)) = 16" "length (replicate 16 (0 :: u8)) = 16"
    "user_ofs (unat (1 :: u16)) + USER_SIZE \<le> length (demo_db @ user_info_bytes demo_user)"
    using demo_bounds(3) by (simp_all add: demo_user_id)
  from state_roundtrip [OF demo_ok1, OF demo_file1 this] show ?thesis by blast
qed

text \<open>The checksums reported to the server are those stored for the users start, start + 1, ...,
  at most the number asked for and none beyond the largest user number.\<close>

theorem user_crc_get_reports:
  assumes "files_ok P content sess ready cap s" "content s member_bin = Some c" "db_ok c"
    "start \<noteq> 0" "start \<le> max_id c (slots c)"
  shows "\<exists>crcs s'. user_crc_get P start num s = (0, crcs, s') \<and> content s' = content s
    \<and> length crcs = min (unat num) (unat (max_id c (slots c)) + 1 - unat start)
    \<and> (\<forall>k < length crcs. crcs ! k = ucrc (slot_user c (unat start + k)))"
proof -
  note L = files_okD(1) [OF assms(1)] and I = files_okD(2) [OF assms(1)]
  let ?n = "min (unat num) (unat (max_id c (slots c)) + 1 - unat start)"
  obtain s' where 1: "user_crc_get P start num s = (0, map (slot_crc c) [unat start..<unat start + ?n], s')"
    "content s' = content s"
    using posix_files.user_crc_get_ok [OF L I assms(2-5)] .
  have "map (slot_crc c) [unat start..<unat start + ?n] ! k = ucrc (slot_user c (unat start + k))"
    if "k < ?n" for k
  proof -
    have "0 < unat start" using assms(4) by (simp add: unat_gt_0)
    moreover have "unat start + k \<le> slots c"
      using that max_id_le_slots [OF assms(3)] by linarith
    ultimately have "user_ofs (unat start + k) + USER_SIZE \<le> length c"
      by (intro ofs_slots) linarith+
    then have "slot_crc c (unat start + k) = ucrc (slot_user c (unat start + k))"
      by (simp add: slot_crc_def slot_user_def user_info_of_def slot_def u32_at_def nth_window user_sizes
          ac_simps)
    with that show ?thesis by simp
  qed
  then show ?thesis
    using 1 by (intro exI conjI) (assumption | simp)+
qed

theorem user_crc_get_reports_witness:
  "\<exists>crcs s'. user_crc_get board_plat 1 5 (board_init demo_fs1) = (0, crcs, s') \<and> length crcs = 1"
proof -
  have "(1 :: u16) \<noteq> 0"
    "1 \<le> max_id (demo_db @ user_info_bytes demo_user) (slots (demo_db @ user_info_bytes demo_user))"
    using demo_max_id by (simp_all add: demo_slots)
  from user_crc_get_reports [OF demo_ok1, OF demo_file1 demo_db_ok(2) this, of 5]
  show ?thesis using demo_max_id by (fastforce simp: demo_slots)
qed

text \<open>User number 0, the mark of a free slot, is refused by every command, whatever the database
  holds, and the file is not modified.\<close>

theorem user_zero_is_refused:
  assumes "files_ok P content sess ready cap s" "user_id u = 0"
  shows "\<exists>s'. add_del_get_one_user P u cmd s = (-1, u, s')
    \<and> content s' = (content s)(member_bin \<mapsto> file_bytes (content s member_bin))"
proof -
  note L = files_okD(1) [OF assms(1)] and I = files_okD(2) [OF assms(1)]
  obtain s' where "add_del_get_one_user P u cmd s = (-1, u, s')"
    "content s' = (content s)(member_bin \<mapsto> file_bytes (content s member_bin))"
    using posix_files.user_zero_refused [OF L I refl assms(2)] .
  then show ?thesis by blast
qed

theorem user_zero_is_refused_witness:
  "\<exists>s'. add_del_get_one_user board_plat zero_user 0 (board_init demo_fs1) = (-1, zero_user, s')"
  using user_zero_is_refused [OF demo_ok1 demo_user_id(3)] by blast

end
