(* ===== verification/AttProps.thy ===== *)
theory AttProps imports AttDatabaseOk Board begin

text \<open>The properties of the attendance log, stated for every platform that meets the file contract,
  and applied to the board.\<close>

definition demo_att :: att_info where
  "demo_att = (att_info_of (replicate 53 0))\<lparr>att_user := 5\<rparr>"

definition demo_logn :: "nat \<Rightarrow> att_info list" where
  "demo_logn n = replicate n (att_seal board_plat demo_att)"

definition demo_filen :: "nat \<Rightarrow> bytes" where
  "demo_filen n = att_header_bytes (log_header board_plat n) @ concat (map att_info_bytes (demo_logn n))"

abbreviation "demo_log \<equiv> demo_logn 3"
abbreviation "demo_att_file \<equiv> demo_filen 3"
abbreviation "demo_att_fsn n \<equiv> [(''save_io.bin'', demo_filen n)]"
abbreviation "demo_att_fs \<equiv> demo_att_fsn 3"

lemma demo_att_wf: "att_wf demo_att"
  by (simp add: demo_att_def att_wf_def att_info_of_def)

lemma demo_log_wf: "list_all (\<lambda>a. att_wf a \<and> att_seal board_plat a = a) (demo_logn n)"
  by (simp add: demo_logn_def demo_att_wf seal_wf seal_seal list_all_iff)

lemma length_demo_log: "length (demo_logn n) = n"
  by (simp add: demo_logn_def)

lemma length_demo_att_file: "length (demo_filen n) = ATT_HEADER + ATT_SIZE * n"
  using length_concat_infos [OF demo_log_wf, of n] by (simp add: demo_filen_def demo_logn_def)

lemma demo_att_log: "att_log board_plat (demo_filen n) (demo_logn n)"
proof -
  have "window ATT_HEADER (ATT_SIZE * n) (demo_filen n) = concat (map att_info_bytes (demo_logn n))"
    using length_concat_infos [OF demo_log_wf, of n]
    by (simp add: demo_filen_def fields length_demo_log)
  moreover have "window 0 ATT_HEADER (demo_filen n) = att_header_bytes (log_header board_plat n)"
    by (simp add: demo_filen_def fields)
  ultimately show ?thesis
    using demo_log_wf length_demo_att_file by (simp add: att_log_def length_demo_log)
qed

lemma demo_att_ok: "n \<le> 100 \<Longrightarrow> files_ok board_plat board_file dfs_sess board_ready disk_cap (board_init (demo_att_fsn n))"
  by (rule board_ok) (simp_all add: length_demo_att_file att_sizes disk_cap_def)

lemma demo_att_content: "board_file (board_init (demo_att_fsn n)) save_io_bin = Some (demo_filen n)"
  using board_file_init [OF fpath_save_io] by (simp add: gp_attendance_database_path_def)

lemma demo_att_ok3: "files_ok board_plat board_file dfs_sess board_ready disk_cap (board_init demo_att_fs)"
  by (rule demo_att_ok) simp

text \<open>C7: Adding a record appends it, with its checksum filled in, to the log the file holds.\<close>

theorem att_add_appends:
  assumes "files_ok P content sess ready cap s" "content s save_io_bin = Some c" "att_log P c L"
    "att_wf a" "ATT_HEADER + ATT_SIZE * Suc (length L) \<le> cap"
  shows "\<exists>s' c'. att_record_add P h0 a s = (0, att_seal P a, s') \<and> files_ok P content sess ready cap s'
    \<and> content s' = (content s)(save_io_bin \<mapsto> c') \<and> att_log P c' (L @ [att_seal P a])"
proof -
  note Lc = files_okD(1) [OF assms(1)] and I = files_okD(2) [OF assms(1)]
  obtain s' c' where "att_record_add P h0 a s = (0, att_seal P a, s')" "posix_files.idle sess ready s'"
    "content s' = (content s)(save_io_bin \<mapsto> c')" "att_log P c' (L @ [att_seal P a])"
    using posix_files.att_record_add_log [OF Lc I assms(2-5)] .
  then show ?thesis using files_okI [OF Lc] by blast
qed

theorem att_add_appends_witness:
  "\<exists>s' c'. att_record_add board_plat \<lparr>total = 0, hcrc = 0\<rparr> demo_att (board_init demo_att_fs)
      = (0, att_seal board_plat demo_att, s')
    \<and> att_log board_plat c' (demo_log @ [att_seal board_plat demo_att])"
proof -
  have "ATT_HEADER + ATT_SIZE * Suc (length demo_log) \<le> disk_cap"
    by (simp add: length_demo_log att_sizes disk_cap_def)
  from att_add_appends [OF demo_att_ok3, OF demo_att_content demo_att_log demo_att_wf this]
  show ?thesis by blast
qed

text \<open>Deleting n records drops the n records at the end of the log, all of them when there are
  no more than n.\<close>

theorem att_del_drops_last:
  assumes "files_ok P content sess ready cap s" "content s save_io_bin = Some c" "att_log P c L"
  shows "\<exists>s' c'. att_record_del P h0 num s = (0, s') \<and> files_ok P content sess ready cap s'
    \<and> content s' = (content s)(save_io_bin \<mapsto> c') \<and> att_log P c' (take (length L - unat num) L)"
proof -
  note Lc = files_okD(1) [OF assms(1)] and I = files_okD(2) [OF assms(1)]
  obtain s' c' where "att_record_del P h0 num s = (0, s')" "posix_files.idle sess ready s'"
    "content s' = (content s)(save_io_bin \<mapsto> c')" "att_log P c' (take (length L - unat num) L)"
    using posix_files.att_record_del_log [OF Lc I assms(2-3)] .
  then show ?thesis using files_okI [OF Lc] by blast
qed

theorem att_del_drops_last_witness:
  "\<exists>s' c'. att_record_del board_plat \<lparr>total = 0, hcrc = 0\<rparr> 2 (board_init demo_att_fs) = (0, s')
    \<and> att_log board_plat c' (take (length demo_log - unat (2 :: u16)) demo_log)"
  using att_del_drops_last [OF demo_att_ok3, OF demo_att_content demo_att_log] by blast

text \<open>Fetching n records returns the n oldest records of the log (all when there are fewer), the
  youngest of them first, and stores nothing behind the number it reports.\<close>

theorem att_get_oldest_reversed:
  assumes "files_ok P content sess ready cap s" "content s save_io_bin = Some c" "att_log P c L"
    "unat n \<le> length arr"
  shows "\<exists>arr' k s'. att_record_get P h0 arr n s = Some (0, arr', Some k, s') \<and> content s' = content s
    \<and> files_ok P content sess ready cap s'
    \<and> unat k = min (unat n) (length L) \<and> take (unat k) arr' = rev (take (unat n) L)
    \<and> drop (unat k) arr' = drop (unat k) arr"
proof -
  note Lc = files_okD(1) [OF assms(1)] and I = files_okD(2) [OF assms(1)]
  have b: "min (unat n) (length L) \<le> length arr" using assms(4) by simp
  obtain s' where 1: "att_record_get P h0 arr n s = Some (0, overwrite 0 (rev (take (unat n) L)) arr,
      Some (of_nat (min (unat n) (length L))), s')" "posix_files.idle sess ready s'" "content s' = content s"
    using posix_files.att_record_get_log [OF Lc I assms(2,3) b] .
  have k: "unat (of_nat (min (unat n) (length L)) :: u16) = min (unat n) (length L)"
    using unat_u8_bound [of n] by (intro unat_of_nat_u16) linarith
  have "take (min (unat n) (length L)) (overwrite 0 (rev (take (unat n) L)) arr) = rev (take (unat n) L)"
    "drop (min (unat n) (length L)) (overwrite 0 (rev (take (unat n) L)) arr) = drop (min (unat n) (length L)) arr"
    by (simp_all add: overwrite_def min.commute)
  then show ?thesis
    using 1 k files_okI [OF Lc 1(2)] by (intro exI conjI) (assumption | simp only: k)+
qed

theorem att_get_oldest_reversed_witness:
  "\<exists>arr' k s'. att_record_get board_plat \<lparr>total = 0, hcrc = 0\<rparr> (replicate 10 demo_att) 2
     (board_init demo_att_fs) = Some (0, arr', Some k, s') \<and> unat k = min (unat (2 :: u8)) (length demo_log)"
proof -
  have "unat (2 :: u8) \<le> length (replicate 10 demo_att)" by simp
  from att_get_oldest_reversed [OF demo_att_ok3, OF demo_att_content demo_att_log this] show ?thesis by blast
qed

text \<open>Fetching n records of a log of more than 2 n records and then deleting n of them, as the
  server does, deletes records that were not fetched: the n youngest are lost, and the n fetched
  ones stay in the log.\<close>

theorem fetch_delete_loses_records:
  assumes "files_ok P content sess ready cap s" "content s save_io_bin = Some c" "att_log P c L"
    "unat n \<le> length arr" "2 * unat n < length L"
  shows "\<exists>arr' s1 s2 c'. att_record_get P h0 arr n s = Some (0, arr', Some (ucast n), s1)
    \<and> att_record_del P h0 (ucast n) s1 = (0, s2) \<and> content s2 save_io_bin = Some c'
    \<and> att_log P c' (take (unat n) L @ drop (unat n) (take (length L - unat n) L))
    \<and> take (unat n) arr' = rev (take (unat n) L)"
proof -
  note Lc = files_okD(1) [OF assms(1)] and I = files_okD(2) [OF assms(1)]
  have m: "min (unat n) (length L) = unat n" using assms(5) by simp
  have b: "min (unat n) (length L) \<le> length arr" using assms(4) by simp
  have w: "(of_nat (unat n) :: u16) = ucast n" by simp
  obtain s1 where 1: "att_record_get P h0 arr n s = Some (0, overwrite 0 (rev (take (unat n) L)) arr,
      Some (ucast n), s1)" "posix_files.idle sess ready s1" "content s1 = content s"
    using posix_files.att_record_get_log [OF Lc I assms(2,3) b] unfolding m w .
  have c1: "content s1 save_io_bin = Some c" using 1(3) assms(2) by simp
  obtain s2 c' where 2: "att_record_del P h0 (ucast n) s1 = (0, s2)"
    "content s2 = (content s1)(save_io_bin \<mapsto> c')"
    "att_log P c' (take (length L - unat (ucast n :: u16)) L)"
    using posix_files.att_record_del_log [OF Lc 1(2) c1 assms(3)] .
  have u: "unat (ucast n :: u16) = unat n"
  proof -
    have "unat (of_nat (unat n) :: u16) = unat n"
      by (rule unat_of_nat_u16) (use unat_u8_bound [of n] in linarith)
    then show ?thesis by simp
  qed
  have "take (unat n) L @ drop (unat n) (take (length L - unat n) L) = take (length L - unat n) L"
  proof -
    have "unat n \<le> length L - unat n" using assms(5) by linarith
    then have "take (unat n) (take (length L - unat n) L) = take (unat n) L" by (simp add: min_absorb1)
    then show ?thesis by (metis append_take_drop_id)
  qed
  moreover have "take (unat n) (overwrite 0 (rev (take (unat n) L)) arr) = rev (take (unat n) L)"
    using m by (simp add: overwrite_def min.commute)
  ultimately show ?thesis using 1(1) 2 u by (metis fun_upd_same)
qed

theorem fetch_delete_loses_records_witness:
  "\<exists>arr' s1 s2. att_record_get board_plat \<lparr>total = 0, hcrc = 0\<rparr> [demo_att] 1 (board_init demo_att_fs)
      = Some (0, arr', Some (ucast (1 :: u8)), s1)
    \<and> att_record_del board_plat \<lparr>total = 0, hcrc = 0\<rparr> (ucast (1 :: u8)) s1 = (0, s2)"
proof -
  have "unat (1 :: u8) \<le> length [demo_att]" "2 * unat (1 :: u8) < length demo_log"
    by (simp_all add: length_demo_log)
  from fetch_delete_loses_records [OF demo_att_ok3, OF demo_att_content demo_att_log this] show ?thesis by blast
qed

text \<open>At start-up a header whose checksum is right is kept with the log it describes; any other
  header is replaced by that of an empty log.\<close>

theorem att_init_repairs:
  assumes "files_ok P content sess ready cap s" "content s save_io_bin = Some c" "ATT_HEADER \<le> length c"
  shows "\<exists>s' h c'. att_database_init P h0 s = (0, h, s') \<and> files_ok P content sess ready cap s'
    \<and> content s' = (content s)(save_io_bin \<mapsto> c')
    \<and> (if hcrc (att_header_of c) = header_crc P (att_header_of c) then c' = c \<and> h = att_header_of c
       else att_log P c' [] \<and> total h = 0)
    \<and> hcrc h = header_crc P h"
proof -
  note Lc = files_okD(1) [OF assms(1)] and I = files_okD(2) [OF assms(1)]
  have hv: "posix_files.header_valid P c = (hcrc (att_header_of c) = header_crc P (att_header_of c))"
    using assms(3) by (simp add: posix_files.header_valid_def [OF Lc])
  obtain s' c' h where 1: "att_database_init P h0 s = (0, h, s')" "posix_files.idle sess ready s'"
    "content s' = (content s)(save_io_bin \<mapsto> c')"
    "posix_files.header_valid P c \<Longrightarrow> c' = c \<and> h = att_header_of c"
    "\<not> posix_files.header_valid P c \<Longrightarrow> att_log P c' [] \<and> h = log_header P 0"
    using posix_files.att_database_init_ok [OF Lc I assms(2,3), of h0] by blast
  have "if hcrc (att_header_of c) = header_crc P (att_header_of c) then c' = c \<and> h = att_header_of c
       else att_log P c' [] \<and> total h = 0" "hcrc h = header_crc P h"
    using 1(4,5) unfolding hv
    by (cases "hcrc (att_header_of c) = header_crc P (att_header_of c)"; simp add: log_header_simps)+
  then show ?thesis using 1(1,3) files_okI [OF Lc 1(2)] by blast
qed

theorem att_init_repairs_witness:
  "\<exists>s' h c'. att_database_init board_plat \<lparr>total = 0, hcrc = 0\<rparr> (board_init demo_att_fs) = (0, h, s')
    \<and> hcrc h = header_crc board_plat h"
proof -
  have "ATT_HEADER \<le> length demo_att_file" by (simp add: length_demo_att_file)
  from att_init_repairs [OF demo_att_ok3, OF demo_att_content this] show ?thesis by blast
qed

end
