(* ===== verification/CheckOk.thy ===== *)
theory CheckOk imports TimeText WifiThread DatabaseProps AttProps begin

text \<open>Lemmas on the access check: what a card event finds in the database, when the door opens, and that the
  rounds of an ordinary user simulate an abstract gate.\<close>

subsection \<open>Frame lemmas\<close>

lemma add_record_keeps [simp]:
  "door_lines (add_one_att_record P E u ev st) = door_lines st" "sp_cards (add_one_att_record P E u ev st) = sp_cards st"
  "g_read_card_id (add_one_att_record P E u ev st) = g_read_card_id st"
  "g_device_config (add_one_att_record P E u ev st) = g_device_config st" "sp_time (add_one_att_record P E u ev st) = sp_time st"
  by (simp_all add: add_one_att_record_def split: prod.split)

lemma open_door_lines [simp]: "door_lines (open_door st) = door_lines st @ door_pulse"
  by (simp add: open_door_def)

lemma door_pulse_ne: "door_pulse \<noteq> []"
  by (simp add: door_pulse_def)

text \<open>What a card event knows about the user it goes on with.\<close>

definition card_user :: "'s plat \<Rightarrow> 's terminal \<Rightarrow> user_info \<Rightarrow> bool" where
  "card_user P st u = (\<exists>i r s. i < MAX_USER_NUM \<and> link_card (sp_cards st ! i) = g_read_card_id st
     \<and> add_del_get_one_user P (zero_user\<lparr>user_id := link_user (sp_cards st ! i)\<rparr>) 2 (sp_fs st) = (r, u, s)
     \<and> user_crc P u = ucrc u \<and> card_id u = g_read_card_id st)"

lemma check_card_some:
  assumes "check_card P st = (Some u, st1)"
  shows "card_user P st u \<and> st1 = st\<lparr>sp_fs := sp_fs st1\<rparr>"
proof -
  obtain i where i: "c_bsearch card_compar \<lparr>link_user = 0, link_card = g_read_card_id st\<rparr> (sp_cards st) 0 MAX_USER_NUM = Some i"
    using assms by (auto simp: check_card_def split: option.splits)
  then have k: "i < MAX_USER_NUM" "link_card (sp_cards st ! i) = g_read_card_id st"
    using c_bsearch_sound [OF i] by (simp_all add: card_compar_eq)
  obtain r v s where g: "add_del_get_one_user P (zero_user\<lparr>user_id := link_user (sp_cards st ! i)\<rparr>) 2 (sp_fs st) = (r, v, s)"
    by (cases "add_del_get_one_user P (zero_user\<lparr>user_id := link_user (sp_cards st ! i)\<rparr>) 2 (sp_fs st)") auto
  then have "user_crc P v = ucrc v" "card_id v = link_card (sp_cards st ! i)" "v = u" "st1 = st\<lparr>sp_fs := s\<rparr>"
    using assms i by (auto simp: check_card_def Let_def split: if_splits)
  then show ?thesis using k g unfolding card_user_def by auto
qed

lemma check_card_none:
  assumes "check_card P st = (None, st1)"
  shows "st1 = st\<lparr>sp_fs := sp_fs st1\<rparr>"
  using assms by (auto simp: check_card_def Let_def split: option.splits prod.splits if_splits)

definition may_pass :: "u32 \<Rightarrow> user_info \<Rightarrow> 's terminal \<Rightarrow> bool" where
  "may_pass ev u st = (let a = device_addr (g_device_config st) in
     bit (authority u ! 15) 7
     \<or> effective u = 1 \<and> (is_time_limit u = 1 \<longrightarrow> user_expired (sp_time st) u = Some False)
       \<and> (bit (authority u ! 15) 6 \<or> dev_bit a (authority u))
       \<and> (ev = USER_CHECK_CARD_IN \<and> dev_bit a (ustate u) \<or> ev = USER_CHECK_CARD_OUT \<and> \<not> dev_bit a (ustate u)))"

lemma pass_door_lines:
  assumes "pass_door P ev u st = (go, u1, st1)"
  shows "door_lines st1 = door_lines st @ (if ev = USER_CHECK_CARD_IN \<and> dev_bit (device_addr (g_device_config st)) (ustate u)
      \<or> ev = USER_CHECK_CARD_OUT \<and> \<not> dev_bit (device_addr (g_device_config st)) (ustate u) then door_pulse else [])"
  using assms by (auto simp: pass_door_def check_events Let_def split: if_splits prod.splits)

lemma check_rights_lines:
  assumes "check_rights P E ev u st = Some st'"
  shows "door_lines st' = door_lines st @ (if may_pass ev u st then door_pulse else [])"
  using assms pass_door_lines [of P ev u st]
  by (auto simp: check_rights_def may_pass_def Let_def split: if_splits option.splits bool.splits prod.splits)

lemma zero_user_rights: "\<not> may_pass ev zero_user st"
  by (simp add: may_pass_def zero_user_def user_info_of_def Let_def USER_SIZE_def window_def)

subsection \<open>A passage\<close>

lemma bit_one_u8: "bit (push_bit n (1 :: u8)) m = (m = n \<and> n < 8)"
  unfolding bit_push_bit_iff bit_1_iff by auto

lemma dev_bit_set: "unat a div 8 < length f \<Longrightarrow> dev_bit a (set_dev_bit a v f) = v"
  using bit_one_u8 [of "unat a mod 8" "unat a mod 8"]
  by (simp add: dev_bit_def set_dev_bit_def bit_or_iff bit_and_iff bit_not_iff del: push_bit_of_1)

lemma length_set_dev_bit [simp]: "length (set_dev_bit a v f) = length f"
  by (simp add: set_dev_bit_def)

lemma length_authority: "user_wf u \<Longrightarrow> length (ustate u) = 16"
  by (simp add: user_wf_def)

lemma user_crc_state: "user_wf u \<Longrightarrow> length f = 16 \<Longrightarrow> user_crc P (u\<lparr>ustate := f\<rparr>) = user_crc P u"
proof -
  assume a: "user_wf u" "length f = 16"
  have w: "length (finger u) = 5" "\<forall>r \<in> set (finger u). length r = 193" "length (concat (finger u)) = 965"
    using a(1) length_concat_rows [of "finger u" 193] by (simp_all add: user_wf_def)
  have "take 1038 (user_info_bytes (u\<lparr>ustate := f\<rparr>)) = take 1038 (user_info_bytes u)"
    using a w by (simp add: user_info_bytes_def user_wf_def)
  then show ?thesis by (simp add: user_crc_def USER_SIZE_def)
qed

text \<open>The card held to the reader is in the table, and the database has its user.\<close>

definition card_known :: "'s plat \<Rightarrow> 's terminal \<Rightarrow> bytes \<Rightarrow> user_info \<Rightarrow> bool" where
  "card_known P st c u = (\<exists>i. c_bsearch card_compar \<lparr>link_user = 0, link_card = g_read_card_id st\<rparr> (sp_cards st) 0 MAX_USER_NUM = Some i
     \<and> link_user (sp_cards st ! i) \<noteq> 0 \<and> link_card (sp_cards st ! i) = card_id u
     \<and> user_ofs (unat (link_user (sp_cards st ! i))) + USER_SIZE \<le> length c
     \<and> slot_user c (unat (link_user (sp_cards st ! i))) = u \<and> user_id u = link_user (sp_cards st ! i)
     \<and> user_crc P u = ucrc u)"

lemma check_card_known:
  assumes "files_ok P content sess ready cap (sp_fs st)" "content (sp_fs st) member_bin = Some c" "card_known P st c u"
  shows "\<exists>s1. check_card P st = (Some u, st\<lparr>sp_fs := s1\<rparr>) \<and> files_ok P content sess ready cap s1
    \<and> content s1 = content (sp_fs st)"
proof -
  note L = files_okD(1) [OF assms(1)] and I = files_okD(2) [OF assms(1)]
  obtain i where i: "c_bsearch card_compar \<lparr>link_user = 0, link_card = g_read_card_id st\<rparr> (sp_cards st) 0 MAX_USER_NUM = Some i"
    "link_user (sp_cards st ! i) \<noteq> 0" "link_card (sp_cards st ! i) = card_id u"
    "user_ofs (unat (link_user (sp_cards st ! i))) + USER_SIZE \<le> length c"
    "slot_user c (unat (link_user (sp_cards st ! i))) = u" "user_crc P u = ucrc u"
    using assms(3) unfolding card_known_def by blast
  let ?v = "zero_user\<lparr>user_id := link_user (sp_cards st ! i)\<rparr>"
  have fb: "file_bytes (content (sp_fs st) member_bin) = c" by (simp add: assms(2) file_bytes_def)
  have v: "user_id ?v \<noteq> 0" "user_ofs (unat (user_id ?v)) + USER_SIZE \<le> length c" using i by simp_all
  obtain s1 where 1: "add_del_get_one_user P ?v 2 (sp_fs st) = (0, slot_user c (unat (user_id ?v)), s1)"
    "posix_files.idle sess ready s1" "content s1 = (content (sp_fs st))(member_bin \<mapsto> c)"
    using posix_files.get_user_full [OF L I fb v] .
  have "content s1 = content (sp_fs st)" using 1(3) assms(2) by (simp add: fun_upd_idem)
  then show ?thesis
    using i 1(1) files_okI [OF L 1(2)] by (intro exI [of _ s1]) (simp add: check_card_def Let_def)
qed

definition check_event :: "bool \<Rightarrow> u32" where
  "check_event v = (if v then USER_CHECK_CARD_OUT else USER_CHECK_CARD_IN)"

lemma check_event_bits: "check_event v AND USER_CHECK_CARD_IN \<noteq> 0 \<or> check_event v AND USER_CHECK_CARD_OUT \<noteq> 0"
  by (simp add: check_event_def check_events)

lemma pass_door_may_enter:
  assumes "files_ok P content sess ready cap (sp_fs st)" "content (sp_fs st) member_bin = Some c"
    "user_id u \<noteq> 0" "user_ofs (unat (user_id u)) + USER_SIZE \<le> length c" "slot_user c (unat (user_id u)) = u"
    "dev_bit (device_addr (g_device_config st)) (ustate u) \<noteq> v"
  shows "\<exists>s1 c'. pass_door P (check_event v) u st = (True, u\<lparr>ustate := set_dev_bit (device_addr (g_device_config st)) v (ustate u)\<rparr>,
      open_door (st\<lparr>sp_fs := s1\<rparr>)) \<and> files_ok P content sess ready cap s1
    \<and> content s1 = (content (sp_fs st))(member_bin \<mapsto> c') \<and> length c' = length c
    \<and> slot_user c' (unat (user_id u)) = u\<lparr>ustate := set_dev_bit (device_addr (g_device_config st)) v (ustate u)\<rparr>
    \<and> (\<forall>j. 0 < j \<longrightarrow> j \<noteq> unat (user_id u) \<longrightarrow> slot c' j = slot c j)"
proof -
  note L = files_okD(1) [OF assms(1)] and I = files_okD(2) [OF assms(1)]
  let ?i = "unat (user_id u)" and ?f = "set_dev_bit (device_addr (g_device_config st)) v (ustate u)"
  let ?c = "overwrite (user_ofs ?i + STATE_OFFSET) ?f c"
  have fb: "file_bytes (content (sp_fs st) member_bin) = c" by (simp add: assms(2) file_bytes_def)
  have cap: "length c \<le> cap"
    using posix_files.content_cap [OF L _ assms(2)] assms(1) by (simp add: files_ok_def)
  have "length (slot c ?i) = 1058" using assms(4) by (simp add: slot_def USER_SIZE_def)
  then have wf: "user_wf u" using assms(5) user_wf_of [of "slot c ?i"] by (simp add: slot_user_def)
  then have lf: "length ?f = 16" by (simp add: user_wf_def)
  obtain s1 where 1: "get_set_state P ?f (user_id u) 1 (sp_fs st) = (0, ?f, s1)" "posix_files.idle sess ready s1"
    "content s1 = (content (sp_fs st))(member_bin \<mapsto> ?c)"
    using posix_files.set_state [OF L I fb assms(3) lf assms(4) cap] .
  have i: "0 < ?i" using assms(3) by (simp add: unat_gt_0)
  have lc: "length ?c = length c" using assms(4) lf by (simp add: USER_SIZE_def STATE_OFFSET_def)
  have pd: "pass_door P (check_event v) u st = (True, u\<lparr>ustate := ?f\<rparr>, open_door (st\<lparr>sp_fs := s1\<rparr>))"
    using assms(6) 1(1) by (cases v) (simp_all add: pass_door_def check_event_def check_events Let_def)
  have ok: "files_ok P content sess ready cap s1" using files_okI [OF L 1(2)] .
  have sl: "slot_user ?c ?i = u\<lparr>ustate := ?f\<rparr>" "\<forall>j. 0 < j \<longrightarrow> j \<noteq> ?i \<longrightarrow> slot ?c j = slot c j"
    using slot_state [OF i assms(4) lf] assms(5) by simp_all
  show ?thesis
    by (intro exI [of _ s1] exI [of _ ?c] conjI; (rule pd | rule ok | rule 1(3) | rule lc | rule sl(1) | rule sl(2)))
qed

subsection \<open>The gate\<close>

text \<open>An ordinary user who may use the door of this terminal, and whether he is inside.\<close>

definition may_use :: "user_info \<Rightarrow> 's terminal \<Rightarrow> bool" where
  "may_use u st = (let a = device_addr (g_device_config st) in
     \<not> bit (authority u ! 15) 7 \<and> effective u = 1 \<and> (is_time_limit u = 1 \<longrightarrow> user_expired (sp_time st) u = Some False)
     \<and> (bit (authority u ! 15) 6 \<or> dev_bit a (authority u)) \<and> unat a < 128)"

definition inside :: "user_info \<Rightarrow> 's terminal \<Rightarrow> bool" where
  "inside u st = dev_bit (device_addr (g_device_config st)) (ustate u)"

definition passed :: "bool \<Rightarrow> user_info \<Rightarrow> 's terminal \<Rightarrow> user_info" where
  "passed v u st = u\<lparr>ustate := set_dev_bit (device_addr (g_device_config st)) v (ustate u)\<rparr>"

text \<open>What the rounds of this user leave alone.\<close>

definition same_site :: "'s terminal \<Rightarrow> 's terminal \<Rightarrow> bool" where
  "same_site st st' = (\<exists>s l. st' = st\<lparr>sp_fs := s, door_lines := l\<rparr>)"

lemma same_site_refl: "same_site st st"
  unfolding same_site_def by (intro exI [of _ "sp_fs st"] exI [of _ "door_lines st"]) simp

lemma same_siteD:
  assumes "same_site st st'"
  shows "sp_cards st' = sp_cards st" "g_read_card_id st' = g_read_card_id st" "g_device_config st' = g_device_config st"
    "sp_time st' = sp_time st" "sp_station st' = sp_station st"
  using assms by (auto simp: same_site_def)

lemma same_site_use:
  assumes "same_site st st'"
  shows "may_use u st' = may_use u st" "inside u st' = inside u st" "passed v u st' = passed v u st"
    "att_of st' u ev = att_of st u ev" "card_known P st' c u = card_known P st c u"
  by (simp_all add: may_use_def inside_def passed_def att_of_def card_known_def same_siteD [OF assms])

lemma passed_simps:
  "card_id (passed v u st) = card_id u" "user_id (passed v u st) = user_id u" "ucrc (passed v u st) = ucrc u"
  "may_use (passed v u st) st' = may_use u st'" "att_of st' (passed v u st) ev = att_of st' u ev"
  "passed v (passed w u st) st = passed v (passed w u st) st"
  by (simp_all add: passed_def may_use_def att_of_def user_expired_def limit_time_def)

lemma passed_inside:
  assumes "user_wf u" "may_use u st"
  shows "inside (passed v u st) st = v"
proof -
  have "unat (device_addr (g_device_config st)) < 128" using assms(2) by (simp add: may_use_def Let_def)
  then show ?thesis using assms(1) by (simp add: inside_def passed_def dev_bit_set user_wf_def)
qed

lemma card_known_wf: "card_known P st c u \<Longrightarrow> user_wf u \<and> user_id u \<noteq> 0"
proof -
  assume "card_known P st c u"
  then obtain j where j: "user_ofs j + USER_SIZE \<le> length c" "slot_user c j = u" "user_id u \<noteq> 0"
    unfolding card_known_def by auto
  have "length (slot c j) = 1058" using j(1) by (simp add: slot_def USER_SIZE_def)
  then show ?thesis using j(2,3) user_wf_of [of "slot c j"] by (simp add: slot_user_def)
qed

lemma att_of_wf: "user_wf u \<Longrightarrow> length (sp_station st) = 6 \<Longrightarrow> att_wf (att_of st u ev)"
  by (simp add: att_of_def att_wf_def user_wf_def)

lemma user_event_round:
  "user_check_round P E 0 (check_event v) st = (case check_card P st of (None, st1) \<Rightarrow> Some st1
     | (Some u, st1) \<Rightarrow> check_rights P E (check_event v) u st1)"
  using check_event_bits [of v] by (simp add: user_check_round_def)

lemma rights_use:
  assumes "may_use u st"
  shows "check_rights P E (check_event v) u st = (case pass_door P (check_event v) u st of (go, u1, st1) \<Rightarrow>
    Some (if go then add_one_att_record P E u1 (check_event v) st1 else st1))"
  using assms by (auto simp: may_use_def check_rights_def Let_def)

text \<open>The event of the side the user is on already: nothing happens.\<close>

lemma round_refused:
  assumes "files_ok P content sess ready cap (sp_fs st)" "content (sp_fs st) member_bin = Some c" "card_known P st c u"
    "may_use u st" "inside u st = v"
  shows "\<exists>s1. user_check_round P E 0 (check_event v) st = Some (st\<lparr>sp_fs := s1\<rparr>)
    \<and> files_ok P content sess ready cap s1 \<and> content s1 = content (sp_fs st)"
proof -
  obtain s1 where s: "check_card P st = (Some u, st\<lparr>sp_fs := s1\<rparr>)" "files_ok P content sess ready cap s1"
    "content s1 = content (sp_fs st)"
    using check_card_known [OF assms(1-3)] by blast
  have m: "may_use u (st\<lparr>sp_fs := s1\<rparr>)" using assms(4) by (simp add: may_use_def)
  have "pass_door P (check_event v) u (st\<lparr>sp_fs := s1\<rparr>) = (False, u, st\<lparr>sp_fs := s1\<rparr>)"
    using assms(5) by (cases v) (simp_all add: pass_door_def check_event_def check_events Let_def inside_def)
  then have "user_check_round P E 0 (check_event v) st = Some (st\<lparr>sp_fs := s1\<rparr>)"
    by (simp add: user_event_round s(1) rights_use [OF m])
  with s(2,3) show ?thesis by blast
qed

lemma round_passes:
  assumes "files_ok P content sess ready cap (sp_fs st)" "content (sp_fs st) member_bin = Some c" "card_known P st c u"
    "may_use u st" "inside u st \<noteq> v" "content (sp_fs st) save_io_bin = Some d" "att_log P d L"
    "length (sp_station st) = 6" "ATT_HEADER + ATT_SIZE * Suc (length L) \<le> cap"
  shows "\<exists>st' c' d'. user_check_round P E 0 (check_event v) st = Some st' \<and> same_site st st'
    \<and> door_lines st' = door_lines st @ door_pulse \<and> files_ok P content sess ready cap (sp_fs st')
    \<and> content (sp_fs st') = (content (sp_fs st))(member_bin \<mapsto> c', save_io_bin \<mapsto> d')
    \<and> card_known P st' c' (passed v u st) \<and> att_log P d' (L @ [att_seal P (att_of st u (check_event v))])
    \<and> (\<forall>j. 0 < j \<longrightarrow> j \<noteq> unat (user_id u) \<longrightarrow> slot c' j = slot c j)"
proof -
  obtain s1 where s: "check_card P st = (Some u, st\<lparr>sp_fs := s1\<rparr>)" "files_ok P content sess ready cap s1"
    "content s1 = content (sp_fs st)"
    using check_card_known [OF assms(1-3)] by blast
  define st1 where "st1 = st\<lparr>sp_fs := s1\<rparr>"
  have site1: "same_site st st1" unfolding same_site_def st1_def
    by (intro exI [of _ s1] exI [of _ "door_lines st"]) simp
  have k: "user_wf u" "user_id u \<noteq> 0" using card_known_wf [OF assms(3)] by auto
  obtain i where i: "c_bsearch card_compar \<lparr>link_user = 0, link_card = g_read_card_id st\<rparr> (sp_cards st) 0 MAX_USER_NUM = Some i"
     "link_user (sp_cards st ! i) \<noteq> 0" "link_card (sp_cards st ! i) = card_id u"
     "user_ofs (unat (link_user (sp_cards st ! i))) + USER_SIZE \<le> length c"
     "slot_user c (unat (link_user (sp_cards st ! i))) = u" "user_id u = link_user (sp_cards st ! i)"
     "user_crc P u = ucrc u"
    using assms(3) unfolding card_known_def by blast
  have ok1: "files_ok P content sess ready cap (sp_fs st1)" "content (sp_fs st1) member_bin = Some c"
    using s(2,3) assms(2) by (simp_all add: st1_def)
  have m: "may_use u st1" "inside u st1 \<noteq> v" using assms(4,5) same_site_use [OF site1] by simp_all
  have e: "user_ofs (unat (user_id u)) + USER_SIZE \<le> length c" "slot_user c (unat (user_id u)) = u"
    using i(4,5,6) by simp_all
  have d: "dev_bit (device_addr (g_device_config st1)) (ustate u) \<noteq> v" using m(2) by (simp add: inside_def)
  obtain s2 c' where p: "pass_door P (check_event v) u st1 = (True, passed v u st1, open_door (st1\<lparr>sp_fs := s2\<rparr>))"
    "files_ok P content sess ready cap s2" "content s2 = (content (sp_fs st1))(member_bin \<mapsto> c')" "length c' = length c"
    "slot_user c' (unat (user_id u)) = passed v u st1" "\<forall>j. 0 < j \<longrightarrow> j \<noteq> unat (user_id u) \<longrightarrow> slot c' j = slot c j"
    using pass_door_may_enter [OF ok1 k(2) e d] unfolding passed_def by blast
  note Lc = files_okD(1) [OF p(2)] and I = files_okD(2) [OF p(2)]
  have ne: "save_io_bin \<noteq> member_bin" by (simp add: gp_attendance_database_path_def user_info_database_path_def)
  have dd: "content s2 save_io_bin = Some d" using p(3) s(3) assms(6) ne by (simp add: st1_def)
  obtain s3 d' where a: "att_record_add P (se_header E) (att_of st u (check_event v)) s2
      = (0, att_seal P (att_of st u (check_event v)), s3)" "posix_files.idle sess ready s3"
    "content s3 = (content s2)(save_io_bin \<mapsto> d')" "att_log P d' (L @ [att_seal P (att_of st u (check_event v))])"
    using posix_files.att_record_add_log [OF Lc I dd assms(7) att_of_wf [OF k(1) assms(8)] assms(9)] .
  define st' where "st' = st\<lparr>sp_fs := s3, door_lines := door_lines st @ door_pulse\<rparr>"
  have site: "same_site st st'" unfolding same_site_def st'_def by blast
  have run: "user_check_round P E 0 (check_event v) st = Some st'"
    using p(1) a(1) rights_use [OF m(1), of P E v] same_site_use(3) [OF site1]
    by (simp add: user_event_round s(1) add_one_att_record_def open_door_def st'_def passed_simps)
      (simp add: st1_def att_of_def passed_def)
  have cr: "user_crc P (passed v u st) = ucrc (passed v u st)"
    using user_crc_state [OF k(1), of "set_dev_bit (device_addr (g_device_config st)) v (ustate u)" P] i(7) k(1)
    by (simp add: passed_def user_wf_def)
  have sl: "slot_user c' (unat (link_user (sp_cards st ! i))) = passed v u st"
    using p(5) i(6) same_site_use(3) [OF site1] by simp
  have "card_known P st c' (passed v u st)"
    unfolding card_known_def passed_simps p(4)
    by (rule exI [of _ i], intro conjI; (rule i(1) | rule i(2) | rule i(3) | rule i(4) | rule i(6) | rule sl | rule cr [unfolded passed_simps]))
  then have kn: "card_known P st' c' (passed v u st)" using same_site_use(5) [OF site] by simp
  have ct: "content (sp_fs st') = (content (sp_fs st))(member_bin \<mapsto> c', save_io_bin \<mapsto> d')"
    using a(3) p(3) s(3) by (simp add: st'_def st1_def)
  have ok: "files_ok P content sess ready cap (sp_fs st')" using files_okI [OF Lc a(2)] by (simp add: st'_def)
  have dl: "door_lines st' = door_lines st @ door_pulse" by (simp add: st'_def)
  show ?thesis
    by (rule exI [of _ st'], rule exI [of _ c'], rule exI [of _ d'], intro conjI;
      (rule run | rule site | rule dl | rule ok | rule ct | rule kn | rule a(4) | rule p(6)))
qed

text \<open>The abstract gate: who is inside and which of the requests, true for going in, it lets through.\<close>

fun gate :: "bool \<Rightarrow> bool list \<Rightarrow> bool list" where
  "gate b [] = []"
| "gate b (v # vs) = (if v = b then gate b vs else v # gate v vs)"

fun check_rounds :: "'s plat \<Rightarrow> srv_env \<Rightarrow> u32 list \<Rightarrow> 's terminal \<Rightarrow> 's terminal option" where
  "check_rounds P E [] st = Some st"
| "check_rounds P E (ev # evs) st = (case user_check_round P E 0 ev st of None \<Rightarrow> None
     | Some st1 \<Rightarrow> check_rounds P E evs st1)"

lemma gate_length: "length (gate b vs) \<le> length vs"
  by (induction b vs rule: gate.induct) auto

lemma same_site_trans: "same_site st st1 \<Longrightarrow> same_site st1 st2 \<Longrightarrow> same_site st st2"
proof -
  assume "same_site st st1" "same_site st1 st2"
  then obtain s l s' l' where "st1 = st\<lparr>sp_fs := s, door_lines := l\<rparr>" "st2 = st1\<lparr>sp_fs := s', door_lines := l'\<rparr>"
    unfolding same_site_def by blast
  then have "st2 = st\<lparr>sp_fs := s', door_lines := l'\<rparr>" by simp
  then show "same_site st st2" unfolding same_site_def by blast
qed

lemma gate_rounds:
  assumes "files_ok P content sess ready cap (sp_fs st)" "content (sp_fs st) member_bin = Some c" "card_known P st c u"
    "may_use u st" "content (sp_fs st) save_io_bin = Some d" "att_log P d L"
    "length (sp_station st) = 6" "ATT_HEADER + ATT_SIZE * (length L + length vs) \<le> cap"
  shows "\<exists>st' c' d'. check_rounds P E (map check_event vs) st = Some st' \<and> same_site st st'
    \<and> door_lines st' = door_lines st @ concat (map (\<lambda>v. door_pulse) (gate (inside u st) vs))
    \<and> files_ok P content sess ready cap (sp_fs st')
    \<and> content (sp_fs st') = (content (sp_fs st))(member_bin \<mapsto> c', save_io_bin \<mapsto> d')
    \<and> att_log P d' (L @ map (\<lambda>v. att_seal P (att_of st u (check_event v))) (gate (inside u st) vs))
    \<and> (\<forall>j. 0 < j \<longrightarrow> j \<noteq> unat (user_id u) \<longrightarrow> slot c' j = slot c j)"
  using assms
proof (induction vs arbitrary: st c u d L)
  case Nil
  have "content (sp_fs st) = (content (sp_fs st))(member_bin \<mapsto> c, save_io_bin \<mapsto> d)"
    using Nil(2,5) by (simp add: fun_upd_idem)
  then show ?case
    by (rule_tac x = st in exI, rule_tac x = c in exI, rule_tac x = d in exI, intro conjI)
      (simp, rule same_site_refl, simp, rule Nil(1), assumption, simp add: Nil(6), simp)
next
  case (Cons v vs)
  show ?case
  proof (cases "inside u st = v")
    case True
    obtain s1 where r: "user_check_round P E 0 (check_event v) st = Some (st\<lparr>sp_fs := s1\<rparr>)"
      "files_ok P content sess ready cap s1" "content s1 = content (sp_fs st)"
      using round_refused [OF Cons.prems(1-4) True] by blast
    define st1 where "st1 = st\<lparr>sp_fs := s1\<rparr>"
    have site: "same_site st st1" unfolding same_site_def st1_def
      by (intro exI [of _ s1] exI [of _ "door_lines st"]) simp
    have "files_ok P content sess ready cap (sp_fs st1)" "content (sp_fs st1) member_bin = Some c" "card_known P st1 c u"
      "may_use u st1" "content (sp_fs st1) save_io_bin = Some d" "length (sp_station st1) = 6"
      "ATT_HEADER + ATT_SIZE * (length L + length vs) \<le> cap"
      using Cons.prems r(2,3) same_site_use [OF site] same_siteD(5) [OF site] by (simp_all add: st1_def)
    from Cons.IH [OF this(1-5) Cons.prems(6) this(6,7)] obtain st' c' d' where
      i: "check_rounds P E (map check_event vs) st1 = Some st'" "same_site st1 st'"
      "door_lines st' = door_lines st1 @ concat (map (\<lambda>v. door_pulse) (gate (inside u st1) vs))"
      "files_ok P content sess ready cap (sp_fs st')"
      "content (sp_fs st') = (content (sp_fs st1))(member_bin \<mapsto> c', save_io_bin \<mapsto> d')"
      "att_log P d' (L @ map (\<lambda>v. att_seal P (att_of st1 u (check_event v))) (gate (inside u st1) vs))"
      "\<forall>j. 0 < j \<longrightarrow> j \<noteq> unat (user_id u) \<longrightarrow> slot c' j = slot c j"
      by blast
    have g: "gate (inside u st) (v # vs) = gate (inside u st1) vs" using True same_site_use(2) [OF site] by simp
    have run: "check_rounds P E (map check_event (v # vs)) st = Some st'" using r(1) i(1) by (simp add: st1_def)
    have l: "att_log P d' (L @ map (\<lambda>v. att_seal P (att_of st u (check_event v))) (gate (inside u st) (v # vs)))"
      using i(6) unfolding g same_site_use(4) [OF site] .
    have dl: "door_lines st' = door_lines st @ concat (map (\<lambda>v. door_pulse) (gate (inside u st) (v # vs)))"
      using i(3) unfolding g by (simp add: st1_def)
    have ct: "content (sp_fs st') = (content (sp_fs st))(member_bin \<mapsto> c', save_io_bin \<mapsto> d')"
      using i(5) r(3) by (simp add: st1_def)
    show ?thesis
      by (rule exI [of _ st'], rule exI [of _ c'], rule exI [of _ d'], intro conjI;
        (rule run | rule same_site_trans [OF site i(2)] | rule dl | rule i(4) | rule ct | rule l | rule i(7)))
  next
    case False
    have room: "ATT_HEADER + ATT_SIZE * Suc (length L) \<le> cap" using Cons.prems(8) by (simp add: algebra_simps)
    obtain st1 c1 d1 where r: "user_check_round P E 0 (check_event v) st = Some st1" "same_site st st1"
      "door_lines st1 = door_lines st @ door_pulse" "files_ok P content sess ready cap (sp_fs st1)"
      "content (sp_fs st1) = (content (sp_fs st))(member_bin \<mapsto> c1, save_io_bin \<mapsto> d1)"
      "card_known P st1 c1 (passed v u st)" "att_log P d1 (L @ [att_seal P (att_of st u (check_event v))])"
      "\<forall>j. 0 < j \<longrightarrow> j \<noteq> unat (user_id u) \<longrightarrow> slot c1 j = slot c j"
      using round_passes [OF Cons.prems(1-4) False Cons.prems(5-7) room] by blast
    let ?u = "passed v u st" and ?L = "L @ [att_seal P (att_of st u (check_event v))]"
    have wf: "user_wf u" using card_known_wf [OF Cons.prems(3)] by simp
    have ins: "inside ?u st1 = v" using passed_inside [OF wf Cons.prems(4)] same_site_use(2) [OF r(2)] by simp
    have ne: "save_io_bin \<noteq> member_bin" by (simp add: gp_attendance_database_path_def user_info_database_path_def)
    have p: "content (sp_fs st1) member_bin = Some c1" "content (sp_fs st1) save_io_bin = Some d1"
      "may_use ?u st1" "length (sp_station st1) = 6"
      "ATT_HEADER + ATT_SIZE * (length ?L + length vs) \<le> cap"
      using Cons.prems(4,7,8) r(5) ne same_site_use(1) [OF r(2)] same_siteD(5) [OF r(2)]
      by (simp_all add: passed_simps)
    from Cons.IH [OF r(4) p(1) r(6) p(3) p(2) r(7) p(4,5)] obtain st' c' d' where
      i: "check_rounds P E (map check_event vs) st1 = Some st'" "same_site st1 st'"
      "door_lines st' = door_lines st1 @ concat (map (\<lambda>v. door_pulse) (gate (inside ?u st1) vs))"
      "files_ok P content sess ready cap (sp_fs st')"
      "content (sp_fs st') = (content (sp_fs st1))(member_bin \<mapsto> c', save_io_bin \<mapsto> d')"
      "att_log P d' (?L @ map (\<lambda>v. att_seal P (att_of st1 ?u (check_event v))) (gate (inside ?u st1) vs))"
      "\<forall>j. 0 < j \<longrightarrow> j \<noteq> unat (user_id ?u) \<longrightarrow> slot c' j = slot c1 j"
      by blast
    have g: "gate (inside u st) (v # vs) = v # gate v vs" using False by auto
    have run: "check_rounds P E (map check_event (v # vs)) st = Some st'" using r(1) i(1) by simp
    have l: "att_log P d' (L @ map (\<lambda>v. att_seal P (att_of st u (check_event v))) (gate (inside u st) (v # vs)))"
      using i(6) unfolding g ins same_site_use(4) [OF r(2)] passed_simps by simp
    have dl: "door_lines st' = door_lines st @ concat (map (\<lambda>v. door_pulse) (gate (inside u st) (v # vs)))"
      using i(3) r(3) unfolding g ins by simp
    have ct: "content (sp_fs st') = (content (sp_fs st))(member_bin \<mapsto> c', save_io_bin \<mapsto> d')"
      using i(5) r(5) ne by (simp add: fun_upd_twist)
    have sl: "\<forall>j. 0 < j \<longrightarrow> j \<noteq> unat (user_id u) \<longrightarrow> slot c' j = slot c j"
      using i(7) r(8) by (simp add: passed_simps)
    show ?thesis
      by (rule exI [of _ st'], rule exI [of _ c'], rule exI [of _ d'], intro conjI;
        (rule run | rule same_site_trans [OF r(2) i(2)] | rule dl | rule i(4) | rule ct | rule l | rule sl))
  qed
qed

end
