(* ===== verification/ServerProps.thy ===== *)
theory ServerProps imports WifiThread DatabaseProps AttProps begin

text \<open>The properties of the server commands: what each does to the databases and the clock, what it
  answers, and that nothing happens without a right checksum.\<close>

lemmas server_defs = data_process_def sp_user_add_def sp_user_del_def sp_connect_def sp_timesync_def
  sp_att_get_def sp_list_reload_def sp_att_del_def sp_user_crc_get_def

lemma sp_send_upd: "sp_send P E n st = st\<lparr>sp_tx := sp_tx (sp_send P E n st)\<rparr>"
  by (simp add: sp_send_def)

lemma wifi_send_calls: "tx_calls (snd (wifi_send P E cmd n d t)) = Suc (tx_calls t)"
  by (simp add: wifi_send_def Let_def split: prod.split)

text \<open>An answer changes the answer buffer and the sent frames, nothing else.\<close>

lemma sp_reply_upd:
  "\<exists>t. sp_reply P E c a st = st\<lparr>sp_buf := (sp_buf st)[13 := c, 14 := a], sp_tx := t\<rparr>
     \<and> tx_calls t = Suc (tx_calls (sp_tx st))"
  unfolding sp_reply_def sp_send_def 
  by (intro exI [of _ "snd (wifi_send P (se_wifi E) CMD_SEND_MESH_DATA (of_nat (6 + 9)) ((sp_buf st)[13 := c, 14 := a]) (sp_tx st))"])
    (simp add: wifi_send_calls)

lemma sp_nack_upd:
  "\<exists>t. sp_nack P E st = st\<lparr>sp_buf := (sp_buf st)[13 := CMD_SERVER_NACK], sp_tx := t\<rparr>
     \<and> tx_calls t = Suc (tx_calls (sp_tx st))"
  unfolding sp_nack_def sp_send_def
  by (intro exI [of _ "snd (wifi_send P (se_wifi E) CMD_SEND_MESH_DATA (of_nat (6 + 16)) ((sp_buf st)[13 := CMD_SERVER_NACK]) (sp_tx st))"])
    (simp add: wifi_send_calls)

lemma sp_head_keeps [simp]:
  "sp_fs (sp_head c st) = sp_fs st" "sp_user (sp_head c st) = sp_user st" "sp_header (sp_head c st) = sp_header st"
  "sp_atts (sp_head c st) = sp_atts st" "sp_crcs (sp_head c st) = sp_crcs st" "sp_time (sp_head c st) = sp_time st"
  "sp_iic (sp_head c st) = sp_iic st" "sp_cards (sp_head c st) = sp_cards st" "sp_tx (sp_head c st) = sp_tx st"
  "sp_station (sp_head c st) = sp_station st"
  by (simp_all add: sp_head_def)

lemma length_sp_head [simp]: "length (sp_buf st) = 1024 \<Longrightarrow> length (sp_buf (sp_head c st)) = 1024"
  by (simp add: sp_head_def)

lemma sp_reply_keeps [simp]:
  "sp_fs (sp_reply P E c a st) = sp_fs st" "sp_time (sp_reply P E c a st) = sp_time st"
  "sp_iic (sp_reply P E c a st) = sp_iic st" "sp_cards (sp_reply P E c a st) = sp_cards st"
  "sp_buf (sp_reply P E c a st) = (sp_buf st)[13 := c, 14 := a]"
  by (simp_all add: sp_reply_def sp_send_def)

lemma sp_send_keeps [simp]:
  "sp_fs (sp_send P E n st) = sp_fs st" "sp_buf (sp_send P E n st) = sp_buf st"
  by (simp_all add: sp_send_def)

text \<open>What an answer of 15 bytes says and that it is sent: the address of the server, the address of the
  terminal, the command, the code and the acknowledgement.\<close>

lemma sp_reply_sent:
  assumes "length (sp_station st) = 6" "length (sp_buf st) = 1024" "sp_buf st' = sp_buf (sp_head cmd st)"
  shows "take 15 (sp_buf (sp_reply P E c a st')) = replicate 6 0 @ sp_station st @ [cmd, c, a]"
    "sp_tx (sp_reply P E c a st') = snd (wifi_send P (se_wifi E) CMD_SEND_MESH_DATA 15 (sp_buf (sp_reply P E c a st')) (sp_tx st'))"
proof -
  have h: "take 13 (sp_buf st') = replicate 6 0 @ sp_station st @ [cmd]"
    using assms by (simp add: sp_head_def overwrite_def)
  have l: "length (sp_buf st') = 1024" using assms by simp
  have "take 15 (sp_buf (sp_reply P E c a st')) = take 13 (sp_buf st') @ [c, a]"
    using l by (simp add: numeral_eq_Suc take_Suc_conv_app_nth take_update_cancel)
  then show "take 15 (sp_buf (sp_reply P E c a st')) = replicate 6 0 @ sp_station st @ [cmd, c, a]"
    by (simp add: h)
  show "sp_tx (sp_reply P E c a st') = snd (wifi_send P (se_wifi E) CMD_SEND_MESH_DATA 15 (sp_buf (sp_reply P E c a st')) (sp_tx st'))"
    by (simp add: sp_reply_def sp_send_def)
qed

subsection \<open>Requests without a right checksum\<close>

definition server_len :: "u8 \<Rightarrow> nat option" where
  "server_len cmd = (if cmd = CMD_SERVER_USER_ADD then Some (1 + USER_SIZE)
     else if cmd \<in> {CMD_SERVER_USER_DEL, CMD_SERVER_ATT_GET, CMD_SERVER_ATT_DEL} then Some 3
     else if cmd \<in> {CMD_SERVER_CONNECT, CMD_SERVER_LIST_RELOAD} then Some 1
     else if cmd = CMD_SERVER_TIMESYNC then Some 9
     else if cmd = CMD_SERVER_USER_CRC_GET then Some 5 else None)"

lemma sp_head_window:
  assumes "length (sp_station st) = 6" "length (sp_buf st) = 1024"
  shows "window 6 7 (sp_buf (sp_head c st)) = sp_station st @ [c]"
  using assms by (simp add: sp_head_def window_overwrite_inside fields)

lemma window_update: "p + n \<le> i \<Longrightarrow> window p n (xs[i := x]) = window p n xs"
  by (simp add: window_def drop_update_swap take_update_cancel)

text \<open>C12: A request whose checksum is wrong has no effect but an answer: the databases, the card table,
  the clock and every other variable stay as they are, and one negative answer with the address of the
  terminal and the command goes to the module.\<close>

theorem bad_checksum_is_inert:
  assumes "server_len (d ! 0) = Some n" "\<not> sp_crc_ok P n d" "length (sp_buf st) = 1024" "length (sp_station st) = 6"
  shows "\<exists>b t. data_process P E d l st = Some (st\<lparr>sp_buf := b, sp_tx := t\<rparr>)
    \<and> window 6 7 b = sp_station st @ [d ! 0] \<and> CMD_SERVER_NACK \<in> {b ! 13, b ! 14}
    \<and> tx_calls t = Suc (tx_calls (sp_tx st))"
proof -
  let ?st = "sp_head (d ! 0) st"
  obtain t where t: "sp_reply P E 0 CMD_SERVER_NACK ?st = ?st\<lparr>sp_buf := (sp_buf ?st)[13 := 0, 14 := CMD_SERVER_NACK], sp_tx := t\<rparr>"
    "tx_calls t = Suc (tx_calls (sp_tx st))"
    using sp_reply_upd [of P E 0 CMD_SERVER_NACK ?st] by auto
  obtain u where u: "sp_nack P E ?st = ?st\<lparr>sp_buf := (sp_buf ?st)[13 := CMD_SERVER_NACK], sp_tx := u\<rparr>"
    "tx_calls u = Suc (tx_calls (sp_tx st))"
    using sp_nack_upd [of P E ?st] by auto
  have r: "data_process P E d l st \<in> {Some (sp_reply P E 0 CMD_SERVER_NACK ?st), Some (sp_nack P E ?st)}"
    using assms(1,2) by (auto simp: server_len_def server_defs server_cmds Let_def split: if_splits)
  have h: "?st\<lparr>sp_buf := b, sp_tx := v\<rparr> = st\<lparr>sp_buf := b, sp_tx := v\<rparr>" for b v
    by (simp add: sp_head_def)
  note w = sp_head_window [OF assms(4,3), of "d ! 0"] and len = length_sp_head [OF assms(3), of "d ! 0"]
  from r show ?thesis
  proof (elim insertE emptyE)
    assume "data_process P E d l st = Some (sp_reply P E 0 CMD_SERVER_NACK ?st)"
    then show ?thesis using t w len unfolding t(1) h
      by (intro exI [of _ "(sp_buf ?st)[13 := 0, 14 := CMD_SERVER_NACK]"] exI [of _ t]) (simp add: window_update)
  next
    assume "data_process P E d l st = Some (sp_nack P E ?st)"
    then show ?thesis using u w len unfolding u(1) h
      by (intro exI [of _ "(sp_buf ?st)[13 := CMD_SERVER_NACK]"] exI [of _ u]) (simp add: window_update)
  qed
qed

definition demo_server :: "(string \<times> bytes) list \<Rightarrow> board srv" where
  "demo_server fs = \<lparr>sp_buf = replicate 1024 0, sp_user = zero_user, sp_header = \<lparr>total = 0, hcrc = 0\<rparr>,
     sp_atts = replicate 10 demo_att, sp_crcs = replicate 100 0, sp_station = [1, 2, 3, 4, 5, 6],
     sp_time = demo_time, sp_tbuf = replicate 8 0, sp_cards = replicate MAX_USER_NUM \<lparr>link_user = 0, link_card = 0\<rparr>,
     sp_tx = \<lparr>tx_calls = 0, tx_frames = []\<rparr>, sp_iic = demo_chip [], sp_fs = board_init fs\<rparr>"

definition demo_senv :: srv_env where
  "demo_senv = \<lparr>se_wifi = demo_env, se_header = \<lparr>total = 3, hcrc = 7\<rparr>\<rparr>"

text \<open>A request followed by its checksum.\<close>

definition sealed :: "'s plat \<Rightarrow> bytes \<Rightarrow> bytes" where
  "sealed P bs = bs @ le32 (block_crc_calc P bs)"

lemma sealed_ok: "length bs = n \<Longrightarrow> sp_crc_ok P n (sealed P bs @ xs)"
  using u32_of_window [of n "sealed P bs @ xs" "block_crc_calc P bs"]
  by (simp add: sp_crc_ok_def sealed_def fields)

lemma sealed_nth: "i < length bs \<Longrightarrow> (sealed P bs @ xs) ! i = bs ! i"
  by (simp add: sealed_def nth_append)

theorem bad_checksum_is_inert_witness:
  "\<exists>b t. data_process board_plat demo_senv ([3] @ replicate 1100 0) 1 (demo_server demo_fs)
      = Some ((demo_server demo_fs)\<lparr>sp_buf := b, sp_tx := t\<rparr>) \<and> CMD_SERVER_NACK \<in> {b ! 13, b ! 14}"
proof -
  have "server_len (([3 :: u8] @ replicate 1100 0) ! 0) = Some 1"
    by (simp add: server_len_def server_cmds)
  moreover have "\<not> sp_crc_ok board_plat 1 ([3 :: u8] @ replicate 1100 0)"
    by (simp add: sp_crc_ok_def u32_at_def nth_append block_crc_calc_def board_plat_def dfs_plat_def board_feed_def)
  moreover have "length (sp_buf (demo_server demo_fs)) = 1024" "length (sp_station (demo_server demo_fs)) = 6"
    by (simp_all add: demo_server_def)
  ultimately show ?thesis using bad_checksum_is_inert [of _ _ board_plat "demo_server demo_fs" demo_senv 1] by blast
qed

subsection \<open>Adding and removing users\<close>

lemma sp_num_u16: "i + 2 \<le> length d \<Longrightarrow> sp_num i d = u16_at i d"
  by (simp add: sp_num_def u16_at_def)

text \<open>C18: A well-formed request to add a user is carried out and answered: the answer of 15 bytes names the
  terminal and the command and says ACK, it is handed to \<open>wifi_send\<close> as a packet for the mesh, and from then on the user
  record that was sent is what the database holds for that number.\<close>

theorem server_adds_user:
  assumes "files_ok P content sess ready cap (sp_fs st)" "file_bytes (content (sp_fs st) member_bin) = c"
    "d ! 0 = CMD_SERVER_USER_ADD" "sp_crc_ok P (1 + USER_SIZE) d" "1 + USER_SIZE + 4 \<le> length d"
    "u = user_info_of (window 1 USER_SIZE d)" "user_id u \<noteq> 0" "user_ofs (unat (user_id u)) \<le> length c"
    "user_ofs (unat (user_id u)) + USER_SIZE \<le> cap" "user_id v = user_id u" "length (sp_buf st) = 1024"
    "length (sp_station st) = 6"
  shows "\<exists>st' s2. data_process P E d l st = Some st'
    \<and> take 15 (sp_buf st') = replicate 6 0 @ sp_station st @ [CMD_SERVER_USER_ADD, 0, CMD_SERVER_ACK]
    \<and> sp_tx st' = snd (wifi_send P (se_wifi E) CMD_SEND_MESH_DATA 15 (sp_buf st') (sp_tx st))
    \<and> files_ok P content sess ready cap (sp_fs st')
    \<and> add_del_get_one_user P v 2 (sp_fs st') = (0, u, s2)"
proof -
  note L = files_okD(1) [OF assms(1)] and I = files_okD(2) [OF assms(1)]
  let ?o = "user_ofs (unat (user_id u))"
  have wf: "user_wf u" using assms(5,6) by (simp add: user_wf_of USER_SIZE_def)
  obtain s1 where 1: "add_del_get_one_user P u 0 (sp_fs st) = (0, u, s1)" "posix_files.idle sess ready s1"
    "content s1 = (content (sp_fs st))(member_bin \<mapsto> overwrite ?o (user_info_bytes u) c)"
    using posix_files.put_user [OF L I assms(2) wf assms(7-9), of 0 u] by auto
  have fb: "file_bytes (content s1 member_bin) = overwrite ?o (user_info_bytes u) c"
    by (simp add: 1(3) file_bytes_def)
  have v0: "user_id v \<noteq> 0" using assms(7,10) by simp
  have fit: "user_ofs (unat (user_id v)) + USER_SIZE \<le> length (overwrite ?o (user_info_bytes u) c)"
    using assms(8,10) wf by (simp add: USER_SIZE_def)
  obtain s2 where 2: "add_del_get_one_user P v 2 s1
      = (0, slot_user (overwrite ?o (user_info_bytes u) c) (unat (user_id v)), s2)"
    using posix_files.get_user_full [OF L 1(2) fb v0 fit] .
  have "slot_user (overwrite ?o (user_info_bytes u) c) (unat (user_id v)) = u"
    using slot_overwrite [of "unat (user_id u)" "unat (user_id u)" c "user_info_bytes u"] assms(7,8,10) wf
    by (simp add: slot_user_def user_info_roundtrip USER_SIZE_def unat_gt_0)
  moreover have "data_process P E d l st = Some (sp_reply P E 0 CMD_SERVER_ACK ((sp_head (d ! 0) st)\<lparr>sp_fs := s1\<rparr>))"
    using assms(3,4,6) 1(1) by (simp add: data_process_def sp_user_add_def Let_def)
  moreover note sp_reply_sent [OF assms(12,11), of "(sp_head (d ! 0) st)\<lparr>sp_fs := s1\<rparr>" "d ! 0" P E 0 CMD_SERVER_ACK]
  ultimately show ?thesis using 2 files_okI [OF L 1(2)] assms(3) by simp
qed

definition demo_add :: bytes where
  "demo_add = sealed board_plat (1 # user_info_bytes demo_user) @ replicate 10 0"

theorem server_adds_user_witness:
  "\<exists>st' s2. data_process board_plat demo_senv demo_add 1059 (demo_server demo_fs) = Some st'
    \<and> take 15 (sp_buf st') = replicate 6 0 @ sp_station (demo_server demo_fs) @ [CMD_SERVER_USER_ADD, 0, CMD_SERVER_ACK]
    \<and> add_del_get_one_user board_plat (zero_user\<lparr>user_id := 1\<rparr>) 2 (sp_fs st') = (0, demo_user, s2)"
proof -
  have fs: "sp_fs (demo_server demo_fs) = board_init demo_fs" by (simp add: demo_server_def)
  have l: "length (1 # user_info_bytes demo_user) = 1 + USER_SIZE"
    by (simp add: demo_user_wf USER_SIZE_def)
  have d0: "demo_add ! 0 = CMD_SERVER_USER_ADD" by (simp add: demo_add_def sealed_def server_cmds)
  have k: "sp_crc_ok board_plat (1 + USER_SIZE) demo_add"
    unfolding demo_add_def by (rule sealed_ok [OF l])
  have len: "1 + USER_SIZE + 4 \<le> length demo_add"
    using l by (simp add: demo_add_def sealed_def)
  have "window 1 USER_SIZE demo_add = user_info_bytes demo_user"
    by (simp add: demo_add_def sealed_def fields demo_user_wf USER_SIZE_def)
  then have u: "demo_user = user_info_of (window 1 USER_SIZE demo_add)"
    by (simp add: user_info_roundtrip demo_user_wf)
  have b: "length (sp_buf (demo_server demo_fs)) = 1024"
    and n: "length (sp_station (demo_server demo_fs)) = 6" by (simp_all add: demo_server_def)
  note T = server_adds_user [of board_plat board_file dfs_sess board_ready disk_cap "demo_server demo_fs", unfolded fs,
      OF demo_ok, OF demo_bytes(1) d0 k len u demo_bounds(4,1,2) demo_request_id b n]
  show ?thesis using T by blast
qed

end
