(* ===== verification/ServerLog.thy ===== *)
theory ServerLog imports ServerProps begin

text \<open>The server commands that read the databases and set the clock, and a whole exchange: a packet of
  the server crosses the framed link and is carried out by the receiving thread.\<close>

subsection \<open>Attendance records\<close>

definition att_answer :: "bytes \<Rightarrow> att_info list \<Rightarrow> nat \<Rightarrow> bytes" where
  "att_answer station L k = station @ [CMD_SERVER_ATT_GET, CMD_SERVER_ACK] @ le32 (of_nat (length L))
     @ le16 (of_nat k) @ concat (map att_info_bytes (rev (take k L)))"

lemma length_att_answer:
  assumes "att_log P c L" "k \<le> length L" "length station = 6"
  shows "length (att_answer station L k) = 14 + ATT_SIZE * k"
proof -
  have "list_all (\<lambda>a. att_wf a \<and> att_seal P a = a) (rev (take k L))"
    using assms(1) by (auto simp: att_log_def list_all_iff dest: in_set_takeD)
  from length_concat_infos [OF this] show ?thesis using assms(2,3) by (simp add: att_answer_def)
qed

lemma server_records_answer:
  assumes "files_ok P content sess ready cap (sp_fs st)" "content (sp_fs st) save_io_bin = Some c" "att_log P c L"
    "d ! 0 = CMD_SERVER_ATT_GET" "sp_crc_ok P 3 d" "k = min (unat (ucast (sp_num 1 d) :: u8)) (length L)" "k \<le> 10"
    "length (sp_atts st) = 10" "length (sp_buf st) = 1024" "length (sp_station st) = 6"
  shows "\<exists>st'. data_process P E d l st = Some st' \<and> content (sp_fs st') = content (sp_fs st)
    \<and> files_ok P content sess ready cap (sp_fs st')
    \<and> window 6 (14 + ATT_SIZE * k) (sp_buf st') = att_answer (sp_station st) L k
    \<and> u32_at (20 + ATT_SIZE * k) (sp_buf st') = block_crc_calc P (att_answer (sp_station st) L k)
    \<and> sp_tx st' = snd (wifi_send P (se_wifi E) CMD_SEND_MESH_DATA (of_nat (24 + ATT_SIZE * k)) (sp_buf st') (sp_tx st))"
proof -
  note Lc = files_okD(1) [OF assms(1)] and I = files_okD(2) [OF assms(1)]
  let ?n = "ucast (sp_num 1 d) :: u8" and ?recs = "concat (map att_info_bytes (rev (take k L)))"
  have kL: "k \<le> length L" using assms(6) by simp
  note la = length_att_answer [OF assms(3) kL assms(10)]
  then have lr: "length ?recs = ATT_SIZE * k" using assms(10) by (simp add: att_answer_def)
  obtain s1 where 1: "record_header_get_set P (sp_header st) 0 (sp_fs st) = (0, log_header P (length L), s1)"
    "posix_files.idle sess ready s1" "content s1 = content (sp_fs st)"
    using posix_files.record_header_get_log [OF Lc I assms(2,3)] .
  have c1: "content s1 save_io_bin = Some c" using 1(3) assms(2) by simp
  have fit: "min (unat ?n) (length L) \<le> length (sp_atts st)" using assms(6-8) by simp
  obtain s2 where 2: "att_record_get P (se_header E) (sp_atts st) ?n s1
      = Some (0, overwrite 0 (rev (take (unat ?n) L)) (sp_atts st), Some (of_nat (min (unat ?n) (length L))), s2)"
    "posix_files.idle sess ready s2" "content s2 = content s1"
    using posix_files.att_record_get_log [OF Lc 1(2) c1 assms(3) fit] .
  have tk: "take (unat ?n) L = take k L" by (simp add: assms(6) min_def)
  have k: "unat (of_nat k :: u16) = k" using assms(7) by (intro unat_of_nat_u16) simp
  let ?arr = "overwrite 0 (rev (take k L)) (sp_atts st)"
  have ta: "take k ?arr = rev (take k L)" using kL by (simp add: overwrite_def)
  let ?b0 = "(sp_buf (sp_head (d ! 0) st))[13 := CMD_SERVER_ACK]"
  let ?b1 = "overwrite 14 (le32 (of_nat (length L)) @ le16 (of_nat k) @ ?recs) ?b0"
  let ?b2 = "overwrite (20 + ATT_SIZE * k) (le32 (block_crc_calc P (window 6 (14 + ATT_SIZE * k) ?b1))) ?b1"
  have k53: "ATT_SIZE * k \<le> 530" using assms(7) by (simp add: ATT_SIZE_def)
  have l0: "length ?b0 = 1024" using length_sp_head [OF assms(9)] by simp
  have l1: "length ?b1 = 1024" using l0 lr k53 by simp
  have w0: "window 6 8 ?b0 = sp_station st @ [CMD_SERVER_ATT_GET, CMD_SERVER_ACK]"
  proof -
    have "window 6 8 ?b0 = window 6 7 ?b0 @ window 13 1 ?b0" by (simp add: window_join)
    moreover have "window 6 7 ?b0 = sp_station st @ [d ! 0]"
      using sp_head_window [OF assms(10,9)] by (simp add: window_update)
    moreover have "window 13 1 ?b0 = [CMD_SERVER_ACK]"
      using l0 by (subst nth_window1 [symmetric]) simp_all
    ultimately show ?thesis using assms(4) by simp
  qed
  have w1: "window 6 (14 + ATT_SIZE * k) ?b1 = att_answer (sp_station st) L k"
  proof -
    have "window 6 (14 + ATT_SIZE * k) ?b1 = window 6 8 ?b1 @ window 14 (6 + ATT_SIZE * k) ?b1"
      by (simp add: window_join)
    moreover have "window 6 8 ?b1 = window 6 8 ?b0" using l0 by (intro window_overwrite_before) simp_all
    moreover have "window 14 (6 + ATT_SIZE * k) ?b1 = le32 (of_nat (length L)) @ le16 (of_nat k) @ ?recs"
      using l0 lr by simp
    ultimately show ?thesis using w0 by (simp add: att_answer_def)
  qed
  have w2: "window 6 (14 + ATT_SIZE * k) ?b2 = att_answer (sp_station st) L k"
    using l1 k53 w1 by (subst window_overwrite_before) simp_all
  have c2: "u32_at (20 + ATT_SIZE * k) ?b2 = block_crc_calc P (att_answer (sp_station st) L k)"
    using l1 k53 w1 by (intro u32_of_window) simp_all
  let ?st1 = "(sp_head (d ! 0) st)\<lparr>sp_header := log_header P (length L), sp_atts := ?arr, sp_fs := s2\<rparr>"
  note r = 2(1) [unfolded assms(6) [symmetric] tk]
  have dp: "data_process P E d l st = sp_att_get P E d st"
    using assms(4) by (simp add: data_process_def server_cmds)
  have len: "\<not> length (sp_buf (sp_head (d ! 0) st)) < 20 + k * ATT_SIZE + 4"
    using k53 length_sp_head [OF assms(9)] by (simp add: mult.commute)
  have "data_process P E d l st = Some (sp_send P E (24 + ATT_SIZE * k) (?st1\<lparr>sp_buf := ?b2\<rparr>))"
    unfolding dp using assms(5) 1(1) r len
    by (simp add: sp_att_get_def Let_def k ta log_header_simps mult.commute)
  then show ?thesis using 1(3) 2(2,3) files_okI [OF Lc 2(2)] w2 c2
    by (simp add: sp_send_def)
qed

lemma att_requests: "d ! 0 = CMD_SERVER_ATT_GET \<Longrightarrow> data_process P E d l st = sp_att_get P E d st"
  "d ! 0 = CMD_SERVER_USER_CRC_GET \<Longrightarrow> data_process P E d l st = sp_user_crc_get P E d st"
  "d ! 0 = CMD_SERVER_TIMESYNC \<Longrightarrow> data_process P E d l st = Some (sp_timesync P E d st)"
  by (simp_all add: data_process_def server_cmds)

text \<open>A request for more than ten records, when the log has more than ten, makes the terminal write
  behind the end of its record array: the protocol header allows eighteen.\<close>

lemma server_records_behind:
  assumes "files_ok P content sess ready cap (sp_fs st)" "content (sp_fs st) save_io_bin = Some c" "att_log P c L"
    "d ! 0 = CMD_SERVER_ATT_GET" "sp_crc_ok P 3 d" "10 < min (unat (ucast (sp_num 1 d) :: u8)) (length L)"
    "length (sp_atts st) = 10"
  shows "data_process P E d l st = None"
proof -
  note Lc = files_okD(1) [OF assms(1)] and I = files_okD(2) [OF assms(1)]
  obtain s1 where 1: "record_header_get_set P (sp_header st) 0 (sp_fs st) = (0, log_header P (length L), s1)"
    "posix_files.idle sess ready s1" "content s1 = content (sp_fs st)"
    using posix_files.record_header_get_log [OF Lc I assms(2,3)] .
  have c1: "content s1 save_io_bin = Some c" using 1(3) assms(2) by simp
  have "length (sp_atts st) < min (unat (ucast (sp_num 1 d) :: u8)) (length L)" using assms(6,7) by simp
  from posix_files.att_record_get_overflow [OF Lc 1(2) c1 assms(3) this]
  show ?thesis using 1(1) assms(5) by (simp add: att_requests(1) [OF assms(4)] sp_att_get_def Let_def)
qed

text \<open>C39: A request for attendance records is answered with the number of records in the log, the number of records
  sent, and the records themselves with a checksum over everything from the terminal's address on; the log is not
  changed. As the code counts, not as the comment of \<open>att_record_get\<close> says (from the last record on), the records sent are
  the oldest ones, in reverse order. This is so for up to ten records; a request for more, of which the header of the
  protocol allows eighteen, stores records behind the array of ten when the log has them (\<open>None\<close>).\<close>

theorem server_sends_records:
  assumes "files_ok P content sess ready cap (sp_fs st)" "content (sp_fs st) save_io_bin = Some c" "att_log P c L"
    "d ! 0 = CMD_SERVER_ATT_GET" "sp_crc_ok P 3 d" "k = min (unat (ucast (sp_num 1 d) :: u8)) (length L)"
    "length (sp_atts st) = 10" "length (sp_buf st) = 1024" "length (sp_station st) = 6"
  shows "if k \<le> 10 then \<exists>st'. data_process P E d l st = Some st' \<and> content (sp_fs st') = content (sp_fs st)
      \<and> files_ok P content sess ready cap (sp_fs st')
      \<and> window 6 (14 + ATT_SIZE * k) (sp_buf st') = att_answer (sp_station st) L k
      \<and> u32_at (20 + ATT_SIZE * k) (sp_buf st') = block_crc_calc P (att_answer (sp_station st) L k)
      \<and> sp_tx st' = snd (wifi_send P (se_wifi E) CMD_SEND_MESH_DATA (of_nat (24 + ATT_SIZE * k)) (sp_buf st') (sp_tx st))
    else data_process P E d l st = None"
proof (cases "k \<le> 10")
  case True
  then show ?thesis using server_records_answer [OF assms(1-6) _ assms(7-9)] by simp
next
  case False
  then have "10 < min (unat (ucast (sp_num 1 d) :: u8)) (length L)" unfolding assms(6) by linarith
  then show ?thesis using server_records_behind [OF assms(1-5) _ assms(7)] False by simp
qed


definition demo_get :: "u8 \<Rightarrow> bytes" where
  "demo_get n = sealed board_plat [5, n, 0] @ replicate 10 0"

lemma demo_get: "demo_get n ! 0 = CMD_SERVER_ATT_GET" "sp_crc_ok board_plat 3 (demo_get n)"
  "(ucast (sp_num 1 (demo_get n)) :: u8) = n"
proof -
  show "demo_get n ! 0 = CMD_SERVER_ATT_GET" by (simp add: demo_get_def sealed_def server_cmds)
  show "sp_crc_ok board_plat 3 (demo_get n)" unfolding demo_get_def by (rule sealed_ok) simp
  have "demo_get n ! 1 = n" "demo_get n ! (1 + 1) = 0"
    by (simp_all add: demo_get_def sealed_def)
  then have "sp_num 1 (demo_get n) = ucast n" unfolding sp_num_def by simp
  moreover have "(ucast (ucast n :: u16) :: u8) = n" by (rule bit_word_eqI) (auto simp: bit_simps)
  ultimately show "(ucast (sp_num 1 (demo_get n)) :: u8) = n" by simp
qed

lemma demo_server_simps: "sp_fs (demo_server fs) = board_init fs" "length (sp_atts (demo_server fs)) = 10"
  "length (sp_buf (demo_server fs)) = 1024" "length (sp_station (demo_server fs)) = 6" "length (sp_crcs (demo_server fs)) = 100"
  "sp_iic (demo_server fs) = demo_chip []" "sp_time (demo_server fs) = demo_time"
  by (simp_all add: demo_server_def)

theorem server_sends_records_witness:
  "(\<exists>st'. data_process board_plat demo_senv (demo_get 2) 3 (demo_server demo_att_fs) = Some st'
    \<and> window 6 (14 + ATT_SIZE * 2) (sp_buf st') = att_answer (sp_station (demo_server demo_att_fs)) demo_log 2)
    \<and> data_process board_plat demo_senv (demo_get 18) 3 (demo_server (demo_att_fsn 12)) = None"
proof -
  have k: "2 = min (unat (ucast (sp_num 1 (demo_get 2)) :: u8)) (length demo_log)"
    "12 = min (unat (ucast (sp_num 1 (demo_get 18)) :: u8)) (length (demo_logn 12))"
    unfolding demo_get(3) by (simp_all add: length_demo_log)
  have n: "(12 :: nat) \<le> 100" by simp
  note T = server_sends_records [of board_plat board_file dfs_sess board_ready disk_cap "demo_server demo_att_fs",
      unfolded demo_server_simps(1), OF demo_att_ok3, OF demo_att_content demo_att_log demo_get(1,2) k(1) demo_server_simps(2-4)]
  note U = server_sends_records [of board_plat board_file dfs_sess board_ready disk_cap "demo_server (demo_att_fsn 12)",
      unfolded demo_server_simps(1), OF demo_att_ok [OF n], OF demo_att_content demo_att_log demo_get(1,2) k(2) demo_server_simps(2-4)]
  show ?thesis using T [of demo_senv 3] U [of demo_senv 3] by auto
qed

subsection \<open>Checksums of users\<close>

text \<open>A request for the checksums of more than a hundred users, when there are that many, makes the
  terminal write behind the end of its checksum array: the protocol header allows two hundred.\<close>

theorem server_checksums_overflow:
  assumes "files_ok P content sess ready cap (sp_fs st)" "content (sp_fs st) member_bin = Some c" "db_ok c"
    "d ! 0 = CMD_SERVER_USER_CRC_GET" "sp_crc_ok P 5 d" "start = sp_num 1 d" "start \<noteq> 0" "start \<le> max_id c (slots c)"
    "100 < min (unat (sp_num 3 d)) (unat (max_id c (slots c)) + 1 - unat start)" "length (sp_crcs st) = 100"
  shows "data_process P E d l st = None"
proof -
  note Lc = files_okD(1) [OF assms(1)] and I = files_okD(2) [OF assms(1)]
  have db: "HEADER_SIZE \<le> length c" "slots c < 65536" using assms(3) by (simp_all add: db_ok_def)
  obtain s1 where 1: "user_num_get P (sp_fs st) = (Some (of_nat (used_slots c (slots c)), max_id c (slots c)), s1)"
    "posix_files.idle sess ready s1" "content s1 = content (sp_fs st)"
    using posix_files.user_num_get_ok [OF Lc I assms(2) db] .
  have c1: "content s1 member_bin = Some c" using 1(3) assms(2) by simp
  obtain s2 where 2: "user_crc_get P start (sp_num 3 d) s1 = (0, map (slot_crc c) [unat start..<unat start
              + min (unat (sp_num 3 d)) (unat (max_id c (slots c)) + 1 - unat start)], s2)"
    using posix_files.user_crc_get_ok [OF Lc 1(2) c1 assms(3,7,8)] .
  have "length (map (slot_crc c) [unat start..<unat start
      + min (unat (sp_num 3 d)) (unat (max_id c (slots c)) + 1 - unat start)]) > length (sp_crcs st)"
    using assms(9,10) by simp
  then show ?thesis
    using 1(1) 2 assms(5,6) by (simp add: att_requests(2) [OF assms(4)] sp_user_crc_get_def Let_def del: length_map length_upt)
qed

definition demo_many :: bytes where
  "demo_many = overwrite (user_ofs 101) (user_info_bytes (demo_user\<lparr>user_id := 101\<rparr>)) (replicate (user_ofs 101) 0)"

lemma empty_db: "slot_id (replicate n 0) i = 0 \<or> n < user_ofs i + 2"
  by (auto simp: slot_id_def u16_at_def window_def nth_append not_less)

lemma empty_db_ok: "8 \<le> n \<Longrightarrow> n < 60000000 \<Longrightarrow> db_ok (replicate n 0)"
proof -
  assume n: "8 \<le> n" "n < 60000000"
  have "slot_id (replicate n 0) i = 0" if "1 \<le> i" "i \<le> slots (replicate n 0)" for i
    using empty_db [of n i] ofs_slots [of i "replicate n (0 :: u8)"] that by (auto simp: USER_SIZE_def)
  then show ?thesis
    using n by (auto simp: db_ok_def list_all_iff slots_def user_sizes)
qed

lemma demo_many: "db_ok demo_many" "length demo_many = user_ofs 101 + USER_SIZE" "101 \<le> max_id demo_many (slots demo_many)"
proof -
  let ?u = "demo_user\<lparr>user_id := 101\<rparr>" and ?c = "replicate (user_ofs 101) (0 :: u8)"
  have wf: "user_wf ?u" using demo_user_wf by (simp add: user_wf_def)
  then have len: "length (user_info_bytes ?u) = USER_SIZE" by (simp add: USER_SIZE_def)
  have id: "u16_at 0 (window 0 2 (user_info_bytes ?u)) = 101"
    using id_of_bytes [OF len] user_info_roundtrip [OF wf] by simp
  have ok: "db_ok ?c" by (rule empty_db_ok) (simp_all add: user_ofs_def user_sizes)
  show "db_ok demo_many"
    unfolding demo_many_def by (rule db_ok_put [OF ok]) (use len user_info_roundtrip [OF wf] in simp_all)
  show "length demo_many = user_ofs 101 + USER_SIZE" by (simp add: demo_many_def len)
  have "slots demo_many = max (slots ?c) 101"
    unfolding demo_many_def by (rule slots_overwrite) (use len in \<open>simp_all add: user_ofs_def\<close>)
  then have "slot_id demo_many 101 \<le> max_id demo_many (slots demo_many)" by (intro max_id_ge) simp_all
  moreover have "slot_id demo_many 101 = 101"
    unfolding demo_many_def using len id by (subst slot_id_overwrite) simp_all
  ultimately show "101 \<le> max_id demo_many (slots demo_many)" by simp
qed

definition demo_crcs :: bytes where
  "demo_crcs = sealed board_plat [10, 1, 0, 120, 0] @ replicate 10 0"

theorem server_checksums_overflow_witness:
  "data_process board_plat demo_senv demo_crcs 5 (demo_server [(''member.bin'', demo_many)]) = None"
proof -
  have f: "files_ok board_plat board_file dfs_sess board_ready disk_cap (board_init [(''member.bin'', demo_many)])"
    by (rule board_ok) (simp_all add: demo_many(2) user_ofs_def user_sizes disk_cap_def)
  have m: "board_file (board_init [(''member.bin'', demo_many)]) member_bin = Some demo_many"
    using board_file_init [OF fpath_member] by (simp add: user_info_database_path_def)
  have d: "demo_crcs ! 0 = CMD_SERVER_USER_CRC_GET"
    by (simp_all add: demo_crcs_def sealed_def server_cmds)
  have k: "sp_crc_ok board_plat 5 demo_crcs" unfolding demo_crcs_def by (rule sealed_ok) simp
  have n: "sp_num 1 demo_crcs = 1" "sp_num 3 demo_crcs = 120"
    by (simp_all add: sp_num_def demo_crcs_def sealed_def)
  have ge: "101 \<le> unat (max_id demo_many (slots demo_many))"
    using demo_many(3) by (simp add: word_le_nat_alt)
  then have le: "1 \<le> max_id demo_many (slots demo_many)" by (simp add: word_le_nat_alt)
  have big: "100 < min (unat (sp_num 3 demo_crcs)) (unat (max_id demo_many (slots demo_many)) + 1 - unat (1 :: u16))"
    using ge n(2) by simp
  show ?thesis
    by (rule server_checksums_overflow [of board_plat board_file dfs_sess board_ready disk_cap
      "demo_server [(''member.bin'', demo_many)]", unfolded demo_server_simps(1), OF f, OF m demo_many(1) d(1) k
        n(1) [symmetric] _ le big demo_server_simps(5)]) simp
qed

subsection \<open>Setting the clock\<close>

text \<open>A well-formed time request sets the clock: the chip gets the registers that read back as the
  time of the request, followed by its mark; the databases are left alone and the answer is ACK.\<close>

theorem server_sets_clock:
  assumes "d ! 0 = CMD_SERVER_TIMESYNC" "sp_crc_ok P 9 d" "t = sp_time_of d (sp_time st)" "time_ok t"
    "bus_free (sp_iic st)" "\<not> iic_in (sp_iic st) (iic_cnt (sp_iic st))"
    "\<not> iic_in (sp_iic st) (iic_cnt (sp_iic st) + 10)" "length (sp_buf st) = 1024"
  shows "\<exists>st' a1 a2. data_process P E d l st = Some st' \<and> sp_time st' = t \<and> sp_fs st' = sp_fs st
    \<and> events (sp_iic st') = events (sp_iic st) @ wire_write (DS1307_Write # 0 # time_regs t) a1
        @ wire_write [DS1307_Write, RAM_Address55, test_data] a2
    \<and> time_of_regs (take 7 (time_regs t)) t = t \<and> sp_buf st' ! 13 = 0 \<and> sp_buf st' ! 14 = CMD_SERVER_ACK"
proof -
  from time_init_wire [OF assms(5-7), of t] obtain w a1 a2 where w: "DS1307_Time_Init t (sp_iic st) = (time_regs t, w)"
    "events w = events (sp_iic st) @ wire_write (DS1307_Write # 0 # time_regs t) a1
        @ wire_write [DS1307_Write, RAM_Address55, test_data] a2" by blast
  have "data_process P E d l st = Some (sp_reply P E 0 CMD_SERVER_ACK
      ((sp_head (d ! 0) st)\<lparr>sp_time := t, sp_tbuf := time_regs t, sp_iic := w\<rparr>))"
    using assms(2,3) w(1) by (simp add: att_requests(3) [OF assms(1)] sp_timesync_def Let_def)
  moreover have "time_of_regs (take 7 (time_regs t)) t = t"
    using time_regs_roundtrip [OF assms(4), of "[]" t] by simp
  ultimately show ?thesis using w(2) assms(8)
    by (intro exI [of _ "sp_reply P E 0 CMD_SERVER_ACK
      ((sp_head (d ! 0) st)\<lparr>sp_time := t, sp_tbuf := time_regs t, sp_iic := w\<rparr>)"] exI [of _ a1] exI [of _ a2]) simp
qed

definition demo_sync :: bytes where
  "demo_sync = sealed board_plat [4, 0xE1, 0x07, 4, 26, 12, 34, 56, 3] @ replicate 10 0"

theorem server_sets_clock_witness:
  "\<exists>st' a1 a2. data_process board_plat demo_senv demo_sync 9 (demo_server []) = Some st'
    \<and> sp_time st' = demo_time
    \<and> events (sp_iic st') = events (demo_chip []) @ wire_write (DS1307_Write # 0 # time_regs demo_time) a1
        @ wire_write [DS1307_Write, RAM_Address55, test_data] a2"
proof -
  have d: "demo_sync ! 0 = CMD_SERVER_TIMESYNC" by (simp add: demo_sync_def sealed_def server_cmds)
  have k: "sp_crc_ok board_plat 9 demo_sync" unfolding demo_sync_def by (rule sealed_ok) simp
  have t: "demo_time = sp_time_of demo_sync (sp_time (demo_server []))"
    by (simp add: demo_server_simps sp_time_of_def demo_time_def demo_sync_def sealed_def sp_num_def)
  have ok: "time_ok demo_time" by (simp add: time_ok_def demo_time_def)
  have f: "bus_free (demo_chip [])"
    by (simp add: bus_free_def bus_of_def demo_chip_def idle_bus_def)
  have a: "\<not> iic_in (demo_chip []) (iic_cnt (demo_chip []))" "\<not> iic_in (demo_chip []) (iic_cnt (demo_chip []) + 10)"
    by (simp_all add: demo_chip_def)
  show ?thesis
    using server_sets_clock [of demo_sync board_plat demo_time "demo_server []" demo_senv 9, OF d k t ok,
      unfolded demo_server_simps(6), OF f a demo_server_simps(3)] by blast
qed

subsection \<open>A whole exchange\<close>

lemma u16_at_drop: "p + q + 2 \<le> length bs \<Longrightarrow> u16_at q (drop p bs) = u16_at (p + q) bs"
  by (simp add: u16_at_def add.assoc)

text \<open>C8: A mesh packet with a request, sent with \<open>wifi_send\<close> by the module's side and received frame by frame,
  makes the receiving thread carry out exactly that request, followed in memory by whatever the buffer
  held, and leaves the link ready for the next packet.\<close>

theorem exchange_carries_out_request:
  assumes "body = hdr @ req" "length hdr = 16" "\<not> bit (hdr ! 0) 2" "u16_at 2 hdr = of_nat (length body)"
    "length body \<le> 5113" "length (we_stack M (tx_calls t)) = 32"
    "we_malloc M (tx_calls t) (length body + PAR_LENTH)"
    "(\<Sum>j\<leftarrow>[0..<spi_num (PAR_LENTH + length body)]. we_delay M (tx_calls t) j) < SPI_TIMEOUT"
    "length (recv_pack (link w)) = RECV_SIZE" "\<not> is_recv_pack (link w)"
  shows "\<exists>fs t' xs w'. wifi_send P M CMD_SEND_DATA_TO_MCU (of_nat (length body)) body t = (0, t')
    \<and> tx_frames t' = tx_frames t @ fs \<and> \<not> is_recv_pack (link w') \<and> length (recv_pack (link w')) = RECV_SIZE
    \<and> wifi_thread_run P E fs (w, st)
        = map_option (\<lambda>st'. (w', st')) (data_process P E (req @ xs) (of_nat (length req)) st)"
proof -
  let ?len = "of_nat (length body) :: u16"
  have l: "unat ?len = length body" using assms(5) by (intro unat_of_nat_u16) simp
  have h: "unat ?len \<le> length body" "unat ?len \<le> 5113" "we_malloc M (tx_calls t) (unat ?len + PAR_LENTH)"
    "(\<Sum>j\<leftarrow>[0..<spi_num (PAR_LENTH + unat ?len)]. we_delay M (tx_calls t) j) < SPI_TIMEOUT"
    using assms(5,7,8) unfolding l by simp_all
  obtain fs t' n l1 w1 where S: "wifi_send P M CMD_SEND_DATA_TO_MCU ?len body t = (0, t')"
    "tx_frames t' = tx_frames t @ fs" "spi_read_all fs (link w) = Some (replicate n (-1) @ [0], l1)"
    "wifi_verify P (w\<lparr>link := l1\<rparr>) = Some (True, w1)" "wp_cmd (wifi_pack_recv w1) = CMD_SEND_DATA_TO_MCU"
    "take (unat ?len) (wifi_data w1) = take (unat ?len) body" "link w1 = l1" "length (recv_pack l1) = RECV_SIZE"
    using wifi_send_then_verify [OF h(1,2) assms(6) h(3,4) assms(9,10), of P CMD_SEND_DATA_TO_MCU] by blast
  have tb: "take (length body) (wifi_data w1) = body" using S(6) unfolding l by simp
  have "wifi_data w1 = take (length body) (wifi_data w1) @ drop (length body) (wifi_data w1)" by simp
  then obtain xs where d: "wifi_data w1 = hdr @ req @ xs"
    unfolding tb by (simp only: assms(1) append_assoc)
  have m: "\<not> mesh_oe (wifi_data w1)" "mesh_user_data (wifi_data w1) = req @ xs"
    using assms(2,3) by (simp_all add: d mesh_oe_def mesh_user_data_def ESP_MESH_HEAD_SIZE_def nth_append)
  have "mesh_len (wifi_data w1) = u16_at 2 hdr"
    using assms(2) by (simp add: d mesh_len_def u16_at_def nth_append)
  then have ml: "mesh_len (wifi_data w1) - of_nat ESP_MESH_HEAD_SIZE = of_nat (length req)"
    using assms(1,2,4) by (simp add: ESP_MESH_HEAD_SIZE_def)
  have "wifi_thread_run P E fs (w, st) = wifi_packet_in P E (w\<lparr>link := l1\<rparr>) st"
    by (rule run_packet [OF S(3)])
  also have "\<dots> = map_option (\<lambda>st'. (wifi_ready w1, st')) (data_process P E (req @ xs) (of_nat (length req)) st)"
    using S(4,5) m ml by (simp add: wifi_packet_in_def Let_def split: option.split)
  finally show ?thesis using S(1,2,7,8)
    by (intro exI [of _ fs] exI [of _ t'] exI [of _ xs] exI [of _ "wifi_ready w1"]) (simp add: wifi_ready_def)
qed

definition demo_hdr :: bytes where
  "demo_hdr = [0, 0, 37, 0] @ replicate 12 9"

theorem exchange_carries_out_request_witness:
  "\<exists>fs t' xs w'. wifi_send board_plat demo_env CMD_SEND_DATA_TO_MCU 37 (demo_hdr @ replicate 21 3) \<lparr>tx_calls = 0, tx_frames = []\<rparr> = (0, t')
    \<and> tx_frames t' = [] @ fs
    \<and> wifi_thread_run board_plat demo_senv fs (demo_rx, demo_server [])
        = map_option (\<lambda>st'. (w', st')) (data_process board_plat demo_senv (replicate 21 3 @ xs) 21 (demo_server []))"
proof -
  let ?t = "\<lparr>tx_calls = 0, tx_frames = []\<rparr> :: wifi_tx" and ?b = "demo_hdr @ replicate 21 (3 :: u8)"
  have h: "length demo_hdr = 16" "\<not> bit (demo_hdr ! 0) 2" "u16_at 2 demo_hdr = of_nat (length ?b)"
    "length ?b \<le> 5113" "length (we_stack demo_env (tx_calls ?t)) = 32"
    "we_malloc demo_env (tx_calls ?t) (length ?b + PAR_LENTH)"
    "(\<Sum>j\<leftarrow>[0..<spi_num (PAR_LENTH + length ?b)]. we_delay demo_env (tx_calls ?t) j) < SPI_TIMEOUT"
    "length (recv_pack (link demo_rx)) = RECV_SIZE" "\<not> is_recv_pack (link demo_rx)"
    by (simp_all add: demo_hdr_def demo_env_def demo_rx_def PAR_LENTH_def SPI_TIMEOUT_def spi_num_def sum_list_triv u16_at_def)
  have n: "(of_nat (length ?b) :: u16) = 37" "(of_nat (length (replicate 21 (3 :: u8))) :: u16) = 21"
    by (simp_all add: demo_hdr_def)
  have f: "tx_frames ?t = []" by simp
  show ?thesis
    using exchange_carries_out_request [OF refl h, of board_plat demo_senv "demo_server []"] unfolding n f by blast
qed

end
