(* ===== verification/CheckProps.thy ===== *)
theory CheckProps imports CheckOk ServerLog begin

text \<open>The properties of the access check: when the door opens, that the rounds of a user refine an abstract
  gate, the time limit as an order of times, and what happens when both readers report at once.\<close>

subsection \<open>A terminal with one user\<close>


definition gate_user0 :: user_info where
  "gate_user0 = demo_user\<lparr>authority := (replicate 16 0)[15 := 64]\<rparr>"

definition gate_user :: user_info where
  "gate_user = gate_user0\<lparr>ucrc := user_crc board_plat gate_user0\<rparr>"

definition gate_db :: bytes where "gate_db = replicate 8 0 @ user_info_bytes gate_user"

abbreviation "gate_fs \<equiv> [(''member.bin'', gate_db), (''save_io.bin'', demo_att_file)]"

definition gate_config :: device_config where
  "gate_config = \<lparr>device_addr = 5, this_device_name = [], server_ip = [], server_port = 0, router_ssid = [],
     router_passwd = [], router_auth = 0, router_bssid = [], mesh_ssid = [], mesh_passwd = [], mesh_group_id = [], cfg_crc = 0\<rparr>"

definition gate_term :: "board terminal" where
  "gate_term = \<lparr>sp_buf = replicate 1024 0, sp_user = zero_user, sp_header = \<lparr>total = 0, hcrc = 0\<rparr>,
     sp_atts = replicate 10 demo_att, sp_crcs = replicate 100 0, sp_station = [1, 2, 3, 4, 5, 6],
     sp_time = demo_time, sp_tbuf = replicate 8 0, sp_cards = replicate MAX_USER_NUM \<lparr>link_user = 1, link_card = 0x1234\<rparr>,
     sp_tx = \<lparr>tx_calls = 0, tx_frames = []\<rparr>, sp_iic = demo_chip [], sp_fs = board_init gate_fs,
     g_read_card_id = 0x1234, g_device_config = gate_config, door_lines = []\<rparr>"

lemma gate_user_wf: "user_wf gate_user"
  using demo_user_wf by (simp add: gate_user_def gate_user0_def user_wf_def)

lemma gate_user_fields: "user_id gate_user = 1" "card_id gate_user = 0x1234" "effective gate_user = 1" "is_time_limit gate_user = 0"
  "authority gate_user ! 15 = 64" "ustate gate_user = replicate 16 0"
  by (simp_all add: gate_user_def gate_user0_def demo_user_def zero_user_def user_info_of_def USER_SIZE_def window_def u16_at_def)

lemma gate_user_crc: "user_crc board_plat gate_user = ucrc gate_user"
proof -
  have w: "user_wf gate_user0" using demo_user_wf by (simp add: gate_user0_def user_wf_def)
  then have "length (concat (finger gate_user0)) = 965"
    using length_concat_rows [of "finger gate_user0" 193] by (simp add: user_wf_def)
  then have "take 1038 (user_info_bytes gate_user) = take 1038 (user_info_bytes gate_user0)"
    using w by (simp add: gate_user_def user_info_bytes_def user_wf_def)
  then show ?thesis by (simp add: user_crc_def USER_SIZE_def) (simp add: gate_user_def user_crc_def USER_SIZE_def)
qed

lemma length_gate_db: "length gate_db = 1066"
  by (simp add: gate_db_def gate_user_wf USER_SIZE_def)

lemma gate_slot: "slot_user gate_db 1 = gate_user"
proof -
  have "slot gate_db 1 = user_info_bytes gate_user"
    by (simp add: slot_def user_ofs_def gate_db_def user_sizes window_def gate_user_wf)
  then show ?thesis by (simp add: slot_user_def user_info_roundtrip gate_user_wf del: One_nat_def)
qed

lemma gate_ok: "files_ok board_plat board_file dfs_sess board_ready disk_cap (sp_fs gate_term)"
  unfolding gate_term_def by simp (rule board_ok; simp add: length_gate_db length_demo_att_file att_sizes disk_cap_def)

lemma gate_files: "board_file (sp_fs gate_term) member_bin = Some gate_db"
  "board_file (sp_fs gate_term) save_io_bin = Some demo_att_file"
  using board_file_init [OF fpath_member, of gate_fs] board_file_init [OF fpath_save_io, of gate_fs]
  by (simp_all add: gate_term_def user_info_database_path_def gp_attendance_database_path_def)

lemma gate_known: "card_known board_plat gate_term gate_db gate_user"
proof -
  have "c_bsearch card_compar \<lparr>link_user = 0, link_card = 0x1234\<rparr> (replicate MAX_USER_NUM \<lparr>link_user = 1, link_card = 0x1234\<rparr>) 0 MAX_USER_NUM
    = Some 100"
    by (subst c_bsearch.simps) (simp add: MAX_USER_NUM_def card_compar_def)
  then show ?thesis unfolding card_known_def
    by (intro exI [of _ 100]) (simp add: gate_term_def MAX_USER_NUM_def gate_user_fields gate_user_crc
      gate_slot [unfolded One_nat_def] length_gate_db user_ofs_def user_sizes)
qed

lemma gate_may_use: "may_use gate_user gate_term" and gate_outside: "\<not> inside gate_user gate_term"
  and gate_station: "length (sp_station gate_term) = 6"
  by (simp_all add: may_use_def inside_def dev_bit_def gate_user_fields gate_term_def gate_config_def Let_def bit_iff_odd_drop_bit)

subsection \<open>The properties\<close>

text \<open>C1: The door opens only for a card whose record in the database has a right checksum and the card's
  number and whose user may pass: a super administrator, or an active user, within the time limit if
  there is one, with the right for this terminal, and on the side of the door the reader is on.  It
  opens at most once in a round, and the pulse always leaves it locked.\<close>

theorem door_opens_only_with_rights:
  assumes "user_check_round P E status ev st = Some st'"
  shows "door_lines st' = door_lines st
    \<or> door_lines st' = door_lines st @ door_pulse \<and> status = 0
      \<and> (ev AND USER_CHECK_CARD_IN \<noteq> 0 \<or> ev AND USER_CHECK_CARD_OUT \<noteq> 0)
      \<and> (\<exists>u. card_user P st u \<and> may_pass ev u st)"
proof (cases "status = 0 \<and> (ev AND USER_CHECK_CARD_IN \<noteq> 0 \<or> ev AND USER_CHECK_CARD_OUT \<noteq> 0)")
  case True
  obtain res st1 where c: "check_card P st = (res, st1)" by (cases "check_card P st") auto
  show ?thesis
  proof (cases res)
    case None
    then have n: "st1 = st\<lparr>sp_fs := sp_fs st1\<rparr>" using check_card_none [of P st st1] c by simp
    have "door_lines st1 = door_lines st" by (subst n) simp
    moreover have "st' = st1" using assms True c None by (auto simp: user_check_round_def)
    ultimately show ?thesis by simp
  next
    case (Some u)
    then have s: "check_rights P E ev u st1 = Some st'" "card_user P st u" "st1 = st\<lparr>sp_fs := sp_fs st1\<rparr>"
      using assms True c check_card_some [of P st u st1] by (auto simp: user_check_round_def)
    have "may_pass ev u st1 = may_pass ev u st" "door_lines st1 = door_lines st"
      by (subst s(3), simp add: may_pass_def)+
    then show ?thesis using check_rights_lines [OF s(1)] s(2) True by auto
  qed
next
  case False
  then show ?thesis
    using assms check_rights_lines [of P E ev zero_user st st'] zero_user_rights [of ev st]
    by (auto simp: user_check_round_def split: if_splits)
qed

theorem door_opens_only_with_rights_witness:
  "\<exists>st'. user_check_round board_plat demo_senv 0 USER_CHECK_CARD_OUT gate_term = Some st'
    \<and> door_lines st' = door_pulse \<and> may_pass USER_CHECK_CARD_OUT gate_user gate_term"
proof -
  have room: "ATT_HEADER + ATT_SIZE * Suc (length demo_log) \<le> disk_cap"
    by (simp add: length_demo_log att_sizes disk_cap_def)
  have ne: "inside gate_user gate_term \<noteq> True" using gate_outside by simp
  obtain st' where r: "user_check_round board_plat demo_senv 0 (check_event True) gate_term = Some st'"
    "door_lines st' = door_lines gate_term @ door_pulse"
    using round_passes [OF gate_ok gate_files(1) gate_known gate_may_use ne gate_files(2) demo_att_log gate_station room]
    by blast
  from door_opens_only_with_rights [OF r(1)] r(2) door_pulse_ne obtain u where
    "card_user board_plat gate_term u" "may_pass (check_event True) u gate_term" by auto
  moreover have "may_pass USER_CHECK_CARD_OUT gate_user gate_term"
    using gate_may_use gate_outside by (simp add: may_pass_def may_use_def inside_def Let_def)
  ultimately show ?thesis using r by (intro exI [of _ st']) (simp add: check_event_def, simp add: gate_term_def)
qed

text \<open>C2: Any sequence of card events of an ordinary user who may use the door acts as an abstract gate
  that lets him in only when he is outside and out only when he is inside: the door opens once for
  each passage of the gate, the attendance log gets one record for each in the same order, and neither
  another user nor another file changes.\<close>

theorem card_events_refine_gate:
  assumes "files_ok P content sess ready cap (sp_fs st)" "content (sp_fs st) member_bin = Some c" "card_known P st c u"
    "may_use u st" "content (sp_fs st) save_io_bin = Some d" "att_log P d L"
    "length (sp_station st) = 6" "ATT_HEADER + ATT_SIZE * (length L + length vs) \<le> cap"
  shows "\<exists>st' c' d'. check_rounds P E (map check_event vs) st = Some st'
    \<and> door_lines st' = door_lines st @ concat (map (\<lambda>v. door_pulse) (gate (inside u st) vs))
    \<and> content (sp_fs st') = (content (sp_fs st))(member_bin \<mapsto> c', save_io_bin \<mapsto> d')
    \<and> att_log P d' (L @ map (\<lambda>v. att_seal P (att_of st u (check_event v))) (gate (inside u st) vs))
    \<and> (\<forall>j. 0 < j \<longrightarrow> j \<noteq> unat (user_id u) \<longrightarrow> slot c' j = slot c j)"
  using gate_rounds [OF assms, of E] by blast

theorem card_events_refine_gate_witness:
  "\<exists>st'. check_rounds board_plat demo_senv (map check_event [True, True, False, True]) gate_term = Some st'
    \<and> door_lines st' = door_pulse @ door_pulse @ door_pulse"
proof -
  have room: "ATT_HEADER + ATT_SIZE * (length demo_log + length [True, True, False, True]) \<le> disk_cap"
    by (simp add: length_demo_log att_sizes disk_cap_def)
  have g: "gate (inside gate_user gate_term) [True, True, False, True] = [True, False, True]" using gate_outside by simp
  have "door_lines gate_term = []" by (simp add: gate_term_def)
  then show ?thesis
    using card_events_refine_gate [OF gate_ok gate_files(1) gate_known gate_may_use gate_files(2) demo_att_log gate_station room,
      of demo_senv] unfolding g by auto
qed

text \<open>The comparison of the two texts of a time is the order of the times themselves: a user with a
  limit is expired exactly from the second of his limit on.\<close>

theorem limit_is_time_order:
  assumes "time_ok t" "time_fields_ok u"
  shows "user_expired t u = Some (stamp (unat (year u)) (unat (month u)) (unat (day u)) (unat (hour u)) (unat (minutes u)) (unat (second u))
    \<le> stamp (unat (t_year t) + 2000) (unat (t_month t)) (unat (t_date t)) (unat (t_hour t)) (unat (t_minute t)) (unat (t_second t)))"
  by (rule expired_stamp [OF assms])

theorem limit_is_time_order_witness:
  "user_expired demo_time (zero_user\<lparr>year := 2015, month := 12, day := 31\<rparr>)
    = Some (stamp 2015 12 31 0 0 0 \<le> stamp (unat (t_year demo_time) + 2000) (unat (t_month demo_time)) (unat (t_date demo_time))
        (unat (t_hour demo_time)) (unat (t_minute demo_time)) (unat (t_second demo_time)))"
proof -
  have "time_ok demo_time" by (simp add: time_ok_def demo_time_def)
  moreover have "time_fields_ok (zero_user\<lparr>year := 2015, month := 12, day := 31\<rparr>)"
    by (simp add: time_fields_ok_def zero_user_def user_info_of_def USER_SIZE_def)
  ultimately show ?thesis
    by (subst limit_is_time_order) (simp_all add: zero_user_def user_info_of_def USER_SIZE_def)
qed

text \<open>When both readers have reported before the thread runs, their events arrive together and neither
  case of the switch matches: a user who may use the door gets a record of leaving in the attendance
  log, but the door stays shut and his state is not changed.\<close>

theorem both_readers_log_without_opening:
  assumes "files_ok P content sess ready cap (sp_fs st)" "content (sp_fs st) member_bin = Some c" "card_known P st c u"
    "may_use u st" "content (sp_fs st) save_io_bin = Some d" "att_log P d L"
    "length (sp_station st) = 6" "ATT_HEADER + ATT_SIZE * Suc (length L) \<le> cap"
  shows "\<exists>st' d'. user_check_round P E 0 (USER_CHECK_CARD_IN OR USER_CHECK_CARD_OUT) st = Some st'
    \<and> door_lines st' = door_lines st \<and> content (sp_fs st') = (content (sp_fs st))(save_io_bin \<mapsto> d')
    \<and> att_log P d' (L @ [att_seal P (att_of st u USER_CHECK_CARD_IN)])"
proof -
  let ?ev = "USER_CHECK_CARD_IN OR USER_CHECK_CARD_OUT"
  have ev: "?ev = 3" "att_of st u 3 = att_of st u USER_CHECK_CARD_IN" by (simp_all add: check_events att_of_def)
  obtain s1 where s: "check_card P st = (Some u, st\<lparr>sp_fs := s1\<rparr>)" "files_ok P content sess ready cap s1"
    "content s1 = content (sp_fs st)"
    using check_card_known [OF assms(1-3)] by blast
  note Lc = files_okD(1) [OF s(2)] and I = files_okD(2) [OF s(2)]
  have d: "content s1 save_io_bin = Some d" using s(3) assms(5) by simp
  have wf: "att_wf (att_of st u USER_CHECK_CARD_IN)" using att_of_wf card_known_wf [OF assms(3)] assms(7) by blast
  obtain s2 d' where a: "att_record_add P (se_header E) (att_of st u USER_CHECK_CARD_IN) s1
      = (0, att_seal P (att_of st u USER_CHECK_CARD_IN), s2)"
    "content s2 = (content s1)(save_io_bin \<mapsto> d')" "att_log P d' (L @ [att_seal P (att_of st u USER_CHECK_CARD_IN)])"
    using posix_files.att_record_add_log [OF Lc I d assms(6) wf assms(8)] by metis
  have at: "att_of (st\<lparr>sp_fs := s1\<rparr>) u 3 = att_of st u USER_CHECK_CARD_IN"
    by (simp add: ev(2) [symmetric]) (simp add: att_of_def)
  have r: "user_check_round P E 0 ?ev st = Some (st\<lparr>sp_fs := s2\<rparr>)"
    using assms(4) a(1) unfolding ev(1)
    by (auto simp: user_check_round_def s(1) check_rights_def pass_door_def may_use_def Let_def check_events
        add_one_att_record_def at)
  show ?thesis using r a(2,3) s(3) by (intro exI [of _ "st\<lparr>sp_fs := s2\<rparr>"] exI [of _ d']) simp
qed

theorem both_readers_log_without_opening_witness:
  "\<exists>st' d'. user_check_round board_plat demo_senv 0 (USER_CHECK_CARD_IN OR USER_CHECK_CARD_OUT) gate_term = Some st'
    \<and> door_lines st' = [] \<and> att_log board_plat d' (demo_log @ [att_seal board_plat (att_of gate_term gate_user USER_CHECK_CARD_IN)])"
proof -
  have room: "ATT_HEADER + ATT_SIZE * Suc (length demo_log) \<le> disk_cap"
    by (simp add: length_demo_log att_sizes disk_cap_def)
  have "door_lines gate_term = []" by (simp add: gate_term_def)
  then show ?thesis
    using both_readers_log_without_opening [OF gate_ok gate_files(1) gate_known gate_may_use gate_files(2) demo_att_log gate_station room,
      of demo_senv] by metis
qed

end
