(* ===== verification/Kernel.thy ===== *)
theory Kernel imports Prelude "HOL-Library.Monad_Syntax" begin

text \<open>The RT-Thread kernel under the application (src/src): threads, the ready table and the scheduler, and
  the timers.  A thread, a timer and an IPC object are numbers (their addresses).  The intrusive lists of
  the kernel are lists of threads: a thread has one list node, so removing it takes it out of whichever
  list it is in.  Operations return \<open>None\<close> where an assertion of the code fails or where it reads the
  ready table at an index that does not exist.\<close>

subsection \<open>The state\<close>

datatype thread_stat = Thread_init | Thread_ready | Thread_suspend | Thread_running | Thread_close

datatype ipc = Sem nat | Mtx nat | Evt nat | Mbx nat | Mqu nat | Mpl nat | Cpl nat | Dqu nat | Pip nat

text \<open>The lists a thread can be in: the ready list of a priority, the threads waiting on an object, the
  senders waiting on an object, and the threads that are to be removed.\<close>

datatype qid = Ready nat | Waiting ipc | Sending nat | Defunct

datatype timer_id = Thread_timer nat | Own_timer nat

record rt_timer =
  tm_init :: u32
  tm_timeout :: u32
  tm_active :: bool
  tm_periodic :: bool

record rt_thread =
  t_stat :: thread_stat
  current_priority :: u8
  init_priority :: u8
  number_mask :: u32
  t_error :: int
  event_set :: u32
  event_info :: u8
  init_tick :: u32
  remaining_tick :: u32
  t_static :: bool
  t_cleanup :: bool

record kernel =
  th :: "nat \<Rightarrow> rt_thread"
  links :: "qid \<Rightarrow> nat list"
  ready_group :: u32
  cur :: "nat option"
  cur_prio :: u8
  lock_nest :: "16 word"
  irq_nest :: u8
  k_tick :: u32
  tm :: "timer_id \<Rightarrow> rt_timer"
  timer_list :: "timer_id list"

definition RT_EOK :: int where "RT_EOK = 0"
definition RT_ERROR :: int where "RT_ERROR = 1"
definition RT_ETIMEOUT :: int where "RT_ETIMEOUT = 2"
definition RT_EFULL :: int where "RT_EFULL = 3"
definition RT_TICK_MAX :: u32 where "RT_TICK_MAX = 0xffffffff"
definition RT_THREAD_PRIORITY_MAX :: nat where "RT_THREAD_PRIORITY_MAX = 32"

lemmas rt_codes = RT_EOK_def RT_ERROR_def RT_ETIMEOUT_def RT_EFULL_def

definition set_th :: "nat \<Rightarrow> (rt_thread \<Rightarrow> rt_thread) \<Rightarrow> ('k kernel_scheme) \<Rightarrow> 'k kernel_scheme" where
  "set_th t f K = K\<lparr>th := (th K)(t := f (th K t))\<rparr>"

definition set_tm :: "timer_id \<Rightarrow> (rt_timer \<Rightarrow> rt_timer) \<Rightarrow> 'k kernel_scheme \<Rightarrow> 'k kernel_scheme" where
  "set_tm i f K = K\<lparr>tm := (tm K)(i := f (tm K i))\<rparr>"

subsection \<open>The list node of a thread\<close>

text \<open>\<open>rt_list_remove\<close>, \<open>rt_list_insert_before\<close> the head (at the end) and \<open>rt_list_insert_after\<close> it (in front).\<close>

definition unlink :: "nat \<Rightarrow> 'k kernel_scheme \<Rightarrow> 'k kernel_scheme" where
  "unlink t K = K\<lparr>links := \<lambda>q. removeAll t (links K q)\<rparr>"

definition link_last :: "qid \<Rightarrow> nat \<Rightarrow> 'k kernel_scheme \<Rightarrow> 'k kernel_scheme" where
  "link_last q t K = K\<lparr>links := (links K)(q := links K q @ [t])\<rparr>"

definition link_first :: "qid \<Rightarrow> nat \<Rightarrow> 'k kernel_scheme \<Rightarrow> 'k kernel_scheme" where
  "link_first q t K = K\<lparr>links := (links K)(q := t # links K q)\<rparr>"

subsection \<open>Finding the lowest bit\<close>

definition lowest_bit_bitmap :: "nat list" where
  "lowest_bit_bitmap =
    [0, 0, 1, 0, 2, 0, 1, 0, 3, 0, 1, 0, 2, 0, 1, 0,
     4, 0, 1, 0, 2, 0, 1, 0, 3, 0, 1, 0, 2, 0, 1, 0,
     5, 0, 1, 0, 2, 0, 1, 0, 3, 0, 1, 0, 2, 0, 1, 0,
     4, 0, 1, 0, 2, 0, 1, 0, 3, 0, 1, 0, 2, 0, 1, 0,
     6, 0, 1, 0, 2, 0, 1, 0, 3, 0, 1, 0, 2, 0, 1, 0,
     4, 0, 1, 0, 2, 0, 1, 0, 3, 0, 1, 0, 2, 0, 1, 0,
     5, 0, 1, 0, 2, 0, 1, 0, 3, 0, 1, 0, 2, 0, 1, 0,
     4, 0, 1, 0, 2, 0, 1, 0, 3, 0, 1, 0, 2, 0, 1, 0,
     7, 0, 1, 0, 2, 0, 1, 0, 3, 0, 1, 0, 2, 0, 1, 0,
     4, 0, 1, 0, 2, 0, 1, 0, 3, 0, 1, 0, 2, 0, 1, 0,
     5, 0, 1, 0, 2, 0, 1, 0, 3, 0, 1, 0, 2, 0, 1, 0,
     4, 0, 1, 0, 2, 0, 1, 0, 3, 0, 1, 0, 2, 0, 1, 0,
     6, 0, 1, 0, 2, 0, 1, 0, 3, 0, 1, 0, 2, 0, 1, 0,
     4, 0, 1, 0, 2, 0, 1, 0, 3, 0, 1, 0, 2, 0, 1, 0,
     5, 0, 1, 0, 2, 0, 1, 0, 3, 0, 1, 0, 2, 0, 1, 0,
     4, 0, 1, 0, 2, 0, 1, 0, 3, 0, 1, 0, 2, 0, 1, 0]"

definition rt_ffs :: "u32 \<Rightarrow> nat" where
  "rt_ffs v = (if v = 0 then 0
     else if v AND 0xff \<noteq> 0 then lowest_bit_bitmap ! unat (v AND 0xff) + 1
     else if v AND 0xff00 \<noteq> 0 then lowest_bit_bitmap ! unat (drop_bit 8 (v AND 0xff00)) + 9
     else if v AND 0xff0000 \<noteq> 0 then lowest_bit_bitmap ! unat (drop_bit 16 (v AND 0xff0000)) + 17
     else lowest_bit_bitmap ! unat (drop_bit 24 (v AND 0xff000000)) + 25)"

subsection \<open>Timers\<close>

text \<open>The skip list has one level in this configuration, so it is one sorted list; the counter that picks the
  height of an entry has no effect.\<close>

definition timer_remove :: "timer_id \<Rightarrow> 'k kernel_scheme \<Rightarrow> 'k kernel_scheme" where
  "timer_remove i K = K\<lparr>timer_list := removeAll i (timer_list K)\<rparr>"

fun timer_insert :: "(timer_id \<Rightarrow> rt_timer) \<Rightarrow> timer_id \<Rightarrow> timer_id list \<Rightarrow> timer_id list" where
  "timer_insert T i [] = [i]"
| "timer_insert T i (x # xs) = (let d = tm_timeout (T x) - tm_timeout (T i) in
     if d = 0 then x # timer_insert T i xs
     else if d < RT_TICK_MAX div 2 then i # x # xs
     else x # timer_insert T i xs)"

definition rt_timer_start :: "timer_id \<Rightarrow> 'k kernel_scheme \<Rightarrow> (int \<times> 'k kernel_scheme) option" where
  "rt_timer_start i K = (let K1 = set_tm i (\<lambda>m. m\<lparr>tm_active := False\<rparr>) (timer_remove i K) in
     if \<not> tm_init (tm K1 i) < RT_TICK_MAX div 2 then None
     else let K2 = set_tm i (\<lambda>m. m\<lparr>tm_timeout := k_tick K1 + tm_init m\<rparr>) K1;
              K3 = K2\<lparr>timer_list := timer_insert (tm K2) i (timer_list K2)\<rparr>
          in Some (- RT_EOK, set_tm i (\<lambda>m. m\<lparr>tm_active := True\<rparr>) K3))"

definition rt_timer_stop :: "timer_id \<Rightarrow> 'k kernel_scheme \<Rightarrow> int \<times> 'k kernel_scheme" where
  "rt_timer_stop i K = (if \<not> tm_active (tm K i) then (- RT_ERROR, K)
     else (RT_EOK, set_tm i (\<lambda>m. m\<lparr>tm_active := False\<rparr>) (timer_remove i K)))"

datatype timer_cmd = Set_time u32 | Get_time | Set_oneshot | Set_periodic

definition rt_timer_control :: "timer_id \<Rightarrow> timer_cmd \<Rightarrow> 'k kernel_scheme \<Rightarrow> u32 option \<times> 'k kernel_scheme" where
  "rt_timer_control i c K = (case c of
     Get_time \<Rightarrow> (Some (tm_init (tm K i)), K)
   | Set_time v \<Rightarrow> (None, set_tm i (\<lambda>m. m\<lparr>tm_init := v\<rparr>) K)
   | Set_oneshot \<Rightarrow> (None, set_tm i (\<lambda>m. m\<lparr>tm_periodic := False\<rparr>) K)
   | Set_periodic \<Rightarrow> (None, set_tm i (\<lambda>m. m\<lparr>tm_periodic := True\<rparr>) K))"

definition rt_timer_init :: "timer_id \<Rightarrow> u32 \<Rightarrow> bool \<Rightarrow> 'k kernel_scheme \<Rightarrow> 'k kernel_scheme" where
  "rt_timer_init i time periodic K =
     K\<lparr>tm := (tm K)(i := \<lparr>tm_init = time, tm_timeout = 0, tm_active = False, tm_periodic = periodic\<rparr>)\<rparr>"

definition rt_timer_detach :: "timer_id \<Rightarrow> 'k kernel_scheme \<Rightarrow> int \<times> 'k kernel_scheme" where
  "rt_timer_detach i K = (- RT_EOK, timer_remove i K)"

definition rt_timer_next_timeout_tick :: "'k kernel_scheme \<Rightarrow> u32" where
  "rt_timer_next_timeout_tick K = (case timer_list K of [] \<Rightarrow> RT_TICK_MAX | i # _ \<Rightarrow> tm_timeout (tm K i))"

subsection \<open>The scheduler\<close>

definition rt_schedule_insert_thread :: "nat \<Rightarrow> 'k kernel_scheme \<Rightarrow> 'k kernel_scheme" where
  "rt_schedule_insert_thread t K = (let K1 = set_th t (\<lambda>x. x\<lparr>t_stat := Thread_ready\<rparr>) K;
       K2 = link_last (Ready (unat (current_priority (th K1 t)))) t K1
     in K2\<lparr>ready_group := ready_group K2 OR number_mask (th K2 t)\<rparr>)"

definition rt_schedule_remove_thread :: "nat \<Rightarrow> 'k kernel_scheme \<Rightarrow> 'k kernel_scheme" where
  "rt_schedule_remove_thread t K = (let K1 = unlink t K in
     if links K1 (Ready (unat (current_priority (th K1 t)))) = []
     then K1\<lparr>ready_group := ready_group K1 AND NOT (number_mask (th K1 t))\<rparr> else K1)"

text \<open>The thread at the head of the first ready list that is not empty; the index is only right when a bit of
  the group is set.\<close>

definition rt_schedule :: "'k kernel_scheme \<Rightarrow> 'k kernel_scheme option" where
  "rt_schedule K = (if lock_nest K \<noteq> 0 then Some K
     else if ready_group K = 0 then None
     else (case links K (Ready (rt_ffs (ready_group K) - 1)) of
         [] \<Rightarrow> None
       | t # _ \<Rightarrow> Some (if cur K \<noteq> Some t
           then K\<lparr>cur_prio := of_nat (rt_ffs (ready_group K) - 1), cur := Some t\<rparr> else K)))"

definition rt_system_scheduler_init :: "'k kernel_scheme \<Rightarrow> 'k kernel_scheme" where
  "rt_system_scheduler_init K = K\<lparr>lock_nest := 0,
     links := (\<lambda>q. case q of Ready p \<Rightarrow> if p < RT_THREAD_PRIORITY_MAX then [] else links K q
       | Defunct \<Rightarrow> [] | _ \<Rightarrow> links K q),
     cur_prio := of_nat (RT_THREAD_PRIORITY_MAX - 1), cur := None, ready_group := 0\<rparr>"

definition rt_system_scheduler_start :: "'k kernel_scheme \<Rightarrow> 'k kernel_scheme option" where
  "rt_system_scheduler_start K = (if ready_group K = 0 then None
     else (case links K (Ready (rt_ffs (ready_group K) - 1)) of
         [] \<Rightarrow> None | t # _ \<Rightarrow> Some (K\<lparr>cur := Some t\<rparr>)))"

definition rt_enter_critical :: "'k kernel_scheme \<Rightarrow> 'k kernel_scheme" where
  "rt_enter_critical K = K\<lparr>lock_nest := lock_nest K + 1\<rparr>"

definition rt_exit_critical :: "'k kernel_scheme \<Rightarrow> 'k kernel_scheme option" where
  "rt_exit_critical K = (let K1 = K\<lparr>lock_nest := lock_nest K - 1\<rparr> in
     if sint (lock_nest K1) \<le> 0 then rt_schedule (K1\<lparr>lock_nest := 0\<rparr>) else Some K1)"

definition rt_critical_level :: "'k kernel_scheme \<Rightarrow> u16" where
  "rt_critical_level K = lock_nest K"

subsection \<open>Threads\<close>

definition rt_thread_suspend :: "nat \<Rightarrow> 'k kernel_scheme \<Rightarrow> int \<times> 'k kernel_scheme" where
  "rt_thread_suspend t K = (if t_stat (th K t) \<noteq> Thread_ready then (- RT_ERROR, K)
     else let K1 = rt_schedule_remove_thread t (set_th t (\<lambda>x. x\<lparr>t_stat := Thread_suspend\<rparr>) K)
       in (RT_EOK, snd (rt_timer_stop (Thread_timer t) K1)))"

definition rt_thread_resume :: "nat \<Rightarrow> 'k kernel_scheme \<Rightarrow> int \<times> 'k kernel_scheme" where
  "rt_thread_resume t K = (if t_stat (th K t) \<noteq> Thread_suspend then (- RT_ERROR, K)
     else let K1 = snd (rt_timer_stop (Thread_timer t) (unlink t K))
       in (RT_EOK, rt_schedule_insert_thread t K1))"

text \<open>The function of the timer of a thread.\<close>

definition rt_thread_timeout :: "nat \<Rightarrow> 'k kernel_scheme \<Rightarrow> 'k kernel_scheme option" where
  "rt_thread_timeout t K = (if t_stat (th K t) \<noteq> Thread_suspend then None
     else rt_schedule (rt_schedule_insert_thread t
       (unlink t (set_th t (\<lambda>x. x\<lparr>t_error := - RT_ETIMEOUT\<rparr>) K))))"

definition rt_thread_init :: "nat \<Rightarrow> u8 \<Rightarrow> u32 \<Rightarrow> bool \<Rightarrow> 'k kernel_scheme \<Rightarrow> 'k kernel_scheme option" where
  "rt_thread_init t priority time static K = (if \<not> unat priority < RT_THREAD_PRIORITY_MAX then None
     else Some (rt_timer_init (Thread_timer t) 0 False (set_th t (\<lambda>x. x\<lparr>init_priority := priority,
       current_priority := priority, init_tick := time, remaining_tick := time, t_error := RT_EOK,
       t_stat := Thread_init, t_cleanup := False, t_static := static\<rparr>) K)))"

text \<open>Creating a thread, with what the allocator does: an object, and a stack for it.\<close>

definition rt_thread_create :: "nat option \<Rightarrow> bool \<Rightarrow> u8 \<Rightarrow> u32 \<Rightarrow> 'k kernel_scheme \<Rightarrow> (nat option \<times> 'k kernel_scheme) option" where
  "rt_thread_create obj stack priority time K = (case obj of None \<Rightarrow> Some (None, K)
   | Some t \<Rightarrow> if \<not> stack then Some (None, K)
     else map_option (Pair (Some t)) (rt_thread_init t priority time False K))"

definition rt_thread_startup :: "nat \<Rightarrow> 'k kernel_scheme \<Rightarrow> (int \<times> 'k kernel_scheme) option" where
  "rt_thread_startup t K = (if t_stat (th K t) \<noteq> Thread_init then None
     else let K1 = set_th t (\<lambda>x. x\<lparr>current_priority := init_priority x,
           number_mask := push_bit (unat (init_priority x)) 1, t_stat := Thread_suspend\<rparr>) K;
         K2 = snd (rt_thread_resume t K1)
       in if cur K2 \<noteq> None then map_option (Pair RT_EOK) (rt_schedule K2) else Some (RT_EOK, K2))"

definition change_priority :: "nat \<Rightarrow> u8 \<Rightarrow> 'k kernel_scheme \<Rightarrow> 'k kernel_scheme" where
  "change_priority t p K = (let f = (\<lambda>x. x\<lparr>current_priority := p, number_mask := push_bit (unat p) 1\<rparr>) in
     if t_stat (th K t) = Thread_ready
     then rt_schedule_insert_thread t (set_th t f (rt_schedule_remove_thread t K))
     else set_th t f K)"

definition rt_thread_delete :: "nat \<Rightarrow> 'k kernel_scheme \<Rightarrow> int \<times> 'k kernel_scheme" where
  "rt_thread_delete t K = (let K1 = snd (rt_timer_detach (Thread_timer t) (rt_schedule_remove_thread t K))
     in (RT_EOK, link_first Defunct t (set_th t (\<lambda>x. x\<lparr>t_stat := Thread_close\<rparr>) K1)))"

definition rt_thread_detach :: "nat \<Rightarrow> 'k kernel_scheme \<Rightarrow> int \<times> 'k kernel_scheme" where
  "rt_thread_detach t K = (let
       K1 = snd (rt_timer_detach (Thread_timer t) (rt_schedule_remove_thread t K));
       K2 = set_th t (\<lambda>x. x\<lparr>t_stat := Thread_close\<rparr>) K1
     in (RT_EOK, if t_cleanup (th K2 t) then link_first Defunct t K2 else K2))"

datatype thread_cmd = Ctrl_startup | Ctrl_close | Change_priority u8 | Ctrl_other

definition rt_thread_control :: "nat \<Rightarrow> thread_cmd \<Rightarrow> 'k kernel_scheme \<Rightarrow> (int \<times> 'k kernel_scheme) option" where
  "rt_thread_control t c K = (case c of
     Change_priority p \<Rightarrow> Some (RT_EOK, change_priority t p K)
   | Ctrl_startup \<Rightarrow> rt_thread_startup t K
   | Ctrl_close \<Rightarrow> Some (rt_thread_delete t K)
   | Ctrl_other \<Rightarrow> Some (RT_EOK, K))"

text \<open>The end of the current thread.\<close>

definition rt_thread_exit :: "nat \<Rightarrow> 'k kernel_scheme \<Rightarrow> 'k kernel_scheme option" where
  "rt_thread_exit t K = (let
       K1 = set_th t (\<lambda>x. x\<lparr>t_stat := Thread_close\<rparr>) (rt_schedule_remove_thread t K);
       K2 = snd (rt_timer_detach (Thread_timer t) K1)
     in rt_schedule (if t_static (th K2 t) \<and> \<not> t_cleanup (th K2 t) then K2 else link_first Defunct t K2))"

text \<open>A thread alone in its list has the head on both sides.\<close>

definition rt_thread_yield :: "nat \<Rightarrow> 'k kernel_scheme \<Rightarrow> (int \<times> 'k kernel_scheme) option" where
  "rt_thread_yield t K = (if t_stat (th K t) = Thread_ready
       \<and> 2 \<le> length (links K (Ready (unat (current_priority (th K t)))))
     then map_option (Pair RT_EOK)
       (rt_schedule (link_last (Ready (unat (current_priority (th K t)))) t (unlink t K)))
     else Some (RT_EOK, K))"

text \<open>A call that may block either returns or leaves its thread waiting after a call of the scheduler; what
  is left of the call, and the local variables it needs, is its continuation, which runs when the thread
  is the current one again.  A driver's call that waits (\<open>C_driver\<close>) goes on in a function of the driver.\<close>

datatype cont = C_sleep | C_sem | C_mutex | C_event | C_mb_send nat u32 "32 word" u32 | C_mb_recv nat "32 word" u32
  | C_mq_recv nat nat "32 word" u32 | C_mp nat "32 word" u32 | C_driver

datatype 'a outcome = Done 'a | Blocked cont

definition block :: "cont \<Rightarrow> 'k kernel_scheme \<Rightarrow> ('a outcome \<times> 'k kernel_scheme) option" where
  "block c K = map_option (Pair (Blocked c)) (rt_schedule K)"

text \<open>Setting the timer of a thread to the time the caller is ready to wait, if that is positive.\<close>

definition start_thread_timer :: "nat \<Rightarrow> u32 \<Rightarrow> 'k kernel_scheme \<Rightarrow> 'k kernel_scheme option" where
  "start_thread_timer t v K = map_option snd (rt_timer_start (Thread_timer t)
     (snd (rt_timer_control (Thread_timer t) (Set_time v) K)))"

definition wait_timer :: "nat \<Rightarrow> 32 word \<Rightarrow> 'k kernel_scheme \<Rightarrow> 'k kernel_scheme option" where
  "wait_timer t time K = (if 0 < sint time then start_thread_timer t time K else Some K)"

definition rt_thread_sleep :: "u32 \<Rightarrow> 'k kernel_scheme \<Rightarrow> (int outcome \<times> 'k kernel_scheme) option" where
  "rt_thread_sleep v K = (case cur K of None \<Rightarrow> None
     | Some t \<Rightarrow> Option.bind (start_thread_timer t v (snd (rt_thread_suspend t K))) (block C_sleep))"

definition rt_thread_sleep_rest :: "nat \<Rightarrow> 'k kernel_scheme \<Rightarrow> int \<times> 'k kernel_scheme" where
  "rt_thread_sleep_rest t K = (RT_EOK,
     if t_error (th K t) = - RT_ETIMEOUT then set_th t (\<lambda>x. x\<lparr>t_error := RT_EOK\<rparr>) K else K)"

subsection \<open>The tick\<close>

text \<open>The functions of the other timers are an argument.  The loop takes the expired timers from the front of
  the list; it does not end when a periodic timer has period zero, which is the value \<open>None\<close>.\<close>

definition timeout_func :: "(nat \<Rightarrow> 'k kernel_scheme \<Rightarrow> 'k kernel_scheme option) \<Rightarrow> timer_id \<Rightarrow> 'k kernel_scheme
    \<Rightarrow> 'k kernel_scheme option" where
  "timeout_func f i K = (case i of Thread_timer t \<Rightarrow> rt_thread_timeout t K | Own_timer n \<Rightarrow> f n K)"

definition timer_fire :: "(nat \<Rightarrow> 'k kernel_scheme \<Rightarrow> 'k kernel_scheme option) \<Rightarrow> timer_id \<Rightarrow> 'k kernel_scheme
    \<Rightarrow> 'k kernel_scheme option" where
  "timer_fire f i K = (case timeout_func f i (timer_remove i K) of None \<Rightarrow> None
     | Some K1 \<Rightarrow> let K2 = set_tm i (\<lambda>m. m\<lparr>tm_active := False\<rparr>) K1 in
         if tm_periodic (tm K1 i) \<and> tm_active (tm K1 i)
         then map_option snd (rt_timer_start i K2) else Some K2)"

partial_function (option) rt_timer_check :: "(nat \<Rightarrow> 'k kernel_scheme \<Rightarrow> 'k kernel_scheme option) \<Rightarrow> 'k kernel_scheme
    \<Rightarrow> 'k kernel_scheme option" where
  "rt_timer_check f K = (case timer_list K of [] \<Rightarrow> Some K
     | i # _ \<Rightarrow> if k_tick K - tm_timeout (tm K i) < RT_TICK_MAX div 2
         then Option.bind (timer_fire f i K) (rt_timer_check f) else Some K)"

definition rt_tick_increase :: "(nat \<Rightarrow> 'k kernel_scheme \<Rightarrow> 'k kernel_scheme option) \<Rightarrow> 'k kernel_scheme
    \<Rightarrow> 'k kernel_scheme option" where
  "rt_tick_increase f K = (case cur K of None \<Rightarrow> None
     | Some t \<Rightarrow> let K1 = set_th t (\<lambda>x. x\<lparr>remaining_tick := remaining_tick x - 1\<rparr>) (K\<lparr>k_tick := k_tick K + 1\<rparr>) in
         Option.bind (if remaining_tick (th K1 t) = 0
           then map_option snd (rt_thread_yield t (set_th t (\<lambda>x. x\<lparr>remaining_tick := init_tick x\<rparr>) K1))
           else Some K1) (rt_timer_check f))"

definition rt_interrupt_enter :: "'k kernel_scheme \<Rightarrow> 'k kernel_scheme" where
  "rt_interrupt_enter K = K\<lparr>irq_nest := irq_nest K + 1\<rparr>"

definition rt_interrupt_leave :: "'k kernel_scheme \<Rightarrow> 'k kernel_scheme" where
  "rt_interrupt_leave K = K\<lparr>irq_nest := irq_nest K - 1\<rparr>"

definition rt_tick_from_millisecond :: "u32 \<Rightarrow> u32" where
  "rt_tick_from_millisecond ms = (1000 * ms + 999) div 1000"

end
