(* ===== verification/KernelFfs.thy ===== *)
theory KernelFfs imports Kernel begin

text \<open>The table-driven search for the lowest bit of a word finds it.\<close>

fun bitmap_from :: "int \<Rightarrow> nat list \<Rightarrow> bool" where
  "bitmap_from n [] = True"
| "bitmap_from n (x # xs) = (odd (n div 2 ^ x) \<and> n mod 2 ^ x = 0 \<and> x < 8 \<and> bitmap_from (n + 1) xs)"

lemma bitmap_table: "bitmap_from 1 (tl lowest_bit_bitmap)"
  by code_simp

lemma length_bitmap: "length lowest_bit_bitmap = 256"
  by (simp add: lowest_bit_bitmap_def)

lemma bitmap_from_nth: "bitmap_from m xs \<Longrightarrow> i < length xs \<Longrightarrow> odd ((m + int i) div 2 ^ (xs ! i)) \<and> (m + int i) mod 2 ^ (xs ! i) = 0 \<and> xs ! i < 8"
proof (induction m xs arbitrary: i rule: bitmap_from.induct)
  case (2 n x xs)
  then show ?case by (cases i) (auto simp: algebra_simps)
qed simp

lemma bitmap_lowest:
  assumes "0 < n" "n < 256"
  shows "bit n (lowest_bit_bitmap ! n)" "i < lowest_bit_bitmap ! n \<Longrightarrow> \<not> bit n i" "lowest_bit_bitmap ! n < 8"
proof -
  let ?b = "lowest_bit_bitmap ! n"
  have t: "tl lowest_bit_bitmap ! (n - 1) = ?b" using assms by (simp add: nth_tl length_bitmap)
  have *: "odd (int n div 2 ^ ?b)" "int n mod 2 ^ ?b = 0" "?b < 8"
    using bitmap_from_nth [OF bitmap_table, of "n - 1"] assms t by (simp_all add: length_bitmap of_nat_diff)
  have "bit (int n) ?b" using *(1) by (simp add: bit_iff_odd)
  then show "bit n ?b" by (simp add: bit_of_nat_iff_bit)
  show "?b < 8" by (rule *(3))
  assume i: "i < ?b"
  have "take_bit ?b (int n) = 0" using *(2) by (simp add: take_bit_eq_mod)
  then have "\<not> bit (int n) i" using i by (metis bit_0_eq bit_take_bit_iff bot_apply bot_bool_def)
  then show "\<not> bit n i" by (simp add: bit_of_nat_iff_bit)
qed

text \<open>One byte of the word.\<close>

lemma byte_lowest:
  fixes v :: u32
  assumes "b = unat (drop_bit k (v AND push_bit k 0xff))" "k + 8 \<le> 32"
  shows "bit b i = (i < 8 \<and> bit v (k + i))"
proof -
  have e: "(0xff :: u32) = mask 8" by (simp add: mask_eq_exp_minus_1)
  show ?thesis using assms(2) unfolding assms(1) e
    by (auto simp: bit_unsigned_iff bit_drop_bit_eq bit_and_iff bit_push_bit_iff bit_mask_iff)
qed

lemma byte_ffs:
  fixes v :: u32
  assumes "b = unat (drop_bit k (v AND push_bit k 0xff))" "k + 8 \<le> 32" "b \<noteq> 0" "\<forall>i < k. \<not> bit v i"
  shows "bit v (k + lowest_bit_bitmap ! b) \<and> (\<forall>i < k + lowest_bit_bitmap ! b. \<not> bit v i)"
proof -
  note i = byte_lowest [OF assms(1,2)]
  have "take_bit 8 b = b" by (intro bit_eqI) (auto simp: bit_take_bit_iff i)
  then have b: "b < 256" using take_bit_nat_less_exp [of 8 b] by simp
  note l = bitmap_lowest [OF _ b]
  have z: "0 < b" using assms(3) by simp
  have "bit v (k + lowest_bit_bitmap ! b)" using l(1) [OF z] i by simp
  moreover have "\<not> bit v j" if "j < k + lowest_bit_bitmap ! b" for j
  proof (cases "j < k")
    case False
    then have j: "j - k < lowest_bit_bitmap ! b" using that by simp
    then have "\<not> bit b (j - k)" using l(2) [OF z] by simp
    moreover have "j - k < 8" using j l(3) [OF z] by simp
    ultimately show ?thesis using i [of "j - k"] False by simp
  qed (use assms(4) in simp)
  ultimately show ?thesis by blast
qed

lemma byte_zero:
  fixes v :: u32
  assumes "v AND push_bit k 0xff = 0" "k + 8 \<le> 32" "\<forall>i < k. \<not> bit v i"
  shows "\<forall>i < k + 8. \<not> bit v i"
proof (intro allI impI)
  fix i assume i: "i < k + 8"
  have "(0 :: nat) = unat (drop_bit k (v AND push_bit k 0xff))" using assms(1) by simp
  from byte_lowest [OF this assms(2), of "i - k"] show "\<not> bit v i"
    using assms(3) i by (cases "i < k") auto
qed

lemma rt_ffs_least:
  assumes "v \<noteq> 0"
  shows "0 < rt_ffs v \<and> bit v (rt_ffs v - 1) \<and> (\<forall>i < rt_ffs v - 1. \<not> bit v i)"
proof -
  define F where "F k = lowest_bit_bitmap ! unat (drop_bit k (v AND push_bit k 0xff))" for k
  have r: "rt_ffs v = (if v AND push_bit 0 0xff \<noteq> 0 then Suc (0 + F 0) else if v AND push_bit 8 0xff \<noteq> 0 then Suc (8 + F 8)
     else if v AND push_bit 16 0xff \<noteq> 0 then Suc (16 + F 16) else Suc (24 + F 24))"
    using assms unfolding F_def by (simp add: rt_ffs_def push_bit_eq_mult)
  have nz: "unat (drop_bit k (v AND push_bit k 0xff)) \<noteq> 0" if "v AND push_bit k 0xff \<noteq> 0" for k
  proof
    assume "unat (drop_bit k (v AND push_bit k 0xff)) = 0"
    then have d: "drop_bit k (v AND push_bit k 0xff) = 0" unfolding unsigned_eq_0_iff .
    have "v AND push_bit k 0xff = 0"
    proof (rule bit_eqI)
      fix n assume "possible_bit TYPE(u32) n"
      have "\<not> bit (drop_bit k (v AND push_bit k 0xff)) (n - k)" unfolding d by simp
      then show "bit (v AND push_bit k 0xff) n = bit 0 n"
        by (cases "n < k") (auto simp: bit_drop_bit_eq bit_and_iff bit_push_bit_iff)
    qed
    with that show False by simp
  qed
  have f: "bit v (k + F k) \<and> (\<forall>i < k + F k. \<not> bit v i)" if "k + 8 \<le> 32" "v AND push_bit k 0xff \<noteq> 0" "\<forall>i < k. \<not> bit v i" for k
    unfolding F_def by (rule byte_ffs [OF refl that(1) nz [OF that(2)] that(3)])
  have s: "0 < n \<and> bit v (n - 1) \<and> (\<forall>i < n - 1. \<not> bit v i)" if "n = Suc m" "bit v m \<and> (\<forall>i < m. \<not> bit v i)" for n m
    using that by simp
  note z = byte_zero [where v = v]
  consider "v AND push_bit 0 0xff \<noteq> 0" | "v AND push_bit 0 0xff = 0" "v AND push_bit 8 0xff \<noteq> 0"
    | "v AND push_bit 0 0xff = 0" "v AND push_bit 8 0xff = 0" "v AND push_bit 16 0xff \<noteq> 0"
    | "v AND push_bit 0 0xff = 0" "v AND push_bit 8 0xff = 0" "v AND push_bit 16 0xff = 0" by blast
  then show ?thesis
  proof cases
    case 1
    then show ?thesis using 1 by (intro s [OF _ f [of 0]]) (simp_all add: r)
  next
    case 2
    then show ?thesis using 2 z [of 0] by (intro s [OF _ f [of 8]]) (simp_all add: r)
  next
    case 3
    have "\<forall>i < 8. \<not> bit v i" using z [of 0] 3 by simp
    then have l: "\<forall>i < 16. \<not> bit v i" using z [of 8] 3 by simp
    then show ?thesis using 3 l by (intro s [OF _ f [of 16]]) (simp_all add: r)
  next
    case 4
    have "\<forall>i < 8. \<not> bit v i" using z [of 0] 4 by simp
    then have "\<forall>i < 16. \<not> bit v i" using z [of 8] 4 by simp
    then have l: "\<forall>i < 24. \<not> bit v i" using z [of 16] 4 by simp
    have n: "v AND push_bit 24 0xff \<noteq> 0"
    proof
      assume "v AND push_bit 24 0xff = 0"
      then have "\<forall>i < 32. \<not> bit v i" using z [of 24] l by simp
      then have "v = 0" by (intro bit_eqI) (auto simp: possible_bit_def)
      with assms show False by simp
    qed
    then show ?thesis using 4 l n by (intro s [OF _ f [of 24]]) (simp_all add: r)
  qed
qed

end
