(* ===== verification/KernelOk.thy ===== *)
theory KernelOk imports KernelFfs begin

text \<open>The invariant of the kernel and that the operations on threads, timers and the scheduler keep it.\<close>

subsection \<open>The invariant\<close>

definition list_stat :: "qid \<Rightarrow> thread_stat" where
  "list_stat q = (case q of Ready p \<Rightarrow> Thread_ready | Defunct \<Rightarrow> Thread_close | _ \<Rightarrow> Thread_suspend)"

definition lists_ok :: "'k kernel_scheme \<Rightarrow> bool" where
  "lists_ok K = ((\<forall>q. distinct (links K q)) \<and> (\<forall>q r t. t \<in> set (links K q) \<longrightarrow> t \<in> set (links K r) \<longrightarrow> q = r)
     \<and> (\<forall>q t. t \<in> set (links K q) \<longrightarrow> t_stat (th K t) = list_stat q))"

definition ready_ok :: "'k kernel_scheme \<Rightarrow> bool" where
  "ready_ok K = ((\<forall>p t. t \<in> set (links K (Ready p)) \<longleftrightarrow> t_stat (th K t) = Thread_ready \<and> unat (current_priority (th K t)) = p)
     \<and> (\<forall>p. bit (ready_group K) p \<longleftrightarrow> links K (Ready p) \<noteq> []))"

definition prio_ok :: "rt_thread \<Rightarrow> bool" where
  "prio_ok x = (unat (current_priority x) < 32 \<and> number_mask x = push_bit (unat (current_priority x)) 1)"

definition prios_ok :: "'k kernel_scheme \<Rightarrow> bool" where
  "prios_ok K = (\<forall>t. t_stat (th K t) \<in> {Thread_ready, Thread_suspend} \<longrightarrow> prio_ok (th K t))"

definition timers_ok :: "'k kernel_scheme \<Rightarrow> bool" where
  "timers_ok K = (distinct (timer_list K) \<and> (\<forall>i \<in> set (timer_list K). tm_active (tm K i))
     \<and> (\<forall>t. Thread_timer t \<in> set (timer_list K) \<longrightarrow> t_stat (th K t) = Thread_suspend)
     \<and> (\<forall>i. tm_periodic (tm K i) \<longrightarrow> (\<forall>t. i \<noteq> Thread_timer t) \<and> tm_init (tm K i) \<noteq> 0
         \<and> tm_init (tm K i) < RT_TICK_MAX div 2))"

definition kernel_ok :: "'k kernel_scheme \<Rightarrow> bool" where
  "kernel_ok K = (lists_ok K \<and> ready_ok K \<and> prios_ok K \<and> timers_ok K)"

text \<open>A thread in no list.\<close>

definition free :: "nat \<Rightarrow> 'k kernel_scheme \<Rightarrow> bool" where
  "free t K = (\<forall>q. t \<notin> set (links K q))"

lemmas kernel_defs = set_th_def set_tm_def unlink_def link_last_def link_first_def

lemma mask_bit: "p < 32 \<Longrightarrow> bit (push_bit p 1 :: u32) i = (i = p)"
  unfolding bit_push_bit_iff bit_1_iff by auto

lemma group_bits: "links K (Ready p) = [] \<or> p < 32" if "ready_ok K"
proof (rule ccontr)
  assume "\<not> ?thesis"
  then have "bit (ready_group K) p" "\<not> p < 32" using that by (auto simp: ready_ok_def)
  then show False using bit_imp_le_length [of "ready_group K" p] by simp
qed

subsection \<open>Taking a thread out and putting it in\<close>

lemma removeAll_others: "t \<notin> set xs \<Longrightarrow> removeAll t xs = xs"
  by simp

lemma ready_not_waiting: "lists_ok K \<Longrightarrow> t_stat (th K t) = Thread_ready \<Longrightarrow> t \<in> set (links K q) \<Longrightarrow> \<exists>p. q = Ready p"
  by (cases q) (auto simp: lists_ok_def list_stat_def)

lemma unlink_free: "free t (unlink t K)"
  by (simp add: free_def unlink_def)

lemma lists_ok_remove:
  assumes "lists_ok K" "\<And>q. links K' q = removeAll t (links K q)" "\<And>x. x \<noteq> t \<Longrightarrow> t_stat (th K' x) = t_stat (th K x)"
  shows "lists_ok K'"
  unfolding lists_ok_def
proof (intro conjI allI impI)
  show "distinct (links K' q)" for q using assms(1) by (simp add: lists_ok_def assms(2) distinct_removeAll)
  show "q = r" if "x \<in> set (links K' q)" "x \<in> set (links K' r)" for q r x
    using that assms(1) unfolding lists_ok_def assms(2) by auto
  show "t_stat (th K' x) = list_stat q" if "x \<in> set (links K' q)" for q x
    using that assms(1) assms(3) [of x] unfolding lists_ok_def assms(2) by auto
qed

lemma unlink_ok:
  assumes "kernel_ok K" "t_stat (th K t) \<noteq> Thread_ready"
  shows "kernel_ok (unlink t K)"
proof -
  have n: "t \<notin> set (links K (Ready p))" for p using assms by (auto simp: kernel_ok_def ready_ok_def)
  have "lists_ok (unlink t K)" by (rule lists_ok_remove [of K _ t]) (use assms(1) in \<open>simp_all add: kernel_ok_def unlink_def\<close>)
  moreover have "ready_ok (unlink t K)" using assms(1) n by (simp add: kernel_ok_def ready_ok_def unlink_def)
  ultimately show ?thesis using assms(1) by (simp add: kernel_ok_def prios_ok_def timers_ok_def unlink_def)
qed

lemma remove_thread_ok:
  assumes "kernel_ok K" "t_stat (th K t) = Thread_ready" "s \<notin> {Thread_ready}"
  shows "kernel_ok (rt_schedule_remove_thread t (set_th t (\<lambda>x. x\<lparr>t_stat := s\<rparr>) K))"
    "free t (rt_schedule_remove_thread t (set_th t (\<lambda>x. x\<lparr>t_stat := s\<rparr>) K))"
proof -
  let ?p = "unat (current_priority (th K t))" and ?K = "rt_schedule_remove_thread t (set_th t (\<lambda>x. x\<lparr>t_stat := s\<rparr>) K)"
  have L: "lists_ok K" and R: "ready_ok K" and P: "prios_ok K" and T: "timers_ok K" using assms(1) by (simp_all add: kernel_ok_def)
  have pr: "prio_ok (th K t)" using P assms(2) by (simp add: prios_ok_def)
  have lk: "links ?K q = removeAll t (links K q)" for q
    by (simp add: rt_schedule_remove_thread_def Let_def kernel_defs)
  have th: "th ?K = (th K)(t := (th K t)\<lparr>t_stat := s\<rparr>)" "timer_list ?K = timer_list K" "tm ?K = tm K"
    by (simp_all add: rt_schedule_remove_thread_def Let_def kernel_defs)
  have rg: "ready_group ?K = (if removeAll t (links K (Ready ?p)) = [] then ready_group K AND NOT (push_bit ?p 1) else ready_group K)"
    using pr by (simp add: rt_schedule_remove_thread_def Let_def kernel_defs prio_ok_def)
  show "free t ?K" by (simp add: free_def lk)
  have in1: "t \<in> set (links K q) \<longleftrightarrow> q = Ready ?p" for q
    using ready_not_waiting [OF L assms(2), of q] R assms(2) by (auto simp: ready_ok_def)
  have "lists_ok ?K" by (rule lists_ok_remove [OF L, of _ t]) (simp_all add: lk th)
  moreover have "ready_ok ?K"
    unfolding ready_ok_def
  proof (intro conjI allI)
    show "(x \<in> set (links ?K (Ready p))) = (t_stat (th ?K x) = Thread_ready \<and> unat (current_priority (th ?K x)) = p)" for p x
      using R assms(3) by (auto simp: ready_ok_def lk th)
    show "bit (ready_group ?K) p = (links ?K (Ready p) \<noteq> [])" for p
    proof (cases "p = ?p")
      case True
      then show ?thesis using R pr unfolding rg lk
        by (auto simp: ready_ok_def bit_and_iff bit_not_iff mask_bit prio_ok_def in1 simp del: push_bit_of_1)
    next
      case False
      have "bit (ready_group ?K) p = bit (ready_group K) p"
        using False pr R bit_imp_le_length [of "ready_group K" p] unfolding rg
        by (auto simp: bit_and_iff bit_not_iff mask_bit prio_ok_def simp del: push_bit_of_1)
      moreover have "links ?K (Ready p) = links K (Ready p)"
        using False in1 [of "Ready p"] by (simp add: lk)
      ultimately show ?thesis using R by (simp add: ready_ok_def)
    qed
  qed
  moreover have "prios_ok ?K" using P pr by (auto simp: prios_ok_def th prio_ok_def)
  moreover have "timers_ok ?K" using T assms(2) by (auto simp: timers_ok_def th)
  ultimately show "kernel_ok ?K" by (simp add: kernel_ok_def)
qed

lemma insert_thread_ok:
  assumes "kernel_ok K" "free t K" "prio_ok (th K t)" "Thread_timer t \<notin> set (timer_list K)"
  shows "kernel_ok (rt_schedule_insert_thread t K)"
proof -
  let ?p = "unat (current_priority (th K t))" and ?K = "rt_schedule_insert_thread t K"
  have L: "lists_ok K" and R: "ready_ok K" and P: "prios_ok K" and T: "timers_ok K" using assms(1) by (simp_all add: kernel_ok_def)
  have lk: "links ?K q = (if q = Ready ?p then links K q @ [t] else links K q)" for q
    by (simp add: rt_schedule_insert_thread_def Let_def kernel_defs)
  have th: "th ?K = (th K)(t := (th K t)\<lparr>t_stat := Thread_ready\<rparr>)" "timer_list ?K = timer_list K" "tm ?K = tm K"
    "ready_group ?K = ready_group K OR push_bit ?p 1"
    using assms(3) by (simp_all add: rt_schedule_insert_thread_def Let_def kernel_defs prio_ok_def)
  have n: "t \<notin> set (links K q)" for q using assms(2) by (simp add: free_def)
  have "lists_ok ?K" unfolding lists_ok_def
  proof (intro conjI allI impI)
    show "distinct (links ?K q)" for q using L n by (simp add: lists_ok_def lk)
    show "q = r" if "x \<in> set (links ?K q)" "x \<in> set (links ?K r)" for q r x
      using that L n unfolding lists_ok_def lk by (auto split: if_splits)
    show "t_stat (th ?K x) = list_stat q" if "x \<in> set (links ?K q)" for q x
      using that L n unfolding lists_ok_def lk th by (auto simp: list_stat_def split: if_splits)
  qed
  moreover have "ready_ok ?K"
    unfolding ready_ok_def
  proof (intro conjI allI)
    show "(x \<in> set (links ?K (Ready p))) = (t_stat (th ?K x) = Thread_ready \<and> unat (current_priority (th ?K x)) = p)" for p x
      using R n [of "Ready p"] by (auto simp: ready_ok_def lk th)
    show "bit (ready_group ?K) p = (links ?K (Ready p) \<noteq> [])" for p
      using R assms(3) by (auto simp: ready_ok_def lk th bit_or_iff mask_bit prio_ok_def simp del: push_bit_of_1)
  qed
  moreover have "prios_ok ?K" using P assms(3) by (auto simp: prios_ok_def th prio_ok_def)
  moreover have "timers_ok ?K" using T assms(4) by (auto simp: timers_ok_def th)
  ultimately show "kernel_ok ?K" by (simp add: kernel_ok_def)
qed

text \<open>What the timers and the free list nodes do not see.\<close>

lemma kernel_ok_cong:
  assumes "kernel_ok K" "links K' = links K" "ready_group K' = ready_group K" "timer_list K' = timer_list K"
    "tm K' = tm K" "\<And>t. t_stat (th K' t) = t_stat (th K t)"
    "\<And>t. current_priority (th K' t) = current_priority (th K t)" "\<And>t. number_mask (th K' t) = number_mask (th K t)"
  shows "kernel_ok K'"
  using assms(1) by (simp add: kernel_ok_def lists_ok_def ready_ok_def prios_ok_def prio_ok_def timers_ok_def assms(2-8))

lemma timer_remove_ok: "kernel_ok K \<Longrightarrow> kernel_ok (timer_remove i K)"
  by (auto simp: kernel_ok_def lists_ok_def ready_ok_def prios_ok_def prio_ok_def timers_ok_def timer_remove_def distinct_removeAll)

lemma timer_stop_ok:
  assumes "kernel_ok K"
  shows "kernel_ok (snd (rt_timer_stop i K)) \<and> i \<notin> set (timer_list (snd (rt_timer_stop i K)))"
proof (cases "tm_active (tm K i)")
  case True
  then show ?thesis using assms
    by (auto simp: rt_timer_stop_def set_tm_def timer_remove_def kernel_ok_def lists_ok_def ready_ok_def prios_ok_def prio_ok_def
        timers_ok_def distinct_removeAll)
next
  case False
  then have "i \<notin> set (timer_list K)" using assms by (auto simp: kernel_ok_def timers_ok_def)
  then show ?thesis using assms False by (simp add: rt_timer_stop_def)
qed

lemma timer_stop_keeps [simp]:
  "links (snd (rt_timer_stop i K)) = links K" "th (snd (rt_timer_stop i K)) = th K" "cur (snd (rt_timer_stop i K)) = cur K"
  "lock_nest (snd (rt_timer_stop i K)) = lock_nest K" "ready_group (snd (rt_timer_stop i K)) = ready_group K"
  "k_tick (snd (rt_timer_stop i K)) = k_tick K" "irq_nest (snd (rt_timer_stop i K)) = irq_nest K"
  "free t (snd (rt_timer_stop i K)) = free t K"
  by (simp_all add: rt_timer_stop_def set_tm_def timer_remove_def free_def)

lemma suspend_ok:
  assumes "kernel_ok K" "t_stat (th K t) = Thread_ready"
  shows "fst (rt_thread_suspend t K) = RT_EOK" "kernel_ok (snd (rt_thread_suspend t K))" "free t (snd (rt_thread_suspend t K))"
    "th (snd (rt_thread_suspend t K)) = (th K)(t := (th K t)\<lparr>t_stat := Thread_suspend\<rparr>)"
    "links (snd (rt_thread_suspend t K)) q = removeAll t (links K q)"
    "cur (snd (rt_thread_suspend t K)) = cur K" "lock_nest (snd (rt_thread_suspend t K)) = lock_nest K"
proof -
  let ?K = "rt_schedule_remove_thread t (set_th t (\<lambda>x. x\<lparr>t_stat := Thread_suspend\<rparr>) K)"
  have s: "rt_thread_suspend t K = (RT_EOK, snd (rt_timer_stop (Thread_timer t) ?K))"
    using assms(2) by (simp add: rt_thread_suspend_def)
  note r = remove_thread_ok [OF assms, of Thread_suspend]
  show "fst (rt_thread_suspend t K) = RT_EOK" "kernel_ok (snd (rt_thread_suspend t K))" "free t (snd (rt_thread_suspend t K))"
    using r timer_stop_ok [of ?K] by (simp_all add: s)
qed (use assms(2) in \<open>simp_all add: rt_thread_suspend_def rt_schedule_remove_thread_def Let_def kernel_defs\<close>)

lemma resume_ok:
  assumes "kernel_ok K" "t_stat (th K t) = Thread_suspend"
  shows "fst (rt_thread_resume t K) = RT_EOK" "kernel_ok (snd (rt_thread_resume t K))"
    "th (snd (rt_thread_resume t K)) = (th K)(t := (th K t)\<lparr>t_stat := Thread_ready\<rparr>)"
    "links (snd (rt_thread_resume t K)) q = (if q = Ready (unat (current_priority (th K t))) then removeAll t (links K q) @ [t] else removeAll t (links K q))"
    "cur (snd (rt_thread_resume t K)) = cur K" "lock_nest (snd (rt_thread_resume t K)) = lock_nest K"
proof -
  let ?K = "snd (rt_timer_stop (Thread_timer t) (unlink t K))"
  have k: "kernel_ok ?K" "Thread_timer t \<notin> set (timer_list ?K)"
    using timer_stop_ok [OF unlink_ok, of K t "Thread_timer t"] assms by simp_all
  have p: "prio_ok (th ?K t)" using assms by (simp add: unlink_def kernel_ok_def prios_ok_def)
  show "kernel_ok (snd (rt_thread_resume t K))"
    using insert_thread_ok [OF k(1) _ p k(2)] assms(2) by (simp add: rt_thread_resume_def unlink_free)
qed (use assms(2) in \<open>simp_all add: rt_thread_resume_def rt_schedule_insert_thread_def Let_def kernel_defs\<close>)

lemma timer_insert_set: "set (timer_insert T i xs) = insert i (set xs)"
  by (induction xs) (auto simp: Let_def)

lemma timer_insert_distinct: "distinct xs \<Longrightarrow> i \<notin> set xs \<Longrightarrow> distinct (timer_insert T i xs)"
  by (induction xs) (auto simp: Let_def timer_insert_set)

lemma timer_start_ok:
  assumes "kernel_ok K" "\<And>t. i = Thread_timer t \<Longrightarrow> t_stat (th K t) = Thread_suspend" "tm_init (tm K i) < RT_TICK_MAX div 2"
  obtains K' where "rt_timer_start i K = Some (- RT_EOK, K')" "kernel_ok K'" "links K' = links K" "th K' = th K"
    "cur K' = cur K" "lock_nest K' = lock_nest K" "ready_group K' = ready_group K"
proof (rule that)
  let ?K = "snd (the (rt_timer_start i K))"
  show "rt_timer_start i K = Some (- RT_EOK, ?K)"
    using assms(3) by (simp add: rt_timer_start_def Let_def set_tm_def timer_remove_def)
  show "kernel_ok ?K"
    using assms by (auto simp: rt_timer_start_def Let_def set_tm_def timer_remove_def kernel_ok_def lists_ok_def ready_ok_def
        prios_ok_def prio_ok_def timers_ok_def timer_insert_set distinct_removeAll intro: timer_insert_distinct)
qed (use assms(3) in \<open>simp_all add: rt_timer_start_def Let_def set_tm_def timer_remove_def\<close>)

subsection \<open>The scheduler\<close>

text \<open>The best priority with a ready thread.\<close>

definition top_prio :: "'k kernel_scheme \<Rightarrow> nat \<Rightarrow> bool" where
  "top_prio K p = (links K (Ready p) \<noteq> [] \<and> (\<forall>q < p. links K (Ready q) = []))"

lemma group_top:
  assumes "ready_ok K" "t_stat (th K t) = Thread_ready"
  shows "ready_group K \<noteq> 0" "top_prio K (rt_ffs (ready_group K) - 1)"
proof -
  have "bit (ready_group K) (unat (current_priority (th K t)))"
    using assms by (metis empty_iff list.set(1) ready_ok_def)
  then show n: "ready_group K \<noteq> 0" by auto
  show "top_prio K (rt_ffs (ready_group K) - 1)"
    using rt_ffs_least [OF n] assms(1) unfolding top_prio_def ready_ok_def by metis
qed

lemma schedule_top:
  assumes "ready_ok K" "t_stat (th K t) = Thread_ready" "lock_nest K = 0"
  obtains p x xs where "rt_schedule K = Some (K\<lparr>cur_prio := (if cur K \<noteq> Some x then of_nat p else cur_prio K), cur := Some x\<rparr>)"
    "links K (Ready p) = x # xs" "top_prio K p"
proof -
  let ?p = "rt_ffs (ready_group K) - 1"
  note g = group_top [OF assms(1,2)]
  then obtain x xs where x: "links K (Ready ?p) = x # xs" unfolding top_prio_def by (cases "links K (Ready ?p)") auto
  show ?thesis by (rule that [OF _ x g(2)]) (use x g(1) assms(3) in \<open>auto simp: rt_schedule_def\<close>)
qed

end
