(* ===== verification/Ipc.thy ===== *)
theory Ipc imports Kernel begin

text \<open>The IPC objects of the kernel (src/src/ipc.c): semaphores, mutexes with priority inheritance, event
  sets, mailboxes and message queues.  Every call is a function of the whole state; a call that blocks
  is split where the code calls the scheduler, its second half is the function of the same name that ends in
  \<open>rest\<close>.  Assertions and null pointers of the code are \<open>None\<close>.\<close>

subsection \<open>The objects\<close>

record rt_sem =
  sem_value :: u16
  sem_flag :: u8

record rt_mutex =
  mtx_value :: u16
  original_priority :: u8
  hold :: u8
  owner :: "nat option"
  mtx_flag :: u8

record rt_event =
  evt_set :: u32
  evt_flag :: u8

record rt_mailbox =
  msg_pool :: "u32 list"
  mb_size :: u16
  mb_entry :: u16
  in_offset :: u16
  out_offset :: u16
  mb_flag :: u8

text \<open>A message queue: the slots of its pool with their next pointers, and the heads of the two lists.\<close>

record rt_mq =
  slot_next :: "nat \<Rightarrow> nat option"
  slot_data :: "nat \<Rightarrow> bytes"
  msg_size :: u16
  max_msgs :: u16
  mq_entry :: u16
  queue_head :: "nat option"
  queue_tail :: "nat option"
  queue_free :: "nat option"
  mq_flag :: u8

record os = kernel +
  sems :: "nat \<Rightarrow> rt_sem"
  mtxs :: "nat \<Rightarrow> rt_mutex"
  evts :: "nat \<Rightarrow> rt_event"
  mbxs :: "nat \<Rightarrow> rt_mailbox"
  mqs :: "nat \<Rightarrow> rt_mq"

definition RT_IPC_FLAG_FIFO :: u8 where "RT_IPC_FLAG_FIFO = 0"
definition RT_IPC_FLAG_PRIO :: u8 where "RT_IPC_FLAG_PRIO = 1"
definition RT_IPC_CMD_RESET :: u8 where "RT_IPC_CMD_RESET = 1"
definition RT_EVENT_FLAG_AND :: u8 where "RT_EVENT_FLAG_AND = 1"
definition RT_EVENT_FLAG_OR :: u8 where "RT_EVENT_FLAG_OR = 2"
definition RT_EVENT_FLAG_CLEAR :: u8 where "RT_EVENT_FLAG_CLEAR = 4"

lemmas ipc_flags = RT_IPC_FLAG_FIFO_def RT_IPC_FLAG_PRIO_def RT_IPC_CMD_RESET_def
  RT_EVENT_FLAG_AND_def RT_EVENT_FLAG_OR_def RT_EVENT_FLAG_CLEAR_def

definition in_thread :: "'k kernel_scheme \<Rightarrow> bool" where
  "in_thread K = (cur K \<noteq> None \<and> irq_nest K = 0)"

subsection \<open>Lists of waiting threads\<close>

fun insert_prio :: "(nat \<Rightarrow> u8) \<Rightarrow> nat \<Rightarrow> nat list \<Rightarrow> nat list" where
  "insert_prio f t [] = [t]"
| "insert_prio f t (x # xs) = (if f t < f x then t # x # xs else x # insert_prio f t xs)"

definition rt_ipc_list_suspend :: "qid \<Rightarrow> nat \<Rightarrow> u8 \<Rightarrow> 'k kernel_scheme \<Rightarrow> 'k kernel_scheme" where
  "rt_ipc_list_suspend q t flag K = (let K1 = snd (rt_thread_suspend t K) in
     if flag = RT_IPC_FLAG_FIFO then link_last q t K1
     else if flag = RT_IPC_FLAG_PRIO
       then K1\<lparr>links := (links K1)(q := insert_prio (\<lambda>x. current_priority (th K1 x)) t (links K1 q))\<rparr>
     else K1)"

definition rt_ipc_list_resume :: "qid \<Rightarrow> 'k kernel_scheme \<Rightarrow> 'k kernel_scheme" where
  "rt_ipc_list_resume q K = snd (rt_thread_resume (hd (links K q)) K)"

partial_function (option) rt_ipc_list_resume_all :: "qid \<Rightarrow> 'k kernel_scheme \<Rightarrow> 'k kernel_scheme option" where
  "rt_ipc_list_resume_all q K = (case links K q of [] \<Rightarrow> Some K
     | t # _ \<Rightarrow> rt_ipc_list_resume_all q (snd (rt_thread_resume t (set_th t (\<lambda>x. x\<lparr>t_error := - RT_ERROR\<rparr>) K))))"

definition return :: "'a \<Rightarrow> 'k kernel_scheme \<Rightarrow> ('a outcome \<times> 'k kernel_scheme) option" where
  "return a K = Some (Done a, K)"

text \<open>Returning after a call of the scheduler.\<close>

definition return_schedule :: "'a \<Rightarrow> 'k kernel_scheme \<Rightarrow> ('a \<times> 'k kernel_scheme) option" where
  "return_schedule a K = map_option (Pair a) (rt_schedule K)"

subsection \<open>Semaphores\<close>

definition rt_sem_init :: "nat \<Rightarrow> u32 \<Rightarrow> u8 \<Rightarrow> os \<Rightarrow> int \<times> os" where
  "rt_sem_init s value flag K = (RT_EOK, K\<lparr>links := (links K)(Waiting (Sem s) := []),
     sems := (sems K)(s := \<lparr>sem_value = ucast value, sem_flag = flag\<rparr>)\<rparr>)"

definition rt_sem_create :: "nat option \<Rightarrow> u32 \<Rightarrow> u8 \<Rightarrow> os \<Rightarrow> nat option \<times> os" where
  "rt_sem_create obj value flag K = (case obj of None \<Rightarrow> (None, K)
     | Some s \<Rightarrow> (Some s, snd (rt_sem_init s value flag K)))"

definition rt_sem_detach :: "nat \<Rightarrow> os \<Rightarrow> (int \<times> os) option" where
  "rt_sem_detach s K = map_option (Pair RT_EOK) (rt_ipc_list_resume_all (Waiting (Sem s)) K)"

definition rt_sem_delete :: "nat \<Rightarrow> os \<Rightarrow> (int \<times> os) option" where
  "rt_sem_delete s K = (if irq_nest K \<noteq> 0 then None
     else map_option (Pair RT_EOK) (rt_ipc_list_resume_all (Waiting (Sem s)) K))"

definition rt_sem_take :: "nat \<Rightarrow> 32 word \<Rightarrow> os \<Rightarrow> (int outcome \<times> os) option" where
  "rt_sem_take s time K = (let S = sems K s in
     if sem_value S > 0 then return RT_EOK (K\<lparr>sems := (sems K)(s := S\<lparr>sem_value := sem_value S - 1\<rparr>)\<rparr>)
     else if time = 0 then return (- RT_ETIMEOUT) K
     else if \<not> in_thread K then None
     else let t = the (cur K);
              K1 = set_th t (\<lambda>x. x\<lparr>t_error := RT_EOK\<rparr>) K;
              K2 = rt_ipc_list_suspend (Waiting (Sem s)) t (sem_flag S) K1
          in Option.bind (wait_timer t time K2) (block C_sem))"

definition rt_sem_take_rest :: "nat \<Rightarrow> os \<Rightarrow> int \<times> os" where
  "rt_sem_take_rest t K = (if t_error (th K t) \<noteq> RT_EOK then (t_error (th K t), K) else (RT_EOK, K))"

definition rt_sem_trytake :: "nat \<Rightarrow> os \<Rightarrow> (int outcome \<times> os) option" where
  "rt_sem_trytake s K = rt_sem_take s 0 K"

definition rt_sem_release :: "nat \<Rightarrow> os \<Rightarrow> (int \<times> os) option" where
  "rt_sem_release s K = (if links K (Waiting (Sem s)) \<noteq> []
     then return_schedule RT_EOK (rt_ipc_list_resume (Waiting (Sem s)) K)
     else Some (RT_EOK, K\<lparr>sems := (sems K)(s := (sems K s)\<lparr>sem_value := sem_value (sems K s) + 1\<rparr>)\<rparr>))"

definition rt_sem_control :: "nat \<Rightarrow> u8 \<Rightarrow> u32 \<Rightarrow> os \<Rightarrow> (int \<times> os) option" where
  "rt_sem_control s cmd arg K = (if cmd = RT_IPC_CMD_RESET
     then Option.bind (rt_ipc_list_resume_all (Waiting (Sem s)) K)
       (\<lambda>K1. return_schedule RT_EOK (K1\<lparr>sems := (sems K1)(s := (sems K1 s)\<lparr>sem_value := ucast arg\<rparr>)\<rparr>))
     else Some (- RT_ERROR, K))"

subsection \<open>Mutexes\<close>

definition rt_mutex_init :: "nat \<Rightarrow> u8 \<Rightarrow> os \<Rightarrow> int \<times> os" where
  "rt_mutex_init m flag K = (RT_EOK, K\<lparr>links := (links K)(Waiting (Mtx m) := []),
     mtxs := (mtxs K)(m := \<lparr>mtx_value = 1, original_priority = 0xff, hold = 0, owner = None, mtx_flag = flag\<rparr>)\<rparr>)"

definition rt_mutex_create :: "nat option \<Rightarrow> u8 \<Rightarrow> os \<Rightarrow> nat option \<times> os" where
  "rt_mutex_create obj flag K = (case obj of None \<Rightarrow> (None, K)
     | Some m \<Rightarrow> (Some m, snd (rt_mutex_init m flag K)))"

definition rt_mutex_detach :: "nat \<Rightarrow> os \<Rightarrow> (int \<times> os) option" where
  "rt_mutex_detach m K = map_option (Pair RT_EOK) (rt_ipc_list_resume_all (Waiting (Mtx m)) K)"

definition rt_mutex_delete :: "nat \<Rightarrow> os \<Rightarrow> (int \<times> os) option" where
  "rt_mutex_delete m K = (if irq_nest K \<noteq> 0 then None
     else map_option (Pair RT_EOK) (rt_ipc_list_resume_all (Waiting (Mtx m)) K))"

definition set_mtx :: "nat \<Rightarrow> (rt_mutex \<Rightarrow> rt_mutex) \<Rightarrow> os \<Rightarrow> os" where
  "set_mtx m f K = K\<lparr>mtxs := (mtxs K)(m := f (mtxs K m))\<rparr>"

definition rt_mutex_take :: "nat \<Rightarrow> 32 word \<Rightarrow> os \<Rightarrow> (int outcome \<times> os) option" where
  "rt_mutex_take m time K0 = (if \<not> in_thread K0 then None
     else let t = the (cur K0); K = set_th t (\<lambda>x. x\<lparr>t_error := RT_EOK\<rparr>) K0; M = mtxs K m in
       if owner M = Some t then return RT_EOK (set_mtx m (\<lambda>M. M\<lparr>hold := hold M + 1\<rparr>) K)
       else if mtx_value M > 0 then return RT_EOK
         (set_mtx m (\<lambda>M. M\<lparr>mtx_value := mtx_value M - 1, owner := Some t,
            original_priority := current_priority (th K t), hold := hold M + 1\<rparr>) K)
       else if time = 0 then return (- RT_ETIMEOUT) (set_th t (\<lambda>x. x\<lparr>t_error := - RT_ETIMEOUT\<rparr>) K)
       else (case owner M of None \<Rightarrow> None
         | Some h \<Rightarrow> let
             K1 = (if current_priority (th K t) < current_priority (th K h)
               then change_priority h (current_priority (th K t)) K else K);
             K2 = rt_ipc_list_suspend (Waiting (Mtx m)) t (mtx_flag M) K1
           in Option.bind (wait_timer t time K2) (block C_mutex)))"

definition rt_mutex_take_rest :: "nat \<Rightarrow> os \<Rightarrow> int \<times> os" where
  "rt_mutex_take_rest t K = (if t_error (th K t) \<noteq> RT_EOK then (t_error (th K t), K) else (RT_EOK, K))"

definition rt_mutex_release :: "nat \<Rightarrow> os \<Rightarrow> (int \<times> os) option" where
  "rt_mutex_release m K0 = (if \<not> in_thread K0 then None
     else let t = the (cur K0) in
       if owner (mtxs K0 m) \<noteq> Some t then Some (- RT_ERROR, set_th t (\<lambda>x. x\<lparr>t_error := - RT_ERROR\<rparr>) K0)
       else let K = set_mtx m (\<lambda>M. M\<lparr>hold := hold M - 1\<rparr>) K0; M = mtxs K m in
         if hold M \<noteq> 0 then Some (RT_EOK, K)
         else let K1 = (if original_priority M \<noteq> current_priority (th K t)
                 then change_priority t (original_priority M) K else K) in
           (case links K1 (Waiting (Mtx m)) of
              w # _ \<Rightarrow> return_schedule RT_EOK (rt_ipc_list_resume (Waiting (Mtx m))
                (set_mtx m (\<lambda>M. M\<lparr>owner := Some w, original_priority := current_priority (th K1 w), hold := hold M + 1\<rparr>) K1))
            | [] \<Rightarrow> Some (RT_EOK, set_mtx m (\<lambda>M. M\<lparr>mtx_value := mtx_value M + 1, owner := None, original_priority := 0xff\<rparr>) K1)))"

definition rt_mutex_control :: "nat \<Rightarrow> u8 \<Rightarrow> os \<Rightarrow> int \<times> os" where
  "rt_mutex_control m cmd K = (- RT_ERROR, K)"

subsection \<open>Event sets\<close>

definition rt_event_init :: "nat \<Rightarrow> u8 \<Rightarrow> os \<Rightarrow> int \<times> os" where
  "rt_event_init e flag K = (RT_EOK, K\<lparr>links := (links K)(Waiting (Evt e) := []),
     evts := (evts K)(e := \<lparr>evt_set = 0, evt_flag = flag\<rparr>)\<rparr>)"

definition rt_event_create :: "nat option \<Rightarrow> u8 \<Rightarrow> os \<Rightarrow> nat option \<times> os" where
  "rt_event_create obj flag K = (case obj of None \<Rightarrow> (None, K)
     | Some e \<Rightarrow> (Some e, snd (rt_event_init e flag K)))"

definition rt_event_detach :: "nat \<Rightarrow> os \<Rightarrow> (int \<times> os) option" where
  "rt_event_detach e K = map_option (Pair RT_EOK) (rt_ipc_list_resume_all (Waiting (Evt e)) K)"

definition rt_event_delete :: "nat \<Rightarrow> os \<Rightarrow> (int \<times> os) option" where
  "rt_event_delete e K = (if irq_nest K \<noteq> 0 then None
     else map_option (Pair RT_EOK) (rt_ipc_list_resume_all (Waiting (Evt e)) K))"

text \<open>Whether a waiting thread has what it waits for; with the flag for any event of its set, it remembers which
  ones came.\<close>

definition event_status :: "u32 \<Rightarrow> rt_thread \<Rightarrow> bool \<times> rt_thread" where
  "event_status evs x = (if event_info x AND RT_EVENT_FLAG_AND \<noteq> 0 then (event_set x AND evs = event_set x, x)
     else if event_info x AND RT_EVENT_FLAG_OR \<noteq> 0 then
       (if event_set x AND evs \<noteq> 0 then (True, x\<lparr>event_set := event_set x AND evs\<rparr>) else (False, x))
     else (False, x))"

text \<open>The walk over the waiting threads; the next node is read before the thread is taken out of the list.\<close>

fun event_wake :: "nat \<Rightarrow> nat list \<Rightarrow> bool \<Rightarrow> os \<Rightarrow> bool \<times> os" where
  "event_wake e [] need K = (need, K)"
| "event_wake e (t # ts) need K = (case event_status (evt_set (evts K e)) (th K t) of (ok, x) \<Rightarrow>
     let K1 = set_th t (\<lambda>_. x) K in
     if \<not> ok then event_wake e ts need K1
     else let K2 = (if event_info x AND RT_EVENT_FLAG_CLEAR \<noteq> 0
         then K1\<lparr>evts := (evts K1)(e := (evts K1 e)\<lparr>evt_set := evt_set (evts K1 e) AND NOT (event_set x)\<rparr>)\<rparr> else K1)
       in event_wake e ts True (snd (rt_thread_resume t K2)))"

definition rt_event_send :: "nat \<Rightarrow> u32 \<Rightarrow> os \<Rightarrow> (int \<times> os) option" where
  "rt_event_send e evs K = (if evs = 0 then Some (- RT_ERROR, K)
     else let K1 = K\<lparr>evts := (evts K)(e := (evts K e)\<lparr>evt_set := evt_set (evts K e) OR evs\<rparr>)\<rparr> in
       (case event_wake e (links K1 (Waiting (Evt e))) False K1 of (need, K2) \<Rightarrow>
          if need then return_schedule RT_EOK K2 else Some (RT_EOK, K2)))"

text \<open>The second component of the result is what is stored through the pointer, if anything is.\<close>

definition rt_event_recv :: "nat \<Rightarrow> u32 \<Rightarrow> u8 \<Rightarrow> 32 word \<Rightarrow> os \<Rightarrow> ((int \<times> u32 option) outcome \<times> os) option" where
  "rt_event_recv e evs opt timeout K0 = (if \<not> in_thread K0 then None
     else if evs = 0 then return (- RT_ERROR, None) K0
     else if opt AND (RT_EVENT_FLAG_AND OR RT_EVENT_FLAG_OR) = 0 then None
     else let t = the (cur K0); K = set_th t (\<lambda>x. x\<lparr>t_error := RT_EOK\<rparr>) K0; s = evt_set (evts K e);
         ok = (if opt AND RT_EVENT_FLAG_AND \<noteq> 0 then s AND evs = evs else s AND evs \<noteq> 0) in
       if ok then return (RT_EOK, Some (s AND evs))
         (if opt AND RT_EVENT_FLAG_CLEAR \<noteq> 0 then K\<lparr>evts := (evts K)(e := (evts K e)\<lparr>evt_set := s AND NOT evs\<rparr>)\<rparr> else K)
       else if timeout = 0 then return (- RT_ETIMEOUT, None) (set_th t (\<lambda>x. x\<lparr>t_error := - RT_ETIMEOUT\<rparr>) K)
       else let K1 = set_th t (\<lambda>x. x\<lparr>event_set := evs, event_info := opt\<rparr>) K;
                K2 = rt_ipc_list_suspend (Waiting (Evt e)) t (evt_flag (evts K1 e)) K1
            in Option.bind (wait_timer t timeout K2) (block C_event))"

definition rt_event_recv_rest :: "nat \<Rightarrow> os \<Rightarrow> (int \<times> u32 option) \<times> os" where
  "rt_event_recv_rest t K = (if t_error (th K t) \<noteq> RT_EOK then ((t_error (th K t), None), K)
     else ((t_error (th K t), Some (event_set (th K t))), K))"

definition rt_event_control :: "nat \<Rightarrow> u8 \<Rightarrow> os \<Rightarrow> (int \<times> os) option" where
  "rt_event_control e cmd K = (if cmd = RT_IPC_CMD_RESET
     then Option.bind (rt_ipc_list_resume_all (Waiting (Evt e)) K)
       (\<lambda>K1. return_schedule RT_EOK (K1\<lparr>evts := (evts K1)(e := (evts K1 e)\<lparr>evt_set := 0\<rparr>)\<rparr>))
     else Some (- RT_ERROR, K))"

subsection \<open>Mailboxes\<close>

definition set_mb :: "nat \<Rightarrow> (rt_mailbox \<Rightarrow> rt_mailbox) \<Rightarrow> os \<Rightarrow> os" where
  "set_mb m f K = K\<lparr>mbxs := (mbxs K)(m := f (mbxs K m))\<rparr>"

definition rt_mb_init :: "nat \<Rightarrow> u32 list \<Rightarrow> u32 \<Rightarrow> u8 \<Rightarrow> os \<Rightarrow> int \<times> os" where
  "rt_mb_init m pool n flag K = (RT_EOK, K\<lparr>links := (links K)(Waiting (Mbx m) := [], Sending m := []),
     mbxs := (mbxs K)(m := \<lparr>msg_pool = pool, mb_size = ucast n, mb_entry = 0, in_offset = 0, out_offset = 0, mb_flag = flag\<rparr>)\<rparr>)"

text \<open>The pool comes from the allocator, which may fail.\<close>

definition rt_mb_create :: "nat option \<Rightarrow> u32 list option \<Rightarrow> u32 \<Rightarrow> u8 \<Rightarrow> os \<Rightarrow> nat option \<times> os" where
  "rt_mb_create obj pool n flag K = (case (obj, pool) of
     (Some m, Some p) \<Rightarrow> (Some m, snd (rt_mb_init m p n flag K)) | _ \<Rightarrow> (None, K))"

definition rt_mb_detach :: "nat \<Rightarrow> os \<Rightarrow> (int \<times> os) option" where
  "rt_mb_detach m K = map_option (Pair RT_EOK)
     (Option.bind (rt_ipc_list_resume_all (Waiting (Mbx m)) K) (rt_ipc_list_resume_all (Sending m)))"

definition rt_mb_delete :: "nat \<Rightarrow> os \<Rightarrow> (int \<times> os) option" where
  "rt_mb_delete m K = (if irq_nest K \<noteq> 0 then None else map_option (Pair RT_EOK)
     (Option.bind (rt_ipc_list_resume_all (Waiting (Mbx m)) K) (rt_ipc_list_resume_all (Sending m))))"

text \<open>What is left of a timeout after a wait that began at \<open>t0\<close>.\<close>

definition time_left :: "32 word \<Rightarrow> u32 \<Rightarrow> u32 \<Rightarrow> 32 word" where
  "time_left timeout t0 now = (if 0 < sint timeout
     then (let r = timeout - (now - t0) in if sint r < 0 then 0 else r) else timeout)"

text \<open>Storing a message and taking the next one.\<close>

definition put_mb :: "u32 \<Rightarrow> rt_mailbox \<Rightarrow> rt_mailbox" where
  "put_mb v B = B\<lparr>msg_pool := (msg_pool B)[unat (in_offset B) := v],
     in_offset := (if in_offset B + 1 \<ge> mb_size B then 0 else in_offset B + 1), mb_entry := mb_entry B + 1\<rparr>"

definition take_mb :: "rt_mailbox \<Rightarrow> rt_mailbox" where
  "take_mb B = B\<lparr>out_offset := (if out_offset B + 1 \<ge> mb_size B then 0 else out_offset B + 1), mb_entry := mb_entry B - 1\<rparr>"

text \<open>The loop of \<open>rt_mb_send_wait\<close> up to the call of the scheduler, and what follows it; \<open>None\<close> also when
  the message does not fit the pool.\<close>

definition mb_send_loop :: "nat \<Rightarrow> u32 \<Rightarrow> 32 word \<Rightarrow> os \<Rightarrow> (int outcome \<times> os) option" where
  "mb_send_loop m v timeout K = (let B = mbxs K m in
     if mb_entry B = mb_size B then
       (case cur K of None \<Rightarrow> None
        | Some t \<Rightarrow> let K1 = set_th t (\<lambda>x. x\<lparr>t_error := RT_EOK\<rparr>) K in
            if timeout = 0 then return (- RT_EFULL) K1
            else if \<not> in_thread K then None
            else let K2 = rt_ipc_list_suspend (Sending m) t (mb_flag B) K1
              in Option.bind (wait_timer t timeout K2) (block (C_mb_send m v timeout (k_tick K))))
     else if length (msg_pool B) \<le> unat (in_offset B) then None
     else let K1 = set_mb m (put_mb v) K in
       if links K1 (Waiting (Mbx m)) \<noteq> []
       then map_option (\<lambda>K2. (Done RT_EOK, K2)) (rt_schedule (rt_ipc_list_resume (Waiting (Mbx m)) K1))
       else return RT_EOK K1)"

definition rt_mb_send_wait :: "nat \<Rightarrow> u32 \<Rightarrow> 32 word \<Rightarrow> os \<Rightarrow> (int outcome \<times> os) option" where
  "rt_mb_send_wait m v timeout K = (if mb_entry (mbxs K m) = mb_size (mbxs K m) \<and> timeout = 0
     then return (- RT_EFULL) K else mb_send_loop m v timeout K)"

definition rt_mb_send_wait_rest :: "nat \<Rightarrow> nat \<Rightarrow> u32 \<Rightarrow> 32 word \<Rightarrow> u32 \<Rightarrow> os \<Rightarrow> (int outcome \<times> os) option" where
  "rt_mb_send_wait_rest t m v timeout t0 K = (if t_error (th K t) \<noteq> RT_EOK then return (t_error (th K t)) K
     else mb_send_loop m v (time_left timeout t0 (k_tick K)) K)"

definition rt_mb_send :: "nat \<Rightarrow> u32 \<Rightarrow> os \<Rightarrow> (int outcome \<times> os) option" where
  "rt_mb_send m v K = rt_mb_send_wait m v 0 K"

definition mb_recv_loop :: "nat \<Rightarrow> 32 word \<Rightarrow> os \<Rightarrow> ((int \<times> u32 option) outcome \<times> os) option" where
  "mb_recv_loop m timeout K = (let B = mbxs K m in
     if mb_entry B = 0 then
       (case cur K of None \<Rightarrow> None
        | Some t \<Rightarrow> let K1 = set_th t (\<lambda>x. x\<lparr>t_error := RT_EOK\<rparr>) K in
            if timeout = 0 then return (- RT_ETIMEOUT, None) (set_th t (\<lambda>x. x\<lparr>t_error := - RT_ETIMEOUT\<rparr>) K1)
            else if \<not> in_thread K then None
            else let K2 = rt_ipc_list_suspend (Waiting (Mbx m)) t (mb_flag B) K1
              in Option.bind (wait_timer t timeout K2) (block (C_mb_recv m timeout (k_tick K))))
     else if length (msg_pool B) \<le> unat (out_offset B) then None
     else let v = msg_pool B ! unat (out_offset B); K1 = set_mb m take_mb K in
       if links K1 (Sending m) \<noteq> []
       then map_option (\<lambda>K2. (Done (RT_EOK, Some v), K2)) (rt_schedule (rt_ipc_list_resume (Sending m) K1))
       else return (RT_EOK, Some v) K1)"

definition rt_mb_recv :: "nat \<Rightarrow> 32 word \<Rightarrow> os \<Rightarrow> ((int \<times> u32 option) outcome \<times> os) option" where
  "rt_mb_recv m timeout K = (if mb_entry (mbxs K m) = 0 \<and> timeout = 0
     then return (- RT_ETIMEOUT, None) K else mb_recv_loop m timeout K)"

definition rt_mb_recv_rest :: "nat \<Rightarrow> nat \<Rightarrow> 32 word \<Rightarrow> u32 \<Rightarrow> os \<Rightarrow> ((int \<times> u32 option) outcome \<times> os) option" where
  "rt_mb_recv_rest t m timeout t0 K = (if t_error (th K t) \<noteq> RT_EOK then return (t_error (th K t), None) K
     else mb_recv_loop m (time_left timeout t0 (k_tick K)) K)"

definition rt_mb_control :: "nat \<Rightarrow> u8 \<Rightarrow> os \<Rightarrow> (int \<times> os) option" where
  "rt_mb_control m cmd K = (if cmd = RT_IPC_CMD_RESET
     then Option.bind (Option.bind (rt_ipc_list_resume_all (Waiting (Mbx m)) K) (rt_ipc_list_resume_all (Sending m)))
       (\<lambda>K1. return_schedule RT_EOK (set_mb m (\<lambda>B. B\<lparr>mb_entry := 0, in_offset := 0, out_offset := 0\<rparr>) K1))
     else Some (- RT_ERROR, K))"

subsection \<open>Message queues\<close>

definition set_mq :: "nat \<Rightarrow> (rt_mq \<Rightarrow> rt_mq) \<Rightarrow> os \<Rightarrow> os" where
  "set_mq m f K = K\<lparr>mqs := (mqs K)(m := f (mqs K m))\<rparr>"

definition rt_align4 :: "u32 \<Rightarrow> u32" where
  "rt_align4 n = (n + 3) AND NOT 3"

text \<open>The free list after \<open>n\<close> slots of the pool have been put in front of it, in the order of the pool.\<close>

fun free_slots :: "nat \<Rightarrow> (nat \<Rightarrow> nat option) \<times> nat option \<Rightarrow> (nat \<Rightarrow> nat option) \<times> nat option" where
  "free_slots 0 (nx, fr) = (nx, fr)"
| "free_slots (Suc n) (nx, fr) = (case free_slots n (nx, fr) of (nx', fr') \<Rightarrow> (nx'(n := fr'), Some n))"

definition mq_fresh :: "(nat \<Rightarrow> bytes) \<Rightarrow> u16 \<Rightarrow> u16 \<Rightarrow> u8 \<Rightarrow> rt_mq" where
  "mq_fresh data sz n flag = (case free_slots (unat n) (\<lambda>_. None, None) of (nx, fr) \<Rightarrow>
     \<lparr>slot_next = nx, slot_data = data, msg_size = sz, max_msgs = n, mq_entry = 0,
      queue_head = None, queue_tail = None, queue_free = fr, mq_flag = flag\<rparr>)"

text \<open>The slots of the pool hold \<open>data\<close> at the start.\<close>

definition rt_mq_init :: "nat \<Rightarrow> (nat \<Rightarrow> bytes) \<Rightarrow> u32 \<Rightarrow> u32 \<Rightarrow> u8 \<Rightarrow> os \<Rightarrow> int \<times> os" where
  "rt_mq_init m data msz pool_size flag K = (let sz = (ucast (rt_align4 msz) :: u16) in
     (RT_EOK, K\<lparr>links := (links K)(Waiting (Mqu m) := []),
       mqs := (mqs K)(m := mq_fresh data sz (ucast (pool_size div (ucast sz + 4))) flag)\<rparr>))"

definition rt_mq_create :: "nat option \<Rightarrow> (nat \<Rightarrow> bytes) option \<Rightarrow> u32 \<Rightarrow> u32 \<Rightarrow> u8 \<Rightarrow> os \<Rightarrow> nat option \<times> os" where
  "rt_mq_create obj data msz n flag K = (case (obj, data) of
     (Some m, Some d) \<Rightarrow> (Some m, K\<lparr>links := (links K)(Waiting (Mqu m) := []),
       mqs := (mqs K)(m := mq_fresh d (ucast (rt_align4 msz)) (ucast n) flag)\<rparr>)
   | _ \<Rightarrow> (None, K))"

definition rt_mq_detach :: "nat \<Rightarrow> os \<Rightarrow> (int \<times> os) option" where
  "rt_mq_detach m K = map_option (Pair RT_EOK) (rt_ipc_list_resume_all (Waiting (Mqu m)) K)"

definition rt_mq_delete :: "nat \<Rightarrow> os \<Rightarrow> (int \<times> os) option" where
  "rt_mq_delete m K = (if irq_nest K \<noteq> 0 then None
     else map_option (Pair RT_EOK) (rt_ipc_list_resume_all (Waiting (Mqu m)) K))"

definition set_next :: "nat \<Rightarrow> nat option \<Rightarrow> rt_mq \<Rightarrow> rt_mq" where
  "set_next i x Q = Q\<lparr>slot_next := (slot_next Q)(i := x)\<rparr>"

text \<open>A slot from the free list filled with the message.\<close>

definition mq_alloc :: "nat \<Rightarrow> rt_mq \<Rightarrow> rt_mq" where
  "mq_alloc i Q = Q\<lparr>queue_free := slot_next Q i\<rparr>"

definition mq_fill :: "nat \<Rightarrow> bytes \<Rightarrow> rt_mq \<Rightarrow> rt_mq" where
  "mq_fill i buf Q = Q\<lparr>slot_data := (slot_data Q)(i := overwrite 0 buf (slot_data Q i))\<rparr>"

definition mq_link_last :: "nat \<Rightarrow> rt_mq \<Rightarrow> rt_mq" where
  "mq_link_last i Q = (let Q1 = (case queue_tail Q of Some j \<Rightarrow> set_next j (Some i) Q | None \<Rightarrow> Q) in
     Q1\<lparr>queue_tail := Some i, queue_head := (if queue_head Q1 = None then Some i else queue_head Q1),
        mq_entry := mq_entry Q1 + 1\<rparr>)"

definition mq_link_first :: "nat \<Rightarrow> rt_mq \<Rightarrow> rt_mq" where
  "mq_link_first i Q = (let Q1 = (set_next i (queue_head Q) Q)\<lparr>queue_head := Some i\<rparr> in
     Q1\<lparr>queue_tail := (if queue_tail Q1 = None then Some i else queue_tail Q1), mq_entry := mq_entry Q1 + 1\<rparr>)"

text \<open>The whole way of a message into the queue.\<close>

definition send_slot :: "nat \<Rightarrow> bytes \<Rightarrow> rt_mq \<Rightarrow> rt_mq" where
  "send_slot i buf Q = mq_link_last i (mq_fill i buf (set_next i None (mq_alloc i Q)))"

definition urgent_slot :: "nat \<Rightarrow> bytes \<Rightarrow> rt_mq \<Rightarrow> rt_mq" where
  "urgent_slot i buf Q = mq_link_first i (mq_fill i buf (mq_alloc i Q))"

definition mq_wake :: "nat \<Rightarrow> os \<Rightarrow> (int \<times> os) option" where
  "mq_wake m K = (if links K (Waiting (Mqu m)) \<noteq> []
     then return_schedule RT_EOK (rt_ipc_list_resume (Waiting (Mqu m)) K) else Some (RT_EOK, K))"

definition rt_mq_send :: "nat \<Rightarrow> bytes \<Rightarrow> os \<Rightarrow> (int \<times> os) option" where
  "rt_mq_send m buf K = (if buf = [] then None
     else if unat (msg_size (mqs K m)) < length buf then Some (- RT_ERROR, K)
     else (case queue_free (mqs K m) of None \<Rightarrow> Some (- RT_EFULL, K)
       | Some i \<Rightarrow> mq_wake m (set_mq m (send_slot i buf) K)))"

definition rt_mq_urgent :: "nat \<Rightarrow> bytes \<Rightarrow> os \<Rightarrow> (int \<times> os) option" where
  "rt_mq_urgent m buf K = (if buf = [] then None
     else if unat (msg_size (mqs K m)) < length buf then Some (- RT_ERROR, K)
     else (case queue_free (mqs K m) of None \<Rightarrow> Some (- RT_EFULL, K)
       | Some i \<Rightarrow> mq_wake m (set_mq m (urgent_slot i buf) K)))"

text \<open>Taking the first message: its slot leaves the queue and goes back to the free list.\<close>

definition mq_unlink :: "nat \<Rightarrow> rt_mq \<Rightarrow> rt_mq" where
  "mq_unlink i Q = Q\<lparr>queue_head := slot_next Q i,
     queue_tail := (if queue_tail Q = Some i then None else queue_tail Q)\<rparr>"

definition mq_free :: "nat \<Rightarrow> rt_mq \<Rightarrow> rt_mq" where
  "mq_free i Q = (set_next i (queue_free Q) Q)\<lparr>queue_free := Some i\<rparr>"

definition recv_slot :: "nat \<Rightarrow> rt_mq \<Rightarrow> rt_mq" where
  "recv_slot i Q = mq_free i ((mq_unlink i Q)\<lparr>mq_entry := mq_entry Q - 1\<rparr>)"

definition mq_recv_loop :: "nat \<Rightarrow> nat \<Rightarrow> 32 word \<Rightarrow> os \<Rightarrow> ((int \<times> bytes option) outcome \<times> os) option" where
  "mq_recv_loop m n timeout K = (let Q = mqs K m in
     if mq_entry Q = 0 then
       (case cur K of None \<Rightarrow> None
        | Some t \<Rightarrow> let K1 = set_th t (\<lambda>x. x\<lparr>t_error := RT_EOK\<rparr>) K in
            if \<not> in_thread K then None
            else if timeout = 0 then return (- RT_ETIMEOUT, None) (set_th t (\<lambda>x. x\<lparr>t_error := - RT_ETIMEOUT\<rparr>) K1)
            else let K2 = rt_ipc_list_suspend (Waiting (Mqu m)) t (mq_flag Q) K1
              in Option.bind (wait_timer t timeout K2) (block (C_mq_recv m n timeout (k_tick K))))
     else (case queue_head Q of None \<Rightarrow> None
       | Some i \<Rightarrow> return (RT_EOK, Some (take (min n (unat (msg_size Q))) (slot_data Q i)))
           (set_mq m (recv_slot i) K)))"

definition rt_mq_recv :: "nat \<Rightarrow> nat \<Rightarrow> 32 word \<Rightarrow> os \<Rightarrow> ((int \<times> bytes option) outcome \<times> os) option" where
  "rt_mq_recv m n timeout K = (if n = 0 then None
     else if mq_entry (mqs K m) = 0 \<and> timeout = 0 then return (- RT_ETIMEOUT, None) K
     else mq_recv_loop m n timeout K)"

definition rt_mq_recv_rest :: "nat \<Rightarrow> nat \<Rightarrow> nat \<Rightarrow> 32 word \<Rightarrow> u32 \<Rightarrow> os \<Rightarrow> ((int \<times> bytes option) outcome \<times> os) option" where
  "rt_mq_recv_rest t m n timeout t0 K = (if t_error (th K t) \<noteq> RT_EOK then return (t_error (th K t), None) K
     else mq_recv_loop m n (time_left timeout t0 (k_tick K)) K)"

text \<open>Releasing all messages; a damaged list that runs in a circle is \<open>None\<close>.\<close>

partial_function (option) mq_drain :: "rt_mq \<Rightarrow> rt_mq option" where
  "mq_drain Q = (case queue_head Q of None \<Rightarrow> Some Q
     | Some i \<Rightarrow> mq_drain (mq_free i (mq_unlink i Q)))"

definition rt_mq_control :: "nat \<Rightarrow> u8 \<Rightarrow> os \<Rightarrow> (int \<times> os) option" where
  "rt_mq_control m cmd K = (if cmd = RT_IPC_CMD_RESET
     then Option.bind (rt_ipc_list_resume_all (Waiting (Mqu m)) K) (\<lambda>K1.
       case mq_drain (mqs K1 m) of None \<Rightarrow> None
       | Some Q \<Rightarrow> return_schedule RT_EOK (K1\<lparr>mqs := (mqs K1)(m := Q\<lparr>mq_entry := 0\<rparr>)\<rparr>))
     else Some (- RT_ERROR, K))"

end
