(* ===== verification/KernelSched.thy ===== *)
theory KernelSched imports KernelOk Ipc begin

text \<open>Scheduling, waiting lists, priorities and the tick: each operation keeps the invariant of the kernel, and
  the loops of the kernel end.\<close>


text \<open>A system that can schedule: the idle thread is ready and the scheduler is not locked.\<close>

definition can_run :: "nat \<Rightarrow> 'k kernel_scheme \<Rightarrow> bool" where
  "can_run idle K = (kernel_ok K \<and> t_stat (th K idle) = Thread_ready \<and> lock_nest K = 0)"

text \<open>What a call of the scheduler does: it only changes the current thread, to the first thread of the best priority.\<close>

definition scheduled :: "'k kernel_scheme \<Rightarrow> 'k kernel_scheme \<Rightarrow> bool" where
  "scheduled K K' = (\<exists>c p x xs. K' = K\<lparr>cur_prio := c, cur := Some x\<rparr> \<and> links K (Ready p) = x # xs \<and> top_prio K p)"

lemma schedule_ok:
  assumes "can_run idle K"
  obtains K' where "rt_schedule K = Some K'" "scheduled K K'"
proof -
  obtain p x xs where "rt_schedule K = Some (K\<lparr>cur_prio := (if cur K \<noteq> Some x then of_nat p else cur_prio K), cur := Some x\<rparr>)"
    "links K (Ready p) = x # xs" "top_prio K p"
    using schedule_top [of K idle] assms unfolding can_run_def kernel_ok_def by metis
  then show ?thesis by (intro that) (auto simp: scheduled_def)
qed

lemma scheduled_keeps:
  assumes "scheduled K K'"
  shows "links K' = links K" "th K' = th K" "lock_nest K' = lock_nest K" "timer_list K' = timer_list K" "tm K' = tm K"
    "ready_group K' = ready_group K" "irq_nest K' = irq_nest K" "k_tick K' = k_tick K"
    "kernel_ok K \<Longrightarrow> kernel_ok K'" "can_run idle K \<Longrightarrow> can_run idle K'" "free t K' = free t K"
proof -
  obtain c x where k: "K' = K\<lparr>cur_prio := c, cur := Some x\<rparr>" using assms unfolding scheduled_def by blast
  show "kernel_ok K \<Longrightarrow> kernel_ok K'" by (rule kernel_ok_cong) (simp_all add: k)
  then show "can_run idle K \<Longrightarrow> can_run idle K'" by (simp add: can_run_def k)
qed (use assms in \<open>auto simp: scheduled_def free_def\<close>)

lemma scheduled_more: "scheduled K K' \<Longrightarrow> kernel.more K' = kernel.more K"
  by (auto simp: scheduled_def)

text \<open>The current thread is ready when it was chosen.\<close>

lemma scheduled_ready:
  assumes "scheduled K K'" "kernel_ok K" "cur K' = Some t"
  shows "t_stat (th K' t) = Thread_ready"
proof -
  obtain c p x xs where "K' = K\<lparr>cur_prio := c, cur := Some x\<rparr>" "links K (Ready p) = x # xs"
    using assms(1) unfolding scheduled_def by blast
  then have "t \<in> set (links K (Ready p))" "th K' = th K" using assms(3) by simp_all
  then show ?thesis using assms(2) by (simp add: kernel_ok_def ready_ok_def)
qed

lemma link_last_ok:
  assumes "kernel_ok K" "free t K" "t_stat (th K t) = list_stat q" "\<And>p. q \<noteq> Ready p"
    "set l = insert t (set (links K q))" "distinct l"
  shows "kernel_ok (K\<lparr>links := (links K)(q := l)\<rparr>)"
proof -
  let ?K = "K\<lparr>links := (links K)(q := l)\<rparr>"
  have L: "lists_ok K" and R: "ready_ok K" using assms(1) by (simp_all add: kernel_ok_def)
  have n: "t \<notin> set (links K r)" for r using assms(2) by (simp add: free_def)
  have "lists_ok ?K" unfolding lists_ok_def
  proof (intro conjI allI impI)
    show "distinct (links ?K r)" for r using L assms(6) by (simp add: lists_ok_def)
    show "r = s" if "x \<in> set (links ?K r)" "x \<in> set (links ?K s)" for r s x
      using that L n assms(5) unfolding lists_ok_def by (auto split: if_splits)
    show "t_stat (th ?K x) = list_stat r" if "x \<in> set (links ?K r)" for r x
      using that L assms(3) assms(5) unfolding lists_ok_def by (auto split: if_splits)
  qed
  moreover have "ready_ok ?K" using R assms(4) [symmetric] by (simp add: ready_ok_def)
  ultimately show ?thesis using assms(1) by (simp add: kernel_ok_def prios_ok_def timers_ok_def)
qed

lemma insert_prio_set: "set (insert_prio f t xs) = insert t (set xs)"
  by (induction xs) auto

lemma insert_prio_distinct: "distinct xs \<Longrightarrow> t \<notin> set xs \<Longrightarrow> distinct (insert_prio f t xs)"
  by (induction xs) (auto simp: insert_prio_set)

text \<open>Blocking on a list.\<close>

lemma list_suspend_ok:
  fixes flag :: u8
  assumes "kernel_ok K" "t_stat (th K t) = Thread_ready" "list_stat q = Thread_suspend"
  defines "K' \<equiv> rt_ipc_list_suspend q t flag K"
  shows "kernel_ok K'" "th K' = (th K)(t := (th K t)\<lparr>t_stat := Thread_suspend\<rparr>)" "cur K' = cur K" "lock_nest K' = lock_nest K"
    "flag \<in> {0, 1} \<Longrightarrow> set (links K' q) = insert t (set (links K q))"
    "r \<noteq> q \<Longrightarrow> links K' r = removeAll t (links K r)" "irq_nest K' = irq_nest K" "k_tick K' = k_tick K"
proof -
  let ?K = "snd (rt_thread_suspend t K)"
  note s = suspend_ok [OF assms(1,2)]
  have q: "q \<noteq> Ready p" for p using assms(3) by (auto simp: list_stat_def)
  have d: "distinct (links ?K q)" using s(2) by (simp add: kernel_ok_def lists_ok_def)
  have n: "t \<notin> set (links ?K q)" using s(3) by (simp add: free_def)
  have st: "t_stat (th ?K t) = list_stat q" using s(4) assms(3) by simp
  have nq: "t \<notin> set (links K q)"
    using assms(1,2,3) by (auto simp: kernel_ok_def lists_ok_def)
  note ll = link_last_ok [OF s(2,3) st q]
  show "kernel_ok K'"
    using ll [of "links ?K q @ [t]"] ll [of "insert_prio (\<lambda>x. current_priority (th ?K x)) t (links ?K q)"] d n s(2)
    by (auto simp: K'_def rt_ipc_list_suspend_def Let_def link_last_def insert_prio_set insert_prio_distinct)
  show "th K' = (th K)(t := (th K t)\<lparr>t_stat := Thread_suspend\<rparr>)" "cur K' = cur K" "lock_nest K' = lock_nest K"
    using s by (simp_all add: K'_def rt_ipc_list_suspend_def Let_def link_last_def)
  show "set (links K' q) = insert t (set (links K q))" if "flag \<in> {0, 1}"
    using that s(5) [of q] nq by (auto simp: K'_def rt_ipc_list_suspend_def Let_def link_last_def insert_prio_set ipc_flags)
  show "links K' r = removeAll t (links K r)" if "r \<noteq> q"
    using that s(5) by (simp add: K'_def rt_ipc_list_suspend_def Let_def link_last_def)
  show "irq_nest K' = irq_nest K" "k_tick K' = k_tick K"
    using assms(2) by (simp_all add: K'_def rt_ipc_list_suspend_def Let_def link_last_def rt_thread_suspend_def
      rt_schedule_remove_thread_def kernel_defs)
qed

lemma wait_timer_ok:
  assumes "kernel_ok K" "t_stat (th K t) = Thread_suspend" "sint time < 2 ^ 31 - 1"
  obtains K' where "wait_timer t time K = Some K'" "kernel_ok K'" "links K' = links K" "th K' = th K"
    "cur K' = cur K" "lock_nest K' = lock_nest K"
proof (cases "0 < sint time")
  case False
  then show ?thesis using that [of K] assms(1) by (simp add: wait_timer_def)
next
  case True
  let ?K = "set_tm (Thread_timer t) (\<lambda>m. m\<lparr>tm_init := time\<rparr>) K"
  have "uint (word_of_int (sint time) :: u32) = sint time"
    using True sint_lt [of time] by (simp only: uint_word_of_int) (simp add: take_bit_int_eq_self)
  then have "uint time = sint time" by simp
  then have "time < RT_TICK_MAX div 2" using assms(3) by (simp add: word_less_def RT_TICK_MAX_def)
  then have i: "tm_init (tm ?K (Thread_timer t)) < RT_TICK_MAX div 2" by (simp add: set_tm_def)
  have k: "kernel_ok ?K"
    using assms(1) by (auto simp: set_tm_def kernel_ok_def lists_ok_def ready_ok_def prios_ok_def prio_ok_def timers_ok_def)
  obtain K' where "rt_timer_start (Thread_timer t) ?K = Some (- RT_EOK, K')" "kernel_ok K'" "links K' = links ?K" "th K' = th ?K"
    "cur K' = cur ?K" "lock_nest K' = lock_nest ?K"
    using timer_start_ok [OF k _ i] assms(2) by (auto simp: set_tm_def)
  then show ?thesis using True
    by (intro that [of K']) (auto simp: wait_timer_def start_thread_timer_def rt_timer_control_def set_tm_def)
qed


lemma set_error_ok: "kernel_ok K \<Longrightarrow> kernel_ok (set_th t (\<lambda>x. x\<lparr>t_error := e\<rparr>) K)"
  by (erule kernel_ok_cong) (auto simp: set_th_def)

lemma set_event_ok: "kernel_ok K \<Longrightarrow> kernel_ok (set_th t (\<lambda>x. x\<lparr>event_set := a, event_info := b\<rparr>) K)"
  by (erule kernel_ok_cong) (auto simp: set_th_def)

lemma waiting_suspended: "kernel_ok K \<Longrightarrow> list_stat q = Thread_suspend \<Longrightarrow> t \<in> set (links K q) \<Longrightarrow> t_stat (th K t) = Thread_suspend"
  by (auto simp: kernel_ok_def lists_ok_def)

lemma resume_more [simp]: "kernel.more (snd (rt_thread_resume t K)) = kernel.more K"
  by (simp add: rt_thread_resume_def rt_timer_stop_def rt_schedule_insert_thread_def Let_def kernel_defs timer_remove_def)

lemma resume_irq [simp]: "irq_nest (snd (rt_thread_resume t K)) = irq_nest K" "k_tick (snd (rt_thread_resume t K)) = k_tick K"
  by (simp_all add: rt_thread_resume_def rt_timer_stop_def rt_schedule_insert_thread_def Let_def kernel_defs timer_remove_def)

text \<open>Waking the first waiting thread.\<close>

lemma list_resume_ok:
  assumes "kernel_ok K" "list_stat q = Thread_suspend" "links K q = t # ts"
  shows "kernel_ok (rt_ipc_list_resume q K)" "links (rt_ipc_list_resume q K) q = ts"
    "th (rt_ipc_list_resume q K) = (th K)(t := (th K t)\<lparr>t_stat := Thread_ready\<rparr>)"
    "links (rt_ipc_list_resume q K) (Ready (unat (current_priority (th K t)))) = links K (Ready (unat (current_priority (th K t)))) @ [t]"
    "cur (rt_ipc_list_resume q K) = cur K" "lock_nest (rt_ipc_list_resume q K) = lock_nest K"
    "kernel.more (rt_ipc_list_resume q K) = kernel.more K"
    "r \<noteq> q \<Longrightarrow> (\<And>p. r \<noteq> Ready p) \<Longrightarrow> links (rt_ipc_list_resume q K) r = links K r"
proof -
  have s: "t_stat (th K t) = Thread_suspend" using waiting_suspended [OF assms(1,2), of t] assms(3) by simp
  have q: "q \<noteq> Ready p" "Ready p \<noteq> q" for p using assms(2) by (auto simp: list_stat_def)
  have d: "t \<notin> set ts" using assms(1,3) by (metis distinct.simps(2) kernel_ok_def lists_ok_def)
  have n: "t \<notin> set (links K r)" if "r \<noteq> q" for r
    using that assms(1,3) unfolding kernel_ok_def lists_ok_def by (metis list.set_intros(1))
  note r = resume_ok [OF assms(1) s]
  show "kernel_ok (rt_ipc_list_resume q K)" "links (rt_ipc_list_resume q K) q = ts"
    "th (rt_ipc_list_resume q K) = (th K)(t := (th K t)\<lparr>t_stat := Thread_ready\<rparr>)"
    "links (rt_ipc_list_resume q K) (Ready (unat (current_priority (th K t)))) = links K (Ready (unat (current_priority (th K t)))) @ [t]"
    "cur (rt_ipc_list_resume q K) = cur K" "lock_nest (rt_ipc_list_resume q K) = lock_nest K"
    "kernel.more (rt_ipc_list_resume q K) = kernel.more K"
    "r \<noteq> q \<Longrightarrow> (\<And>p. r \<noteq> Ready p) \<Longrightarrow> links (rt_ipc_list_resume q K) r = links K r"
    using r q d n [of r] n [of "Ready (unat (current_priority (th K t)))"] assms(3) by (auto simp: rt_ipc_list_resume_def)
qed

text \<open>Waking all of them: the loop ends, and each gets the error code.\<close>

lemma resume_all_ok:
  assumes "kernel_ok K" "list_stat q = Thread_suspend"
  shows "\<exists>K'. rt_ipc_list_resume_all q K = Some K' \<and> kernel_ok K' \<and> links K' q = []
    \<and> (\<forall>t. th K' t = (if t \<in> set (links K q) then (th K t)\<lparr>t_error := - RT_ERROR, t_stat := Thread_ready\<rparr> else th K t))
    \<and> cur K' = cur K \<and> lock_nest K' = lock_nest K \<and> irq_nest K' = irq_nest K \<and> kernel.more K' = kernel.more K
    \<and> (\<forall>r. r \<noteq> q \<longrightarrow> (\<forall>p. r \<noteq> Ready p) \<longrightarrow> links K' r = links K r)"
  using assms(1)
proof (induction "links K q" arbitrary: K)
  case Nil
  then show ?case by (subst rt_ipc_list_resume_all.simps) auto
next
  case (Cons t ts)
  let ?K = "set_th t (\<lambda>x. x\<lparr>t_error := - RT_ERROR\<rparr>) K"
  let ?K1 = "rt_ipc_list_resume q ?K"
  have k: "kernel_ok ?K" "links ?K = links K" "cur ?K = cur K" "lock_nest ?K = lock_nest K" "kernel.more ?K = kernel.more K"
    "irq_nest ?K = irq_nest K"
    using set_error_ok [OF Cons(3)] by (simp_all add: set_th_def)
  have l: "links ?K q = t # ts" using Cons(2) k(2) by simp
  note r = list_resume_ok [OF k(1) assms(2) l]
  have d: "t \<notin> set ts" using Cons(2,3) by (metis distinct.simps(2) kernel_ok_def lists_ok_def)
  have i: "irq_nest ?K1 = irq_nest K" by (simp add: rt_ipc_list_resume_def k)
  from Cons(1) [OF r(2) [symmetric] r(1)] obtain K' where K': "rt_ipc_list_resume_all q ?K1 = Some K'" "kernel_ok K'" "links K' q = []"
    "\<forall>x. th K' x = (if x \<in> set (links ?K1 q) then (th ?K1 x)\<lparr>t_error := - RT_ERROR, t_stat := Thread_ready\<rparr> else th ?K1 x)"
    "cur K' = cur ?K1" "lock_nest K' = lock_nest ?K1" "irq_nest K' = irq_nest ?K1" "kernel.more K' = kernel.more ?K1"
    "\<forall>r. r \<noteq> q \<longrightarrow> (\<forall>p. r \<noteq> Ready p) \<longrightarrow> links K' r = links ?K1 r" by blast
  have s: "rt_ipc_list_resume_all q K = Some K'"
    using K'(1) l Cons(2) [symmetric] by (subst rt_ipc_list_resume_all.simps) (simp add: rt_ipc_list_resume_def)
  have th: "th K' x = (if x \<in> set (links K q) then (th K x)\<lparr>t_error := - RT_ERROR, t_stat := Thread_ready\<rparr> else th K x)" for x
    using K'(4) r(2,3) d Cons(2) [symmetric] by (auto simp: set_th_def)
  have o: "links K' x = links K x" if "x \<noteq> q" "\<forall>p. x \<noteq> Ready p" for x
    using K'(9) r(8) [of x] that k(2) by simp
  show ?case using s K'(2,3,5-8) th o r(5-7) k(3-6) i by (intro exI [of _ K']) simp
qed

lemma set_prio_ok:
  assumes "kernel_ok K" "t_stat (th K t) \<noteq> Thread_ready" "unat p < 32"
  shows "kernel_ok (set_th t (\<lambda>x. x\<lparr>current_priority := p, number_mask := push_bit (unat p) 1\<rparr>) K)" (is "kernel_ok ?K")
proof -
  have n: "t \<notin> set (links K (Ready q))" for q using assms(1,2) by (auto simp: kernel_ok_def ready_ok_def)
  have "ready_ok ?K" using assms(1,2) n by (auto simp: kernel_ok_def ready_ok_def set_th_def)
  moreover have "lists_ok ?K" "prios_ok ?K" "timers_ok ?K"
    using assms by (simp_all add: kernel_ok_def lists_ok_def prios_ok_def prio_ok_def timers_ok_def set_th_def)
  ultimately show ?thesis by (simp add: kernel_ok_def)
qed

lemma change_priority_ok:
  assumes "kernel_ok K" "unat p < 32"
  shows "kernel_ok (change_priority t p K)"
    "th (change_priority t p K) = (th K)(t := (th K t)\<lparr>current_priority := p, number_mask := push_bit (unat p) 1\<rparr>)"
    "cur (change_priority t p K) = cur K" "lock_nest (change_priority t p K) = lock_nest K"
    "irq_nest (change_priority t p K) = irq_nest K" "k_tick (change_priority t p K) = k_tick K"
    "kernel.more (change_priority t p K) = kernel.more K"
    "(\<And>r. q \<noteq> Ready r) \<Longrightarrow> links (change_priority t p K) q = links K q"
proof -
  let ?f = "\<lambda>x. x\<lparr>current_priority := p, number_mask := push_bit (unat p) 1\<rparr>"
  show "kernel_ok (change_priority t p K)"
  proof (cases "t_stat (th K t) = Thread_ready")
    case False
    then show ?thesis using set_prio_ok [OF assms(1) _ assms(2)] by (simp add: change_priority_def)
  next
    case True
    let ?S = "rt_schedule_remove_thread t (set_th t (\<lambda>x. x\<lparr>t_stat := Thread_suspend\<rparr>) K)"
    note r = remove_thread_ok [OF assms(1) True, of Thread_suspend]
    have tl: "Thread_timer t \<notin> set (timer_list ?S)"
      using assms(1) True by (auto simp: kernel_ok_def timers_ok_def rt_schedule_remove_thread_def Let_def kernel_defs)
    have fr: "free t (set_th t ?f ?S)" using r(2) by (simp add: free_def set_th_def)
    have k: "kernel_ok (set_th t ?f ?S)"
      by (rule set_prio_ok [OF r(1) _ assms(2)]) (simp_all add: rt_schedule_remove_thread_def Let_def kernel_defs)
    have "rt_schedule_insert_thread t (set_th t ?f ?S) = change_priority t p K"
      using True by (simp add: change_priority_def rt_schedule_insert_thread_def rt_schedule_remove_thread_def Let_def kernel_defs)
    moreover have "kernel_ok (rt_schedule_insert_thread t (set_th t ?f ?S))"
      by (rule insert_thread_ok [OF k fr]) (use assms(2) tl in \<open>simp_all add: prio_ok_def set_th_def\<close>)
    ultimately show ?thesis by simp
  qed
  show "th (change_priority t p K) = (th K)(t := ?f (th K t))"
    by (auto simp: change_priority_def rt_schedule_insert_thread_def rt_schedule_remove_thread_def Let_def kernel_defs)
  show "links (change_priority t p K) q = links K q" if "\<And>r. q \<noteq> Ready r"
  proof -
    have "t_stat (th K t) = Thread_ready \<Longrightarrow> t \<notin> set (links K q)"
      using assms(1) that by (auto simp: kernel_ok_def dest: ready_not_waiting)
    then show ?thesis using that
      by (auto simp: change_priority_def rt_schedule_insert_thread_def rt_schedule_remove_thread_def Let_def kernel_defs)
  qed
qed (simp_all add: change_priority_def rt_schedule_insert_thread_def rt_schedule_remove_thread_def Let_def kernel_defs)

subsection \<open>Threads\<close>

lemma can_runD: "can_run idle K \<Longrightarrow> kernel_ok K" "can_run idle K \<Longrightarrow> t_stat (th K idle) = Thread_ready"
  "can_run idle K \<Longrightarrow> lock_nest K = 0"
  by (simp_all add: can_run_def)

text \<open>Also, the current thread is ready, as it is whenever a thread executes.\<close>

definition live :: "'k kernel_scheme \<Rightarrow> bool" where
  "live K = (\<exists>t. cur K = Some t \<and> t_stat (th K t) = Thread_ready)"

definition good :: "nat \<Rightarrow> 'k kernel_scheme \<Rightarrow> bool" where
  "good idle K = (can_run idle K \<and> live K)"

text \<open>A call that ends in a call of the scheduler.\<close>

lemma schedule_run:
  assumes "can_run idle K"
  shows "\<exists>K'. rt_schedule K = Some K' \<and> good idle K' \<and> scheduled K K'"
proof -
  obtain K' where k: "rt_schedule K = Some K'" "scheduled K K'" using schedule_ok [OF assms] .
  obtain t where t: "cur K' = Some t" using k(2) unfolding scheduled_def by auto
  have "live K'" unfolding live_def using t scheduled_ready [OF k(2) can_runD(1) [OF assms] t] by blast
  then show ?thesis using k scheduled_keeps(10) [OF k(2) assms] by (auto simp: good_def)
qed

lemma goodD: "good idle K \<Longrightarrow> can_run idle K" "good idle K \<Longrightarrow> live K"
  by (simp_all add: good_def)

lemma ready_group_ok:
  assumes "kernel_ok K" "t_stat (th K t) = Thread_ready"
  shows "t \<in> set (links K (Ready (unat (current_priority (th K t)))))"
  using assms by (simp add: kernel_ok_def ready_ok_def)

lemma requeue_ok:
  assumes "kernel_ok K" "t_stat (th K t) = Thread_ready"
  defines "q \<equiv> Ready (unat (current_priority (th K t)))"
  shows "kernel_ok (link_last q t (unlink t K))"
proof -
  let ?K = "link_last q t (unlink t K)"
  have L: "lists_ok K" and R: "ready_ok K" using assms(1) by (simp_all add: kernel_ok_def)
  have m: "t \<in> set (links K q)" using ready_group_ok [OF assms(1,2)] by (simp add: q_def)
  have n: "t \<notin> set (links K r)" if "r \<noteq> q" for r using L m that unfolding lists_ok_def by blast
  have lk: "links ?K r = (if r = q then removeAll t (links K q) @ [t] else links K r)" for r
    using n by (simp add: link_last_def unlink_def)
  have s: "set (links ?K r) = set (links K r)" for r using m by (auto simp: lk)
  have d: "distinct (links ?K r)" for r using L by (simp add: lk lists_ok_def distinct_removeAll)
  have o: "th ?K = th K" "timer_list ?K = timer_list K" "tm ?K = tm K" "ready_group ?K = ready_group K"
    by (simp_all add: link_last_def unlink_def)
  have e: "(links ?K r = []) = (links K r = [])" for r using s [of r] by (metis set_empty)
  have "lists_ok ?K" using L d by (simp add: lists_ok_def s o)
  moreover have "ready_ok ?K" using R by (simp add: ready_ok_def s e o)
  ultimately show ?thesis using assms(1) by (simp add: kernel_ok_def prios_ok_def timers_ok_def o)
qed

lemma yield_ok:
  assumes "good idle K"
  shows "\<exists>K'. rt_thread_yield t K = Some (RT_EOK, K') \<and> good idle K' \<and> th K' = th K \<and> timer_list K' = timer_list K
    \<and> tm K' = tm K \<and> k_tick K' = k_tick K \<and> kernel.more K' = kernel.more K \<and> irq_nest K' = irq_nest K"
proof (cases "t_stat (th K t) = Thread_ready \<and> 2 \<le> length (links K (Ready (unat (current_priority (th K t)))))")
  case True
  let ?K = "link_last (Ready (unat (current_priority (th K t)))) t (unlink t K)"
  have "can_run idle ?K" using requeue_ok [of K t] True goodD(1) [OF assms] by (simp add: can_run_def link_last_def unlink_def)
  then obtain K' where "rt_schedule ?K = Some K'" "good idle K'" "scheduled ?K K'" using schedule_run by blast
  then show ?thesis using True scheduled_keeps [of ?K K'] scheduled_more [of ?K K']
    by (intro exI [of _ K']) (simp add: rt_thread_yield_def link_last_def unlink_def)
qed (use assms in \<open>auto simp: rt_thread_yield_def\<close>)

text \<open>Taking the timer of a waiting thread off the list and waking the thread.\<close>

lemma timeout_ok:
  assumes "can_run idle K" "t_stat (th K t) = Thread_suspend" "Thread_timer t \<notin> set (timer_list K)"
  shows "\<exists>K'. rt_thread_timeout t K = Some K' \<and> good idle K' \<and> timer_list K' = timer_list K \<and> tm K' = tm K \<and> k_tick K' = k_tick K
    \<and> kernel.more K' = kernel.more K \<and> irq_nest K' = irq_nest K \<and> th K' = (th K)(t := (th K t)\<lparr>t_error := - RT_ETIMEOUT, t_stat := Thread_ready\<rparr>) \<and> (\<forall>q. (\<forall>p. q \<noteq> Ready p) \<longrightarrow> links K' q = removeAll t (links K q))"
proof -
  let ?E = "set_th t (\<lambda>x. x\<lparr>t_error := - RT_ETIMEOUT\<rparr>) K"
  let ?U = "unlink t ?E"
  let ?K = "rt_schedule_insert_thread t ?U"
  have e: "kernel_ok ?E" "t_stat (th ?E t) \<noteq> Thread_ready" using assms(1,2) set_error_ok [of K] by (simp_all add: can_run_def set_th_def)
  have p: "prio_ok (th ?U t)" using assms(1,2) by (auto simp: can_run_def kernel_ok_def prios_ok_def unlink_def set_th_def prio_ok_def)
  have "kernel_ok ?K"
    by (rule insert_thread_ok [OF unlink_ok [OF e] unlink_free p]) (use assms(3) in \<open>simp add: unlink_def set_th_def\<close>)
  then have "can_run idle ?K" using assms(1,2)
    by (auto simp: can_run_def rt_schedule_insert_thread_def Let_def kernel_defs)
  then obtain K' where "rt_schedule ?K = Some K'" "good idle K'" "scheduled ?K K'" using schedule_run by blast
  then show ?thesis using assms(2) scheduled_keeps [of ?K K'] scheduled_more [of ?K K']
    by (intro exI [of _ K']) (simp add: rt_thread_timeout_def rt_schedule_insert_thread_def Let_def kernel_defs)
qed

subsection \<open>The tick\<close>

definition due :: "'k kernel_scheme \<Rightarrow> timer_id \<Rightarrow> bool" where
  "due K i = (k_tick K - tm_timeout (tm K i) < RT_TICK_MAX div 2)"

definition due_timers :: "'k kernel_scheme \<Rightarrow> timer_id set" where
  "due_timers K = {i \<in> set (timer_list K). due K i}"

text \<open>What the functions of the other timers may do: anything that keeps the invariant, and what \<open>Q\<close> says of the
  rest of the state, and does not make a timer due.\<close>

definition callbacks_ok :: "nat \<Rightarrow> ('k \<Rightarrow> u8 \<Rightarrow> bool) \<Rightarrow> (nat \<Rightarrow> 'k kernel_scheme \<Rightarrow> 'k kernel_scheme option) \<Rightarrow> bool" where
  "callbacks_ok idle Q f = (\<forall>n K. good idle K \<longrightarrow> Q (kernel.more K) (irq_nest K) \<longrightarrow> (\<exists>K'. f n K = Some K' \<and> good idle K'
     \<and> Q (kernel.more K') (irq_nest K') \<and> due_timers K' \<subseteq> due_timers K \<and> k_tick K' = k_tick K
     \<and> (Own_timer n \<in> set (timer_list K') \<longrightarrow> Own_timer n \<in> set (timer_list K))))"

abbreviation rest_ok :: "('k \<Rightarrow> u8 \<Rightarrow> bool) \<Rightarrow> 'k kernel_scheme \<Rightarrow> bool" where
  "rest_ok Q K \<equiv> Q (kernel.more K) (irq_nest K)"

lemma not_due_word:
  fixes t v :: u32
  assumes "v \<noteq> 0" "v < RT_TICK_MAX div 2"
  shows "\<not> t - (t + v) < RT_TICK_MAX div 2"
proof -
  have "uint v mod 2 ^ 32 = uint v" using uint_range_size [of v] by (simp add: word_size)
  moreover have "uint v \<noteq> 0" using assms(1) by (simp add: unsigned_eq_0_iff)
  ultimately have "uint (- v) = 2 ^ 32 - uint v" by (simp add: uint_word_ariths zmod_zminus1_eq_if)
  moreover have "uint v < 2 ^ 31" using assms(2) by (simp add: word_less_def RT_TICK_MAX_def)
  moreover have "t - (t + v) = - v" by simp
  ultimately show ?thesis by (simp add: word_less_def RT_TICK_MAX_def)
qed

lemma timer_remove_run: "good idle K \<Longrightarrow> good idle (timer_remove i K)"
  using timer_remove_ok [of K i] by (simp add: good_def live_def can_run_def timer_remove_def)

lemma inactive_ok: "kernel_ok K \<Longrightarrow> i \<notin> set (timer_list K) \<Longrightarrow> kernel_ok (set_tm i (\<lambda>m. m\<lparr>tm_active := False\<rparr>) K)"
  by (auto simp: set_tm_def kernel_ok_def lists_ok_def ready_ok_def prios_ok_def prio_ok_def timers_ok_def)

lemma timer_fire_ok:
  assumes "good idle K" "i \<in> due_timers K" "callbacks_ok idle Q f" "rest_ok Q K"
  shows "\<exists>K'. timer_fire f i K = Some K' \<and> good idle K' \<and> due_timers K' \<subset> due_timers K \<and> k_tick K' = k_tick K \<and> rest_ok Q K'"
proof -
  let ?R = "timer_remove i K"
  have i: "i \<in> set (timer_list K)" using assms(2) by (simp add: due_timers_def)
  have R: "good idle ?R" by (rule timer_remove_run [OF assms(1)])
  have rR: "rest_ok Q ?R" using assms(4) by (simp add: timer_remove_def)
  have dR: "due_timers ?R = due_timers K - {i}" by (auto simp: due_timers_def due_def timer_remove_def)
  obtain K1 where 1: "timeout_func f i ?R = Some K1" "good idle K1" "due_timers K1 \<subseteq> due_timers ?R" "k_tick K1 = k_tick K"
    "i \<notin> set (timer_list K1)" "rest_ok Q K1"
  proof (cases i)
    case (Thread_timer t)
    have "t_stat (th ?R t) = Thread_suspend" "Thread_timer t \<notin> set (timer_list ?R)"
      using assms(1) i Thread_timer by (auto simp: good_def can_run_def kernel_ok_def timers_ok_def timer_remove_def)
    then obtain K' where "rt_thread_timeout t ?R = Some K'" "good idle K'" "timer_list K' = timer_list ?R" "tm K' = tm ?R" "k_tick K' = k_tick ?R"
      "kernel.more K' = kernel.more ?R" "irq_nest K' = irq_nest ?R"
      using timeout_ok [OF goodD(1) [OF R]] by blast
    then show ?thesis using Thread_timer by (intro that [of K']) (use assms(4) in \<open>auto simp: timeout_func_def due_timers_def due_def timer_remove_def\<close>)
  next
    case (Own_timer n)
    obtain K' where k: "f n ?R = Some K'" "good idle K'" "due_timers K' \<subseteq> due_timers ?R" "k_tick K' = k_tick ?R"
      "Own_timer n \<in> set (timer_list K') \<longrightarrow> Own_timer n \<in> set (timer_list ?R)" "rest_ok Q K'"
      using assms(3,4) R rR unfolding callbacks_ok_def by blast
    show ?thesis
      by (rule that [of K']) (use k Own_timer in \<open>auto simp: timeout_func_def timer_remove_def\<close>)
  qed
  let ?K = "set_tm i (\<lambda>m. m\<lparr>tm_active := False\<rparr>) K1"
  have k: "kernel_ok ?K" using inactive_ok [OF can_runD(1) [OF goodD(1) [OF 1(2)]] 1(5)] .
  have dK: "due_timers ?K = due_timers K1" by (auto simp: due_timers_def due_def set_tm_def)
  have ss: "due_timers K1 \<subset> due_timers K" using 1(3) dR assms(2) by blast
  show ?thesis
  proof (cases "tm_periodic (tm K1 i) \<and> tm_active (tm K1 i)")
    case False
    then show ?thesis using 1 k ss dK by (intro exI [of _ ?K]) (auto simp: timer_fire_def good_def live_def can_run_def set_tm_def)
  next
    case True
    have p: "\<And>t. i \<noteq> Thread_timer t" "tm_init (tm K1 i) \<noteq> 0" "tm_init (tm K1 i) < RT_TICK_MAX div 2"
      using True can_runD(1) [OF goodD(1) [OF 1(2)]] by (auto simp: kernel_ok_def timers_ok_def)
    obtain K' where s: "rt_timer_start i ?K = Some (- RT_EOK, K')" "kernel_ok K'" "th K' = th ?K" "lock_nest K' = lock_nest ?K" "cur K' = cur ?K"
      using timer_start_ok [OF k, of i] p by (auto simp: set_tm_def)
    have t: "k_tick K' = k_tick K1" "set (timer_list K') = insert i (set (timer_list K1))"
      "tm_timeout (tm K' i) = k_tick K1 + tm_init (tm K1 i)" "\<And>j. j \<noteq> i \<Longrightarrow> tm K' j = tm K1 j"
      "kernel.more K' = kernel.more K1" "irq_nest K' = irq_nest K1"
      using s(1) p(3) 1(5) by (auto simp: rt_timer_start_def Let_def set_tm_def timer_remove_def timer_insert_set)
    have "\<not> due K' i" using not_due_word [OF p(2,3)] by (simp add: due_def t)
    moreover have "due K' j = due K1 j" if "j \<noteq> i" for j using t(1) t(4) [OF that] by (simp add: due_def)
    ultimately have "due_timers K' \<subseteq> due_timers K1" using t(2) unfolding due_timers_def
      by (intro subsetI, rename_tac x, case_tac "x = i") auto
    then show ?thesis using 1 s t(1,5,6) ss True by (intro exI [of _ K']) (auto simp: timer_fire_def good_def live_def can_run_def set_tm_def)
  qed
qed

lemma finite_due: "finite (due_timers K)"
  by (simp add: due_timers_def)

lemma timer_check_ok:
  assumes "good idle K" "callbacks_ok idle Q f" "rest_ok Q K"
  shows "\<exists>K'. rt_timer_check f K = Some K' \<and> good idle K' \<and> k_tick K' = k_tick K \<and> rest_ok Q K'"
  using assms(1,3)
proof (induction "card (due_timers K)" arbitrary: K rule: less_induct)
  case less
  show ?case
  proof (cases "timer_list K")
    case Nil
    then show ?thesis using less.prems by (subst rt_timer_check.simps) simp
  next
    case (Cons i ts)
    show ?thesis
    proof (cases "due K i")
      case False
      then show ?thesis using less.prems Cons by (subst rt_timer_check.simps) (simp add: due_def)
    next
      case True
      then have "i \<in> due_timers K" using Cons by (simp add: due_timers_def)
      then obtain K1 where k: "timer_fire f i K = Some K1" "good idle K1" "due_timers K1 \<subset> due_timers K" "k_tick K1 = k_tick K" "rest_ok Q K1"
        using timer_fire_ok [OF less.prems(1) _ assms(2) less.prems(2)] by blast
      have "card (due_timers K1) < card (due_timers K)" by (rule psubset_card_mono [OF finite_due k(3)])
      then obtain K' where "rt_timer_check f K1 = Some K'" "good idle K'" "k_tick K' = k_tick K1" "rest_ok Q K'"
        using less.hyps [OF _ k(2,5)] by blast
      then show ?thesis using k Cons True by (subst rt_timer_check.simps) (simp add: due_def)
    qed
  qed
qed

lemma tick_ok:
  assumes "good idle K" "callbacks_ok idle Q f" "rest_ok Q K"
  shows "\<exists>K'. rt_tick_increase f K = Some K' \<and> good idle K' \<and> k_tick K' = k_tick K + 1 \<and> rest_ok Q K'"
proof -
  obtain t where t: "cur K = Some t" using assms(1) by (auto simp: good_def live_def)
  let ?f = "\<lambda>x. x\<lparr>remaining_tick := remaining_tick x - 1\<rparr>"
  let ?K = "set_th t ?f (K\<lparr>k_tick := k_tick K + 1\<rparr>)"
  have k: "good idle (set_th t g (K\<lparr>k_tick := k_tick K + 1\<rparr>))"
    if "\<And>x. t_stat (g x) = t_stat x" "\<And>x. current_priority (g x) = current_priority x" "\<And>x. number_mask (g x) = number_mask x" for g
    using assms(1) that unfolding can_run_def good_def live_def
    by (auto simp: set_th_def intro!: kernel_ok_cong [of K])
  show ?thesis
  proof (cases "remaining_tick (th ?K t) = 0")
    case False
    then show ?thesis using timer_check_ok [OF k [of ?f] assms(2)] t assms(3)
      by (auto simp: rt_tick_increase_def Let_def set_th_def)
  next
    case True
    let ?K1 = "set_th t (\<lambda>x. x\<lparr>remaining_tick := init_tick x\<rparr>) ?K"
    have e: "?K1 = set_th t (\<lambda>x. x\<lparr>remaining_tick := init_tick x\<rparr>) (K\<lparr>k_tick := k_tick K + 1\<rparr>)" by (simp add: set_th_def)
    have "good idle ?K1" unfolding e by (rule k) simp_all
    then obtain K2 where y: "rt_thread_yield t ?K1 = Some (RT_EOK, K2)" "good idle K2" "k_tick K2 = k_tick ?K1"
      "kernel.more K2 = kernel.more K" "irq_nest K2 = irq_nest K"
      using yield_ok [of idle ?K1 t] by (auto simp: set_th_def)
    obtain K' where "rt_timer_check f K2 = Some K'" "good idle K'" "k_tick K' = k_tick K2" "rest_ok Q K'"
      using timer_check_ok [OF y(2) assms(2)] y(4,5) assms(3) by auto
    then show ?thesis using True t y
      by (intro exI [of _ K']) (simp add: rt_tick_increase_def Let_def, simp add: set_th_def)
  qed
qed

end
