(* ===== verification/IpcQueues.thy ===== *)
theory IpcQueues imports Ipc begin

text \<open>Mailboxes and message queues as queues: the ring buffer and the linked slots hold a list of messages, and
  the operations on them are those of a list.\<close>

subsection \<open>Mailboxes\<close>

definition mb_ok :: "rt_mailbox \<Rightarrow> bool" where
  "mb_ok B = (0 < mb_size B \<and> length (msg_pool B) = unat (mb_size B) \<and> unat (mb_entry B) \<le> unat (mb_size B)
     \<and> unat (out_offset B) < unat (mb_size B)
     \<and> unat (in_offset B) = (unat (out_offset B) + unat (mb_entry B)) mod unat (mb_size B))"

definition mb_msgs :: "rt_mailbox \<Rightarrow> u32 list" where
  "mb_msgs B = map (\<lambda>i. msg_pool B ! ((unat (out_offset B) + i) mod unat (mb_size B))) [0..<unat (mb_entry B)]"

lemma length_mb_msgs: "length (mb_msgs B) = unat (mb_entry B)"
  by (simp add: mb_msgs_def)

text \<open>The next offset, as the code computes it.\<close>

lemma next_offset:
  assumes "unat (x :: u16) < unat n"
  shows "unat (if x + 1 \<ge> n then 0 else x + 1) = Suc (unat x) mod unat n"
proof -
  have "unat n < 2 ^ LENGTH(16)" by (rule unsigned_less)
  then have "Suc (unat x) < 2 ^ 16" using assms by simp
  then have u: "unat (x + 1) = Suc (unat x)" by (simp add: unat_word_ariths)
  show ?thesis using assms u by (auto simp: word_le_nat_alt not_le mod_Suc)
qed

lemma unat_suc: "unat (x :: u16) < unat (n :: u16) \<Longrightarrow> unat (x + 1) = Suc (unat x)"
proof -
  assume "unat x < unat n"
  moreover have "unat n < 2 ^ LENGTH(16)" by (rule unsigned_less)
  ultimately show ?thesis by (simp add: unat_word_ariths)
qed

lemma mod_inj: "i < j \<Longrightarrow> j < n \<Longrightarrow> (p + i) mod n \<noteq> (p + j) mod n" for p n :: nat
proof
  assume a: "i < j" "j < n" "(p + i) mod n = (p + j) mod n"
  then have "n dvd (p + j) - (p + i)" by (metis add_le_cancel_left less_imp_le mod_eq_dvd_iff_nat)
  then show False using a by (auto dest!: dvd_imp_le)
qed

lemma put_mb_ok:
  assumes "mb_ok B" "mb_entry B \<noteq> mb_size B"
  shows "mb_ok (put_mb v B)" "mb_msgs (put_mb v B) = mb_msgs B @ [v]" "unat (in_offset B) < length (msg_pool B)"
proof -
  let ?n = "unat (mb_size B)" and ?e = "unat (mb_entry B)" and ?o = "unat (out_offset B)"
  have e: "?e < ?n" using assms by (metis le_neq_implies_less mb_ok_def unsigned_word_eqI)
  have i: "unat (in_offset B) = (?o + ?e) mod ?n" "?n > 0" "length (msg_pool B) = ?n" "?o < ?n" using assms(1) e by (simp_all add: mb_ok_def)
  then have i1: "unat (in_offset B) < ?n" by simp
  show "unat (in_offset B) < length (msg_pool B)" using i i1 by simp
  have s: "unat (mb_entry B + 1) = Suc ?e" using unat_suc [OF e] .
  have io: "unat (in_offset (put_mb v B)) = Suc (unat (in_offset B)) mod ?n"
    using next_offset [OF i1] by (simp add: put_mb_def)
  show "mb_ok (put_mb v B)"
    using assms(1) e i s io by (simp add: mb_ok_def) (simp add: put_mb_def mod_Suc_eq)
  have nu: "(msg_pool B)[unat (in_offset B) := v] ! ((?o + j) mod ?n) = msg_pool B ! ((?o + j) mod ?n)" if "j < ?e" for j
    using mod_inj [OF that e, of ?o] i(1) by (metis nth_list_update_neq)
  have "map (\<lambda>j. (msg_pool B)[unat (in_offset B) := v] ! ((?o + j) mod ?n)) [0..<?e] = mb_msgs B"
    unfolding mb_msgs_def by (rule map_cong [OF refl]) (simp add: nu)
  then show "mb_msgs (put_mb v B) = mb_msgs B @ [v]"
    using i i1 by (simp add: mb_msgs_def put_mb_def s)
qed

lemma take_mb_ok:
  assumes "mb_ok B" "mb_entry B \<noteq> 0"
  shows "mb_ok (take_mb B)" "mb_msgs B = msg_pool B ! unat (out_offset B) # mb_msgs (take_mb B)"
    "unat (out_offset B) < length (msg_pool B)"
proof -
  let ?n = "unat (mb_size B)" and ?e = "unat (mb_entry B)" and ?o = "unat (out_offset B)"
  have e: "?e > 0" using assms(2) by (simp add: unat_gt_0)
  have i: "unat (in_offset B) = (?o + ?e) mod ?n" "?n > 0" "length (msg_pool B) = ?n" "?o < ?n" "?e \<le> ?n"
    using assms(1) e by (simp_all add: mb_ok_def)
  show "unat (out_offset B) < length (msg_pool B)" using i by simp
  have s: "unat (mb_entry B - 1) = ?e - 1" using e by (metis One_nat_def unat_minus_one unat_gt_0 word_gt_0_no assms(2))
  have oo: "unat (out_offset (take_mb B)) = Suc ?o mod ?n" using next_offset [OF i(4)] by (simp add: take_mb_def)
  have m: "(Suc ?o mod ?n + (?e - 1)) mod ?n = (?o + ?e) mod ?n" 
  proof -
    obtain k where "?e = Suc k" using e by (cases ?e) auto
    then show ?thesis by (simp add: mod_add_left_eq)
  qed
  show "mb_ok (take_mb B)"
  proof -
    have f: "mb_size (take_mb B) = mb_size B" "msg_pool (take_mb B) = msg_pool B" "in_offset (take_mb B) = in_offset B"
      "unat (mb_entry (take_mb B)) = ?e - 1" using s by (simp_all add: take_mb_def)
    have z: "0 < mb_size B" using assms(1) by (simp add: mb_ok_def)
    show ?thesis unfolding mb_ok_def f oo
      by (intro conjI; (rule z i(3) trans [OF i(1) m [symmetric]])?) (use i(2,5) in simp_all)
  qed
  have u: "[0..<?e] = 0 # map Suc [0..<?e - 1]" 
  proof -
    obtain k where k: "?e = Suc k" using e by (cases ?e) auto
    show ?thesis unfolding k by (simp add: map_Suc_upt upt_conv_Cons del: upt_Suc)
  qed
  have "mb_msgs (take_mb B) = map (\<lambda>j. msg_pool B ! ((Suc ?o mod ?n + j) mod ?n)) [0..<?e - 1]"
    unfolding mb_msgs_def oo by (simp add: take_mb_def s)
  also have "\<dots> = map (\<lambda>j. msg_pool B ! ((?o + Suc j) mod ?n)) [0..<?e - 1]" by (simp add: mod_add_left_eq)
  finally show "mb_msgs B = msg_pool B ! ?o # mb_msgs (take_mb B)"
    unfolding mb_msgs_def u using i by simp
qed

subsection \<open>Message queues\<close>

fun chain :: "(nat \<Rightarrow> nat option) \<Rightarrow> nat option \<Rightarrow> nat list \<Rightarrow> bool" where
  "chain nx h [] = (h = None)"
| "chain nx h (i # xs) = (h = Some i \<and> chain nx (nx i) xs)"

text \<open>The slots of the queue, from the first, and the free slots.\<close>

definition mq_slots :: "rt_mq \<Rightarrow> nat list \<Rightarrow> nat list \<Rightarrow> bool" where
  "mq_slots Q xs fr = (chain (slot_next Q) (queue_head Q) xs \<and> chain (slot_next Q) (queue_free Q) fr
     \<and> distinct (xs @ fr) \<and> queue_tail Q = (if xs = [] then None else Some (last xs))
     \<and> unat (mq_entry Q) = length xs \<and> length (xs @ fr) = unat (max_msgs Q)
     \<and> (\<forall>i \<in> set (xs @ fr). length (slot_data Q i) = unat (msg_size Q)))"

definition mq_ok :: "rt_mq \<Rightarrow> bool" where
  "mq_ok Q = (\<exists>xs fr. mq_slots Q xs fr)"

lemma chain_upd [simp]: "i \<notin> set xs \<Longrightarrow> chain (nx(i := y)) h xs = chain nx h xs"
  by (induction xs arbitrary: h) auto

lemma chain_snoc: "chain nx h xs \<Longrightarrow> xs \<noteq> [] \<Longrightarrow> distinct xs \<Longrightarrow> i \<notin> set xs \<Longrightarrow> chain (nx(last xs := Some i, i := None)) h (xs @ [i])"
proof (induction xs arbitrary: h)
  case (Cons x xs)
  then show ?case by (cases "xs = []") auto
qed simp

lemma chain_det: "chain nx h xs \<Longrightarrow> chain nx h ys \<Longrightarrow> xs = ys"
  by (induction nx h xs arbitrary: ys rule: chain.induct) (case_tac ys; auto)+


lemma slots_free: "mq_slots Q xs fr \<Longrightarrow> (queue_free Q = None) = (fr = [])"
  by (cases fr) (auto simp: mq_slots_def)

lemma slots_head: "mq_slots Q xs fr \<Longrightarrow> queue_head Q = (if xs = [] then None else Some (hd xs))"
  by (cases xs) (auto simp: mq_slots_def)

lemma slots_entry: "mq_slots Q xs (i # fr) \<Longrightarrow> unat (mq_entry Q + 1) = Suc (length xs)"
  using unat_suc [of "mq_entry Q" "max_msgs Q"] by (simp add: mq_slots_def)

lemma slots_nonempty: "mq_slots Q xs fr \<Longrightarrow> (mq_entry Q = 0) = (xs = [])"
  by (auto simp: mq_slots_def unat_eq_0)

lemmas mq_defs = mq_link_last_def mq_link_first_def mq_fill_def mq_alloc_def mq_unlink_def mq_free_def set_next_def Let_def

lemma send_slot_ok:
  assumes "mq_slots Q xs fr" "queue_free Q = Some i" "length buf \<le> unat (msg_size Q)"
  shows "mq_slots (send_slot i buf Q) (xs @ [i]) (tl fr)" "msg_size (send_slot i buf Q) = msg_size Q"
    "map (slot_data (send_slot i buf Q)) (xs @ [i]) = map (slot_data Q) xs @ [overwrite 0 buf (slot_data Q i)]"
    "max_msgs (send_slot i buf Q) = max_msgs Q"
proof -
  let ?Q = "send_slot i buf Q"
  obtain gr where fr: "fr = i # gr" using assms(1,2) by (cases fr) (auto simp: mq_slots_def)
  have a: "chain (slot_next Q) (queue_head Q) xs" "chain (slot_next Q) (slot_next Q i) gr" "distinct (xs @ i # gr)"
    "queue_tail Q = (if xs = [] then None else Some (last xs))" "length (xs @ i # gr) = unat (max_msgs Q)"
    "\<forall>j \<in> set (xs @ i # gr). length (slot_data Q j) = unat (msg_size Q)"
    using assms(1) by (simp_all add: mq_slots_def fr)
  have n: "slot_next ?Q = (if xs = [] then (slot_next Q)(i := None) else (slot_next Q)(i := None, last xs := Some i))"
    "queue_free ?Q = slot_next Q i" "queue_head ?Q = (if xs = [] then Some i else queue_head Q)" "queue_tail ?Q = Some i"
    "slot_data ?Q = (slot_data Q)(i := overwrite 0 buf (slot_data Q i))" "mq_entry ?Q = mq_entry Q + 1"
    "max_msgs ?Q = max_msgs Q" "msg_size ?Q = msg_size Q"
    using a(1,4) slots_head [OF assms(1)] by (simp_all add: send_slot_def mq_defs)
  have l: "xs \<noteq> [] \<Longrightarrow> last xs \<in> set xs" by simp
  have c1: "chain (slot_next ?Q) (queue_head ?Q) (xs @ [i])"
  proof (cases "xs = []")
    case False
    have "last xs \<noteq> i" using l [OF False] a(3) by auto
    then have "slot_next ?Q = (slot_next Q)(last xs := Some i, i := None)" using False n(1) by (simp add: fun_upd_twist)
    then show ?thesis using chain_snoc [OF a(1) False] a(3) False n(3) by simp
  qed (simp add: n)
  have "last xs \<notin> set gr" if "xs \<noteq> []" using l [OF that] a(3) by auto
  then have c2: "chain (slot_next ?Q) (queue_free ?Q) gr" using a(2,3) by (simp add: n)
  have d: "\<forall>j \<in> set ((xs @ [i]) @ gr). length (slot_data ?Q j) = unat (msg_size ?Q)"
    using a(6) assms(3) by (simp add: n)
  have e: "unat (mq_entry ?Q) = length (xs @ [i])" using slots_entry [of Q xs i gr] assms(1) fr by (simp add: n)
  have i: "queue_tail ?Q = (if xs @ [i] = [] then None else Some (last (xs @ [i])))" by (simp add: n)
  have di: "distinct ((xs @ [i]) @ gr)" "length ((xs @ [i]) @ gr) = unat (max_msgs ?Q)" using a(3,5) by (simp_all add: n)
  show "mq_slots ?Q (xs @ [i]) (tl fr)" unfolding mq_slots_def fr list.sel
    by (intro conjI; (rule c1 c2 di i e d))
  show "msg_size ?Q = msg_size Q" "max_msgs ?Q = max_msgs Q" by (simp_all add: n)
  show "map (slot_data ?Q) (xs @ [i]) = map (slot_data Q) xs @ [overwrite 0 buf (slot_data Q i)]"
    using a(3) by (simp add: n)
qed

lemma urgent_slot_ok:
  assumes "mq_slots Q xs fr" "queue_free Q = Some i" "length buf \<le> unat (msg_size Q)"
  shows "mq_slots (urgent_slot i buf Q) (i # xs) (tl fr)" "msg_size (urgent_slot i buf Q) = msg_size Q"
    "map (slot_data (urgent_slot i buf Q)) (i # xs) = overwrite 0 buf (slot_data Q i) # map (slot_data Q) xs"
    "max_msgs (urgent_slot i buf Q) = max_msgs Q"
proof -
  let ?Q = "urgent_slot i buf Q"
  obtain gr where fr: "fr = i # gr" using assms(1,2) by (cases fr) (auto simp: mq_slots_def)
  have a: "chain (slot_next Q) (queue_head Q) xs" "chain (slot_next Q) (slot_next Q i) gr" "distinct (xs @ i # gr)"
    "queue_tail Q = (if xs = [] then None else Some (last xs))" "length (xs @ i # gr) = unat (max_msgs Q)"
    "\<forall>j \<in> set (xs @ i # gr). length (slot_data Q j) = unat (msg_size Q)"
    using assms(1) by (simp_all add: mq_slots_def fr)
  have n: "slot_next ?Q = (slot_next Q)(i := queue_head Q)" "queue_free ?Q = slot_next Q i" "queue_head ?Q = Some i"
    "queue_tail ?Q = Some (last (i # xs))" "slot_data ?Q = (slot_data Q)(i := overwrite 0 buf (slot_data Q i))"
    "mq_entry ?Q = mq_entry Q + 1" "max_msgs ?Q = max_msgs Q" "msg_size ?Q = msg_size Q"
    using a(4) by (auto simp: urgent_slot_def mq_defs)
  have e: "unat (mq_entry ?Q) = length (i # xs)" using slots_entry [of Q xs i gr] assms(1) fr by (simp add: n)
  show "mq_slots ?Q (i # xs) (tl fr)" "msg_size ?Q = msg_size Q" "max_msgs ?Q = max_msgs Q"
    "map (slot_data ?Q) (i # xs) = overwrite 0 buf (slot_data Q i) # map (slot_data Q) xs"
    using a assms(3) e by (auto simp: mq_slots_def fr n)
qed

lemma recv_slot_ok:
  assumes "mq_slots Q (i # xs) fr"
  shows "mq_slots (recv_slot i Q) xs (i # fr)" "slot_data (recv_slot i Q) = slot_data Q" "msg_size (recv_slot i Q) = msg_size Q"
    "max_msgs (recv_slot i Q) = max_msgs Q"
proof -
  let ?Q = "recv_slot i Q"
  have a: "chain (slot_next Q) (slot_next Q i) xs" "chain (slot_next Q) (queue_free Q) fr" "distinct (i # xs @ fr)"
    "queue_tail Q = Some (last (i # xs))" "length (i # xs @ fr) = unat (max_msgs Q)" "unat (mq_entry Q) = Suc (length xs)"
    "\<forall>j \<in> set (i # xs @ fr). length (slot_data Q j) = unat (msg_size Q)"
    using assms by (simp_all add: mq_slots_def)
  have t: "queue_tail ?Q = (if xs = [] then None else Some (last xs))"
    using a(3,4) last_in_set [of xs] by (auto simp: recv_slot_def mq_defs)
  have "mq_entry Q \<noteq> 0" using a(6) by auto
  then have e: "unat (mq_entry Q - 1) = length xs" using a(6) by (simp add: unat_minus_one)
  have n: "slot_next ?Q = (slot_next Q)(i := queue_free Q)" "queue_free ?Q = Some i" "queue_head ?Q = slot_next Q i"
    "slot_data ?Q = slot_data Q" "mq_entry ?Q = mq_entry Q - 1" "max_msgs ?Q = max_msgs Q" "msg_size ?Q = msg_size Q"
    by (auto simp: recv_slot_def mq_defs)
  show "mq_slots ?Q xs (i # fr)" "slot_data ?Q = slot_data Q" "msg_size ?Q = msg_size Q" "max_msgs ?Q = max_msgs Q"
    using a e t by (auto simp: mq_slots_def n)
qed

text \<open>A new queue: all slots are free.\<close>

lemma free_slots_chain:
  "free_slots n (nx, None) = (nx', fr) \<Longrightarrow> chain nx' fr (rev [0..<n]) \<and> (\<forall>i \<ge> n. nx' i = nx i)"
proof (induction n arbitrary: nx' fr)
  case (Suc n)
  obtain nx1 f1 where 1: "free_slots n (nx, None) = (nx1, f1)" by (cases "free_slots n (nx, None)") auto
  then show ?case using Suc.IH [OF 1] Suc.prems by auto
qed simp

lemma mq_fresh_ok:
  assumes "\<forall>i < unat n. length (d i) = unat sz"
  shows "mq_slots (mq_fresh d sz n flag) [] (rev [0..<unat n])"
proof -
  obtain nx fr where f: "free_slots (unat n) (\<lambda>_. None, None) = (nx, fr)" by (cases "free_slots (unat n) (\<lambda>_. None, None)") auto
  show ?thesis using free_slots_chain [OF f] assms by (simp add: mq_fresh_def f mq_slots_def)
qed

text \<open>Draining ends.\<close>

lemma mq_drain_slots:
  assumes "mq_slots (Q\<lparr>mq_entry := k\<rparr>) xs fr"
  shows "\<exists>Q'. mq_drain Q = Some Q' \<and> mq_slots (Q'\<lparr>mq_entry := 0\<rparr>) [] (rev xs @ fr) \<and> msg_size Q' = msg_size Q"
  using assms
proof (induction xs arbitrary: Q fr k)
  case Nil
  have "mq_drain Q = Some Q" using slots_head [OF Nil] by (subst mq_drain.simps) simp
  then show ?case using Nil by (simp add: mq_slots_def)
next
  case (Cons i xs)
  let ?Q = "mq_free i (mq_unlink i Q)"
  have "recv_slot i (Q\<lparr>mq_entry := k\<rparr>) = ?Q\<lparr>mq_entry := k - 1\<rparr>"
    by (intro rt_mq.equality) (simp_all add: recv_slot_def mq_defs)
  then have r: "mq_slots (?Q\<lparr>mq_entry := k - 1\<rparr>) xs (i # fr)" using recv_slot_ok(1) [OF Cons.prems] by simp
  have "mq_drain Q = mq_drain ?Q" using slots_head [OF Cons.prems] by (subst mq_drain.simps) simp
  moreover have "msg_size ?Q = msg_size Q" by (simp add: mq_defs)
  ultimately show ?case using Cons.IH [OF r] by auto
qed

lemma mq_drain_ok:
  assumes "mq_slots Q xs fr"
  shows "\<exists>Q'. mq_drain Q = Some Q' \<and> mq_slots (Q'\<lparr>mq_entry := 0\<rparr>) [] (rev xs @ fr)"
proof -
  have "Q\<lparr>mq_entry := mq_entry Q\<rparr> = Q" by simp
  then show ?thesis using mq_drain_slots [where Q = Q and k = "mq_entry Q" and xs = xs and fr = fr] assms by auto
qed

end
