(* ===== verification/KernelCalls.thy ===== *)
theory KernelCalls imports KernelSched IpcQueues begin

text \<open>Every IPC call keeps the invariant of the kernel
  and of its objects, and no assertion fails on the way.\<close>

subsection \<open>What the base operations leave alone\<close>

lemma more_fields:
  assumes "kernel.more K' = kernel.more (K :: os)"
  shows "sems K' = sems K" "mtxs K' = mtxs K" "evts K' = evts K" "mbxs K' = mbxs K" "mqs K' = mqs K"
  using assms by (cases K; cases K'; simp)+

lemma list_suspend_more [simp]: "kernel.more (rt_ipc_list_suspend q t flag K) = kernel.more K"
  by (simp add: rt_ipc_list_suspend_def rt_thread_suspend_def rt_timer_stop_def rt_schedule_remove_thread_def Let_def kernel_defs timer_remove_def)

lemma wait_timer_more:
  assumes "wait_timer t time K = Some K'"
  shows "kernel.more K' = kernel.more K" "irq_nest K' = irq_nest K" "k_tick K' = k_tick K"
  using assms by (auto simp: wait_timer_def start_thread_timer_def rt_timer_control_def rt_timer_start_def Let_def set_tm_def timer_remove_def
      split: if_splits)

lemma list_suspend_links:
  assumes "kernel_ok K" "t_stat (th K t) = Thread_ready" "list_stat q = Thread_suspend"
  shows "links (rt_ipc_list_suspend q t flag K) q = (if flag = RT_IPC_FLAG_FIFO then links K q @ [t]
    else if flag = RT_IPC_FLAG_PRIO then insert_prio (\<lambda>x. current_priority (th K x)) t (links K q) else links K q)"
proof -
  note s = suspend_ok [OF assms(1,2)]
  have "t \<notin> set (links K q)" using assms by (auto simp: kernel_ok_def lists_ok_def)
  moreover have "(\<lambda>x. current_priority (th (snd (rt_thread_suspend t K)) x)) = (\<lambda>x. current_priority (th K x))"
    using s(4) by auto
  ultimately show ?thesis using s(5) [of q]
    by (simp add: rt_ipc_list_suspend_def Let_def link_last_def ipc_flags)
qed

lemma set_th_good:
  assumes "good idle K" "\<And>x. t_stat (f x) = t_stat x" "\<And>x. current_priority (f x) = current_priority x" "\<And>x. number_mask (f x) = number_mask x"
  shows "good idle (set_th t f K)"
proof -
  have "kernel_ok (set_th t f K)" using assms by (auto simp: good_def can_run_def set_th_def intro!: kernel_ok_cong [of K])
  then show ?thesis using assms by (auto simp: good_def can_run_def live_def set_th_def)
qed

text \<open>The current thread waits on a list: the next one runs.\<close>

lemma suspend_block:
  assumes "good idle K" "cur K = Some t" "t \<noteq> idle" "list_stat q = Thread_suspend" "sint time < 2 ^ 31 - 1"
  shows "\<exists>K'. Option.bind (wait_timer t time (rt_ipc_list_suspend q t flag K)) (block c) = Some (Blocked c, K')
    \<and> good idle K' \<and> th K' = (th K)(t := (th K t)\<lparr>t_stat := Thread_suspend\<rparr>)
    \<and> links K' q = (if flag = RT_IPC_FLAG_FIFO then links K q @ [t]
        else if flag = RT_IPC_FLAG_PRIO then insert_prio (\<lambda>x. current_priority (th K x)) t (links K q) else links K q)
    \<and> (\<forall>r. r \<noteq> q \<longrightarrow> (\<forall>p. r \<noteq> Ready p) \<longrightarrow> links K' r = links K r)
    \<and> kernel.more K' = kernel.more K \<and> irq_nest K' = irq_nest K \<and> k_tick K' = k_tick K"
proof -
  have k: "kernel_ok K" "t_stat (th K t) = Thread_ready" using assms(1,2) by (auto simp: good_def can_run_def live_def)
  let ?S = "rt_ipc_list_suspend q t flag K"
  note s = list_suspend_ok [OF k assms(4), where flag = flag]
  have st: "t_stat (th ?S t) = Thread_suspend" using s(2) by simp
  obtain W where w: "wait_timer t time ?S = Some W" "kernel_ok W" "links W = links ?S" "th W = th ?S" "cur W = cur ?S" "lock_nest W = lock_nest ?S"
    using wait_timer_ok [OF s(1) st assms(5)] .
  have "can_run idle W" using assms(1,3) w s by (auto simp: good_def can_run_def)
  then obtain K' where k': "rt_schedule W = Some K'" "good idle K'" "scheduled W K'" using schedule_run by blast
  note c = scheduled_keeps [OF k'(3)]
  have t: "t \<notin> set (links K r)" if "\<forall>p. r \<noteq> Ready p" for r
    using k that ready_not_waiting [of K t r] by (auto simp: kernel_ok_def)
  have l: "links K' r = links K r" if "r \<noteq> q" "\<forall>p. r \<noteq> Ready p" for r
    using s(6) [OF that(1)] t [OF that(2)] by (simp add: c w(3))
  have b: "Option.bind (wait_timer t time ?S) (block c) = Some (Blocked c, K')" using w(1) k'(1) by (simp add: block_def)
  have th: "th K' = (th K)(t := (th K t)\<lparr>t_stat := Thread_suspend\<rparr>)" using s(2) w(4) by (simp add: c)
  have lq: "links K' q = (if flag = RT_IPC_FLAG_FIFO then links K q @ [t]
        else if flag = RT_IPC_FLAG_PRIO then insert_prio (\<lambda>x. current_priority (th K x)) t (links K q) else links K q)"
    using list_suspend_links [OF k assms(4), where flag = flag] by (simp add: c w(3))
  have m: "kernel.more K' = kernel.more K" "irq_nest K' = irq_nest K" "k_tick K' = k_tick K"
    using wait_timer_more [OF w(1)] scheduled_more [OF k'(3)] s(7,8) by (simp_all add: c)
  show ?thesis
    by (intro exI [of _ K'] conjI; (rule b k'(2) th lq m)?) (use l in blast)
qed

text \<open>Waking the first waiting thread and calling the scheduler.\<close>

lemma resume_schedule:
  assumes "good idle K" "list_stat q = Thread_suspend" "links K q = t # ts"
  shows "\<exists>K'. rt_schedule (rt_ipc_list_resume q K) = Some K' \<and> good idle K'
    \<and> th K' = (th K)(t := (th K t)\<lparr>t_stat := Thread_ready\<rparr>) \<and> links K' q = ts
    \<and> (\<forall>r. r \<noteq> q \<longrightarrow> (\<forall>p. r \<noteq> Ready p) \<longrightarrow> links K' r = links K r)
    \<and> kernel.more K' = kernel.more K \<and> irq_nest K' = irq_nest K \<and> k_tick K' = k_tick K
    \<and> scheduled (rt_ipc_list_resume q K) K'"
proof -
  let ?R = "rt_ipc_list_resume q K"
  have k: "kernel_ok K" using assms(1) by (simp add: good_def can_run_def)
  note r = list_resume_ok [OF k assms(2,3)]
  have "can_run idle ?R" using assms(1) r by (auto simp: good_def can_run_def)
  then obtain K' where k': "rt_schedule ?R = Some K'" "good idle K'" "scheduled ?R K'" using schedule_run by blast
  note c = scheduled_keeps [OF k'(3)]
  have i: "irq_nest ?R = irq_nest K" "k_tick ?R = k_tick K" by (simp_all add: rt_ipc_list_resume_def)
  show ?thesis using k' r i scheduled_more [OF k'(3)] by (intro exI [of _ K']) (simp add: c)
qed

subsection \<open>The objects\<close>

definition mutex_ok :: "rt_mutex \<Rightarrow> bool" where
  "mutex_ok M = (case owner M of None \<Rightarrow> mtx_value M = 1 | Some h \<Rightarrow> mtx_value M = 0 \<and> unat (original_priority M) < 32)"

definition objects_ok :: "os \<Rightarrow> bool" where
  "objects_ok K = ((\<forall>m. mutex_ok (mtxs K m)) \<and> (\<forall>m. mb_ok (mbxs K m)) \<and> (\<forall>m. mq_ok (mqs K m)))"

definition sys_ok :: "nat \<Rightarrow> os \<Rightarrow> bool" where
  "sys_ok idle K = (good idle K \<and> objects_ok K \<and> irq_nest K = 0)"

lemma more_objects: "kernel.more K' = kernel.more (K :: os) \<Longrightarrow> objects_ok K' = objects_ok K"
  using more_fields [of K' K] by (simp add: objects_ok_def)

text \<open>Changing the objects does not touch the kernel.\<close>

lemma kernel_ok_same:
  assumes "th K' = th K" "links K' = links K" "ready_group K' = ready_group K" "timer_list K' = timer_list K" "tm K' = tm K"
  shows "kernel_ok K' = kernel_ok K"
  using kernel_ok_cong [of K K'] kernel_ok_cong [of K' K] assms by auto

lemma kernel_ok_objects [simp]:
  "kernel_ok (K\<lparr>sems := a\<rparr>) = kernel_ok K" "kernel_ok (K\<lparr>mtxs := b\<rparr>) = kernel_ok K" "kernel_ok (K\<lparr>evts := c\<rparr>) = kernel_ok K"
  "kernel_ok (K\<lparr>mbxs := d\<rparr>) = kernel_ok K" "kernel_ok (K\<lparr>mqs := e\<rparr>) = kernel_ok K"
  by (rule kernel_ok_same; simp)+

lemma good_objects [simp]:
  "good idle (K\<lparr>sems := a\<rparr>) = good idle K" "good idle (K\<lparr>mtxs := b\<rparr>) = good idle K" "good idle (K\<lparr>evts := c\<rparr>) = good idle K"
  "good idle (K\<lparr>mbxs := d\<rparr>) = good idle K" "good idle (K\<lparr>mqs := e\<rparr>) = good idle K"
  by (simp_all add: good_def live_def can_run_def)

lemma sys_okI: "good idle K \<Longrightarrow> objects_ok K \<Longrightarrow> irq_nest K = 0 \<Longrightarrow> sys_ok idle K"
  by (simp add: sys_ok_def)

lemma sys_okD: "sys_ok idle K \<Longrightarrow> good idle K" "sys_ok idle K \<Longrightarrow> objects_ok K" "sys_ok idle K \<Longrightarrow> irq_nest K = 0"
  "sys_ok idle K \<Longrightarrow> kernel_ok K" "sys_ok idle K \<Longrightarrow> in_thread K"
  by (auto simp: sys_ok_def good_def can_run_def in_thread_def live_def)

lemma sys_ok_more:
  assumes "sys_ok idle K" "good idle K'" "kernel.more K' = kernel.more K" "irq_nest K' = irq_nest K"
  shows "sys_ok idle K'"
  using assms more_objects [OF assms(3)] by (simp add: sys_ok_def)

lemma sys_ok_th:
  assumes "sys_ok idle K" "\<And>x. t_stat (f x) = t_stat x" "\<And>x. current_priority (f x) = current_priority x" "\<And>x. number_mask (f x) = number_mask x"
  shows "sys_ok idle (set_th t f K)"
  by (rule sys_ok_more [OF assms(1) set_th_good [OF sys_okD(1) [OF assms(1)] assms(2-4)]]) (simp_all add: set_th_def)

subsection \<open>Each call\<close>

text \<open>A call returns or leaves its thread waiting, and the system is well formed after it.\<close>

definition runs_ok :: "nat \<Rightarrow> ('a \<times> os) option \<Rightarrow> bool" where
  "runs_ok idle r = (\<exists>a K'. r = Some (a, K') \<and> sys_ok idle K')"

lemma runs_okI: "r = Some (a, K') \<Longrightarrow> sys_ok idle K' \<Longrightarrow> runs_ok idle r"
  by (auto simp: runs_ok_def)

lemma runs_return: "sys_ok idle K \<Longrightarrow> runs_ok idle (return a K)"
  by (simp add: runs_ok_def return_def)

lemma runs_suspend:
  assumes "sys_ok idle K" "cur K = Some t" "t \<noteq> idle" "list_stat q = Thread_suspend" "sint time < 2 ^ 31 - 1"
  shows "runs_ok idle (Option.bind (wait_timer t time (rt_ipc_list_suspend q t flag K)) (block c))"
  using suspend_block [OF sys_okD(1) [OF assms(1)] assms(2-5), of flag c] sys_ok_more [OF assms(1)]
  by (auto simp: runs_ok_def)

lemma runs_resume:
  assumes "sys_ok idle K" "list_stat q = Thread_suspend" "links K q \<noteq> []"
  shows "runs_ok idle (map_option (Pair a) (rt_schedule (rt_ipc_list_resume q K)))"
  using assms(3) resume_schedule [OF sys_okD(1) [OF assms(1)] assms(2)] sys_ok_more [OF assms(1)]
  by (cases "links K q") (auto simp: runs_ok_def)

lemma runs_map: "runs_ok idle r \<Longrightarrow> runs_ok idle (map_option (\<lambda>(a, K). (f a, K)) r)"
  by (auto simp: runs_ok_def)

lemma sys_sem [simp]: "sys_ok idle (K\<lparr>sems := a\<rparr>) = sys_ok idle K" "sys_ok idle (K\<lparr>evts := b\<rparr>) = sys_ok idle K"
  by (simp_all add: sys_ok_def objects_ok_def)

lemma list_stat_simps [simp]: "list_stat (Waiting o1) = Thread_suspend" "list_stat (Sending n) = Thread_suspend"
  by (simp_all add: list_stat_def)

lemma sem_take_runs:
  assumes "sys_ok idle K" "cur K = Some t" "t \<noteq> idle" "sint time < 2 ^ 31 - 1"
  shows "runs_ok idle (rt_sem_take s time K)"
proof -
  have e: "sys_ok idle (set_th t (\<lambda>x. x\<lparr>t_error := RT_EOK\<rparr>) K)" by (rule sys_ok_th [OF assms(1)]) simp_all
  have c: "cur (set_th t (\<lambda>x. x\<lparr>t_error := RT_EOK\<rparr>) K) = Some t" using assms(2) by (simp add: set_th_def)
  show ?thesis
    using assms(1,2) sys_okD(5) [OF assms(1)]
    by (auto simp: rt_sem_take_def Let_def intro!: runs_return runs_suspend [OF e c assms(3) _ assms(4)])
qed

lemma sem_release_runs:
  assumes "sys_ok idle K"
  shows "runs_ok idle (rt_sem_release s K)"
  using runs_resume [OF assms, of "Waiting (Sem s)" RT_EOK] assms
  by (auto simp: rt_sem_release_def return_schedule_def runs_ok_def)


lemma set_th_fields [simp]:
  "sems (set_th t f K) = sems K" "mtxs (set_th t f K) = mtxs K" "evts (set_th t f K) = evts K" "mbxs (set_th t f K) = mbxs K"
  "mqs (set_th t f K) = mqs K" "cur (set_th t f K) = cur K" "links (set_th t f K) = links K" "irq_nest (set_th t f K) = irq_nest K"
  "k_tick (set_th t f K) = k_tick K" "in_thread (set_th t f K) = in_thread K"
  by (simp_all add: set_th_def in_thread_def)

lemma mutex_ok_hold [simp]: "mutex_ok (M\<lparr>hold := n\<rparr>) = mutex_ok M"
  by (simp add: mutex_ok_def split: option.split)

lemma sys_ok_mtx: "sys_ok idle K \<Longrightarrow> mutex_ok (f (mtxs K m)) \<Longrightarrow> sys_ok idle (set_mtx m f K)"
  by (auto simp: set_mtx_def sys_ok_def objects_ok_def)

lemma sys_ok_mb: "sys_ok idle K \<Longrightarrow> mb_ok (f (mbxs K m)) \<Longrightarrow> sys_ok idle (set_mb m f K)"
  by (auto simp: set_mb_def sys_ok_def objects_ok_def)

lemma sys_ok_mq: "sys_ok idle K \<Longrightarrow> mq_ok (f (mqs K m)) \<Longrightarrow> sys_ok idle (set_mq m f K)"
  by (auto simp: set_mq_def sys_ok_def objects_ok_def)

lemma set_obj_links [simp]:
  "links (set_mtx m f K) = links K" "links (set_mb n g K) = links K" "links (set_mq k h K) = links K"
  "th (set_mtx m f K) = th K" "th (set_mb n g K) = th K" "th (set_mq k h K) = th K"
  "cur (set_mtx m f K) = cur K" "cur (set_mb n g K) = cur K" "cur (set_mq k h K) = cur K"
  by (simp_all add: set_mtx_def set_mb_def set_mq_def)

lemma sys_ok_prio:
  assumes "sys_ok idle K" "unat p < 32"
  shows "sys_ok idle (change_priority h p K)"
proof -
  note c = change_priority_ok [OF sys_okD(4) [OF assms(1)] assms(2), where t = h]
  have "good idle (change_priority h p K)"
    using sys_okD(1) [OF assms(1)] c by (auto simp: good_def can_run_def live_def)
  then show ?thesis by (rule sys_ok_more [OF assms(1)]) (simp_all add: c)
qed

lemma ready_prio: "sys_ok idle K \<Longrightarrow> t_stat (th K t) \<in> {Thread_ready, Thread_suspend} \<Longrightarrow> unat (current_priority (th K t)) < 32"
  by (auto dest!: sys_okD(4) simp: kernel_ok_def prios_ok_def prio_ok_def)

lemma running: "sys_ok idle K \<Longrightarrow> cur K = Some t \<Longrightarrow> t_stat (th K t) = Thread_ready"
  by (auto simp: sys_ok_def good_def live_def)

lemma mutex_take_runs:
  assumes "sys_ok idle K" "cur K = Some t" "t \<noteq> idle" "sint time < 2 ^ 31 - 1"
  shows "runs_ok idle (rt_mutex_take m time K)"
proof -
  let ?E = "set_th t (\<lambda>x. x\<lparr>t_error := RT_EOK\<rparr>) K"
  have e: "sys_ok idle ?E" by (rule sys_ok_th [OF assms(1)]) simp_all
  have c: "cur ?E = Some t" "mtxs ?E = mtxs K" using assms(2) by (simp_all add: set_th_def)
  have p: "unat (current_priority (th ?E t)) < 32" using ready_prio [OF e] running [OF e c(1)] by simp
  have m: "mutex_ok (mtxs K m)" using sys_okD(2) [OF assms(1)] by (simp add: objects_ok_def)
  have f: "sys_ok idle (set_th t (\<lambda>x. x\<lparr>t_error := - RT_ETIMEOUT\<rparr>) ?E)" by (rule sys_ok_th [OF e]) simp_all
  have i: "in_thread K" using sys_okD(5) [OF assms(1)] .
  consider "owner (mtxs K m) = Some t" | "owner (mtxs K m) \<noteq> Some t" "mtx_value (mtxs K m) > 0"
    | "owner (mtxs K m) \<noteq> Some t" "\<not> mtx_value (mtxs K m) > 0" "time = 0"
    | "owner (mtxs K m) \<noteq> Some t" "\<not> mtx_value (mtxs K m) > 0" "time \<noteq> 0" by blast
  then show ?thesis
  proof cases
    case 1
    have "mutex_ok ((mtxs ?E m)\<lparr>hold := hold (mtxs ?E m) + 1\<rparr>)" using m c by simp
    from sys_ok_mtx [OF e, of "\<lambda>M. M\<lparr>hold := hold M + 1\<rparr>", OF this] show ?thesis
      using 1 i assms(2) by (simp add: rt_mutex_take_def Let_def runs_return)
  next
    case 2
    let ?f = "\<lambda>M. M\<lparr>mtx_value := mtx_value M - 1, owner := Some t, original_priority := current_priority (th ?E t), hold := hold M + 1\<rparr>"
    have "mutex_ok (?f (mtxs ?E m))" using m c p 2 by (auto simp: mutex_ok_def split: option.splits)
    from sys_ok_mtx [OF e, of ?f, OF this] show ?thesis
      using 2 i assms(2) by (simp add: rt_mutex_take_def Let_def runs_return)
  next
    case 3
    then show ?thesis using f i assms(2) by (simp add: rt_mutex_take_def Let_def runs_return)
  next
    case 4
    obtain h where h: "owner (mtxs K m) = Some h" using m 4 by (auto simp: mutex_ok_def split: option.splits)
    let ?P = "if current_priority (th ?E t) < current_priority (th ?E h) then change_priority h (current_priority (th ?E t)) ?E else ?E"
    have P: "sys_ok idle ?P" using sys_ok_prio [OF e p] e by simp
    have cP: "cur ?P = Some t" using change_priority_ok(3) [OF sys_okD(4) [OF e] p] c(1) by simp
    show ?thesis
      using runs_suspend [OF P cP assms(3) _ assms(4), of "Waiting (Mtx m)" "mtx_flag (mtxs K m)" C_mutex] 4 i h assms(2)
      by (simp add: rt_mutex_take_def Let_def)
  qed
qed

lemma mutex_release_runs:
  assumes "sys_ok idle K" "cur K = Some t"
  shows "runs_ok idle (rt_mutex_release m K)"
proof -
  have i: "in_thread K" using sys_okD(5) [OF assms(1)] .
  have m: "mutex_ok (mtxs K m)" using sys_okD(2) [OF assms(1)] by (simp add: objects_ok_def)
  show ?thesis
  proof (cases "owner (mtxs K m) = Some t")
    case False
    have "sys_ok idle (set_th t (\<lambda>x. x\<lparr>t_error := - RT_ERROR\<rparr>) K)" by (rule sys_ok_th [OF assms(1)]) simp_all
    then show ?thesis using False i assms(2) by (auto simp: rt_mutex_release_def runs_ok_def)
  next
    case True
    let ?H = "set_mtx m (\<lambda>M. M\<lparr>hold := hold M - 1\<rparr>) K"
    have H: "sys_ok idle ?H" by (rule sys_ok_mtx [OF assms(1)]) (use m in simp)
    have M: "mtxs ?H m = (mtxs K m)\<lparr>hold := hold (mtxs K m) - 1\<rparr>" by (simp add: set_mtx_def)
    have op: "unat (original_priority (mtxs ?H m)) < 32" using m True by (simp add: M mutex_ok_def)
    let ?P = "if original_priority (mtxs ?H m) \<noteq> current_priority (th ?H t) then change_priority t (original_priority (mtxs ?H m)) ?H else ?H"
    have P: "sys_ok idle ?P" using sys_ok_prio [OF H op] H by simp
    have mP: "mtxs ?P = mtxs ?H" using more_fields [OF change_priority_ok(7) [OF sys_okD(4) [OF H] op]] by simp
    show ?thesis
    proof (cases "hold (mtxs ?H m) = 0")
      case False
      then show ?thesis using True H i assms(2) by (auto simp: rt_mutex_release_def Let_def runs_ok_def)
    next
      case h0: True
      show ?thesis
      proof (cases "links ?P (Waiting (Mtx m))")
        case Nil
        have "sys_ok idle (set_mtx m (\<lambda>M. M\<lparr>mtx_value := mtx_value M + 1, owner := None, original_priority := 0xff\<rparr>) ?P)"
          by (rule sys_ok_mtx [OF P]) (use m True mP M in \<open>simp add: mutex_ok_def\<close>)
        moreover have "rt_mutex_release m K = Some (RT_EOK, set_mtx m (\<lambda>M. M\<lparr>mtx_value := mtx_value M + 1, owner := None, original_priority := 0xff\<rparr>) ?P)"
          using True i assms(2) h0 Nil by (simp add: rt_mutex_release_def Let_def del: set_obj_links)
        ultimately show ?thesis by (auto simp: runs_ok_def)
      next
        case (Cons w ws)
        let ?f = "\<lambda>M. M\<lparr>owner := Some w, original_priority := current_priority (th ?P w), hold := hold M + 1\<rparr>"
        have "t_stat (th ?P w) = Thread_suspend"
          using waiting_suspended [OF sys_okD(4) [OF P], of "Waiting (Mtx m)" w] Cons by simp
        then have "unat (current_priority (th ?P w)) < 32" using ready_prio [OF P] by simp
        then have W: "sys_ok idle (set_mtx m ?f ?P)"
          by (intro sys_ok_mtx [OF P]) (use m True mP M in \<open>simp add: mutex_ok_def\<close>)
        have ne: "links (set_mtx m ?f ?P) (Waiting (Mtx m)) \<noteq> []" using Cons by simp
        have eq: "rt_mutex_release m K = return_schedule RT_EOK (rt_ipc_list_resume (Waiting (Mtx m)) (set_mtx m ?f ?P))"
          using True i assms(2) h0 Cons by (simp add: rt_mutex_release_def Let_def del: set_obj_links)
        show ?thesis unfolding eq return_schedule_def by (rule runs_resume [OF W _ ne]) simp
      qed
    qed
  qed
qed


text \<open>Events: the walk over the waiting threads keeps the system well formed, although the flags of a thread
  and the list change under it.\<close>

definition set_evt :: "nat \<Rightarrow> u32 \<Rightarrow> os \<Rightarrow> os" where
  "set_evt e v K = K\<lparr>evts := (evts K)(e := (evts K e)\<lparr>evt_set := v\<rparr>)\<rparr>"

lemma set_evt_ok [simp]: "sys_ok idle (set_evt e v K) = sys_ok idle K" "links (set_evt e v K) = links K" "th (set_evt e v K) = th K"
  "can_run idle (set_evt e v K) = can_run idle K" "kernel_ok (set_evt e v K) = kernel_ok K" "cur (set_evt e v K) = cur K"
  "irq_nest (set_evt e v K) = irq_nest K" "objects_ok (set_evt e v K) = objects_ok K"
  by (simp_all add: set_evt_def can_run_def objects_ok_def)

text \<open>The state in the middle of a call: everything but the choice of the current thread.\<close>

definition mid_ok :: "nat \<Rightarrow> os \<Rightarrow> bool" where
  "mid_ok idle K = (can_run idle K \<and> objects_ok K \<and> irq_nest K = 0)"

lemma mid_schedule:
  assumes "mid_ok idle K"
  shows "runs_ok idle (map_option (Pair a) (rt_schedule K))"
proof -
  obtain K' where k: "rt_schedule K = Some K'" "good idle K'" "scheduled K K'"
    using schedule_run assms unfolding mid_ok_def by blast
  have "sys_ok idle K'"
    using k(2) assms more_objects [OF scheduled_more [OF k(3)]] scheduled_keeps(7) [OF k(3)] by (simp add: sys_ok_def mid_ok_def)
  then show ?thesis using k(1) by (simp add: runs_ok_def)
qed

lemma sys_mid: "sys_ok idle K \<Longrightarrow> mid_ok idle K"
  by (simp add: sys_ok_def mid_ok_def good_def)

lemma mid_set_th:
  assumes "mid_ok idle K" "t_stat (f (th K t)) = t_stat (th K t)" "current_priority (f (th K t)) = current_priority (th K t)"
    "number_mask (f (th K t)) = number_mask (th K t)"
  shows "mid_ok idle (set_th t f K)"
proof -
  have "kernel_ok (set_th t f K)" using assms by (auto simp: mid_ok_def can_run_def set_th_def intro!: kernel_ok_cong [of K])
  then show ?thesis using assms by (auto simp: mid_ok_def can_run_def set_th_def objects_ok_def)
qed

lemma mid_resume:
  assumes "mid_ok idle K" "t_stat (th K t) = Thread_suspend"
  shows "mid_ok idle (snd (rt_thread_resume t K))"
proof -
  note r = resume_ok [OF can_runD(1) assms(2)]
  show ?thesis using assms r [of idle] more_objects [of "snd (rt_thread_resume t K)" K] by (auto simp: mid_ok_def can_run_def)
qed

lemma event_status_keeps:
  assumes "event_status v x = (ok, y)"
  shows "t_stat y = t_stat x" "current_priority y = current_priority x" "number_mask y = number_mask x" "event_info y = event_info x"
    "t_error y = t_error x"
  using assms by (auto simp: event_status_def split: if_splits)

lemma event_wake_step:
  "event_wake e (t # ts) need K = (case event_status (evt_set (evts K e)) (th K t) of (ok, x) \<Rightarrow>
     let K1 = set_th t (\<lambda>_. x) K in
     if \<not> ok then event_wake e ts need K1
     else event_wake e ts True (snd (rt_thread_resume t
       (if event_info x AND RT_EVENT_FLAG_CLEAR \<noteq> 0 then set_evt e (evt_set (evts K1 e) AND NOT (event_set x)) K1 else K1))))"
  by (simp add: set_evt_def Let_def split: prod.split)

lemma event_wake_mid:
  assumes "mid_ok idle K" "\<forall>t \<in> set ts. t_stat (th K t) = Thread_suspend" "distinct ts"
  shows "\<exists>n K'. event_wake e ts need K = (n, K') \<and> mid_ok idle K'
    \<and> (\<not> n \<longrightarrow> \<not> need \<and> cur K' = cur K \<and> (\<forall>t. t_stat (th K' t) = t_stat (th K t)))"
  using assms
proof (induction ts arbitrary: need K)
  case (Cons t ts)
  obtain ok x where x: "event_status (evt_set (evts K e)) (th K t) = (ok, x)" by (cases "event_status (evt_set (evts K e)) (th K t)") auto
  note k = event_status_keeps [OF x]
  let ?K1 = "set_th t (\<lambda>_. x) K"
  have 1: "mid_ok idle ?K1" by (rule mid_set_th) (use Cons.prems k in simp_all)
  have st: "t_stat (th ?K1 r) = t_stat (th K r)" for r using k by (simp add: set_th_def)
  have s1: "\<forall>r \<in> set ts. t_stat (th ?K1 r) = Thread_suspend" using Cons.prems(2) st by simp
  show ?case
  proof (cases ok)
    case False
    have "event_wake e (t # ts) need K = event_wake e ts need ?K1" using x False by (simp add: Let_def)
    then show ?thesis using Cons.IH [OF 1 s1, of need] Cons.prems(3) by (auto simp: st)
  next
    case True
    let ?C = "if event_info x AND RT_EVENT_FLAG_CLEAR \<noteq> 0 then set_evt e (evt_set (evts ?K1 e) AND NOT (event_set x)) ?K1 else ?K1"
    let ?R = "snd (rt_thread_resume t ?C)"
    have c: "mid_ok idle ?C" "th ?C = th ?K1" using 1 by (simp_all add: mid_ok_def)
    have t: "t_stat (th ?C t) = Thread_suspend" using Cons.prems(2) st [of t] c(2) by simp
    have R: "mid_ok idle ?R" by (rule mid_resume [OF c(1) t])
    have "\<forall>r \<in> set ts. t_stat (th ?R r) = Thread_suspend"
      using s1 Cons.prems(3) resume_ok(3) [OF can_runD(1) t] c by (auto simp: mid_ok_def)
    from Cons.IH [OF R this, of True] Cons.prems(3) obtain n K' where
      "event_wake e ts True ?R = (n, K')" "mid_ok idle K'" "n" by auto
    moreover have "event_wake e (t # ts) need K = event_wake e ts True ?R"
      using x True by (simp add: event_wake_step Let_def del: event_wake.simps)
    ultimately show ?thesis by auto
  qed
qed simp

lemma event_send_runs:
  assumes "sys_ok idle K"
  shows "runs_ok idle (rt_event_send e v K)"
proof (cases "v = 0")
  case True
  then show ?thesis using assms by (simp add: rt_event_send_def runs_ok_def)
next
  case False
  let ?K = "set_evt e (evt_set (evts K e) OR v) K"
  have m: "mid_ok idle ?K" using sys_mid [OF assms] by (simp add: mid_ok_def)
  have k: "kernel_ok ?K" using sys_okD(4) [OF assms] by simp
  have s: "\<forall>t \<in> set (links ?K (Waiting (Evt e))). t_stat (th ?K t) = Thread_suspend"
    using waiting_suspended [OF k, of "Waiting (Evt e)"] by simp
  have d: "distinct (links ?K (Waiting (Evt e)))" using k by (simp add: kernel_ok_def lists_ok_def)
  obtain n K' where w: "event_wake e (links ?K (Waiting (Evt e))) False ?K = (n, K')" "mid_ok idle K'"
    "\<not> n \<longrightarrow> cur K' = cur ?K \<and> (\<forall>t. t_stat (th K' t) = t_stat (th ?K t))"
    using event_wake_mid [OF m s d, of e False] by blast
  have eq: "rt_event_send e v K = (if n then return_schedule RT_EOK K' else Some (RT_EOK, K'))"
    using w(1) False by (simp add: rt_event_send_def Let_def set_evt_def)
  show ?thesis
  proof (cases n)
    case True
    then show ?thesis using mid_schedule [OF w(2), of RT_EOK] eq by (simp add: return_schedule_def)
  next
    case False
    then have "live K'" using w(3) sys_okD(1) [OF assms] by (auto simp: good_def live_def)
    then have "sys_ok idle K'" using w(2) by (simp add: sys_ok_def mid_ok_def good_def)
    then show ?thesis using eq False by (simp add: runs_ok_def)
  qed
qed

lemma event_recv_runs:
  assumes "sys_ok idle K" "cur K = Some t" "t \<noteq> idle" "sint time < 2 ^ 31 - 1" "opt AND (RT_EVENT_FLAG_AND OR RT_EVENT_FLAG_OR) \<noteq> 0"
  shows "runs_ok idle (rt_event_recv e v opt time K)"
proof -
  have i: "in_thread K" using sys_okD(5) [OF assms(1)] .
  let ?E = "set_th t (\<lambda>x. x\<lparr>t_error := RT_EOK\<rparr>) K"
  have e: "sys_ok idle ?E" by (rule sys_ok_th [OF assms(1)]) simp_all
  have f: "sys_ok idle (set_th t (\<lambda>x. x\<lparr>t_error := - RT_ETIMEOUT\<rparr>) ?E)" by (rule sys_ok_th [OF e]) simp_all
  have g: "sys_ok idle (set_th t (\<lambda>x. x\<lparr>event_set := v, event_info := opt\<rparr>) ?E)" by (rule sys_ok_th [OF e]) simp_all
  have c: "cur (set_th t (\<lambda>x. x\<lparr>event_set := v, event_info := opt\<rparr>) ?E) = Some t" using assms(2) by simp
  have h: "sys_ok idle (?E\<lparr>evts := x\<rparr>)" for x using e by simp
  show ?thesis
    using i assms(1,2,5) e f h
    by (auto simp: rt_event_recv_def Let_def intro!: runs_return runs_suspend [OF g c assms(3) _ assms(4)] simp del: set_th_fields(3))
qed


lemma mailbox_ok: "sys_ok idle K \<Longrightarrow> mb_ok (mbxs K m)"
  by (simp add: sys_ok_def objects_ok_def)

lemma mb_send_runs:
  assumes "sys_ok idle K" "cur K = Some t" "t \<noteq> idle" "sint time < 2 ^ 31 - 1"
  shows "runs_ok idle (mb_send_loop m v time K)" "runs_ok idle (rt_mb_send_wait m v time K)"
proof -
  let ?E = "set_th t (\<lambda>x. x\<lparr>t_error := RT_EOK\<rparr>) K"
  have e: "sys_ok idle ?E" by (rule sys_ok_th [OF assms(1)]) simp_all
  have c: "cur ?E = Some t" using assms(2) by simp
  show l: "runs_ok idle (mb_send_loop m v time K)"
  proof (cases "mb_entry (mbxs K m) = mb_size (mbxs K m)")
    case True
    then show ?thesis using assms(2) sys_okD(5) [OF assms(1)] e
      by (auto simp: mb_send_loop_def Let_def intro!: runs_return runs_suspend [OF e c assms(3) _ assms(4)])
  next
    case False
    note p = put_mb_ok [OF mailbox_ok [OF assms(1), of m] False]
    have s: "sys_ok idle (set_mb m (put_mb v) K)" by (rule sys_ok_mb [OF assms(1)]) (rule p(1))
    show ?thesis
    proof (cases "links K (Waiting (Mbx m)) = []")
      case True
      then show ?thesis using False p(3) s by (simp add: mb_send_loop_def Let_def runs_return)
    next
      case w: False
      have eq: "mb_send_loop m v time K = map_option (Pair (Done RT_EOK)) (rt_schedule (rt_ipc_list_resume (Waiting (Mbx m)) (set_mb m (put_mb v) K)))"
        using False p(3) w by (simp add: mb_send_loop_def Let_def)
      show ?thesis unfolding eq by (rule runs_resume [OF s]) (use w in simp_all)
    qed
  qed
  show "runs_ok idle (rt_mb_send_wait m v time K)"
    using l assms(1) by (simp add: rt_mb_send_wait_def runs_return)
qed

lemma mb_recv_runs:
  assumes "sys_ok idle K" "cur K = Some t" "t \<noteq> idle" "sint time < 2 ^ 31 - 1"
  shows "runs_ok idle (mb_recv_loop m time K)" "runs_ok idle (rt_mb_recv m time K)"
proof -
  let ?E = "set_th t (\<lambda>x. x\<lparr>t_error := RT_EOK\<rparr>) K"
  have e: "sys_ok idle ?E" by (rule sys_ok_th [OF assms(1)]) simp_all
  have f: "sys_ok idle (set_th t (\<lambda>x. x\<lparr>t_error := - RT_ETIMEOUT\<rparr>) ?E)" by (rule sys_ok_th [OF e]) simp_all
  have c: "cur ?E = Some t" using assms(2) by simp
  show l: "runs_ok idle (mb_recv_loop m time K)"
  proof (cases "mb_entry (mbxs K m) = 0")
    case True
    then show ?thesis using assms(2) sys_okD(5) [OF assms(1)] f
      by (auto simp: mb_recv_loop_def Let_def intro!: runs_return runs_suspend [OF e c assms(3) _ assms(4)])
  next
    case False
    note p = take_mb_ok [OF mailbox_ok [OF assms(1), of m] False]
    let ?v = "msg_pool (mbxs K m) ! unat (out_offset (mbxs K m))"
    have s: "sys_ok idle (set_mb m take_mb K)" by (rule sys_ok_mb [OF assms(1)]) (rule p(1))
    show ?thesis
    proof (cases "links K (Sending m) = []")
      case True
      then show ?thesis using False p(3) s by (simp add: mb_recv_loop_def Let_def runs_return)
    next
      case w: False
      have eq: "mb_recv_loop m time K = map_option (Pair (Done (RT_EOK, Some ?v))) (rt_schedule (rt_ipc_list_resume (Sending m) (set_mb m take_mb K)))"
        using False p(3) w by (simp add: mb_recv_loop_def Let_def)
      show ?thesis unfolding eq by (rule runs_resume [OF s]) (use w in simp_all)
    qed
  qed
  show "runs_ok idle (rt_mb_recv m time K)"
    using l assms(1) by (simp add: rt_mb_recv_def runs_return)
qed

lemma mq_okI: "mq_slots Q xs fr \<Longrightarrow> mq_ok Q"
  by (auto simp: mq_ok_def)

lemma queue_ok: "sys_ok idle K \<Longrightarrow> \<exists>xs fr. mq_slots (mqs K m) xs fr"
  by (simp add: sys_ok_def objects_ok_def mq_ok_def)

lemma mq_wake_runs: "sys_ok idle K \<Longrightarrow> runs_ok idle (mq_wake m K)"
  using runs_resume [of idle K "Waiting (Mqu m)" RT_EOK] by (auto simp: mq_wake_def return_schedule_def runs_ok_def)

lemma mq_send_runs:
  assumes "sys_ok idle K" "buf \<noteq> []"
  shows "runs_ok idle (rt_mq_send m buf K)" "runs_ok idle (rt_mq_urgent m buf K)"
proof -
  obtain xs fr where q: "mq_slots (mqs K m) xs fr" using queue_ok [OF assms(1)] by blast
  have "sys_ok idle (set_mq m (send_slot i buf) K)" "sys_ok idle (set_mq m (urgent_slot i buf) K)"
    if "queue_free (mqs K m) = Some i" "length buf \<le> unat (msg_size (mqs K m))" for i
    by (rule sys_ok_mq [OF assms(1)], rule mq_okI [OF send_slot_ok(1) [OF q that]])
      (rule sys_ok_mq [OF assms(1)], rule mq_okI [OF urgent_slot_ok(1) [OF q that]])
  then show "runs_ok idle (rt_mq_send m buf K)" "runs_ok idle (rt_mq_urgent m buf K)"
    using assms by (auto simp: rt_mq_send_def rt_mq_urgent_def runs_ok_def [of _ "Some _"] intro!: mq_wake_runs split: option.split)
qed

lemma mq_recv_runs:
  assumes "sys_ok idle K" "cur K = Some t" "t \<noteq> idle" "sint time < 2 ^ 31 - 1" "n \<noteq> 0"
  shows "runs_ok idle (mq_recv_loop m n time K)" "runs_ok idle (rt_mq_recv m n time K)"
proof -
  let ?E = "set_th t (\<lambda>x. x\<lparr>t_error := RT_EOK\<rparr>) K"
  have e: "sys_ok idle ?E" by (rule sys_ok_th [OF assms(1)]) simp_all
  have f: "sys_ok idle (set_th t (\<lambda>x. x\<lparr>t_error := - RT_ETIMEOUT\<rparr>) ?E)" by (rule sys_ok_th [OF e]) simp_all
  have c: "cur ?E = Some t" using assms(2) by simp
  obtain xs fr where q: "mq_slots (mqs K m) xs fr" using queue_ok [OF assms(1)] by blast
  show l: "runs_ok idle (mq_recv_loop m n time K)"
  proof (cases xs)
    case Nil
    then have "mq_entry (mqs K m) = 0" using slots_nonempty [OF q] by simp
    then show ?thesis using assms(2) sys_okD(5) [OF assms(1)] f
      by (auto simp: mq_recv_loop_def Let_def intro!: runs_return runs_suspend [OF e c assms(3) _ assms(4)])
  next
    case (Cons i ys)
    have h: "queue_head (mqs K m) = Some i" "mq_entry (mqs K m) \<noteq> 0" using slots_head [OF q] slots_nonempty [OF q] Cons by simp_all
    have "sys_ok idle (set_mq m (recv_slot i) K)"
      by (rule sys_ok_mq [OF assms(1)]) (rule mq_okI [OF recv_slot_ok(1) [OF q [unfolded Cons]]])
    then show ?thesis using h by (simp add: mq_recv_loop_def Let_def runs_return)
  qed
  show "runs_ok idle (rt_mq_recv m n time K)"
    using l assms(1,5) by (simp add: rt_mq_recv_def runs_return)
qed

lemma sleep_runs:
  assumes "sys_ok idle K" "cur K = Some t" "t \<noteq> idle" "v < RT_TICK_MAX div 2"
  shows "runs_ok idle (rt_thread_sleep v K)"
proof -
  have k: "kernel_ok K" "t_stat (th K t) = Thread_ready" using sys_okD(4) [OF assms(1)] running [OF assms(1,2)] .
  let ?S = "snd (rt_thread_suspend t K)"
  note s = suspend_ok [OF k]
  let ?T = "set_tm (Thread_timer t) (\<lambda>m. m\<lparr>tm_init := v\<rparr>) ?S"
  have kT: "kernel_ok ?T"
    using s(2) by (auto simp: set_tm_def kernel_ok_def lists_ok_def ready_ok_def prios_ok_def prio_ok_def timers_ok_def)
  have iT: "tm_init (tm ?T (Thread_timer t)) < RT_TICK_MAX div 2" using assms(4) by (simp add: set_tm_def)
  obtain W where w: "rt_timer_start (Thread_timer t) ?T = Some (- RT_EOK, W)" "kernel_ok W" "links W = links ?T" "th W = th ?T"
    "cur W = cur ?T" "lock_nest W = lock_nest ?T"
    using timer_start_ok [OF kT _ iT] s(4) by (auto simp: set_tm_def)
  have m: "kernel.more W = kernel.more K" "irq_nest W = irq_nest K"
    using w(1) k(2) by (auto simp: rt_timer_start_def Let_def set_tm_def timer_remove_def rt_thread_suspend_def rt_timer_stop_def
      rt_schedule_remove_thread_def kernel_defs split: if_splits)
  have "mid_ok idle W"
    using assms(1,3) w s m more_objects [OF m(1)] by (auto simp: mid_ok_def sys_ok_def good_def can_run_def set_tm_def)
  then have "runs_ok idle (map_option (Pair (Blocked C_sleep)) (rt_schedule W))" by (rule mid_schedule)
  moreover have "rt_thread_sleep v K = map_option (Pair (Blocked C_sleep)) (rt_schedule W)"
    using assms(2) w(1) by (simp add: rt_thread_sleep_def start_thread_timer_def rt_timer_control_def block_def)
  ultimately show ?thesis by simp
qed

end
