(* ===== verification/KernelSys.thy ===== *)
theory KernelSys imports KernelCalls begin

text \<open>The kernel as a system: threads make calls, wait and go on, and the tick interrupts them.\<close>

subsection \<open>Calls\<close>

datatype call = Yield | Sleep u32 | Take_sem nat "32 word" | Release_sem nat | Reset_sem nat u32
  | Take_mutex nat "32 word" | Release_mutex nat | Send_event nat u32 | Recv_event nat u32 u8 "32 word" | Reset_event nat
  | Send_mail nat u32 "32 word" | Recv_mail nat "32 word" | Reset_mail nat
  | Send_msg nat bytes | Urgent_msg nat bytes | Recv_msg nat nat "32 word" | Reset_msgs nat

datatype ret = Ret int | Ret_word int "u32 option" | Ret_msg int "bytes option"

fun map_outcome :: "('a \<Rightarrow> 'b) \<Rightarrow> 'a outcome \<Rightarrow> 'b outcome" where
  "map_outcome f (Done a) = Done (f a)"
| "map_outcome f (Blocked c) = Blocked c"

definition returns :: "('a \<Rightarrow> ret) \<Rightarrow> ('a outcome \<times> os) option \<Rightarrow> (ret outcome \<times> os) option" where
  "returns f r = map_option (\<lambda>(a, K). (map_outcome f a, K)) r"

definition returns_now :: "('a \<Rightarrow> ret) \<Rightarrow> ('a \<times> os) option \<Rightarrow> (ret outcome \<times> os) option" where
  "returns_now f r = map_option (\<lambda>(a, K). (Done (f a), K)) r"

text \<open>The call \<open>c\<close> by the current thread \<open>t\<close>.\<close>

fun exec_call :: "nat \<Rightarrow> call \<Rightarrow> os \<Rightarrow> (ret outcome \<times> os) option" where
  "exec_call t Yield K = returns_now Ret (rt_thread_yield t K)"
| "exec_call t (Sleep v) K = returns Ret (rt_thread_sleep v K)"
| "exec_call t (Take_sem s time) K = returns Ret (rt_sem_take s time K)"
| "exec_call t (Release_sem s) K = returns_now Ret (rt_sem_release s K)"
| "exec_call t (Reset_sem s v) K = returns_now Ret (rt_sem_control s RT_IPC_CMD_RESET v K)"
| "exec_call t (Take_mutex m time) K = returns Ret (rt_mutex_take m time K)"
| "exec_call t (Release_mutex m) K = returns_now Ret (rt_mutex_release m K)"
| "exec_call t (Send_event e v) K = returns_now Ret (rt_event_send e v K)"
| "exec_call t (Recv_event e v opt time) K = returns (\<lambda>(r, v). Ret_word r v) (rt_event_recv e v opt time K)"
| "exec_call t (Reset_event e) K = returns_now Ret (rt_event_control e RT_IPC_CMD_RESET K)"
| "exec_call t (Send_mail m v time) K = returns Ret (rt_mb_send_wait m v time K)"
| "exec_call t (Recv_mail m time) K = returns (\<lambda>(r, v). Ret_word r v) (rt_mb_recv m time K)"
| "exec_call t (Reset_mail m) K = returns_now Ret (rt_mb_control m RT_IPC_CMD_RESET K)"
| "exec_call t (Send_msg m buf) K = returns_now Ret (rt_mq_send m buf K)"
| "exec_call t (Urgent_msg m buf) K = returns_now Ret (rt_mq_urgent m buf K)"
| "exec_call t (Recv_msg m n time) K = returns (\<lambda>(r, v). Ret_msg r v) (rt_mq_recv m n time K)"
| "exec_call t (Reset_msgs m) K = returns_now Ret (rt_mq_control m RT_IPC_CMD_RESET K)"

text \<open>The rest of a call, when its thread runs again.\<close>

fun exec_cont :: "nat \<Rightarrow> cont \<Rightarrow> os \<Rightarrow> (ret outcome \<times> os) option" where
  "exec_cont t C_sleep K = returns_now Ret (Some (rt_thread_sleep_rest t K))"
| "exec_cont t C_sem K = returns_now Ret (Some (rt_sem_take_rest t K))"
| "exec_cont t C_mutex K = returns_now Ret (Some (rt_mutex_take_rest t K))"
| "exec_cont t C_event K = returns_now (\<lambda>(r, v). Ret_word r v) (Some (rt_event_recv_rest t K))"
| "exec_cont t (C_mb_send m v time t0) K = returns Ret (rt_mb_send_wait_rest t m v time t0 K)"
| "exec_cont t (C_mb_recv m time t0) K = returns (\<lambda>(r, v). Ret_word r v) (rt_mb_recv_rest t m time t0 K)"
| "exec_cont t (C_mq_recv m n time t0) K = returns (\<lambda>(r, v). Ret_msg r v) (rt_mq_recv_rest t m n time t0 K)"
| "exec_cont t (C_mp m time t0) K = None"
| "exec_cont t C_driver K = None"

text \<open>What the kernel asks of its callers: a timeout below half of the tick range, a flag that says which events
  to wait for, a message that is not empty.\<close>

definition time_fits :: "32 word \<Rightarrow> bool" where
  "time_fits time = (sint time < 2 ^ 31 - 1)"

fun call_ok :: "call \<Rightarrow> bool" where
  "call_ok (Sleep v) = (v < RT_TICK_MAX div 2)"
| "call_ok (Take_sem s time) = time_fits time"
| "call_ok (Take_mutex m time) = time_fits time"
| "call_ok (Recv_event e v opt time) = (time_fits time \<and> opt AND (RT_EVENT_FLAG_AND OR RT_EVENT_FLAG_OR) \<noteq> 0)"
| "call_ok (Send_mail m v time) = time_fits time"
| "call_ok (Recv_mail m time) = time_fits time"
| "call_ok (Send_msg m buf) = (buf \<noteq> [])"
| "call_ok (Urgent_msg m buf) = (buf \<noteq> [])"
| "call_ok (Recv_msg m n time) = (time_fits time \<and> n \<noteq> 0)"
| "call_ok _ = True"

fun cont_ok :: "os \<Rightarrow> cont \<Rightarrow> bool" where
  "cont_ok K (C_mb_send m v time t0) = time_fits (time_left time t0 (k_tick K))"
| "cont_ok K (C_mb_recv m time t0) = time_fits (time_left time t0 (k_tick K))"
| "cont_ok K (C_mq_recv m n time t0) = (time_fits (time_left time t0 (k_tick K)) \<and> n \<noteq> 0)"
| "cont_ok K (C_mp m time t0) = False"
| "cont_ok K C_driver = False"
| "cont_ok K _ = True"

lemma runs_returns: "runs_ok idle r \<Longrightarrow> runs_ok idle (returns f r)"
  by (auto simp: runs_ok_def returns_def)

lemma runs_returns_now: "runs_ok idle r \<Longrightarrow> runs_ok idle (returns_now f r)"
  by (auto simp: runs_ok_def returns_now_def)

text \<open>Resetting an object.\<close>

lemma resume_all_mid:
  assumes "sys_ok idle K" "list_stat q = Thread_suspend"
  shows "\<exists>K'. rt_ipc_list_resume_all q K = Some K' \<and> mid_ok idle K' \<and> kernel.more K' = kernel.more K"
proof -
  have ns: "idle \<notin> set (links K q)"
    using waiting_suspended [OF sys_okD(4) [OF assms(1)] assms(2), of idle] sys_okD(1) [OF assms(1)] by (auto simp: good_def can_run_def)
  obtain K' where k: "rt_ipc_list_resume_all q K = Some K'" "kernel_ok K'" "th K' idle = th K idle"
    "lock_nest K' = lock_nest K" "irq_nest K' = irq_nest K" "kernel.more K' = kernel.more K"
    using resume_all_ok [OF sys_okD(4) [OF assms(1)] assms(2)] ns by auto
  then show ?thesis using assms(1) more_objects [OF k(6)] by (auto simp: mid_ok_def sys_ok_def good_def can_run_def)
qed

lemma resume_all_mid2:
  assumes "mid_ok idle K" "list_stat q = Thread_suspend"
  shows "\<exists>K'. rt_ipc_list_resume_all q K = Some K' \<and> mid_ok idle K' \<and> kernel.more K' = kernel.more K"
proof -
  have k: "kernel_ok K" "t_stat (th K idle) = Thread_ready" using assms(1) by (auto simp: mid_ok_def can_run_def)
  have ns: "idle \<notin> set (links K q)" using waiting_suspended [OF k(1) assms(2), of idle] k(2) by auto
  obtain K' where r: "rt_ipc_list_resume_all q K = Some K'" "kernel_ok K'" "th K' idle = th K idle"
    "lock_nest K' = lock_nest K" "irq_nest K' = irq_nest K" "kernel.more K' = kernel.more K"
    using resume_all_ok [OF k(1) assms(2)] ns by auto
  then show ?thesis using assms(1) more_objects [OF r(6)] by (auto simp: mid_ok_def can_run_def)
qed

lemma mid_objects [simp]:
  "mid_ok idle (K\<lparr>sems := a\<rparr>) = mid_ok idle K" "mid_ok idle (K\<lparr>evts := b\<rparr>) = mid_ok idle K"
  by (simp_all add: mid_ok_def can_run_def objects_ok_def)

lemma reset_runs:
  assumes "sys_ok idle K"
  shows "runs_ok idle (rt_sem_control s RT_IPC_CMD_RESET v K)" "runs_ok idle (rt_event_control e RT_IPC_CMD_RESET K)"
    "runs_ok idle (rt_mb_control m RT_IPC_CMD_RESET K)" "runs_ok idle (rt_mq_control q RT_IPC_CMD_RESET K)"
proof -
  show "runs_ok idle (rt_sem_control s RT_IPC_CMD_RESET v K)" "runs_ok idle (rt_event_control e RT_IPC_CMD_RESET K)"
    using resume_all_mid [OF assms, of "Waiting (Sem s)"] resume_all_mid [OF assms, of "Waiting (Evt e)"]
    by (auto simp: rt_sem_control_def rt_event_control_def return_schedule_def intro!: mid_schedule)
  obtain K1 where 1: "rt_ipc_list_resume_all (Waiting (Mbx m)) K = Some K1" "mid_ok idle K1"
    using resume_all_mid [OF assms, of "Waiting (Mbx m)"] by auto
  obtain K2 where 2: "rt_ipc_list_resume_all (Sending m) K1 = Some K2" "mid_ok idle K2"
    using resume_all_mid2 [OF 1(2), of "Sending m"] by auto
  have "mb_ok ((mbxs K2 m)\<lparr>mb_entry := 0, in_offset := 0, out_offset := 0\<rparr>)"
    using 2(2) by (auto simp: mid_ok_def objects_ok_def mb_ok_def word_less_nat_alt)
  then have "mid_ok idle (set_mb m (\<lambda>B. B\<lparr>mb_entry := 0, in_offset := 0, out_offset := 0\<rparr>) K2)"
    using 2(2) by (auto simp: set_mb_def mid_ok_def can_run_def objects_ok_def)
  then show "runs_ok idle (rt_mb_control m RT_IPC_CMD_RESET K)"
    using 1(1) 2(1) by (auto simp: rt_mb_control_def return_schedule_def intro!: mid_schedule)
  obtain K3 where 3: "rt_ipc_list_resume_all (Waiting (Mqu q)) K = Some K3" "mid_ok idle K3"
    using resume_all_mid [OF assms, of "Waiting (Mqu q)"] by auto
  then have "mq_ok (mqs K3 q)" by (simp add: mid_ok_def objects_ok_def)
  then obtain xs fr where x: "mq_slots (mqs K3 q) xs fr" unfolding mq_ok_def by blast
  obtain Q where Q: "mq_drain (mqs K3 q) = Some Q" "mq_slots (Q\<lparr>mq_entry := 0\<rparr>) [] (rev xs @ fr)"
    using mq_drain_ok [OF x] by blast
  have "mid_ok idle (K3\<lparr>mqs := (mqs K3)(q := Q\<lparr>mq_entry := 0\<rparr>)\<rparr>)"
    using 3(2) mq_okI [OF Q(2)] by (auto simp: mid_ok_def can_run_def objects_ok_def)
  then show "runs_ok idle (rt_mq_control q RT_IPC_CMD_RESET K)"
    using 3(1) Q(1) by (auto simp: rt_mq_control_def return_schedule_def intro!: mid_schedule)
qed

lemma yield_runs:
  assumes "sys_ok idle K"
  shows "runs_ok idle (rt_thread_yield t K)"
  using yield_ok [OF sys_okD(1) [OF assms], of t] sys_ok_more [OF assms] by (auto simp: runs_ok_def)

text \<open>Every call a thread may make runs, and so does the rest of every call.\<close>

lemma call_runs:
  assumes "sys_ok idle K" "cur K = Some t" "t \<noteq> idle" "call_ok c"
  shows "runs_ok idle (exec_call t c K)"
  using assms(4) sem_take_runs [OF assms(1-3)] mutex_take_runs [OF assms(1-3)] event_recv_runs [OF assms(1-3)]
    mb_send_runs(2) [OF assms(1-3)] mb_recv_runs(2) [OF assms(1-3)] mq_recv_runs(2) [OF assms(1-3)]
  by (cases c) (auto simp: time_fits_def intro!: runs_returns runs_returns_now yield_runs [OF assms(1)] sleep_runs [OF assms(1-3)]
    sem_release_runs [OF assms(1)] mutex_release_runs [OF assms(1,2)] event_send_runs [OF assms(1)] reset_runs [OF assms(1)]
    mq_send_runs [OF assms(1)])

lemma runs_some: "sys_ok idle K \<Longrightarrow> runs_ok idle (Some (a, K))"
  by (simp add: runs_ok_def)

lemma rest_runs:
  assumes "sys_ok idle K"
  shows "runs_ok idle (Some (rt_thread_sleep_rest t K))" "runs_ok idle (Some (rt_sem_take_rest t K))"
    "runs_ok idle (Some (rt_mutex_take_rest t K))" "runs_ok idle (Some (rt_event_recv_rest t K))"
proof -
  have "sys_ok idle (set_th t (\<lambda>x. x\<lparr>t_error := RT_EOK\<rparr>) K)" by (rule sys_ok_th [OF assms]) simp_all
  then show "runs_ok idle (Some (rt_thread_sleep_rest t K))" using assms by (auto simp: rt_thread_sleep_rest_def intro!: runs_some)
qed (use assms in \<open>auto simp: rt_sem_take_rest_def rt_mutex_take_rest_def rt_event_recv_rest_def intro!: runs_some\<close>)

lemma cont_runs:
  assumes "sys_ok idle K" "cur K = Some t" "t \<noteq> idle" "cont_ok K c"
  shows "runs_ok idle (exec_cont t c K)"
  using assms(4) mb_send_runs(1) [OF assms(1-3)] mb_recv_runs(1) [OF assms(1-3)] mq_recv_runs(1) [OF assms(1-3)]
  by (cases c) (auto simp: time_fits_def rt_mb_send_wait_rest_def rt_mb_recv_rest_def rt_mq_recv_rest_def
    intro!: runs_returns runs_returns_now rest_runs [OF assms(1)] runs_return [OF assms(1)])

subsection \<open>Steps\<close>

definition cont_of :: "'a outcome \<Rightarrow> cont option" where
  "cont_of r = (case r of Done a \<Rightarrow> None | Blocked c \<Rightarrow> Some c)"

text \<open>A call up to its end or to where it waits is one step, and the tick comes between steps; interrupts inside a call, where the
  code enables them, are not covered.\<close>

inductive kstep :: "nat \<Rightarrow> (nat \<Rightarrow> os \<Rightarrow> os option) \<Rightarrow> os \<times> (nat \<Rightarrow> cont option) \<Rightarrow> os \<times> (nat \<Rightarrow> cont option) \<Rightarrow> bool"
  for idle f where
  call: "cur K = Some t \<Longrightarrow> t \<noteq> idle \<Longrightarrow> C t = None \<Longrightarrow> call_ok c \<Longrightarrow> exec_call t c K = Some (r, K')
    \<Longrightarrow> kstep idle f (K, C) (K', C(t := cont_of r))"
| go_on: "cur K = Some t \<Longrightarrow> C t = Some c \<Longrightarrow> cont_ok K c \<Longrightarrow> exec_cont t c K = Some (r, K')
    \<Longrightarrow> kstep idle f (K, C) (K', C(t := cont_of r))"
| tick: "rt_tick_increase f (rt_interrupt_enter K) = Some K' \<Longrightarrow> kstep idle f (K, C) (rt_interrupt_leave K', C)"

inductive_cases kstepE: "kstep idle f (K, C) s"

text \<open>The functions of the timers run in the interrupt.\<close>

definition timers_fit :: "nat \<Rightarrow> (nat \<Rightarrow> os \<Rightarrow> os option) \<Rightarrow> bool" where
  "timers_fit idle f = callbacks_ok idle (\<lambda>m n. n = 1 \<and> (\<forall>K :: os. kernel.more K = m \<longrightarrow> objects_ok K)) f"

lemma tick_runs:
  assumes "sys_ok idle K" "timers_fit idle f"
  shows "\<exists>K'. rt_tick_increase f (rt_interrupt_enter K) = Some K' \<and> sys_ok idle (rt_interrupt_leave K')
    \<and> k_tick K' = k_tick K + 1"
proof -
  let ?Q = "\<lambda>m n. n = 1 \<and> (\<forall>K :: os. kernel.more K = m \<longrightarrow> objects_ok K)"
  let ?K = "rt_interrupt_enter K"
  have irq: "good idle (K\<lparr>irq_nest := n\<rparr>) = good idle K" for n and K :: os
    using kernel_ok_same [of "K\<lparr>irq_nest := n\<rparr>" K] by (simp add: good_def can_run_def live_def)
  have g: "good idle ?K" using assms(1) irq by (simp add: rt_interrupt_enter_def sys_ok_def)
  have o: "objects_ok K'" if "kernel.more K' = kernel.more K" for K' :: os
    using more_objects [OF that] sys_okD(2) [OF assms(1)] by simp
  have q: "rest_ok ?Q ?K" using sys_okD(3) [OF assms(1)] o by (simp add: rt_interrupt_enter_def)
  obtain K' where k: "rt_tick_increase f ?K = Some K'" "good idle K'" "k_tick K' = k_tick ?K + 1" "rest_ok ?Q K'"
    using tick_ok [of idle ?K ?Q f] g q assms(2) unfolding timers_fit_def by blast
  have "sys_ok idle (rt_interrupt_leave K')"
    using k(2,4) irq more_objects [of "K'\<lparr>irq_nest := 0\<rparr>" K'] by (auto simp: sys_ok_def rt_interrupt_leave_def)
  then show ?thesis using k(1,3) by (auto simp: rt_interrupt_enter_def)
qed

text \<open>The invariant of the system: the idle thread never waits.\<close>

definition run_ok :: "nat \<Rightarrow> os \<times> (nat \<Rightarrow> cont option) \<Rightarrow> bool" where
  "run_ok idle s = (sys_ok idle (fst s) \<and> snd s idle = None)"

lemma kstep_ok:
  assumes "kstep idle f s s'" "run_ok idle s" "timers_fit idle f"
  shows "run_ok idle s'"
  using assms
proof (induction rule: kstep.induct)
  case (call K t C c r K')
  then show ?case using call_runs [of idle K t c] by (auto simp: run_ok_def runs_ok_def)
next
  case (go_on K t C c r K')
  then have "t \<noteq> idle" by (auto simp: run_ok_def)
  then show ?case using go_on cont_runs [of idle K t c] by (auto simp: run_ok_def runs_ok_def)
next
  case (tick K K' C)
  then show ?case using tick_runs [of idle K f] by (auto simp: run_ok_def)
qed

inductive ksteps :: "nat \<Rightarrow> (nat \<Rightarrow> os \<Rightarrow> os option) \<Rightarrow> os \<times> (nat \<Rightarrow> cont option) \<Rightarrow> os \<times> (nat \<Rightarrow> cont option) \<Rightarrow> bool"
  for idle f where
  refl: "ksteps idle f s s"
| step: "ksteps idle f s s1 \<Longrightarrow> kstep idle f s1 s2 \<Longrightarrow> ksteps idle f s s2"

lemma ksteps_ok: "ksteps idle f s s' \<Longrightarrow> run_ok idle s \<Longrightarrow> timers_fit idle f \<Longrightarrow> run_ok idle s'"
  by (induction rule: ksteps.induct) (auto intro: kstep_ok)

end
