(* ===== verification/KernelProps.thy ===== *)
theory KernelProps imports KernelSys begin

text \<open>The properties of the kernel.\<close>

subsection \<open>A small system\<close>

text \<open>The idle thread 0, the running thread 1 of priority 10, thread 2 of priority 5 that waits for card and
  finger events on the event set 0, and thread 3 of priority 15.\<close>

definition demo_thread :: "thread_stat \<Rightarrow> u8 \<Rightarrow> rt_thread" where
  "demo_thread st p = \<lparr>t_stat = st, current_priority = p, init_priority = p, number_mask = push_bit (unat p) 1, t_error = 0,
     event_set = 15, event_info = 6, init_tick = 10, remaining_tick = 10, t_static = True, t_cleanup = False\<rparr>"

definition demo_os :: os where
  "demo_os = \<lparr>th = (\<lambda>t. if t = 0 then demo_thread Thread_ready 31 else if t = 1 then demo_thread Thread_ready 10
       else if t = 2 then demo_thread Thread_suspend 5 else if t = 3 then demo_thread Thread_ready 15 else demo_thread Thread_init 0),
     links = (\<lambda>q. if q = Ready 31 then [0] else if q = Ready 10 then [1] else if q = Ready 15 then [3]
       else if q = Waiting (Evt 0) then [2] else []),
     ready_group = push_bit 31 1 OR push_bit 15 1 OR push_bit 10 1, cur = Some 1, cur_prio = 10, lock_nest = 0, irq_nest = 0, k_tick = 0,
     tm = (\<lambda>_. \<lparr>tm_init = 0, tm_timeout = 0, tm_active = False, tm_periodic = False\<rparr>), timer_list = [],
     sems = (\<lambda>_. \<lparr>sem_value = 0, sem_flag = 0\<rparr>),
     mtxs = (\<lambda>_. \<lparr>mtx_value = 1, original_priority = 0xff, hold = 0, owner = None, mtx_flag = 1\<rparr>),
     evts = (\<lambda>_. \<lparr>evt_set = 0, evt_flag = 0\<rparr>),
     mbxs = (\<lambda>_. \<lparr>msg_pool = replicate 4 0, mb_size = 4, mb_entry = 0, in_offset = 0, out_offset = 0, mb_flag = 0\<rparr>),
     mqs = (\<lambda>_. mq_fresh (\<lambda>_. replicate 8 0) 8 4 0)\<rparr>"

lemma demo_kernel_ok: "kernel_ok demo_os"
proof -
  have "lists_ok demo_os" by (auto simp: lists_ok_def demo_os_def demo_thread_def list_stat_def)
  moreover have "ready_ok demo_os"
    unfolding ready_ok_def
    by (auto simp: demo_os_def demo_thread_def bit_or_iff mask_bit simp del: push_bit_of_1)
  moreover have "prios_ok demo_os" "timers_ok demo_os"
    by (auto simp: prios_ok_def prio_ok_def timers_ok_def demo_os_def demo_thread_def)
  ultimately show ?thesis by (simp add: kernel_ok_def)
qed

lemma demo_sys_ok: "sys_ok 0 demo_os"
proof -
  have "mq_slots (mq_fresh (\<lambda>_. replicate 8 0) 8 4 0) [] (rev [0..<unat (4 :: u16)])" by (rule mq_fresh_ok) simp
  then have "mq_ok (mq_fresh (\<lambda>_. replicate 8 0) 8 4 0)" by (rule mq_okI)
  then have "objects_ok demo_os" by (simp add: objects_ok_def demo_os_def mutex_ok_def mb_ok_def)
  then show ?thesis using demo_kernel_ok
    by (auto simp: sys_ok_def good_def can_run_def live_def demo_os_def demo_thread_def)
qed

text \<open>No timer functions.\<close>

definition no_timers :: "nat \<Rightarrow> os \<Rightarrow> os option" where
  "no_timers n K = Some K"

lemma no_timers_fit: "timers_fit idle no_timers"
  by (auto simp: timers_fit_def callbacks_ok_def no_timers_def)

subsection \<open>The invariant\<close>

text \<open>C4: Whatever calls the threads make, wherever they wait and whenever the tick interrupts them, the kernel
  stays well formed: every thread is in at most one list and only once, exactly the ready threads are in
  the ready list of their priority, the bit group of the scheduler matches these lists, the timers that
  run belong to waiting threads, a mutex without an owner is free, and mailboxes and message queues
  hold proper queues.\<close>

theorem kernel_invariant:
  assumes "run_ok idle s" "timers_fit idle f" "ksteps idle f s s'"
  shows "run_ok idle s'"
  by (rule ksteps_ok [OF assms(3,1,2)])

theorem kernel_invariant_witness:
  "\<exists>s'. ksteps 0 no_timers (demo_os, \<lambda>_. None) s' \<and> snd s' 1 = Some C_sem \<and> run_ok 0 s'"
proof -
  have s: "run_ok 0 (demo_os, \<lambda>_. None)" using demo_sys_ok by (simp add: run_ok_def)
  have c: "cur demo_os = Some 1" by (simp add: demo_os_def)
  define E where "E = set_th 1 (\<lambda>x. x\<lparr>t_error := RT_EOK\<rparr>) demo_os"
  have g: "good 0 E" unfolding E_def by (rule set_th_good) (use demo_sys_ok in \<open>simp_all add: sys_ok_def\<close>)
  have e: "cur E = Some 1" by (simp add: E_def c)
  have f: "sem_value (sems demo_os 0) = 0" "sem_flag (sems demo_os 0) = 0" "irq_nest demo_os = 0" by (simp_all add: demo_os_def)
  have "\<exists>K'. Option.bind (wait_timer 1 5 (rt_ipc_list_suspend (Waiting (Sem 0)) 1 0 E)) (block C_sem) = Some (Blocked C_sem, K')"
    using suspend_block [OF g e, of "Waiting (Sem 0)" 5 0 C_sem] by auto
  moreover have "rt_sem_take 0 5 demo_os = Option.bind (wait_timer 1 5 (rt_ipc_list_suspend (Waiting (Sem 0)) 1 0 E)) (block C_sem)"
    by (simp add: rt_sem_take_def E_def in_thread_def f c)
  ultimately obtain K' where b: "rt_sem_take 0 5 demo_os = Some (Blocked C_sem, K')" by auto
  then have "exec_call 1 (Take_sem 0 5) demo_os = Some (Blocked C_sem, K')" by (simp add: returns_def)
  then have "kstep 0 no_timers (demo_os, \<lambda>_. None) (K', (\<lambda>_. None)(1 := cont_of (Blocked C_sem :: ret outcome)))"
    by (intro kstep.call [OF c, of _ _ "Take_sem 0 5"]) (simp_all add: time_fits_def)
  then have k: "ksteps 0 no_timers (demo_os, \<lambda>_. None) (K', (\<lambda>_. None)(1 := cont_of (Blocked C_sem :: ret outcome)))"
    by (rule ksteps.step [OF ksteps.refl])
  show ?thesis
    by (rule exI [of _ "(K', (\<lambda>_. None)(1 := cont_of (Blocked C_sem :: ret outcome)))"])
      (use k kernel_invariant [OF s no_timers_fit k] in \<open>simp add: cont_of_def\<close>)
qed

text \<open>C15: In a well-formed system every call that keeps to the contract of the kernel, and the rest of every call
  that was waiting, comes to an end: it returns or leaves its thread waiting, and no assertion of the
  kernel fails on the way.\<close>

theorem calls_return_or_wait:
  assumes "run_ok idle (K, C)" "cur K = Some t"
  shows "case C t of
      None \<Rightarrow> t \<noteq> idle \<longrightarrow> call_ok c \<longrightarrow> (\<exists>r K'. exec_call t c K = Some (r, K') \<and> run_ok idle (K', C(t := cont_of r)))
    | Some k \<Rightarrow> cont_ok K k \<longrightarrow> (\<exists>r K'. exec_cont t k K = Some (r, K') \<and> run_ok idle (K', C(t := cont_of r)))"
proof (cases "C t")
  case None
  then show ?thesis using assms call_runs [of idle K t c] by (auto simp: run_ok_def runs_ok_def)
next
  case (Some k)
  then have "t \<noteq> idle" using assms(1) by (auto simp: run_ok_def)
  then show ?thesis using Some assms cont_runs [of idle K t k] by (auto simp: run_ok_def runs_ok_def)
qed

theorem calls_return_or_wait_witness:
  "\<exists>r K'. exec_call 1 (Take_mutex 0 (- 1)) demo_os = Some (r, K') \<and> run_ok 0 (K', (\<lambda>_. None)(1 := cont_of r))"
  using calls_return_or_wait [of 0 demo_os "\<lambda>_. None" 1 "Take_mutex 0 (- 1)"] demo_sys_ok
  by (simp add: run_ok_def demo_os_def time_fits_def)

text \<open>C19: The interrupt of the tick ends, however many timers are due: each timer that is due fires once, a
  periodic one is set to a later tick, and the system is well formed afterwards.\<close>

theorem tick_ends:
  assumes "sys_ok idle K" "timers_fit idle f"
  shows "\<exists>K'. rt_tick_increase f (rt_interrupt_enter K) = Some K' \<and> sys_ok idle (rt_interrupt_leave K')
    \<and> k_tick K' = k_tick K + 1"
  by (rule tick_runs [OF assms])

theorem tick_ends_witness:
  "\<exists>K'. rt_tick_increase no_timers (rt_interrupt_enter demo_os) = Some K' \<and> k_tick K' = 1"
  using tick_ends [OF demo_sys_ok no_timers_fit] by (auto simp: demo_os_def)

text \<open>C16: The scheduler picks, with its table of bits, a ready thread of the best priority: no ready thread has a
  smaller number.\<close>

theorem schedule_picks_best:
  assumes "can_run idle K"
  shows "\<exists>K' t. rt_schedule K = Some K' \<and> cur K' = Some t \<and> t_stat (th K t) = Thread_ready
    \<and> (\<forall>r. t_stat (th K r) = Thread_ready \<longrightarrow> current_priority (th K t) \<le> current_priority (th K r))"
proof -
  obtain K' where k: "rt_schedule K = Some K'" "scheduled K K'" using schedule_ok [OF assms] .
  then obtain p x xs where x: "cur K' = Some x" "links K (Ready p) = x # xs" "top_prio K p" unfolding scheduled_def by auto
  have R: "ready_ok K" using assms by (simp add: can_run_def kernel_ok_def)
  have "x \<in> set (links K (Ready p))" using x(2) by simp
  then have px: "t_stat (th K x) = Thread_ready" "unat (current_priority (th K x)) = p" using R unfolding ready_ok_def by blast+
  have "current_priority (th K x) \<le> current_priority (th K r)" if "t_stat (th K r) = Thread_ready" for r
  proof -
    have "links K (Ready (unat (current_priority (th K r)))) \<noteq> []" using that R unfolding ready_ok_def by (metis empty_iff list.set(1))
    then have "p \<le> unat (current_priority (th K r))" using x(3) unfolding top_prio_def by (metis not_le)
    then show ?thesis using px(2) by (simp add: word_le_nat_alt)
  qed
  then show ?thesis using k(1) x(1) px(1) by blast
qed

theorem schedule_picks_best_witness:
  "\<exists>K' t. rt_schedule demo_os = Some K' \<and> cur K' = Some t \<and> current_priority (th demo_os t) \<le> 10"
proof -
  have "can_run 0 demo_os" using demo_sys_ok by (simp add: sys_ok_def good_def)
  moreover have "t_stat (th demo_os 1) = Thread_ready" "current_priority (th demo_os 1) = 10"
    by (simp_all add: demo_os_def demo_thread_def)
  ultimately show ?thesis using schedule_picks_best by metis
qed

end
