(* ===== verification/KernelQueues.thy ===== *)
theory KernelQueues imports KernelSys begin

text \<open>Mailboxes and message queues as first-in-first-out queues, seen through the calls of the kernel.\<close>

subsection \<open>The contract of a queue\<close>

text \<open>Taking several messages.\<close>

primrec gets :: "('s \<Rightarrow> 'm \<times> 's) \<Rightarrow> nat \<Rightarrow> 's \<Rightarrow> 'm list \<times> 's" where
  "gets get 0 s = ([], s)"
| "gets get (Suc n) s = (let (m, s1) = get s; (ms, s2) = gets get n s1 in (m # ms, s2))"

text \<open>A queue that may refuse what does not fit, as its clients rely on it.\<close>

locale bounded_queue =
  fixes inv :: "'s \<Rightarrow> bool" and items :: "'s \<Rightarrow> 'm list" and cap :: "'s \<Rightarrow> nat" and fits :: "'s \<Rightarrow> 'm \<Rightarrow> bool"
    and put :: "'m \<Rightarrow> 's \<Rightarrow> 's" and get :: "'s \<Rightarrow> 'm \<times> 's"
  assumes put_ok: "inv s \<Longrightarrow> length (items s) < cap s \<Longrightarrow> fits s m
      \<Longrightarrow> inv (put m s) \<and> items (put m s) = items s @ [m] \<and> cap (put m s) = cap s \<and> fits (put m s) = fits s"
    and get_ok: "inv s \<Longrightarrow> items s \<noteq> []
      \<Longrightarrow> inv (snd (get s)) \<and> items s = fst (get s) # items (snd (get s)) \<and> cap (snd (get s)) = cap s \<and> fits (snd (get s)) = fits s"
begin

lemma puts_ok:
  assumes "inv s" "length (items s) + length ms \<le> cap s" "\<forall>m \<in> set ms. fits s m"
  shows "inv (fold put ms s) \<and> items (fold put ms s) = items s @ ms \<and> cap (fold put ms s) = cap s \<and> fits (fold put ms s) = fits s"
  using assms
proof (induction ms arbitrary: s)
  case (Cons m ms)
  have p: "inv (put m s) \<and> items (put m s) = items s @ [m] \<and> cap (put m s) = cap s \<and> fits (put m s) = fits s"
    by (rule put_ok) (use Cons.prems in simp_all)
  then show ?case using Cons.IH [of "put m s"] Cons.prems by simp
qed simp

lemma gets_ok:
  assumes "inv s" "n \<le> length (items s)"
  shows "inv (snd (gets get n s)) \<and> fst (gets get n s) = take n (items s) \<and> items (snd (gets get n s)) = drop n (items s)"
  using assms
proof (induction n arbitrary: s)
  case (Suc n)
  have "items s \<noteq> []" using Suc.prems(2) by auto
  then have g: "inv (snd (get s)) \<and> items s = fst (get s) # items (snd (get s))" using get_ok [of s] Suc.prems(1) by blast
  then have i: "items s = fst (get s) # items (snd (get s))" by blast
  have "n \<le> length (items (snd (get s)))" using Suc.prems(2) arg_cong [OF i, of length] by simp
  then show ?case using Suc.IH [of "snd (get s)"] g by (subst (1 2) i) (auto simp: split_beta)
qed simp

text \<open>What is put into an empty queue comes out in the same order, and the queue is empty again.\<close>

lemma fifo:
  assumes "inv s" "items s = []" "length ms \<le> cap s" "\<forall>m \<in> set ms. fits s m"
  shows "fst (gets get (length ms) (fold put ms s)) = ms \<and> items (snd (gets get (length ms) (fold put ms s))) = []
    \<and> inv (snd (gets get (length ms) (fold put ms s)))"
  using puts_ok [of s ms] gets_ok [of "fold put ms s" "length ms"] assms by simp

end

text \<open>A queue with a second way in, at its front.\<close>

locale urgent_queue = bounded_queue inv items cap fits put get
  for inv :: "'s \<Rightarrow> bool" and items :: "'s \<Rightarrow> 'm list" and cap fits put get +
  fixes push :: "'m \<Rightarrow> 's \<Rightarrow> 's"
  assumes push_ok: "inv s \<Longrightarrow> length (items s) < cap s \<Longrightarrow> fits s m
      \<Longrightarrow> inv (push m s) \<and> items (push m s) = m # items s \<and> cap (push m s) = cap s \<and> fits (push m s) = fits s"
begin

lemma urgent_first:
  assumes "inv s" "length (items s) < cap s" "fits s m"
  shows "fst (get (push m s)) = m \<and> items (snd (get (push m s))) = items s"
  using push_ok [OF assms] get_ok [of "push m s"] by auto

text \<open>A message that is sent urgently overtakes those that wait, which keep their order.\<close>

lemma urgent_overtakes:
  assumes "inv s" "items s = []" "length ms < cap s" "\<forall>m \<in> set ms. fits s m" "fits s u"
  shows "fst (gets get (Suc (length ms)) (push u (fold put ms s))) = u # ms"
proof -
  have p: "inv (fold put ms s) \<and> items (fold put ms s) = ms \<and> cap (fold put ms s) = cap s \<and> fits (fold put ms s) = fits s"
    using puts_ok [of s ms] assms by simp
  then have u: "inv (push u (fold put ms s)) \<and> items (push u (fold put ms s)) = u # ms"
    using push_ok [of "fold put ms s" u] assms by simp
  then show ?thesis using gets_ok [of "push u (fold put ms s)" "Suc (length ms)"] by simp
qed

end

subsection \<open>Mailboxes\<close>

text \<open>The calls that do not wait, with the mail they take.\<close>

definition mb_of :: "nat \<Rightarrow> os \<Rightarrow> u32 list" where
  "mb_of m K = mb_msgs (mbxs K m)"

lemma mb_full: "(mb_entry (mbxs K m) = mb_size (mbxs K m)) = (length (mb_of m K) = unat (mb_size (mbxs K m)))"
  by (auto simp: mb_of_def length_mb_msgs dest: unsigned_word_eqI)

lemma mb_empty: "(mb_entry (mbxs K m) = 0) = (mb_of m K = [])"
  by (simp add: mb_of_def mb_msgs_def unat_eq_0)

lemma wake_keeps:
  assumes "sys_ok idle K" "list_stat q = Thread_suspend" "links K q \<noteq> []"
  shows "\<exists>K'. rt_schedule (rt_ipc_list_resume q K) = Some K' \<and> sys_ok idle K' \<and> kernel.more K' = kernel.more K"
  using assms(3) resume_schedule [OF sys_okD(1) [OF assms(1)] assms(2)] sys_ok_more [OF assms(1)]
  by (cases "links K q") fastforce+

lemma mb_send_ok:
  assumes "sys_ok idle K" "length (mb_of m K) < unat (mb_size (mbxs K m))"
  shows "\<exists>K'. rt_mb_send m v K = Some (Done RT_EOK, K') \<and> sys_ok idle K' \<and> mbxs K' = (mbxs K)(m := put_mb v (mbxs K m))"
proof -
  have n: "mb_entry (mbxs K m) \<noteq> mb_size (mbxs K m)" using mb_full [of K m] assms(2) by simp
  note p = put_mb_ok [OF mailbox_ok [OF assms(1), of m] n]
  let ?K = "set_mb m (put_mb v) K"
  have s: "sys_ok idle ?K" by (rule sys_ok_mb [OF assms(1)]) (rule p(1))
  have b: "mbxs ?K = (mbxs K)(m := put_mb v (mbxs K m))" by (simp add: set_mb_def)
  show ?thesis
  proof (cases "links ?K (Waiting (Mbx m)) = []")
    case True
    then show ?thesis using n p(3) s b by (simp add: rt_mb_send_def rt_mb_send_wait_def mb_send_loop_def Let_def return_def)
  next
    case False
    obtain K' where "rt_schedule (rt_ipc_list_resume (Waiting (Mbx m)) ?K) = Some K'" "sys_ok idle K'" "kernel.more K' = kernel.more ?K"
      using wake_keeps [OF s _ False] by auto
    then show ?thesis using n p(3) b False more_fields [of K' ?K]
      by (simp add: rt_mb_send_def rt_mb_send_wait_def mb_send_loop_def Let_def)
  qed
qed

lemma mb_recv_ok:
  assumes "sys_ok idle K" "mb_of m K \<noteq> []"
  shows "\<exists>K'. rt_mb_recv m time K = Some (Done (RT_EOK, Some (hd (mb_of m K))), K') \<and> sys_ok idle K'
    \<and> mbxs K' = (mbxs K)(m := take_mb (mbxs K m))"
proof -
  have n: "mb_entry (mbxs K m) \<noteq> 0" using mb_empty assms(2) by simp
  note p = take_mb_ok [OF mailbox_ok [OF assms(1), of m] n]
  let ?K = "set_mb m take_mb K"
  have s: "sys_ok idle ?K" by (rule sys_ok_mb [OF assms(1)]) (rule p(1))
  have b: "mbxs ?K = (mbxs K)(m := take_mb (mbxs K m))" by (simp add: set_mb_def)
  have h: "hd (mb_of m K) = msg_pool (mbxs K m) ! unat (out_offset (mbxs K m))" using p(2) by (simp add: mb_of_def)
  show ?thesis
  proof (cases "links ?K (Sending m) = []")
    case True
    then show ?thesis using n p(3) s b h by (simp add: rt_mb_recv_def mb_recv_loop_def Let_def return_def)
  next
    case False
    obtain K' where "rt_schedule (rt_ipc_list_resume (Sending m) ?K) = Some K'" "sys_ok idle K'" "kernel.more K' = kernel.more ?K"
      using wake_keeps [OF s _ False] by auto
    then show ?thesis using n p(3) b False h more_fields [of K' ?K]
      by (simp add: rt_mb_recv_def mb_recv_loop_def Let_def)
  qed
qed

definition send_mail :: "nat \<Rightarrow> u32 \<Rightarrow> os \<Rightarrow> os" where
  "send_mail m v K = (case rt_mb_send m v K of Some (r, K') \<Rightarrow> K' | None \<Rightarrow> K)"

definition recv_mail :: "nat \<Rightarrow> os \<Rightarrow> u32 \<times> os" where
  "recv_mail m K = (case rt_mb_recv m 0 K of Some (Done (r, Some v), K') \<Rightarrow> (v, K') | _ \<Rightarrow> (0, K))"

interpretation mail: bounded_queue "sys_ok idle" "mb_of m" "\<lambda>K. unat (mb_size (mbxs K m))" "\<lambda>K v. True" "send_mail m" "recv_mail m"
  for idle m
proof
  fix K :: os and v
  assume a: "sys_ok idle K" "length (mb_of m K) < unat (mb_size (mbxs K m))"
  have n: "mb_entry (mbxs K m) \<noteq> mb_size (mbxs K m)" using mb_full [of K m] a(2) by simp
  obtain K' where "rt_mb_send m v K = Some (Done RT_EOK, K')" "sys_ok idle K'" "mbxs K' = (mbxs K)(m := put_mb v (mbxs K m))"
    using mb_send_ok [OF a] by blast
  then show "sys_ok idle (send_mail m v K) \<and> mb_of m (send_mail m v K) = mb_of m K @ [v]
      \<and> unat (mb_size (mbxs (send_mail m v K) m)) = unat (mb_size (mbxs K m)) \<and> (\<lambda>v. True) = (\<lambda>v. True)"
    using put_mb_ok(2) [OF mailbox_ok [OF a(1), of m] n] by (simp add: send_mail_def mb_of_def) (simp add: put_mb_def)
next
  fix K :: os
  assume a: "sys_ok idle K" "mb_of m K \<noteq> []"
  obtain K' where k: "rt_mb_recv m 0 K = Some (Done (RT_EOK, Some (hd (mb_of m K))), K')" "sys_ok idle K'"
    "mbxs K' = (mbxs K)(m := take_mb (mbxs K m))"
    using mb_recv_ok [OF a] by blast
  have n: "mb_entry (mbxs K m) \<noteq> 0" using mb_empty a(2) by simp
  have "mb_of m K = hd (mb_of m K) # mb_of m K'" using take_mb_ok(2) [OF mailbox_ok [OF a(1), of m] n] k(3) by (simp add: mb_of_def)
  moreover have "mb_size (mbxs K' m) = mb_size (mbxs K m)" using k(3) by (simp add: take_mb_def)
  ultimately show "sys_ok idle (snd (recv_mail m K)) \<and> mb_of m K = fst (recv_mail m K) # mb_of m (snd (recv_mail m K))
      \<and> unat (mb_size (mbxs (snd (recv_mail m K)) m)) = unat (mb_size (mbxs K m)) \<and> (\<lambda>v. True) = (\<lambda>v. True)"
    using k(1,2) by (simp add: recv_mail_def)
qed

subsection \<open>Message queues\<close>

text \<open>The slots of the queue, found by following the links.\<close>

fun follow :: "(nat \<Rightarrow> nat option) \<Rightarrow> nat \<Rightarrow> nat option \<Rightarrow> nat list" where
  "follow nx 0 h = []"
| "follow nx (Suc n) None = []"
| "follow nx (Suc n) (Some i) = i # follow nx n (nx i)"

definition mq_msgs :: "rt_mq \<Rightarrow> bytes list" where
  "mq_msgs Q = map (slot_data Q) (follow (slot_next Q) (unat (mq_entry Q)) (queue_head Q))"

definition mq_of :: "nat \<Rightarrow> os \<Rightarrow> bytes list" where
  "mq_of m K = mq_msgs (mqs K m)"

lemma follow_chain: "chain nx h xs \<Longrightarrow> follow nx (length xs) h = xs"
  by (induction nx h xs rule: chain.induct) auto

lemma mq_msgs_slots: "mq_slots Q xs fr \<Longrightarrow> mq_msgs Q = map (slot_data Q) xs"
  by (simp add: mq_msgs_def mq_slots_def follow_chain)

lemma mq_room: "mq_slots Q xs fr \<Longrightarrow> (length (mq_msgs Q) < unat (max_msgs Q)) = (queue_free Q \<noteq> None)"
  using mq_msgs_slots [of Q xs fr] slots_free [of Q xs fr] by (cases fr) (simp_all add: mq_slots_def)

text \<open>A message of less than the size of a slot is followed by what the slot held before.\<close>

definition padded :: "rt_mq \<Rightarrow> bytes \<Rightarrow> bytes" where
  "padded Q buf = overwrite 0 buf (case queue_free Q of Some i \<Rightarrow> slot_data Q i | None \<Rightarrow> [])"

lemma length_padded:
  assumes "mq_slots Q xs fr" "queue_free Q = Some i" "length buf \<le> unat (msg_size Q)"
  shows "length (padded Q buf) = unat (msg_size Q)" "take (length buf) (padded Q buf) = buf"
proof -
  have "length (slot_data Q i) = unat (msg_size Q)" using assms(1,2) by (cases fr) (auto simp: mq_slots_def)
  then show "length (padded Q buf) = unat (msg_size Q)" "take (length buf) (padded Q buf) = buf"
    using assms(2,3) by (simp_all add: padded_def overwrite_def)
qed

lemma mq_wake_ok:
  assumes "sys_ok idle K"
  shows "\<exists>K'. mq_wake m K = Some (RT_EOK, K') \<and> sys_ok idle K' \<and> kernel.more K' = kernel.more K"
  using wake_keeps [OF assms, of "Waiting (Mqu m)"] assms by (auto simp: mq_wake_def return_schedule_def)

lemma mq_sent_ok:
  assumes "sys_ok idle K" "mq_ok (f (mqs K m))"
  shows "\<exists>K'. mq_wake m (set_mq m f K) = Some (RT_EOK, K') \<and> sys_ok idle K' \<and> mqs K' = (mqs K)(m := f (mqs K m))"
proof -
  have "sys_ok idle (set_mq m f K)" by (rule sys_ok_mq [OF assms(1)]) (rule assms(2))
  from mq_wake_ok [OF this] obtain K' where "mq_wake m (set_mq m f K) = Some (RT_EOK, K')" "sys_ok idle K'"
    "kernel.more K' = kernel.more (set_mq m f K)" by blast
  then show ?thesis using more_fields [of K' "set_mq m f K"] by (simp add: set_mq_def)
qed

text \<open>What the calls do to the messages of the queue.\<close>

lemma mq_send_ok:
  assumes "sys_ok idle K" "buf \<noteq> []" "length buf \<le> unat (msg_size (mqs K m))" "length (mq_of m K) < unat (max_msgs (mqs K m))"
  shows "\<exists>K'. rt_mq_send m buf K = Some (RT_EOK, K') \<and> sys_ok idle K' \<and> mq_of m K' = mq_of m K @ [padded (mqs K m) buf]
      \<and> msg_size (mqs K' m) = msg_size (mqs K m) \<and> max_msgs (mqs K' m) = max_msgs (mqs K m)"
    "\<exists>K'. rt_mq_urgent m buf K = Some (RT_EOK, K') \<and> sys_ok idle K' \<and> mq_of m K' = padded (mqs K m) buf # mq_of m K
      \<and> msg_size (mqs K' m) = msg_size (mqs K m) \<and> max_msgs (mqs K' m) = max_msgs (mqs K m)"
proof -
  let ?Q = "mqs K m"
  obtain xs fr where q: "mq_slots ?Q xs fr" using queue_ok [OF assms(1)] by blast
  obtain i where i: "queue_free ?Q = Some i" using assms(4) mq_room [OF q] by (auto simp: mq_of_def)
  have p: "padded ?Q buf = overwrite 0 buf (slot_data ?Q i)" by (simp add: padded_def i)
  note s = send_slot_ok [OF q i assms(3)] and u = urgent_slot_ok [OF q i assms(3)]
  have ms: "mq_msgs (send_slot i buf ?Q) = mq_msgs ?Q @ [padded ?Q buf]" "mq_msgs (urgent_slot i buf ?Q) = padded ?Q buf # mq_msgs ?Q"
    unfolding mq_msgs_slots [OF s(1)] mq_msgs_slots [OF u(1)] mq_msgs_slots [OF q] s(3) u(3) p by simp_all
  have c: "rt_mq_send m buf K = mq_wake m (set_mq m (send_slot i buf) K)" "rt_mq_urgent m buf K = mq_wake m (set_mq m (urgent_slot i buf) K)"
    using assms(2,3) i by (simp_all add: rt_mq_send_def rt_mq_urgent_def not_less)
  show "\<exists>K'. rt_mq_send m buf K = Some (RT_EOK, K') \<and> sys_ok idle K' \<and> mq_of m K' = mq_of m K @ [padded (mqs K m) buf]
      \<and> msg_size (mqs K' m) = msg_size (mqs K m) \<and> max_msgs (mqs K' m) = max_msgs (mqs K m)"
    using mq_sent_ok [where f = "send_slot i buf" and m = m, OF assms(1) mq_okI [OF s(1)]] ms(1) s(2,4) unfolding c by (auto simp: mq_of_def)
  show "\<exists>K'. rt_mq_urgent m buf K = Some (RT_EOK, K') \<and> sys_ok idle K' \<and> mq_of m K' = padded (mqs K m) buf # mq_of m K
      \<and> msg_size (mqs K' m) = msg_size (mqs K m) \<and> max_msgs (mqs K' m) = max_msgs (mqs K m)"
    using mq_sent_ok [where f = "urgent_slot i buf" and m = m, OF assms(1) mq_okI [OF u(1)]] ms(2) u(2,4) unfolding c by (auto simp: mq_of_def)
qed

lemma mq_recv_ok:
  assumes "sys_ok idle K" "n \<noteq> 0" "mq_of m K \<noteq> []"
  shows "\<exists>K'. rt_mq_recv m n time K = Some (Done (RT_EOK, Some (take (min n (unat (msg_size (mqs K m)))) (hd (mq_of m K)))), K')
    \<and> sys_ok idle K' \<and> mq_of m K' = tl (mq_of m K) \<and> msg_size (mqs K' m) = msg_size (mqs K m) \<and> max_msgs (mqs K' m) = max_msgs (mqs K m)
    \<and> length (hd (mq_of m K)) = unat (msg_size (mqs K m))"
proof -
  let ?Q = "mqs K m"
  obtain xs fr where q0: "mq_slots ?Q xs fr" using queue_ok [OF assms(1)] by blast
  obtain i ys where xs: "xs = i # ys" using assms(3) mq_msgs_slots [OF q0] by (cases xs) (auto simp: mq_of_def)
  note q = q0 [unfolded xs]
  note r = recv_slot_ok [OF q]
  have e: "mq_entry ?Q \<noteq> 0" "queue_head ?Q = Some i" using slots_nonempty [OF q] slots_head [OF q] by simp_all
  have s: "sys_ok idle (set_mq m (recv_slot i) K)" by (rule sys_ok_mq [OF assms(1)]) (rule mq_okI [OF r(1)])
  have ms: "mq_of m K = map (slot_data ?Q) (i # ys)" "mq_msgs (recv_slot i ?Q) = map (slot_data ?Q) ys"
    using mq_msgs_slots [OF q] mq_msgs_slots [OF r(1)] r(2) by (simp_all add: mq_of_def)
  have "rt_mq_recv m n time K = Some (Done (RT_EOK, Some (take (min n (unat (msg_size ?Q))) (slot_data ?Q i))), set_mq m (recv_slot i) K)"
    using assms(2) e by (simp add: rt_mq_recv_def mq_recv_loop_def Let_def return_def)
  then show ?thesis using s ms r(3,4) q by (simp add: mq_of_def set_mq_def) (simp add: mq_slots_def)
qed

definition send_msg :: "nat \<Rightarrow> bytes \<Rightarrow> os \<Rightarrow> os" where
  "send_msg m buf K = (case rt_mq_send m buf K of Some (r, K') \<Rightarrow> K' | None \<Rightarrow> K)"

definition urgent_msg :: "nat \<Rightarrow> bytes \<Rightarrow> os \<Rightarrow> os" where
  "urgent_msg m buf K = (case rt_mq_urgent m buf K of Some (r, K') \<Rightarrow> K' | None \<Rightarrow> K)"

definition recv_msg :: "nat \<Rightarrow> os \<Rightarrow> bytes \<times> os" where
  "recv_msg m K = (case rt_mq_recv m (unat (msg_size (mqs K m))) 0 K of Some (Done (r, Some v), K') \<Rightarrow> (v, K') | _ \<Rightarrow> ([], K))"

text \<open>A message that fills a slot.\<close>

definition whole_msg :: "nat \<Rightarrow> os \<Rightarrow> bytes \<Rightarrow> bool" where
  "whole_msg m K buf = (buf \<noteq> [] \<and> length buf = unat (msg_size (mqs K m)))"

lemma whole_padded:
  assumes "sys_ok idle K" "whole_msg m K buf" "length (mq_of m K) < unat (max_msgs (mqs K m))"
  shows "padded (mqs K m) buf = buf"
proof -
  obtain xs fr where q: "mq_slots (mqs K m) xs fr" using queue_ok [OF assms(1)] by blast
  obtain i where i: "queue_free (mqs K m) = Some i" using assms(3) mq_room [OF q] by (auto simp: mq_of_def)
  then show ?thesis using length_padded [OF q i, of buf] assms(2) by (simp add: whole_msg_def)
qed

interpretation msgs: urgent_queue "\<lambda>K. sys_ok idle K \<and> 0 < msg_size (mqs K m)" "mq_of m" "\<lambda>K. unat (max_msgs (mqs K m))" "whole_msg m"
  "send_msg m" "recv_msg m" "urgent_msg m"
  for idle m
proof
  fix K :: os and buf
  assume a: "sys_ok idle K \<and> 0 < msg_size (mqs K m)" "length (mq_of m K) < unat (max_msgs (mqs K m))" "whole_msg m K buf"
  then have s: "sys_ok idle K" "buf \<noteq> []" "length buf \<le> unat (msg_size (mqs K m))" by (simp_all add: whole_msg_def)
  note p = whole_padded [OF s(1) a(3,2)]
  show "(sys_ok idle (send_msg m buf K) \<and> 0 < msg_size (mqs (send_msg m buf K) m)) \<and> mq_of m (send_msg m buf K) = mq_of m K @ [buf]
      \<and> unat (max_msgs (mqs (send_msg m buf K) m)) = unat (max_msgs (mqs K m)) \<and> whole_msg m (send_msg m buf K) = whole_msg m K"
    using mq_send_ok(1) [OF s a(2)] p a(1) by (auto simp: send_msg_def whole_msg_def)
  show "(sys_ok idle (urgent_msg m buf K) \<and> 0 < msg_size (mqs (urgent_msg m buf K) m)) \<and> mq_of m (urgent_msg m buf K) = buf # mq_of m K
      \<and> unat (max_msgs (mqs (urgent_msg m buf K) m)) = unat (max_msgs (mqs K m)) \<and> whole_msg m (urgent_msg m buf K) = whole_msg m K"
    using mq_send_ok(2) [OF s a(2)] p a(1) by (auto simp: urgent_msg_def whole_msg_def)
next
  fix K :: os
  assume a: "sys_ok idle K \<and> 0 < msg_size (mqs K m)" "mq_of m K \<noteq> []"
  then have s: "sys_ok idle K" "unat (msg_size (mqs K m)) \<noteq> 0" by (auto simp: unat_eq_0)
  obtain K' where k: "rt_mq_recv m (unat (msg_size (mqs K m))) 0 K = Some (Done (RT_EOK, Some (take (unat (msg_size (mqs K m))) (hd (mq_of m K)))), K')"
    "sys_ok idle K'" "mq_of m K' = tl (mq_of m K)" "msg_size (mqs K' m) = msg_size (mqs K m)" "max_msgs (mqs K' m) = max_msgs (mqs K m)"
    "length (hd (mq_of m K)) = unat (msg_size (mqs K m))"
    using mq_recv_ok [OF s a(2), of 0] by auto
  then have "recv_msg m K = (hd (mq_of m K), K')" by (simp add: recv_msg_def)
  then show "(sys_ok idle (snd (recv_msg m K)) \<and> 0 < msg_size (mqs (snd (recv_msg m K)) m))
      \<and> mq_of m K = fst (recv_msg m K) # mq_of m (snd (recv_msg m K))
      \<and> unat (max_msgs (mqs (snd (recv_msg m K)) m)) = unat (max_msgs (mqs K m)) \<and> whole_msg m (snd (recv_msg m K)) = whole_msg m K"
    using k a by (auto simp: whole_msg_def)
qed

end
