(* ===== verification/IpcProps.thy ===== *)
theory IpcProps imports KernelProps KernelQueues begin

text \<open>The properties of the communication objects.\<close>

subsection \<open>Mailboxes and message queues\<close>

lemma demo_queue:
  "mq_of 0 demo_os = []" "msg_size (mqs demo_os 0) = 8" "max_msgs (mqs demo_os 0) = 4"
  "padded (mqs demo_os 0) [1, 2] = [1, 2, 0, 0, 0, 0, 0, 0]"
proof -
  have Q: "mqs demo_os 0 = mq_fresh (\<lambda>_. replicate 8 0) 8 4 0" by (simp add: demo_os_def)
  have "mq_slots (mq_fresh (\<lambda>_. replicate 8 0) 8 4 0) [] (rev [0..<unat (4 :: u16)])" by (rule mq_fresh_ok) simp
  then have s: "mq_slots (mqs demo_os 0) [] [Suc (Suc (Suc 0)), Suc (Suc 0), Suc 0, 0]" by (simp add: Q upt_rec)
  have d: "slot_data (mqs demo_os 0) = (\<lambda>_. replicate 8 0)" by (simp add: Q mq_fresh_def split: prod.split)
  show "mq_of 0 demo_os = []" using mq_msgs_slots [OF s] by (simp add: mq_of_def)
  show "msg_size (mqs demo_os 0) = 8" "max_msgs (mqs demo_os 0) = 4" by (simp_all add: Q mq_fresh_def split: prod.split)
  have "queue_free (mqs demo_os 0) = Some (Suc (Suc (Suc 0)))" using s by (simp add: mq_slots_def)
  then show "padded (mqs demo_os 0) [1, 2] = [1, 2, 0, 0, 0, 0, 0, 0]" by (simp add: padded_def d overwrite_def numeral_eq_Suc)
qed

text \<open>C11: A mailbox is a bounded queue, whoever waits on it: sending without waiting appends the mail, or
  reports a full mailbox and changes nothing; receiving without waiting takes the first mail, or reports
  a timeout and changes nothing. The other mailboxes stay as they are.\<close>

theorem mailbox_refines_queue:
  assumes "sys_ok idle K"
  shows "(if length (mb_of m K) < unat (mb_size (mbxs K m))
      then \<exists>K'. rt_mb_send m v K = Some (Done RT_EOK, K') \<and> sys_ok idle K' \<and> mb_of m K' = mb_of m K @ [v]
        \<and> (\<forall>n. n \<noteq> m \<longrightarrow> mb_of n K' = mb_of n K)
      else rt_mb_send m v K = Some (Done (- RT_EFULL), K))
    \<and> (case mb_of m K of [] \<Rightarrow> rt_mb_recv m 0 K = Some (Done (- RT_ETIMEOUT, None), K)
      | x # xs \<Rightarrow> \<exists>K'. rt_mb_recv m 0 K = Some (Done (RT_EOK, Some x), K') \<and> sys_ok idle K' \<and> mb_of m K' = xs
        \<and> (\<forall>n. n \<noteq> m \<longrightarrow> mb_of n K' = mb_of n K))"
    (is "?send \<and> ?recv")
proof
  have le: "length (mb_of m K) \<le> unat (mb_size (mbxs K m))"
    using mailbox_ok [OF assms, of m] by (simp add: mb_of_def length_mb_msgs mb_ok_def)
  show ?send
  proof (cases "length (mb_of m K) < unat (mb_size (mbxs K m))")
    case True
    have n: "mb_entry (mbxs K m) \<noteq> mb_size (mbxs K m)" using mb_full [of K m] True by simp
    show ?thesis using mb_send_ok [OF assms True, of v] put_mb_ok(2) [OF mailbox_ok [OF assms, of m] n] True by (auto simp: mb_of_def)
  next
    case False
    then have "mb_entry (mbxs K m) = mb_size (mbxs K m)" using mb_full [of K m] le by simp
    then show ?thesis using False by (simp add: rt_mb_send_def rt_mb_send_wait_def return_def)
  qed
  show ?recv
  proof (cases "mb_of m K")
    case Nil
    then have "mb_entry (mbxs K m) = 0" using mb_empty [of K m] by simp
    then show ?thesis using Nil by (simp add: rt_mb_recv_def return_def)
  next
    case (Cons x xs)
    then have n: "mb_entry (mbxs K m) \<noteq> 0" "mb_of m K \<noteq> []" using mb_empty [of K m] by simp_all
    show ?thesis using mb_recv_ok [OF assms n(2), of 0] take_mb_ok(2) [OF mailbox_ok [OF assms, of m] n(1)] Cons by (auto simp: mb_of_def)
  qed
qed

theorem mailbox_refines_queue_witness:
  "\<exists>K'. rt_mb_send 0 7 demo_os = Some (Done RT_EOK, K') \<and> mb_of 0 K' = [7]"
proof -
  have "mb_of 0 demo_os = []" "mb_size (mbxs demo_os 0) = 4" by (simp_all add: mb_of_def mb_msgs_def demo_os_def)
  then show ?thesis using mailbox_refines_queue [OF demo_sys_ok, of 0 7] by auto
qed

text \<open>C14: A message queue is a bounded queue with a second way in at its front: a message that fits is appended,
  an urgent one is put first, a full queue refuses it and a message that is too long is an error, in both
  cases without a change. A message shorter than the slot is followed by what the slot held before, and the
  receiver is given as many bytes of the first message as its buffer and the slot have.\<close>

theorem message_queue_refines_queue:
  assumes "sys_ok idle K" "buf \<noteq> []" "n \<noteq> 0"
  shows "(if unat (msg_size (mqs K m)) < length buf
      then rt_mq_send m buf K = Some (- RT_ERROR, K) \<and> rt_mq_urgent m buf K = Some (- RT_ERROR, K)
      else if length (mq_of m K) < unat (max_msgs (mqs K m))
      then (\<exists>K'. rt_mq_send m buf K = Some (RT_EOK, K') \<and> sys_ok idle K' \<and> mq_of m K' = mq_of m K @ [padded (mqs K m) buf])
        \<and> (\<exists>K'. rt_mq_urgent m buf K = Some (RT_EOK, K') \<and> sys_ok idle K' \<and> mq_of m K' = padded (mqs K m) buf # mq_of m K)
        \<and> take (length buf) (padded (mqs K m) buf) = buf \<and> length (padded (mqs K m) buf) = unat (msg_size (mqs K m))
      else rt_mq_send m buf K = Some (- RT_EFULL, K) \<and> rt_mq_urgent m buf K = Some (- RT_EFULL, K))
    \<and> (case mq_of m K of [] \<Rightarrow> rt_mq_recv m n 0 K = Some (Done (- RT_ETIMEOUT, None), K)
      | x # xs \<Rightarrow> \<exists>K'. rt_mq_recv m n 0 K = Some (Done (RT_EOK, Some (take (min n (unat (msg_size (mqs K m)))) x)), K')
        \<and> sys_ok idle K' \<and> mq_of m K' = xs)"
    (is "?send \<and> ?recv")
proof
  obtain xs fr where q: "mq_slots (mqs K m) xs fr" using queue_ok [OF assms(1)] by blast
  show ?send
  proof (cases "unat (msg_size (mqs K m)) < length buf")
    case True
    then show ?thesis using assms(2) by (simp add: rt_mq_send_def rt_mq_urgent_def)
  next
    case fit: False
    show ?thesis
    proof (cases "length (mq_of m K) < unat (max_msgs (mqs K m))")
      case True
      then obtain i where i: "queue_free (mqs K m) = Some i" using mq_room [OF q] by (auto simp: mq_of_def)
      have l: "length buf \<le> unat (msg_size (mqs K m))" using fit by simp
      show ?thesis using mq_send_ok [OF assms(1,2) l True] length_padded [OF q i l] fit True by auto
    next
      case False
      then have "queue_free (mqs K m) = None" using mq_room [OF q] by (simp add: mq_of_def)
      then show ?thesis using False fit assms(2) by (simp add: rt_mq_send_def rt_mq_urgent_def)
    qed
  qed
  show ?recv
  proof (cases "mq_of m K")
    case Nil
    then have "mq_entry (mqs K m) = 0" using mq_msgs_slots [OF q] slots_nonempty [OF q] by (simp add: mq_of_def)
    then show ?thesis using Nil assms(3) by (simp add: rt_mq_recv_def return_def)
  next
    case (Cons x ys)
    then show ?thesis using mq_recv_ok [OF assms(1,3), of m 0] by auto
  qed
qed

theorem message_queue_refines_queue_witness:
  "\<exists>K'. rt_mq_send 0 [1, 2] demo_os = Some (RT_EOK, K') \<and> mq_of 0 K' = [[1, 2, 0, 0, 0, 0, 0, 0]]"
  using message_queue_refines_queue [OF demo_sys_ok, of "[1, 2]" 1 0] demo_queue by auto

text \<open>Mails sent one after the other into an empty mailbox come out in the same order.\<close>

theorem mails_in_order:
  assumes "sys_ok idle K" "mb_of m K = []" "length vs \<le> unat (mb_size (mbxs K m))"
  shows "fst (gets (recv_mail m) (length vs) (fold (send_mail m) vs K)) = vs"
  using mail.fifo [of idle K m vs] assms by simp

theorem mails_in_order_witness:
  "fst (gets (recv_mail 0) 3 (fold (send_mail 0) [7, 8, 9] demo_os)) = [7, 8, 9]"
proof -
  have "mb_of 0 demo_os = []" "mb_size (mbxs demo_os 0) = 4" by (simp_all add: mb_of_def mb_msgs_def demo_os_def)
  then show ?thesis using mails_in_order [OF demo_sys_ok, of 0 "[7, 8, 9]"] by (simp add: numeral_3_eq_3 del: gets.simps)
qed

text \<open>An urgent message overtakes the messages that wait in a queue; these come out behind it in the order
  they were sent.\<close>

theorem urgent_message_first:
  assumes "sys_ok idle K" "mq_of m K = []" "length ms < unat (max_msgs (mqs K m))" "msg_size (mqs K m) \<noteq> 0"
    "\<forall>x \<in> set (u # ms). length x = unat (msg_size (mqs K m))"
  shows "fst (gets (recv_msg m) (Suc (length ms)) (urgent_msg m u (fold (send_msg m) ms K))) = u # ms"
proof -
  have "x \<noteq> []" if "x \<in> set (u # ms)" for x using assms(4,5) that by (auto simp: unat_eq_0)
  then show ?thesis using msgs.urgent_overtakes [of idle K m ms u] assms by (auto simp: whole_msg_def word_neq_0_conv)
qed

theorem urgent_message_first_witness:
  "fst (gets (recv_msg 0) (Suc (Suc 0)) (urgent_msg 0 [1, 1, 1, 1, 1, 1, 1, 1] (fold (send_msg 0) [[2, 2, 2, 2, 2, 2, 2, 2]] demo_os)))
    = [[1, 1, 1, 1, 1, 1, 1, 1], [2, 2, 2, 2, 2, 2, 2, 2]]"
  using urgent_message_first [OF demo_sys_ok, of 0 "[[2, 2, 2, 2, 2, 2, 2, 2]]" "[1, 1, 1, 1, 1, 1, 1, 1]"] demo_queue
  by (simp del: gets.simps)

subsection \<open>Events\<close>

text \<open>What a waiting thread asks for, and which events it is given.\<close>

definition wants :: "rt_thread \<Rightarrow> u32 \<Rightarrow> bool" where
  "wants x s = (if event_info x AND RT_EVENT_FLAG_AND \<noteq> 0 then event_set x AND s = event_set x
     else event_info x AND RT_EVENT_FLAG_OR \<noteq> 0 \<and> event_set x AND s \<noteq> 0)"

definition given :: "rt_thread \<Rightarrow> u32 \<Rightarrow> u32" where
  "given x s = event_set x AND s"

definition left_over :: "rt_thread \<Rightarrow> u32 \<Rightarrow> u32" where
  "left_over x s = (if event_info x AND RT_EVENT_FLAG_CLEAR \<noteq> 0 then s AND NOT (given x s) else s)"

text \<open>Serving the waiting threads in turn: the events that are left, and what each served thread gets.\<close>

fun serve :: "(nat \<Rightarrow> rt_thread) \<Rightarrow> nat list \<Rightarrow> u32 \<Rightarrow> u32 \<times> (nat \<Rightarrow> u32 option)" where
  "serve f [] s = (s, \<lambda>_. None)"
| "serve f (t # ts) s = (if wants (f t) s
     then (case serve f ts (left_over (f t) s) of (s', M) \<Rightarrow> (s', M(t := Some (given (f t) s))))
     else serve f ts s)"

lemma serve_cong: "(\<And>t. t \<in> set ts \<Longrightarrow> g t = f t) \<Longrightarrow> serve g ts s = serve f ts s"
  by (induction ts arbitrary: s) auto

lemma serve_dom: "serve f ts s = (s', M) \<Longrightarrow> M t \<noteq> None \<Longrightarrow> t \<in> set ts"
  by (induction ts arbitrary: s s' M) (fastforce split: if_splits prod.splits)+

lemma event_status_wants: "event_status s x = (wants x s, if wants x s then x\<lparr>event_set := given x s\<rparr> else x)"
  by (auto simp: event_status_def wants_def given_def)

text \<open>A thread that was served.\<close>

definition served :: "rt_thread \<Rightarrow> u32 \<Rightarrow> rt_thread" where
  "served x b = x\<lparr>event_set := b, t_stat := Thread_ready\<rparr>"

lemma event_wake_serves:
  assumes "kernel_ok K" "\<forall>t \<in> set ts. t_stat (th K t) = Thread_suspend" "distinct ts"
    "serve (th K) ts (evt_set (evts K e)) = (s, M)" "event_wake e ts need K = (n, K')"
  shows "evt_set (evts K' e) = s \<and> th K' = (\<lambda>t. case M t of Some b \<Rightarrow> served (th K t) b | None \<Rightarrow> th K t)
    \<and> (\<forall>q. (\<forall>p. q \<noteq> Ready p) \<longrightarrow> links K' q = filter (\<lambda>t. M t = None) (links K q)) \<and> n = (need \<or> (\<exists>t. M t \<noteq> None))"
  using assms
proof (induction ts arbitrary: need K s M)
  case Nil
  then show ?case by auto
next
  case (Cons t ts)
  let ?v = "evt_set (evts K e)" and ?x = "th K t"
  show ?case
  proof (cases "wants ?x ?v")
    case False
    have "set_th t (\<lambda>_. ?x) K = K" by (simp add: set_th_def)
    then have "event_wake e ts need K = (n, K')" using Cons.prems(5) False by (simp add: event_status_wants Let_def)
    then show ?thesis using Cons.IH [of K s M need] Cons.prems False by simp
  next
    case True
    obtain N where N: "serve (th K) ts (left_over ?x ?v) = (s, N)" "M = N(t := Some (given ?x ?v))"
      using Cons.prems(4) True by (auto split: prod.splits)
    let ?K1 = "set_th t (\<lambda>_. ?x\<lparr>event_set := given ?x ?v\<rparr>) K"
    let ?C = "set_evt e (left_over ?x ?v) ?K1"
    let ?R = "snd (rt_thread_resume t ?C)"
    have w: "event_wake e ts True ?R = (n, K')"
    proof -
      let ?D = "if event_info ?x AND RT_EVENT_FLAG_CLEAR \<noteq> 0 then set_evt e (evt_set (evts ?K1 e) AND NOT (given ?x ?v)) ?K1 else ?K1"
      have D: "?C = ?D" by (auto simp: left_over_def set_th_def set_evt_def)
      have "event_wake e (t # ts) need K = event_wake e ts True (snd (rt_thread_resume t ?D))"
        using True by (simp add: event_wake_step event_status_wants Let_def del: event_wake.simps)
      then show ?thesis using Cons.prems(5) unfolding D by simp
    qed
    have C: "kernel_ok ?C" "t_stat (th ?C t) = Thread_suspend"
      using Cons.prems(1,2) by (auto simp: set_th_def intro!: kernel_ok_cong [of K])
    note r = resume_ok [OF C]
    have thR: "th ?R = (th K)(t := served ?x (given ?x ?v))" unfolding r(3) by (simp add: served_def set_th_def)
    have vR: "evt_set (evts ?R e) = left_over ?x ?v" using more_fields [of ?R ?C] by (simp add: set_evt_def)
    have lR: "links ?R q = removeAll t (links K q)" if "\<forall>p. q \<noteq> Ready p" for q
      unfolding r(4) using that by (simp add: set_th_def)
    have "serve (th ?R) ts (evt_set (evts ?R e)) = (s, N)"
      unfolding vR N(1) [symmetric] thR by (rule serve_cong) (use Cons.prems(3) in auto)
    moreover have "\<forall>u \<in> set ts. t_stat (th ?R u) = Thread_suspend" using Cons.prems(2,3) thR by auto
    ultimately have ih: "evt_set (evts K' e) = s" "th K' = (\<lambda>t. case N t of Some b \<Rightarrow> served (th ?R t) b | None \<Rightarrow> th ?R t)"
      "\<forall>q. (\<forall>p. q \<noteq> Ready p) \<longrightarrow> links K' q = filter (\<lambda>t. N t = None) (links ?R q)" "n"
      using Cons.IH [OF r(2) _ _ _ w, of s N] Cons.prems(3) by auto
    have nt: "N t = None" using serve_dom [OF N(1), of t] Cons.prems(3) by (cases "N t") auto
    have "th K' = (\<lambda>t. case M t of Some b \<Rightarrow> served (th K t) b | None \<Rightarrow> th K t)"
      unfolding ih(2) thR N(2) using nt by (auto split: option.split)
    moreover have "links K' q = filter (\<lambda>t. M t = None) (links K q)" if "\<forall>p. q \<noteq> Ready p" for q
      using ih(3) lR [OF that] that nt by (auto simp: N(2) removeAll_filter_not_eq intro!: filter_cong)
    ultimately show ?thesis using ih(1,4) N(2) by auto
  qed
qed

lemma send_serves:
  assumes "sys_ok idle K" "v \<noteq> 0" "serve (th K) (links K (Waiting (Evt e))) (evt_set (evts K e) OR v) = (s, M)"
  shows "\<exists>K'. rt_event_send e v K = Some (RT_EOK, K') \<and> sys_ok idle K' \<and> evt_set (evts K' e) = s
    \<and> th K' = (\<lambda>t. case M t of Some b \<Rightarrow> served (th K t) b | None \<Rightarrow> th K t)
    \<and> links K' (Waiting (Evt e)) = filter (\<lambda>t. M t = None) (links K (Waiting (Evt e)))"
proof -
  let ?K = "set_evt e (evt_set (evts K e) OR v) K" and ?ts = "links K (Waiting (Evt e))"
  have k: "kernel_ok ?K" using sys_okD(4) [OF assms(1)] by simp
  have st: "\<forall>t \<in> set ?ts. t_stat (th ?K t) = Thread_suspend"
    using waiting_suspended [OF k, of "Waiting (Evt e)"] by simp
  have d: "distinct ?ts" using sys_okD(4) [OF assms(1)] by (simp add: kernel_ok_def lists_ok_def)
  have sv: "serve (th ?K) ?ts (evt_set (evts ?K e)) = (s, M)" using assms(3) by (simp add: set_evt_def)
  obtain n W where w: "event_wake e ?ts False ?K = (n, W)" by (cases "event_wake e ?ts False ?K")
  note r = event_wake_serves [OF k st d sv w]
  have eq: "rt_event_send e v K = (if n then return_schedule RT_EOK W else Some (RT_EOK, W))"
    using w assms(2) by (simp add: rt_event_send_def Let_def set_evt_def)
  obtain x K' where x: "rt_event_send e v K = Some (x, K')" "sys_ok idle K'"
    using event_send_runs [OF assms(1), of e v] by (auto simp: runs_ok_def)
  have keep: "x = RT_EOK \<and> th K' = th W \<and> links K' = links W \<and> evts K' = evts W"
  proof (cases n)
    case True
    then have c: "rt_schedule W = Some K'" "x = RT_EOK" using eq x(1) by (cases "rt_schedule W"; auto simp: return_schedule_def)+
    have "mid_ok idle W" using event_wake_mid [of idle ?K ?ts e False] sys_mid [OF assms(1)] st d w by (auto simp: mid_ok_def)
    then have "scheduled W K'" using schedule_ok [of idle W] c(1) by (auto simp: mid_ok_def)
    then show ?thesis using c(2) scheduled_keeps [of W K'] scheduled_more [of W K'] more_fields [of K' W] by auto
  next
    case False
    then show ?thesis using eq x(1) by auto
  qed
  have e: "th ?K = th K" by simp
  show ?thesis using x keep r unfolding e by (intro exI [of _ K']) simp
qed

text \<open>C10: A sender serves the threads that wait for an event set, in the order of the list: each one whose
  condition holds is made ready with the events it is given, those marked for clearing are taken out of the set
  before the next one is looked at, and all others go on waiting. A thread that was served returns from its call
  with these events.\<close>

theorem event_reaches_waiting_threads:
  assumes "sys_ok idle K" "v \<noteq> 0" "serve (th K) (links K (Waiting (Evt e))) (evt_set (evts K e) OR v) = (s, M)"
  shows "\<exists>K'. rt_event_send e v K = Some (RT_EOK, K') \<and> sys_ok idle K' \<and> evt_set (evts K' e) = s
    \<and> links K' (Waiting (Evt e)) = filter (\<lambda>t. M t = None) (links K (Waiting (Evt e)))
    \<and> (\<forall>t b. M t = Some b \<longrightarrow> t_stat (th K' t) = Thread_ready
        \<and> (t_error (th K t) = RT_EOK \<longrightarrow> rt_event_recv_rest t K' = ((RT_EOK, Some b), K')))"
  using send_serves [OF assms] by (auto simp: served_def rt_event_recv_rest_def)

theorem event_reaches_waiting_threads_witness:
  "\<exists>K'. rt_event_send 0 2 demo_os = Some (RT_EOK, K') \<and> evt_set (evts K' 0) = 0 \<and> t_stat (th K' 2) = Thread_ready
    \<and> rt_event_recv_rest 2 K' = ((RT_EOK, Some 2), K')"
proof -
  have l: "links demo_os (Waiting (Evt 0)) = [2]" "evt_set (evts demo_os 0) = 0" by (simp_all add: demo_os_def)
  have x: "event_set (th demo_os 2) = 15" "event_info (th demo_os 2) = 6" "t_error (th demo_os 2) = RT_EOK"
    by (simp_all add: demo_os_def demo_thread_def RT_EOK_def)
  have "serve (th demo_os) (links demo_os (Waiting (Evt 0))) (evt_set (evts demo_os 0) OR 2) = (0, (\<lambda>_. None)(2 := Some 2))"
    by (simp add: l x wants_def given_def left_over_def ipc_flags)
  from event_reaches_waiting_threads [OF demo_sys_ok _ this] x(3) show ?thesis by auto
qed

subsection \<open>Mutexes\<close>

text \<open>The last release by the owner, up to the choice between waiting threads and none.\<close>

lemma last_release:
  assumes "sys_ok idle K" "cur K = Some t" "owner (mtxs K m) = Some t" "hold (mtxs K m) = 1"
  shows "\<exists>P. sys_ok idle P \<and> cur P = Some t \<and> th P = (th K)(t := th P t) \<and> current_priority (th P t) = original_priority (mtxs K m)
    \<and> (\<forall>q. (\<forall>p. q \<noteq> Ready p) \<longrightarrow> links P q = links K q) \<and> mtxs P = (mtxs K)(m := (mtxs K m)\<lparr>hold := 0\<rparr>)
    \<and> rt_mutex_release m K = (case links P (Waiting (Mtx m)) of
        w # _ \<Rightarrow> return_schedule RT_EOK (rt_ipc_list_resume (Waiting (Mtx m))
          (set_mtx m (\<lambda>M. M\<lparr>owner := Some w, original_priority := current_priority (th P w), hold := hold M + 1\<rparr>) P))
      | [] \<Rightarrow> Some (RT_EOK, set_mtx m (\<lambda>M. M\<lparr>mtx_value := mtx_value M + 1, owner := None, original_priority := 0xff\<rparr>) P))"
proof -
  have i: "in_thread K" using sys_okD(5) [OF assms(1)] .
  have m: "mutex_ok (mtxs K m)" using sys_okD(2) [OF assms(1)] by (simp add: objects_ok_def)
  let ?H = "set_mtx m (\<lambda>M. M\<lparr>hold := hold M - 1\<rparr>) K" and ?p = "original_priority (mtxs K m)"
  have H: "sys_ok idle ?H" by (rule sys_ok_mtx [OF assms(1)]) (use m in simp)
  have M: "mtxs ?H m = (mtxs K m)\<lparr>hold := 0\<rparr>" using assms(4) by (simp add: set_mtx_def)
  have op: "unat ?p < 32" using m assms(3) by (simp add: mutex_ok_def)
  let ?P = "if ?p \<noteq> current_priority (th ?H t) then change_priority t ?p ?H else ?H"
  note c = change_priority_ok [OF sys_okD(4) [OF H] op, where t = t]
  have "sys_ok idle ?P" using sys_ok_prio [OF H op] H by simp
  moreover have "cur ?P = Some t" "th ?P = (th K)(t := th ?P t)" "current_priority (th ?P t) = ?p" using assms(2) c by auto
  moreover have "\<forall>q. (\<forall>p. q \<noteq> Ready p) \<longrightarrow> links ?P q = links K q" using c(8) by simp
  moreover have "mtxs ?P = mtxs ?H" using more_fields [OF c(7)] by simp
  then have "mtxs ?P = (mtxs K)(m := (mtxs K m)\<lparr>hold := 0\<rparr>)" using M by (simp add: set_mtx_def)
  moreover have "rt_mutex_release m K = (case links ?P (Waiting (Mtx m)) of
        w # _ \<Rightarrow> return_schedule RT_EOK (rt_ipc_list_resume (Waiting (Mtx m))
          (set_mtx m (\<lambda>M. M\<lparr>owner := Some w, original_priority := current_priority (th ?P w), hold := hold M + 1\<rparr>) ?P))
      | [] \<Rightarrow> Some (RT_EOK, set_mtx m (\<lambda>M. M\<lparr>mtx_value := mtx_value M + 1, owner := None, original_priority := 0xff\<rparr>) ?P))"
    using i assms(2,3) M by (simp add: rt_mutex_release_def Let_def split: list.split)
  ultimately show ?thesis by blast
qed

text \<open>When its owner releases a mutex for the last time and threads wait for it, the mutex goes to the first
  of them, once and without being free in between; this thread becomes ready, the others go on waiting, and the
  old owner is back at the priority it had when it took the mutex.\<close>

theorem mutex_handed_over:
  assumes "sys_ok idle K" "cur K = Some t" "owner (mtxs K m) = Some t" "hold (mtxs K m) = 1" "links K (Waiting (Mtx m)) = w # ws"
  shows "\<exists>K'. rt_mutex_release m K = Some (RT_EOK, K') \<and> sys_ok idle K' \<and> owner (mtxs K' m) = Some w \<and> hold (mtxs K' m) = 1
    \<and> mtx_value (mtxs K' m) = 0 \<and> t_stat (th K' w) = Thread_ready \<and> links K' (Waiting (Mtx m)) = ws
    \<and> current_priority (th K' t) = original_priority (mtxs K m)"
proof -
  obtain P where P: "sys_ok idle P" "th P = (th K)(t := th P t)" "current_priority (th P t) = original_priority (mtxs K m)"
    "links P (Waiting (Mtx m)) = w # ws" "mtxs P = (mtxs K)(m := (mtxs K m)\<lparr>hold := 0\<rparr>)"
    "rt_mutex_release m K = (case links P (Waiting (Mtx m)) of
        w # _ \<Rightarrow> return_schedule RT_EOK (rt_ipc_list_resume (Waiting (Mtx m))
          (set_mtx m (\<lambda>M. M\<lparr>owner := Some w, original_priority := current_priority (th P w), hold := hold M + 1\<rparr>) P))
      | [] \<Rightarrow> Some (RT_EOK, set_mtx m (\<lambda>M. M\<lparr>mtx_value := mtx_value M + 1, owner := None, original_priority := 0xff\<rparr>) P))"
    and cP: "cur P = Some t"
    using last_release [OF assms(1-4)] assms(5) by auto
  let ?f = "\<lambda>M. M\<lparr>owner := Some w, original_priority := current_priority (th P w), hold := hold M + 1\<rparr>"
  have w: "t_stat (th P w) = Thread_suspend"
    using waiting_suspended [OF sys_okD(4) [OF P(1)], of "Waiting (Mtx m)" w] P(4) by simp
  then have "unat (current_priority (th P w)) < 32" using ready_prio [OF P(1)] by simp
  moreover have v: "mtx_value (mtxs K m) = 0" using sys_okD(2) [OF assms(1)] assms(3) by (auto simp: objects_ok_def mutex_ok_def split: option.splits dest: spec [of _ m])
  ultimately have S: "sys_ok idle (set_mtx m ?f P)"
    by (intro sys_ok_mtx [OF P(1)]) (use P(5) in \<open>simp add: mutex_ok_def\<close>)
  have l: "links (set_mtx m ?f P) (Waiting (Mtx m)) = w # ws" using P(4) by simp
  obtain K' where k: "rt_schedule (rt_ipc_list_resume (Waiting (Mtx m)) (set_mtx m ?f P)) = Some K'" "good idle K'"
    "th K' = (th P)(w := (th P w)\<lparr>t_stat := Thread_ready\<rparr>)" "links K' (Waiting (Mtx m)) = ws"
    "kernel.more K' = kernel.more (set_mtx m ?f P)" "irq_nest K' = irq_nest (set_mtx m ?f P)"
    using resume_schedule [OF sys_okD(1) [OF S] _ l] by auto
  have "sys_ok idle K'" by (rule sys_ok_more [OF S k(2,5,6)])
  moreover have "mtxs K' m = ?f ((mtxs K m)\<lparr>hold := 0\<rparr>)" using more_fields [OF k(5)] P(5) by (simp add: set_mtx_def)
  moreover have "w \<noteq> t" using running [OF P(1) cP] w by auto
  moreover have "rt_mutex_release m K = Some (RT_EOK, K')" using k(1) P(4,6) by (simp add: return_schedule_def)
  ultimately show ?thesis using k(3,4) P(3) v by (intro exI [of _ K']) simp
qed

text \<open>Thread 1 owns the mutex 0, which it took at the priority 20, and has inherited its priority 10.\<close>

definition demo_owned :: os where
  "demo_owned = set_mtx 0 (\<lambda>M. M\<lparr>mtx_value := 0, owner := Some 1, hold := 1, original_priority := 20\<rparr>) demo_os"

definition demo_waiting :: os where
  "demo_waiting = demo_owned\<lparr>links := (links demo_owned)(Waiting (Evt 0) := [], Waiting (Mtx 0) := [2])\<rparr>"

lemma demo_owned_ok: "sys_ok 0 demo_owned"
  unfolding demo_owned_def by (rule sys_ok_mtx [OF demo_sys_ok]) (simp add: mutex_ok_def)

lemma demo_owned_fields:
  "links demo_owned = links demo_os" "th demo_owned = th demo_os" "cur demo_owned = Some 1"
  "mtxs demo_owned 0 = \<lparr>mtx_value = 0, original_priority = 20, hold = 1, owner = Some 1, mtx_flag = 1\<rparr>"
  by (simp_all add: demo_owned_def) (simp_all add: set_mtx_def demo_os_def)

lemma demo_links [simp]: "links demo_os (Waiting (Evt 0)) = [2]" "links demo_os (Waiting (Mtx m)) = []" "t_stat (th demo_os 2) = Thread_suspend"
  by (simp_all add: demo_os_def demo_thread_def)

lemma demo_waiting_ok: "sys_ok 0 demo_waiting"
proof -
  have k: "kernel_ok demo_owned" "can_run 0 demo_owned" "live demo_owned" "objects_ok demo_owned" "irq_nest demo_owned = 0"
    using demo_owned_ok by (simp_all add: sys_ok_def good_def can_run_def)
  then have u: "q = Waiting (Evt 0)" if "2 \<in> set (links demo_os q)" for q
    using that by (auto simp: kernel_ok_def lists_ok_def demo_owned_fields)
  have "lists_ok demo_waiting"
    using k(1) u by (auto simp: kernel_ok_def lists_ok_def demo_waiting_def demo_owned_fields)
  then have "kernel_ok demo_waiting"
    using k(1) by (simp add: kernel_ok_def demo_waiting_def ready_ok_def prios_ok_def timers_ok_def)
  then show ?thesis using k by (simp add: sys_ok_def good_def can_run_def demo_waiting_def live_def objects_ok_def)
qed

theorem mutex_handed_over_witness:
  "\<exists>K'. rt_mutex_release 0 demo_waiting = Some (RT_EOK, K') \<and> owner (mtxs K' 0) = Some 2 \<and> t_stat (th K' 2) = Thread_ready
    \<and> current_priority (th K' 1) = 20"
proof -
  have f: "cur demo_waiting = Some 1" "owner (mtxs demo_waiting 0) = Some 1" "hold (mtxs demo_waiting 0) = 1"
    "links demo_waiting (Waiting (Mtx 0)) = [2]" "original_priority (mtxs demo_waiting 0) = 20"
    by (simp_all add: demo_waiting_def demo_owned_fields)
  from mutex_handed_over [OF demo_waiting_ok f(1-4)] f(5) show ?thesis by auto
qed

text \<open>When nobody waits for the mutex, for instance because the wait of the thread that raised the priority
  of the owner has timed out, the last release puts the owner back to its old priority but does not call the
  scheduler: the owner goes on although a ready thread is better.\<close>

theorem release_keeps_worse_thread_running:
  assumes "sys_ok idle K" "cur K = Some t" "owner (mtxs K m) = Some t" "hold (mtxs K m) = 1" "links K (Waiting (Mtx m)) = []"
    "r \<noteq> t" "t_stat (th K r) = Thread_ready" "current_priority (th K r) < original_priority (mtxs K m)"
  shows "\<exists>K'. rt_mutex_release m K = Some (RT_EOK, K') \<and> sys_ok idle K' \<and> cur K' = Some t
    \<and> t_stat (th K' r) = Thread_ready \<and> current_priority (th K' r) < current_priority (th K' t)"
proof -
  obtain P where P: "th P = (th K)(t := th P t)" "current_priority (th P t) = original_priority (mtxs K m)" "cur P = Some t"
    "rt_mutex_release m K = Some (RT_EOK, set_mtx m (\<lambda>M. M\<lparr>mtx_value := mtx_value M + 1, owner := None, original_priority := 0xff\<rparr>) P)"
    (is "_ = Some (_, ?K)")
    using last_release [OF assms(1-4)] assms(5) by auto
  have "sys_ok idle ?K" using mutex_release_runs [OF assms(1,2), of m] P(4) by (auto simp: runs_ok_def)
  moreover have "th P r = th K r" using assms(6) by (subst P(1)) simp
  ultimately show ?thesis using P(2-4) assms(7,8) by (intro exI [of _ ?K]) simp
qed

theorem release_keeps_worse_thread_running_witness:
  "\<exists>K'. rt_mutex_release 0 demo_owned = Some (RT_EOK, K') \<and> cur K' = Some 1 \<and> t_stat (th K' 3) = Thread_ready
    \<and> current_priority (th K' 3) < current_priority (th K' 1)"
proof -
  have f: "cur demo_owned = Some 1" "owner (mtxs demo_owned 0) = Some 1" "hold (mtxs demo_owned 0) = 1" "links demo_owned (Waiting (Mtx 0)) = []"
    "(3 :: nat) \<noteq> 1" "t_stat (th demo_owned 3) = Thread_ready" "current_priority (th demo_owned 3) < original_priority (mtxs demo_owned 0)"
    unfolding demo_owned_fields by (simp_all add: demo_os_def demo_thread_def)
  from release_keeps_worse_thread_running [OF demo_owned_ok f] show ?thesis by auto
qed

end
