(* ===== verification/CardThreads.thy ===== *)
theory CardThreads imports Rc522 Ipc UserCheck begin

text \<open>rfid_thread.c, finger_thread.c and rtc_thread.c: the thread that reads the two card readers in turn and
  reports cards as events, the events of the finger print reader, and the thread that keeps the time.  Number 0 is
  the reader inside, number 1 the one outside; \<open>e\<close> is the event set \<open>g_user_check_event\<close> of the kernel.
  Delays and printing are left out.\<close>

subsection \<open>One card, one event\<close>

record side =
  old_id :: u32
  timer :: u32
  timer_en :: bool
  over_time :: bool

text \<open>What the thread does with the number of a card: a card other than the last one is reported at once, the
  same card only when its time is over. The boolean says whether an event is sent.\<close>

definition side_card :: "u32 \<Rightarrow> side \<Rightarrow> bool \<times> side" where
  "side_card nr S = (let S = (if old_id S \<noteq> nr then S\<lparr>over_time := False, old_id := nr\<rparr> else S) in
     if \<not> over_time S then (True, S\<lparr>over_time := True, timer_en := True\<rparr>) else (False, S))"

definition side_tick :: "side \<Rightarrow> side" where
  "side_tick S = (if timer_en S then
       (if timer S + 1 \<ge> 50 then S\<lparr>over_time := False, timer := 0, timer_en := False\<rparr> else S\<lparr>timer := timer S + 1\<rparr>)
     else S)"

subsection \<open>The card thread\<close>

text \<open>\<open>rf_found\<close> says which of the device pointers \<open>rt_spi_rc522_in_device\<close> and \<open>rt_spi_rc522_out_device\<close>
  is not null; a transfer on a null device fails an assertion.\<close>

record 'c rfid =
  rf_rc :: "'c rc522"
  rf_found :: "nat \<Rightarrow> bool"
  rf_card_id :: u32
  rf_side :: "nat \<Rightarrow> side"
  rf_os :: os

definition side_event :: "nat \<Rightarrow> u32" where
  "side_event d = (if d = 0 then USER_CHECK_CARD_IN else USER_CHECK_CARD_OUT)"

definition rfid_side :: "'c spi_env \<Rightarrow> bytes \<Rightarrow> bytes \<Rightarrow> nat \<Rightarrow> nat \<Rightarrow> 'c rfid \<Rightarrow> 'c rfid option" where
  "rfid_side H u1 u2 e d T = (if \<not> rf_found T d then None else do {
     (r, v, R) \<leftarrow> ReadID H u1 u2 ((rf_rc T)\<lparr>rc_dev := d\<rparr>);
     let T = T\<lparr>rf_rc := R\<rparr>;
     (case v of None \<Rightarrow> Some T
      | Some nr \<Rightarrow> let (send, S) = side_card nr (rf_side T d); T = T\<lparr>rf_card_id := nr, rf_side := (rf_side T)(d := S)\<rparr> in
          if send then map_option (\<lambda>(r, K). T\<lparr>rf_os := K\<rparr>) (rt_event_send e (side_event d) (rf_os T)) else Some T) })"

definition rc522_round :: "'c spi_env \<Rightarrow> bytes \<Rightarrow> bytes \<Rightarrow> nat \<Rightarrow> 'c rfid \<Rightarrow> 'c rfid option" where
  "rc522_round H u1 u2 e T = do {
     T \<leftarrow> rfid_side H u1 u2 e 0 T;
     T \<leftarrow> rfid_side H u1 u2 e 1 T;
     Some (T\<lparr>rf_side := (rf_side T)(0 := side_tick (rf_side T 0), 1 := side_tick (rf_side T 1))\<rparr>) }"

text \<open>Before the loop: the number of the last card of either reader is not initialised, and the result of
  \<open>InitRC522\<close> is not looked at. The reader outside is looked for only when the one inside was found.\<close>

definition rc522_thread_entry :: "'c spi_env \<Rightarrow> (nat \<Rightarrow> bool \<Rightarrow> 'c \<Rightarrow> 'c) \<Rightarrow> bool \<Rightarrow> int \<Rightarrow> int \<Rightarrow> (nat \<Rightarrow> bool) \<Rightarrow> (nat \<Rightarrow> u32)
    \<Rightarrow> 'c rfid \<Rightarrow> 'c rfid option" where
  "rc522_thread_entry H rst bus_found r0 r1 found old T = map_option (\<lambda>(r, R).
     T\<lparr>rf_rc := R, rf_found := (\<lambda>d. found 0 \<and> (d \<noteq> 0 \<longrightarrow> found d)), rf_side := (\<lambda>d. \<lparr>old_id = old d, timer = 0, timer_en = False, over_time = False\<rparr>)\<rparr>)
     (InitRC522 H rst bus_found r0 r1 found (rf_rc T))"

subsection \<open>Events by hand\<close>

definition send_get_card_event :: "nat \<Rightarrow> u8 \<Rightarrow> u32 \<Rightarrow> 'c rfid \<Rightarrow> 'c rfid option" where
  "send_get_card_event e state nr T = (if state = 0 \<or> state = 1
     then let T = T\<lparr>rf_card_id := nr\<rparr> in map_option (\<lambda>(r, K). T\<lparr>rf_os := K\<rparr>)
       (rt_event_send e (if state = 0 then USER_CHECK_CARD_OUT else USER_CHECK_CARD_IN) (rf_os T))
     else Some T)"

text \<open>The number of the finger is stored even when the side is not known.\<close>

definition finger_print_event_send :: "nat \<Rightarrow> u8 \<Rightarrow> u32 \<Rightarrow> u32 \<times> os \<Rightarrow> (u32 \<times> os) option" where
  "finger_print_event_send e state nr s = (case s of (g_finger_user_id, K) \<Rightarrow>
     if state = 0 then map_option (\<lambda>(r, K). (nr, K)) (rt_event_send e USER_CHECK_FINGER_OUT K)
     else if state = 1 then map_option (\<lambda>(r, K). (nr, K)) (rt_event_send e USER_CHECK_FINGER_IN K)
     else Some (nr, K))"

subsection \<open>The clock thread\<close>

definition rtc_default :: "time_value \<Rightarrow> time_value" where
  "rtc_default t = t\<lparr>t_year := 0, t_month := 1, t_date := 1, t_hour := 0, t_minute := 0, t_second := 0, t_week := 6\<rparr>"

text \<open>Before the loop: a clock chip that has lost its mark is set to a fixed date; the second check is only
  reported. \<open>g\<close> is what the receive buffers hold before.\<close>

definition rtc_thread_entry :: "u8 \<Rightarrow> u8 \<Rightarrow> time_value \<Rightarrow> iic \<Rightarrow> time_value \<times> iic" where
  "rtc_thread_entry g1 g2 t st = (case DS1307_Check g1 st of (r, st) \<Rightarrow>
     (case (if r \<noteq> 0 then (rtc_default t, snd (DS1307_Time_Init (rtc_default t) st)) else (t, st)) of (t, st) \<Rightarrow>
       (t, snd (DS1307_Check g2 st))))"

definition rtc_round :: "bytes \<Rightarrow> time_value \<Rightarrow> iic \<Rightarrow> time_value \<times> iic" where
  "rtc_round stack t st = DS1307_ReadWrite_Time stack 1 t st"

definition set_time :: "u8 \<Rightarrow> u8 \<Rightarrow> u8 \<Rightarrow> u8 \<Rightarrow> u8 \<Rightarrow> u8 \<Rightarrow> u8 \<Rightarrow> time_value \<Rightarrow> iic \<Rightarrow> time_value \<times> iic" where
  "set_time y mo d h mi s w t st = (let t = t\<lparr>t_year := y, t_month := mo, t_date := d, t_hour := h, t_minute := mi, t_second := s, t_week := w\<rparr>
     in (t, snd (DS1307_Time_Init t st)))"

subsection \<open>The time between two events\<close>

text \<open>A reader that reads \<open>v\<close> in one round of the thread.\<close>

definition side_round :: "u32 option \<Rightarrow> side \<Rightarrow> bool \<times> side" where
  "side_round v S = (case v of None \<Rightarrow> (False, side_tick S) | Some nr \<Rightarrow> (case side_card nr S of (b, S) \<Rightarrow> (b, side_tick S)))"

fun side_rounds :: "u32 option list \<Rightarrow> side \<Rightarrow> bool list \<times> side" where
  "side_rounds [] S = ([], S)"
| "side_rounds (v # vs) S = (case side_round v S of (b, S) \<Rightarrow> case side_rounds vs S of (bs, S) \<Rightarrow> (b # bs, S))"

lemma side_rounds_append: "side_rounds (xs @ ys) S = (case side_rounds xs S of (bs, S) \<Rightarrow> case side_rounds ys S of (cs, S) \<Rightarrow> (bs @ cs, S))"
  by (induction xs arbitrary: S) (auto split: prod.splits)

text \<open>The state \<open>k\<close> rounds after the card \<open>nr\<close> was reported.\<close>

definition waiting_side :: "u32 \<Rightarrow> nat \<Rightarrow> side" where
  "waiting_side nr k = \<lparr>old_id = nr, timer = of_nat (k mod 50), timer_en = (k mod 50 \<noteq> 0), over_time = (k mod 50 \<noteq> 0)\<rparr>"

lemma small_timer:
  assumes "n < 50"
  shows "((of_nat n :: u32) + 1 \<ge> 50) = (n = 49)" "(of_nat n :: u32) + 1 = of_nat (Suc n)"
proof -
  have "unat ((of_nat n :: u32) + 1) = Suc n" using assms by (simp add: unat_word_ariths unat_of_nat)
  then show "((of_nat n :: u32) + 1 \<ge> 50) = (n = 49)" using assms by (auto simp: word_le_nat_alt)
qed simp

lemma waiting_step: "side_round (Some nr) (waiting_side nr k) = (k mod 50 = 0, waiting_side nr (Suc k))"
proof -
  have "k mod 50 < 50" by simp
  note t = small_timer [OF this]
  have n: "\<not> (50 :: u32) \<le> 1" by (simp add: word_le_nat_alt)
  have c: "(50 :: u32) \<le> x + 1 \<longleftrightarrow> 50 \<le> 1 + x" for x by (simp add: add.commute)
  show ?thesis
    using t n by (cases "k mod 50 = 49") (auto simp: c side_round_def side_card_def side_tick_def waiting_side_def mod_Suc Let_def)
qed

lemma waiting_rounds: "side_rounds (replicate n (Some nr)) (waiting_side nr k) = (map (\<lambda>j. (k + j) mod 50 = 0) [0..<n], waiting_side nr (k + n))"
proof (induction n arbitrary: k)
  case (Suc n)
  have "map (\<lambda>j. (k + j) mod 50 = 0) [0..<Suc n] = (k mod 50 = 0) # map (\<lambda>j. (Suc k + j) mod 50 = 0) [0..<n]"
    by (simp add: upt_conv_Cons map_Suc_upt [symmetric] del: upt_Suc)
  then show ?case using Suc.IH [of "Suc k"] by (simp add: waiting_step)
qed simp

end
