(* ===== verification/RfidProps.thy ===== *)
theory RfidProps imports Rc522Read CheckProps IpcProps CardThreads begin

text \<open>The properties of the card readers: reading a card, how often a card is reported, and the way of a card
  from the reader to the door.\<close>

subsection \<open>A reader with a card\<close>

definition demo_rc_chip :: rc_chip where
  "demo_rc_chip = \<lparr>ch_regs = (\<lambda>_. 0), ch_fifo = [], ch_bits = 0, ch_card = (\<lambda>f. if f = [PICC_REQALL] then Some ([4, 0], 0)
     else if f = [PICC_ANTICOLL1, 0x20] then Some ([0, 0, 0x12, 0x34, 0x26], 0) else None)\<rparr>"

definition demo_reader :: "rc_field rc522" where
  "demo_reader = \<lparr>bus = \<lparr>spi_owner = None, spi_config = (\<lambda>_. rc_config), spi_errno = 0, spi_lock = 0,
       chip = \<lparr>chips = (\<lambda>_. demo_rc_chip), selected = None, address = None\<rparr>\<rparr>,
     rc_writeBuf = [0, 0], rc_readBuf = [0, 0], rc_dev = 1, rc_ct = [0, 0], rc_snr = [0, 0, 0, 0]\<rparr>"

definition demo_rfid :: "rc_field rfid" where
  "demo_rfid = \<lparr>rf_rc = demo_reader, rf_found = (\<lambda>_. True), rf_card_id = 0, rf_side = (\<lambda>_. \<lparr>old_id = 0, timer = 0, timer_en = False, over_time = False\<rparr>), rf_os = demo_os\<rparr>"

lemma demo_reader_at: "reader_at (0, 1, [0, 0], [0, 0, 0, 0]) demo_rc_chip demo_reader"
  by (simp add: rc_at_def demo_reader_def rc_ok_def rc_config_def)

lemma demo_cards:
  "ch_card demo_rc_chip [PICC_REQALL] = Some ([4, 0], 0)" "ch_card demo_rc_chip [PICC_ANTICOLL1, 0x20] = Some ([0, 0, 0x12, 0x34, 0x26], 0)"
  "foldl (XOR) 0 (take 4 [0, 0, 0x12, 0x34, 0x26]) = ([0, 0, 0x12, 0x34, 0x26] :: bytes) ! 4" "card_number [0, 0, 0x12, 0x34, 0x26] = 0x1234"
  by (simp_all add: demo_rc_chip_def PICC_REQALL_def PICC_ANTICOLL1_def card_number_def)

lemma read_card:
  assumes "reader_at (k, d, ct, snr) C R" "length u1 = MAXRLEN" "length u2 = MAXRLEN"
    "ch_card C [PICC_REQALL] = Some (tag, 0)" "length tag = 2" "ch_card C [PICC_ANTICOLL1, 0x20] = Some (s, 0)" "length s = 5"
  shows "\<exists>R'. ReadID field_env u1 u2 R = (if foldl (XOR) 0 (take 4 s) = s ! 4 then Some (0, Some (card_number s), R')
    else Some (- 1, None, R'))"
proof -
  have f: "field_at (k, d, ct, snr) (ch_card C) (ch_fifo C) (ch_regs C CommandReg) (ch_regs C ComIrqReg) (ch_regs C ErrorReg) (ch_bits C) R"
    using assms(1) by (auto simp: field_at_def)
  have n: "card_number (take 4 s) = card_number s" by (simp add: card_number_def)
  have "yields (ReadID field_env u1 u2 R) (\<lambda>(r, v, R'). if foldl (XOR) 0 (take 4 s) = s ! 4 then r = 0 \<and> v = Some (card_number s) else r = - 1 \<and> v = None)"
    unfolding ReadID_def
    apply (rule yields_bind [OF Request_at [OF f assms(2,4,5)]])
    apply clarsimp
    apply (rule yields_bind [OF Anticoll_at [where c = "ch_card C", OF _ assms(3,6,7)]], assumption)
    apply (auto simp: n mi_codes split: if_splits)
    done
  then show ?thesis by (auto dest!: yieldsD split: if_splits)
qed

text \<open>The reader gives the number of the card in its field, four bytes with the first one highest, when the
  check byte the card sends is the exclusive or of these bytes, whatever is in the chip from before; with a wrong
  check byte it gives no number.\<close>

theorem card_number_is_read:
  assumes "reader_at (k, d, ct, snr) C R" "length u1 = MAXRLEN" "length u2 = MAXRLEN"
    "ch_card C [PICC_REQALL] = Some (tag, 0)" "length tag = 2" "ch_card C [PICC_ANTICOLL1, 0x20] = Some (s, 0)" "length s = 5"
  shows "\<exists>R'. ReadID field_env u1 u2 R = (if foldl (XOR) 0 (take 4 s) = s ! 4 then Some (0, Some (card_number s), R')
    else Some (- 1, None, R'))"
  by (rule read_card [OF assms])

theorem card_number_is_read_witness:
  "\<exists>R'. ReadID field_env (replicate 18 0) (replicate 18 0) demo_reader = Some (0, Some 0x1234, R')"
  using card_number_is_read [OF demo_reader_at _ _ demo_cards(1) _ demo_cards(2), of "replicate 18 0" "replicate 18 0"] demo_cards(3,4)
  by (simp add: MAXRLEN_def)

text \<open>C9: Whatever the bus and the chips answer, reading a card and the commands for the memory of a card come to
  an end, never store or read outside their arrays (the 18 bytes of \<open>ucComMF522Buf\<close> and the transfer buffers, an access
  outside which has the result \<open>None\<close>) and give the lock of the bus back; a number is given exactly with result 0.\<close>

theorem reader_safe_on_any_hardware:
  fixes R :: "'c rc522"
  assumes "rc_ok k R" "length u = MAXRLEN" "length v = MAXRLEN" "4 \<le> length snr" "6 \<le> length key" "16 \<le> length bs"
  shows "(\<exists>r n R'. ReadID H u v R = Some (r, n, R') \<and> rc_ok k R' \<and> (r = 0) = (n \<noteq> None))
    \<and> (\<exists>r R'. PcdSelect H u snr R = Some (r, R') \<and> rc_ok k R')
    \<and> (\<exists>r R'. PcdAuthState H u mode addr key snr R = Some (r, R') \<and> rc_ok k R')
    \<and> (\<exists>r b R'. PcdRead H u addr R = Some (r, b, R') \<and> rc_ok k R' \<and> (r = MI_OK) = (b \<noteq> None))
    \<and> (\<exists>r R'. PcdWrite H u addr bs R = Some (r, R') \<and> rc_ok k R')
    \<and> (\<exists>r R'. PcdHalt H u R = Some (r, R') \<and> rc_ok k R')
    \<and> (\<exists>r R'. PcdValue H u mode addr bs R = Some (r, R') \<and> rc_ok k R')
    \<and> (\<exists>r R'. PcdBakValue H u addr goal R = Some (r, R') \<and> rc_ok k R')"
proof -
  note m = memory_commands_ok [where p = "(k, rc_dev R, rc_ct R, rc_snr R)" and R = R and u = u and H = H]
  have i: "rc_inv (k, rc_dev R, rc_ct R, rc_snr R) R" using assms(1) by simp
  have b: "4 \<le> length bs" using assms(6) by simp
  show ?thesis
    using yieldsD [OF ReadID_ok [OF assms(1-3), of H]] yieldsD [OF m(1) [OF i assms(2,4)]] yieldsD [OF m(2) [OF i assms(2,5,4), of mode addr]]
      yieldsD [OF m(3) [OF i assms(2), of addr]] yieldsD [OF m(4) [OF i assms(2,6), of addr]] yieldsD [OF m(5) [OF i assms(2)]]
      yieldsD [OF m(6) [OF i assms(2) b, of mode addr]] yieldsD [OF m(7) [OF i assms(2), of addr goal]] by auto
qed

theorem reader_safe_on_any_hardware_witness:
  "(\<exists>r n R'. ReadID field_env (replicate 18 0) (replicate 18 0) demo_reader = Some (r, n, R') \<and> spi_lock (bus R') = 0)
    \<and> (\<exists>r R'. PcdWrite field_env (replicate 18 0) 1 (replicate 16 7) demo_reader = Some (r, R') \<and> spi_lock (bus R') = 0)"
proof -
  have "rc_ok 0 demo_reader" using demo_reader_at by (simp add: rc_at_def)
  from reader_safe_on_any_hardware [where H = field_env and addr = 1 and mode = 0 and goal = 0, OF this, of "replicate 18 0" "replicate 18 0" "replicate 4 0" "replicate 6 0"
    "replicate 16 7"]
  show ?thesis by (auto simp: MAXRLEN_def rc_ok_def)
qed

text \<open>A card that is held to a reader is reported in the first round and then once every 50 rounds, and not in
  between.\<close>

theorem card_reported_every_50_rounds:
  assumes "old_id S \<noteq> nr \<or> \<not> over_time S" "timer S = 0" "\<not> timer_en S"
  shows "fst (side_rounds (replicate n (Some nr)) S) = map (\<lambda>j. j mod 50 = 0) [0..<n]"
proof (cases n)
  case (Suc k)
  have "side_round (Some nr) S = (True, waiting_side nr 1)"
    using assms by (auto simp: side_round_def side_card_def side_tick_def waiting_side_def Let_def word_le_nat_alt)
  moreover have "map (\<lambda>j. j mod 50 = 0) [0..<Suc k] = True # map (\<lambda>j. (1 + j) mod 50 = 0) [0..<k]"
    by (simp add: upt_conv_Cons map_Suc_upt [symmetric] del: upt_Suc)
  ultimately show ?thesis using waiting_rounds [of k nr 1] Suc by simp
qed simp

theorem card_reported_every_50_rounds_witness:
  "fst (side_rounds (replicate 3 (Some 7)) \<lparr>old_id = 0, timer = 0, timer_en = False, over_time = False\<rparr>) = [True, False, False]"
  using card_reported_every_50_rounds [of "\<lparr>old_id = 0, timer = 0, timer_en = False, over_time = False\<rparr>" 7 3] by (simp add: upt_rec)

lemma side_event_check: "side_event d = check_event (d \<noteq> 0)"
  by (simp add: side_event_def check_event_def)

text \<open>C3: From the card to the door: when a known card of a user who may use the door and is on the other side is
  held to a reader for the first time, the card thread reads its number, sends the event of the reader, the checking
  thread that waits for the event receives exactly this event, and its round opens the door once.\<close>

theorem card_at_reader_opens_door:
  assumes "reader_at (k, d, ct, snr) C ((rf_rc T)\<lparr>rc_dev := d\<rparr>)" "length u1 = MAXRLEN" "length u2 = MAXRLEN"
    "ch_card C [PICC_REQALL] = Some (tag, 0)" "length tag = 2" "ch_card C [PICC_ANTICOLL1, 0x20] = Some (s, 0)" "length s = 5"
    "foldl (XOR) 0 (take 4 s) = s ! 4" "old_id (rf_side T d) \<noteq> card_number s \<or> \<not> over_time (rf_side T d)"
    "sys_ok idle (rf_os T)"
    "serve (th (rf_os T)) (links (rf_os T) (Waiting (Evt e))) (evt_set (evts (rf_os T) e) OR side_event d) = (left, M)"
    "M t = Some (side_event d)" "t_error (th (rf_os T) t) = RT_EOK"
    "st = st0\<lparr>g_read_card_id := card_number s\<rparr>"
    "files_ok P content sess ready cap (sp_fs st)" "content (sp_fs st) member_bin = Some c" "card_known P st c u"
    "may_use u st" "inside u st \<noteq> (d \<noteq> 0)" "content (sp_fs st) save_io_bin = Some a" "att_log P a L"
    "length (sp_station st) = 6" "ATT_HEADER + ATT_SIZE * Suc (length L) \<le> cap" "rf_found T d"
  shows "\<exists>T' st'. rfid_side field_env u1 u2 e d T = Some T' \<and> rf_card_id T' = card_number s
    \<and> rt_event_recv_rest t (rf_os T') = ((RT_EOK, Some (side_event d)), rf_os T')
    \<and> user_check_round P E 0 (side_event d) (st0\<lparr>g_read_card_id := rf_card_id T'\<rparr>) = Some st'
    \<and> door_lines st' = door_lines st0 @ door_pulse"
proof -
  obtain R' where R: "ReadID field_env u1 u2 ((rf_rc T)\<lparr>rc_dev := d\<rparr>) = Some (0, Some (card_number s), R')"
    using read_card [OF assms(1-7)] assms(8) by auto
  have nz: "side_event d \<noteq> 0" by (simp add: side_event_def check_events)
  obtain K' where K: "rt_event_send e (side_event d) (rf_os T) = Some (RT_EOK, K')"
    "th K' = (\<lambda>t. case M t of Some b \<Rightarrow> served (th (rf_os T) t) b | None \<Rightarrow> th (rf_os T) t)"
    using send_serves [OF assms(10) nz assms(11)] by blast
  obtain S where S: "side_card (card_number s) (rf_side T d) = (True, S)" using assms(9) by (cases "old_id (rf_side T d) = card_number s") (auto simp: side_card_def Let_def)
  let ?T = "T\<lparr>rf_rc := R', rf_card_id := card_number s, rf_side := (rf_side T)(d := S), rf_os := K'\<rparr>"
  have "rfid_side field_env u1 u2 e d T = Some ?T" using R S K(1) assms(24) by (simp add: rfid_side_def Let_def)
  moreover have "rt_event_recv_rest t K' = ((RT_EOK, Some (side_event d)), K')"
    using K(2) assms(12,13) by (simp add: rt_event_recv_rest_def served_def)
  moreover obtain st' where "user_check_round P E 0 (side_event d) st = Some st'" "door_lines st' = door_lines st @ door_pulse"
    unfolding side_event_check using round_passes [OF assms(15-23)] by blast
  ultimately show ?thesis using assms(14) by (intro exI [of _ ?T] exI [of _ st']) simp
qed

theorem card_at_reader_opens_door_witness:
  "\<exists>T' st'. rfid_side field_env (replicate 18 0) (replicate 18 0) 0 1 demo_rfid = Some T' \<and> rf_card_id T' = 0x1234
    \<and> user_check_round board_plat demo_senv 0 USER_CHECK_CARD_OUT (gate_term\<lparr>g_read_card_id := rf_card_id T'\<rparr>) = Some st'
    \<and> door_lines st' = door_pulse"
proof -
  have r: "reader_at (0, 1, [0, 0], [0, 0, 0, 0]) demo_rc_chip ((rf_rc demo_rfid)\<lparr>rc_dev := 1\<rparr>)"
    using demo_reader_at by (simp add: demo_rfid_def demo_reader_def)
  have l: "length (replicate 18 (0 :: u8)) = MAXRLEN" by (simp add: MAXRLEN_def)
  have o: "old_id (rf_side demo_rfid 1) \<noteq> card_number [0, 0, 0x12, 0x34, 0x26] \<or> \<not> over_time (rf_side demo_rfid 1)" by (simp add: demo_rfid_def)
  have k: "rf_os demo_rfid = demo_os" by (simp add: demo_rfid_def)
  have x: "event_set (th demo_os 2) = 15" "event_info (th demo_os 2) = 6" "t_error (th demo_os 2) = RT_EOK"
    "links demo_os (Waiting (Evt 0)) = [2]" "evt_set (evts demo_os 0) = 0"
    by (simp_all add: demo_os_def demo_thread_def RT_EOK_def)
  have e: "side_event (Suc 0) = 2" "side_event 1 = 2" by (simp_all add: side_event_def check_events)
  have sv: "serve (th (rf_os demo_rfid)) (links (rf_os demo_rfid) (Waiting (Evt 0))) (evt_set (evts (rf_os demo_rfid) 0) OR side_event 1)
      = (0, (\<lambda>_. None)(2 := Some 2))"
    by (simp add: k e x wants_def given_def left_over_def ipc_flags)
  have M: "((\<lambda>_. None)(2 := Some 2)) (2 :: nat) = Some (side_event 1)" "t_error (th (rf_os demo_rfid) 2) = RT_EOK" using e x k by simp_all
  have ok: "sys_ok 0 (rf_os demo_rfid)" using demo_sys_ok k by simp
  have g: "gate_term = gate_term\<lparr>g_read_card_id := card_number [0, 0, 0x12, 0x34, 0x26]\<rparr>" using demo_cards(4) by (simp add: gate_term_def)
  have room: "ATT_HEADER + ATT_SIZE * Suc (length demo_log) \<le> disk_cap"
    by (simp add: length_demo_log att_sizes disk_cap_def)
  have i: "inside gate_user gate_term \<noteq> ((1 :: nat) \<noteq> 0)" using gate_outside by simp
  have f: "rf_found demo_rfid 1" by (simp add: demo_rfid_def)
  from card_at_reader_opens_door [OF r l l demo_cards(1) _ demo_cards(2) _ demo_cards(3) o ok sv M g gate_ok gate_files(1) gate_known gate_may_use i
      gate_files(2) demo_att_log gate_station room f, of demo_senv] demo_cards(4)
  obtain T' st' where "rfid_side field_env (replicate 18 0) (replicate 18 0) 0 1 demo_rfid = Some T'" "rf_card_id T' = 0x1234"
    "user_check_round board_plat demo_senv 0 (side_event 1) (gate_term\<lparr>g_read_card_id := rf_card_id T'\<rparr>) = Some st'"
    "door_lines st' = door_lines gate_term @ door_pulse" by auto
  moreover have "door_lines gate_term = []" by (simp add: gate_term_def)
  ultimately show ?thesis by (intro exI [of _ T'] exI [of _ st']) (simp add: side_event_def)
qed

end
