(* ===== verification/FsProps.thy ===== *)
theory FsProps imports RamFsOk begin

text \<open>Properties of the file system layer and its RAM driver.\<close>

text \<open>C13: The POSIX-like calls over the RAM file system meet the contract the application relies on,
  for any CRC unit: opening, seeking, reading, writing, closing, stat and unlink act on a map from
  paths to byte strings.\<close>

theorem ramfs_meets_contract:
  "posix_files (dfs_plat rst feed) (dfs_content rf_content) dfs_sess
     (dfs_ready ramfs_ops rf_fdrel (rf_wf disk_cap)) disk_cap"
  by (rule ram.files.posix_files_axioms)

end
