(* ===== verification/MemHeap.thy ===== *)
theory MemHeap imports Prelude "HOL-Library.Monad_Syntax" begin

text \<open>The heap of the kernel (src/src/mem.c): first fit over a chain of blocks, each with a header of 12 bytes in the
  memory it manages.  Memory is the function \<open>ram\<close> from addresses to bytes, pointers are addresses, and 0 is the null
  pointer.  Results are \<open>None\<close> where an assertion fails or a call waits for the semaphore it holds itself.  The
  calls are those of threads: between taking and releasing \<open>heap_sem\<close> no other thread runs in here.\<close>

subsection \<open>Memory\<close>

type_synonym ram = "u32 \<Rightarrow> u8"

definition rd :: "ram \<Rightarrow> u32 \<Rightarrow> nat \<Rightarrow> bytes" where
  "rd m a n = map (\<lambda>i. m (a + of_nat i)) [0..<n]"

definition wr :: "u32 \<Rightarrow> bytes \<Rightarrow> ram \<Rightarrow> ram" where
  "wr a bs m = (\<lambda>x. if unat (x - a) < length bs then bs ! unat (x - a) else m x)"

subsection \<open>The state\<close>

record heap_mem =
  hm_magic :: u16
  hm_used :: u16
  hm_next :: u32
  hm_prev :: u32

definition HEAP_MAGIC :: u16 where "HEAP_MAGIC = 0x1ea0"
definition MIN_SIZE_ALIGNED :: u32 where "MIN_SIZE_ALIGNED = 12"
definition SIZEOF_STRUCT_MEM :: u32 where "SIZEOF_STRUCT_MEM = 12"

lemmas heap_sizes = MIN_SIZE_ALIGNED_def SIZEOF_STRUCT_MEM_def

definition heap_mem_bytes :: "heap_mem \<Rightarrow> bytes" where
  "heap_mem_bytes h = le16 (hm_magic h) @ le16 (hm_used h) @ le32 (hm_next h) @ le32 (hm_prev h)"

definition heap_mem_of :: "bytes \<Rightarrow> heap_mem" where
  "heap_mem_of bs = \<lparr>hm_magic = u16_at 0 bs, hm_used = u16_at 2 bs, hm_next = u32_at 4 bs, hm_prev = u32_at 8 bs\<rparr>"

definition hdr :: "ram \<Rightarrow> u32 \<Rightarrow> heap_mem" where
  "hdr m a = heap_mem_of (rd m a 12)"

definition put_hdr :: "u32 \<Rightarrow> heap_mem \<Rightarrow> ram \<Rightarrow> ram" where
  "put_hdr a h m = wr a (heap_mem_bytes h) m"

definition upd_hdr :: "u32 \<Rightarrow> (heap_mem \<Rightarrow> heap_mem) \<Rightarrow> ram \<Rightarrow> ram" where
  "upd_hdr a f m = put_hdr a (f (hdr m a)) m"

record heap =
  ram :: ram
  heap_ptr :: u32
  heap_end :: u32
  lfree :: u32
  heap_sem :: u16
  mem_size_aligned :: u32
  used_mem :: u32
  max_mem :: u32

definition RT_ALIGN :: "u32 \<Rightarrow> u32" where "RT_ALIGN x = (x + 3) AND NOT 3"
definition RT_ALIGN_DOWN :: "u32 \<Rightarrow> u32" where "RT_ALIGN_DOWN x = x AND NOT 3"

text \<open>The header at an offset from the start of the heap, and writing one.\<close>

definition mem_at :: "heap \<Rightarrow> u32 \<Rightarrow> heap_mem" where
  "mem_at H p = hdr (ram H) (heap_ptr H + p)"

definition set_mem :: "u32 \<Rightarrow> (heap_mem \<Rightarrow> heap_mem) \<Rightarrow> heap \<Rightarrow> heap" where
  "set_mem a f H = H\<lparr>ram := upd_hdr a f (ram H)\<rparr>"

definition take_heap :: "heap \<Rightarrow> heap option" where
  "take_heap H = (if heap_sem H = 0 then None else Some (H\<lparr>heap_sem := heap_sem H - 1\<rparr>))"

definition release_heap :: "heap \<Rightarrow> heap" where
  "release_heap H = H\<lparr>heap_sem := heap_sem H + 1\<rparr>"

subsection \<open>Joining free blocks\<close>

definition plug_forward :: "u32 \<Rightarrow> heap \<Rightarrow> heap" where
  "plug_forward mem H = (let nmem = heap_ptr H + hm_next (hdr (ram H) mem) in
     if mem \<noteq> nmem \<and> hm_used (hdr (ram H) nmem) = 0 \<and> nmem \<noteq> heap_end H
     then let H1 = (if lfree H = nmem then H\<lparr>lfree := mem\<rparr> else H);
              H2 = set_mem mem (\<lambda>h. h\<lparr>hm_next := hm_next (hdr (ram H1) nmem)\<rparr>) H1
          in set_mem (heap_ptr H2 + hm_next (hdr (ram H2) nmem)) (\<lambda>h. h\<lparr>hm_prev := mem - heap_ptr H2\<rparr>) H2
     else H)"

definition plug_backward :: "u32 \<Rightarrow> heap \<Rightarrow> heap" where
  "plug_backward mem H = (let pmem = heap_ptr H + hm_prev (hdr (ram H) mem) in
     if pmem \<noteq> mem \<and> hm_used (hdr (ram H) pmem) = 0
     then let H1 = (if lfree H = mem then H\<lparr>lfree := pmem\<rparr> else H);
              H2 = set_mem pmem (\<lambda>h. h\<lparr>hm_next := hm_next (hdr (ram H1) mem)\<rparr>) H1
          in set_mem (heap_ptr H2 + hm_next (hdr (ram H2) mem)) (\<lambda>h. h\<lparr>hm_prev := pmem - heap_ptr H2\<rparr>) H2
     else H)"

definition plug_holes :: "u32 \<Rightarrow> heap \<Rightarrow> heap option" where
  "plug_holes mem H = (if \<not> heap_ptr H \<le> mem \<or> \<not> mem < heap_end H \<or> hm_used (hdr (ram H) mem) \<noteq> 0 then None
     else Some (plug_backward mem (plug_forward mem H)))"

subsection \<open>Setting up\<close>

definition rt_system_heap_init :: "u32 \<Rightarrow> u32 \<Rightarrow> heap \<Rightarrow> heap" where
  "rt_system_heap_init begin_addr end_addr H = (let begin_align = RT_ALIGN begin_addr; end_align = RT_ALIGN_DOWN end_addr in
     if end_align > 2 * SIZEOF_STRUCT_MEM \<and> end_align - 2 * SIZEOF_STRUCT_MEM \<ge> begin_align
     then let total = end_align - begin_align - 2 * SIZEOF_STRUCT_MEM;
              H1 = H\<lparr>mem_size_aligned := total, heap_ptr := begin_align\<rparr>;
              H2 = set_mem begin_align (\<lambda>h. \<lparr>hm_magic = HEAP_MAGIC, hm_used = 0, hm_next = total + SIZEOF_STRUCT_MEM, hm_prev = 0\<rparr>) H1;
              H3 = H2\<lparr>heap_end := begin_align + (total + SIZEOF_STRUCT_MEM)\<rparr>;
              H4 = set_mem (heap_end H3) (\<lambda>h. \<lparr>hm_magic = HEAP_MAGIC, hm_used = 1,
                hm_next = total + SIZEOF_STRUCT_MEM, hm_prev = total + SIZEOF_STRUCT_MEM\<rparr>) H3
          in H4\<lparr>heap_sem := 1, lfree := begin_align\<rparr>
     else H)"

subsection \<open>Allocating\<close>

text \<open>The search from the lowest free block on: the offset of the first block that is free and large enough.\<close>

partial_function (option) find_fit :: "heap \<Rightarrow> u32 \<Rightarrow> u32 \<Rightarrow> u32 option option" where
  "find_fit H sz p = (if \<not> p < mem_size_aligned H - sz then Some None
     else if hm_used (mem_at H p) = 0 \<and> hm_next (mem_at H p) - (p + SIZEOF_STRUCT_MEM) \<ge> sz then Some (Some p)
     else find_fit H sz (hm_next (mem_at H p)))"

partial_function (option) skip_used :: "heap \<Rightarrow> u32 \<Rightarrow> u32 option" where
  "skip_used H a = (if hm_used (hdr (ram H) a) \<noteq> 0 \<and> a \<noteq> heap_end H
     then skip_used H (heap_ptr H + hm_next (hdr (ram H) a)) else Some a)"

definition count_used :: "u32 \<Rightarrow> heap \<Rightarrow> heap" where
  "count_used n H = (let H1 = H\<lparr>used_mem := used_mem H + n\<rparr> in
     if max_mem H1 < used_mem H1 then H1\<lparr>max_mem := used_mem H1\<rparr> else H1)"

text \<open>A second block behind the first \<open>n\<close> bytes of the block at offset \<open>p\<close>; its header is written before the
  block itself is shortened.\<close>

definition cut_block :: "u32 \<Rightarrow> u32 \<Rightarrow> heap \<Rightarrow> heap" where
  "cut_block p n H = (let p2 = p + SIZEOF_STRUCT_MEM + n;
       H1 = set_mem (heap_ptr H + p2) (\<lambda>h. \<lparr>hm_magic = HEAP_MAGIC, hm_used = 0, hm_next = hm_next (mem_at H p), hm_prev = p\<rparr>) H
     in set_mem (heap_ptr H + p) (\<lambda>h. h\<lparr>hm_next := p2\<rparr>) H1)"

definition link_back :: "u32 \<Rightarrow> heap \<Rightarrow> heap" where
  "link_back p2 H = (let n = hm_next (mem_at H p2) in
     if n \<noteq> mem_size_aligned H + SIZEOF_STRUCT_MEM then set_mem (heap_ptr H + n) (\<lambda>h. h\<lparr>hm_prev := p2\<rparr>) H else H)"

definition malloc_at :: "u32 \<Rightarrow> u32 \<Rightarrow> heap \<Rightarrow> (u32 \<times> heap) option" where
  "malloc_at sz p H = (let mem = heap_ptr H + p; n = hm_next (mem_at H p);
       H1 = (if n - (p + SIZEOF_STRUCT_MEM) \<ge> sz + SIZEOF_STRUCT_MEM + MIN_SIZE_ALIGNED
         then count_used (sz + SIZEOF_STRUCT_MEM) (link_back (p + SIZEOF_STRUCT_MEM + sz)
           (set_mem mem (\<lambda>h. h\<lparr>hm_used := 1\<rparr>) (cut_block p sz H)))
         else count_used (n - (mem - heap_ptr H)) (set_mem mem (\<lambda>h. h\<lparr>hm_used := 1\<rparr>) H));
       H2 = set_mem mem (\<lambda>h. h\<lparr>hm_magic := HEAP_MAGIC\<rparr>) H1
     in do {
       H3 \<leftarrow> (if mem = lfree H2 then do {
           l \<leftarrow> skip_used H2 (lfree H2);
           if l = heap_end H2 \<or> hm_used (hdr (ram H2) l) = 0 then Some (H2\<lparr>lfree := l\<rparr>) else None }
         else Some H2);
       let H4 = release_heap H3;
       if mem + SIZEOF_STRUCT_MEM + sz \<le> heap_end H4 \<and> (mem + SIZEOF_STRUCT_MEM) mod 4 = 0 \<and> mem AND 3 = 0
       then Some (mem + SIZEOF_STRUCT_MEM, H4) else None })"

definition rt_malloc :: "u32 \<Rightarrow> heap \<Rightarrow> (u32 \<times> heap) option" where
  "rt_malloc sz H = (if sz = 0 then Some (0, H) else
     let sz = RT_ALIGN sz in
     if sz > mem_size_aligned H then Some (0, H) else
     let sz = (if sz < MIN_SIZE_ALIGNED then MIN_SIZE_ALIGNED else sz) in do {
       H1 \<leftarrow> take_heap H;
       f \<leftarrow> find_fit H1 sz (lfree H1 - heap_ptr H1);
       case f of Some p \<Rightarrow> malloc_at sz p H1 | None \<Rightarrow> Some (0, release_heap H1) })"

definition rt_calloc :: "u32 \<Rightarrow> u32 \<Rightarrow> heap \<Rightarrow> (u32 \<times> heap) option" where
  "rt_calloc count sz H = do {
     (p, H1) \<leftarrow> rt_malloc (count * sz) H;
     Some (p, if p \<noteq> 0 then H1\<lparr>ram := wr p (replicate (unat (count * sz)) 0) (ram H1)\<rparr> else H1) }"

subsection \<open>Freeing\<close>

definition rt_free :: "u32 \<Rightarrow> heap \<Rightarrow> heap option" where
  "rt_free rmem H = (if rmem = 0 then Some H
     else if rmem AND 3 \<noteq> 0 \<or> \<not> (heap_ptr H \<le> rmem \<and> rmem < heap_end H) then None
     else let mem = rmem - SIZEOF_STRUCT_MEM in do {
       H1 \<leftarrow> take_heap H;
       if hm_used (hdr (ram H1) mem) = 0 \<or> hm_magic (hdr (ram H1) mem) \<noteq> HEAP_MAGIC then None else do {
         let H2 = set_mem mem (\<lambda>h. h\<lparr>hm_used := 0, hm_magic := HEAP_MAGIC\<rparr>) H1;
         let H3 = (if mem < lfree H2 then H2\<lparr>lfree := mem\<rparr> else H2);
         let H4 = H3\<lparr>used_mem := used_mem H3 - (hm_next (hdr (ram H3) mem) - (mem - heap_ptr H3))\<rparr>;
         H5 \<leftarrow> plug_holes mem H4;
         Some (release_heap H5) } })"

subsection \<open>Changing the sz\<close>

definition rt_realloc :: "u32 \<Rightarrow> u32 \<Rightarrow> heap \<Rightarrow> (u32 \<times> heap) option" where
  "rt_realloc rmem newsz H = (let newsz = RT_ALIGN newsz in
     if newsz > mem_size_aligned H then Some (0, H)
     else if rmem = 0 then rt_malloc newsz H
     else do {
       H1 \<leftarrow> take_heap H;
       if rmem < heap_ptr H1 \<or> heap_end H1 \<le> rmem then Some (rmem, release_heap H1)
       else let mem = rmem - SIZEOF_STRUCT_MEM; p = mem - heap_ptr H1;
                sz = hm_next (hdr (ram H1) mem) - p - SIZEOF_STRUCT_MEM in
         if sz = newsz then Some (rmem, release_heap H1)
         else if newsz + SIZEOF_STRUCT_MEM + 12 < sz then do {
           let H2 = H1\<lparr>used_mem := used_mem H1 - (sz - newsz)\<rparr>;
           let p2 = p + SIZEOF_STRUCT_MEM + newsz;
           H3 \<leftarrow> plug_holes (heap_ptr H2 + p2) (link_back p2 (cut_block p newsz H2));
           Some (rmem, release_heap H3) }
         else do {
           (nmem, H2) \<leftarrow> rt_malloc newsz (release_heap H1);
           if nmem \<noteq> 0 then do {
             let H3 = H2\<lparr>ram := wr nmem (rd (ram H2) rmem (unat (if sz < newsz then sz else newsz))) (ram H2)\<rparr>;
             H4 \<leftarrow> rt_free rmem H3;
             Some (nmem, H4) }
           else Some (nmem, H2) } })"

definition rt_memory_info :: "heap \<Rightarrow> u32 \<times> u32 \<times> u32" where
  "rt_memory_info H = (mem_size_aligned H, used_mem H, max_mem H)"

end
