(* ===== verification/MemHeapOk.thy ===== *)
theory MemHeapOk imports MemHeap begin

text \<open>The heap as a list of blocks: the chain of headers in memory, and what each step of the allocator does to it.\<close>

subsection \<open>Offsets and addresses\<close>

definition w32 :: "nat \<Rightarrow> u32" where "w32 n = of_nat n"
definition off :: "u32 \<Rightarrow> nat \<Rightarrow> u32" where "off b p = b + of_nat p"

lemma w32_12: "12 = w32 12" and w32_0: "0 = w32 0" and off_0: "off b 0 = b"
  by (simp_all add: w32_def off_def)

lemma unat_w32: "n < 4294967296 \<Longrightarrow> unat (w32 n) = n"
  by (simp add: w32_def unat_of_nat_u32)

lemma w32_unat [simp]: "w32 (unat x) = x"
  by (simp add: w32_def)

lemma w32_add: "w32 p + w32 q = w32 (p + q)" "w32 p + 12 = w32 (p + 12)" "12 + w32 p = w32 (12 + p)"
  by (simp_all add: w32_def)

lemma w32_diff: "q \<le> p \<Longrightarrow> w32 p - w32 q = w32 (p - q)" "12 \<le> p \<Longrightarrow> w32 p - 12 = w32 (p - 12)"
  by (simp_all add: w32_def of_nat_diff)

lemma w32_order: "p < 4294967296 \<Longrightarrow> q < 4294967296 \<Longrightarrow> (w32 p = w32 q) = (p = q)"
  "p < 4294967296 \<Longrightarrow> q < 4294967296 \<Longrightarrow> (w32 p < w32 q) = (p < q)"
  "p < 4294967296 \<Longrightarrow> q < 4294967296 \<Longrightarrow> (w32 p \<le> w32 q) = (p \<le> q)"
  by (auto simp: unat_w32 word_less_nat_alt word_le_nat_alt dest: arg_cong [of _ _ unat])

lemma off_add: "off b p + w32 n = off b (p + n)" "off b p + 12 = off b (p + 12)"
  by (simp_all add: off_def w32_def add.assoc)

lemma off_of: "b + w32 p = off b p" "b + (w32 p + x) = off b p + x"
  by (simp_all add: off_def w32_def add.assoc)

lemma off_diff: "off b p - b = w32 p" "12 \<le> p \<Longrightarrow> off b p - 12 = off b (p - 12)"
  by (simp_all add: off_def w32_def of_nat_diff)

lemma unat_off: "unat b + p < 4294967296 \<Longrightarrow> unat (off b p) = unat b + p"
  by (simp add: off_def unat_word_ariths unat_of_nat_u32)

lemma off_order: "unat b + p < 4294967296 \<Longrightarrow> unat b + q < 4294967296 \<Longrightarrow> (off b p = off b q) = (p = q)"
  "unat b + p < 4294967296 \<Longrightarrow> unat b + q < 4294967296 \<Longrightarrow> (off b p < off b q) = (p < q)"
  "unat b + p < 4294967296 \<Longrightarrow> unat b + q < 4294967296 \<Longrightarrow> (off b p \<le> off b q) = (p \<le> q)"
  by (auto simp: unat_off word_less_nat_alt word_le_nat_alt dest: arg_cong [of _ _ unat])

lemma off_ge: "unat b + p < 4294967296 \<Longrightarrow> b \<le> off b p"
  by (simp add: unat_off word_le_nat_alt)

lemmas offs = w32_add w32_diff off_add off_diff

subsection \<open>Alignment\<close>

lemma and3_mod4: "x AND 3 = x mod (4 :: u32)"
proof -
  have "x AND 3 = take_bit 2 x" by (simp add: take_bit_eq_mask mask_eq_exp_minus_1)
  then show ?thesis by (simp add: take_bit_eq_mod)
qed

lemma unat_mod4: "unat (x mod 4) = unat (x :: u32) mod 4"
  using unat_mod [of x 4] by simp

lemma mod4: "(x mod 4 = 0) = (4 dvd unat (x :: u32))"
  by (metis unat_mod4 dvd_eq_mod_eq_0 unat_eq_zero)

lemma align_down: "unat (x AND NOT 3) = unat (x :: u32) div 4 * 4"
proof -
  have "(x AND 3) OR (x AND NOT 3) = x" by (rule bit_word_eqI) (auto simp: bit_simps)
  moreover have "(x AND 3) AND (x AND NOT 3) = 0" by (rule bit_word_eqI) (auto simp: bit_simps)
  ultimately have "(x AND 3) + (x AND NOT 3) = x" by (metis disjunctive_add_eq_or)
  then have "x AND NOT 3 = x - (x mod 4)" by (metis add_diff_cancel_left' and3_mod4)
  moreover have "x mod 4 \<le> x" by (simp add: word_le_nat_alt unat_mod4)
  ultimately have "unat (x AND NOT 3) = unat x - unat x mod 4" by (simp only: unat_sub unat_mod4)
  then show ?thesis by (simp only: minus_mod_eq_div_mult)
qed

lemma unat_align: "unat (x :: u32) + 3 < 4294967296 \<Longrightarrow> unat (RT_ALIGN x) = (unat x + 3) div 4 * 4"
proof -
  assume "unat x + 3 < 4294967296"
  then have "unat (x + 3) = unat x + 3" by (simp add: unat_word_ariths)
  then show ?thesis unfolding RT_ALIGN_def align_down by simp
qed

lemma align_wraps: "\<not> unat (x :: u32) + 3 < 4294967296 \<Longrightarrow> RT_ALIGN x = 0"
proof -
  assume a: "\<not> unat x + 3 < 4294967296"
  have "unat (x + 3) = unat x + 3 - 4294967296" using a unat_u32_bound [of x] by (simp add: unat_word_ariths mod_if)
  then have "unat (x + 3) < 4" using unat_u32_bound [of x] by linarith
  then have "unat (RT_ALIGN x) = 0" unfolding RT_ALIGN_def align_down by simp
  then show ?thesis by (metis unat_eq_zero)
qed

subsection \<open>Reading and writing memory\<close>

lemma off_distance:
  assumes "p < 4294967296" "i < 4294967296"
  shows "unat (off b i - off b p) = (if p \<le> i then i - p else 4294967296 - (p - i))"
proof (cases "p \<le> i")
  case True
  then have "off b i - off b p = w32 (i - p)" by (simp add: off_def w32_def of_nat_diff)
  then show ?thesis using True assms by (simp add: unat_w32)
next
  case False
  have "off b i - off b p = w32 (4294967296 - (p - i))"
    using False assms by (simp add: off_def w32_def of_nat_diff)
  then show ?thesis using False assms by (simp add: unat_w32)
qed

lemma wr_off:
  assumes "p + length xs \<le> 4294967296" "i < 4294967296"
  shows "wr (off b p) xs m (off b i) = (if p \<le> i \<and> i < p + length xs then xs ! (i - p) else m (off b i))"
proof (cases "p < 4294967296")
  case True
  then show ?thesis using assms by (auto simp: wr_def off_distance)
next
  case False
  then show ?thesis using assms by (simp add: wr_def)
qed

lemma rd_off: "rd m (off b p) n = map (\<lambda>i. m (off b i)) [p..<p + n]"
  by (rule nth_equalityI) (simp_all add: rd_def off_def add.assoc)

lemma length_rd [simp]: "length (rd m a n) = n"
  by (simp add: rd_def)

lemma rd_wr_same: "length xs < 4294967296 \<Longrightarrow> rd (wr a xs m) a (length xs) = xs"
  by (rule nth_equalityI) (simp_all add: rd_def wr_def unat_of_nat_u32)

lemma rd_wr_apart:
  assumes "p + length xs \<le> q \<or> q + n \<le> p" "p + length xs \<le> 4294967296" "q + n \<le> 4294967296"
  shows "rd (wr (off b p) xs m) (off b q) n = rd m (off b q) n"
  using assms by (auto simp: rd_off wr_off)

lemma length_heap_mem_bytes [simp]: "length (heap_mem_bytes h) = 12"
  by (simp add: heap_mem_bytes_def)

lemma heap_mem_of_bytes [simp]: "heap_mem_of (heap_mem_bytes h) = h"
  by (simp add: heap_mem_of_def heap_mem_bytes_def u16_at_window u32_at_window fields)

lemma hdr_put [simp]: "hdr (put_hdr a h m) a = h"
  using rd_wr_same [of "heap_mem_bytes h" a m] by (simp add: hdr_def put_hdr_def)

lemma hdr_put_apart:
  assumes "p + 12 \<le> q \<or> q + 12 \<le> p" "p + 12 \<le> 4294967296" "q + 12 \<le> 4294967296"
  shows "hdr (put_hdr (off b p) h m) (off b q) = hdr m (off b q)"
  using rd_wr_apart [of p "heap_mem_bytes h" q 12] assms by (simp add: hdr_def put_hdr_def)

lemma hdr_upd [simp]: "hdr (upd_hdr a f m) a = f (hdr m a)"
  by (simp add: upd_hdr_def)

lemma hdr_upd_apart:
  "p + 12 \<le> q \<or> q + 12 \<le> p \<Longrightarrow> p + 12 \<le> 4294967296 \<Longrightarrow> q + 12 \<le> 4294967296
   \<Longrightarrow> hdr (upd_hdr (off b p) f m) (off b q) = hdr m (off b q)"
  by (simp add: upd_hdr_def hdr_put_apart)

lemma off_cover: "\<exists>i < 4294967296. x = off b i"
  by (rule exI [of _ "unat (x - b)"]) (use unat_u32_bound [of "x - b"] in \<open>simp add: off_def\<close>)

lemma upd_hdr_commute:
  assumes "p + 12 \<le> q \<or> q + 12 \<le> p" "p + 12 \<le> 4294967296" "q + 12 \<le> 4294967296"
  shows "upd_hdr (off b p) f (upd_hdr (off b q) g m) = upd_hdr (off b q) g (upd_hdr (off b p) f m)"
proof
  fix x
  obtain i where i: "i < 4294967296" "x = off b i" using off_cover by blast
  have h: "hdr (put_hdr (off b p) h m) (off b q) = hdr m (off b q)" "hdr (put_hdr (off b q) h m) (off b p) = hdr m (off b p)" for h m
    using assms by (auto simp: hdr_put_apart)
  show "upd_hdr (off b p) f (upd_hdr (off b q) g m) x = upd_hdr (off b q) g (upd_hdr (off b p) f m) x"
    using assms i h by (auto simp: upd_hdr_def put_hdr_def wr_off)
qed

lemma upd_hdr_twice: "upd_hdr a f (upd_hdr a g m) = upd_hdr a (\<lambda>h. f (g h)) m"
  by (rule ext) (simp add: upd_hdr_def, simp add: put_hdr_def wr_def)

text \<open>The bytes at the offsets in \<open>K\<close> are the same.\<close>

definition keeps :: "nat set \<Rightarrow> u32 \<Rightarrow> ram \<Rightarrow> ram \<Rightarrow> bool" where
  "keeps K b m m' = (\<forall>i \<in> K. i < 4294967296 \<longrightarrow> m' (off b i) = m (off b i))"

lemma keeps_refl [simp]: "keeps K b m m"
  by (simp add: keeps_def)

lemma keeps_trans: "keeps K b m m1 \<Longrightarrow> keeps K b m1 m2 \<Longrightarrow> keeps K b m m2"
  by (simp add: keeps_def)

lemma keeps_mono: "keeps K b m m' \<Longrightarrow> L \<subseteq> K \<Longrightarrow> keeps L b m m'"
  by (auto simp: keeps_def)

lemma keeps_upd: "K \<inter> {p..<p + 12} = {} \<Longrightarrow> p + 12 \<le> 4294967296 \<Longrightarrow> keeps K b m m1 \<Longrightarrow> keeps K b m (upd_hdr (off b p) f m1)"
  by (auto simp: keeps_def upd_hdr_def put_hdr_def wr_off)

lemma keeps_rd: "keeps K b m m' \<Longrightarrow> {p..<p + n} \<subseteq> K \<Longrightarrow> p + n \<le> 4294967296 \<Longrightarrow> rd m' (off b p) n = rd m (off b p) n"
  by (auto simp: rd_off keeps_def)

subsection \<open>Chains of blocks\<close>

text \<open>A block is the size of its data and whether it is in use.\<close>

type_synonym block = "nat \<times> bool"

fun extent :: "block list \<Rightarrow> nat" where
  "extent [] = 0"
| "extent ((n, u) # bs) = 12 + n + extent bs"

definition block_hdr :: "nat \<Rightarrow> nat \<Rightarrow> nat \<Rightarrow> bool \<Rightarrow> heap_mem" where
  "block_hdr p q n u = \<lparr>hm_magic = HEAP_MAGIC, hm_used = (if u then 1 else 0), hm_next = w32 (p + 12 + n), hm_prev = w32 q\<rparr>"

fun mem_chain :: "ram \<Rightarrow> u32 \<Rightarrow> nat \<Rightarrow> nat \<Rightarrow> block list \<Rightarrow> bool" where
  "mem_chain m b p q [] = True"
| "mem_chain m b p q ((n, u) # bs) = (hdr m (off b p) = block_hdr p q n u \<and> mem_chain m b (p + 12 + n) p bs)"

text \<open>The offset of the last block, or \<open>q\<close>.\<close>

fun last_at :: "nat \<Rightarrow> nat \<Rightarrow> block list \<Rightarrow> nat" where
  "last_at p q [] = q"
| "last_at p q ((n, u) # bs) = last_at (p + 12 + n) p bs"

lemma extent_append [simp]: "extent (as @ bs) = extent as + extent bs"
  by (induction as) auto

lemma extent_gap: "extent bs = 0 \<or> 12 \<le> extent bs"
  by (cases bs) auto

lemma mem_chain_append [simp]:
  "mem_chain m b p q (as @ bs) = (mem_chain m b p q as \<and> mem_chain m b (p + extent as) (last_at p q as) bs)"
  by (induction as arbitrary: p q) (auto simp: add.assoc)

lemma last_at_append [simp]: "last_at p q (as @ bs) = last_at (p + extent as) (last_at p q as) bs"
  by (induction as arbitrary: p q) (auto simp: add.assoc)

lemma mem_chain_upd:
  "r + 12 \<le> p \<or> p + extent bs \<le> r \<Longrightarrow> r + 12 \<le> 4294967296 \<Longrightarrow> p + extent bs \<le> 4294967296
   \<Longrightarrow> mem_chain (upd_hdr (off b r) f m) b p q bs = mem_chain m b p q bs"
  by (induction bs arbitrary: p q) (auto simp: hdr_upd_apart)

lemma mem_chain_relink:
  "mem_chain m b p q bs \<Longrightarrow> p + extent bs + 12 \<le> 4294967296 \<Longrightarrow> mem_chain (upd_hdr (off b p) (\<lambda>h. h\<lparr>hm_prev := w32 q'\<rparr>) m) b p q' bs"
  by (cases bs) (auto simp: mem_chain_upd block_hdr_def)

lemma mem_chain_keeps:
  "mem_chain m b p q bs \<Longrightarrow> keeps {p..<p + extent bs} b m m' \<Longrightarrow> p + extent bs \<le> 4294967296 \<Longrightarrow> mem_chain m' b p q bs"
proof (induction bs arbitrary: p q)
  case (Cons x bs)
  obtain n u where x: "x = (n, u)" by (cases x)
  have "rd m' (off b p) 12 = rd m (off b p) 12"
    using Cons.prems by (intro keeps_rd) (auto simp: x)
  moreover have "mem_chain m' b (p + 12 + n) p bs"
    using Cons.prems by (intro Cons.IH) (auto simp: x elim: keeps_mono)
  ultimately show ?case using Cons.prems(1) by (simp add: x hdr_def)
qed simp

text \<open>The bytes of the data of the blocks in use.\<close>

fun body :: "nat \<Rightarrow> block list \<Rightarrow> nat set" where
  "body p [] = {}"
| "body p ((n, u) # bs) = (if u then {p + 12..<p + 12 + n} else {}) \<union> body (p + 12 + n) bs"

lemma body_append [simp]: "body p (as @ bs) = body p as \<union> body (p + extent as) bs"
  by (induction as arbitrary: p) (auto simp: add.assoc)

lemma body_bounds: "i \<in> body p bs \<Longrightarrow> p + 12 \<le> i \<and> i < p + extent bs"
proof (induction bs arbitrary: p)
  case (Cons x bs)
  then show ?case by (cases x) (fastforce split: if_splits)
qed simp

lemma body_bounds': "body p bs \<subseteq> {p + 12..<p + extent bs}"
  using body_bounds by auto

definition blocks :: "ram \<Rightarrow> u32 \<Rightarrow> nat \<Rightarrow> block list \<Rightarrow> bool" where
  "blocks m b E bs = (mem_chain m b 0 0 bs \<and> extent bs = E \<and> hm_used (hdr m (off b E)) = 1 \<and> hm_next (hdr m (off b E)) = w32 E
     \<and> (\<forall>x \<in> set bs. 4 dvd fst x) \<and> E + 12 < 4294967296)"

lemma blocks_hdr: "blocks m b E (as @ (n, u) # cs) \<Longrightarrow> hdr m (off b (extent as)) = block_hdr (extent as) (last_at 0 0 as) n u"
  by (simp add: blocks_def)

lemma blocks_next_hdr: "blocks m b E (as @ (n, u) # (k, v) # cs) \<Longrightarrow>
  hdr m (off b (extent as + 12 + n)) = block_hdr (extent as + 12 + n) (extent as) k v"
  by (simp add: blocks_def)

lemma blocks_end: "blocks m b E bs \<Longrightarrow> hm_used (hdr m (off b E)) = 1 \<and> hm_next (hdr m (off b E)) = w32 E"
  by (simp add: blocks_def)

lemma block_hdr_simps [simp]: "hm_magic (block_hdr p q n u) = HEAP_MAGIC" "hm_used (block_hdr p q n u) = (if u then 1 else 0)"
  "hm_next (block_hdr p q n u) = w32 (p + 12 + n)" "hm_prev (block_hdr p q n u) = w32 q"
  by (simp_all add: block_hdr_def)

lemma blocks_set_used:
  "blocks m b E (as @ (n, u) # cs) \<Longrightarrow>
   blocks (upd_hdr (off b (extent as)) (\<lambda>h. h\<lparr>hm_used := (if v then 1 else 0), hm_magic := HEAP_MAGIC\<rparr>) m) b E (as @ (n, v) # cs)"
  by (auto simp: blocks_def mem_chain_upd hdr_upd_apart block_hdr_def)

text \<open>Two neighbours made one.\<close>

lemma blocks_join:
  assumes "blocks m b E (as @ (n, u) # (k, v) # cs)" "p = extent as"
  shows "blocks (upd_hdr (off b (p + 12 + n + 12 + k)) (\<lambda>h. h\<lparr>hm_prev := w32 p\<rparr>)
     (upd_hdr (off b p) (\<lambda>h. h\<lparr>hm_next := w32 (p + 12 + n + 12 + k)\<rparr>) m)) b E (as @ (n + 12 + k, u) # cs)"
proof -
  let ?m = "upd_hdr (off b p) (\<lambda>h. h\<lparr>hm_next := w32 (p + 12 + n + 12 + k)\<rparr>) m"
  have c: "mem_chain ?m b (p + 12 + n + 12 + k) (p + 12 + n) cs" and E: "p + 12 + n + 12 + k + extent cs = E"
    using assms by (auto simp: blocks_def mem_chain_upd)
  have "mem_chain (upd_hdr (off b (p + 12 + n + 12 + k)) (\<lambda>h. h\<lparr>hm_prev := w32 p\<rparr>) ?m) b (p + 12 + n + 12 + k) p cs"
    using c E assms by (intro mem_chain_relink) (auto simp: blocks_def)
  then show ?thesis
    using assms E by (cases cs) (auto simp: blocks_def mem_chain_upd hdr_upd_apart block_hdr_def add.assoc)
qed

text \<open>A free block cut off the end of a block.\<close>

lemma blocks_cut:
  assumes "blocks m b E (as @ (k + 12 + r, u) # cs)" "p = extent as" "4 dvd k" "q = p + 12 + k"
    and m1: "m1 = upd_hdr (off b p) (\<lambda>h. h\<lparr>hm_next := w32 q\<rparr>)
       (upd_hdr (off b q) (\<lambda>h. \<lparr>hm_magic = HEAP_MAGIC, hm_used = 0, hm_next = w32 (q + 12 + r), hm_prev = w32 p\<rparr>) m)"
    and m2: "m2 = (if q + 12 + r \<noteq> E then upd_hdr (off b (q + 12 + r)) (\<lambda>h. h\<lparr>hm_prev := w32 q\<rparr>) m1 else m1)"
  shows "blocks m2 b E (as @ (k, u) # (r, False) # cs)"
proof -
  have E: "q + 12 + r + extent cs = E" and d: "4 dvd r" and B: "E + 12 < 4294967296"
    using assms(1,2,3,4) by (auto simp: blocks_def dvd_add_right_iff add.assoc)
  have c: "mem_chain m1 b (q + 12 + r) p cs"
    using assms E B by (auto simp: blocks_def mem_chain_upd add.assoc)
  have "mem_chain m2 b (q + 12 + r) q cs"
  proof (cases "q + 12 + r = E")
    case True
    then have "cs = []" using E by (cases cs) auto
    then show ?thesis by simp
  next
    case False
    then show ?thesis unfolding m2 using c E B by (simp add: mem_chain_relink)
  qed
  moreover have "mem_chain m2 b 0 0 as"
    using assms E B by (auto simp: blocks_def mem_chain_upd)
  moreover have "hdr m2 (off b p) = block_hdr p (last_at 0 0 as) k u" "hdr m2 (off b q) = block_hdr q p r False"
    using assms E B by (auto simp: blocks_def hdr_upd_apart block_hdr_def)
  moreover have "hm_used (hdr m2 (off b E)) = 1 \<and> hm_next (hdr m2 (off b E)) = w32 E"
    using assms E B extent_gap [of cs] by (auto simp: blocks_def hdr_upd_apart)
  ultimately show ?thesis
    using assms(1-4) E B d by (auto simp: blocks_def add.assoc)
qed

subsection \<open>What stays the same\<close>

text \<open>The data of the blocks in use, and everything behind the heap.\<close>

definition data :: "nat \<Rightarrow> block list \<Rightarrow> nat set" where
  "data E bs = body 0 bs \<union> {E + 12..}"

lemma data_apart: "extent (xs @ ys) = E \<Longrightarrow> data E (xs @ ys) \<inter> {extent xs..<extent xs + 12} = {}"
  using body_bounds [of _ 0 xs] body_bounds [of _ "extent xs" ys] extent_gap [of ys]
  by (fastforce simp: data_def)

lemma keeps_header:
  assumes "extent (xs @ ys) = E" "E + 12 < 4294967296" "p = extent xs" "keeps (data E (xs @ ys)) b m m1"
  shows "keeps (data E (xs @ ys)) b m (upd_hdr (off b p) f m1)"
  using assms by (intro keeps_upd data_apart) (auto simp: data_apart)

lemma keeps_join:
  assumes "blocks m b E (as @ (n, u) # (k, False) # cs)" "p = extent as"
  shows "keeps (data E (as @ (n, u) # (k, False) # cs)) b m (upd_hdr (off b (p + 12 + n + 12 + k)) f (upd_hdr (off b p) g m))"
proof -
  have E: "extent (as @ (n, u) # (k, False) # cs) = E" "E + 12 < 4294967296" using assms by (auto simp: blocks_def)
  have "keeps (data E (as @ (n, u) # (k, False) # cs)) b m (upd_hdr (off b p) g m)"
    by (rule keeps_header [OF E assms(2)]) simp
  then show ?thesis
    using keeps_header [of "as @ [(n, u), (k, False)]" cs E "p + 12 + n + 12 + k" b m] E assms(2) by simp
qed

lemma keeps_cut:
  assumes "blocks m2 b E (as @ (k, u) # (r, False) # cs)" "p = extent as" "q = p + 12 + k"
    and m1: "m1 = upd_hdr (off b p) f (upd_hdr (off b q) g m)"
    and m2: "m2 = (if q + 12 + r \<noteq> E then upd_hdr (off b (q + 12 + r)) h m1 else m1)"
  shows "keeps (data E (as @ (k, u) # (r, False) # cs)) b m m2"
proof -
  let ?bs = "as @ (k, u) # (r, False) # cs"
  have E: "extent ?bs = E" "E + 12 < 4294967296" using assms(1) by (auto simp: blocks_def)
  have "keeps (data E ?bs) b m (upd_hdr (off b q) g m)"
    using keeps_header [of "as @ [(k, u)]" "(r, False) # cs" E q b m m g] E assms(2,3) by simp
  then have "keeps (data E ?bs) b m m1" unfolding m1 by (rule keeps_header [OF E assms(2)])
  then show ?thesis
    using keeps_header [of "as @ [(k, u), (r, False)]" cs E "q + 12 + r" b m m1 h] E assms(2,3) by (simp add: m2)
qed

subsection \<open>Joining free blocks\<close>

text \<open>Where the heap lies: its start and the offs off_of [of b]et of its last header.\<close>

definition geo :: "heap \<Rightarrow> u32 \<Rightarrow> nat \<Rightarrow> bool" where
  "geo H b E = (heap_ptr H = b \<and> mem_size_aligned H = w32 (E - 12) \<and> heap_end H = off b E \<and> 24 \<le> E
     \<and> unat b + E + 12 < 4294967296 \<and> 4 dvd unat b)"

lemma geo_upd [simp]: "geo (H\<lparr>ram := m\<rparr>) b E = geo H b E" "geo (H\<lparr>lfree := l\<rparr>) b E = geo H b E"
  "geo (H\<lparr>heap_sem := k\<rparr>) b E = geo H b E" "geo (H\<lparr>used_mem := x\<rparr>) b E = geo H b E" "geo (H\<lparr>max_mem := x\<rparr>) b E = geo H b E"
  by (simp_all add: geo_def)

fun fwd :: "nat \<Rightarrow> block list \<Rightarrow> nat \<times> block list" where
  "fwd n ((k, False) # ys) = (n + 12 + k, ys)"
| "fwd n ys = (n, ys)"

definition fwd_free :: "nat \<Rightarrow> nat \<Rightarrow> nat \<Rightarrow> block list \<Rightarrow> nat" where
  "fwd_free f p n ys = (if ys \<noteq> [] \<and> \<not> snd (hd ys) \<and> f = p + 12 + n then p else f)"

lemma fwd_used: "ys = [] \<or> snd (hd ys) \<Longrightarrow> fwd n ys = (n, ys)"
  by (cases "(n, ys)" rule: fwd.cases) auto

lemma plug_forward_ok:
  assumes g: "geo H b E" and bl: "blocks (ram H) b E (xs @ (n, False) # ys)" and l: "lfree H = off b f" "f \<le> E"
    and p: "p = extent xs"
  shows "\<exists>m'. plug_forward (off b p) H = H\<lparr>ram := m', lfree := off b (fwd_free f p n ys)\<rparr>
     \<and> blocks m' b E (xs @ (fst (fwd n ys), False) # snd (fwd n ys)) \<and> keeps (data E (xs @ (n, False) # ys)) b (ram H) m'"
proof -
  have h: "hdr (ram H) (off b p) = block_hdr p (last_at 0 0 xs) n False"
    using blocks_hdr [OF bl] p by simp
  have E: "p + 12 + n + extent ys = E" using bl p by (simp add: blocks_def)
  have B: "unat b + E + 12 < 4294967296" "heap_ptr H = b" "heap_end H = off b E" using g by (auto simp: geo_def)
  show ?thesis
  proof (cases "ys = [] \<or> snd (hd ys)")
    case True
    have "hm_used (hdr (ram H) (off b (p + 12 + n))) \<noteq> 0"
    proof (cases ys)
      case Nil
      then show ?thesis using blocks_end [OF bl] E by simp
    next
      case (Cons y ys')
      then obtain k where "ys = (k, True) # ys'" using True by (cases y) auto
      then show ?thesis using blocks_next_hdr [of "ram H" b E xs n False k True ys'] bl p by simp
    qed
    then have "plug_forward (off b p) H = H" using h B by (simp add: plug_forward_def offs off_of [of b])
    then show ?thesis using True bl l by (intro exI [of _ "ram H"]) (auto simp: fwd_used fwd_free_def)
  next
    case False
    then obtain k ys' where ys: "ys = (k, False) # ys'" by (cases ys) auto
    let ?q = "p + 12 + n"
    have k: "hdr (ram H) (off b ?q) = block_hdr ?q p k False"
      using blocks_next_hdr [of "ram H" b E xs n False k False ys'] bl p ys by simp
    have ne: "off b p \<noteq> off b ?q" "off b ?q \<noteq> off b E" "(off b f = off b ?q) = (f = ?q)"
      using E B l ys by (auto simp: off_order)
    let ?m1 = "upd_hdr (off b p) (\<lambda>h. h\<lparr>hm_next := w32 (?q + 12 + k)\<rparr>) (ram H)"
    let ?m2 = "upd_hdr (off b (?q + 12 + k)) (\<lambda>h. h\<lparr>hm_prev := w32 p\<rparr>) ?m1"
    have k1: "hdr ?m1 (off b ?q) = block_hdr ?q p k False"
      using k E B ys by (simp add: hdr_upd_apart)
    have "plug_forward (off b p) H = H\<lparr>ram := ?m2, lfree := off b (fwd_free f p n ys)\<rparr>"
      using h k k1 ne B l ys
      by (simp add: plug_forward_def set_mem_def offs off_of [of b] fwd_free_def Let_def)
    moreover have "blocks ?m2 b E (xs @ (n + 12 + k, False) # ys')"
      using blocks_join [of "ram H" b E xs n False k False ys' p] bl ys p by simp
    moreover have "keeps (data E (xs @ (n, False) # ys)) b (ram H) ?m2"
      using keeps_join [of "ram H" b E xs n False k ys' p] bl ys p by simp
    ultimately show ?thesis using ys by auto
  qed
qed

definition bwd :: "block list \<Rightarrow> nat \<Rightarrow> block list \<times> nat" where
  "bwd xs n = (if xs \<noteq> [] \<and> \<not> snd (last xs) then (butlast xs, fst (last xs) + 12 + n) else (xs, n))"

definition bwd_free :: "nat \<Rightarrow> nat \<Rightarrow> block list \<Rightarrow> nat" where
  "bwd_free f p xs = (if xs \<noteq> [] \<and> \<not> snd (last xs) \<and> f = p then extent (butlast xs) else f)"

lemma bwd_used: "xs = [] \<or> snd (last xs) \<Longrightarrow> bwd xs n = (xs, n)"
  by (auto simp: bwd_def)

lemma plug_backward_ok:
  assumes g: "geo H b E" and bl: "blocks (ram H) b E (xs @ (n, False) # ys)" and l: "lfree H = off b f" "f \<le> E"
    and p: "p = extent xs"
  shows "\<exists>m'. plug_backward (off b p) H = H\<lparr>ram := m', lfree := off b (bwd_free f p xs)\<rparr>
     \<and> blocks m' b E (fst (bwd xs n) @ (snd (bwd xs n), False) # ys) \<and> keeps (data E (xs @ (n, False) # ys)) b (ram H) m'"
proof -
  have h: "hdr (ram H) (off b p) = block_hdr p (last_at 0 0 xs) n False"
    using blocks_hdr [OF bl] p by simp
  have E: "p + 12 + n + extent ys = E" using bl p by (simp add: blocks_def)
  have B: "unat b + E + 12 < 4294967296" "heap_ptr H = b" "heap_end H = off b E" using g by (auto simp: geo_def)
  show ?thesis
  proof (cases "xs = [] \<or> snd (last xs)")
    case True
    have "plug_backward (off b p) H = H"
    proof (cases xs rule: rev_exhaust)
      case Nil
      then show ?thesis using h B p by (simp add: plug_backward_def offs off_of [of b])
    next
      case (snoc xs' x)
      then obtain j where x: "xs = xs' @ [(j, True)]" using True by (cases x) auto
      then have "hdr (ram H) (off b (extent xs')) = block_hdr (extent xs') (last_at 0 0 xs') j True" "last_at 0 0 xs = extent xs'"
        using blocks_hdr [of "ram H" b E xs' j True "(n, False) # ys"] bl by simp_all
      then show ?thesis using h B by (simp add: plug_backward_def offs off_of [of b])
    qed
    then show ?thesis using True bl l by (intro exI [of _ "ram H"]) (auto simp: bwd_used bwd_free_def)
  next
    case False
    then obtain xs' j where x: "xs = xs' @ [(j, False)]" by (cases xs rule: rev_exhaust) auto
    let ?r = "extent xs'"
    have pr: "p = ?r + 12 + j" using p x by simp
    have j: "hdr (ram H) (off b ?r) = block_hdr ?r (last_at 0 0 xs') j False" "last_at 0 0 xs = ?r"
      using blocks_hdr [of "ram H" b E xs' j False "(n, False) # ys"] bl x by simp_all
    have ne: "off b ?r \<noteq> off b p" "(off b f = off b p) = (f = p)"
      using E B l pr by (auto simp: off_order)
    let ?m1 = "upd_hdr (off b ?r) (\<lambda>h. h\<lparr>hm_next := w32 (p + 12 + n)\<rparr>) (ram H)"
    let ?m2 = "upd_hdr (off b (p + 12 + n)) (\<lambda>h. h\<lparr>hm_prev := w32 ?r\<rparr>) ?m1"
    have h1: "hdr ?m1 (off b p) = block_hdr p (last_at 0 0 xs) n False"
      using h E B pr by (simp add: hdr_upd_apart)
    have "plug_backward (off b p) H = H\<lparr>ram := ?m2, lfree := off b (bwd_free f p xs)\<rparr>"
      using h h1 j ne B l x by (simp add: plug_backward_def set_mem_def offs off_of [of b] bwd_free_def Let_def)
    moreover have "blocks ?m2 b E (xs' @ (j + 12 + n, False) # ys)"
      using blocks_join [of "ram H" b E xs' j False n False ys ?r] bl x pr by simp
    moreover have "keeps (data E (xs @ (n, False) # ys)) b (ram H) ?m2"
      using keeps_join [of "ram H" b E xs' j False n ys ?r] bl x pr by simp
    ultimately show ?thesis using x by (auto simp: bwd_def)
  qed
qed

text \<open>A free block joined with its free neighbours; \<open>f\<close> is the offs off_of [of b]et of the lowest free block.\<close>

definition merged :: "block list \<Rightarrow> nat \<Rightarrow> block list \<Rightarrow> block list" where
  "merged xs n ys = fst (bwd xs (fst (fwd n ys))) @ (snd (bwd xs (fst (fwd n ys))), False) # snd (fwd n ys)"

definition merged_free :: "nat \<Rightarrow> block list \<Rightarrow> nat \<Rightarrow> block list \<Rightarrow> nat" where
  "merged_free f xs n ys = bwd_free (fwd_free f (extent xs) n ys) (extent xs) xs"

lemma data_fwd: "data E (xs @ (fst (fwd n ys), False) # snd (fwd n ys)) = data E (xs @ (n, False) # ys)"
  by (cases "(n, ys)" rule: fwd.cases) (auto simp: data_def add.assoc add.left_commute)

lemma data_bwd: "data E (fst (bwd xs n) @ (snd (bwd xs n), False) # ys) = data E (xs @ (n, False) # ys)"
  by (cases xs rule: rev_exhaust) (auto simp: data_def bwd_def add.assoc add.left_commute add.commute)

lemma data_merged: "data E (merged xs n ys) = data E (xs @ (n, False) # ys)"
  by (simp add: merged_def data_bwd data_fwd)

lemma plug_holes_ok:
  assumes g: "geo H b E" and bl: "blocks (ram H) b E (xs @ (n, False) # ys)" and l: "lfree H = off b f" "f \<le> E"
    and p: "p = extent xs"
  shows "\<exists>m'. plug_holes (off b p) H = Some (H\<lparr>ram := m', lfree := off b (merged_free f xs n ys)\<rparr>)
     \<and> blocks m' b E (merged xs n ys) \<and> keeps (data E (xs @ (n, False) # ys)) b (ram H) m'"
proof -
  have E: "p + 12 + n + extent ys = E" using bl p by (simp add: blocks_def)
  obtain m1 where 1: "plug_forward (off b p) H = H\<lparr>ram := m1, lfree := off b (fwd_free f p n ys)\<rparr>"
    "blocks m1 b E (xs @ (fst (fwd n ys), False) # snd (fwd n ys))" "keeps (data E (xs @ (n, False) # ys)) b (ram H) m1"
    using plug_forward_ok [OF assms] by blast
  have f: "fwd_free f p n ys \<le> E" using l E by (simp add: fwd_free_def)
  obtain m2 where 2: "plug_backward (off b p) (H\<lparr>ram := m1, lfree := off b (fwd_free f p n ys)\<rparr>)
      = H\<lparr>ram := m2, lfree := off b (bwd_free (fwd_free f p n ys) p xs)\<rparr>"
    "blocks m2 b E (merged xs n ys)" "keeps (data E (xs @ (n, False) # ys)) b m1 m2"
    using plug_backward_ok [of "H\<lparr>ram := m1, lfree := off b (fwd_free f p n ys)\<rparr>" b E xs "fst (fwd n ys)" "snd (fwd n ys)"
      "fwd_free f p n ys" p] 1 g f p by (auto simp: merged_def data_fwd)
  have "b \<le> off b p" "off b p < off b E" "hm_used (hdr (ram H) (off b p)) = 0"
    using g E bl p blocks_hdr [OF bl] by (auto simp: geo_def off_ge off_order)
  then have "plug_holes (off b p) H = Some (H\<lparr>ram := m2, lfree := off b (merged_free f xs n ys)\<rparr>)"
    using g 1(1) 2(1) by (simp add: plug_holes_def geo_def merged_free_def p)
  then show ?thesis using 1(3) 2 keeps_trans by blast
qed

subsection \<open>Searching\<close>

text \<open>The first block that is free and large enough, and does not lie too far behind: the blocks before it, its size,
  and the blocks behind.\<close>

fun fit :: "nat \<Rightarrow> nat \<Rightarrow> nat \<Rightarrow> block list \<Rightarrow> (block list \<times> nat \<times> block list) option" where
  "fit E s p [] = None"
| "fit E s p ((n, u) # bs) = (if \<not> p + 12 + s < E then None
     else if \<not> u \<and> s \<le> n then Some ([], n, bs)
     else map_option (\<lambda>(xs, k, ys). ((n, u) # xs, k, ys)) (fit E s (p + 12 + n) bs))"

lemma fit_Some: "fit E s p bs = Some (xs, n, ys) \<Longrightarrow> bs = xs @ (n, False) # ys \<and> s \<le> n \<and> p + extent xs + 12 + s < E"
proof (induction bs arbitrary: p xs)
  case (Cons x bs)
  obtain k u where x: "x = (k, u)" by (cases x)
  show ?case
  proof (cases "\<not> u \<and> s \<le> k")
    case True
    then show ?thesis using Cons.prems by (simp add: x split: if_splits)
  next
    case False
    then obtain zs where "fit E s (p + 12 + k) bs = Some (zs, n, ys)" "xs = x # zs"
      using Cons.prems by (auto simp: x split: if_splits)
    then show ?thesis using Cons.IH [of "p + 12 + k" zs] by (simp add: x)
  qed
qed simp

lemma fit_None: "fit E s p (xs @ (n, False) # ys) = None \<Longrightarrow> s \<le> n \<Longrightarrow> E \<le> p + extent xs + 12 + s"
proof (induction xs arbitrary: p)
  case (Cons x xs)
  obtain k u where "x = (k, u)" by (cases x)
  then show ?case using Cons.prems Cons.IH [of "p + 12 + k"] by (auto split: if_splits)
qed (auto split: if_splits)

lemma find_fit_ok:
  assumes "geo H b E" "blocks (ram H) b E (as @ cs)" "s + 12 \<le> E"
  shows "find_fit H (w32 s) (w32 (extent as)) = Some (map_option (\<lambda>(xs, n, ys). w32 (extent as + extent xs)) (fit E s (extent as) cs))"
  using assms(2)
proof (induction cs arbitrary: as)
  case Nil
  have "extent as = E" using Nil by (simp add: blocks_def)
  moreover have "mem_size_aligned H - w32 s = w32 (E - 12 - s)" "E - 12 - s < 4294967296" "E < 4294967296"
    using assms by (auto simp: geo_def w32_diff)
  moreover have "\<not> E < E - (12 + s)" by arith
  ultimately show ?case by (subst find_fit.simps) (simp add: w32_order)
next
  case (Cons c cs)
  obtain n u where c: "c = (n, u)" by (cases c)
  have E: "extent as + 12 + n + extent cs = E" "E < 4294967296" using Cons.prems by (auto simp: blocks_def c)
  have h: "mem_at H (w32 (extent as)) = block_hdr (extent as) (last_at 0 0 as) n u"
    using blocks_hdr [of "ram H" b E as n u cs] Cons.prems assms(1) by (simp add: mem_at_def geo_def offs off_of [of b] c)
  have "mem_size_aligned H - w32 s = w32 (E - 12 - s)" "E - 12 - s < 4294967296" "extent as < 4294967296"
    using assms E by (auto simp: geo_def w32_diff)
  then have less: "(w32 (extent as) < mem_size_aligned H - w32 s) = (extent as + 12 + s < E)"
    using E by (simp add: w32_order) arith
  have fits: "(w32 (extent as + 12 + n) - (w32 (extent as) + SIZEOF_STRUCT_MEM) \<ge> w32 s) = (s \<le> n)"
    using E assms(3) by (simp add: heap_sizes offs off_of [of b] w32_order)
  have IH: "find_fit H (w32 s) (w32 (extent as + 12 + n)) =
      Some (map_option (\<lambda>(xs, n', ys). w32 (extent as + 12 + n + extent xs)) (fit E s (extent as + 12 + n) cs))"
    using Cons.IH [of "as @ [c]"] Cons.prems by (simp add: c add.assoc case_prod_unfold)
  have "find_fit H (w32 s) (w32 (extent as)) = (if \<not> extent as + 12 + s < E then Some None
      else if \<not> u \<and> s \<le> n then Some (Some (w32 (extent as))) else find_fit H (w32 s) (w32 (extent as + 12 + n)))"
    by (subst find_fit.simps) (simp only: h less fits block_hdr_simps, simp)
  then show ?case unfolding IH
    by (simp add: c option.map_comp comp_def add.assoc case_prod_unfold)
qed

lemma skip_used_ok:
  assumes "geo H b E" "blocks (ram H) b E (as @ cs)"
  shows "skip_used H (off b (extent as)) = Some (off b (extent as + extent (takeWhile snd cs)))"
  using assms(2)
proof (induction cs arbitrary: as)
  case Nil
  have "extent as = E" using Nil by (simp add: blocks_def)
  then show ?case using assms(1) by (subst skip_used.simps) (simp add: geo_def)
next
  case (Cons c cs)
  obtain n u where c: "c = (n, u)" by (cases c)
  have E: "extent as + 12 + n + extent cs = E" using Cons.prems by (auto simp: blocks_def c)
  have h: "hdr (ram H) (off b (extent as)) = block_hdr (extent as) (last_at 0 0 as) n u"
    using blocks_hdr [of "ram H" b E as n u cs] Cons.prems by (simp add: c)
  have ne: "off b (extent as) \<noteq> heap_end H" "heap_ptr H = b" using assms(1) E by (auto simp: geo_def off_order)
  show ?case
    using h ne Cons.IH [of "as @ [c]"] Cons.prems
    by (subst skip_used.simps) (simp add: c offs off_of [of b] add.assoc)
qed

subsection \<open>The invariant\<close>

fun used_size :: "block list \<Rightarrow> nat" where
  "used_size [] = 0"
| "used_size ((n, u) # bs) = (if u then 12 + n else 0) + used_size bs"

text \<open>No two neighbours are free.\<close>

abbreviation spaced :: "block list \<Rightarrow> bool" where
  "spaced \<equiv> successively (\<lambda>x y. snd x \<or> snd y)"

text \<open>The search starts at a free block or at the end.\<close>

definition entry :: "nat \<Rightarrow> block list \<Rightarrow> bool" where
  "entry f bs = (\<exists>as cs. bs = as @ cs \<and> f = extent as \<and> (cs = [] \<or> \<not> snd (hd cs)))"

definition heap_inv :: "u16 \<Rightarrow> heap \<Rightarrow> u32 \<Rightarrow> nat \<Rightarrow> nat \<Rightarrow> block list \<Rightarrow> bool" where
  "heap_inv k H b E f bs = (geo H b E \<and> blocks (ram H) b E bs \<and> lfree H = off b f \<and> entry f bs \<and> spaced bs
     \<and> 0 < fst (last bs) \<and> (snd (hd bs) \<or> f = 0) \<and> used_mem H = w32 (used_size bs) \<and> used_mem H \<le> max_mem H \<and> heap_sem H = k)"

lemma used_size_append [simp]: "used_size (as @ bs) = used_size as + used_size bs"
  by (induction as) auto

lemma used_size_le: "used_size bs \<le> extent bs"
  by (induction bs rule: used_size.induct) auto

lemma extent_mult4: "\<forall>x \<in> set bs. 4 dvd fst x \<Longrightarrow> 4 dvd extent bs"
proof (induction bs rule: extent.induct)
  case (2 n u bs)
  have "(4::nat) dvd 12" by simp
  then show ?case using 2 by (simp add: dvd_add)
qed simp

lemma entryI: "cs = [] \<or> \<not> snd (hd cs) \<Longrightarrow> entry (extent as) (as @ cs)"
  by (auto simp: entry_def)

lemma entry_le: "entry f bs \<Longrightarrow> f \<le> extent bs"
  by (auto simp: entry_def)

lemma count_used_upd: "count_used n H = H\<lparr>used_mem := used_mem H + n, max_mem := (if max_mem H < used_mem H + n then used_mem H + n else max_mem H)\<rparr>"
  by (simp add: count_used_def Let_def)

lemma set_mem_count: "set_mem a f (count_used n H) = count_used n (set_mem a f H)"
  by (simp add: set_mem_def count_used_upd)

subsection \<open>Allocating\<close>

text \<open>What becomes of a free block of \<open>n\<close> bytes when \<open>s\<close> bytes are taken from it.\<close>

definition place :: "nat \<Rightarrow> nat \<Rightarrow> block list" where
  "place s n = (if s + 24 \<le> n then [(s, True), (n - s - 12, False)] else [(n, True)])"

lemma place_extent: "s \<le> n \<Longrightarrow> extent (place s n) = 12 + n"
  by (simp add: place_def)

lemma data_place: "s \<le> n \<Longrightarrow> data E (xs @ (n, False) # ys) \<subseteq> data E (xs @ place s n @ ys)"
  by (auto simp: data_def place_def add.assoc)

lemma last_place: "0 < fst (last (xs @ (n, False) # ys)) \<Longrightarrow> 0 < fst (last (xs @ place s n @ ys))"
  by (auto simp: place_def)

lemma spaced_place: "spaced (xs @ (n, False) # ys) \<Longrightarrow> spaced (xs @ place s n @ ys)"
  by (cases ys) (auto simp: place_def successively_append_iff)

text \<open>Taking \<open>s\<close> bytes from the block at \<open>p\<close>: the memory afterwards.\<close>

lemma malloc_ram:
  assumes g: "geo H b E" and bl: "blocks (ram H) b E (xs @ (n, False) # ys)" and s: "s \<le> n" "4 dvd s"
    and p: "p = extent xs"
  shows "\<exists>m'. set_mem (off b p) (\<lambda>h. h\<lparr>hm_magic := HEAP_MAGIC\<rparr>)
      (if hm_next (mem_at H (w32 p)) - (w32 p + SIZEOF_STRUCT_MEM) \<ge> w32 s + SIZEOF_STRUCT_MEM + MIN_SIZE_ALIGNED
         then count_used (w32 s + SIZEOF_STRUCT_MEM) (link_back (w32 p + SIZEOF_STRUCT_MEM + w32 s)
           (set_mem (off b p) (\<lambda>h. h\<lparr>hm_used := 1\<rparr>) (cut_block (w32 p) (w32 s) H)))
         else count_used (hm_next (mem_at H (w32 p)) - (off b p - heap_ptr H)) (set_mem (off b p) (\<lambda>h. h\<lparr>hm_used := 1\<rparr>) H))
      = count_used (w32 (used_size (place s n))) (H\<lparr>ram := m'\<rparr>)
    \<and> blocks m' b E (xs @ place s n @ ys) \<and> keeps (data E (xs @ (n, False) # ys)) b (ram H) m'"
proof -
  have h: "hdr (ram H) (off b p) = block_hdr p (last_at 0 0 xs) n False"
    using blocks_hdr [OF bl] p by simp
  then have hm: "mem_at H (w32 p) = block_hdr p (last_at 0 0 xs) n False"
    using g by (simp add: mem_at_def geo_def offs off_of [of b])
  have E: "p + 12 + n + extent ys = E" "E + 12 < 4294967296" using bl p by (auto simp: blocks_def)
  have B: "heap_ptr H = b" "mem_size_aligned H = w32 (E - 12)" "24 \<le> E" using g by (auto simp: geo_def)
  have c: "(hm_next (mem_at H (w32 p)) - (w32 p + SIZEOF_STRUCT_MEM) \<ge> w32 s + SIZEOF_STRUCT_MEM + MIN_SIZE_ALIGNED) = (s + 24 \<le> n)"
    using E s by (simp add: hm heap_sizes offs off_of [of b] w32_order) arith
  show ?thesis
  proof (cases "s + 24 \<le> n")
    case False
    let ?m = "upd_hdr (off b p) (\<lambda>h. h\<lparr>hm_magic := HEAP_MAGIC\<rparr>) (upd_hdr (off b p) (\<lambda>h. h\<lparr>hm_used := 1\<rparr>) (ram H))"
    have "blocks ?m b E (xs @ (n, True) # ys)"
      using bl p by (auto simp: blocks_def mem_chain_upd hdr_upd_apart block_hdr_def)
    moreover have "keeps (data E (xs @ (n, False) # ys)) b (ram H) ?m"
      using keeps_header [of xs "(n, False) # ys" E p b "ram H"] E p by simp
    ultimately show ?thesis using False c B hm
      by (intro exI [of _ ?m]) (simp add: count_used_upd set_mem_def place_def offs off_of [of b])
  next
    case True
    define q r where "q = p + 12 + s" and "r = n - s - 12"
    let ?m1 = "upd_hdr (off b p) (\<lambda>h. h\<lparr>hm_next := w32 q\<rparr>)
       (upd_hdr (off b q) (\<lambda>h. \<lparr>hm_magic = HEAP_MAGIC, hm_used = 0, hm_next = w32 (q + 12 + r), hm_prev = w32 p\<rparr>) (ram H))"
    let ?u = "upd_hdr (off b p) (\<lambda>h. h\<lparr>hm_used := 1\<rparr>)"
    let ?m2 = "if q + 12 + r \<noteq> E then upd_hdr (off b (q + 12 + r)) (\<lambda>h. h\<lparr>hm_prev := w32 q\<rparr>) ?m1 else ?m1"
    let ?g = "\<lambda>h. h\<lparr>hm_used := 1, hm_magic := HEAP_MAGIC\<rparr>"
    let ?m3 = "upd_hdr (off b p) ?g ?m2"
    have r: "n = s + 12 + r" "q + 12 + r = p + 12 + n" using True by (simp_all add: r_def q_def)
    have b2: "blocks ?m2 b E (xs @ (s, False) # (r, False) # ys)"
      using bl r p s by (intro blocks_cut [where p = p and q = q and u = False, OF _ _ _ _ refl refl]) (auto simp: q_def)
    have "blocks ?m3 b E (xs @ (s, True) # (r, False) # ys)"
      using blocks_set_used [OF b2, of True] p by simp
    moreover have "keeps (data E (xs @ (s, False) # (r, False) # ys)) b (ram H) ?m2"
      by (rule keeps_cut [OF b2 p _ refl refl]) (simp add: q_def)
    then have "keeps (data E (xs @ (n, False) # ys)) b (ram H) ?m3"
      using keeps_header [of xs "(s, False) # (r, False) # ys" E p b "ram H" ?m2 ?g] E p r by (simp add: data_def add.assoc)
    moreover have "set_mem (off b p) (\<lambda>h. h\<lparr>hm_magic := HEAP_MAGIC\<rparr>) (link_back (w32 q) (set_mem (off b p) (\<lambda>h. h\<lparr>hm_used := 1\<rparr>)
        (cut_block (w32 p) (w32 s) H))) = H\<lparr>ram := ?m3\<rparr>"
    proof -
      have cut: "cut_block (w32 p) (w32 s) H = H\<lparr>ram := ?m1\<rparr>"
        using B hm r by (simp add: cut_block_def set_mem_def heap_sizes offs off_of [of b] q_def add.assoc)
      have hq: "mem_at (set_mem (off b p) (\<lambda>h. h\<lparr>hm_used := 1\<rparr>) (H\<lparr>ram := ?m1\<rparr>)) (w32 q)
          = \<lparr>hm_magic = HEAP_MAGIC, hm_used = 0, hm_next = w32 (q + 12 + r), hm_prev = w32 p\<rparr>"
        using B E r by (simp add: mem_at_def set_mem_def offs off_of [of b] hdr_upd_apart q_def)
      have eq: "(w32 (q + 12 + r) = mem_size_aligned H + SIZEOF_STRUCT_MEM) = (q + 12 + r = E)"
        using B E r by (simp add: heap_sizes offs off_of [of b] w32_order)
      have pq: "p + 12 \<le> q + 12 + r" "q + 12 + r + 12 < 4294967296 \<or> q + 12 + r = E" "q + 12 + r \<le> E"
        using E r by (auto simp: q_def) 
      have cm: "upd_hdr (off b p) f (upd_hdr (off b (q + 12 + r)) g m) = upd_hdr (off b (q + 12 + r)) g (upd_hdr (off b p) f m)" for f g m
        by (rule upd_hdr_commute) (use pq E in auto)
      show ?thesis
        unfolding cut link_back_def Let_def hq using B eq
        by (simp add: set_mem_def offs off_of [of b] upd_hdr_twice cm)
    qed
    moreover have "w32 p + SIZEOF_STRUCT_MEM + w32 s = w32 q" "w32 s + SIZEOF_STRUCT_MEM = w32 (used_size (place s n))"
      using True by (simp_all add: q_def heap_sizes offs place_def add.commute [of 12])
    moreover have "place s n = [(s, True), (r, False)]" using True by (simp add: place_def r_def)
    ultimately show ?thesis using True c
      by (intro exI [of _ ?m3]) (simp add: set_mem_count)
  qed
qed

text \<open>Where the next search starts.\<close>

definition next_free :: "nat \<Rightarrow> nat \<Rightarrow> block list \<Rightarrow> nat" where
  "next_free f p cs = (if f = p then p + extent (takeWhile snd cs) else f)"

lemma first_place: "snd (hd (xs @ (n, False) # ys)) \<or> f = 0 \<Longrightarrow>
  snd (hd (xs @ place s n @ ys)) \<or> next_free f (extent xs) (place s n @ ys) = 0"
  by (cases xs) (auto simp: place_def next_free_def)

lemma entry_next: "entry (extent as + extent (takeWhile snd cs)) (as @ cs)"
  using entryI [of "dropWhile snd cs" "as @ takeWhile snd cs"] hd_dropWhile [of snd cs] by auto

lemma entry_next_free: "entry f (as @ cs) \<Longrightarrow> entry (next_free f (extent as) cs) (as @ cs)"
  by (simp add: next_free_def entry_next)

lemma advance_ok:
  assumes "geo H b E" "blocks (ram H) b E (as @ cs)"
  shows "skip_used H (off b (extent as)) = Some (off b (extent as + extent (takeWhile snd cs)))
    \<and> (off b (extent as + extent (takeWhile snd cs)) = heap_end H
       \<or> hm_used (hdr (ram H) (off b (extent as + extent (takeWhile snd cs)))) = 0)"
proof -
  have "off b (extent as + extent (takeWhile snd cs)) = heap_end H
       \<or> hm_used (hdr (ram H) (off b (extent as + extent (takeWhile snd cs)))) = 0"
  proof (cases "dropWhile snd cs")
    case Nil
    then have tw: "takeWhile snd cs = cs" by (simp add: dropWhile_eq_Nil_conv takeWhile_eq_all_conv)
    show ?thesis unfolding tw using assms by (simp add: geo_def blocks_def)
  next
    case (Cons x ds)
    then obtain n where x: "x = (n, False)" using hd_dropWhile [of snd cs] by (cases x) auto
    have "as @ cs = (as @ takeWhile snd cs) @ (n, False) # ds"
      using takeWhile_dropWhile_id [of snd cs] Cons x by simp
    then show ?thesis using blocks_hdr [of "ram H" b E "as @ takeWhile snd cs" n False ds] assms(2) by simp
  qed
  then show ?thesis using skip_used_ok [OF assms] by simp
qed

lemma malloc_at_ok:
  assumes inv: "heap_inv 0 H b E f (xs @ (n, False) # ys)" and s: "s \<le> n" "4 dvd s" and p: "p = extent xs"
    and e: "f \<noteq> p \<Longrightarrow> entry f (xs @ place s n @ ys)"
  shows "\<exists>H'. malloc_at (w32 s) (w32 p) H = Some (off b (p + 12), H') \<and> heap_inv 1 H' b E (next_free f p (place s n @ ys)) (xs @ place s n @ ys)
    \<and> keeps (data E (xs @ (n, False) # ys)) b (ram H) (ram H')"
proof -
  have g: "geo H b E" and bl: "blocks (ram H) b E (xs @ (n, False) # ys)" and l: "lfree H = off b f"
    and u: "used_mem H = w32 (used_size xs + used_size ys)" and sem: "heap_sem H = 0" and en: "entry f (xs @ (n, False) # ys)"
    and sp: "spaced (xs @ (n, False) # ys)" and la: "0 < fst (last (xs @ (n, False) # ys))"
    and fi: "snd (hd (xs @ (n, False) # ys)) \<or> f = 0"
    using inv by (auto simp: heap_inv_def)
  let ?bs = "xs @ place s n @ ys"
  obtain m' where m: "set_mem (off b p) (\<lambda>h. h\<lparr>hm_magic := HEAP_MAGIC\<rparr>)
      (if hm_next (mem_at H (w32 p)) - (w32 p + SIZEOF_STRUCT_MEM) \<ge> w32 s + SIZEOF_STRUCT_MEM + MIN_SIZE_ALIGNED
         then count_used (w32 s + SIZEOF_STRUCT_MEM) (link_back (w32 p + SIZEOF_STRUCT_MEM + w32 s)
           (set_mem (off b p) (\<lambda>h. h\<lparr>hm_used := 1\<rparr>) (cut_block (w32 p) (w32 s) H)))
         else count_used (hm_next (mem_at H (w32 p)) - (off b p - heap_ptr H)) (set_mem (off b p) (\<lambda>h. h\<lparr>hm_used := 1\<rparr>) H))
      = count_used (w32 (used_size (place s n))) (H\<lparr>ram := m'\<rparr>)"
    and bl': "blocks m' b E ?bs" and k: "keeps (data E (xs @ (n, False) # ys)) b (ram H) m'"
    using malloc_ram [OF g bl s p] by blast
  define G where "G = count_used (w32 (used_size (place s n))) (H\<lparr>ram := m'\<rparr>)"
  have gG: "geo G b E" "ram G = m'" "lfree G = off b f" "heap_sem G = 0" "used_mem G = w32 (used_size ?bs)" "used_mem G \<le> max_mem G"
    using g u sem l by (auto simp: G_def count_used_upd offs add_ac)
  have E: "p + 12 + n + extent ys = E" using bl p by (simp add: blocks_def)
  have B: "unat b + E + 12 < 4294967296" "heap_ptr H = b" "heap_end G = off b E" using g gG(1) by (auto simp: geo_def)
  have f: "f \<le> E" using entry_le [OF en] E p by simp
  have pf: "(off b p = off b f) = (f = p)" using f E B by (auto simp: off_order)
  let ?f' = "next_free f p (place s n @ ys)"
  have adv: "(if off b p = lfree G then do {
           l \<leftarrow> skip_used G (lfree G);
           if l = heap_end G \<or> hm_used (hdr (ram G) l) = 0 then Some (G\<lparr>lfree := l\<rparr>) else None }
         else Some G) = Some (G\<lparr>lfree := off b ?f'\<rparr>)"
    using advance_ok [of G b E xs "place s n @ ys"] gG(1,2,3) bl' p pf by (auto simp: next_free_def)
  have a4: "4 dvd unat b" "4 dvd p" using g bl extent_mult4 [of xs] p by (auto simp: geo_def blocks_def)
  have al: "off b p AND 3 = 0" "off b (p + 12) mod 4 = 0"
  proof -
    have "unat (off b p) = unat b + p" "unat (off b (p + 12)) = unat b + p + 12"
      using E B by (simp_all add: unat_off)
    moreover have "(4 :: nat) dvd 12" by simp
    ultimately show "off b p AND 3 = 0" "off b (p + 12) mod 4 = 0"
      using a4 by (simp_all add: mod4 and3_mod4 dvd_add)
  qed
  have ends: "off b (p + 12) + w32 s \<le> off b E" using E B s by (simp add: off_add off_order)
  have "malloc_at (w32 s) (w32 p) H = Some (off b (p + 12), release_heap (G\<lparr>lfree := off b ?f'\<rparr>))"
    unfolding malloc_at_def Let_def B(2) off_of(1) [of b] m [unfolded B(2)] G_def [symmetric] adv
    using al ends B gG(1) by (simp add: release_heap_def heap_sizes off_add)
  moreover have "heap_inv 1 (release_heap (G\<lparr>lfree := off b ?f'\<rparr>)) b E ?f' ?bs"
    using gG bl' e en entry_next [of xs "place s n @ ys"] p spaced_place [OF sp] last_place [OF la] first_place [OF fi, of s]
    by (simp add: heap_inv_def release_heap_def next_free_def)
  ultimately show ?thesis using k gG(2) by (simp add: release_heap_def)
qed

text \<open>The size that is looked for.\<close>

definition request :: "u32 \<Rightarrow> nat" where
  "request sz = max 12 (unat (RT_ALIGN sz))"

lemma request_mult4: "4 dvd request sz"
proof -
  have "unat (RT_ALIGN sz) = unat (sz + 3) div 4 * 4" unfolding RT_ALIGN_def align_down ..
  moreover have "(4 :: nat) dvd 12" by simp
  ultimately show ?thesis by (simp add: request_def max_def)
qed

lemma request_le: "unat (RT_ALIGN sz) + 12 \<le> E \<Longrightarrow> 24 \<le> E \<Longrightarrow> request sz + 12 \<le> E"
  by (simp add: request_def)

lemma request_w32: "(if RT_ALIGN sz < MIN_SIZE_ALIGNED then MIN_SIZE_ALIGNED else RT_ALIGN sz) = w32 (request sz)"
  by (auto simp: request_def heap_sizes w32_12 word_less_nat_alt unat_w32 max_def)

lemma heap_inv_sem: "heap_inv k H b E f bs \<Longrightarrow> heap_inv j (H\<lparr>heap_sem := j\<rparr>) b E f bs"
  by (auto simp add: heap_inv_def)

lemma heap_inv_split: "heap_inv k H b E f bs \<Longrightarrow> \<exists>as cs. bs = as @ cs \<and> f = extent as \<and> (cs = [] \<or> \<not> snd (hd cs))"
  by (auto simp: heap_inv_def entry_def)

lemma take_heap_ok: "heap_inv 1 H b E f bs \<Longrightarrow> take_heap H = Some (H\<lparr>heap_sem := 0\<rparr>) \<and> heap_inv 0 (H\<lparr>heap_sem := 0\<rparr>) b E f bs"
  by (auto simp add: heap_inv_def take_heap_def)

lemma release_taken: "heap_inv 1 H b E f bs \<Longrightarrow> release_heap (H\<lparr>heap_sem := 0\<rparr>) = H"
  by (simp add: heap_inv_def release_heap_def)

lemma heap_inv_size: "heap_inv k H b E f bs \<Longrightarrow> (RT_ALIGN sz > mem_size_aligned H) = (E < unat (RT_ALIGN sz) + 12)"
  by (auto simp: heap_inv_def geo_def word_less_nat_alt unat_w32)

lemma rt_malloc_none:
  assumes "heap_inv 1 H b E f (as @ cs)" "f = extent as"
    "sz = 0 \<or> E < unat (RT_ALIGN sz) + 12 \<or> fit E (request sz) f cs = None"
  shows "rt_malloc sz H = Some (0, H)"
proof (cases "sz = 0 \<or> E < unat (RT_ALIGN sz) + 12")
  case True
  then show ?thesis using heap_inv_size [OF assms(1), of sz] by (auto simp: rt_malloc_def Let_def)
next
  case False
  let ?H = "H\<lparr>heap_sem := 0\<rparr>"
  have i: "geo ?H b E" "blocks (ram ?H) b E (as @ cs)" "24 \<le> E" "lfree H = off b f" "heap_ptr H = b"
    using assms(1) by (auto simp: heap_inv_def geo_def)
  have "find_fit ?H (w32 (request sz)) (w32 f) = Some None"
    using find_fit_ok [OF i(1,2), of "request sz"] False assms(2,3) request_le [of sz E] i(3) by simp
  then show ?thesis
    using False heap_inv_size [OF assms(1), of sz] take_heap_ok [OF assms(1)] release_taken [OF assms(1)] i
    by (simp add: rt_malloc_def request_w32 off_diff)
qed

lemma rt_malloc_some:
  assumes inv: "heap_inv 1 H b E f (as @ cs)" and f: "f = extent as" "cs = [] \<or> \<not> snd (hd cs)"
    and sz: "sz \<noteq> 0" "unat (RT_ALIGN sz) + 12 \<le> E" "fit E (request sz) f cs = Some (zs, n, ys)" "s = request sz" "p = f + extent zs"
  shows "\<exists>H'. rt_malloc sz H = Some (off b (p + 12), H') \<and> heap_inv 1 H' b E (next_free f p (place s n @ ys)) (as @ zs @ place s n @ ys)
    \<and> keeps (data E (as @ cs)) b (ram H) (ram H')"
proof -
  let ?H = "H\<lparr>heap_sem := 0\<rparr>"
  have i: "geo ?H b E" "blocks (ram ?H) b E (as @ cs)" "24 \<le> E" "lfree H = off b f" "heap_ptr H = b"
    using inv by (auto simp: heap_inv_def geo_def)
  have ft: "cs = zs @ (n, False) # ys" "s \<le> n" using fit_Some [OF sz(3)] sz(4) by auto
  have ff: "find_fit ?H (w32 s) (w32 f) = Some (Some (w32 p))"
    using find_fit_ok [OF i(1,2), of s] sz f request_le [of sz E] i(3) by simp
  have e: "entry f ((as @ zs) @ place s n @ ys)" if "f \<noteq> p"
    using that f sz(5) ft(1) entryI [of "zs @ place s n @ ys" as] by (cases zs) auto
  obtain H' where H': "malloc_at (w32 s) (w32 p) ?H = Some (off b (p + 12), H')"
    "heap_inv 1 H' b E (next_free f p (place s n @ ys)) ((as @ zs) @ place s n @ ys)"
    "keeps (data E ((as @ zs) @ (n, False) # ys)) b (ram ?H) (ram H')"
    using malloc_at_ok [of ?H b E f "as @ zs" n ys s p] take_heap_ok [OF inv] ft e request_mult4 [of sz] sz f by auto
  then show ?thesis
    using sz heap_inv_size [OF inv, of sz] take_heap_ok [OF inv] i ff ft
    by (intro exI [of _ H']) (simp add: rt_malloc_def request_w32 off_diff)
qed

subsection \<open>Freeing\<close>

lemma fwd_cases [case_names used free]:
  obtains "ys = [] \<or> snd (hd ys)" | k zs where "ys = (k, False) # zs"
  by (cases ys) fastforce+

lemma bwd_cases [case_names used free]:
  obtains "xs = [] \<or> snd (last xs)" | k zs where "xs = zs @ [(k, False)]"
  by (cases xs rule: rev_cases) fastforce+

lemma entry_fwd: "entry f (xs @ (n, False) # ys) \<Longrightarrow> entry (fwd_free f (extent xs) n ys) (xs @ (fst (fwd n ys), False) # snd (fwd n ys))"
proof (cases ys rule: fwd_cases)
  case used
  assume "entry f (xs @ (n, False) # ys)"
  then show ?thesis using used by (auto simp: fwd_used fwd_free_def)
next
  case (free k zs)
  assume e: "entry f (xs @ (n, False) # ys)"
  show ?thesis
  proof (cases "f = extent xs + 12 + n")
    case True
    then show ?thesis using free entryI [of "(n + 12 + k, False) # zs" xs] by (simp add: fwd_free_def)
  next
    case False
    obtain as cs where a: "xs @ (n, False) # (k, False) # zs = as @ cs" "f = extent as" "cs = [] \<or> \<not> snd (hd cs)"
      using e free by (auto simp: entry_def)
    from a(1) obtain us where "xs @ us = as \<and> (n, False) # (k, False) # zs = us @ cs
        \<or> xs = as @ us \<and> us @ (n, False) # (k, False) # zs = cs"
      unfolding append_eq_append_conv2 by auto
    then have "entry f (xs @ (n + 12 + k, False) # zs)"
    proof
      assume u: "xs @ us = as \<and> (n, False) # (k, False) # zs = us @ cs"
      show ?thesis
      proof (cases us)
        case Nil
        then show ?thesis using u a(2) entryI [of "(n + 12 + k, False) # zs" xs] by auto
      next
        case (Cons v vs)
        show ?thesis
        proof (cases vs)
          case Nil
          then show ?thesis using u a(2) Cons False by auto
        next
          case (Cons w ws)
          then have "f = extent (xs @ (n + 12 + k, False) # ws)" "zs = ws @ cs" using u a(2) \<open>us = v # vs\<close> by auto
          then show ?thesis using entryI [OF a(3), of "xs @ (n + 12 + k, False) # ws"] by simp
        qed
      qed
    next
      assume "xs = as @ us \<and> us @ (n, False) # (k, False) # zs = cs"
      then show ?thesis using a(2,3) entryI [of "us @ (n + 12 + k, False) # zs" as] by (cases us) auto
    qed
    then show ?thesis using False free by (simp add: fwd_free_def)
  qed
qed

lemma entry_bwd: "entry f (xs @ (n, False) # ys) \<Longrightarrow> entry (bwd_free f (extent xs) xs) (fst (bwd xs n) @ (snd (bwd xs n), False) # ys)"
proof (cases xs rule: bwd_cases)
  case used
  assume "entry f (xs @ (n, False) # ys)"
  then show ?thesis using used by (auto simp: bwd_used bwd_free_def)
next
  case (free k zs)
  assume "entry f (xs @ (n, False) # ys)"
  then show ?thesis using entry_fwd [of f zs k "(n, False) # ys"] free
    by (auto simp: bwd_def bwd_free_def fwd_free_def)
qed

lemma entry_merged: "entry f (xs @ (n, False) # ys) \<Longrightarrow> entry (merged_free f xs n ys) (merged xs n ys)"
  by (simp add: merged_free_def merged_def entry_bwd entry_fwd)

lemma entry_freed:
  assumes "entry f (xs @ (n, True) # ys)"
  shows "entry (min (extent xs) f) (xs @ (n, False) # ys)"
proof -
  obtain as cs where a: "xs @ (n, True) # ys = as @ cs" "f = extent as" "cs = [] \<or> \<not> snd (hd cs)"
    using assms by (auto simp: entry_def)
  show ?thesis
  proof (cases "extent xs \<le> f")
    case True
    then show ?thesis using entryI [of "(n, False) # ys" xs] by (simp add: min_def)
  next
    case False
    from a(1) obtain us where "xs @ us = as \<and> (n, True) # ys = us @ cs \<or> xs = as @ us \<and> us @ (n, True) # ys = cs"
      unfolding append_eq_append_conv2 by auto
    then obtain us where "xs = as @ us" "us @ (n, True) # ys = cs" using False a(2) by auto
    then show ?thesis using False a entryI [of "us @ (n, False) # ys" as] by (cases us) (auto simp: min_def)
  qed
qed

lemma spaced_merged: "spaced (xs @ (n, True) # ys) \<Longrightarrow> spaced (merged xs n ys)"
  by (cases xs rule: bwd_cases; cases ys rule: fwd_cases)
    (auto simp: merged_def bwd_used fwd_used bwd_def successively_append_iff successively_Cons)

lemma used_merged: "used_size (merged xs n ys) = used_size xs + used_size ys"
  by (cases xs rule: bwd_cases; cases ys rule: fwd_cases) (auto simp: merged_def bwd_used fwd_used bwd_def)

lemma last_merged: "0 < fst (last (xs @ (n, u) # ys)) \<Longrightarrow> 0 < fst (last (merged xs n ys))"
  by (cases xs rule: bwd_cases; cases ys rule: fwd_cases) (auto simp: merged_def bwd_used fwd_used bwd_def)

lemma first_merged: "snd (hd (xs @ (n, False) # ys)) \<or> f = 0 \<Longrightarrow> snd (hd (merged xs n ys)) \<or> merged_free f xs n ys = 0"
  by (cases xs rule: bwd_cases; cases ys rule: fwd_cases)
    (auto simp: merged_def bwd_used fwd_used bwd_def merged_free_def fwd_free_def bwd_free_def hd_append split: if_splits)

lemma rt_free_ok:
  assumes inv: "heap_inv 1 H b E f (xs @ (n, True) # ys)" and p: "p = extent xs"
  shows "\<exists>H'. rt_free (off b (p + 12)) H = Some H' \<and> heap_inv 1 H' b E (merged_free (min p f) xs n ys) (merged xs n ys)
    \<and> keeps (data E (xs @ (n, False) # ys)) b (ram H) (ram H')"
proof -
  have g: "geo H b E" and bl: "blocks (ram H) b E (xs @ (n, True) # ys)" and l: "lfree H = off b f" 
    and u: "used_mem H = w32 (used_size xs + (12 + n) + used_size ys)" and en: "entry f (xs @ (n, True) # ys)"
    and sp: "spaced (xs @ (n, True) # ys)" and la: "0 < fst (last (xs @ (n, True) # ys))" and mx: "used_mem H \<le> max_mem H"
    and fi: "snd (hd (xs @ (n, False) # ys)) \<or> min (extent xs) f = 0"
    using inv by (cases xs; auto simp: heap_inv_def add_ac)+
  have E: "p + 12 + n + extent ys = E" using bl p by (simp add: blocks_def)
  have B: "unat b + E + 12 < 4294967296" "heap_ptr H = b" "heap_end H = off b E" using g by (auto simp: geo_def)
  have f: "f \<le> E" using entry_le [OF en] E p by simp
  have room: "p + 12 < E" using E la extent_gap [of ys] by (cases ys) auto
  let ?H1 = "H\<lparr>heap_sem := 0\<rparr>"
  let ?m = "upd_hdr (off b p) (\<lambda>h. h\<lparr>hm_used := 0, hm_magic := HEAP_MAGIC\<rparr>) (ram H)"
  let ?H4 = "?H1\<lparr>ram := ?m, lfree := off b (min p f), used_mem := w32 (used_size xs + used_size ys)\<rparr>"
  have h: "hdr (ram H) (off b p) = block_hdr p (last_at 0 0 xs) n True" using blocks_hdr [OF bl] p by simp
  have b2: "blocks ?m b E (xs @ (n, False) # ys)" using blocks_set_used [OF bl, of False] p by simp
  have k2: "keeps (data E (xs @ (n, False) # ys)) b (ram H) ?m"
    using keeps_header [of xs "(n, False) # ys" E p b "ram H" "ram H"] E B p by simp
  have "geo ?H4 b E" "blocks (ram ?H4) b E (xs @ (n, False) # ys)" "lfree ?H4 = off b (min p f)" "min p f \<le> E"
    using g b2 f by auto
  from plug_holes_ok [OF this p]
  obtain m' where m': "plug_holes (off b p) ?H4 = Some (?H4\<lparr>ram := m', lfree := off b (merged_free (min p f) xs n ys)\<rparr>)"
    "blocks m' b E (merged xs n ys)" "keeps (data E (xs @ (n, False) # ys)) b (ram ?H4) m'" by blast
  have a: "off b (p + 12) AND 3 = 0"
  proof -
    have "unat (off b (p + 12)) = unat b + p + 12" using E B by (simp add: unat_off)
    moreover have "4 dvd unat b" "4 dvd p" using g bl extent_mult4 [of xs] p by (auto simp: geo_def blocks_def)
    moreover have "(4 :: nat) dvd 12" by simp
    ultimately show ?thesis by (simp add: mod4 and3_mod4 dvd_add)
  qed
  have c: "off b (p + 12) \<noteq> 0" "b \<le> off b (p + 12)" "off b (p + 12) < off b E" "off b (p + 12) - SIZEOF_STRUCT_MEM = off b p"
    using B room by (auto simp: off_ge off_order heap_sizes off_diff unat_off dest: arg_cong [of _ _ unat])
  have lf: "(if off b p < off b f then X\<lparr>lfree := off b p\<rparr> else X) = X\<lparr>lfree := off b (min p f)\<rparr>" if "lfree X = off b f" for X
    using that f E B by (auto simp: off_order min_def)
  have um: "used_mem H - (w32 (p + 12 + n) - w32 p) = w32 (used_size xs + used_size ys)"
    by (simp add: u w32_diff)
  have "rt_free (off b (p + 12)) H = Some (release_heap (?H4\<lparr>ram := m', lfree := off b (merged_free (min p f) xs n ys)\<rparr>))"
    using a c h l B take_heap_ok [OF inv] m'(1) um f E
    by (simp add: rt_free_def set_mem_def lf off_diff Let_def)
  moreover have "heap_inv 1 (release_heap (?H4\<lparr>ram := m', lfree := off b (merged_free (min p f) xs n ys)\<rparr>)) b E
      (merged_free (min p f) xs n ys) (merged xs n ys)"
  proof -
    have "used_size xs + (12 + n) + used_size ys < 4294967296"
      using used_size_le [of "xs @ (n, True) # ys"] E B p by simp
    then have "w32 (used_size xs + used_size ys) \<le> max_mem H"
      using mx by (simp add: u word_le_nat_alt unat_w32)
    then show ?thesis
      using g m'(2) entry_merged [OF entry_freed [OF en]] spaced_merged [OF sp] last_merged [OF la] first_merged [OF fi] p
      by (simp add: heap_inv_def release_heap_def used_merged)
  qed
  ultimately show ?thesis using keeps_trans [OF k2, of m'] m'(3) by (simp add: release_heap_def)
qed

end
