(* ===== verification/MemLive.thy ===== *)
theory MemLive imports MemHeapOk begin

subsection \<open>The blocks in use\<close>

text \<open>Where the data of each block in use start, and how many bytes they are.\<close>

fun lives :: "nat \<Rightarrow> block list \<Rightarrow> (nat \<times> nat) list" where
  "lives p [] = []"
| "lives p ((n, u) # bs) = (if u then [(p + 12, n)] else []) @ lives (p + 12 + n) bs"

lemma lives_append [simp]: "lives p (as @ bs) = lives p as @ lives (p + extent as) bs"
  by (induction as arbitrary: p) (auto simp: add.assoc)

lemma lives_bounds: "(d, n) \<in> set (lives p bs) \<Longrightarrow> p + 12 \<le> d \<and> d + n \<le> p + extent bs"
proof (induction bs arbitrary: p)
  case (Cons x bs)
  obtain k u where x: "x = (k, u)" by (cases x)
  show ?case using Cons.prems Cons.IH [of "p + 12 + k"] by (fastforce simp: x split: if_splits)
qed simp

lemma lives_split: "(d, n) \<in> set (lives p bs) \<Longrightarrow> \<exists>xs ys. bs = xs @ (n, True) # ys \<and> d = p + extent xs + 12"
proof (induction bs arbitrary: p)
  case (Cons x bs)
  obtain k u where x: "x = (k, u)" by (cases x)
  from Cons.prems consider "u" "d = p + 12" "n = k" | "(d, n) \<in> set (lives (p + 12 + k) bs)"
    by (auto simp: x split: if_splits)
  then show ?case
  proof cases
    case 1
    then show ?thesis by (intro exI [of _ "[]"] exI [of _ bs]) (simp add: x)
  next
    case 2
    then obtain xs ys where "bs = xs @ (n, True) # ys" "d = p + 12 + k + extent xs + 12"
      using Cons.IH by blast
    then show ?thesis by (intro exI [of _ "x # xs"] exI [of _ ys]) (simp add: x)
  qed
qed simp

lemma body_lives: "body p bs = (\<Union>(d, n) \<in> set (lives p bs). {d..<d + n})"
  by (induction bs arbitrary: p rule: extent.induct) auto

lemma lives_distinct: "distinct (map fst (lives p bs))"
proof (induction bs arbitrary: p)
  case (Cons x bs)
  obtain k u where x: "x = (k, u)" by (cases x)
  have "p + 12 \<notin> fst ` set (lives (p + 12 + k) bs)" using lives_bounds by fastforce
  then show ?case using Cons.IH [of "p + 12 + k"] by (simp add: x)
qed simp

lemma lives_apart:
  assumes "(d, n) \<in> set (lives p bs)" "(d', n') \<in> set (lives p bs)" "d \<noteq> d'"
  shows "d + n \<le> d' \<or> d' + n' \<le> d"
proof -
  obtain xs ys where b: "bs = xs @ (n, True) # ys" "d = p + extent xs + 12" using lives_split [OF assms(1)] by blast
  then have "(d', n') \<in> set (lives p xs) \<or> (d', n') \<in> set (lives (d + n) ys)"
    using assms(2,3) by (auto simp: add_ac)
  then show ?thesis using lives_bounds b(2) by fastforce
qed

lemma lives_merged: "lives 0 (merged xs n ys) = lives 0 (xs @ (n, False) # ys)"
  by (cases xs rule: bwd_cases; cases ys rule: fwd_cases) (auto simp: merged_def bwd_used fwd_used bwd_def add_ac)

lemma lives_place: "s \<le> n \<Longrightarrow> lives p (place s n) = [(p + 12, if s + 24 \<le> n then s else n)]"
  by (simp add: place_def)

text \<open>The contents of the blocks in use.\<close>

definition contents :: "ram \<Rightarrow> u32 \<Rightarrow> (nat \<times> nat) list \<Rightarrow> u32 \<rightharpoonup> bytes" where
  "contents m b L = map_of (map (\<lambda>(d, n). (off b d, rd m (off b d) n)) L)"

lemma contents_iff:
  assumes "L = lives 0 bs" "unat b + extent bs < 4294967296"
  shows "(contents m b L a = Some v) = (\<exists>(d, n) \<in> set L. a = off b d \<and> v = rd m a n)"
proof -
  have "inj_on (off b) (fst ` set L)"
  proof (rule inj_onI)
    fix x y assume a: "x \<in> fst ` set L" "y \<in> fst ` set L" "off b x = off b y"
    then have "x \<le> extent bs" "y \<le> extent bs" using lives_bounds [of _ _ 0 bs] assms(1) by fastforce+
    then show "x = y" using a(3) assms(2) by (simp add: off_order)
  qed
  then have "distinct (map (off b) (map fst L))" using lives_distinct [of 0 bs] assms(1) by (simp only: distinct_map set_map)
  then have "distinct (map fst (map (\<lambda>(d, n). (off b d, rd m (off b d) n)) L))"
    by (simp add: comp_def case_prod_unfold)
  then show ?thesis by (auto simp: contents_def map_of_eq_Some_iff)
qed

lemma contents_cong: "(\<And>d n. (d, n) \<in> set L \<Longrightarrow> rd m' (off b d) n = rd m (off b d) n) \<Longrightarrow> contents m' b L = contents m b L"
  unfolding contents_def by (intro arg_cong [of _ _ map_of] map_cong) auto

text \<open>The heap holds the blocks \<open>f\<close>.\<close>

definition heap_holds :: "heap \<Rightarrow> (u32 \<rightharpoonup> bytes) \<Rightarrow> bool" where
  "heap_holds H f = (\<exists>b E g bs. heap_inv 1 H b E g bs \<and> f = contents (ram H) b (lives 0 bs))"

lemma heap_inv_bounds: "heap_inv k H b E g bs \<Longrightarrow> extent bs = E \<and> unat b + E + 12 < 4294967296 \<and> heap_ptr H = b \<and> heap_end H = off b E"
  by (auto simp: heap_inv_def geo_def blocks_def)

lemma heap_holds_dom:
  assumes "heap_inv k H b E g bs" "contents (ram H) b (lives 0 bs) a = Some d"
  shows "\<exists>xs n ys. bs = xs @ (n, True) # ys \<and> a = off b (extent xs + 12) \<and> d = rd (ram H) a n"
proof -
  have "unat b + extent bs < 4294967296" using heap_inv_bounds [OF assms(1)] by simp
  then obtain p n where "(p, n) \<in> set (lives 0 bs)" "a = off b p" "d = rd (ram H) a n"
    using assms(2) contents_iff [OF refl, of b bs "ram H" a d] by auto
  then show ?thesis using lives_split [of p n 0 bs] by auto
qed

lemma contents_dom: "contents m b L a = Some v \<Longrightarrow> \<exists>(d, n) \<in> set L. a = off b d"
  unfolding contents_def by (drule map_of_SomeD) auto

lemma contents_None: "(\<And>d n. (d, n) \<in> set L \<Longrightarrow> off b d \<noteq> a) \<Longrightarrow> contents m b L a = None"
  using contents_dom [of m b L a] by (cases "contents m b L a") auto

lemma contents_insert:
  assumes "\<And>d n. (d, n) \<in> set A \<Longrightarrow> off b d \<noteq> off b q"
  shows "contents m b (A @ (q, k) # B) = (contents m b (A @ B))(off b q \<mapsto> rd m (off b q) k)"
proof -
  have "off b q \<notin> dom (contents m b A)" using contents_None [of A b "off b q" m] assms by auto
  then show ?thesis by (simp add: contents_def map_add_upd_left)
qed

lemma contents_delete:
  assumes "\<And>d n. (d, n) \<in> set (A @ B) \<Longrightarrow> off b d \<noteq> off b q"
  shows "contents m b (A @ B) = (contents m b (A @ (q, k) # B))(off b q := None)"
proof -
  have "contents m b (A @ B) (off b q) = None" using assms by (rule contents_None)
  moreover have "contents m b (A @ (q, k) # B) = (contents m b (A @ B))(off b q \<mapsto> rd m (off b q) k)"
    using assms by (intro contents_insert) auto
  ultimately show ?thesis by (simp add: fun_upd_idem)
qed

lemma contents_keeps:
  assumes "keeps (data E bs) b m m'" "extent bs \<le> 4294967296"
  shows "contents m' b (lives 0 bs) = contents m b (lives 0 bs)"
proof (rule contents_cong)
  fix d n assume dn: "(d, n) \<in> set (lives 0 bs)"
  then have "{d..<d + n} \<subseteq> data E bs" by (auto simp: data_def body_lives)
  then show "rd m' (off b d) n = rd m (off b d) n"
    using assms lives_bounds [OF dn] by (intro keeps_rd) auto
qed

text \<open>The live blocks around one of them.\<close>

lemma lives_around:
  assumes "(d, j) \<in> set (lives 0 xs @ lives (q + k) ys)" "q = extent xs + 12"
    "unat b + q + k + extent ys < 4294967296"
  shows "off b d \<noteq> off b q"
proof -
  have "d + j \<le> extent xs \<or> q + k + 12 \<le> d" "d + j \<le> q + k + extent ys" "d \<noteq> q"
    using assms(1,2) lives_bounds [of d j 0 xs] lives_bounds [of d j "q + k" ys] by auto
  then show ?thesis using assms(3) by (auto simp: off_order)
qed

subsection \<open>The calls on the blocks they hold\<close>

lemma heap_holdsI: "heap_inv 1 H b E g bs \<Longrightarrow> heap_holds H (contents (ram H) b (lives 0 bs))"
  by (auto simp: heap_holds_def)

lemma malloc_holds:
  assumes "heap_holds H f"
  shows "\<exists>r H'. rt_malloc sz H = Some (r, H') \<and> (r = 0 \<and> H' = H
    \<or> r \<noteq> 0 \<and> f r = None \<and> (\<exists>d. unat (RT_ALIGN sz) \<le> length d \<and> heap_holds H' (f(r \<mapsto> d))))"
proof -
  obtain b E g as cs where inv: "heap_inv 1 H b E g (as @ cs)" and g: "g = extent as" "cs = [] \<or> \<not> snd (hd cs)"
    and f: "f = contents (ram H) b (lives 0 (as @ cs))"
    using assms heap_inv_split unfolding heap_holds_def by blast
  show ?thesis
  proof (cases "sz = 0 \<or> E < unat (RT_ALIGN sz) + 12 \<or> fit E (request sz) g cs = None")
    case True
    then show ?thesis using rt_malloc_none [OF inv g(1)] by blast
  next
    case False
    then obtain zs n ys where ft: "fit E (request sz) g cs = Some (zs, n, ys)" by auto
    define p s where "p = g + extent zs" and "s = request sz"
    obtain H' where H': "rt_malloc sz H = Some (off b (p + 12), H')"
      "heap_inv 1 H' b E (next_free g p (place s n @ ys)) (as @ zs @ place s n @ ys)"
      "keeps (data E (as @ cs)) b (ram H) (ram H')"
      using rt_malloc_some [OF inv g _ _ ft s_def p_def] False by auto
    have cs: "cs = zs @ (n, False) # ys" "s \<le> n" using fit_Some [OF ft] by (auto simp: s_def)
    have E: "p + 12 + n + extent ys = E" "unat b + E + 12 < 4294967296" 
      using heap_inv_bounds [OF inv] by (auto simp: cs p_def g)
    define k where "k = (if s + 24 \<le> n then s else n)"
    have L: "lives 0 (as @ zs @ place s n @ ys) = lives 0 (as @ zs) @ (p + 12, k) # lives (p + 12 + n) ys"
      "lives 0 (as @ cs) = lives 0 (as @ zs) @ lives (p + 12 + n) ys"
      using cs by (auto simp: lives_place place_extent p_def g k_def add_ac)
    have ne: "off b d \<noteq> off b (p + 12)" if "(d, j) \<in> set (lives 0 (as @ zs) @ lives (p + 12 + n) ys)" for d j
      using lives_around [of d j "as @ zs" "p + 12" n ys b] that E by (auto simp: p_def g)
    have "contents (ram H') b (lives 0 (as @ zs @ place s n @ ys)) =
        (contents (ram H') b (lives 0 (as @ cs)))(off b (p + 12) \<mapsto> rd (ram H') (off b (p + 12)) k)"
      unfolding L using ne by (intro contents_insert) auto
    also have "contents (ram H') b (lives 0 (as @ cs)) = f"
      unfolding f using H'(3) E heap_inv_bounds [OF inv] by (intro contents_keeps) auto
    finally have "heap_holds H' (f(off b (p + 12) \<mapsto> rd (ram H') (off b (p + 12)) k))"
      using heap_holdsI [OF H'(2)] by (simp only:)
    moreover have "f (off b (p + 12)) = None"
      unfolding f L using ne by (intro contents_None) auto
    moreover have "off b (p + 12) \<noteq> 0" using E by (auto simp: unat_off dest: arg_cong [of _ _ unat])
    moreover have "unat (RT_ALIGN sz) \<le> k" using cs(2) by (simp add: k_def s_def request_def)
    ultimately show ?thesis using H'(1)
      by (intro exI [of _ "off b (p + 12)"] exI [of _ H'] conjI disjI2 exI [of _ "rd (ram H') (off b (p + 12)) k"]) auto
  qed
qed

lemma free_holds:
  assumes "heap_holds H f" "f a = Some d"
  shows "\<exists>H'. rt_free a H = Some H' \<and> heap_holds H' (f(a := None))"
proof -
  obtain b E g bs where inv: "heap_inv 1 H b E g bs" and f: "f = contents (ram H) b (lives 0 bs)"
    using assms(1) unfolding heap_holds_def by blast
  obtain xs n ys where bs: "bs = xs @ (n, True) # ys" and a: "a = off b (extent xs + 12)"
    using heap_holds_dom [OF inv] assms(2) f by blast
  let ?p = "extent xs"
  have E: "?p + 12 + n + extent ys = E" "unat b + E + 12 < 4294967296" 
    using heap_inv_bounds [OF inv] by (auto simp: bs)
  obtain H' where H': "rt_free a H = Some H'" "heap_inv 1 H' b E (merged_free (min ?p g) xs n ys) (merged xs n ys)"
    "keeps (data E (xs @ (n, False) # ys)) b (ram H) (ram H')"
    using rt_free_ok [OF inv [unfolded bs] refl] a by auto
  have L: "lives 0 (merged xs n ys) = lives 0 xs @ lives (?p + 12 + n) ys"
    "lives 0 bs = lives 0 xs @ (?p + 12, n) # lives (?p + 12 + n) ys"
    by (simp_all add: lives_merged bs)
  have ne: "off b d \<noteq> off b (?p + 12)" if "(d, j) \<in> set (lives 0 xs @ lives (?p + 12 + n) ys)" for d j
    using lives_around [of d j xs "?p + 12" n ys b] that E by auto
  have "contents (ram H') b (lives 0 (merged xs n ys)) = contents (ram H) b (lives 0 (xs @ (n, False) # ys))"
    unfolding lives_merged using H'(3) E by (intro contents_keeps) auto
  also have "\<dots> = contents (ram H) b (lives 0 xs @ lives (?p + 12 + n) ys)" by simp
  also have "\<dots> = f(a := None)" unfolding f L a using ne by (intro contents_delete) auto
  finally show ?thesis using H'(1) heap_holdsI [OF H'(2)] by auto
qed

text \<open>Writing into a block.\<close>

lemma keeps_wr: "K \<inter> {q..<q + length vs} = {} \<Longrightarrow> q + length vs \<le> 4294967296 \<Longrightarrow> keeps K b m (wr (off b q) vs m)"
  by (auto simp: keeps_def wr_off)

lemma store_inv:
  assumes inv: "heap_inv k H b E g (xs @ (n, True) # ys)" and q: "extent xs + 12 \<le> q" "q + length vs \<le> extent xs + 12 + n"
  shows "heap_inv k (H\<lparr>ram := wr (off b q) vs (ram H)\<rparr>) b E g (xs @ (n, True) # ys)"
proof -
  let ?m = "wr (off b q) vs (ram H)" and ?p = "extent xs"
  have bl: "blocks (ram H) b E (xs @ (n, True) # ys)" and rest: "geo H b E" using inv by (auto simp: heap_inv_def)
  have E: "?p + 12 + n + extent ys = E" "E + 12 < 4294967296" using bl by (auto simp: blocks_def)
  have kp: "keeps K b (ram H) ?m" if "K \<inter> {?p + 12..<?p + 12 + n} = {}" for K
    using that q E by (intro keeps_wr) auto
  have h: "hdr ?m (off b ?p) = hdr (ram H) (off b ?p)" "hdr ?m (off b E) = hdr (ram H) (off b E)"
    using kp [of "{?p..<?p + 12}"] kp [of "{E..<E + 12}"] E by (auto simp: hdr_def keeps_rd [OF _ order_refl])
  have "mem_chain ?m b 0 0 xs" 
    using bl E by (intro mem_chain_keeps [OF _ kp]) (auto simp: blocks_def)
  moreover have "mem_chain ?m b (?p + 12 + n) ?p ys"
    using bl E by (intro mem_chain_keeps [OF _ kp]) (auto simp: blocks_def)
  ultimately have "blocks ?m b E (xs @ (n, True) # ys)"
    using bl h by (simp add: blocks_def)
  then show ?thesis using inv by (auto simp add: heap_inv_def)
qed

lemma store_holds:
  assumes "heap_holds H f" "f a = Some d" "i + length vs \<le> length d"
  shows "heap_holds (H\<lparr>ram := wr (a + of_nat i) vs (ram H)\<rparr>) (f(a \<mapsto> overwrite i vs d))"
proof -
  obtain b E g bs where inv: "heap_inv 1 H b E g bs" and f: "f = contents (ram H) b (lives 0 bs)"
    using assms(1) unfolding heap_holds_def by blast
  obtain xs n ys where bs: "bs = xs @ (n, True) # ys" and a: "a = off b (extent xs + 12)" and d: "d = rd (ram H) a n"
    using heap_holds_dom [OF inv] assms(2) f by blast
  let ?q = "extent xs + 12" and ?m = "wr (a + of_nat i) vs (ram H)"
  have ai: "a + of_nat i = off b (?q + i)" by (simp add: a off_def)
  have E: "?q + n + extent ys = E" "unat b + E + 12 < 4294967296" using heap_inv_bounds [OF inv] by (auto simp: bs)
  have i: "i + length vs \<le> n" using assms(3) d by simp
  have inv': "heap_inv 1 (H\<lparr>ram := ?m\<rparr>) b E g bs"
    unfolding bs ai using inv i bs by (intro store_inv) auto
  have L: "lives 0 bs = lives 0 xs @ (?q, n) # lives (?q + n) ys" by (simp add: bs)
  have ne: "off b e \<noteq> off b ?q" if "(e, j) \<in> set (lives 0 xs @ lives (?q + n) ys)" for e j
    using lives_around [of e j xs ?q n ys b] that E by auto
  have rest: "contents ?m b (lives 0 xs @ lives (?q + n) ys) = contents (ram H) b (lives 0 xs @ lives (?q + n) ys)"
  proof (rule contents_cong)
    fix e j assume "(e, j) \<in> set (lives 0 xs @ lives (?q + n) ys)"
    then have "e + j \<le> extent xs \<or> ?q + n \<le> e" "e + j \<le> E"
      using lives_bounds [of e j 0 xs] lives_bounds [of e j "?q + n" ys] E by auto
    then show "rd ?m (off b e) j = rd (ram H) (off b e) j"
      unfolding ai using i E by (intro rd_wr_apart) auto
  qed
  have ins: "contents m b (lives 0 bs) = (contents m b (lives 0 xs @ lives (?q + n) ys))(off b ?q \<mapsto> rd m (off b ?q) n)" for m
    unfolding L using ne by (intro contents_insert) auto
  have ow: "rd ?m (off b ?q) n = overwrite i vs d"
  proof (rule nth_equalityI)
    fix j assume "j < length (rd ?m (off b ?q) n)"
    then show "rd ?m (off b ?q) n ! j = overwrite i vs d ! j"
      unfolding ai d [unfolded a] using i E by (auto simp: rd_off wr_off overwrite_def nth_append)
  qed (use i in \<open>simp add: d\<close>)
  have "contents ?m b (lives 0 bs) = f(a \<mapsto> overwrite i vs d)"
    unfolding f ins rest ow by (simp add: a)
  then show ?thesis using heap_holdsI [OF inv'] by simp
qed

subsection \<open>Changing the size of a block\<close>

lemma shrink_ram:
  assumes g: "geo H b E" and bl: "blocks (ram H) b E (xs @ (s + 12 + r, u) # ys)" and s: "4 dvd s"
    and p: "p = extent xs" "q = p + 12 + s"
  shows "\<exists>m'. link_back (w32 q) (cut_block (w32 p) (w32 s) H) = H\<lparr>ram := m'\<rparr>
    \<and> blocks m' b E (xs @ (s, u) # (r, False) # ys) \<and> keeps (data E (xs @ (s, u) # (r, False) # ys)) b (ram H) m'"
proof -
  have hm: "mem_at H (w32 p) = block_hdr p (last_at 0 0 xs) (s + 12 + r) u"
    using g blocks_hdr [OF bl] p by (simp add: mem_at_def geo_def offs off_of [of b])
  have E: "q + 12 + r + extent ys = E" "E + 12 < 4294967296" using bl p by (auto simp: blocks_def)
  have B: "heap_ptr H = b" "mem_size_aligned H = w32 (E - 12)" "24 \<le> E" using g by (auto simp: geo_def)
  let ?m1 = "upd_hdr (off b p) (\<lambda>h. h\<lparr>hm_next := w32 q\<rparr>)
       (upd_hdr (off b q) (\<lambda>h. \<lparr>hm_magic = HEAP_MAGIC, hm_used = 0, hm_next = w32 (q + 12 + r), hm_prev = w32 p\<rparr>) (ram H))"
  let ?m2 = "if q + 12 + r \<noteq> E then upd_hdr (off b (q + 12 + r)) (\<lambda>h. h\<lparr>hm_prev := w32 q\<rparr>) ?m1 else ?m1"
  have b2: "blocks ?m2 b E (xs @ (s, u) # (r, False) # ys)"
    using bl p s by (intro blocks_cut [where p = p and q = q and u = u, OF _ _ _ _ refl refl]) auto
  have k2: "keeps (data E (xs @ (s, u) # (r, False) # ys)) b (ram H) ?m2"
    by (rule keeps_cut [OF b2 p refl refl])
  have cut: "cut_block (w32 p) (w32 s) H = H\<lparr>ram := ?m1\<rparr>"
    using B hm by (simp add: cut_block_def set_mem_def heap_sizes offs off_of [of b] p(2) add.assoc)
  have hq: "mem_at (H\<lparr>ram := ?m1\<rparr>) (w32 q) = \<lparr>hm_magic = HEAP_MAGIC, hm_used = 0, hm_next = w32 (q + 12 + r), hm_prev = w32 p\<rparr>"
    using B E by (simp add: mem_at_def offs off_of [of b] hdr_upd_apart p(2))
  have eq: "(w32 (q + 12 + r) = mem_size_aligned H + SIZEOF_STRUCT_MEM) = (q + 12 + r = E)"
    using B E by (simp add: heap_sizes offs w32_order)
  have "link_back (w32 q) (cut_block (w32 p) (w32 s) H) = H\<lparr>ram := ?m2\<rparr>"
    unfolding cut link_back_def Let_def hq using B eq by (simp add: set_mem_def offs off_of [of b])
  then show ?thesis using b2 k2 by blast
qed

lemma entry_cut: "entry f (xs @ (n, True) # ys) \<Longrightarrow> n = s + 12 + r \<Longrightarrow> entry f (xs @ (s, True) # (r, False) # ys)"
proof -
  assume e: "entry f (xs @ (n, True) # ys)" and n: "n = s + 12 + r"
  obtain as cs where a: "xs @ (n, True) # ys = as @ cs" "f = extent as" "cs = [] \<or> \<not> snd (hd cs)"
    using e by (auto simp: entry_def)
  from a(1) obtain us where "xs @ us = as \<and> (n, True) # ys = us @ cs \<or> xs = as @ us \<and> us @ (n, True) # ys = cs"
    unfolding append_eq_append_conv2 by auto
  then show ?thesis
  proof
    assume u: "xs @ us = as \<and> (n, True) # ys = us @ cs"
    then obtain vs where "us = (n, True) # vs" "ys = vs @ cs" using a(3) by (cases us) auto
    then show ?thesis using u a n entryI [OF a(3), of "xs @ (s, True) # (r, False) # vs"] by (auto simp: add_ac)
  next
    assume "xs = as @ us \<and> us @ (n, True) # ys = cs"
    then show ?thesis using a entryI [of "us @ (s, True) # (r, False) # ys" as] by (cases us) auto
  qed
qed

lemma shrink_ok:
  assumes inv: "heap_inv 1 H b E f (xs @ (n, True) # ys)" and p: "p = extent xs" and s: "s + 24 < n" "4 dvd s"
    and zs: "zs = merged (xs @ [(s, True)]) (n - s - 12) ys" and g': "g = merged_free f (xs @ [(s, True)]) (n - s - 12) ys"
  shows "\<exists>H3 H'. plug_holes (off b (p + 12 + s)) (link_back (w32 (p + 12 + s)) (cut_block (w32 p) (w32 s)
      (H\<lparr>heap_sem := 0, used_mem := used_mem H - w32 (n - s)\<rparr>))) = Some H3 \<and> release_heap H3 = H'
    \<and> heap_inv 1 H' b E g zs \<and> keeps (data E zs) b (ram H) (ram H')"
proof -
  define q r where "q = p + 12 + s" and "r = n - s - 12"
  have n: "n = s + 12 + r" using s by (simp add: r_def)
  have g: "geo H b E" and bl: "blocks (ram H) b E (xs @ (n, True) # ys)" and l: "lfree H = off b f" 
    and u: "used_mem H = w32 (used_size xs + (12 + n) + used_size ys)" and en: "entry f (xs @ (n, True) # ys)"
    and sp: "spaced (xs @ (n, True) # ys)" and la: "0 < fst (last (xs @ (n, True) # ys))" and mx: "used_mem H \<le> max_mem H"
    using inv by (auto simp: heap_inv_def add_ac)
  have E: "p + 12 + n + extent ys = E" "E + 12 < 4294967296" using bl p by (auto simp: blocks_def)
  have f: "f \<le> E" using entry_le [OF en] E p by simp
  let ?U = "used_size xs + (12 + s) + used_size ys"
  let ?H2 = "H\<lparr>heap_sem := 0, used_mem := w32 ?U\<rparr>"
  have um: "used_mem H - w32 (n - s) = w32 ?U" using s by (simp add: u w32_diff add_ac)
  obtain m where m: "link_back (w32 q) (cut_block (w32 p) (w32 s) ?H2) = ?H2\<lparr>ram := m\<rparr>"
    "blocks m b E (xs @ (s, True) # (r, False) # ys)" "keeps (data E (xs @ (s, True) # (r, False) # ys)) b (ram H) m"
    using shrink_ram [of ?H2 b E xs s r True ys p q] g bl s p n q_def by auto
  have "geo (?H2\<lparr>ram := m\<rparr>) b E" "blocks (ram (?H2\<lparr>ram := m\<rparr>)) b E ((xs @ [(s, True)]) @ (r, False) # ys)"
    "lfree (?H2\<lparr>ram := m\<rparr>) = off b f" "f \<le> E" "q = extent (xs @ [(s, True)])"
    using g m(2) l f p by (auto simp: q_def)
  from plug_holes_ok [OF this] obtain m' where m': "plug_holes (off b q) (?H2\<lparr>ram := m\<rparr>) = Some (?H2\<lparr>ram := m', lfree := off b g\<rparr>)"
    "blocks m' b E zs" "keeps (data E ((xs @ [(s, True)]) @ (r, False) # ys)) b m m'"
    unfolding zs g' r_def by auto
  let ?H' = "release_heap (?H2\<lparr>ram := m', lfree := off b g\<rparr>)"
  have kz: "data E zs = data E (xs @ (s, True) # (r, False) # ys)" by (simp add: zs data_merged r_def)
  have en': "entry g zs" unfolding g' zs using entry_cut [OF en n] by (intro entry_merged) (simp add: r_def)
  have sp': "spaced zs" unfolding zs using sp by (intro spaced_merged) (auto simp: successively_append_iff successively_Cons)
  have la': "0 < fst (last zs)" unfolding zs using la s by (intro last_merged [where u = True]) auto
  have fi': "snd (hd zs) \<or> g = 0" unfolding zs g' using inv by (intro first_merged) (cases xs; auto simp: heap_inv_def)
  have us: "used_size zs = ?U" by (simp add: zs used_merged)
  have "used_size xs + (12 + n) + used_size ys < 4294967296"
    using used_size_le [of "xs @ (n, True) # ys"] E p by simp
  then have "w32 ?U \<le> max_mem H" using mx s by (simp add: u word_le_nat_alt unat_w32)
  then have "heap_inv 1 ?H' b E g zs"
    using g m'(2) en' sp' la' fi' us by (simp add: heap_inv_def release_heap_def)
  moreover have "keeps (data E zs) b (ram H) (ram ?H')"
    using keeps_trans [OF m(3), of m'] m'(3) by (simp add: kz release_heap_def)
  ultimately show ?thesis using m(1) m'(1) unfolding um q_def by auto
qed

lemma heap_holds_rd: "heap_holds H f \<Longrightarrow> f a = Some d \<Longrightarrow> rd (ram H) a (length d) = d"
  unfolding heap_holds_def using heap_holds_dom by fastforce

lemma rd_take: "k \<le> n \<Longrightarrow> rd m a k = take k (rd m a n)"
  by (simp add: rd_def take_map)

lemma RT_ALIGN_twice: "RT_ALIGN (RT_ALIGN x) = RT_ALIGN x"
proof -
  have a: "unat (RT_ALIGN x) = unat (x + 3) div 4 * 4" unfolding RT_ALIGN_def align_down ..
  have "unat (x + 3) < 4294967296" by (rule unat_u32_bound)
  then have b: "unat (RT_ALIGN x) + 3 < 4294967296" unfolding a by presburger
  have "unat (RT_ALIGN (RT_ALIGN x)) = unat (RT_ALIGN x)" unfolding unat_align [OF b] a by presburger
  then show ?thesis by (simp only: word_unat_eq_iff)
qed

lemma rt_realloc_cases:
  assumes inv: "heap_inv 1 H b E g (xs @ (n, True) # ys)" and p: "p = extent xs" and sz: "s = unat (RT_ALIGN newsz)" "a = off b (p + 12)"
  shows "rt_realloc a newsz H = (if E < s + 12 then Some (0, H)
      else if n = s then Some (a, H)
      else if s + 24 < n then do {
        H3 \<leftarrow> plug_holes (off b (p + 12 + s)) (link_back (w32 (p + 12 + s)) (cut_block (w32 p) (w32 s)
          (H\<lparr>heap_sem := 0, used_mem := used_mem H - w32 (n - s)\<rparr>)));
        Some (a, release_heap H3) }
      else do {
        (nmem, H2) \<leftarrow> rt_malloc (w32 s) H;
        if nmem \<noteq> 0 then do {
             H4 \<leftarrow> rt_free a (H2\<lparr>ram := wr nmem (rd (ram H2) a (min n s)) (ram H2)\<rparr>);
             Some (nmem, H4) }
           else Some (nmem, H2) })" and "a \<noteq> 0"
proof -
  have N: "RT_ALIGN newsz = w32 s" by (simp add: sz)
  have E: "p + 12 + n + extent ys = E" "unat b + E + 12 < 4294967296" "heap_ptr H = b" "heap_end H = off b E"
    using heap_inv_bounds [OF inv] by (auto simp: p)
  have room: "p + 12 < E" using E(1) inv extent_gap [of ys] by (cases ys) (auto simp: heap_inv_def)
  have big: "(RT_ALIGN newsz > mem_size_aligned H) = (E < s + 12)"
    using heap_inv_size [OF inv, of newsz] by (simp add: sz)
  have h: "hdr (ram H) (off b p) = block_hdr p (last_at 0 0 xs) n True"
    using inv blocks_hdr [of "ram H" b E xs n True ys] by (simp add: heap_inv_def p)
  have a0: "a \<noteq> 0" "\<not> a < b" "\<not> off b E \<le> a" "a - SIZEOF_STRUCT_MEM = off b p"
    using E room unfolding sz(2)
    by (auto simp: off_ge off_order not_less not_le heap_sizes off_diff unat_off dest: arg_cong [of _ _ unat])
  then show "a \<noteq> 0" by blast
  show "rt_realloc a newsz H = (if E < s + 12 then Some (0, H)
      else if n = s then Some (a, H)
      else if s + 24 < n then do {
        H3 \<leftarrow> plug_holes (off b (p + 12 + s)) (link_back (w32 (p + 12 + s)) (cut_block (w32 p) (w32 s)
          (H\<lparr>heap_sem := 0, used_mem := used_mem H - w32 (n - s)\<rparr>)));
        Some (a, release_heap H3) }
      else do {
        (nmem, H2) \<leftarrow> rt_malloc (w32 s) H;
        if nmem \<noteq> 0 then do {
             H4 \<leftarrow> rt_free a (H2\<lparr>ram := wr nmem (rd (ram H2) a (min n s)) (ram H2)\<rparr>);
             Some (nmem, H4) }
           else Some (nmem, H2) })"
  proof (cases "E < s + 12")
    case True
    then show ?thesis using big by (simp add: rt_realloc_def)
  next
    case False
    have n: "n < 4294967296" "s + 24 < 4294967296" using E False by linarith+
    have w: "w32 (12 + n) - SIZEOF_STRUCT_MEM = w32 n" "w32 s + SIZEOF_STRUCT_MEM + 12 = w32 (s + 24)"
      "w32 p + SIZEOF_STRUCT_MEM + w32 s = w32 (p + 12 + s)" "off b p + (SIZEOF_STRUCT_MEM + w32 s) = off b (p + 12 + s)"
      by (simp_all add: heap_sizes offs add.commute [of 24 s] add.assoc)
    have o: "(w32 n = w32 s) = (n = s)" "(w32 (s + 24) < w32 n) = (s + 24 < n)" using n by (auto simp: w32_order)
    show ?thesis
      using False a0 big take_heap_ok [OF inv] release_taken [OF inv] h n
      unfolding rt_realloc_def Let_def N
      by (auto simp: E o w min_def off_diff off_of [of b] w32_diff w32_order unat_w32 cong del: prod.case_cong_weak if_weak_cong)
  qed
qed

lemma realloc_holds:
  assumes "heap_holds H f" "f a = Some d"
  shows "\<exists>r H'. rt_realloc a newsz H = Some (r, H') \<and> (r = 0 \<and> H' = H
    \<or> r \<noteq> 0 \<and> (r = a \<or> f r = None) \<and> (\<exists>d'. unat (RT_ALIGN newsz) \<le> length d'
        \<and> take (min (length d) (unat (RT_ALIGN newsz))) d' = take (unat (RT_ALIGN newsz)) d \<and> heap_holds H' ((f(a := None))(r \<mapsto> d'))))"
proof -
  obtain b E g bs where inv: "heap_inv 1 H b E g bs" and f: "f = contents (ram H) b (lives 0 bs)"
    using assms(1) unfolding heap_holds_def by blast
  obtain xs n ys where bs: "bs = xs @ (n, True) # ys" and a: "a = off b (extent xs + 12)" and d: "d = rd (ram H) a n"
    using heap_holds_dom [OF inv] assms(2) f by blast
  define p s where "p = extent xs" and "s = unat (RT_ALIGN newsz)"
  have E: "p + 12 + n + extent ys = E" "unat b + E + 12 < 4294967296" "heap_ptr H = b" "heap_end H = off b E"
    using heap_inv_bounds [OF inv] by (auto simp: bs p_def)
  have s4: "4 dvd s" unfolding s_def RT_ALIGN_def align_down by simp
  let ?H1 = "H\<lparr>heap_sem := 0\<rparr>"
  note st = rt_realloc_cases(1) [OF inv [unfolded bs] p_def s_def a [folded p_def]]
  have a0: "a \<noteq> 0" by (rule rt_realloc_cases(2) [OF inv [unfolded bs] p_def s_def a [folded p_def]])
  have fin: ?thesis if "rt_realloc a newsz H = Some (r, H')" "r \<noteq> 0" "r = a \<or> f r = None" "s \<le> length d'"
    "take (min (length d) s) d' = take s d" "heap_holds H' ((f(a := None))(r \<mapsto> d'))" for r H' d'
    using that unfolding s_def by blast
  consider "E < s + 12" | "\<not> E < s + 12" "n = s" | "\<not> E < s + 12" "s + 24 < n" | "\<not> E < s + 12" "n \<noteq> s" "\<not> s + 24 < n"
    by blast
  then show ?thesis
  proof cases
    case 1
    then show ?thesis using st by simp
  next
    case 2
    then have "rt_realloc a newsz H = Some (a, H)" "s = length d" "(f(a := None))(a \<mapsto> d) = f"
      using st d assms(2) by (auto simp: fun_upd_idem)
    then show ?thesis using fin [of a H d] a0 assms(1) by simp
  next
    case 3
    define zs where "zs = merged (xs @ [(s, True)]) (n - s - 12) ys"
    from shrink_ok [OF inv [unfolded bs] p_def 3(2) s4 zs_def refl] obtain H3 H' where H':
      "plug_holes (off b (p + 12 + s)) (link_back (w32 (p + 12 + s)) (cut_block (w32 p) (w32 s) (?H1\<lparr>used_mem := used_mem H - w32 (n - s)\<rparr>))) = Some H3"
      "release_heap H3 = H'" "heap_inv 1 H' b E (merged_free g (xs @ [(s, True)]) (n - s - 12) ys) zs" "keeps (data E zs) b (ram H) (ram H')"
      by blast
    have r: "rt_realloc a newsz H = Some (a, H')" using st 3 H'(1,2) by simp
    have L: "lives 0 zs = lives 0 xs @ (p + 12, s) # lives (p + 12 + n) ys"
      "lives 0 bs = lives 0 xs @ (p + 12, n) # lives (p + 12 + n) ys"
      using 3 by (simp_all add: zs_def lives_merged bs p_def add_ac)
    have ne: "off b e \<noteq> off b (p + 12)" if "(e, j) \<in> set (lives 0 xs @ lives (p + 12 + n) ys)" for e j
      using lives_around [of e j xs "p + 12" n ys b] that E by (auto simp: p_def)
    have ins: "contents m b (lives 0 xs @ (p + 12, k) # lives (p + 12 + n) ys)
        = (contents m b (lives 0 xs @ lives (p + 12 + n) ys))(off b (p + 12) \<mapsto> rd m (off b (p + 12)) k)" for m k
      using ne by (intro contents_insert) auto
    have "contents (ram H') b (lives 0 zs) = contents (ram H) b (lives 0 zs)"
      using H'(4) heap_inv_bounds [OF H'(3)] by (intro contents_keeps) auto
    also have "\<dots> = (f(a := None))(a \<mapsto> take s d)"
      unfolding f L ins d using 3 by (simp add: a p_def rd_take [of s n])
    finally have hh: "heap_holds H' ((f(a := None))(a \<mapsto> take s d))" using heap_holdsI [OF H'(3)] by (simp only:)
    have "s \<le> length (take s d)" using 3 d by simp
    then show ?thesis using fin [OF r a0 _ _ _ hh] by (simp add: min_def)
  next
    case 4
    from malloc_holds [OF assms(1), of "w32 s"] obtain r H2 where H2: "rt_malloc (w32 s) H = Some (r, H2)"
      "r = 0 \<and> H2 = H \<or> r \<noteq> 0 \<and> f r = None \<and> (\<exists>d'. unat (RT_ALIGN (w32 s)) \<le> length d' \<and> heap_holds H2 (f(r \<mapsto> d')))"
      by blast
    show ?thesis
    proof (cases "r = 0")
      case True
      then show ?thesis using 4 st H2 by simp
    next
      case False
      then obtain e where e: "f r = None" "s \<le> length e" "heap_holds H2 (f(r \<mapsto> e))"
        using H2(2) by (auto simp: s_def RT_ALIGN_twice)
      have ra: "r \<noteq> a" using e(1) assms(2) by auto
      have "rd (ram H2) a (length d) = d" using heap_holds_rd [OF e(3), of a d] ra assms(2) by simp
      then have c: "rd (ram H2) a (min n s) = take s d" using rd_take [of "min n s" "length d"] d by (simp add: min_def)
      let ?e = "overwrite 0 (take s d) e" and ?H3 = "H2\<lparr>ram := wr r (take s d) (ram H2)\<rparr>"
      have h3: "heap_holds ?H3 (f(r \<mapsto> ?e))"
        using store_holds [OF e(3), of r e 0 "take s d"] e(2) by simp
      then obtain H4 where H4: "rt_free a ?H3 = Some H4" "heap_holds H4 ((f(r \<mapsto> ?e))(a := None))"
        using free_holds [of ?H3 "f(r \<mapsto> ?e)" a d] ra assms(2) by auto
      have "rt_realloc a newsz H = Some (r, H4)" using st 4 H2(1) False c H4(1) by simp
      moreover have "heap_holds H4 ((f(a := None))(r \<mapsto> ?e))" using H4(2) ra by (simp add: fun_upd_twist)
      moreover have "s \<le> length ?e" "take (min (length d) s) ?e = take s d"
        using e(2) by (simp_all add: overwrite_def min_def)
      ultimately show ?thesis using fin False e(1) by blast
    qed
  qed
qed

subsection \<open>Setting up\<close>

lemma heap_init_inv:
  assumes "b = RT_ALIGN begin_addr" "e = RT_ALIGN_DOWN end_addr" "unat b + 36 \<le> unat e" "used_mem H = 0"
  shows "heap_inv 1 (rt_system_heap_init begin_addr end_addr H) b (unat e - unat b - 12) 0 [(unat e - unat b - 24, False)]"
proof -
  define n where "n = unat e - unat b - 24"
  have a: "unat b = unat (begin_addr + 3) div 4 * 4" "unat e = unat end_addr div 4 * 4"
    unfolding assms(1,2) RT_ALIGN_def RT_ALIGN_DOWN_def align_down by simp_all
  have eb: "unat e = unat b + n + 24" "12 \<le> n" "unat e < 4294967296" 
    using assms(3) unat_u32_bound [of e] by (simp_all add: n_def)
  have d: "4 dvd n" "4 dvd unat b" 
  proof -
    show "4 dvd unat b" unfolding a(1) by simp
    then show "4 dvd n" using a(2) eb(1) by presburger
  qed
  have e: "e = off b (n + 24)" using eb by (intro word_unat_eq_iff [THEN iffD2]) (simp add: unat_off)
  have t: "e - b - 2 * SIZEOF_STRUCT_MEM = w32 n" "\<not> e \<le> 2 * SIZEOF_STRUCT_MEM" "b \<le> e - 2 * SIZEOF_STRUCT_MEM"
  proof -
    show "e - b - 2 * SIZEOF_STRUCT_MEM = w32 n" by (simp add: e off_diff heap_sizes) (simp add: w32_def)
    show "\<not> e \<le> 2 * SIZEOF_STRUCT_MEM" using eb by (simp add: heap_sizes word_le_nat_alt)
    have "e - 2 * SIZEOF_STRUCT_MEM = off b n" by (simp add: e heap_sizes off_def)
    then show "b \<le> e - 2 * SIZEOF_STRUCT_MEM" using eb by (simp add: off_ge)
  qed
  let ?m1 = "upd_hdr b (\<lambda>h. \<lparr>hm_magic = HEAP_MAGIC, hm_used = 0, hm_next = w32 (n + 12), hm_prev = 0\<rparr>) (ram H)"
  let ?m = "upd_hdr (off b (n + 12)) (\<lambda>h. \<lparr>hm_magic = HEAP_MAGIC, hm_used = 1, hm_next = w32 (n + 12), hm_prev = w32 (n + 12)\<rparr>) ?m1"
  have i: "rt_system_heap_init begin_addr end_addr H = H\<lparr>mem_size_aligned := w32 n, heap_ptr := b, ram := ?m,
      heap_end := off b (n + 12), heap_sem := 1, lfree := b\<rparr>"
    using t unfolding rt_system_heap_init_def assms(1,2) [symmetric] Let_def
    by (simp add: set_mem_def not_le) (simp add: heap_sizes offs off_of [of b])
  have "hdr ?m (off b 0) = block_hdr 0 0 n False" "hdr ?m (off b (n + 12)) = 
      \<lparr>hm_magic = HEAP_MAGIC, hm_used = 1, hm_next = w32 (n + 12), hm_prev = w32 (n + 12)\<rparr>"
    using hdr_upd_apart [of "n + 12" 0 b _ ?m1] eb by (simp_all add: off_0 block_hdr_def w32_def add_ac)
  then have "blocks ?m b (n + 12) [(n, False)]" using d eb by (simp add: blocks_def)
  moreover have "geo (rt_system_heap_init begin_addr end_addr H) b (n + 12)" unfolding i geo_def using eb d by simp
  moreover have "entry 0 [(n, False)]" using entryI [of "[(n, False)]" "[]"] by simp
  moreover have "w32 0 = 0" by (simp add: w32_def)
  ultimately have "heap_inv 1 (rt_system_heap_init begin_addr end_addr H) b (n + 12) 0 [(n, False)]"
    using assms(4) eb unfolding i heap_inv_def by (simp add: off_0)
  moreover have "n + 12 = unat e - unat b - 12" "n = unat e - unat b - 24" using eb(1) by simp_all
  ultimately show ?thesis by (simp only:)
qed

lemma heap_init_holds:
  assumes "unat (RT_ALIGN begin_addr) + 36 \<le> unat (RT_ALIGN_DOWN end_addr)" "used_mem H = 0"
  shows "heap_holds (rt_system_heap_init begin_addr end_addr H) (\<lambda>_. None)"
  using heap_holdsI [OF heap_init_inv [OF refl refl assms]] by (simp add: contents_def)

end
