(* ===== verification/MemProps.thy ===== *)
theory MemProps imports MemLive begin

text \<open>The contract of the heap and its properties.  A client sees a map from the addresses it was given to the
  contents of the blocks there; the locale states what each call does to that map, the interpretation proves it for
  the allocator, and the properties follow for every sequence of legal calls.\<close>

subsection \<open>The contract\<close>

datatype heap_call = Malloc u32 | Calloc u32 u32 | Realloc u32 u32 | Free u32 | Store u32 nat bytes

definition block_call :: "(u32 \<Rightarrow> 'h \<Rightarrow> (u32 \<times> 'h) option) \<Rightarrow> (u32 \<Rightarrow> u32 \<Rightarrow> 'h \<Rightarrow> (u32 \<times> 'h) option)
    \<Rightarrow> (u32 \<Rightarrow> u32 \<Rightarrow> 'h \<Rightarrow> (u32 \<times> 'h) option) \<Rightarrow> (u32 \<Rightarrow> 'h \<Rightarrow> 'h option)
    \<Rightarrow> (u32 \<Rightarrow> nat \<Rightarrow> bytes \<Rightarrow> 'h \<Rightarrow> 'h) \<Rightarrow> heap_call \<Rightarrow> 'h \<Rightarrow> (u32 \<times> 'h) option" where
  "block_call alloc calloc resize release store c h = (case c of Malloc n \<Rightarrow> alloc n h | Calloc k n \<Rightarrow> calloc k n h | Realloc a n \<Rightarrow> resize a n h
     | Free a \<Rightarrow> map_option (Pair 0) (release a h) | Store a i vs \<Rightarrow> Some (a, store a i vs h))"

text \<open>A client frees, resizes and writes only what it was given.\<close>

fun legal_call :: "heap_call \<Rightarrow> (u32 \<rightharpoonup> bytes) \<Rightarrow> bool" where
  "legal_call (Malloc n) f = True"
| "legal_call (Calloc k n) f = (unat (k * n) + 3 < 4294967296)"
| "legal_call (Realloc a n) f = (f a \<noteq> None)"
| "legal_call (Free a) f = (f a \<noteq> None)"
| "legal_call (Store a i vs) f = (case f a of None \<Rightarrow> False | Some d \<Rightarrow> i + length vs \<le> length d)"

text \<open>What a call that returns \<open>r\<close> may do to the blocks.\<close>

fun call_effect :: "heap_call \<Rightarrow> (u32 \<rightharpoonup> bytes) \<Rightarrow> u32 \<Rightarrow> (u32 \<rightharpoonup> bytes) \<Rightarrow> bool" where
  "call_effect (Malloc n) f r f' = (r = 0 \<and> f' = f
     \<or> r \<noteq> 0 \<and> f r = None \<and> (\<exists>d. unat (RT_ALIGN n) \<le> length d \<and> f' = f(r \<mapsto> d)))"
| "call_effect (Calloc k n) f r f' = (r = 0 \<and> f' = f
     \<or> r \<noteq> 0 \<and> f r = None \<and> (\<exists>d. take (unat (k * n)) d = replicate (unat (k * n)) 0 \<and> f' = f(r \<mapsto> d)))"
| "call_effect (Realloc a n) f r f' = (r = 0 \<and> f' = f
     \<or> r \<noteq> 0 \<and> (r = a \<or> f r = None) \<and> (\<exists>d'. unat (RT_ALIGN n) \<le> length d'
       \<and> take (min (length (the (f a))) (unat (RT_ALIGN n))) d' = take (unat (RT_ALIGN n)) (the (f a)) \<and> f' = (f(a := None))(r \<mapsto> d')))"
| "call_effect (Free a) f r f' = (f' = f(a := None))"
| "call_effect (Store a i vs) f r f' = (f' = f(a \<mapsto> overwrite i vs (the (f a))))"

text \<open>Giving back several blocks, one after the other.\<close>

fun release_all :: "(u32 \<Rightarrow> 'h \<Rightarrow> 'h option) \<Rightarrow> u32 list \<Rightarrow> 'h \<Rightarrow> 'h option" where
  "release_all release [] h = Some h"
| "release_all release (a # as) h = Option.bind (release a h) (release_all release as)"

locale block_store =
  fixes holds :: "'h \<Rightarrow> (u32 \<rightharpoonup> bytes) \<Rightarrow> bool"
    and alloc :: "u32 \<Rightarrow> 'h \<Rightarrow> (u32 \<times> 'h) option"
    and calloc :: "u32 \<Rightarrow> u32 \<Rightarrow> 'h \<Rightarrow> (u32 \<times> 'h) option"
    and resize :: "u32 \<Rightarrow> u32 \<Rightarrow> 'h \<Rightarrow> (u32 \<times> 'h) option"
    and release :: "u32 \<Rightarrow> 'h \<Rightarrow> 'h option"
    and store :: "u32 \<Rightarrow> nat \<Rightarrow> bytes \<Rightarrow> 'h \<Rightarrow> 'h"
    and load :: "u32 \<Rightarrow> nat \<Rightarrow> 'h \<Rightarrow> bytes"
  assumes alloc_ok: "holds h f \<Longrightarrow> \<exists>r h'. alloc n h = Some (r, h') \<and> (r = 0 \<and> h' = h
      \<or> r \<noteq> 0 \<and> f r = None \<and> (\<exists>d. unat (RT_ALIGN n) \<le> length d \<and> holds h' (f(r \<mapsto> d))))"
    and calloc_ok: "holds h f \<Longrightarrow> unat (k * n) + 3 < 4294967296 \<Longrightarrow> \<exists>r h'. calloc k n h = Some (r, h') \<and> (r = 0 \<and> h' = h
      \<or> r \<noteq> 0 \<and> f r = None \<and> (\<exists>d. take (unat (k * n)) d = replicate (unat (k * n)) 0 \<and> holds h' (f(r \<mapsto> d))))"
    and resize_ok: "holds h f \<Longrightarrow> f a = Some d \<Longrightarrow> \<exists>r h'. resize a n h = Some (r, h') \<and> (r = 0 \<and> h' = h
      \<or> r \<noteq> 0 \<and> (r = a \<or> f r = None) \<and> (\<exists>d'. unat (RT_ALIGN n) \<le> length d'
        \<and> take (min (length d) (unat (RT_ALIGN n))) d' = take (unat (RT_ALIGN n)) d \<and> holds h' ((f(a := None))(r \<mapsto> d'))))"
    and release_ok: "holds h f \<Longrightarrow> f a = Some d \<Longrightarrow> \<exists>h'. release a h = Some h' \<and> holds h' (f(a := None))"
    and store_ok: "holds h f \<Longrightarrow> f a = Some d \<Longrightarrow> i + length vs \<le> length d \<Longrightarrow> holds (store a i vs h) (f(a \<mapsto> overwrite i vs d))"
    and load_ok: "holds h f \<Longrightarrow> f a = Some d \<Longrightarrow> load a (length d) h = d"
begin

lemma call_ok:
  assumes "holds h f" "legal_call c f"
  shows "\<exists>r h' f'. block_call alloc calloc resize release store c h = Some (r, h') \<and> call_effect c f r f' \<and> holds h' f'"
proof (cases c)
  case (Malloc n)
  then show ?thesis using alloc_ok [OF assms(1), of n] assms(1) by (fastforce simp: block_call_def)
next
  case (Calloc k n)
  then show ?thesis using calloc_ok [OF assms(1), of k n] assms by (fastforce simp: block_call_def)
next
  case (Realloc a n)
  then obtain d where d: "f a = Some d" using assms(2) by auto
  from resize_ok [OF assms(1) d, of n] obtain r h' where r: "resize a n h = Some (r, h')" "r = 0 \<and> h' = h
      \<or> r \<noteq> 0 \<and> (r = a \<or> f r = None) \<and> (\<exists>d'. unat (RT_ALIGN n) \<le> length d'
        \<and> take (min (length d) (unat (RT_ALIGN n))) d' = take (unat (RT_ALIGN n)) d \<and> holds h' ((f(a := None))(r \<mapsto> d')))"
    by blast
  from r(2) show ?thesis
  proof
    assume "r = 0 \<and> h' = h"
    then show ?thesis using r(1) assms(1) Realloc by (intro exI [of _ 0] exI [of _ h] exI [of _ f]) (simp add: block_call_def)
  next
    assume "r \<noteq> 0 \<and> (r = a \<or> f r = None) \<and> (\<exists>d'. unat (RT_ALIGN n) \<le> length d'
        \<and> take (min (length d) (unat (RT_ALIGN n))) d' = take (unat (RT_ALIGN n)) d \<and> holds h' ((f(a := None))(r \<mapsto> d')))"
    then obtain d' where "r \<noteq> 0 \<and> (r = a \<or> f r = None)" "unat (RT_ALIGN n) \<le> length d'"
      "take (min (length d) (unat (RT_ALIGN n))) d' = take (unat (RT_ALIGN n)) d" "holds h' ((f(a := None))(r \<mapsto> d'))" by blast
    then show ?thesis using r(1) d Realloc
      by (intro exI [of _ r] exI [of _ h'] exI [of _ "(f(a := None))(r \<mapsto> d')"]) (auto simp: block_call_def)
  qed
next
  case (Free a)
  then obtain d where d: "f a = Some d" using assms(2) by auto
  then show ?thesis using release_ok [OF assms(1) d] Free by (auto simp: block_call_def)
next
  case (Store a i vs)
  then obtain d where d: "f a = Some d" "i + length vs \<le> length d" using assms(2) by (auto split: option.splits)
  then show ?thesis using store_ok [OF assms(1) d] Store by (auto simp: block_call_def)
qed

lemma release_all_ok:
  assumes "holds h f" "distinct as" "set as \<subseteq> dom f"
  shows "\<exists>h'. release_all release as h = Some h' \<and> holds h' (f |` (- set as))"
  using assms
proof (induction as arbitrary: h f)
  case Nil
  then show ?case by simp
next
  case (Cons a as)
  then obtain d where "f a = Some d" by auto
  then obtain h1 where h1: "release a h = Some h1" "holds h1 (f(a := None))" using release_ok [OF Cons.prems(1)] by blast
  have "set as \<subseteq> dom (f(a := None))" using Cons.prems(2,3) by auto
  then obtain h' where "release_all release as h1 = Some h'" "holds h' ((f(a := None)) |` (- set as))"
    using Cons.IH [OF h1(2)] Cons.prems(2) by (metis distinct.simps(2))
  moreover have "(f(a := None)) |` (- set as) = f |` (- set (a # as))" by (auto simp: restrict_map_def)
  ultimately show ?case using h1(1) by auto
qed

text \<open>A new block does not touch the old ones, and the old ones do not see what is written to it.\<close>

lemma apart:
  assumes "holds h f" "f a = Some d" "alloc n h = Some (r, h')" "r \<noteq> 0" "i + length vs \<le> unat (RT_ALIGN n)"
  shows "load a (length d) (store r i vs h') = d"
proof -
  obtain e where e: "f r = None" "unat (RT_ALIGN n) \<le> length e" "holds h' (f(r \<mapsto> e))"
    using alloc_ok [OF assms(1), of n] assms(3,4) by auto
  have h: "holds (store r i vs h') (f(r \<mapsto> overwrite i vs e))" using store_ok [OF e(3), of r e i vs] e(2) assms(5) by simp
  have "a \<noteq> r" using e(1) assms(2) by auto
  then show ?thesis using load_ok [OF h, of a d] assms(2) by simp
qed

end

definition heap_store :: "u32 \<Rightarrow> nat \<Rightarrow> bytes \<Rightarrow> heap \<Rightarrow> heap" where
  "heap_store a i vs H = H\<lparr>ram := wr (a + of_nat i) vs (ram H)\<rparr>"

definition heap_load :: "u32 \<Rightarrow> nat \<Rightarrow> heap \<Rightarrow> bytes" where
  "heap_load a n H = rd (ram H) a n"

definition heap_do :: "heap_call \<Rightarrow> heap \<Rightarrow> (u32 \<times> heap) option" where
  "heap_do = block_call rt_malloc rt_calloc rt_realloc rt_free heap_store"

lemma calloc_holds:
  assumes "heap_holds H f" "unat (k * n) + 3 < 4294967296"
  shows "\<exists>r H'. rt_calloc k n H = Some (r, H') \<and> (r = 0 \<and> H' = H
    \<or> r \<noteq> 0 \<and> f r = None \<and> (\<exists>d. take (unat (k * n)) d = replicate (unat (k * n)) 0 \<and> heap_holds H' (f(r \<mapsto> d))))"
proof -
  from malloc_holds [OF assms(1), of "k * n"] obtain r H1 where r: "rt_malloc (k * n) H = Some (r, H1)"
    "r = 0 \<and> H1 = H \<or> r \<noteq> 0 \<and> f r = None \<and> (\<exists>d. unat (RT_ALIGN (k * n)) \<le> length d \<and> heap_holds H1 (f(r \<mapsto> d)))" by blast
  show ?thesis
  proof (cases "r = 0")
    case True
    then show ?thesis using r by (simp add: rt_calloc_def)
  next
    case False
    then obtain d where d: "f r = None" "unat (RT_ALIGN (k * n)) \<le> length d" "heap_holds H1 (f(r \<mapsto> d))" using r(2) by auto
    have le: "unat (k * n) \<le> length d" using d(2) unfolding unat_align [OF assms(2)] by linarith
    let ?z = "replicate (unat (k * n)) (0 :: u8)"
    have h: "heap_holds (H1\<lparr>ram := wr r ?z (ram H1)\<rparr>) (f(r \<mapsto> overwrite 0 ?z d))"
      using store_holds [OF d(3), of r d 0 ?z] le by simp
    have c: "rt_calloc k n H = Some (r, H1\<lparr>ram := wr r ?z (ram H1)\<rparr>)" using r(1) False by (simp add: rt_calloc_def)
    have t: "take (unat (k * n)) (overwrite 0 ?z d) = ?z" by (simp add: overwrite_def)
    show ?thesis using c t h d(1) False by blast
  qed
qed

interpretation hp: block_store heap_holds rt_malloc rt_calloc rt_realloc rt_free heap_store heap_load
proof
  show "heap_holds h f \<Longrightarrow> \<exists>r h'. rt_malloc n h = Some (r, h') \<and> (r = 0 \<and> h' = h
      \<or> r \<noteq> 0 \<and> f r = None \<and> (\<exists>d. unat (RT_ALIGN n) \<le> length d \<and> heap_holds h' (f(r \<mapsto> d))))" for h f n
    by (rule malloc_holds)
  show "heap_holds h f \<Longrightarrow> unat (k * n) + 3 < 4294967296 \<Longrightarrow> \<exists>r h'. rt_calloc k n h = Some (r, h') \<and> (r = 0 \<and> h' = h
      \<or> r \<noteq> 0 \<and> f r = None \<and> (\<exists>d. take (unat (k * n)) d = replicate (unat (k * n)) 0 \<and> heap_holds h' (f(r \<mapsto> d))))" for h f k n
    by (rule calloc_holds)
  show "heap_holds h f \<Longrightarrow> f a = Some d \<Longrightarrow> \<exists>r h'. rt_realloc a n h = Some (r, h') \<and> (r = 0 \<and> h' = h
      \<or> r \<noteq> 0 \<and> (r = a \<or> f r = None) \<and> (\<exists>d'. unat (RT_ALIGN n) \<le> length d'
        \<and> take (min (length d) (unat (RT_ALIGN n))) d' = take (unat (RT_ALIGN n)) d \<and> heap_holds h' ((f(a := None))(r \<mapsto> d'))))" for h f a d n
    by (rule realloc_holds)
qed (auto simp: heap_store_def heap_load_def intro: free_holds store_holds heap_holds_rd)

subsection \<open>The properties\<close>

definition demo_heap :: heap where
  "demo_heap = rt_system_heap_init 0x20000001 0x20000103 \<lparr>ram = (\<lambda>_. 0), heap_ptr = 0, heap_end = 0, lfree = 0, heap_sem = 0,
     mem_size_aligned = 0, used_mem = 0, max_mem = 0\<rparr>"

lemma demo_heap_init: "unat (RT_ALIGN 0x20000001) = 0x20000004" "unat (RT_ALIGN_DOWN 0x20000103) = 0x20000100"
  unfolding RT_ALIGN_def RT_ALIGN_DOWN_def align_down by simp_all

lemma demo_heap_holds: "heap_holds demo_heap (\<lambda>_. None)"
  unfolding demo_heap_def by (rule heap_init_holds) (simp_all add: demo_heap_init)

text \<open>Setting up the heap over an area of at least 36 bytes gives a heap with no blocks, whatever was in memory.\<close>

theorem heap_starts_empty:
  assumes "unat (RT_ALIGN begin_addr) + 36 \<le> unat (RT_ALIGN_DOWN end_addr)" "used_mem H = 0"
  shows "heap_holds (rt_system_heap_init begin_addr end_addr H) (\<lambda>_. None)"
  using assms by (rule heap_init_holds)

text \<open>C5: A legal call on a heap comes back without a failed assertion, and does to the blocks of the clients exactly what
  it promises: \<open>rt_malloc\<close> returns null and changes nothing, or a new block at an address not in use; \<open>rt_realloc\<close> keeps
  the first bytes; \<open>rt_free\<close> takes the block away; the contents of all other blocks stay as they were.\<close>

theorem heap_refines_blocks:
  assumes "heap_holds H f" "legal_call c f"
  shows "\<exists>r H' f'. heap_do c H = Some (r, H') \<and> call_effect c f r f' \<and> heap_holds H' f'
    \<and> (\<forall>a d. f' a = Some d \<longrightarrow> heap_load a (length d) H' = d)"
proof -
  obtain r h' f' where "heap_do c H = Some (r, h')" "call_effect c f r f'" "heap_holds h' f'"
    using hp.call_ok [OF assms] unfolding heap_do_def by blast
  then show ?thesis using hp.load_ok by blast
qed

theorem heap_refines_blocks_witness:
  "\<exists>r H' f'. heap_do (Malloc 20) demo_heap = Some (r, H') \<and> call_effect (Malloc 20) (\<lambda>_. None) r f' \<and> heap_holds H' f'
    \<and> (\<forall>a d. f' a = Some d \<longrightarrow> heap_load a (length d) H' = d)"
  by (rule heap_refines_blocks [OF demo_heap_holds]) simp

lemma all_free_single:
  assumes "spaced bs" "lives p bs = []" "bs \<noteq> []"
  shows "\<exists>n. bs = [(n, False)]"
proof -
  obtain n u cs where b: "bs = (n, u) # cs" using assms(3) by (cases bs) auto
  then have u: "\<not> u" using assms(2) by (auto split: if_splits)
  have "cs = []"
  proof (cases cs)
    case (Cons c ds)
    obtain k v where "c = (k, v)" by (cases c)
    then show ?thesis using assms(1,2) u b Cons by (auto split: if_splits)
  qed simp
  then show ?thesis using b u by simp
qed

lemma empty_heap:
  assumes "heap_holds H (\<lambda>_. None)"
  shows "\<exists>b E n. heap_inv 1 H b E 0 [(n, False)] \<and> E = n + 12 \<and> mem_size_aligned H = w32 n \<and> n + 24 < 4294967296 \<and> 12 \<le> n"
proof -
  obtain b E g bs where inv: "heap_inv 1 H b E g bs" and f: "(\<lambda>_. None) = contents (ram H) b (lives 0 bs)"
    using assms unfolding heap_holds_def by blast
  have B: "extent bs = E" "unat b + E + 12 < 4294967296" "24 \<le> E" "mem_size_aligned H = w32 (E - 12)" 
    using inv by (auto simp: heap_inv_def geo_def blocks_def)
  have "lives 0 bs = []"
  proof (rule ccontr)
    assume "lives 0 bs \<noteq> []"
    then obtain d n where "(d, n) \<in> set (lives 0 bs)" by (cases "lives 0 bs") auto
    then have "contents (ram H) b (lives 0 bs) (off b d) = Some (rd (ram H) (off b d) n)"
      using contents_iff [OF refl, of b bs "ram H" "off b d"] B by auto
    then show False using f by (metis option.distinct(1))
  qed
  moreover have "bs \<noteq> []" "spaced bs" "snd (hd bs) \<or> g = 0" using inv B(1,3) by (auto simp: heap_inv_def)
  ultimately obtain n where "bs = [(n, False)]" "g = 0" using all_free_single [of bs 0] by auto
  then show ?thesis using inv B by (intro exI [of _ b] exI [of _ E] exI [of _ n]) auto
qed

lemma whole_heap_grants:
  assumes "heap_holds H (\<lambda>_. None)" "0 < sz" "unat (RT_ALIGN sz) < unat (mem_size_aligned H)" "12 < unat (mem_size_aligned H)"
  shows "\<exists>r H' d. rt_malloc sz H = Some (r, H') \<and> r \<noteq> 0 \<and> unat (RT_ALIGN sz) \<le> length d \<and> heap_holds H' [r \<mapsto> d]"
proof -
  from empty_heap [OF assms(1)] obtain b E n where i: "heap_inv 1 H b E 0 [(n, False)]" "E = n + 12" 
    "mem_size_aligned H = w32 n" "n + 24 < 4294967296" "12 \<le> n" by blast
  have sn: "unat (RT_ALIGN sz) < n" "12 < n" using assms(3,4) i by (auto simp: unat_w32)
  then have "request sz < n" by (simp add: request_def)
  then have ft: "fit E (request sz) 0 [(n, False)] = Some ([], n, [])" using i by simp
  obtain H' where H': "rt_malloc sz H = Some (off b 12, H')"
    using rt_malloc_some [of H b E 0 "[]" "[(n, False)]" sz "[]" n "[]" "request sz" 0] i ft sn assms(2) by auto
  have "off b 12 \<noteq> 0" using heap_inv_bounds [OF i(1)] i(2) by (auto simp: unat_off dest: arg_cong [of _ _ unat])
  then show ?thesis using H' malloc_holds [OF assms(1), of sz] by auto
qed

text \<open>The place of the heap does not change.\<close>

definition same_place :: "heap \<Rightarrow> heap \<Rightarrow> bool" where
  "same_place H H' = (heap_ptr H' = heap_ptr H \<and> mem_size_aligned H' = mem_size_aligned H)"

lemma plug_place: "same_place H (plug_forward m H)" "same_place H (plug_backward m H)"
  by (simp_all add: plug_forward_def plug_backward_def set_mem_def same_place_def Let_def)

lemma plug_holes_place: "plug_holes m H = Some H' \<Longrightarrow> same_place H H'"
  using plug_place(1) [of H m] plug_place(2) [of "plug_forward m H" m] by (simp add: plug_holes_def same_place_def split: if_splits)

lemma rt_free_place:
  assumes "rt_free a H = Some H'"
  shows "same_place H H'"
proof (cases "a = 0")
  case True
  then show ?thesis using assms by (simp add: rt_free_def same_place_def)
next
  case False
  let ?m = "a - SIZEOF_STRUCT_MEM"
  obtain H1 where t: "take_heap H = Some H1" using assms False by (auto simp: rt_free_def Let_def split: if_splits bind_splits)
  define H2 where "H2 = set_mem ?m (\<lambda>h. h\<lparr>hm_used := 0, hm_magic := HEAP_MAGIC\<rparr>) H1"
  define H3 where "H3 = (if ?m < lfree H2 then H2\<lparr>lfree := ?m\<rparr> else H2)"
  define H4 where "H4 = H3\<lparr>used_mem := used_mem H3 - (hm_next (hdr (ram H3) ?m) - (?m - heap_ptr H3))\<rparr>"
  obtain H5 where h: "plug_holes ?m H4 = Some H5" "H' = release_heap H5"
    using assms False t by (auto simp: rt_free_def Let_def H2_def [symmetric] H3_def [symmetric] H4_def [symmetric] split: if_splits bind_splits)
  have "same_place H H4" using t by (auto simp: H4_def H3_def H2_def same_place_def take_heap_def set_mem_def split: if_splits)
  then show ?thesis using plug_holes_place [OF h(1)] h(2) by (simp add: same_place_def release_heap_def)
qed

lemma release_all_place: "release_all rt_free as H = Some H' \<Longrightarrow> same_place H H'"
proof (induction as arbitrary: H)
  case (Cons a as)
  then obtain H1 where "rt_free a H = Some H1" "release_all rt_free as H1 = Some H'" by (auto split: bind_splits)
  then show ?case using Cons.IH [of H1] rt_free_place [of a H H1] by (simp add: same_place_def)
qed (simp add: same_place_def)

text \<open>C20: When the clients free all their blocks, in whatever order, the heap is whole again: \<open>rt_free\<close> has joined the free
  memory to one free block that reaches from the start to the end, nothing counts as used, the search starts at the first
  block, and every request smaller than the heap is granted.\<close>

theorem freed_heap_is_whole:
  assumes "heap_holds H f" "distinct as" "set as = dom f"
  shows "\<exists>H'. release_all rt_free as H = Some H' \<and> used_mem H' = 0 \<and> lfree H' = heap_ptr H'
    \<and> heap_ptr H' = heap_ptr H \<and> mem_size_aligned H' = mem_size_aligned H
    \<and> mem_at H' 0 = \<lparr>hm_magic = HEAP_MAGIC, hm_used = 0, hm_next = mem_size_aligned H + SIZEOF_STRUCT_MEM, hm_prev = 0\<rparr>
    \<and> heap_ptr H' + (mem_size_aligned H + SIZEOF_STRUCT_MEM) = heap_end H'
    \<and> (\<forall>sz. 0 < sz \<and> unat (RT_ALIGN sz) < unat (mem_size_aligned H) \<and> 12 < unat (mem_size_aligned H)
        \<longrightarrow> (\<exists>r H2 d. rt_malloc sz H' = Some (r, H2) \<and> r \<noteq> 0 \<and> unat (RT_ALIGN sz) \<le> length d \<and> heap_holds H2 [r \<mapsto> d]))"
proof -
  have "f |` (- set as) = (\<lambda>_. None)" using assms(3) by (auto simp: restrict_map_def fun_eq_iff)
  then obtain H' where h: "release_all rt_free as H = Some H'" "heap_holds H' (\<lambda>_. None)"
    using hp.release_all_ok [OF assms(1,2)] assms(3) by auto
  have p: "heap_ptr H' = heap_ptr H" "mem_size_aligned H' = mem_size_aligned H" using release_all_place [OF h(1)] by (simp_all add: same_place_def)
  from empty_heap [OF h(2)] obtain b E n where i: "heap_inv 1 H' b E 0 [(n, False)]" "E = n + 12" "mem_size_aligned H' = w32 n" by blast
  have g: "used_mem H' = 0" "lfree H' = heap_ptr H'" "blocks (ram H') b E ([] @ [(n, False)])" "heap_ptr H' = b" "heap_end H' = off b E"
    using i(1) by (simp_all add: heap_inv_def geo_def w32_def off_def)
  have nx: "w32 (12 + n) = mem_size_aligned H + SIZEOF_STRUCT_MEM" using i(3) p(2) by (simp add: w32_def SIZEOF_STRUCT_MEM_def)
  have "mem_at H' 0 = \<lparr>hm_magic = HEAP_MAGIC, hm_used = 0, hm_next = mem_size_aligned H + SIZEOF_STRUCT_MEM, hm_prev = 0\<rparr>"
    using blocks_hdr [OF g(3)] by (simp add: block_hdr_def mem_at_def g(4) off_def nx) (simp add: w32_def)
  moreover have "heap_ptr H' + (mem_size_aligned H + SIZEOF_STRUCT_MEM) = heap_end H'"
    unfolding nx [symmetric] g(4,5) i(2) by (simp add: off_def w32_def add.commute)
  ultimately show ?thesis using h(1) g(1,2) p whole_heap_grants [OF h(2), unfolded p(2)] by (intro exI [of _ H'] conjI allI impI) (simp_all only:)
qed

lemma demo_heap_size: "mem_size_aligned demo_heap = 228"
proof -
  have "heap_inv 1 demo_heap (RT_ALIGN 0x20000001) (unat (RT_ALIGN_DOWN 0x20000103) - unat (RT_ALIGN 0x20000001) - 12) 0
     [(unat (RT_ALIGN_DOWN 0x20000103) - unat (RT_ALIGN 0x20000001) - 24, False)]"
    unfolding demo_heap_def by (rule heap_init_inv [OF refl refl]) (simp_all add: demo_heap_init)
  then show ?thesis by (simp add: demo_heap_init heap_inv_def geo_def w32_def)
qed

text \<open>A heap with two blocks, of which the first is freed first.\<close>

lemma demo_two_blocks:
  "\<exists>a b H1 H2 f. rt_malloc 20 demo_heap = Some (a, H1) \<and> rt_malloc 30 H1 = Some (b, H2) \<and> a \<noteq> b \<and> b \<noteq> 0 \<and> heap_holds H2 f \<and> dom f = {a, b}
    \<and> mem_size_aligned H2 = 228"
proof -
  let ?b = "RT_ALIGN 0x20000001"
  have i: "heap_inv 1 demo_heap ?b 240 0 ([] @ [(228, False)])" 
    using heap_init_inv [OF refl refl, of "0x20000001" "0x20000103"] unfolding demo_heap_def by (simp add: demo_heap_init)
  have r: "request 20 = 20" "request 30 = 32" "unat (RT_ALIGN 20) = 20" "unat (RT_ALIGN 30) = 32"
    unfolding request_def RT_ALIGN_def align_down by simp_all
  have f1: "fit 240 (request 20) 0 [(228, False)] = Some ([], 228, [])" "fit 240 (request 30) 32 [(196, False)] = Some ([], 196, [])" by (simp_all add: r)
  have p: "20 + 24 \<le> (228 :: nat)" "32 + 24 \<le> (196 :: nat)" by simp_all
  have l: "unat (RT_ALIGN 20) + 12 \<le> 240" "unat (RT_ALIGN 30) + 12 \<le> 240" unfolding r by simp_all
  obtain H1 where h1: "rt_malloc 20 demo_heap = Some (off ?b (0 + 12), H1)" "heap_inv 1 H1 ?b 240 (next_free 0 0 (place 20 228 @ [])) ([] @ [] @ place 20 228 @ [])"
    using rt_malloc_some [OF i _ _ _ l(1) f1(1) r(1) [symmetric], of 0] by auto
  have i1: "heap_inv 1 H1 ?b 240 32 ([(20, True)] @ [(196, False)])" using h1(2) by (simp add: place_def next_free_def)
  obtain H2 where h2: "rt_malloc 30 H1 = Some (off ?b (32 + 12), H2)" "heap_inv 1 H2 ?b 240 (next_free 32 32 (place 32 196 @ [])) ([(20, True)] @ [] @ place 32 196 @ [])"
    using rt_malloc_some [OF i1 _ _ _ l(2) f1(2) r(2) [symmetric], of 32] by auto
  have i2: "heap_inv 1 H2 ?b 240 76 [(20, True), (32, True), (152, False)]" using h2(2) by (simp add: place_def next_free_def)
  have "dom (contents (ram H2) ?b (lives 0 [(20, True), (32, True), (152, False)])) = {off ?b 12, off ?b (32 + 12)}"
    by (auto simp: contents_def)
  moreover have "off ?b 12 \<noteq> off ?b (32 + 12)" by (simp add: off_def)
  moreover have "off ?b (32 + 12) \<noteq> 0" using unat_off [of ?b "32 + 12"] by (auto simp: demo_heap_init)
  moreover have "mem_size_aligned H2 = 228" using i2 by (simp add: heap_inv_def geo_def w32_def)
  ultimately show ?thesis using h1(1) h2(1) heap_holdsI [OF i2] 
    unfolding add_0
    by (intro exI [of _ "off ?b 12"] exI [of _ "off ?b (32 + 12)"] exI [of _ H1] exI [of _ H2]
      exI [of _ "contents (ram H2) ?b (lives 0 [(20, True), (32, True), (152, False)])"] conjI) assumption+
qed

theorem freed_heap_is_whole_witness:
  "\<exists>a b H1 H2 H3 H'. rt_malloc 20 demo_heap = Some (a, H1) \<and> rt_malloc 30 H1 = Some (b, H2) \<and> rt_free a H2 = Some H3 \<and> rt_free b H3 = Some H'
    \<and> used_mem H' = 0 \<and> hm_used (mem_at H' 0) = 0 \<and> hm_next (mem_at H' 0) = 240"
proof -
  obtain a b H1 H2 f where h: "rt_malloc 20 demo_heap = Some (a, H1)" "rt_malloc 30 H1 = Some (b, H2)" "a \<noteq> b" "heap_holds H2 f" "dom f = {a, b}"
    "mem_size_aligned H2 = 228" using demo_two_blocks by blast
  have "distinct [a, b]" "set [a, b] = dom f" using h(3,5) by simp_all
  from freed_heap_is_whole [OF h(4) this] show ?thesis using h(1,2,6) by (auto simp: SIZEOF_STRUCT_MEM_def split: bind_splits)
qed

text \<open>The size of a request is rounded up without regard to overflow: a request for nearly the whole address space is
  granted with a block of 12 bytes.\<close>

theorem malloc_size_wraps:
  assumes "heap_holds H (\<lambda>_. None)" "36 < unat (mem_size_aligned H)" "0xFFFFFFFC < sz"
  shows "\<exists>r H' d. rt_malloc sz H = Some (r, H') \<and> r \<noteq> 0 \<and> heap_holds H' [r \<mapsto> d] \<and> length d = 12"
proof -
  from empty_heap [OF assms(1)] obtain b E n where i: "heap_inv 1 H b E 0 [(n, False)]" "E = n + 12" 
    "mem_size_aligned H = w32 n" "n + 24 < 4294967296" by blast
  have n: "36 < n" using assms(2) i by (simp add: unat_w32)
  have z: "RT_ALIGN sz = 0" using assms(3) by (intro align_wraps) (simp add: word_less_nat_alt)
  then have rq: "12 = request sz" by (simp add: request_def)
  have nz: "sz \<noteq> 0" using assms(3) by auto
  have inv: "heap_inv 1 H b E 0 ([] @ [(n, False)])" using i(1) by simp
  have ft: "fit E (request sz) 0 [(n, False)] = Some ([], n, [])" using n i(2) by (simp flip: rq)
  from rt_malloc_some [OF inv _ _ nz _ ft rq, of 0]
  obtain H' where H': "rt_malloc sz H = Some (off b 12, H')" "heap_inv 1 H' b E (next_free 0 0 (place 12 n @ [])) (place 12 n @ [])"
    using z i(2) by auto
  have "lives 0 (place 12 n @ []) = [(12, 12)]" using n by (simp add: place_def)
  then have "heap_holds H' [off b 12 \<mapsto> rd (ram H') (off b 12) 12]" using heap_holdsI [OF H'(2)] by (simp add: contents_def)
  moreover have "off b 12 \<noteq> 0" using heap_inv_bounds [OF i(1)] i(2) by (auto simp: unat_off dest: arg_cong [of _ _ unat])
  ultimately show ?thesis using H'(1) by (intro exI [of _ "off b 12"] exI [of _ H'] exI [of _ "rd (ram H') (off b 12) 12"]) (simp only: length_rd simp_thms not_False_eq_True)
qed

theorem malloc_size_wraps_witness:
  "\<exists>r H' d. rt_malloc 0xFFFFFFFE demo_heap = Some (r, H') \<and> r \<noteq> 0 \<and> heap_holds H' [r \<mapsto> d] \<and> length d = 12"
  by (rule malloc_size_wraps [OF demo_heap_holds]) (simp_all add: demo_heap_size)

text \<open>Shrinking a block does not move the start of the search: when the heap was full, the memory given back by
  \<open>rt_realloc\<close> is never found again by \<open>rt_malloc\<close>, whatever the size.\<close>

theorem shrunk_memory_is_lost:
  assumes "heap_holds H (\<lambda>_. None)" "48 < unat (mem_size_aligned H)"
  shows "\<exists>r H1 H2. rt_malloc (mem_size_aligned H - 4) H = Some (r, H1) \<and> r \<noteq> 0 \<and> rt_realloc r 12 H1 = Some (r, H2)
    \<and> used_mem H2 = 24 \<and> (\<forall>sz. rt_malloc sz H2 = Some (0, H2))"
proof -
  from empty_heap [OF assms(1)] obtain b E n where i: "heap_inv 1 H b E 0 [(n, False)]" "E = n + 12" 
    "mem_size_aligned H = w32 n" "n + 24 < 4294967296" by blast
  have n: "48 < n" "4 dvd n" using assms(2) i by (auto simp: unat_w32 heap_inv_def blocks_def)
  define s where "s = n - 4"
  have sz: "mem_size_aligned H - 4 = w32 s" using n by (simp add: i(3) s_def w32_def of_nat_diff)
  have us: "unat (w32 s) = s" using i(4) by (simp add: unat_w32 s_def)
  have "4 dvd s" using n by (simp add: s_def)
  then have "(s + 3) div 4 * 4 = s" by presburger
  then have al: "unat (RT_ALIGN (w32 s)) = s" using unat_align [of "w32 s"] us i(4) by (simp add: s_def)
  have rq: "request (w32 s) = s" unfolding request_def al using n by (simp add: s_def)
  have "w32 s \<noteq> 0" using us n by (auto simp: s_def)
  then obtain H1 where H1: "rt_malloc (w32 s) H = Some (off b 12, H1)" "heap_inv 1 H1 b E (next_free 0 0 (place s n @ [])) (place s n @ [])"
    using rt_malloc_some [of H b E 0 "[]" "[(n, False)]" "w32 s" "[]" n "[]" s 0] i n al rq by (auto simp: s_def)
  have inv1: "heap_inv 1 H1 b E E ([] @ (n, True) # [])" 
  proof -
    have "\<not> s + 24 \<le> n" using n by (simp add: s_def)
    then show ?thesis using H1(2) i(2) by (simp add: place_def next_free_def add.commute)
  qed
  have al12: "12 = unat (RT_ALIGN 12)" unfolding RT_ALIGN_def align_down by simp
  have zs: "[(12, True), (n - 24, False)] = merged ([] @ [(12, True)]) (n - 12 - 12) []" "E = merged_free E ([] @ [(12, True)]) (n - 12 - 12) []"
    by (simp_all add: merged_def merged_free_def bwd_def fwd_free_def bwd_free_def)
  obtain H3 H2 where H2: "plug_holes (off b (0 + 12 + 12)) (link_back (w32 (0 + 12 + 12)) (cut_block (w32 0) (w32 12)
      (H1\<lparr>heap_sem := 0, used_mem := used_mem H1 - w32 (n - 12)\<rparr>))) = Some H3" "release_heap H3 = H2"
    "heap_inv 1 H2 b E E [(12, True), (n - 24, False)]"
    using shrink_ok [OF inv1 _ _ _ zs, of 0] n by auto
  have "rt_realloc (off b 12) 12 H1 = Some (off b 12, H2)" "off b 12 \<noteq> 0"
    using rt_realloc_cases [OF inv1 _ al12, of 0 "off b 12"] H2(1,2) n i(2) by auto
  moreover have "used_mem H2 = 24" using H2(3) by (simp add: heap_inv_def w32_def)
  moreover have "rt_malloc z H2 = Some (0, H2)" for z
    using rt_malloc_none [of H2 b E E "[(12, True), (n - 24, False)]" "[]" z] H2(3) i(2) n by simp
  ultimately show ?thesis using H1(1) sz by auto
qed

theorem shrunk_memory_is_lost_witness:
  "\<exists>r H1 H2. rt_malloc (mem_size_aligned demo_heap - 4) demo_heap = Some (r, H1) \<and> r \<noteq> 0 \<and> rt_realloc r 12 H1 = Some (r, H2)
    \<and> used_mem H2 = 24 \<and> (\<forall>sz. rt_malloc sz H2 = Some (0, H2))"
  by (rule shrunk_memory_is_lost [OF demo_heap_holds]) (simp add: demo_heap_size)

end
