(* ===== verification/EspCmd.thy ===== *)
theory EspCmd imports WifiThread DeviceConfig begin

text \<open>esp8266_cmd.c and the thread of wifi_thread.c that sets the WiFi module up: a command is sent as a packet,
  then the calling thread polls once a millisecond, at most a thousand times, whether the receiving thread has
  taken a packet in.  What the module sends in each millisecond is the argument \<open>arrive\<close>; the receiving thread
  works it off while the caller sleeps.  Results are \<open>None\<close> where a null pointer is read or a buffer overrun.
  Printing is left out.\<close>

definition CMD_GET_SDK_VERSION :: u8 where "CMD_GET_SDK_VERSION = 1"
definition CMD_GET_FLASH_SIZE_MAP :: u8 where "CMD_GET_FLASH_SIZE_MAP = 2"
definition CMD_WIFI_GET_IP_INFO :: u8 where "CMD_WIFI_GET_IP_INFO = 3"
definition CMD_WIFI_GET_MACADDR :: u8 where "CMD_WIFI_GET_MACADDR = 4"
definition CMD_GET_DEVICE_LIST :: u8 where "CMD_GET_DEVICE_LIST = 5"
definition CMD_SERVER_ADDR_SET :: u8 where "CMD_SERVER_ADDR_SET = 7"
definition CMD_MESH_GROUP_ID_SET :: u8 where "CMD_MESH_GROUP_ID_SET = 8"
definition CMD_ROUTER_SET :: u8 where "CMD_ROUTER_SET = 9"
definition CMD_MESH_WIFI_SET :: u8 where "CMD_MESH_WIFI_SET = 10"
definition CMD_MESH_INIT :: u8 where "CMD_MESH_INIT = 11"

text \<open>The state: what the receiving thread keeps, and the server commands with the sent frames.  The
  surroundings of a command: the frames that arrive, and whether memory can be had for its buffer.\<close>

type_synonym 's wifi = "wifi_rx \<times> 's srv"

record cmd_env =
  arrive :: "nat \<Rightarrow> bytes list"
  cmd_mem :: bool

subsection \<open>Waiting for the answer\<close>

fun wait_loop :: "'s plat \<Rightarrow> srv_env \<Rightarrow> cmd_env \<Rightarrow> nat \<Rightarrow> nat \<Rightarrow> 's wifi \<Rightarrow> (bool \<times> 's wifi) option" where
  "wait_loop P E A 0 k S = Some (False, S)"
| "wait_loop P E A (Suc time) k (w, st) =
     (if is_recv_wifi_pack w then Some (True, w\<lparr>is_recv_wifi_pack := False\<rparr>, st)
      else case wifi_thread_run P E (arrive A k) (w, st) of None \<Rightarrow> None
        | Some S1 \<Rightarrow> if time = 0 then Some (False, S1) else wait_loop P E A time (Suc k) S1)"

definition wait_ack :: "'s plat \<Rightarrow> srv_env \<Rightarrow> cmd_env \<Rightarrow> u8 \<Rightarrow> 's wifi \<Rightarrow> (int \<times> 's wifi) option" where
  "wait_ack P E A cmd S = (case wait_loop P E A 1000 0 S of None \<Rightarrow> None
     | Some (False, S1) \<Rightarrow> Some (-1, S1)
     | Some (True, (w, st)) \<Rightarrow>
         if wp_cmd (wifi_pack_recv w) \<noteq> cmd then Some (-2, (w, st))
         else if wp_data (wifi_pack_recv w) = None then None
         else if take 3 (wifi_data w) = map (\<lambda>c. of_nat (of_char c)) ''err'' then Some (-3, (w, st))
         else Some (0, (w, st)))"

text \<open>The steps all commands begin with: forget an earlier packet, send, wait.\<close>

definition esp_command :: "'s plat \<Rightarrow> srv_env \<Rightarrow> cmd_env \<Rightarrow> u8 \<Rightarrow> u16 \<Rightarrow> bytes \<Rightarrow> 's wifi \<Rightarrow> (int \<times> 's wifi) option" where
  "esp_command P E A cmd n d S = (case S of (w, st) \<Rightarrow>
     wait_ack P E A cmd (w\<lparr>is_recv_wifi_pack := False\<rparr>,
       st\<lparr>sp_tx := snd (wifi_send P (se_wifi E) cmd n d (sp_tx st))\<rparr>))"

subsection \<open>Questions\<close>

definition test_hspi :: "'s plat \<Rightarrow> srv_env \<Rightarrow> cmd_env \<Rightarrow> 's wifi \<Rightarrow> (int \<times> 's wifi) option" where
  "test_hspi P E A S = esp_command P E A CMD_RETURN_RECV 0 [] S"

text \<open>The length and data of the packet that was taken in.\<close>

definition got_len :: "'s wifi \<Rightarrow> nat" where "got_len S = unat (wp_lenth (wifi_pack_recv (fst S)))"
definition got :: "'s wifi \<Rightarrow> bytes" where "got S = wifi_data (fst S)"

text \<open>The buffers of the caller come as arguments and go back as results; a missing one is a null pointer.\<close>

definition sdk_version_get :: "'s plat \<Rightarrow> srv_env \<Rightarrow> cmd_env \<Rightarrow> bytes option \<Rightarrow> u16 option \<Rightarrow> 's wifi
    \<Rightarrow> (int \<times> bytes option \<times> u16 option \<times> 's wifi) option" where
  "sdk_version_get P E A p_ver p_lenth S = (if p_ver = None \<or> p_lenth = None then Some (-1, p_ver, p_lenth, S)
     else case esp_command P E A CMD_GET_SDK_VERSION 0 [] S of None \<Rightarrow> None
       | Some (r, S1) \<Rightarrow> if r < 0 then Some (r, p_ver, p_lenth, S1)
           else if got_len S1 + 1 > length (the p_ver) then None
           else Some (0, Some (overwrite 0 (take (got_len S1) (got S1) @ [0]) (the p_ver)), Some (of_nat (got_len S1)), S1))"

definition get_flash_size_map :: "'s plat \<Rightarrow> srv_env \<Rightarrow> cmd_env \<Rightarrow> u8 option \<Rightarrow> 's wifi \<Rightarrow> (int \<times> u8 option \<times> 's wifi) option" where
  "get_flash_size_map P E A p S = (if p = None then Some (-1, p, S)
     else case esp_command P E A CMD_GET_FLASH_SIZE_MAP 0 [] S of None \<Rightarrow> None
       | Some (r, S1) \<Rightarrow> if r < 0 then Some (r, p, S1)
           else if got_len S1 \<noteq> 1 then Some (-3, p, S1) else Some (0, Some (got S1 ! 0), S1))"

record ip_info =
  ip_addr :: bytes
  ip_netmask :: bytes
  ip_gw :: bytes

definition ip_info_of :: "bytes \<Rightarrow> ip_info" where
  "ip_info_of d = \<lparr>ip_addr = window 0 4 d, ip_netmask = window 4 4 d, ip_gw = window 8 4 d\<rparr>"

definition wifi_ip_get :: "'s plat \<Rightarrow> srv_env \<Rightarrow> cmd_env \<Rightarrow> ip_info option \<Rightarrow> ip_info option \<Rightarrow> 's wifi
    \<Rightarrow> (int \<times> ip_info option \<times> ip_info option \<times> 's wifi) option" where
  "wifi_ip_get P E A p q S = (if p = None \<or> q = None then Some (-1, p, q, S)
     else case esp_command P E A CMD_WIFI_GET_IP_INFO 0 [] S of None \<Rightarrow> None
       | Some (r, S1) \<Rightarrow> if r < 0 then Some (r, p, q, S1)
           else if got_len S1 \<noteq> 24 then Some (-3, p, q, S1)
           else Some (0, Some (ip_info_of (got S1)), Some (ip_info_of (drop 12 (got S1))), S1))"

definition wifi_mac_addr_get :: "'s plat \<Rightarrow> srv_env \<Rightarrow> cmd_env \<Rightarrow> bytes option \<Rightarrow> bytes option \<Rightarrow> 's wifi
    \<Rightarrow> (int \<times> bytes option \<times> bytes option \<times> 's wifi) option" where
  "wifi_mac_addr_get P E A p q S = (if p = None \<or> q = None then Some (-1, p, q, S)
     else case esp_command P E A CMD_WIFI_GET_MACADDR 0 [] S of None \<Rightarrow> None
       | Some (r, S1) \<Rightarrow> if r < 0 then Some (r, p, q, S1)
           else if got_len S1 \<noteq> 12 then Some (-3, p, q, S1)
           else Some (0, Some (window 0 6 (got S1)), Some (window 6 6 (got S1)), S1))"

text \<open>The list of devices stays in the receive buffer, from the offset \<open>ml_list\<close> on.\<close>

record mesh_device_list_type =
  ml_size :: u16
  ml_scale :: u16
  ml_root :: bytes
  ml_list :: nat

definition device_list_get :: "'s plat \<Rightarrow> srv_env \<Rightarrow> cmd_env \<Rightarrow> mesh_device_list_type option \<Rightarrow> 's wifi
    \<Rightarrow> (int \<times> mesh_device_list_type option \<times> 's wifi) option" where
  "device_list_get P E A p S = (if p = None then Some (-1, p, S)
     else case esp_command P E A CMD_GET_DEVICE_LIST 0 [] S of None \<Rightarrow> None
       | Some (r, S1) \<Rightarrow> if r < 0 then Some (r, p, S1)
           else let n = wp_lenth (wifi_pack_recv (fst S1)) in
             Some (0, Some \<lparr>ml_size = n, ml_scale = n div 6, ml_root = window 0 6 (got S1), ml_list = PAR_LENTH + 6\<rparr>, S1))"

subsection \<open>Settings\<close>

definition server_addr_set :: "'s plat \<Rightarrow> srv_env \<Rightarrow> cmd_env \<Rightarrow> bytes option \<Rightarrow> u16 \<Rightarrow> 's wifi \<Rightarrow> (int \<times> 's wifi) option" where
  "server_addr_set P E A ip port S = (case ip of None \<Rightarrow> Some (-1, S)
     | Some b \<Rightarrow> esp_command P E A CMD_SERVER_ADDR_SET 6 (take 4 b @ le16 port) S)"

definition mesh_group_id_set :: "'s plat \<Rightarrow> srv_env \<Rightarrow> cmd_env \<Rightarrow> bytes option \<Rightarrow> 's wifi \<Rightarrow> (int \<times> 's wifi) option" where
  "mesh_group_id_set P E A p S = (case p of None \<Rightarrow> Some (-1, S)
     | Some b \<Rightarrow> esp_command P E A CMD_MESH_GROUP_ID_SET 6 b S)"

definition router_set :: "'s plat \<Rightarrow> srv_env \<Rightarrow> cmd_env \<Rightarrow> bytes option \<Rightarrow> bytes option \<Rightarrow> u8 \<Rightarrow> bytes option \<Rightarrow> 's wifi
    \<Rightarrow> (int \<times> 's wifi) option" where
  "router_set P E A ssid passwd auth mac S = (if ssid = None \<or> passwd = None \<or> mac = None \<or> \<not> cmd_mem A then Some (-1, S)
     else esp_command P E A CMD_ROUTER_SET (33 + 257 + 1 + 6)
       (take 33 (the ssid) @ take 257 (the passwd) @ [auth] @ take 6 (the mac)) S)"

definition mesh_wifi_set :: "'s plat \<Rightarrow> srv_env \<Rightarrow> cmd_env \<Rightarrow> bytes option \<Rightarrow> bytes option \<Rightarrow> 's wifi \<Rightarrow> (int \<times> 's wifi) option" where
  "mesh_wifi_set P E A ssid passwd S = (if ssid = None \<or> passwd = None \<or> \<not> cmd_mem A then Some (-1, S)
     else esp_command P E A CMD_MESH_WIFI_SET (33 + 257) (take 33 (the ssid) @ take 257 (the passwd)) S)"

definition mesh_init :: "'s plat \<Rightarrow> srv_env \<Rightarrow> cmd_env \<Rightarrow> 's wifi \<Rightarrow> (int \<times> 's wifi) option" where
  "mesh_init P E A S = esp_command P E A CMD_MESH_INIT 0 [] S"

subsection \<open>Setting the module up\<close>

text \<open>\<open>esp8266_info_get_entry\<close>: the addresses go to the globals \<open>station_addr\<close> and \<open>softap_addr\<close>, then the
  configuration is sent, each part whether or not the ones before were answered.  \<open>A i\<close> are the surroundings of the
  \<open>i\<close>-th command.\<close>

definition info_mac :: "'s plat \<Rightarrow> srv_env \<Rightarrow> cmd_env \<Rightarrow> bytes \<Rightarrow> 's wifi \<Rightarrow> (bytes \<times> 's wifi) option" where
  "info_mac P E A softap S = (case wifi_mac_addr_get P E A (Some (sp_station (snd S))) (Some softap) S of None \<Rightarrow> None
     | Some (r, p, q, (w, st)) \<Rightarrow> Some (the q, (w, if r = 0 then st\<lparr>sp_station := the p\<rparr> else st)))"

definition esp8266_info_get_entry :: "'s plat \<Rightarrow> srv_env \<Rightarrow> (nat \<Rightarrow> cmd_env) \<Rightarrow> device_config \<Rightarrow> bytes \<Rightarrow> 's wifi
    \<Rightarrow> (bytes \<times> 's wifi) option" where
  "esp8266_info_get_entry P E A C softap S = (case info_mac P E (A 0) softap S of None \<Rightarrow> None
     | Some (softap1, S1) \<Rightarrow> (case server_addr_set P E (A 1) (Some (server_ip C)) (server_port C) S1 of None \<Rightarrow> None
     | Some (_, S2) \<Rightarrow> (case mesh_group_id_set P E (A 2) (Some (mesh_group_id C)) S2 of None \<Rightarrow> None
     | Some (_, S3) \<Rightarrow> (case router_set P E (A 3) (Some (router_ssid C)) (Some (router_passwd C)) (router_auth C) (Some (router_bssid C)) S3 of None \<Rightarrow> None
     | Some (_, S4) \<Rightarrow> (case mesh_wifi_set P E (A 4) (Some (mesh_ssid C)) (Some (mesh_passwd C)) S4 of None \<Rightarrow> None
     | Some (_, S5) \<Rightarrow> map_option (\<lambda>(_, S6). (softap1, S6)) (mesh_init P E (A 5) S5))))))"

end
