(* ===== verification/EspProps.thy ===== *)
theory EspProps imports EspCmd ServerProps CheckProps begin

text \<open>The properties of the commands to the WiFi module: an answer that arrives in time is the result, any other packet
  that comes first makes the command fail, and the configuration is sent as the module expects it.\<close>

subsection \<open>Waiting\<close>

lemma wait_idle:
  assumes "\<not> is_recv_wifi_pack w" "\<forall>j. k \<le> j \<and> j < k + m \<longrightarrow> arrive A j = []" "0 < t"
  shows "wait_loop P E A (m + t) k (w, st) = wait_loop P E A t (k + m) (w, st)"
  using assms(2)
proof (induction m arbitrary: k)
  case (Suc m)
  have "wait_loop P E A (m + t) (Suc k) (w, st) = wait_loop P E A t (Suc k + m) (w, st)"
    using Suc.prems by (intro Suc.IH) auto
  then show ?case using assms(1,3) Suc.prems by simp
qed simp

lemma wait_silent:
  assumes "\<not> is_recv_wifi_pack w" "\<forall>j < 1000. arrive A j = []"
  shows "wait_loop P E A 1000 0 (w, st) = Some (False, (w, st))"
proof -
  have "wait_loop P E A (999 + 1) 0 (w, st) = wait_loop P E A 1 (0 + 999) (w, st)"
    using assms by (intro wait_idle) auto
  then show ?thesis using assms by simp
qed

text \<open>The packet taken in during the \<open>k\<close>-th millisecond ends the waiting.\<close>

lemma wait_packet:
  assumes "\<not> is_recv_wifi_pack w" "\<forall>j < k. arrive A j = []" "k < 999"
    "wifi_thread_run P E (arrive A k) (w, st) = Some (w1, st1)" "is_recv_wifi_pack w1"
  shows "wait_loop P E A 1000 0 (w, st) = Some (True, (w1\<lparr>is_recv_wifi_pack := False\<rparr>, st1))"
proof -
  define t where "t = 998 - k"
  have t: "1000 = k + Suc (Suc t)" using assms(3) by (simp add: t_def)
  have "wait_loop P E A (k + Suc (Suc t)) 0 (w, st) = wait_loop P E A (Suc (Suc t)) (0 + k) (w, st)"
    using assms by (intro wait_idle) auto
  then show ?thesis using assms by (simp add: t)
qed

lemma verified_data: "wifi_verify P w = Some (True, w1) \<Longrightarrow> wp_data (wifi_pack_recv w1) = Some PAR_LENTH"
  by (auto simp: wifi_verify_def Let_def split: if_splits)

text \<open>A packet of the module other than one for the terminal, on its way through the link and the receiving thread.\<close>

lemma packet_taken_in:
  assumes "unat lenth \<le> length d" "unat lenth \<le> 5113" "length (we_stack M (tx_calls t)) = 32"
    "we_malloc M (tx_calls t) (unat lenth + PAR_LENTH)"
    "(\<Sum>j\<leftarrow>[0..<spi_num (PAR_LENTH + unat lenth)]. we_delay M (tx_calls t) j) < SPI_TIMEOUT"
    "length (recv_pack (link w)) = RECV_SIZE" "\<not> is_recv_pack (link w)" "cmd \<noteq> CMD_SEND_DATA_TO_MCU"
  shows "\<exists>fs t' w'. wifi_send P M cmd lenth d t = (0, t') \<and> tx_frames t' = tx_frames t @ fs
    \<and> wifi_thread_run P E fs (w, st) = Some (w', st) \<and> is_recv_wifi_pack w' \<and> wp_cmd (wifi_pack_recv w') = cmd
    \<and> wp_lenth (wifi_pack_recv w') = lenth \<and> wp_data (wifi_pack_recv w') = Some PAR_LENTH
    \<and> take (unat lenth) (wifi_data w') = take (unat lenth) d
    \<and> length (recv_pack (link w')) = RECV_SIZE \<and> \<not> is_recv_pack (link w')"
proof -
  obtain fs t' n l w1 where S: "wifi_send P M cmd lenth d t = (0, t')"
    "tx_frames t' = tx_frames t @ fs" "spi_read_all fs (link w) = Some (replicate n (-1) @ [0], l)"
    "wifi_verify P (w\<lparr>link := l\<rparr>) = Some (True, w1)" "is_recv_wifi_pack w1" "wp_cmd (wifi_pack_recv w1) = cmd"
    "wp_lenth (wifi_pack_recv w1) = lenth"
    "take (unat lenth) (wifi_data w1) = take (unat lenth) d" "link w1 = l" "length (recv_pack l) = RECV_SIZE"
    using wifi_send_then_verify [OF assms(1-7), of P cmd] by blast
  have "wifi_thread_run P E fs (w, st) = wifi_packet_in P E (w\<lparr>link := l\<rparr>) st"
    by (rule run_packet [OF S(3)])
  also have "\<dots> = Some (wifi_ready w1, st)" using S(4,6) assms(8) by (simp add: wifi_packet_in_def)
  finally have r: "wifi_thread_run P E fs (w, st) = Some (wifi_ready w1, st)" .
  have "wifi_data (wifi_ready w1) = wifi_data w1" by (simp add: wifi_data_def wifi_ready_def split: option.split)
  then show ?thesis using S r verified_data [OF S(4)]
    by (intro exI [of _ fs] exI [of _ t'] exI [of _ "wifi_ready w1"]) (simp add: wifi_ready_def)
qed

subsection \<open>Answers\<close>

text \<open>The packet \<open>(c, d)\<close> of the module, sent with the surroundings \<open>M\<close> and counter \<open>t\<close>, is the first to arrive, in the
  \<open>k\<close>-th millisecond.\<close>

definition first_packet :: "'s plat \<Rightarrow> wifi_env \<Rightarrow> wifi_tx \<Rightarrow> u8 \<Rightarrow> bytes \<Rightarrow> nat \<Rightarrow> cmd_env \<Rightarrow> bool" where
  "first_packet P M t c d k A = (k < 999 \<and> (\<forall>j < k. arrive A j = []) \<and> length d \<le> 5113
     \<and> tx_frames (snd (wifi_send P M c (of_nat (length d)) d t)) = tx_frames t @ arrive A k
     \<and> length (we_stack M (tx_calls t)) = 32 \<and> we_malloc M (tx_calls t) (length d + PAR_LENTH)
     \<and> (\<Sum>j\<leftarrow>[0..<spi_num (PAR_LENTH + length d)]. we_delay M (tx_calls t) j) < SPI_TIMEOUT)"

definition link_ready :: "wifi_rx \<Rightarrow> bool" where
  "link_ready w = (length (recv_pack (link w)) = RECV_SIZE \<and> \<not> is_recv_pack (link w))"

definition command_sent :: "'s plat \<Rightarrow> srv_env \<Rightarrow> u8 \<Rightarrow> u16 \<Rightarrow> bytes \<Rightarrow> 's srv \<Rightarrow> 's srv" where
  "command_sent P E cmd n x st = st\<lparr>sp_tx := snd (wifi_send P (se_wifi E) cmd n x (sp_tx st))\<rparr>"

lemma command_answered:
  assumes "first_packet P M t c d k A" "c \<noteq> CMD_SEND_DATA_TO_MCU" "link_ready w"
  shows "\<exists>w'. link_ready w' \<and> got_len (w', st) = length d \<and> take (length d) (got (w', st)) = d
    \<and> (c \<noteq> cmd \<longrightarrow> esp_command P E A cmd n x (w, st) = Some (-2, (w', command_sent P E cmd n x st)))
    \<and> (c = cmd \<longrightarrow> esp_command P E A cmd n x (w, st) = Some (if take 3 (got (w', st)) = map (\<lambda>c. of_nat (of_char c)) ''err'' then -3 else 0,
        (w', command_sent P E cmd n x st)))"
proof -
  let ?len = "of_nat (length d) :: u16" and ?w = "w\<lparr>is_recv_wifi_pack := False\<rparr>" and ?st = "command_sent P E cmd n x st"
  have l: "unat ?len = length d" using assms(1) by (intro unat_of_nat_u16) (simp add: first_packet_def)
  have h: "unat ?len \<le> length d" "unat ?len \<le> 5113" "length (we_stack M (tx_calls t)) = 32" "we_malloc M (tx_calls t) (unat ?len + PAR_LENTH)"
    "(\<Sum>j\<leftarrow>[0..<spi_num (PAR_LENTH + unat ?len)]. we_delay M (tx_calls t) j) < SPI_TIMEOUT"
    "length (recv_pack (link ?w)) = RECV_SIZE" "\<not> is_recv_pack (link ?w)"
    using assms(1,3) unfolding l by (simp_all add: first_packet_def link_ready_def)
  obtain fs t' w1 where S: "wifi_send P M c ?len d t = (0, t')" "tx_frames t' = tx_frames t @ fs"
    "wifi_thread_run P E fs (?w, ?st) = Some (w1, ?st)" "is_recv_wifi_pack w1" "wp_cmd (wifi_pack_recv w1) = c"
    "wp_lenth (wifi_pack_recv w1) = ?len" "wp_data (wifi_pack_recv w1) = Some PAR_LENTH"
    "take (unat ?len) (wifi_data w1) = take (unat ?len) d" "length (recv_pack (link w1)) = RECV_SIZE" "\<not> is_recv_pack (link w1)"
    using packet_taken_in [OF h assms(2), of P E ?st] by blast
  have fs: "arrive A k = fs" using assms(1) S(1,2) by (simp add: first_packet_def)
  let ?w' = "w1\<lparr>is_recv_wifi_pack := False\<rparr>"
  have wt: "wait_loop P E A 1000 0 (?w, ?st) = Some (True, (?w', ?st))"
    using assms(1) S(3,4) fs by (intro wait_packet [of _ k]) (auto simp: first_packet_def)
  have ec: "esp_command P E A cmd n x (w, st) = wait_ack P E A cmd (?w, ?st)"
    by (simp add: esp_command_def command_sent_def)
  have dd: "wifi_data ?w' = wifi_data w1" by (simp add: wifi_data_def split: option.split)
  show ?thesis
    unfolding ec wait_ack_def wt using S(5-10) l
    by (intro exI [of _ ?w']) (simp add: link_ready_def got_len_def got_def dd)
qed

definition demo_mac :: bytes where "demo_mac = [0x18, 0xFE, 0x34, 1, 2, 3, 0x1A, 0xFE, 0x34, 1, 2, 3]"

text \<open>What the module sends in a millisecond: a packet of the demonstration.\<close>

definition demo_arrive :: "u8 \<Rightarrow> bytes \<Rightarrow> cmd_env" where
  "demo_arrive c d = \<lparr>arrive = (\<lambda>j. if j = 7 then tx_frames (snd (wifi_send board_plat demo_env c (of_nat (length d)) d \<lparr>tx_calls = 0, tx_frames = []\<rparr>)) else []),
     cmd_mem = True\<rparr>"

lemma demo_first: "length d \<le> 300 \<Longrightarrow> first_packet board_plat demo_env \<lparr>tx_calls = 0, tx_frames = []\<rparr> c d 7 (demo_arrive c d)"
proof -
  assume d: "length d \<le> 300"
  have "spi_num n \<le> n div 31 + 1" "n div 31 \<le> n" for n by (simp_all add: spi_num_def)
  from this(1) [of "PAR_LENTH + length d"] this(2) [of "PAR_LENTH + length d"]
  have "spi_num (PAR_LENTH + length d) \<le> PAR_LENTH + length d + 1" by linarith
  then have n: "spi_num (7 + length d) < 310" "spi_num (length d + 7) < 310" using d by (simp_all add: PAR_LENTH_def add.commute)
  from n show ?thesis using d
    by (simp add: first_packet_def demo_arrive_def demo_env_def PAR_LENTH_def sum_list_triv SPI_TIMEOUT_def)
qed

lemma demo_link: "link_ready demo_rx"
  by (simp add: link_ready_def demo_rx_def)

text \<open>C21: The addresses the module answers with are what \<open>wifi_mac_addr_get\<close> returns, when the answer is the first packet to
  arrive within 999 milliseconds: over the framed link, the receiving thread and the waiting loop.\<close>

theorem mac_addresses_are_fetched:
  assumes "first_packet P M t CMD_WIFI_GET_MACADDR (sta @ ap) k A" "length sta = 6" "length ap = 6"
    "take 3 sta \<noteq> map (\<lambda>c. of_nat (of_char c)) ''err''" "link_ready w"
  shows "\<exists>w'. wifi_mac_addr_get P E A (Some p) (Some q) (w, st)
    = Some (0, Some sta, Some ap, (w', command_sent P E CMD_WIFI_GET_MACADDR 0 [] st)) \<and> link_ready w'"
proof -
  obtain w' where w: "link_ready w'" "got_len (w', st) = length (sta @ ap)" "take (length (sta @ ap)) (got (w', st)) = sta @ ap"
    "esp_command P E A CMD_WIFI_GET_MACADDR 0 [] (w, st) = Some (if take 3 (got (w', st)) = map (\<lambda>c. of_nat (of_char c)) ''err'' then -3 else 0,
        (w', command_sent P E CMD_WIFI_GET_MACADDR 0 [] st))"
    using command_answered [OF assms(1) _ assms(5), where E = E and st = st and cmd = CMD_WIFI_GET_MACADDR and n = 0 and x = "[]"]
    by (auto simp: CMD_WIFI_GET_MACADDR_def CMD_SEND_DATA_TO_MCU_def)
  have g: "take 12 (got (w', st)) = sta @ ap" using w(3) assms(2,3) by simp
  have "take 3 (take 12 (got (w', st))) = take 3 sta" unfolding g using assms(2) by simp
  then have t: "take 3 (got (w', st)) \<noteq> map (\<lambda>c. of_nat (of_char c)) ''err''" using assms(4) by simp
  have "window 0 6 (got (w', st)) = sta" "window 6 6 (got (w', st)) = ap"
    using window_take [of 0 6 12 "got (w', st)"] window_take [of 6 6 12 "got (w', st)"] assms(2,3) g
    by (simp_all add: window_head window_append2)
  then show ?thesis using w(1,2,4) t assms(2,3) by (simp add: wifi_mac_addr_get_def got_len_def got_def)
qed

theorem mac_addresses_are_fetched_witness:
  "\<exists>w'. wifi_mac_addr_get board_plat demo_senv (demo_arrive CMD_WIFI_GET_MACADDR ([0x18, 0xFE, 0x34, 1, 2, 3] @ [0x1A, 0xFE, 0x34, 1, 2, 3]))
      (Some (replicate 6 0)) (Some (replicate 6 0)) (demo_rx, demo_server [])
    = Some (0, Some [0x18, 0xFE, 0x34, 1, 2, 3], Some [0x1A, 0xFE, 0x34, 1, 2, 3], (w', command_sent board_plat demo_senv CMD_WIFI_GET_MACADDR 0 [] (demo_server []))) \<and> link_ready w'"
  by (rule mac_addresses_are_fetched [OF demo_first _ _ _ demo_link]) simp_all

text \<open>A command fails with -2 when another packet of the module comes first, even if its answer follows.\<close>

theorem other_packet_fails_command:
  assumes "first_packet P M t c d k A" "c \<noteq> cmd" "c \<noteq> CMD_SEND_DATA_TO_MCU" "link_ready w"
  shows "\<exists>w'. esp_command P E A cmd n x (w, st) = Some (-2, (w', command_sent P E cmd n x st))"
  using command_answered [OF assms(1,3,4)] assms(2) by blast

theorem other_packet_fails_command_witness:
  "\<exists>w'. esp_command board_plat demo_senv (demo_arrive CMD_MESH_INIT []) CMD_ROUTER_SET 3 [1, 2, 3] (demo_rx, demo_server [])
    = Some (-2, (w', command_sent board_plat demo_senv CMD_ROUTER_SET 3 [1, 2, 3] (demo_server [])))"
  by (rule other_packet_fails_command [OF demo_first _ _ demo_link]) (simp_all add: CMD_MESH_INIT_def CMD_ROUTER_SET_def CMD_SEND_DATA_TO_MCU_def)

subsection \<open>The configuration\<close>

text \<open>What a silent module is sent.\<close>

definition silent :: "cmd_env \<Rightarrow> bool" where
  "silent A = (cmd_mem A \<and> (\<forall>j < 1000. arrive A j = []))"

lemma silent_command:
  assumes "silent A"
  shows "esp_command P E A cmd n x (w, st) = Some (-1, (w\<lparr>is_recv_wifi_pack := False\<rparr>, command_sent P E cmd n x st))"
  using wait_silent [of "w\<lparr>is_recv_wifi_pack := False\<rparr>" A P E "command_sent P E cmd n x st"] assms
  by (simp add: esp_command_def wait_ack_def silent_def command_sent_def)

fun commands_sent :: "'s plat \<Rightarrow> srv_env \<Rightarrow> (u8 \<times> bytes) list \<Rightarrow> 's srv \<Rightarrow> 's srv" where
  "commands_sent P E [] st = st"
| "commands_sent P E ((c, d) # cs) st = commands_sent P E cs (command_sent P E c (of_nat (length d)) d st)"

text \<open>Setting up sends the module the question for its addresses, the address and port of the server, the group, the
  access data of the router and of the mesh, and the start of the mesh, in this order, even when it answers none of them.\<close>

theorem configuration_is_sent:
  assumes "\<forall>i < 6. silent (A i)" "config_wf C"
  shows "\<exists>w'. esp8266_info_get_entry P E A C softap (w, st) = Some (softap, (w', commands_sent P E
    [(CMD_WIFI_GET_MACADDR, []), (CMD_SERVER_ADDR_SET, server_ip C @ le16 (server_port C)), (CMD_MESH_GROUP_ID_SET, mesh_group_id C),
     (CMD_ROUTER_SET, router_ssid C @ router_passwd C @ [router_auth C] @ router_bssid C), (CMD_MESH_WIFI_SET, mesh_ssid C @ mesh_passwd C),
     (CMD_MESH_INIT, [])] st))"
proof -
  have wf: "length (server_ip C) = 4" "length (router_ssid C) = 33" "length (router_passwd C) = 257" "length (router_bssid C) = 6"
    "length (mesh_ssid C) = 33" "length (mesh_passwd C) = 257" "length (mesh_group_id C) = 6" using assms(2) by (simp_all add: config_wf_def)
  have s: "silent (A 0)" "silent (A 1)" "silent (A 2)" "silent (A 3)" "silent (A 4)" "silent (A 5)" using assms(1) by simp_all
  then have m: "cmd_mem (A 3)" "cmd_mem (A 4)" by (simp_all add: silent_def)
  note c = silent_command [OF s(1)] silent_command [OF s(2), unfolded One_nat_def] silent_command [OF s(3)] silent_command [OF s(4)] silent_command [OF s(5)] silent_command [OF s(6)]
  let ?w = "w\<lparr>is_recv_wifi_pack := False\<rparr>"
  have "info_mac P E (A 0) softap (w, st) = Some (softap, (?w, command_sent P E CMD_WIFI_GET_MACADDR 0 [] st))"
    by (simp add: info_mac_def wifi_mac_addr_get_def c)
  moreover have "server_addr_set P E (A (Suc 0)) (Some (server_ip C)) (server_port C) (?w, st)
      = Some (-1, (?w, command_sent P E CMD_SERVER_ADDR_SET 6 (server_ip C @ le16 (server_port C)) st))" for st
    by (simp add: server_addr_set_def c wf)
  moreover have "mesh_group_id_set P E (A 2) (Some (mesh_group_id C)) (?w, st)
      = Some (-1, (?w, command_sent P E CMD_MESH_GROUP_ID_SET 6 (mesh_group_id C) st))" for st
    by (simp add: mesh_group_id_set_def c)
  moreover have "router_set P E (A 3) (Some (router_ssid C)) (Some (router_passwd C)) (router_auth C) (Some (router_bssid C)) (?w, st)
      = Some (-1, (?w, command_sent P E CMD_ROUTER_SET 297 (router_ssid C @ router_passwd C @ [router_auth C] @ router_bssid C) st))" for st
    by (simp add: router_set_def c m wf)
  moreover have "mesh_wifi_set P E (A 4) (Some (mesh_ssid C)) (Some (mesh_passwd C)) (?w, st)
      = Some (-1, (?w, command_sent P E CMD_MESH_WIFI_SET 290 (mesh_ssid C @ mesh_passwd C) st))" for st
    by (simp add: mesh_wifi_set_def c m wf)
  moreover have "mesh_init P E (A 5) (?w, st) = Some (-1, (?w, command_sent P E CMD_MESH_INIT 0 [] st))" for st
    by (simp add: mesh_init_def c)
  ultimately show ?thesis
    by (intro exI [of _ ?w]) (simp add: esp8266_info_get_entry_def wf)
qed

theorem configuration_is_sent_witness:
  "let A = (\<lambda>_. \<lparr>arrive = (\<lambda>_. []), cmd_mem = True\<rparr>) :: nat \<Rightarrow> cmd_env in (\<exists>w'. esp8266_info_get_entry board_plat demo_senv A zero_config (replicate 6 0) (demo_rx, demo_server [])
    = Some (replicate 6 0, (w', commands_sent board_plat demo_senv
    [(CMD_WIFI_GET_MACADDR, []), (CMD_SERVER_ADDR_SET, server_ip zero_config @ le16 (server_port zero_config)), (CMD_MESH_GROUP_ID_SET, mesh_group_id zero_config),
     (CMD_ROUTER_SET, router_ssid zero_config @ router_passwd zero_config @ [router_auth zero_config] @ router_bssid zero_config),
     (CMD_MESH_WIFI_SET, mesh_ssid zero_config @ mesh_passwd zero_config), (CMD_MESH_INIT, [])] (demo_server []))))"
  unfolding Let_def by (rule configuration_is_sent) (simp_all add: silent_def zero_config_wf)

end
