(* ===== verification/FingerPrint.thy ===== *)
theory FingerPrint imports Prelude begin

text \<open>finger_print.c: the driver of the finger print module.  Commands and short answers are frames of eight bytes; a
  long answer or request has a second packet behind the frame.  The two serial ports share the frame buffer, the buffer
  for long answers and the mode; the counters and flags exist once for each port.  What the module sends is given for
  each turn of the waiting loop; the interrupt of the port takes it between two turns.  Waiting for the transmitter is left out,
  and the scratch variables \<open>i\<close>, \<open>CheckSum\<close> and \<open>ret\<close> are local.  Results are \<open>None\<close> where the code writes outside a
  buffer or an interrupt never ends.\<close>

definition ACK_SUCCESS :: u8 where "ACK_SUCCESS = 0"
definition ACK_FAIL :: u8 where "ACK_FAIL = 1"
definition ACK_FULL :: u8 where "ACK_FULL = 4"
definition ACK_NO_USER :: u8 where "ACK_NO_USER = 5"
definition ACK_TIMEOUT :: u8 where "ACK_TIMEOUT = 8"
definition ACK_GO_OUT :: u8 where "ACK_GO_OUT = 0x0F"
definition USER_MAX_CNT :: nat where "USER_MAX_CNT = 1001"
definition CMD_HEAD :: u8 where "CMD_HEAD = 0xF5"
definition CMD_TAIL :: u8 where "CMD_TAIL = 0xF5"
definition CMD_ADD_1 :: u8 where "CMD_ADD_1 = 1"
definition CMD_ADD_2 :: u8 where "CMD_ADD_2 = 2"
definition CMD_ADD_3 :: u8 where "CMD_ADD_3 = 3"
definition CMD_DEL_ONE :: u8 where "CMD_DEL_ONE = 4"
definition CMD_DEL_ALL :: u8 where "CMD_DEL_ALL = 5"
definition CMD_USER_CNT :: u8 where "CMD_USER_CNT = 9"
definition CMD_GETLIM :: u8 where "CMD_GETLIM = 0x0A"
definition CMD_MATCH_ONE :: u8 where "CMD_MATCH_ONE = 0x0B"
definition CMD_MATCH_N :: u8 where "CMD_MATCH_N = 0x0C"
definition CMD_GET_EIGEN :: u8 where "CMD_GET_EIGEN = 0x23"
definition CMD_GET_VER :: u8 where "CMD_GET_VER = 0x26"
definition CMD_COM_LEV :: u8 where "CMD_COM_LEV = 0x28"
definition CMD_GET_USERNUM :: u8 where "CMD_GET_USERNUM = 0x2B"
definition CMD_LP_MODE :: u8 where "CMD_LP_MODE = 0x2C"
definition CMD_SET_READ_ADDMODE :: u8 where "CMD_SET_READ_ADDMODE = 0x2D"
definition CMD_TIMEOUT :: u8 where "CMD_TIMEOUT = 0x2E"
definition CMD_UP_EIGEN :: u8 where "CMD_UP_EIGEN = 0x31"
definition CMD_DOWN_ADD :: u8 where "CMD_DOWN_ADD = 0x41"
definition CMD_DOWN_MATCH_ONE :: u8 where "CMD_DOWN_MATCH_ONE = 0x42"
definition CMD_DOWN_MATCH_N :: u8 where "CMD_DOWN_MATCH_N = 0x43"

lemmas fp_codes = ACK_SUCCESS_def ACK_FAIL_def ACK_FULL_def ACK_NO_USER_def ACK_TIMEOUT_def ACK_GO_OUT_def CMD_HEAD_def
  CMD_TAIL_def CMD_ADD_1_def CMD_ADD_2_def CMD_ADD_3_def CMD_DEL_ONE_def CMD_DEL_ALL_def CMD_USER_CNT_def CMD_GETLIM_def
  CMD_MATCH_ONE_def CMD_MATCH_N_def CMD_GET_EIGEN_def CMD_GET_VER_def CMD_COM_LEV_def CMD_GET_USERNUM_def CMD_LP_MODE_def
  CMD_SET_READ_ADDMODE_def CMD_TIMEOUT_def CMD_UP_EIGEN_def CMD_DOWN_ADD_def CMD_DOWN_MATCH_ONE_def CMD_DOWN_MATCH_N_def

subsection \<open>The state\<close>

datatype usart = USART2 | USART3

text \<open>\<open>show_text\<close> has 32 bytes; the last of the 33 here is the one behind it.  \<open>wire\<close> is what was sent.\<close>

record finger =
  u3receive_short_ok :: bool
  u3receive_long_ok :: bool
  u3receive_len :: nat
  receive_short_ok :: bool
  receive_long_ok :: bool
  receive_len :: nat
  receive_pack :: bytes
  show_text :: bytes
  receiveMode :: bool
  dataLen :: u8
  receiveMore :: bytes
  gTxBuf :: bytes
  wire :: "(usart \<times> u8) list"

definition finger_wf :: "finger \<Rightarrow> bool" where
  "finger_wf F = (length (receive_pack F) = 8 \<and> length (show_text F) = 33 \<and> length (receiveMore F) = 200 \<and> length (gTxBuf F) = 207)"

definition rlen :: "usart \<Rightarrow> finger \<Rightarrow> nat" where
  "rlen u F = (case u of USART2 \<Rightarrow> receive_len F | USART3 \<Rightarrow> u3receive_len F)"

definition set_len :: "usart \<Rightarrow> nat \<Rightarrow> finger \<Rightarrow> finger" where
  "set_len u n F = (case u of USART2 \<Rightarrow> F\<lparr>receive_len := n\<rparr> | USART3 \<Rightarrow> F\<lparr>u3receive_len := n\<rparr>)"

definition short_ok :: "usart \<Rightarrow> finger \<Rightarrow> bool" where
  "short_ok u F = (case u of USART2 \<Rightarrow> receive_short_ok F | USART3 \<Rightarrow> u3receive_short_ok F)"

definition set_short_ok :: "usart \<Rightarrow> bool \<Rightarrow> finger \<Rightarrow> finger" where
  "set_short_ok u b F = (case u of USART2 \<Rightarrow> F\<lparr>receive_short_ok := b\<rparr> | USART3 \<Rightarrow> F\<lparr>u3receive_short_ok := b\<rparr>)"

definition long_ok :: "usart \<Rightarrow> finger \<Rightarrow> bool" where
  "long_ok u F = (case u of USART2 \<Rightarrow> receive_long_ok F | USART3 \<Rightarrow> u3receive_long_ok F)"

definition set_long_ok :: "usart \<Rightarrow> bool \<Rightarrow> finger \<Rightarrow> finger" where
  "set_long_ok u b F = (case u of USART2 \<Rightarrow> F\<lparr>receive_long_ok := b\<rparr> | USART3 \<Rightarrow> F\<lparr>u3receive_long_ok := b\<rparr>)"

definition ResetFingerFlag :: "finger \<Rightarrow> finger" where
  "ResetFingerFlag F = F\<lparr>u3receive_short_ok := False, u3receive_long_ok := False, u3receive_len := 0,
     receive_short_ok := False, receive_long_ok := False, receive_len := 0, receiveMode := False, dataLen := 0,
     receiveMore := replicate 200 0, receive_pack := replicate 8 0\<rparr>"

subsection \<open>The interrupt of a received byte\<close>

definition xors :: "bytes \<Rightarrow> u8" where
  "xors bs = fold (XOR) bs 0"

definition long_cmd :: "u8 \<Rightarrow> bool" where
  "long_cmd c = (c = 0x26 \<or> c = 0x24 \<or> c = 0x23 \<or> c = 0x31 \<or> c = 0x2B)"

text \<open>\<open>Transmit_Data\<close>: the answer tells whether the frame is right; a frame that announces a second packet switches to
  the long mode, whatever its checksum, and clears the buffer for as many bytes as the packet will have.\<close>

definition clear_more :: "finger \<Rightarrow> finger option" where
  "clear_more F = (if unat (dataLen F) + 3 > 200 then None
     else Some (F\<lparr>receiveMore := overwrite 0 (replicate (unat (dataLen F) + 3) 0) (receiveMore F)\<rparr>))"

definition Transmit_Data :: "finger \<Rightarrow> (bool \<times> finger) option" where
  "Transmit_Data F = (let b = receive_pack F; ok = (xors (window 1 5 b) = b ! 6 \<and> b ! 0 = CMD_HEAD \<and> b ! 7 = CMD_TAIL) in
     if long_cmd (b ! 1) then map_option (Pair ok)
       (clear_more (F\<lparr>receiveMode := True, receive_len := 0, u3receive_len := 0, dataLen := b ! 3\<rparr>))
     else Some (ok, F))"

text \<open>\<open>Get_Showdata\<close>: each byte as \<open>0x\<close> and one or two capital hexadecimal digits, with a zero behind.\<close>

definition hex_digit :: "nat \<Rightarrow> u8" where
  "hex_digit n = of_nat (if n < 10 then 48 + n else 55 + n)"

definition hex_text :: "u8 \<Rightarrow> bytes" where
  "hex_text b = [48, 120] @ (if unat b < 16 then [] else [hex_digit (unat b div 16)]) @ [hex_digit (unat b mod 16), 0]"

definition Get_Showdata :: "finger \<Rightarrow> finger" where
  "Get_Showdata F = F\<lparr>show_text := fold (\<lambda>k. overwrite (4 * k) (hex_text (receive_pack F ! k))) [0..<8] (show_text F)\<rparr>"

definition irq_short :: "usart \<Rightarrow> u8 \<Rightarrow> finger \<Rightarrow> finger option" where
  "irq_short u b F = (if rlen u F \<ge> 8 then None else
     let buf = (receive_pack F)[rlen u F := b];
         bad = (buf ! 0 \<noteq> 0xF5 \<or> buf ! 5 \<noteq> 0);
         buf1 = (if bad then replicate 8 0 else buf);
         n1 = (if bad then 0 else rlen u F + 1);
         n2 = (if buf1 ! 1 = 0xF5 then n1 - 1 else n1);
         F1 = set_len u n2 (F\<lparr>receive_pack := buf1\<rparr>) in
     if n2 < 8 then Some F1
     else case Transmit_Data F1 of None \<Rightarrow> None
       | Some (ok, F2) \<Rightarrow> Some (Get_Showdata (set_short_ok u ok F2)))"

definition irq_long :: "usart \<Rightarrow> u8 \<Rightarrow> finger \<Rightarrow> finger option" where
  "irq_long u b F = (if rlen u F \<ge> 200 then None else
     let F1 = set_len u (rlen u F + 1) (F\<lparr>receiveMore := (receiveMore F)[rlen u F := b]\<rparr>) in
     case (if receiveMore F1 ! 0 \<noteq> 0xF5 then clear_more (set_len u 0 (F1\<lparr>receiveMode := False\<rparr>)) else Some F1) of
       None \<Rightarrow> None
     | Some F2 \<Rightarrow> let d = unat (dataLen F2); more = receiveMore F2 in
         if rlen u F2 < d + 3 then Some F2
         else Some ((set_long_ok u (more ! (d + 2) = 0xF5 \<and> more ! (d + 1) = xors (window 1 d more)) F2)\<lparr>receiveMode := False\<rparr>))"

text \<open>\<open>USART2_IRQHandler1\<close> and \<open>USART3_IRQHandler1\<close>.  A byte that neither branch reads keeps the interrupt raised for ever.\<close>

definition USART_IRQHandler1 :: "usart \<Rightarrow> u8 \<Rightarrow> finger \<Rightarrow> finger option" where
  "USART_IRQHandler1 u b F = (if \<not> receiveMode F \<and> \<not> short_ok u F then irq_short u b F
     else if \<not> long_ok u F then irq_long u b F else None)"

text \<open>What the interrupt of a port does to these variables for each byte it receives.  Nothing installs the two functions
  above: the vectors \<open>USART2_IRQHandler\<close> and \<open>USART3_IRQHandler\<close> of the program are those of usart.c, which give the byte to
  the serial devices and write nothing here.  The commands have the interrupt as their argument, so that the lemmas can
  tell what the program does and what it would do with the functions above as vectors.\<close>

type_synonym vector = "usart \<Rightarrow> u8 \<Rightarrow> finger \<Rightarrow> finger option"

definition USART_IRQHandler :: vector where
  "USART_IRQHandler u b F = Some F"

fun irqs :: "vector \<Rightarrow> usart \<Rightarrow> bytes \<Rightarrow> finger \<Rightarrow> finger option" where
  "irqs I u [] F = Some F"
| "irqs I u (b # bs) F = (case I u b F of None \<Rightarrow> None | Some F1 \<Rightarrow> irqs I u bs F1)"

subsection \<open>Commands\<close>

definition TxByte :: "usart \<Rightarrow> u8 \<Rightarrow> finger \<Rightarrow> finger" where
  "TxByte u b F = F\<lparr>wire := wire F @ [(u, b)]\<rparr>"

text \<open>The waiting loop: \<open>t\<close> turns are left, in the \<open>k\<close>-th the bytes \<open>A k\<close> arrive.\<close>

fun tx_wait :: "vector \<Rightarrow> usart \<Rightarrow> nat \<Rightarrow> (nat \<Rightarrow> bytes) \<Rightarrow> nat \<Rightarrow> nat \<Rightarrow> finger \<Rightarrow> finger option" where
  "tx_wait I u R A 0 k F = Some F"
| "tx_wait I u R A (Suc t) k F = (if rlen u F < R
     then (case irqs I u (A k) F of None \<Rightarrow> None | Some F1 \<Rightarrow> tx_wait I u R A t (Suc k) F1)
     else Some F)"

definition TxAndRsCmd :: "vector \<Rightarrow> usart \<Rightarrow> nat \<Rightarrow> nat \<Rightarrow> nat \<Rightarrow> (nat \<Rightarrow> bytes) \<Rightarrow> finger \<Rightarrow> (u8 \<times> finger) option" where
  "TxAndRsCmd I u Scnt Rcnt Delay A F = (let
       F1 = fold (TxByte u) ([CMD_HEAD] @ take Scnt (gTxBuf F) @ [xors (take Scnt (gTxBuf F)), CMD_TAIL]) F;
       F2 = set_long_ok u False (set_short_ok u False (set_len u 0 (F1\<lparr>receive_pack := replicate 8 0\<rparr>))) in
     case tx_wait I u Rcnt A (Delay * 120000) 0 F2 of None \<Rightarrow> None
     | Some F3 \<Rightarrow> Some (if rlen u F3 \<noteq> Rcnt then ACK_TIMEOUT
           else if receive_pack F3 ! 0 \<noteq> CMD_HEAD then ACK_FAIL
           else if receive_pack F3 ! 7 \<noteq> CMD_TAIL then ACK_FAIL
           else if receive_pack F3 ! 1 \<noteq> gTxBuf F3 ! 0 then ACK_FAIL
           else ACK_SUCCESS, F3))"

definition IsMasterUser :: "u8 \<Rightarrow> bool" where
  "IsMasterUser UserID = (UserID = 1 \<or> UserID = 2 \<or> UserID = 3)"

text \<open>The last lines of most commands: success only when the module reports success.\<close>

definition ack_of :: "u8 \<times> finger \<Rightarrow> u8 \<times> finger" where
  "ack_of r = (if fst r = ACK_SUCCESS \<and> receive_pack (snd r) ! 4 = ACK_SUCCESS then ACK_SUCCESS else ACK_FAIL, snd r)"

definition put_tx :: "bytes \<Rightarrow> finger \<Rightarrow> finger" where
  "put_tx bs F = F\<lparr>gTxBuf := overwrite 0 bs (gTxBuf F)\<rparr>"

definition hi8 :: "u16 \<Rightarrow> u8" where "hi8 n = ucast (drop_bit 8 n)"
definition lo8 :: "u16 \<Rightarrow> u8" where "lo8 n = ucast (n AND 0xFF)"

definition setLpMode :: "vector \<Rightarrow> usart \<Rightarrow> (nat \<Rightarrow> bytes) \<Rightarrow> finger \<Rightarrow> (u8 \<times> finger) option" where
  "setLpMode I u A F = map_option ack_of (TxAndRsCmd I u 5 8 10 A (put_tx [CMD_LP_MODE, 0, 0, 0, 0] F))"

definition setAndReadMode :: "vector \<Rightarrow> usart \<Rightarrow> u8 \<Rightarrow> u8 \<Rightarrow> (nat \<Rightarrow> bytes) \<Rightarrow> finger \<Rightarrow> (u8 \<times> finger) option" where
  "setAndReadMode I u com mode A F = map_option ack_of (TxAndRsCmd I u 5 8 10 A (put_tx [CMD_SET_READ_ADDMODE, 0, mode, com, 0] F))"

definition getUserCount :: "vector \<Rightarrow> usart \<Rightarrow> (nat \<Rightarrow> bytes) \<Rightarrow> finger \<Rightarrow> (u8 \<times> finger) option" where
  "getUserCount I u A F = map_option ack_of (TxAndRsCmd I u 5 8 10 A (put_tx [CMD_USER_CNT, 0, 0, 0, 0] F))"

definition user_count :: "finger \<Rightarrow> nat" where
  "user_count F = unat (receive_pack F ! 2) * 256 + unat (receive_pack F ! 3)"

text \<open>\<open>A j\<close> is what arrives after the \<open>j\<close>-th frame of a command that sends several.\<close>

fun add_steps :: "vector \<Rightarrow> usart \<Rightarrow> bytes \<Rightarrow> (nat \<Rightarrow> nat \<Rightarrow> bytes) \<Rightarrow> nat \<Rightarrow> finger \<Rightarrow> (u8 \<times> finger) option" where
  "add_steps I u [] A j F = Some (ACK_SUCCESS, F)"
| "add_steps I u (c # cs) A j F = (case map_option ack_of (TxAndRsCmd I u 5 8 200 (A j) (put_tx [c] F)) of None \<Rightarrow> None
     | Some (m, F1) \<Rightarrow> if m = ACK_SUCCESS then add_steps I u cs A (Suc j) F1 else Some (ACK_FAIL, F1))"

definition addUser :: "vector \<Rightarrow> usart \<Rightarrow> u16 \<Rightarrow> u8 \<Rightarrow> (nat \<Rightarrow> nat \<Rightarrow> bytes) \<Rightarrow> finger \<Rightarrow> (u8 \<times> finger) option" where
  "addUser I u userNum lim A F = (case getUserCount I u (A 0) F of None \<Rightarrow> None
     | Some (_, F1) \<Rightarrow> if user_count F1 \<ge> USER_MAX_CNT then Some (ACK_FULL, F1)
         else add_steps I u [CMD_ADD_1, CMD_ADD_2, CMD_ADD_3] A 1 (put_tx [CMD_ADD_1, hi8 userNum, lo8 userNum, lim, 0] F1))"

definition deleteOneUser :: "vector \<Rightarrow> usart \<Rightarrow> u16 \<Rightarrow> (nat \<Rightarrow> bytes) \<Rightarrow> finger \<Rightarrow> (u8 \<times> finger) option" where
  "deleteOneUser I u userNum A F = map_option ack_of (TxAndRsCmd I u 5 8 10 A (put_tx [CMD_DEL_ONE, hi8 userNum, lo8 userNum, 0, 0] F))"

definition deleteAllUser :: "vector \<Rightarrow> usart \<Rightarrow> (nat \<Rightarrow> bytes) \<Rightarrow> finger \<Rightarrow> (u8 \<times> finger) option" where
  "deleteAllUser I u A F = map_option ack_of (TxAndRsCmd I u 5 8 50 A (put_tx [CMD_DEL_ALL, 0, 0, 0, 0] F))"

text \<open>The user number is a byte here, so its upper half is 0.\<close>

definition matchOne :: "vector \<Rightarrow> usart \<Rightarrow> u8 \<Rightarrow> (nat \<Rightarrow> bytes) \<Rightarrow> finger \<Rightarrow> (u8 \<times> finger) option" where
  "matchOne I u userNum A F = map_option ack_of (TxAndRsCmd I u 5 8 10 A (put_tx [CMD_MATCH_ONE, hi8 (ucast userNum), userNum, 0, 0] F))"

definition matchN :: "vector \<Rightarrow> usart \<Rightarrow> (nat \<Rightarrow> bytes) \<Rightarrow> finger \<Rightarrow> (u8 \<times> finger) option" where
  "matchN I u A F = map_option (\<lambda>(m, F1). (let q3 = receive_pack F1 ! 4 in
       if m = ACK_SUCCESS \<and> IsMasterUser q3 then ACK_SUCCESS else if q3 = ACK_NO_USER then ACK_NO_USER
       else if q3 = ACK_TIMEOUT then ACK_TIMEOUT else ACK_GO_OUT, F1))
     (TxAndRsCmd I u 5 8 150 A (put_tx [CMD_MATCH_N, 0, 0, 0, 0] F))"

definition fastMatchN :: "usart \<Rightarrow> finger \<Rightarrow> finger" where
  "fastMatchN u F = fold (TxByte u) [CMD_HEAD, CMD_MATCH_N, 0, 0, 0, 0, 0x0C, CMD_TAIL] F"

definition getLim :: "vector \<Rightarrow> usart \<Rightarrow> u16 \<Rightarrow> (nat \<Rightarrow> bytes) \<Rightarrow> finger \<Rightarrow> (u8 \<times> finger) option" where
  "getLim I u userNum A F = map_option ack_of (TxAndRsCmd I u 5 8 10 A (put_tx [CMD_GETLIM, hi8 userNum, lo8 userNum, 0, 0] F))"

definition getVer :: "vector \<Rightarrow> usart \<Rightarrow> (nat \<Rightarrow> bytes) \<Rightarrow> finger \<Rightarrow> (u8 \<times> finger) option" where
  "getVer I u A F = map_option ack_of (TxAndRsCmd I u 5 20 10 A (put_tx [CMD_GET_VER, 0, 0, 0, 0] F))"

definition setAndReadLevel :: "vector \<Rightarrow> usart \<Rightarrow> u8 \<Rightarrow> u8 \<Rightarrow> (nat \<Rightarrow> bytes) \<Rightarrow> finger \<Rightarrow> (u8 \<times> finger) option" where
  "setAndReadLevel I u cmd level A F = map_option ack_of (TxAndRsCmd I u 5 8 10 A (put_tx [CMD_COM_LEV, 0, level, cmd, 0] F))"

definition getEigen :: "vector \<Rightarrow> usart \<Rightarrow> (nat \<Rightarrow> bytes) \<Rightarrow> finger \<Rightarrow> (u8 \<times> finger) option" where
  "getEigen I u A F = map_option ack_of (TxAndRsCmd I u 5 207 100 A (put_tx [CMD_GET_EIGEN, 0, 0, 0, 0] F))"

text \<open>A frame with a second packet: the frame's checksum and tail and the head of the packet are data of the one
  transfer.  The downloads to compare copy one byte more of the caller's array than they send.\<close>

definition downloadAndMatchONE :: "vector \<Rightarrow> usart \<Rightarrow> u16 \<Rightarrow> bytes \<Rightarrow> (nat \<Rightarrow> bytes) \<Rightarrow> finger \<Rightarrow> (u8 \<times> finger) option" where
  "downloadAndMatchONE I u userNum eigen A F = (if length eigen < 194 then None else map_option ack_of (TxAndRsCmd I u 204 8 10 A
     (put_tx ([CMD_DOWN_MATCH_ONE, 0, 0xC4, 0, 0, 0x86, CMD_TAIL, CMD_HEAD, hi8 userNum, lo8 userNum, 0] @ take 194 eigen) F)))"

definition downloadAndMatchN :: "vector \<Rightarrow> usart \<Rightarrow> bytes \<Rightarrow> (nat \<Rightarrow> bytes) \<Rightarrow> finger \<Rightarrow> (u8 \<times> finger) option" where
  "downloadAndMatchN I u eigen A F = (if length eigen < 194 then None else
     map_option (\<lambda>(m, F1). (if m = ACK_SUCCESS then ACK_SUCCESS
         else if receive_pack F1 ! 4 = ACK_NO_USER then ACK_NO_USER else ACK_FAIL, F1))
       (TxAndRsCmd I u 204 8 10 A
         (put_tx ([CMD_DOWN_MATCH_N, 0, 0xC4, 0, 0, 0x87, CMD_TAIL, CMD_HEAD, 0, 0, 0] @ take 194 eigen) F)))"

definition uploadEigen :: "vector \<Rightarrow> usart \<Rightarrow> u16 \<Rightarrow> (nat \<Rightarrow> bytes) \<Rightarrow> finger \<Rightarrow> (u8 \<times> finger) option" where
  "uploadEigen I u userNum A F = map_option ack_of (TxAndRsCmd I u 5 207 100 A (put_tx [CMD_UP_EIGEN, hi8 userNum, lo8 userNum, 0, 0] F))"

definition downloadAddUser :: "vector \<Rightarrow> usart \<Rightarrow> u16 \<Rightarrow> u8 \<Rightarrow> bytes \<Rightarrow> (nat \<Rightarrow> nat \<Rightarrow> bytes) \<Rightarrow> finger \<Rightarrow> (u8 \<times> finger) option" where
  "downloadAddUser I u userNum lim eigen A F = (case getUserCount I u (A 0) F of None \<Rightarrow> None
     | Some (_, F1) \<Rightarrow> if user_count F1 \<ge> USER_MAX_CNT then Some (ACK_FULL, F1)
         else if length eigen < 193 then None
         else map_option ack_of (TxAndRsCmd I u 204 8 10 (A 1) (ResetFingerFlag (put_tx
           ([CMD_DOWN_ADD, 0, 0xC4, 0, 0, 0x85, CMD_TAIL, CMD_HEAD, hi8 userNum, lo8 userNum, lim] @ take 193 eigen) (ResetFingerFlag F1)))))"

definition getAllUser :: "vector \<Rightarrow> usart \<Rightarrow> (nat \<Rightarrow> nat \<Rightarrow> bytes) \<Rightarrow> finger \<Rightarrow> (u8 \<times> finger) option" where
  "getAllUser I u A F = (case getUserCount I u (A 0) F of None \<Rightarrow> None
     | Some (_, F1) \<Rightarrow> let num = unat (receive_pack F1 ! 3) in
         map_option ack_of (TxAndRsCmd I u 5 (3 * num + 2 + 11) 10 (A 1) (put_tx [CMD_GET_USERNUM, 0, 0, 0, 0] F1)))"

definition setAndGetTimeOut :: "vector \<Rightarrow> usart \<Rightarrow> u8 \<Rightarrow> u8 \<Rightarrow> (nat \<Rightarrow> bytes) \<Rightarrow> finger \<Rightarrow> (u8 \<times> finger) option" where
  "setAndGetTimeOut I u cmd timeOut A F = map_option ack_of (TxAndRsCmd I u 5 8 10 A (put_tx [CMD_TIMEOUT, 0, timeOut, cmd, 0] F))"

end
