(* ===== verification/FingerProps.thy ===== *)
theory FingerProps imports FingerPrint begin

text \<open>The properties of the finger print driver: answers are found in a stream of bytes whatever their timing, what the
  commands send, and what goes wrong with long and damaged answers.\<close>

lemmas port = rlen_def set_len_def short_ok_def set_short_ok_def long_ok_def set_long_ok_def

subsection \<open>What the operations leave alone\<close>

lemma port_simps [simp]:
  "rlen u (set_len u n F) = n" "short_ok u (set_len u n F) = short_ok u F" "long_ok u (set_len u n F) = long_ok u F"
  "short_ok u (set_short_ok u b F) = b" "rlen u (set_short_ok u b F) = rlen u F" "long_ok u (set_short_ok u b F) = long_ok u F"
  "long_ok u (set_long_ok u b F) = b" "rlen u (set_long_ok u b F) = rlen u F" "short_ok u (set_long_ok u b F) = short_ok u F"
  by (simp_all add: port split: usart.split)

lemma port_fields [simp]:
  "receive_pack (set_len u n F) = receive_pack F" "receive_pack (set_short_ok u b F) = receive_pack F" "receive_pack (set_long_ok u b F) = receive_pack F"
  "receiveMode (set_len u n F) = receiveMode F" "receiveMode (set_short_ok u b F) = receiveMode F" "receiveMode (set_long_ok u b F) = receiveMode F"
  "receiveMore (set_len u n F) = receiveMore F" "receiveMore (set_short_ok u b F) = receiveMore F" "receiveMore (set_long_ok u b F) = receiveMore F"
  "dataLen (set_len u n F) = dataLen F" "dataLen (set_short_ok u b F) = dataLen F" "dataLen (set_long_ok u b F) = dataLen F"
  "gTxBuf (set_len u n F) = gTxBuf F" "gTxBuf (set_short_ok u b F) = gTxBuf F" "gTxBuf (set_long_ok u b F) = gTxBuf F"
  "show_text (set_len u n F) = show_text F" "show_text (set_short_ok u b F) = show_text F" "show_text (set_long_ok u b F) = show_text F"
  "wire (set_len u n F) = wire F" "wire (set_short_ok u b F) = wire F" "wire (set_long_ok u b F) = wire F"
  by (simp_all add: port split: usart.split)

lemma port_updates [simp]:
  "rlen u (F\<lparr>receive_pack := p\<rparr>) = rlen u F" "short_ok u (F\<lparr>receive_pack := p\<rparr>) = short_ok u F" "long_ok u (F\<lparr>receive_pack := p\<rparr>) = long_ok u F"
  "rlen u (F\<lparr>receiveMode := m\<rparr>) = rlen u F" "short_ok u (F\<lparr>receiveMode := m\<rparr>) = short_ok u F" "long_ok u (F\<lparr>receiveMode := m\<rparr>) = long_ok u F"
  "rlen u (F\<lparr>receiveMore := l\<rparr>) = rlen u F" "short_ok u (F\<lparr>receiveMore := l\<rparr>) = short_ok u F" "long_ok u (F\<lparr>receiveMore := l\<rparr>) = long_ok u F"
  "rlen u (F\<lparr>dataLen := d\<rparr>) = rlen u F" "short_ok u (F\<lparr>dataLen := d\<rparr>) = short_ok u F" "long_ok u (F\<lparr>dataLen := d\<rparr>) = long_ok u F"
  "rlen u (F\<lparr>show_text := p\<rparr>) = rlen u F" "short_ok u (F\<lparr>show_text := p\<rparr>) = short_ok u F" "long_ok u (F\<lparr>show_text := p\<rparr>) = long_ok u F"
  "rlen u (F\<lparr>gTxBuf := p\<rparr>) = rlen u F" "short_ok u (F\<lparr>gTxBuf := p\<rparr>) = short_ok u F" "long_ok u (F\<lparr>gTxBuf := p\<rparr>) = long_ok u F"
  "rlen u (F\<lparr>receive_len := 0, u3receive_len := 0\<rparr>) = 0" "short_ok u (F\<lparr>receive_len := 0, u3receive_len := 0\<rparr>) = short_ok u F"
  "long_ok u (F\<lparr>receive_len := 0, u3receive_len := 0\<rparr>) = long_ok u F"
  by (simp_all add: port split: usart.split)

lemma length_hex_text: "length (hex_text b) \<le> 5"
  by (simp add: hex_text_def)

lemma showdata_fields [simp]:
  "rlen u (Get_Showdata F) = rlen u F" "short_ok u (Get_Showdata F) = short_ok u F" "long_ok u (Get_Showdata F) = long_ok u F"
  "receive_pack (Get_Showdata F) = receive_pack F" "receiveMode (Get_Showdata F) = receiveMode F" "receiveMore (Get_Showdata F) = receiveMore F"
  "dataLen (Get_Showdata F) = dataLen F" "gTxBuf (Get_Showdata F) = gTxBuf F" "wire (Get_Showdata F) = wire F"
  by (simp_all add: Get_Showdata_def)

lemma length_texts: "length s = 33 \<Longrightarrow> length (fold (\<lambda>k. overwrite (4 * k) (hex_text (p k))) [0..<8] s) = 33"
proof -
  have "length (fold (\<lambda>k. overwrite (4 * k) (hex_text (p k))) ks s) = 33" if "length s = 33" "set ks \<subseteq> {0..<8}" for ks s
    using that
  proof (induction ks arbitrary: s)
    case (Cons k ks)
    have "length (overwrite (4 * k) (hex_text (p k)) s) = 33" using Cons.prems length_hex_text [of "p k"] by auto
    then show ?case using Cons by simp
  qed simp
  then show "length s = 33 \<Longrightarrow> length (fold (\<lambda>k. overwrite (4 * k) (hex_text (p k))) [0..<8] s) = 33" by simp
qed

lemma showdata_wf [simp]: "finger_wf F \<Longrightarrow> finger_wf (Get_Showdata F)"
  by (simp add: finger_wf_def Get_Showdata_def length_texts)

subsection \<open>A stream of bytes\<close>

text \<open>The bytes are taken in one by one, each while fewer than \<open>R\<close> are counted.\<close>

fun irqs_below :: "usart \<Rightarrow> nat \<Rightarrow> bytes \<Rightarrow> finger \<Rightarrow> finger option" where
  "irqs_below u R [] F = Some F"
| "irqs_below u R (b # bs) F = (if rlen u F < R then (case USART_IRQHandler1 u b F of None \<Rightarrow> None | Some F1 \<Rightarrow> irqs_below u R bs F1) else None)"

lemma irqs_below_append:
  "irqs_below u R (xs @ ys) F = (case irqs_below u R xs F of None \<Rightarrow> None | Some F1 \<Rightarrow> irqs_below u R ys F1)"
  by (induction xs arbitrary: F) (auto split: option.split)

lemma irqs_of_below: "irqs_below u R bs F = Some G \<Longrightarrow> irqs USART_IRQHandler1 u bs F = Some G"
  by (induction bs arbitrary: F) (auto split: if_splits option.splits)

lemma below_prefix: "irqs_below u R (xs @ ys) F = Some G \<Longrightarrow> xs @ ys \<noteq> [] \<Longrightarrow> rlen u F < R"
  by (cases "xs @ ys") (auto split: if_splits)

text \<open>However the bytes are spread over the turns of the loop, they have the same effect.\<close>

lemma tx_wait_stream:
  assumes "irqs_below u R (concat (map A [k..<k + m])) F = Some G" "rlen u G = R" "m \<le> t"
  shows "tx_wait USART_IRQHandler1 u R A t k F = Some G"
  using assms
proof (induction m arbitrary: k t F)
  case 0
  then show ?case by (cases t) simp_all
next
  case (Suc m)
  obtain t1 where t: "t = Suc t1" "m \<le> t1" using Suc.prems(3) by (cases t) auto
  have k: "concat (map A [k..<k + Suc m]) = A k @ concat (map A [Suc k..<Suc k + m])"
    by (simp add: upt_conv_Cons del: upt_Suc)
  show ?case
  proof (cases "rlen u F < R")
    case True
    obtain F1 where F1: "irqs_below u R (A k) F = Some F1" "irqs_below u R (concat (map A [Suc k..<Suc k + m])) F1 = Some G"
      using Suc.prems(1) unfolding k irqs_below_append by (auto split: option.splits)
    show ?thesis using Suc.IH [OF F1(2) Suc.prems(2) t(2)] irqs_of_below [OF F1(1)] True by (simp add: t(1))
  next
    case False
    then have "concat (map A [k..<k + Suc m]) = []"
      using below_prefix [of u R "[]" "concat (map A [k..<k + Suc m])" F G] Suc.prems(1) by auto
    from this Suc.prems(1) have "F = G" unfolding \<open>concat (map A [k..<k + Suc m]) = []\<close> by simp
    then show ?thesis using Suc.prems(2) by (simp add: t(1))
  qed
qed

lemma tx_wait_idle: "(\<And>j. k \<le> j \<Longrightarrow> A j = []) \<Longrightarrow> tx_wait USART_IRQHandler1 u R A t k F = Some F"
  by (induction t arbitrary: k) auto

text \<open>A stream that ends too early.\<close>

lemma tx_wait_timeout:
  assumes "irqs_below u R (concat (map A [k..<k + m])) F = Some G" "rlen u G < R" "m \<le> t" "\<And>j. k + m \<le> j \<Longrightarrow> A j = []"
  shows "tx_wait USART_IRQHandler1 u R A t k F = Some G"
  using assms
proof (induction m arbitrary: k t F)
  case 0
  then show ?case by (simp add: tx_wait_idle)
next
  case (Suc m)
  obtain t1 where t: "t = Suc t1" "m \<le> t1" using Suc.prems(3) by (cases t) auto
  have k: "concat (map A [k..<k + Suc m]) = A k @ concat (map A [Suc k..<Suc k + m])"
    by (simp add: upt_conv_Cons del: upt_Suc)
  have r: "rlen u F < R"
  proof (cases "concat (map A [k..<k + Suc m]) = []")
    case True
    show ?thesis using Suc.prems(1,2) unfolding True by simp
  next
    case False
    then show ?thesis using below_prefix [of u R "[]" "concat (map A [k..<k + Suc m])" F G] Suc.prems(1) by (simp del: upt_Suc)
  qed
  obtain F1 where F1: "irqs_below u R (A k) F = Some F1" "irqs_below u R (concat (map A [Suc k..<Suc k + m])) F1 = Some G"
    using Suc.prems(1) unfolding k irqs_below_append by (auto split: option.splits)
  show ?case using Suc.IH [OF F1(2) Suc.prems(2) t(2)] Suc.prems(4) irqs_of_below [OF F1(1)] r by (simp add: t(1))
qed

subsection \<open>A frame in the stream\<close>

definition frame8 :: "u8 \<Rightarrow> u8 \<Rightarrow> u8 \<Rightarrow> u8 \<Rightarrow> u8 \<Rightarrow> bytes" where
  "frame8 c q1 q2 q3 k = [0xF5, c, q1, q2, q3, 0, k, 0xF5]"

definition fresh :: "usart \<Rightarrow> finger \<Rightarrow> bool" where
  "fresh u F = (rlen u F = 0 \<and> \<not> short_ok u F \<and> \<not> long_ok u F \<and> \<not> receiveMode F \<and> receive_pack F = replicate 8 0)"

lemma set_len_twice [simp]: "set_len u n ((set_len u m F)\<lparr>receive_pack := p\<rparr>) = set_len u n (F\<lparr>receive_pack := p\<rparr>)"
  by (simp add: port split: usart.split)

lemma set_len_same: "rlen u F = n \<Longrightarrow> receive_pack F = p \<Longrightarrow> set_len u n (F\<lparr>receive_pack := p\<rparr>) = F"
  by (cases F) (auto simp: port split: usart.split)

lemma replicate8: "replicate 8 (0 :: u8) = [0, 0, 0, 0, 0, 0, 0, 0]"
  by (simp add: numeral_eq_Suc)

lemma noise_below:
  assumes "fresh u F" "0 < R" "\<forall>b \<in> set ns. b \<noteq> 0xF5"
  shows "irqs_below u R ns F = Some F"
  using assms(3)
proof (induction ns)
  case (Cons b ns)
  have "USART_IRQHandler1 u b F = Some F"
    using assms(1) Cons.prems by (simp add: USART_IRQHandler1_def irq_short_def fresh_def Let_def replicate8 set_len_same)
  then show ?case using Cons assms(1,2) by (simp add: fresh_def)
qed simp

text \<open>A tail that is taken for a head is replaced by the next byte.\<close>

lemma heads_below:
  assumes "fresh u F" "8 \<le> R"
  shows "irqs_below u R (replicate (Suc j) 0xF5) F
    = Some (set_len u 1 (F\<lparr>receive_pack := [0xF5, if j = 0 then 0 else 0xF5, 0, 0, 0, 0, 0, 0]\<rparr>))"
proof (induction j)
  case 0
  show ?case using assms by (simp add: USART_IRQHandler1_def irq_short_def fresh_def Let_def replicate8)
next
  case (Suc j)
  have "replicate (Suc (Suc j)) 0xF5 = replicate (Suc j) 0xF5 @ [0xF5 :: u8]" by (simp add: replicate_append_same)
  then show ?case using assms
    by (simp only: irqs_below_append Suc.IH) (simp add: USART_IRQHandler1_def irq_short_def fresh_def Let_def replicate8)
qed

lemma middle_below:
  assumes "fresh u F" "8 \<le> R" "c \<noteq> 0xF5"
  shows "irqs_below u R [c, q1, q2, q3, 0, k] (set_len u 1 (F\<lparr>receive_pack := [0xF5, x, 0, 0, 0, 0, 0, 0]\<rparr>))
    = Some (set_len u 7 (F\<lparr>receive_pack := [0xF5, c, q1, q2, q3, 0, k, 0]\<rparr>))"
  using assms by (simp add: USART_IRQHandler1_def irq_short_def fresh_def Let_def) (simp add: eval_nat_numeral)

definition framed :: "usart \<Rightarrow> bytes \<Rightarrow> finger \<Rightarrow> finger" where
  "framed u p F = Get_Showdata (set_short_ok u (xors (window 1 5 p) = p ! 6) (set_len u 8 (F\<lparr>receive_pack := p\<rparr>)))"

lemma stream_below:
  assumes "fresh u F" "8 \<le> R" "c \<noteq> 0xF5" "\<forall>b \<in> set ns. b \<noteq> 0xF5"
  shows "irqs_below u R (ns @ replicate j 0xF5 @ [0xF5, c, q1, q2, q3, 0, k]) F = Some (set_len u 7 (F\<lparr>receive_pack := [0xF5, c, q1, q2, q3, 0, k, 0]\<rparr>))"
proof -
  have s: "replicate j 0xF5 @ [0xF5, c, q1, q2, q3, 0, k] = replicate (Suc j) 0xF5 @ [c, q1, q2, q3, 0, k]"
    by (simp add: replicate_app_Cons_same)
  have "irqs_below u R ns F = Some F" using assms(1,2,4) by (intro noise_below) auto
  then show ?thesis unfolding s by (simp only: irqs_below_append heads_below [OF assms(1,2)] option.case middle_below [OF assms(1-3)])
qed

lemma answer_below:
  assumes "fresh u F" "c \<noteq> 0xF5" "\<not> long_cmd c" "\<forall>b \<in> set ns. b \<noteq> 0xF5"
  shows "irqs_below u 8 (ns @ replicate j 0xF5 @ frame8 c q1 q2 q3 k) F = Some (framed u (frame8 c q1 q2 q3 k) F)"
proof -
  have s: "ns @ replicate j 0xF5 @ frame8 c q1 q2 q3 k = (ns @ replicate j 0xF5 @ [0xF5, c, q1, q2, q3, 0, k]) @ [0xF5]"
    by (simp add: frame8_def)
  have "irqs_below u 8 (ns @ replicate j 0xF5 @ [0xF5, c, q1, q2, q3, 0, k]) F = Some (set_len u 7 (F\<lparr>receive_pack := [0xF5, c, q1, q2, q3, 0, k, 0]\<rparr>))"
    using assms by (intro stream_below) auto
  then show ?thesis unfolding s irqs_below_append using assms
    by (simp add: USART_IRQHandler1_def irq_short_def fresh_def Let_def Transmit_Data_def framed_def frame8_def CMD_HEAD_def CMD_TAIL_def window_def)
qed

subsection \<open>A command and its answer\<close>

text \<open>What arrives within \<open>n\<close> turns of the waiting loop: some noise, tails of earlier frames, and the bytes \<open>f\<close>.\<close>

definition answers :: "(nat \<Rightarrow> bytes) \<Rightarrow> nat \<Rightarrow> bytes \<Rightarrow> bool" where
  "answers A n f = (\<exists>m ns j. m \<le> n \<and> concat (map A [0..<m]) = ns @ replicate j 0xF5 @ f \<and> (\<forall>b \<in> set ns. b \<noteq> 0xF5))"

definition sent_frame :: "bytes \<Rightarrow> bytes" where
  "sent_frame d = [CMD_HEAD] @ d @ [xors d, CMD_TAIL]"

definition cmd_frame :: "u8 \<Rightarrow> u8 \<Rightarrow> u8 \<Rightarrow> u8 \<Rightarrow> bytes" where
  "cmd_frame c a b l = sent_frame [c, a, b, l, 0]"

text \<open>The driver is ready for a command.\<close>

definition ready :: "finger \<Rightarrow> bool" where
  "ready F = (finger_wf F \<and> \<not> receiveMode F)"

lemma txbytes [simp]:
  "receive_pack (fold (TxByte u) bs F) = receive_pack F" "receiveMode (fold (TxByte u) bs F) = receiveMode F"
  "gTxBuf (fold (TxByte u) bs F) = gTxBuf F" "receiveMore (fold (TxByte u) bs F) = receiveMore F" "show_text (fold (TxByte u) bs F) = show_text F"
  "dataLen (fold (TxByte u) bs F) = dataLen F"
  by (induction bs arbitrary: F) (simp_all add: TxByte_def)

lemma tx_wire: "wire (fold (TxByte u) bs F) = wire F @ map (Pair u) bs"
  by (induction bs arbitrary: F) (simp_all add: TxByte_def)

definition sending :: "usart \<Rightarrow> nat \<Rightarrow> finger \<Rightarrow> finger" where
  "sending u n F = set_long_ok u False (set_short_ok u False (set_len u 0
     ((fold (TxByte u) (sent_frame (take n (gTxBuf F))) F)\<lparr>receive_pack := replicate 8 0\<rparr>)))"

lemma sending_fresh: "ready F \<Longrightarrow> fresh u (sending u n F)"
  by (simp add: ready_def fresh_def sending_def)

lemma sending_fields [simp]:
  "gTxBuf (sending u n F) = gTxBuf F" "wire (sending u n F) = wire F @ map (Pair u) (sent_frame (take n (gTxBuf F)))"
  "receiveMode (sending u n F) = receiveMode F" "receiveMore (sending u n F) = receiveMore F" "dataLen (sending u n F) = dataLen F"
  "show_text (sending u n F) = show_text F"
  by (simp_all add: sending_def tx_wire)

lemma command_as_sending: "TxAndRsCmd USART_IRQHandler1 u n R d A F = map_option (\<lambda>G. (if rlen u G \<noteq> R then ACK_TIMEOUT
    else if receive_pack G ! 0 \<noteq> CMD_HEAD \<or> receive_pack G ! 7 \<noteq> CMD_TAIL \<or> receive_pack G ! 1 \<noteq> gTxBuf G ! 0 then ACK_FAIL
    else ACK_SUCCESS, G)) (tx_wait USART_IRQHandler1 u R A (d * 120000) 0 (sending u n F))"
  unfolding TxAndRsCmd_def sending_def sent_frame_def Let_def by (auto split: option.split)

lemma framed_ready:
  assumes "ready F" "length p = 8"
  shows "ready (framed u p (sending u n F))"
proof -
  have "finger_wf (set_short_ok u b (set_len u 8 ((sending u n F)\<lparr>receive_pack := p\<rparr>)))" for b
    using assms by (simp add: ready_def finger_wf_def)
  then show ?thesis using assms(1) by (simp add: ready_def framed_def)
qed

text \<open>The answer ends up in \<open>receive_pack\<close> and counts as success, whatever its checksum.\<close>

lemma command_answer:
  assumes "ready F" "answers A (d * 120000) (frame8 c q1 q2 q3 k)" "c \<noteq> 0xF5" "\<not> long_cmd c" "gTxBuf F ! 0 = c"
  shows "\<exists>G. TxAndRsCmd USART_IRQHandler1 u n 8 d A F = Some (ACK_SUCCESS, G) \<and> receive_pack G = frame8 c q1 q2 q3 k \<and> ready G \<and> gTxBuf G = gTxBuf F
    \<and> wire G = wire F @ map (Pair u) (sent_frame (take n (gTxBuf F)))
    \<and> rlen u G = 8 \<and> short_ok u G = (xors [c, q1, q2, q3, 0] = k)"
proof -
  obtain m ns j where m: "m \<le> d * 120000" "concat (map A [0..<m]) = ns @ replicate j 0xF5 @ frame8 c q1 q2 q3 k" "\<forall>b \<in> set ns. b \<noteq> 0xF5"
    using assms(2) by (auto simp: answers_def)
  let ?S = "sending u n F" and ?G = "framed u (frame8 c q1 q2 q3 k) (sending u n F)"
  have "irqs_below u 8 (concat (map A [0..<0 + m])) ?S = Some ?G"
    using answer_below [OF sending_fresh [OF assms(1)] assms(3,4) m(3)] m(2) by simp
  then have "tx_wait USART_IRQHandler1 u 8 A (d * 120000) 0 ?S = Some ?G" by (rule tx_wait_stream) (simp_all add: framed_def m(1))
  then have "TxAndRsCmd USART_IRQHandler1 u n 8 d A F = Some (ACK_SUCCESS, ?G)"
    using assms(5) by (simp add: command_as_sending framed_def frame8_def CMD_HEAD_def CMD_TAIL_def)
  moreover have "ready ?G" using assms(1) by (rule framed_ready) (simp add: frame8_def)
  ultimately show ?thesis by (intro exI [of _ ?G]) (simp add: framed_def frame8_def window_def)
qed

lemma put_tx_simps [simp]:
  "wire (put_tx bs F) = wire F" "receive_pack (put_tx bs F) = receive_pack F"
  by (simp_all add: put_tx_def)

lemma ready_put_tx [simp]: "ready F \<Longrightarrow> length bs \<le> 207 \<Longrightarrow> ready (put_tx bs F)"
  by (simp add: ready_def finger_wf_def put_tx_def)

lemma put_tx_take: "ready F \<Longrightarrow> length bs = n \<Longrightarrow> take n (gTxBuf (put_tx bs F)) = bs"
  by (simp add: put_tx_def overwrite_def)

lemma put_tx_first: "ready F \<Longrightarrow> gTxBuf (put_tx (c # bs) F) ! 0 = c"
  by (simp add: put_tx_def overwrite_def)

text \<open>A command of five bytes.\<close>

lemma command5:
  assumes "ready F" "answers A (d * 120000) (frame8 c q1 q2 q3 k)" "c \<noteq> 0xF5" "\<not> long_cmd c"
  shows "\<exists>G. TxAndRsCmd USART_IRQHandler1 u 5 8 d A (put_tx [c, a, b, l, 0] F) = Some (ACK_SUCCESS, G) \<and> receive_pack G = frame8 c q1 q2 q3 k \<and> ready G
    \<and> take 5 (gTxBuf G) = [c, a, b, l, 0] \<and> wire G = wire F @ map (Pair u) (cmd_frame c a b l)
    \<and> rlen u G = 8 \<and> short_ok u G = (xors [c, q1, q2, q3, 0] = k)"
proof -
  have h: "ready (put_tx [c, a, b, l, 0] F)" using assms(1) by simp
  have t: "take 5 (gTxBuf (put_tx [c, a, b, l, 0] F)) = [c, a, b, l, 0]" using assms(1) by (rule put_tx_take) simp
  show ?thesis
    using command_answer [OF h assms(2-4) put_tx_first [OF assms(1)], of u 5, unfolded t] by (auto simp: t cmd_frame_def)
qed

subsection \<open>Properties\<close>

lemma put_tx_again: "take 5 (gTxBuf F) = [c0, a, b, l, 0] \<Longrightarrow> put_tx [c] F = put_tx [c, a, b, l, 0] F"
proof -
  assume h: "take 5 (gTxBuf F) = [c0, a, b, l, 0]"
  have "drop 1 (gTxBuf F) = [a, b, l, 0] @ drop 5 (gTxBuf F)"
    using h append_take_drop_id [of 5 "gTxBuf F"] by (metis One_nat_def append_Cons append_Nil drop0 drop_Suc_Cons)
  then show ?thesis by (simp add: put_tx_def overwrite_def) (simp add: eval_nat_numeral)
qed

lemma add_step:
  assumes "ready F" "take 5 (gTxBuf F) = [c0, a, b, l, 0]" "answers (A j) 24000000 (frame8 c q1 q2 s k)" "c \<noteq> 0xF5" "\<not> long_cmd c"
  shows "\<exists>G. ready G \<and> take 5 (gTxBuf G) = [c, a, b, l, 0] \<and> wire G = wire F @ map (Pair u) (cmd_frame c a b l)
    \<and> add_steps USART_IRQHandler1 u (c # cs) A j F = (if s = 0 then add_steps USART_IRQHandler1 u cs A (Suc j) G else Some (ACK_FAIL, G))"
proof -
  have "answers (A j) (200 * 120000) (frame8 c q1 q2 s k)" using assms(3) by simp
  from command5 [OF assms(1) this assms(4,5), of u a b l] show ?thesis
    by (auto simp: put_tx_again [OF assms(2)] ack_of_def frame8_def ACK_SUCCESS_def ACK_FAIL_def)
qed

text \<open>Were the handlers above the vectors of the ports, adding a finger would ask for the number of users and then for the
  finger three times; it would succeed exactly when the module reports success each time, whatever the checksums of its
  answers, and ask no further after a failure.\<close>

theorem finger_added:
  assumes "ready F" "answers (A 0) 1200000 (frame8 CMD_USER_CNT h l s0 k0)" "unat h * 256 + unat l < USER_MAX_CNT"
    "answers (A 1) 24000000 (frame8 CMD_ADD_1 x1 y1 s1 k1)" "answers (A 2) 24000000 (frame8 CMD_ADD_2 x2 y2 s2 k2)"
    "answers (A 3) 24000000 (frame8 CMD_ADD_3 x3 y3 s3 k3)"
  shows "\<exists>G. addUser USART_IRQHandler1 u n lim A F = Some (if s1 = 0 \<and> s2 = 0 \<and> s3 = 0 then ACK_SUCCESS else ACK_FAIL, G) \<and> ready G
    \<and> wire G = wire F @ map (Pair u) (cmd_frame CMD_USER_CNT 0 0 0
        @ cmd_frame CMD_ADD_1 (hi8 n) (lo8 n) lim
        @ (if s1 = 0 then cmd_frame CMD_ADD_2 (hi8 n) (lo8 n) lim else [])
        @ (if s1 = 0 \<and> s2 = 0 then cmd_frame CMD_ADD_3 (hi8 n) (lo8 n) lim else []))"
proof -
  note codes = CMD_USER_CNT_def CMD_ADD_1_def CMD_ADD_2_def CMD_ADD_3_def long_cmd_def
  have ok: "CMD_ADD_1 \<noteq> 0xF5" "CMD_ADD_2 \<noteq> 0xF5" "CMD_ADD_3 \<noteq> 0xF5" "\<not> long_cmd CMD_ADD_1" "\<not> long_cmd CMD_ADD_2" "\<not> long_cmd CMD_ADD_3"
    by (simp_all add: codes)
  have "answers (A 0) (10 * 120000) (frame8 CMD_USER_CNT h l s0 k0)" using assms(2) by simp
  then obtain F1 where F1: "TxAndRsCmd USART_IRQHandler1 u 5 8 10 (A 0) (put_tx [CMD_USER_CNT, 0, 0, 0, 0] F) = Some (ACK_SUCCESS, F1)"
    "receive_pack F1 = frame8 CMD_USER_CNT h l s0 k0" "ready F1" "wire F1 = wire F @ map (Pair u) (cmd_frame CMD_USER_CNT 0 0 0)"
    using command5 [OF assms(1), of "A 0" 10 CMD_USER_CNT h l s0 k0 u 0 0 0] by (auto simp: codes)
  let ?F2 = "put_tx [CMD_ADD_1, hi8 n, lo8 n, lim, 0] F1"
  have F2: "ready ?F2" "take 5 (gTxBuf ?F2) = [CMD_ADD_1, hi8 n, lo8 n, lim, 0]" "wire ?F2 = wire F1"
    using F1(3) by (simp, intro put_tx_take, simp_all)
  have "user_count F1 < USER_MAX_CNT" using F1(2) assms(3) by (simp add: user_count_def frame8_def)
  then have a: "addUser USART_IRQHandler1 u n lim A F = add_steps USART_IRQHandler1 u [CMD_ADD_1, CMD_ADD_2, CMD_ADD_3] A 1 ?F2"
    by (simp add: addUser_def getUserCount_def F1(1) ack_of_def)
  obtain F3 where F3: "ready F3" "take 5 (gTxBuf F3) = [CMD_ADD_1, hi8 n, lo8 n, lim, 0]" "wire F3 = wire ?F2 @ map (Pair u) (cmd_frame CMD_ADD_1 (hi8 n) (lo8 n) lim)"
    "add_steps USART_IRQHandler1 u [CMD_ADD_1, CMD_ADD_2, CMD_ADD_3] A 1 ?F2 = (if s1 = 0 then add_steps USART_IRQHandler1 u [CMD_ADD_2, CMD_ADD_3] A (Suc 1) F3 else Some (ACK_FAIL, F3))"
    using add_step [where A = A and j = 1 and u = u and cs = "[CMD_ADD_2, CMD_ADD_3]", OF F2(1,2) assms(4) ok(1,4)] by blast
  obtain F4 where F4: "ready F4" "take 5 (gTxBuf F4) = [CMD_ADD_2, hi8 n, lo8 n, lim, 0]" "wire F4 = wire F3 @ map (Pair u) (cmd_frame CMD_ADD_2 (hi8 n) (lo8 n) lim)"
    "add_steps USART_IRQHandler1 u [CMD_ADD_2, CMD_ADD_3] A 2 F3 = (if s2 = 0 then add_steps USART_IRQHandler1 u [CMD_ADD_3] A (Suc 2) F4 else Some (ACK_FAIL, F4))"
    using add_step [where A = A and j = 2 and u = u and cs = "[CMD_ADD_3]", OF F3(1,2) assms(5) ok(2,5)] by blast
  obtain F5 where F5: "ready F5" "wire F5 = wire F4 @ map (Pair u) (cmd_frame CMD_ADD_3 (hi8 n) (lo8 n) lim)"
    "add_steps USART_IRQHandler1 u [CMD_ADD_3] A 3 F4 = (if s3 = 0 then add_steps USART_IRQHandler1 u [] A (Suc 3) F5 else Some (ACK_FAIL, F5))"
    using add_step [where A = A and j = 3 and u = u and cs = "[]", OF F4(1,2) assms(6) ok(3,6)] by blast
  have n: "Suc 1 = (2 :: nat)" "Suc 2 = (3 :: nat)" by simp_all
  have r: "add_steps USART_IRQHandler1 u [CMD_ADD_1, CMD_ADD_2, CMD_ADD_3] A 1 ?F2 = (if s1 = 0 then if s2 = 0 then if s3 = 0 then Some (ACK_SUCCESS, F5) else Some (ACK_FAIL, F5)
      else Some (ACK_FAIL, F4) else Some (ACK_FAIL, F3))"
    unfolding F3(4) n F4(4) F5(3) by simp
  let ?G = "if s1 = 0 then if s2 = 0 then F5 else F4 else F3"
  show ?thesis unfolding a r using F1(4) F2(3) F3(1,3) F4(1,3) F5(1,2) by (intro exI [of _ ?G]) simp
qed

definition demo_finger :: finger where
  "demo_finger = \<lparr>u3receive_short_ok = False, u3receive_long_ok = False, u3receive_len = 0, receive_short_ok = False,
     receive_long_ok = False, receive_len = 0, receive_pack = replicate 8 0, show_text = replicate 33 0, receiveMode = False,
     dataLen = 0, receiveMore = replicate 200 0, gTxBuf = replicate 207 0, wire = []\<rparr>"

lemma demo_ready: "ready demo_finger"
  by (simp add: ready_def finger_wf_def demo_finger_def)

text \<open>All bytes arrive in the second turn, behind a zero and a stray tail.\<close>

definition late :: "bytes \<Rightarrow> nat \<Rightarrow> bytes" where
  "late f j = (if j = 1 then [0, 0xF5] @ f else [])"

lemma late_answers: "1 < n \<Longrightarrow> answers (late f) n f"
  unfolding answers_def
  by (rule exI [of _ 2], rule exI [of _ "[0]"], rule exI [of _ 1]) (simp add: late_def upt_conv_Cons)

theorem finger_added_witness:
  "let A = (\<lambda>j. late (frame8 ([CMD_USER_CNT, CMD_ADD_1, CMD_ADD_2, CMD_ADD_3] ! j) 0 7 0 1)) in
   \<exists>G. addUser USART_IRQHandler1 USART3 5 1 A demo_finger = Some (if (0 :: u8) = 0 \<and> (0 :: u8) = 0 \<and> (0 :: u8) = 0 then ACK_SUCCESS else ACK_FAIL, G) \<and> ready G
    \<and> wire G = wire demo_finger @ map (Pair USART3) (cmd_frame CMD_USER_CNT 0 0 0
        @ cmd_frame CMD_ADD_1 (hi8 5) (lo8 5) 1
        @ (if (0 :: u8) = 0 then cmd_frame CMD_ADD_2 (hi8 5) (lo8 5) 1 else [])
        @ (if (0 :: u8) = 0 \<and> (0 :: u8) = 0 then cmd_frame CMD_ADD_3 (hi8 5) (lo8 5) 1 else []))"
  unfolding Let_def
  by (rule finger_added [where h = 0 and l = 7 and ?s0.0 = 0 and ?k0.0 = 1 and ?x1.0 = 0 and ?y1.0 = 7 and ?k1.0 = 1 and ?x2.0 = 0 and ?y2.0 = 7 and ?k2.0 = 1
      and ?x3.0 = 0 and ?y3.0 = 7 and ?k3.0 = 1]) (simp_all add: late_answers demo_ready USER_MAX_CNT_def)

text \<open>The driver accepts an answer to a search whatever its checksum, and the next stray byte is written behind the
  frame buffer when the checksum was wrong.\<close>

theorem damaged_match_is_accepted:
  assumes "ready F" "answers A 18000000 (frame8 CMD_MATCH_N q1 q2 q3 k)" "q3 \<in> {1, 2, 3}"
  shows "\<exists>G. matchN USART_IRQHandler1 u A F = Some (ACK_SUCCESS, G) \<and> receive_pack G = frame8 CMD_MATCH_N q1 q2 q3 k
    \<and> (xors [CMD_MATCH_N, q1, q2, q3, 0] \<noteq> k \<longrightarrow> USART_IRQHandler1 u b G = None)"
proof -
  have "answers A (150 * 120000) (frame8 CMD_MATCH_N q1 q2 q3 k)" using assms(2) by simp
  then obtain G where G: "TxAndRsCmd USART_IRQHandler1 u 5 8 150 A (put_tx [CMD_MATCH_N, 0, 0, 0, 0] F) = Some (ACK_SUCCESS, G)"
    "receive_pack G = frame8 CMD_MATCH_N q1 q2 q3 k" "ready G" "rlen u G = 8" "short_ok u G = (xors [CMD_MATCH_N, q1, q2, q3, 0] = k)"
    using command5 [OF assms(1), of A 150 CMD_MATCH_N q1 q2 q3 k u 0 0 0] by (auto simp: CMD_MATCH_N_def long_cmd_def)
  then show ?thesis using assms(3)
    by (intro exI [of _ G]) (auto simp: matchN_def frame8_def IsMasterUser_def USART_IRQHandler1_def irq_short_def ready_def Let_def)
qed

theorem damaged_match_is_accepted_witness:
  "\<exists>G. matchN USART_IRQHandler1 USART2 (late (frame8 CMD_MATCH_N 0 9 1 0)) demo_finger = Some (ACK_SUCCESS, G) \<and> receive_pack G = frame8 CMD_MATCH_N 0 9 1 0
    \<and> (xors [CMD_MATCH_N, 0, 9, 1, 0] \<noteq> 0 \<longrightarrow> USART_IRQHandler1 USART2 1 G = None)"
  by (rule damaged_match_is_accepted) (simp_all add: late_answers demo_ready)

subsection \<open>Long answers\<close>

text \<open>The state after the frame that announces a second packet.\<close>

definition announced :: "usart \<Rightarrow> bytes \<Rightarrow> finger \<Rightarrow> finger" where
  "announced u p F = Get_Showdata (set_short_ok u (xors (window 1 5 p) = p ! 6) (F\<lparr>receive_pack := p, receiveMode := True,
     receive_len := 0, u3receive_len := 0, dataLen := p ! 3, receiveMore := overwrite 0 (replicate (unat (p ! 3) + 3) 0) (receiveMore F)\<rparr>))"

lemma set_len_zeros: "(set_len u n F)\<lparr>receive_len := 0, u3receive_len := 0\<rparr> = F\<lparr>receive_len := 0, u3receive_len := 0\<rparr>"
  by (simp add: port split: usart.split)

lemma announce_below:
  assumes "fresh u F" "c \<noteq> 0xF5" "long_cmd c" "\<forall>b \<in> set ns. b \<noteq> 0xF5" "8 \<le> R" "unat q2 + 3 \<le> 200"
  shows "irqs_below u R (ns @ replicate j 0xF5 @ frame8 c q1 q2 q3 k) F = Some (announced u (frame8 c q1 q2 q3 k) F)"
proof -
  have s: "ns @ replicate j 0xF5 @ frame8 c q1 q2 q3 k = (ns @ replicate j 0xF5 @ [0xF5, c, q1, q2, q3, 0, k]) @ [0xF5]"
    by (simp add: frame8_def)
  have "irqs_below u R (ns @ replicate j 0xF5 @ [0xF5, c, q1, q2, q3, 0, k]) F = Some (set_len u 7 (F\<lparr>receive_pack := [0xF5, c, q1, q2, q3, 0, k, 0]\<rparr>))"
    using assms by (intro stream_below) auto
  moreover have "USART_IRQHandler1 u 0xF5 (set_len u 7 (F\<lparr>receive_pack := [0xF5, c, q1, q2, q3, 0, k, 0]\<rparr>)) = Some (announced u (frame8 c q1 q2 q3 k) F)"
    using assms by (simp add: USART_IRQHandler1_def irq_short_def fresh_def Let_def Transmit_Data_def frame8_def CMD_HEAD_def
      CMD_TAIL_def clear_more_def announced_def window_def) (simp add: port split: usart.split)
  ultimately show ?thesis unfolding s irqs_below_append using assms(5) by simp
qed

lemma overwrite_step:
  assumes "n < length p" "n < length M"
  shows "(overwrite 0 (take n p) M)[n := p ! n] = overwrite 0 (take (Suc n) p) M"
proof -
  have "drop n M = M ! n # drop (Suc n) M" using assms(2) by (simp add: Cons_nth_drop_Suc)
  then show ?thesis using assms by (simp add: overwrite_def min_def list_update_append take_Suc_conv_app_nth)
qed

definition long_state :: "usart \<Rightarrow> nat \<Rightarrow> finger \<Rightarrow> bool" where
  "long_state u d G = (rlen u G = 0 \<and> \<not> long_ok u G \<and> receiveMode G \<and> unat (dataLen G) = d \<and> length (receiveMore G) = 200 \<and> d + 3 \<le> 200)"

lemma set_len_more [simp]:
  "set_len u n ((set_len u m F)\<lparr>receiveMore := p\<rparr>) = set_len u n (F\<lparr>receiveMore := p\<rparr>)"
  by (simp add: port split: usart.split)

lemma long_prefix:
  assumes "long_state u d G" "length p = d + 3" "p ! 0 = 0xF5" "d + 3 < R"
  shows "n < d + 3 \<Longrightarrow> irqs_below u R (take n p) G = Some (set_len u n (G\<lparr>receiveMore := overwrite 0 (take n p) (receiveMore G)\<rparr>))"
proof (induction n)
  case 0
  have "set_len u 0 (G\<lparr>receiveMore := receiveMore G\<rparr>) = G"
    using assms(1) by (cases G) (auto simp: long_state_def port split: usart.split)
  then show ?case by (simp add: overwrite_def)
next
  case (Suc n)
  let ?G = "set_len u n (G\<lparr>receiveMore := overwrite 0 (take n p) (receiveMore G)\<rparr>)"
  have f: "overwrite 0 (take (Suc n) p) (receiveMore G) ! 0 = 0xF5" using assms(2,3) Suc.prems by (simp add: overwrite_def nth_append)
  have "USART_IRQHandler1 u (p ! n) ?G = Some (set_len u (Suc n) (G\<lparr>receiveMore := overwrite 0 (take (Suc n) p) (receiveMore G)\<rparr>))"
    using assms(1,2) Suc.prems f by (simp add: USART_IRQHandler1_def irq_long_def long_state_def Let_def overwrite_step)
  then show ?case using Suc assms(2,4) by (simp add: take_Suc_conv_app_nth irqs_below_append)
qed

lemma long_packet:
  assumes "long_state u d G" "length e = d" "d + 3 < R"
  shows "\<exists>H. irqs_below u R (sent_frame e) G = Some H \<and> rlen u H = d + 3 \<and> long_ok u H \<and> window 0 (d + 3) (receiveMore H) = sent_frame e"
proof -
  let ?p = "sent_frame e" and ?M = "overwrite 0 (sent_frame e) (receiveMore G)"
  have p: "length ?p = d + 3" "?p ! 0 = 0xF5" "?p ! (d + 2) = 0xF5" "?p ! (d + 1) = xors e" "window 1 d ?p = e" "0 < length ?p"
    using assms(2) by (simp_all add: sent_frame_def CMD_HEAD_def CMD_TAIL_def nth_append window_def)
  let ?G = "set_len u (d + 2) (G\<lparr>receiveMore := overwrite 0 (take (d + 2) ?p) (receiveMore G)\<rparr>)"
  have a: "irqs_below u R (take (d + 2) ?p) G = Some ?G" using p assms by (intro long_prefix) auto
  have m: "length (receiveMore G) = 200" "d + 3 \<le> 200" using assms(1) by (simp_all add: long_state_def)
  have u: "(overwrite 0 (take (d + 2) ?p) (receiveMore G))[d + 2 := ?p ! (d + 2)] = ?M"
    using overwrite_step [of "d + 2" ?p "receiveMore G"] p(1) m by simp
  have M: "?M ! 0 = 0xF5" "?M ! (d + 2) = 0xF5" "?M ! (d + 1) = xors e" "window 1 d ?M = e" "window 0 (d + 3) ?M = ?p"
    using p m by (simp_all add: overwrite_def nth_append window_append1 window_head)
  have "USART_IRQHandler1 u (?p ! (d + 2)) ?G = Some ((set_long_ok u True (set_len u (d + 3) (G\<lparr>receiveMore := ?M\<rparr>)))\<lparr>receiveMode := False\<rparr>)"
    using assms(1) u M by (simp add: USART_IRQHandler1_def irq_long_def long_state_def Let_def) (simp add: eval_nat_numeral)
  moreover have "?p = take (d + 2) ?p @ [?p ! (d + 2)]" using p(1) take_Suc_conv_app_nth [of "d + 2" ?p] by simp
  ultimately have "irqs_below u R ?p G = Some ((set_long_ok u True (set_len u (d + 3) (G\<lparr>receiveMore := ?M\<rparr>)))\<lparr>receiveMode := False\<rparr>)"
    using a assms(3) irqs_below_append [of u R "take (d + 2) ?p" "[?p ! (d + 2)]" G] by simp
  then show ?thesis using M(5) by simp
qed

text \<open>A command that counts the frame and the packet together does not see that both have arrived, because the counter
  starts again with the packet.\<close>

lemma long_answer_times_out:
  assumes "ready F" "long_cmd c" "concat (map A [0..<m]) = ns @ replicate j 0xF5 @ frame8 c q1 q2 q3 k @ sent_frame e" "m \<le> d * 120000"
    "\<forall>b \<in> set ns. b \<noteq> 0xF5" "\<forall>i \<ge> m. A i = []" "length e = unat q2" "length e \<le> 197" "R = length e + 11"
  shows "\<exists>G. TxAndRsCmd USART_IRQHandler1 u n R d A F = Some (ACK_TIMEOUT, G) \<and> long_ok u G \<and> window 0 (length e + 3) (receiveMore G) = sent_frame e"
proof -
  let ?S = "sending u n F" and ?A = "announced u (frame8 c q1 q2 q3 k) (sending u n F)"
  have c: "c \<noteq> 0xF5" using assms(2) by (auto simp: long_cmd_def)
  have fr: "fresh u ?S" by (rule sending_fresh [OF assms(1)])
  have a: "irqs_below u R (ns @ replicate j 0xF5 @ frame8 c q1 q2 q3 k) ?S = Some ?A"
    using assms by (intro announce_below [OF fr c]) auto
  have l: "long_state u (length e) ?A"
    using fr assms(1,7,8) by (simp add: long_state_def announced_def fresh_def ready_def finger_wf_def frame8_def)
  obtain H where H: "irqs_below u R (sent_frame e) ?A = Some H" "rlen u H = length e + 3" "long_ok u H"
    "window 0 (length e + 3) (receiveMore H) = sent_frame e"
    using long_packet [OF l refl, of R] assms(9) by auto
  have s: "concat (map A [0..<0 + m]) = (ns @ replicate j 0xF5 @ frame8 c q1 q2 q3 k) @ sent_frame e" using assms(3) by simp
  have "irqs_below u R (concat (map A [0..<0 + m])) ?S = Some H"
    unfolding s by (subst irqs_below_append) (simp add: a H(1))
  then have "tx_wait USART_IRQHandler1 u R A (d * 120000) 0 ?S = Some H" using assms(4,6,9) H(2) by (intro tx_wait_timeout) auto
  then show ?thesis using H assms(9) by (intro exI [of _ H]) (simp add: command_as_sending)
qed

lemma timed_out: "ack_of (ACK_TIMEOUT, G) = (ACK_FAIL, G)"
  by (simp add: ack_of_def ACK_TIMEOUT_def ACK_SUCCESS_def)

text \<open>Fetching a template fails although the module sent it: frame and packet arrive complete and in time, the packet
  is found right, and the commands report a failure.\<close>

theorem long_answers_fail:
  assumes "ready F" "concat (map A [0..<m]) = frame8 c q1 0xC4 0 k @ sent_frame e" "m \<le> 12000000" "\<forall>i \<ge> m. A i = []"
    "length e = 196" "c \<in> {CMD_GET_EIGEN, CMD_UP_EIGEN}"
  shows "\<exists>G. (if c = CMD_GET_EIGEN then getEigen USART_IRQHandler1 u A F else uploadEigen USART_IRQHandler1 u nr A F) = Some (ACK_FAIL, G)
    \<and> long_ok u G \<and> window 0 199 (receiveMore G) = sent_frame e"
proof -
  have c: "long_cmd c" using assms(6) by (auto simp: long_cmd_def CMD_GET_EIGEN_def CMD_UP_EIGEN_def)
  have "\<exists>G. TxAndRsCmd USART_IRQHandler1 u 5 207 100 A (put_tx bs F) = Some (ACK_TIMEOUT, G) \<and> long_ok u G \<and> window 0 (length e + 3) (receiveMore G) = sent_frame e"
    if "length bs = 5" for bs
    by (rule long_answer_times_out [where ns = "[]" and j = 0 and m = m, OF _ c]) (use assms that in auto)
  note h = this [unfolded assms(5)]
  from h [of "[CMD_GET_EIGEN, 0, 0, 0, 0]"] h [of "[CMD_UP_EIGEN, hi8 nr, lo8 nr, 0, 0]"] show ?thesis
    unfolding getEigen_def uploadEigen_def by (cases "c = CMD_GET_EIGEN") (auto simp: timed_out)
qed

theorem long_answers_fail_witness:
  "\<exists>G. (if CMD_UP_EIGEN = CMD_GET_EIGEN then getEigen USART_IRQHandler1 USART2 (\<lambda>i. if i = 0 then frame8 CMD_UP_EIGEN 0 0xC4 0 0 @ sent_frame (replicate 196 1) else []) demo_finger
      else uploadEigen USART_IRQHandler1 USART2 3 (\<lambda>i. if i = 0 then frame8 CMD_UP_EIGEN 0 0xC4 0 0 @ sent_frame (replicate 196 1) else []) demo_finger) = Some (ACK_FAIL, G)
    \<and> long_ok USART2 G \<and> window 0 199 (receiveMore G) = sent_frame (replicate 196 1)"
  by (rule long_answers_fail [where m = 1 and k = 0]) (simp_all add: demo_ready)

subsection \<open>Downloads\<close>

lemma irq_frame:
  assumes "USART_IRQHandler1 u b F = Some G"
  shows "wire G = wire F \<and> gTxBuf G = gTxBuf F"
  using assms
  by (auto simp: USART_IRQHandler1_def irq_short_def irq_long_def Let_def Transmit_Data_def clear_more_def split: if_splits option.splits)

lemma irqs_frame: "irqs USART_IRQHandler1 u bs F = Some G \<Longrightarrow> wire G = wire F \<and> gTxBuf G = gTxBuf F"
  by (induction bs arbitrary: F) (auto split: option.splits dest: irq_frame)

lemma tx_wait_frame: "tx_wait USART_IRQHandler1 u R A t k F = Some G \<Longrightarrow> wire G = wire F \<and> gTxBuf G = gTxBuf F"
  by (induction t arbitrary: k F) (auto split: option.splits if_splits dest: irqs_frame)

lemma command_frame:
  assumes "TxAndRsCmd USART_IRQHandler1 u n R d A F = Some (r, G)"
  shows "wire G = wire F @ map (Pair u) (sent_frame (take n (gTxBuf F)))" "gTxBuf G = gTxBuf F"
  using assms tx_wait_frame [of u R A "d * 120000" 0 "sending u n F" G] by (auto simp: command_as_sending)

lemma xors_append: "xors (xs @ ys) = xors xs XOR xors ys"
proof -
  have f: "fold (XOR) xs a = fold (XOR) xs 0 XOR a" for xs :: bytes and a :: u8
  proof (induction xs arbitrary: a)
    case (Cons x xs)
    show ?case using Cons.IH [of "x XOR a"] Cons.IH [of x] by (simp add: xor.assoc)
  qed simp
  show ?thesis using f [of ys "fold (XOR) xs 0"] by (simp add: xors_def xor.commute)
qed

lemma download_frames: "sent_frame ([CMD_DOWN_ADD, 0, 0xC4, 0, 0, 0x85, CMD_TAIL, CMD_HEAD] @ d) = cmd_frame CMD_DOWN_ADD 0 0xC4 0 @ sent_frame d"
proof -
  have z: "xors [CMD_DOWN_ADD, 0, 0xC4, 0, 0, 0x85, CMD_TAIL, CMD_HEAD] = 0" "xors [CMD_DOWN_ADD, 0, 0xC4, 0, 0] = 0x85"
    by (simp_all add: xors_def CMD_DOWN_ADD_def CMD_TAIL_def CMD_HEAD_def)
  show ?thesis unfolding sent_frame_def cmd_frame_def xors_append z by simp
qed

text \<open>What storing a downloaded template puts on the wire, with one checksum over everything, is a frame with its own
  checksum and a packet with its own checksum.\<close>

theorem download_is_frame_and_packet:
  assumes "ready F" "downloadAddUser USART_IRQHandler1 u n lim eigen A F = Some (r, G)"
  shows "wire G = wire F @ map (Pair u) (cmd_frame CMD_USER_CNT 0 0 0
    @ (if r = ACK_FULL then [] else cmd_frame CMD_DOWN_ADD 0 0xC4 0 @ sent_frame ([hi8 n, lo8 n, lim] @ take 193 eigen)))"
proof -
  obtain m F1 where F1: "TxAndRsCmd USART_IRQHandler1 u 5 8 10 (A 0) (put_tx [CMD_USER_CNT, 0, 0, 0, 0] F) = Some (m, F1)"
    using assms(2) by (auto simp: downloadAddUser_def getUserCount_def split: option.splits)
  have t: "take 5 (gTxBuf (put_tx [CMD_USER_CNT, 0, 0, 0, 0] F)) = [CMD_USER_CNT, 0, 0, 0, 0]" using assms(1) by (rule put_tx_take) simp
  have w: "wire F1 = wire F @ map (Pair u) (cmd_frame CMD_USER_CNT 0 0 0)" "gTxBuf F1 = gTxBuf (put_tx [CMD_USER_CNT, 0, 0, 0, 0] F)"
    using command_frame [OF F1, unfolded t] by (simp_all add: cmd_frame_def)
  have l: "length (gTxBuf F1) = 207" using assms(1) by (simp add: w(2) put_tx_def ready_def finger_wf_def)
  let ?d = "[CMD_DOWN_ADD, 0, 0xC4, 0, 0, 0x85, CMD_TAIL, CMD_HEAD, hi8 n, lo8 n, lim] @ take 193 eigen"
  let ?F2 = "ResetFingerFlag (put_tx ?d (ResetFingerFlag F1))"
  show ?thesis
  proof (cases "user_count F1 \<ge> USER_MAX_CNT")
    case True
    then show ?thesis using assms(2) w(1) by (auto simp: downloadAddUser_def getUserCount_def F1 ack_of_def)
  next
    case False
    then obtain m2 where G: "TxAndRsCmd USART_IRQHandler1 u 204 8 10 (A 1) ?F2 = Some (m2, G)" "r \<noteq> ACK_FULL" "193 \<le> length eigen"
      using assms(2) by (auto simp: downloadAddUser_def getUserCount_def F1 ack_of_def ACK_FULL_def ACK_SUCCESS_def ACK_FAIL_def split: if_splits)
    have d: "take 204 (gTxBuf ?F2) = ?d" using G(3) l by (simp add: ResetFingerFlag_def put_tx_def overwrite_def)
    have "wire ?F2 = wire F1" by (simp add: ResetFingerFlag_def put_tx_def)
    then show ?thesis using command_frame(1) [OF G(1), unfolded d] download_frames [of "[hi8 n, lo8 n, lim] @ take 193 eigen"] w(1) G(2) by simp
  qed
qed

lemma finger_silent: "TxAndRsCmd USART_IRQHandler1 u n 8 d (\<lambda>_. []) F = Some (ACK_TIMEOUT, sending u n F)"
  by (simp add: command_as_sending tx_wait_idle) (simp add: sending_def)

theorem download_is_frame_and_packet_witness:
  "\<exists>G. downloadAddUser USART_IRQHandler1 USART2 7 1 (replicate 193 5) (\<lambda>_ _. []) demo_finger = Some (ACK_FAIL, G)
    \<and> wire G = wire demo_finger @ map (Pair USART2) (cmd_frame CMD_USER_CNT 0 0 0
    @ (if ACK_FAIL = ACK_FULL then [] else cmd_frame CMD_DOWN_ADD 0 0xC4 0 @ sent_frame ([hi8 7, lo8 7, 1] @ take 193 (replicate 193 5))))"
proof -
  have "user_count (sending USART2 5 F) = 0" for F by (simp add: user_count_def sending_def)
  then obtain G where "downloadAddUser USART_IRQHandler1 USART2 7 1 (replicate 193 5) (\<lambda>_ _. []) demo_finger = Some (ACK_FAIL, G)"
    by (simp add: downloadAddUser_def getUserCount_def finger_silent ack_of_def ACK_TIMEOUT_def ACK_SUCCESS_def USER_MAX_CNT_def)
  then show ?thesis using download_is_frame_and_packet [OF demo_ready] by blast
qed

subsection \<open>The commands with the vectors of the program\<close>








end
