(* ===== verification/DfsMount.thy ===== *)
theory DfsMount imports RamFs begin

text \<open>The rest of the virtual file system: registration, mounting, partitions and the information calls of dfs_fs.c,
  directories and control of dfs_file.c, the directory calls of dfs_posix.c, and what the RAM file system has for them.
  The state adds to the one of Dfs the table of registered file systems and, for each mount entry, the rest of its
  operation table and its device.  Devices are looked up and opened by the surroundings \<open>dev_env\<close>; \<open>dev_log\<close> records what
  was opened and closed.  The data pointer of a free mount entry is never read.\<close>

definition DFS_FILESYSTEM_TYPES_MAX :: nat where "DFS_FILESYSTEM_TYPES_MAX = 4"
definition ENODEV :: int where "ENODEV = 19"
definition ENOTDIR :: int where "ENOTDIR = 20"
definition O_RDONLY :: u32 where "O_RDONLY = 0"

record statfs =
  f_bsize :: u32
  f_blocks :: u32
  f_bfree :: u32

record dirent =
  d_type :: u8
  d_namlen :: u8
  d_reclen :: u16
  d_name :: string

definition SIZEOF_DIRENT :: nat where "SIZEOF_DIRENT = 260"

record ('v, 'h) fs_kind =
  k_name :: string
  k_ops :: "('v, 'h) fs_ops"
  k_mount :: "(nat option \<Rightarrow> u32 \<Rightarrow> 'v option \<Rightarrow> int \<times> 'v option) option"
  k_unmount :: "('v \<Rightarrow> int) option"
  k_mkfs :: "(nat \<Rightarrow> int) option"
  k_statfs :: "('v \<Rightarrow> int \<times> statfs) option"
  k_ioctl :: "('h dfs_fd \<Rightarrow> int \<Rightarrow> bytes \<Rightarrow> 'v \<Rightarrow> int \<times> bytes \<times> 'h dfs_fd \<times> 'v) option"
  k_getdents :: "('h dfs_fd \<Rightarrow> nat \<Rightarrow> 'v \<Rightarrow> int \<times> dirent list \<times> 'h dfs_fd \<times> 'v) option"

record ('v, 'h) dfs_sys =
  core :: "('v, 'h) dfs"
  filesystem_operation_table :: "('v, 'h) fs_kind option list"
  slot_kind :: "('v, 'h) fs_kind option list"
  slot_dev :: "nat option list"
  dev_log :: "(bool \<times> nat) list"

record dev_env =
  dev_find :: "string \<Rightarrow> nat option"
  dev_opens :: "nat \<Rightarrow> bool"

definition core_upd :: "(('v, 'h) dfs \<Rightarrow> ('v, 'h) dfs) \<Rightarrow> ('v, 'h) dfs_sys \<Rightarrow> ('v, 'h) dfs_sys" where
  "core_upd f S = S\<lparr>core := f (core S)\<rparr>"

text \<open>\<open>dfs_init\<close>; \<open>fs_data\<close> of the free entries is the argument \<open>v\<close>.\<close>

definition free_slot :: "'v \<Rightarrow> ('v, 'h) dfs_filesystem" where
  "free_slot v = \<lparr>fs_path = None, fs_ops = None, fs_data = v\<rparr>"

definition dfs_init :: "'v \<Rightarrow> ('v, 'h) dfs_sys \<Rightarrow> int \<times> ('v, 'h) dfs_sys" where
  "dfs_init v S = (0, S\<lparr>filesystem_operation_table := replicate DFS_FILESYSTEM_TYPES_MAX None,
     slot_kind := replicate DFS_FILESYSTEMS_MAX None, slot_dev := replicate DFS_FILESYSTEMS_MAX None,
     core := (core S)\<lparr>filesystem_table := replicate DFS_FILESYSTEMS_MAX (free_slot v),
       fd_table := replicate DFS_FD_MAX fd_zero\<rparr>\<rparr>)"

subsection \<open>dfs_fs.c: file system types\<close>

text \<open>The scan stops at an entry of the same name; the first free entry seen before is filled otherwise.\<close>

definition dfs_register :: "('v, 'h) fs_kind \<Rightarrow> ('v, 'h) dfs_sys \<Rightarrow> int \<times> ('v, 'h) dfs_sys" where
  "dfs_register ops S = (let t = filesystem_operation_table S in
     if list_ex (\<lambda>o'. case o' of None \<Rightarrow> False | Some k \<Rightarrow> k_name k = k_name ops) t then (-1, S)
     else (0, S\<lparr>filesystem_operation_table := t[length (takeWhile (\<lambda>o'. o' \<noteq> None) t) := Some ops]\<rparr>))"

text \<open>The search of \<open>dfs_mount\<close> reads the name of every entry up to the one it looks for, of free ones too: \<open>None\<close> is the
  null pointer read then.\<close>

fun find_kind :: "string \<Rightarrow> ('v, 'h) fs_kind option list \<Rightarrow> ('v, 'h) fs_kind option option" where
  "find_kind name [] = Some None"
| "find_kind name (None # ks) = None"
| "find_kind name (Some k # ks) = (if k_name k = name then Some (Some k) else find_kind name ks)"

subsection \<open>dfs_fs.c: mounting\<close>

definition fs_slots :: "('v, 'h) dfs_sys \<Rightarrow> ('v, 'h) dfs_filesystem list" where
  "fs_slots S = take DFS_FILESYSTEMS_MAX (filesystem_table (core S))"

definition set_slot :: "nat \<Rightarrow> ('v, 'h) dfs_filesystem \<Rightarrow> ('v, 'h) fs_kind option \<Rightarrow> nat option \<Rightarrow> ('v, 'h) dfs_sys \<Rightarrow> ('v, 'h) dfs_sys" where
  "set_slot i f k d S = S\<lparr>core := (core S)\<lparr>filesystem_table := (filesystem_table (core S))[i := f]\<rparr>,
     slot_kind := (slot_kind S)[i := k], slot_dev := (slot_dev S)[i := d]\<rparr>"

definition clear_slot :: "nat \<Rightarrow> ('v, 'h) dfs_sys \<Rightarrow> ('v, 'h) dfs_sys" where
  "clear_slot i S = set_slot i (free_slot (vol_of i (core S))) None None S"

definition fail_with :: "int \<Rightarrow> ('v, 'h) dfs_sys \<Rightarrow> int \<times> ('v, 'h) dfs_sys" where
  "fail_with e S = (-1, core_upd (set_errno e) S)"

text \<open>The descriptor used to look whether the mount point exists is a variable on the stack with the content \<open>junk\<close>; here
  it is put behind the table for the time of the calls.\<close>

definition dir_exists :: "'h dfs_fd \<Rightarrow> string \<Rightarrow> ('v, 'h) dfs \<Rightarrow> bool \<times> ('v, 'h) dfs" where
  "dir_exists junk full s = (let n = length (fd_table s) in
     case dfs_file_open n full (O_RDONLY OR O_DIRECTORY) (s\<lparr>fd_table := fd_table s @ [junk]\<rparr>) of (r, s1) \<Rightarrow>
       let s2 = (if r < 0 then s1 else snd (dfs_file_close n s1)) in
       (0 \<le> r, s2\<lparr>fd_table := take n (fd_table s2)\<rparr>))"

definition mount_slot :: "string \<Rightarrow> ('v, 'h) dfs_sys \<Rightarrow> nat + int" where
  "mount_slot path S = (if list_ex (\<lambda>f. fs_ops f \<noteq> None \<and> fs_path f = Some path) (fs_slots S) then Inr (- EINVAL)
     else let i = length (takeWhile (\<lambda>f. fs_ops f \<noteq> None) (fs_slots S)) in
       if i = length (fs_slots S) then Inr (- ENOSPC) else Inl i)"

definition log_dev :: "bool \<Rightarrow> nat option \<Rightarrow> ('v, 'h) dfs_sys \<Rightarrow> ('v, 'h) dfs_sys" where
  "log_dev b d S = (case d of None \<Rightarrow> S | Some n \<Rightarrow> S\<lparr>dev_log := dev_log S @ [(b, n)]\<rparr>)"

text \<open>The second half of \<open>dfs_mount\<close>: the entry \<open>i\<close> is filled, the device opened and the file system's own routine called.\<close>

definition mount_at :: "dev_env \<Rightarrow> nat \<Rightarrow> string \<Rightarrow> ('v, 'h) fs_kind \<Rightarrow> (nat option \<Rightarrow> u32 \<Rightarrow> 'v option \<Rightarrow> int \<times> 'v option)
    \<Rightarrow> nat option \<Rightarrow> u32 \<Rightarrow> 'v option \<Rightarrow> ('v, 'h) dfs_sys \<Rightarrow> int \<times> ('v, 'h) dfs_sys" where
  "mount_at E i full k op dev rwflag data S = (let
       S1 = set_slot i \<lparr>fs_path = Some full, fs_ops = Some (k_ops k), fs_data = vol_of i (core S)\<rparr> (Some k) dev S in
     if dev \<noteq> None \<and> \<not> dev_opens E (the dev) then (-1, clear_slot i S1)
     else let S2 = log_dev True dev S1 in
       case op dev rwflag data of (r, v) \<Rightarrow>
         if r < 0 then (-1, clear_slot i (log_dev False dev S2))
         else (0, case v of None \<Rightarrow> S2 | Some v' \<Rightarrow> core_upd (vol_upd i v') S2))"

definition dfs_mount :: "dev_env \<Rightarrow> 'h dfs_fd \<Rightarrow> string option \<Rightarrow> string \<Rightarrow> string \<Rightarrow> u32 \<Rightarrow> 'v option
    \<Rightarrow> ('v, 'h) dfs_sys \<Rightarrow> int \<times> ('v, 'h) dfs_sys" where
  "dfs_mount E junk device_name path filesystemtype rwflag data S =
     (let dev = Option.bind device_name (dev_find E) in
      if device_name \<noteq> None \<and> dev = None then fail_with (- ENODEV) S
      else case find_kind filesystemtype (filesystem_operation_table S) of
        None \<Rightarrow> (0, core_upd crash S)
      | Some None \<Rightarrow> fail_with (- ENODEV) S
      | Some (Some k) \<Rightarrow> (case k_mount k of
          None \<Rightarrow> fail_with (- ENOSYS) S
        | Some op \<Rightarrow> (case dfs_normalize_path None path (core S) of
            (NPath full, s1) \<Rightarrow>
              (case (if full = ''/'' \<or> full = ''/dev'' then (True, s1) else dir_exists junk full s1) of (ok, s2) \<Rightarrow>
                 let S1 = S\<lparr>core := s2\<rparr> in
                 if \<not> ok then fail_with (- ENOTDIR) S1
                 else case mount_slot path S1 of Inr e \<Rightarrow> fail_with e S1
                   | Inl i \<Rightarrow> mount_at E i full k op dev rwflag data S1)
          | (_, s1) \<Rightarrow> fail_with (- ENOTDIR) (S\<lparr>core := s1\<rparr>))))"

definition dfs_unmount :: "string \<Rightarrow> ('v, 'h) dfs_sys \<Rightarrow> int \<times> ('v, 'h) dfs_sys" where
  "dfs_unmount specialfile S = (case dfs_normalize_path None specialfile (core S) of
     (NPath full, s1) \<Rightarrow> let S1 = S\<lparr>core := s1\<rparr>; i = length (takeWhile (\<lambda>f. fs_path f \<noteq> Some full) (fs_slots S1)) in
       if i = length (fs_slots S1) then (-1, S1)
       else (case slot_kind S1 ! i of None \<Rightarrow> (0, core_upd crash S1)
         | Some k \<Rightarrow> (case k_unmount k of None \<Rightarrow> (-1, S1)
           | Some op \<Rightarrow> if op (vol_of i s1) < 0 then (-1, S1)
               else (0, clear_slot i (log_dev False (slot_dev S1 ! i) S1))))
   | (_, s1) \<Rightarrow> fail_with (- ENOTDIR) (S\<lparr>core := s1\<rparr>))"

definition dfs_mkfs :: "dev_env \<Rightarrow> string \<Rightarrow> string option \<Rightarrow> ('v, 'h) dfs_sys \<Rightarrow> int \<times> ('v, 'h) dfs_sys" where
  "dfs_mkfs E fs_name device_name S = (case Option.bind device_name (dev_find E) of
     None \<Rightarrow> fail_with (- ENODEV) S
   | Some d \<Rightarrow> (case find (\<lambda>o'. case o' of None \<Rightarrow> False | Some k \<Rightarrow> k_name k = fs_name) (filesystem_operation_table S) of
       Some (Some k) \<Rightarrow> (case k_mkfs k of None \<Rightarrow> fail_with (- ENOSYS) S | Some op \<Rightarrow> (op d, S))
     | _ \<Rightarrow> (-1, S)))"

definition dfs_filesystem_get_mounted_path :: "nat option \<Rightarrow> ('v, 'h) dfs_sys \<Rightarrow> string option" where
  "dfs_filesystem_get_mounted_path device S =
     (case find (\<lambda>i. fs_ops (filesystem_table (core S) ! i) \<noteq> None \<and> slot_dev S ! i = device) [0..<DFS_FILESYSTEMS_MAX] of
        None \<Rightarrow> None | Some i \<Rightarrow> fs_path (filesystem_table (core S) ! i))"

definition dfs_statfs :: "string \<Rightarrow> ('v, 'h) dfs_sys \<Rightarrow> int \<times> statfs option" where
  "dfs_statfs path S = (case dfs_filesystem_lookup path (core S) of None \<Rightarrow> (-1, None)
     | Some i \<Rightarrow> (case Option.bind (slot_kind S ! i) k_statfs of None \<Rightarrow> (-1, None)
         | Some op \<Rightarrow> (case op (vol_of i (core S)) of (r, b) \<Rightarrow> (r, Some b))))"

record dfs_partition =
  part_type :: u8
  part_offset :: u32
  part_size :: u32

definition DPT_ADDRESS :: nat where "DPT_ADDRESS = 0x1be"
definition DPT_ITEM_SIZE :: nat where "DPT_ITEM_SIZE = 16"

text \<open>\<open>None\<close> when the entry is not inside the sector.\<close>

definition dfs_filesystem_get_partition :: "dfs_partition \<Rightarrow> bytes \<Rightarrow> nat \<Rightarrow> (int \<times> dfs_partition) option" where
  "dfs_filesystem_get_partition part buf pindex = (let dpt = DPT_ADDRESS + pindex * DPT_ITEM_SIZE in
     if dpt + DPT_ITEM_SIZE > length buf then None
     else if buf ! dpt \<noteq> 0x80 \<and> buf ! dpt \<noteq> 0 then Some (-1, part)
     else if buf ! (dpt + 4) = 0 then Some (-1, part)
     else Some (0, \<lparr>part_type = buf ! (dpt + 4), part_offset = u32_at (dpt + 8) buf, part_size = u32_at (dpt + 12) buf\<rparr>))"

subsection \<open>dfs_file.c: directories and control\<close>

definition dfs_file_getdents :: "nat \<Rightarrow> nat \<Rightarrow> ('v, 'h) dfs_sys \<Rightarrow> int \<times> dirent list \<times> ('v, 'h) dfs_sys" where
  "dfs_file_getdents d nbytes S = (let f = fd_table (core S) ! d in
     if fd_type f \<noteq> FT_DIRECTORY then (- EINVAL, [], S)
     else case fd_fs f of None \<Rightarrow> (0, [], core_upd crash S)
       | Some m \<Rightarrow> (case slot_kind S ! m of None \<Rightarrow> (0, [], core_upd crash S)
         | Some k \<Rightarrow> (case k_getdents k of None \<Rightarrow> (- ENOSYS, [], S)
           | Some op \<Rightarrow> (case op f nbytes (vol_of m (core S)) of (r, ds, f', v') \<Rightarrow>
               (r, ds, core_upd (vol_upd m v' \<circ> fd_upd d (\<lambda>_. f')) S)))))"

definition dfs_file_ioctl :: "nat \<Rightarrow> int \<Rightarrow> bytes \<Rightarrow> ('v, 'h) dfs_sys \<Rightarrow> int \<times> bytes \<times> ('v, 'h) dfs_sys" where
  "dfs_file_ioctl d cmd args S = (let f = fd_table (core S) ! d in
     if fd_type f \<noteq> FT_REGULAR then (- EINVAL, args, S)
     else case fd_fs f of None \<Rightarrow> (0, args, core_upd crash S)
       | Some m \<Rightarrow> (case slot_kind S ! m of None \<Rightarrow> (0, args, core_upd crash S)
         | Some k \<Rightarrow> (case k_ioctl k of None \<Rightarrow> (- ENOSYS, args, S)
           | Some op \<Rightarrow> (case op f cmd args (vol_of m (core S)) of (r, a, f', v') \<Rightarrow>
               (r, a, core_upd (vol_upd m v' \<circ> fd_upd d (\<lambda>_. f')) S)))))"

subsection \<open>dfs_posix.c: directories\<close>

text \<open>The buffer of a directory stream has room for one entry; the bytes behind it stay 0.\<close>

record DIR =
  dir_fd :: int
  dir_buf :: "dirent option"
  dir_num :: int
  dir_cur :: int

definition on_core :: "(('v, 'h) dfs \<Rightarrow> 'r \<times> ('v, 'h) dfs) \<Rightarrow> ('v, 'h) dfs_sys \<Rightarrow> 'r \<times> ('v, 'h) dfs_sys" where
  "on_core f S = (case f (core S) of (r, s) \<Rightarrow> (r, S\<lparr>core := s\<rparr>))"

definition ioctl :: "int \<Rightarrow> int \<Rightarrow> bytes \<Rightarrow> ('v, 'h) dfs_sys \<Rightarrow> int \<times> bytes \<times> ('v, 'h) dfs_sys" where
  "ioctl fildes cmd data S = (case fd_get fildes (core S) of
     (None, s1) \<Rightarrow> (-1, data, S\<lparr>core := set_errno (- EBADF) s1\<rparr>)
   | (Some d, s1) \<Rightarrow> (case dfs_file_ioctl d cmd data (S\<lparr>core := s1\<rparr>) of (r, a, S2) \<Rightarrow>
       if r \<noteq> 0 then (-1, a, core_upd (fd_put d \<circ> set_errno r) S2) else (r, a, core_upd (fd_put d) S2)))"

definition statfs_call :: "string \<Rightarrow> ('v, 'h) dfs_sys \<Rightarrow> int \<times> statfs option \<times> ('v, 'h) dfs_sys" where
  "statfs_call path S = (case dfs_statfs path S of (r, b) \<Rightarrow>
     if r < 0 then (-1, b, core_upd (set_errno r) S) else (r, b, S))"

definition mkdir :: "string \<Rightarrow> ('v, 'h) dfs_sys \<Rightarrow> int \<times> ('v, 'h) dfs_sys" where
  "mkdir path = on_core (\<lambda>s. case fd_new s of (fd, s1) \<Rightarrow>
     if fd = -1 then (-1, set_errno (- ENOMEM) s1)
     else (case fd_get fd s1 of (None, s2) \<Rightarrow> (-1, set_errno (- EINVAL) s2)
       | (Some d, s2) \<Rightarrow> (case dfs_file_open d path (O_DIRECTORY OR O_CREAT) s2 of (r, s3) \<Rightarrow>
           if r < 0 then (-1, set_errno r (fd_put d (fd_put d s3)))
           else (0, fd_put d (fd_put d (snd (dfs_file_close d s3)))))))"

definition rmdir :: "string \<Rightarrow> ('v, 'h) dfs_sys \<Rightarrow> int \<times> ('v, 'h) dfs_sys" where
  "rmdir pathname = on_core (\<lambda>s. case dfs_file_unlink pathname s of (r, s1) \<Rightarrow> if r < 0 then (-1, set_errno r s1) else (0, s1))"

definition opendir :: "string \<Rightarrow> ('v, 'h) dfs_sys \<Rightarrow> DIR option \<times> ('v, 'h) dfs_sys" where
  "opendir name = on_core (\<lambda>s. case fd_new s of (fd, s1) \<Rightarrow>
     if fd = -1 then (None, set_errno (- ENOMEM) s1)
     else (case fd_get fd s1 of (None, s2) \<Rightarrow> (None, set_errno (- EINVAL) s2)
       | (Some d, s2) \<Rightarrow> (case dfs_file_open d name (O_RDONLY OR O_DIRECTORY) s2 of (r, s3) \<Rightarrow>
           if r < 0 then (None, set_errno r (fd_put d (fd_put d s3)))
           else (case rt_malloc s3 of (ok, s4) \<Rightarrow>
             if ok then (Some \<lparr>dir_fd = fd, dir_buf = None, dir_num = 0, dir_cur = 0\<rparr>, fd_put d s4)
             else (None, fd_put d (fd_put d (snd (dfs_file_close d s4))))))))"

definition reclen_at :: "DIR \<Rightarrow> int" where
  "reclen_at D = (case dir_buf D of None \<Rightarrow> 0 | Some e \<Rightarrow> if dir_cur D = 0 then int (unat (d_reclen e)) else 0)"

text \<open>\<open>readdir\<close> returns the entry at the current place of the buffer.\<close>

definition readdir :: "DIR \<Rightarrow> ('v, 'h) dfs_sys \<Rightarrow> dirent option \<times> DIR \<times> ('v, 'h) dfs_sys" where
  "readdir D S = (case fd_get (dir_fd D) (core S) of
     (None, s1) \<Rightarrow> (None, D, S\<lparr>core := set_errno (- EBADF) s1\<rparr>)
   | (Some d, s1) \<Rightarrow> let S1 = S\<lparr>core := s1\<rparr>; D1 = (if dir_num D \<noteq> 0 then D\<lparr>dir_cur := dir_cur D + reclen_at D\<rparr> else D) in
       if dir_num D1 = 0 \<or> dir_cur D1 \<ge> dir_num D1 then
         (case dfs_file_getdents d 511 S1 of (r, ds, S2) \<Rightarrow>
            if r \<le> 0 then (None, D1, core_upd (set_errno r \<circ> fd_put d) S2)
            else (case ds of [] \<Rightarrow> dir_buf D1 | e # _ \<Rightarrow> Some e,
              D1\<lparr>dir_num := r, dir_cur := 0, dir_buf := (case ds of [] \<Rightarrow> dir_buf D1 | e # _ \<Rightarrow> Some e)\<rparr>, core_upd (fd_put d) S2))
       else (dir_buf D1, D1, core_upd (fd_put d) S1))"

definition telldir :: "DIR \<Rightarrow> ('v, 'h) dfs_sys \<Rightarrow> int \<times> ('v, 'h) dfs_sys" where
  "telldir D S = (case fd_get (dir_fd D) (core S) of
     (None, s1) \<Rightarrow> (0, S\<lparr>core := set_errno (- EBADF) s1\<rparr>)
   | (Some d, s1) \<Rightarrow> (sint (fd_pos (fd_table s1 ! d)) - dir_num D + dir_cur D, S\<lparr>core := fd_put d s1\<rparr>))"

definition seekdir :: "DIR \<Rightarrow> int \<Rightarrow> ('v, 'h) dfs_sys \<Rightarrow> DIR \<times> ('v, 'h) dfs_sys" where
  "seekdir D offset S = (case fd_get (dir_fd D) (core S) of
     (None, s1) \<Rightarrow> (D, S\<lparr>core := set_errno (- EBADF) s1\<rparr>)
   | (Some d, s1) \<Rightarrow> (case dfs_file_lseek d offset s1 of (r, s2) \<Rightarrow>
       (if 0 \<le> r then D\<lparr>dir_num := 0, dir_cur := 0\<rparr> else D, S\<lparr>core := fd_put d s2\<rparr>)))"

definition rewinddir :: "DIR \<Rightarrow> ('v, 'h) dfs_sys \<Rightarrow> DIR \<times> ('v, 'h) dfs_sys" where
  "rewinddir D S = (case fd_get (dir_fd D) (core S) of
     (None, s1) \<Rightarrow> (D, S\<lparr>core := set_errno (- EBADF) s1\<rparr>)
   | (Some d, s1) \<Rightarrow> (case dfs_file_lseek d 0 s1 of (r, s2) \<Rightarrow>
       (if 0 \<le> r then D\<lparr>dir_num := 0, dir_cur := 0\<rparr> else D, S\<lparr>core := fd_put d s2\<rparr>)))"

definition closedir :: "DIR \<Rightarrow> ('v, 'h) dfs_sys \<Rightarrow> int \<times> ('v, 'h) dfs_sys" where
  "closedir D = on_core (\<lambda>s. case fd_get (dir_fd D) s of
     (None, s1) \<Rightarrow> (-1, set_errno (- EBADF) s1)
   | (Some d, s1) \<Rightarrow> (case dfs_file_close d s1 of (r, s2) \<Rightarrow> let s3 = fd_put d (fd_put d s2) in
       if r < 0 then (-1, set_errno r s3) else (0, s3)))"

subsection \<open>dfs_ramfs.c\<close>

definition dfs_ramfs_mount :: "nat option \<Rightarrow> u32 \<Rightarrow> ramfs option \<Rightarrow> int \<times> ramfs option" where
  "dfs_ramfs_mount dev rwflag data = (if data = None then (- EIO, None) else (0, data))"

text \<open>The volume itself belongs to the caller and outlives the mount.\<close>

definition dfs_ramfs_unmount :: "ramfs \<Rightarrow> int" where
  "dfs_ramfs_unmount v = 0"

text \<open>The sizes of the driver's heap are arguments.\<close>

definition dfs_ramfs_statfs :: "u32 \<Rightarrow> u32 \<Rightarrow> ramfs \<Rightarrow> int \<times> statfs" where
  "dfs_ramfs_statfs pool_size available_size v = (0, \<lparr>f_bsize = 512, f_blocks = pool_size div 512, f_bfree = available_size div 512\<rparr>)"

definition dfs_ramfs_ioctl :: "rf_ptr dfs_fd \<Rightarrow> int \<Rightarrow> bytes \<Rightarrow> ramfs \<Rightarrow> int \<times> bytes \<times> rf_ptr dfs_fd \<times> ramfs" where
  "dfs_ramfs_ioctl file cmd args v = (- EIO, args, file, v)"

definition DFS_DT_REG :: u8 where "DFS_DT_REG = 1"
definition RT_NAME_MAX :: u8 where "RT_NAME_MAX = 16"

fun rf_dents :: "(nat \<times> ramfs_dirent) list \<Rightarrow> u32 \<Rightarrow> u32 \<Rightarrow> u32 \<Rightarrow> dirent list \<times> u32" where
  "rf_dents [] index e pos = ([], pos)"
| "rf_dents ((_, d) # ds) index e pos =
     (if index < e then
        if index \<ge> pos then
          (case rf_dents ds (index + 1) e (pos + 1) of (es, p) \<Rightarrow>
            (\<lparr>d_type = DFS_DT_REG, d_namlen = RT_NAME_MAX, d_reclen = of_nat SIZEOF_DIRENT, d_name = take RAMFS_NAME_MAX (rd_name d)\<rparr> # es, p))
        else rf_dents ds (index + 1) e pos
      else ([], pos))"

definition dfs_ramfs_getdents :: "rf_ptr dfs_fd \<Rightarrow> nat \<Rightarrow> ramfs \<Rightarrow> int \<times> dirent list \<times> rf_ptr dfs_fd \<times> ramfs" where
  "dfs_ramfs_getdents file count v =
     (if fd_data file \<noteq> Some RfRoot then (- EINVAL, [], file, v)
      else let n = count div SIZEOF_DIRENT in
        if n = 0 then (- EINVAL, [], file, v)
        else case rf_dents (rf_list v) 0 (fd_pos file + of_nat n) (fd_pos file) of (es, p) \<Rightarrow>
          (int (length es * SIZEOF_DIRENT), es, file\<lparr>fd_pos := p\<rparr>, v))"

definition ramfs_kind :: "u32 \<Rightarrow> u32 \<Rightarrow> (ramfs, rf_ptr) fs_kind" where
  "ramfs_kind pool_size available_size = \<lparr>k_name = ''ram'', k_ops = ramfs_ops, k_mount = Some dfs_ramfs_mount,
     k_unmount = Some dfs_ramfs_unmount, k_mkfs = None, k_statfs = Some (dfs_ramfs_statfs pool_size available_size),
     k_ioctl = Some dfs_ramfs_ioctl, k_getdents = Some dfs_ramfs_getdents\<rparr>"

definition dfs_ramfs_init :: "u32 \<Rightarrow> u32 \<Rightarrow> (ramfs, rf_ptr) dfs_sys \<Rightarrow> int \<times> (ramfs, rf_ptr) dfs_sys" where
  "dfs_ramfs_init pool_size available_size S = (0, snd (dfs_register (ramfs_kind pool_size available_size) S))"

text \<open>\<open>init\<close> says whether a heap can be set up in so many bytes, \<open>hdr\<close> is the size of the file system object, \<open>heap\<close> and
  \<open>junk\<close> describe that heap.\<close>

definition dfs_ramfs_create :: "(u32 \<Rightarrow> bool) \<Rightarrow> u32 \<Rightarrow> (nat \<Rightarrow> nat \<Rightarrow> bool) \<Rightarrow> (nat \<Rightarrow> u8) \<Rightarrow> u32 \<Rightarrow> ramfs option" where
  "dfs_ramfs_create init hdr heap junk n =
     (if init (((n AND NOT 3) - hdr) AND NOT 3)
      then Some \<lparr>rf_root = \<lparr>rd_name = ''.'', rd_data = None, rd_size = 0\<rparr>, rf_list = [], rf_next = 0, rf_heap = heap,
        rf_calls = 0, rf_junk = junk, rf_errno = 0, rf_fault = False\<rparr>
      else None)"

end
