(* ===== verification/DfsDirs.thy ===== *)
theory DfsDirs imports DfsMount Board begin

text \<open>The properties of mounting and of directories: which mount answers for a path, mounting the RAM file system on a
  fresh system, listing its directory, and what unmounting leaves behind.\<close>

subsection \<open>Which mount answers\<close>

definition covers :: "string \<Rightarrow> string \<Rightarrow> bool" where
  "covers mp path = (take (length mp) path = mp \<and> (1 < length mp \<and> length mp < length path \<longrightarrow> path ! length mp = CHR ''/''))"

definition mounted_at :: "('v, 'h) dfs \<Rightarrow> nat \<Rightarrow> string \<Rightarrow> bool" where
  "mounted_at s i mp = (fs_path (filesystem_table s ! i) = Some mp \<and> fs_ops (filesystem_table s ! i) \<noteq> None)"

definition best_mount :: "('v, 'h) dfs \<Rightarrow> string \<Rightarrow> nat \<Rightarrow> nat option \<Rightarrow> nat \<Rightarrow> bool" where
  "best_mount s path n r len = (case r of
     None \<Rightarrow> len = 0 \<and> (\<forall>i < n. \<forall>mp. mounted_at s i mp \<longrightarrow> \<not> covers mp path)
   | Some i \<Rightarrow> i < n \<and> (\<exists>mp. mounted_at s i mp \<and> covers mp path \<and> length mp = len
       \<and> (\<forall>j < n. \<forall>q. mounted_at s j q \<and> covers q path \<longrightarrow> length q \<le> len)))"

lemma lookup_step_best:
  assumes "best_mount s path n (fst acc) (snd acc)"
  shows "best_mount s path (Suc n) (fst (lookup_step path s acc n)) (snd (lookup_step path s acc n))"
proof -
  obtain r len where a: "acc = (r, len)" by (cases acc)
  show ?thesis
  proof (cases "\<exists>mp. mounted_at s n mp \<and> covers mp path \<and> len \<le> length mp")
    case True
    then obtain mp where mp: "mounted_at s n mp" "covers mp path" "len \<le> length mp" by blast
    then have "lookup_step path s acc n = (Some n, length mp)"
      by (auto simp: lookup_step_def a mounted_at_def covers_def Let_def)
    moreover have "length q \<le> length mp" if "j < Suc n" "mounted_at s j q" "covers q path" for j q
      using assms that mp by (auto simp: a best_mount_def less_Suc_eq mounted_at_def split: option.splits)
    ultimately show ?thesis using mp by (auto simp: best_mount_def)
  next
    case False
    then have "lookup_step path s acc n = acc"
      by (auto simp: lookup_step_def a mounted_at_def covers_def Let_def split: option.splits)
    moreover have "length q \<le> len" if "mounted_at s n q" "covers q path" for q using False that by auto
    ultimately show ?thesis using assms False
      by (auto simp: a best_mount_def less_Suc_eq split: option.splits)
  qed
qed

lemma lookup_best: "best_mount s path n (fst (foldl (lookup_step path s) (None, 0) [0..<n])) (snd (foldl (lookup_step path s) (None, 0) [0..<n]))"
proof (induction n)
  case 0
  show ?case by (simp add: best_mount_def)
next
  case (Suc n)
  then show ?case using lookup_step_best [OF Suc.IH] by simp
qed

text \<open>The mount that answers for a path is one whose mount point covers the path up to a separator, and no longer mount
  point does; when none covers it, none answers.\<close>

theorem lookup_finds_longest_mount:
  "case dfs_filesystem_lookup path s of
     None \<Rightarrow> (\<forall>i < DFS_FILESYSTEMS_MAX. \<forall>mp. mounted_at s i mp \<longrightarrow> \<not> covers mp path)
   | Some i \<Rightarrow> i < DFS_FILESYSTEMS_MAX \<and> (\<exists>mp. mounted_at s i mp \<and> covers mp path
       \<and> (\<forall>j < DFS_FILESYSTEMS_MAX. \<forall>q. mounted_at s j q \<and> covers q path \<longrightarrow> length q \<le> length mp))"
  using lookup_best [of s path DFS_FILESYSTEMS_MAX]
  by (auto simp: dfs_filesystem_lookup_def best_mount_def split: option.splits)

theorem lookup_finds_longest_mount_witness:
  "dfs_filesystem_lookup ''/a'' (board_init []) = Some 0 \<and> (\<exists>mp. mounted_at (board_init []) 0 mp \<and> covers mp ''/a'')"
proof -
  have "dfs_filesystem_lookup ''/a'' (board_init []) = Some 0" unfolding board_init_def by (rule lookup_root) (simp add: fpath_def)
  then show ?thesis using lookup_finds_longest_mount [where path = "''/a''" and s = "board_init []"] by auto
qed

subsection \<open>The root directory\<close>

lemma norm_root: "norm_loop ''/'' [] = Some ''/''"
  by (simp add: norm_loop.simps skip_slashes_def)

lemma normalize_root [io_simps]: "dfs_normalize_path None ''/'' (mstate D emp f v e h) = (NPath ''/'', mstate D emp f v e (Suc h))"
  by (simp add: dfs_normalize_path_def mstate_malloc norm_root norm_finish_def)

lemma lookup_root_dir [io_simps]: "dfs_filesystem_lookup ''/'' (mstate D emp f v e h) = Some 0"
  by (simp add: dfs_filesystem_lookup_def DFS_FILESYSTEMS_MAX_def lookup_step_def mstate_def upt_conv_Cons Let_def)

lemma subdir_root_dir [io_simps]: "dfs_subdir ''/'' ''/'' = None"
  by (simp add: dfs_subdir_def)

lemma ramfs_lookup_root: "dfs_ramfs_lookup v ''/'' = Some RfRoot"
  by (simp add: dfs_ramfs_lookup_def skip_slashes_def)

definition root_fd :: "ramfs \<Rightarrow> nat \<Rightarrow> rf_ptr dfs_fd" where
  "root_fd v k = \<lparr>fd_magic = DFS_FD_MAGIC, fd_type = FT_DIRECTORY, fd_path = Some ''/'', ref_count = 1, fd_fs = Some 0,
     fd_flags = (O_RDONLY OR O_DIRECTORY) OR DFS_F_OPEN OR DFS_F_DIRECTORY, fd_size = rd_size (rf_root v), fd_pos = of_nat k, fd_data = Some RfRoot\<rparr>"

definition ram_sys :: "u32 \<Rightarrow> u32 \<Rightarrow> (ramfs, rf_ptr) dfs \<Rightarrow> (ramfs, rf_ptr) dfs_sys \<Rightarrow> bool" where
  "ram_sys p a s S = (core S = s \<and> slot_kind S \<noteq> [] \<and> slot_kind S ! 0 = Some (ramfs_kind p a))"

lemma opendir_root:
  assumes "ram_sys p a (mstate ramfs_ops emp fd_zero v e h) S"
  shows "opendir ''/'' S = (Some \<lparr>dir_fd = 0, dir_buf = None, dir_num = 0, dir_cur = 0\<rparr>, S\<lparr>core := mstate ramfs_ops emp (root_fd v 0) v e (h + 3)\<rparr>)"
proof -
  have fl: "(O_RDONLY OR O_DIRECTORY) AND O_DIRECTORY \<noteq> 0" "(O_RDONLY OR O_DIRECTORY) AND O_CREAT = 0" "(O_RDONLY OR O_DIRECTORY) AND O_APPEND = 0"
    by (simp_all add: O_RDONLY_def open_flags)
  show ?thesis using assms fl
    by (simp add: opendir_def on_core_def ram_sys_def io_simps dfs_file_open_def dfs_file_open_drv_def ramfs_ops_def dfs_ramfs_open_def ramfs_lookup_root
        rf_open_fd_def rf_get_def Let_def root_fd_def or.assoc eval_nat_numeral)
      (simp add: fd_zero_def)
qed

definition entry_of :: "nat \<times> ramfs_dirent \<Rightarrow> dirent" where
  "entry_of x = \<lparr>d_type = DFS_DT_REG, d_namlen = RT_NAME_MAX, d_reclen = of_nat SIZEOF_DIRENT, d_name = take RAMFS_NAME_MAX (rd_name (snd x))\<rparr>"

lemma rf_dents_one:
  assumes "j \<le> k" "length l < 2 ^ 31" "k \<le> length l"
  shows "rf_dents (drop j l) (of_nat j) (of_nat k + 1) (of_nat k)
    = (if k < length l then ([entry_of (l ! k)], of_nat (Suc k)) else ([], of_nat k))"
  using assms(1)
proof (induction j rule: inc_induct)
  have w: "(of_nat k :: u32) < of_nat k + 1" "\<not> (of_nat k + 1 :: u32) < of_nat k + 1"
    using assms(2,3) by (simp_all add: word_less_nat_alt unat_of_nat_u32 unat_word_ariths flip: of_nat_Suc)
  case base
  show ?case
  proof (cases "k < length l")
    case True
    then have d: "drop k l = l ! k # drop (Suc k) l" by (simp add: Cons_nth_drop_Suc)
    have r: "rf_dents (drop (Suc k) l) (of_nat k + 1) (of_nat k + 1) (of_nat k + 1) = ([], of_nat k + 1 :: u32)"
      by (cases "drop (Suc k) l") auto
    show ?thesis using True w r by (cases "l ! k") (simp add: d entry_of_def add.commute)
  qed simp
next
  case (step j)
  have "j < length l" using step.hyps assms(3) by simp
  then have d: "drop j l = l ! j # drop (Suc j) l" by (simp add: Cons_nth_drop_Suc)
  have "unat (of_nat k + 1 :: u32) = Suc k" using assms(2,3) unat_of_nat_u32 [of "Suc k"] by (simp add: add.commute)
  then have w: "(of_nat j :: u32) < of_nat k + 1" "\<not> (of_nat k :: u32) \<le> of_nat j"
    using step.hyps assms(2,3) by (simp_all add: word_less_nat_alt word_le_nat_alt unat_of_nat_u32)
  show ?case using step.IH w by (cases "l ! j") (simp add: d add.commute)
qed

lemma getdents_at:
  assumes "fd_data f = Some RfRoot" "fd_pos f = of_nat k" "k \<le> length (rf_list v)" "length (rf_list v) < 2 ^ 31"
  shows "dfs_ramfs_getdents f 511 v = (if k < length (rf_list v)
    then (260, [entry_of (rf_list v ! k)], f\<lparr>fd_pos := of_nat (Suc k)\<rparr>, v) else (0, [], f\<lparr>fd_pos := of_nat k\<rparr>, v))"
  using rf_dents_one [of 0 k "rf_list v"] assms
  by (simp add: dfs_ramfs_getdents_def SIZEOF_DIRENT_def)

text \<open>The stream when \<open>k\<close> entries have been read.\<close>

definition stream_at :: "ramfs \<Rightarrow> nat \<Rightarrow> DIR \<Rightarrow> bool" where
  "stream_at v k D = (dir_fd D = 0 \<and> dir_cur D = 0 \<and> (if k = 0 then dir_num D = 0 \<and> dir_buf D = None
     else dir_num D = 260 \<and> dir_buf D = Some (entry_of (rf_list v ! (k - 1)))))"

lemma reclen: "unat (d_reclen (entry_of x)) = 260"
  by (simp add: entry_of_def SIZEOF_DIRENT_def)

lemma readdir_at:
  assumes "ram_sys p a (mstate ramfs_ops emp (root_fd v k) v e h) S" "stream_at v k D" "k \<le> length (rf_list v)" "length (rf_list v) < 2 ^ 31"
  shows "if k < length (rf_list v)
    then \<exists>D'. readdir D S = (Some (entry_of (rf_list v ! k)), D', S\<lparr>core := mstate ramfs_ops emp (root_fd v (Suc k)) v e h\<rparr>) \<and> stream_at v (Suc k) D'
    else \<exists>D'. readdir D S = (None, D', S\<lparr>core := mstate ramfs_ops emp (root_fd v k) v 0 h\<rparr>) \<and> dir_fd D' = 0"
proof -
  have s: "core S = mstate ramfs_ops emp (root_fd v k) v e h" "slot_kind S ! 0 = Some (ramfs_kind p a)"
    using assms(1) by (simp_all add: ram_sys_def)
  have g: "fd_get 0 (mstate ramfs_ops emp (root_fd v k) v e h) = (Some 0, mstate ramfs_ops emp ((root_fd v k)\<lparr>ref_count := 2\<rparr>) v e h)"
    by (simp add: mstate_fd_get root_fd_def)
  have d: "dfs_file_getdents 0 511 (S\<lparr>core := mstate ramfs_ops emp ((root_fd v k)\<lparr>ref_count := 2\<rparr>) v e h\<rparr>)
    = (if k < length (rf_list v) then (260, [entry_of (rf_list v ! k)], S\<lparr>core := mstate ramfs_ops emp ((root_fd v (Suc k))\<lparr>ref_count := 2\<rparr>) v e h\<rparr>)
       else (0, [], S\<lparr>core := mstate ramfs_ops emp ((root_fd v k)\<lparr>ref_count := 2\<rparr>) v e h\<rparr>))"
  proof -
    have "dfs_ramfs_getdents ((root_fd v k)\<lparr>ref_count := 2\<rparr>) 511 v = (if k < length (rf_list v)
      then (260, [entry_of (rf_list v ! k)], (root_fd v (Suc k))\<lparr>ref_count := 2\<rparr>, v) else (0, [], (root_fd v k)\<lparr>ref_count := 2\<rparr>, v))"
      using getdents_at [OF _ _ assms(3,4), of "(root_fd v k)\<lparr>ref_count := 2\<rparr>"] by (simp add: root_fd_def)
    then show ?thesis
      by (simp add: dfs_file_getdents_def Let_def io_simps s ramfs_kind_def core_upd_def root_fd_def)
  qed
  have p: "fd_put 0 (mstate ramfs_ops emp ((root_fd v j)\<lparr>ref_count := 2\<rparr>) v e' h) = mstate ramfs_ops emp (root_fd v j) v e' h" for j e'
    by (simp add: mstate_fd_put root_fd_def)
  let ?D = "if dir_num D \<noteq> 0 then D\<lparr>dir_cur := dir_cur D + reclen_at D\<rparr> else D"
  have c: "dir_num ?D = 0 \<or> dir_cur ?D \<ge> dir_num ?D" "dir_fd ?D = 0" "dir_fd D = 0"
    using assms(2) by (auto simp: stream_at_def reclen_at_def reclen split: if_splits)
  have "readdir D S = (if k < length (rf_list v)
    then (Some (entry_of (rf_list v ! k)), ?D\<lparr>dir_num := 260, dir_cur := 0, dir_buf := Some (entry_of (rf_list v ! k))\<rparr>, S\<lparr>core := mstate ramfs_ops emp (root_fd v (Suc k)) v e h\<rparr>)
    else (None, ?D, S\<lparr>core := mstate ramfs_ops emp (root_fd v k) v 0 h\<rparr>))"
    unfolding readdir_def s(1) c(3) g Let_def option.case prod.case d by (simp only: c(1) if_True) (simp add: p core_upd_def mstate_errno)
  then show ?thesis using c(2) by (simp add: stream_at_def)
qed

fun list_dir :: "nat \<Rightarrow> DIR \<Rightarrow> (ramfs, rf_ptr) dfs_sys \<Rightarrow> string list \<times> DIR \<times> (ramfs, rf_ptr) dfs_sys" where
  "list_dir 0 D S = ([], D, S)"
| "list_dir (Suc n) D S = (case readdir D S of (None, D1, S1) \<Rightarrow> ([], D1, S1)
     | (Some e, D1, S1) \<Rightarrow> (case list_dir n D1 S1 of (es, D2, S2) \<Rightarrow> (d_name e # es, D2, S2)))"

lemma list_dir_at:
  assumes "ram_sys p a (mstate ramfs_ops emp (root_fd v k) v e h) S" "stream_at v k D" "k \<le> length (rf_list v)" "length (rf_list v) < 2 ^ 31"
    "length (rf_list v) - k < n"
  shows "\<exists>D'. list_dir n D S = (map (d_name \<circ> entry_of) (drop k (rf_list v)), D',
    S\<lparr>core := mstate ramfs_ops emp (root_fd v (length (rf_list v))) v 0 h\<rparr>) \<and> dir_fd D' = 0"
  using assms
proof (induction n arbitrary: k D S)
  case (Suc n)
  show ?case
  proof (cases "k < length (rf_list v)")
    case True
    obtain D1 where r: "readdir D S = (Some (entry_of (rf_list v ! k)), D1, S\<lparr>core := mstate ramfs_ops emp (root_fd v (Suc k)) v e h\<rparr>)" "stream_at v (Suc k) D1"
      using readdir_at [OF Suc.prems(1-4)] True by auto
    have s: "ram_sys p a (mstate ramfs_ops emp (root_fd v (Suc k)) v e h) (S\<lparr>core := mstate ramfs_ops emp (root_fd v (Suc k)) v e h\<rparr>)"
      using Suc.prems(1) by (simp add: ram_sys_def)
    have d: "drop k (rf_list v) = rf_list v ! k # drop (Suc k) (rf_list v)" using True by (simp add: Cons_nth_drop_Suc)
    have l: "Suc k \<le> length (rf_list v)" "length (rf_list v) - Suc k < n" using Suc.prems(5) True by simp_all
    show ?thesis using Suc.IH [OF s r(2) l(1) Suc.prems(4) l(2)] by (auto simp: r(1) d)
  next
    case False
    then have k: "k = length (rf_list v)" using Suc.prems(3) by simp
    then show ?thesis using readdir_at [OF Suc.prems(1-4)] by auto
  qed
qed simp

lemma closedir_root:
  assumes "core S = mstate ramfs_ops emp (root_fd v k) v e h" "dir_fd D = 0"
  shows "closedir D S = (0, S\<lparr>core := mstate ramfs_ops emp fd_zero v e h\<rparr>)"
  using assms by (simp add: closedir_def on_core_def io_simps dfs_file_close_def ramfs_ops_def dfs_ramfs_close_def root_fd_def Let_def)

text \<open>C24: Opening the root directory of a RAM file system, reading it until no entry is left and closing it gives the names
  of its files, each once and in the order of the list, and leaves the file system as it was.\<close>

theorem directory_is_listed:
  assumes "core S = mstate ramfs_ops emp fd_zero v e h" "slot_kind S = Some (ramfs_kind p a) # ks" "rf_wf cap v" "length (rf_list v) < 2 ^ 31"
    "\<forall>(i, d) \<in> set (rf_list v). length (rd_name d) < 32" "length (rf_list v) < n"
  shows "\<exists>D S1 D2 S2 e'. opendir ''/'' S = (Some D, S1) \<and> list_dir n D S1 = (map (rd_name \<circ> snd) (rf_list v), D2, S2)
    \<and> closedir D2 S2 = (0, S\<lparr>core := mstate ramfs_ops emp fd_zero v e' (h + 3)\<rparr>)"
proof -
  let ?S1 = "S\<lparr>core := mstate ramfs_ops emp (root_fd v 0) v e (h + 3)\<rparr>" and ?D = "\<lparr>dir_fd = 0, dir_buf = None, dir_num = 0, dir_cur = 0\<rparr>"
  have r: "ram_sys p a (mstate ramfs_ops emp fd_zero v e h) S" "ram_sys p a (mstate ramfs_ops emp (root_fd v 0) v e (h + 3)) ?S1"
    using assms(1,2) by (simp_all add: ram_sys_def)
  have "stream_at v 0 ?D" by (simp add: stream_at_def)
  from list_dir_at [OF r(2) this _ assms(4)] assms(6)
  obtain D2 where D2: "list_dir n ?D ?S1 = (map (d_name \<circ> entry_of) (rf_list v), D2,
      ?S1\<lparr>core := mstate ramfs_ops emp (root_fd v (length (rf_list v))) v 0 (h + 3)\<rparr>)" "dir_fd D2 = 0" by auto
  have n: "map (d_name \<circ> entry_of) (rf_list v) = map (rd_name \<circ> snd) (rf_list v)"
    using assms(5) by (auto simp: entry_of_def RAMFS_NAME_MAX_def)
  have "closedir D2 (?S1\<lparr>core := mstate ramfs_ops emp (root_fd v (length (rf_list v))) v 0 (h + 3)\<rparr>)
      = (0, S\<lparr>core := mstate ramfs_ops emp fd_zero v 0 (h + 3)\<rparr>)"
    using D2(2) by (subst closedir_root) auto
  then show ?thesis using opendir_root [OF r(1)] D2(1) unfolding n by blast
qed

definition demo_sys :: "board \<Rightarrow> (ramfs, rf_ptr) dfs_sys" where
  "demo_sys s = \<lparr>core = s, filesystem_operation_table = [Some (ramfs_kind 4096 1024), None, None, None],
     slot_kind = [Some (ramfs_kind 4096 1024), None], slot_dev = [None, None], dev_log = []\<rparr>"

theorem directory_is_listed_witness:
  "let v = board_vol [(''cfg'', [1]), (''log'', [2, 3])]; s = board_init [(''cfg'', [1]), (''log'', [2, 3])];
     emp = \<lparr>fs_path = None, fs_ops = None, fs_data = board_vol []\<rparr> in
   \<exists>D S1 D2 S2 e'. opendir ''/'' (demo_sys s) = (Some D, S1) \<and> list_dir 5 D S1 = (map (rd_name \<circ> snd) (rf_list v), D2, S2)
    \<and> closedir D2 S2 = (0, (demo_sys s)\<lparr>core := mstate ramfs_ops emp fd_zero v e' (0 + 3)\<rparr>)"
  unfolding Let_def
proof (rule directory_is_listed)
  show "core (demo_sys (board_init [(''cfg'', [1]), (''log'', [2, 3])])) = mstate ramfs_ops \<lparr>fs_path = None, fs_ops = None, fs_data = board_vol []\<rparr> fd_zero
     (board_vol [(''cfg'', [1]), (''log'', [2, 3])]) 0 0" by (simp add: demo_sys_def board_init_def)
  show "rf_wf disk_cap (board_vol [(''cfg'', [1]), (''log'', [2, 3])])" by (rule board_vol_wf) (simp_all add: disk_cap_def)
qed (simp_all add: demo_sys_def board_vol_def board_dirents_def)

subsection \<open>Mounting\<close>

text \<open>Starting the virtual file system, registering the RAM file system and mounting a volume at the root gives the state
  from which the calls meet the contract of the application's files.\<close>

theorem boot_mounts_ramfs:
  assumes "heap_ok (core S) = (\<lambda>_. True)" "\<not> dfs_crash (core S)"
  shows "\<exists>S'. dfs_mount E junk None ''/'' ''ram'' 0 (Some v) (snd (dfs_ramfs_init p a (snd (dfs_init v0 S)))) = (0, S')
    \<and> core S' = mstate ramfs_ops (free_slot v0) fd_zero v (dfs_errno (core S)) (Suc (heap_calls (core S)))
    \<and> slot_kind S' = [Some (ramfs_kind p a), None] \<and> slot_dev S' = [None, None] \<and> dev_log S' = dev_log S"
proof -
  obtain s where s: "core S = s" by simp
  let ?S1 = "snd (dfs_ramfs_init p a (snd (dfs_init v0 S)))"
  have c: "core ?S1 = s\<lparr>filesystem_table := replicate 2 (free_slot v0), fd_table := replicate 4 fd_zero\<rparr>"
    "filesystem_operation_table ?S1 = [Some (ramfs_kind p a), None, None, None]" "slot_kind ?S1 = [None, None]" "slot_dev ?S1 = [None, None]" "dev_log ?S1 = dev_log S"
    by (simp_all add: dfs_ramfs_init_def dfs_register_def dfs_init_def DFS_FILESYSTEM_TYPES_MAX_def DFS_FILESYSTEMS_MAX_def DFS_FD_MAX_def s numeral_eq_Suc)
  have k: "k_name (ramfs_kind p a) = ''ram''" "k_mount (ramfs_kind p a) = Some dfs_ramfs_mount" "k_ops (ramfs_kind p a) = ramfs_ops"
    by (simp_all add: ramfs_kind_def)
  show ?thesis using assms
    by (simp add: dfs_mount_def c k s dfs_normalize_path_def rt_malloc_def norm_root norm_finish_def mount_slot_def fs_slots_def DFS_FILESYSTEMS_MAX_def
        free_slot_def mount_at_def set_slot_def log_dev_def dfs_ramfs_mount_def core_upd_def vol_upd_def Let_def numeral_2_eq_2 mstate_def)
      (cases s; simp add: numeral_eq_Suc)
qed

theorem boot_mounts_ramfs_witness:
  "\<exists>S'. dfs_mount \<lparr>dev_find = (\<lambda>_. None), dev_opens = (\<lambda>_. True)\<rparr> fd_zero None ''/'' ''ram'' 0 (Some (board_vol []))
      (snd (dfs_ramfs_init 4096 4096 (snd (dfs_init (board_vol []) (demo_sys (board_init [])))))) = (0, S')
    \<and> core S' = mstate ramfs_ops (free_slot (board_vol [])) fd_zero (board_vol []) (dfs_errno (core (demo_sys (board_init [])))) (Suc (heap_calls (core (demo_sys (board_init [])))))
    \<and> slot_kind S' = [Some (ramfs_kind 4096 4096), None] \<and> slot_dev S' = [None, None] \<and> dev_log S' = dev_log (demo_sys (board_init []))"
  by (rule boot_mounts_ramfs) (simp_all add: demo_sys_def board_init_def mstate_def)

text \<open>Unmounting does not look for open files: a descriptor of the file system stays open, and the next control call on
  it reads the operations of the cleared mount entry through a null pointer.\<close>

theorem unmount_leaves_files_open:
  assumes "core S = mstate ramfs_ops emp f v e h" "slot_kind S = Some (ramfs_kind p a) # ks" "fd_fs f = Some 0" "fd_magic f = DFS_FD_MAGIC" "fd_type f = FT_REGULAR"
  shows "\<exists>S'. dfs_unmount ''/'' S = (0, S') \<and> fd_table (core S') ! 0 = f \<and> \<not> dfs_crash (core S')
    \<and> dfs_crash (core (snd (snd (ioctl 0 cmd args S'))))"
proof -
  let ?S1 = "S\<lparr>core := mstate ramfs_ops emp f v e (Suc h)\<rparr>"
  let ?S' = "clear_slot 0 (log_dev False (slot_dev S ! 0) ?S1)"
  have sl: "fs_slots ?S1 = [\<lparr>fs_path = Some ''/'', fs_ops = Some ramfs_ops, fs_data = v\<rparr>, emp\<lparr>fs_path := None\<rparr>]"
    by (simp add: fs_slots_def mstate_def DFS_FILESYSTEMS_MAX_def)
  have u: "dfs_unmount ''/'' S = (0, ?S')"
    using assms(2) by (simp add: dfs_unmount_def assms(1) normalize_root sl ramfs_kind_def dfs_ramfs_unmount_def)
  have c: "core (log_dev False x X) = core X" "slot_kind (log_dev False x X) = slot_kind X" for x and X :: "('a, 'b) dfs_sys"
    by (simp_all add: log_dev_def split: option.split)
  have m: "fd_table (core ?S') = [f, fd_zero, fd_zero, fd_zero]" "\<not> dfs_crash (core ?S')" "slot_kind ?S' = None # ks"
    using assms(2) by (simp_all add: clear_slot_def set_slot_def c) (simp_all add: mstate_def)
  obtain s where s: "core ?S' = s" by simp
  have "dfs_crash (core (snd (snd (ioctl 0 cmd args ?S'))))"
    using m assms(3-5) unfolding ioctl_def s
    by (simp add: fd_get_def fd_upd_def dfs_file_ioctl_def core_upd_def crash_def set_errno_def fd_put_def DFS_FD_MAX_def Let_def)
  then show ?thesis using u m by auto
qed

theorem unmount_leaves_files_open_witness:
  "let S = demo_sys (mstate ramfs_ops (free_slot (board_vol [])) (fd_zero\<lparr>fd_magic := DFS_FD_MAGIC, fd_fs := Some 0, ref_count := 1\<rparr>) (board_vol []) 0 0) in
   \<exists>S'. dfs_unmount ''/'' S = (0, S') \<and> fd_table (core S') ! 0 = fd_zero\<lparr>fd_magic := DFS_FD_MAGIC, fd_fs := Some 0, ref_count := 1\<rparr> \<and> \<not> dfs_crash (core S')
    \<and> dfs_crash (core (snd (snd (ioctl 0 1 [] S'))))"
  unfolding Let_def by (rule unmount_leaves_files_open) (simp_all add: demo_sys_def fd_zero_def FT_REGULAR_def)

text \<open>With a free entry in the table of file systems, mounting one that is not registered reads a null pointer.\<close>

theorem unknown_type_crashes:
  assumes "\<forall>k. Some k \<in> set t \<longrightarrow> k_name k \<noteq> name" "None \<in> set t" "filesystem_operation_table S = t"
  shows "dfs_crash (core (snd (dfs_mount E junk None path name rw d S)))"
proof -
  have "find_kind name t = None" using assms(1,2) by (induction name t rule: find_kind.induct) auto
  then show ?thesis using assms(3) by (simp add: dfs_mount_def core_upd_def crash_def Let_def)
qed

theorem unknown_type_crashes_witness:
  "dfs_crash (core (snd (dfs_mount \<lparr>dev_find = (\<lambda>_. None), dev_opens = (\<lambda>_. True)\<rparr> fd_zero None ''/'' ''elm'' 0 None (demo_sys (board_init [])))))"
  by (rule unknown_type_crashes [OF _ _ refl]) (simp_all add: demo_sys_def ramfs_kind_def)

text \<open>A full table takes no further file system, but registering reports success.\<close>

theorem full_table_drops_registration:
  assumes "None \<notin> set (filesystem_operation_table S)" "\<forall>k. Some k \<in> set (filesystem_operation_table S) \<longrightarrow> k_name k \<noteq> k_name ops"
  shows "dfs_register ops S = (0, S)"
proof -
  have w: "takeWhile (\<lambda>o'. o' \<noteq> None) (filesystem_operation_table S) = filesystem_operation_table S"
    unfolding takeWhile_eq_all_conv using assms(1) by metis
  show ?thesis using assms(2)
    by (auto simp: dfs_register_def w list_update_beyond Let_def list_ex_iff simp del: not_None_eq split: option.splits)
qed

theorem full_table_drops_registration_witness:
  "let S = (demo_sys (board_init []))\<lparr>filesystem_operation_table := replicate 4 (Some ((ramfs_kind 0 0)\<lparr>k_name := ''x''\<rparr>))\<rparr> in
    dfs_register (ramfs_kind 0 0) S = (0, S)"
  unfolding Let_def by (rule full_table_drops_registration) (simp_all add: ramfs_kind_def)

end
