(* ===== verification/RingBuffer.thy ===== *)
theory RingBuffer imports Prelude begin

text \<open>ringbuffer.c and the inline functions of rtdevice.h: a byte queue in a fixed buffer.  Each index has a mirror bit, which
  flips when the index wraps; equal indices mean empty when the bits agree and full when they differ.  The indices have 15
  bits and stay below the size, a positive 16-bit number, so they are naturals here.  The caller's array is a list, which
  for writing may be longer than the length passed; \<open>None\<close> is an access outside it or outside the buffer, or a failed
  assertion.\<close>

record ringbuffer =
  buffer_ptr :: bytes
  read_mirror :: bool
  read_index :: nat
  write_mirror :: bool
  write_index :: nat
  buffer_size :: nat

datatype rb_state = RT_RINGBUFFER_EMPTY | RT_RINGBUFFER_FULL | RT_RINGBUFFER_HALFFULL

definition rt_ringbuffer_init :: "bytes \<Rightarrow> nat \<Rightarrow> ringbuffer option" where
  "rt_ringbuffer_init pool n = (if n = 0 then None else Some \<lparr>buffer_ptr = pool, read_mirror = False, read_index = 0,
     write_mirror = False, write_index = 0, buffer_size = n div 4 * 4\<rparr>)"

definition rt_ringbuffer_status :: "ringbuffer \<Rightarrow> rb_state" where
  "rt_ringbuffer_status rb = (if read_index rb = write_index rb
     then if read_mirror rb = write_mirror rb then RT_RINGBUFFER_EMPTY else RT_RINGBUFFER_FULL
     else RT_RINGBUFFER_HALFFULL)"

definition rt_ringbuffer_data_len :: "ringbuffer \<Rightarrow> nat" where
  "rt_ringbuffer_data_len rb = (case rt_ringbuffer_status rb of
       RT_RINGBUFFER_EMPTY \<Rightarrow> 0
     | RT_RINGBUFFER_FULL \<Rightarrow> buffer_size rb
     | RT_RINGBUFFER_HALFFULL \<Rightarrow> if write_index rb > read_index rb then write_index rb - read_index rb
         else buffer_size rb - (read_index rb - write_index rb))"

definition rt_ringbuffer_space_len :: "ringbuffer \<Rightarrow> nat" where
  "rt_ringbuffer_space_len rb = buffer_size rb - rt_ringbuffer_data_len rb"

text \<open>Copying the first \<open>len\<close> bytes of \<open>ptr\<close> to the write position and moving it, in one or two pieces.\<close>

definition rb_copy_in :: "bytes \<Rightarrow> nat \<Rightarrow> ringbuffer \<Rightarrow> ringbuffer option" where
  "rb_copy_in ptr len rb = (if len > length ptr then None
     else if buffer_size rb - write_index rb > len
     then Some (rb\<lparr>buffer_ptr := overwrite (write_index rb) (take len ptr) (buffer_ptr rb), write_index := write_index rb + len\<rparr>)
     else let k = buffer_size rb - write_index rb in
       Some (rb\<lparr>buffer_ptr := overwrite 0 (window k (len - k) ptr) (overwrite (write_index rb) (take k ptr) (buffer_ptr rb)),
         write_mirror := \<not> write_mirror rb, write_index := len - k\<rparr>))"

definition rt_ringbuffer_put :: "bytes \<Rightarrow> nat \<Rightarrow> ringbuffer \<Rightarrow> (nat \<times> ringbuffer) option" where
  "rt_ringbuffer_put ptr len rb = (let size = rt_ringbuffer_space_len rb in
     if size = 0 then Some (0, rb)
     else let l = (if size < len then size else len) in map_option (Pair l) (rb_copy_in ptr l rb))"

definition rt_ringbuffer_put_force :: "bytes \<Rightarrow> nat \<Rightarrow> ringbuffer \<Rightarrow> (nat \<times> ringbuffer) option" where
  "rt_ringbuffer_put_force ptr len rb = (let space = rt_ringbuffer_space_len rb; l = (if len > space then buffer_size rb else len) in
     map_option (\<lambda>rb1. (l, if \<not> l > space then rb1
         else if buffer_size rb - write_index rb > l then rb1\<lparr>read_index := write_index rb1\<rparr>
         else rb1\<lparr>read_mirror := \<not> read_mirror rb, read_index := write_index rb1\<rparr>)) (rb_copy_in ptr l rb))"

definition rt_ringbuffer_get :: "nat \<Rightarrow> ringbuffer \<Rightarrow> bytes \<times> ringbuffer" where
  "rt_ringbuffer_get len rb = (let size = rt_ringbuffer_data_len rb in
     if size = 0 then ([], rb)
     else let l = (if size < len then size else len); k = buffer_size rb - read_index rb in
       if k > l then (window (read_index rb) l (buffer_ptr rb), rb\<lparr>read_index := read_index rb + l\<rparr>)
       else (window (read_index rb) k (buffer_ptr rb) @ take (l - k) (buffer_ptr rb),
             rb\<lparr>read_mirror := \<not> read_mirror rb, read_index := l - k\<rparr>))"

definition rt_ringbuffer_putchar :: "u8 \<Rightarrow> ringbuffer \<Rightarrow> nat \<times> ringbuffer" where
  "rt_ringbuffer_putchar ch rb = (if rt_ringbuffer_space_len rb = 0 then (0, rb)
     else let rb1 = rb\<lparr>buffer_ptr := (buffer_ptr rb)[write_index rb := ch]\<rparr> in
       (1, if write_index rb = buffer_size rb - 1 then rb1\<lparr>write_mirror := \<not> write_mirror rb, write_index := 0\<rparr>
           else rb1\<lparr>write_index := write_index rb + 1\<rparr>))"

definition rt_ringbuffer_putchar_force :: "u8 \<Rightarrow> ringbuffer \<Rightarrow> nat \<times> ringbuffer" where
  "rt_ringbuffer_putchar_force ch rb = (let full = (rt_ringbuffer_status rb = RT_RINGBUFFER_FULL);
       rb1 = rb\<lparr>buffer_ptr := (buffer_ptr rb)[write_index rb := ch]\<rparr> in
     (1, if write_index rb = buffer_size rb - 1
         then let rb2 = rb1\<lparr>write_mirror := \<not> write_mirror rb, write_index := 0\<rparr> in
           if full then rb2\<lparr>read_mirror := \<not> read_mirror rb, read_index := write_index rb2\<rparr> else rb2
         else let rb2 = rb1\<lparr>write_index := write_index rb + 1\<rparr> in
           if full then rb2\<lparr>read_index := write_index rb2\<rparr> else rb2))"

definition rt_ringbuffer_getchar :: "ringbuffer \<Rightarrow> u8 option \<times> ringbuffer" where
  "rt_ringbuffer_getchar rb = (if rt_ringbuffer_data_len rb = 0 then (None, rb)
     else (Some (buffer_ptr rb ! read_index rb),
       if read_index rb = buffer_size rb - 1 then rb\<lparr>read_mirror := \<not> read_mirror rb, read_index := 0\<rparr>
       else rb\<lparr>read_index := read_index rb + 1\<rparr>))"

subsection \<open>The bytes held\<close>

definition rb_holds :: "ringbuffer \<Rightarrow> bytes \<Rightarrow> bool" where
  "rb_holds rb d = (let n = buffer_size rb; r = read_index rb; w = write_index rb; b = buffer_ptr rb in
     0 < n \<and> length b = n \<and> r < n \<and> w < n
     \<and> (if read_mirror rb = write_mirror rb then r \<le> w \<and> d = window r (w - r) b else w \<le> r \<and> d = drop r b @ take w b))"

lemma rb_data_len: "rb_holds rb d \<Longrightarrow> rt_ringbuffer_data_len rb = length d \<and> length d \<le> buffer_size rb"
  by (auto simp: rb_holds_def rt_ringbuffer_data_len_def rt_ringbuffer_status_def Let_def split: if_splits)

lemma rb_full: "rb_holds rb d \<Longrightarrow> (rt_ringbuffer_status rb = RT_RINGBUFFER_FULL) = (length d = buffer_size rb)"
  by (auto simp: rb_holds_def rt_ringbuffer_status_def Let_def split: if_splits)

lemma drop_overwrite: "w + length p \<le> r \<Longrightarrow> w \<le> length b \<Longrightarrow> drop r (overwrite w p b) = drop r b"
  by (simp add: overwrite_def min_def)

lemma take_overwrite_end: "w \<le> length b \<Longrightarrow> take (w + length p) (overwrite w p b) = take w b @ p"
  by (simp add: overwrite_def min_def)

lemma window_overwrite_end: "r \<le> w \<Longrightarrow> w \<le> length b \<Longrightarrow> window r (w + length p - r) (overwrite w p b) = window r (w - r) b @ p"
proof -
  assume h: "r \<le> w" "w \<le> length b"
  then have "w + length p - r = (w - r) + length p" "length (drop r (take w b)) = w - r" by simp_all
  then show ?thesis using h by (simp add: overwrite_def window_def drop_take)
qed

lemma rb_copy_in_holds:
  assumes "rb_holds rb d" "len \<le> length ptr" "length d + len \<le> buffer_size rb" "0 < len \<or> length d < buffer_size rb"
  shows "\<exists>rb'. rb_copy_in ptr len rb = Some rb' \<and> rb_holds rb' (d @ take len ptr) \<and> buffer_size rb' = buffer_size rb
    \<and> read_index rb' = read_index rb \<and> read_mirror rb' = read_mirror rb"
proof (cases "read_mirror rb = write_mirror rb")
  case True
  let ?n = "buffer_size rb" and ?r = "read_index rb" and ?w = "write_index rb" and ?b = "buffer_ptr rb" and ?p = "take len ptr"
  have h: "length ?b = ?n" "?w < ?n" "?r \<le> ?w" "d = window ?r (?w - ?r) ?b"
    using assms(1) True by (auto simp: rb_holds_def Let_def)
  have ld: "length d = ?w - ?r" using h by simp
  have p: "length ?p = len" using assms(2) by simp
  show ?thesis
  proof (cases "?n - ?w > len")
    case fits: True
    have "window ?r (?w + len - ?r) (overwrite ?w ?p ?b) = d @ ?p"
      using window_overwrite_end [of ?r ?w ?b ?p] h p by simp
    then show ?thesis using h p True assms(2) fits by (simp add: rb_copy_in_def rb_holds_def)
  next
    case False
    let ?k = "?n - ?w"
    let ?B = "overwrite ?w (take ?k ptr) ?b" and ?q = "window ?k (len - ?k) ptr"
    have l: "?k \<le> len" "len - ?k \<le> ?r" using False assms(3) ld h(2,3) by simp_all
    have q: "length ?q = len - ?k" "length (take ?k ptr) = ?k" "take ?k ptr @ ?q = ?p"
      using l(1) assms(2) take_add [of ?k "len - ?k" ptr] by (simp_all add: window_def)
    have B: "?B = take ?w ?b @ take ?k ptr" "length ?B = ?n" using h q(2) by (simp_all add: overwrite_def)
    define B q where "B = ?B" and "q = ?q"
    note B = B [folded B_def] and q = q [folded q_def]
    have "drop ?r (overwrite 0 q B) = drop ?r B" by (rule drop_overwrite) (simp_all add: q(1) l(2))
    moreover have "take (len - ?k) (overwrite 0 q B) = q" using take_overwrite_end [of 0 B q] q(1) by simp
    moreover have "drop ?r B = d @ take ?k ptr" using h by (simp add: B(1) window_def drop_take)
    ultimately have "drop ?r (overwrite 0 q B) @ take (len - ?k) (overwrite 0 q B) = d @ ?p" using q(3) by simp
    moreover have "length (overwrite 0 q B) = ?n" using B(2) q(1) l h(2,3) by simp
    moreover have "rb_copy_in ptr len rb = Some (rb\<lparr>buffer_ptr := overwrite 0 q B, write_mirror := \<not> write_mirror rb, write_index := len - ?k\<rparr>)"
      using False assms(2) by (simp add: rb_copy_in_def B_def q_def Let_def)
    ultimately show ?thesis using h True l by (simp add: rb_holds_def)
  qed
next
  case False
  let ?n = "buffer_size rb" and ?r = "read_index rb" and ?w = "write_index rb" and ?b = "buffer_ptr rb" and ?p = "take len ptr"
  have h: "length ?b = ?n" "?r < ?n" "?w \<le> ?r" "d = drop ?r ?b @ take ?w ?b"
    using assms(1) False by (auto simp: rb_holds_def Let_def)
  then have l: "?w + len \<le> ?r" "?n - ?w > len" using assms(3) by auto
  have p: "length ?p = len" using assms(2) by simp
  have "drop ?r (overwrite ?w ?p ?b) = drop ?r ?b" "take (?w + len) (overwrite ?w ?p ?b) = take ?w ?b @ ?p"
    using drop_overwrite [of ?w ?p ?r ?b] take_overwrite_end [of ?w ?b ?p] l h p by simp_all
  then show ?thesis using h l p False assms(2) by (simp add: rb_copy_in_def rb_holds_def)
qed

end
