(* ===== verification/RingProps.thy ===== *)
theory RingProps imports RingBuffer begin

text \<open>The properties of the ring buffer: a bounded queue of bytes (locale \<open>byte_fifo\<close>, interpreted on its operations), and
  what becomes of it when more is forced in than it has room for.\<close>

subsection \<open>A queue of bytes\<close>

text \<open>The bytes accepted and the bytes given out by a sequence of operations.\<close>

datatype fifo_op = FPut bytes | FGet nat

fun fifo_run :: "(bytes \<Rightarrow> 's \<Rightarrow> (nat \<times> 's) option) \<Rightarrow> (nat \<Rightarrow> 's \<Rightarrow> bytes \<times> 's) \<Rightarrow> fifo_op list \<Rightarrow> 's \<Rightarrow> (bytes \<times> bytes \<times> 's) option" where
  "fifo_run put get [] s = Some ([], [], s)"
| "fifo_run put get (FPut p # xs) s = (case put p s of None \<Rightarrow> None | Some (n, s1) \<Rightarrow>
     map_option (\<lambda>(i, out, s2). (take n p @ i, out, s2)) (fifo_run put get xs s1))"
| "fifo_run put get (FGet n # xs) s = (case get n s of (b, s1) \<Rightarrow>
     map_option (\<lambda>(i, out, s2). (i, b @ out, s2)) (fifo_run put get xs s1))"

locale byte_fifo =
  fixes holds :: "'s \<Rightarrow> bytes \<Rightarrow> bool"
    and cap :: "'s \<Rightarrow> nat"
    and put :: "bytes \<Rightarrow> 's \<Rightarrow> (nat \<times> 's) option"
    and get :: "nat \<Rightarrow> 's \<Rightarrow> bytes \<times> 's"
  assumes put_law: "holds s d \<Longrightarrow> \<exists>s'. put p s = Some (min (length p) (cap s - length d), s') \<and> holds s' (d @ take (cap s - length d) p) \<and> cap s' = cap s"
    and get_law: "holds s d \<Longrightarrow> \<exists>s'. get n s = (take n d, s') \<and> holds s' (drop n d) \<and> cap s' = cap s"
    and bound: "holds s d \<Longrightarrow> length d \<le> cap s"
begin

lemma run_keeps_bytes:
  assumes "holds s d"
  shows "\<exists>i out s' d'. fifo_run put get xs s = Some (i, out, s') \<and> holds s' d' \<and> d @ i = out @ d' \<and> cap s' = cap s \<and> length d' \<le> cap s"
  using assms
proof (induction xs arbitrary: s d)
  case Nil
  then show ?case using bound by auto
next
  case (Cons x xs)
  show ?case
  proof (cases x)
    case (FPut p)
    let ?n = "min (length p) (cap s - length d)"
    obtain s1 where s1: "put p s = Some (?n, s1)" "holds s1 (d @ take (cap s - length d) p)" "cap s1 = cap s"
      using put_law [OF Cons.prems] by blast
    have "take ?n p = take (cap s - length d) p" by (simp add: min_def)
    then show ?thesis using Cons.IH [OF s1(2)] s1(1,3) by (auto simp: FPut)
  next
    case (FGet n)
    obtain s1 where s1: "get n s = (take n d, s1)" "holds s1 (drop n d)" "cap s1 = cap s" using get_law [OF Cons.prems] by blast
    obtain i out s' d' where r: "fifo_run put get xs s1 = Some (i, out, s')" "holds s' d'" "drop n d @ i = out @ d'" "cap s' = cap s1" "length d' \<le> cap s1"
      using Cons.IH [OF s1(2)] by blast
    have "d @ i = (take n d @ out) @ d'" using r(3) by (metis append.assoc append_take_drop_id)
    then show ?thesis using r s1 by (auto simp: FGet)
  qed
qed

end

definition rb_put :: "bytes \<Rightarrow> ringbuffer \<Rightarrow> (nat \<times> ringbuffer) option" where
  "rb_put p rb = rt_ringbuffer_put p (length p) rb"

lemma rb_put_law:
  assumes "rb_holds rb d"
  shows "\<exists>rb'. rb_put p rb = Some (min (length p) (buffer_size rb - length d), rb') \<and> rb_holds rb' (d @ take (buffer_size rb - length d) p)
    \<and> buffer_size rb' = buffer_size rb"
proof -
  have l: "rt_ringbuffer_space_len rb = buffer_size rb - length d" "length d \<le> buffer_size rb"
    using rb_data_len [OF assms] by (simp_all add: rt_ringbuffer_space_len_def)
  show ?thesis
  proof (cases "length d = buffer_size rb")
    case True
    then show ?thesis using assms l by (simp add: rb_put_def rt_ringbuffer_put_def)
  next
    case False
    let ?n = "min (length p) (buffer_size rb - length d)"
    have m: "?n \<le> length p" "length d + ?n \<le> buffer_size rb" "0 < ?n \<or> length d < buffer_size rb" using l(2) False by auto
    obtain rb' where r: "rb_copy_in p ?n rb = Some rb'" "rb_holds rb' (d @ take ?n p)" "buffer_size rb' = buffer_size rb"
      using rb_copy_in_holds [OF assms, of ?n p] m by blast
    have "(if buffer_size rb - length d < length p then buffer_size rb - length d else length p) = ?n" by simp
    then have "rb_put p rb = Some (?n, rb')" using r(1) False l by (simp add: rb_put_def rt_ringbuffer_put_def Let_def)
    moreover have "take ?n p = take (buffer_size rb - length d) p" by (simp add: min_def)
    ultimately show ?thesis using r by simp
  qed
qed

lemma rb_get_law:
  assumes "rb_holds rb d"
  shows "\<exists>rb'. rt_ringbuffer_get n rb = (take n d, rb') \<and> rb_holds rb' (drop n d) \<and> buffer_size rb' = buffer_size rb"
proof -
  let ?b = "buffer_ptr rb" and ?r = "read_index rb" and ?w = "write_index rb" and ?s = "buffer_size rb"
  have l: "rt_ringbuffer_data_len rb = length d" "length d \<le> ?s" using rb_data_len [OF assms] by simp_all
  define k where "k = (if length d < n then length d else n)"
  have t: "take n d = take k d" "drop n d = drop k d" "k \<le> length d" by (simp_all add: k_def)
  have b: "length ?b = ?s" "?r < ?s" "?w < ?s" using assms by (simp_all add: rb_holds_def Let_def)
  show ?thesis
  proof (cases "length d = 0")
    case True
    then show ?thesis using assms l by (simp add: rt_ringbuffer_get_def)
  next
    case False
    then have g: "rt_ringbuffer_get n rb = (if ?s - ?r > k then (window ?r k ?b, rb\<lparr>read_index := ?r + k\<rparr>)
        else (window ?r (?s - ?r) ?b @ take (k - (?s - ?r)) ?b, rb\<lparr>read_mirror := \<not> read_mirror rb, read_index := k - (?s - ?r)\<rparr>))"
      using l(1) by (simp add: rt_ringbuffer_get_def Let_def k_def)
    show ?thesis
    proof (cases "read_mirror rb = write_mirror rb")
      case True
      then have d: "?r \<le> ?w" "d = window ?r (?w - ?r) ?b" "length d = ?w - ?r" using assms b by (auto simp: rb_holds_def Let_def)
      then have f: "?s - ?r > k" using b(3) t(3) by linarith
      have "window ?r k ?b = take k d" "window (?r + k) (?w - (?r + k)) ?b = drop k d"
        using d t(3) by (simp_all add: d(2) window_def drop_take min_def add.commute)
      then show ?thesis unfolding t(1,2) g using f True d t(3) b by (auto simp: rb_holds_def Let_def)
    next
      case False
      then have d: "?w \<le> ?r" "d = drop ?r ?b @ take ?w ?b" using assms by (auto simp: rb_holds_def Let_def)
      show ?thesis
      proof (cases "?s - ?r > k")
        case True
        then have "window ?r k ?b = take k d" "drop (?r + k) ?b @ take ?w ?b = drop k d"
          using d b by (simp_all add: d(2) window_def add.commute)
        then show ?thesis unfolding t(1,2) g using True False b d by (simp add: rb_holds_def)
      next
        case wrap: False
        have m: "k - (?s - ?r) \<le> ?w" using t(3) d b by simp
        have "window ?r (?s - ?r) ?b @ take (k - (?s - ?r)) ?b = take k d" "window (k - (?s - ?r)) (?w - (k - (?s - ?r))) ?b = drop k d"
          using d b wrap m by (simp_all add: d(2) window_def drop_take min_def)
        then show ?thesis unfolding t(1,2) g using wrap False b d m by (simp add: rb_holds_def)
      qed
    qed
  qed
qed

interpretation rb: byte_fifo rb_holds buffer_size rb_put rt_ringbuffer_get
  using rb_put_law rb_get_law rb_data_len by unfold_locales blast+

lemma putchar_as_put:
  assumes "rb_holds rb d"
  shows "rb_put [ch] rb = Some (rt_ringbuffer_putchar ch rb)"
proof -
  have "length (buffer_ptr rb) = buffer_size rb" "write_index rb < buffer_size rb" using assms by (simp_all add: rb_holds_def Let_def)
  then have "overwrite (write_index rb) [ch] (buffer_ptr rb) = (buffer_ptr rb)[write_index rb := ch]"
    "overwrite 0 [] ((buffer_ptr rb)[write_index rb := ch]) = (buffer_ptr rb)[write_index rb := ch]"
    "(write_index rb = buffer_size rb - 1) = (\<not> buffer_size rb - write_index rb > 1)"
    "\<not> buffer_size rb - write_index rb > 1 \<Longrightarrow> buffer_size rb - write_index rb = 1"
    by (auto simp: overwrite_def upd_conv_take_nth_drop)
  then show ?thesis
    by (auto simp: rb_put_def rt_ringbuffer_put_def rt_ringbuffer_putchar_def rb_copy_in_def Let_def)
qed

lemma getchar_as_get:
  assumes "rb_holds rb d"
  shows "rt_ringbuffer_get 1 rb = (case rt_ringbuffer_getchar rb of (c, rb') \<Rightarrow> (case c of None \<Rightarrow> [] | Some x \<Rightarrow> [x], rb'))"
proof -
  have h: "length (buffer_ptr rb) = buffer_size rb" "read_index rb < buffer_size rb" using assms by (simp_all add: rb_holds_def Let_def)
  then have "window (read_index rb) (Suc 0) (buffer_ptr rb) = [buffer_ptr rb ! read_index rb]" by (simp add: window_def take_Suc_conv_app_nth Cons_nth_drop_Suc [symmetric])
  moreover have "(read_index rb = buffer_size rb - 1) = (\<not> buffer_size rb - read_index rb > 1)" using h by auto
  moreover have "\<not> buffer_size rb - read_index rb > 1 \<Longrightarrow> buffer_size rb - read_index rb = Suc 0" using h by auto
  ultimately show ?thesis
    by (auto simp: rt_ringbuffer_get_def rt_ringbuffer_getchar_def Let_def)
qed

subsection \<open>Properties\<close>

text \<open>The operations of the buffer, with the number of bytes a piece of data is offered with.\<close>

datatype rb_op = Put bytes | PutChar u8 | Get nat | GetChar

fun rb_run :: "rb_op list \<Rightarrow> ringbuffer \<Rightarrow> (bytes \<times> bytes \<times> ringbuffer) option" where
  "rb_run [] rb = Some ([], [], rb)"
| "rb_run (Put p # xs) rb = (case rt_ringbuffer_put p (length p) rb of None \<Rightarrow> None | Some (n, rb1) \<Rightarrow>
     map_option (\<lambda>(i, out, rb2). (take n p @ i, out, rb2)) (rb_run xs rb1))"
| "rb_run (PutChar c # xs) rb = (case rt_ringbuffer_putchar c rb of (n, rb1) \<Rightarrow>
     map_option (\<lambda>(i, out, rb2). (take n [c] @ i, out, rb2)) (rb_run xs rb1))"
| "rb_run (Get n # xs) rb = (case rt_ringbuffer_get n rb of (b, rb1) \<Rightarrow>
     map_option (\<lambda>(i, out, rb2). (i, b @ out, rb2)) (rb_run xs rb1))"
| "rb_run (GetChar # xs) rb = (case rt_ringbuffer_getchar rb of (c, rb1) \<Rightarrow>
     map_option (\<lambda>(i, out, rb2). (i, (case c of None \<Rightarrow> [] | Some x \<Rightarrow> [x]) @ out, rb2)) (rb_run xs rb1))"

fun fifo_of :: "rb_op \<Rightarrow> fifo_op" where
  "fifo_of (Put p) = FPut p"
| "fifo_of (PutChar c) = FPut [c]"
| "fifo_of (Get n) = FGet n"
| "fifo_of GetChar = FGet 1"

lemma rb_run_fifo:
  assumes "rb_holds rb d"
  shows "rb_run xs rb = fifo_run rb_put rt_ringbuffer_get (map fifo_of xs) rb"
  using assms
proof (induction xs arbitrary: rb d)
  case (Cons x xs)
  have put: "rb_run xs rb1 = fifo_run rb_put rt_ringbuffer_get (map fifo_of xs) rb1" if "rb_put p rb = Some (n, rb1)" for p n rb1
    using Cons.IH rb.put_law [OF Cons.prems, of p] that by auto
  have get: "rb_run xs rb1 = fifo_run rb_put rt_ringbuffer_get (map fifo_of xs) rb1" if "rt_ringbuffer_get n rb = (b, rb1)" for n b rb1
    using Cons.IH rb.get_law [OF Cons.prems, of n] that by auto
  show ?case
  proof (cases x)
    case (Put p)
    then show ?thesis using put [of p] by (auto simp flip: rb_put_def split: option.split)
  next
    case (PutChar c)
    then show ?thesis using put [of "[c]"] putchar_as_put [OF Cons.prems, of c] by (auto split: prod.split)
  next
    case (Get n)
    then show ?thesis using get [of n] by (auto split: prod.split)
  next
    case GetChar
    then show ?thesis using get [of 1] getchar_as_get [OF Cons.prems] by (auto split: prod.splits)
  qed
qed simp

text \<open>Whatever is put in and taken out, in pieces or single bytes, the bytes accepted come out once and in order: what was
  held and what was accepted is what was given out and what is held now.\<close>

theorem ring_buffer_is_fifo:
  assumes "rb_holds rb d"
  shows "\<exists>i out rb' d'. rb_run xs rb = Some (i, out, rb') \<and> rb_holds rb' d' \<and> d @ i = out @ d' \<and> length d' \<le> buffer_size rb"
  using rb.run_keeps_bytes [OF assms, of "map fifo_of xs"] unfolding rb_run_fifo [OF assms] by blast

definition demo_rb :: ringbuffer where
  "demo_rb = \<lparr>buffer_ptr = [3, 4, 1, 2], read_mirror = False, read_index = 2, write_mirror = True, write_index = 1, buffer_size = 4\<rparr>"

lemma demo_rb_holds: "rb_holds demo_rb [1, 2, 3]"
  by (simp add: rb_holds_def demo_rb_def)

theorem ring_buffer_is_fifo_witness:
  "\<exists>i out rb' d'. rb_run [PutChar 7, Put [8, 9], Get 3, GetChar, Put [5]] demo_rb = Some (i, out, rb') \<and> rb_holds rb' d'
    \<and> [1, 2, 3] @ i = out @ d' \<and> length d' \<le> buffer_size demo_rb"
  by (rule ring_buffer_is_fifo [OF demo_rb_holds])

lemma init_holds: "rt_ringbuffer_init pool n = Some rb \<Longrightarrow> 4 \<le> n \<Longrightarrow> length pool = n div 4 * 4 \<Longrightarrow> rb_holds rb []"
  by (auto simp: rt_ringbuffer_init_def rb_holds_def window_def split: if_splits)

text \<open>Forcing more into a buffer than it has room for is to discard the oldest bytes.  When the buffer is not empty and its
  data lie in one piece, it discards everything: the buffer reads as empty afterwards.\<close>

theorem put_force_empties_buffer:
  assumes "rb_holds rb d" "d \<noteq> []" "read_mirror rb = write_mirror rb" "buffer_size rb - length d < len" "buffer_size rb \<le> length ptr"
  shows "\<exists>rb'. rt_ringbuffer_put_force ptr len rb = Some (buffer_size rb, rb') \<and> rb_holds rb' []"
proof -
  have h: "length (buffer_ptr rb) = buffer_size rb" "write_index rb < buffer_size rb" "read_index rb \<le> write_index rb" "length d = write_index rb - read_index rb"
    using assms(1,3) by (auto simp: rb_holds_def Let_def)
  have l: "rt_ringbuffer_space_len rb = buffer_size rb - length d" using rb_data_len [OF assms(1)] by (simp add: rt_ringbuffer_space_len_def)
  define sp where "sp = buffer_size rb - length d"
  have c: "len > sp" "buffer_size rb > sp" "\<not> buffer_size rb - write_index rb > buffer_size rb"
    using assms(2,4) h(2) by (simp_all add: sp_def)
  let ?n = "buffer_size rb" and ?k = "buffer_size rb - write_index rb"
  let ?b = "overwrite 0 (window ?k (?n - ?k) ptr) (overwrite (write_index rb) (take ?k ptr) (buffer_ptr rb))"
  have "rb_copy_in ptr ?n rb = Some (rb\<lparr>buffer_ptr := ?b, write_mirror := \<not> write_mirror rb, write_index := ?n - ?k\<rparr>)"
    using assms(5) c(3) by (simp add: rb_copy_in_def Let_def)
  then have "rt_ringbuffer_put_force ptr len rb = Some (?n, rb\<lparr>buffer_ptr := ?b, write_mirror := \<not> write_mirror rb, write_index := ?n - ?k,
      read_mirror := \<not> read_mirror rb, read_index := ?n - ?k\<rparr>)"
    using c by (simp add: rt_ringbuffer_put_force_def l flip: sp_def) (simp add: Let_def)
  moreover have "length ?b = ?n" using h(1,2) assms(5) by simp
  ultimately show ?thesis using h(1,2) assms(3) by (auto simp: rb_holds_def Let_def)
qed

theorem put_force_empties_buffer_witness:
  "\<exists>rb'. rt_ringbuffer_put_force [5, 6, 7, 8] 2 \<lparr>buffer_ptr = [1, 2, 3, 0], read_mirror = False, read_index = 0, write_mirror = False,
      write_index = 3, buffer_size = 4\<rparr> = Some (4, rb') \<and> rb_holds rb' []"
  using put_force_empties_buffer [of "\<lparr>buffer_ptr = [1, 2, 3, 0], read_mirror = False, read_index = 0, write_mirror = False,
      write_index = 3, buffer_size = 4\<rparr>" "[1, 2, 3]" 2 "[5, 6, 7, 8]"] by (simp add: rb_holds_def window_def)

end
