(* ===== verification/KString.thy ===== *)
theory KString imports Prelude begin

text \<open>kservice.c: the memory and string routines of the kernel, in the version for speed.  Memory is a function from addresses
  to bytes; regions do not wrap around the end of the address space.  A string is the list of the bytes from its pointer to
  the end of the memory it lies in, and \<open>None\<close> is a read behind that end.  Plain characters are unsigned, as the compilers
  for the target have them.\<close>

type_synonym mem = "nat \<Rightarrow> u8"

subsection \<open>Blocks of memory\<close>

text \<open>A word store and load, little endian.\<close>

definition put32 :: "mem \<Rightarrow> nat \<Rightarrow> u32 \<Rightarrow> mem" where
  "put32 M a w = M(a := ucast w, a + 1 := ucast (drop_bit 8 w), a + 2 := ucast (drop_bit 16 w), a + 3 := ucast (drop_bit 24 w))"

definition get32 :: "mem \<Rightarrow> nat \<Rightarrow> u32" where
  "get32 M a = ucast (M a) OR push_bit 8 (ucast (M (a + 1))) OR push_bit 16 (ucast (M (a + 2))) OR push_bit 24 (ucast (M (a + 3)))"

fun set_bytes :: "mem \<Rightarrow> nat \<Rightarrow> u8 \<Rightarrow> nat \<Rightarrow> mem" where
  "set_bytes M m d 0 = M"
| "set_bytes M m d (Suc count) = set_bytes (M(m := d)) (m + 1) d count"

text \<open>The two loops over words: the memory, the address and the count they end with.\<close>

fun set_words4 :: "mem \<Rightarrow> nat \<Rightarrow> u32 \<Rightarrow> nat \<Rightarrow> mem \<times> nat \<times> nat" where
  "set_words4 M a w count = (if count \<ge> 16
     then set_words4 (put32 (put32 (put32 (put32 M a w) (a + 4) w) (a + 8) w) (a + 12) w) (a + 16) w (count - 16)
     else (M, a, count))"

fun set_words :: "mem \<Rightarrow> nat \<Rightarrow> u32 \<Rightarrow> nat \<Rightarrow> mem \<times> nat \<times> nat" where
  "set_words M a w count = (if count \<ge> 4 then set_words (put32 M a w) (a + 4) w (count - 4) else (M, a, count))"

declare set_words4.simps [simp del] set_words.simps [simp del]

definition rt_memset :: "mem \<Rightarrow> nat \<Rightarrow> u32 \<Rightarrow> nat \<Rightarrow> mem" where
  "rt_memset M s c count = (let d = c AND 0xff in
     if \<not> count < 4 \<and> s mod 4 = 0 then
       (let b = push_bit 8 d OR d; b4 = b OR push_bit 16 b in
        case set_words4 M s b4 count of (M1, a1, c1) \<Rightarrow> (case set_words M1 a1 b4 c1 of (M2, a2, c2) \<Rightarrow> set_bytes M2 a2 (ucast d) c2))
     else set_bytes M s (ucast d) count)"

fun copy_bytes :: "mem \<Rightarrow> nat \<Rightarrow> nat \<Rightarrow> nat \<Rightarrow> mem" where
  "copy_bytes M d s 0 = M"
| "copy_bytes M d s (Suc len) = copy_bytes (M(d := M s)) (d + 1) (s + 1) len"

definition copy32 :: "mem \<Rightarrow> nat \<Rightarrow> nat \<Rightarrow> mem" where
  "copy32 M d s = put32 M d (get32 M s)"

fun copy_words4 :: "mem \<Rightarrow> nat \<Rightarrow> nat \<Rightarrow> nat \<Rightarrow> mem \<times> nat \<times> nat \<times> nat" where
  "copy_words4 M d s len = (if len \<ge> 16
     then copy_words4 (copy32 (copy32 (copy32 (copy32 M d s) (d + 4) (s + 4)) (d + 8) (s + 8)) (d + 12) (s + 12)) (d + 16) (s + 16) (len - 16)
     else (M, d, s, len))"

fun copy_words :: "mem \<Rightarrow> nat \<Rightarrow> nat \<Rightarrow> nat \<Rightarrow> mem \<times> nat \<times> nat \<times> nat" where
  "copy_words M d s len = (if len \<ge> 4 then copy_words (copy32 M d s) (d + 4) (s + 4) (len - 4) else (M, d, s, len))"

declare copy_words4.simps [simp del] copy_words.simps [simp del]

definition rt_memcpy :: "mem \<Rightarrow> nat \<Rightarrow> nat \<Rightarrow> nat \<Rightarrow> mem" where
  "rt_memcpy M dst src count = (if \<not> count < 16 \<and> src mod 4 = 0 \<and> dst mod 4 = 0
     then (case copy_words4 M dst src count of (M1, d1, s1, l1) \<Rightarrow> (case copy_words M1 d1 s1 l1 of (M2, d2, s2, l2) \<Rightarrow> copy_bytes M2 d2 s2 l2))
     else copy_bytes M dst src count)"

fun copy_back :: "mem \<Rightarrow> nat \<Rightarrow> nat \<Rightarrow> nat \<Rightarrow> mem" where
  "copy_back M tmp s 0 = M"
| "copy_back M tmp s (Suc n) = copy_back (M(tmp - 1 := M (s - 1))) (tmp - 1) (s - 1) n"

definition rt_memmove :: "mem \<Rightarrow> nat \<Rightarrow> nat \<Rightarrow> nat \<Rightarrow> mem" where
  "rt_memmove M dest src n = (if src < dest \<and> dest < src + n then copy_back M (dest + n) (src + n) n else copy_bytes M dest src n)"

fun rt_memcmp :: "mem \<Rightarrow> nat \<Rightarrow> nat \<Rightarrow> nat \<Rightarrow> int" where
  "rt_memcmp M cs ct 0 = 0"
| "rt_memcmp M cs ct (Suc count) = (let res = int (unat (M cs)) - int (unat (M ct)) in
     if res \<noteq> 0 then res else rt_memcmp M (cs + 1) (ct + 1) count)"

subsection \<open>Strings\<close>

fun rt_strlen :: "bytes \<Rightarrow> nat option" where
  "rt_strlen [] = None"
| "rt_strlen (c # s) = (if c \<noteq> 0 then map_option Suc (rt_strlen s) else Some 0)"

text \<open>The character is read before the bound is looked at.\<close>

fun rt_strnlen :: "bytes \<Rightarrow> nat \<Rightarrow> nat option" where
  "rt_strnlen [] maxlen = None"
| "rt_strnlen (c # s) maxlen = (if c \<noteq> 0 \<and> 0 < maxlen then map_option Suc (rt_strnlen s (maxlen - 1)) else Some 0)"

fun rt_strcmp :: "bytes \<Rightarrow> bytes \<Rightarrow> int option" where
  "rt_strcmp (a # cs) (b # ct) = (if a \<noteq> 0 \<and> a = b then rt_strcmp cs ct else Some (int (unat a) - int (unat b)))"
| "rt_strcmp _ _ = None"

text \<open>The difference is kept in a signed character.\<close>

fun rt_strncmp :: "bytes \<Rightarrow> bytes \<Rightarrow> nat \<Rightarrow> int option" where
  "rt_strncmp cs ct 0 = Some 0"
| "rt_strncmp (a # cs) (b # ct) (Suc count) = (let res = sint (a - b) in
     if res \<noteq> 0 \<or> a = 0 then Some res else rt_strncmp cs ct count)"
| "rt_strncmp _ _ (Suc count) = None"

definition fold_case :: "u8 \<Rightarrow> int" where
  "fold_case c = (let n = int (unat c) in if 65 \<le> n \<and> n \<le> 90 then n + 32 else n)"

fun rt_strcasecmp :: "bytes \<Rightarrow> bytes \<Rightarrow> int option" where
  "rt_strcasecmp (a # s) (b # t) = (let ca = fold_case a; cb = fold_case b in
     if ca = cb \<and> ca \<noteq> 0 then rt_strcasecmp s t else Some (ca - cb))"
| "rt_strcasecmp _ _ = None"

text \<open>\<open>rt_strncpy\<close>: what is written to \<open>dst\<close>, and the zeros behind a shorter string.\<close>

fun strncpy_out :: "bytes \<Rightarrow> nat \<Rightarrow> bytes option" where
  "strncpy_out s 0 = Some []"
| "strncpy_out [] (Suc n) = None"
| "strncpy_out (c # s) (Suc n) = (if c = 0 then Some (0 # replicate n 0) else map_option (Cons c) (strncpy_out s n))"

definition rt_strncpy :: "bytes \<Rightarrow> bytes \<Rightarrow> nat \<Rightarrow> bytes option" where
  "rt_strncpy dst src n = (case strncpy_out src n of None \<Rightarrow> None
     | Some b \<Rightarrow> if n > length dst then None else Some (overwrite 0 b dst))"

text \<open>Comparing the first \<open>l2\<close> bytes.\<close>

fun strstr_loop :: "bytes \<Rightarrow> bytes \<Rightarrow> nat \<Rightarrow> nat \<Rightarrow> nat \<Rightarrow> nat option" where
  "strstr_loop s1 s2 0 l2 k = None"
| "strstr_loop s1 s2 (Suc l1) l2 k = (if Suc l1 < l2 then None
     else if take l2 s1 = take l2 s2 then Some k else strstr_loop (tl s1) s2 l1 l2 (k + 1))"

text \<open>The result is the offset of the occurrence, if any.\<close>

definition rt_strstr :: "bytes \<Rightarrow> bytes \<Rightarrow> nat option option" where
  "rt_strstr s1 s2 = (case rt_strlen s2 of None \<Rightarrow> None
     | Some l2 \<Rightarrow> if l2 = 0 then Some (Some 0)
         else (case rt_strlen s1 of None \<Rightarrow> None | Some l1 \<Rightarrow> Some (strstr_loop s1 s2 l1 l2 0)))"

end
