(* ===== verification/Objects.thy ===== *)
theory Objects imports KernelCalls KString MemHeap begin

text \<open>object.c, device.c, idle.c: the names of the kernel's objects, the device framework, and the thread that frees what ended
  threads leave.  An object is a number (its address), as a thread is; the container of a class is the list of its
  objects.  The rest of a class's structure is in the models of the classes.  \<open>None\<close> is a failed assertion, a read
  outside a table or a string, and an object that is put into a list while it is in one.  The entry lists of modules, which
  are not configured, and the hooks are left out.\<close>

subsection \<open>Error numbers\<close>

text \<open>Outside of a thread the number goes to a variable that nothing in the terminal reads.\<close>

definition rt_set_errno :: "int \<Rightarrow> 'k kernel_scheme \<Rightarrow> 'k kernel_scheme" where
  "rt_set_errno e K = (if irq_nest K \<noteq> 0 then K else case cur K of None \<Rightarrow> K | Some t \<Rightarrow> set_th t (\<lambda>x. x\<lparr>t_error := e\<rparr>) K)"

subsection \<open>Objects\<close>

definition RT_Object_Class_Thread :: u8 where "RT_Object_Class_Thread = 0"
definition RT_Object_Class_Device :: u8 where "RT_Object_Class_Device = 7"
definition RT_Object_Class_Unknown :: u8 where "RT_Object_Class_Unknown = 9"
definition RT_Object_Class_Static :: u8 where "RT_Object_Class_Static = 0x80"

lemmas class_defs = RT_Object_Class_Thread_def RT_Object_Class_Device_def RT_Object_Class_Unknown_def RT_Object_Class_Static_def

record rt_object =
  o_name :: bytes
  o_type :: u8
  o_flag :: u8

record objects = kernel +
  objs :: "nat \<Rightarrow> rt_object"
  rt_object_container :: "u8 \<Rightarrow> nat list"

definition linked :: "nat \<Rightarrow> 'k objects_scheme \<Rightarrow> bool" where
  "linked x K = list_ex (\<lambda>c. x \<in> set (rt_object_container K c)) [0, 1, 2, 3, 4, 5, 6, 7, 8]"

text \<open>Naming an object and putting it in front of the list of its class.\<close>

definition attach :: "nat \<Rightarrow> u8 \<Rightarrow> u8 \<Rightarrow> bytes \<Rightarrow> 'k objects_scheme \<Rightarrow> 'k objects_scheme option" where
  "attach x c type name K = (if \<not> c < RT_Object_Class_Unknown \<or> linked x K then None
     else case rt_strncpy (o_name (objs K x)) name 16 of None \<Rightarrow> None
     | Some b \<Rightarrow> Some (K\<lparr>objs := (objs K)(x := (objs K x)\<lparr>o_name := b, o_type := type\<rparr>),
         rt_object_container := (rt_object_container K)(c := x # rt_object_container K c)\<rparr>))"

definition rt_object_init :: "nat \<Rightarrow> u8 \<Rightarrow> bytes \<Rightarrow> 'k objects_scheme \<Rightarrow> 'k objects_scheme option" where
  "rt_object_init x c name K = attach x c (c OR RT_Object_Class_Static) name K"

text \<open>Taking an object out of whichever list it is in.\<close>

definition rt_object_detach :: "nat \<Rightarrow> 'k objects_scheme \<Rightarrow> 'k objects_scheme" where
  "rt_object_detach x K = K\<lparr>rt_object_container := \<lambda>c. removeAll x (rt_object_container K c)\<rparr>"

text \<open>With what the allocator gives.\<close>

definition rt_object_allocate :: "nat option \<Rightarrow> u8 \<Rightarrow> bytes \<Rightarrow> 'k objects_scheme \<Rightarrow> (nat option \<times> 'k objects_scheme) option" where
  "rt_object_allocate mem c name K = (if irq_nest K \<noteq> 0 \<or> \<not> c < RT_Object_Class_Unknown then None
     else case mem of None \<Rightarrow> Some (None, K)
     | Some x \<Rightarrow> map_option (Pair (Some x)) (attach x c c name (K\<lparr>objs := (objs K)(x := (objs K x)\<lparr>o_flag := 0\<rparr>)\<rparr>)))"

definition rt_object_is_systemobject :: "nat \<Rightarrow> 'k objects_scheme \<Rightarrow> bool" where
  "rt_object_is_systemobject x K = (o_type (objs K x) AND RT_Object_Class_Static \<noteq> 0)"

text \<open>The number of an object is its address, at which its memory goes back to the heap.\<close>

definition rt_object_delete :: "nat \<Rightarrow> 'k objects_scheme \<Rightarrow> heap \<Rightarrow> ('k objects_scheme \<times> heap) option" where
  "rt_object_delete x K H = (if rt_object_is_systemobject x K then None
     else map_option (Pair (rt_object_detach x K)) (rt_free (of_nat x) H))"

fun find_named :: "bytes \<Rightarrow> (nat \<Rightarrow> rt_object) \<Rightarrow> nat list \<Rightarrow> nat option option" where
  "find_named name B [] = Some None"
| "find_named name B (x # xs) = (case rt_strncmp (o_name (B x)) name 16 of None \<Rightarrow> None
     | Some r \<Rightarrow> if r = 0 then Some (Some x) else find_named name B xs)"

text \<open>The test lets the class \<open>RT_Object_Class_Unknown\<close> through, which has no list.\<close>

definition rt_object_find :: "bytes option \<Rightarrow> u8 \<Rightarrow> 'k objects_scheme \<Rightarrow> (nat option \<times> 'k objects_scheme) option" where
  "rt_object_find name c K = (case name of None \<Rightarrow> Some (None, K)
     | Some nm \<Rightarrow> if c > RT_Object_Class_Unknown then Some (None, K)
         else if irq_nest K \<noteq> 0 \<or> c = RT_Object_Class_Unknown then None
         else (case find_named nm (objs K) (rt_object_container K c) of None \<Rightarrow> None
           | Some r \<Rightarrow> map_option (Pair r) (rt_exit_critical (rt_enter_critical K))))"

text \<open>The same for threads and devices, where the scheduler may not run yet.\<close>

definition find_in :: "u8 \<Rightarrow> bytes \<Rightarrow> 'k objects_scheme \<Rightarrow> (nat option \<times> 'k objects_scheme) option" where
  "find_in c name K = (case find_named name (objs K) (rt_object_container K c) of None \<Rightarrow> None
     | Some r \<Rightarrow> if cur K \<noteq> None then map_option (Pair r) (rt_exit_critical (rt_enter_critical K)) else Some (r, K))"

definition rt_thread_find :: "bytes \<Rightarrow> 'k objects_scheme \<Rightarrow> (nat option \<times> 'k objects_scheme) option" where
  "rt_thread_find name K = find_in RT_Object_Class_Thread name K"

subsection \<open>The idle thread\<close>

text \<open>One round of the work: \<open>stack_addr\<close> is where the stack of a thread is.  A cleanup function is code of the application.
  The round ends after a static thread, whose memory is not the kernel's.\<close>

partial_function (option) rt_thread_idle_excute :: "(nat \<Rightarrow> objects \<Rightarrow> objects) \<Rightarrow> (nat \<Rightarrow> u32) \<Rightarrow> objects \<Rightarrow> heap \<Rightarrow> (objects \<times> heap) option" where
  "rt_thread_idle_excute clean stack_addr K H = (case links K Defunct of [] \<Rightarrow> Some (K, H)
     | t # _ \<Rightarrow> if irq_nest K \<noteq> 0 then None
         else (let K1 = unlink t K; K2 = (if t_cleanup (th K1 t) then clean t K1 else K1) in
           if rt_object_is_systemobject t K2 then Some (K2, H)
           else Option.bind (rt_free (stack_addr t) H) (\<lambda>H1. Option.bind (rt_object_delete t K2 H1)
             (\<lambda>(K3, H2). rt_thread_idle_excute clean stack_addr K3 H2))))"

text \<open>The first \<open>n\<close> turns of the loop of the idle thread.\<close>

fun rt_thread_idle_entry :: "nat \<Rightarrow> (nat \<Rightarrow> objects \<Rightarrow> objects) \<Rightarrow> (nat \<Rightarrow> u32) \<Rightarrow> objects \<Rightarrow> heap \<Rightarrow> (objects \<times> heap) option" where
  "rt_thread_idle_entry 0 clean stack_addr K H = Some (K, H)"
| "rt_thread_idle_entry (Suc n) clean stack_addr K H =
     Option.bind (rt_thread_idle_excute clean stack_addr K H) (\<lambda>(K1, H1). rt_thread_idle_entry n clean stack_addr K1 H1)"

text \<open>The idle thread has the number \<open>t\<close>.\<close>

definition rt_thread_idle_init :: "nat \<Rightarrow> objects \<Rightarrow> objects option" where
  "rt_thread_idle_init t K = Option.bind (rt_object_init t RT_Object_Class_Thread [116, 105, 100, 108, 101, 0] K)
     (\<lambda>K1. Option.bind (rt_thread_init t (of_nat (RT_THREAD_PRIORITY_MAX - 1)) 32 True K1) (\<lambda>K2. map_option snd (rt_thread_startup t K2)))"

subsection \<open>Devices\<close>

definition RT_DEVICE_FLAG_STANDALONE :: u16 where "RT_DEVICE_FLAG_STANDALONE = 0x008"
definition RT_DEVICE_FLAG_ACTIVATED :: u16 where "RT_DEVICE_FLAG_ACTIVATED = 0x010"
definition RT_DEVICE_OFLAG_CLOSE :: u16 where "RT_DEVICE_OFLAG_CLOSE = 0x000"
definition RT_DEVICE_OFLAG_OPEN :: u16 where "RT_DEVICE_OFLAG_OPEN = 0x008"
definition RT_ENOSYS :: int where "RT_ENOSYS = 6"

lemmas device_flags = RT_DEVICE_FLAG_STANDALONE_def RT_DEVICE_FLAG_ACTIVATED_def RT_DEVICE_OFLAG_CLOSE_def RT_DEVICE_OFLAG_OPEN_def

text \<open>The functions of a driver, which may be missing, over the state of the drivers.  They do not change the record of the
  device: the flags that the serial driver writes there are in the state of that driver, and the framework writes
  \<open>open_flag\<close> itself after a driver has opened or closed the device.\<close>

record 's dev_ops =
  op_init :: "(nat \<Rightarrow> 's \<Rightarrow> int \<times> 's) option"
  op_open :: "(nat \<Rightarrow> u16 \<Rightarrow> 's \<Rightarrow> int \<times> 's) option"
  op_close :: "(nat \<Rightarrow> 's \<Rightarrow> int \<times> 's) option"
  op_read :: "(nat \<Rightarrow> int \<Rightarrow> u32 \<Rightarrow> 's \<Rightarrow> (u32 \<times> bytes \<times> 's) option) option"
  op_write :: "(nat \<Rightarrow> int \<Rightarrow> bytes \<Rightarrow> 's \<Rightarrow> (u32 \<times> 's) option) option"
  op_control :: "(nat \<Rightarrow> u8 \<Rightarrow> u32 \<Rightarrow> 's \<Rightarrow> int \<times> 's) option"

record 's rt_device =
  dv_type :: u8
  dv_flag :: u16
  open_flag :: u16
  ref_count :: u8
  rx_indicate :: "nat option"
  tx_complete :: "nat option"
  dv_ops :: "'s dev_ops"

record 's devices = objects +
  devs :: "nat \<Rightarrow> 's rt_device"
  drv :: 's

definition set_dev :: "nat \<Rightarrow> ('s rt_device \<Rightarrow> 's rt_device) \<Rightarrow> 's devices \<Rightarrow> 's devices" where
  "set_dev d f K = K\<lparr>devs := (devs K)(d := f (devs K d))\<rparr>"

definition rt_device_find :: "bytes \<Rightarrow> 's devices \<Rightarrow> (nat option \<times> 's devices) option" where
  "rt_device_find name K = find_in RT_Object_Class_Device name K"

definition rt_device_register :: "nat option \<Rightarrow> bytes \<Rightarrow> u16 \<Rightarrow> 's devices \<Rightarrow> (int \<times> 's devices) option" where
  "rt_device_register dev name flags K = (case dev of None \<Rightarrow> Some (- RT_ERROR, K)
     | Some d \<Rightarrow> (case rt_device_find name K of None \<Rightarrow> None
         | Some (Some _, K1) \<Rightarrow> Some (- RT_ERROR, K1)
         | Some (None, K1) \<Rightarrow> map_option (\<lambda>K2. (RT_EOK, set_dev d (\<lambda>v. v\<lparr>dv_flag := flags, ref_count := 0, open_flag := 0\<rparr>) K2))
             (rt_object_init d RT_Object_Class_Device name K1)))"

definition rt_device_unregister :: "nat \<Rightarrow> 's devices \<Rightarrow> int \<times> 's devices" where
  "rt_device_unregister d K = (RT_EOK, rt_object_detach d K)"

text \<open>Calling the function of the driver that prepares the device.\<close>

definition call_init :: "nat \<Rightarrow> (nat \<Rightarrow> 's \<Rightarrow> int \<times> 's) \<Rightarrow> 's devices \<Rightarrow> int \<times> 's devices" where
  "call_init d f K = (case f d (drv K) of (r, s) \<Rightarrow> (r, K\<lparr>drv := s\<rparr>))"

definition activate :: "nat \<Rightarrow> 's devices \<Rightarrow> 's devices" where
  "activate d K = set_dev d (\<lambda>v. v\<lparr>dv_flag := dv_flag v OR RT_DEVICE_FLAG_ACTIVATED\<rparr>) K"

definition rt_device_init :: "nat \<Rightarrow> 's devices \<Rightarrow> int \<times> 's devices" where
  "rt_device_init d K = (case op_init (dv_ops (devs K d)) of None \<Rightarrow> (RT_EOK, K)
     | Some f \<Rightarrow> if dv_flag (devs K d) AND RT_DEVICE_FLAG_ACTIVATED = 0
         then (case call_init d f K of (r, K1) \<Rightarrow> (r, if r \<noteq> RT_EOK then K1 else activate d K1))
         else (RT_EOK, K))"

text \<open>Behind the preparation: \<open>None\<close> is the overflow of the counter.\<close>

definition device_open :: "nat \<Rightarrow> u16 \<Rightarrow> 's devices \<Rightarrow> (int \<times> 's devices) option" where
  "device_open d oflag K = (if dv_flag (devs K d) AND RT_DEVICE_FLAG_STANDALONE \<noteq> 0 \<and> open_flag (devs K d) AND RT_DEVICE_OFLAG_OPEN \<noteq> 0
     then Some (- RT_EBUSY, K)
     else case (case op_open (dv_ops (devs K d)) of None \<Rightarrow> (RT_EOK, drv K) | Some f \<Rightarrow> f d oflag (drv K)) of (r, s) \<Rightarrow>
       if r = RT_EOK \<or> r = - RT_ENOSYS then
         if ref_count (devs K d) + 1 = 0 then None
         else Some (r, set_dev d (\<lambda>v. v\<lparr>open_flag := oflag OR RT_DEVICE_OFLAG_OPEN, ref_count := ref_count v + 1\<rparr>) (K\<lparr>drv := s\<rparr>))
       else Some (r, K\<lparr>drv := s\<rparr>))"

definition rt_device_open :: "nat \<Rightarrow> u16 \<Rightarrow> 's devices \<Rightarrow> (int \<times> 's devices) option" where
  "rt_device_open d oflag K = (if dv_flag (devs K d) AND RT_DEVICE_FLAG_ACTIVATED = 0
     then (case op_init (dv_ops (devs K d)) of None \<Rightarrow> device_open d oflag (activate d K)
       | Some f \<Rightarrow> (case call_init d f K of (r, K1) \<Rightarrow> if r \<noteq> RT_EOK then Some (r, K1) else device_open d oflag (activate d K1)))
     else device_open d oflag K)"

definition rt_device_close :: "nat \<Rightarrow> 's devices \<Rightarrow> int \<times> 's devices" where
  "rt_device_close d K = (if ref_count (devs K d) = 0 then (- RT_ERROR, K)
     else let K1 = set_dev d (\<lambda>v. v\<lparr>ref_count := ref_count v - 1\<rparr>) K in
       if ref_count (devs K1 d) \<noteq> 0 then (RT_EOK, K1)
       else case (case op_close (dv_ops (devs K1 d)) of None \<Rightarrow> (RT_EOK, drv K1) | Some f \<Rightarrow> f d (drv K1)) of (r, s) \<Rightarrow>
         (r, if r = RT_EOK \<or> r = - RT_ENOSYS then set_dev d (\<lambda>v. v\<lparr>open_flag := RT_DEVICE_OFLAG_CLOSE\<rparr>) (K1\<lparr>drv := s\<rparr>) else K1\<lparr>drv := s\<rparr>))"

text \<open>The bytes read come with the result; a driver may fail an assertion of its own.\<close>

definition rt_device_read :: "nat \<Rightarrow> int \<Rightarrow> u32 \<Rightarrow> 's devices \<Rightarrow> (u32 \<times> bytes \<times> 's devices) option" where
  "rt_device_read d pos n K = (if ref_count (devs K d) = 0 then Some (0, [], rt_set_errno (- RT_ERROR) K)
     else case op_read (dv_ops (devs K d)) of None \<Rightarrow> Some (0, [], rt_set_errno (- RT_ENOSYS) K)
       | Some f \<Rightarrow> map_option (\<lambda>(r, b, s). (r, b, K\<lparr>drv := s\<rparr>)) (f d pos n (drv K)))"

definition rt_device_write :: "nat \<Rightarrow> int \<Rightarrow> bytes \<Rightarrow> 's devices \<Rightarrow> (u32 \<times> 's devices) option" where
  "rt_device_write d pos b K = (if ref_count (devs K d) = 0 then Some (0, rt_set_errno (- RT_ERROR) K)
     else case op_write (dv_ops (devs K d)) of None \<Rightarrow> Some (0, rt_set_errno (- RT_ENOSYS) K)
       | Some f \<Rightarrow> map_option (\<lambda>(r, s). (r, K\<lparr>drv := s\<rparr>)) (f d pos b (drv K)))"

definition rt_device_control :: "nat \<Rightarrow> u8 \<Rightarrow> u32 \<Rightarrow> 's devices \<Rightarrow> int \<times> 's devices" where
  "rt_device_control d cmd arg K = (case op_control (dv_ops (devs K d)) of None \<Rightarrow> (RT_EOK, K)
     | Some f \<Rightarrow> (case f d cmd arg (drv K) of (r, s) \<Rightarrow> (r, K\<lparr>drv := s\<rparr>)))"

definition rt_device_set_rx_indicate :: "nat \<Rightarrow> nat option \<Rightarrow> 's devices \<Rightarrow> int \<times> 's devices" where
  "rt_device_set_rx_indicate d f K = (RT_EOK, set_dev d (\<lambda>v. v\<lparr>rx_indicate := f\<rparr>) K)"

definition rt_device_set_tx_complete :: "nat \<Rightarrow> nat option \<Rightarrow> 's devices \<Rightarrow> int \<times> 's devices" where
  "rt_device_set_tx_complete d f K = (RT_EOK, set_dev d (\<lambda>v. v\<lparr>tx_complete := f\<rparr>) K)"

end
