(* ===== verification/ObjectProps.thy ===== *)
theory ObjectProps imports Objects MemProps begin

text \<open>The names of the devices are a finite map; the idle thread frees what ended threads leave; a device that cannot be
  closed cannot be used again.\<close>

subsection \<open>Names\<close>

text \<open>The part of a name that counts: up to its end, and no more than the field holds.\<close>

definition key :: "bytes \<Rightarrow> bytes" where
  "key b = takeWhile (\<lambda>c. c \<noteq> 0) (take 16 b)"

definition c_prefix :: "nat \<Rightarrow> bytes \<Rightarrow> bytes" where
  "c_prefix n b = takeWhile (\<lambda>c. c \<noteq> 0) (take n b)"

text \<open>Reading \<open>n\<close> characters of a string, or up to its end.\<close>

definition readable :: "nat \<Rightarrow> bytes \<Rightarrow> bool" where
  "readable n b = (n \<le> length b \<or> 0 \<in> set b)"

lemma readable_Cons: "readable (Suc n) b \<Longrightarrow> \<exists>c s. b = c # s \<and> (c \<noteq> 0 \<longrightarrow> readable n s)"
  by (cases b) (auto simp: readable_def)

lemma sint_0: "(sint (a - b :: u8) = 0) = (a = b)"
  by (simp only: signed_eq_0_iff right_minus_eq)

lemma strncmp_prefix:
  "readable n a \<Longrightarrow> readable n b \<Longrightarrow> \<exists>r. rt_strncmp a b n = Some r \<and> (r = 0) = (c_prefix n a = c_prefix n b)"
proof (induction n arbitrary: a b)
  case (Suc n)
  obtain x s y t where e: "a = x # s" "b = y # t" "x \<noteq> 0 \<Longrightarrow> readable n s" "y \<noteq> 0 \<Longrightarrow> readable n t"
    using readable_Cons [OF Suc.prems(1)] readable_Cons [OF Suc.prems(2)] by blast
  show ?case
  proof (cases "x = y \<and> x \<noteq> 0")
    case True
    then show ?thesis using Suc.IH [of s t] e by (simp add: c_prefix_def)
  next
    case False
    then show ?thesis by (cases "x = y") (auto simp: e(1,2) c_prefix_def sint_0 Let_def)
  qed
qed (simp add: c_prefix_def)

lemma strncpy_out_prefix: "readable n s \<Longrightarrow> \<exists>b. strncpy_out s n = Some b \<and> length b = n \<and> c_prefix n b = c_prefix n s"
proof (induction n arbitrary: s)
  case (Suc n)
  obtain c r where e: "s = c # r" "c \<noteq> 0 \<Longrightarrow> readable n r" using readable_Cons [OF Suc.prems] by blast
  show ?case using Suc.IH [of r] e by (cases "c = 0") (auto simp: c_prefix_def)
qed (simp add: c_prefix_def)

lemma key_prefix: "key b = c_prefix 16 b"
  by (simp add: key_def c_prefix_def)

lemma strncpy_key: "readable 16 s \<Longrightarrow> length d = 16 \<Longrightarrow> \<exists>b. rt_strncpy d s 16 = Some b \<and> length b = 16 \<and> key b = key s"
  using strncpy_out_prefix [of 16 s] by (auto simp: rt_strncpy_def key_prefix overwrite_def)

lemma find_named_key:
  assumes "readable 16 name" "\<And>x. length (o_name (B x)) = 16"
  shows "find_named name B xs = Some (find (\<lambda>x. key (o_name (B x)) = key name) xs)"
proof (induction xs)
  case (Cons x xs)
  have "readable 16 (o_name (B x))" using assms(2) [of x] by (simp add: readable_def)
  then show ?case using strncmp_prefix [OF _ assms(1), of "o_name (B x)"] Cons by (auto simp: key_prefix)
qed simp

subsection \<open>The map of the devices\<close>

definition dev_map :: "'k objects_scheme \<Rightarrow> bytes \<Rightarrow> nat option" where
  "dev_map K k = find (\<lambda>x. key (o_name (objs K x)) = k) (rt_object_container K RT_Object_Class_Device)"

definition registry_ok :: "'k objects_scheme \<Rightarrow> bool" where
  "registry_ok K = ((\<forall>x. length (o_name (objs K x)) = 16)
     \<and> distinct (map (\<lambda>x. key (o_name (objs K x))) (rt_object_container K RT_Object_Class_Device)))"

text \<open>Before the start, or with a scheduler that can run.\<close>

definition sched_ok :: "nat \<Rightarrow> 'k kernel_scheme \<Rightarrow> bool" where
  "sched_ok idle K = (cur K = None \<or> good idle K)"

lemma critical_section:
  assumes "good idle K"
  shows "\<exists>K'. rt_exit_critical (rt_enter_critical K) = Some K' \<and> good idle K' \<and> kernel.more K' = kernel.more K"
proof -
  have l: "lock_nest K = 0" using assms by (simp add: good_def can_run_def)
  have z: "K\<lparr>lock_nest := 0\<rparr> = K" using l by (cases K) simp
  have "rt_exit_critical (rt_enter_critical K) = rt_schedule (K\<lparr>lock_nest := 0\<rparr>)" using l by (simp add: rt_exit_critical_def rt_enter_critical_def Let_def)
  then have e: "rt_exit_critical (rt_enter_critical K) = rt_schedule K" unfolding z .
  obtain K' where "rt_schedule K = Some K'" "good idle K'" "scheduled K K'"
    using schedule_run [OF goodD(1) [OF assms]] by blast
  then show ?thesis using e scheduled_more by metis
qed

lemma devices_fields:
  assumes "kernel.more K' = kernel.more (K :: 's devices)"
  shows "objs K' = objs K" "rt_object_container K' = rt_object_container K" "devs K' = devs K" "drv K' = drv K"
  using assms by (cases K; cases K'; simp)+

lemma find_device:
  assumes "registry_ok K" "readable 16 name" "sched_ok idle K"
  shows "\<exists>K'. rt_device_find name K = Some (dev_map K (key name), K') \<and> sched_ok idle K' \<and> kernel.more K' = kernel.more (K :: 's devices)"
proof -
  have f: "find_named name (objs K) (rt_object_container K RT_Object_Class_Device) = Some (dev_map K (key name))"
    using find_named_key [OF assms(2), of "objs K"] assms(1) by (simp add: registry_ok_def dev_map_def)
  show ?thesis
  proof (cases "cur K = None")
    case True
    then show ?thesis using f assms(3) by (simp add: rt_device_find_def find_in_def)
  next
    case False
    then have "good idle K" using assms(3) by (auto simp: sched_ok_def)
    then obtain K' where "rt_exit_critical (rt_enter_critical K) = Some K'" "good idle K'" "kernel.more K' = kernel.more K"
      using critical_section by blast
    then show ?thesis using f False by (simp add: rt_device_find_def find_in_def sched_ok_def)
  qed
qed

datatype dev_call = Find bytes | Register nat bytes u16 | Unregister nat

datatype dev_ret = Found "nat option" | Code int

fun exec_dev :: "dev_call \<Rightarrow> 's devices \<Rightarrow> (dev_ret \<times> 's devices) option" where
  "exec_dev (Find n) K = map_option (\<lambda>(f, K1). (Found f, K1)) (rt_device_find n K)"
| "exec_dev (Register d n fl) K = map_option (\<lambda>(r, K1). (Code r, K1)) (rt_device_register (Some d) n fl K)"
| "exec_dev (Unregister d) K = (case rt_device_unregister d K of (r, K1) \<Rightarrow> Some (Code r, K1))"

fun abs_dev :: "dev_call \<Rightarrow> (bytes \<Rightarrow> nat option) \<Rightarrow> dev_ret \<times> (bytes \<Rightarrow> nat option)" where
  "abs_dev (Find n) M = (Found (M (key n)), M)"
| "abs_dev (Register d n fl) M = (if M (key n) = None then (Code RT_EOK, M(key n \<mapsto> d)) else (Code (- RT_ERROR), M))"
| "abs_dev (Unregister d) M = (Code RT_EOK, \<lambda>k. if M k = Some d then None else M k)"

text \<open>Names end, and a device is not registered while it is.\<close>

fun legal_dev :: "dev_call \<Rightarrow> 's devices \<Rightarrow> bool" where
  "legal_dev (Find n) K = readable 16 n"
| "legal_dev (Register d n fl) K = (readable 16 n \<and> \<not> linked d K)"
| "legal_dev (Unregister d) K = True"

lemma find_without: "distinct (map f xs) \<Longrightarrow> find (\<lambda>y. f y = k) (removeAll d xs) = (if find (\<lambda>y. f y = k) xs = Some d then None else find (\<lambda>y. f y = k) xs)"
proof (induction xs)
  case (Cons x xs)
  have "find (\<lambda>y. f y = k) xs = None" if "f x = k"
    using Cons.prems that by (auto simp: find_None_iff) (metis imageI)
  then show ?case using Cons by auto
qed simp

lemma more_ok: "objs K' = objs K \<Longrightarrow> rt_object_container K' = rt_object_container K \<Longrightarrow> registry_ok K' = registry_ok K \<and> dev_map K' = dev_map K \<and> linked d K' = linked d K"
  by (simp add: registry_ok_def dev_map_def fun_eq_iff linked_def)

text \<open>Registering a device under a new name.\<close>

lemma register_new:
  assumes "registry_ok K" "sched_ok idle K" "readable 16 n" "\<not> linked d K" "dev_map K (key n) = None"
  shows "\<exists>K'. rt_device_register (Some d) n fl K = Some (RT_EOK, K') \<and> dev_map K' = (dev_map K)(key n \<mapsto> d) \<and> registry_ok K' \<and> sched_ok idle K'
    \<and> devs K' = (devs K)(d := (devs K d)\<lparr>dv_flag := fl, ref_count := 0, open_flag := 0\<rparr>) \<and> drv K' = drv K \<and> (\<forall>x. linked x K' = (x = d \<or> linked x K))"
proof -
  obtain K1 where k: "rt_device_find n K = Some (dev_map K (key n), K1)" "sched_ok idle K1" "kernel.more K1 = kernel.more K"
    using find_device [OF assms(1,3,2)] by blast
  note m = devices_fields [OF k(3)]
  note ok = more_ok [OF m(1,2)] and None = assms(5)
  obtain b where b: "rt_strncpy (o_name (objs K d)) n 16 = Some b" "length b = 16" "key b = key n"
    using strncpy_key [OF assms(3), of "o_name (objs K d)"] assms(1) by (auto simp: registry_ok_def)
  let ?v = "(objs K d)\<lparr>o_name := b, o_type := RT_Object_Class_Device OR RT_Object_Class_Static\<rparr>"
  let ?K = "K1\<lparr>objs := (objs K)(d := ?v), rt_object_container := (rt_object_container K)(RT_Object_Class_Device := d # rt_object_container K RT_Object_Class_Device)\<rparr>"
  let ?K' = "set_dev d (\<lambda>v. v\<lparr>dv_flag := fl, ref_count := 0, open_flag := 0\<rparr>) ?K"
  have "\<not> linked d K1" using assms(4) ok by simp
  then have r: "rt_device_register (Some d) n fl K = Some (RT_EOK, ?K')"
    using None k(1) b(1) by (simp add: rt_device_register_def rt_object_init_def attach_def m(1,2) class_defs)
  have d: "d \<notin> set (rt_object_container K RT_Object_Class_Device)" using assms(4) by (auto simp: linked_def class_defs)
  have "dev_map ?K' = (dev_map K)(key n \<mapsto> d)"
    using b(3) d by (auto simp: dev_map_def set_dev_def fun_eq_iff intro!: find_cong)
  moreover have "registry_ok ?K'"
  proof -
    let ?F = "\<lambda>x. key (o_name (((objs K)(d := ?v)) x))" and ?G = "\<lambda>x. key (o_name (objs K x))" and ?C = "rt_object_container K RT_Object_Class_Device"
    have m1: "map ?F ?C = map ?G ?C" using d by auto
    have "?F d \<notin> set (map ?G ?C)" using None b(3) by (auto simp: dev_map_def find_None_iff)
    moreover have "distinct (map ?G ?C)" using assms(1) by (simp add: registry_ok_def)
    ultimately have "distinct (map ?F (d # ?C))" unfolding list.map(2) m1 by (simp only: distinct.simps simp_thms)
    then show ?thesis using assms(1) b(2) by (simp add: registry_ok_def set_dev_def)
  qed
  moreover have "sched_ok idle ?K'"
    using k(2) by (auto simp: sched_ok_def set_dev_def good_def can_run_def live_def intro!: kernel_ok_cong [of K1])
  moreover have "devs ?K' = (devs K)(d := (devs K d)\<lparr>dv_flag := fl, ref_count := 0, open_flag := 0\<rparr>)" "drv ?K' = drv K"
    by (simp_all add: set_dev_def m)
  moreover have "\<forall>x. linked x ?K' = (x = d \<or> linked x K)" by (auto simp: linked_def set_dev_def class_defs)
  ultimately show ?thesis using r by blast
qed

text \<open>C32: Finding, registering and unregistering devices is looking up, adding and removing in a map from names to devices: a name
  has one device, a second device with it is refused, and no call fails.\<close>

theorem devices_refine_map:
  assumes "registry_ok K" "sched_ok idle K" "legal_dev c K"
  shows "\<exists>r K'. exec_dev c K = Some (r, K') \<and> (r, dev_map K') = abs_dev c (dev_map K) \<and> registry_ok K' \<and> sched_ok idle K'"
proof (cases c)
  case (Find n)
  then obtain K' where k: "rt_device_find n K = Some (dev_map K (key n), K')" "sched_ok idle K'" "kernel.more K' = kernel.more K"
    using find_device [OF assms(1) _ assms(2), of n] assms(3) by auto
  show ?thesis using k(1,2) Find assms(1) more_ok [OF devices_fields(1,2) [OF k(3)]] by simp
next
  case (Register d n fl)
  then have a: "readable 16 n" "\<not> linked d K" using assms(3) by simp_all
  obtain K1 where k: "rt_device_find n K = Some (dev_map K (key n), K1)" "sched_ok idle K1" "kernel.more K1 = kernel.more K"
    using find_device [OF assms(1) a(1) assms(2)] by blast
  note m = devices_fields [OF k(3)]
  note ok = more_ok [OF m(1,2)]
  show ?thesis
  proof (cases "dev_map K (key n)")
    case (Some x)
    then show ?thesis using k(1,2) Register assms(1) ok by (simp add: rt_device_register_def)
  next
    case None
    then show ?thesis using register_new [OF assms(1,2) a, of fl] Register by auto
  qed
next
  case (Unregister d)
  have "dev_map (rt_object_detach d K) = (\<lambda>k. if dev_map K k = Some d then None else dev_map K k)"
    using assms(1) find_without [of "\<lambda>x. key (o_name (objs K x))"] by (auto simp: dev_map_def rt_object_detach_def registry_ok_def fun_eq_iff)
  moreover have "registry_ok (rt_object_detach d K)"
    using assms(1) by (auto simp: registry_ok_def rt_object_detach_def distinct_map distinct_removeAll inj_on_def)
  moreover have "sched_ok idle (rt_object_detach d K)"
    using assms(2) by (auto simp: sched_ok_def rt_object_detach_def good_def can_run_def live_def intro!: kernel_ok_cong [of K])
  ultimately show ?thesis using Unregister by (simp add: rt_device_unregister_def)
qed


subsection \<open>The idle thread\<close>

text \<open>A cleanup function that leaves the lists of the kernel and the objects alone.\<close>

definition gentle :: "(nat \<Rightarrow> objects \<Rightarrow> objects) \<Rightarrow> bool" where
  "gentle clean = (\<forall>t K. links (clean t K) = links K \<and> irq_nest (clean t K) = irq_nest K \<and> objs (clean t K) = objs K
     \<and> rt_object_container (clean t K) = rt_object_container K)"

text \<open>The memory of ended threads: their stacks and their objects.\<close>

definition blocks_of :: "(nat \<Rightarrow> u32) \<Rightarrow> nat list \<Rightarrow> u32 list" where
  "blocks_of stack_addr ts = concat (map (\<lambda>t. [stack_addr t, of_nat t]) ts)"

abbreviation kernel_made :: "objects \<Rightarrow> nat \<Rightarrow> bool" where
  "kernel_made K \<equiv> \<lambda>t. \<not> rt_object_is_systemobject t K"

text \<open>The state of the idle thread's work: the threads that wait for it, and the blocks on the heap.\<close>

definition idle_ready :: "(nat \<Rightarrow> u32) \<Rightarrow> objects \<Rightarrow> heap \<Rightarrow> (u32 \<rightharpoonup> bytes) \<Rightarrow> bool" where
  "idle_ready stack_addr K H f = (irq_nest K = 0 \<and> distinct (links K Defunct) \<and> heap_holds H f
     \<and> distinct (blocks_of stack_addr (filter (kernel_made K) (links K Defunct)))
     \<and> set (blocks_of stack_addr (filter (kernel_made K) (links K Defunct))) \<subseteq> dom f)"

text \<open>What is left when the threads \<open>ts\<close> have been freed.\<close>

definition idle_freed :: "(nat \<Rightarrow> u32) \<Rightarrow> nat list \<Rightarrow> objects \<Rightarrow> (u32 \<rightharpoonup> bytes) \<Rightarrow> objects \<Rightarrow> heap \<Rightarrow> bool" where
  "idle_freed stack_addr ts K f K' H' = (rt_object_container K' = (\<lambda>c. filter (\<lambda>x. x \<notin> set ts) (rt_object_container K c))
     \<and> heap_holds H' (f |` (- set (blocks_of stack_addr ts))))"

lemma idle_freed_append:
  assumes "idle_freed stack_addr ts K f K1 H1" "idle_freed stack_addr us K1 (f |` (- set (blocks_of stack_addr ts))) K2 H2"
  shows "idle_freed stack_addr (ts @ us) K f K2 H2"
proof -
  have "(f |` (- set (blocks_of stack_addr ts))) |` (- set (blocks_of stack_addr us)) = f |` (- set (blocks_of stack_addr (ts @ us)))"
    by (auto simp: blocks_of_def restrict_map_def)
  then show ?thesis using assms by (auto simp: idle_freed_def filter_filter conj_commute intro!: filter_cong)
qed

lemma idle_round:
  assumes "gentle clean" "idle_ready stack_addr K H f"
  shows "\<exists>K' H'. rt_thread_idle_excute clean stack_addr K H = Some (K', H')
    \<and> links K' Defunct = tl (dropWhile (kernel_made K) (links K Defunct)) \<and> objs K' = objs K \<and> irq_nest K' = 0
    \<and> idle_freed stack_addr (takeWhile (kernel_made K) (links K Defunct)) K f K' H'"
  using assms(2)
proof (induction "links K Defunct" arbitrary: K H f)
  case Nil
  then show ?case by (subst rt_thread_idle_excute.simps) (auto simp: idle_freed_def idle_ready_def blocks_of_def restrict_map_def)
next
  case (Cons t ts)
  note r = Cons.prems [unfolded idle_ready_def Cons.hyps(2) [symmetric]]
  let ?K1 = "unlink t K"
  define K2 where "K2 = (if t_cleanup (th ?K1 t) then clean t ?K1 else ?K1)"
  have k2: "links K2 = (\<lambda>q. removeAll t (links K q))" "irq_nest K2 = 0" "objs K2 = objs K" "rt_object_container K2 = rt_object_container K"
    using assms(1) r by (auto simp: K2_def gentle_def unlink_def)
  have t: "t \<notin> set ts" using r by simp
  have l2: "links K2 Defunct = ts" using t by (simp add: k2(1) flip: Cons.hyps(2))
  have s: "rt_object_is_systemobject x K' = rt_object_is_systemobject x K" if "objs K' = objs K" for x and K' :: objects
    using that by (simp add: rt_object_is_systemobject_def)
  show ?case
  proof (cases "rt_object_is_systemobject t K")
    case True
    then have "rt_thread_idle_excute clean stack_addr K H = Some (K2, H)"
      using r s [OF k2(3)] by (subst rt_thread_idle_excute.simps) (simp add: Let_def flip: Cons.hyps(2) K2_def)
    moreover have "idle_freed stack_addr [] K f K2 H" using r k2(4) by (simp add: idle_freed_def blocks_of_def restrict_map_def)
    ultimately show ?thesis using True l2 k2(2,3) by (simp flip: Cons.hyps(2))
  next
    case False
    then have d: "stack_addr t \<in> dom f" "of_nat t \<in> dom f" "stack_addr t \<noteq> of_nat t" using r by (auto simp: blocks_of_def)
    obtain H1 where h1: "rt_free (stack_addr t) H = Some H1" "heap_holds H1 (f(stack_addr t := None))"
      using free_holds [of H f "stack_addr t"] r d(1) by auto
    obtain v where "(f(stack_addr t := None)) (of_nat t) = Some v" using d(2,3) by auto
    then obtain H2 where h2: "rt_free (of_nat t) H1 = Some H2" "heap_holds H2 (f(stack_addr t := None, of_nat t := None))"
      using free_holds [OF h1(2)] by blast
    let ?g = "f |` (- set (blocks_of stack_addr [t]))"
    have g: "f(stack_addr t := None, of_nat t := None) = ?g" by (auto simp: blocks_of_def restrict_map_def)
    define K3 where "K3 = rt_object_detach t K2"
    have k3: "links K3 Defunct = ts" "irq_nest K3 = 0" "objs K3 = objs K" "rt_object_container K3 = (\<lambda>c. removeAll t (rt_object_container K c))"
      using k2 l2 by (simp_all add: K3_def rt_object_detach_def)
    have m: "kernel_made K3 = kernel_made K" using s [OF k3(3)] by simp
    have bt: "blocks_of stack_addr (filter (kernel_made K) (t # ts)) = [stack_addr t, of_nat t] @ blocks_of stack_addr (filter (kernel_made K) ts)"
      "set (blocks_of stack_addr [t]) = {stack_addr t, of_nat t}" using False by (simp_all add: blocks_of_def)
    have "set (blocks_of stack_addr (filter (kernel_made K) ts)) \<subseteq> dom ?g"
      using r unfolding bt dom_restrict by auto
    then have "idle_ready stack_addr K3 H2 ?g"
      using r False h2(2) k3 unfolding idle_ready_def m g by (simp add: blocks_of_def)
    from Cons.hyps(1) [OF k3(1) [symmetric] this] obtain K' H' where k': "rt_thread_idle_excute clean stack_addr K3 H2 = Some (K', H')"
      "links K' Defunct = tl (dropWhile (kernel_made K) ts)" "objs K' = objs K" "irq_nest K' = 0"
      "idle_freed stack_addr (takeWhile (kernel_made K) ts) K3 ?g K' H'" unfolding m k3(1,3) by blast
    have "rt_thread_idle_excute clean stack_addr K H = Some (K', H')"
      using k'(1) h1(1) h2(1) r False s [OF k2(3)]
      by (subst rt_thread_idle_excute.simps) (simp add: Let_def rt_object_delete_def flip: Cons.hyps(2) K2_def K3_def)
    moreover have "idle_freed stack_addr [t] K f K3 H2"
      using h2(2) k3(4) by (simp add: idle_freed_def g removeAll_filter_not_eq fun_eq_iff eq_commute)
    from idle_freed_append [OF this k'(5)] have "idle_freed stack_addr (takeWhile (kernel_made K) (t # ts)) K f K' H'" using False by simp
    ultimately show ?thesis using k'(2,3,4) False by (simp flip: Cons.hyps(2))
  qed
qed

lemma filter_tl_drop: "filter P xs = takeWhile P xs @ filter P (tl (dropWhile P xs))"
  by (induction xs) auto

lemma static_left: "dropWhile P xs \<noteq> [] \<Longrightarrow> length (filter (Not \<circ> P) xs) = Suc (length (filter (Not \<circ> P) (tl (dropWhile P xs))))"
  by (induction xs) auto

text \<open>C33: One round of the idle thread frees the threads up to the first static one: the stack and the object of each go
  back to the heap, whose other blocks stay as they are, and the container forgets it.  The static thread is only taken
  from the list, and, against the comment in the code, the threads behind it are left for later rounds; after one round
  more than there are static threads none is left, and all that the kernel made have been freed, each once.\<close>

theorem idle_frees_ended_threads:
  assumes "gentle clean" "idle_ready stack_addr K H f"
  shows "(\<exists>K' H'. rt_thread_idle_excute clean stack_addr K H = Some (K', H')
      \<and> links K' Defunct = tl (dropWhile (kernel_made K) (links K Defunct))
      \<and> idle_freed stack_addr (takeWhile (kernel_made K) (links K Defunct)) K f K' H')
    \<and> (\<exists>K' H'. rt_thread_idle_entry (Suc (length (filter (Not \<circ> kernel_made K) (links K Defunct)))) clean stack_addr K H = Some (K', H')
      \<and> links K' Defunct = [] \<and> idle_freed stack_addr (filter (kernel_made K) (links K Defunct)) K f K' H')"
proof -
  have turns: "\<exists>K' H'. rt_thread_idle_entry (Suc n) clean stack_addr K H = Some (K', H') \<and> links K' Defunct = []
      \<and> idle_freed stack_addr (filter (kernel_made K) (links K Defunct)) K f K' H'"
    if "idle_ready stack_addr K H f" "length (filter (Not \<circ> kernel_made K) (links K Defunct)) = n" for n K H f
    using that
  proof (induction n arbitrary: K H f)
    case 0
    have a: "list_all (kernel_made K) (links K Defunct)" using 0(2) by (simp add: filter_empty_conv list_all_iff)
    then have e: "dropWhile (kernel_made K) (links K Defunct) = []" "takeWhile (kernel_made K) (links K Defunct) = links K Defunct"
      "filter (kernel_made K) (links K Defunct) = links K Defunct"
      by (simp_all add: list_all_iff dropWhile_eq_Nil_conv takeWhile_eq_all_conv filter_True)
    show ?case using idle_round [OF assms(1) 0(1)] unfolding e by auto
  next
    case (Suc n)
    let ?l = "links K Defunct" and ?P = "kernel_made K"
    let ?us = "takeWhile ?P ?l" and ?g = "f |` (- set (blocks_of stack_addr (takeWhile ?P ?l)))"
    obtain K1 H1 where k1: "rt_thread_idle_excute clean stack_addr K H = Some (K1, H1)" "links K1 Defunct = tl (dropWhile ?P ?l)" "objs K1 = objs K"
      "irq_nest K1 = 0" "idle_freed stack_addr ?us K f K1 H1" using idle_round [OF assms(1) Suc.prems(1)] by blast
    have m: "kernel_made K1 = ?P" using k1(3) by (simp add: rt_object_is_systemobject_def)
    have b: "blocks_of stack_addr (filter ?P ?l) = blocks_of stack_addr ?us @ blocks_of stack_addr (filter ?P (tl (dropWhile ?P ?l)))"
      by (subst filter_tl_drop) (simp add: blocks_of_def)
    have r: "irq_nest K = 0" "distinct ?l" "distinct (blocks_of stack_addr (filter ?P ?l))" "set (blocks_of stack_addr (filter ?P ?l)) \<subseteq> dom f"
      using Suc.prems(1) by (simp_all add: idle_ready_def)
    have "set (blocks_of stack_addr (filter ?P (tl (dropWhile ?P ?l)))) \<subseteq> dom ?g" using r(3,4) unfolding b by auto
    moreover have "distinct (tl (dropWhile ?P ?l))" using r(2) by (simp add: distinct_tl distinct_dropWhile)
    ultimately have i: "idle_ready stack_addr K1 H1 ?g"
      using r(3) k1(4,5) unfolding b idle_ready_def m k1(2) by (simp add: idle_freed_def)
    have "filter (Not \<circ> ?P) ?l \<noteq> []" using Suc.prems(2) by (metis Zero_not_Suc list.size(3))
    then have "dropWhile ?P ?l \<noteq> []" by (simp add: dropWhile_eq_Nil_conv filter_empty_conv)
    then have "length (filter (Not \<circ> ?P) (tl (dropWhile ?P ?l))) = n" using Suc.prems(2) static_left [of ?P ?l] by (metis Suc_inject)
    then obtain K' H' where k': "rt_thread_idle_entry (Suc n) clean stack_addr K1 H1 = Some (K', H')" "links K' Defunct = []"
      "idle_freed stack_addr (filter ?P (tl (dropWhile ?P ?l))) K1 ?g K' H'" using Suc.IH [OF i] unfolding m k1(2) by blast
    have "rt_thread_idle_entry (Suc (Suc n)) clean stack_addr K H = Some (K', H')" using k1(1) k'(1) by simp
    moreover have "idle_freed stack_addr (filter ?P ?l) K f K' H'" using idle_freed_append [OF k1(5) k'(3)] by (simp flip: filter_tl_drop)
    ultimately show ?case using k'(2) by blast
  qed
  show ?thesis using idle_round [OF assms] turns [OF assms(2) refl] by blast
qed

subsection \<open>Opening and closing\<close>

text \<open>C34: When the driver of a device that only one may use fails to close it, the device stays marked as open with no
  reference: it cannot be closed again, not read, and every later attempt to open it is told that it is busy.\<close>

theorem failed_close_locks_device:
  assumes "dv_flag (devs K d) AND RT_DEVICE_FLAG_STANDALONE \<noteq> 0" "dv_flag (devs K d) AND RT_DEVICE_FLAG_ACTIVATED \<noteq> 0"
    and "op_close (dv_ops (devs K d)) = Some f" "fst (f d (drv K)) \<notin> {RT_EOK, - RT_ENOSYS}"
    and "open_flag (devs K d) AND RT_DEVICE_OFLAG_OPEN \<noteq> 0" "ref_count (devs K d) = 1"
  shows "\<exists>K'. rt_device_close d K = (fst (f d (drv K)), K') \<and> rt_device_open d oflag K' = Some (- RT_EBUSY, K')
    \<and> rt_device_close d K' = (- RT_ERROR, K') \<and> map_option fst (rt_device_read d pos n K') = Some 0"
proof -
  obtain r s where f: "f d (drv K) = (r, s)" by fastforce
  let ?K = "(set_dev d (\<lambda>v. v\<lparr>ref_count := 0\<rparr>) K)\<lparr>drv := s\<rparr>"
  have u: "set_dev d (\<lambda>v. v\<lparr>ref_count := ref_count v - 1\<rparr>) K = set_dev d (\<lambda>v. v\<lparr>ref_count := 0\<rparr>) K" using assms(6) by (simp add: set_dev_def)
  have "rt_device_close d K = (r, ?K)"
    using assms(3,4,6) f unfolding rt_device_close_def u Let_def by (simp add: set_dev_def)
  moreover have "rt_device_open d oflag ?K = Some (- RT_EBUSY, ?K)"
    using assms(1,2,5) by (simp add: rt_device_open_def device_open_def set_dev_def)
  moreover have "rt_device_close d ?K = (- RT_ERROR, ?K)" "map_option fst (rt_device_read d pos n ?K) = Some 0"
    by (simp_all add: rt_device_close_def rt_device_read_def set_dev_def)
  ultimately show ?thesis using f by auto
qed


subsection \<open>Instances\<close>

definition demo_devices :: "nat devices" where
  "demo_devices = \<lparr>th = (\<lambda>_. \<lparr>t_stat = Thread_close, current_priority = 5, init_priority = 5, number_mask = 32, t_error = 0, event_set = 0, event_info = 0,
       init_tick = 10, remaining_tick = 10, t_static = False, t_cleanup = False\<rparr>),
     links = (\<lambda>q. if q = Defunct then [8, 9] else []), ready_group = 0, cur = None, cur_prio = 0, lock_nest = 0, irq_nest = 0, k_tick = 0,
     tm = (\<lambda>_. \<lparr>tm_init = 0, tm_timeout = 0, tm_active = False, tm_periodic = False\<rparr>), timer_list = [],
     objs = (\<lambda>x. \<lparr>o_name = (if x = 3 then 115 else 117) # replicate 15 0, o_type = 0, o_flag = 0\<rparr>),
     rt_object_container = (\<lambda>c. if c = 7 then [3, 4] else if c = 0 then [9, 1, 8] else []),
     devs = (\<lambda>_. \<lparr>dv_type = 0, dv_flag = 0x18, open_flag = 0x0b, ref_count = 1, rx_indicate = None, tx_complete = None,
       dv_ops = \<lparr>op_init = None, op_open = None, op_close = Some (\<lambda>d s. (-1, s + 1)), op_read = None, op_write = None, op_control = None\<rparr>\<rparr>),
     drv = 0\<rparr>"

theorem devices_refine_map_witness:
  "\<exists>r K'. exec_dev (Register 5 [116, 0] 3) demo_devices = Some (r, K') \<and> (r, dev_map K') = abs_dev (Register 5 [116, 0] 3) (dev_map demo_devices)
    \<and> registry_ok K' \<and> sched_ok 0 K'"
  by (rule devices_refine_map) (simp_all add: demo_devices_def registry_ok_def sched_ok_def readable_def linked_def class_defs key_def)

definition demo_objects :: objects where
  "demo_objects = \<lparr>th = th demo_devices, links = links demo_devices, ready_group = 0, cur = None, cur_prio = 0, lock_nest = 0, irq_nest = 0, k_tick = 0,
     tm = tm demo_devices, timer_list = [], objs = objs demo_devices, rt_object_container = rt_object_container demo_devices\<rparr>"

text \<open>A static thread, number 0, ended before one whose object is at \<open>t\<close>.\<close>

definition demo_ended :: "nat \<Rightarrow> objects" where
  "demo_ended t = demo_objects\<lparr>links := (\<lambda>q. if q = Defunct then [0, t] else []),
     objs := (\<lambda>x. \<lparr>o_name = replicate 16 0, o_type = (if x = 0 then 0x80 else 0), o_flag = 0\<rparr>), rt_object_container := (\<lambda>c. if c = 0 then [t, 0] else [])\<rparr>"

theorem idle_frees_ended_threads_witness:
  "\<exists>a b H1 H2 H3 K3. rt_malloc 20 demo_heap = Some (a, H1) \<and> rt_malloc 30 H1 = Some (b, H2)
    \<and> rt_thread_idle_entry 2 (\<lambda>t K. K) (\<lambda>_. a) (demo_ended (unat b)) H2 = Some (K3, H3) \<and> links K3 Defunct = [] \<and> heap_holds H3 (\<lambda>_. None)
    \<and> rt_object_container K3 0 = [0]"
proof -
  obtain a b H1 H2 f where h: "rt_malloc 20 demo_heap = Some (a, H1)" "rt_malloc 30 H1 = Some (b, H2)" "a \<noteq> b" "b \<noteq> 0" "heap_holds H2 f" "dom f = {a, b}"
    using demo_two_blocks by blast
  let ?K = "demo_ended (unat b)"
  have t: "unat b \<noteq> 0" using h(4) by (simp add: unat_eq_zero)
  have s: "rt_object_is_systemobject x ?K = (x = 0)" for x
    by (simp add: rt_object_is_systemobject_def demo_ended_def RT_Object_Class_Static_def)
  have l: "links ?K Defunct = [0, unat b]" "irq_nest ?K = 0" "rt_object_container ?K 0 = [unat b, 0]" by (simp_all add: demo_ended_def demo_objects_def)
  have f: "filter (kernel_made ?K) (links ?K Defunct) = [unat b]" "length (filter (Not \<circ> kernel_made ?K) (links ?K Defunct)) = 1"
    using t by (simp_all add: s l)
  have n: "blocks_of (\<lambda>_. a) [unat b] = [a, b]" by (simp add: blocks_of_def)
  have "idle_ready (\<lambda>_. a) ?K H2 f" unfolding idle_ready_def f n using h(3,5,6) t by (simp add: l)
  moreover have "gentle (\<lambda>t K. K)" by (simp add: gentle_def)
  ultimately obtain K3 H3 where k: "rt_thread_idle_entry (Suc 1) (\<lambda>t K. K) (\<lambda>_. a) ?K H2 = Some (K3, H3)" "links K3 Defunct = []"
    "idle_freed (\<lambda>_. a) [unat b] ?K f K3 H3" using idle_frees_ended_threads [of "\<lambda>t K. K" "\<lambda>_. a" ?K H2 f] unfolding f by blast
  have "f |` (- set [a, b]) = (\<lambda>_. None)" using h(6) by (auto simp: restrict_map_def fun_eq_iff)
  then have "heap_holds H3 (\<lambda>_. None)" "rt_object_container K3 0 = [0]" using k(3) t by (simp_all add: idle_freed_def n l)
  moreover have "Suc 1 = 2" by simp
  ultimately show ?thesis using h(1,2) k(1,2) by metis
qed

theorem failed_close_locks_device_witness:
  "\<exists>K'. rt_device_close 3 demo_devices = (fst ((\<lambda>d s. (-1, s + 1)) (3 :: nat) (drv demo_devices)), K') \<and> rt_device_open 3 0x03 K' = Some (- RT_EBUSY, K')
    \<and> rt_device_close 3 K' = (- RT_ERROR, K') \<and> map_option fst (rt_device_read 3 0 8 K') = Some 0"
  by (rule failed_close_locks_device) (simp_all add: demo_devices_def device_flags rt_codes RT_ENOSYS_def)

end
