(* ===== verification/SpiDev.thy ===== *)
theory SpiDev imports ObjectProps SpiBus begin

text \<open>The SPI framework as devices (spi_dev.c and the registration in spi_core.c): a bus and the devices on it, with the state of the
  bus as the state of the drivers.  The hardware is the parameter of SpiBus.\<close>

definition RT_Device_Class_SPIBUS :: u8 where "RT_Device_Class_SPIBUS = 11"
definition RT_Device_Class_SPIDevice :: u8 where "RT_Device_Class_SPIDevice = 12"
definition RT_DEVICE_FLAG_RDWR :: u16 where "RT_DEVICE_FLAG_RDWR = 3"

subsection \<open>The interface of a device\<close>

definition spi_bus_device_read :: "'c spi_env \<Rightarrow> nat \<Rightarrow> int \<Rightarrow> u32 \<Rightarrow> 'c spi \<Rightarrow> (u32 \<times> bytes \<times> 'c spi) option" where
  "spi_bus_device_read H d pos n S = (case spi_owner S of None \<Rightarrow> None
     | Some w \<Rightarrow> map_option (\<lambda>(k, rs, S1). (of_nat k, rs, S1)) (rt_spi_transfer H w None True (unat n) S))"

definition spi_bus_device_write :: "'c spi_env \<Rightarrow> nat \<Rightarrow> int \<Rightarrow> bytes \<Rightarrow> 'c spi \<Rightarrow> (u32 \<times> 'c spi) option" where
  "spi_bus_device_write H d pos b S = (case spi_owner S of None \<Rightarrow> None
     | Some w \<Rightarrow> map_option (\<lambda>(k, rs, S1). (of_nat k, S1)) (rt_spi_transfer H w (Some b) False (length b) S))"

definition spidev_device_read :: "'c spi_env \<Rightarrow> nat \<Rightarrow> int \<Rightarrow> u32 \<Rightarrow> 'c spi \<Rightarrow> (u32 \<times> bytes \<times> 'c spi) option" where
  "spidev_device_read H d pos n S = map_option (\<lambda>(k, rs, S1). (of_nat k, rs, S1)) (rt_spi_transfer H d None True (unat n) S)"

definition spidev_device_write :: "'c spi_env \<Rightarrow> nat \<Rightarrow> int \<Rightarrow> bytes \<Rightarrow> 'c spi \<Rightarrow> (u32 \<times> 'c spi) option" where
  "spidev_device_write H d pos b S = map_option (\<lambda>(k, rs, S1). (of_nat k, S1)) (rt_spi_transfer H d (Some b) False (length b) S)"

definition spi_device_control :: "nat \<Rightarrow> u8 \<Rightarrow> u32 \<Rightarrow> 'c spi \<Rightarrow> int \<times> 'c spi" where
  "spi_device_control d cmd args S = (RT_EOK, S)"

definition spi_bus_ops :: "'c spi_env \<Rightarrow> 'c spi dev_ops" where
  "spi_bus_ops H = \<lparr>op_init = None, op_open = None, op_close = None, op_read = Some (spi_bus_device_read H),
     op_write = Some (spi_bus_device_write H), op_control = Some spi_device_control\<rparr>"

definition spidev_ops :: "'c spi_env \<Rightarrow> 'c spi dev_ops" where
  "spidev_ops H = \<lparr>op_init = None, op_open = None, op_close = None, op_read = Some (spidev_device_read H),
     op_write = Some (spidev_device_write H), op_control = Some spi_device_control\<rparr>"

subsection \<open>Registration\<close>

definition rt_spi_bus_device_init :: "'c spi_env \<Rightarrow> nat \<Rightarrow> bytes \<Rightarrow> 'c spi devices \<Rightarrow> (int \<times> 'c spi devices) option" where
  "rt_spi_bus_device_init H b name K = rt_device_register (Some b) name RT_DEVICE_FLAG_RDWR
     (set_dev b (\<lambda>v. v\<lparr>dv_type := RT_Device_Class_SPIBUS, dv_ops := spi_bus_ops H\<rparr>) K)"

definition rt_spidev_device_init :: "'c spi_env \<Rightarrow> nat \<Rightarrow> bytes \<Rightarrow> 'c spi devices \<Rightarrow> (int \<times> 'c spi devices) option" where
  "rt_spidev_device_init H d name K = rt_device_register (Some d) name RT_DEVICE_FLAG_RDWR
     (set_dev d (\<lambda>v. v\<lparr>dv_type := RT_Device_Class_SPIDevice, dv_ops := spidev_ops H\<rparr>) K)"

text \<open>The lock is given up and nobody owns the bus; the driver's functions are those of the hardware \<open>H\<close>.\<close>

definition rt_spi_bus_register :: "'c spi_env \<Rightarrow> nat \<Rightarrow> bytes \<Rightarrow> 'c spi devices \<Rightarrow> (int \<times> 'c spi devices) option" where
  "rt_spi_bus_register H b name K = map_option (\<lambda>(r, K1). if r \<noteq> RT_EOK then (r, K1)
     else (RT_EOK, K1\<lparr>drv := (drv K1)\<lparr>spi_lock := 0, spi_owner := None\<rparr>\<rparr>)) (rt_spi_bus_device_init H b name K)"

definition spi_attach :: "'c spi_env \<Rightarrow> nat \<Rightarrow> bytes \<Rightarrow> bytes \<Rightarrow> 'c spi devices \<Rightarrow> (int \<times> 'c spi devices) option" where
  "spi_attach H d name bus_name K = (case rt_device_find bus_name K of None \<Rightarrow> None
     | Some (bus, K1) \<Rightarrow> if bus \<noteq> None \<and> dv_type (devs K1 (the bus)) = RT_Device_Class_SPIBUS
         then map_option (\<lambda>(r, K2). case rt_spi_bus_attach_device True r d (drv K2) of (r1, S) \<Rightarrow> (r1, K2\<lparr>drv := S\<rparr>)) (rt_spidev_device_init H d name K1)
         else (case rt_spi_bus_attach_device False 0 d (drv K1) of (r1, S) \<Rightarrow> Some (r1, K1\<lparr>drv := S\<rparr>)))"

subsection \<open>From a name to the bus\<close>

lemma set_dev_registry: "registry_ok (set_dev d f K) = registry_ok K" "dev_map (set_dev d f K) = dev_map K" "linked x (set_dev d f K) = linked x K"
  "drv (set_dev d f K) = drv K"
  by (simp_all add: registry_ok_def dev_map_def set_dev_def linked_def fun_eq_iff)

lemma set_drv_registry: "registry_ok (K\<lparr>drv := s\<rparr>) = registry_ok K" "dev_map (K\<lparr>drv := s\<rparr>) = dev_map K" "linked x (K\<lparr>drv := s\<rparr>) = linked x K"
  by (simp_all add: registry_ok_def dev_map_def linked_def fun_eq_iff)

lemma set_dev_sched: "sched_ok idle K \<Longrightarrow> sched_ok idle (set_dev d f K)" "sched_ok idle K \<Longrightarrow> sched_ok idle (K\<lparr>drv := s\<rparr>)"
  by (auto simp: sched_ok_def set_dev_def good_def can_run_def live_def intro!: kernel_ok_cong [of K])

lemma register_bus:
  assumes "registry_ok K" "sched_ok idle K" "readable 16 bn" "dev_map K (key bn) = None" "\<not> linked b K"
  shows "\<exists>K1. rt_spi_bus_register H b bn K = Some (RT_EOK, K1) \<and> registry_ok K1 \<and> sched_ok idle K1 \<and> dev_map K1 = (dev_map K)(key bn \<mapsto> b)
    \<and> dv_type (devs K1 b) = RT_Device_Class_SPIBUS \<and> drv K1 = (drv K)\<lparr>spi_lock := 0, spi_owner := None\<rparr> \<and> (\<forall>x. linked x K1 = (x = b \<or> linked x K))"
proof -
  let ?Kb = "set_dev b (\<lambda>v. v\<lparr>dv_type := RT_Device_Class_SPIBUS, dv_ops := spi_bus_ops H\<rparr>) K"
  obtain Kr where r: "rt_device_register (Some b) bn RT_DEVICE_FLAG_RDWR ?Kb = Some (RT_EOK, Kr)" "dev_map Kr = (dev_map K)(key bn \<mapsto> b)"
      "registry_ok Kr" "sched_ok idle Kr" "devs Kr = (devs ?Kb)(b := (devs ?Kb b)\<lparr>dv_flag := RT_DEVICE_FLAG_RDWR, ref_count := 0, open_flag := 0\<rparr>)"
      "drv Kr = drv K" "\<forall>x. linked x Kr = (x = b \<or> linked x K)"
    using register_new [of ?Kb idle bn b RT_DEVICE_FLAG_RDWR] assms set_dev_sched(1) [OF assms(2)] by (auto simp: set_dev_registry)
  have "rt_spi_bus_register H b bn K = Some (RT_EOK, Kr\<lparr>drv := (drv Kr)\<lparr>spi_lock := 0, spi_owner := None\<rparr>\<rparr>)"
    using r(1) by (simp add: rt_spi_bus_register_def rt_spi_bus_device_init_def)
  then show ?thesis using r set_dev_sched(2) [OF r(4)] by (auto simp: set_drv_registry set_dev_def)
qed

lemma attach_to_bus:
  assumes "registry_ok K" "sched_ok idle K" "readable 16 bn" "readable 16 dn" "dev_map K (key bn) = Some b" "dv_type (devs K b) = RT_Device_Class_SPIBUS"
    and "dev_map K (key dn) = None" "\<not> linked d K"
  shows "\<exists>K2 K3. spi_attach H d dn bn K = Some (RT_EOK, K2) \<and> rt_device_find dn K2 = Some (Some d, K3) \<and> sched_ok idle K3 \<and> kernel.more K3 = kernel.more K2
    \<and> drv K2 = (drv K)\<lparr>spi_config := (spi_config (drv K))(d := \<lparr>conf_mode = 0, data_width = 0, max_hz = 0\<rparr>)\<rparr>
    \<and> devs K2 d = (devs K d)\<lparr>dv_type := RT_Device_Class_SPIDevice, dv_ops := spidev_ops H, dv_flag := RT_DEVICE_FLAG_RDWR, ref_count := 0, open_flag := 0\<rparr>"
proof -
  obtain K1 where f: "rt_device_find bn K = Some (Some b, K1)" "sched_ok idle K1" "kernel.more K1 = kernel.more K"
    using find_device [OF assms(1,3,2)] by (auto simp: assms(5))
  note m1 = devices_fields [OF f(3)]
  note ok1 = more_ok [OF m1(1,2)]
  let ?Kd = "set_dev d (\<lambda>v. v\<lparr>dv_type := RT_Device_Class_SPIDevice, dv_ops := spidev_ops H\<rparr>) K1"
  obtain Ka where a: "rt_device_register (Some d) dn RT_DEVICE_FLAG_RDWR ?Kd = Some (RT_EOK, Ka)" "dev_map Ka = (dev_map K)(key dn \<mapsto> d)"
      "registry_ok Ka" "sched_ok idle Ka" "devs Ka = (devs ?Kd)(d := (devs ?Kd d)\<lparr>dv_flag := RT_DEVICE_FLAG_RDWR, ref_count := 0, open_flag := 0\<rparr>)"
      "drv Ka = drv K"
    using register_new [of ?Kd idle dn d RT_DEVICE_FLAG_RDWR] assms(1,4,7,8) ok1 m1(4) set_dev_sched(1) [OF f(2)] by (auto simp: set_dev_registry)
  define K2 where "K2 = Ka\<lparr>drv := (drv Ka)\<lparr>spi_config := (spi_config (drv Ka))(d := \<lparr>conf_mode = 0, data_width = 0, max_hz = 0\<rparr>)\<rparr>\<rparr>"
  have att: "spi_attach H d dn bn K = Some (RT_EOK, K2)"
    using f(1) a(1) assms(6) by (simp add: spi_attach_def rt_spidev_device_init_def rt_spi_bus_attach_device_def K2_def RT_EOK_def m1(3))
  have k2: "registry_ok K2" "sched_ok idle K2" "dev_map K2 (key dn) = Some d"
    using a set_dev_sched(2) [OF a(4)] by (auto simp: K2_def set_drv_registry)
  obtain K3 where f2: "rt_device_find dn K2 = Some (Some d, K3)" "sched_ok idle K3" "kernel.more K3 = kernel.more K2"
    using find_device [OF k2(1) assms(4) k2(2)] k2(3) by auto
  show ?thesis using att f2 by (intro exI conjI) (assumption | simp add: K2_def a(5,6) set_dev_def m1(3))+
qed

text \<open>A device attached to a registered bus is found by its name, can be opened, and what is written to it goes over the bus as
  one transfer of its own; the bus was set up anew, with no owner.\<close>

theorem attached_device_reaches_bus:
  assumes "registry_ok K" "sched_ok idle K" "readable 16 bn" "readable 16 dn" "key bn \<noteq> key dn"
    and "dev_map K (key bn) = None" "dev_map K (key dn) = None" "\<not> linked b K" "\<not> linked d K" "b \<noteq> d"
  shows "\<exists>K1 K2 K3 K4. rt_spi_bus_register H b bn K = Some (RT_EOK, K1) \<and> spi_attach H d dn bn K1 = Some (RT_EOK, K2)
    \<and> rt_device_find dn K2 = Some (Some d, K3) \<and> rt_device_open d oflag K3 = Some (RT_EOK, K4)
    \<and> drv K4 = (drv K)\<lparr>spi_lock := 0, spi_owner := None, spi_config := (spi_config (drv K))(d := \<lparr>conf_mode = 0, data_width = 0, max_hz = 0\<rparr>)\<rparr>
    \<and> map_option fst (rt_device_write d pos bs K4) = map_option (\<lambda>(k, _). of_nat k) (rt_spi_transfer H d (Some bs) False (length bs) (drv K4))"
proof -
  obtain K1 where k1: "rt_spi_bus_register H b bn K = Some (RT_EOK, K1)" "registry_ok K1" "sched_ok idle K1" "dev_map K1 = (dev_map K)(key bn \<mapsto> b)"
      "dv_type (devs K1 b) = RT_Device_Class_SPIBUS" "drv K1 = (drv K)\<lparr>spi_lock := 0, spi_owner := None\<rparr>" "\<not> linked d K1"
    using register_bus [OF assms(1,2,3,6,8), of H] assms(9,10) by auto
  obtain K2 K3 where k2: "spi_attach H d dn bn K1 = Some (RT_EOK, K2)" "rt_device_find dn K2 = Some (Some d, K3)" "kernel.more K3 = kernel.more K2"
      "drv K2 = (drv K1)\<lparr>spi_config := (spi_config (drv K1))(d := \<lparr>conf_mode = 0, data_width = 0, max_hz = 0\<rparr>)\<rparr>"
      "devs K2 d = (devs K1 d)\<lparr>dv_type := RT_Device_Class_SPIDevice, dv_ops := spidev_ops H, dv_flag := RT_DEVICE_FLAG_RDWR, ref_count := 0, open_flag := 0\<rparr>"
    using attach_to_bus [OF k1(2,3) assms(3,4) _ k1(5) _ k1(7), of H] k1(4) assms(5,7) by auto
  note m3 = devices_fields [OF k2(3)]
  define K4 where "K4 = set_dev d (\<lambda>v. v\<lparr>open_flag := oflag OR RT_DEVICE_OFLAG_OPEN, ref_count := 1\<rparr>) (activate d K3)"
  have op: "rt_device_open d oflag K3 = Some (RT_EOK, K4)"
    by (simp add: rt_device_open_def m3 k2(5) spidev_ops_def device_open_def activate_def set_dev_def device_flags RT_DEVICE_FLAG_RDWR_def K4_def)
  have "drv K4 = (drv K)\<lparr>spi_lock := 0, spi_owner := None, spi_config := (spi_config (drv K))(d := \<lparr>conf_mode = 0, data_width = 0, max_hz = 0\<rparr>)\<rparr>"
    by (simp add: K4_def set_dev_def activate_def m3(4) k2(4) k1(6))
  moreover have "map_option fst (rt_device_write d pos bs K4) = map_option (\<lambda>(k, _). of_nat k) (rt_spi_transfer H d (Some bs) False (length bs) (drv K4))"
    by (simp add: rt_device_write_def K4_def set_dev_def activate_def m3 k2(5) spidev_ops_def spidev_device_write_def option.map_comp comp_def case_prod_unfold)
  ultimately show ?thesis using k1(1) k2(1,2) op by blast
qed

definition echo_env :: "nat spi_env" where
  "echo_env = \<lparr>hw_cs = (\<lambda>d l x. x), hw_data = (\<lambda>w x. (w, x + 1)), hw_init = (\<lambda>i x. x), core_clock = 72000000, is_spi1 = True, lock_result = 0\<rparr>"

definition spi_devices :: "nat spi devices" where
  "spi_devices = \<lparr>th = th demo_devices, links = links demo_devices, ready_group = 0, cur = None, cur_prio = 0, lock_nest = 0, irq_nest = 0, k_tick = 0,
     tm = tm demo_devices, timer_list = [], objs = objs demo_devices, rt_object_container = rt_object_container demo_devices,
     devs = (\<lambda>_. \<lparr>dv_type = 0, dv_flag = 0, open_flag = 0, ref_count = 0, rx_indicate = None, tx_complete = None,
       dv_ops = \<lparr>op_init = None, op_open = None, op_close = None, op_read = None, op_write = None, op_control = None\<rparr>\<rparr>),
     drv = \<lparr>spi_owner = Some 9, spi_config = (\<lambda>_. \<lparr>conf_mode = 1, data_width = 8, max_hz = 1000\<rparr>), spi_errno = 0, spi_lock = 3, chip = 0\<rparr>\<rparr>"

theorem attached_device_reaches_bus_witness:
  "\<exists>K1 K2 K3 K4. rt_spi_bus_register echo_env 11 [98, 0] spi_devices = Some (RT_EOK, K1) \<and> spi_attach echo_env 12 [100, 0] [98, 0] K1 = Some (RT_EOK, K2)
    \<and> rt_device_find [100, 0] K2 = Some (Some 12, K3) \<and> rt_device_open 12 3 K3 = Some (RT_EOK, K4)
    \<and> drv K4 = (drv spi_devices)\<lparr>spi_lock := 0, spi_owner := None, spi_config := (spi_config (drv spi_devices))(12 := \<lparr>conf_mode = 0, data_width = 0, max_hz = 0\<rparr>)\<rparr>
    \<and> map_option fst (rt_device_write 12 0 [1, 2] K4) = map_option (\<lambda>(k, _). of_nat k) (rt_spi_transfer echo_env 12 (Some [1, 2]) False (length [1, 2 :: u8]) (drv K4))"
  by (rule attached_device_reaches_bus) (simp_all add: spi_devices_def demo_devices_def registry_ok_def sched_ok_def readable_def linked_def class_defs key_def dev_map_def)

end
