(* ===== verification/EspInit.thy ===== *)
theory EspInit imports SpiDev IpcProps WifiThread begin

text \<open>esp8266.c: setting the module up.  The pins of the board are the state \<open>board\<close> (which of them are driven, the bits of the output
  registers, and the levels the other side saw during the waits), beside the external interrupts and the devices of SpiDev.\<close>

subsection \<open>Pins\<close>

datatype gpio_port = GPIOA | GPIOB | GPIOC | GPIOF

type_synonym pin = "gpio_port \<times> nat"

text \<open>\<open>held\<close>: for every wait its length in milliseconds and the levels on the pins; a pin that is not driven has none.\<close>

record board =
  driven :: "pin \<Rightarrow> bool"
  out_bit :: "pin \<Rightarrow> bool"
  held :: "(nat \<times> (pin \<Rightarrow> bool option)) list"

definition level :: "board \<Rightarrow> pin \<Rightarrow> bool option" where
  "level B p = (if driven B p then Some (out_bit B p) else None)"

definition pin_mode :: "pin \<Rightarrow> bool \<Rightarrow> board \<Rightarrow> board" where
  "pin_mode p out B = B\<lparr>driven := (driven B)(p := out)\<rparr>"

definition pin_out :: "pin \<Rightarrow> bool \<Rightarrow> board \<Rightarrow> board" where
  "pin_out p b B = B\<lparr>out_bit := (out_bit B)(p := b)\<rparr>"

definition delay_ms :: "nat \<Rightarrow> board \<Rightarrow> board" where
  "delay_ms n B = B\<lparr>held := held B @ [(n, level B)]\<rparr>"

definition ESP8266_EN :: pin where "ESP8266_EN = (GPIOC, 5)"
definition ESP8266_RST :: pin where "ESP8266_RST = (GPIOB, 0)"
definition ESP8266_CS :: pin where "ESP8266_CS = (GPIOA, 4)"
definition ESP8266_BOOT :: pin where "ESP8266_BOOT = (GPIOC, 4)"

definition ENABLE :: u8 where "ENABLE = 1"
definition DISABLE :: u8 where "DISABLE = 0"

definition esp_EN :: u8 where "esp_EN = 0"
definition esp_RST :: u8 where "esp_RST = 1"
definition esp_CS :: u8 where "esp_CS = 2"
definition esp_BOOT :: u8 where "esp_BOOT = 3"

lemmas esp_pins = ESP8266_EN_def ESP8266_RST_def ESP8266_CS_def ESP8266_BOOT_def
lemmas esp_ios = esp_EN_def esp_RST_def esp_CS_def esp_BOOT_def ENABLE_def DISABLE_def

definition esp8266_io_cfg :: "u8 \<Rightarrow> u8 \<Rightarrow> board \<Rightarrow> board" where
  "esp8266_io_cfg io m B = (let out = (m = ENABLE) in
     if io = esp_EN then pin_mode (GPIOC, 5) out B
     else if io = esp_RST then pin_mode (GPIOB, 0) out B
     else if io = esp_CS then pin_mode (GPIOA, 4) out B
     else if io = esp_BOOT then pin_mode (GPIOC, 4) out B
     else B)"

definition esp8266_boot :: "board \<Rightarrow> board" where
  "esp8266_boot B = (let
     B = esp8266_io_cfg esp_BOOT ENABLE B;
     B = esp8266_io_cfg esp_EN ENABLE B;
     B = esp8266_io_cfg esp_RST ENABLE B;
     B = esp8266_io_cfg esp_CS DISABLE B;
     B = pin_out ESP8266_EN False B;
     B = pin_out ESP8266_RST False B;
     B = pin_out ESP8266_BOOT False B;
     B = delay_ms 5 B;
     B = pin_out ESP8266_EN True B;
     B = pin_out ESP8266_RST True B;
     B = delay_ms 200 B;
     B = pin_out ESP8266_BOOT True B;
     B = esp8266_io_cfg esp_CS ENABLE B;
     B = esp8266_io_cfg esp_RST DISABLE B;
     B = esp8266_io_cfg esp_EN DISABLE B
   in esp8266_io_cfg esp_BOOT DISABLE B)"

definition esp8266_reset :: "board \<Rightarrow> board" where
  "esp8266_reset B = (let
     B = esp8266_io_cfg esp_EN ENABLE B;
     B = esp8266_io_cfg esp_RST ENABLE B;
     B = esp8266_io_cfg esp_CS DISABLE B;
     B = pin_out ESP8266_EN False B;
     B = pin_out ESP8266_RST False B;
     B = delay_ms 5 B;
     B = pin_out ESP8266_EN True B;
     B = pin_out ESP8266_RST True B;
     B = delay_ms 200 B;
     B = esp8266_io_cfg esp_CS ENABLE B;
     B = esp8266_io_cfg esp_RST DISABLE B
   in esp8266_io_cfg esp_EN DISABLE B)"

subsection \<open>Interrupts\<close>

text \<open>The pin a line listens to for rising edges, and the priority and subpriority of the enabled channels.\<close>

datatype irq_channel = EXTI1_IRQn | EXTI9_5_IRQn

record exti =
  ex_port :: "nat \<Rightarrow> gpio_port option"
  ex_rising :: "nat \<Rightarrow> bool"
  ex_channel :: "irq_channel \<Rightarrow> (nat \<times> nat) option"

definition esp8266_exti_init :: "exti \<Rightarrow> exti" where
  "esp8266_exti_init X = (let
     X = X\<lparr>ex_port := (ex_port X)(1 := Some GPIOB)\<rparr>;
     X = X\<lparr>ex_rising := (ex_rising X)(1 := True)\<rparr>;
     X = X\<lparr>ex_port := (ex_port X)(7 := Some GPIOF)\<rparr>;
     X = X\<lparr>ex_rising := (ex_rising X)(7 := True)\<rparr>;
     X = X\<lparr>ex_channel := (ex_channel X)(EXTI1_IRQn \<mapsto> (2, 3))\<rparr>
   in X\<lparr>ex_channel := (ex_channel X)(EXTI9_5_IRQn \<mapsto> (2, 2))\<rparr>)"

text \<open>The flags of the link, the pending bits of the lines, and the kernel.\<close>

record esp_irq =
  wr_rdy :: u8
  rd_rdy :: u8
  pending :: "nat \<Rightarrow> bool"
  irq_os :: os

definition EXTI9_5_IRQHandler :: "esp_irq \<Rightarrow> esp_irq" where
  "EXTI9_5_IRQHandler I = (if pending I 7 then I\<lparr>wr_rdy := 1, pending := (pending I)(7 := False)\<rparr> else I)"

definition EXTI1_IRQHandler :: "nat \<Rightarrow> esp_irq \<Rightarrow> esp_irq option" where
  "EXTI1_IRQHandler esp8266_event I = (if pending I 1 then
     map_option (\<lambda>(r, K). I\<lparr>rd_rdy := 1, irq_os := K, pending := (pending I)(1 := False)\<rparr>) (rt_event_send esp8266_event HSPI_RX (irq_os I))
   else Some I)"

text \<open>What the interrupt unit does with a rising edge on a pin (its reference manual): the bit of the line is set when the line listens
  to the port, and the handler of the line's channel runs when the channel is enabled.\<close>

definition rising_edge :: "exti \<Rightarrow> nat \<Rightarrow> pin \<Rightarrow> esp_irq \<Rightarrow> esp_irq option" where
  "rising_edge X e p I = (case p of (port, n) \<Rightarrow>
     if ex_port X n = Some port \<and> ex_rising X n then
       let I1 = I\<lparr>pending := (pending I)(n := True)\<rparr> in
       (if n = 1 \<and> ex_channel X EXTI1_IRQn \<noteq> None then EXTI1_IRQHandler e I1
        else if 5 \<le> n \<and> n \<le> 9 \<and> ex_channel X EXTI9_5_IRQn \<noteq> None then Some (EXTI9_5_IRQHandler I1) else Some I1)
     else Some I)"

subsection \<open>The module\<close>

definition RT_SPI_MODE_0 :: u8 where "RT_SPI_MODE_0 = 0"

definition ESP8266_name :: bytes where "ESP8266_name = [69, 83, 80, 56, 50, 54, 54, 0]"
definition SPI1_name :: bytes where "SPI1_name = [83, 80, 73, 49, 0]"

record 'c esp_board =
  pins :: board
  extis :: exti
  rt_spi_esp8266_device :: "nat option"
  spis :: "'c spi devices"

definition esp8266_attach_device :: "'c spi_env \<Rightarrow> nat \<Rightarrow> 'c esp_board \<Rightarrow> 'c esp_board option" where
  "esp8266_attach_device H d B = (let B1 = B\<lparr>pins := pin_out (GPIOA, 4) True (pin_mode (GPIOA, 4) True (pins B))\<rparr> in
     map_option (\<lambda>(r, K). B1\<lparr>spis := K, pins := esp8266_reset (pins B1)\<rparr>) (spi_attach H d ESP8266_name SPI1_name (spis B1)))"

definition init_esp8266 :: "'c spi_env \<Rightarrow> nat \<Rightarrow> 'c esp_board \<Rightarrow> (int \<times> 'c esp_board) option" where
  "init_esp8266 H d B = do {
     B1 \<leftarrow> esp8266_attach_device H d B;
     (dev, K) \<leftarrow> rt_device_find ESP8266_name (spis B1);
     let B2 = B1\<lparr>rt_spi_esp8266_device := dev, spis := K\<rparr>;
     (case dev of None \<Rightarrow> Some (-1, B2)
      | Some v \<Rightarrow> (case rt_spi_configure H v \<lparr>conf_mode = RT_SPI_MODE_0 OR RT_SPI_MSB, data_width = 8, max_hz = 100000\<rparr> (drv K) of (_, S) \<Rightarrow>
          Some (0, B2\<lparr>spis := K\<lparr>drv := S\<rparr>, extis := esp8266_exti_init (extis B2)\<rparr>)))
   }"

lemma io_cfg: "esp8266_io_cfg esp_EN m B = pin_mode ESP8266_EN (m = ENABLE) B" "esp8266_io_cfg esp_RST m B = pin_mode ESP8266_RST (m = ENABLE) B"
  "esp8266_io_cfg esp_CS m B = pin_mode ESP8266_CS (m = ENABLE) B" "esp8266_io_cfg esp_BOOT m B = pin_mode ESP8266_BOOT (m = ENABLE) B"
  by (simp_all add: esp8266_io_cfg_def esp_ios esp_pins)

lemma pin_views: "driven (pin_mode p b B) = (driven B)(p := b)" "driven (pin_out p b B) = driven B" "driven (delay_ms n B) = driven B"
  "out_bit (pin_mode p b B) = out_bit B" "out_bit (pin_out p b B) = (out_bit B)(p := b)" "out_bit (delay_ms n B) = out_bit B"
  "held (pin_mode p b B) = held B" "held (pin_out p b B) = held B" "held (delay_ms n B) = held B @ [(n, level B)]"
  by (simp_all add: pin_mode_def pin_out_def delay_ms_def)

lemma esp_pins_differ: "ESP8266_EN \<noteq> ESP8266_RST" "ESP8266_EN \<noteq> ESP8266_CS" "ESP8266_EN \<noteq> ESP8266_BOOT" "ESP8266_RST \<noteq> ESP8266_CS"
  "ESP8266_RST \<noteq> ESP8266_BOOT" "ESP8266_CS \<noteq> ESP8266_BOOT"
  by (simp_all add: esp_pins)

lemmas pin_steps = io_cfg pin_views level_def ENABLE_def DISABLE_def esp_pins_differ esp_pins_differ [symmetric]

text \<open>The pins after a reset and after the start in boot mode: the select line is driven, the other lines are released.\<close>

lemma reset_pins:
  "driven (esp8266_reset B) = (driven B)(ESP8266_EN := False, ESP8266_RST := False, ESP8266_CS := True)"
  "out_bit (esp8266_reset B) = (out_bit B)(ESP8266_EN := True, ESP8266_RST := True)"
  by (simp_all add: esp8266_reset_def pin_steps Let_def fun_eq_iff)

lemma boot_pins:
  "driven (esp8266_boot B) = (driven B)(ESP8266_EN := False, ESP8266_RST := False, ESP8266_CS := True, ESP8266_BOOT := False)"
  by (simp add: esp8266_boot_def pin_steps Let_def fun_eq_iff)

text \<open>What the module sees during the waits.\<close>

lemma reset_held: "held (esp8266_reset B) = held B @ [(5, (level B)(ESP8266_EN \<mapsto> False, ESP8266_RST \<mapsto> False, ESP8266_CS := None)),
    (200, (level B)(ESP8266_EN \<mapsto> True, ESP8266_RST \<mapsto> True, ESP8266_CS := None))]"
  by (simp add: esp8266_reset_def pin_steps Let_def fun_eq_iff)

lemma boot_held: "held (esp8266_boot B) = held B @
   [(5, (level B)(ESP8266_EN \<mapsto> False, ESP8266_RST \<mapsto> False, ESP8266_CS := None, ESP8266_BOOT \<mapsto> False)),
    (200, (level B)(ESP8266_EN \<mapsto> True, ESP8266_RST \<mapsto> True, ESP8266_CS := None, ESP8266_BOOT \<mapsto> False))]"
  by (simp add: esp8266_boot_def pin_steps Let_def fun_eq_iff)

lemma exti_lines: "ex_port (esp8266_exti_init X) (Suc 0) = Some GPIOB" "ex_port (esp8266_exti_init X) 7 = Some GPIOF"
  "ex_rising (esp8266_exti_init X) (Suc 0)" "ex_rising (esp8266_exti_init X) 7" "\<exists>q. ex_channel (esp8266_exti_init X) c = Some q"
  by (cases c; simp add: esp8266_exti_init_def)+

text \<open>An edge on the ready line of the module wakes the threads that wait for the event of the link.\<close>

lemma edge_wakes:
  assumes "sys_ok idle (irq_os I)"
    and "serve (th (irq_os I)) (links (irq_os I) (Waiting (Evt e))) (evt_set (evts (irq_os I) e) OR HSPI_RX) = (left, M)"
  shows "\<exists>I'. rising_edge (esp8266_exti_init X) e (GPIOB, 1) I = Some I' \<and> rd_rdy I' = 1 \<and> wr_rdy I' = wr_rdy I \<and> \<not> pending I' 1
    \<and> sys_ok idle (irq_os I') \<and> evt_set (evts (irq_os I') e) = left
    \<and> (\<forall>t b. M t = Some b \<longrightarrow> t_stat (th (irq_os I') t) = Thread_ready
        \<and> (t_error (th (irq_os I) t) = RT_EOK \<longrightarrow> rt_event_recv_rest t (irq_os I') = ((RT_EOK, Some b), irq_os I')))"
  using send_serves [OF assms(1) _ assms(2)]
  using exti_lines(5) [of X EXTI1_IRQn] by (auto simp: rising_edge_def exti_lines EXTI1_IRQHandler_def HSPI_RX_def served_def rt_event_recv_rest_def)

lemma edge_allows_write: "rising_edge (esp8266_exti_init X) e (GPIOF, 7) I = Some (I\<lparr>wr_rdy := 1, pending := (pending I)(7 := False)\<rparr>)"
  using exti_lines(5) [of X EXTI9_5_IRQn] by (auto simp: rising_edge_def exti_lines EXTI9_5_IRQHandler_def)

text \<open>C22: Setting the module up on a board where the bus is registered: it answers 0, the module's device is on the bus with its
  configuration, the module was held in reset for 5 ms and given 200 ms to start with the select line released, and from then on an edge on
  the module's line wakes the thread that waits for the link.\<close>

theorem module_is_set_up:
  assumes "registry_ok (spis B)" "sched_ok idle (spis B)" "dev_map (spis B) (key SPI1_name) = Some b" "dv_type (devs (spis B) b) = RT_Device_Class_SPIBUS"
    and "dev_map (spis B) (key ESP8266_name) = None" "\<not> linked d (spis B)" "spi_owner (drv (spis B)) \<noteq> Some d"
    and "sys_ok idle' (irq_os I)" "links (irq_os I) (Waiting (Evt e)) = [t]" "wants (th (irq_os I) t) (evt_set (evts (irq_os I) e) OR HSPI_RX)"
  shows "\<exists>B' low high I'. init_esp8266 H d B = Some (0, B') \<and> rt_spi_esp8266_device B' = Some d
    \<and> drv (spis B') = (drv (spis B))\<lparr>spi_config := (spi_config (drv (spis B)))(d := \<lparr>conf_mode = 4, data_width = 8, max_hz = 100000\<rparr>)\<rparr>
    \<and> held (pins B') = held (pins B) @ [(5, low), (200, high)]
    \<and> map low [ESP8266_EN, ESP8266_RST, ESP8266_CS] = [Some False, Some False, None]
    \<and> map high [ESP8266_EN, ESP8266_RST, ESP8266_CS] = [Some True, Some True, None]
    \<and> map (level (pins B')) [ESP8266_EN, ESP8266_RST, ESP8266_CS] = [None, None, Some True]
    \<and> rising_edge (extis B') e (GPIOB, 1) I = Some I' \<and> rd_rdy I' = 1 \<and> t_stat (th (irq_os I') t) = Thread_ready"
proof -
  let ?p = "pin_out ESP8266_CS True (pin_mode ESP8266_CS True (pins B))"
  have names: "readable 16 SPI1_name" "readable 16 ESP8266_name"
    by (simp_all add: readable_def SPI1_name_def ESP8266_name_def)
  obtain K2 K3 where k: "spi_attach H d ESP8266_name SPI1_name (spis B) = Some (RT_EOK, K2)" "rt_device_find ESP8266_name K2 = Some (Some d, K3)"
      "kernel.more K3 = kernel.more K2"
      "drv K2 = (drv (spis B))\<lparr>spi_config := (spi_config (drv (spis B)))(d := \<lparr>conf_mode = 0, data_width = 0, max_hz = 0\<rparr>)\<rparr>"
    using attach_to_bus [OF assms(1,2) names assms(3-6), of H] by auto
  have drv: "drv K3 = drv K2" using devices_fields(4) [OF k(3)] .
  define c where "c = \<lparr>conf_mode = 4, data_width = 8, max_hz = (100000 :: u32)\<rparr>"
  define B' where "B' = B\<lparr>pins := esp8266_reset ?p, rt_spi_esp8266_device := Some d,
    spis := K3\<lparr>drv := (drv K2)\<lparr>spi_config := (spi_config (drv K2))(d := c)\<rparr>\<rparr>, extis := esp8266_exti_init (extis B)\<rparr>"
  have init: "init_esp8266 H d B = Some (0, B')"
    using k assms(7) by (simp add: init_esp8266_def esp8266_attach_device_def drv rt_spi_configure_def B'_def c_def RT_SPI_MODE_0_def RT_SPI_MSB_def
      RT_SPI_MODE_MASK_def ESP8266_CS_def [symmetric])
  let ?s = "serve (th (irq_os I)) (links (irq_os I) (Waiting (Evt e))) (evt_set (evts (irq_os I) e) OR HSPI_RX)"
  obtain l M where s: "?s = (l, M)" by (cases ?s)
  then have "M t \<noteq> None" using assms(9,10) by auto
  then obtain I' where i: "rising_edge (extis B') e (GPIOB, 1) I = Some I'" "rd_rdy I' = 1" "t_stat (th (irq_os I') t) = Thread_ready"
    using edge_wakes [OF assms(8) s, of "extis B"] by (auto simp: B'_def)
  let ?low = "(level ?p)(ESP8266_EN \<mapsto> False, ESP8266_RST \<mapsto> False, ESP8266_CS := None)"
  let ?high = "(level ?p)(ESP8266_EN \<mapsto> True, ESP8266_RST \<mapsto> True, ESP8266_CS := None)"
  have pins: "pins B' = esp8266_reset ?p" "extis B' = esp8266_exti_init (extis B)" by (simp_all add: B'_def)
  have "map (level (pins B')) [ESP8266_EN, ESP8266_RST, ESP8266_CS] = [None, None, Some True]"
    by (simp add: pins reset_pins pin_views level_def esp_pins_differ esp_pins_differ [symmetric])
  moreover have "map ?low [ESP8266_EN, ESP8266_RST, ESP8266_CS] = [Some False, Some False, None]"
    "map ?high [ESP8266_EN, ESP8266_RST, ESP8266_CS] = [Some True, Some True, None]"
    by (simp_all add: esp_pins_differ esp_pins_differ [symmetric])
  moreover have "held (pins B') = held (pins B) @ [(5, ?low), (200, ?high)]"
    unfolding pins reset_held by (simp add: pin_views)
  moreover have "rt_spi_esp8266_device B' = Some d"
    "drv (spis B') = (drv (spis B))\<lparr>spi_config := (spi_config (drv (spis B)))(d := c)\<rparr>"
    by (simp_all add: B'_def k(4))
  ultimately show ?thesis using init i unfolding c_def by (intro exI conjI) (assumption)+
qed

definition esp_demo_board :: "nat spi devices \<Rightarrow> nat esp_board" where
  "esp_demo_board K = \<lparr>pins = \<lparr>driven = (\<lambda>_. False), out_bit = (\<lambda>_. False), held = []\<rparr>,
     extis = \<lparr>ex_port = (\<lambda>_. None), ex_rising = (\<lambda>_. False), ex_channel = (\<lambda>_. None)\<rparr>, rt_spi_esp8266_device = None, spis = K\<rparr>"

lemma demo_waits: "links demo_os (Waiting (Evt 0)) = [2]" "wants (th demo_os 2) (evt_set (evts demo_os 0) OR HSPI_RX)"
  by (simp_all add: demo_os_def demo_thread_def wants_def HSPI_RX_def ipc_flags)

theorem module_is_set_up_witness:
  "\<exists>K B' low high I'. rt_spi_bus_register echo_env 11 SPI1_name spi_devices = Some (RT_EOK, K)
    \<and> init_esp8266 echo_env 12 (esp_demo_board K) = Some (0, B')
    \<and> held (pins B') = [(5, low), (200, high)]
    \<and> map low [ESP8266_EN, ESP8266_RST, ESP8266_CS] = [Some False, Some False, None]
    \<and> map high [ESP8266_EN, ESP8266_RST, ESP8266_CS] = [Some True, Some True, None]
    \<and> rising_edge (extis B') 0 (GPIOB, 1) \<lparr>wr_rdy = 1, rd_rdy = 0, pending = (\<lambda>_. False), irq_os = demo_os\<rparr> = Some I'
    \<and> rd_rdy I' = 1 \<and> t_stat (th (irq_os I') 2) = Thread_ready"
proof -
  have d: "registry_ok spi_devices" "sched_ok 0 spi_devices" "readable 16 SPI1_name" "dev_map spi_devices (key SPI1_name) = None" "\<not> linked 11 spi_devices"
    "\<not> linked 12 spi_devices" "dev_map spi_devices (key ESP8266_name) = None" "key SPI1_name \<noteq> key ESP8266_name"
    by (simp_all add: spi_devices_def demo_devices_def registry_ok_def sched_ok_def readable_def linked_def class_defs key_def dev_map_def
      SPI1_name_def ESP8266_name_def)
  obtain K where k: "rt_spi_bus_register echo_env 11 SPI1_name spi_devices = Some (RT_EOK, K)" "registry_ok K" "sched_ok 0 K"
      "dev_map K = (dev_map spi_devices)(key SPI1_name \<mapsto> 11)" "dv_type (devs K 11) = RT_Device_Class_SPIBUS"
      "drv K = (drv spi_devices)\<lparr>spi_lock := 0, spi_owner := None\<rparr>" "\<forall>x. linked x K = (x = 11 \<or> linked x spi_devices)"
    using register_bus [OF d(1-5), of echo_env] by auto
  let ?I = "\<lparr>wr_rdy = 1, rd_rdy = 0, pending = (\<lambda>_. False), irq_os = demo_os\<rparr> :: esp_irq"
  have "\<exists>B' low high I'. init_esp8266 echo_env 12 (esp_demo_board K) = Some (0, B') \<and> rt_spi_esp8266_device B' = Some 12
    \<and> drv (spis B') = (drv (spis (esp_demo_board K)))\<lparr>spi_config := (spi_config (drv (spis (esp_demo_board K))))(12 := \<lparr>conf_mode = 4, data_width = 8, max_hz = 100000\<rparr>)\<rparr>
    \<and> held (pins B') = held (pins (esp_demo_board K)) @ [(5, low), (200, high)]
    \<and> map low [ESP8266_EN, ESP8266_RST, ESP8266_CS] = [Some False, Some False, None]
    \<and> map high [ESP8266_EN, ESP8266_RST, ESP8266_CS] = [Some True, Some True, None]
    \<and> map (level (pins B')) [ESP8266_EN, ESP8266_RST, ESP8266_CS] = [None, None, Some True]
    \<and> rising_edge (extis B') 0 (GPIOB, 1) ?I = Some I' \<and> rd_rdy I' = 1 \<and> t_stat (th (irq_os I') 2) = Thread_ready"
    by (rule module_is_set_up [where b = 11 and idle = 0 and idle' = 0])
      (use k d in \<open>simp_all add: esp_demo_board_def demo_sys_ok demo_waits\<close>)
  then show ?thesis using k(1) by (auto simp: esp_demo_board_def)
qed

end
