(* ===== verification/DeviceIpc.thy ===== *)
theory DeviceIpc imports Ipc RingBuffer begin

text \<open>What RT-Thread gives its device drivers to wait with (components/drivers/src): completions, queues of pointers, work queues and
  pipes, each beside the kernel's state.  A call that waits is split as in the kernel: its thread is blocked in \<open>C_driver\<close>, and the
  function ending in \<open>rest\<close> goes on when it runs again, with the caller's own arguments.  \<open>None\<close> is a failed assertion, an access
  outside an array or to the head of an empty list.\<close>

text \<open>A thread puts itself at the end of a list, with a timer when its time is limited.\<close>

definition wait_on :: "qid \<Rightarrow> 32 word \<Rightarrow> 'k kernel_scheme \<Rightarrow> ('a outcome \<times> 'k kernel_scheme) option" where
  "wait_on q timeout K = (if \<not> in_thread K then None
     else let t = the (cur K);
              K1 = link_last q t (snd (rt_thread_suspend t (set_th t (\<lambda>x. x\<lparr>t_error := RT_EOK\<rparr>) K)))
          in Option.bind (wait_timer t timeout K1) (block C_driver))"

text \<open>Waking the first thread of a list, if there is one.\<close>

definition wake_first :: "qid \<Rightarrow> 'k kernel_scheme \<Rightarrow> 'k kernel_scheme option" where
  "wake_first q K = (case links K q of [] \<Rightarrow> Some K | t # _ \<Rightarrow> rt_schedule (snd (rt_thread_resume t K)))"

subsection \<open>Completions and data queues\<close>

record rt_data_queue =
  dq_size :: u16
  dq_lwm :: u16
  waiting_lwm :: bool
  get_index :: u16
  put_index :: u16
  dq_queue :: "(u32 \<times> u32) list"
  evt_notify :: bool

text \<open>\<open>notified\<close> is the list of the calls of the notify functions: the queue and the event.\<close>

record devipc = kernel +
  cpl_flag :: "nat \<Rightarrow> bool"
  dqs :: "nat \<Rightarrow> rt_data_queue"
  notified :: "(nat \<times> u32) list"

definition set_cpl :: "nat \<Rightarrow> bool \<Rightarrow> 'k devipc_scheme \<Rightarrow> 'k devipc_scheme" where
  "set_cpl c b K = K\<lparr>cpl_flag := (cpl_flag K)(c := b)\<rparr>"

definition set_dq :: "nat \<Rightarrow> (rt_data_queue \<Rightarrow> rt_data_queue) \<Rightarrow> 'k devipc_scheme \<Rightarrow> 'k devipc_scheme" where
  "set_dq q f K = K\<lparr>dqs := (dqs K)(q := f (dqs K q))\<rparr>"

definition rt_completion_init :: "nat \<Rightarrow> 'k devipc_scheme \<Rightarrow> 'k devipc_scheme" where
  "rt_completion_init c K = set_cpl c False (K\<lparr>links := (links K)(Waiting (Cpl c) := [])\<rparr>)"

definition rt_completion_wait :: "nat \<Rightarrow> 32 word \<Rightarrow> 'k devipc_scheme \<Rightarrow> (int outcome \<times> 'k devipc_scheme) option" where
  "rt_completion_wait c timeout K = (if cpl_flag K c then Some (Done RT_EOK, set_cpl c False K)
     else if links K (Waiting (Cpl c)) \<noteq> [] then None
     else if timeout = 0 then Some (Done (- RT_ETIMEOUT), K)
     else wait_on (Waiting (Cpl c)) timeout K)"

definition rt_completion_wait_rest :: "nat \<Rightarrow> nat \<Rightarrow> 'k devipc_scheme \<Rightarrow> int \<times> 'k devipc_scheme" where
  "rt_completion_wait_rest t c K = (t_error (th K t), set_cpl c False K)"

definition rt_completion_done :: "nat \<Rightarrow> 'k devipc_scheme \<Rightarrow> 'k devipc_scheme option" where
  "rt_completion_done c K = (if cpl_flag K c then Some K else wake_first (Waiting (Cpl c)) (set_cpl c True K))"

definition RT_DATAQUEUE_EVENT_POP :: u32 where "RT_DATAQUEUE_EVENT_POP = 1"
definition RT_DATAQUEUE_EVENT_PUSH :: u32 where "RT_DATAQUEUE_EVENT_PUSH = 2"
definition RT_DATAQUEUE_EVENT_LWM :: u32 where "RT_DATAQUEUE_EVENT_LWM = 3"

text \<open>\<open>mem\<close>: what the allocator gives, with the contents the memory has.\<close>

definition rt_data_queue_init :: "nat \<Rightarrow> u16 \<Rightarrow> u16 \<Rightarrow> bool \<Rightarrow> (nat \<Rightarrow> (u32 \<times> u32) list option) \<Rightarrow> 'k devipc_scheme \<Rightarrow> int \<times> 'k devipc_scheme" where
  "rt_data_queue_init q sz lwm notify mem K = (let
       K1 = set_dq q (\<lambda>Q. \<lparr>dq_size = sz, dq_lwm = lwm, waiting_lwm = False, get_index = 0, put_index = 0, dq_queue = [], evt_notify = notify\<rparr>)
         (K\<lparr>links := (links K)(Sending q := [], Waiting (Dqu q) := [])\<rparr>)
     in case mem (unat sz) of None \<Rightarrow> (- RT_ENOMEM, K1) | Some xs \<Rightarrow> (RT_EOK, set_dq q (\<lambda>Q. Q\<lparr>dq_queue := take (unat sz) xs\<rparr>) K1))"

text \<open>The indices are promoted to \<open>int\<close> before they are subtracted.\<close>

definition dq_full :: "rt_data_queue \<Rightarrow> bool" where
  "dq_full Q = (uint (put_index Q) - uint (get_index Q) = uint (dq_size Q))"

definition dq_slot :: "rt_data_queue \<Rightarrow> u16 \<Rightarrow> nat" where
  "dq_slot Q i = unat (i AND (dq_size Q - 1))"

definition dq_store :: "u32 \<times> u32 \<Rightarrow> rt_data_queue \<Rightarrow> rt_data_queue" where
  "dq_store x Q = Q\<lparr>dq_queue := (dq_queue Q)[dq_slot Q (put_index Q) := x], put_index := put_index Q + 1\<rparr>"

definition dq_fetch :: "rt_data_queue \<Rightarrow> (u32 \<times> u32) \<times> rt_data_queue" where
  "dq_fetch Q = (dq_queue Q ! dq_slot Q (get_index Q), Q\<lparr>get_index := get_index Q + 1\<rparr>)"

definition dq_notify :: "nat \<Rightarrow> u32 \<Rightarrow> 'k devipc_scheme \<Rightarrow> 'k devipc_scheme" where
  "dq_notify q e K = (if evt_notify (dqs K q) then K\<lparr>notified := notified K @ [(q, e)]\<rparr> else K)"

definition rt_data_queue_push :: "nat \<Rightarrow> u32 \<times> u32 \<Rightarrow> 32 word \<Rightarrow> 'k devipc_scheme \<Rightarrow> (int outcome \<times> 'k devipc_scheme) option" where
  "rt_data_queue_push q x timeout K = (if dq_full (dqs K q) then
       let K1 = set_dq q (\<lambda>Q. Q\<lparr>waiting_lwm := True\<rparr>) K in
       if timeout = 0 then Some (Done (- RT_ETIMEOUT), K1) else wait_on (Sending q) timeout K1
     else if length (dq_queue (dqs K q)) \<le> dq_slot (dqs K q) (put_index (dqs K q)) then None
     else let K1 = set_dq q (dq_store x) K in
       if links K1 (Waiting (Dqu q)) \<noteq> [] then map_option (Pair (Done RT_EOK)) (wake_first (Waiting (Dqu q)) K1)
       else Some (Done RT_EOK, dq_notify q RT_DATAQUEUE_EVENT_PUSH K1))"

definition rt_data_queue_push_rest :: "nat \<Rightarrow> nat \<Rightarrow> u32 \<times> u32 \<Rightarrow> 32 word \<Rightarrow> 'k devipc_scheme \<Rightarrow> (int outcome \<times> 'k devipc_scheme) option" where
  "rt_data_queue_push_rest t q x timeout K = (if t_error (th K t) \<noteq> RT_EOK then Some (Done (t_error (th K t)), K)
     else rt_data_queue_push q x timeout K)"

definition rt_data_queue_pop :: "nat \<Rightarrow> 32 word \<Rightarrow> 'k devipc_scheme \<Rightarrow> ((int \<times> (u32 \<times> u32) option) outcome \<times> 'k devipc_scheme) option" where
  "rt_data_queue_pop q timeout K = (let Q = dqs K q in
     if get_index Q = put_index Q then
       if timeout = 0 then Some (Done (- RT_ETIMEOUT, None), K) else wait_on (Waiting (Dqu q)) timeout K
     else if length (dq_queue Q) \<le> dq_slot Q (get_index Q) then None
     else case dq_fetch Q of (x, Q1) \<Rightarrow>
       if waiting_lwm Q1 \<and> uint (put_index Q1) - uint (get_index Q1) \<le> uint (dq_lwm Q1)
       then map_option (\<lambda>K1. (Done (RT_EOK, Some x), dq_notify q RT_DATAQUEUE_EVENT_LWM K1))
         (wake_first (Sending q) (set_dq q (\<lambda>_. Q1\<lparr>waiting_lwm := False\<rparr>) K))
       else Some (Done (RT_EOK, Some x), dq_notify q RT_DATAQUEUE_EVENT_POP (set_dq q (\<lambda>_. Q1) K)))"

definition rt_data_queue_pop_rest :: "nat \<Rightarrow> nat \<Rightarrow> 32 word \<Rightarrow> 'k devipc_scheme \<Rightarrow> ((int \<times> (u32 \<times> u32) option) outcome \<times> 'k devipc_scheme) option" where
  "rt_data_queue_pop_rest t q timeout K = (if t_error (th K t) \<noteq> RT_EOK then Some (Done (t_error (th K t), None), K)
     else rt_data_queue_pop q timeout K)"

definition rt_data_queue_peak :: "nat \<Rightarrow> 'k devipc_scheme \<Rightarrow> (int \<times> (u32 \<times> u32) option) option" where
  "rt_data_queue_peak q K = (let Q = dqs K q in if get_index Q = put_index Q then Some (- RT_EEMPTY, None)
     else if length (dq_queue Q) \<le> dq_slot Q (get_index Q) then None else Some (RT_EOK, Some (fst (dq_fetch Q))))"

definition rt_data_queue_reset :: "nat \<Rightarrow> 'k devipc_scheme \<Rightarrow> 'k devipc_scheme option" where
  "rt_data_queue_reset q K = do {
     K1 \<leftarrow> rt_ipc_list_resume_all (Waiting (Dqu q)) (rt_enter_critical K);
     K2 \<leftarrow> rt_ipc_list_resume_all (Sending q) K1;
     K3 \<leftarrow> rt_exit_critical K2;
     rt_schedule K3
   }"

subsection \<open>Work queues\<close>

text \<open>A piece of work is a number, in at most one list; its function is the caller's and is what the thread of the queue returns.\<close>

record workqs = kernel +
  work_list :: "nat \<Rightarrow> nat list"
  work_thread :: "nat \<Rightarrow> nat"

definition work_remove :: "nat \<Rightarrow> workqs \<Rightarrow> workqs" where
  "work_remove w K = K\<lparr>work_list := \<lambda>q. removeAll w (work_list K q)\<rparr>"

definition rt_workqueue_create :: "nat option \<Rightarrow> nat option \<Rightarrow> bool \<Rightarrow> u8 \<Rightarrow> workqs \<Rightarrow> (nat option \<times> workqs) option" where
  "rt_workqueue_create mem obj stack priority K = (case mem of None \<Rightarrow> Some (None, K)
     | Some q \<Rightarrow> (case rt_thread_create obj stack priority 10 (K\<lparr>work_list := (work_list K)(q := [])\<rparr>) of None \<Rightarrow> None
         | Some (None, K1) \<Rightarrow> Some (None, K1)
         | Some (Some t, K1) \<Rightarrow> map_option (\<lambda>(r, K2). (Some q, K2)) (rt_thread_startup t (K1\<lparr>work_thread := (work_thread K1)(q := t)\<rparr>))))"

definition rt_workqueue_destroy :: "nat \<Rightarrow> workqs \<Rightarrow> int \<times> workqs" where
  "rt_workqueue_destroy q K = (RT_EOK, snd (rt_thread_delete (work_thread K q) K))"

definition rt_workqueue_dowork :: "nat \<Rightarrow> nat \<Rightarrow> workqs \<Rightarrow> (int \<times> workqs) option" where
  "rt_workqueue_dowork q w K = (let K1 = work_remove w (rt_enter_critical K);
       K2 = K1\<lparr>work_list := (work_list K1)(q := work_list K1 q @ [w])\<rparr>; t = work_thread K2 q in
     if t_stat (th K2 t) \<noteq> Thread_ready
     then Option.bind (rt_exit_critical K2) (\<lambda>K3. return_schedule RT_EOK (snd (rt_thread_resume t K3)))
     else map_option (Pair RT_EOK) (rt_exit_critical K2))"

definition rt_workqueue_cancel_work :: "nat \<Rightarrow> nat \<Rightarrow> workqs \<Rightarrow> (int \<times> workqs) option" where
  "rt_workqueue_cancel_work q w K = map_option (Pair RT_EOK) (rt_exit_critical (work_remove w (rt_enter_critical K)))"

text \<open>The thread: the work it does next, taken from the list when there is some, or when it was woken after it found none.\<close>

definition workqueue_next :: "nat \<Rightarrow> workqs \<Rightarrow> (nat outcome \<times> workqs) option" where
  "workqueue_next q K = (case work_list K q of [] \<Rightarrow> None
     | w # _ \<Rightarrow> map_option (Pair (Done w)) (rt_exit_critical (work_remove w (rt_enter_critical K))))"

definition workqueue_thread_entry :: "nat \<Rightarrow> workqs \<Rightarrow> (nat outcome \<times> workqs) option" where
  "workqueue_thread_entry q K = (if work_list K q = []
     then (case cur K of None \<Rightarrow> None | Some t \<Rightarrow> block C_driver (snd (rt_thread_suspend t K)))
     else workqueue_next q K)"

subsection \<open>Pipes\<close>

text \<open>The device a pipe is registered as is left out; \<open>indicated\<close> is the list of the calls of the pipes' receive functions.\<close>

definition RT_PIPE_FLAG_BLOCK_RD :: u8 where "RT_PIPE_FLAG_BLOCK_RD = 1"
definition RT_PIPE_FLAG_BLOCK_WR :: u8 where "RT_PIPE_FLAG_BLOCK_WR = 2"
definition RT_PIPE_FLAG_FORCE_WR :: u8 where "RT_PIPE_FLAG_FORCE_WR = 4"
definition PIPE_CTRL_GET_SPACE :: u8 where "PIPE_CTRL_GET_SPACE = 0x14"

record rt_pipe_device =
  ring :: ringbuffer
  pipe_flag :: u8
  pipe_indicate :: bool

record pipes = kernel +
  pps :: "nat \<Rightarrow> rt_pipe_device"
  indicated :: "(nat \<times> nat) list"

definition set_ring :: "nat \<Rightarrow> ringbuffer \<Rightarrow> pipes \<Rightarrow> pipes" where
  "set_ring p rb K = K\<lparr>pps := (pps K)(p := (pps K p)\<lparr>ring := rb\<rparr>)\<rparr>"

definition pipe_init :: "nat \<Rightarrow> u8 \<Rightarrow> bytes \<Rightarrow> nat \<Rightarrow> pipes \<Rightarrow> pipes option" where
  "pipe_init p flag buf sz K = map_option (\<lambda>rb. K\<lparr>links := (links K)(Waiting (Pip p) := [], Sending p := []),
     pps := (pps K)(p := (pps K p)\<lparr>ring := rb, pipe_flag := flag\<rparr>)\<rparr>) (rt_ringbuffer_init buf sz)"

definition rt_pipe_resume_writer :: "nat \<Rightarrow> pipes \<Rightarrow> pipes option" where
  "rt_pipe_resume_writer p K = (if links K (Sending p) \<noteq> [] \<and> pipe_flag (pps K p) AND RT_PIPE_FLAG_BLOCK_WR = 0 then None
     else wake_first (Sending p) K)"

definition rt_pipe_resume_reader :: "nat \<Rightarrow> pipes \<Rightarrow> pipes option" where
  "rt_pipe_resume_reader p K = (let
       K1 = (if pipe_indicate (pps K p) then K\<lparr>indicated := indicated K @ [(p, rt_ringbuffer_data_len (ring (pps K p)))]\<rparr> else K)
     in if links K1 (Waiting (Pip p)) \<noteq> [] \<and> pipe_flag (pps K1 p) AND RT_PIPE_FLAG_BLOCK_RD = 0 then None
     else wake_first (Waiting (Pip p)) K1)"

text \<open>A thread that waits on a pipe keeps its error number and has no timer; it starts over when it runs again.\<close>

definition pipe_wait :: "qid \<Rightarrow> pipes \<Rightarrow> ('a outcome \<times> pipes) option" where
  "pipe_wait q K = (case cur K of None \<Rightarrow> None | Some t \<Rightarrow> block C_driver (link_last q t (snd (rt_thread_suspend t K))))"

definition rt_pipe_read :: "nat \<Rightarrow> nat \<Rightarrow> pipes \<Rightarrow> (bytes outcome \<times> pipes) option" where
  "rt_pipe_read p sz K = (if pipe_flag (pps K p) AND RT_PIPE_FLAG_BLOCK_RD = 0
     then (case rt_ringbuffer_get sz (ring (pps K p)) of (d, rb) \<Rightarrow> let K1 = set_ring p rb K in
       if d \<noteq> [] then map_option (Pair (Done d)) (rt_pipe_resume_writer p K1) else Some (Done d, K1))
     else if irq_nest K \<noteq> 0 then None
     else (case rt_ringbuffer_get sz (ring (pps K p)) of (d, rb) \<Rightarrow> let K1 = set_ring p rb K in
       if d = [] then pipe_wait (Waiting (Pip p)) K1 else map_option (Pair (Done d)) (rt_pipe_resume_writer p K1)))"

definition rt_pipe_write :: "nat \<Rightarrow> bytes \<Rightarrow> pipes \<Rightarrow> (nat outcome \<times> pipes) option" where
  "rt_pipe_write p b K = (let f = pipe_flag (pps K p) in
     if f AND RT_PIPE_FLAG_FORCE_WR \<noteq> 0 \<or> f AND RT_PIPE_FLAG_BLOCK_WR = 0
     then (case (if f AND RT_PIPE_FLAG_FORCE_WR \<noteq> 0 then rt_ringbuffer_put_force b (length b) (ring (pps K p))
                 else rt_ringbuffer_put b (length b) (ring (pps K p))) of None \<Rightarrow> None
       | Some (n, rb) \<Rightarrow> map_option (Pair (Done n)) (rt_pipe_resume_reader p (set_ring p rb K)))
     else if irq_nest K \<noteq> 0 then None
     else (case rt_ringbuffer_put b (length b) (ring (pps K p)) of None \<Rightarrow> None
       | Some (n, rb) \<Rightarrow> let K1 = set_ring p rb K in
         if n = 0 then pipe_wait (Sending p) K1 else map_option (Pair (Done n)) (rt_pipe_resume_reader p K1)))"

definition rt_pipe_control :: "nat \<Rightarrow> u8 \<Rightarrow> bool \<Rightarrow> pipes \<Rightarrow> int \<times> nat option" where
  "rt_pipe_control p cmd args K = (RT_EOK, if cmd = PIPE_CTRL_GET_SPACE \<and> args then Some (rt_ringbuffer_space_len (ring (pps K p))) else None)"

end
