(* ===== verification/Serial.thy ===== *)
theory Serial imports DeviceIpc Objects SpiBus begin

text \<open>serial.c: the serial devices, with the interrupt routines of the board's driver (usart.c) that feed it.  The port is hardware:
  the record \<open>uart_ops\<close> of its driver's functions acts on the state \<open>port\<close> of it.  Data a caller only lends to a DMA transfer are an
  address and a length.  The completion and the queue of a transmission have the address of the memory allocated for them.
  \<open>None\<close> is a failed assertion, an access outside an array, or a structure used as another one.\<close>

definition RT_DEVICE_FLAG_SUSPENDED :: u16 where "RT_DEVICE_FLAG_SUSPENDED = 0x020"
definition RT_DEVICE_FLAG_STREAM :: u16 where "RT_DEVICE_FLAG_STREAM = 0x040"
definition RT_DEVICE_FLAG_INT_RX :: u16 where "RT_DEVICE_FLAG_INT_RX = 0x100"
definition RT_DEVICE_FLAG_DMA_RX :: u16 where "RT_DEVICE_FLAG_DMA_RX = 0x200"
definition RT_DEVICE_FLAG_INT_TX :: u16 where "RT_DEVICE_FLAG_INT_TX = 0x400"
definition RT_DEVICE_FLAG_DMA_TX :: u16 where "RT_DEVICE_FLAG_DMA_TX = 0x800"
definition RT_DEVICE_CTRL_RESUME :: u8 where "RT_DEVICE_CTRL_RESUME = 1"
definition RT_DEVICE_CTRL_SUSPEND :: u8 where "RT_DEVICE_CTRL_SUSPEND = 2"
definition RT_DEVICE_CTRL_CONFIG :: u8 where "RT_DEVICE_CTRL_CONFIG = 3"
definition RT_DEVICE_CTRL_SET_INT :: u8 where "RT_DEVICE_CTRL_SET_INT = 0x10"
definition RT_DEVICE_CTRL_CLR_INT :: u8 where "RT_DEVICE_CTRL_CLR_INT = 0x11"
definition RT_WAITING_FOREVER :: "32 word" where "RT_WAITING_FOREVER = - 1"

lemmas serial_flags = RT_DEVICE_FLAG_SUSPENDED_def RT_DEVICE_FLAG_STREAM_def RT_DEVICE_FLAG_INT_RX_def RT_DEVICE_FLAG_DMA_RX_def
  RT_DEVICE_FLAG_INT_TX_def RT_DEVICE_FLAG_DMA_TX_def

subsection \<open>The device\<close>

record serial_configure =
  baud_rate :: u32
  data_bits :: nat
  stop_bits :: nat
  parity :: nat
  bit_order :: nat
  invert :: nat
  bufsz :: u16

record rx_fifo =
  fifo_buffer :: bytes
  fifo_put :: u16
  fifo_get :: u16

datatype serial_rx = Rx_none | Rx_fifo rx_fifo | Rx_dma bool

datatype serial_tx = Tx_none | Tx_fifo nat | Tx_dma nat bool

record 'c uart_ops =
  op_configure :: "(serial_configure \<Rightarrow> 'c \<Rightarrow> int \<times> 'c) option"
  op_control :: "u8 \<Rightarrow> u32 \<Rightarrow> 'c \<Rightarrow> int \<times> 'c"
  op_putc :: "u8 \<Rightarrow> 'c \<Rightarrow> int \<times> 'c"
  op_getc :: "'c \<Rightarrow> int \<times> 'c"
  op_dma_transmit :: "(u32 \<Rightarrow> u32 \<Rightarrow> u8 \<Rightarrow> 'c \<Rightarrow> 'c) option"

text \<open>\<open>callbacks\<close>: the calls of the functions the user of the device has set, with the number of bytes received or the
  address of the data sent.\<close>

datatype callback = Rx_indicate u32 | Tx_complete u32

record 'c serial = devipc +
  dev_flag :: u16
  dev_open_flag :: u16
  dev_ref_count :: nat
  rx_indicate_set :: bool
  tx_complete_set :: bool
  callbacks :: "callback list"
  sconfig :: serial_configure
  ser_rx :: serial_rx
  ser_tx :: serial_tx
  port :: 'c
  last_recv_len :: u32

definition control_port :: "'c uart_ops \<Rightarrow> u8 \<Rightarrow> u32 \<Rightarrow> 'c serial \<Rightarrow> 'c serial" where
  "control_port U cmd arg S = S\<lparr>port := snd (op_control U cmd arg (port S))\<rparr>"

subsection \<open>Polling\<close>

fun serial_poll_rx :: "'c uart_ops \<Rightarrow> nat \<Rightarrow> 'c \<Rightarrow> bytes \<times> 'c" where
  "serial_poll_rx U 0 x = ([], x)"
| "serial_poll_rx U (Suc n) x = (case op_getc U x of (ch, x1) \<Rightarrow>
     if ch = -1 then ([], x1)
     else if ch = 10 then ([of_int ch], x1)
     else (case serial_poll_rx U n x1 of (d, x2) \<Rightarrow> (of_int ch # d, x2)))"

fun serial_poll_tx :: "'c uart_ops \<Rightarrow> bool \<Rightarrow> bytes \<Rightarrow> 'c \<Rightarrow> 'c" where
  "serial_poll_tx U stream [] x = x"
| "serial_poll_tx U stream (b # bs) x = (let x1 = (if b = 10 \<and> stream then snd (op_putc U 13 x) else x) in
     serial_poll_tx U stream bs (snd (op_putc U b x1)))"

subsection \<open>Interrupts\<close>

text \<open>One byte from the software FIFO, or none; the last result is for an index outside the buffer.\<close>

definition fifo_take :: "u16 \<Rightarrow> rx_fifo \<Rightarrow> (u8 option \<times> rx_fifo) option" where
  "fifo_take n F = (if fifo_get F \<noteq> fifo_put F then
       if length (fifo_buffer F) \<le> unat (fifo_get F) then None
       else Some (Some (fifo_buffer F ! unat (fifo_get F)),
         F\<lparr>fifo_get := (if fifo_get F + 1 \<ge> n then 0 else fifo_get F + 1)\<rparr>)
     else Some (None, F))"

fun serial_int_rx :: "u16 \<Rightarrow> nat \<Rightarrow> rx_fifo \<Rightarrow> (bytes \<times> rx_fifo) option" where
  "serial_int_rx n 0 F = Some ([], F)"
| "serial_int_rx n (Suc k) F = (case fifo_take n F of None \<Rightarrow> None
     | Some (None, F1) \<Rightarrow> Some ([], F1)
     | Some (Some b, F1) \<Rightarrow> map_option (\<lambda>(d, F2). (b # d, F2)) (serial_int_rx n k F1))"

text \<open>Sending with interrupts: when the port takes no byte, the thread waits for the completion, which may be there already.
  The result is the data that are left, none when it returns.\<close>

partial_function (option) serial_int_tx :: "'c uart_ops \<Rightarrow> nat \<Rightarrow> bytes \<Rightarrow> 'c serial \<Rightarrow> (bytes \<times> 'c serial) option" where
  "serial_int_tx U c data S = (case data of [] \<Rightarrow> Some ([], S)
     | b # bs \<Rightarrow> (case op_putc U b (port S) of (r, x) \<Rightarrow> let S1 = S\<lparr>port := x\<rparr> in
         if r = -1 then (case rt_completion_wait c RT_WAITING_FOREVER S1 of None \<Rightarrow> None
           | Some (Done _, S2) \<Rightarrow> serial_int_tx U c data S2
           | Some (Blocked _, S2) \<Rightarrow> Some (data, S2))
         else serial_int_tx U c bs S1))"

definition serial_int_tx_rest :: "'c uart_ops \<Rightarrow> nat \<Rightarrow> nat \<Rightarrow> bytes \<Rightarrow> 'c serial \<Rightarrow> (bytes \<times> 'c serial) option" where
  "serial_int_tx_rest U t c data S = serial_int_tx U c data (snd (rt_completion_wait_rest t c S))"

subsection \<open>DMA\<close>

definition rt_dma_calc_recved_len :: "u16 \<Rightarrow> rx_fifo \<Rightarrow> u32" where
  "rt_dma_calc_recved_len n F = (if fifo_put F \<ge> fifo_get F then ucast (fifo_put F) - ucast (fifo_get F)
     else ucast n - (ucast (fifo_get F) - ucast (fifo_put F)))"

definition rt_dma_recv_update_get_index :: "u16 \<Rightarrow> u32 \<Rightarrow> rx_fifo \<Rightarrow> rx_fifo option" where
  "rt_dma_recv_update_get_index n len F = (if \<not> len \<le> rt_dma_calc_recved_len n F then None
     else let g = fifo_get F + ucast len in Some (F\<lparr>fifo_get := (if g > n then g - n else g)\<rparr>))"

text \<open>The loop subtracts the size of the buffer once more than the length divided by it.\<close>

definition put_back :: "u16 \<Rightarrow> u32 \<Rightarrow> u16 \<Rightarrow> u16" where
  "put_back n len p = p - of_nat (unat len div unat n + 1) * n"

definition rt_dma_recv_update_put_index :: "u16 \<Rightarrow> u32 \<Rightarrow> rx_fifo \<Rightarrow> rx_fifo" where
  "rt_dma_recv_update_put_index n len F = (let p = fifo_put F + ucast len in
     if fifo_get F \<le> fifo_put F then
       if p \<ge> n then let p1 = put_back n len p in
         F\<lparr>fifo_put := p1, fifo_get := (if p1 \<ge> fifo_get F then p1 + 1 else fifo_get F)\<rparr>
       else F\<lparr>fifo_put := p\<rparr>
     else if p \<ge> fifo_get F then let p1 = (if p \<ge> n then put_back n len p else p) in F\<lparr>fifo_put := p1, fifo_get := p1 + 1\<rparr>
       else F\<lparr>fifo_put := p\<rparr>)"

text \<open>What a read copies out of the FIFO, in one or two pieces; a negative length is a copy outside the buffer.\<close>

definition fifo_copy :: "u16 \<Rightarrow> nat \<Rightarrow> rx_fifo \<Rightarrow> bytes option" where
  "fifo_copy n len F = (let g = unat (fifo_get F); b = fifo_buffer F in
     if g + len < unat n then (if g + len \<le> length b then Some (window g len b) else None)
     else if g \<le> unat n \<and> unat n \<le> length b \<and> g + len - unat n \<le> length b
       then Some (window g (unat n - g) b @ take (g + len - unat n) b) else None)"

definition serial_dma_rx :: "'c uart_ops \<Rightarrow> u32 \<Rightarrow> u32 \<Rightarrow> 'c serial \<Rightarrow> (u32 \<times> bytes \<times> 'c serial) option" where
  "serial_dma_rx U addr len S = (if bufsz (sconfig S) = 0
     then (case ser_rx S of Rx_dma act \<Rightarrow>
         if \<not> act then (case op_dma_transmit U of None \<Rightarrow> None
           | Some f \<Rightarrow> Some (len, [], S\<lparr>ser_rx := Rx_dma True, port := f addr len 1 (port S)\<rparr>))
         else Some (0, [], rt_set_errno (- RT_EBUSY) S)
       | _ \<Rightarrow> None)
     else (case ser_rx S of Rx_fifo F \<Rightarrow> let n = bufsz (sconfig S); have = rt_dma_calc_recved_len n F; l = (if len < have then len else have) in
         (case fifo_copy n (unat l) F of None \<Rightarrow> None
          | Some d \<Rightarrow> map_option (\<lambda>F1. (l, d, S\<lparr>ser_rx := Rx_fifo F1\<rparr>)) (rt_dma_recv_update_get_index n l F))
       | _ \<Rightarrow> None))"

definition dma_tx_start :: "'c uart_ops \<Rightarrow> nat \<Rightarrow> u32 \<Rightarrow> u32 \<Rightarrow> int \<Rightarrow> 'c serial \<Rightarrow> (u32 \<times> 'c serial) option" where
  "dma_tx_start U q addr len r S = (if r = RT_EOK then (case ser_tx S of Tx_dma q1 act \<Rightarrow>
         if \<not> act then map_option (\<lambda>f. (len, S\<lparr>ser_tx := Tx_dma q1 True, port := f addr len 2 (port S)\<rparr>)) (op_dma_transmit U)
         else Some (len, S)
       | _ \<Rightarrow> None)
     else Some (0, rt_set_errno r S))"

definition serial_dma_tx :: "'c uart_ops \<Rightarrow> nat \<Rightarrow> u32 \<Rightarrow> u32 \<Rightarrow> 'c serial \<Rightarrow> (u32 outcome \<times> 'c serial) option" where
  "serial_dma_tx U q addr len S = (case rt_data_queue_push q (addr, len) RT_WAITING_FOREVER S of None \<Rightarrow> None
     | Some (Done r, S1) \<Rightarrow> map_option (\<lambda>(n, S2). (Done n, S2)) (dma_tx_start U q addr len r S1)
     | Some (Blocked c, S1) \<Rightarrow> Some (Blocked c, S1))"

definition serial_dma_tx_rest :: "'c uart_ops \<Rightarrow> nat \<Rightarrow> nat \<Rightarrow> u32 \<Rightarrow> u32 \<Rightarrow> 'c serial \<Rightarrow> (u32 outcome \<times> 'c serial) option" where
  "serial_dma_tx_rest U t q addr len S = (case rt_data_queue_push_rest t q (addr, len) RT_WAITING_FOREVER S of None \<Rightarrow> None
     | Some (Done r, S1) \<Rightarrow> map_option (\<lambda>(n, S2). (Done n, S2)) (dma_tx_start U q addr len r S1)
     | Some (Blocked c, S1) \<Rightarrow> Some (Blocked c, S1))"

subsection \<open>The interface of the device\<close>

definition rt_serial_init :: "'c uart_ops \<Rightarrow> 'c serial \<Rightarrow> int \<times> 'c serial" where
  "rt_serial_init U S = (let S1 = S\<lparr>ser_rx := Rx_none, ser_tx := Tx_none\<rparr> in
     case op_configure U of None \<Rightarrow> (RT_EOK, S1)
     | Some f \<Rightarrow> (case f (sconfig S1) (port S1) of (r, x) \<Rightarrow> (r, S1\<lparr>port := x\<rparr>)))"

definition flags_missing :: "u16 \<Rightarrow> u16 \<Rightarrow> u16 \<Rightarrow> bool" where
  "flags_missing f oflag flags = (oflag AND f \<noteq> 0 \<and> flags AND f = 0)"

definition new_fifo :: "u16 \<Rightarrow> rx_fifo" where
  "new_fifo n = \<lparr>fifo_buffer = replicate (unat n) 0, fifo_put = 0, fifo_get = 0\<rparr>"

text \<open>What the allocator gives is an argument: memory for the receiver or not, the address for the transmitter, the items of its queue.\<close>

definition serial_open_rx :: "'c uart_ops \<Rightarrow> bool \<Rightarrow> u16 \<Rightarrow> 'c serial \<Rightarrow> 'c serial option" where
  "serial_open_rx U mem oflag S = (if ser_rx S \<noteq> Rx_none then Some S
     else if oflag AND RT_DEVICE_FLAG_DMA_RX \<noteq> 0 then
       if \<not> mem then None
       else let S1 = (if bufsz (sconfig S) = 0 then S\<lparr>ser_rx := Rx_dma False\<rparr>
           else control_port U RT_DEVICE_CTRL_CONFIG (ucast RT_DEVICE_FLAG_DMA_RX) (S\<lparr>ser_rx := Rx_fifo (new_fifo (bufsz (sconfig S)))\<rparr>)) in
         Some (S1\<lparr>dev_open_flag := dev_open_flag S1 OR RT_DEVICE_FLAG_DMA_RX\<rparr>)
     else if oflag AND RT_DEVICE_FLAG_INT_RX \<noteq> 0 then
       if \<not> mem then None
       else Some (control_port U RT_DEVICE_CTRL_SET_INT (ucast RT_DEVICE_FLAG_INT_RX)
         (S\<lparr>ser_rx := Rx_fifo (new_fifo (bufsz (sconfig S))), dev_open_flag := dev_open_flag S OR RT_DEVICE_FLAG_INT_RX\<rparr>))
     else Some (S\<lparr>ser_rx := Rx_none\<rparr>))"

definition serial_open_tx :: "'c uart_ops \<Rightarrow> nat option \<Rightarrow> (nat \<Rightarrow> (u32 \<times> u32) list option) \<Rightarrow> u16 \<Rightarrow> 'c serial \<Rightarrow> 'c serial option" where
  "serial_open_tx U mem items oflag S = (if ser_tx S \<noteq> Tx_none then Some S
     else if oflag AND RT_DEVICE_FLAG_DMA_TX \<noteq> 0 then
       (case mem of None \<Rightarrow> None
        | Some q \<Rightarrow> let S1 = snd (rt_data_queue_init q 8 4 False items S) in
            Some (S1\<lparr>ser_tx := Tx_dma q False, dev_open_flag := dev_open_flag S1 OR RT_DEVICE_FLAG_DMA_TX\<rparr>))
     else if oflag AND RT_DEVICE_FLAG_INT_TX \<noteq> 0 then
       (case mem of None \<Rightarrow> None
        | Some c \<Rightarrow> let S1 = rt_completion_init c S in
            Some (control_port U RT_DEVICE_CTRL_SET_INT (ucast RT_DEVICE_FLAG_INT_TX)
              (S1\<lparr>ser_tx := Tx_fifo c, dev_open_flag := dev_open_flag S1 OR RT_DEVICE_FLAG_INT_TX\<rparr>)))
     else Some (S\<lparr>ser_tx := Tx_none\<rparr>))"

definition rt_serial_open :: "'c uart_ops \<Rightarrow> bool \<Rightarrow> nat option \<Rightarrow> (nat \<Rightarrow> (u32 \<times> u32) list option) \<Rightarrow> u16 \<Rightarrow> 'c serial \<Rightarrow> (int \<times> 'c serial) option" where
  "rt_serial_open U mem_rx mem_tx items oflag S = (
     if flags_missing RT_DEVICE_FLAG_DMA_RX oflag (dev_flag S) then Some (- RT_EIO, S)
     else if flags_missing RT_DEVICE_FLAG_DMA_TX oflag (dev_flag S) then Some (- RT_EIO, S)
     else if flags_missing RT_DEVICE_FLAG_INT_RX oflag (dev_flag S) then Some (- RT_EIO, S)
     else if flags_missing RT_DEVICE_FLAG_INT_TX oflag (dev_flag S) then Some (- RT_EIO, S)
     else map_option (Pair RT_EOK) (Option.bind (serial_open_rx U mem_rx oflag (S\<lparr>dev_open_flag := oflag AND 0xff\<rparr>)) (serial_open_tx U mem_tx items oflag)))"

definition serial_close_rx :: "'c uart_ops \<Rightarrow> 'c serial \<Rightarrow> 'c serial option" where
  "serial_close_rx U S = (if dev_open_flag S AND RT_DEVICE_FLAG_INT_RX \<noteq> 0 then
       if ser_rx S = Rx_none then None
       else Some (control_port U RT_DEVICE_CTRL_CLR_INT (ucast RT_DEVICE_FLAG_INT_RX)
         (S\<lparr>ser_rx := Rx_none, dev_open_flag := dev_open_flag S AND NOT RT_DEVICE_FLAG_INT_RX\<rparr>))
     else if dev_open_flag S AND RT_DEVICE_FLAG_DMA_RX \<noteq> 0 then
       if ser_rx S = Rx_none then None
       else let S1 = control_port U RT_DEVICE_CTRL_CLR_INT (ucast RT_DEVICE_FLAG_DMA_RX) S in
         Some (S1\<lparr>ser_rx := Rx_none, dev_open_flag := dev_open_flag S1 AND NOT RT_DEVICE_FLAG_DMA_RX\<rparr>)
     else Some S)"

definition serial_close_tx :: "'c uart_ops \<Rightarrow> 'c serial \<Rightarrow> 'c serial option" where
  "serial_close_tx U S = (if dev_open_flag S AND RT_DEVICE_FLAG_INT_TX \<noteq> 0 then
       if ser_tx S = Tx_none then None
       else Some (control_port U RT_DEVICE_CTRL_CLR_INT (ucast RT_DEVICE_FLAG_INT_TX)
         (S\<lparr>ser_tx := Tx_none, dev_open_flag := dev_open_flag S AND NOT RT_DEVICE_FLAG_INT_TX\<rparr>))
     else if dev_open_flag S AND RT_DEVICE_FLAG_DMA_TX \<noteq> 0 then
       if ser_tx S = Tx_none then None
       else Some (S\<lparr>ser_tx := Tx_none, dev_open_flag := dev_open_flag S AND NOT RT_DEVICE_FLAG_DMA_TX\<rparr>)
     else Some S)"

definition rt_serial_close :: "'c uart_ops \<Rightarrow> 'c serial \<Rightarrow> (int \<times> 'c serial) option" where
  "rt_serial_close U S = (if 1 < dev_ref_count S then Some (RT_EOK, S)
     else map_option (Pair RT_EOK) (Option.bind (serial_close_rx U S) (serial_close_tx U)))"

text \<open>Reading: the number the call returns, and the bytes it has put into the buffer at \<open>addr\<close> by then.\<close>

definition rt_serial_read :: "'c uart_ops \<Rightarrow> u32 \<Rightarrow> u32 \<Rightarrow> 'c serial \<Rightarrow> (u32 \<times> bytes \<times> 'c serial) option" where
  "rt_serial_read U addr len S = (if len = 0 then Some (0, [], S)
     else if dev_open_flag S AND RT_DEVICE_FLAG_INT_RX \<noteq> 0 then
       (case ser_rx S of Rx_fifo F \<Rightarrow> map_option (\<lambda>(d, F1). (of_nat (length d), d, S\<lparr>ser_rx := Rx_fifo F1\<rparr>)) (serial_int_rx (bufsz (sconfig S)) (unat len) F)
        | _ \<Rightarrow> None)
     else if dev_open_flag S AND RT_DEVICE_FLAG_DMA_RX \<noteq> 0 then serial_dma_rx U addr len S
     else (case serial_poll_rx U (unat len) (port S) of (d, x) \<Rightarrow> Some (of_nat (length d), d, S\<lparr>port := x\<rparr>)))"

text \<open>Writing \<open>data\<close>, which is at \<open>addr\<close>.  A call that waits leaves the data that are still to be sent.\<close>

definition rt_serial_write :: "'c uart_ops \<Rightarrow> u32 \<Rightarrow> bytes \<Rightarrow> 'c serial \<Rightarrow> (u32 outcome \<times> bytes \<times> 'c serial) option" where
  "rt_serial_write U addr data S = (if data = [] then Some (Done 0, [], S)
     else if dev_open_flag S AND RT_DEVICE_FLAG_INT_TX \<noteq> 0 then
       (case ser_tx S of Tx_fifo c \<Rightarrow>
          map_option (\<lambda>(left, S1). (if left = [] then Done (of_nat (length data)) else Blocked C_driver, left, S1)) (serial_int_tx U c data S)
        | _ \<Rightarrow> None)
     else if dev_open_flag S AND RT_DEVICE_FLAG_DMA_TX \<noteq> 0 then
       (case ser_tx S of Tx_dma q act \<Rightarrow> map_option (\<lambda>(r, S1). (r, data, S1)) (serial_dma_tx U q addr (of_nat (length data)) S) | _ \<Rightarrow> None)
     else Some (Done (of_nat (length data)), [],
       S\<lparr>port := serial_poll_tx U (dev_open_flag S AND RT_DEVICE_FLAG_STREAM \<noteq> 0) data (port S)\<rparr>))"

text \<open>\<open>conf\<close> is the configuration \<open>args\<close> points to when the command is to configure.\<close>

definition rt_serial_control :: "'c uart_ops \<Rightarrow> u8 \<Rightarrow> u32 \<Rightarrow> serial_configure \<Rightarrow> 'c serial \<Rightarrow> (int \<times> 'c serial) option" where
  "rt_serial_control U cmd args conf S = (
     if cmd = RT_DEVICE_CTRL_SUSPEND then Some (RT_EOK, S\<lparr>dev_flag := dev_flag S OR RT_DEVICE_FLAG_SUSPENDED\<rparr>)
     else if cmd = RT_DEVICE_CTRL_RESUME then Some (RT_EOK, S\<lparr>dev_flag := dev_flag S AND NOT RT_DEVICE_FLAG_SUSPENDED\<rparr>)
     else if cmd = RT_DEVICE_CTRL_CONFIG then
       if args = 0 then Some (RT_EOK, S)
       else let S1 = S\<lparr>sconfig := conf\<rparr> in
         if dev_ref_count S1 \<noteq> 0 then (case op_configure U of None \<Rightarrow> None | Some f \<Rightarrow> Some (RT_EOK, S1\<lparr>port := snd (f conf (port S1))\<rparr>))
         else Some (RT_EOK, S1)
     else Some (RT_EOK, control_port U cmd args S))"

subsection \<open>The interrupt\<close>

definition fifo_add :: "u16 \<Rightarrow> u8 \<Rightarrow> rx_fifo \<Rightarrow> rx_fifo option" where
  "fifo_add n ch F = (if length (fifo_buffer F) \<le> unat (fifo_put F) then None
     else let p = (if fifo_put F + 1 \<ge> n then 0 else fifo_put F + 1); F1 = F\<lparr>fifo_buffer := (fifo_buffer F)[unat (fifo_put F) := ch], fifo_put := p\<rparr> in
       Some (if p = fifo_get F1 then F1\<lparr>fifo_get := (if fifo_get F1 + 1 \<ge> n then 0 else fifo_get F1 + 1)\<rparr> else F1))"

partial_function (option) isr_receive :: "'c uart_ops \<Rightarrow> u16 \<Rightarrow> rx_fifo \<Rightarrow> 'c \<Rightarrow> (rx_fifo \<times> 'c) option" where
  "isr_receive U n F x = (case op_getc U x of (ch, x1) \<Rightarrow>
     if ch = -1 then Some (F, x1) else Option.bind (fifo_add n (of_int ch) F) (\<lambda>F1. isr_receive U n F1 x1))"

definition call_back :: "bool \<Rightarrow> callback \<Rightarrow> 'c serial \<Rightarrow> 'c serial" where
  "call_back is_set c S = (if is_set then S\<lparr>callbacks := callbacks S @ [c]\<rparr> else S)"

definition isr_rx_ind :: "'c uart_ops \<Rightarrow> 'c serial \<Rightarrow> 'c serial option" where
  "isr_rx_ind U S = (case ser_rx S of Rx_fifo F \<Rightarrow> let n = bufsz (sconfig S) in
       map_option (\<lambda>(F1, x). call_back (rx_indicate_set S) (Rx_indicate (rt_dma_calc_recved_len n F1)) (S\<lparr>ser_rx := Rx_fifo F1, port := x\<rparr>))
         (isr_receive U n F (port S))
     | _ \<Rightarrow> None)"

definition isr_tx_done :: "'c serial \<Rightarrow> 'c serial option" where
  "isr_tx_done S = (case ser_tx S of Tx_fifo c \<Rightarrow> rt_completion_done c S | _ \<Rightarrow> None)"

text \<open>\<open>junk\<close>: what the pointer for the data sent holds when the queue gives none.\<close>

definition isr_tx_dmadone :: "'c uart_ops \<Rightarrow> u32 \<Rightarrow> 'c serial \<Rightarrow> 'c serial option" where
  "isr_tx_dmadone U junk S = (case ser_tx S of Tx_dma q act \<Rightarrow>
       (case rt_data_queue_pop q 0 S of Some (Done (r, x), S1) \<Rightarrow>
          let last = (case x of Some (a, n) \<Rightarrow> a | None \<Rightarrow> junk) in
          (case rt_data_queue_peak q S1 of None \<Rightarrow> None
           | Some (r1, Some (a, n)) \<Rightarrow> map_option (\<lambda>f. call_back (tx_complete_set S) (Tx_complete last)
               (S1\<lparr>ser_tx := Tx_dma q True, port := f a n 2 (port S1)\<rparr>)) (op_dma_transmit U)
           | Some (r1, None) \<Rightarrow> Some (call_back (tx_complete_set S) (Tx_complete last) (S1\<lparr>ser_tx := Tx_dma q False\<rparr>)))
        | _ \<Rightarrow> None)
     | _ \<Rightarrow> None)"

definition isr_rx_dmadone :: "u32 \<Rightarrow> 'c serial \<Rightarrow> 'c serial option" where
  "isr_rx_dmadone len S = (if bufsz (sconfig S) = 0 then
       (case ser_rx S of Rx_dma act \<Rightarrow> if \<not> rx_indicate_set S then None
           else Some (call_back True (Rx_indicate len) (S\<lparr>ser_rx := Rx_dma False\<rparr>))
         | _ \<Rightarrow> None)
     else (case ser_rx S of Rx_fifo F \<Rightarrow> let n = bufsz (sconfig S); F1 = rt_dma_recv_update_put_index n len F in
         Some (call_back (rx_indicate_set S) (Rx_indicate (rt_dma_calc_recved_len n F1)) (S\<lparr>ser_rx := Rx_fifo F1\<rparr>))
       | _ \<Rightarrow> None))"

definition rt_hw_serial_isr :: "'c uart_ops \<Rightarrow> u32 \<Rightarrow> u32 \<Rightarrow> 'c serial \<Rightarrow> 'c serial option" where
  "rt_hw_serial_isr U junk event S = (let e = event AND 0xff in
     if e = 1 then isr_rx_ind U S
     else if e = 2 then isr_tx_done S
     else if e = 4 then isr_tx_dmadone U junk S
     else if e = 3 then isr_rx_dmadone (signed_drop_bit 8 (event AND NOT 0xff)) S
     else Some S)"

subsection \<open>The board's interrupt routines\<close>

text \<open>How many bytes a DMA channel has received since it was last looked at, with \<open>counter\<close> what the channel has still to receive;
  the port takes up again afterwards.\<close>

definition dma_received :: "u32 \<Rightarrow> 'c serial \<Rightarrow> u32 \<times> 'c serial" where
  "dma_received counter S = (let total = ucast (bufsz (sconfig S)) - counter in
     (if total > last_recv_len S then total - last_recv_len S else total, S\<lparr>last_recv_len := total\<rparr>))"

definition dma_uart_rx_idle_isr :: "'c uart_ops \<Rightarrow> u32 \<Rightarrow> u32 \<Rightarrow> 'c serial \<Rightarrow> 'c serial option" where
  "dma_uart_rx_idle_isr U junk counter S = (case dma_received counter S of (n, S1) \<Rightarrow> rt_hw_serial_isr U junk (3 OR push_bit 8 n) S1)"

definition dma_rx_done_isr :: "'c uart_ops \<Rightarrow> u32 \<Rightarrow> u32 \<Rightarrow> 'c serial \<Rightarrow> 'c serial option" where
  "dma_rx_done_isr U junk counter S = (case dma_received counter S of (n, S1) \<Rightarrow> rt_hw_serial_isr U junk (3 OR push_bit 8 n) S1)"

end
