(* ===== verification/DeviceIpcProps.thy ===== *)
theory DeviceIpcProps imports DeviceIpc KernelProps KernelQueues RingProps begin

text \<open>The properties of what drivers wait with: who is woken and with what, the data queue as a bounded queue (an interpretation
  of the locale \<open>bounded_queue\<close>, which the mailboxes and message queues meet too), and where the code loses something.\<close>

subsection \<open>Waiting and waking\<close>

lemma wait_on_blocks:
  assumes "good idle K" "cur K = Some t" "t \<noteq> idle" "irq_nest K = 0" "list_stat q = Thread_suspend" "sint timeout < 2 ^ 31 - 1"
  shows "\<exists>K'. wait_on q timeout K = Some (Blocked C_driver, K') \<and> good idle K'
    \<and> th K' = (th K)(t := (th K t)\<lparr>t_error := RT_EOK, t_stat := Thread_suspend\<rparr>) \<and> links K' q = links K q @ [t]
    \<and> (\<forall>r. r \<noteq> q \<longrightarrow> (\<forall>p. r \<noteq> Ready p) \<longrightarrow> links K' r = links K r)
    \<and> kernel.more K' = kernel.more K \<and> irq_nest K' = irq_nest K \<and> k_tick K' = k_tick K"
proof -
  let ?W = "set_th t (\<lambda>x. x\<lparr>t_error := RT_EOK\<rparr>) K"
  have g: "good idle ?W" by (rule set_th_good [OF assms(1)]) simp_all
  have c: "cur ?W = Some t" using assms(2) by (simp add: set_th_def)
  have s: "rt_ipc_list_suspend q t RT_IPC_FLAG_FIFO ?W = link_last q t (snd (rt_thread_suspend t ?W))"
    by (simp add: rt_ipc_list_suspend_def Let_def)
  have w: "wait_on q timeout K = Option.bind (wait_timer t timeout (rt_ipc_list_suspend q t RT_IPC_FLAG_FIFO ?W)) (block C_driver)"
    using assms(2,4) by (simp add: wait_on_def in_thread_def Let_def s)
  have f: "(th ?W)(t := (th ?W t)\<lparr>t_stat := Thread_suspend\<rparr>) = (th K)(t := (th K t)\<lparr>t_error := RT_EOK, t_stat := Thread_suspend\<rparr>)"
    "links ?W = links K" "kernel.more ?W = kernel.more K" "irq_nest ?W = irq_nest K" "k_tick ?W = k_tick K"
    by (simp_all add: set_th_def)
  show ?thesis
    using suspend_block [OF g c assms(3,5,6), of RT_IPC_FLAG_FIFO C_driver, unfolded f] by (simp add: w)
qed

lemma wake_first_wakes:
  assumes "good idle K" "list_stat q = Thread_suspend" "links K q = t # ts"
  shows "\<exists>K'. wake_first q K = Some K' \<and> good idle K' \<and> th K' = (th K)(t := (th K t)\<lparr>t_stat := Thread_ready\<rparr>) \<and> links K' q = ts
    \<and> (\<forall>r. r \<noteq> q \<longrightarrow> (\<forall>p. r \<noteq> Ready p) \<longrightarrow> links K' r = links K r) \<and> kernel.more K' = kernel.more K \<and> irq_nest K' = irq_nest K"
  using resume_schedule [OF assms] assms(3) by (auto simp: wake_first_def rt_ipc_list_resume_def)

lemma wake_first_none: "links K q = [] \<Longrightarrow> wake_first q K = Some K"
  by (simp add: wake_first_def)

text \<open>Both cases in one: the first thread, if any, becomes ready.\<close>

lemma wake_first_ok:
  assumes "good idle K" "list_stat q = Thread_suspend"
  shows "\<exists>K'. wake_first q K = Some K' \<and> good idle K' \<and> links K' q = tl (links K q) \<and> kernel.more K' = kernel.more K \<and> irq_nest K' = irq_nest K
    \<and> (\<forall>t ts. links K q = t # ts \<longrightarrow> t_stat (th K' t) = Thread_ready)"
proof (cases "links K q")
  case Nil
  then show ?thesis using assms(1) by (simp add: wake_first_none)
next
  case (Cons t ts)
  then show ?thesis using wake_first_wakes [OF assms Cons] by auto
qed

lemma devipc_fields:
  assumes "kernel.more K' = kernel.more (K :: 'k devipc_scheme)"
  shows "cpl_flag K' = cpl_flag K" "dqs K' = dqs K" "notified K' = notified K"
  using assms by (cases K; cases K'; simp)+

lemma set_cpl_keeps [simp]:
  "links (set_cpl c b K) = links K" "th (set_cpl c b K) = th K" "cur (set_cpl c b K) = cur K" "irq_nest (set_cpl c b K) = irq_nest K"
  "cpl_flag (set_cpl c b K) = (cpl_flag K)(c := b)" "links (set_dq q f K) = links K" "th (set_dq q f K) = th K" "cur (set_dq q f K) = cur K"
  "irq_nest (set_dq q f K) = irq_nest K" "dqs (set_dq q f K) = (dqs K)(q := f (dqs K q))" "links (dq_notify q e K) = links K" "th (dq_notify q e K) = th K"
  "dqs (dq_notify q e K) = dqs K"
  by (simp_all add: set_cpl_def set_dq_def dq_notify_def)

lemma devipc_good: "good idle K \<Longrightarrow> good idle (set_cpl c b K)" "good idle K \<Longrightarrow> good idle (set_dq q f K)" "good idle K \<Longrightarrow> good idle (dq_notify q e K)"
  by (auto simp: good_def can_run_def live_def set_cpl_def set_dq_def dq_notify_def intro!: kernel_ok_cong [of K])

lemma list_stat_wait: "list_stat (Waiting w) = Thread_suspend" "list_stat (Sending n) = Thread_suspend"
  by (simp_all add: list_stat_def)

subsection \<open>Completions\<close>

text \<open>A completion is not lost, whichever comes first: a thread that waits is ready again after the completion and its wait succeeds;
  a wait after the completion returns at once. Either way the completion is used up.\<close>

theorem completion_reaches_waiter:
  assumes "good idle K" "cur K = Some t" "t \<noteq> idle" "irq_nest K = 0" "links K (Waiting (Cpl c)) = []" "\<not> cpl_flag K c"
    and "timeout \<noteq> 0" "sint timeout < 2 ^ 31 - 1"
  shows "(\<exists>K1 K2 K3. rt_completion_wait c timeout K = Some (Blocked C_driver, K1) \<and> rt_completion_done c K1 = Some K2 \<and> good idle K2
      \<and> t_stat (th K2 t) = Thread_ready \<and> rt_completion_wait_rest t c K2 = (RT_EOK, K3) \<and> \<not> cpl_flag K3 c)
    \<and> (\<exists>K1 K2. rt_completion_done c K = Some K1 \<and> rt_completion_wait c timeout K1 = Some (Done RT_EOK, K2) \<and> \<not> cpl_flag K2 c)"
proof -
  obtain K1 where k1: "wait_on (Waiting (Cpl c)) timeout K = Some (Blocked C_driver :: int outcome, K1)" "good idle K1"
      "th K1 = (th K)(t := (th K t)\<lparr>t_error := RT_EOK, t_stat := Thread_suspend\<rparr>)" "links K1 (Waiting (Cpl c)) = [t]" "kernel.more K1 = kernel.more K"
    using wait_on_blocks [OF assms(1-4) list_stat_wait(1) assms(8), of "Cpl c"] assms(5) by auto
  note m1 = devipc_fields [OF k1(5)]
  have w: "rt_completion_wait c timeout K = Some (Blocked C_driver, K1)" using assms(5-7) k1(1) by (simp add: rt_completion_wait_def)
  have g: "good idle (set_cpl c True K1)" by (rule devipc_good) (rule k1(2))
  have l: "links (set_cpl c True K1) (Waiting (Cpl c)) = [t]" using k1(4) by simp
  obtain K2 where k2: "wake_first (Waiting (Cpl c)) (set_cpl c True K1) = Some K2" "good idle K2"
      "th K2 = (th K1)(t := (th K1 t)\<lparr>t_stat := Thread_ready\<rparr>)"
    using wake_first_wakes [OF g list_stat_wait(1) l] by auto
  have "rt_completion_done c K1 = Some K2" using k2(1) assms(6) by (simp add: rt_completion_done_def m1)
  then have "\<exists>K1 K2 K3. rt_completion_wait c timeout K = Some (Blocked C_driver, K1) \<and> rt_completion_done c K1 = Some K2 \<and> good idle K2
      \<and> t_stat (th K2 t) = Thread_ready \<and> rt_completion_wait_rest t c K2 = (RT_EOK, K3) \<and> \<not> cpl_flag K3 c"
    using w k2(2,3) k1(3) by (auto simp: rt_completion_wait_rest_def)
  then show ?thesis
    using assms(5,6) by (auto simp: rt_completion_done_def wake_first_def rt_completion_wait_def)
qed

text \<open>A completion that comes after the waiting thread's time is over, but before the thread runs again, is lost: the wait fails and
  takes the completion with it, so that the next wait does not see it either.\<close>

theorem late_completion_is_lost:
  assumes "good idle K" "cur K = Some t" "t \<noteq> idle" "irq_nest K = 0" "links K (Waiting (Cpl c)) = []" "\<not> cpl_flag K c"
    and "0 < sint timeout" "sint timeout < 2 ^ 31 - 1"
  shows "\<exists>K1 K2 K3 K4. rt_completion_wait c timeout K = Some (Blocked C_driver, K1) \<and> rt_thread_timeout t (timer_remove (Thread_timer t) K1) = Some K2
    \<and> rt_completion_done c K2 = Some K3 \<and> rt_completion_wait_rest t c K3 = (- RT_ETIMEOUT, K4) \<and> rt_completion_wait c 0 K4 = Some (Done (- RT_ETIMEOUT), K4)"
proof -
  obtain K1 where k1: "wait_on (Waiting (Cpl c)) timeout K = Some (Blocked C_driver :: int outcome, K1)" "good idle K1"
      "th K1 = (th K)(t := (th K t)\<lparr>t_error := RT_EOK, t_stat := Thread_suspend\<rparr>)" "links K1 (Waiting (Cpl c)) = [t]" "kernel.more K1 = kernel.more K"
    using wait_on_blocks [OF assms(1-4) list_stat_wait(1) assms(8), of "Cpl c"] assms(5) by auto
  note m1 = devipc_fields [OF k1(5)]
  have "timeout \<noteq> 0" using assms(7) by auto
  then have w: "rt_completion_wait c timeout K = Some (Blocked C_driver, K1)" using assms(5,6) k1(1) by (simp add: rt_completion_wait_def)
  let ?R = "timer_remove (Thread_timer t) K1"
  have s: "t_stat (th ?R t) = Thread_suspend" "Thread_timer t \<notin> set (timer_list ?R)"
    by (simp_all add: timer_remove_def k1(3))
  obtain K2 where k2: "rt_thread_timeout t ?R = Some K2" "kernel.more K2 = kernel.more ?R" "t_error (th K2 t) = - RT_ETIMEOUT"
      "links K2 (Waiting (Cpl c)) = removeAll t (links ?R (Waiting (Cpl c)))"
    using timeout_ok [OF goodD(1) [OF timer_remove_run [OF k1(2)]] s] by auto
  have l: "links K2 (Waiting (Cpl c)) = []" using k2(4) k1(4) by (simp add: timer_remove_def)
  have "kernel.more K2 = kernel.more K1" using k2(2) by (simp add: timer_remove_def)
  then have "\<not> cpl_flag K2 c" using devipc_fields [of K2 K1] m1 assms(6) by simp
  then have d: "rt_completion_done c K2 = Some (set_cpl c True K2)" using l by (simp add: rt_completion_done_def wake_first_def)
  have r: "rt_completion_wait_rest t c (set_cpl c True K2) = (- RT_ETIMEOUT, set_cpl c False (set_cpl c True K2))"
    using k2(3) by (simp add: rt_completion_wait_rest_def)
  have "rt_completion_wait c 0 (set_cpl c False (set_cpl c True K2)) = Some (Done (- RT_ETIMEOUT), set_cpl c False (set_cpl c True K2))"
    using l by (simp add: rt_completion_wait_def)
  then show ?thesis using w k2(1) d r by blast
qed

subsection \<open>The data queue\<close>

definition dq_count :: "rt_data_queue \<Rightarrow> nat" where
  "dq_count Q = unat (put_index Q - get_index Q)"

definition dq_inv :: "rt_data_queue \<Rightarrow> bool" where
  "dq_inv Q = (\<exists>k \<le> 15. dq_size Q = push_bit k 1 \<and> length (dq_queue Q) = 2 ^ k \<and> dq_count Q \<le> 2 ^ k)"

definition dq_items :: "rt_data_queue \<Rightarrow> (u32 \<times> u32) list" where
  "dq_items Q = map (\<lambda>i. dq_queue Q ! dq_slot Q (get_index Q + of_nat i)) [0..<dq_count Q]"

lemma dq_slot_mod:
  assumes "dq_size Q = push_bit k 1" "k \<le> 15"
  shows "dq_slot Q i = unat i mod 2 ^ k"
proof -
  have "dq_size Q - 1 = mask k" using assms by (simp add: mask_eq_exp_minus_1)
  then have "i AND (dq_size Q - 1) = take_bit k i" by (simp add: take_bit_eq_mask)
  then have "dq_slot Q i = take_bit k (unat i)" by (simp only: dq_slot_def unsigned_take_bit_eq)
  then show ?thesis by (simp add: take_bit_eq_mod)
qed

lemma dq_size_nat: "dq_size Q = push_bit k 1 \<Longrightarrow> k \<le> 15 \<Longrightarrow> unat (dq_size Q) = 2 ^ k"
proof -
  assume a: "dq_size Q = push_bit k 1" "k \<le> 15"
  have "(2 :: nat) ^ k < 2 ^ 16" using a(2) by (intro power_strict_increasing) simp_all
  then have "unat (of_nat (2 ^ k) :: u16) = 2 ^ k" by (simp add: unat_of_nat del: of_nat_power)
  then show ?thesis using a(1) by simp
qed

lemma dq_sum_slot:
  assumes "dq_size Q = push_bit k 1" "k \<le> 15"
  shows "dq_slot Q (g + of_nat n) = (unat g + n) mod 2 ^ k"
proof -
  have d: "(2 :: nat) ^ k dvd 2 ^ 16" by (rule le_imp_power_dvd) (use assms(2) in simp)
  have "unat (g + of_nat n) = (unat g + n) mod 2 ^ 16" by (simp add: unat_word_ariths unat_of_nat mod_add_right_eq)
  then show ?thesis by (simp only: dq_slot_mod [OF assms] mod_mod_cancel [OF d])
qed

lemma dq_put_slot:
  assumes "dq_size Q = push_bit k 1" "k \<le> 15"
  shows "dq_slot Q (put_index Q) = (unat (get_index Q) + dq_count Q) mod 2 ^ k"
  using dq_sum_slot [OF assms, of "get_index Q" "dq_count Q"] by (simp add: dq_count_def)




lemma dq_items_length [simp]: "length (dq_items Q) = dq_count Q"
  by (simp add: dq_items_def)



lemma dq_slot_in: "dq_inv Q \<Longrightarrow> dq_slot Q i < length (dq_queue Q)"
  by (auto simp: dq_inv_def dq_slot_mod)


lemma dq_inv_waiting [simp]: "dq_inv (Q\<lparr>waiting_lwm := b\<rparr>) = dq_inv Q" "dq_items (Q\<lparr>waiting_lwm := b\<rparr>) = dq_items Q"
  by (simp_all add: dq_inv_def dq_items_def dq_count_def dq_slot_def)




text \<open>C26: Once the write position has wrapped and the read position has not, the code does not see that a queue is full: a push succeeds,
  and what it pushed takes the place of the oldest element, which is never popped.\<close>

theorem full_data_queue_overwritten:
  assumes "dq_inv (dqs K q)" "dq_count (dqs K q) = unat (dq_size (dqs K q))" "put_index (dqs K q) < get_index (dqs K q)"
    and "links K (Waiting (Dqu q)) = []" "\<not> waiting_lwm (dqs K q)"
  shows "\<exists>K1 K2. rt_data_queue_push q x 0 K = Some (Done RT_EOK, K1) \<and> rt_data_queue_pop q 0 K1 = Some (Done (RT_EOK, Some x), K2)"
proof -
  let ?Q = "dqs K q"
  obtain k where k: "k \<le> 15" "dq_size ?Q = push_bit k 1" "length (dq_queue ?Q) = 2 ^ k" using assms(1) by (auto simp: dq_inv_def)
  have c: "dq_count ?Q = 2 ^ k" using assms(2) dq_size_nat [OF k(2,1)] by simp
  have "uint (put_index ?Q) < uint (get_index ?Q)" using assms(3) by (simp add: word_less_def)
  then have "\<not> dq_full ?Q" unfolding dq_full_def using uint_ge_0 [of "dq_size ?Q"] by linarith
  moreover note i = dq_slot_in [OF assms(1)]
  ultimately have p: "rt_data_queue_push q x 0 K = Some (Done RT_EOK, dq_notify q RT_DATAQUEUE_EVENT_PUSH (set_dq q (dq_store x) K))"
    using assms(4) by (simp add: rt_data_queue_push_def Let_def flip: not_less)
  let ?S = "dq_store x ?Q"
  have s: "dq_slot ?Q (put_index ?Q) = dq_slot ?Q (get_index ?Q)"
    using dq_put_slot [OF k(2,1)] dq_slot_mod [OF k(2,1), of "get_index ?Q"] c by simp
  have f: "dq_slot ?S j = dq_slot ?Q j" "get_index ?S = get_index ?Q" "waiting_lwm ?S = waiting_lwm ?Q" for j by (simp_all add: dq_store_def dq_slot_def)
  have "get_index ?S \<noteq> put_index ?S"
  proof
    assume "get_index ?S = put_index ?S"
    then have "put_index ?Q - get_index ?Q = - 1" by (simp add: dq_store_def algebra_simps)
    then have "dq_count ?Q = 65535" by (simp add: dq_count_def unsigned_minus_1_eq_mask mask_eq_exp_minus_1)
    moreover have "(2 :: nat) ^ k \<le> 2 ^ 15" using k(1) by (intro power_increasing) simp_all
    ultimately show False using c by simp
  qed
  moreover have "dq_fetch ?S = (x, ?S\<lparr>get_index := get_index ?Q + 1\<rparr>)" using s i by (simp add: dq_fetch_def f(1,2)) (simp add: dq_store_def)
  moreover have "dq_slot ?S (get_index ?S) < length (dq_queue ?S)" using i by (simp add: f) (simp add: dq_store_def)
  ultimately have "\<exists>K2. rt_data_queue_pop q 0 (dq_notify q RT_DATAQUEUE_EVENT_PUSH (set_dq q (dq_store x) K)) = Some (Done (RT_EOK, Some x), K2)"
    using assms(5) f by (simp add: rt_data_queue_pop_def Let_def flip: not_less)
  then show ?thesis using p by blast
qed

subsection \<open>The work queue\<close>

lemma workq_good: "good idle K \<Longrightarrow> good idle (K\<lparr>work_list := f\<rparr>)"
  by (auto simp: good_def can_run_def live_def intro!: kernel_ok_cong [of K])

lemma workq_fields:
  assumes "kernel.more K' = kernel.more (K :: workqs)"
  shows "work_list K' = work_list K" "work_thread K' = work_thread K"
  using assms by (cases K; cases K'; simp)+

text \<open>Locking the scheduler for a change of the lists: what is left is the change and a call of the scheduler.\<close>

lemma work_critical:
  assumes "good idle (K :: workqs)"
  shows "\<exists>K'. rt_exit_critical ((rt_enter_critical K)\<lparr>work_list := f\<rparr>) = Some K' \<and> good idle K' \<and> kernel.more K' = kernel.more (K\<lparr>work_list := f\<rparr>)
    \<and> links K' = links K \<and> th K' = th K \<and> irq_nest K' = irq_nest K"
proof -
  have l: "lock_nest K = 0" using assms by (simp add: good_def can_run_def)
  have e: "K\<lparr>work_list := f, lock_nest := 0\<rparr> = K\<lparr>work_list := f\<rparr>" using l by (cases K) simp
  obtain K' where k: "rt_schedule (K\<lparr>work_list := f\<rparr>) = Some K'" "good idle K'" "scheduled (K\<lparr>work_list := f\<rparr>) K'"
    using schedule_run [OF goodD(1) [OF workq_good [OF assms]]] by blast
  have "rt_exit_critical ((rt_enter_critical K)\<lparr>work_list := f\<rparr>) = rt_schedule (K\<lparr>work_list := f, lock_nest := 0\<rparr>)"
    using l by (simp add: rt_exit_critical_def rt_enter_critical_def Let_def)
  then have "rt_exit_critical ((rt_enter_critical K)\<lparr>work_list := f\<rparr>) = Some K'" unfolding e k(1) .
  then show ?thesis using k(2) scheduled_keeps [OF k(3)] scheduled_more [OF k(3)] by auto
qed

lemma work_remove_enter: "work_remove w (rt_enter_critical K) = (rt_enter_critical K)\<lparr>work_list := \<lambda>q. removeAll w (work_list K q)\<rparr>"
  by (simp add: work_remove_def rt_enter_critical_def)

lemma resume_schedules:
  assumes "good idle K" "t_stat (th K t) = Thread_suspend"
  shows "\<exists>K'. rt_schedule (snd (rt_thread_resume t K)) = Some K' \<and> good idle K' \<and> th K' = (th K)(t := (th K t)\<lparr>t_stat := Thread_ready\<rparr>)
    \<and> kernel.more K' = kernel.more K \<and> (\<forall>r. (\<forall>p. r \<noteq> Ready p) \<longrightarrow> links K' r = removeAll t (links K r)) \<and> irq_nest K' = irq_nest K"
proof -
  note r = resume_ok [OF can_runD(1) [OF goodD(1) [OF assms(1)]] assms(2)]
  have "can_run idle (snd (rt_thread_resume t K))" using assms r by (auto simp: good_def can_run_def)
  then obtain K' where k: "rt_schedule (snd (rt_thread_resume t K)) = Some K'" "good idle K'" "scheduled (snd (rt_thread_resume t K)) K'"
    using schedule_run by blast
  show ?thesis using k r(3,4) scheduled_keeps [OF k(3)] scheduled_more [OF k(3)] by auto
qed

text \<open>Submitting work: it goes to the end of the list, and the thread of the queue is ready.\<close>

lemma dowork_appends:
  assumes "good idle K" "t_stat (th K (work_thread K q)) \<in> {Thread_ready, Thread_suspend}"
  shows "\<exists>K'. rt_workqueue_dowork q w K = Some (RT_EOK, K') \<and> good idle K' \<and> work_thread K' = work_thread K
    \<and> work_list K' = (\<lambda>r. if r = q then removeAll w (work_list K q) @ [w] else removeAll w (work_list K r))
    \<and> t_stat (th K' (work_thread K q)) = Thread_ready \<and> t_error (th K' (work_thread K q)) = t_error (th K (work_thread K q))
    \<and> (\<forall>r. (\<forall>p. r \<noteq> Ready p) \<longrightarrow> links K' r = removeAll (work_thread K q) (links K r))"
proof -
  let ?f = "\<lambda>r. if r = q then removeAll w (work_list K q) @ [w] else removeAll w (work_list K r)" and ?t = "work_thread K q"
  obtain K1 where k1: "rt_exit_critical ((rt_enter_critical K)\<lparr>work_list := ?f\<rparr>) = Some K1" "good idle K1"
      "kernel.more K1 = kernel.more (K\<lparr>work_list := ?f\<rparr>)" "links K1 = links K" "th K1 = th K"
    using work_critical [OF assms(1)] by blast
  note m = workq_fields [OF k1(3)]
  have u: "(work_remove w (rt_enter_critical K))\<lparr>work_list := (work_list (work_remove w (rt_enter_critical K)))
      (q := work_list (work_remove w (rt_enter_critical K)) q @ [w])\<rparr> = (rt_enter_critical K)\<lparr>work_list := ?f\<rparr>"
    by (simp add: work_remove_enter fun_upd_def cong: if_cong)
  have th: "th ((rt_enter_critical K)\<lparr>work_list := ?f\<rparr>) = th K" "work_thread ((rt_enter_critical K)\<lparr>work_list := ?f\<rparr>) = work_thread K"
    by (simp_all add: rt_enter_critical_def)
  show ?thesis
  proof (cases "t_stat (th K ?t) = Thread_ready")
    case True
    have nw: "?t \<notin> set (links K r)" if "\<forall>p. r \<noteq> Ready p" for r
      using True that ready_not_waiting [of K ?t r] can_runD(1) [OF goodD(1) [OF assms(1)]] by (auto simp: kernel_ok_def)
    have "rt_workqueue_dowork q w K = Some (RT_EOK, K1)"
      using True k1(1) unfolding rt_workqueue_dowork_def Let_def u th by simp
    then show ?thesis using True k1(2,4,5) m nw by (auto simp: removeAll_others)
  next
    case False
    then have s: "t_stat (th K1 ?t) = Thread_suspend" using assms(2) k1(5) by simp
    obtain K2 where k2: "rt_schedule (snd (rt_thread_resume ?t K1)) = Some K2" "good idle K2" "th K2 = (th K1)(?t := (th K1 ?t)\<lparr>t_stat := Thread_ready\<rparr>)"
        "kernel.more K2 = kernel.more K1" "\<forall>r. (\<forall>p. r \<noteq> Ready p) \<longrightarrow> links K2 r = removeAll ?t (links K1 r)"
      using resume_schedules [OF k1(2) s] by blast
    have "rt_workqueue_dowork q w K = Some (RT_EOK, K2)"
      using False k1(1) k2(1) unfolding rt_workqueue_dowork_def Let_def u th by (simp add: return_schedule_def)
    then show ?thesis using k2(2,3,5) k1(4,5) m workq_fields [OF k2(4)] by auto
  qed
qed

lemma next_takes:
  assumes "good idle K" "work_list K q = w # ws" "w \<notin> set ws"
  shows "\<exists>K'. workqueue_thread_entry q K = Some (Done w, K') \<and> good idle K' \<and> work_list K' q = ws"
proof -
  obtain K' where k: "rt_exit_critical ((rt_enter_critical K)\<lparr>work_list := \<lambda>q. removeAll w (work_list K q)\<rparr>) = Some K'" "good idle K'"
      "kernel.more K' = kernel.more (K\<lparr>work_list := \<lambda>q. removeAll w (work_list K q)\<rparr>)"
    using work_critical [OF assms(1)] by blast
  show ?thesis using k assms(2,3) workq_fields [OF k(3)]
    by (intro exI [of _ K']) (simp add: workqueue_thread_entry_def workqueue_next_def work_remove_enter removeAll_others)
qed

fun submit_all :: "nat \<Rightarrow> nat list \<Rightarrow> workqs \<Rightarrow> workqs option" where
  "submit_all q [] K = Some K"
| "submit_all q (w # ws) K = (case rt_workqueue_dowork q w K of Some (_, K1) \<Rightarrow> submit_all q ws K1 | None \<Rightarrow> None)"

fun work_rounds :: "nat \<Rightarrow> nat \<Rightarrow> workqs \<Rightarrow> (nat list \<times> workqs) option" where
  "work_rounds q 0 K = Some ([], K)"
| "work_rounds q (Suc n) K = (case workqueue_thread_entry q K of Some (Done w, K1) \<Rightarrow> map_option (\<lambda>(ws, K2). (w # ws, K2)) (work_rounds q n K1) | _ \<Rightarrow> None)"

lemma submit_appends:
  assumes "good idle K" "t_stat (th K (work_thread K q)) \<in> {Thread_ready, Thread_suspend}" "distinct (work_list K q @ ws)"
  shows "\<exists>K'. submit_all q ws K = Some K' \<and> good idle K' \<and> work_list K' q = work_list K q @ ws \<and> work_thread K' = work_thread K
    \<and> (ws \<noteq> [] \<longrightarrow> t_stat (th K' (work_thread K q)) = Thread_ready)"
  using assms
proof (induction ws arbitrary: K)
  case (Cons w ws)
  obtain K1 where k: "rt_workqueue_dowork q w K = Some (RT_EOK, K1)" "good idle K1" "work_thread K1 = work_thread K"
      "work_list K1 q = removeAll w (work_list K q) @ [w]" "t_stat (th K1 (work_thread K q)) = Thread_ready"
    using dowork_appends [OF Cons.prems(1,2), of w] by auto
  have l: "work_list K1 q = work_list K q @ [w]" using k(4) Cons.prems(3) by (simp add: removeAll_others)
  obtain K2 where "submit_all q ws K1 = Some K2" "good idle K2" "work_list K2 q = work_list K1 q @ ws" "work_thread K2 = work_thread K1"
      "ws \<noteq> [] \<longrightarrow> t_stat (th K2 (work_thread K1 q)) = Thread_ready" "ws = [] \<longrightarrow> K2 = K1"
    using Cons.IH [of K1] k(2,3,5) l Cons.prems(3) by (cases "ws = []") auto
  then show ?case using k l by (cases "ws = []") auto
qed simp

lemma rounds_take:
  assumes "good idle K" "work_list K q = ws" "distinct ws"
  shows "\<exists>K'. work_rounds q (length ws) K = Some (ws, K') \<and> work_list K' q = []"
  using assms
proof (induction ws arbitrary: K)
  case (Cons w ws)
  obtain K1 where "workqueue_thread_entry q K = Some (Done w, K1)" "good idle K1" "work_list K1 q = ws"
    using next_takes [OF Cons.prems(1,2)] Cons.prems(3) by auto
  then show ?case using Cons.IH [of K1] Cons.prems(3) by auto
qed simp

text \<open>Work that is submitted is done once each and in the order of submission: the thread of the queue is ready after the first piece, and
  its rounds return the pieces in order, after which the list is empty.\<close>

theorem work_is_done_in_order:
  assumes "good idle K" "t_stat (th K (work_thread K q)) \<in> {Thread_ready, Thread_suspend}" "work_list K q = []" "distinct ws" "ws \<noteq> []"
  shows "\<exists>K1 K2. submit_all q ws K = Some K1 \<and> t_stat (th K1 (work_thread K q)) = Thread_ready
    \<and> work_rounds q (length ws) K1 = Some (ws, K2) \<and> work_list K2 q = []"
  using submit_appends [OF assms(1,2)] rounds_take assms(3,4,5) by fastforce

text \<open>C27: Submitting work while the queue's thread waits for something else, inside the function of another piece of work, ends that wait:
  a wait for a semaphore comes back as a success, though nobody released the semaphore.\<close>

theorem submitted_work_ends_wait:
  assumes "good idle K" "work_thread K q \<in> set (links K (Waiting (Sem s)))" "t_error (th K (work_thread K q)) = RT_EOK"
  shows "\<exists>K'. rt_workqueue_dowork q w K = Some (RT_EOK, K') \<and> t_stat (th K' (work_thread K q)) = Thread_ready
    \<and> work_thread K q \<notin> set (links K' (Waiting (Sem s)))
    \<and> (\<forall>X :: os. th X = th K' \<longrightarrow> rt_sem_take_rest (work_thread K q) X = (RT_EOK, X))"
proof -
  have "t_stat (th K (work_thread K q)) = Thread_suspend"
    using waiting_suspended [OF can_runD(1) [OF goodD(1) [OF assms(1)]] list_stat_wait(1) assms(2)] .
  then obtain K' where "rt_workqueue_dowork q w K = Some (RT_EOK, K')" "t_stat (th K' (work_thread K q)) = Thread_ready"
      "t_error (th K' (work_thread K q)) = RT_EOK" "links K' (Waiting (Sem s)) = removeAll (work_thread K q) (links K (Waiting (Sem s)))"
    using dowork_appends [OF assms(1), of q w] assms(3) by auto
  then show ?thesis by (intro exI [of _ K']) (auto simp: rt_sem_take_rest_def)
qed

subsection \<open>Pipes\<close>

lemma pipes_fields:
  assumes "kernel.more K' = kernel.more (K :: pipes)"
  shows "pps K' = pps K" "indicated K' = indicated K"
  using assms by (cases K; cases K'; simp)+

lemma set_ring_keeps [simp]:
  "links (set_ring p rb K) = links K" "th (set_ring p rb K) = th K" "cur (set_ring p rb K) = cur K" "irq_nest (set_ring p rb K) = irq_nest K"
  "pps (set_ring p rb K) = (pps K)(p := (pps K p)\<lparr>ring := rb\<rparr>)"
  by (simp_all add: set_ring_def)

lemma pipes_good: "good idle K \<Longrightarrow> good idle (set_ring p rb K)" "good idle K \<Longrightarrow> good idle (K\<lparr>indicated := l\<rparr>)"
  by (auto simp: good_def can_run_def live_def set_ring_def intro!: kernel_ok_cong [of K])

lemma pipe_wait_blocks:
  assumes "good idle K" "cur K = Some t" "t \<noteq> idle" "list_stat q = Thread_suspend"
  shows "\<exists>K'. pipe_wait q K = Some (Blocked C_driver, K') \<and> good idle K' \<and> th K' = (th K)(t := (th K t)\<lparr>t_stat := Thread_suspend\<rparr>)
    \<and> links K' q = links K q @ [t] \<and> (\<forall>r. r \<noteq> q \<longrightarrow> (\<forall>p. r \<noteq> Ready p) \<longrightarrow> links K' r = links K r)
    \<and> kernel.more K' = kernel.more K \<and> irq_nest K' = irq_nest K"
proof -
  have s: "rt_ipc_list_suspend q t RT_IPC_FLAG_FIFO K = link_last q t (snd (rt_thread_suspend t K))"
    by (simp add: rt_ipc_list_suspend_def Let_def)
  have w: "pipe_wait q K = Option.bind (wait_timer t 0 (rt_ipc_list_suspend q t RT_IPC_FLAG_FIFO K)) (block C_driver)"
    using assms(2) by (simp add: pipe_wait_def s wait_timer_def)
  show ?thesis using suspend_block [OF assms(1-4), of 0 RT_IPC_FLAG_FIFO C_driver] by (auto simp: w)
qed

text \<open>Waking a waiting reader: its data are counted first when somebody wants to know.\<close>

lemma resume_reader_ok:
  assumes "good idle K" "links K (Waiting (Pip p)) \<noteq> [] \<Longrightarrow> pipe_flag (pps K p) AND RT_PIPE_FLAG_BLOCK_RD \<noteq> 0"
  shows "\<exists>K'. rt_pipe_resume_reader p K = Some K' \<and> good idle K' \<and> pps K' = pps K \<and> irq_nest K' = irq_nest K
    \<and> links K' (Waiting (Pip p)) = tl (links K (Waiting (Pip p))) \<and> (\<forall>t ts. links K (Waiting (Pip p)) = t # ts \<longrightarrow> t_stat (th K' t) = Thread_ready)"
proof -
  define K1 where "K1 = (if pipe_indicate (pps K p) then K\<lparr>indicated := indicated K @ [(p, rt_ringbuffer_data_len (ring (pps K p)))]\<rparr> else K)"
  have g: "good idle K1" using assms(1) pipes_good(2) by (simp add: K1_def)
  have f: "links K1 = links K" "pps K1 = pps K" "irq_nest K1 = irq_nest K" by (simp_all add: K1_def)
  obtain K2 where k: "wake_first (Waiting (Pip p)) K1 = Some K2" "good idle K2" "links K2 (Waiting (Pip p)) = tl (links K1 (Waiting (Pip p)))"
      "kernel.more K2 = kernel.more K1" "irq_nest K2 = irq_nest K1" "\<forall>t ts. links K1 (Waiting (Pip p)) = t # ts \<longrightarrow> t_stat (th K2 t) = Thread_ready"
    using wake_first_ok [OF g list_stat_wait(1)] by blast
  have "rt_pipe_resume_reader p K = Some K2"
    using k(1) assms(2) f unfolding rt_pipe_resume_reader_def Let_def K1_def [symmetric] by auto
  then show ?thesis using k f pipes_fields [OF k(4)] by auto
qed

lemma resume_writer_ok:
  assumes "good idle K" "links K (Sending p) \<noteq> [] \<Longrightarrow> pipe_flag (pps K p) AND RT_PIPE_FLAG_BLOCK_WR \<noteq> 0"
  shows "\<exists>K'. rt_pipe_resume_writer p K = Some K' \<and> good idle K' \<and> pps K' = pps K \<and> irq_nest K' = irq_nest K
    \<and> links K' (Sending p) = tl (links K (Sending p)) \<and> (\<forall>t ts. links K (Sending p) = t # ts \<longrightarrow> t_stat (th K' t) = Thread_ready)"
proof -
  obtain K2 where k: "wake_first (Sending p) K = Some K2" "good idle K2" "links K2 (Sending p) = tl (links K (Sending p))"
      "kernel.more K2 = kernel.more K" "irq_nest K2 = irq_nest K" "\<forall>t ts. links K (Sending p) = t # ts \<longrightarrow> t_stat (th K2 t) = Thread_ready"
    using wake_first_ok [OF assms(1) list_stat_wait(2)] by blast
  then show ?thesis using assms(2) pipes_fields [OF k(4)] by (auto simp: rt_pipe_resume_writer_def)
qed

definition pipe_flags_block :: "u8 \<Rightarrow> bool" where
  "pipe_flags_block f = (f AND RT_PIPE_FLAG_BLOCK_RD \<noteq> 0 \<and> f AND RT_PIPE_FLAG_BLOCK_WR \<noteq> 0 \<and> f AND RT_PIPE_FLAG_FORCE_WR = 0)"

text \<open>Writing to a pipe with room and reading from one with data.\<close>

lemma pipe_write_appends:
  assumes "good idle K" "irq_nest K = 0" "rb_holds (ring (pps K p)) d" "pipe_flags_block (pipe_flag (pps K p))" "length d < buffer_size (ring (pps K p))" "b \<noteq> []"
  shows "\<exists>K'. rt_pipe_write p b K = Some (Done (min (length b) (buffer_size (ring (pps K p)) - length d)), K') \<and> good idle K' \<and> irq_nest K' = 0
    \<and> rb_holds (ring (pps K' p)) (d @ take (buffer_size (ring (pps K p)) - length d) b) \<and> pipe_flag (pps K' p) = pipe_flag (pps K p)
    \<and> buffer_size (ring (pps K' p)) = buffer_size (ring (pps K p))
    \<and> (\<forall>t ts. links K (Waiting (Pip p)) = t # ts \<longrightarrow> t_stat (th K' t) = Thread_ready)"
proof -
  define n where "n = min (length b) (buffer_size (ring (pps K p)) - length d)"
  obtain rb where r: "rt_ringbuffer_put b (length b) (ring (pps K p)) = Some (n, rb)" "rb_holds rb (d @ take (buffer_size (ring (pps K p)) - length d) b)"
      "buffer_size rb = buffer_size (ring (pps K p))"
    using rb_put_law [OF assms(3), of b] by (auto simp: rb_put_def n_def)
  have n: "n \<noteq> 0" using assms(5,6) by (simp add: n_def)
  have g: "good idle (set_ring p rb K)" by (rule pipes_good) (rule assms(1))
  have fl: "pipe_flag (pps (set_ring p rb K) p) AND RT_PIPE_FLAG_BLOCK_RD \<noteq> 0" using assms(4) by (simp add: pipe_flags_block_def)
  obtain K2 where "rt_pipe_resume_reader p (set_ring p rb K) = Some K2" "good idle K2" "pps K2 = pps (set_ring p rb K)" "irq_nest K2 = irq_nest K"
      "\<forall>t ts. links K (Waiting (Pip p)) = t # ts \<longrightarrow> t_stat (th K2 t) = Thread_ready"
    using resume_reader_ok [OF g fl] by auto
  then show ?thesis unfolding n_def [symmetric] using r n assms(2,4) by (auto simp: rt_pipe_write_def pipe_flags_block_def Let_def)
qed

lemma pipe_read_takes:
  assumes "good idle K" "irq_nest K = 0" "rb_holds (ring (pps K p)) d" "pipe_flags_block (pipe_flag (pps K p))" "d \<noteq> []" "0 < n"
  shows "\<exists>K'. rt_pipe_read p n K = Some (Done (take n d), K') \<and> good idle K' \<and> irq_nest K' = 0 \<and> rb_holds (ring (pps K' p)) (drop n d)
    \<and> pipe_flag (pps K' p) = pipe_flag (pps K p) \<and> buffer_size (ring (pps K' p)) = buffer_size (ring (pps K p))
    \<and> (\<forall>t ts. links K (Sending p) = t # ts \<longrightarrow> t_stat (th K' t) = Thread_ready)"
proof -
  obtain rb where r: "rt_ringbuffer_get n (ring (pps K p)) = (take n d, rb)" "rb_holds rb (drop n d)" "buffer_size rb = buffer_size (ring (pps K p))"
    using rb_get_law [OF assms(3), of n] by auto
  have ne: "take n d \<noteq> []" using assms(5,6) by simp
  have g: "good idle (set_ring p rb K)" by (rule pipes_good) (rule assms(1))
  have fl: "pipe_flag (pps (set_ring p rb K) p) AND RT_PIPE_FLAG_BLOCK_WR \<noteq> 0" using assms(4) by (simp add: pipe_flags_block_def)
  obtain K2 where "rt_pipe_resume_writer p (set_ring p rb K) = Some K2" "good idle K2" "pps K2 = pps (set_ring p rb K)" "irq_nest K2 = irq_nest K"
      "\<forall>t ts. links K (Sending p) = t # ts \<longrightarrow> t_stat (th K2 t) = Thread_ready"
    using resume_writer_ok [OF g fl] by auto
  then show ?thesis using r ne assms(2,4) by (auto simp: rt_pipe_read_def pipe_flags_block_def Let_def)
qed

text \<open>C28: A thread that reads from an empty pipe waits; when another thread writes, it is ready again, and the rest of its read gives it
  what was written, from the beginning.\<close>

theorem pipe_reader_gets_written_bytes:
  assumes "good idle K" "cur K = Some t" "t \<noteq> idle" "irq_nest K = 0" "rb_holds (ring (pps K p)) []" "pipe_flags_block (pipe_flag (pps K p))"
    and "links K (Waiting (Pip p)) = []" "b \<noteq> []" "0 < n"
  shows "\<exists>K1 K2 K3. rt_pipe_read p n K = Some (Blocked C_driver, K1)
    \<and> rt_pipe_write p b K1 = Some (Done (min (length b) (buffer_size (ring (pps K p)))), K2) \<and> t_stat (th K2 t) = Thread_ready
    \<and> rt_pipe_read p n K2 = Some (Done (take n (take (buffer_size (ring (pps K p))) b)), K3)
    \<and> rb_holds (ring (pps K3 p)) (drop n (take (buffer_size (ring (pps K p))) b))"
proof -
  let ?B = "buffer_size (ring (pps K p))"
  have B: "0 < ?B" using assms(5) by (simp add: rb_holds_def Let_def)
  obtain rb where r: "rt_ringbuffer_get n (ring (pps K p)) = ([], rb)" "rb_holds rb []" "buffer_size rb = ?B"
    using rb_get_law [OF assms(5), of n] by auto
  have g: "good idle (set_ring p rb K)" by (rule pipes_good) (rule assms(1))
  obtain K1 where k1: "pipe_wait (Waiting (Pip p)) (set_ring p rb K) = Some (Blocked C_driver :: bytes outcome, K1)" "good idle K1" "links K1 (Waiting (Pip p)) = [t]"
      "kernel.more K1 = kernel.more (set_ring p rb K)" "irq_nest K1 = 0"
    using pipe_wait_blocks [OF g _ assms(3) list_stat_wait(1), of "Pip p"] assms(2,4,7) by auto
  note m = pipes_fields [OF k1(4)]
  have rd: "rt_pipe_read p n K = Some (Blocked C_driver, K1)"
    using r(1) k1(1) assms(4,6) by (auto simp: rt_pipe_read_def pipe_flags_block_def Let_def)
  have h1: "rb_holds (ring (pps K1 p)) []" "pipe_flags_block (pipe_flag (pps K1 p))" "buffer_size (ring (pps K1 p)) = ?B"
    using r assms(6) by (simp_all add: m)
  obtain K2 where k2: "rt_pipe_write p b K1 = Some (Done (min (length b) ?B), K2)" "good idle K2" "irq_nest K2 = 0" "rb_holds (ring (pps K2 p)) (take ?B b)"
      "pipe_flag (pps K2 p) = pipe_flag (pps K1 p)" "t_stat (th K2 t) = Thread_ready"
    using pipe_write_appends [OF k1(2,5) h1(1,2) _ assms(8)] B h1(3) k1(3) by auto
  have "take ?B b \<noteq> []" using B assms(8) by simp
  then obtain K3 where "rt_pipe_read p n K2 = Some (Done (take n (take ?B b)), K3)" "rb_holds (ring (pps K3 p)) (drop n (take ?B b))"
    using pipe_read_takes [OF k2(2,3,4) _ _ assms(9)] h1(2) k2(5) by auto
  then show ?thesis using rd k2(1,6) by blast
qed

text \<open>A read of nothing from a pipe that has data waits as if the pipe were empty.\<close>

lemma empty_read_waits:
  assumes "good idle K" "cur K = Some t" "t \<noteq> idle" "irq_nest K = 0" "rb_holds (ring (pps K p)) d" "pipe_flags_block (pipe_flag (pps K p))"
  shows "\<exists>K'. rt_pipe_read p 0 K = Some (Blocked C_driver, K') \<and> t_stat (th K' t) = Thread_suspend"
proof -
  obtain rb where r: "rt_ringbuffer_get 0 (ring (pps K p)) = ([], rb)" using rb_get_law [OF assms(5), of 0] by auto
  have g: "good idle (set_ring p rb K)" by (rule pipes_good) (rule assms(1))
  show ?thesis using pipe_wait_blocks [OF g _ assms(3) list_stat_wait(1), of "Pip p"] assms(2,4,6) r
    by (auto simp: rt_pipe_read_def pipe_flags_block_def Let_def)
qed

subsection \<open>Instances\<close>

text \<open>The idle thread 0, the running thread 1 and a thread 2 that waits for a semaphore.\<close>

definition demo_driver_group :: u32 where
  "demo_driver_group = push_bit 31 1 OR push_bit 10 1"

definition demo_driver :: "'k \<Rightarrow> 'k kernel_scheme" where
  "demo_driver x = \<lparr>th = (\<lambda>t. demo_thread (if t \<le> 1 then Thread_ready else if t = 2 then Thread_suspend else Thread_init) (if t = 0 then 31 else 10)),
     links = (\<lambda>q. if q = Ready 31 then [0] else if q = Ready 10 then [1] else if q = Waiting (Sem 0) then [2] else []),
     ready_group = demo_driver_group, cur = Some 1, cur_prio = 10, lock_nest = 0, irq_nest = 0, k_tick = 0,
     tm = (\<lambda>_. \<lparr>tm_init = 0, tm_timeout = 0, tm_active = False, tm_periodic = False\<rparr>), timer_list = [], \<dots> = x\<rparr>"

lemma demo_driver_bits: "bit demo_driver_group p = (p = 31 \<or> p = 10)"
  unfolding demo_driver_group_def by (simp only: bit_or_iff mask_bit [of 31 p] mask_bit [of 10 p])

lemma demo_driver_good: "good 0 (demo_driver x)"
proof -
  have "kernel_ok (demo_driver x)"
    unfolding kernel_ok_def lists_ok_def ready_ok_def prios_ok_def prio_ok_def timers_ok_def
    by (auto simp: demo_driver_def demo_thread_def list_stat_def demo_driver_bits)
  then show ?thesis by (simp add: good_def can_run_def live_def demo_driver_def demo_thread_def)
qed

definition demo_devipc :: devipc where
  "demo_devipc = demo_driver (devipc.fields (\<lambda>_. False)
     (\<lambda>q. \<lparr>dq_size = 4, dq_lwm = 2, waiting_lwm = False, get_index = (if q = 0 then 1 else 65534), put_index = 2,
       dq_queue = [(10, 1), (11, 1), (12, 1), (13, 1)], evt_notify = False\<rparr>) [])"

lemma demo_devipc_good: "good 0 demo_devipc"
  unfolding demo_devipc_def by (rule demo_driver_good)

lemma demo_devipc_dq: "dq_inv (dqs demo_devipc 0)" "dq_inv (dqs demo_devipc 1)"
  by (auto simp: demo_devipc_def demo_driver_def devipc.defs dq_inv_def dq_count_def intro!: exI [of _ 2])

lemmas demo_devipc_fields = demo_devipc_def demo_driver_def devipc.defs

theorem completion_reaches_waiter_witness:
  "(\<exists>K1 K2 K3. rt_completion_wait 5 100 demo_devipc = Some (Blocked C_driver, K1) \<and> rt_completion_done 5 K1 = Some K2 \<and> good 0 K2
      \<and> t_stat (th K2 1) = Thread_ready \<and> rt_completion_wait_rest 1 5 K2 = (RT_EOK, K3) \<and> \<not> cpl_flag K3 5)
    \<and> (\<exists>K1 K2. rt_completion_done 5 demo_devipc = Some K1 \<and> rt_completion_wait 5 100 K1 = Some (Done RT_EOK, K2) \<and> \<not> cpl_flag K2 5)"
  by (rule completion_reaches_waiter [OF demo_devipc_good]) (simp_all add: demo_devipc_fields)

theorem late_completion_is_lost_witness:
  "\<exists>K1 K2 K3 K4. rt_completion_wait 5 100 demo_devipc = Some (Blocked C_driver, K1) \<and> rt_thread_timeout 1 (timer_remove (Thread_timer 1) K1) = Some K2
    \<and> rt_completion_done 5 K2 = Some K3 \<and> rt_completion_wait_rest 1 5 K3 = (- RT_ETIMEOUT, K4) \<and> rt_completion_wait 5 0 K4 = Some (Done (- RT_ETIMEOUT), K4)"
  by (rule late_completion_is_lost [OF demo_devipc_good]) (simp_all add: demo_devipc_fields)


theorem full_data_queue_overwritten_witness:
  "\<exists>K1 K2. rt_data_queue_push 1 (7, 8) 0 demo_devipc = Some (Done RT_EOK, K1) \<and> rt_data_queue_pop 1 0 K1 = Some (Done (RT_EOK, Some (7, 8)), K2)"
  by (rule full_data_queue_overwritten [OF demo_devipc_dq(2)]) (simp_all add: demo_devipc_fields dq_count_def)

definition demo_workqs :: workqs where
  "demo_workqs = demo_driver (workqs.fields (\<lambda>_. []) (\<lambda>_. 2))"

lemma demo_workqs_good: "good 0 demo_workqs"
  unfolding demo_workqs_def by (rule demo_driver_good)

theorem work_is_done_in_order_witness:
  "\<exists>K1 K2. submit_all 0 [4, 9, 5] demo_workqs = Some K1 \<and> t_stat (th K1 (work_thread demo_workqs 0)) = Thread_ready
    \<and> work_rounds 0 (length [4 :: nat, 9, 5]) K1 = Some ([4, 9, 5], K2) \<and> work_list K2 0 = []"
  by (rule work_is_done_in_order [OF demo_workqs_good]) (simp_all add: demo_workqs_def demo_driver_def demo_thread_def workqs.defs)

theorem submitted_work_ends_wait_witness:
  "\<exists>K'. rt_workqueue_dowork 0 4 demo_workqs = Some (RT_EOK, K') \<and> t_stat (th K' (work_thread demo_workqs 0)) = Thread_ready
    \<and> work_thread demo_workqs 0 \<notin> set (links K' (Waiting (Sem 0)))
    \<and> (\<forall>X :: os. th X = th K' \<longrightarrow> rt_sem_take_rest (work_thread demo_workqs 0) X = (RT_EOK, X))"
  by (rule submitted_work_ends_wait [OF demo_workqs_good]) (simp_all add: demo_workqs_def demo_driver_def demo_thread_def workqs.defs RT_EOK_def)

definition demo_pipes :: pipes where
  "demo_pipes = demo_driver (pipes.fields (\<lambda>_. \<lparr>ring = \<lparr>buffer_ptr = replicate 8 0, read_mirror = False, read_index = 0, write_mirror = False, write_index = 0,
     buffer_size = 8\<rparr>, pipe_flag = 3, pipe_indicate = False\<rparr>) [])"

lemma demo_pipes_good: "good 0 demo_pipes"
  unfolding demo_pipes_def by (rule demo_driver_good)

theorem pipe_reader_gets_written_bytes_witness:
  "\<exists>K1 K2 K3. rt_pipe_read 6 2 demo_pipes = Some (Blocked C_driver, K1)
    \<and> rt_pipe_write 6 [1, 2, 3] K1 = Some (Done (min (length [1, 2, 3 :: u8]) (buffer_size (ring (pps demo_pipes 6)))), K2) \<and> t_stat (th K2 1) = Thread_ready
    \<and> rt_pipe_read 6 2 K2 = Some (Done (take 2 (take (buffer_size (ring (pps demo_pipes 6))) [1, 2, 3])), K3)
    \<and> rb_holds (ring (pps K3 6)) (drop 2 (take (buffer_size (ring (pps demo_pipes 6))) [1, 2, 3]))"
  by (rule pipe_reader_gets_written_bytes [OF demo_pipes_good])
    (simp_all add: demo_pipes_def demo_driver_def pipes.defs rb_holds_def window_def pipe_flags_block_def
      RT_PIPE_FLAG_BLOCK_RD_def RT_PIPE_FLAG_BLOCK_WR_def RT_PIPE_FLAG_FORCE_WR_def)

end
