(* ===== verification/SerialProps.thy ===== *)
theory SerialProps imports Serial DeviceIpcProps begin

text \<open>The properties of the serial device: what its receive buffer holds, how a write that has to wait goes on, and what a DMA
  transfer of the buffer's whole size does to it.\<close>

subsection \<open>The receive buffer\<close>

text \<open>A buffer of \<open>n\<close> bytes holds at most \<open>n - 1\<close>.\<close>

definition fifo_holds :: "u16 \<Rightarrow> rx_fifo \<Rightarrow> bytes \<Rightarrow> bool" where
  "fifo_holds n F d = (let b = fifo_buffer F; p = unat (fifo_put F); g = unat (fifo_get F) in
     1 < unat n \<and> length b = unat n \<and> p < unat n \<and> g < unat n
     \<and> (if g \<le> p then d = window g (p - g) b else d = drop g b @ take p b))"

lemma fifo_length: "fifo_holds n F d \<Longrightarrow> length d < unat n"
  by (auto simp: fifo_holds_def Let_def split: if_splits)

text \<open>The step of an index.\<close>

lemma index_step:
  assumes "unat i < unat (n :: u16)"
  shows "unat (if i + 1 \<ge> n then 0 else i + 1) = (if unat i + 1 = unat n then 0 else unat i + 1)"
proof -
  have "unat (i + 1) = unat i + 1" using assms unsigned_less [of n, where ?'a = nat] by (simp add: unat_word_ariths)
  then show ?thesis using assms by (auto simp: word_le_nat_alt)
qed

lemma fifo_take_empty: "fifo_holds n F [] \<Longrightarrow> fifo_take n F = Some (None, F)"
  by (auto simp: fifo_holds_def fifo_take_def window_def word_unat_eq_iff Let_def split: if_splits)

lemma fifo_take_first:
  assumes "fifo_holds n F (c # d)"
  shows "\<exists>F'. fifo_take n F = Some (Some c, F') \<and> fifo_holds n F' d"
proof -
  let ?b = "fifo_buffer F" and ?p = "unat (fifo_put F)" and ?g = "unat (fifo_get F)"
  have h: "1 < unat n" "length ?b = unat n" "?p < unat n" "?g < unat n" using assms by (simp_all add: fifo_holds_def Let_def)
  have ne: "fifo_get F \<noteq> fifo_put F" using assms by (auto simp: fifo_holds_def Let_def)
  let ?F = "F\<lparr>fifo_get := (if fifo_get F + 1 \<ge> n then 0 else fifo_get F + 1)\<rparr>"
  have g: "unat (fifo_get ?F) = (if ?g + 1 = unat n then 0 else ?g + 1)" using index_step [OF h(4)] by simp
  have d: "drop ?g ?b = ?b ! ?g # drop (Suc ?g) ?b" using h by (simp add: Cons_nth_drop_Suc)
  have np: "?g \<noteq> ?p" using ne by (simp add: word_unat_eq_iff)
  have "c = ?b ! ?g \<and> fifo_holds n ?F d"
  proof (cases "?g \<le> ?p")
    case True
    then have l: "?g < ?p" using np by simp
    then have "c # d = take (?p - ?g) (?b ! ?g # drop (Suc ?g) ?b)" using assms d by (simp add: fifo_holds_def window_def Let_def)
    moreover have "take (?p - ?g) (?b ! ?g # drop (Suc ?g) ?b) = ?b ! ?g # window (Suc ?g) (?p - Suc ?g) ?b"
      using l by (simp add: take_Cons' window_def)
    ultimately show ?thesis using l h g by (auto simp: fifo_holds_def Let_def)
  next
    case False
    then have "c # d = (?b ! ?g # drop (Suc ?g) ?b) @ take ?p ?b" using assms d by (simp add: fifo_holds_def Let_def)
    then show ?thesis using False h g by (auto simp: fifo_holds_def window_def Let_def)
  qed
  then show ?thesis using ne h by (simp add: fifo_take_def flip: not_less)
qed

text \<open>When the buffer is full the oldest byte makes room.\<close>

definition keep_newest :: "nat \<Rightarrow> 'a list \<Rightarrow> 'a list" where
  "keep_newest n xs = drop (length xs - n) xs"

lemma take_upd_last: "i < length b \<Longrightarrow> take (Suc i) (b[i := c]) = take i b @ [c]"
  by (simp add: take_Suc_conv_app_nth)

lemma window_upd_last: "g \<le> p \<Longrightarrow> p < length b \<Longrightarrow> window g (Suc p - g) (b[p := c]) = window g (p - g) b @ [c]"
proof -
  assume a: "g \<le> p" "p < length b"
  have "window g (Suc p - g) (b[p := c]) = drop g (take (Suc p) (b[p := c]))" by (simp add: window_def drop_take)
  also have "\<dots> = drop g (take p b @ [c])" using a by (simp add: take_upd_last)
  finally show ?thesis using a by (simp add: window_def drop_take)
qed

lemma drop_upd_before: "i < k \<Longrightarrow> drop k (b[i := c]) = drop k b"
  by (simp add: drop_update_cancel)

text \<open>The state right after the byte is stored, before the oldest is given up.\<close>

lemma fifo_add_law:
  assumes "fifo_holds n F d"
  shows "\<exists>F'. fifo_add n c F = Some F' \<and> fifo_holds n F' (keep_newest (unat n - 1) (d @ [c]))"
proof -
  let ?b = "fifo_buffer F" and ?p = "unat (fifo_put F)" and ?g = "unat (fifo_get F)"
  let ?B = "?b[?p := c]"
  have h: "1 < unat n" "length ?b = unat n" "?p < unat n" "?g < unat n" using assms by (simp_all add: fifo_holds_def Let_def)
  define p1 where "p1 = (if fifo_put F + 1 \<ge> n then 0 else fifo_put F + 1)"
  define g1 where "g1 = (if fifo_get F + 1 \<ge> n then 0 else fifo_get F + 1)"
  have p1: "unat p1 = (if ?p + 1 = unat n then 0 else ?p + 1)" unfolding p1_def by (rule index_step [OF h(3)])
  have g1: "unat g1 = (if ?g + 1 = unat n then 0 else ?g + 1)" unfolding g1_def by (rule index_step [OF h(4)])
  define F1 where "F1 = F\<lparr>fifo_buffer := ?B, fifo_put := p1\<rparr>"
  have a: "fifo_add n c F = Some (if p1 = fifo_get F then F1\<lparr>fifo_get := g1\<rparr> else F1)"
    using h by (simp add: fifo_add_def Let_def F1_def p1_def g1_def)
  have e: "(p1 = fifo_get F) = (unat p1 = ?g)" by (simp add: word_unat_eq_iff)
  have ld: "length d = (if ?g \<le> ?p then ?p - ?g else unat n - ?g + ?p)" using assms h by (auto simp: fifo_holds_def Let_def)
  show ?thesis
  proof (cases "unat p1 = ?g")
    case False
    have l: "length d < unat n - 1" using False ld p1 h by (auto split: if_splits)
    have "fifo_holds n F1 (d @ [c])"
    proof (cases "?g \<le> ?p")
      case True
      have d: "d = window ?g (?p - ?g) ?b" using assms True by (simp add: fifo_holds_def Let_def)
      show ?thesis
      proof (cases "?p + 1 = unat n")
        case True
        then have "drop ?g ?B = d @ [c]"
          using \<open>?g \<le> ?p\<close> window_upd_last [of ?g ?p ?b c] h d by (simp add: window_def)
        then show ?thesis using True p1 h False \<open>?g \<le> ?p\<close> by (simp add: fifo_holds_def F1_def Let_def)
      next
        case np: False
        then show ?thesis using \<open>?g \<le> ?p\<close> window_upd_last [of ?g ?p ?b c] h d p1 by (simp add: fifo_holds_def F1_def Let_def Suc_diff_le)
      qed
    next
      case gp: False
      then have "d = drop ?g ?b @ take ?p ?b" "?p + 1 \<noteq> unat n" using assms h by (auto simp: fifo_holds_def Let_def)
      moreover have "?g \<noteq> ?p + 1" using False p1 calculation(2) by auto
      ultimately show ?thesis using gp h p1 by (simp add: fifo_holds_def F1_def Let_def drop_upd_before take_upd_last)
    qed
    moreover have "keep_newest (unat n - 1) (d @ [c]) = d @ [c]" using l by (simp add: keep_newest_def)
    ultimately show ?thesis using a e False by simp
  next
    case True
    have l: "length d = unat n - 1" using True ld p1 h by (auto split: if_splits)
    then have kn: "keep_newest (unat n - 1) (d @ [c]) = tl d @ [c]" using h by (cases d) (simp_all add: keep_newest_def)
    let ?F = "F1\<lparr>fifo_get := g1\<rparr>"
    have "fifo_holds n ?F (tl d @ [c])"
    proof (cases "?g \<le> ?p")
      case le: True
      then have g0: "?g = 0" "?p + 1 = unat n" using True p1 by (auto split: if_splits)
      have d: "d = window 0 ?p ?b" using assms le g0 by (simp add: fifo_holds_def Let_def)
      have "drop 1 ?B = tl d @ [c]"
      proof -
        have "?B = d @ [c]" using window_upd_last [of 0 ?p ?b c] h g0 d by (simp add: window_def)
        moreover have "d \<noteq> []" using l h by auto
        ultimately show ?thesis by (cases d) simp_all
      qed
      then show ?thesis using g0 g1 p1 h by (simp add: fifo_holds_def F1_def Let_def)
    next
      case gt: False
      then have g: "?g = ?p + 1" "?p + 1 \<noteq> unat n" using True p1 h by (auto split: if_splits)
      have d: "d = drop ?g ?b @ take ?p ?b" using assms gt by (simp add: fifo_holds_def Let_def)
      have "tl (drop ?g ?b) = drop (Suc ?g) ?b" by (simp add: drop_Suc tl_drop)
      moreover have "drop ?g ?b \<noteq> []" using h by simp
      ultimately have td: "tl d = drop (Suc ?g) ?b @ take ?p ?b" by (simp add: d)
      show ?thesis
      proof (cases "?g + 1 = unat n")
        case True
        then show ?thesis using g g1 p1 h td by (simp add: fifo_holds_def F1_def window_def Let_def take_upd_last)
      next
        case False
        then show ?thesis using g g1 p1 h td by (simp add: fifo_holds_def F1_def Let_def take_upd_last drop_upd_before)
      qed
    qed
    then show ?thesis using a e True kn by simp
  qed
qed

lemma keep_newest_snoc: "0 < n \<Longrightarrow> keep_newest n (keep_newest n xs @ ys) = keep_newest n (xs @ ys)"
proof (cases "length xs \<le> n")
  case False
  have "drop (length xs + length ys - n) (xs @ ys) = drop (length ys) (drop (length xs - n) (xs @ ys))" using False by (simp add: add.commute)
  then show ?thesis using False by (simp add: keep_newest_def)
qed (simp add: keep_newest_def)

text \<open>The port has these bytes and then none.\<close>

fun delivers :: "'c uart_ops \<Rightarrow> bytes \<Rightarrow> 'c \<Rightarrow> 'c \<Rightarrow> bool" where
  "delivers U [] x y = (op_getc U x = (-1, y))"
| "delivers U (b # bs) x y = (case op_getc U x of (ch, x1) \<Rightarrow> ch = uint b \<and> delivers U bs x1 y)"

lemma receive_stores:
  assumes "fifo_holds n F d" "delivers U bs x y"
  shows "\<exists>F'. isr_receive U n F x = Some (F', y) \<and> fifo_holds n F' (keep_newest (unat n - 1) (d @ bs))"
  using assms
proof (induction bs arbitrary: F d x)
  case Nil
  have "keep_newest (unat n - 1) d = d" using fifo_length [OF Nil.prems(1)] by (simp add: keep_newest_def)
  then show ?case using Nil.prems by (simp add: isr_receive.simps)
next
  case (Cons b bs)
  obtain x1 where g: "op_getc U x = (uint b, x1)" "delivers U bs x1 y" using Cons.prems(2) by (auto split: prod.splits)
  have u: "uint b \<noteq> -1" using uint_ge_0 [of b] by linarith
  obtain F1 where f: "fifo_add n b F = Some F1" "fifo_holds n F1 (keep_newest (unat n - 1) (d @ [b]))" using fifo_add_law [OF Cons.prems(1)] by blast
  have n: "0 < unat n - 1" using Cons.prems(1) by (simp add: fifo_holds_def Let_def)
  have "isr_receive U n F x = isr_receive U n F1 x1" using g(1) u f(1) by (subst isr_receive.simps) simp
  then show ?case using Cons.IH [OF f(2) g(2)] keep_newest_snoc [OF n, of "d @ [b]" bs] by simp
qed

lemma int_rx_takes:
  assumes "fifo_holds n F d"
  shows "\<exists>F'. serial_int_rx n k F = Some (take k d, F') \<and> fifo_holds n F' (drop k d)"
  using assms
proof (induction k arbitrary: F d)
  case (Suc k)
  show ?case
  proof (cases d)
    case Nil
    then show ?thesis using fifo_take_empty Suc.prems by auto
  next
    case (Cons c ds)
    obtain F1 where f: "fifo_take n F = Some (Some c, F1)" "fifo_holds n F1 ds" using fifo_take_first Suc.prems Cons by blast
    show ?thesis using Suc.IH [OF f(2)] f(1) Cons by auto
  qed
qed simp

text \<open>C29: What the port received is kept for the reader in order: after an interrupt the buffer holds what was in it and the new bytes, of
  these the newest that fit, the callback is told their number, and a read returns them from the oldest on.\<close>

theorem serial_receive_keeps_newest:
  assumes "ser_rx S = Rx_fifo F" "fifo_holds (bufsz (sconfig S)) F d" "delivers U bs (port S) y" "dev_open_flag S AND RT_DEVICE_FLAG_INT_RX \<noteq> 0" "len \<noteq> 0"
  shows "\<exists>S1 S2 F1 F2. rt_hw_serial_isr U junk 1 S = Some S1 \<and> rt_serial_read U addr len S1
      = Some (of_nat (length (take (unat len) (keep_newest (unat (bufsz (sconfig S)) - 1) (d @ bs)))),
          take (unat len) (keep_newest (unat (bufsz (sconfig S)) - 1) (d @ bs)), S2)
    \<and> callbacks S1 = callbacks S @ (if rx_indicate_set S then [Rx_indicate (rt_dma_calc_recved_len (bufsz (sconfig S)) F1)] else [])
    \<and> ser_rx S1 = Rx_fifo F1 \<and> fifo_holds (bufsz (sconfig S)) F1 (keep_newest (unat (bufsz (sconfig S)) - 1) (d @ bs))
    \<and> ser_rx S2 = Rx_fifo F2 \<and> fifo_holds (bufsz (sconfig S)) F2 (drop (unat len) (keep_newest (unat (bufsz (sconfig S)) - 1) (d @ bs)))"
proof -
  let ?n = "bufsz (sconfig S)"
  let ?d = "keep_newest (unat ?n - 1) (d @ bs)"
  obtain F1 where f1: "isr_receive U ?n F (port S) = Some (F1, y)" "fifo_holds ?n F1 ?d" using receive_stores [OF assms(2,3)] by blast
  obtain F2 where f2: "serial_int_rx ?n (unat len) F1 = Some (take (unat len) ?d, F2)" "fifo_holds ?n F2 (drop (unat len) ?d)" using int_rx_takes [OF f1(2)] by blast
  define S1 where "S1 = call_back (rx_indicate_set S) (Rx_indicate (rt_dma_calc_recved_len ?n F1)) (S\<lparr>ser_rx := Rx_fifo F1, port := y\<rparr>)"
  have s1: "rt_hw_serial_isr U junk 1 S = Some S1" using f1(1) assms(1) by (simp add: rt_hw_serial_isr_def isr_rx_ind_def S1_def Let_def)
  have k: "ser_rx S1 = Rx_fifo F1" "sconfig S1 = sconfig S" "dev_open_flag S1 = dev_open_flag S"
      "callbacks S1 = callbacks S @ (if rx_indicate_set S then [Rx_indicate (rt_dma_calc_recved_len ?n F1)] else [])"
    by (simp_all add: S1_def call_back_def)
  have "rt_serial_read U addr len S1 = Some (of_nat (length (take (unat len) ?d)), take (unat len) ?d, S1\<lparr>ser_rx := Rx_fifo F2\<rparr>)"
    using f2(1) k assms(4,5) by (simp add: rt_serial_read_def)
  then show ?thesis using s1 k(1,4) f1(2) f2(2) by (intro exI conjI) (assumption | simp)+
qed

subsection \<open>Receiving by DMA\<close>

text \<open>The length travels in the upper bits of the event.\<close>

lemma event_parts:
  assumes "v < (2 :: u32) ^ 23"
  shows "(3 OR push_bit 8 v) AND 0xff = (3 :: u32)" "signed_drop_bit 8 ((3 OR push_bit 8 v) AND NOT 0xff) = v"
proof -
  have c: "(0xff :: u32) = mask 8" "(3 :: u32) = mask 2" by (simp_all add: mask_eq_exp_minus_1)
  have "unat v < 2 ^ 23" using assms by (simp add: word_less_nat_alt)
  then have "unat (take_bit 23 v) = unat v" by (simp add: unsigned_take_bit_eq take_bit_nat_eq_self)
  then have "take_bit 23 v = v" by (simp only: word_unat_eq_iff)
  then have b: "bit v i \<Longrightarrow> i < 23" for i by (metis bit_take_bit_iff)
  show "(3 OR push_bit 8 v) AND 0xff = (3 :: u32)" unfolding c
    by (rule bit_word_eqI) (auto simp: bit_and_iff bit_or_iff bit_push_bit_iff bit_mask_iff)
  show "signed_drop_bit 8 ((3 OR push_bit 8 v) AND NOT 0xff) = v" unfolding c
    by (rule bit_word_eqI) (auto simp: bit_signed_drop_bit_iff bit_and_iff bit_or_iff bit_not_iff bit_push_bit_iff bit_mask_iff dest: b)
qed

text \<open>C30: When a DMA transfer fills the whole receive buffer without a pause, the write index is set back by the size of the buffer once too
  often and wraps, and the next read copies from outside the buffer.\<close>

theorem full_dma_transfer_breaks_reads:
  assumes "ser_rx S = Rx_fifo F" "bufsz (sconfig S) = n" "unat n \<le> 0x7fff" "unat (fifo_put F) + 1 < unat n" "unat (fifo_get F) \<le> unat (fifo_put F)" "last_recv_len S = 0"
    and "dev_open_flag S AND RT_DEVICE_FLAG_INT_RX = 0" "dev_open_flag S AND RT_DEVICE_FLAG_DMA_RX \<noteq> 0" "len \<noteq> 0"
  shows "\<exists>S'. dma_rx_done_isr U junk 0 S = Some S' \<and> rt_serial_read U addr len S' = None"
proof -
  define p where "p = unat (fifo_put F)"
  have n: "unat n \<le> 32767" and pn: "p + 1 < unat n" using assms(3,4) by (simp_all add: p_def)
  let ?v = "ucast n :: u32"
  have v: "unat ?v = unat n" using n by (simp add: unsigned_ucast_eq take_bit_nat_eq_self)
  have v23: "?v < 2 ^ 23" using n v by (simp add: word_less_nat_alt)
  note ev = event_parts [OF v23]
  have r: "dma_received 0 S = (?v, S\<lparr>last_recv_len := ?v\<rparr>)" using assms(2,6) by (simp add: dma_received_def Let_def)
  have cv: "(ucast ?v :: u16) = n" using n by (simp add: word_unat_eq_iff unsigned_ucast_eq unsigned_take_bit_eq take_bit_nat_eq_self)
  have pp: "unat (fifo_put F + n) = p + unat n" using n pn by (simp add: p_def unat_word_ariths)
  define P where "P = put_back n ?v (fifo_put F + n)"
  have "P = fifo_put F - n" using pn v by (simp add: P_def put_back_def algebra_simps)
  then have "unat P = (p + (65536 - unat n)) mod 65536" using n pn by (simp add: p_def unat_word_ariths unat_sub_if')
  then have P: "unat P = 65536 + p - unat n" using n pn by simp
  have P1: "unat (P + 1) = 65537 + p - unat n" using n pn P by (simp add: unat_word_ariths)
  define F1 where "F1 = F\<lparr>fifo_put := P, fifo_get := P + 1\<rparr>"
  have u: "rt_dma_recv_update_put_index n ?v F = F1"
    using assms(5) pp P n pn by (simp add: rt_dma_recv_update_put_index_def Let_def F1_def word_le_nat_alt p_def cv flip: P_def)
  define S1 where "S1 = call_back (rx_indicate_set S) (Rx_indicate (rt_dma_calc_recved_len n F1)) (S\<lparr>last_recv_len := ?v, ser_rx := Rx_fifo F1\<rparr>)"
  have n0: "n \<noteq> 0" using pn by auto
  have e: "rt_hw_serial_isr U junk (3 OR push_bit 8 ?v) T = isr_rx_dmadone ?v T" for T
    unfolding rt_hw_serial_isr_def Let_def ev by simp
  have d: "dma_rx_done_isr U junk 0 S = Some S1"
    using assms(1,2) n0 by (simp add: dma_rx_done_isr_def r e isr_rx_dmadone_def u Let_def flip: S1_def)
  have f: "ser_rx S1 = Rx_fifo F1" "sconfig S1 = sconfig S" "dev_open_flag S1 = dev_open_flag S" by (simp_all add: S1_def call_back_def)
  have "unat n < unat (fifo_get F1)" using P1 n by (simp add: F1_def)
  then have "fifo_copy n l F1 = None" for l by (auto simp: fifo_copy_def Let_def)
  then have "rt_serial_read U addr len S1 = None"
    using f assms(2,7,8,9) n0 by (simp add: rt_serial_read_def serial_dma_rx_def Let_def)
  then show ?thesis using d by blast
qed

subsection \<open>A write that waits\<close>

text \<open>The port takes all of these bytes.\<close>

fun accepts :: "'c uart_ops \<Rightarrow> bytes \<Rightarrow> 'c \<Rightarrow> 'c \<Rightarrow> bool" where
  "accepts U [] x y = (x = y)"
| "accepts U (b # bs) x y = (case op_putc U b x of (r, x1) \<Rightarrow> r \<noteq> -1 \<and> accepts U bs x1 y)"

lemma int_tx_sends: "accepts U bs (port S) y \<Longrightarrow> serial_int_tx U c bs S = Some ([], S\<lparr>port := y\<rparr>)"
proof (induction bs arbitrary: S)
  case Nil
  then show ?case by (simp add: serial_int_tx.simps)
next
  case (Cons b bs)
  obtain r x1 where g: "op_putc U b (port S) = (r, x1)" "r \<noteq> -1" "accepts U bs x1 y" using Cons.prems by (auto split: prod.splits)
  have "serial_int_tx U c (b # bs) S = serial_int_tx U c bs (S\<lparr>port := x1\<rparr>)"
    using g(1,2) by (subst serial_int_tx.simps) simp
  then show ?case using Cons.IH [of "S\<lparr>port := x1\<rparr>"] g(3) by simp
qed

lemma serial_fields:
  assumes "kernel.more S' = kernel.more (S :: 'c serial)"
  shows "cpl_flag S' = cpl_flag S" "ser_tx S' = ser_tx S" "port S' = port S"
  using assms by (cases S; cases S'; simp)+

lemma port_good: "good idle S \<Longrightarrow> good idle (S\<lparr>port := x\<rparr>)"
  by (auto simp: good_def can_run_def live_def intro!: kernel_ok_cong [of S])

text \<open>C31: A write by interrupts that finds the port busy waits; the interrupt that says the port is done makes its thread ready again, and when
  the port then takes the bytes the rest of the write sends the bytes that were left, the refused one first.\<close>

theorem refused_write_goes_on:
  assumes "good idle S" "cur S = Some t" "t \<noteq> idle" "irq_nest S = 0" "links S (Waiting (Cpl c)) = []" "\<not> cpl_flag S c" "ser_tx S = Tx_fifo c"
    and "dev_open_flag S AND RT_DEVICE_FLAG_INT_TX \<noteq> 0" "op_putc U b (port S) = (-1, x)" "accepts U (b # bs) x y"
  shows "\<exists>S1 S2 S3. rt_serial_write U addr (b # bs) S = Some (Blocked C_driver, b # bs, S1) \<and> rt_hw_serial_isr U junk 2 S1 = Some S2
    \<and> t_stat (th S2 t) = Thread_ready \<and> serial_int_tx_rest U t c (b # bs) S2 = Some ([], S3) \<and> port S3 = y \<and> \<not> cpl_flag S3 c"
proof -
  let ?X = "S\<lparr>port := x\<rparr>"
  obtain S1 where s1: "wait_on (Waiting (Cpl c)) RT_WAITING_FOREVER ?X = Some (Blocked C_driver :: int outcome, S1)" "good idle S1"
      "th S1 = (th ?X)(t := (th ?X t)\<lparr>t_error := RT_EOK, t_stat := Thread_suspend\<rparr>)" "links S1 (Waiting (Cpl c)) = [t]" "kernel.more S1 = kernel.more ?X"
    using wait_on_blocks [OF port_good [OF assms(1)] _ assms(3) _ list_stat_wait(1), of x RT_WAITING_FOREVER "Cpl c"] assms(2,4,5)
    by (auto simp: RT_WAITING_FOREVER_def)
  note m1 = serial_fields [OF s1(5)]
  have w: "rt_completion_wait c RT_WAITING_FOREVER ?X = Some (Blocked C_driver, S1)"
    using assms(5,6) s1(1) by (simp add: rt_completion_wait_def RT_WAITING_FOREVER_def)
  have tx: "serial_int_tx U c (b # bs) S = Some (b # bs, S1)" using assms(9) w by (subst serial_int_tx.simps) simp
  have wr: "rt_serial_write U addr (b # bs) S = Some (Blocked C_driver, b # bs, S1)" using assms(7,8) tx by (simp add: rt_serial_write_def)
  have g: "good idle (set_cpl c True S1)" by (rule devipc_good) (rule s1(2))
  have l: "links (set_cpl c True S1) (Waiting (Cpl c)) = [t]" using s1(4) by simp
  obtain S2 where s2: "wake_first (Waiting (Cpl c)) (set_cpl c True S1) = Some S2" "th S2 = (th S1)(t := (th S1 t)\<lparr>t_stat := Thread_ready\<rparr>)"
      "kernel.more S2 = kernel.more (set_cpl c True S1)"
    using wake_first_wakes [OF g list_stat_wait(1) l] by auto
  have isr: "rt_hw_serial_isr U junk 2 S1 = Some S2"
    using assms(6,7) s2(1) m1 by (simp add: rt_hw_serial_isr_def isr_tx_done_def rt_completion_done_def Let_def)
  have p2: "port S2 = x" using serial_fields(3) [OF s2(3)] m1(3) by (simp add: set_cpl_def)
  let ?R = "set_cpl c False S2"
  have "port ?R = x" using p2 by (simp add: set_cpl_def)
  then have "serial_int_tx_rest U t c (b # bs) S2 = Some ([], ?R\<lparr>port := y\<rparr>)"
    using int_tx_sends [of U "b # bs" ?R y c] assms(10) by (simp add: serial_int_tx_rest_def rt_completion_wait_rest_def)
  then show ?thesis using wr isr s2(2) by auto
qed

subsection \<open>Instances\<close>

text \<open>A port with the bytes that arrived and the number of bytes it refuses before it takes one.\<close>

definition demo_uart :: "(bytes \<times> nat) uart_ops" where
  "demo_uart = \<lparr>op_configure = None, op_control = (\<lambda>c a x. (0, x)),
     op_putc = (\<lambda>b x. if snd x = 0 then (1, x) else (-1, (fst x, snd x - 1))),
     op_getc = (\<lambda>x. case fst x of [] \<Rightarrow> (-1, x) | b # bs \<Rightarrow> (uint b, (bs, snd x))), op_dma_transmit = None\<rparr>"

definition demo_serial :: "u16 \<Rightarrow> serial_rx \<Rightarrow> serial_tx \<Rightarrow> (bytes \<times> nat) serial" where
  "demo_serial f rx tx = devipc.extend demo_devipc (serial.fields f f 1 False False []
     \<lparr>baud_rate = 115200, data_bits = 8, stop_bits = 0, parity = 0, bit_order = 0, invert = 0, bufsz = 4\<rparr> rx tx ([7, 8, 9], 1) 0)"

lemma demo_serial_good: "good 0 (demo_serial f rx tx)"
proof -
  have "demo_serial f rx tx = demo_driver (kernel.more (demo_serial f rx tx))"
    by (simp add: demo_serial_def demo_devipc_fields serial.defs)
  then show ?thesis by (metis demo_driver_good)
qed

definition demo_fifo :: rx_fifo where
  "demo_fifo = \<lparr>fifo_buffer = [5, 0, 0, 0], fifo_put = 1, fifo_get = 0\<rparr>"

lemmas demo_serial_fields = demo_serial_def demo_devipc_fields serial.defs demo_fifo_def

theorem serial_receive_keeps_newest_witness:
  "\<exists>S1 S2. rt_hw_serial_isr demo_uart 0 1 (demo_serial RT_DEVICE_FLAG_INT_RX (Rx_fifo demo_fifo) Tx_none) = Some S1
    \<and> rt_serial_read demo_uart 0 2 S1 = Some (2, [7, 8], S2)"
proof -
  let ?S = "demo_serial RT_DEVICE_FLAG_INT_RX (Rx_fifo demo_fifo) Tx_none"
  have h: "ser_rx ?S = Rx_fifo demo_fifo" "bufsz (sconfig ?S) = 4" "fifo_holds (bufsz (sconfig ?S)) demo_fifo [5]"
      "delivers demo_uart [7, 8, 9] (port ?S) ([], 1)" "dev_open_flag ?S AND RT_DEVICE_FLAG_INT_RX \<noteq> 0"
    by (simp_all add: demo_serial_fields demo_uart_def fifo_holds_def window_def RT_DEVICE_FLAG_INT_RX_def)
  show ?thesis using serial_receive_keeps_newest [OF h(1,3,4,5), of 2 0 0] h(2) by (auto simp: keep_newest_def)
qed

theorem full_dma_transfer_breaks_reads_witness:
  "\<exists>S'. dma_rx_done_isr demo_uart 0 0 (demo_serial RT_DEVICE_FLAG_DMA_RX (Rx_fifo demo_fifo) Tx_none) = Some S' \<and> rt_serial_read demo_uart 0 1 S' = None"
  by (rule full_dma_transfer_breaks_reads [where F = demo_fifo and n = 4])
    (simp_all add: demo_serial_fields RT_DEVICE_FLAG_INT_RX_def RT_DEVICE_FLAG_DMA_RX_def)

theorem refused_write_goes_on_witness:
  "\<exists>S1 S2 S3. rt_serial_write demo_uart 0 [65, 66] (demo_serial RT_DEVICE_FLAG_INT_TX Rx_none (Tx_fifo 5)) = Some (Blocked C_driver, [65, 66], S1)
    \<and> rt_hw_serial_isr demo_uart 0 2 S1 = Some S2 \<and> t_stat (th S2 1) = Thread_ready
    \<and> serial_int_tx_rest demo_uart 1 5 [65, 66] S2 = Some ([], S3) \<and> port S3 = ([7, 8, 9], 0) \<and> \<not> cpl_flag S3 5"
  by (rule refused_write_goes_on [OF demo_serial_good, where x = "([7, 8, 9], 0)"])
    (simp_all add: demo_serial_fields demo_uart_def RT_DEVICE_FLAG_INT_TX_def)

end
