(* ===== verification/MemPool.thy ===== *)
theory MemPool imports Objects MemHeap begin

text \<open>mempool.c: pools of blocks of one size.  A pool is the number of its control block; the word in front of a block holds the
  address of the next free block, 0 at the end, or the number of the pool when the block is in use.  Addresses are naturals:
  a region does not wrap.  A call that waits is split as in the kernel; the mempool record and its memory are added to
  the state of the kernel.  \<open>None\<close> is a failed assertion or an access outside the region or to an empty list.\<close>

record rt_mempool =
  start_address :: nat
  mp_total_size :: u32
  mp_block_size :: u32
  block_list :: nat
  block_total_count :: nat
  block_free_count :: nat
  suspend_thread_count :: nat

record pools = kernel +
  mps :: "nat \<Rightarrow> rt_mempool"
  word_at :: "nat \<Rightarrow> nat"

definition set_mp :: "nat \<Rightarrow> (rt_mempool \<Rightarrow> rt_mempool) \<Rightarrow> pools \<Rightarrow> pools" where
  "set_mp m f K = K\<lparr>mps := (mps K)(m := f (mps K m))\<rparr>"

definition set_word :: "nat \<Rightarrow> nat \<Rightarrow> pools \<Rightarrow> pools" where
  "set_word a v K = K\<lparr>word_at := (word_at K)(a := v)\<rparr>"

subsection \<open>Setting up\<close>

text \<open>Chaining the blocks from the \<open>i\<close>th on.\<close>

fun link_blocks :: "nat \<Rightarrow> nat \<Rightarrow> nat \<Rightarrow> nat \<Rightarrow> (nat \<Rightarrow> nat) \<Rightarrow> nat \<Rightarrow> nat" where
  "link_blocks b stride 0 i W = W"
| "link_blocks b stride (Suc n) i W = link_blocks b stride n (i + 1) (W(b + i * stride := b + (i + 1) * stride))"

text \<open>With no block at all the end of the list is written in front of the region.\<close>

definition init_blocks :: "nat \<Rightarrow> nat \<Rightarrow> nat \<Rightarrow> pools \<Rightarrow> pools option" where
  "init_blocks b stride n K = (if n = 0 then None
     else Some (K\<lparr>word_at := (link_blocks b stride n 0 (word_at K))(b + (n - 1) * stride := 0)\<rparr>))"

definition rt_mp_init :: "nat \<Rightarrow> nat \<Rightarrow> u32 \<Rightarrow> u32 \<Rightarrow> pools \<Rightarrow> (int \<times> pools) option" where
  "rt_mp_init m start sz block_size K = (let
       total = RT_ALIGN_DOWN sz; bs = RT_ALIGN block_size; n = unat (total div (bs + 4))
     in map_option (\<lambda>K1. (RT_EOK, set_mp m (\<lambda>P. \<lparr>start_address = start, mp_total_size = total, mp_block_size = bs,
         block_list = start, block_total_count = n, block_free_count = n, suspend_thread_count = 0\<rparr>)
         (K1\<lparr>links := (links K1)(Waiting (Mpl m) := [])\<rparr>))) (init_blocks start (unat (bs + 4)) n K))"

text \<open>Creating a pool, with what the allocator gives: the control block, and the memory for a number of bytes.\<close>

definition rt_mp_create :: "nat option \<Rightarrow> (u32 \<Rightarrow> nat option) \<Rightarrow> u32 \<Rightarrow> u32 \<Rightarrow> pools \<Rightarrow> (nat option \<times> pools) option" where
  "rt_mp_create obj malloc block_count block_size K = (if irq_nest K \<noteq> 0 then None
     else case obj of None \<Rightarrow> Some (None, K)
     | Some m \<Rightarrow> (let bs = RT_ALIGN block_size; total = (bs + 4) * block_count; n = unat block_count in
         case malloc total of None \<Rightarrow> Some (None, K)
         | Some start \<Rightarrow> map_option (\<lambda>K1. (Some m, set_mp m (\<lambda>P. \<lparr>start_address = start, mp_total_size = total, mp_block_size = bs,
             block_list = start, block_total_count = n, block_free_count = n, suspend_thread_count = 0\<rparr>)
             (K1\<lparr>links := (links K1)(Waiting (Mpl m) := [])\<rparr>))) (init_blocks start (unat (bs + 4)) n K)))"

text \<open>Waking all waiting threads with an error.\<close>

definition mp_wake :: "int \<Rightarrow> nat \<Rightarrow> nat \<Rightarrow> pools \<Rightarrow> pools" where
  "mp_wake e m t K = set_mp m (\<lambda>P. P\<lparr>suspend_thread_count := suspend_thread_count P - 1\<rparr>)
     (snd (rt_thread_resume t (set_th t (\<lambda>x. x\<lparr>t_error := e\<rparr>) K)))"

partial_function (option) mp_wake_all :: "nat \<Rightarrow> pools \<Rightarrow> pools option" where
  "mp_wake_all m K = (case links K (Waiting (Mpl m)) of [] \<Rightarrow> Some K | t # _ \<Rightarrow> mp_wake_all m (mp_wake (- RT_ERROR) m t K))"

definition rt_mp_detach :: "nat \<Rightarrow> pools \<Rightarrow> (int \<times> pools) option" where
  "rt_mp_detach m K = map_option (Pair RT_EOK) (mp_wake_all m K)"

text \<open>The address that is given back to the heap is part of the result.\<close>

definition rt_mp_delete :: "nat \<Rightarrow> pools \<Rightarrow> (int \<times> nat \<times> pools) option" where
  "rt_mp_delete m K = (if irq_nest K \<noteq> 0 then None
     else map_option (\<lambda>K1. (RT_EOK, start_address (mps K1 m), K1)) (mp_wake_all m K))"

subsection \<open>Taking a block\<close>

text \<open>\<open>time\<close> is a signed word; the loop goes on in \<open>rt_mp_alloc_rest\<close> when the thread runs again.\<close>

definition mp_take :: "nat \<Rightarrow> pools \<Rightarrow> (nat option outcome \<times> pools) option" where
  "mp_take m K = (let b = block_list (mps K m) in
     if b = 0 then None
     else Some (Done (Some (b + 4)), set_word b m (set_mp m (\<lambda>P. P\<lparr>block_free_count := block_free_count P - 1,
       block_list := word_at K b\<rparr>) K)))"

definition rt_mp_alloc :: "nat \<Rightarrow> 32 word \<Rightarrow> pools \<Rightarrow> (nat option outcome \<times> pools) option" where
  "rt_mp_alloc m time K = (if block_free_count (mps K m) \<noteq> 0 then mp_take m K
     else if time = 0 then Some (Done None, rt_set_errno (- RT_ETIMEOUT) K)
     else if \<not> in_thread K then None
     else let t = the (cur K);
              K1 = snd (rt_thread_suspend t (set_th t (\<lambda>x. x\<lparr>t_error := RT_EOK\<rparr>) K));
              K2 = set_mp m (\<lambda>P. P\<lparr>suspend_thread_count := suspend_thread_count P + 1\<rparr>) (link_first (Waiting (Mpl m)) t K1)
          in Option.bind (wait_timer t time K2) (block (C_mp m time (k_tick K))))"

definition rt_mp_alloc_rest :: "nat \<Rightarrow> nat \<Rightarrow> 32 word \<Rightarrow> u32 \<Rightarrow> pools \<Rightarrow> (nat option outcome \<times> pools) option" where
  "rt_mp_alloc_rest t m time before K = (if t_error (th K t) \<noteq> RT_EOK then Some (Done None, K)
     else rt_mp_alloc m (time_left time before (k_tick K)) K)"

subsection \<open>Giving a block back\<close>

definition rt_mp_free :: "nat \<Rightarrow> pools \<Rightarrow> pools option" where
  "rt_mp_free blk K = (let a = blk - 4; m = word_at K a;
       K1 = set_mp m (\<lambda>P. P\<lparr>block_free_count := block_free_count P + 1, block_list := a\<rparr>) (set_word a (block_list (mps K m)) K)
     in if suspend_thread_count (mps K1 m) > 0
        then (case links K1 (Waiting (Mpl m)) of [] \<Rightarrow> None | t # _ \<Rightarrow> rt_schedule (mp_wake RT_EOK m t K1))
        else Some K1)"

end
