(* ===== verification/MemPoolProps.thy ===== *)
theory MemPoolProps imports MemPool MemHeapOk begin

text \<open>A pool hands out blocks (locale \<open>block_pool\<close>, interpreted on the calls that do not wait); what a waiting thread gets, and
  what is left behind when its time runs out.\<close>

subsection \<open>Handing out blocks\<close>

datatype pool_op = Grab | Give nat

text \<open>A client takes blocks and gives back the ones it holds, by their place in the list of them.\<close>

fun pool_run :: "('s \<Rightarrow> (nat option \<times> 's) option) \<Rightarrow> (nat \<Rightarrow> 's \<Rightarrow> 's option) \<Rightarrow> pool_op list \<Rightarrow> nat list \<Rightarrow> 's \<Rightarrow> (nat list \<times> 's) option" where
  "pool_run grab give [] hs s = Some (hs, s)"
| "pool_run grab give (Grab # xs) hs s = (case grab s of None \<Rightarrow> None
     | Some (None, s1) \<Rightarrow> pool_run grab give xs hs s1
     | Some (Some b, s1) \<Rightarrow> pool_run grab give xs (b # hs) s1)"
| "pool_run grab give (Give i # xs) hs s = (if i < length hs
     then (case give (hs ! i) s of None \<Rightarrow> None | Some s1 \<Rightarrow> pool_run grab give xs (take i hs @ drop (Suc i) hs) s1)
     else pool_run grab give xs hs s)"

lemma take_drop_without: "distinct xs \<Longrightarrow> i < length xs \<Longrightarrow> set (take i xs @ drop (Suc i) xs) = set xs - {xs ! i} \<and> distinct (take i xs @ drop (Suc i) xs)"
proof -
  assume a: "distinct xs" "i < length xs"
  have e: "xs = take i xs @ xs ! i # drop (Suc i) xs" using a(2) by (rule id_take_nth_drop)
  then have "distinct (take i xs @ xs ! i # drop (Suc i) xs)" using a(1) by simp
  moreover have "set xs = set (take i xs @ xs ! i # drop (Suc i) xs)" using e by simp
  ultimately show ?thesis by auto
qed

locale block_pool =
  fixes holds :: "'s \<Rightarrow> nat set \<Rightarrow> bool"
    and blocks :: "nat set"
    and grab :: "'s \<Rightarrow> (nat option \<times> 's) option"
    and give :: "nat \<Rightarrow> 's \<Rightarrow> 's option"
  assumes grab_law: "holds s U \<Longrightarrow> (if U = blocks then \<exists>s'. grab s = Some (None, s') \<and> holds s' U
      else \<exists>b s'. grab s = Some (Some b, s') \<and> b \<in> blocks - U \<and> holds s' (insert b U))"
    and give_law: "holds s U \<Longrightarrow> b \<in> U \<Longrightarrow> \<exists>s'. give b s = Some s' \<and> holds s' (U - {b})"
    and inside: "holds s U \<Longrightarrow> U \<subseteq> blocks"
begin

lemma run_distinct:
  assumes "holds s (set hs)" "distinct hs"
  shows "\<exists>hs' s'. pool_run grab give xs hs s = Some (hs', s') \<and> distinct hs' \<and> set hs' \<subseteq> blocks \<and> holds s' (set hs')"
  using assms
proof (induction xs arbitrary: hs s)
  case Nil
  then show ?case using inside by simp
next
  case (Cons x xs)
  show ?case
  proof (cases x)
    case Grab
    show ?thesis
    proof (cases "set hs = blocks")
      case True
      then obtain s' where "grab s = Some (None, s')" "holds s' (set hs)" using grab_law [OF Cons.prems(1)] by auto
      then show ?thesis using Cons.IH [OF _ Cons.prems(2)] Grab by simp
    next
      case False
      then obtain b s' where b: "grab s = Some (Some b, s')" "b \<in> blocks - set hs" "holds s' (set (b # hs))"
        using grab_law [OF Cons.prems(1)] by auto
      have "distinct (b # hs)" using b(2) Cons.prems(2) by simp
      then show ?thesis using Cons.IH [OF b(3)] b(1) Grab by simp
    qed
  next
    case (Give i)
    show ?thesis
    proof (cases "i < length hs")
      case True
      note w = take_drop_without [OF Cons.prems(2) True]
      obtain s' where s': "give (hs ! i) s = Some s'" "holds s' (set hs - {hs ! i})"
        using give_law [OF Cons.prems(1)] nth_mem [OF True] by blast
      then show ?thesis using Cons.IH [of s' "take i hs @ drop (Suc i) hs"] w True Give by simp
    next
      case False
      then show ?thesis using Cons.IH [OF Cons.prems] Give by simp
    qed
  qed
qed

end

subsection \<open>The free list\<close>

fun pool_chain :: "(nat \<Rightarrow> nat) \<Rightarrow> nat \<Rightarrow> nat list \<Rightarrow> bool" where
  "pool_chain W a [] = (a = 0)"
| "pool_chain W a (b # bs) = (a = b \<and> b \<noteq> 0 \<and> pool_chain W (W b) bs)"

lemma pool_chain_upd: "b \<notin> set fl \<Longrightarrow> pool_chain (W(b := v)) a fl = pool_chain W a fl"
  by (induction fl arbitrary: a) auto

text \<open>The blocks \<open>B\<close> of the pool are the used ones \<open>U\<close> and those in the free list; nobody waits, and the memory
  outside the block headers is the one of the start, \<open>W0\<close>.\<close>

definition mp_ok :: "nat \<Rightarrow> nat set \<Rightarrow> (nat \<Rightarrow> nat) \<Rightarrow> pools \<Rightarrow> nat set \<Rightarrow> bool" where
  "mp_ok m B W0 K U = (let P = mps K m in \<exists>fl. pool_chain (word_at K) (block_list P) fl \<and> distinct fl
     \<and> (\<lambda>a. a + 4) ` set fl \<inter> U = {} \<and> (\<lambda>a. a + 4) ` set fl \<union> U = B \<and> length fl = block_free_count P
     \<and> (\<forall>b \<in> U. 4 \<le> b \<and> word_at K (b - 4) = m) \<and> 0 \<notin> set fl \<and> (\<forall>b \<in> U. b \<noteq> 4) \<and> suspend_thread_count P = 0 \<and> (\<forall>a. a + 4 \<notin> B \<longrightarrow> word_at K a = W0 a))"

definition mp_grab :: "nat \<Rightarrow> pools \<Rightarrow> (nat option \<times> pools) option" where
  "mp_grab m K = (case rt_mp_alloc m 0 K of Some (Done r, K1) \<Rightarrow> Some (r, K1) | _ \<Rightarrow> None)"

lemma mp_grab_law:
  assumes "mp_ok m B W0 K U"
  shows "if U = B then \<exists>K'. mp_grab m K = Some (None, K') \<and> mp_ok m B W0 K' U
    else \<exists>b K'. mp_grab m K = Some (Some b, K') \<and> b \<in> B - U \<and> mp_ok m B W0 K' (insert b U)"
proof -
  obtain fl where fl: "pool_chain (word_at K) (block_list (mps K m)) fl" "distinct fl" "(\<lambda>a. a + 4) ` set fl \<inter> U = {}" "(\<lambda>a. a + 4) ` set fl \<union> U = B"
      "length fl = block_free_count (mps K m)" "\<forall>b \<in> U. 4 \<le> b \<and> word_at K (b - 4) = m" "0 \<notin> set fl" "\<forall>b \<in> U. b \<noteq> 4" "suspend_thread_count (mps K m) = 0"
      "\<forall>a. a + 4 \<notin> B \<longrightarrow> word_at K a = W0 a"
    using assms by (auto simp: mp_ok_def Let_def)
  show ?thesis
  proof (cases fl)
    case Nil
    then have "U = B" "block_free_count (mps K m) = 0" using fl by auto
    moreover have "mp_ok m B W0 (rt_set_errno e K) U" for e
      using assms by (auto simp: mp_ok_def Let_def rt_set_errno_def set_th_def split: option.splits)
    ultimately show ?thesis by (simp add: mp_grab_def rt_mp_alloc_def)
  next
    case (Cons a as)
    have a: "block_list (mps K m) = a" "a \<noteq> 0" "pool_chain (word_at K) (word_at K a) as" "a \<notin> set as" using fl(1,2) Cons by auto
    let ?K' = "set_word a m (set_mp m (\<lambda>P. P\<lparr>block_free_count := block_free_count P - 1, block_list := word_at K a\<rparr>) K)"
    have c: "block_free_count (mps K m) = Suc (length as)" using fl(5) Cons by simp
    have g: "mp_grab m K = Some (Some (a + 4), ?K')"
      using a(1,2) c by (simp add: mp_grab_def rt_mp_alloc_def mp_take_def Let_def)
    have n: "a + 4 \<in> B - U" "U \<noteq> B" using fl(3,4) Cons by auto
    have B: "(\<lambda>a. a + 4) ` set as \<union> insert (a + 4) U = B" "(\<lambda>a. a + 4) ` set as \<inter> insert (a + 4) U = {}"
      using fl(3,4) a(4) Cons by auto
    have "pool_chain ((word_at K)(a := m)) (word_at K a) as" using a(3,4) by (simp add: pool_chain_upd)
    then have "mp_ok m B W0 ?K' (insert (a + 4) U)"
      using a(2) c fl(2,4,6,7,8,9,10) Cons B by (auto simp: mp_ok_def Let_def set_word_def set_mp_def intro!: exI [of _ as])
    then show ?thesis using g n by auto
  qed
qed

lemma mp_give_law:
  assumes "mp_ok m B W0 K U" "b \<in> U"
  shows "\<exists>K'. rt_mp_free b K = Some K' \<and> mp_ok m B W0 K' (U - {b})"
proof -
  obtain fl where fl: "pool_chain (word_at K) (block_list (mps K m)) fl" "distinct fl" "(\<lambda>a. a + 4) ` set fl \<inter> U = {}" "(\<lambda>a. a + 4) ` set fl \<union> U = B"
      "length fl = block_free_count (mps K m)" "\<forall>b \<in> U. 4 \<le> b \<and> word_at K (b - 4) = m" "0 \<notin> set fl" "\<forall>b \<in> U. b \<noteq> 4" "suspend_thread_count (mps K m) = 0"
      "\<forall>a. a + 4 \<notin> B \<longrightarrow> word_at K a = W0 a"
    using assms(1) by (auto simp: mp_ok_def Let_def)
  define a where "a = b - 4"
  have b: "b = a + 4" "word_at K a = m" "a \<noteq> 0" using fl(6,8) assms(2) by (auto simp: a_def)
  have na: "a \<notin> set fl" using fl(3) assms(2) b(1) by auto
  let ?K' = "set_mp m (\<lambda>P. P\<lparr>block_free_count := block_free_count P + 1, block_list := a\<rparr>) (set_word a (block_list (mps K m)) K)"
  have f: "rt_mp_free b K = Some ?K'"
    using fl(9) b by (simp add: rt_mp_free_def Let_def set_mp_def set_word_def)
  have "pool_chain ((word_at K)(a := block_list (mps K m))) a (a # fl)" using fl(1) na b(3) by (simp add: pool_chain_upd)
  moreover have "\<forall>c \<in> U - {b}. c - 4 \<noteq> a" using fl(6) b(1) by (auto simp: le_iff_add)
  ultimately have "mp_ok m B W0 ?K' (U - {b})"
    unfolding mp_ok_def Let_def using fl na b assms(2)
    by (intro exI [of _ "a # fl"]) (auto simp: set_word_def set_mp_def)
  then show ?thesis using f by blast
qed

interpretation mp: block_pool "mp_ok m B W0" B "mp_grab m" rt_mp_free
proof unfold_locales
  show "\<exists>s'. rt_mp_free b s = Some s' \<and> mp_ok m B W0 s' (U - {b})" if "mp_ok m B W0 s U" "b \<in> U" for s U b
    using that by (rule mp_give_law)
  show "U \<subseteq> B" if "mp_ok m B W0 s U" for s U
    using that by (auto simp: mp_ok_def Let_def)
qed (blast dest: mp_grab_law)

subsection \<open>Setting up\<close>

lemma link_blocks_at: "0 < stride \<Longrightarrow> link_blocks b stride n i W (b + j * stride) = (if i \<le> j \<and> j < i + n then b + (j + 1) * stride else W (b + j * stride))"
proof (induction n arbitrary: i W)
  case (Suc n)
  show ?case using Suc.prems by (simp add: Suc.IH)
qed simp

lemma linked_chain:
  assumes "0 < stride" "0 < b" "k < n"
  shows "pool_chain ((link_blocks b stride n 0 W)(b + (n - 1) * stride := 0)) (b + k * stride) (map (\<lambda>i. b + i * stride) [k..<n])"
  using assms(3)
proof (induction "n - Suc k" arbitrary: k)
  case 0
  then have "k = n - 1" "[k..<n] = [k]" by (auto simp: upt_conv_Cons)
  then show ?case using assms(2) by simp
next
  case (Suc d)
  then have k: "Suc k < n" "d = n - Suc (Suc k)" by simp_all
  have "b + k * stride \<noteq> b + (n - 1) * stride" using k(1) assms(1) by simp
  then have "((link_blocks b stride n 0 W)(b + (n - 1) * stride := 0)) (b + k * stride) = b + Suc k * stride"
    using k(1) assms(1) by (simp add: link_blocks_at)
  moreover have "[k..<n] = k # [Suc k..<n]" using k(1) by (simp add: upt_conv_Cons)
  ultimately show ?case using Suc.hyps(1) [OF k(2) k(1)] assms(2) by simp
qed

lemma link_blocks_out: "(\<And>j. j < i + n \<Longrightarrow> a \<noteq> b + j * stride) \<Longrightarrow> link_blocks b stride n i W a = W a"
  by (induction n arbitrary: i W) auto

text \<open>The blocks that fit into \<open>sz\<close> bytes from \<open>start\<close> on: each is a header of four bytes and \<open>bs\<close> bytes rounded up to a
  multiple of four; what the region has beyond a multiple of four is not used.\<close>

definition block_bytes :: "u32 \<Rightarrow> nat" where
  "block_bytes bs = (unat bs + 3) div 4 * 4"

definition region_blocks :: "nat \<Rightarrow> u32 \<Rightarrow> u32 \<Rightarrow> nat set" where
  "region_blocks start sz bs = {start + i * (4 + block_bytes bs) + 4 | i. (i + 1) * (4 + block_bytes bs) \<le> unat sz div 4 * 4}"

lemma init_mp_ok:
  assumes "rt_mp_init m start sz bs K = Some (r, K1)" "0 < start" "unat bs + 3 < 4294967296"
  shows "mp_ok m (region_blocks start sz bs) (word_at K) K1 {}"
proof -
  define n stride where "n = unat (RT_ALIGN_DOWN sz div (RT_ALIGN bs + 4))" and "stride = unat (RT_ALIGN bs + 4)"
  have i: "init_blocks start stride n K \<noteq> None" using assms(1) by (auto simp: rt_mp_init_def Let_def n_def stride_def)
  then have n: "0 < n" by (auto simp: init_blocks_def split: if_splits)
  then have s: "0 < stride" by (auto simp: n_def stride_def unat_gt_0 unat_div intro!: gr0I)
  have "unat (RT_ALIGN bs) + 4 < 4294967296"
  proof (rule ccontr)
    assume c: "\<not> unat (RT_ALIGN bs) + 4 < 4294967296"
    have "unat (RT_ALIGN bs) = (unat bs + 3) div 4 * 4" by (rule unat_align [OF assms(3)])
    then have "unat (RT_ALIGN bs) = 4294967292" using c assms(3) by presburger
    then have "RT_ALIGN bs + 4 = 0" by (simp add: unat_eq_zero [symmetric] unat_word_ariths)
    then show False using s by (simp add: stride_def)
  qed
  then have st: "stride = 4 + block_bytes bs" by (simp add: stride_def unat_word_ariths block_bytes_def unat_align [OF assms(3)])
  have nn: "n = unat sz div 4 * 4 div stride" unfolding n_def unat_div stride_def RT_ALIGN_DOWN_def align_down ..
  have B: "region_blocks start sz bs = (\<lambda>i. start + i * stride + 4) ` {..<n}"
    using s by (auto simp: region_blocks_def nn st [symmetric] less_eq_div_iff_mult_less_eq simp flip: Suc_le_eq intro!: imageI)
  have K1: "K1 = set_mp m (\<lambda>P. \<lparr>start_address = start, mp_total_size = RT_ALIGN_DOWN sz, mp_block_size = RT_ALIGN bs,
         block_list = start, block_total_count = n, block_free_count = n, suspend_thread_count = 0\<rparr>)
         (K\<lparr>word_at := (link_blocks start stride n 0 (word_at K))(start + (n - 1) * stride := 0), links := (links K)(Waiting (Mpl m) := [])\<rparr>)"
    using assms(1) n by (auto simp: rt_mp_init_def Let_def init_blocks_def n_def stride_def)
  have "distinct (map (\<lambda>i. start + i * stride) [0..<n])" using s by (simp add: distinct_map inj_on_def)
  moreover have "(\<lambda>a. a + 4) ` set (map (\<lambda>i. start + i * stride) [0..<n]) = region_blocks start sz bs"
    by (auto simp: B image_image lessThan_atLeast0)
  moreover have "word_at K1 a = word_at K a" if "a + 4 \<notin> region_blocks start sz bs" for a
  proof -
    have o: "a \<noteq> start + j * stride" if "j < 0 + n" for j using that \<open>a + 4 \<notin> _\<close> by (auto simp: B)
    have "a \<noteq> start + (n - 1) * stride" using o [of "n - 1"] n by simp
    then show ?thesis by (simp add: K1 set_mp_def link_blocks_out [OF o])
  qed
  ultimately show ?thesis
    using linked_chain [OF s assms(2) n, of "word_at K"] assms(2) unfolding mp_ok_def Let_def
    by (intro exI [of _ "map (\<lambda>i. start + i * stride) [0..<n]"]) (auto simp: K1 set_mp_def)
qed

lemma region_block_inside: "b \<in> region_blocks start sz bs \<Longrightarrow> start + 4 \<le> b \<and> b + block_bytes bs \<le> start + unat sz"
proof -
  assume "b \<in> region_blocks start sz bs"
  then obtain i where i: "b = start + i * (4 + block_bytes bs) + 4" "(i + 1) * (4 + block_bytes bs) \<le> unat sz div 4 * 4" by (auto simp: region_blocks_def)
  have "unat sz div 4 * 4 \<le> unat sz" by (rule div_times_less_eq_dividend)
  then show ?thesis using i by simp
qed

lemma region_blocks_apart:
  assumes "b \<in> region_blocks start sz bs" "c \<in> region_blocks start sz bs" "b < c"
  shows "b + block_bytes bs + 4 \<le> c"
proof -
  obtain i j where ij: "b = start + i * (4 + block_bytes bs) + 4" "c = start + j * (4 + block_bytes bs) + 4" using assms(1,2) by (auto simp: region_blocks_def)
  have "i < j" using assms(3) by (simp add: ij)
  then have "(i + 1) * (4 + block_bytes bs) \<le> j * (4 + block_bytes bs)" by (intro mult_le_mono1) simp
  then show ?thesis by (simp add: ij)
qed

lemma block_bytes_enough: "unat bs \<le> block_bytes bs"
  unfolding block_bytes_def by presburger

text \<open>C35: A pool that was set up on \<open>sz\<close> bytes from \<open>start\<close> on hands out, whatever its clients take and give back, only
  blocks that fit into these bytes: each block of \<open>bs\<close> bytes lies inside them behind its header, no two overlap, a request
  fails only when every block that fits is out, and no word of memory outside the region is written.  The size of
  a block is one whose rounding does not wrap.\<close>

theorem pool_hands_out_distinct_blocks:
  assumes "rt_mp_init m start sz bs K = Some (r, K1)" "0 < start" "unat bs + 3 < 4294967296"
  shows "\<exists>hs K2. pool_run (mp_grab m) rt_mp_free xs [] K1 = Some (hs, K2) \<and> distinct hs
    \<and> (\<forall>b \<in> set hs. start + 4 \<le> b \<and> b + unat bs \<le> start + unat sz \<and> (\<forall>c \<in> set hs. b < c \<longrightarrow> b + unat bs + 4 \<le> c))
    \<and> (map_option fst (mp_grab m K2) = Some None \<longleftrightarrow> set hs = region_blocks start sz bs)
    \<and> (\<forall>a. a < start \<or> start + unat sz \<le> a \<longrightarrow> word_at K2 a = word_at K a)"
proof -
  let ?B = "region_blocks start sz bs"
  have "mp_ok m ?B (word_at K) K1 (set [])" using init_mp_ok [OF assms] by simp
  then obtain hs K2 where r: "pool_run (mp_grab m) rt_mp_free xs [] K1 = Some (hs, K2)" "distinct hs" "set hs \<subseteq> ?B"
      "mp_ok m ?B (word_at K) K2 (set hs)" using mp.run_distinct [of m ?B "word_at K" K1 "[]" xs] by auto
  have "start + 4 \<le> b \<and> b + unat bs \<le> start + unat sz" if "b \<in> set hs" for b
    using region_block_inside [of b start sz bs] r(3) that block_bytes_enough [of bs] by fastforce
  moreover have "b + unat bs + 4 \<le> c" if "b \<in> set hs" "c \<in> set hs" "b < c" for b c
    using region_blocks_apart [of b start sz bs c] r(3) that block_bytes_enough [of bs] by fastforce
  moreover have "word_at K2 a = word_at K a" if "a < start \<or> start + unat sz \<le> a" for a
  proof -
    have "a + 4 \<notin> ?B" using region_block_inside [of "a + 4" start sz bs] that by auto
    then show ?thesis using r(4) unfolding mp_ok_def Let_def by blast
  qed
  ultimately show ?thesis using r(1,2) mp_grab_law [OF r(4)] by (auto split: if_splits)
qed

subsection \<open>Waiting for a block\<close>

lemma pools_fields:
  assumes "kernel.more K' = kernel.more (K :: pools)"
  shows "mps K' = mps K" "word_at K' = word_at K"
  using assms by (cases K; cases K'; simp)+

lemma set_mp_keeps [simp]:
  "links (set_mp m f K) = links K" "th (set_mp m f K) = th K" "cur (set_mp m f K) = cur K" "irq_nest (set_mp m f K) = irq_nest K"
  "k_tick (set_mp m f K) = k_tick K" "word_at (set_mp m f K) = word_at K" "mps (set_mp m f K) m = f (mps K m)"
  "links (set_word a v K) = links K" "th (set_word a v K) = th K" "mps (set_word a v K) = mps K" "word_at (set_word a v K) = (word_at K)(a := v)"
  by (simp_all add: set_mp_def set_word_def)

lemma set_mp_good: "good idle K \<Longrightarrow> good idle (set_mp m f K)" "good idle K \<Longrightarrow> good idle (set_word a v K)"
  by (auto simp: good_def can_run_def live_def set_mp_def set_word_def intro!: kernel_ok_cong [of K])

lemma set_mp_resume: "set_mp m f (snd (rt_thread_resume t K)) = snd (rt_thread_resume t (set_mp m f K))"
  by (simp add: set_mp_def rt_thread_resume_def rt_timer_stop_def rt_schedule_insert_thread_def Let_def kernel_defs timer_remove_def)

lemma set_mp_suspend: "set_mp m f (rt_ipc_list_suspend q t flag K) = rt_ipc_list_suspend q t flag (set_mp m f K)"
  by (simp add: set_mp_def rt_ipc_list_suspend_def rt_thread_suspend_def rt_timer_stop_def rt_schedule_remove_thread_def Let_def kernel_defs timer_remove_def)

text \<open>C36: When a block comes back to a pool that has none, the first of the waiting threads runs again, and the rest of its call
  gives it this block, if no other thread has taken it by then.\<close>

theorem freed_block_reaches_waiting_thread:
  assumes "good idle K" "links K (Waiting (Mpl m)) = t # ts" "0 < suspend_thread_count (mps K m)" "block_free_count (mps K m) = 0"
    and "4 < b" "word_at K (b - 4) = m"
  shows "\<exists>K1 K2. rt_mp_free b K = Some K1 \<and> good idle K1 \<and> t_stat (th K1 t) = Thread_ready \<and> links K1 (Waiting (Mpl m)) = ts
    \<and> rt_mp_alloc_rest t m time before K1 = Some (Done (Some b), K2) \<and> word_at K2 = (word_at K1)(b - 4 := m)"
proof -
  define F where "F = set_mp m (\<lambda>P. P\<lparr>block_free_count := block_free_count P + 1, block_list := b - 4\<rparr>) (set_word (b - 4) (block_list (mps K m)) K)"
  define W where "W = set_mp m (\<lambda>P. P\<lparr>suspend_thread_count := suspend_thread_count P - 1\<rparr>) (set_th t (\<lambda>x. x\<lparr>t_error := RT_EOK\<rparr>) F)"
  have l: "links W (Waiting (Mpl m)) = t # ts" "links F (Waiting (Mpl m)) = t # ts" using assms(2) by (simp_all add: W_def F_def set_th_def)
  have w: "mp_wake RT_EOK m t F = rt_ipc_list_resume (Waiting (Mpl m)) W" using l by (simp add: mp_wake_def set_mp_resume rt_ipc_list_resume_def W_def)
  have g: "good idle W" unfolding W_def F_def by (intro set_mp_good set_th_good assms(1)) simp_all
  obtain K1 where k: "rt_schedule (rt_ipc_list_resume (Waiting (Mpl m)) W) = Some K1" "good idle K1"
      "th K1 = (th W)(t := (th W t)\<lparr>t_stat := Thread_ready\<rparr>)" "links K1 (Waiting (Mpl m)) = ts" "kernel.more K1 = kernel.more W"
    using resume_schedule [OF g _ l(1)] by auto
  note m = pools_fields [OF k(5)]
  have f: "rt_mp_free b K = Some K1"
    using assms(3,6) k(1) l(2) w by (simp add: rt_mp_free_def Let_def flip: F_def) (simp add: F_def)
  have p: "mps K1 m = (mps K m)\<lparr>block_free_count := 1, block_list := b - 4, suspend_thread_count := suspend_thread_count (mps K m) - 1\<rparr>"
    using assms(4) by (simp add: m(1) W_def F_def set_th_def set_mp_def set_word_def)
  have e: "t_error (th K1 t) = RT_EOK" by (simp add: k(3) W_def set_th_def)
  have "mp_take m K1 = Some (Done (Some b), set_word (b - 4) m (set_mp m (\<lambda>P. P\<lparr>block_free_count := block_free_count P - 1,
       block_list := word_at K1 (b - 4)\<rparr>) K1))"
    using assms(5) by (simp add: mp_take_def p Let_def)
  then have r: "rt_mp_alloc_rest t m time before K1 = Some (Done (Some b), set_word (b - 4) m (set_mp m (\<lambda>P. P\<lparr>block_free_count := block_free_count P - 1,
       block_list := word_at K1 (b - 4)\<rparr>) K1))"
    using e by (simp add: rt_mp_alloc_rest_def rt_mp_alloc_def p)
  then show ?thesis using f k(2,3,4) by (intro exI conjI) (rule f k r | simp)+
qed

text \<open>When the only waiting thread gives up because its time is over, it stays counted: the next block that comes back makes
  the code take a thread from the empty list.\<close>

theorem timed_out_waiter_breaks_free:
  assumes "good idle K" "cur K = Some t" "t \<noteq> idle" "irq_nest K = 0" "links K (Waiting (Mpl m)) = []"
    and "block_free_count (mps K m) = 0" "0 < sint time" "sint time < 2 ^ 31 - 1" "word_at K (b - 4) = m"
  shows "\<exists>K1 K2. rt_mp_alloc m time K = Some (Blocked (C_mp m time (k_tick K)), K1) \<and> rt_thread_timeout t (timer_remove (Thread_timer t) K1) = Some K2
    \<and> rt_mp_alloc_rest t m time (k_tick K) K2 = Some (Done None, K2) \<and> rt_mp_free b K2 = None"
proof -
  define W where "W = set_mp m (\<lambda>P. P\<lparr>suspend_thread_count := suspend_thread_count P + 1\<rparr>) (set_th t (\<lambda>x. x\<lparr>t_error := RT_EOK\<rparr>) K)"
  have g: "good idle W" unfolding W_def by (intro set_mp_good set_th_good assms(1)) simp_all
  have c: "cur W = Some t" using assms(2) by (simp add: W_def set_th_def)
  obtain K1 where k1: "Option.bind (wait_timer t time (rt_ipc_list_suspend (Waiting (Mpl m)) t RT_IPC_FLAG_FIFO W)) (block (C_mp m time (k_tick K))) = Some (Blocked (C_mp m time (k_tick K)) :: nat option outcome, K1)"
      "good idle K1" "th K1 = (th W)(t := (th W t)\<lparr>t_stat := Thread_suspend\<rparr>)" "links K1 (Waiting (Mpl m)) = links W (Waiting (Mpl m)) @ [t]"
      "kernel.more K1 = kernel.more W"
    using suspend_block [OF g c assms(3) _ assms(8), of "Waiting (Mpl m)" RT_IPC_FLAG_FIFO] by auto
  note m1 = pools_fields [OF k1(5)]
  have q: "links K (Waiting (Mpl m)) = []" "links W (Waiting (Mpl m)) = []" using assms(5) by (simp_all add: W_def set_th_def)
  have "rt_ipc_list_suspend (Waiting (Mpl m)) t RT_IPC_FLAG_FIFO W = set_mp m (\<lambda>P. P\<lparr>suspend_thread_count := suspend_thread_count P + 1\<rparr>)
     (link_first (Waiting (Mpl m)) t (snd (rt_thread_suspend t (set_th t (\<lambda>x. x\<lparr>t_error := RT_EOK\<rparr>) K))))"
  proof -
    let ?S = "snd (rt_thread_suspend t (set_th t (\<lambda>x. x\<lparr>t_error := RT_EOK\<rparr>) K))"
    have k: "kernel_ok (set_th t (\<lambda>x. x\<lparr>t_error := RT_EOK\<rparr>) K)" "t_stat (th (set_th t (\<lambda>x. x\<lparr>t_error := RT_EOK\<rparr>) K) t) = Thread_ready"
      using assms(1,2) set_error_ok by (auto simp: good_def can_run_def live_def set_th_def)
    have "links ?S (Waiting (Mpl m)) = []" unfolding suspend_ok(5) [OF k] using q(1) by (simp add: set_th_def)
    then have "rt_ipc_list_suspend (Waiting (Mpl m)) t RT_IPC_FLAG_FIFO (set_th t (\<lambda>x. x\<lparr>t_error := RT_EOK\<rparr>) K) = link_first (Waiting (Mpl m)) t ?S"
      by (simp add: rt_ipc_list_suspend_def Let_def link_first_def link_last_def)
    then show ?thesis unfolding W_def set_mp_suspend [symmetric] by simp
  qed
  moreover have "time \<noteq> 0" using assms(7) by auto
  ultimately have a: "rt_mp_alloc m time K = Some (Blocked (C_mp m time (k_tick K)), K1)"
    using assms(2,4,6,7) k1(1) by (simp add: rt_mp_alloc_def in_thread_def Let_def)
  have R: "good idle (timer_remove (Thread_timer t) K1)" by (rule timer_remove_run [OF k1(2)])
  have s: "t_stat (th (timer_remove (Thread_timer t) K1) t) = Thread_suspend" "Thread_timer t \<notin> set (timer_list (timer_remove (Thread_timer t) K1))"
    by (simp_all add: timer_remove_def k1(3))
  obtain K2 where k2: "rt_thread_timeout t (timer_remove (Thread_timer t) K1) = Some K2" "kernel.more K2 = kernel.more (timer_remove (Thread_timer t) K1)"
      "t_error (th K2 t) = - RT_ETIMEOUT" "links K2 (Waiting (Mpl m)) = removeAll t (links (timer_remove (Thread_timer t) K1) (Waiting (Mpl m)))"
    using timeout_ok [OF goodD(1) [OF R] s] by auto
  have m2: "mps K2 = mps W" "word_at K2 = word_at W" using pools_fields [of K2 "timer_remove (Thread_timer t) K1"] k2(2) m1 by (simp_all add: timer_remove_def)
  have l: "links K2 (Waiting (Mpl m)) = []" using k2(4) k1(4) q(2) by (simp add: timer_remove_def)
  have "rt_mp_free b K2 = None"
    using l assms(9) by (simp add: rt_mp_free_def Let_def m2 W_def set_th_def)
  moreover have "rt_mp_alloc_rest t m time (k_tick K) K2 = Some (Done None, K2)" using k2(3) by (simp add: rt_mp_alloc_rest_def rt_codes)
  ultimately show ?thesis using a k2(1) by blast
qed


subsection \<open>Instances\<close>

definition demo_group :: u32 where
  "demo_group = push_bit 5 1 OR push_bit 31 1"

definition demo_pools :: pools where
  "demo_pools = \<lparr>th = (\<lambda>t. \<lparr>t_stat = (if t \<le> 1 then Thread_ready else if t = 2 then Thread_suspend else Thread_init), current_priority = (if t = 0 then 31 else 5), init_priority = 5,
      number_mask = (if t = 0 then 0x80000000 else 32), t_error = 0, event_set = 0, event_info = 0, init_tick = 10, remaining_tick = 10, t_static = False, t_cleanup = False\<rparr>),
     links = (\<lambda>q. if q = Ready 31 then [0] else if q = Ready 5 then [1] else if q = Waiting (Mpl 7) then [2] else []), ready_group = demo_group, cur = Some 1, cur_prio = 5, lock_nest = 0,
     irq_nest = 0, k_tick = 100, tm = (\<lambda>_. \<lparr>tm_init = 0, tm_timeout = 0, tm_active = False, tm_periodic = False\<rparr>), timer_list = [],
     mps = (\<lambda>m. \<lparr>start_address = 100, mp_total_size = 24, mp_block_size = 8, block_list = 0, block_total_count = 2, block_free_count = 0,
       suspend_thread_count = (if m = 7 then 1 else 0)\<rparr>), word_at = (\<lambda>a. if a = 112 then 8 else 7)\<rparr>"

lemma demo_bits: "bit demo_group p = (p = 5 \<or> p = 31)"
  unfolding demo_group_def by (simp only: bit_or_iff mask_bit [of 5 p] mask_bit [of 31 p])

lemma demo_good: "good 0 demo_pools"
proof -
  have "kernel_ok demo_pools"
    unfolding kernel_ok_def lists_ok_def ready_ok_def prios_ok_def prio_ok_def timers_ok_def
    by (auto simp: demo_pools_def list_stat_def demo_bits)
  then show ?thesis by (simp add: good_def can_run_def live_def demo_pools_def)
qed

theorem pool_hands_out_distinct_blocks_witness:
  "\<exists>hs K2. pool_run (mp_grab 7) rt_mp_free [Grab, Grab, Give 0, Grab, Grab] [] (snd (the (rt_mp_init 7 100 25 6 demo_pools))) = Some (hs, K2) \<and> distinct hs
    \<and> (\<forall>b \<in> set hs. 100 + 4 \<le> b \<and> b + unat (6 :: u32) \<le> 100 + unat (25 :: u32) \<and> (\<forall>c \<in> set hs. b < c \<longrightarrow> b + unat (6 :: u32) + 4 \<le> c))
    \<and> (map_option fst (mp_grab 7 K2) = Some None \<longleftrightarrow> set hs = region_blocks 100 25 6)
    \<and> (\<forall>a. a < 100 \<or> 100 + unat (25 :: u32) \<le> a \<longrightarrow> word_at K2 a = word_at demo_pools a)"
proof -
  have "RT_ALIGN_DOWN 25 div (RT_ALIGN 6 + 4) = 2" by code_simp
  then have "rt_mp_init 7 100 25 6 demo_pools \<noteq> None" by (simp add: rt_mp_init_def init_blocks_def Let_def)
  then obtain r K1 where i: "rt_mp_init 7 100 25 6 demo_pools = Some (r, K1)" by auto
  then have k: "snd (the (rt_mp_init 7 100 25 6 demo_pools)) = K1" by simp
  show ?thesis unfolding k by (rule pool_hands_out_distinct_blocks [OF i]) simp_all
qed

theorem freed_block_reaches_waiting_thread_witness:
  "\<exists>K1 K2. rt_mp_free 104 demo_pools = Some K1 \<and> good 0 K1 \<and> t_stat (th K1 2) = Thread_ready \<and> links K1 (Waiting (Mpl 7)) = []
    \<and> rt_mp_alloc_rest 2 7 50 100 K1 = Some (Done (Some 104), K2) \<and> word_at K2 = (word_at K1)(104 - 4 := 7)"
  by (rule freed_block_reaches_waiting_thread [OF demo_good]) (simp_all add: demo_pools_def)

theorem timed_out_waiter_breaks_free_witness:
  "\<exists>K1 K2. rt_mp_alloc 8 50 demo_pools = Some (Blocked (C_mp 8 50 (k_tick demo_pools)), K1) \<and> rt_thread_timeout 1 (timer_remove (Thread_timer 1) K1) = Some K2
    \<and> rt_mp_alloc_rest 1 8 50 (k_tick demo_pools) K2 = Some (Done None, K2) \<and> rt_mp_free 116 K2 = None"
  by (rule timed_out_waiter_breaks_free [OF demo_good]) (simp_all add: demo_pools_def)

end
