(* ===== verification/KPrintf.thy ===== *)
theory KPrintf imports KString begin

text \<open>kservice.c: formatted text.  A directive of the format is read to an \<open>item\<close>, which is then written.  Characters are bytes:
  \<open>%\<close> is 37, the digits are 48 to 57, letters their ASCII codes.  The pointer to the next place runs on behind the end of the
  buffer, where nothing is written; it is a natural number here, so the text is shorter than the address space.  An argument is a word or a string, which does not lie in the buffer.  \<open>None\<close> is a
  missing or a wrong argument, a string without an end, and a width or precision that overflows an int.\<close>

definition ZEROPAD :: u8 where "ZEROPAD = 1"
definition SIGN :: u8 where "SIGN = 2"
definition PLUS :: u8 where "PLUS = 4"
definition SPACE :: u8 where "SPACE = 8"
definition LEFT :: u8 where "LEFT = 16"
definition SPECIAL :: u8 where "SPECIAL = 32"
definition LARGE :: u8 where "LARGE = 64"

lemmas flag_defs = ZEROPAD_def SIGN_def PLUS_def SPACE_def LEFT_def SPECIAL_def LARGE_def

definition flag :: "u8 \<Rightarrow> u8 \<Rightarrow> bool" where
  "flag type f = (type AND f \<noteq> 0)"

subsection \<open>Writing\<close>

text \<open>One character at the next place, if that is not behind \<open>e\<close>.\<close>

definition emit :: "nat \<Rightarrow> u8 \<Rightarrow> mem \<times> nat \<Rightarrow> mem \<times> nat" where
  "emit e c st = (if snd st \<le> e then (fst st)(snd st := c) else fst st, snd st + 1)"

fun emit_n :: "nat \<Rightarrow> u8 \<Rightarrow> nat \<Rightarrow> mem \<times> nat \<Rightarrow> mem \<times> nat" where
  "emit_n e c 0 st = st"
| "emit_n e c (Suc n) st = emit_n e c n (emit e c st)"

fun emits :: "nat \<Rightarrow> bytes \<Rightarrow> mem \<times> nat \<Rightarrow> mem \<times> nat" where
  "emits e [] st = st"
| "emits e (c # cs) st = emits e cs (emit e c st)"

subsection \<open>Numbers\<close>

definition isdigit :: "u8 \<Rightarrow> bool" where
  "isdigit c = (ucast c - (48 :: u32) < 10)"

text \<open>Dividing by the base: the remainder and the quotient.\<close>

definition divide :: "u32 \<Rightarrow> nat \<Rightarrow> u32 \<times> u32" where
  "divide n base = (if base = 10 then (n mod 10, n div 10) else (n mod 16, n div 16))"

lemma divide_less: "num \<noteq> 0 \<Longrightarrow> divide num base = (r, q) \<Longrightarrow> unat q < unat num"
  by (auto simp: divide_def unat_div unat_gt_0 split: if_splits)

definition small_digits :: bytes where
  "small_digits = [48, 49, 50, 51, 52, 53, 54, 55, 56, 57, 97, 98, 99, 100, 101, 102]"

definition large_digits :: bytes where
  "large_digits = [48, 49, 50, 51, 52, 53, 54, 55, 56, 57, 65, 66, 67, 68, 69, 70]"

text \<open>The digits in \<open>tmp\<close>, the last one first.\<close>

function num_digits :: "bytes \<Rightarrow> nat \<Rightarrow> u32 \<Rightarrow> bytes" where
  "num_digits digits base num = (if num = 0 then []
     else (case divide num base of (r, q) \<Rightarrow> digits ! unat r # num_digits digits base q))"
  by pat_completeness auto
termination
  by (relation "measure (\<lambda>(_, _, n). unat n)") (auto intro: divide_less [OF _ sym])

declare num_digits.simps [simp del]

text \<open>What \<open>while (n-- > 0)\<close> leaves in \<open>n\<close>.\<close>

definition run_down :: "int \<Rightarrow> int" where
  "run_down n = (if n > 0 then -1 else n - 1)"

text \<open>The size goes down for the sign only when there was room for it.\<close>

definition print_number :: "nat \<Rightarrow> u32 \<Rightarrow> nat \<Rightarrow> int \<Rightarrow> int \<Rightarrow> u8 \<Rightarrow> mem \<times> nat \<Rightarrow> (mem \<times> nat) option" where
  "print_number e num base s precision type0 st0 = (let
       digits = (if flag type0 LARGE then large_digits else small_digits);
       type = (if flag type0 LEFT then type0 AND NOT ZEROPAD else type0);
       c = (if flag type ZEROPAD then 48 else 32);
       neg = (flag type SIGN \<and> num <s 0);
       sign = (if neg then 45 else if flag type SIGN \<and> flag type PLUS then 43 else if flag type SIGN \<and> flag type SPACE then 32 else 0);
       num1 = (if neg then - num else num);
       tmp = (if num1 = 0 then [48] else num_digits digits base num1);
       i = int (length tmp);
       precision1 = (if i > precision then i else precision);
       size0 = s - precision1;
       plain = (\<not> flag type (ZEROPAD OR LEFT));
       size1 = (if plain then if sign \<noteq> 0 \<and> size0 > 0 then size0 - 1 else size0 else size0);
       st1 = (if plain then emit_n e 32 (nat size1) st0 else st0);
       size2 = (if plain then run_down size1 else size1);
       size3 = (if sign \<noteq> 0 \<and> snd st1 \<le> e then size2 - 1 else size2);
       st2 = (if sign \<noteq> 0 then emit e sign st1 else st1);
       st3 = (if \<not> flag type LEFT then emit_n e c (nat size3) st2 else st2);
       size4 = (if \<not> flag type LEFT then run_down size3 else size3);
       st4 = emit_n e 48 (nat (precision1 - i)) st3;
       st5 = emits e (rev tmp) st4
     in if length tmp > 16 then None else Some (emit_n e 32 (nat size4) st5))"

subsection \<open>Directives\<close>

datatype varg = Word u32 | Str "bytes option"

text \<open>What a directive stands for: characters, a character or a string in a field, a number.\<close>

datatype item =
    Literal bytes
  | Char u8 int u8
  | String bytes int u8
  | Number u32 nat int int u8

fun skip_atoi :: "int \<Rightarrow> bytes \<Rightarrow> (int \<times> bytes) option" where
  "skip_atoi i [] = None"
| "skip_atoi i (c # s) = (if isdigit c then
     if i * 10 + int (unat c) \<ge> 2 ^ 31 then None else skip_atoi (i * 10 + int (unat c) - 48) s
     else Some (i, c # s))"

fun read_flags :: "u8 \<Rightarrow> bytes \<Rightarrow> (u8 \<times> bytes) option" where
  "read_flags flags [] = None"
| "read_flags flags (c # s) = (if c = 45 then read_flags (flags OR LEFT) s
     else if c = 43 then read_flags (flags OR PLUS) s
     else if c = 32 then read_flags (flags OR SPACE) s
     else if c = 35 then read_flags (flags OR SPECIAL) s
     else if c = 48 then read_flags (flags OR ZEROPAD) s
     else Some (flags, c # s))"

fun va_word :: "varg list \<Rightarrow> (u32 \<times> varg list) option" where
  "va_word (Word w # args) = Some (w, args)"
| "va_word _ = None"

fun read_width :: "u8 \<Rightarrow> bytes \<Rightarrow> varg list \<Rightarrow> (int \<times> u8 \<times> bytes \<times> varg list) option" where
  "read_width flags [] args = None"
| "read_width flags (c # s) args = (if isdigit c then map_option (\<lambda>(w, r). (w, flags, r, args)) (skip_atoi 0 (c # s))
     else if c = 42 then (case va_word args of None \<Rightarrow> None | Some (w, args') \<Rightarrow>
       if w = 0x80000000 then None
       else if w <s 0 then Some (- sint w, flags OR LEFT, s, args') else Some (sint w, flags, s, args'))
     else Some (-1, flags, c # s, args))"

definition precision_of :: "int \<Rightarrow> int" where
  "precision_of p = (if p < 0 then 0 else p)"

text \<open>The digits of a precision may be missing; the counters of \<open>print_number\<close> need a few values below it.\<close>

fun read_precision :: "bytes \<Rightarrow> varg list \<Rightarrow> (int \<times> bytes \<times> varg list) option" where
  "read_precision [] args = None"
| "read_precision (c # s) args = (if c = 46 then (case s of [] \<Rightarrow> None | d # r \<Rightarrow>
       if isdigit d then (case skip_atoi 0 s of None \<Rightarrow> None | Some (p, r') \<Rightarrow> if p > 2 ^ 31 - 8 then None else Some (p, r', args))
       else if d = 42 then (case va_word args of None \<Rightarrow> None | Some (w, args') \<Rightarrow>
         if sint w > 2 ^ 31 - 8 then None else Some (precision_of (sint w), r, args'))
       else Some (precision_of (-1), s, args))
     else Some (-1, c # s, args))"

fun read_qualifier :: "bytes \<Rightarrow> u8 \<times> bytes" where
  "read_qualifier (c # s) = (if c = 104 \<or> c = 108 then (c, s) else (0, c # s))"
| "read_qualifier [] = (0, [])"

definition string_of :: "bytes option \<Rightarrow> bytes" where
  "string_of s = (case s of None \<Rightarrow> [40, 78, 85, 76, 76, 41, 0] | Some b \<Rightarrow> b)"

text \<open>The number of an integer directive from its argument.\<close>

definition number_of :: "u8 \<Rightarrow> u8 \<Rightarrow> u32 \<Rightarrow> u32" where
  "number_of qualifier flags w = (if qualifier = 104 then if flag flags SIGN then scast (ucast w :: u16) else ucast (ucast w :: u16) else w)"

definition int_item :: "u8 \<Rightarrow> nat \<Rightarrow> u8 \<Rightarrow> int \<Rightarrow> int \<Rightarrow> bytes \<Rightarrow> varg list \<Rightarrow> (item \<times> bytes \<times> varg list) option" where
  "int_item qualifier base flags width precision s args = map_option (\<lambda>(w, args'). (Number (number_of qualifier flags w) base width precision flags, s, args')) (va_word args)"

text \<open>The conversion at the head of the format.\<close>

fun conversion :: "u8 \<Rightarrow> u8 \<Rightarrow> int \<Rightarrow> int \<Rightarrow> bytes \<Rightarrow> varg list \<Rightarrow> (item \<times> bytes \<times> varg list) option" where
  "conversion q flags width precision [] args = None"
| "conversion q flags width precision (c # s) args = (if c = 99 then map_option (\<lambda>(w, args'). (Char (ucast w) width flags, s, args')) (va_word args)
     else if c = 115 then (case args of Str b # args' \<Rightarrow> (case rt_strlen (string_of b) of None \<Rightarrow> None
         | Some l \<Rightarrow> let l1 = (if precision > 0 \<and> int l > precision then nat precision else l) in Some (String (take l1 (string_of b)) width flags, s, args'))
       | _ \<Rightarrow> None)
     else if c = 112 then map_option (\<lambda>(w, args'). (if width = -1 then Number w 16 8 precision (flags OR ZEROPAD) else Number w 16 width precision flags, s, args')) (va_word args)
     else if c = 37 then Some (Literal [37], s, args)
     else if c = 111 then int_item q 8 flags width precision s args
     else if c = 88 then int_item q 16 (flags OR LARGE) width precision s args
     else if c = 120 then int_item q 16 flags width precision s args
     else if c = 100 \<or> c = 105 then int_item q 10 (flags OR SIGN) width precision s args
     else if c = 117 then int_item q 10 flags width precision s args
     else if c \<noteq> 0 then Some (Literal [37, c], s, args)
     else Some (Literal [37], c # s, args))"

text \<open>A directive from behind its \<open>%\<close>: its item, and where the format and the arguments go on.\<close>

definition directive :: "bytes \<Rightarrow> varg list \<Rightarrow> (item \<times> bytes \<times> varg list) option" where
  "directive s0 args0 = (case read_flags 0 s0 of None \<Rightarrow> None | Some (flags0, s1) \<Rightarrow>
     (case read_width flags0 s1 args0 of None \<Rightarrow> None | Some (width, flags, s2, args1) \<Rightarrow>
       (case read_precision s2 args1 of None \<Rightarrow> None | Some (precision, s3, args2) \<Rightarrow>
         (case read_qualifier s3 of (q, s4) \<Rightarrow> conversion q flags width precision s4 args2))))"

text \<open>\<open>while (--width > 0)\<close> pads a character, \<open>while (len < width--)\<close> a string.\<close>

fun put_item :: "nat \<Rightarrow> item \<Rightarrow> mem \<times> nat \<Rightarrow> (mem \<times> nat) option" where
  "put_item e (Literal cs) st = Some (emits e cs st)"
| "put_item e (Char c width flags) st = (let
       st1 = (if \<not> flag flags LEFT then emit_n e 32 (nat (width - 1)) st else st);
       width1 = (if \<not> flag flags LEFT then if width - 1 > 0 then 0 else width - 1 else width)
     in Some (emit_n e 32 (nat (width1 - 1)) (emit e c st1)))"
| "put_item e (String cs width flags) st = (let len = int (length cs);
       st1 = (if \<not> flag flags LEFT then emit_n e 32 (nat (width - len)) st else st);
       width1 = (if \<not> flag flags LEFT then if len < width then len - 1 else width - 1 else width)
     in Some (emit_n e 32 (nat (width1 - len)) (emits e cs st1)))"
| "put_item e (Number num base width precision flags) st = print_number e num base width precision flags st"

subsection \<open>The functions\<close>

lemma skip_atoi_length: "skip_atoi i s = Some (j, r) \<Longrightarrow> length r \<le> length s"
  by (induction i s rule: skip_atoi.induct) (auto split: if_splits)

lemma read_flags_length: "read_flags f s = Some (g, r) \<Longrightarrow> length r \<le> length s"
  by (induction f s rule: read_flags.induct) (auto split: if_splits)

lemma read_width_length: "read_width f s a = Some (w, g, r, b) \<Longrightarrow> length r \<le> length s"
  by (cases s) (auto split: if_splits option.splits dest: skip_atoi_length)

lemma read_precision_length: "read_precision s a = Some (p, r, b) \<Longrightarrow> length r \<le> length s"
  by (cases s) (auto split: if_splits option.splits list.splits dest!: skip_atoi_length)

lemma read_qualifier_length: "read_qualifier s = (q, r) \<Longrightarrow> length r \<le> length s"
  by (cases s) (auto split: if_splits)

lemma conversion_length: "conversion q f w p s a = Some (it, r, b) \<Longrightarrow> length r \<le> length s"
  by (cases s) (auto simp: int_item_def Let_def split: if_splits option.splits list.splits varg.splits)

lemma directive_length: "directive s a = Some (it, r, b) \<Longrightarrow> length r \<le> length s"
  by (auto simp: directive_def split: option.splits prod.splits
      dest!: read_flags_length read_width_length read_precision_length read_qualifier_length conversion_length)

function vsn_loop :: "nat \<Rightarrow> bytes \<Rightarrow> varg list \<Rightarrow> mem \<times> nat \<Rightarrow> (mem \<times> nat) option" where
  "vsn_loop e [] args st = None"
| "vsn_loop e (c # s) args st = (if c = 0 then Some st
     else if c \<noteq> 37 then vsn_loop e s args (emit e c st)
     else (case directive s args of None \<Rightarrow> None
       | Some (it, s', args') \<Rightarrow> (case put_item e it st of None \<Rightarrow> None | Some st' \<Rightarrow> vsn_loop e s' args' st')))"
  by pat_completeness auto
termination
  by (relation "measure (\<lambda>(_, s, _). length s)") (auto dest: directive_length)

definition vsn_end :: "u32 \<Rightarrow> u32 \<Rightarrow> u32" where
  "vsn_end buf room = (if buf + room - 1 < buf then -1 else buf + room - 1)"

definition rt_vsnprintf :: "mem \<Rightarrow> u32 \<Rightarrow> u32 \<Rightarrow> bytes \<Rightarrow> varg list \<Rightarrow> (nat \<times> mem) option" where
  "rt_vsnprintf M buf room fmt args = (let e = unat (vsn_end buf room) in
     map_option (\<lambda>(M', p). (p - unat buf, M'((if p \<le> e then p else e) := 0))) (vsn_loop e fmt args (M, unat buf)))"

definition rt_snprintf :: "mem \<Rightarrow> u32 \<Rightarrow> u32 \<Rightarrow> bytes \<Rightarrow> varg list \<Rightarrow> (nat \<times> mem) option" where
  "rt_snprintf M buf room fmt args = rt_vsnprintf M buf room fmt args"

definition rt_vsprintf :: "mem \<Rightarrow> u32 \<Rightarrow> bytes \<Rightarrow> varg list \<Rightarrow> (nat \<times> mem) option" where
  "rt_vsprintf M buf fmt args = rt_vsnprintf M buf (-1) fmt args"

definition rt_sprintf :: "mem \<Rightarrow> u32 \<Rightarrow> bytes \<Rightarrow> varg list \<Rightarrow> (nat \<times> mem) option" where
  "rt_sprintf M buf fmt args = rt_vsprintf M buf fmt args"

end
