(* ===== verification/KPrintfProps.thy ===== *)
theory KPrintfProps imports KPrintf TimeText begin

text \<open>The formatted text as a list of characters, and that the functions of kservice.c store it, cut to the size of the buffer.\<close>

subsection \<open>The text\<close>

definition number_sign :: "u32 \<Rightarrow> u8 \<Rightarrow> u8" where
  "number_sign num type = (if flag type SIGN \<and> num <s 0 then 45 else if flag type SIGN \<and> flag type PLUS then 43
     else if flag type SIGN \<and> flag type SPACE then 32 else 0)"

definition number_digits :: "u32 \<Rightarrow> nat \<Rightarrow> u8 \<Rightarrow> bytes" where
  "number_digits num base type = (let n = (if flag type SIGN \<and> num <s 0 then - num else num) in
     if n = 0 then [48] else rev (num_digits (if flag type LARGE then large_digits else small_digits) base n))"

definition number_text :: "u32 \<Rightarrow> nat \<Rightarrow> int \<Rightarrow> int \<Rightarrow> u8 \<Rightarrow> bytes" where
  "number_text num base width precision type = (let
       sign = (if number_sign num type = 0 then [] else [number_sign num type]);
       ds = number_digits num base type;
       body = replicate (nat precision - length ds) 48 @ ds;
       room = nat (width - int (length sign) - int (length body))
     in if flag type LEFT then sign @ body @ replicate room 32
        else if flag type ZEROPAD then sign @ replicate room 48 @ body
        else replicate room 32 @ sign @ body)"

fun item_text :: "item \<Rightarrow> bytes" where
  "item_text (Literal cs) = cs"
| "item_text (Char c width flags) = (let ps = replicate (nat (width - 1)) 32 in if flag flags LEFT then c # ps else ps @ [c])"
| "item_text (String cs width flags) = (let ps = replicate (nat (width - int (length cs))) 32 in if flag flags LEFT then cs @ ps else ps @ cs)"
| "item_text (Number num base width precision flags) = number_text num base width precision flags"

function formatted :: "bytes \<Rightarrow> varg list \<Rightarrow> bytes option" where
  "formatted [] args = None"
| "formatted (c # s) args = (if c = 0 then Some []
     else if c \<noteq> 37 then map_option (Cons c) (formatted s args)
     else (case directive s args of None \<Rightarrow> None
       | Some (it, s', args') \<Rightarrow> map_option (append (item_text it)) (formatted s' args')))"
  by pat_completeness auto
termination
  by (relation "measure (\<lambda>(s, _). length s)") (auto dest: directive_length)

subsection \<open>Writing a list of characters\<close>

definition stored :: "mem \<Rightarrow> nat \<Rightarrow> bytes \<Rightarrow> mem" where
  "stored M p t = (\<lambda>a. if p \<le> a \<and> a < p + length t then t ! (a - p) else M a)"

text \<open>The text \<open>t\<close> is written from \<open>p\<close> on, as far as the buffer goes.  Behind the end the pointer need not be exact.\<close>

definition writes :: "nat \<Rightarrow> mem \<Rightarrow> nat \<Rightarrow> bytes \<Rightarrow> mem \<times> nat \<Rightarrow> bool" where
  "writes e M p t st = (fst st = stored M p (take (e + 1 - p) t) \<and> (snd st = p + length t \<or> e < snd st \<and> e < p + length t))"

lemma writes_none: "writes e M p [] (M, p)"
  by (auto simp: writes_def stored_def fun_eq_iff)

lemma emit_n_emits: "emit_n e c n st = emits e (replicate n c) st"
  by (induction n arbitrary: st) simp_all

lemma emits_append: "emits e (xs @ ys) st = emits e ys (emits e xs st)"
  by (induction xs arbitrary: st) simp_all

lemma snd_emits [simp]: "snd (emits e xs st) = snd st + length xs"
  by (induction xs arbitrary: st) (simp_all add: emit_def)

lemma stored_append: "stored M p (t @ [c]) = (stored M p t)(p + length t := c)"
  by (auto simp: stored_def fun_eq_iff nth_append less_Suc_eq)

lemma writes_emit:
  assumes "writes e M p t st"
  shows "writes e M p (t @ [c]) (emit e c st)"
proof (cases "p + length t \<le> e")
  case True
  then have "fst st = stored M p t" "snd st = p + length t" using assms by (auto simp: writes_def)
  then show ?thesis using True by (simp add: writes_def emit_def stored_append)
next
  case False
  then have "e < snd st" "fst st = stored M p (take (e + 1 - p) t)" using assms by (auto simp: writes_def)
  then show ?thesis using False assms by (auto simp: writes_def emit_def)
qed

lemma writes_emits: "writes e M p t st \<Longrightarrow> writes e M p (t @ cs) (emits e cs st)"
proof (induction cs arbitrary: t st)
  case (Cons c cs)
  then show ?case using Cons.IH [OF writes_emit [OF Cons.prems, of c]] by simp
qed simp

lemma emits_behind: "e < snd st \<Longrightarrow> fst (emits e cs st) = fst st"
proof (induction cs arbitrary: st)
  case (Cons c cs)
  then show ?case using Cons.IH [of "emit e c st"] by (simp add: emit_def)
qed simp

lemma writes_behind: "writes e M p t st \<Longrightarrow> e < snd st \<Longrightarrow> writes e M p (t @ cs) (emits e ds st)"
  by (auto simp: writes_def emits_behind)

subsection \<open>Numbers\<close>

lemma flag_or: "flag t (a OR b) = (flag t a \<or> flag t b)"
  by (simp add: flag_def or_eq_0_iff bit.conj_disj_distrib)

lemma flag_without: "flag (t AND NOT ZEROPAD) LEFT = flag t LEFT" "flag (t AND NOT ZEROPAD) SIGN = flag t SIGN" "flag (t AND NOT ZEROPAD) PLUS = flag t PLUS"
  "flag (t AND NOT ZEROPAD) SPACE = flag t SPACE" "\<not> flag (t AND NOT ZEROPAD) ZEROPAD"
  by (simp_all add: flag_def flag_defs and.assoc)

lemma num_digits_length: "(base = 10 \<longrightarrow> unat n < 10 ^ k) \<Longrightarrow> (base \<noteq> 10 \<longrightarrow> unat n < 16 ^ k) \<Longrightarrow> length (num_digits ds base n) \<le> k"
proof (induction k arbitrary: n)
  case 0
  then show ?case by (cases "base = 10") (auto simp: num_digits.simps unat_eq_0)
next
  case (Suc k)
  obtain r q where q: "divide n base = (r, q)" by fastforce
  then have "(base = 10 \<longrightarrow> unat q < 10 ^ k)" "(base \<noteq> 10 \<longrightarrow> unat q < 16 ^ k)"
    using Suc.prems by (auto simp: divide_def unat_div intro: less_mult_imp_div_less)
  then show ?case using Suc.IH [of q] q by (subst num_digits.simps) simp
qed

lemma num_digits_fit: "length (num_digits ds base n) \<le> 10"
proof -
  have "unat n < 2 ^ 32" using unsigned_less [of n, where 'a = nat] by simp
  then show ?thesis by (intro num_digits_length impI) simp_all
qed

text \<open>\<open>print_number\<close> over its sign, its digits and the two flags for padding.\<close>

definition put_number :: "nat \<Rightarrow> u8 \<Rightarrow> bytes \<Rightarrow> int \<Rightarrow> int \<Rightarrow> bool \<Rightarrow> bool \<Rightarrow> mem \<times> nat \<Rightarrow> mem \<times> nat" where
  "put_number e sign tmp w precision left zero st0 = (let
       i = int (length tmp);
       precision1 = (if i > precision then i else precision);
       size0 = w - precision1;
       plain = (\<not> left \<and> \<not> zero);
       size1 = (if plain then if sign \<noteq> 0 \<and> size0 > 0 then size0 - 1 else size0 else size0);
       st1 = (if plain then emit_n e 32 (nat size1) st0 else st0);
       size2 = (if plain then run_down size1 else size1);
       size3 = (if sign \<noteq> 0 \<and> snd st1 \<le> e then size2 - 1 else size2);
       st2 = (if sign \<noteq> 0 then emit e sign st1 else st1);
       st3 = (if \<not> left then emit_n e (if zero then 48 else 32) (nat size3) st2 else st2);
       size4 = (if \<not> left then run_down size3 else size3);
       st4 = emit_n e 48 (nat (precision1 - i)) st3;
       st5 = emits e (rev tmp) st4
     in emit_n e 32 (nat size4) st5)"

definition number_tmp :: "u32 \<Rightarrow> nat \<Rightarrow> u8 \<Rightarrow> bytes" where
  "number_tmp num base type = (let n = (if flag type SIGN \<and> num <s 0 then - num else num) in
     if n = 0 then [48] else num_digits (if flag type LARGE then large_digits else small_digits) base n)"

lemma number_tmp_fit: "length (number_tmp num base type) \<le> 10" "rev (number_tmp num base type) = number_digits num base type"
  using num_digits_fit by (simp_all add: number_tmp_def number_digits_def Let_def)

lemma print_number_put:
  "print_number e num base w pr ty st = Some (put_number e (number_sign num ty) (number_tmp num base ty) w pr (flag ty LEFT) (\<not> flag ty LEFT \<and> flag ty ZEROPAD) st)"
proof -
  define ty' where "ty' = (if flag ty LEFT then ty AND NOT ZEROPAD else ty)"
  have f: "flag ty' LEFT = flag ty LEFT" "flag ty' SIGN = flag ty SIGN" "flag ty' PLUS = flag ty PLUS" "flag ty' SPACE = flag ty SPACE"
    "flag ty' ZEROPAD = (\<not> flag ty LEFT \<and> flag ty ZEROPAD)" "flag ty' (ZEROPAD OR LEFT) = (flag ty LEFT \<or> flag ty ZEROPAD)"
    by (auto simp: ty'_def flag_without flag_or)
  define neg where "neg = (flag ty SIGN \<and> num <s 0)"
  have sg: "(if neg then 45 else if flag ty SIGN \<and> flag ty PLUS then 43 else if flag ty SIGN \<and> flag ty SPACE then 32 else 0) = number_sign num ty"
    by (simp add: number_sign_def neg_def)
  have tmp: "(if (if neg then - num else num) = 0 then [48] else num_digits (if flag ty LARGE then large_digits else small_digits) base (if neg then - num else num)) = number_tmp num base ty"
    by (simp add: number_tmp_def neg_def Let_def)
  have l: "\<not> 16 < length (number_tmp num base ty)" using number_tmp_fit(1) [of num base ty] by simp
  show ?thesis
    unfolding print_number_def Let_def ty'_def [symmetric] f neg_def [symmetric] sg tmp put_number_def
    using l by (simp only: if_False de_Morgan_disj) (cases "flag ty LEFT"; cases "flag ty ZEROPAD"; simp)
qed

lemma put_number_emits:
  assumes "sign = 0 \<or> snd st \<le> e \<or> \<not> left \<and> \<not> zero" "\<not> left \<or> \<not> zero"
  shows "put_number e sign tmp w pr left zero st = emits e (let
       sg = (if sign = 0 then [] else [sign]); body = replicate (nat pr - length tmp) 48 @ rev tmp;
       room = nat (w - int (length sg) - int (length body))
     in if left then sg @ body @ replicate room 32 else if zero then sg @ replicate room 48 @ body else replicate room 32 @ sg @ body) st"
proof -
  define body where "body = replicate (nat pr - length tmp) (48 :: u8) @ rev tmp"
  define K where "K = int (length body)"
  define p1 where "p1 = (if int (length tmp) > pr then int (length tmp) else pr)"
  have p: "w - p1 = w - K" "nat (p1 - int (length tmp)) = nat pr - length tmp" by (auto simp: p1_def K_def body_def)
  have b: "emits e (rev tmp) (emits e (replicate (nat pr - length tmp) 48) s) = emits e body s" for s
    by (simp add: emits_append body_def)
  have c: "w - K - 1 = w - 1 - K" by simp
  have r: "nat (run_down n) = 0" "run_down n < 0" "nat (run_down n - 1) = 0" for n by (auto simp: run_down_def)
  have r2: "nat (run_down (run_down n)) = 0" "nat (run_down (run_down n - 1)) = 0" for n by (auto simp: run_down_def)
  have one: "emit e sign s = emits e [sign] s" for s by simp
  note u = put_number_def Let_def p1_def [symmetric] p b body_def [symmetric] K_def [symmetric] emit_n_emits
  consider "left" "\<not> zero" | "\<not> left" "zero" | "\<not> left" "\<not> zero" using assms(2) by blast
  then show ?thesis
  proof cases
    case 1
    then show ?thesis using assms(1) unfolding u by (cases "sign = 0") (simp_all add: emits_append b c)
  next
    case 2
    then show ?thesis using assms(1) unfolding u by (cases "sign = 0") (simp_all add: emits_append b r c)
  next
    case 3
    have "nat (if sign \<noteq> 0 \<and> w - K > 0 then w - K - 1 else w - K) = nat (w - int (length (if sign = 0 then [] else [sign])) - K)" by (auto simp: c)
    then show ?thesis using 3 unfolding u by (cases "sign = 0") (simp_all add: emits_append b r r2 c)
  qed
qed

text \<open>Whatever the state is, characters are all that \<open>print_number\<close> writes.\<close>

definition only_emits :: "nat \<Rightarrow> mem \<times> nat \<Rightarrow> mem \<times> nat \<Rightarrow> bool" where
  "only_emits e st s = (\<exists>X. s = emits e X st)"

lemma only_emits: "only_emits e st st" "only_emits e st s \<Longrightarrow> only_emits e st (emits e xs s)" "only_emits e st s \<Longrightarrow> only_emits e st (emit e c s)"
  "only_emits e st s \<Longrightarrow> only_emits e st s' \<Longrightarrow> only_emits e st (if b then s else s')"
proof -
  show "only_emits e st st" unfolding only_emits_def by (rule exI [of _ "[]"]) simp
  show m: "only_emits e st (emits e xs s)" if "only_emits e st s" for xs s
    using that unfolding only_emits_def by (metis emits_append)
  show "only_emits e st (emit e c s)" if "only_emits e st s" using m [OF that, of "[c]"] by simp
  show "only_emits e st (if b then s else s')" if "only_emits e st s" "only_emits e st s'" using that by simp
qed

lemma put_number_writes: "\<exists>X. put_number e sign tmp w pr left zero st = emits e X st"
  unfolding only_emits_def [symmetric] put_number_def Let_def emit_n_emits by (intro only_emits)

lemma print_number_text:
  "\<exists>X. print_number e num base w pr ty st = Some (emits e X st) \<and> (X = number_text num base w pr ty \<or> e < snd st)"
proof (cases "number_sign num ty = 0 \<or> snd st \<le> e \<or> \<not> flag ty LEFT \<and> \<not> flag ty ZEROPAD")
  case True
  have l: "length (number_tmp num base ty) = length (number_digits num base ty)"
    unfolding number_tmp_fit(2) [symmetric] by simp
  show ?thesis
    using True put_number_emits [of "number_sign num ty" st e "flag ty LEFT" "\<not> flag ty LEFT \<and> flag ty ZEROPAD" "number_tmp num base ty" w pr]
    unfolding print_number_put number_tmp_fit(2) l number_text_def Let_def by auto
next
  case False
  then show ?thesis unfolding print_number_put using put_number_writes by fastforce
qed

lemma put_item_text: "\<exists>X. put_item e it st = Some (emits e X st) \<and> (X = item_text it \<or> e < snd st)"
proof (cases it)
  case (Number num base w pr ty)
  then show ?thesis using print_number_text by simp
qed (auto simp: emit_n_emits Let_def simp flip: emits_append emits.simps(2))

lemma put_item_writes:
  assumes "writes e M p t st"
  shows "\<exists>st'. put_item e it st = Some st' \<and> writes e M p (t @ item_text it) st'"
  using put_item_text [of e it st] writes_emits [OF assms] writes_behind [OF assms] by blast

lemma vsn_loop_writes:
  "formatted fmt args = Some u \<Longrightarrow> writes e M p t st \<Longrightarrow> \<exists>st'. vsn_loop e fmt args st = Some st' \<and> writes e M p (t @ u) st'"
proof (induction fmt args arbitrary: u t st rule: formatted.induct)
  case (2 c s args)
  consider "c = 0" | "c \<noteq> 0" "c \<noteq> 37" | "c = 37" by blast
  then show ?case
  proof cases
    case 1
    then show ?thesis using "2.prems" by simp
  next
    case c: 2
    then obtain v where v: "formatted s args = Some v" "u = c # v" using "2.prems"(1) by auto
    show ?thesis using "2.IH"(1) [OF c v(1) writes_emit [OF "2.prems"(2), of c]] c v(2) by simp
  next
    case c: 3
    then obtain it s' args' v where d: "directive s args = Some (it, s', args')" and v: "formatted s' args' = Some v" "u = item_text it @ v"
      using "2.prems"(1) by (auto split: option.splits)
    obtain st1 where st1: "put_item e it st = Some st1" "writes e M p (t @ item_text it) st1"
      using put_item_writes [OF "2.prems"(2)] by blast
    show ?thesis using "2.IH"(2) [OF _ _ d refl refl v(1) st1(2)] c d v(2) st1(1) by simp
  qed
qed simp


subsection \<open>The buffer\<close>

lemma stored_cut: "a < length t \<Longrightarrow> (stored M p (take (a + 1) t))(p + a := c) = stored M p (take a t @ [c])"
  by (auto simp: stored_def fun_eq_iff nth_append)

lemma vsnprintf_stored:
  assumes "formatted fmt args = Some t" "vsn_end buf n = end" "unat buf \<le> unat end"
  shows "\<exists>r. rt_vsnprintf M buf n fmt args = Some (r, stored M (unat buf) (take (unat end - unat buf) t @ [0]))
    \<and> (length t \<le> unat end - unat buf \<longrightarrow> r = length t)"
proof -
  define e p where "e = unat end" and "p = unat buf"
  obtain M' q where w: "vsn_loop e fmt args (M, p) = Some (M', q)" "writes e M p t (M', q)"
    using vsn_loop_writes [OF assms(1) writes_none] by fastforce
  have le: "p \<le> e" using assms(3) by (simp add: e_def p_def)
  have v: "rt_vsnprintf M buf n fmt args = Some (q - p, M'((if q \<le> e then q else e) := 0))"
    using w(1) by (simp add: rt_vsnprintf_def assms(2) e_def p_def)
  show ?thesis
  proof (cases "p + length t \<le> e")
    case True
    then have "M' = stored M p t" "q = p + length t" using w(2) by (auto simp: writes_def)
    then show ?thesis using True v by (simp add: stored_append flip: e_def p_def)
  next
    case False
    then have m: "M' = stored M p (take (e - p + 1) t)" "e < q" using w(2) le by (auto simp: writes_def Suc_diff_le)
    have "M'(e := 0) = stored M p (take (e - p) t @ [0])" using stored_cut [of "e - p" t M p 0] False le unfolding m(1) by simp
    moreover have "\<not> length t \<le> e - p" using False le by linarith
    ultimately show ?thesis using v m(2) by (simp add: not_le flip: e_def p_def)
  qed
qed

lemma vsn_end_inside:
  assumes "0 < n" "unat buf + unat n \<le> 2 ^ 32"
  shows "unat (vsn_end buf n) = unat buf + unat n - 1 \<and> unat buf \<le> unat (vsn_end buf n)"
proof -
  have n: "0 < unat n" using assms(1) by (simp add: unat_gt_0 word_neq_0_conv)
  have "unat (n - 1) = unat n - 1" using assms(1) by (simp add: unat_minus_one word_gt_0)
  then have "unat (buf + (n - 1)) = unat buf + unat n - 1" using assms(2) n by (subst unat_plus_if_size) (simp add: word_size)
  then have u: "unat (buf + n - 1) = unat buf + unat n - 1" by (simp add: algebra_simps)
  then have "\<not> buf + n - 1 < buf" using n by (simp add: word_less_nat_alt)
  then show ?thesis using u n by (simp add: vsn_end_def)
qed

text \<open>C37: Whatever the format is, \<open>rt_vsnprintf\<close> stores the formatted text in the buffer, cut to one byte less than its size,
  and a zero behind it, and touches no other memory; it returns the length of the text, when it fits.\<close>

theorem vsnprintf_stays_in_buffer:
  assumes "formatted fmt args = Some t" "0 < n" "unat buf + unat n \<le> 2 ^ 32"
  shows "\<exists>r. rt_vsnprintf M buf n fmt args = Some (r, stored M (unat buf) (take (unat n - 1) t @ [0])) \<and> (r = length t \<or> unat n \<le> length t)"
proof -
  have n: "0 < unat n" using assms(2) by (simp add: unat_gt_0 word_neq_0_conv)
  show ?thesis using vsnprintf_stored [OF assms(1) refl, of buf n M] vsn_end_inside [OF assms(2,3)] n by fastforce
qed


text \<open>A size of zero is no bound at all: \<open>rt_snprintf\<close> stores the whole text.\<close>

theorem size_zero_is_no_bound:
  assumes "formatted fmt args = Some t" "0 < buf" "unat buf + length t < 2 ^ 32"
  shows "rt_snprintf M buf 0 fmt args = Some (length t, stored M (unat buf) (t @ [0]))"
proof -
  have "buf - 1 < buf" using assms(2) by (simp add: word_less_nat_alt unat_minus_one word_gt_0 unat_gt_0)
  then have e: "vsn_end buf 0 = -1" by (simp add: vsn_end_def)
  have u: "unat (-1 :: u32) = 2 ^ 32 - 1" by (simp add: unsigned_minus_1_eq_mask mask_eq_exp_minus_1)
  have "unat buf \<le> unat (-1 :: u32)" "length t \<le> unat (-1 :: u32) - unat buf" using assms(3) unfolding u by linarith+
  then show ?thesis using vsnprintf_stored [OF assms(1) e, of M] by (auto simp: rt_snprintf_def)
qed

lemma sprintf_stored:
  assumes "formatted fmt args = Some t" "1 < buf" "unat buf + length t < 2 ^ 32"
  shows "rt_sprintf M buf fmt args = Some (length t, stored M (unat buf) (t @ [0]))"
proof -
  have "unat buf \<noteq> 0" "unat buf \<noteq> 1" using assms(2) by (auto simp: word_less_nat_alt)
  then have "unat (buf - 2) = unat buf - 2" by (subst unat_sub) (auto simp: word_le_nat_alt)
  then have "buf - 2 < buf" using assms(2) by (simp add: word_less_nat_alt)
  moreover have "buf + -1 - 1 = buf - 2" by simp
  ultimately have e: "vsn_end buf (-1) = -1" unfolding vsn_end_def by simp
  have u: "unat (-1 :: u32) = 2 ^ 32 - 1" by (simp add: unsigned_minus_1_eq_mask mask_eq_exp_minus_1)
  have "unat buf \<le> unat (-1 :: u32)" "length t \<le> unat (-1 :: u32) - unat buf" using assms(3) unfolding u by linarith+
  then show ?thesis using vsnprintf_stored [OF assms(1) e, of M] by (auto simp: rt_sprintf_def rt_vsprintf_def)
qed

subsection \<open>Octal numbers\<close>

lemma num_digits_octal: "num_digits ds 8 n = num_digits ds 16 n"
proof (induction ds "8 :: nat" n rule: num_digits.induct)
  case (1 ds n)
  show ?case using 1 by (subst (1 2) num_digits.simps) (auto simp: divide_def)
qed

text \<open>A number asked for with \<open>%o\<close> is printed as with \<open>%x\<close>.\<close>

theorem octal_prints_hexadecimal: "print_number e num 8 w precision type st = print_number e num 16 w precision type st"
  unfolding print_number_def num_digits_octal ..

subsection \<open>Decimal numbers\<close>

lemma digit_codes: "k < 10 \<Longrightarrow> small_digits ! k = of_char (char_of (48 + k :: nat) :: char)"
proof -
  assume "k < 10"
  then have "k \<in> set [0..<10]" by simp
  moreover have "list_all (\<lambda>k. small_digits ! k = of_char (char_of (48 + k :: nat) :: char)) [0..<10]" by code_simp
  ultimately show ?thesis unfolding list_all_iff by blast
qed

lemma num_digits_decimal: "n \<noteq> 0 \<Longrightarrow> rev (num_digits small_digits 10 n) = map of_char (dec_digits (unat n))"
proof (induction small_digits "10 :: nat" n rule: num_digits.induct)
  case (1 n)
  have d: "divide n 10 = (n mod 10, n div 10)" by (simp add: divide_def)
  have u: "unat (n mod 10) = unat n mod 10" "unat (n div 10) = unat n div 10" by (simp_all add: unat_mod unat_div)
  have k: "small_digits ! unat (n mod 10) = of_char (char_of (48 + unat n mod 10) :: char)" unfolding u by (rule digit_codes) simp
  have n: "num_digits small_digits 10 n = small_digits ! unat (n mod 10) # num_digits small_digits 10 (n div 10)"
    using "1.prems" d by (subst num_digits.simps) simp
  show ?case
  proof (cases "unat n < 10")
    case True
    then have "unat (n div 10) = 0" unfolding u by simp
    then have "n div 10 = 0" by (simp add: unat_eq_0)
    then show ?thesis using True unfolding n k by (simp add: num_digits.simps dec_digits.simps)
  next
    case False
    then have "unat (n div 10) \<noteq> 0" unfolding u by simp
    then have "n div 10 \<noteq> 0" by auto
    from "1.hyps" [OF "1.prems" d [symmetric] this] show ?thesis
      using False unfolding n k by (subst dec_digits.simps) (simp add: u)
  qed
qed

lemma number_text_decimal:
  assumes "unat n < 2 ^ 31"
  shows "number_text n 10 (int w) (-1) (ZEROPAD OR SIGN) = map of_char (fmt_d w (unat n))"
proof -
  have f: "flag (ZEROPAD OR SIGN) SIGN" "flag (ZEROPAD OR SIGN) ZEROPAD" "\<not> flag (ZEROPAD OR SIGN) PLUS" "\<not> flag (ZEROPAD OR SIGN) SPACE"
    "\<not> flag (ZEROPAD OR SIGN) LEFT" "\<not> flag (ZEROPAD OR SIGN) LARGE" by (simp_all add: flag_def flag_defs)
  have "int (unat n) < int (2 ^ 31)" using assms by (rule iffD2 [OF of_nat_less_iff])
  then have u: "0 \<le> uint n" "uint n < 2 ^ 31" by simp_all
  have "- (2 ^ 31) \<le> (0 :: int)" by simp
  then have "- (2 ^ 31) \<le> uint n" using u(1) by (rule order_trans)
  have "sint n = uint n" unfolding sint_uint by (rule signed_take_bit_int_eq_self) (use u \<open>- (2 ^ 31) \<le> uint n\<close> in simp_all)
  then have "\<not> n <s 0" using u(1) by (simp add: word_sless_alt)
  then have sg: "number_sign n (ZEROPAD OR SIGN) = 0" by (simp add: number_sign_def f)
  have ds: "number_digits n 10 (ZEROPAD OR SIGN) = map of_char (dec_digits (unat n))"
    using num_digits_decimal [of n] \<open>\<not> n <s 0\<close> by (simp add: number_digits_def f dec_digits.simps [of 0] char_48)
  have z: "(of_char (CHR ''0'') :: u8) = 48" by simp
  show ?thesis unfolding number_text_def sg ds Let_def by (simp add: f fmt_d_def z nat_diff_distrib')
qed

definition time_format :: bytes where
  "time_format = map of_char ''%04d-%02d-%02d %02d:%02d:%02d'' @ [0]"

lemma digit_tests: "isdigit 50" "isdigit 52" "\<not> isdigit 100"
  by (simp_all add: isdigit_def)

lemma directive_0d: "c \<in> {50, 52} \<Longrightarrow> directive (48 # c # 100 # s) (Word n # args) = Some (Number n 10 (int (unat c) - 48) (-1) (ZEROPAD OR SIGN), s, args)"
proof -
  assume "c \<in> {50, 52}"
  then have c: "isdigit c" "c \<noteq> 45" "c \<noteq> 43" "c \<noteq> 32" "c \<noteq> 35" "c \<noteq> 48" "int (unat c) < 100" using digit_tests by auto
  have f: "read_flags 0 (48 # c # 100 # s) = Some (ZEROPAD, c # 100 # s)" using c by simp
  have "skip_atoi 0 (c # 100 # s) = Some (int (unat c) - 48, 100 # s)" using c(1,7) digit_tests(3) by simp
  then have w: "read_width ZEROPAD (c # 100 # s) a = Some (int (unat c) - 48, ZEROPAD, 100 # s, a)" for a using c(1) by (simp del: skip_atoi.simps)
  show ?thesis unfolding directive_def f option.case prod.case w by (simp add: int_item_def number_of_def)
qed

lemma formatted_0d:
  "c \<in> {50, 52} \<Longrightarrow> formatted (37 # 48 # c # 100 # s) (Word n # args) = map_option (append (number_text n 10 (int (unat c) - 48) (-1) (ZEROPAD OR SIGN))) (formatted s args)"
  by (simp add: directive_0d)

lemma formatted_char: "c \<noteq> 0 \<Longrightarrow> c \<noteq> 37 \<Longrightarrow> formatted (c # s) args = map_option (Cons c) (formatted s args)"
  by simp

lemma formatted_02d: "formatted (37 # 48 # 50 # 100 # s) (Word n # args) = map_option (append (number_text n 10 2 (-1) (ZEROPAD OR SIGN))) (formatted s args)"
  using formatted_0d [of 50 s n args] by (simp del: formatted.simps)

lemma formatted_04d: "formatted (37 # 48 # 52 # 100 # s) (Word n # args) = map_option (append (number_text n 10 4 (-1) (ZEROPAD OR SIGN))) (formatted s args)"
  using formatted_0d [of 52 s n args] by (simp del: formatted.simps)

lemma formatted_end: "formatted [0] args = Some []"
  by simp

text \<open>The format the checking thread prints times with gives the text of the time as \<open>fmt_time\<close> has it, which the check of
  the time limit is stated over.\<close>

theorem sprintf_prints_time:
  assumes "unat y < 2 ^ 31" "unat mo < 2 ^ 31" "unat d < 2 ^ 31" "unat h < 2 ^ 31" "unat mi < 2 ^ 31" "unat s < 2 ^ 31"
    and "1 < buf" "t = fmt_time (unat y) (unat mo) (unat d) (unat h) (unat mi) (unat s)" "unat buf + length t < 2 ^ 32"
  shows "rt_sprintf M buf time_format [Word y, Word mo, Word d, Word h, Word mi, Word s]
    = Some (length t, stored M (unat buf) (map of_char t @ [0]))"
proof -
  have f: "formatted time_format [Word y, Word mo, Word d, Word h, Word mi, Word s] = Some (map of_char t)"
    unfolding assms(8) using number_text_decimal [OF assms(1), of 4] number_text_decimal [OF assms(2), of 2] number_text_decimal [OF assms(3), of 2]
      number_text_decimal [OF assms(4), of 2] number_text_decimal [OF assms(5), of 2] number_text_decimal [OF assms(6), of 2]
    by (simp add: time_format_def fmt_time_def formatted_04d formatted_02d formatted_char formatted_end del: formatted.simps)
  show ?thesis using sprintf_stored [OF f assms(7)] assms(9) by simp
qed

theorem sprintf_prints_time_witness:
  "rt_sprintf (\<lambda>_. 0) 0x20000000 time_format [Word 2018, Word 3, Word 7, Word 9, Word 5, Word 0]
    = Some (length (fmt_time 2018 3 7 9 5 0), stored (\<lambda>_. 0) 0x20000000 (map of_char (fmt_time 2018 3 7 9 5 0) @ [0]))"
proof -
  have l: "length (fmt_time 2018 3 7 9 5 0) = 19" by code_simp
  show ?thesis using sprintf_prints_time [where y = 2018 and mo = 3 and d = 7 and h = 9 and mi = 5 and s = 0 and buf = "0x20000000" and M = "\<lambda>_. 0", OF _ _ _ _ _ _ _ refl] by (simp add: l)
qed


lemma demo_text: "formatted [97, 37, 48, 50, 100, 98, 0] [Word 5] = Some (97 # map of_char (fmt_d 2 5) @ [98])"
  using number_text_decimal [of 5 2] by (simp add: formatted_02d formatted_char formatted_end del: formatted.simps)

theorem vsnprintf_stays_in_buffer_witness:
  "\<exists>r. rt_vsnprintf (\<lambda>_. 7) 0x20000000 3 [97, 37, 48, 50, 100, 98, 0] [Word 5]
      = Some (r, stored (\<lambda>_. 7) (unat (0x20000000 :: u32)) (take (unat (3 :: u32) - 1) (97 # map of_char (fmt_d 2 5) @ [98]) @ [0]))
    \<and> (r = length (97 # map of_char (fmt_d 2 5) @ [98 :: u8]) \<or> unat (3 :: u32) \<le> length (97 # map of_char (fmt_d 2 5) @ [98 :: u8]))"
  by (rule vsnprintf_stays_in_buffer [OF demo_text]) simp_all

theorem size_zero_is_no_bound_witness:
  "rt_snprintf (\<lambda>_. 7) 0x20000000 0 [97, 37, 48, 50, 100, 98, 0] [Word 5]
    = Some (length (97 # map of_char (fmt_d 2 5) @ [98 :: u8]), stored (\<lambda>_. 7) (unat (0x20000000 :: u32)) ((97 # map of_char (fmt_d 2 5) @ [98]) @ [0]))"
proof -
  have "length (fmt_d 2 5) = 2" by code_simp
  then show ?thesis by (intro size_zero_is_no_bound [OF demo_text]) simp_all
qed

end
