(* ===== verification/KStringProps.thy ===== *)
theory KStringProps imports KString begin

text \<open>The memory routines, with their loops over words, against what they are for; searching in strings.\<close>

subsection \<open>Filling\<close>

definition filled :: "mem \<Rightarrow> nat \<Rightarrow> u8 \<Rightarrow> nat \<Rightarrow> mem" where
  "filled M s d n = (\<lambda>a. if s \<le> a \<and> a < s + n then d else M a)"

lemma filled_0 [simp]: "filled M s d 0 = M"
  by (rule ext) (auto simp: filled_def)

lemma filled_join: "b = a + n \<Longrightarrow> filled (filled M a d n) b d m = filled M a d (n + m)"
  by (auto simp: filled_def fun_eq_iff)

lemma set_bytes_filled: "set_bytes M m d n = filled M m d n"
proof (induction n arbitrary: M m)
  case (Suc n)
  show ?case unfolding set_bytes.simps Suc.IH by (auto simp: filled_def fun_eq_iff)
qed simp

definition four :: "u32 \<Rightarrow> u32" where
  "four d = (let b = push_bit 8 d OR d in b OR push_bit 16 b)"

lemma bit_ff: "bit (0xff :: u32) k = (k < 8)"
proof -
  have m: "(0xff :: u32) = mask 8" by (simp add: mask_eq_exp_minus_1)
  show ?thesis unfolding m bit_mask_iff by auto
qed

lemma four_bytes:
  assumes "d = c AND 0xff"
  shows "ucast (four d) = (ucast d :: u8)" "ucast (drop_bit 8 (four d)) = (ucast d :: u8)"
    "ucast (drop_bit 16 (four d)) = (ucast d :: u8)" "ucast (drop_bit 24 (four d)) = (ucast d :: u8)"
proof -
  have d: "bit d k = (bit c k \<and> k < 8)" for k unfolding assms bit_and_iff bit_ff ..
  have g: "bit (four d) (8 * i + j) = bit d j" if "i < 4" "j < 8" for i j
  proof -
    have "i = 0 \<or> i = 1 \<or> i = 2 \<or> i = 3" using that(1) by auto
    then show ?thesis using that(2) by (elim disjE) (simp_all add: four_def Let_def bit_simps d)
  qed
  have f: "bit (four d) j = bit d j" "bit (four d) (8 + j) = bit d j" "bit (four d) (16 + j) = bit d j" "bit (four d) (24 + j) = bit d j" if "j < 8" for j
    using g [of 0 j] g [of 1 j] g [of 2 j] g [of 3 j] that by simp_all
  show "ucast (four d) = (ucast d :: u8)" "ucast (drop_bit 8 (four d)) = (ucast d :: u8)"
    "ucast (drop_bit 16 (four d)) = (ucast d :: u8)" "ucast (drop_bit 24 (four d)) = (ucast d :: u8)"
    by (rule bit_word_eqI; simp add: bit_simps f)+
qed

lemma put32_four:
  assumes "d = c AND 0xff"
  shows "put32 M a (four d) = filled M a (ucast d) 4"
  unfolding put32_def four_bytes [OF assms] by (rule ext) (auto simp: filled_def)

lemma set_words4_filled:
  assumes "d = c AND 0xff"
  shows "set_words4 M a (four d) n = (filled M a (ucast d) (n - n mod 16), a + (n - n mod 16), n mod 16)"
proof (induction M a "four d" n rule: set_words4.induct)
  case (1 M a n)
  show ?case
  proof (cases "16 \<le> n")
    case True
    have p: "put32 (put32 (put32 (put32 M a (four d)) (a + 4) (four d)) (a + 8) (four d)) (a + 12) (four d) = filled M a (ucast d) 16"
      unfolding put32_four [OF assms] by (simp add: filled_join)
    obtain q where q: "n = 16 + q" using True le_Suc_ex by blast
    have e: "16 + (q - q mod 16) = 16 + q - q mod 16" "a + 16 + (q - q mod 16) = a + (16 + q - q mod 16)" by simp_all
    show ?thesis unfolding set_words4.simps [of M a "four d" n] using 1 [OF True] p e by (simp add: q filled_join)
  qed (simp add: set_words4.simps)
qed

lemma set_words_filled:
  assumes "d = c AND 0xff"
  shows "set_words M a (four d) n = (filled M a (ucast d) (n - n mod 4), a + (n - n mod 4), n mod 4)"
proof (induction M a "four d" n rule: set_words.induct)
  case (1 M a n)
  show ?case
  proof (cases "4 \<le> n")
    case True
    then obtain q where q: "n = 4 + q" using le_Suc_ex by blast
    have e: "4 + (q - q mod 4) = 4 + q - q mod 4" "a + 4 + (q - q mod 4) = a + (4 + q - q mod 4)" by simp_all
    show ?thesis unfolding set_words.simps [of M a "four d" n] using 1 [OF True] put32_four [OF assms, of M a] e by (simp add: q filled_join)
  qed (simp add: set_words.simps)
qed

text \<open>\<open>rt_memset\<close>, by words where it can, sets the bytes of the block and no others.\<close>

theorem memset_fills: "rt_memset M s c n = filled M s (ucast c) n"
proof -
  define d where d: "d = c AND 0xff"
  have u: "(ucast d :: u8) = ucast c"
  proof (rule bit_word_eqI)
    fix k assume "k < LENGTH(8)"
    moreover have "bit d k = (bit c k \<and> k < 8)" unfolding d bit_and_iff bit_ff ..
    ultimately show "bit (ucast d :: u8) k = bit (ucast c :: u8) k" by (simp add: bit_simps)
  qed
  have f: "(push_bit 8 d OR d) OR push_bit 16 (push_bit 8 d OR d) = four d" by (simp add: four_def Let_def)
  have y: "n mod 16 mod 4 = n mod 4" by (simp add: mod_mod_cancel)
  have le: "n mod 4 \<le> n mod 16" "n mod 16 \<le> n" using mod_less_eq_dividend [of "n mod 16" 4] y by simp_all
  then have n: "s + (n - n mod 16) + (n mod 16 - n mod 4) = s + (n - n mod 4)" "(n - n mod 16) + (n mod 16 - n mod 4) = n - n mod 4"
    "(n - n mod 4) + n mod 4 = n" "(n - n mod 16) + ((n mod 16 - n mod 4) + n mod 4) = n"
    by linarith+
  show ?thesis
    unfolding rt_memset_def Let_def d [symmetric] f set_words4_filled [OF d] set_words_filled [OF d] prod.case set_bytes_filled
      y n(1) filled_join [OF refl] n(2-4) u by simp
qed

subsection \<open>Copying\<close>

definition copied :: "mem \<Rightarrow> nat \<Rightarrow> nat \<Rightarrow> nat \<Rightarrow> mem" where
  "copied M d s n = (\<lambda>a. if d \<le> a \<and> a < d + n then M (s + (a - d)) else M a)"

text \<open>Copying upwards does not read what it has written.\<close>

definition upward :: "nat \<Rightarrow> nat \<Rightarrow> nat \<Rightarrow> bool" where
  "upward d s n = (d \<le> s \<or> s + n \<le> d)"

lemma copied_join: "upward d s (n + m) \<Longrightarrow> copied (copied M d s n) (d + n) (s + n) m = copied M d s (n + m)"
  by (rule ext) (auto simp: copied_def upward_def)

lemma copied_0 [simp]: "copied M d s 0 = M"
  by (rule ext) (auto simp: copied_def)

lemma copied_1: "M(d := M s) = copied M d s 1"
  by (rule ext) (auto simp: copied_def)

lemma copy_bytes_copied: "upward d s n \<Longrightarrow> copy_bytes M d s n = copied M d s n"
proof (induction n arbitrary: M d s)
  case (Suc n)
  have "upward (d + 1) (s + 1) n" using Suc.prems by (auto simp: upward_def)
  then show ?case using Suc.IH Suc.prems copied_join [of d s 1 n M] by (simp add: copied_1)
qed simp

lemma copy32_copied: "copy32 M d s = copied M d s 4"
proof -
  let ?w = "get32 M s"
  have "?w = u32_at 0 [M s, M (s + 1), M (s + 2), M (s + 3)]" by (simp add: get32_def u32_at_def eval_nat_numeral)
  then have "le32 ?w = [M s, M (s + 1), M (s + 2), M (s + 3)]" by (simp add: le32_u32_at)
  then have w: "ucast ?w = M s" "ucast (drop_bit 8 ?w) = M (s + 1)" "ucast (drop_bit 16 ?w) = M (s + 2)" "ucast (drop_bit 24 ?w) = M (s + 3)"
    by (simp_all add: le32_def)
  have "x = d \<or> x = d + 1 \<or> x = d + 2 \<or> x = d + 3" if "d \<le> x" "x < d + 4" for x using that by auto
  then show ?thesis unfolding copy32_def put32_def w by (intro ext) (auto simp: copied_def)
qed

lemma copied_4: "copied (copied (copied (copied M d s 4) (d + 4) (s + 4) 4) (d + 8) (s + 8) 4) (d + 12) (s + 12) 4 = copied M d s 16"
  if "upward d s 16"
proof -
  have u: "upward d s (4 + 4)" "upward d s (8 + 4)" "upward d s (12 + 4)" using that by (auto simp: upward_def)
  show ?thesis using copied_join [OF u(1), of M] copied_join [OF u(2), of M] copied_join [OF u(3), of M] by simp
qed

lemma copy_words4_copied:
  "upward d s n \<Longrightarrow> copy_words4 M d s n = (copied M d s (n - n mod 16), d + (n - n mod 16), s + (n - n mod 16), n mod 16)"
proof (induction M d s n rule: copy_words4.induct)
  case (1 M d s n)
  show ?case
  proof (cases "16 \<le> n")
    case True
    obtain q where q: "n = 16 + q" using True le_Suc_ex by blast
    have u: "upward d s 16" "upward (d + 16) (s + 16) q" "upward d s (16 + (q - q mod 16))"
      using "1.prems" unfolding q upward_def by auto
    have p: "copy32 (copy32 (copy32 (copy32 M d s) (d + 4) (s + 4)) (d + 8) (s + 8)) (d + 12) (s + 12) = copied M d s 16"
      unfolding copy32_copied by (rule copied_4 [OF u(1)])
    have e: "16 + (q - q mod 16) = 16 + q - q mod 16" "x + 16 + (q - q mod 16) = x + (16 + q - q mod 16)" for x by simp_all
    have "copy_words4 (copied M d s 16) (d + 16) (s + 16) q
      = (copied (copied M d s 16) (d + 16) (s + 16) (q - q mod 16), d + 16 + (q - q mod 16), s + 16 + (q - q mod 16), q mod 16)"
      using "1.IH" [OF True] u(2) unfolding p by (simp add: q)
    then show ?thesis unfolding copy_words4.simps [of M d s n] using True copied_join [OF u(3), of M] by (simp add: p e q)
  qed (simp add: copy_words4.simps)
qed

lemma copy_words_copied:
  "upward d s n \<Longrightarrow> copy_words M d s n = (copied M d s (n - n mod 4), d + (n - n mod 4), s + (n - n mod 4), n mod 4)"
proof (induction M d s n rule: copy_words.induct)
  case (1 M d s n)
  show ?case
  proof (cases "4 \<le> n")
    case True
    obtain q where q: "n = 4 + q" using True le_Suc_ex by blast
    have u: "upward (d + 4) (s + 4) q" "upward d s (4 + (q - q mod 4))"
      using "1.prems" unfolding q upward_def by auto
    have e: "4 + (q - q mod 4) = 4 + q - q mod 4" "x + 4 + (q - q mod 4) = x + (4 + q - q mod 4)" for x by simp_all
    have "copy_words (copied M d s 4) (d + 4) (s + 4) q
      = (copied (copied M d s 4) (d + 4) (s + 4) (q - q mod 4), d + 4 + (q - q mod 4), s + 4 + (q - q mod 4), q mod 4)"
      using "1.IH" [OF True] u(1) unfolding copy32_copied by (simp add: q)
    then show ?thesis unfolding copy_words.simps [of M d s n] using True copied_join [OF u(2), of M] by (simp add: copy32_copied e q)
  qed (simp add: copy_words.simps)
qed

lemma memcpy_copied:
  assumes "upward d s n"
  shows "rt_memcpy M d s n = copied M d s n"
proof -
  let ?a = "n - n mod 16" and ?x = "n mod 16" and ?y = "n mod 4"
  have y: "?x mod 4 = ?y" by (simp add: mod_mod_cancel)
  have le: "?y \<le> ?x" "?x \<le> n" using mod_less_eq_dividend [of ?x 4] y by simp_all
  have u: "upward (d + ?a) (s + ?a) ?x" "upward d s (?a + (?x - ?y))" "upward (d + (?a + (?x - ?y))) (s + (?a + (?x - ?y))) ?y" "upward d s ((?a + (?x - ?y)) + ?y)"
    using assms le by (auto simp: upward_def)
  have n: "(?a + (?x - ?y)) + ?y = n" "d + ?a + (?x - ?y) = d + (?a + (?x - ?y))" "s + ?a + (?x - ?y) = s + (?a + (?x - ?y))" using le by simp_all
  show ?thesis
    unfolding rt_memcpy_def copy_words4_copied [OF assms] prod.case copy_words_copied [OF u(1)] y copied_join [OF u(2)] n(2,3)
      copy_bytes_copied [OF u(3)] copied_join [OF u(4)] copy_bytes_copied [OF assms] n(1) by simp
qed

lemma copy_back_copied: "s < d \<Longrightarrow> copy_back M (d + n) (s + n) n = copied M d s n"
proof (induction n arbitrary: M)
  case (Suc n)
  have "copy_back M (d + Suc n) (s + Suc n) (Suc n) = copied (M(d + n := M (s + n))) d s n" using Suc by simp
  also have "\<dots> = copied M d s (Suc n)"
    by (rule ext) (use Suc.prems in \<open>auto simp: copied_def less_Suc_eq\<close>)
  finally show ?case .
qed simp

lemma memmove_copied: "rt_memmove M d s n = copied M d s n"
proof (cases "s < d \<and> d < s + n")
  case True
  then show ?thesis by (simp add: rt_memmove_def copy_back_copied)
next
  case False
  then have "upward d s n" by (auto simp: upward_def)
  then have "copy_bytes M d s n = copied M d s n" by (rule copy_bytes_copied)
  then show ?thesis unfolding rt_memmove_def using False by (simp only: if_False)
qed

text \<open>C38: \<open>rt_memcpy\<close>, by words where it can, moves the block as \<open>rt_memmove\<close> does, unless the target begins inside the
  source.\<close>

theorem memcpy_is_memmove:
  assumes "upward d s n"
  shows "rt_memcpy M d s n = rt_memmove M d s n \<and> rt_memmove M d s n = copied M d s n"
  by (simp add: memcpy_copied [OF assms] memmove_copied)

theorem memcpy_is_memmove_witness:
  "rt_memcpy (\<lambda>a. of_nat a) 100 104 23 = rt_memmove (\<lambda>a. of_nat a) 100 104 23 \<and> rt_memmove (\<lambda>a. of_nat a) 100 104 23 = copied (\<lambda>a. of_nat a) 100 104 23"
  by (rule memcpy_is_memmove) (simp add: upward_def)

subsection \<open>Searching\<close>

definition c_string :: "bytes \<Rightarrow> bytes \<Rightarrow> bool" where
  "c_string b t = (0 \<notin> set t \<and> (\<exists>r. b = t @ 0 # r))"

lemma strlen_string: "c_string b t \<Longrightarrow> rt_strlen b = Some (length t)"
proof -
  assume "c_string b t"
  then obtain r where b: "b = t @ 0 # r" "0 \<notin> set t" by (auto simp: c_string_def)
  show ?thesis using b(2) unfolding b(1) by (induction t) auto
qed

text \<open>The first place where the pattern stands in the text.\<close>

definition first_place :: "bytes \<Rightarrow> bytes \<Rightarrow> nat option" where
  "first_place p t = find (\<lambda>k. take (length p) (drop k t) = p) [0..<Suc (length t)]"

lemma find_none: "(\<And>k. k \<in> set ks \<Longrightarrow> \<not> P k) \<Longrightarrow> find P ks = None"
  by (simp add: find_None_iff)

lemma strstr_loop_place:
  assumes "p \<noteq> []" "k \<le> length t"
  shows "strstr_loop (drop k t @ 0 # r) (p @ 0 # q) (length (drop k t)) (length p) k
    = find (\<lambda>j. take (length p) (drop j t) = p) [k..<Suc (length t)]"
  using assms(2)
proof (induction "length t - k" arbitrary: k)
  case 0
  then have "k = length t" by simp
  then show ?case using assms(1) by simp
next
  case (Suc n)
  have l: "length (drop k t) = Suc n" "k < length t" using Suc.hyps(2) by simp_all
  have d: "tl (drop k t @ 0 # r) = drop (Suc k) t @ 0 # r" using l(2) by (simp add: drop_Suc tl_append2 tl_drop)
  have u: "[k..<Suc (length t)] = k # [Suc k..<Suc (length t)]" by (rule upt_conv_Cons) (use l in simp)
  have i: "strstr_loop (drop (Suc k) t @ 0 # r) (p @ 0 # q) (length (drop (Suc k) t)) (length p) (Suc k)
    = find (\<lambda>j. take (length p) (drop j t) = p) [Suc k..<Suc (length t)]"
    by (rule Suc.hyps(1)) (use l Suc.hyps(2) in simp_all)
  show ?case
  proof (cases "length (drop k t) < length p")
    case True
    have "take (length p) (drop j t) \<noteq> p" if "j \<in> set [k..<Suc (length t)]" for j
    proof
      assume "take (length p) (drop j t) = p"
      then have "length p \<le> length (drop j t)" by (metis length_take min.cobounded1)
      then show False using that True by (simp del: upt_Suc) linarith
    qed
    then have "find (\<lambda>j. take (length p) (drop j t) = p) [k..<Suc (length t)] = None" by (rule find_none)
    then show ?thesis using True unfolding l(1) by simp
  next
    case False
    then have "take (length p) (drop k t @ 0 # r) = take (length p) (drop k t)" by simp
    moreover have "length (drop (Suc k) t) = n" using l by simp
    ultimately show ?thesis using False i unfolding l(1) u by (simp add: d del: upt_Suc)
  qed
qed

text \<open>\<open>rt_strstr\<close> on two terminated strings reads inside them and gives the first place where the second stands in the first,
  or none.\<close>

theorem strstr_finds_first:
  assumes "c_string b t" "c_string c p"
  shows "rt_strstr b c = Some (first_place p t)"
proof -
  obtain r q where e: "b = t @ 0 # r" "c = p @ 0 # q" using assms by (auto simp: c_string_def)
  have z: "first_place [] t = Some 0" by (simp add: first_place_def upt_conv_Cons del: upt_Suc)
  show ?thesis
    using strstr_loop_place [of p 0 t r q] z unfolding rt_strstr_def strlen_string [OF assms(1)] strlen_string [OF assms(2)]
    by (cases "p = []") (simp_all add: e first_place_def del: upt_Suc)
qed

theorem strstr_finds_first_witness:
  "rt_strstr ([1, 2, 1, 3] @ 0 # [9]) ([1, 3] @ 0 # []) = Some (first_place [1, 3] [1, 2, 1, 3])"
  by (rule strstr_finds_first) (auto simp: c_string_def)

end
