(* ===== verification/Spec2Isabelle.thy ===== *)
theory Spec2Isabelle imports RfidProps FsProps DeviceConfig MemProps EspProps FingerProps DfsDirs RingProps EspInit SerialProps MemPoolProps KPrintfProps KStringProps begin

text \<open>
The access control terminal of the repository: a board with an STM32F103 that reads cards at two readers, looks the
user up in a database on its file system, decides whether the door opens, logs the passage, and talks over a WiFi
module to a server that adds and deletes users, fetches the log and sets the clock.  The application
(src/bsp/stm32f10x/applications) runs on drivers of its own (src/bsp/stm32f10x/HardWare) and on the RT-Thread
operating system (src/src, src/components).

\<^bold>\<open>How the parts interact.\<close>  The card thread (rfid_thread.c) polls the readers through rc522.c, which talks to the
reader chips over the SPI framework (spi_core.c, spi_bus.c); a card becomes an event of an RT-Thread event set
(ipc.c), which wakes the checking thread (user_check_thread.c).  That looks the card up in the card table and the
user database (p_database.c), compares the time of the clock chip (ds1307.c over soft_iic.c), pulses the door lines
and appends to the attendance log (att_database.c).  The databases are files, reached through the POSIX-like calls
(dfs_posix.c, dfs_file.c, dfs_fs.c, dfs.c) of a mounted file system, here dfs_ramfs.c.  The WiFi thread
(wifi_thread.c) receives packets from the module over the framed link of esp8266.c and hands the requests of the
server to server_process.c, which works on the same databases and the same clock.  The threads, their waiting lists
and timers are those of the kernel (scheduler.c, thread.c, timer.c, clock.c, irq.c, ipc.c).

\<^bold>\<open>Theories and code.\<close>
  \<^item> Prelude: bytes, windows of buffers, little-endian fields, bounds of word arithmetic.
  \<^item> Platform: what the application needs from below, as a record of functions (the file calls, the CRC unit of
    stm32_crc.c) and the locale \<^theory_text>\<open>posix_files\<close>: reading after writing, lengths, seeks, failures.  Dfs models the
    virtual file system, DfsFiles its contract over a driver (locale \<^theory_text>\<open>byte_driver\<close>), RamFs and RamFsOk the RAM file
    system, which meets it; Board puts them together.  DfsMount: registering and mounting file systems and reading the
    partition table; DfsDirs: directories, and the RAM file system's part in both.
  \<^item> UserInfo, PDatabase, PDatabaseOk, DatabaseProps: p_database.c.  AttDatabase, AttDatabaseOk, AttProps:
    att_database.c.  DeviceConfig: device_config.c.  The packed structures of the C code are records with a map to
    and from their bytes; a database is the list of the records in its file.
  \<^item> SoftIic, Ds1307: the I2C master in software as the list of edges on its lines, read back by a decoder that knows
    only the I2C rules; the driver of the clock chip, and the chip as what it keeps of the bytes it hears.
  \<^item> EspSpi, WifiPack, WifiThread: frames, packets and the receiving thread.  ServerProcess, ServerProps, ServerLog:
    the commands of the server, one definition for each handler.
  \<^item> EspInit: putting the module on the bus, its reset signals, and the interrupts of its two lines (esp8266.c), over a
    small model of the pins and interrupt lines.
  \<^item> EspCmd, EspProps: the commands to the WiFi module, which poll for the packet the receiving thread takes in, and the
    thread that sets the module up (esp8266_cmd.c, wifi_thread.c).
  \<^item> FingerPrint, FingerProps: the driver of the finger print module (finger_print.c).  Its commands take the interrupt of the
    port as an argument, because the driver's own receive handlers are not installed: the vectors of both ports are those
    of usart.c.  The property is what the program does then (every command times out); the lemmas about answers say what
    the driver would do with its own handlers.
  \<^item> UserCheck, TimeText, CheckOk, CheckProps: the checking thread.
  \<^item> Kernel, Ipc, IpcQueues: the kernel as functions of its whole state (the record \<^theory_text>\<open>os\<close>).  A call that waits is split
    where the code calls the scheduler; KernelSys puts the calls, the rest of a waiting call and the tick together as
    one step relation.  KernelFfs, KernelSched, KernelOk, KernelCalls: the invariant and its preservation.
    KernelProps, KernelQueues, IpcProps: their properties.  One call is one step up to where it waits, and ticks come
    between steps: what other interrupts do inside a call, where the code enables them (between suspending a thread and
    calling the scheduler, and while the data of a message are copied in rt_mq_send and rt_mq_recv), is not modelled.
  \<^item> MemHeap: the first-fit allocator (mem.c) over the bytes it manages.  MemHeapOk, MemLive: the chain of blocks as an
    invariant, and the heap as a map from addresses to the contents of the blocks of the clients (locale
    \<^theory_text>\<open>block_store\<close>, interpreted on the allocator).  MemProps: its properties.
  \<^item> Objects, ObjectProps: the named objects, the devices and the idle thread (object.c, device.c, idle.c).  What the idle
    thread frees goes back to the heap of MemHeap, whose blocks the property follows; an object is created with the memory
    it is given.  The functions of a driver work on the state of the drivers and do not change the record of a device: the
    serial driver, which writes \<^theory_text>\<open>open_flag\<close> and \<^theory_text>\<open>flag\<close> there, has its own copy in Serial.  SpiDev: the SPI bus and
    its devices in the device framework.
  \<^item> DeviceIpc, DeviceIpcProps: completions, data queues, work queues and pipes (components/drivers/src), which wait and wake
    through the kernel; the data queue is one more interpretation of \<^theory_text>\<open>bounded_queue\<close>.  Serial, SerialProps: the serial
    devices (serial.c) over a port as unknown hardware, with the DMA interrupt routines of usart.c.
  \<^item> MemPool, MemPoolProps: the pools of blocks (mempool.c) beside the kernel's state, with the free list as a chain of
    addresses and the locale \<^theory_text>\<open>block_pool\<close> for what the clients see.
  \<^item> KString, KStringProps: the memory and string routines of kservice.c over a memory of bytes.  KPrintf, KPrintfProps:
    formatted text, the directives of a format first read to items and then written.  RingBuffer, RingProps:
    ringbuffer.c as a queue of bytes (locale \<^theory_text>\<open>byte_fifo\<close>).
  \<^item> SpiBus, Rc522, Rc522Ok, Rc522Chip, Rc522Read: the SPI framework and the driver of the readers, over unknown
    hardware (\<^theory_text>\<open>spi_env\<close>), and over a model of the reader chip as its data sheet describes the registers in use.
    CardThreads, RfidProps: the threads around the readers and the way of a card from the reader to the door.

\<^bold>\<open>State, errors, loops.\<close>  Every component has a record for its static and global variables, and each C function is a
function on that record.  Integers keep their width (\<^theory_text>\<open>u8\<close>, \<^theory_text>\<open>u16\<close>, \<^theory_text>\<open>u32\<close>) where they can wrap.  \<^theory_text>\<open>None\<close> is a failed
assertion, a null pointer, or an access outside an array; error codes of the code are values.  Loops over data are
recursions over the data.  Accesses of the reader driver to its arrays are checked (\<^theory_text>\<open>put_in\<close>, \<^theory_text>\<open>take_in\<close>).  Loops whose end depends on the state (the timer interrupt, waking all waiting threads)
are partial functions, and the theorems that use them show that they end.

\<^bold>\<open>Bounds.\<close>  The polling loop of the reader driver counts down from 256 as in the code.  How often the WiFi module is
asked before it is ready, whether memory can be had, what a buffer on the stack held before, and what the hardware
answers are arguments of the model, so a theorem holds for all of them.

\<^bold>\<open>What the lemmas show.\<close>  The files ending in \<^theory_text>\<open>Ok\<close> hold the invariants and the behaviour of each operation over the
abstract state (a list of records, a list of waiting threads, a bounded queue, a map of files); the files ending in
\<^theory_text>\<open>Props\<close> hold the properties of the component, each stated over the code's definitions.  The properties that span
components are card_at_reader_opens_door (reader, driver, bus, events, check, databases, door),
exchange_carries_out_request (link, packets, thread, server, database) and ramfs_meets_contract (POSIX calls, virtual
file system, RAM file system).

\<^bold>\<open>Not modelled.\<close>  Delays, printing and the screens; the start of the system and the interrupt entry code; the registers
behind the GPIO, SPI and timer units other than as unknown hardware (the lines of the WiFi module apart); the file systems and network stacks that the
terminal does not use; vendored libraries, demos and fonts.  The listed components say why.
\<close>

end
